(* ===== verification/Purity_Prelude.thy ===== *)
theory Purity_Prelude
  imports Main "HOL-Library.Word"
begin

text \<open>
  Shared vocabulary of the development: the machine types of the C++ sources, outcomes of code
  that may throw or run into undefined behaviour, the object representation of integers in
  memory, decimal printing, and the list lemmas the components share.
\<close>

unbundle bit_operations_syntax

named_theorems outcome_simps \<open>unfolding and inversion rules of the result combinators\<close>
named_theorems codec_simps \<open>what the write operations append and the read operations return\<close>

subsection \<open>Machine types\<close>

text \<open>
  \<open>std::string\<close> is a sequence of bytes, exactly like \<open>std::vector<uint8_t>\<close>. A \<open>size_t\<close> is a
  \<^typ>\<open>nat\<close>; where the code adds two of them and a wrap-around is observable, the reduction modulo
  \<open>2 ^ 64\<close> is written out.
\<close>

type_synonym byte = "8 word"
type_synonym bytes = "byte list"
type_synonym u16 = "16 word"
type_synonym u32 = "32 word"
type_synonym u64 = "64 word"

definition size_t_range :: nat where
  "size_t_range = 2 ^ 64"

text \<open>Unsigned subtraction of two \<open>size_t\<close> values wraps around.\<close>

definition size_t_sub :: "nat \<Rightarrow> nat \<Rightarrow> nat" where
  "size_t_sub a b = (a + size_t_range - b) mod size_t_range"

lemma size_t_sub_exact [simp]: "b \<le> a \<Longrightarrow> a < size_t_range \<Longrightarrow> size_t_sub a b = a - b"
proof -
  assume "b \<le> a" and "a < size_t_range"
  then have "a + size_t_range - b = (a - b) + size_t_range" and "a - b < size_t_range"
    by linarith+
  then show ?thesis by (simp only: size_t_sub_def mod_add_self2 mod_less)
qed

subsection \<open>Outcomes\<close>

text \<open>
  A C++ function that may fail ends in one of three ways: it returns, it throws an exception that
  a \<open>catch (const std::exception &)\<close> can handle, or it has undefined behaviour, which nothing
  can handle.
\<close>

datatype exn =
    out_of_range string
  | runtime_error string
  | invalid_argument string
  | broken_connection
  | spdlog_ex bytes

datatype fault = Thrown exn | Undefined

type_synonym 'a result = "fault + 'a"

definition rbind :: "'a result \<Rightarrow> ('a \<Rightarrow> 'b result) \<Rightarrow> 'b result" where
  "rbind m f = (case m of Inl e \<Rightarrow> Inl e | Inr x \<Rightarrow> f x)"

text \<open>\<open>try m catch (std::exception) h\<close>: undefined behaviour is not caught.\<close>

definition rcatch :: "'a result \<Rightarrow> (exn \<Rightarrow> 'a result) \<Rightarrow> 'a result" where
  "rcatch m h = (case m of Inl (Thrown e) \<Rightarrow> h e | _ \<Rightarrow> m)"

lemma rbind_simps [simp]:
  "rbind (Inr x) f = f x"
  "rbind (Inl e) f = Inl e"
  by (simp_all add: rbind_def)

lemma rcatch_simps [simp]:
  "rcatch (Inr x) h = Inr x"
  "rcatch (Inl (Thrown e)) h = h e"
  "rcatch (Inl Undefined) h = Inl Undefined"
  by (simp_all add: rcatch_def)

lemma rbind_Inr_iff [outcome_simps]:
  "rbind m f = Inr y \<longleftrightarrow> (\<exists>x. m = Inr x \<and> f x = Inr y)"
  by (cases m) auto

lemma rbind_Inl_iff [outcome_simps]:
  "rbind m f = Inl e \<longleftrightarrow> m = Inl e \<or> (\<exists>x. m = Inr x \<and> f x = Inl e)"
  by (cases m) auto

lemma rbind_assoc: "rbind (rbind m f) g = rbind m (\<lambda>x. rbind (f x) g)"
  by (cases m) auto

lemma rcatch_not_thrown:
  "(\<And>e. h e \<noteq> Inl (Thrown e')) \<Longrightarrow> rcatch m h \<noteq> Inl (Thrown e')"
  by (auto simp: rcatch_def split: sum.splits fault.splits)

text \<open>
  Operations that also change a state: what was changed before a throw stays changed, as in C++
  where nothing is rolled back.
\<close>

type_synonym ('s, 'a) op = "'s \<Rightarrow> 'a result \<times> 's"

definition sreturn :: "'a \<Rightarrow> ('s, 'a) op" where
  "sreturn x s = (Inr x, s)"

definition sthrow :: "exn \<Rightarrow> ('s, 'a) op" where
  "sthrow e s = (Inl (Thrown e), s)"

definition sbind :: "('s, 'a) op \<Rightarrow> ('a \<Rightarrow> ('s, 'b) op) \<Rightarrow> ('s, 'b) op" where
  "sbind m f s = (case m s of (Inl e, t) \<Rightarrow> (Inl e, t) | (Inr x, t) \<Rightarrow> f x t)"

definition slift :: "'a result \<Rightarrow> ('s, 'a) op" where
  "slift r s = (r, s)"

definition supdate :: "('s \<Rightarrow> 's) \<Rightarrow> ('s, unit) op" where
  "supdate f s = (Inr (), f s)"

definition sget :: "('s \<Rightarrow> 'a) \<Rightarrow> ('s, 'a) op" where
  "sget f s = (Inr (f s), s)"

definition scatch :: "('s, 'a) op \<Rightarrow> (exn \<Rightarrow> ('s, 'a) op) \<Rightarrow> ('s, 'a) op" where
  "scatch m h s = (case m s of (Inl (Thrown e), t) \<Rightarrow> h e t | r \<Rightarrow> r)"

lemmas op_defs = sreturn_def sthrow_def sbind_def slift_def supdate_def sget_def scatch_def

lemma sbind_simps [simp]:
  "m s = (Inr x, t) \<Longrightarrow> sbind m f s = f x t"
  "m s = (Inl e, t) \<Longrightarrow> sbind m f s = (Inl e, t)"
  by (simp_all add: sbind_def)

lemma op_steps [simp]:
  "sbind (sreturn x) f s = f x s"
  "sbind (sthrow e) g s = (Inl (Thrown e), s)"
  "sbind (slift (Inr x)) f s = f x s"
  "sbind (slift (Inl e')) g s = (Inl e', s)"
  "sbind (supdate u) h s = h () (u s)"
  "sbind (sget q) k s = k (q s) s"
  by (simp_all add: op_defs)

lemma sbind_eq [outcome_simps]:
  "sbind m f s = (r, t) \<longleftrightarrow>
     (\<exists>e. m s = (Inl e, t) \<and> r = Inl e) \<or> (\<exists>x u. m s = (Inr x, u) \<and> f x u = (r, t))"
  by (auto simp: sbind_def split: prod.splits sum.splits)

text \<open>
  An operation keeps a property of the state when every outcome does, and it is defined when no
  outcome is undefined behaviour.
\<close>

definition keeps :: "('s \<Rightarrow> bool) \<Rightarrow> ('s, 'a) op \<Rightarrow> bool" where
  "keeps I m \<longleftrightarrow> (\<forall>s. I s \<longrightarrow> I (snd (m s)))"

definition defined :: "('s, 'a) op \<Rightarrow> bool" where
  "defined m \<longleftrightarrow> (\<forall>s. fst (m s) \<noteq> Inl Undefined)"

named_theorems keeps_rules \<open>operations keep properties of the state\<close>
named_theorems defined_rules \<open>operations are free of undefined behaviour\<close>

lemma keepsD: "keeps I m \<Longrightarrow> I s \<Longrightarrow> m s = (r, t) \<Longrightarrow> I t"
  by (force simp: keeps_def)

lemma keeps_basic [keeps_rules]:
  "keeps I (sreturn x)" "keeps I (sthrow e)" "keeps I (slift q)" "keeps I (sget f)"
  by (simp_all add: keeps_def op_defs)

lemma keeps_sbind [keeps_rules]: "keeps I m \<Longrightarrow> (\<And>x. keeps I (f x)) \<Longrightarrow> keeps I (sbind m f)"
  by (auto simp: keeps_def sbind_def split: prod.split sum.split)

lemma keeps_scatch [keeps_rules]: "keeps I m \<Longrightarrow> (\<And>e. keeps I (h e)) \<Longrightarrow> keeps I (scatch m h)"
  by (auto simp: keeps_def scatch_def split: prod.split sum.split fault.split)

lemma defined_basic [defined_rules]:
  "defined (sreturn x)" "defined (sthrow e)" "defined (sget f)" "defined (supdate g)"
  by (simp_all add: defined_def op_defs)

lemma defined_slift: "q \<noteq> Inl Undefined \<Longrightarrow> defined (slift q)"
  by (simp add: defined_def slift_def)

lemma defined_sbind [defined_rules]:
  "defined m \<Longrightarrow> (\<And>x. defined (f x)) \<Longrightarrow> defined (sbind m f)"
  by (auto simp: defined_def sbind_def split: prod.split sum.split) (metis fst_conv)

lemma defined_slift_sbind:
  assumes "q \<noteq> Inl Undefined" "\<And>x. q = Inr x \<Longrightarrow> defined (f x)"
  shows "defined (sbind (slift q) f)"
  using assms by (cases q) (auto simp: defined_def)

lemma defined_scatch [defined_rules]:
  "defined m \<Longrightarrow> (\<And>e. defined (h e)) \<Longrightarrow> defined (scatch m h)"
  by (auto simp: defined_def scatch_def split: prod.split sum.split fault.split) (metis fst_conv)+

text \<open>When the handlers cannot throw, nor can the guarded operation.\<close>

lemma scatch_Inr:
  assumes "defined m" "\<And>e s. \<exists>x t. h e s = (Inr x, t)"
  shows "\<exists>x t. scatch m h s = (Inr x, t)"
proof (cases "m s")
  case (Pair q t)
  have "q \<noteq> Inl Undefined" using assms(1) Pair by (metis defined_def fst_conv)
  then show ?thesis using assms(2) Pair
    by (cases q) (auto simp: scatch_def split: fault.splits)
qed

subsection \<open>Integers in memory\<close>

text \<open>
  The bytes of a word from the least significant one up, and back. \<open>obj_rep\<close> is the object
  representation of a word on a host of the given byte order, which is what \<open>memcpy\<close> moves
  between an integer variable and a byte vector.
\<close>

datatype endian = Little_Endian | Big_Endian

definition le_bytes :: "'a::len word \<Rightarrow> bytes" where
  "le_bytes w = map (\<lambda>i. ucast (drop_bit (8 * i) w)) [0..<LENGTH('a) div 8]"

primrec of_le_bytes :: "bytes \<Rightarrow> 'a::len word" where
  "of_le_bytes [] = 0"
| "of_le_bytes (b # bs) = ucast b OR push_bit 8 (of_le_bytes bs)"

definition obj_rep :: "endian \<Rightarrow> 'a::len word \<Rightarrow> bytes" where
  "obj_rep h w = (case h of Little_Endian \<Rightarrow> le_bytes w | Big_Endian \<Rightarrow> rev (le_bytes w))"

definition of_obj_rep :: "endian \<Rightarrow> bytes \<Rightarrow> 'a::len word" where
  "of_obj_rep h bs =
     (case h of Little_Endian \<Rightarrow> of_le_bytes bs | Big_Endian \<Rightarrow> of_le_bytes (rev bs))"

text \<open>The byte-swapping functions of \<open><endian.h>\<close>, at any width that is a multiple of 8.\<close>

definition bswap :: "'a::len word \<Rightarrow> 'a word" where
  "bswap w = of_le_bytes (rev (le_bytes w))"

definition htobe :: "endian \<Rightarrow> 'a::len word \<Rightarrow> 'a word" where
  "htobe h w = (case h of Little_Endian \<Rightarrow> bswap w | Big_Endian \<Rightarrow> w)"

definition htole :: "endian \<Rightarrow> 'a::len word \<Rightarrow> 'a word" where
  "htole h w = (case h of Little_Endian \<Rightarrow> w | Big_Endian \<Rightarrow> bswap w)"

definition betoh :: "endian \<Rightarrow> 'a::len word \<Rightarrow> 'a word" where
  "betoh h w = (case h of Little_Endian \<Rightarrow> bswap w | Big_Endian \<Rightarrow> w)"

definition letoh :: "endian \<Rightarrow> 'a::len word \<Rightarrow> 'a word" where
  "letoh h w = (case h of Little_Endian \<Rightarrow> w | Big_Endian \<Rightarrow> bswap w)"

lemma length_le_bytes [simp]: "length (le_bytes (w :: 'a::len word)) = LENGTH('a) div 8"
  by (simp add: le_bytes_def)

lemma bit_of_le_bytes:
  "bit (of_le_bytes bs :: 'a::len word) n \<longleftrightarrow>
     n < LENGTH('a) \<and> n div 8 < length bs \<and> bit (bs ! (n div 8)) (n mod 8)"
proof (induction bs arbitrary: n)
  case Nil
  then show ?case by simp
next
  case (Cons b bs)
  show ?case
  proof (cases "n < 8")
    case True
    then show ?thesis
      by (auto simp: bit_or_iff bit_push_bit_iff bit_unsigned_iff)
  next
    case False
    then have n: "n div 8 = Suc ((n - 8) div 8)" "n mod 8 = (n - 8) mod 8"
      by (simp_all add: div_if mod_if)
    have "\<not> bit (b :: byte) n"
      using False by (auto dest: bit_imp_le_length)
    with False show ?thesis
      by (auto simp: bit_or_iff bit_push_bit_iff bit_unsigned_iff Cons.IH n)
  qed
qed

lemma of_le_bytes_le_bytes:
  fixes w :: "'a::len word"
  assumes "8 dvd LENGTH('a)"
  shows "of_le_bytes (le_bytes w) = w"
proof (rule bit_word_eqI)
  fix n assume n: "n < LENGTH('a)"
  from assms n have "n div 8 < LENGTH('a) div 8"
    by (metis div_less_iff_less_mult dvd_div_mult_self zero_less_numeral)
  with n show "bit (of_le_bytes (le_bytes w) :: 'a word) n \<longleftrightarrow> bit w n"
    by (simp add: bit_of_le_bytes le_bytes_def bit_unsigned_iff bit_drop_bit_eq)
qed

lemma le_bytes_of_le_bytes:
  assumes "8 dvd LENGTH('a::len)" and "length bs = LENGTH('a) div 8"
  shows "le_bytes (of_le_bytes bs :: 'a word) = bs"
proof (rule nth_equalityI)
  show "length (le_bytes (of_le_bytes bs :: 'a word)) = length bs"
    using assms(2) by simp
next
  fix i assume "i < length (le_bytes (of_le_bytes bs :: 'a word))"
  then have i: "i < LENGTH('a) div 8" by simp
  show "le_bytes (of_le_bytes bs :: 'a word) ! i = bs ! i"
  proof (rule bit_word_eqI)
    fix n assume "n < LENGTH(8)"
    then have n: "n < 8" by simp
    with i have "8 * i + n < LENGTH('a)" by linarith
    moreover have "(8 * i + n) div 8 = i" "(8 * i + n) mod 8 = n"
      using n by simp_all
    ultimately show "bit (le_bytes (of_le_bytes bs :: 'a word) ! i) n = bit (bs ! i) n"
      using i n assms(2)
      by (simp add: le_bytes_def bit_unsigned_iff bit_drop_bit_eq bit_of_le_bytes)
  qed
qed

lemma bswap_bswap: "8 dvd LENGTH('a::len) \<Longrightarrow> bswap (bswap (w :: 'a word)) = w"
  by (simp add: bswap_def le_bytes_of_le_bytes of_le_bytes_le_bytes)

text \<open>
  Whatever the byte order of the host, converting and copying gives the network order: the
  conversion functions of \<open><endian.h>\<close> and \<open>memcpy\<close> cancel.
\<close>

lemma obj_rep_htobe:
  "8 dvd LENGTH('a::len) \<Longrightarrow> obj_rep h (htobe h (w :: 'a word)) = rev (le_bytes w)"
  by (cases h) (simp_all add: obj_rep_def htobe_def bswap_def le_bytes_of_le_bytes)

lemma obj_rep_htole:
  "8 dvd LENGTH('a::len) \<Longrightarrow> obj_rep h (htole h (w :: 'a word)) = le_bytes w"
  by (cases h) (simp_all add: obj_rep_def htole_def bswap_def le_bytes_of_le_bytes)

lemma betoh_of_obj_rep:
  "8 dvd LENGTH('a::len) \<Longrightarrow> length bs = LENGTH('a) div 8 \<Longrightarrow>
     betoh h (of_obj_rep h bs :: 'a word) = of_le_bytes (rev bs)"
  by (cases h) (simp_all add: of_obj_rep_def betoh_def bswap_def le_bytes_of_le_bytes)

lemma letoh_of_obj_rep:
  "8 dvd LENGTH('a::len) \<Longrightarrow> length bs = LENGTH('a) div 8 \<Longrightarrow>
     letoh h (of_obj_rep h bs :: 'a word) = of_le_bytes bs"
  by (cases h) (simp_all add: of_obj_rep_def letoh_def bswap_def le_bytes_of_le_bytes)

lemma length_obj_rep [simp]: "length (obj_rep h (w :: 'a::len word)) = LENGTH('a) div 8"
  by (cases h) (simp_all add: obj_rep_def)

subsection \<open>Text\<close>

text \<open>A string literal of the sources as bytes, and \<open>std::to_string\<close> of an unsigned value.\<close>

definition str :: "string \<Rightarrow> bytes" where
  "str s = map (\<lambda>c. of_nat (of_char c)) s"

fun dec_digits :: "nat \<Rightarrow> bytes" where
  "dec_digits n =
     (if n < 10 then [of_nat (48 + n)] else dec_digits (n div 10) @ [of_nat (48 + n mod 10)])"

declare dec_digits.simps [simp del]

definition dec_value :: "bytes \<Rightarrow> nat" where
  "dec_value ds = foldl (\<lambda>acc d. 10 * acc + (unat d - 48)) 0 ds"

lemma unat_byte_less [simp]: "unat (b :: byte) < 256"
  by (rule order_less_le_trans[OF unsigned_less]) simp

lemma unat_of_nat_byte [simp]: "n < 256 \<Longrightarrow> unat (of_nat n :: byte) = n"
  by (simp add: unat_of_nat)

lemma dec_digits_range: "set (dec_digits n) \<subseteq> {d. 48 \<le> unat d \<and> unat d \<le> 57}"
proof (induction n rule: dec_digits.induct)
  case (1 n)
  have "n mod 10 < 10" by simp
  then show ?case
    using "1" by (subst dec_digits.simps) (auto simp: unat_of_nat_byte simp del: of_nat_add)
qed

lemma dec_value_digits [simp]: "dec_value (dec_digits n) = n"
proof (induction n rule: dec_digits.induct)
  case (1 n)
  have "n mod 10 < 10" by simp
  then show ?case
    using "1" by (subst dec_digits.simps)
       (auto simp: dec_value_def simp del: of_nat_add)
qed

subsection \<open>Big-endian naturals\<close>

text \<open>The value of a byte string, most significant byte first, and the shortest such string.\<close>

definition be_nat :: "bytes \<Rightarrow> nat" where
  "be_nat bs = foldl (\<lambda>acc b. 256 * acc + unat b) 0 bs"

fun nat_be :: "nat \<Rightarrow> bytes" where
  "nat_be n = (if n = 0 then [] else nat_be (n div 256) @ [of_nat (n mod 256)])"

declare nat_be.simps [simp del]

lemma be_nat_simps [simp]: "be_nat [] = 0" "be_nat (bs @ [b]) = 256 * be_nat bs + unat b"
  by (simp_all add: be_nat_def)

lemma be_nat_zeros [simp]: "be_nat (replicate n 0 @ bs) = be_nat bs"
proof (induction bs rule: rev_induct)
  case Nil
  show ?case
  proof (induction n)
    case (Suc n)
    then show ?case by (simp flip: replicate_append_same)
  qed simp
qed (simp flip: append_assoc)

lemma be_nat_less: "be_nat bs < 256 ^ length bs"
proof (induction bs rule: rev_induct)
  case (snoc b bs)
  have "256 * be_nat bs + unat b < 256 * 256 ^ length bs"
    using snoc unat_byte_less[of b] by linarith
  then show ?case by simp
qed simp

lemma be_nat_nat_be [simp]: "be_nat (nat_be n) = n"
proof (induction n rule: nat_be.induct)
  case (1 n)
  then show ?case by (subst nat_be.simps) (auto simp: unat_of_nat_byte)
qed

lemma length_nat_be: "n < 256 ^ k \<Longrightarrow> length (nat_be n) \<le> k"
proof (induction k arbitrary: n)
  case 0
  then show ?case by (simp add: nat_be.simps)
next
  case (Suc k)
  show ?case
  proof (cases "n = 0")
    case False
    from Suc.prems have "n div 256 < 256 ^ k"
      by (simp add: less_mult_imp_div_less mult.commute)
    with Suc.IH False show ?thesis by (subst nat_be.simps) simp
  qed (simp add: nat_be.simps)
qed

subsection \<open>Lists\<close>

lemma take_append_exact [simp]: "n = length xs \<Longrightarrow> take n (xs @ ys) = xs"
  by simp

lemma drop_append_exact [simp]: "n = length xs \<Longrightarrow> drop n (xs @ ys) = ys"
  by simp

lemma drop_eq_appendD: "drop n xs = ys @ zs \<Longrightarrow> drop (n + length ys) xs = zs"
  by (metis add.commute append_eq_conv_conj drop_drop)

lemma drop_eq_append_length:
  "drop n xs = ys @ zs \<Longrightarrow> ys \<noteq> [] \<Longrightarrow> n + length ys \<le> length xs"
  by (metis add_le_cancel_left drop_eq_Nil2 le_add_diff_inverse length_append length_drop
      append_is_Nil_conv le_add1 nat_le_linear)

end
