(* ===== verification/Byte_Buffer.thy ===== *)
theory Byte_Buffer
  imports Purity_Prelude
begin

text \<open>
  \<open>src/common/packet/ByteBuffer.hpp\<close>: a growing byte vector with a read cursor, and the
  fixed-width, boolean, string and raw codecs over it. Multi-byte integers go through the object
  representation of the host and the \<open><endian.h>\<close> conversions, so those operations take the byte
  order \<open>h\<close> of the host; floats are their bit patterns, as \<open>memcpy\<close> sees them. The cursor
  arithmetic of \<open>check_read\<close> and \<open>skip\<close> is modulo \<open>2 ^ 64\<close>, and an access outside the vector is
  undefined behaviour. Allocation failure is not modelled.
\<close>

subsection \<open>State and bounds check\<close>

record byte_buffer =
  bb_buffer :: bytes
  bb_read_pos :: nat

definition bb_empty :: byte_buffer where
  "bb_empty = \<lparr>bb_buffer = [], bb_read_pos = 0\<rparr>"

definition ByteBuffer :: "bytes \<Rightarrow> byte_buffer" where
  "ByteBuffer bs = \<lparr>bb_buffer = bs, bb_read_pos = 0\<rparr>"

datatype ReadSource =
    READ_UINT8 | READ_INT8
  | READ_UINT16_BE | READ_UINT32_BE | READ_UINT64_BE
  | READ_INT16_BE | READ_INT32_BE | READ_INT64_BE
  | READ_FLOAT_BE | READ_DOUBLE_BE
  | READ_UINT16_LE | READ_UINT32_LE | READ_UINT64_LE
  | READ_INT16_LE | READ_INT32_LE | READ_INT64_LE
  | READ_FLOAT_LE | READ_DOUBLE_LE
  | READ_BOOL | READ_STRING_RAW | READ_BYTES | SKIP | READ_FIELD | UNKNOWN

fun read_source_to_string :: "ReadSource \<Rightarrow> bytes" where
  "read_source_to_string READ_UINT8 = str ''read_uint8''"
| "read_source_to_string READ_INT8 = str ''read_int8''"
| "read_source_to_string READ_UINT16_BE = str ''read_uint16_be''"
| "read_source_to_string READ_UINT32_BE = str ''read_uint32_be''"
| "read_source_to_string READ_UINT64_BE = str ''read_uint64_be''"
| "read_source_to_string READ_INT16_BE = str ''read_int16_be''"
| "read_source_to_string READ_INT32_BE = str ''read_int32_be''"
| "read_source_to_string READ_INT64_BE = str ''read_int64_be''"
| "read_source_to_string READ_FLOAT_BE = str ''read_float_be''"
| "read_source_to_string READ_DOUBLE_BE = str ''read_double_be''"
| "read_source_to_string READ_UINT16_LE = str ''read_uint16_le''"
| "read_source_to_string READ_UINT32_LE = str ''read_uint32_le''"
| "read_source_to_string READ_UINT64_LE = str ''read_uint64_le''"
| "read_source_to_string READ_INT16_LE = str ''read_int16_le''"
| "read_source_to_string READ_INT32_LE = str ''read_int32_le''"
| "read_source_to_string READ_INT64_LE = str ''read_int64_le''"
| "read_source_to_string READ_FLOAT_LE = str ''read_float_le''"
| "read_source_to_string READ_DOUBLE_LE = str ''read_double_le''"
| "read_source_to_string READ_BOOL = str ''read_bool''"
| "read_source_to_string READ_STRING_RAW = str ''read_string_raw''"
| "read_source_to_string READ_BYTES = str ''read_bytes''"
| "read_source_to_string SKIP = str ''skip''"
| "read_source_to_string READ_FIELD = str ''ReadField''"
| "read_source_to_string UNKNOWN = str ''unknown''"

text \<open>The line \<open>check_read\<close> logs before it throws.\<close>

definition check_read_log :: "nat \<Rightarrow> ReadSource \<Rightarrow> byte_buffer \<Rightarrow> bytes" where
  "check_read_log n source b =
     str ''[ByteBuffer] Not enough data! Source: '' @ read_source_to_string source
       @ str '' | Wanted: '' @ dec_digits n @ str '' bytes | ReadPos: ''
       @ dec_digits (bb_read_pos b)
       @ str '' | BufferSize: '' @ dec_digits (length (bb_buffer b))"

definition check_read :: "nat \<Rightarrow> ReadSource \<Rightarrow> byte_buffer \<Rightarrow> unit result" where
  "check_read n source b =
     (if (bb_read_pos b + n) mod size_t_range > length (bb_buffer b)
      then Inl (Thrown (out_of_range ''ByteBuffer: not enough data to read''))
      else Inr ())"

text \<open>
  \<open>mem_at n b\<close> is the memory \<open>[&buffer_[read_pos_], +n)\<close>; reading it outside the vector is
  undefined, and so is forming the reference \<open>buffer_[size()]\<close>.
\<close>

definition mem_at :: "nat \<Rightarrow> byte_buffer \<Rightarrow> bytes result" where
  "mem_at n b =
     (if bb_read_pos b < length (bb_buffer b) \<and> bb_read_pos b + n \<le> length (bb_buffer b)
      then Inr (take n (drop (bb_read_pos b) (bb_buffer b))) else Inl Undefined)"

definition advance :: "nat \<Rightarrow> byte_buffer \<Rightarrow> byte_buffer" where
  "advance n b = b\<lparr>bb_read_pos := bb_read_pos b + n\<rparr>"

text \<open>The common shape of the fixed-width reads: check, copy, move the cursor, convert.\<close>

definition read_scalar ::
  "nat \<Rightarrow> ReadSource \<Rightarrow> (bytes \<Rightarrow> 'a) \<Rightarrow> byte_buffer \<Rightarrow> ('a \<times> byte_buffer) result" where
  "read_scalar n source conv b =
     rbind (check_read n source b) (\<lambda>_.
     rbind (mem_at n b) (\<lambda>bs. Inr (conv bs, advance n b)))"

text \<open>A signed read is the unsigned one followed by a \<open>static_cast\<close>.\<close>

definition as_signed :: "('a::len word \<times> byte_buffer) result \<Rightarrow> (int \<times> byte_buffer) result" where
  "as_signed r = rbind r (\<lambda>(w, b). Inr (sint w, b))"

subsection \<open>Writing\<close>

definition write_bytes :: "bytes \<Rightarrow> byte_buffer \<Rightarrow> byte_buffer" where
  "write_bytes bs b = b\<lparr>bb_buffer := bb_buffer b @ bs\<rparr>"

definition write_uint8 :: "byte \<Rightarrow> byte_buffer \<Rightarrow> byte_buffer" where
  "write_uint8 v b = b\<lparr>bb_buffer := bb_buffer b @ [v]\<rparr>"

definition write_int8 :: "int \<Rightarrow> byte_buffer \<Rightarrow> byte_buffer" where
  "write_int8 v b = b\<lparr>bb_buffer := bb_buffer b @ [word_of_int v]\<rparr>"

definition write_uint16_be :: "endian \<Rightarrow> u16 \<Rightarrow> byte_buffer \<Rightarrow> byte_buffer" where
  "write_uint16_be h v b = write_bytes (obj_rep h (htobe h v)) b"

definition write_int16_be :: "endian \<Rightarrow> int \<Rightarrow> byte_buffer \<Rightarrow> byte_buffer" where
  "write_int16_be h v b = write_uint16_be h (word_of_int v) b"

definition write_uint32_be :: "endian \<Rightarrow> u32 \<Rightarrow> byte_buffer \<Rightarrow> byte_buffer" where
  "write_uint32_be h v b = write_bytes (obj_rep h (htobe h v)) b"

definition write_int32_be :: "endian \<Rightarrow> int \<Rightarrow> byte_buffer \<Rightarrow> byte_buffer" where
  "write_int32_be h v b = write_uint32_be h (word_of_int v) b"

definition write_uint64_be :: "endian \<Rightarrow> u64 \<Rightarrow> byte_buffer \<Rightarrow> byte_buffer" where
  "write_uint64_be h v b = write_bytes (obj_rep h (htobe h v)) b"

definition write_int64_be :: "endian \<Rightarrow> int \<Rightarrow> byte_buffer \<Rightarrow> byte_buffer" where
  "write_int64_be h v b = write_uint64_be h (word_of_int v) b"

definition write_float_be :: "endian \<Rightarrow> u32 \<Rightarrow> byte_buffer \<Rightarrow> byte_buffer" where
  "write_float_be h bits b = write_uint32_be h bits b"

definition write_double_be :: "endian \<Rightarrow> u64 \<Rightarrow> byte_buffer \<Rightarrow> byte_buffer" where
  "write_double_be h bits b = write_uint64_be h bits b"

definition write_uint16_le :: "endian \<Rightarrow> u16 \<Rightarrow> byte_buffer \<Rightarrow> byte_buffer" where
  "write_uint16_le h v b = write_bytes (obj_rep h (htole h v)) b"

definition write_int16_le :: "endian \<Rightarrow> int \<Rightarrow> byte_buffer \<Rightarrow> byte_buffer" where
  "write_int16_le h v b = write_uint16_le h (word_of_int v) b"

definition write_uint32_le :: "endian \<Rightarrow> u32 \<Rightarrow> byte_buffer \<Rightarrow> byte_buffer" where
  "write_uint32_le h v b = write_bytes (obj_rep h (htole h v)) b"

definition write_int32_le :: "endian \<Rightarrow> int \<Rightarrow> byte_buffer \<Rightarrow> byte_buffer" where
  "write_int32_le h v b = write_uint32_le h (word_of_int v) b"

definition write_uint64_le :: "endian \<Rightarrow> u64 \<Rightarrow> byte_buffer \<Rightarrow> byte_buffer" where
  "write_uint64_le h v b = write_bytes (obj_rep h (htole h v)) b"

definition write_int64_le :: "endian \<Rightarrow> int \<Rightarrow> byte_buffer \<Rightarrow> byte_buffer" where
  "write_int64_le h v b = write_uint64_le h (word_of_int v) b"

definition write_float_le :: "endian \<Rightarrow> u32 \<Rightarrow> byte_buffer \<Rightarrow> byte_buffer" where
  "write_float_le h bits b = write_uint32_le h bits b"

definition write_double_le :: "endian \<Rightarrow> u64 \<Rightarrow> byte_buffer \<Rightarrow> byte_buffer" where
  "write_double_le h bits b = write_uint64_le h bits b"

definition write_bool :: "bool \<Rightarrow> byte_buffer \<Rightarrow> byte_buffer" where
  "write_bool v b = b\<lparr>bb_buffer := bb_buffer b @ [if v then 1 else 0]\<rparr>"

definition write_string_raw_be :: "bytes \<Rightarrow> byte_buffer \<Rightarrow> byte_buffer" where
  "write_string_raw_be s b = write_bytes s b"

definition write_string_raw_le :: "bytes \<Rightarrow> byte_buffer \<Rightarrow> byte_buffer" where
  "write_string_raw_le s b = write_bytes (rev s) b"

definition write_string_nt_be :: "bytes \<Rightarrow> byte_buffer \<Rightarrow> byte_buffer" where
  "write_string_nt_be s b = write_uint8 0x00 (write_string_raw_be s b)"

definition write_string_nt_le :: "bytes \<Rightarrow> byte_buffer \<Rightarrow> byte_buffer" where
  "write_string_nt_le s b = write_uint8 0x00 (write_string_raw_le s b)"

subsection \<open>Reading\<close>

definition read_uint8 :: "byte_buffer \<Rightarrow> (byte \<times> byte_buffer) result" where
  "read_uint8 b = read_scalar 1 READ_UINT8 hd b"

definition read_int8 :: "byte_buffer \<Rightarrow> (int \<times> byte_buffer) result" where
  "read_int8 b = as_signed (read_uint8 b)"

definition read_uint16_be :: "endian \<Rightarrow> byte_buffer \<Rightarrow> (u16 \<times> byte_buffer) result" where
  "read_uint16_be h b =
     read_scalar 2 READ_UINT16_BE (\<lambda>bs. betoh h (of_obj_rep h bs)) b"

definition read_int16_be :: "endian \<Rightarrow> byte_buffer \<Rightarrow> (int \<times> byte_buffer) result" where
  "read_int16_be h b = as_signed (read_uint16_be h b)"

definition read_uint32_be :: "endian \<Rightarrow> byte_buffer \<Rightarrow> (u32 \<times> byte_buffer) result" where
  "read_uint32_be h b =
     read_scalar 4 READ_UINT32_BE (\<lambda>bs. betoh h (of_obj_rep h bs)) b"

definition read_int32_be :: "endian \<Rightarrow> byte_buffer \<Rightarrow> (int \<times> byte_buffer) result" where
  "read_int32_be h b = as_signed (read_uint32_be h b)"

definition read_uint64_be :: "endian \<Rightarrow> byte_buffer \<Rightarrow> (u64 \<times> byte_buffer) result" where
  "read_uint64_be h b =
     read_scalar 8 READ_UINT64_BE (\<lambda>bs. betoh h (of_obj_rep h bs)) b"

definition read_int64_be :: "endian \<Rightarrow> byte_buffer \<Rightarrow> (int \<times> byte_buffer) result" where
  "read_int64_be h b = as_signed (read_uint64_be h b)"

definition read_float_be :: "endian \<Rightarrow> byte_buffer \<Rightarrow> (u32 \<times> byte_buffer) result" where
  "read_float_be h b = read_uint32_be h b"

definition read_double_be :: "endian \<Rightarrow> byte_buffer \<Rightarrow> (u64 \<times> byte_buffer) result" where
  "read_double_be h b = read_uint64_be h b"

definition read_uint16_le :: "endian \<Rightarrow> byte_buffer \<Rightarrow> (u16 \<times> byte_buffer) result" where
  "read_uint16_le h b =
     read_scalar 2 READ_UINT16_LE (\<lambda>bs. letoh h (of_obj_rep h bs)) b"

definition read_int16_le :: "endian \<Rightarrow> byte_buffer \<Rightarrow> (int \<times> byte_buffer) result" where
  "read_int16_le h b = as_signed (read_uint16_le h b)"

definition read_uint32_le :: "endian \<Rightarrow> byte_buffer \<Rightarrow> (u32 \<times> byte_buffer) result" where
  "read_uint32_le h b =
     read_scalar 4 READ_UINT32_LE (\<lambda>bs. letoh h (of_obj_rep h bs)) b"

definition read_int32_le :: "endian \<Rightarrow> byte_buffer \<Rightarrow> (int \<times> byte_buffer) result" where
  "read_int32_le h b = as_signed (read_uint32_le h b)"

definition read_uint64_le :: "endian \<Rightarrow> byte_buffer \<Rightarrow> (u64 \<times> byte_buffer) result" where
  "read_uint64_le h b =
     read_scalar 8 READ_UINT64_LE (\<lambda>bs. letoh h (of_obj_rep h bs)) b"

definition read_int64_le :: "endian \<Rightarrow> byte_buffer \<Rightarrow> (int \<times> byte_buffer) result" where
  "read_int64_le h b = as_signed (read_uint64_le h b)"

definition read_float_le :: "endian \<Rightarrow> byte_buffer \<Rightarrow> (u32 \<times> byte_buffer) result" where
  "read_float_le h b = read_uint32_le h b"

definition read_double_le :: "endian \<Rightarrow> byte_buffer \<Rightarrow> (u64 \<times> byte_buffer) result" where
  "read_double_le h b = read_uint64_le h b"

definition read_bool :: "byte_buffer \<Rightarrow> (bool \<times> byte_buffer) result" where
  "read_bool b =
     rbind (check_read 1 READ_BOOL b) (\<lambda>_.
     rbind (read_uint8 b) (\<lambda>(v, b'). Inr (v \<noteq> 0, b')))"

definition read_string_raw_be :: "nat \<Rightarrow> byte_buffer \<Rightarrow> (bytes \<times> byte_buffer) result" where
  "read_string_raw_be n b = read_scalar n READ_STRING_RAW (\<lambda>bs. bs) b"

definition read_string_raw_le :: "nat \<Rightarrow> byte_buffer \<Rightarrow> (bytes \<times> byte_buffer) result" where
  "read_string_raw_le n b = read_scalar n READ_STRING_RAW rev b"

text \<open>\<open>while (read_pos_ < buffer_.size())\<close>: collect characters up to a NUL, which is consumed.\<close>

function read_nt_loop :: "bytes \<Rightarrow> nat \<Rightarrow> bytes \<Rightarrow> bytes \<times> nat" where
  "read_nt_loop buf pos s =
     (if pos < length buf
      then if buf ! pos = 0 then (s, pos + 1) else read_nt_loop buf (pos + 1) (s @ [buf ! pos])
      else (s, pos))"
  by pat_completeness auto
termination
  by (relation "measure (\<lambda>(buf, pos, s). length buf - pos)") auto

declare read_nt_loop.simps [simp del]

definition read_string_nt_be :: "byte_buffer \<Rightarrow> (bytes \<times> byte_buffer) result" where
  "read_string_nt_be b =
     (case read_nt_loop (bb_buffer b) (bb_read_pos b) [] of
        (s, pos) \<Rightarrow> Inr (s, b\<lparr>bb_read_pos := pos\<rparr>))"

definition read_string_nt_le :: "byte_buffer \<Rightarrow> (bytes \<times> byte_buffer) result" where
  "read_string_nt_le b =
     (case read_nt_loop (bb_buffer b) (bb_read_pos b) [] of
        (s, pos) \<Rightarrow> Inr (rev s, b\<lparr>bb_read_pos := pos\<rparr>))"

text \<open>
  \<open>read_bytes\<close> copies through iterators, for which the position \<open>end()\<close> is a valid one.
\<close>

definition read_bytes :: "nat \<Rightarrow> byte_buffer \<Rightarrow> (bytes \<times> byte_buffer) result" where
  "read_bytes n b =
     rbind (check_read n READ_BYTES b) (\<lambda>_.
     if bb_read_pos b + n \<le> length (bb_buffer b)
     then Inr (take n (drop (bb_read_pos b) (bb_buffer b)), advance n b)
     else Inl Undefined)"

subsection \<open>Utilities\<close>

definition bb_skip :: "nat \<Rightarrow> byte_buffer \<Rightarrow> byte_buffer result" where
  "bb_skip n b =
     rbind (check_read n SKIP b) (\<lambda>_.
     Inr (b\<lparr>bb_read_pos := (bb_read_pos b + n) mod size_t_range\<rparr>))"

definition bb_clear :: "byte_buffer \<Rightarrow> byte_buffer" where
  "bb_clear b = b\<lparr>bb_buffer := [], bb_read_pos := 0\<rparr>"

definition reset_read :: "byte_buffer \<Rightarrow> byte_buffer" where
  "reset_read b = b\<lparr>bb_read_pos := 0\<rparr>"

definition bb_data :: "byte_buffer \<Rightarrow> bytes" where
  "bb_data b = bb_buffer b"

definition bb_size :: "byte_buffer \<Rightarrow> nat" where
  "bb_size b = length (bb_buffer b)"

subsection \<open>Invariant\<close>

definition bb_wf :: "byte_buffer \<Rightarrow> bool" where
  "bb_wf b \<longleftrightarrow> bb_read_pos b \<le> length (bb_buffer b) \<and> length (bb_buffer b) < size_t_range"

text \<open>\<open>at_cursor b enc rest\<close>: what is left to read starts with the bytes \<open>enc\<close>.\<close>

definition at_cursor :: "byte_buffer \<Rightarrow> bytes \<Rightarrow> bytes \<Rightarrow> bool" where
  "at_cursor b enc rest \<longleftrightarrow> bb_wf b \<and> drop (bb_read_pos b) (bb_buffer b) = enc @ rest"

subsection \<open>The bounds check\<close>

lemma check_read_exact:
  assumes "bb_read_pos b + n < size_t_range"
  shows "check_read n src b =
     (if bb_read_pos b + n \<le> length (bb_buffer b) then Inr ()
      else Inl (Thrown (out_of_range ''ByteBuffer: not enough data to read'')))"
  using assms by (simp add: check_read_def not_less)

lemma at_cursorD:
  assumes "at_cursor b enc rest"
  shows "bb_read_pos b + length enc \<le> length (bb_buffer b)"
    and "bb_read_pos b + length enc < size_t_range"
    and "take (length enc) (drop (bb_read_pos b) (bb_buffer b)) = enc"
    and "drop (bb_read_pos b + length enc) (bb_buffer b) = rest"
proof -
  from assms have d: "drop (bb_read_pos b) (bb_buffer b) = enc @ rest" and wf: "bb_wf b"
    by (auto simp: at_cursor_def)
  from d have "length (bb_buffer b) - bb_read_pos b = length enc + length rest"
    by (metis length_append length_drop)
  with wf show *: "bb_read_pos b + length enc \<le> length (bb_buffer b)"
    unfolding bb_wf_def by linarith
  with wf show "bb_read_pos b + length enc < size_t_range"
    by (simp add: bb_wf_def)
  show "take (length enc) (drop (bb_read_pos b) (bb_buffer b)) = enc"
    by (simp add: d)
  show "drop (bb_read_pos b + length enc) (bb_buffer b) = rest"
    using d by (rule drop_eq_appendD)
qed

lemma read_scalar_at_cursor:
  assumes "at_cursor b enc rest" and "n = length enc" and "enc \<noteq> []"
  shows "read_scalar n src conv b = Inr (conv enc, advance n b)"
proof -
  note c = at_cursorD[OF assms(1)]
  have "bb_read_pos b < length (bb_buffer b)"
    using c(1) assms(3) by (cases enc) auto
  then show ?thesis
    using c assms(2) by (simp add: read_scalar_def check_read_exact mem_at_def)
qed

lemma read_bytes_at_cursor:
  assumes "at_cursor b enc rest" and "n = length enc"
  shows "read_bytes n b = Inr (enc, advance n b)"
  using at_cursorD[OF assms(1)] assms(2) by (simp add: read_bytes_def check_read_exact)

lemma at_cursor_advance:
  "at_cursor b enc rest \<Longrightarrow> n = length enc \<Longrightarrow> at_cursor (advance n b) [] rest"
  using at_cursorD[of b enc rest] by (auto simp: at_cursor_def advance_def bb_wf_def)

lemma at_cursor_split: "at_cursor b [] (enc @ rest) \<longleftrightarrow> at_cursor b enc rest"
  by (simp add: at_cursor_def)

text \<open>A fixed-width read never leaves the vector: it returns or throws.\<close>

lemma read_scalar_cases:
  assumes "bb_read_pos b + n < size_t_range" and "0 < n"
  shows "read_scalar n src conv b =
     (if bb_read_pos b + n \<le> length (bb_buffer b)
      then Inr (conv (take n (drop (bb_read_pos b) (bb_buffer b))), advance n b)
      else Inl (Thrown (out_of_range ''ByteBuffer: not enough data to read'')))"
  using assms by (simp add: read_scalar_def check_read_exact mem_at_def)

subsection \<open>What the writes append\<close>

lemma write_simps [codec_simps]:
  "write_bytes bs b = b\<lparr>bb_buffer := bb_buffer b @ bs\<rparr>"
  "write_uint8 v b = b\<lparr>bb_buffer := bb_buffer b @ [v]\<rparr>"
  "write_int8 i b = b\<lparr>bb_buffer := bb_buffer b @ [word_of_int i]\<rparr>"
  "write_uint16_be h v16 b = b\<lparr>bb_buffer := bb_buffer b @ rev (le_bytes v16)\<rparr>"
  "write_uint32_be h v32 b = b\<lparr>bb_buffer := bb_buffer b @ rev (le_bytes v32)\<rparr>"
  "write_uint64_be h v64 b = b\<lparr>bb_buffer := bb_buffer b @ rev (le_bytes v64)\<rparr>"
  "write_uint16_le h v16 b = b\<lparr>bb_buffer := bb_buffer b @ le_bytes v16\<rparr>"
  "write_uint32_le h v32 b = b\<lparr>bb_buffer := bb_buffer b @ le_bytes v32\<rparr>"
  "write_uint64_le h v64 b = b\<lparr>bb_buffer := bb_buffer b @ le_bytes v64\<rparr>"
  "write_bool q b = b\<lparr>bb_buffer := bb_buffer b @ [if q then 1 else 0]\<rparr>"
  "write_string_raw_be bs b = b\<lparr>bb_buffer := bb_buffer b @ bs\<rparr>"
  "write_string_raw_le bs b = b\<lparr>bb_buffer := bb_buffer b @ rev bs\<rparr>"
  "write_string_nt_be bs b = b\<lparr>bb_buffer := bb_buffer b @ bs @ [0]\<rparr>"
  "write_string_nt_le bs b = b\<lparr>bb_buffer := bb_buffer b @ rev bs @ [0]\<rparr>"
  by (simp_all add: write_bytes_def write_uint8_def write_int8_def write_uint16_be_def
      write_uint32_be_def write_uint64_be_def write_uint16_le_def write_uint32_le_def
      write_uint64_le_def write_bool_def write_string_raw_be_def write_string_raw_le_def
      write_string_nt_be_def write_string_nt_le_def obj_rep_htobe obj_rep_htole)

lemma write_signed_simps [codec_simps]:
  "write_int16_be h i b = write_uint16_be h (word_of_int i) b"
  "write_int32_be h i b = write_uint32_be h (word_of_int i) b"
  "write_int64_be h i b = write_uint64_be h (word_of_int i) b"
  "write_int16_le h i b = write_uint16_le h (word_of_int i) b"
  "write_int32_le h i b = write_uint32_le h (word_of_int i) b"
  "write_int64_le h i b = write_uint64_le h (word_of_int i) b"
  "write_float_be h v32 b = write_uint32_be h v32 b"
  "write_double_be h v64 b = write_uint64_be h v64 b"
  "write_float_le h v32 b = write_uint32_le h v32 b"
  "write_double_le h v64 b = write_uint64_le h v64 b"
  by (simp_all add: write_int16_be_def write_int32_be_def write_int64_be_def write_int16_le_def
      write_int32_le_def write_int64_le_def write_float_be_def write_double_be_def
      write_float_le_def write_double_le_def)

lemma nonempty_bytes [simp]:
  "le_bytes (v16 :: u16) \<noteq> []" "le_bytes (v32 :: u32) \<noteq> []" "le_bytes (v64 :: u64) \<noteq> []"
  by (simp_all flip: length_greater_0_conv)

lemma sint_word_of_int_range:
  assumes "- (2 ^ (LENGTH('a::len) - 1)) \<le> i" and "i < 2 ^ (LENGTH('a) - 1)"
  shows "sint (word_of_int i :: 'a word) = i"
  using assms by (simp add: sint_sbintrunc' signed_take_bit_int_eq_self)

subsection \<open>NUL-terminated strings\<close>

lemma read_nt_loop_prefix:
  assumes "drop pos buf = s @ 0 # rest" and "0 \<notin> set s"
  shows "read_nt_loop buf pos acc = (acc @ s, pos + length s + 1)"
  using assms
proof (induction s arbitrary: pos acc)
  case Nil
  then have "pos < length buf" "buf ! pos = 0"
    by (metis append_Nil drop_eq_Nil2 list.discI not_le,
        metis append_Nil drop_eq_Nil2 hd_drop_conv_nth list.discI list.sel(1) not_le)
  then show ?case by (simp add: read_nt_loop.simps[of buf pos])
next
  case (Cons c s)
  then have p: "pos < length buf" "buf ! pos = c"
    by (metis append_Cons drop_eq_Nil2 list.discI not_le,
        metis append_Cons drop_eq_Nil2 hd_drop_conv_nth list.discI list.sel(1) not_le)
  have d: "drop (pos + 1) buf = s @ 0 # rest"
    using Cons.prems(1) by (metis Suc_eq_plus1 append_Cons drop_Suc list.sel(3) tl_drop)
  have "read_nt_loop buf pos acc = read_nt_loop buf (pos + 1) (acc @ [c])"
    using p Cons.prems(2) by (simp add: read_nt_loop.simps[of buf pos])
  also have "\<dots> = (acc @ c # s, pos + 1 + length s + 1)"
    using Cons.IH[OF d, of "acc @ [c]"] Cons.prems(2) by simp
  finally show ?case by simp
qed

text \<open>Without a terminator the rest of the buffer is the string.\<close>

lemma read_nt_loop_no_nul:
  assumes "0 \<notin> set (drop pos buf)" and "pos \<le> length buf"
  shows "read_nt_loop buf pos acc = (acc @ drop pos buf, length buf)"
  using assms
proof (induction "length buf - pos" arbitrary: pos acc)
  case 0
  then show ?case by (simp add: read_nt_loop.simps[of buf pos])
next
  case (Suc n)
  then have p: "pos < length buf" by simp
  then have d: "drop pos buf = buf ! pos # drop (pos + 1) buf"
    by (simp add: Cons_nth_drop_Suc)
  have "read_nt_loop buf pos acc = read_nt_loop buf (pos + 1) (acc @ [buf ! pos])"
    using p Suc.prems(1) by (simp add: read_nt_loop.simps[of buf pos] d)
  also have "\<dots> = (acc @ [buf ! pos] @ drop (pos + 1) buf, length buf)"
    using Suc.hyps(1)[of "pos + 1" "acc @ [buf ! pos]"] Suc.hyps(2) Suc.prems p
    by (simp add: d)
  finally show ?case by (simp add: d)
qed

lemma read_nt_loop_bounds:
  "pos \<le> length buf \<Longrightarrow> read_nt_loop buf pos acc = (s, pos') \<Longrightarrow> pos \<le> pos' \<and> pos' \<le> length buf"
proof (induction buf pos acc rule: read_nt_loop.induct)
  case (1 buf pos acc)
  then show ?case
    by (cases "pos < length buf"; cases "buf ! pos = 0")
       (auto simp: read_nt_loop.simps[of buf pos])
qed

subsection \<open>Codecs\<close>

text \<open>
  The contract of one pair of write and read operations: the write appends an encoding, and the
  read, standing at that encoding, returns the value and moves past it. Everything about
  composing fields is proved from the contract once.
\<close>

locale field_codec =
  fixes wr :: "'a \<Rightarrow> byte_buffer \<Rightarrow> byte_buffer"
    and rd :: "byte_buffer \<Rightarrow> ('a \<times> byte_buffer) result"
    and enc :: "'a \<Rightarrow> bytes"
    and ok :: "'a \<Rightarrow> bool"
  assumes wr_appends: "wr v b = b\<lparr>bb_buffer := bb_buffer b @ enc v\<rparr>"
    and rd_at: "ok v \<Longrightarrow> at_cursor b (enc v) rest \<Longrightarrow> rd b = Inr (v, advance (length (enc v)) b)"
begin

lemma wr_wf: "bb_wf b \<Longrightarrow> length (bb_buffer b) + length (enc v) < size_t_range \<Longrightarrow> bb_wf (wr v b)"
  by (simp add: bb_wf_def wr_appends)

lemma rd_wr:
  assumes "ok v" and "bb_read_pos b = length (bb_buffer b)"
    and "length (bb_buffer b) + length (enc v) < size_t_range"
  shows "rd (wr v b) = Inr (v, (wr v b)\<lparr>bb_read_pos := length (bb_buffer (wr v b))\<rparr>)"
proof -
  have "at_cursor (wr v b) (enc v) []"
    using assms(2,3) by (simp add: at_cursor_def wr_appends bb_wf_def)
  from rd_at[OF assms(1) this] show ?thesis
    by (simp add: wr_appends advance_def assms(2))
qed

lemma rd_rest:
  assumes "ok v" and "at_cursor b (enc v) rest"
  shows "\<exists>b'. rd b = Inr (v, b') \<and> at_cursor b' [] rest"
  using rd_at[OF assms] at_cursor_advance[OF assms(2)] by blast

end

interpretation c_u8: field_codec write_uint8 read_uint8 "\<lambda>v. [v]" "\<lambda>_. True"
  by unfold_locales
     (simp_all add: codec_simps read_uint8_def read_scalar_at_cursor)

interpretation c_i8: field_codec write_int8 read_int8 "\<lambda>i. [word_of_int i]"
    "\<lambda>i. - 128 \<le> i \<and> i < 128"
  by unfold_locales
     (simp_all add: codec_simps read_int8_def read_uint8_def as_signed_def read_scalar_at_cursor
        sint_word_of_int_range)

interpretation c_u16be: field_codec "write_uint16_be h" "read_uint16_be h"
    "\<lambda>v. rev (le_bytes (v :: u16))" "\<lambda>_. True" for h
  by unfold_locales
     (simp_all add: codec_simps read_uint16_be_def read_scalar_at_cursor nonempty_bytes
        betoh_of_obj_rep of_le_bytes_le_bytes)

interpretation c_i16be: field_codec "write_int16_be h" "read_int16_be h"
    "\<lambda>i. rev (le_bytes (word_of_int i :: u16))"
    "\<lambda>i. - 32768 \<le> i \<and> i < 32768" for h
  by unfold_locales
     (simp_all add: codec_simps read_int16_be_def as_signed_def c_u16be.rd_at
        sint_word_of_int_range)

interpretation c_u32be: field_codec "write_uint32_be h" "read_uint32_be h"
    "\<lambda>v. rev (le_bytes (v :: u32))" "\<lambda>_. True" for h
  by unfold_locales
     (simp_all add: codec_simps read_uint32_be_def read_scalar_at_cursor nonempty_bytes
        betoh_of_obj_rep of_le_bytes_le_bytes)

interpretation c_i32be: field_codec "write_int32_be h" "read_int32_be h"
    "\<lambda>i. rev (le_bytes (word_of_int i :: u32))"
    "\<lambda>i. - 2147483648 \<le> i \<and> i < 2147483648" for h
  by unfold_locales
     (simp_all add: codec_simps read_int32_be_def as_signed_def c_u32be.rd_at
        sint_word_of_int_range)

interpretation c_u64be: field_codec "write_uint64_be h" "read_uint64_be h"
    "\<lambda>v. rev (le_bytes (v :: u64))" "\<lambda>_. True" for h
  by unfold_locales
     (simp_all add: codec_simps read_uint64_be_def read_scalar_at_cursor nonempty_bytes
        betoh_of_obj_rep of_le_bytes_le_bytes)

interpretation c_i64be: field_codec "write_int64_be h" "read_int64_be h"
    "\<lambda>i. rev (le_bytes (word_of_int i :: u64))"
    "\<lambda>i. - 9223372036854775808 \<le> i \<and> i < 9223372036854775808" for h
  by unfold_locales
     (simp_all add: codec_simps read_int64_be_def as_signed_def c_u64be.rd_at
        sint_word_of_int_range)

interpretation c_floatbe: field_codec "write_float_be h" "read_float_be h"
    "\<lambda>v. rev (le_bytes (v :: u32))" "\<lambda>_. True" for h
  by unfold_locales (simp_all add: codec_simps read_float_be_def c_u32be.rd_at)

interpretation c_doublebe: field_codec "write_double_be h" "read_double_be h"
    "\<lambda>v. rev (le_bytes (v :: u64))" "\<lambda>_. True" for h
  by unfold_locales (simp_all add: codec_simps read_double_be_def c_u64be.rd_at)

interpretation c_u16le: field_codec "write_uint16_le h" "read_uint16_le h"
    "\<lambda>v. le_bytes (v :: u16)" "\<lambda>_. True" for h
  by unfold_locales
     (simp_all add: codec_simps read_uint16_le_def read_scalar_at_cursor nonempty_bytes
        letoh_of_obj_rep of_le_bytes_le_bytes)

interpretation c_i16le: field_codec "write_int16_le h" "read_int16_le h"
    "\<lambda>i. le_bytes (word_of_int i :: u16)"
    "\<lambda>i. - 32768 \<le> i \<and> i < 32768" for h
  by unfold_locales
     (simp_all add: codec_simps read_int16_le_def as_signed_def c_u16le.rd_at
        sint_word_of_int_range)

interpretation c_u32le: field_codec "write_uint32_le h" "read_uint32_le h"
    "\<lambda>v. le_bytes (v :: u32)" "\<lambda>_. True" for h
  by unfold_locales
     (simp_all add: codec_simps read_uint32_le_def read_scalar_at_cursor nonempty_bytes
        letoh_of_obj_rep of_le_bytes_le_bytes)

interpretation c_i32le: field_codec "write_int32_le h" "read_int32_le h"
    "\<lambda>i. le_bytes (word_of_int i :: u32)"
    "\<lambda>i. - 2147483648 \<le> i \<and> i < 2147483648" for h
  by unfold_locales
     (simp_all add: codec_simps read_int32_le_def as_signed_def c_u32le.rd_at
        sint_word_of_int_range)

interpretation c_u64le: field_codec "write_uint64_le h" "read_uint64_le h"
    "\<lambda>v. le_bytes (v :: u64)" "\<lambda>_. True" for h
  by unfold_locales
     (simp_all add: codec_simps read_uint64_le_def read_scalar_at_cursor nonempty_bytes
        letoh_of_obj_rep of_le_bytes_le_bytes)

interpretation c_i64le: field_codec "write_int64_le h" "read_int64_le h"
    "\<lambda>i. le_bytes (word_of_int i :: u64)"
    "\<lambda>i. - 9223372036854775808 \<le> i \<and> i < 9223372036854775808" for h
  by unfold_locales
     (simp_all add: codec_simps read_int64_le_def as_signed_def c_u64le.rd_at
        sint_word_of_int_range)

interpretation c_floatle: field_codec "write_float_le h" "read_float_le h"
    "\<lambda>v. le_bytes (v :: u32)" "\<lambda>_. True" for h
  by unfold_locales (simp_all add: codec_simps read_float_le_def c_u32le.rd_at)

interpretation c_doublele: field_codec "write_double_le h" "read_double_le h"
    "\<lambda>v. le_bytes (v :: u64)" "\<lambda>_. True" for h
  by unfold_locales (simp_all add: codec_simps read_double_le_def c_u64le.rd_at)

interpretation c_bool: field_codec write_bool read_bool "\<lambda>q. [if q then 1 else 0]" "\<lambda>_. True"
proof
  fix q b
  show "write_bool q b = b\<lparr>bb_buffer := bb_buffer b @ [if q then 1 else 0]\<rparr>"
    by (simp add: codec_simps)
next
  fix q b rest
  assume a: "at_cursor b [if q then 1 else 0] rest"
  have "check_read 1 READ_BOOL b = Inr ()"
    using at_cursorD[OF a] by (simp add: check_read_exact)
  then show "read_bool b = Inr (q, advance (length [if q then 1 else 0 :: byte]) b)"
    using a by (simp add: read_bool_def read_uint8_def read_scalar_at_cursor)
qed

interpretation c_bytes: field_codec write_bytes "read_bytes n" "\<lambda>bs. bs" "\<lambda>bs. length bs = n" for n
  by unfold_locales (simp_all add: codec_simps read_bytes_at_cursor)

interpretation c_rawbe: field_codec write_string_raw_be "read_string_raw_be n" "\<lambda>s. s"
    "\<lambda>s. length s = n \<and> s \<noteq> []" for n
  by unfold_locales (simp_all add: codec_simps read_string_raw_be_def read_scalar_at_cursor)

interpretation c_rawle: field_codec write_string_raw_le "read_string_raw_le n" rev
    "\<lambda>s. length s = n \<and> s \<noteq> []" for n
  by unfold_locales (simp_all add: codec_simps read_string_raw_le_def read_scalar_at_cursor)

interpretation c_ntbe: field_codec write_string_nt_be read_string_nt_be "\<lambda>s. s @ [0]"
    "\<lambda>s. 0 \<notin> set s"
proof
  fix s b
  show "write_string_nt_be s b = b\<lparr>bb_buffer := bb_buffer b @ s @ [0]\<rparr>"
    by (simp add: codec_simps)
next
  fix s b rest
  assume "0 \<notin> set (s :: bytes)" and "at_cursor b (s @ [0]) rest"
  then show "read_string_nt_be b = Inr (s, advance (length (s @ [0 :: byte])) b)"
    by (simp add: read_string_nt_be_def at_cursor_def advance_def
        read_nt_loop_prefix[where s = s and rest = rest])
qed

interpretation c_ntle: field_codec write_string_nt_le read_string_nt_le "\<lambda>s. rev s @ [0]"
    "\<lambda>s. 0 \<notin> set s"
proof
  fix s b
  show "write_string_nt_le s b = b\<lparr>bb_buffer := bb_buffer b @ rev s @ [0]\<rparr>"
    by (simp add: codec_simps)
next
  fix s b rest
  assume "0 \<notin> set (s :: bytes)" and "at_cursor b (rev s @ [0]) rest"
  then show "read_string_nt_le b = Inr (s, advance (length (rev s @ [0 :: byte])) b)"
    by (simp add: read_string_nt_le_def at_cursor_def advance_def
        read_nt_loop_prefix[where s = "rev s" and rest = rest])
qed


subsection \<open>Sequences of fields\<close>

text \<open>
  A message is a sequence of fields of any of the kinds above. A reader knows the kinds (and the
  lengths of the unterminated ones) and nothing else.
\<close>

datatype field =
    F_uint8 byte
  | F_int8 int
  | F_uint16_be u16
  | F_int16_be int
  | F_uint32_be u32
  | F_int32_be int
  | F_uint64_be u64
  | F_int64_be int
  | F_float_be u32
  | F_double_be u64
  | F_uint16_le u16
  | F_int16_le int
  | F_uint32_le u32
  | F_int32_le int
  | F_uint64_le u64
  | F_int64_le int
  | F_float_le u32
  | F_double_le u64
  | F_bool bool
  | F_nt_be bytes
  | F_nt_le bytes
  | F_raw_be bytes
  | F_raw_le bytes
  | F_bytes bytes

datatype field_kind =
    K_uint8
  | K_int8
  | K_uint16_be
  | K_int16_be
  | K_uint32_be
  | K_int32_be
  | K_uint64_be
  | K_int64_be
  | K_float_be
  | K_double_be
  | K_uint16_le
  | K_int16_le
  | K_uint32_le
  | K_int32_le
  | K_uint64_le
  | K_int64_le
  | K_float_le
  | K_double_le
  | K_bool
  | K_nt_be
  | K_nt_le
  | K_raw_be nat
  | K_raw_le nat
  | K_bytes nat

fun kind_of :: "field \<Rightarrow> field_kind" where
  "kind_of (F_uint8 v) = K_uint8"
| "kind_of (F_int8 v) = K_int8"
| "kind_of (F_uint16_be v) = K_uint16_be"
| "kind_of (F_int16_be v) = K_int16_be"
| "kind_of (F_uint32_be v) = K_uint32_be"
| "kind_of (F_int32_be v) = K_int32_be"
| "kind_of (F_uint64_be v) = K_uint64_be"
| "kind_of (F_int64_be v) = K_int64_be"
| "kind_of (F_float_be v) = K_float_be"
| "kind_of (F_double_be v) = K_double_be"
| "kind_of (F_uint16_le v) = K_uint16_le"
| "kind_of (F_int16_le v) = K_int16_le"
| "kind_of (F_uint32_le v) = K_uint32_le"
| "kind_of (F_int32_le v) = K_int32_le"
| "kind_of (F_uint64_le v) = K_uint64_le"
| "kind_of (F_int64_le v) = K_int64_le"
| "kind_of (F_float_le v) = K_float_le"
| "kind_of (F_double_le v) = K_double_le"
| "kind_of (F_bool v) = K_bool"
| "kind_of (F_nt_be v) = K_nt_be"
| "kind_of (F_nt_le v) = K_nt_le"
| "kind_of (F_raw_be v) = K_raw_be (length v)"
| "kind_of (F_raw_le v) = K_raw_le (length v)"
| "kind_of (F_bytes v) = K_bytes (length v)"

fun write_field :: "endian \<Rightarrow> field \<Rightarrow> byte_buffer \<Rightarrow> byte_buffer" where
  "write_field h (F_uint8 v) b = write_uint8 v b"
| "write_field h (F_int8 v) b = write_int8 v b"
| "write_field h (F_uint16_be v) b = write_uint16_be h v b"
| "write_field h (F_int16_be v) b = write_int16_be h v b"
| "write_field h (F_uint32_be v) b = write_uint32_be h v b"
| "write_field h (F_int32_be v) b = write_int32_be h v b"
| "write_field h (F_uint64_be v) b = write_uint64_be h v b"
| "write_field h (F_int64_be v) b = write_int64_be h v b"
| "write_field h (F_float_be v) b = write_float_be h v b"
| "write_field h (F_double_be v) b = write_double_be h v b"
| "write_field h (F_uint16_le v) b = write_uint16_le h v b"
| "write_field h (F_int16_le v) b = write_int16_le h v b"
| "write_field h (F_uint32_le v) b = write_uint32_le h v b"
| "write_field h (F_int32_le v) b = write_int32_le h v b"
| "write_field h (F_uint64_le v) b = write_uint64_le h v b"
| "write_field h (F_int64_le v) b = write_int64_le h v b"
| "write_field h (F_float_le v) b = write_float_le h v b"
| "write_field h (F_double_le v) b = write_double_le h v b"
| "write_field h (F_bool v) b = write_bool v b"
| "write_field h (F_nt_be v) b = write_string_nt_be v b"
| "write_field h (F_nt_le v) b = write_string_nt_le v b"
| "write_field h (F_raw_be v) b = write_string_raw_be v b"
| "write_field h (F_raw_le v) b = write_string_raw_le v b"
| "write_field h (F_bytes v) b = write_bytes v b"

definition tagged :: "('a \<Rightarrow> field) \<Rightarrow> ('a \<times> byte_buffer) result \<Rightarrow> (field \<times> byte_buffer) result" where
  "tagged c r = rbind r (\<lambda>(v, b). Inr (c v, b))"

fun read_kind :: "endian \<Rightarrow> field_kind \<Rightarrow> byte_buffer \<Rightarrow> (field \<times> byte_buffer) result" where
  "read_kind h K_uint8 b = tagged F_uint8 (read_uint8 b)"
| "read_kind h K_int8 b = tagged F_int8 (read_int8 b)"
| "read_kind h K_uint16_be b = tagged F_uint16_be (read_uint16_be h b)"
| "read_kind h K_int16_be b = tagged F_int16_be (read_int16_be h b)"
| "read_kind h K_uint32_be b = tagged F_uint32_be (read_uint32_be h b)"
| "read_kind h K_int32_be b = tagged F_int32_be (read_int32_be h b)"
| "read_kind h K_uint64_be b = tagged F_uint64_be (read_uint64_be h b)"
| "read_kind h K_int64_be b = tagged F_int64_be (read_int64_be h b)"
| "read_kind h K_float_be b = tagged F_float_be (read_float_be h b)"
| "read_kind h K_double_be b = tagged F_double_be (read_double_be h b)"
| "read_kind h K_uint16_le b = tagged F_uint16_le (read_uint16_le h b)"
| "read_kind h K_int16_le b = tagged F_int16_le (read_int16_le h b)"
| "read_kind h K_uint32_le b = tagged F_uint32_le (read_uint32_le h b)"
| "read_kind h K_int32_le b = tagged F_int32_le (read_int32_le h b)"
| "read_kind h K_uint64_le b = tagged F_uint64_le (read_uint64_le h b)"
| "read_kind h K_int64_le b = tagged F_int64_le (read_int64_le h b)"
| "read_kind h K_float_le b = tagged F_float_le (read_float_le h b)"
| "read_kind h K_double_le b = tagged F_double_le (read_double_le h b)"
| "read_kind h K_bool b = tagged F_bool (read_bool b)"
| "read_kind h K_nt_be b = tagged F_nt_be (read_string_nt_be b)"
| "read_kind h K_nt_le b = tagged F_nt_le (read_string_nt_le b)"
| "read_kind h (K_raw_be n) b = tagged F_raw_be (read_string_raw_be n b)"
| "read_kind h (K_raw_le n) b = tagged F_raw_le (read_string_raw_le n b)"
| "read_kind h (K_bytes n) b = tagged F_bytes (read_bytes n b)"

fun field_enc :: "field \<Rightarrow> bytes" where
  "field_enc (F_uint8 v) = [v]"
| "field_enc (F_int8 v) = [word_of_int v]"
| "field_enc (F_uint16_be v) = rev (le_bytes v)"
| "field_enc (F_int16_be v) = rev (le_bytes (word_of_int v :: u16))"
| "field_enc (F_uint32_be v) = rev (le_bytes v)"
| "field_enc (F_int32_be v) = rev (le_bytes (word_of_int v :: u32))"
| "field_enc (F_uint64_be v) = rev (le_bytes v)"
| "field_enc (F_int64_be v) = rev (le_bytes (word_of_int v :: u64))"
| "field_enc (F_float_be v) = rev (le_bytes v)"
| "field_enc (F_double_be v) = rev (le_bytes v)"
| "field_enc (F_uint16_le v) = le_bytes v"
| "field_enc (F_int16_le v) = le_bytes (word_of_int v :: u16)"
| "field_enc (F_uint32_le v) = le_bytes v"
| "field_enc (F_int32_le v) = le_bytes (word_of_int v :: u32)"
| "field_enc (F_uint64_le v) = le_bytes v"
| "field_enc (F_int64_le v) = le_bytes (word_of_int v :: u64)"
| "field_enc (F_float_le v) = le_bytes v"
| "field_enc (F_double_le v) = le_bytes v"
| "field_enc (F_bool v) = [if v then 1 else 0]"
| "field_enc (F_nt_be v) = v @ [0]"
| "field_enc (F_nt_le v) = rev v @ [0]"
| "field_enc (F_raw_be v) = v"
| "field_enc (F_raw_le v) = rev v"
| "field_enc (F_bytes v) = v"

fun field_ok :: "field \<Rightarrow> bool" where
  "field_ok (F_uint8 v) = (True)"
| "field_ok (F_int8 v) = (- 128 \<le> v \<and> v < 128)"
| "field_ok (F_uint16_be v) = (True)"
| "field_ok (F_int16_be v) = (- 32768 \<le> v \<and> v < 32768)"
| "field_ok (F_uint32_be v) = (True)"
| "field_ok (F_int32_be v) = (- 2147483648 \<le> v \<and> v < 2147483648)"
| "field_ok (F_uint64_be v) = (True)"
| "field_ok (F_int64_be v) = (- 9223372036854775808 \<le> v \<and> v < 9223372036854775808)"
| "field_ok (F_float_be v) = (True)"
| "field_ok (F_double_be v) = (True)"
| "field_ok (F_uint16_le v) = (True)"
| "field_ok (F_int16_le v) = (- 32768 \<le> v \<and> v < 32768)"
| "field_ok (F_uint32_le v) = (True)"
| "field_ok (F_int32_le v) = (- 2147483648 \<le> v \<and> v < 2147483648)"
| "field_ok (F_uint64_le v) = (True)"
| "field_ok (F_int64_le v) = (- 9223372036854775808 \<le> v \<and> v < 9223372036854775808)"
| "field_ok (F_float_le v) = (True)"
| "field_ok (F_double_le v) = (True)"
| "field_ok (F_bool v) = (True)"
| "field_ok (F_nt_be v) = (0 \<notin> set v)"
| "field_ok (F_nt_le v) = (0 \<notin> set v)"
| "field_ok (F_raw_be v) = (v \<noteq> [])"
| "field_ok (F_raw_le v) = (v \<noteq> [])"
| "field_ok (F_bytes v) = (True)"

fun write_fields :: "endian \<Rightarrow> field list \<Rightarrow> byte_buffer \<Rightarrow> byte_buffer" where
  "write_fields h [] b = b"
| "write_fields h (f # fs) b = write_fields h fs (write_field h f b)"

fun read_kinds ::
  "endian \<Rightarrow> field_kind list \<Rightarrow> byte_buffer \<Rightarrow> (field list \<times> byte_buffer) result" where
  "read_kinds h [] b = Inr ([], b)"
| "read_kinds h (k # ks) b =
     rbind (read_kind h k b) (\<lambda>(f, b1).
     rbind (read_kinds h ks b1) (\<lambda>(fs, b2). Inr (f # fs, b2)))"

definition fields_enc :: "field list \<Rightarrow> bytes" where
  "fields_enc fs = concat (map field_enc fs)"

lemma tagged_Inr [simp]: "tagged c (Inr (v, b)) = Inr (c v, b)"
  by (simp add: tagged_def)

interpretation c_field: field_codec "write_field h" "read_kind h k" field_enc
    "\<lambda>f. field_ok f \<and> kind_of f = k" for h k
proof
  fix f b
  show "write_field h f b = b\<lparr>bb_buffer := bb_buffer b @ field_enc f\<rparr>"
    by (cases f) (simp_all add: codec_simps)
next
  fix f b rest
  assume "field_ok f \<and> kind_of f = k" and "at_cursor b (field_enc f) rest"
  then show "read_kind h k b = Inr (f, advance (length (field_enc f)) b)"
    by (cases f) (auto simp:
        c_u8.rd_at c_i8.rd_at c_u16be.rd_at c_i16be.rd_at c_u32be.rd_at c_i32be.rd_at
        c_u64be.rd_at c_i64be.rd_at c_floatbe.rd_at c_doublebe.rd_at c_u16le.rd_at
        c_i16le.rd_at c_u32le.rd_at c_i32le.rd_at c_u64le.rd_at c_i64le.rd_at
        c_floatle.rd_at c_doublele.rd_at c_bool.rd_at c_ntbe.rd_at c_ntle.rd_at
        c_rawbe.rd_at c_rawle.rd_at c_bytes.rd_at)
qed

lemma write_fields_appends:
  "write_fields h fs b = b\<lparr>bb_buffer := bb_buffer b @ fields_enc fs\<rparr>"
  by (induction fs arbitrary: b) (simp_all add: fields_enc_def c_field.wr_appends)

lemma read_kinds_at_cursor:
  assumes "list_all field_ok fs" and "at_cursor b (fields_enc fs) rest"
  shows "read_kinds h (map kind_of fs) b = Inr (fs, advance (length (fields_enc fs)) b)"
  using assms
proof (induction fs arbitrary: b)
  case Nil
  then show ?case by (simp add: fields_enc_def advance_def)
next
  case (Cons f fs)
  from Cons.prems have at: "at_cursor b (field_enc f) (fields_enc fs @ rest)"
    by (simp add: fields_enc_def at_cursor_def)
  from Cons.prems(1) have ok: "field_ok f \<and> kind_of f = kind_of f" by simp
  let ?b = "advance (length (field_enc f)) b"
  have "at_cursor ?b (fields_enc fs) rest"
    using at_cursor_advance[OF at refl] by (simp add: at_cursor_split)
  with Cons.prems(1) have "read_kinds h (map kind_of fs) ?b
      = Inr (fs, advance (length (fields_enc fs)) ?b)"
    by (intro Cons.IH) simp_all
  then show ?case
    by (simp add: c_field.rd_at[OF ok at] fields_enc_def advance_def add.assoc)
qed


subsection \<open>Sizes and host independence\<close>

text \<open>The number of bytes a field of a fixed-width or sized kind occupies.\<close>

fun kind_size :: "field_kind \<Rightarrow> nat option" where
  "kind_size K_uint8 = Some 1"
| "kind_size K_int8 = Some 1"
| "kind_size K_bool = Some 1"
| "kind_size K_uint16_be = Some 2"
| "kind_size K_int16_be = Some 2"
| "kind_size K_uint16_le = Some 2"
| "kind_size K_int16_le = Some 2"
| "kind_size K_uint32_be = Some 4"
| "kind_size K_int32_be = Some 4"
| "kind_size K_uint32_le = Some 4"
| "kind_size K_int32_le = Some 4"
| "kind_size K_float_be = Some 4"
| "kind_size K_float_le = Some 4"
| "kind_size K_uint64_be = Some 8"
| "kind_size K_int64_be = Some 8"
| "kind_size K_uint64_le = Some 8"
| "kind_size K_int64_le = Some 8"
| "kind_size K_double_be = Some 8"
| "kind_size K_double_le = Some 8"
| "kind_size (K_raw_be n) = (if n = 0 then None else Some n)"
| "kind_size (K_raw_le n) = (if n = 0 then None else Some n)"
| "kind_size (K_bytes n) = Some n"
| "kind_size K_nt_be = None"
| "kind_size K_nt_le = None"

lemmas read_defs =
  read_uint8_def read_int8_def read_bool_def
  read_uint16_be_def read_uint32_be_def read_uint64_be_def
  read_uint16_le_def read_uint32_le_def read_uint64_le_def
  read_int16_be_def read_int32_be_def read_int64_be_def
  read_int16_le_def read_int32_le_def read_int64_le_def
  read_float_be_def read_double_be_def read_float_le_def read_double_le_def
  read_string_raw_be_def read_string_raw_le_def

lemma read_scalar_cong:
  "(\<And>bs. length bs = n \<Longrightarrow> f bs = g bs) \<Longrightarrow> read_scalar n src f b = read_scalar n src g b"
  by (auto simp: read_scalar_def rbind_def mem_at_def split: sum.splits)

lemma read_scalar_host [simp]:
  "read_scalar 2 src (\<lambda>bs. betoh h (of_obj_rep h bs) :: u16) b =
     read_scalar 2 src (\<lambda>bs. of_le_bytes (rev bs)) b"
  "read_scalar 4 src (\<lambda>bs. betoh h (of_obj_rep h bs) :: u32) b =
     read_scalar 4 src (\<lambda>bs. of_le_bytes (rev bs)) b"
  "read_scalar 8 src (\<lambda>bs. betoh h (of_obj_rep h bs) :: u64) b =
     read_scalar 8 src (\<lambda>bs. of_le_bytes (rev bs)) b"
  "read_scalar 2 src (\<lambda>bs. letoh h (of_obj_rep h bs) :: u16) b = read_scalar 2 src of_le_bytes b"
  "read_scalar 4 src (\<lambda>bs. letoh h (of_obj_rep h bs) :: u32) b = read_scalar 4 src of_le_bytes b"
  "read_scalar 8 src (\<lambda>bs. letoh h (of_obj_rep h bs) :: u64) b = read_scalar 8 src of_le_bytes b"
  by (rule read_scalar_cong, simp add: betoh_of_obj_rep letoh_of_obj_rep)+

lemma read_kind_host: "read_kind h k b = read_kind h' k b"
  by (cases k) (simp_all add: read_defs)

lemma read_kinds_host: "read_kinds h ks b = read_kinds h' ks b"
proof (induction ks arbitrary: b)
  case (Cons k ks)
  then show ?case
    by (auto simp: read_kind_host[of h k b h'] rbind_def split: sum.splits)
qed simp

lemma read_kind_result:
  assumes "kind_size k = Some n" and "bb_read_pos b + n < size_t_range"
  shows "(if bb_read_pos b + n \<le> length (bb_buffer b)
          then \<exists>f. read_kind h k b = Inr (f, advance n b)
          else read_kind h k b =
                 Inl (Thrown (out_of_range ''ByteBuffer: not enough data to read'')))"
  using assms
  by (cases k)
     (auto simp: read_defs read_scalar_cases as_signed_def check_read_exact tagged_def
        read_bytes_def split: if_splits)

text \<open>When the sum of cursor and size wraps around, the check passes and the access leaves the vector.\<close>

lemma wrapped_access:
  assumes "bb_wf b" "n < size_t_range" "size_t_range \<le> bb_read_pos b + n"
  shows "check_read n src b = Inr ()" "mem_at n b = Inl Undefined" "read_scalar n src conv b = Inl Undefined"
    "read_bytes n b = Inl Undefined"
proof -
  have "(bb_read_pos b + n) mod size_t_range = bb_read_pos b + n - size_t_range"
    using assms by (subst mod_if) (auto simp: bb_wf_def)
  then show c: "check_read n src b = Inr ()" for src using assms by (auto simp: check_read_def bb_wf_def)
  show m: "mem_at n b = Inl Undefined" using assms by (auto simp: mem_at_def bb_wf_def)
  show "read_scalar n src conv b = Inl Undefined" by (simp add: read_scalar_def c m)
  show "read_bytes n b = Inl Undefined" using assms by (auto simp: read_bytes_def c bb_wf_def)
qed

lemma read_kind_wrapped:
  assumes "kind_size k = Some n" "bb_wf b" "n < size_t_range" "size_t_range \<le> bb_read_pos b + n"
  shows "read_kind h k b = Inl Undefined"
  using assms
  by (cases k) (auto simp: read_defs as_signed_def tagged_def wrapped_access(1,3,4)[OF assms(2)] split: if_splits)

subsection \<open>Properties\<close>

text \<open>
  C24. Whatever sequence of integers, floats, booleans, strings and byte runs is written to a
  buffer on one host, reading the same kinds back, on a host of any byte order, returns exactly
  the values written and leaves the cursor at the end. (Signed values in range, terminated
  strings without NUL, unterminated ones non-empty.)
\<close>

theorem buffer_fields_roundtrip:
  assumes "list_all field_ok fs"
    and "bb_read_pos b = length (bb_buffer b)"
    and "length (bb_buffer b) + length (fields_enc fs) < size_t_range"
  shows "read_kinds h' (map kind_of fs) (write_fields h fs b) =
     Inr (fs, (write_fields h fs b)\<lparr>bb_read_pos := length (bb_buffer (write_fields h fs b))\<rparr>)"
proof -
  have "at_cursor (write_fields h fs b) (fields_enc fs) []"
    using assms(2,3) by (simp add: at_cursor_def write_fields_appends bb_wf_def)
  from read_kinds_at_cursor[OF assms(1) this] show ?thesis
    by (simp add: write_fields_appends advance_def assms(2))
qed

theorem buffer_fields_roundtrip_witness:
  "read_kinds Big_Endian [K_uint16_be, K_int32_le, K_nt_le]
     (write_fields Little_Endian [F_uint16_be 0x1234, F_int32_le (- 5), F_nt_le [65, 66]] bb_empty)
   = Inr ([F_uint16_be 0x1234, F_int32_le (- 5), F_nt_le [65, 66]],
       \<lparr>bb_buffer = [0x12, 0x34, 0xFB, 0xFF, 0xFF, 0xFF, 66, 65, 0], bb_read_pos = 9\<rparr>)"
proof -
  let ?fs = "[F_uint16_be 0x1234, F_int32_le (- 5), F_nt_le [65, 66]]"
  have enc: "fields_enc ?fs = [0x12, 0x34, 0xFB, 0xFF, 0xFF, 0xFF, 66, 65, 0]"
    by (simp add: fields_enc_def le_bytes_def upt_conv_Cons)
  show ?thesis
    using buffer_fields_roundtrip[of ?fs bb_empty Big_Endian Little_Endian]
    by (simp add: enc write_fields_appends bb_empty_def size_t_range_def)
qed

text \<open>
  The bytes a buffer holds and the values read from it do not depend on the byte order of the
  host: the \<open>memcpy\<close> of an integer and the \<open><endian.h>\<close> conversion around it cancel.
\<close>

theorem buffer_host_independent:
  "write_fields h fs b = write_fields h' fs b \<and> read_kinds h ks b = read_kinds h' ks b"
  by (simp add: write_fields_appends read_kinds_host[of h ks b h'])



text \<open>
  The bounds check adds the cursor and the requested size modulo \<open>2 ^ 64\<close>, so a request of
  \<open>2 ^ 64 - read_pos\<close> bytes passes it: \<open>read_bytes\<close> then runs outside the vector, and \<open>skip\<close>
  moves the cursor back to the start.
\<close>

theorem check_read_wraps:
  assumes "bb_wf b" and "0 < bb_read_pos b"
  shows "read_bytes (size_t_range - bb_read_pos b) b = Inl Undefined \<and>
         bb_skip (size_t_range - bb_read_pos b) b = Inr (b\<lparr>bb_read_pos := 0\<rparr>)"
proof -
  have "bb_read_pos b + (size_t_range - bb_read_pos b) = size_t_range"
    using assms(1) by (simp add: bb_wf_def)
  then show ?thesis
    using assms by (auto simp: read_bytes_def bb_skip_def check_read_def bb_wf_def)
qed

theorem check_read_wraps_witness:
  "read_bytes (2 ^ 64 - 1) (advance 1 (ByteBuffer [7, 8])) = Inl Undefined"
  using check_read_wraps[of "advance 1 (ByteBuffer [7, 8])"]
  by (simp add: bb_wf_def advance_def ByteBuffer_def size_t_range_def)

end
