(* ===== verification/Packets.thy ===== *)
theory Packets
  imports Byte_Buffer
begin

text \<open>
  \<open>src/common/packet/Packet.hpp\<close>, \<open>AuthOpcodes.hpp\<close>, \<open>AuthPacket.hpp\<close>, \<open>WorkOpcodes.hpp\<close> and
  \<open>WorkPacket.hpp\<close>: packets as byte buffers with an opcode, their wire format and its parser. The
  derived classes are record extensions of the base class, so the inherited operations apply to
  both. A value of an enumeration with a fixed underlying type may be any value of that type, so a
  packet stores the underlying integer and a \<open>switch\<close> looks its enumerator up.
\<close>

subsection \<open>Opcodes\<close>

datatype AuthOpcodes =
    Auth_EMPTY_STAGE
  | Auth_CMSG_PING
  | Auth_SMSG_PONG
  | CMSG_AUTH_LOGON_CHALLENGE
  | SMSG_AUTH_LOGON_CHALLENGE
  | CMSG_AUTH_LOGON_PROOF
  | SMSG_AUTH_LOGON_PROOF
  | SMSG_AUTH_RESPONSE

fun auth_code :: "AuthOpcodes \<Rightarrow> byte" where
  "auth_code Auth_EMPTY_STAGE = 0x00"
| "auth_code Auth_CMSG_PING = 0x01"
| "auth_code Auth_SMSG_PONG = 0x02"
| "auth_code CMSG_AUTH_LOGON_CHALLENGE = 0x03"
| "auth_code SMSG_AUTH_LOGON_CHALLENGE = 0x04"
| "auth_code CMSG_AUTH_LOGON_PROOF = 0x05"
| "auth_code SMSG_AUTH_LOGON_PROOF = 0x06"
| "auth_code SMSG_AUTH_RESPONSE = 0x07"

definition auth_enum :: "byte \<Rightarrow> AuthOpcodes option" where
  "auth_enum v = find (\<lambda>c. auth_code c = v)
     [Auth_EMPTY_STAGE, Auth_CMSG_PING, Auth_SMSG_PONG, CMSG_AUTH_LOGON_CHALLENGE,
      SMSG_AUTH_LOGON_CHALLENGE, CMSG_AUTH_LOGON_PROOF, SMSG_AUTH_LOGON_PROOF,
      SMSG_AUTH_RESPONSE]"

datatype AuthStatusCode = AUTH_SUCCESS | AUTH_FAILED

fun status_code :: "AuthStatusCode \<Rightarrow> byte" where
  "status_code AUTH_SUCCESS = 0"
| "status_code AUTH_FAILED = 1"

datatype AuthErrorCode = INTERNAL_ERROR | WRONG_USERNAME | WRONG_PASSWORD | DATABASE_BUSY

fun error_code :: "AuthErrorCode \<Rightarrow> byte" where
  "error_code INTERNAL_ERROR = 0"
| "error_code WRONG_USERNAME = 1"
| "error_code WRONG_PASSWORD = 2"
| "error_code DATABASE_BUSY = 3"

datatype WorkOpcodes =
    Work_EMPTY_STAGE
  | Work_CMSG_PING
  | Work_SMSG_PONG
  | CMSG_MESSAGE
  | SMSG_MESSAGE

fun work_code :: "WorkOpcodes \<Rightarrow> u16" where
  "work_code Work_EMPTY_STAGE = 0x00"
| "work_code Work_CMSG_PING = 0x01"
| "work_code Work_SMSG_PONG = 0x02"
| "work_code CMSG_MESSAGE = 0x03"
| "work_code SMSG_MESSAGE = 0x04"

definition work_enum :: "u16 \<Rightarrow> WorkOpcodes option" where
  "work_enum v = find (\<lambda>c. work_code c = v)
     [Work_EMPTY_STAGE, Work_CMSG_PING, Work_SMSG_PONG, CMSG_MESSAGE, SMSG_MESSAGE]"

subsection \<open>The base class\<close>

record packet =
  pk_buffer :: byte_buffer

definition serialize :: "'a packet_scheme \<Rightarrow> bytes" where
  "serialize p = bb_data (pk_buffer p)"

text \<open>Every reading and writing method of the base class forwards to the buffer.\<close>

definition packet_write :: "(byte_buffer \<Rightarrow> byte_buffer) \<Rightarrow> 'a packet_scheme \<Rightarrow> 'a packet_scheme" where
  "packet_write f p = p\<lparr>pk_buffer := f (pk_buffer p)\<rparr>"

definition packet_read ::
  "(byte_buffer \<Rightarrow> ('v \<times> byte_buffer) result) \<Rightarrow> 'a packet_scheme \<Rightarrow> ('v \<times> 'a packet_scheme) result" where
  "packet_read f p = rbind (f (pk_buffer p)) (\<lambda>(v, b). Inr (v, p\<lparr>pk_buffer := b\<rparr>))"

definition pk_write_uint8 :: "byte \<Rightarrow> 'a packet_scheme \<Rightarrow> 'a packet_scheme" where
  "pk_write_uint8 v = packet_write (write_uint8 v)"

definition pk_write_int8 :: "int \<Rightarrow> 'a packet_scheme \<Rightarrow> 'a packet_scheme" where
  "pk_write_int8 v = packet_write (write_int8 v)"

definition pk_write_uint16_be :: "endian \<Rightarrow> u16 \<Rightarrow> 'a packet_scheme \<Rightarrow> 'a packet_scheme" where
  "pk_write_uint16_be h v = packet_write (write_uint16_be h v)"

definition pk_write_int16_be :: "endian \<Rightarrow> int \<Rightarrow> 'a packet_scheme \<Rightarrow> 'a packet_scheme" where
  "pk_write_int16_be h v = packet_write (write_int16_be h v)"

definition pk_write_uint32_be :: "endian \<Rightarrow> u32 \<Rightarrow> 'a packet_scheme \<Rightarrow> 'a packet_scheme" where
  "pk_write_uint32_be h v = packet_write (write_uint32_be h v)"

definition pk_write_int32_be :: "endian \<Rightarrow> int \<Rightarrow> 'a packet_scheme \<Rightarrow> 'a packet_scheme" where
  "pk_write_int32_be h v = packet_write (write_int32_be h v)"

definition pk_write_uint64_be :: "endian \<Rightarrow> u64 \<Rightarrow> 'a packet_scheme \<Rightarrow> 'a packet_scheme" where
  "pk_write_uint64_be h v = packet_write (write_uint64_be h v)"

definition pk_write_int64_be :: "endian \<Rightarrow> int \<Rightarrow> 'a packet_scheme \<Rightarrow> 'a packet_scheme" where
  "pk_write_int64_be h v = packet_write (write_int64_be h v)"

definition pk_write_float_be :: "endian \<Rightarrow> u32 \<Rightarrow> 'a packet_scheme \<Rightarrow> 'a packet_scheme" where
  "pk_write_float_be h v = packet_write (write_float_be h v)"

definition pk_write_double_be :: "endian \<Rightarrow> u64 \<Rightarrow> 'a packet_scheme \<Rightarrow> 'a packet_scheme" where
  "pk_write_double_be h v = packet_write (write_double_be h v)"

definition pk_write_uint16_le :: "endian \<Rightarrow> u16 \<Rightarrow> 'a packet_scheme \<Rightarrow> 'a packet_scheme" where
  "pk_write_uint16_le h v = packet_write (write_uint16_le h v)"

definition pk_write_int16_le :: "endian \<Rightarrow> int \<Rightarrow> 'a packet_scheme \<Rightarrow> 'a packet_scheme" where
  "pk_write_int16_le h v = packet_write (write_int16_le h v)"

definition pk_write_uint32_le :: "endian \<Rightarrow> u32 \<Rightarrow> 'a packet_scheme \<Rightarrow> 'a packet_scheme" where
  "pk_write_uint32_le h v = packet_write (write_uint32_le h v)"

definition pk_write_int32_le :: "endian \<Rightarrow> int \<Rightarrow> 'a packet_scheme \<Rightarrow> 'a packet_scheme" where
  "pk_write_int32_le h v = packet_write (write_int32_le h v)"

definition pk_write_uint64_le :: "endian \<Rightarrow> u64 \<Rightarrow> 'a packet_scheme \<Rightarrow> 'a packet_scheme" where
  "pk_write_uint64_le h v = packet_write (write_uint64_le h v)"

definition pk_write_int64_le :: "endian \<Rightarrow> int \<Rightarrow> 'a packet_scheme \<Rightarrow> 'a packet_scheme" where
  "pk_write_int64_le h v = packet_write (write_int64_le h v)"

definition pk_write_float_le :: "endian \<Rightarrow> u32 \<Rightarrow> 'a packet_scheme \<Rightarrow> 'a packet_scheme" where
  "pk_write_float_le h v = packet_write (write_float_le h v)"

definition pk_write_double_le :: "endian \<Rightarrow> u64 \<Rightarrow> 'a packet_scheme \<Rightarrow> 'a packet_scheme" where
  "pk_write_double_le h v = packet_write (write_double_le h v)"

definition pk_write_bool :: "bool \<Rightarrow> 'a packet_scheme \<Rightarrow> 'a packet_scheme" where
  "pk_write_bool v = packet_write (write_bool v)"

definition pk_write_string_raw_be :: "bytes \<Rightarrow> 'a packet_scheme \<Rightarrow> 'a packet_scheme" where
  "pk_write_string_raw_be v = packet_write (write_string_raw_be v)"

definition pk_write_string_raw_le :: "bytes \<Rightarrow> 'a packet_scheme \<Rightarrow> 'a packet_scheme" where
  "pk_write_string_raw_le v = packet_write (write_string_raw_le v)"

definition pk_write_string_nt_be :: "bytes \<Rightarrow> 'a packet_scheme \<Rightarrow> 'a packet_scheme" where
  "pk_write_string_nt_be v = packet_write (write_string_nt_be v)"

definition pk_write_string_nt_le :: "bytes \<Rightarrow> 'a packet_scheme \<Rightarrow> 'a packet_scheme" where
  "pk_write_string_nt_le v = packet_write (write_string_nt_le v)"

definition pk_write_bytes :: "bytes \<Rightarrow> 'a packet_scheme \<Rightarrow> 'a packet_scheme" where
  "pk_write_bytes v = packet_write (write_bytes v)"

definition pk_read_uint8 :: "'a packet_scheme \<Rightarrow> (byte \<times> 'a packet_scheme) result" where
  "pk_read_uint8 = packet_read read_uint8"

definition pk_read_int8 :: "'a packet_scheme \<Rightarrow> (int \<times> 'a packet_scheme) result" where
  "pk_read_int8 = packet_read read_int8"

definition pk_read_uint16_be :: "endian \<Rightarrow> 'a packet_scheme \<Rightarrow> (u16 \<times> 'a packet_scheme) result" where
  "pk_read_uint16_be h = packet_read (read_uint16_be h)"

definition pk_read_int16_be :: "endian \<Rightarrow> 'a packet_scheme \<Rightarrow> (int \<times> 'a packet_scheme) result" where
  "pk_read_int16_be h = packet_read (read_int16_be h)"

definition pk_read_uint32_be :: "endian \<Rightarrow> 'a packet_scheme \<Rightarrow> (u32 \<times> 'a packet_scheme) result" where
  "pk_read_uint32_be h = packet_read (read_uint32_be h)"

definition pk_read_int32_be :: "endian \<Rightarrow> 'a packet_scheme \<Rightarrow> (int \<times> 'a packet_scheme) result" where
  "pk_read_int32_be h = packet_read (read_int32_be h)"

definition pk_read_uint64_be :: "endian \<Rightarrow> 'a packet_scheme \<Rightarrow> (u64 \<times> 'a packet_scheme) result" where
  "pk_read_uint64_be h = packet_read (read_uint64_be h)"

definition pk_read_int64_be :: "endian \<Rightarrow> 'a packet_scheme \<Rightarrow> (int \<times> 'a packet_scheme) result" where
  "pk_read_int64_be h = packet_read (read_int64_be h)"

definition pk_read_float_be :: "endian \<Rightarrow> 'a packet_scheme \<Rightarrow> (u32 \<times> 'a packet_scheme) result" where
  "pk_read_float_be h = packet_read (read_float_be h)"

definition pk_read_double_be :: "endian \<Rightarrow> 'a packet_scheme \<Rightarrow> (u64 \<times> 'a packet_scheme) result" where
  "pk_read_double_be h = packet_read (read_double_be h)"

definition pk_read_uint16_le :: "endian \<Rightarrow> 'a packet_scheme \<Rightarrow> (u16 \<times> 'a packet_scheme) result" where
  "pk_read_uint16_le h = packet_read (read_uint16_le h)"

definition pk_read_int16_le :: "endian \<Rightarrow> 'a packet_scheme \<Rightarrow> (int \<times> 'a packet_scheme) result" where
  "pk_read_int16_le h = packet_read (read_int16_le h)"

definition pk_read_uint32_le :: "endian \<Rightarrow> 'a packet_scheme \<Rightarrow> (u32 \<times> 'a packet_scheme) result" where
  "pk_read_uint32_le h = packet_read (read_uint32_le h)"

definition pk_read_int32_le :: "endian \<Rightarrow> 'a packet_scheme \<Rightarrow> (int \<times> 'a packet_scheme) result" where
  "pk_read_int32_le h = packet_read (read_int32_le h)"

definition pk_read_uint64_le :: "endian \<Rightarrow> 'a packet_scheme \<Rightarrow> (u64 \<times> 'a packet_scheme) result" where
  "pk_read_uint64_le h = packet_read (read_uint64_le h)"

definition pk_read_int64_le :: "endian \<Rightarrow> 'a packet_scheme \<Rightarrow> (int \<times> 'a packet_scheme) result" where
  "pk_read_int64_le h = packet_read (read_int64_le h)"

definition pk_read_float_le :: "endian \<Rightarrow> 'a packet_scheme \<Rightarrow> (u32 \<times> 'a packet_scheme) result" where
  "pk_read_float_le h = packet_read (read_float_le h)"

definition pk_read_double_le :: "endian \<Rightarrow> 'a packet_scheme \<Rightarrow> (u64 \<times> 'a packet_scheme) result" where
  "pk_read_double_le h = packet_read (read_double_le h)"

definition pk_read_bool :: "'a packet_scheme \<Rightarrow> (bool \<times> 'a packet_scheme) result" where
  "pk_read_bool = packet_read read_bool"

definition pk_read_string_nt_be :: "'a packet_scheme \<Rightarrow> (bytes \<times> 'a packet_scheme) result" where
  "pk_read_string_nt_be = packet_read read_string_nt_be"

definition pk_read_string_nt_le :: "'a packet_scheme \<Rightarrow> (bytes \<times> 'a packet_scheme) result" where
  "pk_read_string_nt_le = packet_read read_string_nt_le"

definition pk_read_string_raw_be :: "nat \<Rightarrow> 'a packet_scheme \<Rightarrow> (bytes \<times> 'a packet_scheme) result" where
  "pk_read_string_raw_be n = packet_read (read_string_raw_be n)"

definition pk_read_string_raw_le :: "nat \<Rightarrow> 'a packet_scheme \<Rightarrow> (bytes \<times> 'a packet_scheme) result" where
  "pk_read_string_raw_le n = packet_read (read_string_raw_le n)"

definition pk_read_bytes :: "nat \<Rightarrow> 'a packet_scheme \<Rightarrow> (bytes \<times> 'a packet_scheme) result" where
  "pk_read_bytes n = packet_read (read_bytes n)"

definition pk_skip :: "nat \<Rightarrow> 'a packet_scheme \<Rightarrow> 'a packet_scheme result" where
  "pk_skip n p = rbind (bb_skip n (pk_buffer p)) (\<lambda>b. Inr (p\<lparr>pk_buffer := b\<rparr>))"

definition pk_read_pos :: "'a packet_scheme \<Rightarrow> nat" where
  "pk_read_pos p = bb_read_pos (pk_buffer p)"

definition pk_size :: "'a packet_scheme \<Rightarrow> nat" where
  "pk_size p = bb_size (pk_buffer p)"

text \<open>\<open>log_raw_payload\<close>: each byte as two upper-case hex digits and a space (\<open>{:02X} \<close>).\<close>

definition hex_digit_upper :: "nat \<Rightarrow> byte" where
  "hex_digit_upper n = (if n < 10 then of_nat (48 + n) else of_nat (55 + n))"

definition hex_dump :: "bytes \<Rightarrow> bytes" where
  "hex_dump payload =
     concat (map (\<lambda>b. [hex_digit_upper (unat b div 16), hex_digit_upper (unat b mod 16), 32]) payload)"

definition log_raw_payload :: "bytes \<Rightarrow> bytes \<Rightarrow> bytes \<Rightarrow> bytes" where
  "log_raw_payload opcode payload prefix =
     prefix @ str '' opcode ID: '' @ opcode @ str '' ('' @ dec_digits (length payload)
       @ str '' bytes) RAW: '' @ hex_dump payload"

subsection \<open>Authentication packets\<close>

text \<open>\<open>[Opcode(uint8)][Length(uint16)][Payload]\<close>\<close>

record auth_packet = packet +
  ap_opcode :: byte

definition AuthPacket_default :: auth_packet where
  "AuthPacket_default = \<lparr>pk_buffer = bb_empty, ap_opcode = auth_code Auth_EMPTY_STAGE\<rparr>"

definition AuthPacket :: "AuthOpcodes \<Rightarrow> auth_packet" where
  "AuthPacket c = \<lparr>pk_buffer = bb_empty, ap_opcode = auth_code c\<rparr>"

definition auth_set_opcode :: "AuthOpcodes \<Rightarrow> auth_packet \<Rightarrow> auth_packet" where
  "auth_set_opcode c p = p\<lparr>ap_opcode := auth_code c\<rparr>"

definition auth_get_opcode :: "auth_packet \<Rightarrow> byte" where
  "auth_get_opcode p = ap_opcode p"

definition auth_build_packet :: "endian \<Rightarrow> auth_packet \<Rightarrow> bytes" where
  "auth_build_packet h p =
     bb_data (write_bytes (bb_data (pk_buffer p))
       (write_uint16_be h (of_nat (bb_size (pk_buffer p)))
         (write_uint8 (ap_opcode p) bb_empty)))"

definition auth_deserialize :: "endian \<Rightarrow> bytes \<Rightarrow> auth_packet \<Rightarrow> auth_packet result" where
  "auth_deserialize h raw p =
     rbind (read_uint8 (ByteBuffer raw)) (\<lambda>(opcode, temp1).
     rbind (read_uint16_be h temp1) (\<lambda>(len, temp2).
     if unat len \<noteq> size_t_sub (length raw) 3
     then Inl (Thrown (runtime_error ''AuthPacket::deserialize: payload length mismatch''))
     else rbind (read_bytes (unat len) temp2) (\<lambda>(payload, _).
       Inr (p\<lparr>ap_opcode := opcode,
              pk_buffer := write_bytes payload (bb_clear (pk_buffer p))\<rparr>))))"

subsection \<open>Work packets\<close>

text \<open>\<open>[Opcode(uint16)][Length(uint16)][Payload]\<close>\<close>

record work_packet = packet +
  wp_opcode :: u16

definition WorkPacket_default :: work_packet where
  "WorkPacket_default = \<lparr>pk_buffer = bb_empty, wp_opcode = work_code Work_EMPTY_STAGE\<rparr>"

definition WorkPacket :: "WorkOpcodes \<Rightarrow> work_packet" where
  "WorkPacket c = \<lparr>pk_buffer = bb_empty, wp_opcode = work_code c\<rparr>"

definition work_set_opcode :: "WorkOpcodes \<Rightarrow> work_packet \<Rightarrow> work_packet" where
  "work_set_opcode c p = p\<lparr>wp_opcode := work_code c\<rparr>"

definition work_get_opcode :: "work_packet \<Rightarrow> u16" where
  "work_get_opcode p = wp_opcode p"

definition work_build_packet :: "endian \<Rightarrow> work_packet \<Rightarrow> bytes" where
  "work_build_packet h p =
     bb_data (write_bytes (bb_data (pk_buffer p))
       (write_uint16_be h (of_nat (bb_size (pk_buffer p)))
         (write_uint16_be h (wp_opcode p) bb_empty)))"

definition work_deserialize :: "endian \<Rightarrow> bytes \<Rightarrow> work_packet \<Rightarrow> work_packet result" where
  "work_deserialize h raw p =
     rbind (read_uint16_be h (ByteBuffer raw)) (\<lambda>(opcode, temp1).
     rbind (read_uint16_be h temp1) (\<lambda>(len, temp2).
     if unat len \<noteq> size_t_sub (length raw) 4
     then Inl (Thrown (runtime_error ''WorkPacket::deserialize: payload length mismatch''))
     else rbind (read_bytes (unat len) temp2) (\<lambda>(payload, _).
       Inr (p\<lparr>wp_opcode := opcode,
              pk_buffer := write_bytes payload (bb_clear (pk_buffer p))\<rparr>))))"

text \<open>\<open>std::shared_ptr<const Packet>\<close> with the virtual \<open>build_packet\<close>.\<close>

datatype any_packet = Auth_Packet auth_packet | Work_Packet work_packet

fun build_packet :: "endian \<Rightarrow> any_packet \<Rightarrow> bytes" where
  "build_packet h (Auth_Packet p) = auth_build_packet h p"
| "build_packet h (Work_Packet p) = work_build_packet h p"

subsection \<open>Frames\<close>

text \<open>The wire format, and the payload length a header announces (a big-endian \<open>uint16\<close>).\<close>

definition be16 :: "u16 \<Rightarrow> bytes" where
  "be16 w = rev (le_bytes w)"

definition auth_frame :: "byte \<Rightarrow> bytes \<Rightarrow> bytes" where
  "auth_frame opcode payload = opcode # be16 (of_nat (length payload)) @ payload"

definition work_frame :: "u16 \<Rightarrow> bytes \<Rightarrow> bytes" where
  "work_frame opcode payload = be16 opcode @ be16 (of_nat (length payload)) @ payload"

definition header_length :: "byte \<Rightarrow> byte \<Rightarrow> u16" where
  "header_length hi lo = push_bit 8 (ucast hi) OR ucast lo"

definition auth_plen :: "bytes \<Rightarrow> nat" where
  "auth_plen bs = unat (header_length (bs ! 1) (bs ! 2))"

definition work_plen :: "bytes \<Rightarrow> nat" where
  "work_plen bs = unat (header_length (bs ! 2) (bs ! 3))"

text \<open>Cutting a byte stream into the complete frames at its front and the rest.\<close>

function split_frames :: "nat \<Rightarrow> (bytes \<Rightarrow> nat) \<Rightarrow> bytes \<Rightarrow> bytes list \<times> bytes" where
  "split_frames hdr plen bs =
     (if hdr = 0 \<or> length bs < hdr \<or> length bs < hdr + plen bs then ([], bs)
      else (case split_frames hdr plen (drop (hdr + plen bs) bs) of
              (fs, r) \<Rightarrow> (take (hdr + plen bs) bs # fs, r)))"
  by pat_completeness auto
termination
  by (relation "measure (\<lambda>(hdr, plen, bs). length bs)") auto

declare split_frames.simps [simp del]

subsection \<open>Lemmas\<close>

lemma auth_enum_code [simp]: "auth_enum (auth_code c) = Some c"
  by (cases c) (simp_all add: auth_enum_def)

lemma auth_enum_SomeD: "auth_enum v = Some c \<Longrightarrow> auth_code c = v"
  by (auto simp: auth_enum_def split: if_splits)

lemma work_enum_code [simp]: "work_enum (work_code c) = Some c"
  by (cases c) (simp_all add: work_enum_def)

lemma work_enum_SomeD: "work_enum v = Some c \<Longrightarrow> work_code c = v"
  by (auto simp: work_enum_def split: if_splits)

lemma be16_eq: "be16 w = [ucast (drop_bit 8 w), ucast w]"
  by (simp add: be16_def le_bytes_def upt_conv_Cons)

lemma length_be16 [simp]: "length (be16 w) = 2"
  by (simp add: be16_eq)

lemma header_length_le_bytes: "header_length hi lo = of_le_bytes [lo, hi]"
  by (simp add: header_length_def or.commute)

lemma header_length_be16 [simp]: "header_length (ucast (drop_bit 8 w)) (ucast w) = w"
proof -
  have "header_length (ucast (drop_bit 8 w)) (ucast w) = of_le_bytes (rev (be16 w))"
    by (simp add: header_length_le_bytes be16_eq)
  then show ?thesis by (simp add: be16_def of_le_bytes_le_bytes)
qed

lemma be16_header_length: "be16 (header_length hi lo) = [hi, lo]"
  unfolding header_length_le_bytes be16_def by (subst le_bytes_of_le_bytes) simp_all

lemma unat_of_nat_16: "unat (of_nat n :: u16) = n mod 65536"
  by (simp add: unat_of_nat)

lemma length_auth_frame [simp]: "length (auth_frame c payload) = 3 + length payload"
  by (simp add: auth_frame_def)

lemma length_work_frame [simp]: "length (work_frame c payload) = 4 + length payload"
  by (simp add: work_frame_def)

lemma auth_plen_frame [simp]:
  "auth_plen (auth_frame c payload @ rest) = length payload mod 65536"
  by (simp add: auth_plen_def auth_frame_def be16_eq unat_of_nat_16)

lemma work_plen_frame [simp]:
  "work_plen (work_frame c payload @ rest) = length payload mod 65536"
  by (simp add: work_plen_def work_frame_def be16_eq unat_of_nat_16 numeral_3_eq_3)

lemma auth_build_frame:
  "auth_build_packet h p = auth_frame (ap_opcode p) (bb_buffer (pk_buffer p))"
  by (simp add: auth_build_packet_def auth_frame_def be16_def codec_simps bb_data_def bb_size_def
      bb_empty_def)

lemma work_build_frame:
  "work_build_packet h p = work_frame (wp_opcode p) (bb_buffer (pk_buffer p))"
  by (simp add: work_build_packet_def work_frame_def be16_def codec_simps bb_data_def bb_size_def
      bb_empty_def)

lemma buffer_rebuilt:
  "b\<lparr>bb_read_pos := i, bb_buffer := bs\<rparr> = \<lparr>bb_buffer = bs, bb_read_pos = i\<rparr>"
  by (cases b) simp

lemma hd_nth_0: "Suc n \<le> length xs \<Longrightarrow> hd xs = xs ! 0"
  by (cases xs) simp_all

lemma read_uint16_be_cases:
  assumes "bb_read_pos b + 2 < size_t_range"
  shows "read_uint16_be h b =
     (if bb_read_pos b + 2 \<le> length (bb_buffer b)
      then Inr (header_length (bb_buffer b ! bb_read_pos b) (bb_buffer b ! Suc (bb_read_pos b)),
                advance 2 b)
      else Inl (Thrown (out_of_range ''ByteBuffer: not enough data to read'')))"
proof -
  have "rev (take 2 (drop (bb_read_pos b) (bb_buffer b)))
      = [bb_buffer b ! Suc (bb_read_pos b), bb_buffer b ! bb_read_pos b]"
    if "bb_read_pos b + 2 \<le> length (bb_buffer b)"
    using that by (simp add: numeral_2_eq_2 take_Suc_conv_app_nth flip: Cons_nth_drop_Suc)
  with assms show ?thesis
    by (auto simp: read_uint16_be_def read_scalar_cases header_length_le_bytes)
qed

text \<open>
  What the parsers accept, as a case distinction on the input. Payloads are shorter than
  \<open>2 ^ 64\<close> bytes like every vector.
\<close>

lemma auth_deserialize_cases:
  assumes "length raw + 3 < size_t_range"
  shows "auth_deserialize h raw p =
     (if length raw < 3
      then Inl (Thrown (out_of_range ''ByteBuffer: not enough data to read''))
      else if auth_plen raw \<noteq> length raw - 3
      then Inl (Thrown (runtime_error ''AuthPacket::deserialize: payload length mismatch''))
      else Inr (p\<lparr>ap_opcode := raw ! 0,
                  pk_buffer := \<lparr>bb_buffer = drop 3 raw, bb_read_pos = 0\<rparr>\<rparr>))"
proof -
  have r: "3 < size_t_range" "1 < size_t_range"
    by (simp_all add: size_t_range_def)
  with assms show ?thesis
    by (auto simp: auth_deserialize_def read_uint8_def read_scalar_cases ByteBuffer_def advance_def
        read_uint16_be_cases read_bytes_def check_read_exact codec_simps bb_clear_def auth_plen_def
        buffer_rebuilt hd_nth_0 numeral_2_eq_2 numeral_3_eq_3)
qed

lemma work_deserialize_cases:
  assumes "length raw + 4 < size_t_range"
  shows "work_deserialize h raw p =
     (if length raw < 4
      then Inl (Thrown (out_of_range ''ByteBuffer: not enough data to read''))
      else if work_plen raw \<noteq> length raw - 4
      then Inl (Thrown (runtime_error ''WorkPacket::deserialize: payload length mismatch''))
      else Inr (p\<lparr>wp_opcode := header_length (raw ! 0) (raw ! 1),
                  pk_buffer := \<lparr>bb_buffer = drop 4 raw, bb_read_pos = 0\<rparr>\<rparr>))"
proof -
  have "4 < size_t_range"
    by (simp add: size_t_range_def)
  with assms show ?thesis
    by (auto simp: work_deserialize_def ByteBuffer_def advance_def read_uint16_be_cases
        read_bytes_def check_read_exact codec_simps bb_clear_def work_plen_def
        buffer_rebuilt numeral_eq_Suc)
qed

subsection \<open>The framing interface\<close>

text \<open>
  Both wire formats are self-delimiting: the payload length stands at a fixed place of a header of
  fixed size. That is all the stream lemmas need.
\<close>

locale frame_format =
  fixes hdr :: nat
    and plen :: "bytes \<Rightarrow> nat"
    and frame :: "'o \<Rightarrow> bytes \<Rightarrow> bytes"
  assumes hdr_pos: "0 < hdr"
    and frame_size: "length (frame c payload) = hdr + length payload"
    and plen_frame: "plen (frame c payload @ rest) = length payload mod 65536"
begin

lemma split_frame:
  assumes "length payload < 65536"
  shows "split_frames hdr plen (frame c payload @ rest) =
     (frame c payload # fst (split_frames hdr plen rest), snd (split_frames hdr plen rest))"
  using assms hdr_pos
  by (subst split_frames.simps) (simp add: plen_frame frame_size split: prod.splits)

lemma split_stream:
  assumes "list_all (\<lambda>(c, payload). length payload < 65536) ms"
  shows "split_frames hdr plen (concat (map (\<lambda>(c, payload). frame c payload) ms) @ rest) =
     (map (\<lambda>(c, payload). frame c payload) ms @ fst (split_frames hdr plen rest),
      snd (split_frames hdr plen rest))"
  using assms by (induction ms) (auto simp: split_frame)


end

interpretation auth_fmt: frame_format 3 auth_plen auth_frame
  by unfold_locales simp_all

interpretation work_fmt: frame_format 4 work_plen work_frame
  by unfold_locales simp_all

subsection \<open>Properties\<close>

text \<open>A packet that can be sent: its payload fits the 16-bit length field.\<close>

abbreviation payload :: "'a packet_scheme \<Rightarrow> bytes" where
  "payload p \<equiv> bb_buffer (pk_buffer p)"

lemma auth_frame_inverse:
  assumes "3 \<le> length raw" and "auth_plen raw = length raw - 3"
  shows "auth_frame (raw ! 0) (drop 3 raw) = raw"
proof -
  from assms(1) obtain a b c rest where raw: "raw = a # b # c # rest"
    by (auto simp: numeral_3_eq_3 Suc_le_length_iff)
  from assms(2) have "length rest = unat (header_length b c)"
    by (simp add: raw auth_plen_def)
  then show ?thesis
    by (simp add: raw auth_frame_def be16_header_length)
qed

lemma work_frame_inverse:
  assumes "4 \<le> length raw" and "work_plen raw = length raw - 4"
  shows "work_frame (header_length (raw ! 0) (raw ! Suc 0)) (drop 4 raw) = raw"
proof -
  from assms(1) obtain a b c d rest where raw: "raw = a # b # c # d # rest"
    by (auto simp: numeral_eq_Suc Suc_le_length_iff)
  from assms(2) have "length rest = unat (header_length c d)"
    by (simp add: raw work_plen_def numeral_3_eq_3)
  then show ?thesis
    by (simp add: raw work_frame_def be16_header_length)
qed

text \<open>
  C5. Building a packet and parsing the bytes gives the packet back, opcode and payload, for both
  packet types, whatever was in the receiving object and whatever the byte orders of the two
  hosts, as long as the payload fits the 16-bit length field.
\<close>

theorem packet_roundtrip:
  assumes "length (payload a) < 65536" and "length (payload w) < 65536"
  shows "auth_deserialize h' (auth_build_packet h a) a0 =
           Inr \<lparr>pk_buffer = \<lparr>bb_buffer = payload a, bb_read_pos = 0\<rparr>, ap_opcode = ap_opcode a\<rparr>
       \<and> work_deserialize h' (work_build_packet h w) w0 =
           Inr \<lparr>pk_buffer = \<lparr>bb_buffer = payload w, bb_read_pos = 0\<rparr>, wp_opcode = wp_opcode w\<rparr>"
proof
  have small: "n < 65536 \<Longrightarrow> n + 9 < size_t_range" for n
    by (simp add: size_t_range_def)
  have "auth_plen (auth_frame (ap_opcode a) (payload a)) = length (payload a)"
    using auth_plen_frame[of "ap_opcode a" "payload a" "[]"] assms(1) by simp
  then show "auth_deserialize h' (auth_build_packet h a) a0 =
      Inr \<lparr>pk_buffer = \<lparr>bb_buffer = payload a, bb_read_pos = 0\<rparr>, ap_opcode = ap_opcode a\<rparr>"
    using small[OF assms(1)]
    by (cases a0) (simp add: auth_build_frame auth_deserialize_cases, simp add: auth_frame_def be16_eq)
  have "work_plen (work_frame (wp_opcode w) (payload w)) = length (payload w)"
    using work_plen_frame[of "wp_opcode w" "payload w" "[]"] assms(2) by simp
  then show "work_deserialize h' (work_build_packet h w) w0 =
      Inr \<lparr>pk_buffer = \<lparr>bb_buffer = payload w, bb_read_pos = 0\<rparr>, wp_opcode = wp_opcode w\<rparr>"
    using small[OF assms(2)]
    by (cases w0) (simp add: work_build_frame work_deserialize_cases, simp add: work_frame_def be16_eq)
qed

theorem packet_roundtrip_witness:
  "auth_deserialize Big_Endian
     (auth_build_packet Little_Endian (pk_write_uint32_le Little_Endian 7 (AuthPacket Auth_CMSG_PING)))
     AuthPacket_default =
   Inr \<lparr>pk_buffer = \<lparr>bb_buffer = [7, 0, 0, 0], bb_read_pos = 0\<rparr>, ap_opcode = 1\<rparr>"
  using packet_roundtrip[of "pk_write_uint32_le Little_Endian 7 (AuthPacket Auth_CMSG_PING)"
      "WorkPacket CMSG_MESSAGE" Big_Endian Little_Endian AuthPacket_default]
  by (simp add: pk_write_uint32_le_def packet_write_def codec_simps AuthPacket_def WorkPacket_def
      bb_empty_def le_bytes_def upt_conv_Cons)

text \<open>
  C22. The parsers accept nothing but packets: for any input they return or throw, never leave the
  input, and what they return is a packet whose wire form is exactly that input.
\<close>

theorem deserialize_sound:
  assumes "length raw + 4 < size_t_range"
  shows "auth_deserialize h raw a0 \<noteq> Inl Undefined \<and> work_deserialize h raw w0 \<noteq> Inl Undefined
     \<and> (\<forall>a. auth_deserialize h raw a0 = Inr a \<longrightarrow> auth_build_packet h' a = raw)
     \<and> (\<forall>w. work_deserialize h raw w0 = Inr w \<longrightarrow> work_build_packet h' w = raw)"
proof -
  from assms have l: "length raw + 3 < size_t_range" by simp
  show ?thesis
    unfolding auth_deserialize_cases[OF l] work_deserialize_cases[OF assms]
    by (auto simp: auth_build_frame work_build_frame auth_frame_inverse work_frame_inverse
        split: if_splits)
qed

theorem deserialize_sound_witness:
  "\<exists>a. auth_deserialize Little_Endian [1, 0, 1, 9] AuthPacket_default = Inr a
     \<and> auth_build_packet Big_Endian a = [1, 0, 1, 9]"
proof -
  have l: "length [1, 0, 1, 9 :: byte] + 4 < size_t_range"
    by (simp add: size_t_range_def)
  have "auth_plen [1, 0, 1, 9] = 1"
    by (simp add: auth_plen_def header_length_def)
  then obtain a where a: "auth_deserialize Little_Endian [1, 0, 1, 9] AuthPacket_default = Inr a"
    using l by (simp add: auth_deserialize_cases)
  from deserialize_sound[OF l, of Little_Endian AuthPacket_default undefined Big_Endian] a
  show ?thesis by blast
qed

text \<open>
  The length field is 16 bits wide: a packet with a payload of 65536 bytes or more is built
  with a truncated length, and every receiver refuses the bytes as a length mismatch.
\<close>

theorem oversized_packet_refused:
  assumes "65536 \<le> length (payload a)" and "length (payload a) + 6 < size_t_range"
  shows "auth_plen (auth_build_packet h a) = length (payload a) mod 65536
     \<and> auth_deserialize h' (auth_build_packet h a) a0 =
         Inl (Thrown (runtime_error ''AuthPacket::deserialize: payload length mismatch''))"
proof -
  have p: "auth_plen (auth_build_packet h a) = length (payload a) mod 65536"
    using auth_plen_frame[of "ap_opcode a" "payload a" "[]"] by (simp add: auth_build_frame)
  have "length (payload a) mod 65536 \<noteq> length (payload a)"
    using assms(1) by (metis mod_less_divisor not_less zero_less_numeral)
  then show ?thesis
    using p assms(2) by (simp add: auth_deserialize_cases auth_build_frame)
qed

theorem oversized_packet_refused_witness:
  "auth_plen (auth_build_packet Little_Endian
      (pk_write_bytes (replicate 65537 0) (AuthPacket Auth_CMSG_PING))) = 1"
proof -
  let ?a = "pk_write_bytes (replicate 65537 0) (AuthPacket Auth_CMSG_PING)"
  have "length (payload ?a) = 65537"
    by (simp add: pk_write_bytes_def packet_write_def codec_simps AuthPacket_def bb_empty_def)
  then show ?thesis
    using oversized_packet_refused[of ?a Little_Endian] by (simp add: size_t_range_def)
qed

text \<open>
  C23. A stream of packets is uniquely decodable: cutting the concatenation of any sequence of
  packets (with payloads that fit the length field), followed by any further bytes, at the lengths
  the headers announce gives exactly those packets in order, for both formats.
\<close>

theorem packet_stream_unique:
  assumes "list_all (\<lambda>a. length (payload a) < 65536) as"
    and "list_all (\<lambda>w. length (payload w) < 65536) ws"
  shows "split_frames 3 auth_plen (concat (map (auth_build_packet h) as) @ rest) =
           (map (auth_build_packet h) as @ fst (split_frames 3 auth_plen rest),
            snd (split_frames 3 auth_plen rest))
       \<and> split_frames 4 work_plen (concat (map (work_build_packet h) ws) @ rest) =
           (map (work_build_packet h) ws @ fst (split_frames 4 work_plen rest),
            snd (split_frames 4 work_plen rest))"
proof -
  have "auth_build_packet h = (\<lambda>a. auth_frame (ap_opcode a) (payload a))"
    and "work_build_packet h = (\<lambda>w. work_frame (wp_opcode w) (payload w))"
    by (simp_all add: fun_eq_iff auth_build_frame work_build_frame)
  with assms show ?thesis
    using auth_fmt.split_stream[of "map (\<lambda>a. (ap_opcode a, payload a)) as" rest]
      work_fmt.split_stream[of "map (\<lambda>w. (wp_opcode w, payload w)) ws" rest]
    by (simp add: list_all_iff comp_def)
qed

theorem packet_stream_unique_witness:
  "split_frames 3 auth_plen
     (concat (map (auth_build_packet Little_Endian)
        [AuthPacket Auth_CMSG_PING, AuthPacket SMSG_AUTH_RESPONSE]) @ [5]) =
   ([[1, 0, 0], [7, 0, 0]], [5])"
proof -
  have "split_frames 3 auth_plen [5] = ([], [5])"
    by (simp add: split_frames.simps)
  then show ?thesis
    using packet_stream_unique[of "[AuthPacket Auth_CMSG_PING, AuthPacket SMSG_AUTH_RESPONSE]" "[]"
        Little_Endian "[5]"]
    by (simp add: auth_build_frame auth_frame_def AuthPacket_def bb_empty_def be16_eq)
qed

end
