(* ===== verification/Message_Buffer.thy ===== *)
theory Message_Buffer
  imports Purity_Prelude
begin

text \<open>
  \<open>src/common/packet/MessageBuffer.hpp\<close>: the receive buffer of a session, a vector with a write
  and a read position. The bytes between the two positions are the ones received and not yet
  consumed. The differences of positions are unsigned, so they wrap when the positions are in the
  wrong order; the invariant \<open>mb_wf\<close> rules that out.
\<close>

subsection \<open>State and operations\<close>

record message_buffer =
  mb_wpos :: nat
  mb_rpos :: nat
  mb_storage :: bytes

definition MessageBuffer :: "nat \<Rightarrow> message_buffer" where
  "MessageBuffer n = \<lparr>mb_wpos = 0, mb_rpos = 0, mb_storage = replicate n 0\<rparr>"

definition mb_reset :: "message_buffer \<Rightarrow> message_buffer" where
  "mb_reset m = m\<lparr>mb_wpos := 0, mb_rpos := 0\<rparr>"

definition mb_clear :: "message_buffer \<Rightarrow> message_buffer" where
  "mb_clear m = (mb_reset m)\<lparr>mb_storage := []\<rparr>"

text \<open>The memory that starts at \<open>read_ptr()\<close> and at \<open>write_ptr()\<close>.\<close>

definition read_ptr :: "message_buffer \<Rightarrow> bytes" where
  "read_ptr m = drop (mb_rpos m) (mb_storage m)"

definition write_ptr :: "message_buffer \<Rightarrow> bytes" where
  "write_ptr m = drop (mb_wpos m) (mb_storage m)"

definition get_active_size :: "message_buffer \<Rightarrow> nat" where
  "get_active_size m = size_t_sub (mb_wpos m) (mb_rpos m)"

definition get_remaining_space :: "message_buffer \<Rightarrow> nat" where
  "get_remaining_space m = size_t_sub (length (mb_storage m)) (mb_wpos m)"

definition write_completed :: "nat \<Rightarrow> message_buffer \<Rightarrow> message_buffer result" where
  "write_completed n m =
     (if n > get_remaining_space m
      then Inl (Thrown (runtime_error ''MessageBuffer: write overflow''))
      else Inr (m\<lparr>mb_wpos := mb_wpos m + n\<rparr>))"

definition read_completed :: "nat \<Rightarrow> message_buffer \<Rightarrow> message_buffer result" where
  "read_completed n m =
     (if n > get_active_size m
      then Inl (Thrown (runtime_error ''MessageBuffer: read overflow''))
      else Inr (m\<lparr>mb_rpos := mb_rpos m + n\<rparr>))"

text \<open>\<open>memmove(base(), read_ptr(), get_active_size())\<close>.\<close>

definition move_to_front :: "message_buffer \<Rightarrow> bytes" where
  "move_to_front m =
     take (get_active_size m) (read_ptr m) @ drop (get_active_size m) (mb_storage m)"

definition normalize :: "message_buffer \<Rightarrow> message_buffer" where
  "normalize m =
     (if mb_rpos m \<noteq> 0
      then let m1 = (if mb_rpos m \<noteq> mb_wpos m then m\<lparr>mb_storage := move_to_front m\<rparr> else m)
           in m1\<lparr>mb_wpos := size_t_sub (mb_wpos m) (mb_rpos m), mb_rpos := 0\<rparr>
      else m)"

definition ensure_free_space :: "nat \<Rightarrow> message_buffer \<Rightarrow> message_buffer" where
  "ensure_free_space min_free m =
     (if get_remaining_space m < min_free
      then let m1 = normalize m
           in if get_remaining_space m1 < min_free
              then m1\<lparr>mb_storage := mb_storage m1 @ replicate min_free 0\<rparr>
              else m1
      else m)"

text \<open>
  \<open>async_read_some(buffer(write_ptr(), get_remaining_space()))\<close> stores the received bytes at the
  write position, never more than there is room for; its completion handler then calls
  \<open>write_completed\<close> with their number.
\<close>

definition store_received :: "bytes \<Rightarrow> message_buffer \<Rightarrow> message_buffer" where
  "store_received bs m =
     m\<lparr>mb_storage := take (mb_wpos m) (mb_storage m)
        @ take (length (write_ptr m)) bs @ drop (length bs) (write_ptr m)\<rparr>"

definition receive :: "bytes \<Rightarrow> message_buffer \<Rightarrow> message_buffer result" where
  "receive bs m = write_completed (length bs) (store_received bs m)"

subsection \<open>Invariant and view\<close>

definition mb_wf :: "message_buffer \<Rightarrow> bool" where
  "mb_wf m \<longleftrightarrow> mb_rpos m \<le> mb_wpos m \<and> mb_wpos m \<le> length (mb_storage m)
     \<and> length (mb_storage m) < size_t_range"

definition pending :: "message_buffer \<Rightarrow> bytes" where
  "pending m = take (mb_wpos m - mb_rpos m) (drop (mb_rpos m) (mb_storage m))"

text \<open>Runs of buffer operations, with the bytes handed out by the consumer.\<close>

datatype mb_op = Ensure nat | Receive bytes | Consume nat | Normalize

fun mb_step :: "mb_op \<Rightarrow> message_buffer \<Rightarrow> (bytes \<times> message_buffer) result" where
  "mb_step (Ensure n) m = Inr ([], ensure_free_space n m)"
| "mb_step (Receive bs) m = rbind (receive bs m) (\<lambda>m'. Inr ([], m'))"
| "mb_step (Consume n) m = rbind (read_completed n m) (\<lambda>m'. Inr (take n (read_ptr m), m'))"
| "mb_step Normalize m = Inr ([], normalize m)"

fun mb_run :: "mb_op list \<Rightarrow> message_buffer \<Rightarrow> (bytes \<times> message_buffer) result" where
  "mb_run [] m = Inr ([], m)"
| "mb_run (a # as) m =
     rbind (mb_step a m) (\<lambda>(out, m1).
     rbind (mb_run as m1) (\<lambda>(outs, m2). Inr (out @ outs, m2)))"

fun received :: "mb_op list \<Rightarrow> bytes" where
  "received [] = []"
| "received (Receive bs # as) = bs @ received as"
| "received (_ # as) = received as"

fun requested :: "mb_op list \<Rightarrow> nat" where
  "requested [] = 0"
| "requested (Ensure n # as) = n + requested as"
| "requested (_ # as) = requested as"

subsection \<open>Lemmas\<close>

lemma mb_wf_MessageBuffer [simp]: "n < size_t_range \<Longrightarrow> mb_wf (MessageBuffer n)"
  by (simp add: mb_wf_def MessageBuffer_def)

lemma active_size [simp]: "mb_wf m \<Longrightarrow> get_active_size m = mb_wpos m - mb_rpos m"
  by (simp add: get_active_size_def mb_wf_def)

lemma remaining_space [simp]:
  "mb_wf m \<Longrightarrow> get_remaining_space m = length (mb_storage m) - mb_wpos m"
  by (simp add: get_remaining_space_def mb_wf_def)

lemma active_in_storage:
  "mb_wf m \<Longrightarrow> mb_wpos m - mb_rpos m \<le> length (mb_storage m) - mb_rpos m"
  by (auto simp: mb_wf_def)

lemma length_pending [simp]: "mb_wf m \<Longrightarrow> length (pending m) = get_active_size m"
  by (simp add: pending_def active_in_storage min_absorb2)

lemma mb_wf_clear [simp]: "mb_wf (mb_clear m)"
  by (simp add: mb_wf_def mb_clear_def mb_reset_def size_t_range_def)

lemma pending_clear [simp]: "pending (mb_clear m) = []"
  by (simp add: pending_def mb_clear_def mb_reset_def)

lemma pending_reset [simp]: "pending (mb_reset m) = []"
  by (simp add: pending_def mb_reset_def)

lemma normalize_simp:
  assumes "mb_wf m"
  shows "normalize m =
     \<lparr>mb_wpos = mb_wpos m - mb_rpos m, mb_rpos = 0,
      mb_storage = (if mb_rpos m \<noteq> 0 \<and> mb_rpos m \<noteq> mb_wpos m then move_to_front m
                    else mb_storage m)\<rparr>"
  using assms by (cases m) (auto simp: normalize_def Let_def mb_wf_def)

lemma length_move_to_front: "mb_wf m \<Longrightarrow> length (move_to_front m) = length (mb_storage m)"
  by (auto simp: move_to_front_def read_ptr_def mb_wf_def get_active_size_def)

lemma mb_wf_normalize [simp]: "mb_wf m \<Longrightarrow> mb_wf (normalize m)"
  by (auto simp: normalize_simp mb_wf_def length_move_to_front[unfolded mb_wf_def])

lemma pending_normalize [simp]: "mb_wf m \<Longrightarrow> pending (normalize m) = pending m"
proof -
  assume wf: "mb_wf m"
  show ?thesis
  proof (cases "mb_rpos m \<noteq> 0 \<and> mb_rpos m \<noteq> mb_wpos m")
    case True
    with wf active_in_storage[OF wf] show ?thesis
      by (simp add: normalize_simp pending_def move_to_front_def read_ptr_def min_absorb1)
  next
    case False
    with wf show ?thesis
      by (auto simp: normalize_simp pending_def)
  qed
qed

lemma length_storage_normalize [simp]:
  "mb_wf m \<Longrightarrow> length (mb_storage (normalize m)) = length (mb_storage m)"
  by (simp add: normalize_simp length_move_to_front)

lemma pending_extend:
  "mb_wpos m \<le> length (mb_storage m) \<Longrightarrow>
     pending (m\<lparr>mb_storage := mb_storage m @ xs\<rparr>) = pending m"
  by (simp add: pending_def)

lemma ensure_free_space_cases:
  assumes "mb_wf m" and "length (mb_storage m) + n < size_t_range"
  obtains "ensure_free_space n m = m" "n \<le> get_remaining_space m"
  | "ensure_free_space n m = normalize m" "n \<le> get_remaining_space (normalize m)"
  | "ensure_free_space n m = (normalize m)\<lparr>mb_storage := mb_storage (normalize m) @ replicate n 0\<rparr>"
  by (cases "get_remaining_space m < n"; cases "get_remaining_space (normalize m) < n")
     (simp_all add: ensure_free_space_def Let_def not_less)

lemma mb_wf_ensure [simp]:
  assumes "mb_wf m" and "length (mb_storage m) + n < size_t_range"
  shows "mb_wf (ensure_free_space n m)"
  using assms(1) mb_wf_normalize[OF assms(1)] assms(2)
  by (cases rule: ensure_free_space_cases[OF assms])
     (simp_all add: mb_wf_def[of "normalize m\<lparr>mb_storage := _\<rparr>"] mb_wf_def[of "normalize m"])

lemma pending_ensure [simp]:
  assumes "mb_wf m" and "length (mb_storage m) + n < size_t_range"
  shows "pending (ensure_free_space n m) = pending m"
  using mb_wf_normalize[OF assms(1)]
  by (cases rule: ensure_free_space_cases[OF assms])
     (simp_all add: pending_extend assms(1) mb_wf_def[of "normalize m"])

lemma ensure_room:
  assumes "mb_wf m" and "length (mb_storage m) + n < size_t_range"
  shows "n \<le> get_remaining_space (ensure_free_space n m)"
proof (cases rule: ensure_free_space_cases[OF assms])
  case 3
  have "mb_wf (ensure_free_space n m)" by (rule mb_wf_ensure[OF assms])
  with 3 show ?thesis
    using mb_wf_normalize[OF assms(1)] by (simp add: mb_wf_def)
qed simp_all

lemma length_storage_ensure:
  assumes "mb_wf m" and "length (mb_storage m) + n < size_t_range"
  shows "length (mb_storage (ensure_free_space n m)) \<le> length (mb_storage m) + n"
  by (cases rule: ensure_free_space_cases[OF assms]) (simp_all add: assms(1))

lemma store_received_simps:
  assumes "mb_wf m"
  shows "mb_wf (store_received bs m)"
    and "get_remaining_space (store_received bs m) = get_remaining_space m"
    and "length (mb_storage (store_received bs m)) = length (mb_storage m)"
proof -
  have "mb_wpos m \<le> length (mb_storage m)"
    using assms by (simp add: mb_wf_def)
  then show l: "length (mb_storage (store_received bs m)) = length (mb_storage m)"
    by (auto simp: store_received_def write_ptr_def)
  have p: "mb_wpos (store_received bs m) = mb_wpos m" "mb_rpos (store_received bs m) = mb_rpos m"
    by (simp_all add: store_received_def)
  show "mb_wf (store_received bs m)"
    using assms by (simp add: mb_wf_def l p)
  show "get_remaining_space (store_received bs m) = get_remaining_space m"
    by (simp add: get_remaining_space_def l p)
qed

lemma receive_simp:
  assumes "mb_wf m"
  shows "receive bs m =
     (if length bs \<le> get_remaining_space m
      then Inr (m\<lparr>mb_storage := take (mb_wpos m) (mb_storage m) @ bs
                    @ drop (mb_wpos m + length bs) (mb_storage m),
                  mb_wpos := mb_wpos m + length bs\<rparr>)
      else Inl (Thrown (runtime_error ''MessageBuffer: write overflow'')))"
  using assms store_received_simps(2)[OF assms, of bs]
  by (auto simp: receive_def write_completed_def store_received_def write_ptr_def ac_simps)

lemma pending_receive:
  assumes "mb_wf m" and "receive bs m = Inr m'"
  shows "pending m' = pending m @ bs" and "mb_wf m'"
    and "length (mb_storage m') = length (mb_storage m)"
proof -
  from assms have m': "m' = m\<lparr>mb_storage := take (mb_wpos m) (mb_storage m) @ bs
        @ drop (mb_wpos m + length bs) (mb_storage m), mb_wpos := mb_wpos m + length bs\<rparr>"
    and fits: "length bs \<le> length (mb_storage m) - mb_wpos m"
    by (auto simp: receive_simp split: if_splits)
  from assms(1) have w: "mb_wpos m \<le> length (mb_storage m)" "mb_rpos m \<le> mb_wpos m"
    by (simp_all add: mb_wf_def)
  have "pending m' = take (mb_wpos m - mb_rpos m + length bs)
      (drop (mb_rpos m) (take (mb_wpos m) (mb_storage m)) @ bs
        @ drop (mb_wpos m + length bs) (mb_storage m))"
    using w by (simp add: m' pending_def)
  also have "\<dots> = drop (mb_rpos m) (take (mb_wpos m) (mb_storage m)) @ bs"
    using w by simp
  finally show "pending m' = pending m @ bs"
    by (simp add: pending_def drop_take)
  show l: "length (mb_storage m') = length (mb_storage m)"
    using w fits by (simp add: m')
  show "mb_wf m'"
    using assms(1) w fits unfolding mb_wf_def l by (simp add: m')
qed

lemma read_completed_ok:
  assumes "mb_wf m" and "n \<le> get_active_size m"
  shows "\<exists>m'. read_completed n m = Inr m' \<and> pending m' = drop n (pending m) \<and> mb_wf m'
     \<and> length (mb_storage m') = length (mb_storage m)"
proof -
  let ?m = "m\<lparr>mb_rpos := mb_rpos m + n\<rparr>"
  have "read_completed n m = Inr ?m"
    using assms(2) by (simp add: read_completed_def)
  moreover have "pending ?m = drop n (pending m)"
    by (simp add: pending_def drop_take ac_simps)
  moreover have "mb_wf ?m"
    using assms unfolding active_size[OF assms(1)] mb_wf_def by auto
  ultimately show ?thesis by simp
qed

lemma take_read_ptr:
  "mb_wf m \<Longrightarrow> n \<le> length (pending m) \<Longrightarrow> take n (read_ptr m) = take n (pending m)"
  by (simp add: read_ptr_def pending_def active_in_storage min_absorb1 min_absorb2)

subsection \<open>The byte stream interface\<close>

text \<open>
  What the packet readers rely on: a first-in first-out stream of bytes with room for more.
\<close>

locale byte_stream =
  fixes view :: "'b \<Rightarrow> bytes"
    and room :: "'b \<Rightarrow> nat"
    and cap :: "'b \<Rightarrow> nat"
    and feed :: "bytes \<Rightarrow> 'b \<Rightarrow> 'b result"
    and consume :: "nat \<Rightarrow> 'b \<Rightarrow> 'b result"
    and reserve :: "nat \<Rightarrow> 'b \<Rightarrow> 'b"
    and invar :: "'b \<Rightarrow> bool"
  assumes feed_law: "invar b \<Longrightarrow> length bs \<le> room b \<Longrightarrow>
      \<exists>b'. feed bs b = Inr b' \<and> view b' = view b @ bs \<and> invar b' \<and> cap b' = cap b"
    and feed_refuses: "invar b \<Longrightarrow> room b < length bs \<Longrightarrow> \<exists>e. feed bs b = Inl (Thrown e)"
    and consume_law: "invar b \<Longrightarrow> n \<le> length (view b) \<Longrightarrow>
      \<exists>b'. consume n b = Inr b' \<and> view b' = drop n (view b) \<and> invar b' \<and> cap b' = cap b"
    and consume_refuses: "invar b \<Longrightarrow> length (view b) < n \<Longrightarrow> \<exists>e. consume n b = Inl (Thrown e)"
    and reserve_law: "invar b \<Longrightarrow> cap b + n < size_t_range \<Longrightarrow>
      view (reserve n b) = view b \<and> n \<le> room (reserve n b) \<and> invar (reserve n b)
        \<and> cap (reserve n b) \<le> cap b + n"
begin

lemma feedD:
  assumes "invar b" and "feed bs b = Inr b'"
  shows "view b' = view b @ bs \<and> invar b' \<and> cap b' = cap b"
  using assms feed_law[of b bs] feed_refuses[of b bs] by (cases "length bs \<le> room b") auto

lemma consumeD:
  assumes "invar b" and "consume n b = Inr b'"
  shows "n \<le> length (view b) \<and> view b' = drop n (view b) \<and> invar b' \<and> cap b' = cap b"
  using assms consume_law[of b n] consume_refuses[of b n] by (cases "n \<le> length (view b)") auto

text \<open>A reservation makes the next reception of that size succeed, and it arrives last.\<close>

lemma reserve_feed:
  assumes "invar b" and "cap b + n < size_t_range" and "length bs \<le> n"
  shows "\<exists>b'. feed bs (reserve n b) = Inr b' \<and> view b' = view b @ bs \<and> invar b'"
  using reserve_law[OF assms(1,2)] feed_law[of "reserve n b" bs] assms(3) by fastforce

lemma not_undefined:
  "invar b \<Longrightarrow> feed bs b \<noteq> Inl Undefined \<and> consume n b \<noteq> Inl Undefined"
  using feed_law[of b bs] feed_refuses[of b bs] consume_law[of b n] consume_refuses[of b n]
  by (cases "length bs \<le> room b"; cases "n \<le> length (view b)") auto

end

interpretation mbs: byte_stream pending get_remaining_space "\<lambda>m. length (mb_storage m)"
    receive read_completed ensure_free_space mb_wf
proof
  fix m and bs :: bytes assume wf: "mb_wf m"
  { assume "length bs \<le> get_remaining_space m"
    then obtain m' where "receive bs m = Inr m'" by (simp add: receive_simp wf)
    then show "\<exists>b'. receive bs m = Inr b' \<and> pending b' = pending m @ bs \<and> mb_wf b'
        \<and> length (mb_storage b') = length (mb_storage m)"
      using pending_receive[OF wf] by blast }
  { assume "get_remaining_space m < length bs"
    then show "\<exists>e. receive bs m = Inl (Thrown e)" by (simp add: receive_simp wf) }
next
  fix m n assume wf: "mb_wf m"
  { assume "n \<le> length (pending m)"
    then show "\<exists>b'. read_completed n m = Inr b' \<and> pending b' = drop n (pending m) \<and> mb_wf b'
        \<and> length (mb_storage b') = length (mb_storage m)"
      using read_completed_ok[OF wf] wf by simp }
  { assume "length (pending m) < n"
    then show "\<exists>e. read_completed n m = Inl (Thrown e)" using wf by (simp add: read_completed_def) }
  { assume "length (mb_storage m) + n < size_t_range"
    then show "pending (ensure_free_space n m) = pending m
        \<and> n \<le> get_remaining_space (ensure_free_space n m)
        \<and> mb_wf (ensure_free_space n m)
        \<and> length (mb_storage (ensure_free_space n m)) \<le> length (mb_storage m) + n"
      using wf by (simp add: ensure_room length_storage_ensure del: remaining_space) }
qed

subsection \<open>Properties\<close>

lemma mb_step_stream:
  assumes "mb_wf m" and "length (mb_storage m) + requested [a] < size_t_range"
    and "mb_step a m = Inr (out, m')"
  shows "pending m @ received [a] = out @ pending m' \<and> mb_wf m'
     \<and> length (mb_storage m') \<le> length (mb_storage m) + requested [a]"
proof (cases a)
  case (Ensure n)
  with assms mbs.reserve_law[of m n] show ?thesis by auto
next
  case (Receive bs)
  with assms mbs.feedD[of m bs] show ?thesis by (auto simp: outcome_simps)
next
  case (Consume n)
  with assms mbs.consumeD[of m n] show ?thesis
    by (auto simp: outcome_simps take_read_ptr simp del: length_pending)
next
  case Normalize
  with assms show ?thesis by auto
qed

lemma received_Cons: "received (a # as) = received [a] @ received as"
  by (cases a) simp_all

lemma requested_Cons: "requested (a # as) = requested [a] + requested as"
  by (cases a) simp_all

lemma mb_run_step:
  "mb_step a m = Inl f \<Longrightarrow> mb_run (a # as) m = Inl f"
  "mb_step a m = Inr (o1, m1) \<Longrightarrow> mb_run as m1 = Inl f \<Longrightarrow> mb_run (a # as) m = Inl f"
  "mb_step a m = Inr (o1, m1) \<Longrightarrow> mb_run as m1 = Inr (o2, m2) \<Longrightarrow> mb_run (a # as) m = Inr (o1 @ o2, m2)"
  by simp_all

text \<open>An operation that asks for more than the buffer holds: more room, or more bytes.\<close>

definition exceeds :: "mb_op \<Rightarrow> message_buffer \<Rightarrow> bool" where
  "exceeds a m =
     (case a of
        Receive bs \<Rightarrow> get_remaining_space m < length bs
      | Consume n \<Rightarrow> length (pending m) < n
      | _ \<Rightarrow> False)"

lemma mb_step_fails:
  assumes "mb_wf m" "mb_step a m = Inl f"
  shows "exceeds a m \<and> (\<exists>x. f = Thrown x)"
proof (cases a)
  case (Receive bs)
  then show ?thesis using assms by (auto simp: receive_simp exceeds_def outcome_simps split: if_splits)
next
  case (Consume n)
  then show ?thesis
    using assms mbs.consume_law[of m n] mbs.consume_refuses[of m n]
    by (cases "n \<le> length (pending m)") (auto simp: exceeds_def outcome_simps not_le)
qed (use assms in auto)

text \<open>
  C4. The receive buffer is a faithful first-in first-out stream: whatever sequence of receptions,
  reservations, compactions and consumptions runs on it, the bytes it held and the bytes received
  are exactly, in order, the bytes handed to the consumer followed by the bytes still pending.
  Nothing is lost, duplicated, reordered or overwritten, and the positions stay in order. A run
  that does not come to its end was stopped by an exception, at a reception of more bytes than there
  is room for or a consumption of more bytes than are pending; nothing undefined happens.
\<close>

theorem message_buffer_stream:
  assumes "mb_wf m" and "length (mb_storage m) + requested as < size_t_range"
  shows "case mb_run as m of
      Inr (out, m') \<Rightarrow> pending m @ received as = out @ pending m' \<and> mb_wf m'
    | Inl f \<Rightarrow> (\<exists>x. f = Thrown x) \<and>
        (\<exists>before a after out m1. as = before @ a # after \<and> mb_run before m = Inr (out, m1) \<and> exceeds a m1)"
  using assms
proof (induction as arbitrary: m)
  case Nil
  then show ?case by simp
next
  case (Cons a as)
  show ?case
  proof (cases "mb_step a m")
    case (Inl f)
    have "exceeds a m \<and> (\<exists>x. f = Thrown x)" by (rule mb_step_fails[OF Cons.prems(1) Inl])
    moreover have "a # as = [] @ a # as" "mb_run [] m = Inr ([], m)" by simp_all
    ultimately show ?thesis unfolding mb_run_step(1)[OF Inl] sum.case by blast
  next
    case (Inr p)
    then obtain o1 m1 where s: "mb_step a m = Inr (o1, m1)" by (cases p) simp
    have k: "pending m @ received [a] = o1 @ pending m1" "mb_wf m1"
        "length (mb_storage m1) \<le> length (mb_storage m) + requested [a]"
      using mb_step_stream[OF Cons.prems(1) _ s] Cons.prems(2) by (simp_all add: requested_Cons[of a as])
    have "length (mb_storage m1) + requested as < size_t_range"
      using k(3) Cons.prems(2) by (simp add: requested_Cons[of a as])
    note ih = Cons.IH[OF k(2) this]
    show ?thesis
    proof (cases "mb_run as m1")
      case (Inr q)
      then obtain o2 m' where r: "mb_run as m1 = Inr (o2, m')" by (cases q) simp
      have o: "pending m1 @ received as = o2 @ pending m'" "mb_wf m'" using ih unfolding r by simp_all
      have "pending m @ received (a # as) = (pending m @ received [a]) @ received as"
        unfolding received_Cons[of a as] by simp
      also have "\<dots> = (o1 @ o2) @ pending m'" unfolding k(1) using o(1) by simp
      finally show ?thesis unfolding mb_run_step(3)[OF s r] using o(2) by simp
    next
      case (Inl f)
      have x: "\<exists>x. f = Thrown x" using ih unfolding Inl by simp
      obtain before b after out m2 where "as = before @ b # after" "mb_run before m1 = Inr (out, m2)" "exceeds b m2"
        using ih unfolding Inl sum.case by blast
      then have "a # as = (a # before) @ b # after" "mb_run (a # before) m = Inr (o1 @ out, m2)" "exceeds b m2"
        using mb_run_step(3)[OF s] by simp_all
      then show ?thesis using x unfolding mb_run_step(2)[OF s Inl] sum.case by blast
    qed
  qed
qed

lemmas mb_eval =
  receive_def store_received_def write_completed_def read_completed_def normalize_def
  move_to_front_def Let_def get_active_size_def get_remaining_space_def read_ptr_def write_ptr_def

theorem message_buffer_stream_witness:
  "\<exists>m'. mb_run [Receive [1, 2, 3], Consume 2, Normalize, Receive [4, 5], Consume 2] (MessageBuffer 4)
      = Inr ([1, 2, 3, 4], m') \<and> pending m' = [5]"
proof -
  let ?as = "[Receive [1, 2, 3], Consume 2, Normalize, Receive [4, 5], Consume 2]"
  let ?m = "\<lparr>mb_wpos = 3, mb_rpos = 2, mb_storage = [3, 4, 5, 0]\<rparr>"
  have small: "n < 1000 \<Longrightarrow> n < size_t_range" for n
    by (simp add: size_t_range_def)
  have "MessageBuffer 4 = \<lparr>mb_wpos = 0, mb_rpos = 0, mb_storage = [0, 0, 0, 0]\<rparr>"
    by (simp add: MessageBuffer_def numeral_eq_Suc)
  then have r: "mb_run ?as (MessageBuffer 4) = Inr ([1, 2, 3, 4], ?m)"
    by (simp add: mb_eval small)
  have "length (mb_storage (MessageBuffer 4)) + requested ?as < size_t_range"
    by (simp add: small MessageBuffer_def)
  from message_buffer_stream[OF mb_wf_MessageBuffer this] r show ?thesis
    by (simp add: small MessageBuffer_def pending_def del: mb_run.simps)
qed

end
