(* ===== verification/Text_Utils.thy ===== *)
theory Text_Utils
  imports Purity_Prelude
begin

text \<open>
  \<open>src/common/utils/HexUtils.hpp\<close> and \<open>NetUtils.hpp\<close>: hex text, left padding and dotted IP
  addresses.
\<close>

subsection \<open>Hex\<close>

definition hex_char_to_int :: "byte \<Rightarrow> byte result" where
  "hex_char_to_int c =
     (if 48 \<le> c \<and> c \<le> 57 then Inr (c - 48)
      else if 97 \<le> c \<and> c \<le> 102 then Inr (c - 97 + 10)
      else if 65 \<le> c \<and> c \<le> 70 then Inr (c - 65 + 10)
      else Inl (Thrown (invalid_argument ''Invalid hex character'')))"

text \<open>The loop of \<open>hex_to_bytes\<close>; \<open>hex[hex.size()]\<close> is the NUL after the string.\<close>

fun hex_pairs :: "bytes \<Rightarrow> bytes result" where
  "hex_pairs [] = Inr []"
| "hex_pairs [c] = rbind (hex_char_to_int c) (\<lambda>_. rbind (hex_char_to_int 0) (\<lambda>_. Inr []))"
| "hex_pairs (c # d # cs) =
     rbind (hex_char_to_int c) (\<lambda>hi.
     rbind (hex_char_to_int d) (\<lambda>lo.
     rbind (hex_pairs cs) (\<lambda>bs. Inr ((push_bit 4 hi OR lo) # bs))))"

definition hex_to_bytes :: "bytes \<Rightarrow> bytes result" where
  "hex_to_bytes hex =
     (if length hex mod 2 \<noteq> 0
      then Inl (Thrown (invalid_argument ''Hex string must have even length''))
      else hex_pairs hex)"

text \<open>\<open>oss << std::hex << std::setfill('0') << std::setw(2) << value\<close>\<close>

definition hex_digit :: "nat \<Rightarrow> byte" where
  "hex_digit n = (if n < 10 then of_nat (48 + n) else of_nat (87 + n))"

fun hex_digits :: "nat \<Rightarrow> bytes" where
  "hex_digits n = (if n < 16 then [hex_digit n] else hex_digits (n div 16) @ [hex_digit (n mod 16)])"

declare hex_digits.simps [simp del]

definition setw_fill :: "nat \<Rightarrow> byte \<Rightarrow> bytes \<Rightarrow> bytes" where
  "setw_fill w c s = replicate (w - length s) c @ s"

definition bytes_to_hex :: "bytes \<Rightarrow> bytes" where
  "bytes_to_hex bs = concat (map (\<lambda>b. setw_fill 2 48 (hex_digits (unat b))) bs)"

definition pad_bytes_left :: "bytes \<Rightarrow> nat \<Rightarrow> bytes result" where
  "pad_bytes_left src tgt =
     (if length src > tgt
      then Inl (Thrown (invalid_argument ''[HexUtils] Source bytes longer than target size''))
      else if length src = tgt then Inr src
      else Inr (take (tgt - length src) (replicate tgt 0) @ src))"

subsection \<open>IP addresses\<close>

definition dotted :: "byte \<Rightarrow> byte \<Rightarrow> byte \<Rightarrow> byte \<Rightarrow> bytes" where
  "dotted a b c d =
     dec_digits (unat a) @ str ''.'' @ dec_digits (unat b) @ str ''.''
       @ dec_digits (unat c) @ str ''.'' @ dec_digits (unat d)"

definition uint32_to_ip_be :: "u32 \<Rightarrow> bytes" where
  "uint32_to_ip_be ip =
     dotted (ucast (drop_bit 24 ip AND 0xFF)) (ucast (drop_bit 16 ip AND 0xFF))
            (ucast (drop_bit 8 ip AND 0xFF)) (ucast (ip AND 0xFF))"

definition uint32_to_ip_le :: "u32 \<Rightarrow> bytes" where
  "uint32_to_ip_le ip =
     dotted (ucast (ip AND 0xFF)) (ucast (drop_bit 8 ip AND 0xFF))
            (ucast (drop_bit 16 ip AND 0xFF)) (ucast (drop_bit 24 ip AND 0xFF))"

subsection \<open>Lemmas\<close>

lemma byte_cases: "(\<And>n. n < 256 \<Longrightarrow> P (of_nat n)) \<Longrightarrow> P (b :: byte)"
proof -
  assume "\<And>n. n < 256 \<Longrightarrow> P (of_nat n)"
  moreover have "unat b < 256" by simp
  ultimately have "P (of_nat (unat b))" by blast
  then show ?thesis by simp
qed

lemma hex_char_of_digit:
  assumes "n < 16"
  shows "hex_char_to_int (hex_digit n) = Inr (of_nat n)"
proof -
  have "list_all (\<lambda>n. hex_char_to_int (hex_digit n) = Inr (of_nat n)) [0..<16]"
    by code_simp
  with assms show ?thesis by (simp add: list_all_iff)
qed

lemma hex_two_digits:
  assumes "n < 256"
  shows "setw_fill 2 48 (hex_digits n) = [hex_digit (n div 16), hex_digit (n mod 16)]"
proof (cases "n < 16")
  case True
  then show ?thesis by (simp add: setw_fill_def hex_digits.simps[of n] hex_digit_def numeral_2_eq_2)
next
  case False
  from assms have "n div 16 < 16" by arith
  with False show ?thesis
    by (simp add: setw_fill_def hex_digits.simps[of n] hex_digits.simps[of "n div 16"])
qed

lemma nibbles:
  assumes "n < 256"
  shows "push_bit 4 (of_nat (n div 16)) OR of_nat (n mod 16) = (of_nat n :: byte)"
proof -
  have "list_all (\<lambda>n. push_bit 4 (of_nat (n div 16)) OR of_nat (n mod 16) = (of_nat n :: byte))
      [0..<256]"
    by code_simp
  with assms show ?thesis by (simp add: list_all_iff)
qed

lemma hex_pairs_append_two:
  "n < 256 \<Longrightarrow> hex_pairs ([hex_digit (n div 16), hex_digit (n mod 16)] @ cs) =
     rbind (hex_pairs cs) (\<lambda>bs. Inr (of_nat n # bs))"
proof -
  assume n: "n < 256"
  then have "n div 16 < 16" and "n mod 16 < 16" by arith+
  with n show ?thesis by (simp add: hex_char_of_digit nibbles)
qed

lemma dec_digits_inj: "dec_digits m = dec_digits n \<Longrightarrow> m = n"
  by (metis dec_value_digits)

lemma dot_not_digit: "46 \<notin> set (dec_digits n)"
  using dec_digits_range[of n] by auto

lemma split_at_dot:
  assumes "xs @ 46 # ys = xs' @ 46 # ys'" and "46 \<notin> set xs" and "46 \<notin> set xs'"
  shows "xs = xs' \<and> ys = ys'"
  using assms by (auto simp: append_eq_append_conv2 append_eq_Cons_conv Cons_eq_append_conv)

lemma dotted_inj:
  assumes "dotted a b c d = dotted a' b' c' d'"
  shows "a = a' \<and> b = b' \<and> c = c' \<and> d = d'"
proof -
  have s: "str ''.'' = [46]" by (simp add: str_def)
  from assms have "dec_digits (unat a) = dec_digits (unat a')"
    and "dec_digits (unat b) = dec_digits (unat b')"
    and "dec_digits (unat c) = dec_digits (unat c')"
    and "dec_digits (unat d) = dec_digits (unat d')"
    by (auto simp: dotted_def s dest!: split_at_dot[OF _ dot_not_digit dot_not_digit])
  then show ?thesis by (auto dest!: dec_digits_inj simp: word_unat_eq_iff)
qed

lemma octet: "(ucast (drop_bit k ip AND 0xFF) :: byte) = ucast (drop_bit k (ip :: u32))"
proof -
  have m: "(0xFF :: u32) = mask 8" by (simp add: mask_eq_exp_minus_1)
  show ?thesis
    unfolding m by (auto intro!: bit_word_eqI simp: bit_unsigned_iff bit_and_iff bit_mask_iff)
qed

lemma octets: "le_bytes (ip :: u32) =
    [ucast (ip AND 0xFF), ucast (drop_bit 8 ip AND 0xFF),
     ucast (drop_bit 16 ip AND 0xFF), ucast (drop_bit 24 ip AND 0xFF)]"
  using octet[of 0 ip] octet[of 8 ip] octet[of 16 ip] octet[of 24 ip]
  by (simp add: le_bytes_def upt_conv_Cons)

lemma ip_be_bytes: "uint32_to_ip_be ip = (case rev (le_bytes ip) of [a, b, c, d] \<Rightarrow> dotted a b c d)"
  by (simp add: octets uint32_to_ip_be_def)

lemma ip_le_bytes: "uint32_to_ip_le ip = (case le_bytes ip of [a, b, c, d] \<Rightarrow> dotted a b c d)"
  by (simp add: octets uint32_to_ip_le_def)

lemma le_bytes_inj: "8 dvd LENGTH('a::len) \<Longrightarrow> le_bytes (x :: 'a word) = le_bytes y \<Longrightarrow> x = y"
  by (metis of_le_bytes_le_bytes)

subsection \<open>Properties\<close>

text \<open>
  Hex text round trip: \<open>bytes_to_hex\<close> writes two digits per byte, zero-filled, and
  \<open>hex_to_bytes\<close> reads exactly the original bytes back, for every byte string.
\<close>

theorem hex_roundtrip:
  "hex_to_bytes (bytes_to_hex bs) = Inr bs \<and> length (bytes_to_hex bs) = 2 * length bs"
proof -
  have two: "setw_fill 2 48 (hex_digits (unat b)) =
      [hex_digit (unat b div 16), hex_digit (unat b mod 16)]" for b :: byte
    by (rule hex_two_digits) simp
  have len: "length (bytes_to_hex bs) = 2 * length bs" for bs
    by (induction bs) (simp_all add: bytes_to_hex_def two)
  have "hex_pairs (bytes_to_hex bs) = Inr bs"
  proof (induction bs)
    case (Cons b bs)
    then show ?case
      using hex_pairs_append_two[of "unat b" "bytes_to_hex bs"]
      by (simp add: bytes_to_hex_def two)
  qed (simp add: bytes_to_hex_def)
  then show ?thesis by (simp add: hex_to_bytes_def len)
qed

text \<open>
  Left padding keeps the big-endian value and gives exactly the target length; it throws
  exactly when the source is longer than the target.
\<close>

theorem pad_bytes_left_spec:
  "(case pad_bytes_left src n of
      Inr out \<Rightarrow> length src \<le> n \<and> length out = n \<and> be_nat out = be_nat src
    | Inl e \<Rightarrow> n < length src
        \<and> e = Thrown (invalid_argument ''[HexUtils] Source bytes longer than target size''))"
  by (simp add: pad_bytes_left_def take_replicate)

text \<open>
  Dotted IP text is unambiguous: two addresses print alike only if they are equal, and the
  little-endian printer prints what the big-endian one prints for the byte-swapped address.
\<close>

theorem ip_text_unambiguous:
  "(uint32_to_ip_be x = uint32_to_ip_be y \<longleftrightarrow> x = y)
     \<and> uint32_to_ip_le x = uint32_to_ip_be (bswap x)"
proof -
  obtain a b c d where x: "le_bytes x = [a, b, c, d]" by (simp add: octets)
  obtain a' b' c' d' where y: "le_bytes y = [a', b', c', d']" by (simp add: octets)
  have "x = y" if "uint32_to_ip_be x = uint32_to_ip_be y"
  proof -
    from that have "le_bytes x = le_bytes y"
      by (auto simp: ip_be_bytes x y dest: dotted_inj)
    then show ?thesis by (rule le_bytes_inj[rotated]) simp
  qed
  moreover have "le_bytes (bswap x) = rev (le_bytes x)"
    unfolding bswap_def by (rule le_bytes_of_le_bytes) simp_all
  then have "uint32_to_ip_le x = uint32_to_ip_be (bswap x)"
    by (simp add: ip_be_bytes ip_le_bytes x)
  ultimately show ?thesis by blast
qed

end
