(* ===== verification/Utf8_Utils.thy ===== *)
theory Utf8_Utils
  imports Purity_Prelude
begin

text \<open>
  \<open>src/common/utils/utf8utils/UTF8Utils.cpp\<close>: the UTF-8 check of user names and the ASCII case
  mappings, as the index loops of the source. \<open>std::tolower\<close> and \<open>std::toupper\<close> are those of the
  "C" locale, which is in force since the program never sets another.
\<close>

subsection \<open>The loops\<close>

function utf8_loop :: "bytes \<Rightarrow> nat \<Rightarrow> bool" where
  "utf8_loop bs i =
     (if i < length bs then
        (let c = bs ! i; len = length bs in
         if c \<le> 0x7F then utf8_loop bs (i + 1)
         else if c AND 0xE0 = 0xC0 then
           (if i + 1 \<ge> len then False
            else if bs ! (i + 1) AND 0xC0 \<noteq> 0x80 then False
            else if c < 0xC2 then False
            else utf8_loop bs (i + 2))
         else if c AND 0xF0 = 0xE0 then
           (if i + 2 \<ge> len then False
            else if bs ! (i + 1) AND 0xC0 \<noteq> 0x80 then False
            else if bs ! (i + 2) AND 0xC0 \<noteq> 0x80 then False
            else if c = 0xE0 \<and> bs ! (i + 1) < 0xA0 then False
            else if c = 0xED \<and> bs ! (i + 1) \<ge> 0xA0 then False
            else utf8_loop bs (i + 3))
         else if c AND 0xF8 = 0xF0 then
           (if i + 3 \<ge> len then False
            else if bs ! (i + 1) AND 0xC0 \<noteq> 0x80 then False
            else if bs ! (i + 2) AND 0xC0 \<noteq> 0x80 then False
            else if bs ! (i + 3) AND 0xC0 \<noteq> 0x80 then False
            else if c = 0xF0 \<and> bs ! (i + 1) < 0x90 then False
            else if c > 0xF4 then False
            else utf8_loop bs (i + 4))
         else False)
      else True)"
  by pat_completeness auto
termination
  by (relation "measure (\<lambda>(bs, i). length bs - i)") (auto simp: Let_def)

declare utf8_loop.simps [simp del]

definition is_valid_utf8 :: "bytes \<Rightarrow> bool" where
  "is_valid_utf8 bs = utf8_loop bs 0"

definition tolower :: "byte \<Rightarrow> byte" where
  "tolower c = (if 65 \<le> c \<and> c \<le> 90 then c + 32 else c)"

definition toupper :: "byte \<Rightarrow> byte" where
  "toupper c = (if 97 \<le> c \<and> c \<le> 122 then c - 32 else c)"

text \<open>The number of bytes the case mappings copy for a lead byte above \<open>0x7F\<close>.\<close>

definition lead_length :: "byte \<Rightarrow> nat" where
  "lead_length c =
     (if c AND 0xE0 = 0xC0 then 2
      else if c AND 0xF0 = 0xE0 then 3
      else if c AND 0xF8 = 0xF0 then 4
      else 1)"

function case_loop :: "(byte \<Rightarrow> byte) \<Rightarrow> bytes \<Rightarrow> nat \<Rightarrow> bytes \<Rightarrow> bytes" where
  "case_loop f s i result =
     (if i < length s then
        (let c = s ! i in
         if c \<le> 0x7F then case_loop f s (i + 1) (result @ [f c])
         else case_loop f s (i + lead_length c) (result @ take (lead_length c) (drop i s)))
      else result)"
  by pat_completeness auto
termination
  by (relation "measure (\<lambda>(f, s, i, result). length s - i)")
     (auto simp: Let_def lead_length_def)

declare case_loop.simps [simp del]

definition to_lowercase :: "bytes \<Rightarrow> bytes" where
  "to_lowercase s = case_loop tolower s 0 []"

definition to_uppercase :: "bytes \<Rightarrow> bytes" where
  "to_uppercase s = case_loop toupper s 0 []"

subsection \<open>Code points\<close>

text \<open>
  The encoding of a code point (RFC 3629 up to \<open>0x10FFFF\<close>, and its continuation to the largest
  value four bytes with a lead of at most \<open>0xF4\<close> can carry).
\<close>

definition utf8_encode :: "nat \<Rightarrow> bytes" where
  "utf8_encode c =
     (if c < 0x80 then [of_nat c]
      else if c < 0x800 then [of_nat (0xC0 + c div 64), of_nat (0x80 + c mod 64)]
      else if c < 0x10000 then
        [of_nat (0xE0 + c div 4096), of_nat (0x80 + c div 64 mod 64), of_nat (0x80 + c mod 64)]
      else
        [of_nat (0xF0 + c div 262144), of_nat (0x80 + c div 4096 mod 64),
         of_nat (0x80 + c div 64 mod 64), of_nat (0x80 + c mod 64)])"

definition surrogate :: "nat \<Rightarrow> bool" where
  "surrogate c \<longleftrightarrow> 0xD800 \<le> c \<and> c \<le> 0xDFFF"

text \<open>Unicode scalar values, and the code points the check accepts.\<close>

definition scalar_value :: "nat \<Rightarrow> bool" where
  "scalar_value c \<longleftrightarrow> c \<le> 0x10FFFF \<and> \<not> surrogate c"

definition accepted_code :: "nat \<Rightarrow> bool" where
  "accepted_code c \<longleftrightarrow> c < 0x140000 \<and> \<not> surrogate c"

subsection \<open>Bytes by value\<close>

lemma and_high:
  fixes c :: byte
  shows "unat (c AND NOT (mask k)) = 2 ^ k * (unat c div 2 ^ k)"
proof -
  have "c AND NOT (mask k) = push_bit k (drop_bit k c)"
    by (rule bit_word_eqI) (auto simp: bit_simps)
  moreover have "unat (push_bit k (drop_bit k c)) = take_bit 8 (push_bit k (drop_bit k (unat c)))"
    by (simp only: unsigned_push_bit_eq unsigned_drop_bit_eq) (simp add: take_bit_nat_eq_self)
  moreover have "\<dots> = 2 ^ k * (unat c div 2 ^ k)"
    using le_less_trans[OF times_div_less_eq_dividend, of "unat c" 256 "2 ^ k"] unat_byte_less[of c]
    by (simp add: push_bit_eq_mult drop_bit_eq_div take_bit_eq_mod mult.commute)
  ultimately show ?thesis by simp
qed

lemma high_masks:
  "NOT (mask 5) = (0xE0 :: byte)" "NOT (mask 4) = (0xF0 :: byte)" "NOT (mask 3) = (0xF8 :: byte)"
  "NOT (mask 6) = (0xC0 :: byte)"
  by (simp_all add: mask_eq_exp_minus_1)

lemmas and_highs = and_high[where k = 5, unfolded high_masks] and_high[where k = 4, unfolded high_masks]
  and_high[where k = 3, unfolded high_masks] and_high[where k = 6, unfolded high_masks]

lemma div_eq_range: "0 < k \<Longrightarrow> (u div k = m) = (m * k \<le> u \<and> u < Suc m * k)" for u :: nat
  using less_eq_div_iff_mult_less_eq[of k m u] div_less_iff_less_mult[of k u "Suc m"] by auto

lemma byte_conv:
  "(c AND 0xE0 = 0xC0) = (192 \<le> unat c \<and> unat c < 224)"
  "(c AND 0xF0 = 0xE0) = (224 \<le> unat c \<and> unat c < 240)"
  "(c AND 0xF8 = 0xF0) = (240 \<le> unat c \<and> unat c < 248)"
  "(c AND 0xC0 = 0x80) = (128 \<le> unat c \<and> unat c < 192)"
  for c :: byte
  unfolding word_unat_eq_iff and_highs by (simp_all add: div_eq_range)

lemmas byte_nat = word_le_nat_alt word_less_nat_alt word_unat_eq_iff

subsection \<open>One turn of the check\<close>

lemma tail_cases:
  obtains "r = []" | d where "r = [d]" | d e where "r = [d, e]" | d e f t where "r = d # e # f # t"
  by (metis list.exhaust)

lemma utf8_loop_end: "utf8_loop p (length p) = True"
  by (simp add: utf8_loop.simps[of p])

lemmas utf8_loop_at = utf8_loop.simps[of "p @ c # r" "length p" for p c r]

lemma utf8_step1:
  "unat c \<le> 127 \<Longrightarrow> utf8_loop (p @ c # r) (length p) = utf8_loop (p @ c # r) (length p + 1)"
  unfolding utf8_loop_at Let_def byte_conv by (simp add: byte_nat)

lemma utf8_step2:
  assumes "192 \<le> unat c" "unat c < 224"
  shows "utf8_loop (p @ c # r) (length p) =
    (r \<noteq> [] \<and> 128 \<le> unat (r ! 0) \<and> unat (r ! 0) < 192 \<and> 194 \<le> unat c \<and>
     utf8_loop (p @ c # r) (length p + 2))"
  using assms unfolding utf8_loop_at Let_def byte_conv
  by (cases r) (simp_all add: byte_nat nth_append not_less not_le)

lemma utf8_step3:
  assumes "224 \<le> unat c" "unat c < 240"
  shows "utf8_loop (p @ c # r) (length p) =
    (2 \<le> length r \<and> 128 \<le> unat (r ! 0) \<and> unat (r ! 0) < 192 \<and>
     128 \<le> unat (r ! 1) \<and> unat (r ! 1) < 192 \<and>
     (unat c = 224 \<longrightarrow> 160 \<le> unat (r ! 0)) \<and> (unat c = 237 \<longrightarrow> unat (r ! 0) < 160) \<and>
     utf8_loop (p @ c # r) (length p + 3))"
  using assms unat_byte_less[of c] unfolding utf8_loop_at Let_def byte_conv
  by (cases r rule: tail_cases) (simp_all add: byte_nat nth_append not_less not_le)

lemma utf8_step4:
  assumes "240 \<le> unat c"
  shows "utf8_loop (p @ c # r) (length p) =
    (3 \<le> length r \<and> 128 \<le> unat (r ! 0) \<and> unat (r ! 0) < 192 \<and>
     128 \<le> unat (r ! 1) \<and> unat (r ! 1) < 192 \<and> 128 \<le> unat (r ! 2) \<and> unat (r ! 2) < 192 \<and>
     (unat c = 240 \<longrightarrow> 144 \<le> unat (r ! 0)) \<and> unat c \<le> 244 \<and>
     utf8_loop (p @ c # r) (length p + 4))"
  using assms unat_byte_less[of c] unfolding utf8_loop_at Let_def byte_conv
  by (cases r rule: tail_cases) (simp_all add: byte_nat nth_append not_less not_le)

lemma utf8_step0:
  "127 < unat c \<Longrightarrow> unat c < 192 \<Longrightarrow> utf8_loop (p @ c # r) (length p) = False"
  unfolding utf8_loop_at Let_def byte_conv by (simp add: byte_nat)

lemma add_3_4: "n + 3 = Suc (Suc (Suc n))" "n + 4 = Suc (Suc (Suc (Suc n)))"
  by simp_all

text \<open>The encoding of an accepted code point is consumed by one turn of the loop.\<close>

lemma utf8_loop_encode:
  assumes "accepted_code c"
  shows "utf8_loop (p @ utf8_encode c @ r) (length p) =
         utf8_loop (p @ utf8_encode c @ r) (length p + length (utf8_encode c))"
proof -
  have lt: "c < 0x140000" and ns: "c < 0xD800 \<or> 0xDFFF < c"
    using assms by (auto simp: accepted_code_def surrogate_def)
  consider "c < 0x80" | "0x80 \<le> c" "c < 0x800" | "0x800 \<le> c" "c < 0x10000" | "0x10000 \<le> c"
    by linarith
  then show ?thesis
  proof cases
    case 1
    then show ?thesis by (simp add: utf8_encode_def utf8_step1 unat_of_nat_byte add_3_4 del: of_nat_add)
  next
    case 2
    then have "c div 64 < 32" "2 \<le> c div 64" "c mod 64 < 64" by auto
    with 2 show ?thesis
      by (simp add: utf8_encode_def utf8_step2 unat_of_nat_byte add_3_4 del: of_nat_add)
  next
    case 3
    have "c div 4096 < 16" "c div 64 mod 64 < 64" "c mod 64 < 64" using 3 by auto
    moreover have e: "c div 64 = 64 * (c div 4096) + c div 64 mod 64"
      using div_mult2_eq[of c 64 64] by simp
    moreover have "32 \<le> c div 64" using 3 by simp
    moreover have "c div 64 mod 64 < 32" if "c div 4096 = 13"
    proof -
      have "c < 0xD800" using that ns by (simp add: div_eq_range)
      then show ?thesis using e that by simp
    qed
    ultimately show ?thesis using 3
      by (simp add: utf8_encode_def utf8_step3 unat_of_nat_byte add_3_4 del: of_nat_add)
  next
    case 4
    have "c div 262144 < 5" "c div 4096 mod 64 < 64" "c div 64 mod 64 < 64" "c mod 64 < 64"
      using 4 lt by auto
    moreover have "c div 4096 = 64 * (c div 262144) + c div 4096 mod 64" "16 \<le> c div 4096"
      using 4 div_mult2_eq[of c 4096 64] by simp_all
    ultimately show ?thesis using 4
      by (simp add: utf8_encode_def utf8_step4 unat_of_nat_byte add_3_4 del: of_nat_add)
  qed
qed

text \<open>Conversely, what one turn accepts is the encoding of an accepted code point.\<close>

definition continuation :: "byte \<Rightarrow> bool" where
  "continuation d \<longleftrightarrow> 128 \<le> unat d \<and> unat d < 192"

lemma digit_64: "b < 64 \<Longrightarrow> (a * 64 + b) div 64 = a" "b < 64 \<Longrightarrow> (a * 64 + b) mod 64 = b" for a b :: nat
  by simp_all

lemma encode_2:
  assumes "194 \<le> unat b" "unat b < 224" "continuation d"
  defines "c \<equiv> (unat b - 192) * 64 + (unat d - 128)"
  shows "accepted_code c" "utf8_encode c = [b, d]"
proof -
  have r: "unat d - 128 < 64" "2 \<le> unat b - 192" "unat b - 192 < 32"
    using assms by (auto simp: continuation_def)
  have q: "c div 64 = unat b - 192" "c mod 64 = unat d - 128" "128 \<le> c" "c < 2048"
    using r by (simp_all add: c_def)
  show "accepted_code c" using q by (simp add: accepted_code_def surrogate_def)
  show "utf8_encode c = [b, d]"
    using q assms(1-3) by (simp add: utf8_encode_def word_unat_eq_iff continuation_def del: of_nat_add)
qed

lemma encode_3:
  assumes "224 \<le> unat b" "unat b < 240" "continuation d" "continuation e"
    "unat b = 224 \<longrightarrow> 160 \<le> unat d" "unat b = 237 \<longrightarrow> unat d < 160"
  defines "c \<equiv> ((unat b - 224) * 64 + (unat d - 128)) * 64 + (unat e - 128)"
  shows "accepted_code c" "utf8_encode c = [b, d, e]"
proof -
  have r: "unat d - 128 < 64" "unat e - 128 < 64" "unat b - 224 < 16"
    using assms by (auto simp: continuation_def)
  have q: "c div 64 = (unat b - 224) * 64 + (unat d - 128)" "c mod 64 = unat e - 128"
    unfolding c_def using r by (simp_all only: digit_64)
  have q2: "c div 64 mod 64 = unat d - 128" "c div 64 div 64 = unat b - 224"
    unfolding q using r by (simp_all only: digit_64)
  have q3: "c div 4096 = unat b - 224" using q2 div_mult2_eq[of c 64 64] by simp
  have q4: "2048 \<le> c" "c < 65536" using r assms(1,2,5) by (auto simp: c_def)
  have "c < 0xD800 \<or> 0xDFFF < c"
    using r assms(1,2,6) by (cases "unat b" "237 :: nat" rule: linorder_cases) (auto simp: c_def)
  then show "accepted_code c" using q4 by (auto simp: accepted_code_def surrogate_def)
  show "utf8_encode c = [b, d, e]"
    using q(2) q2(1) q3 q4 assms(1-4)
    by (simp add: utf8_encode_def word_unat_eq_iff continuation_def del: of_nat_add)
qed

lemma encode_4:
  assumes "240 \<le> unat b" "unat b \<le> 244" "continuation d" "continuation e" "continuation f"
    "unat b = 240 \<longrightarrow> 144 \<le> unat d"
  defines "c \<equiv> (((unat b - 240) * 64 + (unat d - 128)) * 64 + (unat e - 128)) * 64 + (unat f - 128)"
  shows "accepted_code c" "utf8_encode c = [b, d, e, f]"
proof -
  have r: "unat d - 128 < 64" "unat e - 128 < 64" "unat f - 128 < 64" "unat b - 240 < 5"
    using assms by (auto simp: continuation_def)
  have q: "c div 64 = ((unat b - 240) * 64 + (unat d - 128)) * 64 + (unat e - 128)"
    "c mod 64 = unat f - 128"
    unfolding c_def using r by (simp_all only: digit_64)
  have q2: "c div 64 mod 64 = unat e - 128" "c div 64 div 64 = (unat b - 240) * 64 + (unat d - 128)"
    unfolding q using r by (simp_all only: digit_64)
  have q3: "c div 4096 = (unat b - 240) * 64 + (unat d - 128)"
    using q2 div_mult2_eq[of c 64 64] by simp
  have q4: "c div 4096 mod 64 = unat d - 128" "c div 4096 div 64 = unat b - 240"
    unfolding q3 using r by (simp_all only: digit_64)
  have q5: "c div 262144 = unat b - 240" using q4 div_mult2_eq[of c 4096 64] by simp
  have q6: "65536 \<le> c" "c < 0x140000" using r assms(1,2,6) by (auto simp: c_def)
  then show "accepted_code c" by (auto simp: accepted_code_def surrogate_def)
  show "utf8_encode c = [b, d, e, f]"
    using q(2) q2(1) q4(1) q5 q6 assms(1-5)
    by (simp add: utf8_encode_def word_unat_eq_iff continuation_def del: of_nat_add)
qed

lemma utf8_turn:
  assumes "utf8_loop (p @ s) (length p)" "s \<noteq> []"
  obtains c r where "accepted_code c" "s = utf8_encode c @ r"
    "utf8_loop ((p @ utf8_encode c) @ r) (length (p @ utf8_encode c))"
proof -
  obtain b t where s: "s = b # t" using assms(2) by (cases s) auto
  consider "unat b \<le> 127" | "192 \<le> unat b" "unat b < 224" | "224 \<le> unat b" "unat b < 240"
    | "240 \<le> unat b"
    using assms(1) utf8_step0[of b p t] by (force simp: s)
  then show thesis
  proof cases
    case 1
    then show thesis using that[of "unat b" t] assms(1)
      by (simp add: s utf8_step1 utf8_encode_def accepted_code_def surrogate_def)
  next
    case 2
    obtain d r where t: "t = d # r" using assms(1) 2 by (cases t) (auto simp: s utf8_step2)
    have "194 \<le> unat b" "continuation d" using assms(1) 2
      by (simp_all add: s t utf8_step2 continuation_def)
    note e = encode_2[OF this(1) 2(2) this(2)]
    show thesis using that[OF e(1), of r] e(2) assms(1) 2 by (simp add: s t utf8_step2)
  next
    case 3
    obtain d e r where t: "t = d # e # r"
      using assms(1) 3 by (cases t rule: tail_cases) (auto simp: s utf8_step3)
    have "continuation d" "continuation e" "unat b = 224 \<longrightarrow> 160 \<le> unat d" "unat b = 237 \<longrightarrow> unat d < 160"
      using assms(1) 3 by (simp_all add: s t utf8_step3 continuation_def)
    note e = encode_3[OF 3 this]
    show thesis using that[OF e(1), of r] e(2) assms(1) 3 by (simp add: s t utf8_step3 add_3_4)
  next
    case 4
    obtain d e f r where t: "t = d # e # f # r"
      using assms(1) 4 by (cases t rule: tail_cases) (auto simp: s utf8_step4)
    have "unat b \<le> 244" "continuation d" "continuation e" "continuation f" "unat b = 240 \<longrightarrow> 144 \<le> unat d"
      using assms(1) 4 by (simp_all add: s t utf8_step4 continuation_def)
    note e = encode_4[OF 4 this]
    show thesis using that[OF e(1), of r] e(2) assms(1) 4 by (simp add: s t utf8_step4 add_3_4)
  qed
qed

lemma utf8_encode_nonempty [simp]: "utf8_encode c \<noteq> []"
  by (simp add: utf8_encode_def)

lemma utf8_loop_sound:
  "utf8_loop (p @ s) (length p) \<Longrightarrow> \<exists>cs. list_all accepted_code cs \<and> s = concat (map utf8_encode cs)"
proof (induction s arbitrary: p rule: length_induct)
  case (1 s)
  show ?case
  proof (cases "s = []")
    case True
    then show ?thesis by (intro exI[of _ "[]"]) simp
  next
    case False
    then obtain c r where c: "accepted_code c" "s = utf8_encode c @ r"
      "utf8_loop ((p @ utf8_encode c) @ r) (length (p @ utf8_encode c))"
      using utf8_turn 1(2) by metis
    have "length r < length s" using c(2) by simp
    with 1(1) c(3) obtain cs where "list_all accepted_code cs" "r = concat (map utf8_encode cs)"
      by blast
    with c show ?thesis by (intro exI[of _ "c # cs"]) simp
  qed
qed

lemma utf8_loop_complete:
  "list_all accepted_code cs \<Longrightarrow> utf8_loop (p @ concat (map utf8_encode cs)) (length p)"
proof (induction cs arbitrary: p)
  case Nil
  then show ?case by (simp add: utf8_loop_end)
next
  case (Cons c cs)
  then show ?case
    using Cons.IH[of "p @ utf8_encode c"] by (simp add: utf8_loop_encode)
qed

text \<open>
  C26. What \<open>is_valid_utf8\<close> accepts: exactly the concatenations of the encodings of code points below
  \<open>0x140000\<close> that are not surrogate halves, overlong forms being refused. Every text of Unicode scalar
  values is accepted. The comment at the test of the lead byte states another bound, \<open>U+10FFFF\<close>, and
  disagrees with the code: the lead byte \<open>0xF4\<close> is accepted with every continuation, so that every
  code point from \<open>0x110000\<close> to \<open>0x13FFFF\<close>, none of them a scalar value, is accepted too.
\<close>

theorem is_valid_utf8_characterised:
  "(is_valid_utf8 bs \<longleftrightarrow> (\<exists>cs. list_all (\<lambda>c. c < 0x140000 \<and> \<not> surrogate c) cs \<and> bs = concat (map utf8_encode cs))) \<and>
   (\<forall>cs. list_all scalar_value cs \<longrightarrow> is_valid_utf8 (concat (map utf8_encode cs))) \<and>
   (\<forall>c. 0x110000 \<le> c \<and> c < 0x140000 \<longrightarrow> is_valid_utf8 (utf8_encode c) \<and> \<not> scalar_value c)"
proof (intro conjI allI impI)
  have a: "(\<lambda>c. c < 0x140000 \<and> \<not> surrogate c) = accepted_code" by (simp add: accepted_code_def fun_eq_iff)
  show "is_valid_utf8 bs \<longleftrightarrow> (\<exists>cs. list_all (\<lambda>c. c < 0x140000 \<and> \<not> surrogate c) cs \<and> bs = concat (map utf8_encode cs))"
    unfolding a using utf8_loop_sound[of "[]" bs] utf8_loop_complete[of _ "[]"] by (auto simp: is_valid_utf8_def)
  fix cs assume "list_all scalar_value cs"
  then have "list_all accepted_code cs" by (auto simp: scalar_value_def accepted_code_def surrogate_def list_all_iff)
  then show "is_valid_utf8 (concat (map utf8_encode cs))" using utf8_loop_complete[of cs "[]"] by (simp add: is_valid_utf8_def)
next
  fix c :: nat assume c: "0x110000 \<le> c \<and> c < 0x140000"
  then have "accepted_code c" by (simp add: accepted_code_def surrogate_def)
  then show "is_valid_utf8 (utf8_encode c)" using utf8_loop_complete[of "[c]" "[]"] by (simp add: is_valid_utf8_def)
  show "\<not> scalar_value c" using c by (simp add: scalar_value_def)
qed

theorem is_valid_utf8_characterised_witness:
  "is_valid_utf8 (concat (map utf8_encode [0x41, 0x20AC])) \<and> is_valid_utf8 (utf8_encode 0x110000) \<and> \<not> scalar_value 0x110000"
proof -
  note accepts = is_valid_utf8_characterised[of "[]"]
  have "list_all scalar_value [0x41, 0x20AC]" by (simp add: scalar_value_def surrogate_def)
  then have "is_valid_utf8 (concat (map utf8_encode [0x41, 0x20AC]))" using accepts by blast
  moreover have "is_valid_utf8 (utf8_encode 0x110000) \<and> \<not> scalar_value 0x110000"
    by (rule accepts[THEN conjunct2, THEN conjunct2, rule_format]) simp
  ultimately show ?thesis by blast
qed

subsection \<open>Case mappings\<close>

text \<open>The case mappings leave every byte above \<open>0x7F\<close> alone, and so the multi-byte sequences.\<close>

definition ascii_map :: "(byte \<Rightarrow> byte) \<Rightarrow> bool" where
  "ascii_map f \<longleftrightarrow> (\<forall>c. (unat c < 128 \<longrightarrow> unat (f c) < 128) \<and> (128 \<le> unat c \<longrightarrow> f c = c))"

lemma ascii_map_toupper: "ascii_map toupper"
  by (auto simp: ascii_map_def toupper_def byte_nat unat_sub)

lemma ascii_map_tolower: "ascii_map tolower"
  by (auto simp: ascii_map_def tolower_def byte_nat unat_word_ariths)

lemma lead_length_encode:
  assumes "accepted_code c" "128 \<le> c"
  shows "lead_length (hd (utf8_encode c)) = length (utf8_encode c) \<and> 128 \<le> unat (hd (utf8_encode c))"
proof -
  have "c div 64 < 32" if "c < 2048" using that by auto
  moreover have "c div 4096 < 16" if "c < 65536" using that by auto
  moreover have "c div 262144 < 5" using assms by (auto simp: accepted_code_def)
  ultimately show ?thesis using assms(2)
    by (auto simp: lead_length_def byte_conv utf8_encode_def simp del: of_nat_add)
qed

lemma map_encode:
  assumes "ascii_map f" "accepted_code c"
  shows "map f (utf8_encode c) = (if c < 128 then [f (of_nat c)] else utf8_encode c)"
proof -
  have "c div 64 < 32" if "c < 2048" using that by auto
  moreover have "c div 4096 < 16" if "c < 65536" using that by auto
  moreover have "c div 262144 < 5" using assms by (auto simp: accepted_code_def)
  moreover have "unat b \<ge> 128 \<Longrightarrow> f b = b" for b using assms(1) by (simp add: ascii_map_def)
  ultimately show ?thesis by (simp add: utf8_encode_def del: of_nat_add)
qed

lemma case_loop_encoded:
  assumes "ascii_map f" "list_all accepted_code cs"
  shows "case_loop f (p @ concat (map utf8_encode cs)) (length p) out =
         out @ map f (concat (map utf8_encode cs))"
  using assms(2)
proof (induction cs arbitrary: p out)
  case Nil
  then show ?case by (simp add: case_loop.simps)
next
  case (Cons c cs)
  have c: "accepted_code c" using Cons.prems by simp
  have IH: "case_loop f ((p @ utf8_encode c) @ concat (map utf8_encode cs)) (length (p @ utf8_encode c)) o' =
      o' @ map f (concat (map utf8_encode cs))" for o'
    using Cons by (intro Cons.IH) simp
  note m = map_encode[OF assms(1) c]
  show ?case
  proof (cases "c < 128")
    case True
    then show ?thesis using IH m
      by (subst case_loop.simps) (simp add: utf8_encode_def byte_nat)
  next
    case False
    obtain b t where e: "utf8_encode c = b # t" by (cases "utf8_encode c") auto
    show ?thesis using IH m lead_length_encode[OF c] False
      by (subst case_loop.simps) (simp add: e byte_nat)
  qed
qed

lemma map_encoded_text:
  assumes "ascii_map f" "list_all accepted_code cs"
  shows "\<exists>ds. list_all accepted_code ds \<and> map f (concat (map utf8_encode cs)) = concat (map utf8_encode ds)"
  using assms(2)
proof (induction cs)
  case Nil
  then show ?case by (intro exI[of _ "[]"]) simp
next
  case (Cons c cs)
  then obtain ds where ds: "list_all accepted_code ds"
    "map f (concat (map utf8_encode cs)) = concat (map utf8_encode ds)" by auto
  define d where "d = (if c < 128 then unat (f (of_nat c)) else c)"
  have "map f (utf8_encode c) = utf8_encode d \<and> accepted_code d"
    using map_encode[OF assms(1)] Cons.prems assms(1)
    by (auto simp: d_def utf8_encode_def ascii_map_def accepted_code_def surrogate_def)
  with ds show ?case by (intro exI[of _ "d # ds"]) simp
qed

text \<open>
  On valid UTF-8 the case mappings act on the ASCII letters byte by byte and touch nothing else:
  the result is again valid UTF-8 of the same length, and mapping twice is mapping once. This is the
  user name normalisation the account lookup and the SRP identity rely on.
\<close>

theorem case_mapping_utf8:
  assumes "is_valid_utf8 s"
  shows "to_uppercase s = map toupper s \<and> to_lowercase s = map tolower s \<and>
    is_valid_utf8 (to_uppercase s) \<and> is_valid_utf8 (to_lowercase s) \<and>
    to_uppercase (to_uppercase s) = to_uppercase s \<and> to_uppercase (to_lowercase s) = to_uppercase s"
proof -
  have m: "to_uppercase s = map toupper s" "to_lowercase s = map tolower s"
    "is_valid_utf8 (map toupper s)" "is_valid_utf8 (map tolower s)" if "is_valid_utf8 s" for s
    using that case_loop_encoded[of _ _ "[]" "[]"] map_encoded_text ascii_map_toupper ascii_map_tolower
      utf8_loop_sound[of "[]" s] utf8_loop_complete[of _ "[]"]
    unfolding is_valid_utf8_def to_uppercase_def to_lowercase_def
    by fastforce+
  have "toupper (toupper c) = toupper c" "toupper (tolower c) = toupper c" for c
    by (auto simp: toupper_def tolower_def byte_nat unat_sub unat_word_ariths)
  then show ?thesis using m[OF assms] m[OF m(3)[OF assms]] m[OF m(4)[OF assms]]
    by (simp add: comp_def)
qed

theorem case_mapping_utf8_witness:
  "is_valid_utf8 (str ''Ann'' @ utf8_encode 0x416) \<and>
   to_uppercase (str ''Ann'' @ utf8_encode 0x416) = str ''ANN'' @ utf8_encode 0x416"
proof -
  have v: "is_valid_utf8 (str ''Ann'' @ utf8_encode 0x416)" by code_simp
  from case_mapping_utf8[OF v] have "to_uppercase (str ''Ann'' @ utf8_encode 0x416) =
    map toupper (str ''Ann'' @ utf8_encode 0x416)" by (rule conjunct1)
  also have "\<dots> = str ''ANN'' @ utf8_encode 0x416" by code_simp
  finally show ?thesis using v by simp
qed

end
