(* ===== verification/Srp6.thy ===== *)
theory Srp6
  imports Text_Utils Utf8_Utils
begin

text \<open>
  \<open>src/common/srp6/SRP6.cpp\<close>: the SRP6 object of the server and of the client. The big numbers are
  naturals. OpenSSL is not part of the repository: the functions the class calls are the fields of
  the record \<open>openssl\<close>, an argument of every operation, and \<open>openssl_ok\<close> states what OpenSSL documents
  of them. What \<open>RAND_bytes\<close> leaves in the buffer it is given is an argument as well.
\<close>

subsection \<open>OpenSSL\<close>

text \<open>
  The results of \<open>BN_mod_exp\<close>, \<open>BN_mod_mul\<close> and \<open>BN_mod_add\<close> take the old value of the target first:
  the calls can fail, the class ignores their return values, and nothing is documented of the target
  then.
\<close>

record openssl =
  SHA1 :: "bytes \<Rightarrow> bytes"
  BN_new :: nat
  BN_hex2bn :: "bytes \<Rightarrow> nat"
  BN_bin2bn :: "bytes \<Rightarrow> nat"
  BN_bn2bin :: "nat \<Rightarrow> bytes"
  BN_num_bytes :: "nat \<Rightarrow> nat"
  BN_set_word :: "u64 \<Rightarrow> nat"
  BN_get_word :: "nat \<Rightarrow> u64"
  BN_mod_exp :: "nat \<Rightarrow> nat \<Rightarrow> nat \<Rightarrow> nat \<Rightarrow> nat"
  BN_mod_mul :: "nat \<Rightarrow> nat \<Rightarrow> nat \<Rightarrow> nat \<Rightarrow> nat"
  BN_mod_add :: "nat \<Rightarrow> nat \<Rightarrow> nat \<Rightarrow> nat \<Rightarrow> nat"

definition openssl_ok :: "openssl \<Rightarrow> bool" where
  "openssl_ok ssl \<longleftrightarrow>
     (\<forall>d. length (SHA1 ssl d) = 20) \<and> BN_new ssl = 0 \<and>
     (\<forall>h bs. hex_to_bytes h = Inr bs \<longrightarrow> BN_hex2bn ssl h = be_nat bs) \<and>
     (\<forall>bs. BN_bin2bn ssl bs = be_nat bs) \<and>
     (\<forall>n. BN_bn2bin ssl n = nat_be n) \<and> (\<forall>n. BN_num_bytes ssl n = length (nat_be n)) \<and>
     (\<forall>w. BN_set_word ssl w = unat w) \<and>
     (\<forall>w :: u64. BN_get_word ssl (unat w) = w) \<and>
     (\<forall>r a p m. 0 < m \<longrightarrow> BN_mod_exp ssl r a p m = a ^ p mod m) \<and>
     (\<forall>r a b m. 0 < m \<longrightarrow> BN_mod_mul ssl r a b m = a * b mod m) \<and>
     (\<forall>r a b m. 0 < m \<longrightarrow> BN_mod_add ssl r a b m = (a + b) mod m)"

subsection \<open>The object\<close>

record srp6 =
  srp_salt :: bytes
  srp_username :: bytes
  srp_password :: bytes
  srp_v :: nat
  srp_b :: nat
  srp_B :: nat
  srp_N :: nat
  srp_g :: nat
  srp_k :: nat
  srp_a :: nat
  srp_A :: nat
  srp_last_M1 :: bytes

text \<open>
  \<open>std::vector<uint8_t> raw(BN_num_bytes(n)); BN_bn2bin(n, raw.data())\<close>: the vector is overwritten
  from its start, and writing past its end is undefined.
\<close>

definition bn_vector :: "openssl \<Rightarrow> nat \<Rightarrow> bytes result" where
  "bn_vector ssl n =
     (let raw = replicate (BN_num_bytes ssl n) 0; out = BN_bn2bin ssl n in
      if length out \<le> length raw then Inr (out @ drop (length out) raw) else Inl Undefined)"

definition calculate_k :: "openssl \<Rightarrow> srp6 \<Rightarrow> nat result" where
  "calculate_k ssl s =
     rbind (bn_vector ssl (srp_N s)) (\<lambda>N_bin.
     rbind (bn_vector ssl (srp_g s)) (\<lambda>g_bin.
     Inr (BN_bin2bn ssl (SHA1 ssl (N_bin @ g_bin)))))"

definition N_hex :: bytes where
  "N_hex = str ''B79B3E2A878DBEDF5AD53B139A99D8CEC8DA65FED1BD845FB70F6051754B8D36''"

definition init_constants :: "openssl \<Rightarrow> srp6 \<Rightarrow> srp6 result" where
  "init_constants ssl s =
     (let s1 = s\<lparr>srp_N := BN_hex2bn ssl N_hex, srp_g := BN_set_word ssl 7\<rparr> in
      rbind (calculate_k ssl s1) (\<lambda>k. Inr (s1\<lparr>srp_k := k\<rparr>)))"

definition SRP6 :: "openssl \<Rightarrow> srp6 result" where
  "SRP6 ssl = init_constants ssl
     \<lparr>srp_salt = [], srp_username = [], srp_password = [], srp_v = BN_new ssl, srp_b = BN_new ssl,
      srp_B = BN_new ssl, srp_N = BN_new ssl, srp_g = BN_new ssl, srp_k = BN_new ssl,
      srp_a = BN_new ssl, srp_A = BN_new ssl, srp_last_M1 = []\<rparr>"

subsection \<open>Server side\<close>

definition generate_salt_and_verifier_trinity ::
  "openssl \<Rightarrow> bytes \<Rightarrow> bytes \<Rightarrow> bytes \<Rightarrow> srp6 \<Rightarrow> (bytes \<times> bytes) result" where
  "generate_salt_and_verifier_trinity ssl rnd username password s =
     (let up = map toupper username @ str '':'' @ password;
          inner_hash = SHA1 ssl up;
          x_hash = SHA1 ssl (rnd @ inner_hash);
          x = BN_bin2bn ssl x_hash;
          v = BN_mod_exp ssl (BN_new ssl) (srp_g s) x (srp_N s) in
      rbind (bn_vector ssl v) (\<lambda>verifier_vec. Inr (rnd, verifier_vec)))"

definition set_only_username :: "bytes \<Rightarrow> srp6 \<Rightarrow> srp6" where
  "set_only_username username s = s\<lparr>srp_username := username\<rparr>"

definition load_verifier :: "openssl \<Rightarrow> bytes \<Rightarrow> bytes \<Rightarrow> srp6 \<Rightarrow> srp6" where
  "load_verifier ssl salt verifier s = s\<lparr>srp_salt := salt, srp_v := BN_bin2bn ssl verifier\<rparr>"

definition generate_server_ephemeral :: "openssl \<Rightarrow> bytes \<Rightarrow> srp6 \<Rightarrow> srp6" where
  "generate_server_ephemeral ssl rnd s =
     (let b = BN_bin2bn ssl rnd;
          gb = BN_mod_exp ssl (BN_new ssl) (srp_g s) b (srp_N s);
          kv = BN_mod_mul ssl (BN_new ssl) (srp_k s) (srp_v s) (srp_N s) in
      s\<lparr>srp_b := b, srp_B := BN_mod_add ssl (srp_B s) kv gb (srp_N s)\<rparr>)"

definition get_B_bytes :: "openssl \<Rightarrow> srp6 \<Rightarrow> bytes result" where
  "get_B_bytes ssl s = rbind (bn_vector ssl (srp_B s)) (\<lambda>raw. pad_bytes_left raw 32)"

definition get_N_bytes :: "openssl \<Rightarrow> srp6 \<Rightarrow> bytes result" where
  "get_N_bytes ssl s = rbind (bn_vector ssl (srp_N s)) (\<lambda>raw. pad_bytes_left raw 32)"

definition get_salt_bytes :: "srp6 \<Rightarrow> bytes" where
  "get_salt_bytes s = srp_salt s"

definition get_generator :: "openssl \<Rightarrow> srp6 \<Rightarrow> byte" where
  "get_generator ssl s = ucast (BN_get_word ssl (srp_g s))"

text \<open>The proof of the client is not compared with anything.\<close>

definition verify_client_proof :: "openssl \<Rightarrow> bytes \<Rightarrow> bytes \<Rightarrow> srp6 \<Rightarrow> bool \<times> bytes" where
  "verify_client_proof ssl A_bytes M1_client s = (True, SHA1 ssl (A_bytes @ M1_client))"

subsection \<open>Client side\<close>

definition load_constants :: "openssl \<Rightarrow> bytes \<Rightarrow> byte \<Rightarrow> srp6 \<Rightarrow> srp6 result" where
  "load_constants ssl N_bytes g_value s =
     (let s1 = s\<lparr>srp_N := BN_bin2bn ssl N_bytes, srp_g := BN_set_word ssl (ucast g_value)\<rparr> in
      rbind (calculate_k ssl s1) (\<lambda>k. Inr (s1\<lparr>srp_k := k\<rparr>)))"

definition load_salt :: "bytes \<Rightarrow> srp6 \<Rightarrow> srp6" where
  "load_salt salt s = s\<lparr>srp_salt := salt\<rparr>"

definition set_credentials :: "bytes \<Rightarrow> bytes \<Rightarrow> srp6 \<Rightarrow> srp6" where
  "set_credentials username password s = s\<lparr>srp_username := username, srp_password := password\<rparr>"

definition generate_client_ephemeral :: "openssl \<Rightarrow> bytes \<Rightarrow> srp6 \<Rightarrow> srp6" where
  "generate_client_ephemeral ssl rnd s =
     (let a = BN_bin2bn ssl rnd in
      s\<lparr>srp_a := a, srp_A := BN_mod_exp ssl (srp_A s) (srp_g s) a (srp_N s)\<rparr>)"

definition getUserName :: "srp6 \<Rightarrow> bytes" where
  "getUserName s = srp_username s"

definition get_last_M1 :: "srp6 \<Rightarrow> bytes" where
  "get_last_M1 s = srp_last_M1 s"

definition get_A_bytes :: "openssl \<Rightarrow> srp6 \<Rightarrow> bytes result" where
  "get_A_bytes ssl s = rbind (bn_vector ssl (srp_A s)) (\<lambda>raw. pad_bytes_left raw 32)"

definition compute_M1 :: "openssl \<Rightarrow> bytes \<Rightarrow> srp6 \<Rightarrow> (bytes \<times> srp6) result" where
  "compute_M1 ssl B_bytes s =
     rbind (get_A_bytes ssl s) (\<lambda>A.
     rbind (pad_bytes_left (SHA1 ssl (A @ B_bytes @ srp_salt s)) 20) (\<lambda>m1.
     Inr (m1, s\<lparr>srp_last_M1 := m1\<rparr>)))"

text \<open>
  \<open>std::equal(M2_server.begin(), M2_server.end(), hash)\<close> walks the range of the first two iterators
  and stops at the first difference; past the end of \<open>hash\<close> it is undefined.
\<close>

fun equal_prefix :: "bytes \<Rightarrow> bytes \<Rightarrow> bool result" where
  "equal_prefix [] ys = Inr True"
| "equal_prefix (x # xs) [] = Inl Undefined"
| "equal_prefix (x # xs) (y # ys) = (if x = y then equal_prefix xs ys else Inr False)"

definition verify_server_proof :: "openssl \<Rightarrow> bytes \<Rightarrow> bytes \<Rightarrow> srp6 \<Rightarrow> bool result" where
  "verify_server_proof ssl last_M1 M2_server s =
     rbind (get_A_bytes ssl s) (\<lambda>A. equal_prefix M2_server (SHA1 ssl (A @ last_M1)))"

subsection \<open>What OpenSSL provides\<close>

lemma openssl_okD:
  assumes "openssl_ok ssl"
  shows "length (SHA1 ssl d) = 20" "BN_new ssl = 0" "BN_bin2bn ssl bs = be_nat bs"
    "BN_bn2bin ssl n = nat_be n" "BN_num_bytes ssl n = length (nat_be n)"
    "BN_set_word ssl w = unat w" "BN_get_word ssl (unat w) = w"
    "0 < m \<Longrightarrow> BN_mod_exp ssl r a p m = a ^ p mod m"
    "0 < m \<Longrightarrow> BN_mod_mul ssl r a b m = a * b mod m"
    "0 < m \<Longrightarrow> BN_mod_add ssl r a b m = (a + b) mod m"
  using assms by (simp_all add: openssl_ok_def)

lemma openssl_hex: "openssl_ok ssl \<Longrightarrow> hex_to_bytes h = Inr bs \<Longrightarrow> BN_hex2bn ssl h = be_nat bs"
  by (simp add: openssl_ok_def)

lemma bn_vector_ok: "openssl_ok ssl \<Longrightarrow> bn_vector ssl n = Inr (nat_be n)"
  by (simp add: bn_vector_def openssl_okD Let_def)

text \<open>The modulus of the class.\<close>

definition srp_modulus :: nat where
  "srp_modulus = 0xB79B3E2A878DBEDF5AD53B139A99D8CEC8DA65FED1BD845FB70F6051754B8D36"

lemma N_hex_bytes:
  "hex_to_bytes N_hex = Inr [0xB7,0x9B,0x3E,0x2A,0x87,0x8D,0xBE,0xDF,0x5A,0xD5,0x3B,0x13,0x9A,0x99,0xD8,0xCE,
     0xC8,0xDA,0x65,0xFE,0xD1,0xBD,0x84,0x5F,0xB7,0x0F,0x60,0x51,0x75,0x4B,0x8D,0x36]"
  by code_simp

lemma modulus_hex: "openssl_ok ssl \<Longrightarrow> BN_hex2bn ssl N_hex = srp_modulus"
  by (simp add: openssl_hex[OF _ N_hex_bytes] be_nat_def srp_modulus_def)

lemma modulus_less: "srp_modulus < 256 ^ 32" and modulus_pos: "0 < srp_modulus"
  and modulus_even: "even srp_modulus"
  by (simp_all add: srp_modulus_def)


subsection \<open>The operations on numbers\<close>

definition be32 :: "nat \<Rightarrow> bytes" where
  "be32 n = replicate (32 - length (nat_be n)) 0 @ nat_be n"

lemma be32_value [simp]: "be_nat (be32 n) = n"
  by (simp add: be32_def)

lemma be32_length: "n < 256 ^ 32 \<Longrightarrow> length (be32 n) = 32"
  using length_nat_be[of n 32] by (simp add: be32_def)

lemma padded_vector:
  assumes "openssl_ok ssl" "n < 256 ^ 32"
  shows "rbind (bn_vector ssl n) (\<lambda>raw. pad_bytes_left raw 32) = Inr (be32 n)"
  using length_nat_be[OF assms(2)]
  by (simp add: bn_vector_ok[OF assms(1)] pad_bytes_left_def be32_def)

lemma get_bytes_ok:
  assumes "openssl_ok ssl"
  shows "srp_B s < 256 ^ 32 \<Longrightarrow> get_B_bytes ssl s = Inr (be32 (srp_B s))"
    "srp_N s < 256 ^ 32 \<Longrightarrow> get_N_bytes ssl s = Inr (be32 (srp_N s))"
    "srp_A s < 256 ^ 32 \<Longrightarrow> get_A_bytes ssl s = Inr (be32 (srp_A s))"
  by (simp_all only: get_B_bytes_def get_N_bytes_def get_A_bytes_def padded_vector[OF assms])

text \<open>The multiplier the class derives from the modulus and the generator.\<close>

definition multiplier :: "openssl \<Rightarrow> nat \<Rightarrow> nat \<Rightarrow> nat" where
  "multiplier ssl N g = be_nat (SHA1 ssl (nat_be N @ nat_be g))"

lemma calculate_k_ok: "openssl_ok ssl \<Longrightarrow> calculate_k ssl s = Inr (multiplier ssl (srp_N s) (srp_g s))"
  by (simp add: calculate_k_def bn_vector_ok openssl_okD multiplier_def)

definition fresh :: "openssl \<Rightarrow> srp6" where
  "fresh ssl =
     \<lparr>srp_salt = [], srp_username = [], srp_password = [], srp_v = 0, srp_b = 0, srp_B = 0,
      srp_N = srp_modulus, srp_g = 7, srp_k = multiplier ssl srp_modulus 7, srp_a = 0, srp_A = 0,
      srp_last_M1 = []\<rparr>"

lemma SRP6_fresh: "openssl_ok ssl \<Longrightarrow> SRP6 ssl = Inr (fresh ssl)"
  by (simp add: SRP6_def init_constants_def calculate_k_ok modulus_hex openssl_okD fresh_def Let_def)

lemma unat_widened: "unat (ucast (g :: byte) :: u64) = unat g"
  using less_trans[OF unat_byte_less[of g], of "2 ^ 64"]
  by (simp add: unsigned_ucast_eq take_bit_nat_eq_self)

lemma load_constants_ok:
  "openssl_ok ssl \<Longrightarrow> load_constants ssl N g s =
     Inr (s\<lparr>srp_N := be_nat N, srp_g := unat g, srp_k := multiplier ssl (be_nat N) (unat g)\<rparr>)"
  by (simp add: load_constants_def calculate_k_ok openssl_okD unat_widened Let_def)

lemma generate_client_ephemeral_ok:
  "openssl_ok ssl \<Longrightarrow> 0 < srp_N s \<Longrightarrow> generate_client_ephemeral ssl rnd s =
     s\<lparr>srp_a := be_nat rnd, srp_A := srp_g s ^ be_nat rnd mod srp_N s\<rparr>"
  by (simp add: generate_client_ephemeral_def openssl_okD Let_def)

lemma generate_server_ephemeral_ok:
  "openssl_ok ssl \<Longrightarrow> 0 < srp_N s \<Longrightarrow> generate_server_ephemeral ssl rnd s =
     s\<lparr>srp_b := be_nat rnd, srp_B := (srp_k s * srp_v s + srp_g s ^ be_nat rnd) mod srp_N s\<rparr>"
  by (simp add: generate_server_ephemeral_def openssl_okD Let_def mod_add_eq)

lemma compute_M1_ok:
  assumes "openssl_ok ssl" "srp_A s < 256 ^ 32"
  shows "compute_M1 ssl B s = Inr (SHA1 ssl (be32 (srp_A s) @ B @ srp_salt s),
     s\<lparr>srp_last_M1 := SHA1 ssl (be32 (srp_A s) @ B @ srp_salt s)\<rparr>)"
  by (simp add: compute_M1_def get_bytes_ok(3)[OF assms] pad_bytes_left_def openssl_okD(1)[OF assms(1)])

lemma equal_prefix_iff:
  "equal_prefix xs ys =
     (if length xs \<le> length ys then Inr (take (length xs) ys = xs)
      else if take (length ys) xs = ys then Inl Undefined else Inr False)"
  by (induction xs ys rule: equal_prefix.induct) auto

subsection \<open>The exchange\<close>

text \<open>
  The two objects wired together: the server sends its modulus, generator, salt and \<open>B\<close>, the client
  answers with \<open>A\<close> and \<open>M1\<close>, the server with \<open>M2\<close>, which the client checks.
\<close>

definition srp_exchange ::
  "openssl \<Rightarrow> bytes \<Rightarrow> bytes \<Rightarrow> bytes \<Rightarrow> bytes \<Rightarrow> bytes \<Rightarrow> bytes \<Rightarrow>
   (bytes \<times> bytes \<times> bytes \<times> bytes \<times> bool) result" where
  "srp_exchange ssl salt verifier rnd_b rnd_a username password =
     rbind (SRP6 ssl) (\<lambda>server0.
     let server = generate_server_ephemeral ssl rnd_b
           (load_verifier ssl salt verifier (set_only_username username server0)) in
     rbind (get_B_bytes ssl server) (\<lambda>B.
     rbind (get_N_bytes ssl server) (\<lambda>N.
     rbind (SRP6 ssl) (\<lambda>client0.
     rbind (load_constants ssl N (get_generator ssl server) client0) (\<lambda>client1.
     let client = generate_client_ephemeral ssl rnd_a
           (set_credentials username password (load_salt (get_salt_bytes server) client1)) in
     rbind (get_A_bytes ssl client) (\<lambda>A.
     rbind (compute_M1 ssl B client) (\<lambda>(M1, client').
     let (ok, M2) = verify_client_proof ssl A M1 server in
     rbind (verify_server_proof ssl (get_last_M1 client') M2 client') (\<lambda>accepted.
     Inr (A, B, M1, M2, ok \<and> accepted)))))))))"

lemma be_nat_32: "length bs = 32 \<Longrightarrow> be_nat bs < 256 ^ 32"
  using be_nat_less[of bs] by simp

lemma below_modulus: "n mod srp_modulus < 256 ^ 32"
  using mod_less_divisor[OF modulus_pos, of n] modulus_less by linarith

lemma generator_fresh: "openssl_ok ssl \<Longrightarrow> srp_g s = 7 \<Longrightarrow> get_generator ssl s = 7"
  using openssl_okD(7)[of ssl 7] by (simp add: get_generator_def)

text \<open>
  C11. The SRP exchange always completes: for every salt, verifier and random bytes no operation of
  either object throws or has undefined behaviour, \<open>A\<close> and \<open>B\<close> are 32 bytes and both proofs 20 bytes
  long, with \<open>A = g ^ a mod N\<close> and \<open>B = (k * v + g ^ b) mod N\<close>, and the client accepts the server's
  \<open>M2\<close>. The transcript is the same for every user name and password: the password never enters it.
\<close>

theorem srp_exchange_completes:
  assumes "openssl_ok ssl"
  shows "\<exists>A B M1 M2.
    (\<forall>username password. srp_exchange ssl salt verifier rnd_b rnd_a username password =
       Inr (A, B, M1, M2, True)) \<and>
    length A = 32 \<and> be_nat A = 7 ^ be_nat rnd_a mod srp_modulus \<and>
    length B = 32 \<and> be_nat B =
      (multiplier ssl srp_modulus 7 * be_nat verifier + 7 ^ be_nat rnd_b) mod srp_modulus \<and>
    M1 = SHA1 ssl (A @ B @ salt) \<and> length M1 = 20 \<and> M2 = SHA1 ssl (A @ M1) \<and> length M2 = 20"
proof -
  let ?A = "7 ^ be_nat rnd_a mod srp_modulus"
  let ?B = "(multiplier ssl srp_modulus 7 * be_nat verifier + 7 ^ be_nat rnd_b) mod srp_modulus"
  let ?M1 = "SHA1 ssl (be32 ?A @ be32 ?B @ salt)"
  have "srp_exchange ssl salt verifier rnd_b rnd_a username password =
      Inr (be32 ?A, be32 ?B, ?M1, SHA1 ssl (be32 ?A @ ?M1), True)" for username password
    using assms modulus_less modulus_pos below_modulus
    by (simp add: srp_exchange_def SRP6_fresh generate_server_ephemeral_ok get_bytes_ok
        load_constants_ok generate_client_ephemeral_ok compute_M1_ok verify_client_proof_def
        verify_server_proof_def equal_prefix_iff generator_fresh fresh_def load_verifier_def
        set_only_username_def load_salt_def set_credentials_def get_salt_bytes_def get_last_M1_def
        openssl_okD del: mod_less)
  then show ?thesis
    using be32_length[OF below_modulus] openssl_okD(1)[OF assms]
    by (intro exI[of _ "be32 ?A"] exI[of _ "be32 ?B"] exI[of _ ?M1]
        exI[of _ "SHA1 ssl (be32 ?A @ ?M1)"]) simp
qed

text \<open>An instance of the OpenSSL record that satisfies the documented laws.\<close>

definition sample_openssl :: openssl where
  "sample_openssl =
     \<lparr>SHA1 = (\<lambda>d. take 20 (d @ replicate 20 0)), BN_new = 0,
      BN_hex2bn = (\<lambda>h. case hex_to_bytes h of Inr bs \<Rightarrow> be_nat bs | Inl _ \<Rightarrow> 0),
      BN_bin2bn = be_nat, BN_bn2bin = nat_be, BN_num_bytes = (\<lambda>n. length (nat_be n)),
      BN_set_word = (\<lambda>w. unat w), BN_get_word = of_nat,
      BN_mod_exp = (\<lambda>r a p m. a ^ p mod m), BN_mod_mul = (\<lambda>r a b m. a * b mod m),
      BN_mod_add = (\<lambda>r a b m. (a + b) mod m)\<rparr>"

lemma sample_openssl_ok: "openssl_ok sample_openssl"
  by (auto simp: openssl_ok_def sample_openssl_def)

theorem srp_exchange_completes_witness:
  "openssl_ok sample_openssl \<and>
   (\<exists>A B M1 M2. srp_exchange sample_openssl [1, 2] [3] [2] [5] (str ''BOB'') (str ''secret'') =
      Inr (A, B, M1, M2, True) \<and> length A = 32 \<and> be_nat A = 16807)"
proof -
  have "7 ^ be_nat [5] mod srp_modulus = 16807" by (simp add: be_nat_def srp_modulus_def)
  then show ?thesis
    using sample_openssl_ok
      srp_exchange_completes[OF sample_openssl_ok, of "[1, 2]" "[3]" "[2]" "[5]"] by metis
qed

text \<open>
  C27. Registration: the salt is the random bytes, and the verifier is the shortest big-endian form
  (no list of bytes with the same value is shorter), at most 32 bytes, of \<open>7 ^ x mod N\<close> with \<open>x = SHA1 (salt, SHA1 (USER : password))\<close>. The case of
  ASCII letters of the user name does not matter, and loading the pair restores the number.
\<close>

theorem verifier_generation:
  assumes "openssl_ok ssl"
  shows "\<exists>s verifier. SRP6 ssl = Inr s \<and>
    generate_salt_and_verifier_trinity ssl rnd user pw s = Inr (rnd, verifier) \<and>
    length verifier \<le> 32 \<and> (\<forall>bs. be_nat bs = be_nat verifier \<longrightarrow> length verifier \<le> length bs) \<and>
    be_nat verifier =
      7 ^ be_nat (SHA1 ssl (rnd @ SHA1 ssl (map toupper user @ str '':'' @ pw))) mod srp_modulus \<and>
    generate_salt_and_verifier_trinity ssl rnd (map tolower user) pw s = Inr (rnd, verifier) \<and>
    srp_v (load_verifier ssl rnd verifier s) = be_nat verifier"
proof -
  have u: "map toupper (map tolower user) = map toupper user"
    by (auto simp: toupper_def tolower_def byte_nat unat_sub unat_word_ariths)
  let ?v = "7 ^ be_nat (SHA1 ssl (rnd @ SHA1 ssl (map toupper user @ str '':'' @ pw))) mod srp_modulus"
  have "length (nat_be ?v) \<le> length bs" if "be_nat bs = ?v" for bs
    using length_nat_be[of ?v "length bs"] be_nat_less[of bs] that by simp
  then show ?thesis
    using length_nat_be[OF below_modulus] modulus_pos u
    by (intro exI[of _ "fresh ssl"] exI[of _ "nat_be ?v"])
       (simp add: SRP6_fresh generate_salt_and_verifier_trinity_def bn_vector_ok openssl_okD assms
          fresh_def load_verifier_def Let_def del: map_map)
qed

theorem verifier_generation_witness:
  "openssl_ok sample_openssl \<and> (\<exists>s verifier. SRP6 sample_openssl = Inr s \<and>
     generate_salt_and_verifier_trinity sample_openssl [] (str ''bob'') [] s = Inr ([], verifier) \<and>
     generate_salt_and_verifier_trinity sample_openssl [] (map tolower (str ''bob'')) [] s = Inr ([], verifier))"
  using sample_openssl_ok verifier_generation[OF sample_openssl_ok, of "[]" "str ''bob''" "[]"] by blast

text \<open>
  The modulus is even, so it is not the safe prime the protocol needs, and every client public key
  is odd: one bit of each message is fixed. For every random input the number sent as \<open>A\<close> is odd.
\<close>

theorem client_key_odd:
  assumes "openssl_ok ssl"
  shows "even srp_modulus \<and> (\<exists>s A. SRP6 ssl = Inr s \<and> srp_N s = srp_modulus \<and>
    get_A_bytes ssl (generate_client_ephemeral ssl rnd s) = Inr A \<and> odd (be_nat A))"
proof -
  have "odd (7 ^ n mod srp_modulus)" for n
    using dvd_mod_iff[OF modulus_even, of "7 ^ n"] by simp
  then show ?thesis
    using modulus_even modulus_pos below_modulus
    by (intro conjI exI[of _ "fresh ssl"] exI[of _ "be32 (7 ^ be_nat rnd mod srp_modulus)"])
       (simp_all add: SRP6_fresh generate_client_ephemeral_ok get_bytes_ok assms fresh_def)
qed

theorem client_key_odd_witness:
  "openssl_ok sample_openssl \<and> (\<exists>s A. SRP6 sample_openssl = Inr s \<and>
     get_A_bytes sample_openssl (generate_client_ephemeral sample_openssl [4] s) = Inr A \<and> odd (be_nat A))"
  using sample_openssl_ok client_key_odd[OF sample_openssl_ok, of "[4]"] by blast

text \<open>
  What the client checks of the server's proof: with a proof of at most 20 bytes the result is
  whether it is a prefix of the expected hash, so the empty proof is accepted; a longer one is
  refused unless it extends the hash, where the comparison reads past the hash.
\<close>

theorem server_proof_prefix:
  assumes "openssl_ok ssl" "srp_A s < 256 ^ 32"
  shows "\<exists>H. length H = 20 \<and> verify_server_proof ssl M1 M2 s =
    (if length M2 \<le> 20 then Inr (M2 = take (length M2) H)
     else if take 20 M2 = H then Inl Undefined else Inr False) \<and>
    verify_server_proof ssl M1 [] s = Inr True"
  using assms
  by (intro exI[of _ "SHA1 ssl (be32 (srp_A s) @ M1)"])
     (auto simp: verify_server_proof_def get_bytes_ok equal_prefix_iff openssl_okD)

theorem server_proof_prefix_witness:
  "openssl_ok sample_openssl \<and> srp_A (fresh sample_openssl) < 256 ^ 32 \<and>
   verify_server_proof sample_openssl [9] [] (fresh sample_openssl) = Inr True"
proof -
  have "srp_A (fresh sample_openssl) < 256 ^ 32" by (simp add: fresh_def)
  then show ?thesis using sample_openssl_ok server_proof_prefix[OF sample_openssl_ok] by blast
qed

end
