(* ===== verification/Account_Cache.thy ===== *)
theory Account_Cache
  imports Purity_Prelude
begin

text \<open>
  \<open>src/server/AccountCache/AccountCache.hpp\<close>: salts and verifiers by user name, with a sliding time to
  live and a periodic sweep. Every public operation takes the mutex for its whole body, so the
  operations are atomic and a run is a sequence of them. Time points of the steady clock are
  integers in nanoseconds, an argument of the operations that read the clock; the times to live are
  in seconds as in the source. The hash table is an association list with distinct keys, in the
  order of iteration.
\<close>

subsection \<open>State and operations\<close>

record cache_entry =
  ce_salt :: bytes
  ce_verifier :: bytes
  ce_last_access :: int

text \<open>\<open>ac_timer\<close> is the deadline of the pending \<open>async_wait\<close>, if there is one.\<close>

record account_cache =
  ac_cache :: "(bytes \<times> cache_entry) list"
  ac_timer :: "int option"
  ac_ttl :: int
  ac_cleanup_interval :: int

definition AccountCache :: "int \<Rightarrow> int \<Rightarrow> account_cache" where
  "AccountCache ttl cleanup_interval =
     \<lparr>ac_cache = [], ac_timer = None, ac_ttl = ttl, ac_cleanup_interval = cleanup_interval\<rparr>"

definition default_ttl :: int where
  "default_ttl = 5 * 60"

definition default_cleanup_interval :: int where
  "default_cleanup_interval = 60"

definition nanoseconds :: "int \<Rightarrow> int" where
  "nanoseconds secs = secs * 1000000000"

definition ac_expired :: "int \<Rightarrow> account_cache \<Rightarrow> cache_entry \<Rightarrow> bool" where
  "ac_expired now c e \<longleftrightarrow> now - ce_last_access e > nanoseconds (ac_ttl c)"

fun table_update :: "bytes \<Rightarrow> cache_entry \<Rightarrow> (bytes \<times> cache_entry) list \<Rightarrow> (bytes \<times> cache_entry) list" where
  "table_update u e [] = [(u, e)]"
| "table_update u e ((k, x) # xs) = (if k = u then (k, e) # xs else (k, x) # table_update u e xs)"

fun table_erase :: "bytes \<Rightarrow> (bytes \<times> cache_entry) list \<Rightarrow> (bytes \<times> cache_entry) list" where
  "table_erase u [] = []"
| "table_erase u ((k, x) # xs) = (if k = u then xs else (k, x) # table_erase u xs)"

definition cache_get :: "int \<Rightarrow> bytes \<Rightarrow> account_cache \<Rightarrow> cache_entry option \<times> account_cache" where
  "cache_get now username c =
     (case map_of (ac_cache c) username of
        None \<Rightarrow> (None, c)
      | Some e \<Rightarrow>
          if ac_expired now c e then (None, c)
          else (let e' = e\<lparr>ce_last_access := now\<rparr> in
                (Some e', c\<lparr>ac_cache := table_update username e' (ac_cache c)\<rparr>)))"

definition cache_put :: "int \<Rightarrow> bytes \<Rightarrow> cache_entry \<Rightarrow> account_cache \<Rightarrow> account_cache" where
  "cache_put now username entry c =
     c\<lparr>ac_cache := table_update username (entry\<lparr>ce_last_access := now\<rparr>) (ac_cache c)\<rparr>"

definition cache_invalidate :: "bytes \<Rightarrow> account_cache \<Rightarrow> account_cache" where
  "cache_invalidate username c = c\<lparr>ac_cache := table_erase username (ac_cache c)\<rparr>"

text \<open>The iterator loop: \<open>erase\<close> returns the iterator to the next element.\<close>

fun sweep_loop :: "int \<Rightarrow> account_cache \<Rightarrow> (bytes \<times> cache_entry) list \<Rightarrow> (bytes \<times> cache_entry) list" where
  "sweep_loop now c [] = []"
| "sweep_loop now c ((k, e) # it) =
     (if ac_expired now c e then sweep_loop now c it else (k, e) # sweep_loop now c it)"

definition cleanup_expired_entries :: "int \<Rightarrow> account_cache \<Rightarrow> account_cache" where
  "cleanup_expired_entries now c = c\<lparr>ac_cache := sweep_loop now c (ac_cache c)\<rparr>"

definition start_cleanup_timer :: "int \<Rightarrow> account_cache \<Rightarrow> account_cache" where
  "start_cleanup_timer now c =
     c\<lparr>ac_timer := Some (now + nanoseconds (ac_cleanup_interval c))\<rparr>"

definition cache_start :: "int \<Rightarrow> account_cache \<Rightarrow> account_cache" where
  "cache_start now c = start_cleanup_timer now c"

definition cache_stop :: "account_cache \<Rightarrow> account_cache" where
  "cache_stop c = c\<lparr>ac_timer := None\<rparr>"

text \<open>The completion handler of the timer, with its error flag; \<open>now\<close> and \<open>now'\<close> are the two readings
  of the clock.\<close>

definition cleanup_timer_handler :: "bool \<Rightarrow> int \<Rightarrow> int \<Rightarrow> account_cache \<Rightarrow> account_cache" where
  "cleanup_timer_handler ec now now' c =
     (if \<not> ec then start_cleanup_timer now' (cleanup_expired_entries now c)
      else c\<lparr>ac_timer := None\<rparr>)"

subsection \<open>Runs\<close>

datatype cache_op = Get bytes | Put bytes cache_entry | Invalidate bytes | Timer bool

fun cache_step :: "int \<Rightarrow> cache_op \<Rightarrow> account_cache \<Rightarrow> cache_entry option list \<times> account_cache" where
  "cache_step now (Get u) c = (let (r, c') = cache_get now u c in ([r], c'))"
| "cache_step now (Put u e) c = ([], cache_put now u e c)"
| "cache_step now (Invalidate u) c = ([], cache_invalidate u c)"
| "cache_step now (Timer ec) c = ([], cleanup_timer_handler ec now now c)"

text \<open>The answers of \<open>get\<close> along a sequence of operations at the given times.\<close>

fun cache_run :: "(int \<times> cache_op) list \<Rightarrow> account_cache \<Rightarrow> cache_entry option list" where
  "cache_run [] c = []"
| "cache_run ((now, op) # ops) c = (let (out, c') = cache_step now op c in out @ cache_run ops c')"

subsection \<open>The specification: a map with a sliding time to live and no sweep\<close>

fun spec_step ::
  "int \<Rightarrow> int \<Rightarrow> cache_op \<Rightarrow> (bytes \<rightharpoonup> cache_entry) \<Rightarrow> cache_entry option list \<times> (bytes \<rightharpoonup> cache_entry)" where
  "spec_step life now (Get u) m =
     (case m u of
        None \<Rightarrow> ([None], m)
      | Some e \<Rightarrow>
          if now - ce_last_access e \<le> life
          then ([Some (e\<lparr>ce_last_access := now\<rparr>)], m(u \<mapsto> e\<lparr>ce_last_access := now\<rparr>))
          else ([None], m))"
| "spec_step life now (Put u e) m = ([], m(u \<mapsto> e\<lparr>ce_last_access := now\<rparr>))"
| "spec_step life now (Invalidate u) m = ([], m(u := None))"
| "spec_step life now (Timer ec) m = ([], m)"

fun spec_run :: "int \<Rightarrow> (int \<times> cache_op) list \<Rightarrow> (bytes \<rightharpoonup> cache_entry) \<Rightarrow> cache_entry option list" where
  "spec_run life [] m = []"
| "spec_run life ((now, op) # ops) m = (let (out, m') = spec_step life now op m in out @ spec_run life ops m')"

subsection \<open>The table\<close>

definition ac_wf :: "account_cache \<Rightarrow> bool" where
  "ac_wf c \<longleftrightarrow> distinct (map fst (ac_cache c))"

lemma keys_table_update: "fst ` set (table_update u e xs) = insert u (fst ` set xs)"
  by (induction u e xs rule: table_update.induct) auto

lemma distinct_table_update:
  "distinct (map fst xs) \<Longrightarrow> distinct (map fst (table_update u e xs))"
  by (induction u e xs rule: table_update.induct) (auto simp: keys_table_update)

lemma map_of_table_update: "map_of (table_update u e xs) = (map_of xs)(u \<mapsto> e)"
  by (induction u e xs rule: table_update.induct) (auto simp: fun_upd_twist)

lemma keys_table_erase: "fst ` set (table_erase u xs) \<subseteq> fst ` set xs"
  by (induction u xs rule: table_erase.induct) auto

lemma distinct_table_erase: "distinct (map fst xs) \<Longrightarrow> distinct (map fst (table_erase u xs))"
proof (induction u xs rule: table_erase.induct)
  case (2 u k x xs)
  then show ?case using keys_table_erase[of u xs] by auto
qed simp

lemma map_of_table_erase:
  "distinct (map fst xs) \<Longrightarrow> map_of (table_erase u xs) = (map_of xs)(u := None)"
proof (induction u xs rule: table_erase.induct)
  case (2 u k x xs)
  then show ?case by (auto simp: fun_upd_twist map_of_eq_None_iff fun_upd_idem_iff)
qed auto

lemma sweep_loop_filter: "sweep_loop now c xs = filter (\<lambda>(k, e). \<not> ac_expired now c e) xs"
  by (induction now c xs rule: sweep_loop.induct) auto

lemma map_of_sweep:
  "distinct (map fst xs) \<Longrightarrow> map_of (sweep_loop now c xs) u =
     (case map_of xs u of None \<Rightarrow> None | Some e \<Rightarrow> if ac_expired now c e then None else Some e)"
proof (induction now c xs rule: sweep_loop.induct)
  case (2 now c k e it)
  have "map_of it k = None" using 2 by (auto simp: map_of_eq_None_iff)
  then show ?case using 2 by auto
qed auto

subsection \<open>The contract of an expiring map\<close>

text \<open>
  What a client of the cache relies on: a lookup answers with an unexpired entry and refreshes it,
  a store overwrites, a removal forgets, and a sweep drops exactly the expired entries. \<open>agree\<close>
  relates a state to a plain map that differs from it in expired entries only; every operation
  keeps the relation, whatever the sweeps do.
\<close>

locale expiring_map =
  fixes view :: "'s \<Rightarrow> 'k \<Rightarrow> 'v option"
    and stamp :: "'v \<Rightarrow> int"
    and touch :: "int \<Rightarrow> 'v \<Rightarrow> 'v"
    and life :: "'s \<Rightarrow> int"
    and inv :: "'s \<Rightarrow> bool"
    and fetch :: "int \<Rightarrow> 'k \<Rightarrow> 's \<Rightarrow> 'v option \<times> 's"
    and store :: "int \<Rightarrow> 'k \<Rightarrow> 'v \<Rightarrow> 's \<Rightarrow> 's"
    and remove :: "'k \<Rightarrow> 's \<Rightarrow> 's"
    and sweep :: "int \<Rightarrow> 's \<Rightarrow> 's"
  assumes fetch_hit: "inv s \<Longrightarrow> view s k = Some e \<Longrightarrow> now - stamp e \<le> life s \<Longrightarrow>
      fst (fetch now k s) = Some (touch now e) \<and> view (snd (fetch now k s)) = (view s)(k \<mapsto> touch now e)"
    and fetch_miss: "inv s \<Longrightarrow> (\<And>e. view s k = Some e \<Longrightarrow> now - stamp e > life s) \<Longrightarrow>
      fst (fetch now k s) = None \<and> view (snd (fetch now k s)) = view s"
    and view_store: "inv s \<Longrightarrow> view (store now k e s) = (view s)(k \<mapsto> touch now e)"
    and view_remove: "inv s \<Longrightarrow> view (remove k s) = (view s)(k := None)"
    and view_sweep: "inv s \<Longrightarrow> view (sweep now s) k =
      (case view s k of None \<Rightarrow> None | Some e \<Rightarrow> if now - stamp e > life s then None else Some e)"
    and inv_ops: "inv s \<Longrightarrow> inv (snd (fetch now k s))" "inv s \<Longrightarrow> inv (store now k e s)"
      "inv s \<Longrightarrow> inv (remove k s)" "inv s \<Longrightarrow> inv (sweep now s)"
    and life_ops: "life (snd (fetch now k s)) = life s" "life (store now k e s) = life s"
      "life (remove k s) = life s" "life (sweep now s) = life s"
begin

definition agree :: "int \<Rightarrow> 's \<Rightarrow> ('k \<Rightarrow> 'v option) \<Rightarrow> bool" where
  "agree now s m \<longleftrightarrow> inv s \<and>
     (\<forall>k e. now - stamp e \<le> life s \<longrightarrow> (view s k = Some e \<longleftrightarrow> m k = Some e))"

lemma agree_later: "agree now s m \<Longrightarrow> now \<le> now' \<Longrightarrow> agree now' s m"
  by (fastforce simp: agree_def)

lemma agree_fetch_hit:
  assumes "agree now s m" "m k = Some e" "now - stamp e \<le> life s"
  shows "fst (fetch now k s) = Some (touch now e)"
    "agree now (snd (fetch now k s)) (m(k \<mapsto> touch now e))"
proof -
  have v: "view s k = Some e" and i: "inv s" using assms by (auto simp: agree_def)
  show "fst (fetch now k s) = Some (touch now e)" using fetch_hit[OF i v assms(3)] by simp
  show "agree now (snd (fetch now k s)) (m(k \<mapsto> touch now e))"
    using fetch_hit[OF i v assms(3)] inv_ops(1)[OF i] assms(1) by (simp add: agree_def life_ops)
qed

lemma agree_fetch_miss:
  assumes "agree now s m" "\<And>e. m k = Some e \<Longrightarrow> now - stamp e > life s"
  shows "fst (fetch now k s) = None" "agree now (snd (fetch now k s)) m"
proof -
  have i: "inv s" and "\<And>e. view s k = Some e \<Longrightarrow> now - stamp e > life s"
    using assms by (auto simp: agree_def) (meson not_le)
  note f = fetch_miss[OF this]
  show "fst (fetch now k s) = None" using f by simp
  show "agree now (snd (fetch now k s)) m"
    using f inv_ops(1)[OF i] assms(1) by (simp add: agree_def life_ops)
qed

lemma agree_store: "agree now s m \<Longrightarrow> agree now (store now k e s) (m(k \<mapsto> touch now e))"
  by (simp add: agree_def view_store inv_ops life_ops)

lemma agree_remove: "agree now s m \<Longrightarrow> agree now (remove k s) (m(k := None))"
  by (simp add: agree_def view_remove inv_ops life_ops)

lemma agree_sweep:
  assumes "agree now s m"
  shows "agree now (sweep now s) m"
proof -
  have i: "inv s" using assms by (simp add: agree_def)
  have "view (sweep now s) k = Some e \<longleftrightarrow> view s k = Some e" if "now - stamp e \<le> life s" for k e
    using that by (cases "view s k") (auto simp: view_sweep[OF i])
  then show ?thesis using assms by (simp add: agree_def inv_ops life_ops)
qed

end

interpretation acm: expiring_map "\<lambda>c. map_of (ac_cache c)" ce_last_access
  "\<lambda>now e. e\<lparr>ce_last_access := now\<rparr>" "\<lambda>c. nanoseconds (ac_ttl c)" ac_wf cache_get cache_put
  cache_invalidate cleanup_expired_entries
proof (unfold_locales, goal_cases)
  case (1 s k e now)
  then show ?case by (simp add: cache_get_def ac_expired_def map_of_table_update Let_def)
next
  case (2 s k now)
  then show ?case by (auto simp: cache_get_def ac_expired_def split: option.splits)
next
  case (5 s now k)
  then show ?case
    by (simp add: cleanup_expired_entries_def map_of_sweep ac_wf_def ac_expired_def cong: option.case_cong)
qed (auto simp: cache_get_def cache_put_def cache_invalidate_def cleanup_expired_entries_def ac_wf_def
      map_of_table_update map_of_table_erase distinct_table_update distinct_table_erase
      sweep_loop_filter distinct_map_filter Let_def split: option.splits)

lemma agree_timer_field: "acm.agree now (c\<lparr>ac_timer := t\<rparr>) m = acm.agree now c m"
  by (simp add: acm.agree_def ac_wf_def)

lemma agree_timer: "acm.agree now c m \<Longrightarrow> acm.agree now (cleanup_timer_handler ec now now c) m"
  using acm.agree_sweep[of now c m]
  by (simp add: cleanup_timer_handler_def start_cleanup_timer_def agree_timer_field)

lemma cache_step_agree:
  assumes "acm.agree now c m"
  shows "fst (cache_step now op c) = fst (spec_step (nanoseconds (ac_ttl c)) now op m)"
    "acm.agree now (snd (cache_step now op c)) (snd (spec_step (nanoseconds (ac_ttl c)) now op m))"
    "ac_ttl (snd (cache_step now op c)) = ac_ttl c"
proof -
  show "fst (cache_step now op c) = fst (spec_step (nanoseconds (ac_ttl c)) now op m)"
    by (cases op) (auto simp: split_beta Let_def acm.agree_fetch_hit(1)[OF assms]
        intro: acm.agree_fetch_miss(1)[OF assms] split: option.split)
  show "acm.agree now (snd (cache_step now op c)) (snd (spec_step (nanoseconds (ac_ttl c)) now op m))"
    by (cases op) (auto simp: split_beta Let_def intro: acm.agree_fetch_hit(2)[OF assms]
        acm.agree_fetch_miss(2)[OF assms] acm.agree_store[OF assms] acm.agree_remove[OF assms]
        agree_timer[OF assms] split: option.split)
  show "ac_ttl (snd (cache_step now op c)) = ac_ttl c"
    by (cases op) (auto simp: split_beta Let_def cache_get_def cache_put_def cache_invalidate_def
        cleanup_timer_handler_def start_cleanup_timer_def cleanup_expired_entries_def split: option.split)
qed

lemma cache_run_agree:
  assumes "acm.agree now c m" "sorted (now # map fst ops)"
  shows "cache_run ops c = spec_run (nanoseconds (ac_ttl c)) ops m"
  using assms
proof (induction ops arbitrary: now c m)
  case (Cons x ops)
  obtain t op where x: "x = (t, op)" by (cases x)
  have a: "acm.agree t c m" using acm.agree_later[OF Cons.prems(1)] Cons.prems(2) x by simp
  have "cache_run ops (snd (cache_step t op c)) =
      spec_run (nanoseconds (ac_ttl c)) ops (snd (spec_step (nanoseconds (ac_ttl c)) t op m))"
    using Cons.IH[OF cache_step_agree(2)[OF a]] Cons.prems(2) cache_step_agree(3)[OF a] x by simp
  then show ?case using cache_step_agree(1)[OF a, of op] by (simp add: x split_beta Let_def)
qed simp

subsection \<open>Properties\<close>

text \<open>
  C7. The cache is a map with a sliding time to live: along every sequence of lookups, insertions,
  invalidations and timer completions at non-decreasing times, the answers are those of a plain map
  in which an entry is found exactly while its last insertion or successful lookup is at most the
  time to live ago. The sweeps are invisible, and an entry that was not yet swept is never returned
  late.
\<close>

theorem cache_refines_expiring_map:
  assumes "sorted (map fst ops)"
  shows "cache_run ops (AccountCache ttl interval) = spec_run (nanoseconds ttl) ops Map.empty"
proof (cases ops)
  case (Cons x xs)
  have "acm.agree (fst x) (AccountCache ttl interval) Map.empty"
    by (simp add: acm.agree_def AccountCache_def ac_wf_def)
  from cache_run_agree[OF this, of ops] show ?thesis using assms Cons by (simp add: AccountCache_def)
qed simp

theorem cache_refines_expiring_map_witness:
  "sorted (map fst [(0, Put [1] \<lparr>ce_salt = [2], ce_verifier = [3], ce_last_access = 99\<rparr>),
     (nanoseconds 200, Get [1]), (nanoseconds 400, Get [1]), (nanoseconds 701, Timer False),
     (nanoseconds 701, Get [1])]) \<and>
   cache_run [(0, Put [1] \<lparr>ce_salt = [2], ce_verifier = [3], ce_last_access = 99\<rparr>),
     (nanoseconds 200, Get [1]), (nanoseconds 400, Get [1]), (nanoseconds 701, Timer False),
     (nanoseconds 701, Get [1])] (AccountCache default_ttl default_cleanup_interval) =
   [Some \<lparr>ce_salt = [2], ce_verifier = [3], ce_last_access = nanoseconds 200\<rparr>,
    Some \<lparr>ce_salt = [2], ce_verifier = [3], ce_last_access = nanoseconds 400\<rparr>, None]"
  by (subst cache_refines_expiring_map) (simp_all add: nanoseconds_def default_ttl_def)

text \<open>
  A timer completion without error removes exactly the expired entries, keeps every other one
  unchanged, and arms the timer again one interval later; a cancelled wait changes no entry and
  leaves the timer idle.
\<close>

theorem cleanup_exact:
  assumes "ac_wf c"
  shows "ac_wf (cleanup_timer_handler ec now now' c) \<and>
    (map_of (ac_cache (cleanup_timer_handler ec now now' c)) u =
       (case map_of (ac_cache c) u of
          None \<Rightarrow> None
        | Some e \<Rightarrow> if \<not> ec \<and> now - ce_last_access e > nanoseconds (ac_ttl c) then None else Some e)) \<and>
    ac_timer (cleanup_timer_handler ec now now' c) =
      (if ec then None else Some (now' + nanoseconds (ac_cleanup_interval c)))"
  using assms acm.view_sweep[OF assms] acm.inv_ops(4)[OF assms]
  by (auto simp: cleanup_timer_handler_def start_cleanup_timer_def ac_wf_def
      cleanup_expired_entries_def split: option.split)

theorem cleanup_exact_witness:
  "ac_wf (cache_put 0 [7] \<lparr>ce_salt = [], ce_verifier = [], ce_last_access = 0\<rparr> (AccountCache 5 1)) \<and>
   map_of (ac_cache (cleanup_timer_handler False (nanoseconds 6) (nanoseconds 6)
     (cache_put 0 [7] \<lparr>ce_salt = [], ce_verifier = [], ce_last_access = 0\<rparr> (AccountCache 5 1)))) [7] = None"
proof -
  have w: "ac_wf (cache_put 0 [7] \<lparr>ce_salt = [], ce_verifier = [], ce_last_access = 0\<rparr> (AccountCache 5 1))"
    by (simp add: ac_wf_def cache_put_def AccountCache_def)
  show ?thesis
    using w cleanup_exact[OF w, of False "nanoseconds 6" "nanoseconds 6" "[7]"]
    by (simp add: cache_put_def AccountCache_def nanoseconds_def)
qed

end
