(* ===== verification/Database_Pool.thy ===== *)
theory Database_Pool
  imports Purity_Prelude
begin

text \<open>
  \<open>src/common/database/Database.hpp\<close>: the pool of PostgreSQL connections. A connection object is
  identified by the number of its allocation. The pqxx library is not part of the repository: its
  calls are the fields of the record \<open>pqxx\<close> over a state of the outside world, an argument of every
  operation, and nothing is assumed of them. The rows of a result are a type parameter.
\<close>

subsection \<open>Prepared statements\<close>

text \<open>\<open>src/common/database/PreparedStatement.hpp\<close>\<close>

record prepared_statement =
  ps_name :: bytes
  ps_params :: "bytes option list"

definition PreparedStatement :: "bytes \<Rightarrow> prepared_statement" where
  "PreparedStatement name = \<lparr>ps_name = name, ps_params = []\<rparr>"

definition ensure_size :: "nat \<Rightarrow> prepared_statement \<Rightarrow> prepared_statement" where
  "ensure_size index ps =
     (let n = (index + 1) mod size_t_range in
      if index \<ge> length (ps_params ps)
      then ps\<lparr>ps_params := take n (ps_params ps @ replicate (n - length (ps_params ps)) None)\<rparr>
      else ps)"

definition assign_param :: "nat \<Rightarrow> bytes option \<Rightarrow> prepared_statement \<Rightarrow> prepared_statement result" where
  "assign_param index v ps =
     (if index < length (ps_params ps) then Inr (ps\<lparr>ps_params := (ps_params ps)[index := v]\<rparr>)
      else Inl Undefined)"

definition to_string_int :: "int \<Rightarrow> bytes" where
  "to_string_int i = (if i < 0 then 45 # dec_digits (nat (- i)) else dec_digits (nat i))"

definition set_param_int :: "nat \<Rightarrow> int \<Rightarrow> prepared_statement \<Rightarrow> prepared_statement result" where
  "set_param_int index v ps = assign_param index (Some (to_string_int v)) (ensure_size index ps)"

definition set_param :: "nat \<Rightarrow> bytes \<Rightarrow> prepared_statement \<Rightarrow> prepared_statement result" where
  "set_param index v ps = assign_param index (Some v) (ensure_size index ps)"

text \<open>A \<open>const char *\<close> argument ends at its first zero byte.\<close>

definition set_param_cstr :: "nat \<Rightarrow> bytes \<Rightarrow> prepared_statement \<Rightarrow> prepared_statement result" where
  "set_param_cstr index v ps =
     assign_param index (Some (takeWhile (\<lambda>b. b \<noteq> 0) v)) (ensure_size index ps)"

definition set_null :: "nat \<Rightarrow> prepared_statement \<Rightarrow> prepared_statement result" where
  "set_null index ps = assign_param index None (ensure_size index ps)"

definition ps_clear :: "prepared_statement \<Rightarrow> prepared_statement" where
  "ps_clear ps = ps\<lparr>ps_params := []\<rparr>"

definition debug_print :: "prepared_statement \<Rightarrow> bytes" where
  "debug_print ps =
     str ''[PreparedStatement] Name: '' @ ps_name ps @ [10] @
     concat (map (\<lambda>i. str ''  Param['' @ dec_digits i @
         (case ps_params ps ! i of Some v \<Rightarrow> str ''] = '' @ v @ [10] | None \<Rightarrow> str ''] = NULL'' @ [10]))
       [0..<length (ps_params ps)])"

subsection \<open>The library and the pool\<close>

record ('w, 'row) pqxx =
  pq_connect :: "nat \<Rightarrow> bytes \<Rightarrow> ('w, unit) op"
  pq_is_open :: "nat \<Rightarrow> 'w \<Rightarrow> bool"
  pq_disconnect :: "nat \<Rightarrow> 'w \<Rightarrow> 'w"
  pq_destroy :: "nat \<Rightarrow> 'w \<Rightarrow> 'w"
  pq_begin :: "nat \<Rightarrow> ('w, unit) op"
  pq_prepare :: "nat \<Rightarrow> bytes \<Rightarrow> bytes \<Rightarrow> ('w, unit) op"
  pq_exec_prepared :: "nat \<Rightarrow> bytes \<Rightarrow> bytes option list \<Rightarrow> ('w, 'row list) op"
  pq_commit :: "nat \<Rightarrow> ('w, unit) op"

record 'w database =
  db_conninfo :: bytes
  db_connections :: "nat list"
  db_allocated :: nat
  db_world :: 'w

text \<open>A call of the library on the world inside the state of the pool.\<close>

definition outside :: "('w, 'a) op \<Rightarrow> ('w database, 'a) op" where
  "outside m db = (case m (db_world db) of (r, w) \<Rightarrow> (r, db\<lparr>db_world := w\<rparr>))"

definition allocate :: "('w database, nat) op" where
  "allocate db = (Inr (db_allocated db), db\<lparr>db_allocated := Suc (db_allocated db)\<rparr>)"

definition select_sql :: bytes where
  "select_sql = str ''SELECT id, username, salt, verifier, email, created_at FROM accounts WHERE username = $1''"

definition insert_sql :: bytes where
  "insert_sql = str ''INSERT INTO accounts (username, salt, verifier) VALUES ($1, $2, $3) RETURNING id''"

definition prepare_all :: "('w, 'row) pqxx \<Rightarrow> nat \<Rightarrow> ('w, unit) op" where
  "prepare_all pq c =
     sbind (pq_begin pq c) (\<lambda>_.
     sbind (pq_prepare pq c (str ''SELECT_ACCOUNT_BY_USERNAME'') select_sql) (\<lambda>_.
     sbind (pq_prepare pq c (str ''INSERT_ACCOUNT_BY_USERNAME'') insert_sql) (\<lambda>_.
     pq_commit pq c)))"

text \<open>
  \<open>std::make_unique<pqxx::connection>(conninfo_); prepare_all(*conn)\<close>: when preparing throws, the
  connection object is destroyed while the exception leaves the function.
\<close>

definition destroying :: "('w, 'row) pqxx \<Rightarrow> nat \<Rightarrow> ('w database, 'a) op \<Rightarrow> ('w database, 'a) op" where
  "destroying pq c m =
     scatch m (\<lambda>e. sbind (supdate (\<lambda>db. db\<lparr>db_world := pq_destroy pq c (db_world db)\<rparr>)) (\<lambda>_. sthrow e))"

definition reconnect_connection :: "('w, 'row) pqxx \<Rightarrow> ('w database, nat) op" where
  "reconnect_connection pq =
     sbind allocate (\<lambda>c.
     sbind (sget db_conninfo) (\<lambda>info.
     sbind (outside (pq_connect pq c info)) (\<lambda>_.
     sbind (destroying pq c (outside (prepare_all pq c))) (\<lambda>_.
     sreturn c))))"

text \<open>
  The constructor connects \<open>pool_size\<close> times, by the same two calls. When one of them throws, the
  queue built so far is destroyed with its connections.
\<close>

fun connect_loop :: "('w, 'row) pqxx \<Rightarrow> nat \<Rightarrow> ('w database, unit) op" where
  "connect_loop pq 0 = sreturn ()"
| "connect_loop pq (Suc n) =
     sbind (reconnect_connection pq) (\<lambda>c.
     sbind (supdate (\<lambda>db. db\<lparr>db_connections := db_connections db @ [c]\<rparr>)) (\<lambda>_.
     connect_loop pq n))"

definition destroy_queue :: "('w, 'row) pqxx \<Rightarrow> 'w database \<Rightarrow> 'w database" where
  "destroy_queue pq db =
     db\<lparr>db_world := fold (pq_destroy pq) (db_connections db) (db_world db), db_connections := []\<rparr>"

definition Database :: "('w, 'row) pqxx \<Rightarrow> bytes \<Rightarrow> nat \<Rightarrow> 'w \<Rightarrow> unit result \<times> 'w database" where
  "Database pq conninfo pool_size w =
     scatch (connect_loop pq pool_size)
       (\<lambda>e. sbind (supdate (destroy_queue pq)) (\<lambda>_. sthrow e))
       \<lparr>db_conninfo = conninfo, db_connections = [], db_allocated = 0, db_world = w\<rparr>"

fun shutdown_loop :: "('w, 'row) pqxx \<Rightarrow> nat list \<Rightarrow> 'w \<Rightarrow> 'w" where
  "shutdown_loop pq [] w = w"
| "shutdown_loop pq (c # cs) w =
     shutdown_loop pq cs
       (pq_destroy pq c (if pq_is_open pq c w then pq_disconnect pq c w else w))"

definition db_shutdown :: "('w, 'row) pqxx \<Rightarrow> 'w database \<Rightarrow> 'w database" where
  "db_shutdown pq db =
     db\<lparr>db_world := shutdown_loop pq (db_connections db) (db_world db), db_connections := []\<rparr>"

subsection \<open>Taking and returning connections\<close>

text \<open>
  \<open>acquire_connection\<close> once the wait is over: the queue is empty exactly when the wait timed out, and
  the function returns null then. A connection found closed is replaced; the closed object is
  destroyed by the assignment, or by the exception that leaves the function when the replacement
  fails.
\<close>

definition acquire_connection :: "('w, 'row) pqxx \<Rightarrow> ('w database, nat option) op" where
  "acquire_connection pq db =
     (case db_connections db of
        [] \<Rightarrow> (Inr None, db)
      | c # cs \<Rightarrow>
          let db1 = db\<lparr>db_connections := cs\<rparr> in
          if \<not> pq_is_open pq c (db_world db1)
          then destroying pq c
                 (sbind (reconnect_connection pq) (\<lambda>c'.
                  sbind (supdate (\<lambda>db. db\<lparr>db_world := pq_destroy pq c (db_world db)\<rparr>)) (\<lambda>_.
                  sreturn (Some c')))) db1
          else (Inr (Some c), db1))"

definition release_connection :: "nat \<Rightarrow> 'w database \<Rightarrow> 'w database" where
  "release_connection c db = db\<lparr>db_connections := db_connections db @ [c]\<rparr>"

definition acquire_scoped_connection :: "('w, 'row) pqxx \<Rightarrow> ('w database, nat) op" where
  "acquire_scoped_connection pq =
     sbind (acquire_connection pq) (\<lambda>conn.
     case conn of
       None \<Rightarrow> sthrow (runtime_error ''No DB connection available after timeout'')
     | Some c \<Rightarrow> sreturn c)"

text \<open>The destructor of \<open>ScopedConnection\<close> runs whether the body returns or throws.\<close>

definition scoped :: "nat \<Rightarrow> ('w database, 'a) op \<Rightarrow> ('w database, 'a) op" where
  "scoped c m db = (case m db of (Inl Undefined, t) \<Rightarrow> (Inl Undefined, t) | (r, t) \<Rightarrow> (r, release_connection c t))"

text \<open>
  The result type of a query: \<open>NothingRow\<close> is returned without looking at the rows, any other
  structure is mapped from the first row.
\<close>

record ('row, 'a) row_struct =
  rs_nothing :: "'a option"
  rs_map :: "'row \<Rightarrow> 'a result"

definition run_query :: "('w, 'row) pqxx \<Rightarrow> ('row, 'a) row_struct \<Rightarrow> prepared_statement \<Rightarrow> nat \<Rightarrow>
    ('w database, 'a option) op" where
  "run_query pq rs stmt c =
     sbind (outside (pq_begin pq c)) (\<lambda>_.
     sbind (outside (pq_exec_prepared pq c (ps_name stmt) (ps_params stmt))) (\<lambda>result.
     sbind (outside (pq_commit pq c)) (\<lambda>_.
     case rs_nothing rs of
       Some s \<Rightarrow> sreturn (Some s)
     | None \<Rightarrow>
         (case result of
            [] \<Rightarrow> sreturn None
          | row # _ \<Rightarrow> sbind (slift (rs_map rs row)) (\<lambda>x. sreturn (Some x))))))"

text \<open>
  The handler for a broken connection opens a new connection and drops it: it is destroyed when the
  handler rethrows.
\<close>

definition on_broken :: "('w, 'row) pqxx \<Rightarrow> ('w database, 'a) op" where
  "on_broken pq =
     sbind (reconnect_connection pq) (\<lambda>c.
     sbind (supdate (\<lambda>db. db\<lparr>db_world := pq_destroy pq c (db_world db)\<rparr>)) (\<lambda>_.
     sthrow broken_connection))"

definition execute_sync :: "('w, 'row) pqxx \<Rightarrow> ('row, 'a) row_struct \<Rightarrow> prepared_statement \<Rightarrow>
    ('w database, 'a option) op" where
  "execute_sync pq rs stmt =
     sbind (acquire_scoped_connection pq) (\<lambda>c.
     scoped c (scatch (run_query pq rs stmt c)
       (\<lambda>e. if e = broken_connection then on_broken pq else sthrow e)))"

subsection \<open>What the operations leave alone\<close>

lemma outside_frame:
  assumes "outside m db = (r, db')"
  shows "db_connections db' = db_connections db" "db_allocated db' = db_allocated db"
    "db_conninfo db' = db_conninfo db"
  using assms by (auto simp: outside_def split: prod.splits)

text \<open>An operation that only talks to the outside and allocates.\<close>

definition quiet :: "('w database, 'a) op \<Rightarrow> bool" where
  "quiet m \<longleftrightarrow> (\<forall>db r db'. m db = (r, db') \<longrightarrow>
     db_connections db' = db_connections db \<and> db_allocated db \<le> db_allocated db' \<and>
     db_conninfo db' = db_conninfo db)"

lemma quietD:
  "quiet m \<Longrightarrow> m db = (r, db') \<Longrightarrow>
     db_connections db' = db_connections db \<and> db_allocated db \<le> db_allocated db' \<and>
     db_conninfo db' = db_conninfo db"
  by (simp add: quiet_def)

lemma quiet_basic:
  "quiet (outside m)" "quiet allocate" "quiet (sreturn x)" "quiet (sthrow e)" "quiet (slift q)"
  "quiet (sget f)" "quiet (supdate (\<lambda>db. db\<lparr>db_world := g (db_world db)\<rparr>))"
  by (auto simp: quiet_def outside_def allocate_def op_defs split: prod.splits)

lemma quiet_sbind:
  assumes "quiet m" "\<And>x. quiet (f x)"
  shows "quiet (sbind m f)"
proof -
  have "db_connections db' = db_connections db \<and> db_allocated db \<le> db_allocated db' \<and>
      db_conninfo db' = db_conninfo db" if r: "sbind m f db = (r, db')" for db r db'
  proof -
    from r consider e where "m db = (Inl e, db')" | x u where "m db = (Inr x, u)" "f x u = (r, db')"
      by (auto simp: sbind_eq)
    then show ?thesis
      using quietD[OF assms(1)] quietD[OF assms(2)] by cases (fastforce dest: order_trans)+
  qed
  then show ?thesis by (simp add: quiet_def)
qed

lemma quiet_scatch:
  assumes "quiet m" "\<And>e. quiet (h e)"
  shows "quiet (scatch m h)"
proof -
  have "db_connections db' = db_connections db \<and> db_allocated db \<le> db_allocated db' \<and>
      db_conninfo db' = db_conninfo db" if r: "scatch m h db = (r, db')" for db r db'
  proof -
    obtain q u where u: "m db = (q, u)" by (cases "m db")
    from r u consider "u = db'" | e where "h e u = (r, db')"
      by (auto simp: scatch_def split: sum.splits fault.splits)
    then show ?thesis
      using quietD[OF assms(1) u] quietD[OF assms(2)] by cases (fastforce dest: order_trans)+
  qed
  then show ?thesis by (simp add: quiet_def)
qed

lemma quiet_destroying: "quiet m \<Longrightarrow> quiet (destroying pq c m)"
  by (simp add: destroying_def quiet_scatch quiet_sbind quiet_basic)

lemma quiet_reconnect: "quiet (reconnect_connection pq)"
  by (simp add: reconnect_connection_def quiet_sbind quiet_basic quiet_destroying)

lemma quiet_run_query: "quiet (run_query pq rs stmt c)"
  unfolding run_query_def
  by (intro quiet_sbind quiet_basic) (simp split: option.split list.split add: quiet_sbind quiet_basic)

lemma quiet_on_broken: "quiet (on_broken pq)"
  by (simp add: on_broken_def quiet_sbind quiet_basic quiet_reconnect)

definition query_body :: "('w, 'row) pqxx \<Rightarrow> ('row, 'a) row_struct \<Rightarrow> prepared_statement \<Rightarrow> nat \<Rightarrow>
    ('w database, 'a option) op" where
  "query_body pq rs stmt c = scatch (run_query pq rs stmt c)
     (\<lambda>e. if e = broken_connection then on_broken pq else sthrow e)"

lemma quiet_query_body: "quiet (query_body pq rs stmt c)"
  by (simp add: query_body_def quiet_scatch quiet_run_query quiet_on_broken quiet_basic)

lemma reconnect_fresh:
  assumes "reconnect_connection pq db = (Inr c, db')"
  shows "c = db_allocated db \<and> c < db_allocated db'"
proof -
  have s: "allocate db = (Inr (db_allocated db), db\<lparr>db_allocated := Suc (db_allocated db)\<rparr>)"
    by (simp add: allocate_def)
  let ?m = "\<lambda>c. sbind (sget db_conninfo) (\<lambda>info. sbind (outside (pq_connect pq c info)) (\<lambda>_.
     sbind (destroying pq c (outside (prepare_all pq c))) (\<lambda>_. sreturn c)))"
  have q: "quiet (?m c)" for c by (simp add: quiet_sbind quiet_basic quiet_destroying)
  have r: "?m (db_allocated db) (db\<lparr>db_allocated := Suc (db_allocated db)\<rparr>) = (Inr c, db')"
    using assms by (simp add: reconnect_connection_def sbind_def[of allocate] s)
  then have "c = db_allocated db" by (auto simp: outcome_simps sreturn_def)
  with quietD[OF q r] show ?thesis by simp
qed

lemma acquire_cases:
  assumes "acquire_connection pq db = (r, db')"
  obtains (timeout) "db_connections db = []" "r = Inr None" "db' = db"
  | (front) c cs where "db_connections db = c # cs" "pq_is_open pq c (db_world db)"
      "r = Inr (Some c)" "db' = db\<lparr>db_connections := cs\<rparr>"
  | (replaced) c cs d where "db_connections db = c # cs" "\<not> pq_is_open pq c (db_world db)"
      "r = Inr (Some d)" "db_connections db' = cs" "d = db_allocated db" "d < db_allocated db'"
      "db_conninfo db' = db_conninfo db"
  | (failed) c cs e where "db_connections db = c # cs" "\<not> pq_is_open pq c (db_world db)"
      "r = Inl e" "db_connections db' = cs" "db_allocated db \<le> db_allocated db'"
      "db_conninfo db' = db_conninfo db"
proof (cases "db_connections db")
  case Nil
  then show thesis using timeout assms by (simp add: acquire_connection_def)
next
  case (Cons c cs)
  show thesis
  proof (cases "pq_is_open pq c (db_world db)")
    case True
    then show thesis using front assms Cons by (simp add: acquire_connection_def)
  next
    case False
    let ?m = "sbind (reconnect_connection pq) (\<lambda>c'.
      sbind (supdate (\<lambda>db. db\<lparr>db_world := pq_destroy pq c (db_world db)\<rparr>)) (\<lambda>_. sreturn (Some c')))"
    have q: "quiet (destroying pq c ?m)" by (simp add: quiet_destroying quiet_sbind quiet_reconnect quiet_basic)
    have e: "destroying pq c ?m (db\<lparr>db_connections := cs\<rparr>) = (r, db')"
      using assms Cons False by (simp add: acquire_connection_def)
    note f = quietD[OF q e]
    show thesis
    proof (cases r)
      case (Inl x)
      then show thesis using failed[OF Cons False] f by simp
    next
      case (Inr x)
      have "?m (db\<lparr>db_connections := cs\<rparr>) = (Inr x, db')"
        using e Inr unfolding destroying_def
        by (auto simp: scatch_def sthrow_def sbind_def supdate_def split: prod.splits sum.splits fault.splits)
      then obtain d u where d: "reconnect_connection pq (db\<lparr>db_connections := cs\<rparr>) = (Inr d, u)"
        "x = Some d" "db' = u\<lparr>db_world := pq_destroy pq c (db_world u)\<rparr>"
        by (auto simp: sbind_eq supdate_def sreturn_def)
      show thesis using replaced[OF Cons False] f d reconnect_fresh[OF d(1)] Inr by simp
    qed
  qed
qed


lemma acquire_scoped_cases:
  assumes "acquire_scoped_connection pq db = (r, db')"
  obtains (timeout) "db_connections db = []" "db' = db"
      "r = Inl (Thrown (runtime_error ''No DB connection available after timeout''))"
  | (front) c cs where "db_connections db = c # cs" "pq_is_open pq c (db_world db)"
      "r = Inr c" "db' = db\<lparr>db_connections := cs\<rparr>"
  | (replaced) c cs d where "db_connections db = c # cs" "\<not> pq_is_open pq c (db_world db)"
      "r = Inr d" "db_connections db' = cs" "d = db_allocated db" "d < db_allocated db'"
  | (failed) c cs e where "db_connections db = c # cs" "\<not> pq_is_open pq c (db_world db)"
      "r = Inl e" "db_connections db' = cs" "db_allocated db \<le> db_allocated db'"
proof -
  obtain q u where a: "acquire_connection pq db = (q, u)" by (cases "acquire_connection pq db")
  from a show thesis
  proof (cases rule: acquire_cases)
    case timeout
    then show thesis using that(1) assms a
      by (simp add: acquire_scoped_connection_def sbind_def sthrow_def)
  next
    case front
    then show thesis using that(2) assms a
      by (simp add: acquire_scoped_connection_def sbind_def sreturn_def)
  next
    case replaced
    then show thesis using that(3) assms a
      by (simp add: acquire_scoped_connection_def sbind_def sreturn_def)
  next
    case (failed c cs e)
    then show thesis using that(4)[OF failed(1,2), of e] assms a
      by (simp add: acquire_scoped_connection_def sbind_def)
  qed
qed

lemma acquire_front:
  "db_connections db = c # cs \<Longrightarrow> pq_is_open pq c (db_world db) \<Longrightarrow>
     acquire_scoped_connection pq db = (Inr c, db\<lparr>db_connections := cs\<rparr>)"
  by (simp add: acquire_scoped_connection_def acquire_connection_def sbind_def sreturn_def Let_def)

lemma acquire_empty:
  "db_connections db = [] \<Longrightarrow> acquire_scoped_connection pq db =
     (Inl (Thrown (runtime_error ''No DB connection available after timeout'')), db)"
  by (simp add: acquire_scoped_connection_def acquire_connection_def sbind_def sthrow_def)

lemma execute_sync_alt:
  "execute_sync pq rs stmt = sbind (acquire_scoped_connection pq) (\<lambda>c. scoped c (query_body pq rs stmt c))"
  by (simp add: execute_sync_def query_body_def)

lemma scoped_connections:
  assumes "scoped c (query_body pq rs stmt c) db = (r, db')" "r \<noteq> Inl Undefined"
  shows "db_connections db' = db_connections db @ [c]"
proof -
  obtain q u where q: "query_body pq rs stmt c db = (q, u)" by (cases "query_body pq rs stmt c db")
  show ?thesis
    using assms q quietD[OF quiet_query_body q]
    by (auto simp: scoped_def release_connection_def split: sum.splits fault.splits)
qed

text \<open>When no call of the library has undefined behaviour, nor has a query.\<close>

definition pqxx_defined :: "('w, 'row) pqxx \<Rightarrow> bool" where
  "pqxx_defined pq \<longleftrightarrow>
     (\<forall>c info. defined (pq_connect pq c info)) \<and> (\<forall>c. defined (pq_begin pq c)) \<and>
     (\<forall>c nm sql. defined (pq_prepare pq c nm sql)) \<and> (\<forall>c nm ps. defined (pq_exec_prepared pq c nm ps)) \<and>
     (\<forall>c. defined (pq_commit pq c))"

lemma defined_outside: "defined m \<Longrightarrow> defined (outside m)"
  by (auto simp: defined_def outside_def split: prod.split) (metis fst_conv)

lemma defined_allocate: "defined allocate"
  by (simp add: defined_def allocate_def)

lemma defined_destroying: "defined m \<Longrightarrow> defined (destroying pq c m)"
  by (simp add: destroying_def defined_rules)

lemma defined_reconnect: "pqxx_defined pq \<Longrightarrow> defined (reconnect_connection pq)"
  unfolding reconnect_connection_def prepare_all_def
  by (intro defined_rules defined_allocate defined_outside defined_destroying) (simp_all add: pqxx_defined_def)

lemma defined_acquire: "pqxx_defined pq \<Longrightarrow> defined (acquire_scoped_connection pq)"
proof -
  assume pq: "pqxx_defined pq"
  have "fst (destroying pq c (sbind (reconnect_connection pq) (\<lambda>c'.
      sbind (supdate (\<lambda>db. db\<lparr>db_world := pq_destroy pq c (db_world db)\<rparr>)) (\<lambda>_. sreturn (Some c')))) db) \<noteq>
      Inl Undefined" for c db
    using defined_destroying[of "sbind (reconnect_connection pq) (\<lambda>c'.
      sbind (supdate (\<lambda>db. db\<lparr>db_world := pq_destroy pq c (db_world db)\<rparr>)) (\<lambda>_. sreturn (Some c')))" pq c]
      defined_reconnect[OF pq] by (simp add: defined_rules defined_def[of "destroying _ _ _"])
  then have "defined (acquire_connection pq)"
    by (simp add: defined_def acquire_connection_def Let_def split: list.split)
  then show ?thesis
    unfolding acquire_scoped_connection_def by (intro defined_rules) (auto split: option.split intro: defined_rules)
qed

lemma defined_execute_sync:
  assumes "pqxx_defined pq" "\<And>row. rs_map rs row \<noteq> Inl Undefined"
  shows "defined (execute_sync pq rs stmt)"
proof -
  have "defined (run_query pq rs stmt c)" for c
    using assms unfolding run_query_def
    by (intro defined_rules defined_outside)
       (auto simp: pqxx_defined_def split: option.split list.split intro!: defined_rules defined_slift)
  moreover have "defined (on_broken pq :: ('a database, 'c option) op)"
    using defined_reconnect[OF assms(1)] by (simp add: on_broken_def defined_rules)
  ultimately have "defined (query_body pq rs stmt c)" for c
    by (simp add: query_body_def defined_rules)
  then have "defined (scoped c (query_body pq rs stmt c))" for c
    by (auto simp: defined_def scoped_def split: prod.split sum.split fault.split) (metis fst_conv)
  then show ?thesis using defined_acquire[OF assms(1)] by (simp add: execute_sync_alt defined_rules)
qed

subsection \<open>Threads\<close>

text \<open>
  Several threads share the pool. A thread takes a connection (both critical sections of the source
  run under the mutex), runs its query on it and releases it; a failed attempt to take one may lose
  the connection it had popped. \<open>sys_held\<close> lists the threads inside \<open>execute_sync\<close> with their
  connection.
\<close>

record 'w pool_sys =
  sys_db :: "'w database"
  sys_held :: "(nat \<times> nat) list"
  sys_lost :: nat

inductive pool_step ::
  "('w, 'row) pqxx \<Rightarrow> ('row, 'a) row_struct \<Rightarrow> 'w pool_sys \<Rightarrow> 'w pool_sys \<Rightarrow> bool"
  for pq rs where
  take: "t \<notin> fst ` set (sys_held s) \<Longrightarrow> acquire_scoped_connection pq (sys_db s) = (Inr c, db') \<Longrightarrow>
     pool_step pq rs s (s\<lparr>sys_db := db', sys_held := (t, c) # sys_held s\<rparr>)"
| fail: "acquire_scoped_connection pq (sys_db s) = (Inl e, db') \<Longrightarrow>
     pool_step pq rs s
       (s\<lparr>sys_db := db', sys_lost := sys_lost s + (length (db_connections (sys_db s)) - length (db_connections db'))\<rparr>)"
| work: "(t, c) \<in> set (sys_held s) \<Longrightarrow> query_body pq rs stmt c (sys_db s) = (r, db') \<Longrightarrow>
     pool_step pq rs s (s\<lparr>sys_db := db'\<rparr>)"
| release: "(t, c) \<in> set (sys_held s) \<Longrightarrow>
     pool_step pq rs s (s\<lparr>sys_db := release_connection c (sys_db s), sys_held := remove1 (t, c) (sys_held s)\<rparr>)"

inductive pool_reach ::
  "('w, 'row) pqxx \<Rightarrow> ('row, 'a) row_struct \<Rightarrow> 'w pool_sys \<Rightarrow> 'w pool_sys \<Rightarrow> bool"
  for pq rs s where
  start: "pool_reach pq rs s s"
| step: "pool_reach pq rs s s' \<Longrightarrow> pool_step pq rs s' s'' \<Longrightarrow> pool_reach pq rs s s''"

definition pool_inv :: "nat \<Rightarrow> 'w pool_sys \<Rightarrow> bool" where
  "pool_inv n s \<longleftrightarrow>
     distinct (db_connections (sys_db s) @ map snd (sys_held s)) \<and> distinct (map fst (sys_held s)) \<and>
     (\<forall>c \<in> set (db_connections (sys_db s)) \<union> snd ` set (sys_held s). c < db_allocated (sys_db s)) \<and>
     length (db_connections (sys_db s)) + length (sys_held s) + sys_lost s = n"

lemma pool_invD:
  assumes "pool_inv n s" "db_connections (sys_db s) = c # cs"
  shows "distinct (cs @ map snd (sys_held s))" "c \<notin> set cs \<union> snd ` set (sys_held s)"
    "distinct (map fst (sys_held s))" "\<forall>x \<in> set cs \<union> snd ` set (sys_held s). x < db_allocated (sys_db s)"
    "Suc (length cs) + length (sys_held s) + sys_lost s = n" "c < db_allocated (sys_db s)"
  using assms by (simp_all add: pool_inv_def)

lemma pool_inv_take:
  assumes inv: "pool_inv n s" and t: "t \<notin> fst ` set (sys_held s)"
    and a: "acquire_scoped_connection pq (sys_db s) = (Inr d, db')"
  shows "pool_inv n (s\<lparr>sys_db := db', sys_held := (t, d) # sys_held s\<rparr>)"
  using a
proof (cases rule: acquire_scoped_cases)
  case (front c cs)
  then show ?thesis using pool_invD[OF inv front(1)] t by (simp add: pool_inv_def)
next
  case (replaced c cs d')
  note p = pool_invD[OF inv replaced(1)]
  have d: "d = db_allocated (sys_db s)" using replaced(3,5) by simp
  have n: "d \<notin> set cs \<union> snd ` set (sys_held s)" using bspec[OF p(4), of d] d by fastforce
  have "db_allocated (sys_db s) < db_allocated db'" using replaced(5,6) by simp
  then have "\<forall>x \<in> set cs \<union> snd ` set (sys_held s). x < db_allocated db'"
    using order.strict_trans[OF bspec[OF p(4)]] by blast
  then show ?thesis using p(1,3,5) n t replaced(3,4,6) by (simp add: pool_inv_def)
qed simp_all

lemma pool_inv_fail:
  assumes inv: "pool_inv n s" and a: "acquire_scoped_connection pq (sys_db s) = (Inl e, db')"
  shows "pool_inv n (s\<lparr>sys_db := db',
    sys_lost := sys_lost s + (length (db_connections (sys_db s)) - length (db_connections db'))\<rparr>)"
  using a
proof (cases rule: acquire_scoped_cases)
  case timeout
  then show ?thesis using inv by (simp add: pool_inv_def)
next
  case (failed c cs e')
  note p = pool_invD[OF inv failed(1)]
  have "\<forall>x \<in> set cs \<union> snd ` set (sys_held s). x < db_allocated db'"
    using order.strict_trans2[OF bspec[OF p(4)] failed(5)] by blast
  then show ?thesis using p(1,3,5) failed(1,4) by (simp add: pool_inv_def)
qed simp_all

lemma pool_inv_work:
  assumes "pool_inv n s" "query_body pq rs stmt c (sys_db s) = (r, db')"
  shows "pool_inv n (s\<lparr>sys_db := db'\<rparr>)"
  using assms(1) quietD[OF quiet_query_body assms(2)] by (auto simp: pool_inv_def dest: less_le_trans)

lemma pool_inv_release:
  assumes "pool_inv n s" "(t, c) \<in> set (sys_held s)"
  shows "pool_inv n (s\<lparr>sys_db := release_connection c (sys_db s), sys_held := remove1 (t, c) (sys_held s)\<rparr>)"
proof -
  obtain xs ys where h: "sys_held s = xs @ (t, c) # ys" "(t, c) \<notin> set xs"
    using split_list_first[OF assms(2)] by blast
  then have "remove1 (t, c) (sys_held s) = xs @ ys" by (simp add: remove1_append)
  then show ?thesis using assms(1) h by (auto simp: pool_inv_def release_connection_def)
qed

lemma pool_step_inv: "pool_step pq rs s s' \<Longrightarrow> pool_inv n s \<Longrightarrow> pool_inv n s'"
  by (induction rule: pool_step.induct)
     (simp_all add: pool_inv_take pool_inv_fail pool_inv_work pool_inv_release)

lemma pool_reach_inv: "pool_reach pq rs s s' \<Longrightarrow> pool_inv n s \<Longrightarrow> pool_inv n s'"
  by (induction rule: pool_reach.induct) (auto intro: pool_step_inv)

subsection \<open>Construction\<close>

lemma connect_loop_inv:
  assumes "connect_loop pq n db = (Inr (), db')" "distinct (db_connections db)"
    "\<forall>c \<in> set (db_connections db). c < db_allocated db"
  shows "distinct (db_connections db') \<and> (\<forall>c \<in> set (db_connections db'). c < db_allocated db') \<and>
    length (db_connections db') = length (db_connections db) + n"
  using assms
proof (induction n arbitrary: db)
  case 0
  then show ?case by (simp add: sreturn_def)
next
  case (Suc n)
  then obtain c u where c: "reconnect_connection pq db = (Inr c, u)"
    "connect_loop pq n (u\<lparr>db_connections := db_connections u @ [c]\<rparr>) = (Inr (), db')"
    by (auto simp: sbind_eq supdate_def)
  note f = reconnect_fresh[OF c(1)] and q = quietD[OF quiet_reconnect c(1)]
  have "c \<notin> set (db_connections db)" using bspec[OF Suc.prems(3), of c] f by fastforce
  moreover have "\<forall>x \<in> set (db_connections db). x < db_allocated u"
    using order.strict_trans2[OF bspec[OF Suc.prems(3)]] q by blast
  ultimately show ?case using Suc.IH[OF c(2)] Suc.prems(2) f q by simp
qed

lemma Database_inv:
  assumes "Database pq conninfo n w = (Inr (), db)"
  shows "pool_inv n \<lparr>sys_db = db, sys_held = [], sys_lost = 0\<rparr>"
proof -
  have "connect_loop pq n \<lparr>db_conninfo = conninfo, db_connections = [], db_allocated = 0, db_world = w\<rparr> =
      (Inr (), db)"
    using assms unfolding Database_def
    by (auto simp: scatch_def sthrow_def sbind_def supdate_def split: prod.splits sum.splits fault.splits)
  from connect_loop_inv[OF this] show ?thesis by (simp add: pool_inv_def)
qed

subsection \<open>The contract of a pool\<close>

text \<open>
  What the users of a pool rely on: taking removes the first idle resource or fails, giving back
  appends. A user that gives back what it took leaves the number of idle resources as it was.
\<close>

locale resource_pool =
  fixes idle :: "'s \<Rightarrow> 'c list"
    and acquire :: "('s, 'c) op"
    and give :: "'c \<Rightarrow> 's \<Rightarrow> 's"
  assumes acquire_ok: "acquire s = (Inr c, t) \<Longrightarrow> \<exists>d. idle s = d # idle t"
    and acquire_fail: "acquire s = (Inl e, t) \<Longrightarrow> idle s = [] \<and> idle t = [] \<or> (\<exists>d. idle s = d # idle t)"
    and give_back: "idle (give c s) = idle s @ [c]"
begin

lemma borrowed: "acquire s = (Inr c, t) \<Longrightarrow> idle u = idle t \<Longrightarrow> length (idle (give c u)) = length (idle s)"
  using acquire_ok give_back by fastforce

lemma never_grows: "acquire s = (r, t) \<Longrightarrow> length (idle t) \<le> length (idle s)"
  using acquire_ok acquire_fail by (cases r) fastforce+

end

interpretation dbp: resource_pool db_connections "acquire_scoped_connection pq" release_connection for pq
proof
  show "\<exists>d. db_connections s = d # db_connections t" if "acquire_scoped_connection pq s = (Inr c, t)" for s c t
    using that by (cases rule: acquire_scoped_cases) auto
  show "db_connections s = [] \<and> db_connections t = [] \<or> (\<exists>d. db_connections s = d # db_connections t)"
    if "acquire_scoped_connection pq s = (Inl e, t)" for s e t
    using that by (cases rule: acquire_scoped_cases) auto
qed (simp add: release_connection_def)

lemma execute_sync_cases:
  assumes "execute_sync pq rs stmt db = (r, db')" "r \<noteq> Inl Undefined"
  obtains (no_connection) e where "acquire_scoped_connection pq db = (Inl e, db')" "r = Inl e"
  | (ran) c u where "acquire_scoped_connection pq db = (Inr c, u)"
      "db_connections db' = db_connections u @ [c]"
proof -
  from assms(1) consider e where "acquire_scoped_connection pq db = (Inl e, db')" "r = Inl e"
    | c u where "acquire_scoped_connection pq db = (Inr c, u)" "scoped c (query_body pq rs stmt c) u = (r, db')"
    by (auto simp: execute_sync_alt sbind_eq)
  then show thesis using that scoped_connections[OF _ assms(2)] by cases blast+
qed

lemma execute_sync_count:
  assumes "execute_sync pq rs stmt db = (r, db')" "r \<noteq> Inl Undefined"
  shows "length (db_connections db') \<le> length (db_connections db)"
  using assms
proof (cases rule: execute_sync_cases)
  case (no_connection e)
  then show ?thesis by (simp add: dbp.never_grows)
next
  case (ran c u)
  then show ?thesis using dbp.borrowed[OF ran(1), of u] by (simp add: dbp.give_back)
qed

text \<open>A query that runs without an exception.\<close>

lemma execute_sync_ok:
  assumes "db_connections db = c # cs" "pq_is_open pq c (db_world db)"
    "pq_begin pq c (db_world db) = (Inr (), w1)"
    "pq_exec_prepared pq c (ps_name stmt) (ps_params stmt) w1 = (Inr rows, w2)"
    "pq_commit pq c w2 = (Inr (), w3)" "rs_nothing rs = None"
  shows "rows = [] \<Longrightarrow> execute_sync pq rs stmt db =
      (Inr None, db\<lparr>db_connections := cs @ [c], db_world := w3\<rparr>)"
    "rows = row # rest \<Longrightarrow> rs_map rs row = Inr x \<Longrightarrow> execute_sync pq rs stmt db =
      (Inr (Some x), db\<lparr>db_connections := cs @ [c], db_world := w3\<rparr>)"
  using assms(3-6) acquire_front[OF assms(1,2)]
  by (simp_all add: execute_sync_def sbind_def scoped_def scatch_def run_query_def outside_def
      sreturn_def slift_def release_connection_def)

subsection \<open>Properties\<close>

text \<open>
  C6. Exclusive use of connections: from a successfully constructed pool of \<open>n\<close> connections, in every
  interleaving of threads that take, use and release connections, with any behaviour of the
  database, no connection is held by two threads or both held and idle, and the idle, held and lost
  connections add up to \<open>n\<close>.
\<close>

theorem pool_exclusive:
  assumes "Database pq conninfo n w = (Inr (), db)"
    and "pool_reach pq rs \<lparr>sys_db = db, sys_held = [], sys_lost = 0\<rparr> s"
  shows "distinct (db_connections (sys_db s) @ map snd (sys_held s)) \<and>
    length (db_connections (sys_db s)) + length (sys_held s) + sys_lost s = n"
  using pool_reach_inv[OF assms(2) Database_inv[OF assms(1)]] by (simp add: pool_inv_def)

text \<open>A database that is always there, for the witnesses; its world counts the calls.\<close>

definition sample_pqxx :: "(nat, bytes) pqxx" where
  "sample_pqxx =
     \<lparr>pq_connect = (\<lambda>c info w. (Inr (), Suc w)), pq_is_open = (\<lambda>c w. True), pq_disconnect = (\<lambda>c w. w),
      pq_destroy = (\<lambda>c w. w), pq_begin = (\<lambda>c w. (Inr (), w)), pq_prepare = (\<lambda>c nm sql w. (Inr (), w)),
      pq_exec_prepared = (\<lambda>c nm ps w. (Inr [str ''row''], w)), pq_commit = (\<lambda>c w. (Inr (), w))\<rparr>"

definition text_struct :: "(bytes, bytes) row_struct" where
  "text_struct = \<lparr>rs_nothing = None, rs_map = Inr\<rparr>"

lemma sample_pqxx_sel:
  "pq_connect sample_pqxx c info w = (Inr (), Suc w)" "pq_is_open sample_pqxx c w"
  "pq_destroy sample_pqxx c w = w" "pq_begin sample_pqxx c w = (Inr (), w)"
  "pq_prepare sample_pqxx c nm sql w = (Inr (), w)"
  "pq_exec_prepared sample_pqxx c nm ps w = (Inr [str ''row''], w)" "pq_commit sample_pqxx c w = (Inr (), w)"
  by (simp_all add: sample_pqxx_def)

lemma sample_database:
  "Database sample_pqxx [] 2 0 =
     (Inr (), \<lparr>db_conninfo = [], db_connections = [0, 1], db_allocated = 2, db_world = 2\<rparr>)"
  by (simp add: Database_def numeral_2_eq_2 scatch_def sbind_def reconnect_connection_def allocate_def sget_def
      outside_def destroying_def prepare_all_def supdate_def sreturn_def sample_pqxx_sel)

theorem pool_exclusive_witness:
  "\<exists>s. pool_reach sample_pqxx text_struct
     \<lparr>sys_db = snd (Database sample_pqxx [] 2 0), sys_held = [], sys_lost = 0\<rparr> s \<and>
   sys_held s = [(7, 0)] \<and> distinct (db_connections (sys_db s) @ map snd (sys_held s)) \<and>
   length (db_connections (sys_db s)) + length (sys_held s) + sys_lost s = 2"
proof -
  let ?db = "snd (Database sample_pqxx [] 2 0)"
  let ?s0 = "\<lparr>sys_db = ?db, sys_held = [], sys_lost = 0\<rparr> :: nat pool_sys"
  let ?s1 = "?s0\<lparr>sys_db := ?db\<lparr>db_connections := [1]\<rparr>, sys_held := [(7, 0)]\<rparr>"
  have "acquire_scoped_connection sample_pqxx ?db = (Inr 0, ?db\<lparr>db_connections := [1]\<rparr>)"
    by (rule acquire_front) (simp_all add: sample_database sample_pqxx_sel)
  then have "pool_step sample_pqxx text_struct ?s0 ?s1"
    using pool_step.take[of 7 ?s0] by simp
  then have r: "pool_reach sample_pqxx text_struct ?s0 ?s1"
    using pool_reach.start pool_reach.step by blast
  have "Database sample_pqxx [] 2 0 = (Inr (), ?db)" by (simp add: sample_database)
  from pool_exclusive[OF this r] r show ?thesis by (intro exI[of _ ?s1]) simp
qed

text \<open>A new connection: the two library calls that make it, the same on every path.\<close>

definition open_connection :: "('w, 'row) pqxx \<Rightarrow> 'w database \<Rightarrow> unit result" where
  "open_connection pq db =
     fst (sbind (pq_connect pq (db_allocated db) (db_conninfo db)) (\<lambda>_. prepare_all pq (db_allocated db)) (db_world db))"

lemma destroying_result: "fst (destroying pq c m db) = fst (m db)"
  by (cases "m db") (auto simp: destroying_def scatch_def sthrow_def supdate_def sbind_def split: sum.split fault.split)

lemma reopen_result:
  "fst (reconnect_connection pq db) = (case open_connection pq db of Inl f \<Rightarrow> Inl f | Inr _ \<Rightarrow> Inr (db_allocated db))"
proof -
  obtain q w where q: "pq_connect pq (db_allocated db) (db_conninfo db) (db_world db) = (q, w)"
    by (cases "pq_connect pq (db_allocated db) (db_conninfo db) (db_world db)")
  obtain q' w' where q': "prepare_all pq (db_allocated db) w = (q', w')" by (cases "prepare_all pq (db_allocated db) w")
  show ?thesis
    using q q'
    by (cases q; cases q')
       (auto simp: reconnect_connection_def open_connection_def allocate_def sget_def outside_def sbind_def destroying_def
         scatch_def sthrow_def supdate_def sreturn_def split: fault.split)
qed

lemma acquire_closed_result:
  assumes "db_connections db = c # cs" "\<not> pq_is_open pq c (db_world db)"
  shows "fst (acquire_scoped_connection pq db) = (case open_connection pq db of Inl f \<Rightarrow> Inl f | Inr _ \<Rightarrow> Inr (db_allocated db))"
proof -
  let ?db = "db\<lparr>db_connections := cs\<rparr>"
  obtain q u where q: "reconnect_connection pq ?db = (q, u)" by (cases "reconnect_connection pq ?db")
  have same: "open_connection pq ?db = open_connection pq db" "db_allocated ?db = db_allocated db"
    by (simp_all add: open_connection_def)
  have r: "q = (case open_connection pq db of Inl f \<Rightarrow> Inl f | Inr _ \<Rightarrow> Inr (db_allocated db))"
    using reopen_result[of pq ?db] q unfolding same by simp
  have "fst (acquire_connection pq db) = (case open_connection pq db of Inl f \<Rightarrow> Inl f | Inr _ \<Rightarrow> Inr (Some (db_allocated db)))"
    using assms q r
    by (simp add: acquire_connection_def destroying_result Let_def sbind_def supdate_def sreturn_def split: sum.split)
  then show ?thesis
    by (cases "acquire_connection pq db")
       (auto simp: acquire_scoped_connection_def sbind_def sreturn_def split: sum.splits)
qed

text \<open>
  C30. The pool after a query, on every path. With no idle connection the query throws and nothing
  changes. With an open connection in front, it moves to the back of the queue whatever the query
  does: returns, throws, or finds the connection broken, in which case the broken connection is the
  one that is put back. With a closed connection in front, the outcome is that of opening a new
  connection: when it is opened and its statements are prepared, the new connection replaces the
  closed one, at the back of the queue; when that throws, so does the query, and the pool has one
  connection less from then on.
\<close>

theorem execute_sync_pool:
  assumes "execute_sync pq rs stmt db = (r, db')" "r \<noteq> Inl Undefined"
  shows "(case db_connections db of
      [] \<Rightarrow> r = Inl (Thrown (runtime_error ''No DB connection available after timeout'')) \<and> db' = db
    | c # cs \<Rightarrow>
        if pq_is_open pq c (db_world db) then db_connections db' = cs @ [c]
        else case open_connection pq db of
            Inr _ \<Rightarrow> db_connections db' = cs @ [db_allocated db]
          | Inl f \<Rightarrow> db_connections db' = cs \<and> r = Inl f)"
  using assms
proof (cases rule: execute_sync_cases)
  case (no_connection e)
  from no_connection(1) show ?thesis
    by (cases rule: acquire_scoped_cases)
       (use no_connection acquire_closed_result[of db _ _ pq] in \<open>auto split: sum.splits\<close>)
next
  case (ran c u)
  from ran(1) show ?thesis
    by (cases rule: acquire_scoped_cases)
       (use ran acquire_closed_result[of db _ _ pq] in \<open>auto split: sum.splits\<close>)
qed

theorem execute_sync_pool_witness:
  "execute_sync sample_pqxx text_struct (PreparedStatement []) (snd (Database sample_pqxx [] 2 0)) =
     (Inr (Some (str ''row'')), (snd (Database sample_pqxx [] 2 0))\<lparr>db_connections := [1, 0]\<rparr>) \<and>
   db_connections (snd (execute_sync sample_pqxx text_struct (PreparedStatement [])
     (snd (Database sample_pqxx [] 2 0)))) = [1] @ [0]"
proof -
  let ?db = "snd (Database sample_pqxx [] 2 0)"
  have "execute_sync sample_pqxx text_struct (PreparedStatement []) ?db =
      (Inr (Some (str ''row'')), ?db\<lparr>db_connections := [1, 0]\<rparr>)"
    using execute_sync_ok(2)[of ?db 0 "[1]" sample_pqxx 2 "PreparedStatement []" "[str ''row'']" 2 2 text_struct]
    by (simp add: sample_database sample_pqxx_sel text_struct_def)
  from this execute_sync_pool[OF this] show ?thesis by (simp add: sample_database sample_pqxx_sel)
qed

text \<open>Queries one after the other, whatever each of them throws.\<close>

fun execute_all :: "('w, 'row) pqxx \<Rightarrow> ('row, 'a) row_struct \<Rightarrow> prepared_statement list \<Rightarrow>
    'w database \<Rightarrow> 'a option result list \<times> 'w database" where
  "execute_all pq rs [] db = ([], db)"
| "execute_all pq rs (stmt # stmts) db =
     (let (r, db1) = execute_sync pq rs stmt db; (out, db2) = execute_all pq rs stmts db1 in (r # out, db2))"

lemma reconnect_refused:
  assumes "\<And>c info w. \<exists>e w'. pq_connect pq c info w = (Inl (Thrown e), w')"
  shows "\<exists>e db'. reconnect_connection pq db = (Inl (Thrown e), db')"
proof -
  obtain e w' where "pq_connect pq (db_allocated db) (db_conninfo db) (db_world db) = (Inl (Thrown e), w')"
    using assms by blast
  then show ?thesis
    by (simp add: reconnect_connection_def sbind_def allocate_def sget_def outside_def)
qed

lemma execute_sync_refused:
  assumes "\<And>c info w. \<exists>e w'. pq_connect pq c info w = (Inl (Thrown e), w')"
    and "\<forall>c \<in> set (db_connections db). \<forall>w. \<not> pq_is_open pq c w"
    and "db_connections db = c # cs"
  shows "\<exists>e db'. execute_sync pq rs stmt db = (Inl (Thrown e), db') \<and> db_connections db' = cs"
proof -
  obtain e db1 where r: "reconnect_connection pq (db\<lparr>db_connections := cs\<rparr>) = (Inl (Thrown e), db1)"
    using reconnect_refused[OF assms(1)] by blast
  then have "db_connections db1 = cs" using quietD[OF quiet_reconnect r] by simp
  with r show ?thesis using assms(2,3)
    by (simp add: execute_sync_def acquire_scoped_connection_def acquire_connection_def destroying_def
        sbind_def scatch_def supdate_def sthrow_def Let_def)
qed

text \<open>
  An outage empties the pool for good. When every pooled connection has been closed and new
  connections are refused, each query throws and takes one connection out of the pool, so that
  after as many queries as there are connections the pool is empty; from then on, whatever the
  database does, every query throws the timeout error and the pool stays empty.
\<close>

theorem pool_outage_permanent:
  assumes "\<And>c info w. \<exists>e w'. pq_connect pq c info w = (Inl (Thrown e), w')"
    and "\<forall>c \<in> set (db_connections db). \<forall>w. \<not> pq_is_open pq c w"
    and "length stmts = length (db_connections db)"
  shows "\<exists>out db'. execute_all pq rs stmts db = (out, db') \<and> list_all isl out \<and> db_connections db' = [] \<and>
    (\<forall>pq' stmt. execute_sync pq' rs stmt db' =
       (Inl (Thrown (runtime_error ''No DB connection available after timeout'')), db'))"
  using assms(2,3)
proof (induction stmts arbitrary: db)
  case Nil
  then show ?case by (simp add: execute_sync_def sbind_def acquire_empty)
next
  case (Cons stmt stmts)
  then obtain c cs where q: "db_connections db = c # cs" by (cases "db_connections db") auto
  obtain e db1 where e: "execute_sync pq rs stmt db = (Inl (Thrown e), db1)" "db_connections db1 = cs"
    using execute_sync_refused[OF assms(1) Cons.prems(1) q] by blast
  obtain out db' where "execute_all pq rs stmts db1 = (out, db')" "list_all isl out" "db_connections db' = []"
    "\<forall>pq' stmt. execute_sync pq' rs stmt db' =
       (Inl (Thrown (runtime_error ''No DB connection available after timeout'')), db')"
    using Cons.IH[of db1] Cons.prems q e(2) by auto
  then show ?case using e(1) by simp
qed

definition down_pqxx :: "(nat, bytes) pqxx" where
  "down_pqxx = sample_pqxx\<lparr>pq_connect := \<lambda>c info w. (Inl (Thrown broken_connection), w), pq_is_open := \<lambda>c w. False\<rparr>"

theorem pool_outage_permanent_witness:
  "\<exists>out db'. execute_all down_pqxx text_struct [PreparedStatement [], PreparedStatement []]
       (snd (Database sample_pqxx [] 2 0)) = (out, db') \<and> list_all isl out \<and>
     execute_sync sample_pqxx text_struct (PreparedStatement []) db' =
       (Inl (Thrown (runtime_error ''No DB connection available after timeout'')), db')"
proof -
  have c: "\<exists>e w'. pq_connect down_pqxx c info w = (Inl (Thrown e), w')" for c info w
    by (simp add: down_pqxx_def)
  have o: "\<forall>c \<in> set (db_connections (snd (Database sample_pqxx [] 2 0))). \<forall>w. \<not> pq_is_open down_pqxx c w"
    by (simp add: down_pqxx_def)
  have l: "length [PreparedStatement [], PreparedStatement []] =
      length (db_connections (snd (Database sample_pqxx [] 2 0)))"
    by (simp add: sample_database)
  from pool_outage_permanent[OF c o l, of text_struct] show ?thesis by blast
qed

text \<open>Assignments of parameters: the last one to an index wins, gaps are NULL.\<close>

fun set_all :: "(nat \<times> bytes option) list \<Rightarrow> prepared_statement \<Rightarrow> prepared_statement result" where
  "set_all [] ps = Inr ps"
| "set_all ((i, v) # xs) ps =
     rbind (case v of Some s \<Rightarrow> set_param i s ps | None \<Rightarrow> set_null i ps) (set_all xs)"

lemma ensure_size_params:
  assumes "index + 1 < size_t_range"
  shows "ps_params (ensure_size index ps) =
    ps_params ps @ replicate (index + 1 - length (ps_params ps)) None"
  using assms by (auto simp: ensure_size_def Let_def)

lemma assign_ok:
  assumes "index + 1 < size_t_range"
  shows "assign_param index v (ensure_size index ps) =
    Inr (ps\<lparr>ps_params := (ps_params ps @ replicate (index + 1 - length (ps_params ps)) None)[index := v]\<rparr>)"
proof -
  have "ensure_size index ps = ps\<lparr>ps_params := ps_params ps @ replicate (index + 1 - length (ps_params ps)) None\<rparr>"
    using ensure_size_params[OF assms, of ps] by (cases ps) (auto simp: ensure_size_def Let_def)
  then show ?thesis by (simp add: assign_param_def)
qed

definition param :: "prepared_statement \<Rightarrow> nat \<Rightarrow> bytes option" where
  "param ps i = (if i < length (ps_params ps) then ps_params ps ! i else None)"

lemma set_one:
  assumes "i + 1 < size_t_range"
  shows "\<exists>ps'. (case v of Some s \<Rightarrow> set_param i s ps | None \<Rightarrow> set_null i ps) = Inr ps' \<and>
    param ps' = (param ps)(i := v) \<and> length (ps_params ps') = max (length (ps_params ps)) (i + 1) \<and>
    ps_name ps' = ps_name ps"
  using assign_ok[OF assms, of v ps]
  by (cases v) (auto simp: set_param_def set_null_def param_def nth_append nth_list_update fun_eq_iff)

text \<open>
  Parameters of a prepared statement: after any sequence of assignments of texts and NULLs, every
  index holds what was assigned to it last, an index never assigned is NULL, and there are exactly
  as many parameters as the largest index needs; no assignment leaves the vector.
\<close>

theorem statement_parameters:
  assumes "\<forall>(i, v) \<in> set xs. i + 1 < size_t_range"
  shows "\<exists>ps. set_all xs (PreparedStatement name) = Inr ps \<and> ps_name ps = name \<and>
    (\<forall>i. param ps i = (case map_of (rev xs) i of None \<Rightarrow> None | Some v \<Rightarrow> v)) \<and>
    length (ps_params ps) = fold (\<lambda>(i, v) n. max n (i + 1)) xs 0"
proof -
  have "\<exists>ps'. set_all xs ps = Inr ps' \<and> ps_name ps' = ps_name ps \<and>
      (\<forall>i. param ps' i = (case map_of (rev xs) i of None \<Rightarrow> param ps i | Some v \<Rightarrow> v)) \<and>
      length (ps_params ps') = fold (\<lambda>(i, v) n. max n (i + 1)) xs (length (ps_params ps))" for ps
    using assms
  proof (induction xs arbitrary: ps)
    case (Cons x xs)
    obtain j v where x: "x = (j, v)" by (cases x)
    obtain q where q: "(case v of Some s \<Rightarrow> set_param j s ps | None \<Rightarrow> set_null j ps) = Inr q"
      "param q = (param ps)(j := v)" "length (ps_params q) = max (length (ps_params ps)) (j + 1)"
      "ps_name q = ps_name ps"
      using set_one[of j ps v] Cons.prems x by auto
    then show ?case using Cons.IH[of q] Cons.prems x
      by (fastforce simp: map_add_def split: option.splits)
  qed simp
  moreover have "param (PreparedStatement name) i = None" "ps_name (PreparedStatement name) = name"
    "ps_params (PreparedStatement name) = []" for i
    by (simp_all add: PreparedStatement_def param_def)
  ultimately show ?thesis by (metis list.size(3))
qed

theorem statement_parameters_witness:
  "\<exists>ps. set_all [(2, Some [1]), (0, Some [5]), (2, None)] (PreparedStatement (str ''S'')) = Inr ps \<and>
     param ps 0 = Some [5] \<and> param ps 2 = None \<and> length (ps_params ps) = 3"
proof -
  have "\<forall>(i, v) \<in> set [(2, Some [1]), (0, Some [5]), (2, None)]. i + 1 < size_t_range"
    by (simp add: size_t_range_def)
  from statement_parameters[OF this, of "str ''S''"] show ?thesis by fastforce
qed

end
