(* ===== verification/Query_Results.thy ===== *)
theory Query_Results
  imports Text_Utils Database_Pool
begin

text \<open>
  \<open>src/common/utils/TimeUtils.hpp\<close> and \<open>src/common/database/QueryResults.hpp\<close>: timestamps as text, and
  the structures read from a row of a result. The time zone of the process enters through
  \<open>mktime\<close> and \<open>localtime\<close>, which are arguments. A pqxx row is given by what its accessors return.
\<close>

subsection \<open>Timestamps\<close>

text \<open>The fields of \<open>std::tm\<close> that the format uses.\<close>

record tm =
  tm_year :: int
  tm_mon :: int
  tm_mday :: int
  tm_hour :: int
  tm_min :: int
  tm_sec :: int

definition is_digit :: "byte \<Rightarrow> bool" where
  "is_digit b \<longleftrightarrow> 48 \<le> b \<and> b \<le> 57"

definition is_space :: "byte \<Rightarrow> bool" where
  "is_space b \<longleftrightarrow> b = 32 \<or> (9 \<le> b \<and> b \<le> 13)"

text \<open>
  The conversions of \<open>std::get_time\<close> read as \<open>strptime\<close> does: a number of at most so many digits in a
  range; a space in the format skips white space; any other character must match.
\<close>

definition get_number :: "nat \<Rightarrow> nat \<Rightarrow> nat \<Rightarrow> bytes \<Rightarrow> (int \<times> bytes) option" where
  "get_number width lo hi s =
     (let ds = takeWhile is_digit (take width s); v = dec_value ds in
      if ds \<noteq> [] \<and> lo \<le> v \<and> v \<le> hi then Some (int v, drop (length ds) s) else None)"

definition get_char :: "byte \<Rightarrow> bytes \<Rightarrow> bytes option" where
  "get_char c s = (case s of x # xs \<Rightarrow> if x = c then Some xs else None | [] \<Rightarrow> None)"

definition skip_space :: "bytes \<Rightarrow> bytes" where
  "skip_space s = dropWhile is_space s"

definition get_time :: "bytes \<Rightarrow> tm option" where
  "get_time s =
     Option.bind (get_number 4 0 9999 (skip_space s)) (\<lambda>(y, s).
     Option.bind (get_char 45 s) (\<lambda>s.
     Option.bind (get_number 2 1 12 s) (\<lambda>(mo, s).
     Option.bind (get_char 45 s) (\<lambda>s.
     Option.bind (get_number 2 1 31 s) (\<lambda>(d, s).
     Option.bind (get_number 2 0 23 (skip_space s)) (\<lambda>(h, s).
     Option.bind (get_char 58 s) (\<lambda>s.
     Option.bind (get_number 2 0 59 s) (\<lambda>(mi, s).
     Option.bind (get_char 58 s) (\<lambda>s.
     Option.bind (get_number 2 0 60 s) (\<lambda>(sec, s).
     Some \<lparr>tm_year = y - 1900, tm_mon = mo - 1, tm_mday = d, tm_hour = h, tm_min = mi, tm_sec = sec\<rparr>))))))))))"

text \<open>The message of the exception ends with the timestamp; time points are seconds.\<close>

definition parse_pg_timestamp :: "(tm \<Rightarrow> int) \<Rightarrow> bytes \<Rightarrow> int result" where
  "parse_pg_timestamp mktime timestamp =
     (case get_time timestamp of
        None \<Rightarrow> Inl (Thrown (runtime_error (''Failed to parse timestamp: '' @
                  map (\<lambda>b. char_of (unat b)) timestamp)))
      | Some t \<Rightarrow> Inr (mktime t))"

definition parse_pg_timestamp_optional :: "(tm \<Rightarrow> int) \<Rightarrow> bytes \<Rightarrow> int option" where
  "parse_pg_timestamp_optional mktime timestamp =
     (if timestamp = [] then None
      else case parse_pg_timestamp mktime timestamp of Inr t \<Rightarrow> Some t | Inl _ \<Rightarrow> None)"

definition two_digits :: "int \<Rightarrow> bytes" where
  "two_digits i = setw_fill 2 48 (dec_digits (nat i))"

definition strftime_text :: "tm \<Rightarrow> bytes" where
  "strftime_text t =
     to_string_int (tm_year t + 1900) @ [45] @ two_digits (tm_mon t + 1) @ [45] @ two_digits (tm_mday t) @
     [32] @ two_digits (tm_hour t) @ [58] @ two_digits (tm_min t) @ [58] @ two_digits (tm_sec t)"

text \<open>\<open>strftime\<close> returns 0 when the text and its terminator do not fit in the 100 bytes.\<close>

definition parse_time_point_to_string :: "(int \<Rightarrow> tm) \<Rightarrow> int \<Rightarrow> bytes" where
  "parse_time_point_to_string localtime time =
     (let text = strftime_text (localtime time) in if length text < 100 then text else [])"

subsection \<open>Rows\<close>

text \<open>The accessors of a row and of a field return a value or throw.\<close>

record pq_field =
  pf_is_null :: bool
  pf_int64 :: "exn + int"
  pf_string :: "exn + bytes"
  pf_binary :: "exn + bytes"

record pq_row =
  row_named :: "bytes \<Rightarrow> exn + pq_field"
  row_indexed :: "nat \<Rightarrow> exn + pq_field"

definition accessed :: "exn + 'a \<Rightarrow> 'a result" where
  "accessed r = (case r of Inl e \<Rightarrow> Inl (Thrown e) | Inr x \<Rightarrow> Inr x)"

record accounts_row =
  ar_id :: u64
  ar_name :: "bytes option"
  ar_salt :: "bytes option"
  ar_verifier :: "bytes option"
  ar_email :: "bytes option"
  ar_created_at :: "int option"

text \<open>A column that stays empty when it is NULL.\<close>

definition nullable :: "pq_row \<Rightarrow> bytes \<Rightarrow> (pq_field \<Rightarrow> exn + 'a) \<Rightarrow> 'a option result" where
  "nullable r column conv =
     rbind (accessed (row_named r column)) (\<lambda>f.
     if pf_is_null f then Inr None else rbind (accessed (conv f)) (\<lambda>x. Inr (Some x)))"

definition map_accounts_row :: "(tm \<Rightarrow> int) \<Rightarrow> pq_row \<Rightarrow> accounts_row result" where
  "map_accounts_row mktime r =
     rbind (accessed (row_named r (str ''id''))) (\<lambda>f.
     rbind (accessed (pf_int64 f)) (\<lambda>i.
     rbind (nullable r (str ''username'') pf_string) (\<lambda>name.
     rbind (nullable r (str ''salt'') pf_binary) (\<lambda>salt.
     rbind (nullable r (str ''verifier'') pf_binary) (\<lambda>verifier.
     rbind (nullable r (str ''email'') pf_string) (\<lambda>email.
     rbind (nullable r (str ''created_at'') pf_string) (\<lambda>created.
     Inr \<lparr>ar_id = word_of_int i, ar_name = name, ar_salt = salt, ar_verifier = verifier, ar_email = email,
          ar_created_at = Option.bind created (parse_pg_timestamp_optional mktime)\<rparr>)))))))"

definition map_nothing_row :: "pq_row \<Rightarrow> unit result" where
  "map_nothing_row r = Inr ()"

definition map_u64 :: "pq_row \<Rightarrow> u64 result" where
  "map_u64 r = rbind (accessed (row_indexed r 0)) (\<lambda>f.
     rbind (accessed (pf_int64 f)) (\<lambda>i. Inr (word_of_int i)))"

definition accounts_struct :: "(tm \<Rightarrow> int) \<Rightarrow> (pq_row, accounts_row) row_struct" where
  "accounts_struct mktime = \<lparr>rs_nothing = None, rs_map = map_accounts_row mktime\<rparr>"

definition nothing_struct :: "(pq_row, unit) row_struct" where
  "nothing_struct = \<lparr>rs_nothing = Some (), rs_map = map_nothing_row\<rparr>"

definition u64_struct :: "(pq_row, u64) row_struct" where
  "u64_struct = \<lparr>rs_nothing = None, rs_map = map_u64\<rparr>"

lemma accessed_defined: "accessed r \<noteq> Inl Undefined"
  by (cases r) (simp_all add: accessed_def)

lemma nullable_defined: "nullable r col conv \<noteq> Inl Undefined"
  by (auto simp: nullable_def outcome_simps accessed_defined)

lemma map_accounts_row_defined: "map_accounts_row mktime r \<noteq> Inl Undefined"
  by (auto simp: map_accounts_row_def outcome_simps accessed_defined nullable_defined)

subsection \<open>Reading back a printed timestamp\<close>

lemma digits_are_digits: "d \<in> set (dec_digits n) \<Longrightarrow> is_digit d"
  using dec_digits_range[of n] by (auto simp: is_digit_def word_le_nat_alt)

lemma length_dec_digits: "n < 10 ^ k \<Longrightarrow> 0 < k \<Longrightarrow> length (dec_digits n) \<le> k"
proof (induction n arbitrary: k rule: dec_digits.induct)
  case (1 n)
  show ?case
  proof (cases "n < 10")
    case True
    then show ?thesis using 1 by (subst dec_digits.simps) simp
  next
    case False
    then obtain j where k: "k = Suc j" "0 < j" using 1(2,3) by (cases k; cases "k - 1") auto
    then have "n div 10 < 10 ^ j" using 1(2) by (simp add: less_mult_imp_div_less mult.commute)
    with 1(1)[OF False] k show ?thesis using False by (subst dec_digits.simps) simp
  qed
qed

lemma dec_value_zeros: "dec_value (replicate k 48 @ ds) = dec_value ds"
  by (induction k) (simp_all add: dec_value_def)

text \<open>A number printed at its full width is read back, whatever follows.\<close>

lemma get_number_printed:
  assumes "n < 10 ^ w" "0 < w" "lo \<le> n" "n \<le> hi"
  shows "get_number w lo hi (setw_fill w 48 (dec_digits n) @ rest) = Some (int n, rest)"
proof -
  define p where "p = setw_fill w 48 (dec_digits n)"
  have l: "length p = w" using length_dec_digits[OF assms(1,2)] by (simp add: p_def setw_fill_def)
  have "\<forall>b \<in> set p. is_digit b"
    using digits_are_digits by (auto simp: p_def setw_fill_def is_digit_def)
  then have t: "takeWhile is_digit (take w (p @ rest)) = p"
    using l by (simp add: takeWhile_eq_all_conv)
  have v: "dec_value p = n" by (simp add: p_def setw_fill_def dec_value_zeros)
  have "p \<noteq> []" using l assms(2) by auto
  then have "get_number w lo hi (p @ rest) = Some (int n, rest)"
    using t v l assms(3,4) by (simp only: get_number_def Let_def) simp
  then show ?thesis by (simp add: p_def)
qed

definition tm_valid :: "tm \<Rightarrow> bool" where
  "tm_valid t \<longleftrightarrow> 1000 \<le> tm_year t + 1900 \<and> tm_year t + 1900 \<le> 9999 \<and> 0 \<le> tm_mon t \<and> tm_mon t \<le> 11 \<and>
     1 \<le> tm_mday t \<and> tm_mday t \<le> 31 \<and> 0 \<le> tm_hour t \<and> tm_hour t \<le> 23 \<and>
     0 \<le> tm_min t \<and> tm_min t \<le> 59 \<and> 0 \<le> tm_sec t \<and> tm_sec t \<le> 60"

lemma two_digits_read:
  assumes "0 \<le> i" "i < 100" "int lo \<le> i" "i \<le> int hi"
  shows "get_number 2 lo hi (two_digits i @ rest) = Some (i, rest)"
  using get_number_printed[of "nat i" 2 lo hi rest] assms by (simp add: two_digits_def)

lemma dec_digits_4:
  assumes "1000 \<le> n" "n \<le> 9999"
  shows "length (dec_digits n) = 4"
proof -
  have "\<not> n < 10" "\<not> n div 10 < 10" "\<not> n div 10 div 10 < 10" "n div 10 div 10 div 10 < 10"
    using assms by linarith+
  then show ?thesis
    using dec_digits.simps[of n] dec_digits.simps[of "n div 10"] dec_digits.simps[of "n div 10 div 10"]
      dec_digits.simps[of "n div 10 div 10 div 10"] by simp
qed

lemma year_printed:
  assumes "1000 \<le> y" "y \<le> 9999"
  shows "to_string_int y = setw_fill 4 48 (dec_digits (nat y))"
  using dec_digits_4[of "nat y"] assms by (simp add: to_string_int_def setw_fill_def)

lemma digit_first_not_space: "is_digit b \<Longrightarrow> \<not> is_space b"
  by (auto simp: is_digit_def is_space_def word_le_nat_alt)

lemma skip_space_digits:
  assumes "xs \<noteq> []" "\<forall>b \<in> set xs. is_digit b"
  shows "skip_space (xs @ ys) = xs @ ys"
  using assms digit_first_not_space by (cases xs) (auto simp: skip_space_def)

lemma printed_digits: "0 < w \<Longrightarrow> setw_fill w 48 (dec_digits n) \<noteq> []"
  "\<forall>b \<in> set (setw_fill w 48 (dec_digits n)). is_digit b"
  using digits_are_digits by (auto simp: setw_fill_def is_digit_def)

lemma get_time_printed:
  assumes "tm_valid t"
  shows "get_time (strftime_text t @ rest) = Some t"
proof -
  have y: "get_number 4 0 9999 (to_string_int (tm_year t + 1900) @ r) = Some (tm_year t + 1900, r)" for r
    using assms get_number_printed[of "nat (tm_year t + 1900)" 4 0 9999 r]
    by (simp add: year_printed tm_valid_def nat_le_iff)
  have s: "skip_space (to_string_int (tm_year t + 1900) @ r) = to_string_int (tm_year t + 1900) @ r" for r
    using assms skip_space_digits[OF printed_digits(1) printed_digits(2)]
    by (simp add: year_printed tm_valid_def)
  have h: "skip_space (32 # two_digits i @ r) = two_digits i @ r" for i r
    using skip_space_digits[OF printed_digits(1) printed_digits(2), of 2]
    by (simp add: skip_space_def two_digits_def is_space_def)
  show ?thesis
    using assms unfolding get_time_def strftime_text_def
    by (simp add: s y h two_digits_read get_char_def tm_valid_def)
qed

lemma length_two_digits: "0 \<le> i \<Longrightarrow> i < 100 \<Longrightarrow> length (two_digits i) = 2"
  using length_dec_digits[of "nat i" 2] by (simp add: two_digits_def setw_fill_def nat_less_iff)

lemma strftime_short: "tm_valid t \<Longrightarrow> length (strftime_text t) < 100"
  using dec_digits_4[of "nat (tm_year t + 1900)"]
  by (simp add: strftime_text_def tm_valid_def length_two_digits to_string_int_def nat_le_iff le_nat_iff)

subsection \<open>Properties\<close>

text \<open>
  Timestamps: the text printed for a time point of a four-digit year is read back as the same
  time point, also when more text follows, such as the fractional seconds of PostgreSQL, which are
  dropped; nothing is thrown.
\<close>

theorem timestamp_roundtrip:
  assumes "tm_valid t" "localtime (mktime t) = t"
  shows "parse_pg_timestamp mktime (parse_time_point_to_string localtime (mktime t) @ rest) = Inr (mktime t) \<and>
    parse_pg_timestamp_optional mktime (parse_time_point_to_string localtime (mktime t) @ rest) = Some (mktime t)"
proof -
  have "strftime_text t \<noteq> []" by (simp add: strftime_text_def)
  then show ?thesis
    using get_time_printed[OF assms(1), of rest] strftime_short[OF assms(1)]
    by (simp add: parse_time_point_to_string_def parse_pg_timestamp_optional_def parse_pg_timestamp_def assms(2))
qed

definition sample_tm :: tm where
  "sample_tm = \<lparr>tm_year = 125, tm_mon = 6, tm_mday = 9, tm_hour = 7, tm_min = 5, tm_sec = 0\<rparr>"

theorem timestamp_roundtrip_witness:
  "tm_valid sample_tm \<and> parse_time_point_to_string (\<lambda>_. sample_tm) 42 = str ''2025-07-09 07:05:00'' \<and>
   parse_pg_timestamp (\<lambda>_. 42) (str ''2025-07-09 07:05:00'' @ str ''.123456'') = Inr 42"
proof -
  have v: "tm_valid sample_tm" by (simp add: tm_valid_def sample_tm_def)
  have p: "parse_time_point_to_string (\<lambda>_. sample_tm) 42 = str ''2025-07-09 07:05:00''" by code_simp
  from timestamp_roundtrip[OF v, of "\<lambda>_. sample_tm" "\<lambda>_. 42" "str ''.123456''"] v p show ?thesis by simp
qed

end
