(* ===== verification/Session.thy ===== *)
theory Session
  imports Packets Message_Buffer Srp6 Account_Cache Query_Results
begin

text \<open>
  The server side of a connection: \<open>AccountInfo\<close>, \<open>ClientSession\<close>, the readers of both session modes
  and the packet handlers (under \<open>src/server\<close>). Boost.Asio runs the completion handlers: an
  asynchronous operation is a field of the session that says it is under way, and its completion
  is an event with the result Asio delivers. Handlers run one at a time, as on one I/O thread.
  Logging has no effect on the state and is left out.
\<close>

subsection \<open>Accounts\<close>

record account_info =
  ai_srp :: srp6
  ai_isAuth :: bool

definition AccountInfo :: "openssl \<Rightarrow> account_info result" where
  "AccountInfo ssl = rbind (SRP6 ssl) (\<lambda>s. Inr \<lparr>ai_srp = s, ai_isAuth = False\<rparr>)"

definition setIsAuthenticated :: "bool \<Rightarrow> account_info \<Rightarrow> account_info" where
  "setIsAuthenticated v a = a\<lparr>ai_isAuth := v\<rparr>"

definition isAuthenticated :: "account_info \<Rightarrow> bool" where
  "isAuthenticated a = ai_isAuth a"

definition handle_auth_state :: "account_info \<Rightarrow> account_info" where
  "handle_auth_state a = setIsAuthenticated True a"

text \<open>\<open>handle_close_state\<close> only logs.\<close>

definition handle_close_state :: "account_info \<Rightarrow> account_info" where
  "handle_close_state a = a"

subsection \<open>Sessions and their surroundings\<close>

datatype SessionMode = AUTH_SESSION | WORK_SESSION

text \<open>
  The five fields from \<open>cs_posted\<close> on belong to the executor and the socket: the packets of posted
  \<open>do_send_packet\<close> calls, whether an \<open>async_read_some\<close> is under way, the buffer of the \<open>async_write\<close>
  under way with whether it was started on an open socket, whether the socket is open, and the bytes
  whose writing has completed. \<open>cs_sent\<close> is a history variable, which no operation reads: the packets
  that \<open>send_packet\<close> was called with, in the order of the calls.
\<close>

record session =
  cs_account :: account_info
  cs_read_buffer :: message_buffer
  cs_write_queue :: "bytes list"
  cs_writing :: bool
  cs_closed :: bool
  cs_mode :: SessionMode
  cs_posted :: "any_packet list"
  cs_reading :: bool
  cs_in_flight :: "(bool \<times> bytes) option"
  cs_socket_open :: bool
  cs_wire :: bytes
  cs_sent :: "any_packet list"

text \<open>\<open>sv_registered\<close>: the session is in the set of sessions of the server.\<close>

record 'w srv =
  sv_session :: session
  sv_cache :: account_cache
  sv_db :: "'w database"
  sv_registered :: bool

text \<open>
  What the handlers use from outside: OpenSSL, pqxx, the time zone, the byte order of the host,
  whether \<open>co_spawn\<close> starts a coroutine before it returns, the clock and the random bytes of the
  event at hand.
\<close>

record 'w env =
  env_ssl :: openssl
  env_pq :: "('w, pq_row) pqxx"
  env_mktime :: "tm \<Rightarrow> int"
  env_host :: endian
  env_spawn_inline :: bool
  env_now :: int
  env_rnd :: bytes

definition ClientSession :: "openssl \<Rightarrow> session result" where
  "ClientSession ssl =
     rbind (AccountInfo ssl) (\<lambda>a.
     Inr \<lparr>cs_account = a, cs_read_buffer = MessageBuffer 4096, cs_write_queue = [], cs_writing = False,
          cs_closed = False, cs_mode = AUTH_SESSION, cs_posted = [], cs_reading = False,
          cs_in_flight = None, cs_socket_open = True, cs_wire = [], cs_sent = []\<rparr>)"

definition isOpened :: "session \<Rightarrow> bool" where
  "isOpened c = (\<not> cs_closed c)"

definition set_session_mode :: "SessionMode \<Rightarrow> session \<Rightarrow> session" where
  "set_session_mode m c = c\<lparr>cs_mode := m\<rparr>"

definition get_session_mode :: "session \<Rightarrow> SessionMode" where
  "get_session_mode c = cs_mode c"

definition on_session :: "(session \<Rightarrow> session) \<Rightarrow> ('w srv, unit) op" where
  "on_session f = supdate (\<lambda>s. s\<lparr>sv_session := f (sv_session s)\<rparr>)"

definition on_srp :: "(srp6 \<Rightarrow> srp6) \<Rightarrow> ('w srv, unit) op" where
  "on_srp f = on_session (\<lambda>c. c\<lparr>cs_account := (cs_account c)\<lparr>ai_srp := f (ai_srp (cs_account c))\<rparr>\<rparr>)"

definition session_srp :: "'w srv \<Rightarrow> srp6" where
  "session_srp s = ai_srp (cs_account (sv_session s))"

definition on_db :: "('w database, 'a) op \<Rightarrow> ('w srv, 'a) op" where
  "on_db m s = (case m (sv_db s) of (r, db) \<Rightarrow> (r, s\<lparr>sv_db := db\<rparr>))"

subsection \<open>Closing, sending and writing\<close>

definition remove_session :: "'w srv \<Rightarrow> 'w srv" where
  "remove_session s = s\<lparr>sv_registered := False\<rparr>"

definition session_close :: "('w srv, unit) op" where
  "session_close s =
     (let c = sv_session s in
      if cs_closed c then (Inr (), s)
      else
        (let c1 = c\<lparr>cs_closed := True\<rparr>;
             c2 = (if get_session_mode c1 = WORK_SESSION
                   then c1\<lparr>cs_account := handle_close_state (cs_account c1)\<rparr> else c1);
             c3 = c2\<lparr>cs_socket_open := False, cs_read_buffer := mb_clear (cs_read_buffer c2),
                     cs_write_queue := []\<rparr> in
         (Inr (), remove_session (s\<lparr>sv_session := c3\<rparr>))))"

definition send_packet :: "any_packet \<Rightarrow> ('w srv, unit) op" where
  "send_packet p =
     sbind (on_session (\<lambda>c. c\<lparr>cs_sent := cs_sent c @ [p]\<rparr>)) (\<lambda>_ s.
     if cs_closed (sv_session s) then (Inr (), s)
     else on_session (\<lambda>c. c\<lparr>cs_posted := cs_posted c @ [p]\<rparr>) s)"

text \<open>\<open>PacketUtils::send_packet_as\<close> copies the packet into a shared one.\<close>

definition send_packet_as :: "auth_packet \<Rightarrow> ('w srv, unit) op" where
  "send_packet_as p = send_packet (Auth_Packet p)"

definition send_packet_as_work :: "work_packet \<Rightarrow> ('w srv, unit) op" where
  "send_packet_as_work p = send_packet (Work_Packet p)"

definition do_write :: "session \<Rightarrow> session" where
  "do_write c =
     (case cs_write_queue c of
        [] \<Rightarrow> c\<lparr>cs_writing := False\<rparr>
      | front # _ \<Rightarrow> c\<lparr>cs_writing := True, cs_in_flight := Some (cs_socket_open c, front)\<rparr>)"

definition do_send_packet :: "endian \<Rightarrow> any_packet \<Rightarrow> session \<Rightarrow> session" where
  "do_send_packet h p c =
     (let c1 = c\<lparr>cs_write_queue := cs_write_queue c @ [build_packet h p]\<rparr> in
      if \<not> cs_writing c1 then do_write c1 else c1)"

text \<open>
  The completion handler of \<open>async_write\<close>, with its error flag. On success all bytes of the buffer
  have been written; \<open>pop_front\<close> of an empty deque is undefined.
\<close>

definition write_handler :: "bool \<Rightarrow> ('w srv, unit) op" where
  "write_handler ec =
     (if ec then session_close
      else (\<lambda>s. case cs_write_queue (sv_session s) of
                  [] \<Rightarrow> (Inl Undefined, s)
                | _ # q \<Rightarrow> on_session (\<lambda>c. do_write (c\<lparr>cs_write_queue := q\<rparr>)) s))"

subsection \<open>Handlers of the authentication stage\<close>

definition auth_ping :: "endian \<Rightarrow> auth_packet \<Rightarrow> ('w srv, unit) op" where
  "auth_ping h p =
     sbind (slift (pk_read_uint32_le h p)) (\<lambda>(ping, _).
     send_packet_as (pk_write_uint32_le h ping (AuthPacket Auth_SMSG_PONG)))"

definition auth_failure :: "AuthErrorCode \<Rightarrow> auth_packet" where
  "auth_failure code =
     pk_write_uint8 (error_code code) (pk_write_uint8 (status_code AUTH_FAILED) (AuthPacket SMSG_AUTH_RESPONSE))"

definition challenge_packet :: "bytes \<Rightarrow> byte \<Rightarrow> bytes \<Rightarrow> bytes \<Rightarrow> auth_packet" where
  "challenge_packet B g N salt =
     pk_write_bytes salt (pk_write_bytes N (pk_write_uint8 g
       (pk_write_bytes B (AuthPacket SMSG_AUTH_LOGON_CHALLENGE))))"

text \<open>Both branches that know the account end alike: the parameters of SRP are set up and sent.\<close>

definition answer_challenge :: "'w env \<Rightarrow> bytes \<Rightarrow> bytes \<Rightarrow> ('w srv, unit) op" where
  "answer_challenge e salt verifier =
     sbind (on_srp (load_verifier (env_ssl e) salt verifier)) (\<lambda>_.
     sbind (on_srp (generate_server_ephemeral (env_ssl e) (env_rnd e))) (\<lambda>_.
     sbind (sget session_srp) (\<lambda>srp.
     sbind (slift (get_B_bytes (env_ssl e) srp)) (\<lambda>B.
     sbind (slift (get_N_bytes (env_ssl e) srp)) (\<lambda>N.
     send_packet_as (challenge_packet B (get_generator (env_ssl e) srp) N salt))))))"

text \<open>What follows the query: the row is checked, cached and answered.\<close>

definition remember_account :: "int \<Rightarrow> bytes \<Rightarrow> bytes \<Rightarrow> bytes \<Rightarrow> 'w srv \<Rightarrow> 'w srv" where
  "remember_account now username salt verifier s =
     s\<lparr>sv_cache := cache_put now username
         \<lparr>ce_salt = salt, ce_verifier = verifier, ce_last_access = 0\<rparr> (sv_cache s)\<rparr>"

definition answer_row :: "'w env \<Rightarrow> bytes \<Rightarrow> accounts_row option \<Rightarrow> ('w srv, unit) op" where
  "answer_row e username user =
     (case user of
        None \<Rightarrow> send_packet_as (auth_failure WRONG_USERNAME)
      | Some u \<Rightarrow>
          (case (ar_salt u, ar_verifier u) of
             (Some salt, Some verifier) \<Rightarrow>
               if length salt \<noteq> 32 \<or> length verifier \<noteq> 32
               then send_packet_as (auth_failure WRONG_PASSWORD)
               else
                 sbind (supdate (remember_account (env_now e) username salt verifier)) (\<lambda>_.
                 answer_challenge e salt verifier)
           | _ \<Rightarrow> send_packet_as (auth_failure WRONG_PASSWORD)))"

definition challenge_from_db :: "'w env \<Rightarrow> bytes \<Rightarrow> ('w srv, unit) op" where
  "challenge_from_db e username =
     sbind (slift (set_param 0 username (PreparedStatement (str ''SELECT_ACCOUNT_BY_USERNAME'')))) (\<lambda>stmt.
     sbind (on_db (execute_sync (env_pq e) (accounts_struct (env_mktime e)) stmt)) (\<lambda>user.
     answer_row e username user))"

definition cached_entry :: "int \<Rightarrow> bytes \<Rightarrow> ('w srv, cache_entry option) op" where
  "cached_entry now username s =
     (case cache_get now username (sv_cache s) of (r, c) \<Rightarrow> (Inr r, s\<lparr>sv_cache := c\<rparr>))"

definition auth_logon_challenge :: "'w env \<Rightarrow> auth_packet \<Rightarrow> ('w srv, unit) op" where
  "auth_logon_challenge e p =
     (case pk_read_string_nt_le p of
        Inl (Thrown ex) \<Rightarrow> send_packet_as (auth_failure INTERNAL_ERROR)
      | Inl Undefined \<Rightarrow> slift (Inl Undefined)
      | Inr (username, _) \<Rightarrow>
          if \<not> is_valid_utf8 username then send_packet_as (auth_failure WRONG_USERNAME)
          else
            (let username = to_uppercase username in
             sbind (on_srp (set_only_username username)) (\<lambda>_.
             sbind (cached_entry (env_now e) username) (\<lambda>cached.
             case cached of
               Some entry \<Rightarrow> answer_challenge e (ce_salt entry) (ce_verifier entry)
             | None \<Rightarrow>
                 scatch (challenge_from_db e username)
                   (\<lambda>ex. send_packet_as (auth_failure DATABASE_BUSY))))))"

definition auth_logon_proof :: "'w env \<Rightarrow> auth_packet \<Rightarrow> ('w srv, unit) op" where
  "auth_logon_proof e p =
     scatch
       (sbind (slift (pk_read_bytes 32 p)) (\<lambda>(A_bytes, p1).
        sbind (slift (pk_read_bytes 20 p1)) (\<lambda>(M1_client, _).
        sbind (sget session_srp) (\<lambda>srp.
        case verify_client_proof (env_ssl e) A_bytes M1_client srp of
          (ok, M2) \<Rightarrow>
            if \<not> ok then send_packet_as (auth_failure WRONG_PASSWORD)
            else
              sbind (on_session (set_session_mode WORK_SESSION)) (\<lambda>_.
              sbind (on_session (\<lambda>c. c\<lparr>cs_account := handle_auth_state (cs_account c)\<rparr>)) (\<lambda>_.
              send_packet_as (pk_write_bytes M2 (AuthPacket SMSG_AUTH_LOGON_PROOF))))))))
       (\<lambda>ex. send_packet_as (auth_failure INTERNAL_ERROR))"

text \<open>
  \<open>co_spawn(executor, handle_logon_challenge(session, p), detached)\<close>: the coroutine holds \<open>p\<close> by
  reference, and \<open>p\<close> is a local variable of the reader. Asio does not say whether the coroutine runs
  up to its first suspension before \<open>co_spawn\<close> returns; when it starts only later, it reads a
  destroyed packet. \<open>detached\<close> drops an exception.
\<close>

definition spawn_challenge :: "'w env \<Rightarrow> auth_packet \<Rightarrow> ('w srv, unit) op" where
  "spawn_challenge e p =
     (if env_spawn_inline e then scatch (auth_logon_challenge e p) (\<lambda>_. sreturn ())
      else slift (Inl Undefined))"

definition auth_dispatch :: "'w env \<Rightarrow> auth_packet \<Rightarrow> ('w srv, unit) op" where
  "auth_dispatch e p =
     (case auth_enum (auth_get_opcode p) of
        Some Auth_CMSG_PING \<Rightarrow> auth_ping (env_host e) p
      | Some CMSG_AUTH_LOGON_CHALLENGE \<Rightarrow> spawn_challenge e p
      | Some CMSG_AUTH_LOGON_PROOF \<Rightarrow> auth_logon_proof e p
      | _ \<Rightarrow> sreturn ())"

subsection \<open>Handlers of the work stage\<close>

definition work_ping :: "endian \<Rightarrow> work_packet \<Rightarrow> ('w srv, unit) op" where
  "work_ping h p =
     sbind (slift (pk_read_uint32_le h p)) (\<lambda>(ping, _).
     send_packet_as_work (pk_write_uint32_le h ping (WorkPacket Work_SMSG_PONG)))"

definition work_message :: "work_packet \<Rightarrow> ('w srv, unit) op" where
  "work_message p = sbind (slift (pk_read_string_nt_le p)) (\<lambda>(msg, _). sreturn ())"

definition work_dispatch :: "'w env \<Rightarrow> work_packet \<Rightarrow> ('w srv, unit) op" where
  "work_dispatch e p =
     (case work_enum (work_get_opcode p) of
        Some Work_CMSG_PING \<Rightarrow> work_ping (env_host e) p
      | Some CMSG_MESSAGE \<Rightarrow> work_message p
      | _ \<Rightarrow> sreturn ())"

subsection \<open>Readers\<close>

text \<open>Reading past the storage behind \<open>read_ptr()\<close> would be undefined.\<close>

definition process_read_buffer_as_authserver :: "'w env \<Rightarrow> ('w srv, unit) op" where
  "process_read_buffer_as_authserver e s =
     (let buffer = cs_read_buffer (sv_session s); data = read_ptr buffer in
      if get_active_size buffer < 3 then (Inr (), s)
      else if length data < 3 then (Inl Undefined, s)
      else
        (let size = unat (header_length (data ! 1) (data ! 2)) in
         if get_active_size buffer < 3 + size then (Inr (), s)
         else if size > 2048 then session_close s
         else if length data < 3 + size then (Inl Undefined, s)
         else
           sbind (slift (read_completed (3 + size) buffer)) (\<lambda>buffer'.
           sbind (on_session (\<lambda>c. c\<lparr>cs_read_buffer := buffer'\<rparr>)) (\<lambda>_.
           scatch
             (sbind (slift (auth_deserialize (env_host e) (take (3 + size) data) AuthPacket_default))
               (auth_dispatch e))
             (\<lambda>ex. session_close))) s))"

definition process_read_buffer_as_workserver :: "'w env \<Rightarrow> ('w srv, unit) op" where
  "process_read_buffer_as_workserver e s =
     (let buffer = cs_read_buffer (sv_session s); data = read_ptr buffer in
      if get_active_size buffer < 4 then (Inr (), s)
      else if length data < 4 then (Inl Undefined, s)
      else
        (let size = unat (header_length (data ! 2) (data ! 3)) in
         if get_active_size buffer < 4 + size then (Inr (), s)
         else if size > 2048 then session_close s
         else if length data < 4 + size then (Inl Undefined, s)
         else
           sbind (slift (read_completed (4 + size) buffer)) (\<lambda>buffer'.
           sbind (on_session (\<lambda>c. c\<lparr>cs_read_buffer := buffer'\<rparr>)) (\<lambda>_.
           scatch
             (sbind (slift (work_deserialize (env_host e) (take (4 + size) data) WorkPacket_default))
               (work_dispatch e))
             (\<lambda>ex. session_close))) s))"

definition process_read_buffer :: "'w env \<Rightarrow> ('w srv, unit) op" where
  "process_read_buffer e s =
     (case cs_mode (sv_session s) of
        AUTH_SESSION \<Rightarrow> process_read_buffer_as_authserver e s
      | WORK_SESSION \<Rightarrow> process_read_buffer_as_workserver e s)"

subsection \<open>Reading\<close>

definition do_read :: "session \<Rightarrow> session" where
  "do_read c = c\<lparr>cs_read_buffer := ensure_free_space 512 (cs_read_buffer c), cs_reading := True\<rparr>"

text \<open>The completion of \<open>async_read_some\<close>: an error, or the bytes stored at the write position.\<close>

datatype read_result = Read_Error | Received bytes

definition read_handler :: "'w env \<Rightarrow> read_result \<Rightarrow> ('w srv, unit) op" where
  "read_handler e r =
     (case r of
        Read_Error \<Rightarrow> session_close
      | Received bs \<Rightarrow>
          (\<lambda>s. if \<not> isOpened (sv_session s) then (Inr (), s)
               else
                 sbind (slift (receive bs (cs_read_buffer (sv_session s)))) (\<lambda>buffer.
                 sbind (on_session (\<lambda>c. c\<lparr>cs_read_buffer := buffer\<rparr>)) (\<lambda>_.
                 sbind (process_read_buffer e) (\<lambda>_.
                 on_session (\<lambda>c. if isOpened c then do_read c else c)))) s))"

text \<open>\<open>start()\<close>: \<open>remote_endpoint()\<close> throws when the peer is gone already.\<close>

definition session_start :: "unit result \<Rightarrow> ('w srv, unit) op" where
  "session_start endpoint =
     sbind (slift endpoint) (\<lambda>_.
     sbind (on_session (set_session_mode AUTH_SESSION)) (\<lambda>_.
     on_session do_read))"

subsection \<open>Events\<close>

datatype session_event = Read_Done read_result | Write_Done bool | Run_Posted

definition event_enabled :: "session_event \<Rightarrow> session \<Rightarrow> bool" where
  "event_enabled ev c =
     (case ev of
        Read_Done Read_Error \<Rightarrow> cs_reading c
      | Read_Done (Received bs) \<Rightarrow> cs_reading c \<and> length bs \<le> get_remaining_space (cs_read_buffer c)
      | Write_Done ec \<Rightarrow> cs_in_flight c \<noteq> None \<and> (\<not> ec \<longrightarrow> fst (the (cs_in_flight c)))
      | Run_Posted \<Rightarrow> cs_posted c \<noteq> [])"

definition run_posted :: "'w env \<Rightarrow> ('w srv, unit) op" where
  "run_posted e =
     on_session (\<lambda>c. do_send_packet (env_host e) (hd (cs_posted c)) (c\<lparr>cs_posted := tl (cs_posted c)\<rparr>))"

text \<open>
  A completion takes the operation out of the fields that say it is under way, then runs the
  handler; a completed write has put its buffer on the wire.
\<close>

definition session_event :: "'w env \<Rightarrow> session_event \<Rightarrow> ('w srv, unit) op" where
  "session_event e ev =
     (case ev of
        Read_Done r \<Rightarrow>
          sbind (on_session (\<lambda>c. c\<lparr>cs_reading := False\<rparr>)) (\<lambda>_. read_handler e r)
      | Write_Done ec \<Rightarrow>
          sbind (on_session (\<lambda>c. c\<lparr>cs_in_flight := None,
            cs_wire := cs_wire c @ (if ec then [] else snd (the (cs_in_flight c)))\<rparr>)) (\<lambda>_. write_handler ec)
      | Run_Posted \<Rightarrow> run_posted e)"

subsection \<open>Reachable sessions\<close>

text \<open>
  \<open>session_reach s0 n s\<close>: from \<open>s0\<close>, \<open>n\<close> events whose handlers returned lead to \<open>s\<close>. The surroundings
  may differ from event to event.
\<close>

inductive session_reach :: "'w srv \<Rightarrow> nat \<Rightarrow> 'w srv \<Rightarrow> bool" for s0 where
  init: "session_reach s0 0 s0"
| event: "session_reach s0 n s \<Longrightarrow> event_enabled ev (sv_session s) \<Longrightarrow>
    session_event e ev s = (Inr (), s') \<Longrightarrow> session_reach s0 (Suc n) s'"

text \<open>A session as the server makes it, registered and started.\<close>

definition new_session :: "openssl \<Rightarrow> account_cache \<Rightarrow> 'w database \<Rightarrow> 'w srv result" where
  "new_session ssl cache db =
     rbind (ClientSession ssl) (\<lambda>c.
     case session_start (Inr ()) \<lparr>sv_session = c, sv_cache = cache, sv_db = db, sv_registered = True\<rparr> of
       (Inl f, _) \<Rightarrow> Inl f
     | (Inr _, s) \<Rightarrow> Inr s)"

subsection \<open>The invariant\<close>

text \<open>
  The receive buffer is sound and no larger than \<open>b\<close>; the session is authenticated exactly in work
  mode; a closed session is not registered and has an empty queue unless packets were posted before
  it closed; and while the session is open, the buffer under way is the head of the queue, so that
  at most one write is under way and none is forgotten.
\<close>

definition writing_ok :: "session \<Rightarrow> bool" where
  "writing_ok c \<longleftrightarrow> cs_socket_open c \<and> (cs_writing c \<longleftrightarrow> cs_write_queue c \<noteq> []) \<and>
     cs_in_flight c = (case cs_write_queue c of [] \<Rightarrow> None | q # _ \<Rightarrow> Some (True, q))"

definition srv_inv :: "nat \<Rightarrow> 'w srv \<Rightarrow> bool" where
  "srv_inv b s \<longleftrightarrow>
     mb_wf (cs_read_buffer (sv_session s)) \<and> length (mb_storage (cs_read_buffer (sv_session s))) \<le> b \<and>
     (cs_mode (sv_session s) = WORK_SESSION \<longleftrightarrow> ai_isAuth (cs_account (sv_session s))) \<and>
     (sv_registered s \<longleftrightarrow> \<not> cs_closed (sv_session s)) \<and>
     (\<not> cs_closed (sv_session s) \<longrightarrow> writing_ok (sv_session s))"

lemma keeps_supdate: "(\<And>s. I s \<Longrightarrow> I (f s)) \<Longrightarrow> keeps I (supdate f)"
  by (simp add: keeps_def supdate_def)

lemma keeps_on_session:
  "(\<And>s. I s \<Longrightarrow> I (s\<lparr>sv_session := f (sv_session s)\<rparr>)) \<Longrightarrow> keeps I (on_session f)"
  by (simp add: on_session_def keeps_supdate)

lemma keeps_close [keeps_rules]: "keeps (srv_inv b) session_close"
  by (auto simp: keeps_def session_close_def srv_inv_def remove_session_def handle_close_state_def
      get_session_mode_def mb_clear_def mb_reset_def mb_wf_def size_t_range_def Let_def)

lemma keeps_send [keeps_rules]: "keeps (srv_inv b) (send_packet p)"
  by (auto simp: keeps_def send_packet_def srv_inv_def on_session_def supdate_def writing_ok_def)

lemma keeps_send_as [keeps_rules]: "keeps (srv_inv b) (send_packet_as p)" "keeps (srv_inv b) (send_packet_as_work q)"
  by (simp_all add: send_packet_as_def send_packet_as_work_def keeps_send)

lemma keeps_on_srp [keeps_rules]: "keeps (srv_inv b) (on_srp f)"
  unfolding on_srp_def by (rule keeps_on_session) (simp add: srv_inv_def writing_ok_def)

lemma keeps_on_db [keeps_rules]: "keeps (srv_inv b) (on_db m)"
  by (auto simp: keeps_def on_db_def srv_inv_def split: prod.split)

lemma keeps_cached [keeps_rules]: "keeps (srv_inv b) (cached_entry now u)"
  by (auto simp: keeps_def cached_entry_def srv_inv_def split: prod.split)

lemma keeps_remember [keeps_rules]: "keeps (srv_inv b) (supdate (remember_account now u salt v))"
  by (rule keeps_supdate) (simp add: srv_inv_def remember_account_def)

lemma keeps_answer [keeps_rules]: "keeps (srv_inv b) (answer_challenge e salt v)"
  by (simp add: answer_challenge_def keeps_rules)

lemma keeps_answer_row [keeps_rules]: "keeps (srv_inv b) (answer_row e u r)"
  by (auto simp: answer_row_def intro!: keeps_rules split: option.split)

lemma keeps_from_db [keeps_rules]: "keeps (srv_inv b) (challenge_from_db e u)"
  unfolding challenge_from_db_def by (intro keeps_rules)

lemma keeps_challenge [keeps_rules]: "keeps (srv_inv b) (auth_logon_challenge e p)"
  by (auto simp: auth_logon_challenge_def keeps_rules Let_def split: sum.split fault.split option.split
      intro!: keeps_rules)

lemma keeps_authenticate [keeps_rules]:
  "keeps (srv_inv b) (sbind (on_session (set_session_mode WORK_SESSION)) (\<lambda>_.
     sbind (on_session (\<lambda>c. c\<lparr>cs_account := handle_auth_state (cs_account c)\<rparr>)) (\<lambda>_. send_packet_as p)))"
proof -
  have "keeps (srv_inv b) (on_session (\<lambda>c. (set_session_mode WORK_SESSION c)
      \<lparr>cs_account := handle_auth_state (cs_account c)\<rparr>))"
    by (rule keeps_on_session)
       (simp add: srv_inv_def set_session_mode_def handle_auth_state_def setIsAuthenticated_def writing_ok_def)
  then have "keeps (srv_inv b) (sbind (on_session (\<lambda>c. (set_session_mode WORK_SESSION c)
      \<lparr>cs_account := handle_auth_state (cs_account c)\<rparr>)) (\<lambda>_. send_packet_as p))"
    by (intro keeps_rules)
  then show ?thesis
    by (simp add: keeps_def on_session_def set_session_mode_def)
qed

lemma keeps_proof [keeps_rules]: "keeps (srv_inv b) (auth_logon_proof e p)"
  by (auto simp: auth_logon_proof_def split: prod.split intro!: keeps_rules)

lemma keeps_auth_dispatch [keeps_rules]: "keeps (srv_inv b) (auth_dispatch e p)"
  by (auto simp: auth_dispatch_def spawn_challenge_def auth_ping_def intro!: keeps_rules
      split: option.split AuthOpcodes.split prod.split)

lemma keeps_work_dispatch [keeps_rules]: "keeps (srv_inv b) (work_dispatch e p)"
  by (auto simp: work_dispatch_def work_ping_def work_message_def intro!: keeps_rules
      split: option.split WorkOpcodes.split prod.split)

subsection \<open>What the readers do\<close>

lemma pending_nth:
  assumes "mb_wf m" "i < length (pending m)"
  shows "read_ptr m ! i = pending m ! i"
  using assms by (simp add: pending_def read_ptr_def)

lemma pending_le_data: "mb_wf m \<Longrightarrow> length (pending m) \<le> length (read_ptr m)"
  by (simp add: pending_def read_ptr_def)

lemma size_small: "n \<le> 2048 \<Longrightarrow> k \<le> 4 \<Longrightarrow> k + n + 4 < size_t_range"
  by (simp add: size_t_range_def)

text \<open>A complete frame in front of the pending bytes deserializes.\<close>

lemma auth_deserialize_front:
  assumes "3 + auth_plen bs \<le> length bs" "auth_plen bs \<le> 2048"
  shows "auth_deserialize h (take (3 + auth_plen bs) bs) AuthPacket_default =
    Inr \<lparr>pk_buffer = \<lparr>bb_buffer = take (auth_plen bs) (drop 3 bs), bb_read_pos = 0\<rparr>, ap_opcode = bs ! 0\<rparr>"
proof -
  let ?raw = "take (3 + auth_plen bs) bs"
  have l: "length ?raw = 3 + auth_plen bs" using assms(1) by simp
  have "auth_plen ?raw = auth_plen bs" by (simp add: auth_plen_def[of "take _ _"] auth_plen_def[of bs])
  moreover have "length ?raw + 3 < size_t_range" using l size_small[OF assms(2), of 3] by simp
  ultimately show ?thesis
    using l by (subst auth_deserialize_cases) (simp_all add: AuthPacket_default_def drop_take)
qed

lemma work_deserialize_front:
  assumes "4 + work_plen bs \<le> length bs" "work_plen bs \<le> 2048"
  shows "work_deserialize h (take (4 + work_plen bs) bs) WorkPacket_default =
    Inr \<lparr>pk_buffer = \<lparr>bb_buffer = take (work_plen bs) (drop 4 bs), bb_read_pos = 0\<rparr>,
         wp_opcode = header_length (bs ! 0) (bs ! 1)\<rparr>"
proof -
  let ?raw = "take (4 + work_plen bs) bs"
  have l: "length ?raw = 4 + work_plen bs" using assms(1) by simp
  have "work_plen ?raw = work_plen bs" by (simp add: work_plen_def[of "take _ _"] work_plen_def[of bs])
  moreover have "length ?raw + 4 < size_t_range" using l size_small[OF assms(2), of 4] by simp
  ultimately show ?thesis
    using l by (subst work_deserialize_cases) (simp_all add: WorkPacket_default_def drop_take)
qed

definition consumed :: "nat \<Rightarrow> 'w srv \<Rightarrow> 'w srv" where
  "consumed n s = s\<lparr>sv_session := (sv_session s)\<lparr>cs_read_buffer :=
     (cs_read_buffer (sv_session s))\<lparr>mb_rpos := mb_rpos (cs_read_buffer (sv_session s)) + n\<rparr>\<rparr>\<rparr>"

lemma auth_reader:
  fixes s :: "'w srv"
  assumes wf: "mb_wf (cs_read_buffer (sv_session s))"
  defines "bs \<equiv> pending (cs_read_buffer (sv_session s))"
  shows "process_read_buffer_as_authserver e s =
    (if length bs < 3 \<or> length bs < 3 + auth_plen bs then (Inr (), s)
     else if auth_plen bs > 2048 then session_close s
     else scatch (auth_dispatch e
            \<lparr>pk_buffer = \<lparr>bb_buffer = take (auth_plen bs) (drop 3 bs), bb_read_pos = 0\<rparr>, ap_opcode = bs ! 0\<rparr>)
          (\<lambda>_. session_close) (consumed (3 + auth_plen bs) s))"
proof -
  let ?m = "cs_read_buffer (sv_session s)"
  have a: "get_active_size ?m = length bs" using length_pending[OF wf] by (simp add: bs_def)
  have d: "length bs \<le> length (read_ptr ?m)" using pending_le_data[OF wf] by (simp add: bs_def)
  show ?thesis
  proof (cases "length bs < 3 \<or> length bs < 3 + auth_plen bs \<or> auth_plen bs > 2048")
    case True
    have "unat (header_length (read_ptr ?m ! 1) (read_ptr ?m ! 2)) = auth_plen bs" if "\<not> length bs < 3"
      using that pending_nth[OF wf, of 1] pending_nth[OF wf, of 2] by (simp add: bs_def auth_plen_def)
    then show ?thesis
      using True a d by (auto simp: process_read_buffer_as_authserver_def Let_def)
  next
    case False
    have h: "unat (header_length (read_ptr ?m ! 1) (read_ptr ?m ! 2)) = auth_plen bs"
      using False pending_nth[OF wf, of 1] pending_nth[OF wf, of 2] by (simp add: bs_def auth_plen_def)
    have t: "take (3 + auth_plen bs) (read_ptr ?m) = take (3 + auth_plen bs) bs"
      using take_read_ptr[OF wf] False by (simp add: bs_def)
    have r: "read_completed (3 + auth_plen bs) ?m = Inr (?m\<lparr>mb_rpos := mb_rpos ?m + (3 + auth_plen bs)\<rparr>)"
      using False by (simp add: read_completed_def a)
    have f: "auth_deserialize (env_host e) (take (3 + auth_plen bs) bs) AuthPacket_default =
        Inr \<lparr>pk_buffer = \<lparr>bb_buffer = take (auth_plen bs) (drop 3 bs), bb_read_pos = 0\<rparr>, ap_opcode = bs ! 0\<rparr>"
      using False by (intro auth_deserialize_front) auto
    have n: "\<not> get_active_size ?m < 3" "\<not> length (read_ptr ?m) < 3" "\<not> get_active_size ?m < 3 + auth_plen bs"
      "\<not> auth_plen bs > 2048" "\<not> length (read_ptr ?m) < 3 + auth_plen bs"
      using False a d by auto
    show ?thesis
      unfolding process_read_buffer_as_authserver_def Let_def h t r f
      using n a by (simp add: on_session_def consumed_def scatch_def)
  qed
qed

lemma work_reader:
  fixes s :: "'w srv"
  assumes wf: "mb_wf (cs_read_buffer (sv_session s))"
  defines "bs \<equiv> pending (cs_read_buffer (sv_session s))"
  shows "process_read_buffer_as_workserver e s =
    (if length bs < 4 \<or> length bs < 4 + work_plen bs then (Inr (), s)
     else if work_plen bs > 2048 then session_close s
     else scatch (work_dispatch e
            \<lparr>pk_buffer = \<lparr>bb_buffer = take (work_plen bs) (drop 4 bs), bb_read_pos = 0\<rparr>,
             wp_opcode = header_length (bs ! 0) (bs ! 1)\<rparr>)
          (\<lambda>_. session_close) (consumed (4 + work_plen bs) s))"
proof -
  let ?m = "cs_read_buffer (sv_session s)"
  have a: "get_active_size ?m = length bs" using length_pending[OF wf] by (simp add: bs_def)
  have d: "length bs \<le> length (read_ptr ?m)" using pending_le_data[OF wf] by (simp add: bs_def)
  show ?thesis
  proof (cases "length bs < 4 \<or> length bs < 4 + work_plen bs \<or> work_plen bs > 2048")
    case True
    have "unat (header_length (read_ptr ?m ! 2) (read_ptr ?m ! 3)) = work_plen bs" if "\<not> length bs < 4"
      using that pending_nth[OF wf, of 2] pending_nth[OF wf, of 3] by (simp add: bs_def work_plen_def)
    then show ?thesis
      using True a d by (auto simp: process_read_buffer_as_workserver_def Let_def)
  next
    case False
    have h: "unat (header_length (read_ptr ?m ! 2) (read_ptr ?m ! 3)) = work_plen bs"
      using False pending_nth[OF wf, of 2] pending_nth[OF wf, of 3] by (simp add: bs_def work_plen_def)
    have t: "take (4 + work_plen bs) (read_ptr ?m) = take (4 + work_plen bs) bs"
      using take_read_ptr[OF wf] False by (simp add: bs_def)
    have r: "read_completed (4 + work_plen bs) ?m = Inr (?m\<lparr>mb_rpos := mb_rpos ?m + (4 + work_plen bs)\<rparr>)"
      using False by (simp add: read_completed_def a)
    have f: "work_deserialize (env_host e) (take (4 + work_plen bs) bs) WorkPacket_default =
        Inr \<lparr>pk_buffer = \<lparr>bb_buffer = take (work_plen bs) (drop 4 bs), bb_read_pos = 0\<rparr>,
             wp_opcode = header_length (bs ! 0) (bs ! 1)\<rparr>"
      using False by (intro work_deserialize_front) auto
    have n: "\<not> get_active_size ?m < 4" "\<not> length (read_ptr ?m) < 4" "\<not> get_active_size ?m < 4 + work_plen bs"
      "\<not> work_plen bs > 2048" "\<not> length (read_ptr ?m) < 4 + work_plen bs"
      using False a d by auto
    show ?thesis
      unfolding process_read_buffer_as_workserver_def Let_def h t r f
      using n a by (simp add: on_session_def consumed_def scatch_def)
  qed
qed

subsection \<open>Events keep the invariant\<close>

lemma srv_inv_mono: "srv_inv b s \<Longrightarrow> b \<le> b' \<Longrightarrow> srv_inv b' s"
  by (auto simp: srv_inv_def)

lemma consumed_buffer:
  assumes "mb_wf (cs_read_buffer (sv_session s))" "n \<le> length (pending (cs_read_buffer (sv_session s)))"
  shows "pending (cs_read_buffer (sv_session (consumed n s))) = drop n (pending (cs_read_buffer (sv_session s)))"
    "mb_wf (cs_read_buffer (sv_session (consumed n s)))"
    "mb_storage (cs_read_buffer (sv_session (consumed n s))) = mb_storage (cs_read_buffer (sv_session s))"
proof -
  let ?m = "cs_read_buffer (sv_session s)"
  have "read_completed n ?m = Inr (?m\<lparr>mb_rpos := mb_rpos ?m + n\<rparr>)"
    using assms by (simp add: read_completed_def)
  with read_completed_ok[OF assms(1), of n] assms(2)
  show "pending (cs_read_buffer (sv_session (consumed n s))) = drop n (pending ?m)"
    "mb_wf (cs_read_buffer (sv_session (consumed n s)))"
    by (auto simp: consumed_def length_pending[OF assms(1)])
qed (simp add: consumed_def)

lemma srv_inv_consumed:
  assumes "srv_inv b s" "n \<le> length (pending (cs_read_buffer (sv_session s)))"
  shows "srv_inv b (consumed n s)"
proof -
  have wf: "mb_wf (cs_read_buffer (sv_session s))" using assms(1) by (simp add: srv_inv_def)
  show ?thesis
    using assms(1) consumed_buffer(2,3)[OF wf assms(2)]
    by (simp add: srv_inv_def consumed_def writing_ok_def)
qed

lemma process_inv:
  assumes inv: "srv_inv b s"
  shows "srv_inv b (snd (process_read_buffer e s))"
proof -
  have wf: "mb_wf (cs_read_buffer (sv_session s))" using inv by (simp add: srv_inv_def)
  have c: "srv_inv b (snd (session_close s))" using keeps_close inv by (auto simp: keeps_def)
  have d: "srv_inv b (snd (scatch m (\<lambda>_. session_close) (consumed n s)))"
    if "keeps (srv_inv b) m" "n \<le> length (pending (cs_read_buffer (sv_session s)))" for m n
    using keeps_scatch[OF that(1) keeps_close] srv_inv_consumed[OF inv that(2)] by (simp add: keeps_def)
  show ?thesis
    using inv c d[OF keeps_auth_dispatch] d[OF keeps_work_dispatch]
    by (cases "cs_mode (sv_session s)") (auto simp: process_read_buffer_def auth_reader[OF wf] work_reader[OF wf])
qed

definition with_buffer :: "message_buffer \<Rightarrow> 'w srv \<Rightarrow> 'w srv" where
  "with_buffer m s = s\<lparr>sv_session := (sv_session s)\<lparr>cs_read_buffer := m\<rparr>\<rparr>"

lemma srv_inv_buffer:
  assumes "srv_inv b s" "mb_wf m" "length (mb_storage m) \<le> b'" "b \<le> b'"
  shows "srv_inv b' (with_buffer m s)"
  using assms by (simp add: srv_inv_def with_buffer_def writing_ok_def)

lemma srv_inv_reading: "srv_inv b (s\<lparr>sv_session := (sv_session s)\<lparr>cs_reading := r\<rparr>\<rparr>) = srv_inv b s"
  by (simp add: srv_inv_def writing_ok_def)

lemma do_read_inv:
  assumes "srv_inv b s" "b + 512 < size_t_range"
  shows "srv_inv (b + 512) (s\<lparr>sv_session := do_read (sv_session s)\<rparr>)"
proof -
  let ?m = "cs_read_buffer (sv_session s)"
  have m: "mb_wf ?m" "length (mb_storage ?m) \<le> b" using assms(1) by (simp_all add: srv_inv_def)
  then have g: "length (mb_storage ?m) + 512 < size_t_range" using assms(2) by simp
  have "srv_inv (b + 512) (with_buffer (ensure_free_space 512 ?m) s)"
    using assms(1) m g mb_wf_ensure[OF m(1) g] length_storage_ensure[OF m(1) g]
    by (intro srv_inv_buffer[of b]) simp_all
  then show ?thesis
    using srv_inv_reading[where b = "b + 512" and s = "with_buffer (ensure_free_space 512 ?m) s" and r = True]
    by (simp add: with_buffer_def do_read_def)
qed

lemma read_handler_received:
  assumes inv: "srv_inv b s" and "isOpened (sv_session s)"
    and room: "length bs \<le> get_remaining_space (cs_read_buffer (sv_session s))"
  obtains m where "receive bs (cs_read_buffer (sv_session s)) = Inr m"
    "pending m = pending (cs_read_buffer (sv_session s)) @ bs" "mb_wf m" "srv_inv b (with_buffer m s)"
    "read_handler e (Received bs) s =
       sbind (process_read_buffer e) (\<lambda>_. on_session (\<lambda>c. if isOpened c then do_read c else c)) (with_buffer m s)"
proof -
  let ?m = "cs_read_buffer (sv_session s)"
  have wf: "mb_wf ?m" and l: "length (mb_storage ?m) \<le> b" using inv by (simp_all add: srv_inv_def)
  obtain m where m: "receive bs ?m = Inr m" using receive_simp[OF wf, of bs] room by simp
  note p = pending_receive[OF wf m]
  show thesis
    using that[OF m p(1,2)] srv_inv_buffer[OF inv p(2), of b] l p(3) assms(2) m
    by (simp add: read_handler_def with_buffer_def on_session_def)
qed

lemma read_event_inv:
  assumes inv: "srv_inv b s" and en: "\<And>bs. r = Received bs \<Longrightarrow> length bs \<le> get_remaining_space (cs_read_buffer (sv_session s))" and lim: "b + 512 < size_t_range"
  shows "srv_inv (b + 512) (snd (read_handler e r s))"
proof (cases r)
  case Read_Error
  have "srv_inv b (snd (session_close s))" using keeps_close inv by (auto simp: keeps_def)
  then show ?thesis using Read_Error by (simp add: read_handler_def srv_inv_mono)
next
  case (Received bs)
  show ?thesis
  proof (cases "isOpened (sv_session s)")
    case False
    then show ?thesis using inv Received by (simp add: read_handler_def srv_inv_mono)
  next
    case True
    obtain m where m: "srv_inv b (with_buffer m s)" "read_handler e (Received bs) s =
       sbind (process_read_buffer e) (\<lambda>_. on_session (\<lambda>c. if isOpened c then do_read c else c)) (with_buffer m s)"
      using read_handler_received[OF inv True en[OF Received], of e] by blast
    obtain q u where u: "process_read_buffer e (with_buffer m s) = (q, u)"
      by (cases "process_read_buffer e (with_buffer m s)")
    have i: "srv_inv b u" using process_inv[OF m(1), of e] u by simp
    show ?thesis
      using u i do_read_inv[OF i lim] srv_inv_mono[OF i, of "b + 512"] Received m(2)
      by (cases q) (auto simp: sbind_def on_session_def supdate_def)
  qed
qed

text \<open>The invariant speaks of the fields a write touches only while the session is open.\<close>

lemma srv_inv_writing:
  assumes "srv_inv b s" "\<not> cs_closed c \<longrightarrow> writing_ok c" "cs_read_buffer c = cs_read_buffer (sv_session s)"
    "cs_mode c = cs_mode (sv_session s)" "cs_account c = cs_account (sv_session s)"
    "cs_closed c = cs_closed (sv_session s)"
  shows "srv_inv b (s\<lparr>sv_session := c\<rparr>)"
  using assms by (simp add: srv_inv_def)

lemma closed_inv:
  assumes "srv_inv b s" "c = (sv_session s)\<lparr>cs_in_flight := i, cs_wire := w\<rparr>"
  shows "srv_inv b (snd (session_close (s\<lparr>sv_session := c\<rparr>)))"
  using assms
  by (simp add: session_close_def srv_inv_def get_session_mode_def remove_session_def handle_close_state_def
      mb_clear_def mb_reset_def mb_wf_def size_t_range_def Let_def)

lemma do_write_ok: "cs_socket_open c \<Longrightarrow> cs_in_flight c = None \<Longrightarrow> writing_ok (do_write c)"
  by (cases "cs_write_queue c") (simp_all add: do_write_def writing_ok_def)

lemma do_write_frame [simp]:
  "cs_read_buffer (do_write c) = cs_read_buffer c" "cs_mode (do_write c) = cs_mode c"
  "cs_account (do_write c) = cs_account c" "cs_closed (do_write c) = cs_closed c"
  "cs_write_queue (do_write c) = cs_write_queue c" "cs_wire (do_write c) = cs_wire c"
  "cs_posted (do_write c) = cs_posted c" "cs_sent (do_write c) = cs_sent c"
  by (simp_all add: do_write_def split: list.split)

lemma write_event_inv:
  assumes "srv_inv b s"
  shows "srv_inv b (snd (session_event e (Write_Done ec) s))"
proof (cases ec)
  case True
  then show ?thesis using closed_inv[OF assms refl, of "cs_wire (sv_session s)" None]
    by (simp add: session_event_def write_handler_def on_session_def)
next
  case False
  let ?c = "(sv_session s)\<lparr>cs_in_flight := None, cs_wire := cs_wire (sv_session s) @ snd (the (cs_in_flight (sv_session s)))\<rparr>"
  show ?thesis
  proof (cases "cs_write_queue (sv_session s)")
    case Nil
    then have "cs_closed (sv_session s) \<or> writing_ok ?c" using assms by (auto simp: srv_inv_def writing_ok_def)
    then show ?thesis using False Nil srv_inv_writing[OF assms, of ?c]
      by (auto simp: session_event_def write_handler_def on_session_def)
  next
    case (Cons x q)
    have "\<not> cs_closed (sv_session s) \<longrightarrow> writing_ok (do_write (?c\<lparr>cs_write_queue := q\<rparr>))"
      using assms by (auto simp: srv_inv_def writing_ok_def[of "sv_session s"] intro!: do_write_ok)
    then show ?thesis using False Cons srv_inv_writing[OF assms, of "do_write (?c\<lparr>cs_write_queue := q\<rparr>)"]
      by (simp add: session_event_def write_handler_def on_session_def supdate_def)
  qed
qed

lemma do_send_packet_ok: "writing_ok c \<Longrightarrow> writing_ok (do_send_packet h p c)"
proof (cases "cs_write_queue c")
  case Nil
  assume "writing_ok c"
  then show ?thesis using Nil by (simp add: do_send_packet_def writing_ok_def do_write_def Let_def)
next
  case (Cons x q)
  assume "writing_ok c"
  then show ?thesis using Cons by (simp add: do_send_packet_def writing_ok_def Let_def)
qed

lemma do_send_packet_frame [simp]:
  "cs_read_buffer (do_send_packet h p c) = cs_read_buffer c" "cs_mode (do_send_packet h p c) = cs_mode c"
  "cs_account (do_send_packet h p c) = cs_account c" "cs_closed (do_send_packet h p c) = cs_closed c"
  "cs_write_queue (do_send_packet h p c) = cs_write_queue c @ [build_packet h p]"
  "cs_wire (do_send_packet h p c) = cs_wire c" "cs_posted (do_send_packet h p c) = cs_posted c"
  "cs_sent (do_send_packet h p c) = cs_sent c"
  by (simp_all add: do_send_packet_def Let_def)

lemma writing_ok_posted: "writing_ok (c\<lparr>cs_posted := ps\<rparr>) = writing_ok c"
  by (simp add: writing_ok_def)

lemma srv_inv_send:
  assumes "srv_inv b s"
  shows "srv_inv b (s\<lparr>sv_session := do_send_packet h p ((sv_session s)\<lparr>cs_posted := ps\<rparr>)\<rparr>)"
proof (rule srv_inv_writing[OF assms])
  show "\<not> cs_closed (do_send_packet h p ((sv_session s)\<lparr>cs_posted := ps\<rparr>)) \<longrightarrow>
      writing_ok (do_send_packet h p ((sv_session s)\<lparr>cs_posted := ps\<rparr>))"
    using assms do_send_packet_ok[of "(sv_session s)\<lparr>cs_posted := ps\<rparr>" h p]
    by (simp add: srv_inv_def writing_ok_posted)
qed simp_all

lemma posted_event_inv: "srv_inv b s \<Longrightarrow> srv_inv b (snd (run_posted e s))"
  using srv_inv_send by (simp add: run_posted_def on_session_def supdate_def)

lemma session_event_inv:
  assumes "srv_inv b s" "event_enabled ev (sv_session s)" "b + 512 < size_t_range"
  shows "srv_inv (b + 512) (snd (session_event e ev s))"
proof (cases ev)
  case (Read_Done r)
  let ?s = "s\<lparr>sv_session := (sv_session s)\<lparr>cs_reading := False\<rparr>\<rparr>"
  have "srv_inv (b + 512) (snd (read_handler e r ?s))"
    using assms Read_Done by (intro read_event_inv) (simp_all add: srv_inv_reading event_enabled_def)
  then show ?thesis using Read_Done by (simp add: session_event_def on_session_def)
next
  case (Write_Done ec)
  then show ?thesis using srv_inv_mono[OF write_event_inv[OF assms(1), of e ec], of "b + 512"] by simp
next
  case Run_Posted
  then show ?thesis
    using srv_inv_mono[OF posted_event_inv[OF assms(1), of e], of "b + 512"] by (simp add: session_event_def)
qed


lemma new_session_inv:
  assumes "openssl_ok ssl" "new_session ssl cache db = Inr s"
  shows "srv_inv 4608 s"
proof -
  let ?a = "\<lparr>ai_srp = fresh ssl, ai_isAuth = False\<rparr>"
  let ?c = "\<lparr>cs_account = ?a, cs_read_buffer = MessageBuffer 4096, cs_write_queue = [], cs_writing = False,
          cs_closed = False, cs_mode = AUTH_SESSION, cs_posted = [], cs_reading = False,
          cs_in_flight = None, cs_socket_open = True, cs_wire = [], cs_sent = []\<rparr>"
  let ?s = "\<lparr>sv_session = ?c, sv_cache = cache, sv_db = db, sv_registered = True\<rparr>"
  have i: "srv_inv 4096 ?s"
    by (simp add: srv_inv_def writing_ok_def mb_wf_def MessageBuffer_def size_t_range_def)
  have "s = ?s\<lparr>sv_session := do_read ?c\<rparr>"
    using assms(2)
    by (simp add: new_session_def ClientSession_def AccountInfo_def SRP6_fresh[OF assms(1)] session_start_def
        on_session_def set_session_mode_def supdate_def do_read_def)
  then show ?thesis using do_read_inv[OF i] by (simp add: size_t_range_def)
qed

text \<open>Each read adds at most 512 bytes to the buffer, so \<open>n\<close> events need a bound that fits a \<open>size_t\<close>.\<close>

lemma reach_inv:
  assumes "session_reach s0 n s" "srv_inv 4608 s0" "4608 + 512 * n < size_t_range"
  shows "srv_inv (4608 + 512 * n) s"
  using assms
proof (induction rule: session_reach.induct)
  case (event n s ev e s')
  then have "srv_inv (4608 + 512 * n) s" by simp
  from session_event_inv[OF this event.hyps(2), of e] event show ?case by simp
qed simp

subsection \<open>Freedom from faults while open\<close>

text \<open>
  The library calls of the database never have undefined behaviour themselves, and OpenSSL behaves
  as documented.
\<close>

definition env_ok :: "'w env \<Rightarrow> bool" where
  "env_ok e \<longleftrightarrow> openssl_ok (env_ssl e) \<and> pqxx_defined (env_pq e)"

lemma env_ok_db: "env_ok e \<Longrightarrow> defined (execute_sync (env_pq e) (accounts_struct (env_mktime e)) stmt)"
  by (rule defined_execute_sync) (simp_all add: env_ok_def accounts_struct_def map_accounts_row_defined)

lemma defined_on_session [defined_rules]: "defined (on_session f)" "defined (on_srp g)"
  by (simp_all add: on_session_def on_srp_def defined_rules)

lemma defined_close [defined_rules]: "defined session_close"
  by (simp add: defined_def session_close_def Let_def)

lemma defined_send [defined_rules]: "defined (send_packet p)" "defined (send_packet_as q)" "defined (send_packet_as_work r)"
  by (simp_all add: defined_def send_packet_def send_packet_as_def send_packet_as_work_def on_session_def supdate_def)

lemma defined_cached [defined_rules]: "defined (cached_entry now u)"
  by (simp add: defined_def cached_entry_def split: prod.split)

lemma bn_vector_defined: "openssl_ok ssl \<Longrightarrow> rbind (bn_vector ssl n) (\<lambda>raw. pad_bytes_left raw 32) \<noteq> Inl Undefined"
  by (simp add: bn_vector_ok pad_bytes_left_def)

lemma defined_answer: "openssl_ok (env_ssl e) \<Longrightarrow> defined (answer_challenge e salt v)"
  unfolding answer_challenge_def get_B_bytes_def get_N_bytes_def
  by (intro defined_rules defined_slift bn_vector_defined)

lemma defined_on_db: "defined m \<Longrightarrow> defined (on_db m)"
  by (auto simp: defined_def on_db_def split: prod.split) (metis fst_conv)

lemma set_param_0: "set_param 0 u (PreparedStatement name) = Inr \<lparr>ps_name = name, ps_params = [Some u]\<rparr>"
  by (simp add: set_param_def ensure_size_def PreparedStatement_def assign_param_def size_t_range_def Let_def)

lemma defined_answer_row: "openssl_ok (env_ssl e) \<Longrightarrow> defined (answer_row e u r)"
  by (auto simp: answer_row_def intro!: defined_rules defined_answer split: option.split)

lemma defined_from_db: "env_ok e \<Longrightarrow> defined (challenge_from_db e u)"
  unfolding challenge_from_db_def set_param_0
  by (intro defined_rules defined_slift defined_on_db env_ok_db defined_answer_row) (simp_all add: env_ok_def)

lemma read_nt_total: "\<exists>u q. pk_read_string_nt_le p = Inr (u, q)"
  by (simp add: pk_read_string_nt_le_def packet_read_def read_string_nt_le_def split: prod.split)

lemma defined_challenge: "env_ok e \<Longrightarrow> defined (auth_logon_challenge e p)"
  using read_nt_total[of p] unfolding auth_logon_challenge_def
  by (auto simp: Let_def intro!: defined_rules defined_answer defined_from_db split: option.split)
     (simp_all add: env_ok_def)

text \<open>A packet as the readers pass it on: unread, with at most 2048 bytes of payload.\<close>

definition unread :: "'a packet_scheme \<Rightarrow> bool" where
  "unread p \<longleftrightarrow> bb_read_pos (pk_buffer p) = 0 \<and> length (bb_buffer (pk_buffer p)) \<le> 2048"

lemma read_bytes_cases:
  assumes "bb_read_pos b + n < size_t_range"
  shows "read_bytes n b =
    (if bb_read_pos b + n \<le> length (bb_buffer b)
     then Inr (take n (drop (bb_read_pos b) (bb_buffer b)), advance n b)
     else Inl (Thrown (out_of_range ''ByteBuffer: not enough data to read'')))"
  using assms by (simp add: read_bytes_def check_read_exact)

lemma small_positions: "n \<le> 100 \<Longrightarrow> n < size_t_range"
  by (simp add: size_t_range_def)

lemma ping_read:
  assumes "unread p"
  shows "pk_read_uint32_le h p =
    (if 4 \<le> length (bb_buffer (pk_buffer p))
     then Inr (of_le_bytes (take 4 (bb_buffer (pk_buffer p))), p\<lparr>pk_buffer := advance 4 (pk_buffer p)\<rparr>)
     else Inl (Thrown (out_of_range ''ByteBuffer: not enough data to read'')))"
  using assms small_positions[of 4]
  by (simp add: pk_read_uint32_le_def packet_read_def read_uint32_le_def read_scalar_cases unread_def)

text \<open>The two reads of a logon proof.\<close>

lemma proof_read:
  assumes "unread p"
  shows "rbind (pk_read_bytes 32 p) (\<lambda>(A, q). rbind (pk_read_bytes 20 q) (\<lambda>(M1, _). Inr (A, M1))) =
    (if 52 \<le> length (bb_buffer (pk_buffer p))
     then Inr (take 32 (bb_buffer (pk_buffer p)), take 20 (drop 32 (bb_buffer (pk_buffer p))))
     else Inl (Thrown (out_of_range ''ByteBuffer: not enough data to read'')))"
  using assms small_positions[of 32] small_positions[of 52]
  by (auto simp: pk_read_bytes_def packet_read_def read_bytes_cases unread_def advance_def)

lemma auth_logon_proof_alt:
  "auth_logon_proof e p =
     scatch
       (sbind (slift (rbind (pk_read_bytes 32 p) (\<lambda>(A, q). rbind (pk_read_bytes 20 q) (\<lambda>(M1, _). Inr (A, M1)))))
         (\<lambda>(A, M1).
          sbind (on_session (set_session_mode WORK_SESSION)) (\<lambda>_.
          sbind (on_session (\<lambda>c. c\<lparr>cs_account := handle_auth_state (cs_account c)\<rparr>)) (\<lambda>_.
          send_packet_as (pk_write_bytes (SHA1 (env_ssl e) (A @ M1)) (AuthPacket SMSG_AUTH_LOGON_PROOF))))))
       (\<lambda>ex. send_packet_as (auth_failure INTERNAL_ERROR))"
  unfolding auth_logon_proof_def verify_client_proof_def
  by (rule arg_cong2[where f = scatch])
     (auto simp: fun_eq_iff sbind_def slift_def sget_def rbind_def split: sum.split prod.split)

lemma defined_proof: "unread p \<Longrightarrow> defined (auth_logon_proof e p)"
  unfolding auth_logon_proof_alt
  by (simp only: proof_read) (auto intro!: defined_rules defined_slift split: prod.split)

text \<open>The packet of a logon challenge whose coroutine has not started when \<open>co_spawn\<close> returns.\<close>

definition dangles :: "'w env \<Rightarrow> auth_packet \<Rightarrow> bool" where
  "dangles e p \<longleftrightarrow> \<not> env_spawn_inline e \<and> auth_enum (auth_get_opcode p) = Some CMSG_AUTH_LOGON_CHALLENGE"

lemma dangles_dispatch: "dangles e p \<Longrightarrow> auth_dispatch e p s = (Inl Undefined, s)"
  by (simp add: dangles_def auth_dispatch_def spawn_challenge_def slift_def)

lemma defined_auth_dispatch: "env_ok e \<Longrightarrow> unread p \<Longrightarrow> \<not> dangles e p \<Longrightarrow> defined (auth_dispatch e p)"
  using defined_challenge[of e p] defined_proof[of p e]
  by (auto simp: dangles_def auth_dispatch_def spawn_challenge_def auth_ping_def ping_read
      intro!: defined_rules defined_slift split: option.split AuthOpcodes.split prod.split)

lemma defined_work_dispatch: "unread p \<Longrightarrow> defined (work_dispatch e p)"
  using read_nt_total[of p]
  by (auto simp: work_dispatch_def work_ping_def work_message_def ping_read
      intro!: defined_rules defined_slift split: option.split WorkOpcodes.split prod.split)

lemma close_returns: "\<exists>x t. session_close s = (Inr x, t)"
  by (simp add: session_close_def Let_def)

lemma scatch_close_returns: "defined m \<Longrightarrow> fst (scatch m (\<lambda>_. session_close) s) = Inr ()"
proof -
  assume "defined m"
  then obtain x t where "scatch m (\<lambda>_. session_close) s = (Inr x, t)"
    using scatch_Inr[of m "\<lambda>_. session_close" s] close_returns by blast
  then show ?thesis by simp
qed

text \<open>The packet that the reader of the authentication stage takes from the pending bytes.\<close>

definition auth_front :: "bytes \<Rightarrow> auth_packet option" where
  "auth_front bs =
     (if length bs < 3 \<or> length bs < 3 + auth_plen bs \<or> 2048 < auth_plen bs then None
      else Some \<lparr>pk_buffer = \<lparr>bb_buffer = take (auth_plen bs) (drop 3 bs), bb_read_pos = 0\<rparr>, ap_opcode = bs ! 0\<rparr>)"

definition bytes_dangle :: "'w env \<Rightarrow> bytes \<Rightarrow> session \<Rightarrow> bool" where
  "bytes_dangle e bs c \<longleftrightarrow> cs_mode c = AUTH_SESSION \<and> (case auth_front bs of None \<Rightarrow> False | Some p \<Rightarrow> dangles e p)"

lemma process_outcome:
  assumes "srv_inv b s" "env_ok e"
  shows "fst (process_read_buffer e s) =
    (if bytes_dangle e (pending (cs_read_buffer (sv_session s))) (sv_session s) then Inl Undefined else Inr ())"
proof -
  have wf: "mb_wf (cs_read_buffer (sv_session s))" using assms(1) by (simp add: srv_inv_def)
  have a: "fst (scatch (auth_dispatch e p) (\<lambda>_. session_close) u) = (if dangles e p then Inl Undefined else Inr ())"
    if "unread p" for p u
  proof (cases "dangles e p")
    case True
    then show ?thesis by (simp add: scatch_def dangles_dispatch)
  next
    case False
    then show ?thesis using scatch_close_returns[OF defined_auth_dispatch[OF assms(2) that False]] by simp
  qed
  have w: "fst (scatch (work_dispatch e p) (\<lambda>_. session_close) u) = Inr ()" if "unread p" for p u
    by (rule scatch_close_returns[OF defined_work_dispatch[OF that]])
  show ?thesis
    using a w close_returns[of s]
    by (cases "cs_mode (sv_session s)")
       (auto simp: process_read_buffer_def auth_reader[OF wf] work_reader[OF wf] unread_def bytes_dangle_def auth_front_def)
qed

lemma process_returns:
  assumes "srv_inv b s" "env_ok e" "\<not> bytes_dangle e (pending (cs_read_buffer (sv_session s))) (sv_session s)"
  shows "\<exists>s'. process_read_buffer e s = (Inr (), s')"
  using process_outcome[OF assms(1,2)] assms(3) by (metis prod.collapse)

lemma inline_never_dangles: "env_spawn_inline e \<Longrightarrow> \<not> bytes_dangle e bs c"
  by (simp add: bytes_dangle_def dangles_def split: option.split)

text \<open>The event whose handler spawns a coroutine that outlives its packet.\<close>

definition event_dangles :: "'w env \<Rightarrow> session_event \<Rightarrow> session \<Rightarrow> bool" where
  "event_dangles e ev c =
     (case ev of
        Read_Done (Received bs) \<Rightarrow> bytes_dangle e (pending (cs_read_buffer c) @ bs) c
      | _ \<Rightarrow> False)"

lemma open_event_outcome:
  assumes inv: "srv_inv b s" and op: "\<not> cs_closed (sv_session s)" and en: "event_enabled ev (sv_session s)"
    and ok: "env_ok e"
  shows "fst (session_event e ev s) = (if event_dangles e ev (sv_session s) then Inl Undefined else Inr ())"
proof (cases ev)
  case (Read_Done r)
  let ?s = "s\<lparr>sv_session := (sv_session s)\<lparr>cs_reading := False\<rparr>\<rparr>"
  have i: "srv_inv b ?s" using inv by (simp add: srv_inv_reading)
  have ev': "session_event e ev s = read_handler e r ?s" using Read_Done by (simp add: session_event_def on_session_def)
  show ?thesis
  proof (cases r)
    case Read_Error
    then show ?thesis using close_returns[of ?s] ev' Read_Done by (auto simp: read_handler_def event_dangles_def)
  next
    case (Received bs)
    have o: "isOpened (sv_session ?s)" using op by (simp add: isOpened_def)
    have l: "length bs \<le> get_remaining_space (cs_read_buffer (sv_session ?s))"
      using en Read_Done Received by (simp add: event_enabled_def)
    obtain m where m: "pending m = pending (cs_read_buffer (sv_session ?s)) @ bs" "srv_inv b (with_buffer m ?s)"
      "read_handler e (Received bs) ?s =
        sbind (process_read_buffer e) (\<lambda>_. on_session (\<lambda>c. if isOpened c then do_read c else c)) (with_buffer m ?s)"
      using read_handler_received[OF i o l, of e] by blast
    have "fst (process_read_buffer e (with_buffer m ?s)) =
        (if bytes_dangle e (pending (cs_read_buffer (sv_session s)) @ bs) (sv_session s) then Inl Undefined else Inr ())"
      using process_outcome[OF m(2) ok] m(1) by (simp add: with_buffer_def bytes_dangle_def)
    then show ?thesis using ev' Read_Done Received m(3)
      by (cases "process_read_buffer e (with_buffer m ?s)")
         (auto simp: event_dangles_def sbind_def on_session_def supdate_def split: if_splits)
  qed
next
  case (Write_Done ec)
  have "cs_write_queue (sv_session s) \<noteq> []"
    using inv op en Write_Done by (auto simp: srv_inv_def writing_ok_def event_enabled_def)
  then have "\<exists>s'. session_event e ev s = (Inr (), s')"
    using Write_Done close_returns
    by (cases ec) (auto simp: session_event_def write_handler_def on_session_def supdate_def sbind_def
        split: list.split)
  then show ?thesis using Write_Done by (auto simp: event_dangles_def)
next
  case Run_Posted
  then show ?thesis by (simp add: session_event_def run_posted_def on_session_def supdate_def event_dangles_def)
qed

end
