(* ===== verification/Sending.thy ===== *)
theory Sending
  imports Purity_Prelude
begin

text \<open>
  Both ends of a connection send through a queue of packets of which only the head is being written.
  The contract of a sender with a queue: a packet joins the end of the queue, and a completed write
  moves the head of the queue to the wire. Then the wire followed by the queue is the sequence of
  everything sent, in order, whatever the interleaving.
\<close>

locale ordered_sender =
  fixes wire :: "'s \<Rightarrow> bytes"
    and queue :: "'s \<Rightarrow> bytes list"
    and ready :: "'s \<Rightarrow> bool"
    and enc :: "'p \<Rightarrow> bytes"
    and send :: "'p \<Rightarrow> 's \<Rightarrow> 's"
    and finish :: "'s \<Rightarrow> 's"
  assumes send_law: "ready s \<Longrightarrow> ready (send p s) \<and> wire (send p s) = wire s \<and> queue (send p s) = queue s @ [enc p]"
    and finish_law: "ready s \<Longrightarrow> queue s \<noteq> [] \<Longrightarrow>
      ready (finish s) \<and> wire (finish s) = wire s @ hd (queue s) \<and> queue (finish s) = tl (queue s)"
begin

lemma send_stream: "ready s \<Longrightarrow> wire (send p s) @ concat (queue (send p s)) = wire s @ concat (queue s) @ enc p"
  by (simp add: send_law)

lemma finish_stream:
  assumes "ready s" "queue s \<noteq> []"
  shows "wire (finish s) @ concat (queue (finish s)) = wire s @ concat (queue s)"
  using finish_law[OF assms] assms(2) by (cases "queue s") simp_all

end

end
