(* ===== verification/Session_Properties.thy ===== *)
theory Session_Properties
  imports Session Sending
begin

text \<open>
  Properties of the session component: the invariant of reachable sessions, the absence of faults
  while a session is open, the answers of the handlers, the order of the bytes sent, and the
  behaviours at the edges (a write that completes after closing, packets that arrive together).
\<close>

subsection \<open>Surroundings for the witnesses\<close>

definition down_pq :: "(unit, pq_row) pqxx" where
  "down_pq =
     \<lparr>pq_connect = (\<lambda>c info w. (Inl (Thrown broken_connection), w)), pq_is_open = (\<lambda>c w. False),
      pq_disconnect = (\<lambda>c w. w), pq_destroy = (\<lambda>c w. w), pq_begin = (\<lambda>c w. (Inr (), w)),
      pq_prepare = (\<lambda>c nm sql w. (Inr (), w)), pq_exec_prepared = (\<lambda>c nm ps w. (Inr [], w)),
      pq_commit = (\<lambda>c w. (Inr (), w))\<rparr>"

definition sample_env :: "unit env" where
  "sample_env = \<lparr>env_ssl = sample_openssl, env_pq = down_pq, env_mktime = (\<lambda>_. 0), env_host = Little_Endian,
     env_spawn_inline = True, env_now = 0, env_rnd = [2]\<rparr>"

definition empty_db :: "unit database" where
  "empty_db = \<lparr>db_conninfo = [], db_connections = [], db_allocated = 0, db_world = ()\<rparr>"

definition sample_session :: "unit srv" where
  "sample_session =
     \<lparr>sv_session = do_read
        \<lparr>cs_account = \<lparr>ai_srp = fresh sample_openssl, ai_isAuth = False\<rparr>, cs_read_buffer = MessageBuffer 4096,
         cs_write_queue = [], cs_writing = False, cs_closed = False, cs_mode = AUTH_SESSION, cs_posted = [],
         cs_reading = False, cs_in_flight = None, cs_socket_open = True, cs_wire = [], cs_sent = []\<rparr>,
      sv_cache = AccountCache default_ttl default_cleanup_interval, sv_db = empty_db, sv_registered = True\<rparr>"

lemma sample_new_session:
  "new_session sample_openssl (AccountCache default_ttl default_cleanup_interval) empty_db = Inr sample_session"
  by (simp add: new_session_def ClientSession_def AccountInfo_def SRP6_fresh[OF sample_openssl_ok] session_start_def
      on_session_def set_session_mode_def supdate_def sample_session_def do_read_def)

lemma sample_env_ok: "env_ok sample_env"
  by (simp add: env_ok_def sample_env_def sample_openssl_ok pqxx_defined_def down_pq_def defined_def)

lemmas sample_defs = sample_session_def sample_env_def empty_db_def do_read_def

subsection \<open>Invariants\<close>

text \<open>
  C3. In every state a session reaches, whatever bytes arrive and whatever the database and the cache
  answer: it is authenticated exactly in work mode; it is registered with the server exactly while
  it is open; while it is open, at most one write is under way, on the head of the queue, and one
  is under way whenever the queue is not empty; and the receive buffer has grown by at most 512
  bytes per event.
\<close>

theorem session_invariant:
  assumes "openssl_ok ssl" "new_session ssl cache db = Inr s0" "session_reach s0 n s"
    "4608 + 512 * n < size_t_range"
  shows "(cs_mode (sv_session s) = WORK_SESSION \<longleftrightarrow> ai_isAuth (cs_account (sv_session s))) \<and>
    (sv_registered s \<longleftrightarrow> \<not> cs_closed (sv_session s)) \<and>
    (\<not> cs_closed (sv_session s) \<longrightarrow> cs_in_flight (sv_session s) =
       (case cs_write_queue (sv_session s) of [] \<Rightarrow> None | q # _ \<Rightarrow> Some (True, q))) \<and>
    length (mb_storage (cs_read_buffer (sv_session s))) \<le> 4608 + 512 * n"
  using reach_inv[OF assms(3) new_session_inv[OF assms(1,2)] assms(4)]
  by (simp add: srv_inv_def writing_ok_def)

theorem session_invariant_witness:
  "sv_registered sample_session \<and> \<not> cs_closed (sv_session sample_session) \<and>
   cs_in_flight (sv_session sample_session) = None"
proof -
  have "4608 + 512 * 0 < size_t_range" by (simp add: size_t_range_def)
  from session_invariant[OF sample_openssl_ok sample_new_session session_reach.init this]
  show ?thesis by (simp add: sample_defs)
qed

lemma challenge_opcode: "auth_enum (auth_get_opcode p) = Some CMSG_AUTH_LOGON_CHALLENGE \<longleftrightarrow>
    ap_opcode p = auth_code CMSG_AUTH_LOGON_CHALLENGE"
  by (auto simp: auth_get_opcode_def simp del: auth_code.simps dest: auth_enum_SomeD)

lemma closed_event_outcome:
  assumes "cs_closed (sv_session s)"
  shows "fst (session_event e ev s) = (if ev = Write_Done False \<and> cs_write_queue (sv_session s) = [] then Inl Undefined else Inr ())"
proof (cases ev)
  case (Read_Done r)
  then show ?thesis using assms
    by (cases r) (simp_all add: session_event_def on_session_def read_handler_def session_close_def isOpened_def)
next
  case (Write_Done ec)
  then show ?thesis using assms
    by (cases ec) (simp_all add: session_event_def on_session_def write_handler_def session_close_def supdate_def split: list.split)
next
  case Run_Posted
  then show ?thesis by (simp add: session_event_def run_posted_def on_session_def supdate_def)
qed

text \<open>
  C1. What can go wrong in a session, exactly. In every state a session reaches, when OpenSSL and pqxx
  behave as documented, every completion handler returns, for any bytes the peer sends: no exception
  reaches the I/O thread and nothing undefined happens, with two exceptions. A write that completes
  without an error after the session was closed, and its queue emptied, removes the front of the
  empty queue. And a read that completes a logon challenge ends in a use of the destroyed packet when
  \<open>co_spawn\<close> does not start the coroutine before it returns, which Asio leaves open, since the
  coroutine holds the packet by reference. (The handlers of a session run one after the other.)
\<close>

theorem session_outcome:
  assumes "openssl_ok ssl" "new_session ssl cache db = Inr s0" "session_reach s0 n s"
    "4608 + 512 * n < size_t_range" "env_ok e" "event_enabled ev (sv_session s)"
  shows "fst (session_event e ev s) =
    (if ev = Write_Done False \<and> cs_write_queue (sv_session s) = [] \<or>
        \<not> env_spawn_inline e \<and> \<not> cs_closed (sv_session s) \<and> cs_mode (sv_session s) = AUTH_SESSION \<and>
        (\<exists>bs p. ev = Read_Done (Received bs) \<and> auth_front (pending (cs_read_buffer (sv_session s)) @ bs) = Some p \<and>
          ap_opcode p = auth_code CMSG_AUTH_LOGON_CHALLENGE)
     then Inl Undefined else Inr ())"
proof (cases "cs_closed (sv_session s)")
  case True
  then show ?thesis using closed_event_outcome[OF True] by simp
next
  case False
  have inv: "srv_inv (4608 + 512 * n) s" by (rule reach_inv[OF assms(3) new_session_inv[OF assms(1,2)] assms(4)])
  have w: "cs_write_queue (sv_session s) \<noteq> []" if "ev = Write_Done False"
    using inv False assms(6) that by (auto simp: srv_inv_def writing_ok_def event_enabled_def)
  have "event_dangles e ev (sv_session s) \<longleftrightarrow> \<not> env_spawn_inline e \<and> cs_mode (sv_session s) = AUTH_SESSION \<and>
      (\<exists>bs p. ev = Read_Done (Received bs) \<and> auth_front (pending (cs_read_buffer (sv_session s)) @ bs) = Some p \<and>
        ap_opcode p = auth_code CMSG_AUTH_LOGON_CHALLENGE)"
    by (auto simp: event_dangles_def bytes_dangle_def dangles_def challenge_opcode simp del: auth_code.simps
        split: session_event.split read_result.split option.splits)
  then show ?thesis using open_event_outcome[OF inv False assms(6,5)] w False by auto
qed

lemma sample_reads: "length bs \<le> 512 \<Longrightarrow> event_enabled (Read_Done (Received bs)) (sv_session sample_session)"
  using ensure_room[of "MessageBuffer 4096" 512]
  by (simp add: event_enabled_def sample_defs mb_wf_def MessageBuffer_def size_t_range_def)

lemma sample_pending: "pending (cs_read_buffer (sv_session sample_session)) = []"
  using pending_ensure[of "MessageBuffer 4096" 512]
  by (simp add: sample_session_def do_read_def size_t_range_def MessageBuffer_def mb_wf_def pending_def)

theorem session_outcome_witness:
  "fst (session_event sample_env (Read_Done (Received [9, 0, 0])) sample_session) = Inr () \<and>
   fst (session_event (sample_env\<lparr>env_spawn_inline := False\<rparr>) (Read_Done (Received [3, 0, 0])) sample_session) = Inl Undefined"
proof -
  have l: "4608 + 512 * 0 < size_t_range" by (simp add: size_t_range_def)
  have o: "\<not> cs_closed (sv_session sample_session)" by (simp add: sample_defs)
  have m: "cs_mode (sv_session sample_session) = AUTH_SESSION" by (simp add: sample_defs)
  have k: "env_ok (sample_env\<lparr>env_spawn_inline := False\<rparr>)" using sample_env_ok by (simp add: env_ok_def)
  have e: "event_enabled (Read_Done (Received [x, 0, 0])) (sv_session sample_session)" for x
    by (rule sample_reads) simp
  have p: "\<exists>p. auth_front (pending (cs_read_buffer (sv_session sample_session)) @ [3, 0, 0]) = Some p \<and>
      ap_opcode p = auth_code CMSG_AUTH_LOGON_CHALLENGE"
    by (simp add: auth_front_def auth_plen_def header_length_def sample_pending)
  have i: "env_spawn_inline sample_env" by (simp add: sample_env_def)
  note out = session_outcome[OF sample_openssl_ok sample_new_session session_reach.init l _ e]
  show ?thesis using out[OF sample_env_ok, of 9] out[OF k, of 3] m p i o by simp
qed

subsection \<open>What the readers keep\<close>

lemma keepsI: "(\<And>s t r. I s \<Longrightarrow> m s = (r, t) \<Longrightarrow> I t) \<Longrightarrow> keeps I m"
  by (simp add: keeps_def) (metis prod.collapse)

lemma keeps_process:
  assumes "keeps I session_close" "\<And>p. keeps I (auth_dispatch e p)" "\<And>p. keeps I (work_dispatch e p)"
    "\<And>m. keeps I (on_session (\<lambda>c. c\<lparr>cs_read_buffer := m\<rparr>))"
  shows "keeps I (process_read_buffer e)"
proof -
  have "keeps I (process_read_buffer_as_authserver e)" "keeps I (process_read_buffer_as_workserver e)"
  proof -
    have a: "keeps I (sbind (slift r) (\<lambda>buffer'. sbind (on_session (\<lambda>c. c\<lparr>cs_read_buffer := buffer'\<rparr>)) (\<lambda>_.
        scatch (sbind (slift d) (auth_dispatch e)) (\<lambda>ex. session_close))))" for r d
      by (intro keeps_rules assms)
    have w: "keeps I (sbind (slift r) (\<lambda>buffer'. sbind (on_session (\<lambda>c. c\<lparr>cs_read_buffer := buffer'\<rparr>)) (\<lambda>_.
        scatch (sbind (slift d) (work_dispatch e)) (\<lambda>ex. session_close))))" for r d
      by (intro keeps_rules assms)
    show "keeps I (process_read_buffer_as_authserver e)"
      using a assms(1) by (simp add: keeps_def process_read_buffer_as_authserver_def Let_def)
    show "keeps I (process_read_buffer_as_workserver e)"
      using w assms(1) by (simp add: keeps_def process_read_buffer_as_workserver_def Let_def)
  qed
  then show ?thesis by (simp add: keeps_def process_read_buffer_def split: SessionMode.split)
qed

lemma keeps_read_handler:
  assumes "keeps I session_close" "\<And>p. keeps I (auth_dispatch e p)" "\<And>p. keeps I (work_dispatch e p)"
    "\<And>m. keeps I (on_session (\<lambda>c. c\<lparr>cs_read_buffer := m\<rparr>))"
    "keeps I (on_session (\<lambda>c. if isOpened c then do_read c else c))"
  shows "keeps I (read_handler e q)"
proof (cases q)
  case Read_Error
  then show ?thesis using assms(1) by (simp add: read_handler_def)
next
  case (Received bs)
  have "keeps I (sbind (slift r) (\<lambda>buffer. sbind (on_session (\<lambda>c. c\<lparr>cs_read_buffer := buffer\<rparr>)) (\<lambda>_.
      sbind (process_read_buffer e) (\<lambda>_. on_session (\<lambda>c. if isOpened c then do_read c else c)))))" for r
    by (intro keeps_rules assms keeps_process)
  then show ?thesis using Received by (simp add: keeps_def read_handler_def)
qed

subsection \<open>Closing while a write is under way\<close>

text \<open>
  A write that completes after the session was closed is undefined behaviour. When a read fails
  while a write is under way, \<open>close()\<close> empties the write queue; if that write had already succeeded,
  its completion handler then removes the front of the empty queue.
\<close>

theorem write_completion_after_close:
  assumes "\<not> cs_closed (sv_session s)" "cs_reading (sv_session s)" "cs_in_flight (sv_session s) = Some (True, w)"
  shows "\<exists>s1. session_event e (Read_Done Read_Error) s = (Inr (), s1) \<and>
    event_enabled (Write_Done False) (sv_session s1) \<and>
    fst (session_event e' (Write_Done False) s1) = Inl Undefined"
  using assms
  by (auto simp: session_event_def on_session_def read_handler_def session_close_def Let_def remove_session_def
      get_session_mode_def handle_close_state_def event_enabled_def write_handler_def)

text \<open>A session that has received a ping and is writing the answer.\<close>

definition pong_posted :: "unit srv" where
  "pong_posted = sample_session\<lparr>sv_session :=
     (sv_session sample_session)\<lparr>cs_posted := [Auth_Packet (AuthPacket Auth_SMSG_PONG)]\<rparr>\<rparr>"

definition answering :: "unit srv" where
  "answering = snd (session_event sample_env Run_Posted pong_posted)"

theorem write_completion_after_close_witness:
  "\<exists>s1. session_event sample_env (Read_Done Read_Error) answering = (Inr (), s1) \<and>
    fst (session_event sample_env (Write_Done False) s1) = Inl Undefined"
proof -
  have "\<not> cs_closed (sv_session answering)" "cs_reading (sv_session answering)"
    "cs_in_flight (sv_session answering) =
       Some (True, auth_build_packet Little_Endian (AuthPacket Auth_SMSG_PONG))"
    by (simp_all add: answering_def pong_posted_def session_event_def run_posted_def on_session_def supdate_def do_send_packet_def
        do_write_def sample_defs Let_def)
  from write_completion_after_close[OF this, of sample_env sample_env] show ?thesis by blast
qed


subsection \<open>One packet per read\<close>

text \<open>The handlers leave the receive buffer and the closing of the session alone.\<close>

definition steady :: "message_buffer \<Rightarrow> bool \<Rightarrow> 'w srv \<Rightarrow> bool" where
  "steady m c s \<longleftrightarrow> cs_read_buffer (sv_session s) = m \<and> cs_closed (sv_session s) = c"

lemma steady_session: "(\<And>c. cs_read_buffer (f c) = cs_read_buffer c \<and> cs_closed (f c) = cs_closed c) \<Longrightarrow>
    keeps (steady m k) (on_session f)"
  by (rule keeps_on_session) (simp add: steady_def)

lemma steady_basic [keeps_rules]:
  "keeps (steady m k) (on_srp f)" "keeps (steady m k) (on_db d)" "keeps (steady m k) (cached_entry now u)"
  "keeps (steady m k) (supdate (remember_account now' u' salt v))" "keeps (steady m k) (send_packet p)"
  "keeps (steady m k) (send_packet_as q)" "keeps (steady m k) (send_packet_as_work r)"
  "keeps (steady m k) (on_session (set_session_mode mode))"
  "keeps (steady m k) (on_session (\<lambda>c. c\<lparr>cs_account := handle_auth_state (cs_account c)\<rparr>))"
  by (auto simp: keeps_def steady_def on_srp_def on_session_def supdate_def on_db_def cached_entry_def
      send_packet_def send_packet_as_def send_packet_as_work_def set_session_mode_def remember_account_def
      split: prod.split)

lemma steady_challenge: "keeps (steady m k) (auth_logon_challenge e p)"
proof -
  have "keeps (steady m k) (answer_challenge e salt v)" for salt v
    by (simp add: answer_challenge_def keeps_rules)
  moreover from this have "keeps (steady m k) (challenge_from_db e u)" for u
    by (auto simp: challenge_from_db_def answer_row_def split: option.split prod.split intro!: keeps_rules)
  ultimately show ?thesis
    by (auto simp: auth_logon_challenge_def Let_def split: sum.split fault.split option.split intro!: keeps_rules)
qed

lemma steady_auth_dispatch: "keeps (steady m k) (auth_dispatch e p)"
  by (auto simp: auth_dispatch_def spawn_challenge_def auth_ping_def auth_logon_proof_def steady_challenge
      intro!: keeps_rules split: option.split AuthOpcodes.split prod.split)

text \<open>
  One packet per read completion. When the bytes at hand start with a complete packet of the
  authentication stage, the completion handler dispatches exactly that packet; whatever follows it
  stays in the buffer, even if it is a further complete packet, and the session waits for more
  bytes before it looks at it. (The coroutine of a challenge is one that starts within \<open>co_spawn\<close>.)
\<close>

theorem one_packet_per_read:
  assumes inv: "srv_inv b s" and env: "env_ok e" and op: "\<not> cs_closed (sv_session s)"
    and en: "event_enabled (Read_Done (Received bs)) (sv_session s)" and lim: "b + 512 < size_t_range"
    and mode: "cs_mode (sv_session s) = AUTH_SESSION"
    and front: "pending (cs_read_buffer (sv_session s)) @ bs = auth_frame c body @ rest"
    and len: "length body \<le> 2048" and started: "env_spawn_inline e"
  shows "\<exists>s'. session_event e (Read_Done (Received bs)) s = (Inr (), s') \<and>
    (cs_closed (sv_session s') \<or> pending (cs_read_buffer (sv_session s')) = rest \<and> cs_reading (sv_session s'))"
proof -
  let ?s = "s\<lparr>sv_session := (sv_session s)\<lparr>cs_reading := False\<rparr>\<rparr>"
  have i: "srv_inv b ?s" using inv by (simp add: srv_inv_reading)
  have o: "isOpened (sv_session ?s)" using op by (simp add: isOpened_def)
  have l: "length bs \<le> get_remaining_space (cs_read_buffer (sv_session ?s))"
    using en by (simp add: event_enabled_def)
  obtain m where m: "pending m = auth_frame c body @ rest" "mb_wf m" "srv_inv b (with_buffer m ?s)"
    "read_handler e (Received bs) ?s =
       sbind (process_read_buffer e) (\<lambda>_. on_session (\<lambda>c. if isOpened c then do_read c else c)) (with_buffer m ?s)"
    using read_handler_received[OF i o l, of e] front by auto
  define t where "t = with_buffer m ?s"
  have tb: "cs_read_buffer (sv_session t) = m" and tm: "cs_mode (sv_session t) = AUTH_SESSION"
    using mode by (simp_all add: t_def with_buffer_def)
  obtain u where u: "process_read_buffer e t = (Inr (), u)"
    using process_returns[OF m(3) env inline_never_dangles[OF started]] by (auto simp: t_def)
  have iu: "srv_inv b u" using process_inv[OF m(3), of e] u by (simp add: t_def)
  have pl: "auth_plen (pending m) = length body" using m(1) len by simp
  have cu: "cs_closed (sv_session u) \<or> pending (cs_read_buffer (sv_session u)) = rest"
  proof -
    let ?t = "consumed (3 + length body) t"
    let ?p = "\<lparr>pk_buffer = \<lparr>bb_buffer = take (auth_plen (pending m)) (drop 3 (pending m)), bb_read_pos = 0\<rparr>,
      ap_opcode = pending m ! 0\<rparr>"
    have r: "scatch (auth_dispatch e ?p) (\<lambda>_. session_close) ?t = (Inr (), u)"
      using u tm auth_reader[of t e] tb m(1,2) pl len by (simp add: process_read_buffer_def)
    have pt: "pending (cs_read_buffer (sv_session ?t)) = rest"
      using consumed_buffer(1)[of t "3 + length body"] tb m(1,2) by simp
    obtain q v where v: "auth_dispatch e ?p ?t = (q, v)" by (cases "auth_dispatch e ?p ?t")
    have "steady (cs_read_buffer (sv_session ?t)) (cs_closed (sv_session ?t)) v"
      using keepsD[OF steady_auth_dispatch _ v] by (simp add: steady_def)
    then have "pending (cs_read_buffer (sv_session v)) = rest" using pt by (simp add: steady_def)
    moreover have "v = u \<or> cs_closed (sv_session u)"
      using r v by (auto simp: scatch_def session_close_def remove_session_def Let_def
          split: sum.splits fault.splits if_splits)
    ultimately show ?thesis by auto
  qed
  have g: "mb_wf (cs_read_buffer (sv_session u))" "length (mb_storage (cs_read_buffer (sv_session u))) + 512 < size_t_range"
    using iu lim by (simp_all add: srv_inv_def)
  have "session_event e (Read_Done (Received bs)) s =
      (Inr (), u\<lparr>sv_session := if isOpened (sv_session u) then do_read (sv_session u) else sv_session u\<rparr>)"
    using m(4) u by (simp add: session_event_def on_session_def supdate_def sbind_def t_def)
  then show ?thesis using cu pending_ensure[OF g] by (auto simp: isOpened_def do_read_def)
qed

theorem one_packet_per_read_witness:
  "\<exists>s'. session_event sample_env (Read_Done (Received (auth_frame 1 [1, 2, 3, 4] @ auth_frame 1 [5, 6, 7, 8])))
       sample_session = (Inr (), s') \<and>
     (cs_closed (sv_session s') \<or> pending (cs_read_buffer (sv_session s')) = auth_frame 1 [5, 6, 7, 8] \<and>
      cs_reading (sv_session s'))"
proof (rule one_packet_per_read[OF _ sample_env_ok])
  show "srv_inv 4608 sample_session" by (rule new_session_inv[OF sample_openssl_ok sample_new_session])
  show "\<not> cs_closed (sv_session sample_session)" by (simp add: sample_defs)
  have "get_remaining_space (cs_read_buffer (sv_session sample_session)) \<ge> 512"
    using ensure_room[of "MessageBuffer 4096" 512]
    by (simp add: sample_defs mb_wf_def MessageBuffer_def size_t_range_def)
  then show "event_enabled (Read_Done (Received (auth_frame 1 [1, 2, 3, 4] @ auth_frame 1 [5, 6, 7, 8])))
      (sv_session sample_session)"
    by (simp add: event_enabled_def sample_session_def do_read_def)
  show "4608 + 512 < size_t_range" by (simp add: size_t_range_def)
  show "cs_mode (sv_session sample_session) = AUTH_SESSION" by (simp add: sample_defs)
  have "pending (cs_read_buffer (sv_session sample_session)) = pending (MessageBuffer 4096)"
    using pending_ensure[of "MessageBuffer 4096" 512]
    by (simp add: sample_session_def do_read_def size_t_range_def MessageBuffer_def mb_wf_def)
  then show "pending (cs_read_buffer (sv_session sample_session)) @ auth_frame 1 [1, 2, 3, 4] @ auth_frame 1 [5, 6, 7, 8] =
      auth_frame 1 [1, 2, 3, 4] @ auth_frame 1 [5, 6, 7, 8]"
    by (simp add: pending_def MessageBuffer_def)
  show "env_spawn_inline sample_env" by (simp add: sample_env_def)
qed simp

subsection \<open>Answers\<close>

lemma send_open: "\<not> cs_closed (sv_session s) \<Longrightarrow> send_packet_as p s =
    (Inr (), s\<lparr>sv_session := (sv_session s)\<lparr>cs_sent := cs_sent (sv_session s) @ [Auth_Packet p], cs_posted := cs_posted (sv_session s) @ [Auth_Packet p]\<rparr>\<rparr>)"
  by (simp add: send_packet_as_def send_packet_def on_session_def supdate_def)

lemma send_open_work: "\<not> cs_closed (sv_session s) \<Longrightarrow> send_packet_as_work p s =
    (Inr (), s\<lparr>sv_session := (sv_session s)\<lparr>cs_sent := cs_sent (sv_session s) @ [Work_Packet p], cs_posted := cs_posted (sv_session s) @ [Work_Packet p]\<rparr>\<rparr>)"
  by (simp add: send_packet_as_work_def send_packet_def on_session_def supdate_def)

abbreviation posted_more :: "'w srv \<Rightarrow> any_packet \<Rightarrow> 'w srv" where
  "posted_more s p \<equiv> s\<lparr>sv_session := (sv_session s)\<lparr>cs_sent := cs_sent (sv_session s) @ [p], cs_posted := cs_posted (sv_session s) @ [p]\<rparr>\<rparr>"

lemma le_bytes_ping: "length bs = 4 \<Longrightarrow> le_bytes (of_le_bytes bs :: u32) = bs"
  using le_bytes_of_le_bytes[of bs, where 'a = 32] by simp

text \<open>
  A ping is answered with the same number in both stages: the packet posted for a ping with at
  least four bytes of payload is framed on the wire as a pong whose payload is exactly the first
  four bytes received, on a host of either byte order, and nothing else changes. A shorter ping
  throws, which closes the session in the reader.
\<close>

theorem ping_echoed:
  assumes "unread p" "unread q" "\<not> cs_closed (sv_session s)" "ap_opcode p = auth_code Auth_CMSG_PING"
    "wp_opcode q = work_code Work_CMSG_PING"
  shows "(if 4 \<le> length (payload p)
     then \<exists>r. auth_dispatch e p s = (Inr (), posted_more s r) \<and>
       build_packet h r = auth_frame (auth_code Auth_SMSG_PONG) (take 4 (payload p))
     else \<exists>x. auth_dispatch e p s = (Inl (Thrown x), s)) \<and>
    (if 4 \<le> length (payload q)
     then \<exists>r. work_dispatch e q s = (Inr (), posted_more s r) \<and>
       build_packet h r = work_frame (work_code Work_SMSG_PONG) (take 4 (payload q))
     else \<exists>x. work_dispatch e q s = (Inl (Thrown x), s))"
proof
  show "if 4 \<le> length (payload p)
     then \<exists>r. auth_dispatch e p s = (Inr (), posted_more s r) \<and>
       build_packet h r = auth_frame (auth_code Auth_SMSG_PONG) (take 4 (payload p))
     else \<exists>x. auth_dispatch e p s = (Inl (Thrown x), s)"
    using assms
    by (auto simp del: auth_code.simps simp: auth_dispatch_def auth_get_opcode_def auth_ping_def ping_read send_open
        auth_build_frame pk_write_uint32_le_def packet_write_def codec_simps AuthPacket_def bb_empty_def le_bytes_ping)
  show "if 4 \<le> length (payload q)
     then \<exists>r. work_dispatch e q s = (Inr (), posted_more s r) \<and>
       build_packet h r = work_frame (work_code Work_SMSG_PONG) (take 4 (payload q))
     else \<exists>x. work_dispatch e q s = (Inl (Thrown x), s)"
    using assms
    by (auto simp del: work_code.simps simp: work_dispatch_def work_get_opcode_def work_ping_def ping_read send_open_work
        work_build_frame pk_write_uint32_le_def packet_write_def codec_simps WorkPacket_def bb_empty_def le_bytes_ping)
qed

lemma dispatch_proof:
  assumes "unread p" "\<not> cs_closed (sv_session s)" "ap_opcode p = auth_code CMSG_AUTH_LOGON_PROOF"
    "openssl_ok (env_ssl e)"
  shows "if 52 \<le> length (payload p)
    then \<exists>s' r. auth_dispatch e p s = (Inr (), s') \<and> cs_mode (sv_session s') = WORK_SESSION \<and>
      ai_isAuth (cs_account (sv_session s')) \<and> ai_srp (cs_account (sv_session s')) = ai_srp (cs_account (sv_session s)) \<and>
      cs_posted (sv_session s') = cs_posted (sv_session s) @ [Auth_Packet r] \<and>
      ap_opcode r = auth_code SMSG_AUTH_LOGON_PROOF \<and>
      payload r = SHA1 (env_ssl e) (take 52 (payload p)) \<and> length (payload r) = 20
    else auth_dispatch e p s = (Inr (), posted_more s (Auth_Packet (auth_failure INTERNAL_ERROR)))"
proof (cases "52 \<le> length (payload p)")
  case True
  have "take 32 (payload p) @ take 20 (drop 32 (payload p)) = take 52 (payload p)"
    using take_add[of 32 20 "payload p"] by simp
  then show ?thesis
    using assms True
    by (simp del: auth_code.simps add: auth_dispatch_def auth_get_opcode_def auth_logon_proof_alt proof_read scatch_def
        on_session_def set_session_mode_def handle_auth_state_def setIsAuthenticated_def send_open
        pk_write_bytes_def packet_write_def codec_simps AuthPacket_def bb_empty_def openssl_okD)
next
  case False
  then show ?thesis
    using assms
    by (simp del: auth_code.simps add: auth_dispatch_def auth_get_opcode_def auth_logon_proof_alt proof_read scatch_def
        send_open)
qed

text \<open>
  C21. A logon proof is always accepted. Every proof packet with at least 52 bytes of payload puts the
  session into work mode, marks it authenticated and is answered with an M2 of 20 bytes, in every
  state of the SRP object, also when no challenge was requested; a shorter packet is answered with
  the internal error and changes nothing else.
\<close>

theorem logon_proof_accepts_everything:
  assumes "unread p" "\<not> cs_closed (sv_session s)" "ap_opcode p = auth_code CMSG_AUTH_LOGON_PROOF"
    "openssl_ok (env_ssl e)"
  shows "if 52 \<le> length (payload p)
    then \<exists>s' r. auth_dispatch e p s = (Inr (), s') \<and> cs_mode (sv_session s') = WORK_SESSION \<and>
      ai_isAuth (cs_account (sv_session s')) \<and> ai_srp (cs_account (sv_session s')) = ai_srp (cs_account (sv_session s)) \<and>
      cs_posted (sv_session s') = cs_posted (sv_session s) @ [Auth_Packet r] \<and>
      ap_opcode r = auth_code SMSG_AUTH_LOGON_PROOF \<and>
      payload r = SHA1 (env_ssl e) (take 52 (payload p)) \<and> length (payload r) = 20
    else auth_dispatch e p s = (Inr (), posted_more s (Auth_Packet (auth_failure INTERNAL_ERROR)))"
  by (rule dispatch_proof[OF assms])

theorem logon_proof_accepts_everything_witness:
  "\<exists>s' r. auth_dispatch sample_env \<lparr>pk_buffer = \<lparr>bb_buffer = replicate 52 0, bb_read_pos = 0\<rparr>,
       ap_opcode = auth_code CMSG_AUTH_LOGON_PROOF\<rparr> sample_session = (Inr (), s') \<and>
     cs_mode (sv_session s') = WORK_SESSION \<and> ai_isAuth (cs_account (sv_session s')) \<and>
     cs_posted (sv_session s') = [Auth_Packet r] \<and> payload r = replicate 20 0"
proof -
  let ?p = "\<lparr>pk_buffer = \<lparr>bb_buffer = replicate 52 0, bb_read_pos = 0\<rparr>, ap_opcode = auth_code CMSG_AUTH_LOGON_PROOF\<rparr>"
  have u: "unread ?p" by (simp add: unread_def)
  have o: "\<not> cs_closed (sv_session sample_session)" by (simp add: sample_defs)
  have k: "openssl_ok (env_ssl sample_env)" by (simp add: sample_env_def sample_openssl_ok)
  have c: "ap_opcode ?p = auth_code CMSG_AUTH_LOGON_PROOF" by simp
  have h: "SHA1 (env_ssl sample_env) (take 52 (payload ?p)) = replicate 20 0"
    by (simp add: sample_env_def sample_openssl_def flip: replicate_add)
  have n: "cs_posted (sv_session sample_session) = []" by (simp add: sample_defs)
  from logon_proof_accepts_everything[OF u o c k] show ?thesis unfolding h n by auto
qed

theorem ping_echoed_witness:
  "\<exists>r. auth_dispatch sample_env \<lparr>pk_buffer = \<lparr>bb_buffer = [1, 2, 3, 4], bb_read_pos = 0\<rparr>,
       ap_opcode = auth_code Auth_CMSG_PING\<rparr> sample_session = (Inr (), posted_more sample_session r) \<and>
     build_packet Big_Endian r = auth_frame 2 [1, 2, 3, 4]"
proof -
  let ?p = "\<lparr>pk_buffer = \<lparr>bb_buffer = [1, 2, 3, 4], bb_read_pos = 0\<rparr>, ap_opcode = auth_code Auth_CMSG_PING\<rparr>"
  let ?q = "\<lparr>pk_buffer = \<lparr>bb_buffer = [1, 2, 3, 4], bb_read_pos = 0\<rparr>, wp_opcode = work_code Work_CMSG_PING\<rparr>"
  have u: "unread ?p" "unread ?q" by (simp_all add: unread_def)
  have o: "\<not> cs_closed (sv_session sample_session)" by (simp add: sample_defs)
  have c: "ap_opcode ?p = auth_code Auth_CMSG_PING" "wp_opcode ?q = work_code Work_CMSG_PING" by simp_all
  from conjunct1[OF ping_echoed[OF u o c, of sample_env Big_Endian]] show ?thesis
    by simp
qed

subsection \<open>Logon challenges\<close>

text \<open>The constants of the SRP object of a session never change.\<close>

definition server_srp :: "openssl \<Rightarrow> srp6 \<Rightarrow> bool" where
  "server_srp ssl srp \<longleftrightarrow> srp_N srp = srp_modulus \<and> srp_g srp = 7 \<and> srp_k srp = multiplier ssl srp_modulus 7"

definition challenge_answer :: "openssl \<Rightarrow> bytes \<Rightarrow> bytes \<Rightarrow> bytes \<Rightarrow> auth_packet" where
  "challenge_answer ssl rnd salt verifier =
     challenge_packet
       (be32 ((multiplier ssl srp_modulus 7 * be_nat verifier + 7 ^ be_nat rnd) mod srp_modulus))
       7 (be32 srp_modulus) salt"

definition answered :: "auth_packet \<Rightarrow> 'w srv \<Rightarrow> unit result \<times> 'w srv \<Rightarrow> bool" where
  "answered r s out \<longleftrightarrow> fst out = Inr () \<and> \<not> cs_closed (sv_session (snd out)) \<and>
     cs_posted (sv_session (snd out)) = cs_posted (sv_session s) @ [Auth_Packet r]"

lemma answer_challenge_ok:
  assumes "openssl_ok (env_ssl e)" "server_srp (env_ssl e) (session_srp s)" "\<not> cs_closed (sv_session s)"
  shows "answered (challenge_answer (env_ssl e) (env_rnd e) salt verifier) s (answer_challenge e salt verifier s)"
  using assms modulus_pos modulus_less below_modulus generator_fresh[OF assms(1)]
  by (simp add: answered_def answer_challenge_def on_srp_def on_session_def session_srp_def load_verifier_def
      generate_server_ephemeral_ok get_bytes_ok server_srp_def send_open challenge_answer_def openssl_okD)

lemma answered_send:
  "\<not> cs_closed (sv_session s) \<Longrightarrow> answered r s (send_packet_as r s)"
  by (simp add: answered_def send_open)

text \<open>What the row of the database answers.\<close>

definition row_answer :: "openssl \<Rightarrow> bytes \<Rightarrow> accounts_row option result \<Rightarrow> auth_packet" where
  "row_answer ssl rnd r =
     (case r of
        Inl _ \<Rightarrow> auth_failure DATABASE_BUSY
      | Inr None \<Rightarrow> auth_failure WRONG_USERNAME
      | Inr (Some u) \<Rightarrow>
          (case (ar_salt u, ar_verifier u) of
             (Some salt, Some verifier) \<Rightarrow>
               if length salt \<noteq> 32 \<or> length verifier \<noteq> 32 then auth_failure WRONG_PASSWORD
               else challenge_answer ssl rnd salt verifier
           | _ \<Rightarrow> auth_failure WRONG_PASSWORD))"

definition account_query :: "bytes \<Rightarrow> prepared_statement" where
  "account_query u = \<lparr>ps_name = str ''SELECT_ACCOUNT_BY_USERNAME'', ps_params = [Some u]\<rparr>"

lemma answered_caught: "answered r s (m s) \<Longrightarrow> answered r s (scatch m h s)"
  by (cases "m s") (auto simp: answered_def scatch_def)

lemma answered_from: "answered r t out \<Longrightarrow> sv_session t = sv_session s \<Longrightarrow> answered r s out"
  by (simp add: answered_def)

lemma answer_row_ok:
  assumes "openssl_ok (env_ssl e)" "server_srp (env_ssl e) (session_srp t)" "\<not> cs_closed (sv_session t)"
  shows "answered (row_answer (env_ssl e) (env_rnd e) (Inr user)) t (answer_row e u user t)"
proof (cases user)
  case None
  then show ?thesis using answered_send[OF assms(3)] by (simp add: row_answer_def answer_row_def)
next
  case (Some w)
  have "answered (challenge_answer (env_ssl e) (env_rnd e) salt verifier) t
      (answer_challenge e salt verifier (remember_account now u salt verifier t))" for salt verifier now
    using assms answer_challenge_ok[of e "remember_account now u salt verifier t"]
      answered_from[of _ "remember_account now u salt verifier t" _ t]
    by (simp add: remember_account_def session_srp_def)
  then show ?thesis using Some answered_send[OF assms(3)]
    by (cases "ar_salt w"; cases "ar_verifier w") (simp_all add: row_answer_def answer_row_def)
qed

lemma from_db_answer:
  assumes "env_ok e" "server_srp (env_ssl e) (session_srp s)" "\<not> cs_closed (sv_session s)"
  shows "answered (row_answer (env_ssl e) (env_rnd e)
      (fst (execute_sync (env_pq e) (accounts_struct (env_mktime e)) (account_query u) (sv_db s)))) s
    (scatch (challenge_from_db e u) (\<lambda>ex. send_packet_as (auth_failure DATABASE_BUSY)) s)"
proof -
  obtain r db where q: "execute_sync (env_pq e) (accounts_struct (env_mktime e)) (account_query u) (sv_db s) = (r, db)"
    by (cases "execute_sync (env_pq e) (accounts_struct (env_mktime e)) (account_query u) (sv_db s)")
  have d: "r \<noteq> Inl Undefined" using env_ok_db[OF assms(1)] q by (metis defined_def fst_conv)
  let ?t = "s\<lparr>sv_db := db\<rparr>"
  have o: "on_db (execute_sync (env_pq e) (accounts_struct (env_mktime e)) (account_query u)) s = (r, ?t)"
    by (simp add: on_db_def q)
  have c: "challenge_from_db e u s = (case r of Inl f \<Rightarrow> (Inl f, ?t) | Inr user \<Rightarrow> answer_row e u user ?t)"
    using o unfolding challenge_from_db_def set_param_0 account_query_def
    by (cases r) (simp_all add: sbind_def[of "on_db _"])
  have t: "server_srp (env_ssl e) (session_srp ?t)" "\<not> cs_closed (sv_session ?t)" "openssl_ok (env_ssl e)"
    using assms by (simp_all add: session_srp_def env_ok_def)
  show ?thesis
  proof (cases r)
    case (Inl f)
    then obtain x where "f = Thrown x" using d by (cases f) auto
    then show ?thesis using q Inl c t(2)
      by (simp add: scatch_def row_answer_def answered_def send_open)
  next
    case (Inr user)
    have "answered (row_answer (env_ssl e) (env_rnd e) r) s (challenge_from_db e u s)"
      using answered_from[OF answer_row_ok[OF t(3,1,2), of user u], of s] Inr c by simp
    then show ?thesis using q by (simp add: answered_caught)
  qed
qed

lemma rev_read:
  assumes "payload p = rev u @ [0]" "unread p" "0 \<notin> set u"
  shows "\<exists>q. pk_read_string_nt_le p = Inr (u, q)"
  using assms read_nt_loop_prefix[of 0 "rev u @ [0]" "rev u" "[]" "[]"]
  by (simp add: pk_read_string_nt_le_def packet_read_def read_string_nt_le_def unread_def)

text \<open>What is answered to the user name \<open>u\<close>.\<close>

definition name_answer :: "'w env \<Rightarrow> bytes \<Rightarrow> 'w srv \<Rightarrow> auth_packet" where
  "name_answer e u s =
     (if \<not> is_valid_utf8 u then auth_failure WRONG_USERNAME
      else case fst (cache_get (env_now e) (to_uppercase u) (sv_cache s)) of
        Some entry \<Rightarrow> challenge_answer (env_ssl e) (env_rnd e) (ce_salt entry) (ce_verifier entry)
      | None \<Rightarrow> row_answer (env_ssl e) (env_rnd e)
          (fst (execute_sync (env_pq e) (accounts_struct (env_mktime e)) (account_query (to_uppercase u)) (sv_db s))))"

lemma challenge_answered:
  assumes "env_ok e" "server_srp (env_ssl e) (session_srp s)" "\<not> cs_closed (sv_session s)"
    and q: "pk_read_string_nt_le p = Inr (u, q)"
  shows "answered (name_answer e u s) s (auth_logon_challenge e p s)"
proof -
  show ?thesis
  proof (cases "is_valid_utf8 u")
    case False
    then show ?thesis using q assms(3) by (simp add: auth_logon_challenge_def answered_send name_answer_def)
  next
    case True
    obtain c' r where c: "cache_get (env_now e) (to_uppercase u) (sv_cache s) = (r, c')"
      by (cases "cache_get (env_now e) (to_uppercase u) (sv_cache s)")
    define t where "t = s\<lparr>sv_session := (sv_session s)\<lparr>cs_account := (cs_account (sv_session s))\<lparr>ai_srp :=
      set_only_username (to_uppercase u) (session_srp s)\<rparr>\<rparr>, sv_cache := c'\<rparr>"
    have m: "auth_logon_challenge e p s = (case r of
         Some entry \<Rightarrow> answer_challenge e (ce_salt entry) (ce_verifier entry) t
       | None \<Rightarrow> scatch (challenge_from_db e (to_uppercase u)) (\<lambda>ex. send_packet_as (auth_failure DATABASE_BUSY)) t)"
      using True q c
      by (simp add: auth_logon_challenge_def Let_def on_srp_def on_session_def cached_entry_def sbind_def supdate_def
          t_def session_srp_def split: option.split)
    have k: "server_srp (env_ssl e) (session_srp t)" "\<not> cs_closed (sv_session t)" "sv_db t = sv_db s"
      "cs_posted (sv_session t) = cs_posted (sv_session s)" "openssl_ok (env_ssl e)"
      using assms(1-3) by (simp_all add: t_def session_srp_def server_srp_def set_only_username_def env_ok_def)
    have "answered (case r of
        Some entry \<Rightarrow> challenge_answer (env_ssl e) (env_rnd e) (ce_salt entry) (ce_verifier entry)
      | None \<Rightarrow> row_answer (env_ssl e) (env_rnd e)
          (fst (execute_sync (env_pq e) (accounts_struct (env_mktime e)) (account_query (to_uppercase u)) (sv_db s))))
      t (auth_logon_challenge e p s)"
      unfolding m using answer_challenge_ok[OF k(5,1,2)] from_db_answer[OF assms(1) k(1,2), of "to_uppercase u"] k(3)
      by (simp split: option.split)
    then have "answered (case r of
        Some entry \<Rightarrow> challenge_answer (env_ssl e) (env_rnd e) (ce_salt entry) (ce_verifier entry)
      | None \<Rightarrow> row_answer (env_ssl e) (env_rnd e)
          (fst (execute_sync (env_pq e) (accounts_struct (env_mktime e)) (account_query (to_uppercase u)) (sv_db s))))
      s (auth_logon_challenge e p s)"
      using k(4) by (simp add: answered_def)
    then show ?thesis using True c by (simp add: name_answer_def)
  qed
qed

lemma dispatch_challenge:
  assumes "env_ok e" "server_srp (env_ssl e) (session_srp s)" "\<not> cs_closed (sv_session s)" "env_spawn_inline e"
    and "unread p" "payload p = rev u @ [0]" "0 \<notin> set u" "ap_opcode p = auth_code CMSG_AUTH_LOGON_CHALLENGE"
  shows "answered (name_answer e u s) s (auth_dispatch e p s)"
proof -
  obtain q where q: "pk_read_string_nt_le p = Inr (u, q)" using rev_read[OF assms(6,5,7)] by blast
  have "auth_dispatch e p = scatch (auth_logon_challenge e p) (\<lambda>_. sreturn ())"
    using assms(4,8) by (simp del: auth_code.simps add: auth_dispatch_def auth_get_opcode_def spawn_challenge_def)
  then show ?thesis using challenge_answered[OF assms(1-3) q] by (simp add: answered_caught)
qed

text \<open>The constants of the SRP object are those of its construction in every state a session reaches.\<close>

definition constants_kept :: "srp6 \<Rightarrow> 'w srv \<Rightarrow> bool" where
  "constants_kept srp s \<longleftrightarrow> srp_N (session_srp s) = srp_N srp \<and> srp_g (session_srp s) = srp_g srp \<and>
     srp_k (session_srp s) = srp_k srp"

lemma constants_basic [keeps_rules]:
  "keeps (constants_kept c) (on_db d)" "keeps (constants_kept c) (cached_entry now u)"
  "keeps (constants_kept c) (supdate (remember_account now' u' salt v))" "keeps (constants_kept c) (send_packet p)"
  "keeps (constants_kept c) (send_packet_as q)" "keeps (constants_kept c) (send_packet_as_work r)"
  "keeps (constants_kept c) (on_session (set_session_mode mode))"
  "keeps (constants_kept c) (on_session (\<lambda>c. c\<lparr>cs_account := handle_auth_state (cs_account c)\<rparr>))"
  "keeps (constants_kept c) (on_srp (set_only_username u''))" "keeps (constants_kept c) (on_srp (load_verifier ssl sa ve))"
  "keeps (constants_kept c) (on_srp (generate_server_ephemeral ssl' rnd))"
  "keeps (constants_kept c) session_close" "keeps (constants_kept c) (on_session (\<lambda>c. c\<lparr>cs_read_buffer := m\<rparr>))"
  "keeps (constants_kept c) (on_session (\<lambda>c. if isOpened c then do_read c else c))"
  by (auto simp: keeps_def constants_kept_def session_srp_def on_srp_def on_session_def supdate_def on_db_def
      cached_entry_def send_packet_def send_packet_as_def send_packet_as_work_def set_session_mode_def sbind_def
      remember_account_def handle_auth_state_def setIsAuthenticated_def set_only_username_def load_verifier_def
      generate_server_ephemeral_def session_close_def remove_session_def handle_close_state_def do_read_def Let_def
      split: prod.split)

lemma constants_challenge: "keeps (constants_kept c) (auth_logon_challenge e p)"
proof -
  have "keeps (constants_kept c) (answer_challenge e salt v)" for salt v
    by (simp add: answer_challenge_def keeps_rules)
  moreover from this have "keeps (constants_kept c) (challenge_from_db e u)" for u
    by (auto simp: challenge_from_db_def answer_row_def split: option.split prod.split intro!: keeps_rules)
  ultimately show ?thesis
    by (auto simp: auth_logon_challenge_def Let_def split: sum.split fault.split option.split intro!: keeps_rules)
qed

lemma constants_dispatch: "keeps (constants_kept c) (auth_dispatch e p)" "keeps (constants_kept c) (work_dispatch e q)"
  by (auto simp: auth_dispatch_def spawn_challenge_def auth_ping_def auth_logon_proof_def constants_challenge
      work_dispatch_def work_ping_def work_message_def intro!: keeps_rules
      split: option.split AuthOpcodes.split WorkOpcodes.split prod.split)

lemma constants_event:
  assumes "constants_kept c s" "session_event e ev s = (r, s')"
  shows "constants_kept c s'"
proof -
  have "keeps (constants_kept c) (session_event e ev)"
  proof (cases ev)
    case (Read_Done q)
    have "keeps (constants_kept c) (read_handler e q)"
      by (rule keeps_read_handler[OF constants_basic(12) constants_dispatch constants_basic(13,14)])
    moreover have "keeps (constants_kept c) (on_session (\<lambda>c. c\<lparr>cs_reading := False\<rparr>))"
      by (rule keeps_on_session) (simp add: constants_kept_def session_srp_def)
    ultimately show ?thesis using Read_Done keeps_sbind by (simp add: session_event_def)
  next
    case (Write_Done ec)
    then show ?thesis
      by (auto simp: session_event_def write_handler_def keeps_def constants_kept_def session_srp_def on_session_def
          sbind_def supdate_def session_close_def remove_session_def handle_close_state_def Let_def split: list.split)
  next
    case Run_Posted
    then show ?thesis
      by (simp add: session_event_def run_posted_def keeps_def constants_kept_def session_srp_def on_session_def supdate_def)
  qed
  from keepsD[OF this assms] show ?thesis .
qed

lemma reached_srp:
  assumes "openssl_ok ssl" "new_session ssl cache db = Inr s0" "session_reach s0 n s"
  shows "server_srp ssl (session_srp s)"
proof -
  have "constants_kept (fresh ssl) s0"
    using assms(2)
    by (auto simp: new_session_def ClientSession_def AccountInfo_def SRP6_fresh[OF assms(1)] session_start_def
        on_session_def set_session_mode_def supdate_def do_read_def constants_kept_def session_srp_def)
  with assms(3) have "constants_kept (fresh ssl) s"
    by (induction rule: session_reach.induct) (blast dest: constants_event)+
  then show ?thesis by (simp add: constants_kept_def server_srp_def fresh_def)
qed

text \<open>
  C20. Every logon challenge is answered with exactly one packet: in every open state a session
  reaches, for every packet, the coroutine of the handler reads a user name, and posts one answer and
  nothing else. A name that is no UTF-8 is refused as a wrong name; a cached account, looked up under
  the upper-case name, is challenged with its salt; otherwise the database decides: an exception is
  answered with the busy code, no row with the wrong name, a missing salt or verifier or one that
  is not 32 bytes long with the wrong password, and any other row with the challenge for its salt
  and verifier. An unknown name is therefore told apart from a known one: there is no fake
  challenge, which the README announces. The packet is alive while the coroutine runs.
\<close>

theorem logon_challenge_answered:
  assumes "openssl_ok ssl" "new_session ssl cache db = Inr s0" "session_reach s0 n s" "\<not> cs_closed (sv_session s)"
    and "env_ok e" "env_ssl e = ssl"
  shows "\<exists>u q. pk_read_string_nt_le p = Inr (u, q) \<and>
    answered
     (if \<not> is_valid_utf8 u then auth_failure WRONG_USERNAME
      else case fst (cache_get (env_now e) (to_uppercase u) (sv_cache s)) of
        Some entry \<Rightarrow> challenge_answer ssl (env_rnd e) (ce_salt entry) (ce_verifier entry)
      | None \<Rightarrow> row_answer ssl (env_rnd e)
          (fst (execute_sync (env_pq e) (accounts_struct (env_mktime e)) (account_query (to_uppercase u)) (sv_db s))))
     s (auth_logon_challenge e p s)"
proof -
  obtain u q where q: "pk_read_string_nt_le p = Inr (u, q)" using read_nt_total by blast
  have "server_srp (env_ssl e) (session_srp s)" using reached_srp[OF assms(1-3)] assms(6) by simp
  from challenge_answered[OF assms(5) this assms(4) q] q assms(6) show ?thesis by (auto simp: name_answer_def)
qed

definition bob_packet :: auth_packet where
  "bob_packet = \<lparr>pk_buffer = \<lparr>bb_buffer = rev (str ''bob'') @ [0], bb_read_pos = 0\<rparr>,
     ap_opcode = auth_code CMSG_AUTH_LOGON_CHALLENGE\<rparr>"

theorem logon_challenge_answered_witness:
  "answered (auth_failure DATABASE_BUSY) sample_session (auth_logon_challenge sample_env bob_packet sample_session)"
proof -
  have v: "is_valid_utf8 (str ''bob'')" by code_simp
  have n: "0 \<notin> set (str ''bob'')" by (simp add: str_def)
  have p: "unread bob_packet" "payload bob_packet = rev (str ''bob'') @ [0]"
    by (simp_all add: bob_packet_def unread_def str_def)
  obtain q where q: "pk_read_string_nt_le bob_packet = Inr (str ''bob'', q)" using rev_read[OF p(2,1) n] by blast
  have o: "\<not> cs_closed (sv_session sample_session)" by (simp add: sample_defs)
  have e: "env_ssl sample_env = sample_openssl" by (simp add: sample_env_def)
  have c: "fst (cache_get (env_now sample_env) u (sv_cache sample_session)) = None" for u
    by (simp add: sample_session_def cache_get_def AccountCache_def)
  have d: "fst (execute_sync (env_pq sample_env) rs st (sv_db sample_session)) =
      Inl (Thrown (runtime_error ''No DB connection available after timeout''))"
    for rs :: "(pq_row, accounts_row) row_struct" and st
    by (simp add: sample_session_def empty_db_def execute_sync_def sbind_def acquire_empty)
  from logon_challenge_answered[OF sample_openssl_ok sample_new_session session_reach.init o sample_env_ok e, of bob_packet]
  show ?thesis by (simp add: q v c d row_answer_def)
qed

lemma length_nat_be_le_iff: "length (nat_be n) \<le> k \<longleftrightarrow> n < 256 ^ k"
proof
  assume "length (nat_be n) \<le> k"
  then have "(256 :: nat) ^ length (nat_be n) \<le> 256 ^ k" by (simp add: power_increasing)
  then show "n < 256 ^ k" using less_le_trans[OF be_nat_less[of "nat_be n"]] by (simp only: be_nat_nat_be)
qed (rule length_nat_be)

text \<open>
  Accounts that can never log in. The verifier that \<open>generate_salt_and_verifier_trinity\<close> returns
  has no leading zero bytes, and the challenge handler insists on 32 bytes: an account whose
  verifier number is below \<open>256 ^ 31\<close> is refused with the wrong-password code on every attempt, every
  other one is challenged.
\<close>

theorem short_verifier_refused:
  assumes "openssl_ok ssl" "length rnd = 32" "SRP6 ssl = Inr srp"
    "generate_salt_and_verifier_trinity ssl rnd user pw srp = Inr (salt, verifier)"
    "ar_salt u = Some salt" "ar_verifier u = Some verifier"
  shows "row_answer ssl r (Inr (Some u)) =
    (if be_nat verifier < 256 ^ 31 then auth_failure WRONG_PASSWORD else challenge_answer ssl r salt verifier)"
proof -
  have s: "srp = fresh ssl" using assms(3) SRP6_fresh[OF assms(1)] by simp
  let ?v = "7 ^ be_nat (SHA1 ssl (rnd @ SHA1 ssl (map toupper user @ str '':'' @ pw))) mod srp_modulus"
  have v: "salt = rnd" "verifier = nat_be ?v"
    using assms(1,4) modulus_pos
    by (auto simp: s generate_salt_and_verifier_trinity_def bn_vector_ok openssl_okD fresh_def Let_def)
  have "length verifier \<le> 32" using length_nat_be_le_iff[of ?v 32] below_modulus v by simp
  moreover have "length verifier \<le> 31 \<longleftrightarrow> be_nat verifier < 256 ^ 31"
    using length_nat_be_le_iff[of ?v 31] v by simp
  ultimately have "length verifier \<noteq> 32 \<longleftrightarrow> be_nat verifier < 256 ^ 31" by linarith
  then show ?thesis using assms(2,5,6) v by (simp add: row_answer_def)
qed

definition bob_row :: accounts_row where
  "bob_row = \<lparr>ar_id = 1, ar_name = Some (str ''BOB''), ar_salt = Some (replicate 32 0), ar_verifier = Some [1],
     ar_email = None, ar_created_at = None\<rparr>"

theorem short_verifier_refused_witness:
  "generate_salt_and_verifier_trinity sample_openssl (replicate 32 0) (str ''bob'') (str ''pw'') (fresh sample_openssl) =
     Inr (replicate 32 0, [1]) \<and>
   row_answer sample_openssl [] (Inr (Some bob_row)) = auth_failure WRONG_PASSWORD"
proof -
  have h: "SHA1 sample_openssl (replicate 32 0 @ xs) = replicate 20 0" for xs
    by (simp add: sample_openssl_def flip: replicate_add)
  have z: "be_nat (replicate 20 0) = 0" using be_nat_zeros[of 20 "[]"] by simp
  have "1 < srp_modulus" by (simp add: srp_modulus_def)
  then have g: "generate_salt_and_verifier_trinity sample_openssl (replicate 32 0) (str ''bob'') (str ''pw'')
      (fresh sample_openssl) = Inr (replicate 32 0, [1])"
    by (simp add: generate_salt_and_verifier_trinity_def bn_vector_ok[OF sample_openssl_ok]
        openssl_okD[OF sample_openssl_ok] fresh_def h z nat_be.simps Let_def)
  have "row_answer sample_openssl [] (Inr (Some bob_row)) =
      (if be_nat [1] < 256 ^ 31 then auth_failure WRONG_PASSWORD
       else challenge_answer sample_openssl [] (replicate 32 0) [1])"
    by (rule short_verifier_refused[OF sample_openssl_ok _ SRP6_fresh[OF sample_openssl_ok] g])
       (simp_all add: bob_row_def)
  then show ?thesis using g by (simp add: be_nat_def)
qed

subsection \<open>The order of what is sent\<close>

definition write_succeeded :: "session \<Rightarrow> session" where
  "write_succeeded c = do_write (c\<lparr>cs_in_flight := None, cs_wire := cs_wire c @ snd (the (cs_in_flight c)),
     cs_write_queue := tl (cs_write_queue c)\<rparr>)"

interpretation sess: ordered_sender cs_wire cs_write_queue writing_ok "build_packet h" "do_send_packet h" write_succeeded
  for h
proof
  show "writing_ok (do_send_packet h p s) \<and> cs_wire (do_send_packet h p s) = cs_wire s \<and>
      cs_write_queue (do_send_packet h p s) = cs_write_queue s @ [build_packet h p]" if "writing_ok s" for s p
    using that do_send_packet_ok by simp
  show "writing_ok (write_succeeded s) \<and> cs_wire (write_succeeded s) = cs_wire s @ hd (cs_write_queue s) \<and>
      cs_write_queue (write_succeeded s) = tl (cs_write_queue s)" if "writing_ok s" "cs_write_queue s \<noteq> []" for s
    using that do_write_ok[of "s\<lparr>cs_in_flight := None, cs_wire := cs_wire s @ snd (the (cs_in_flight s)),
      cs_write_queue := tl (cs_write_queue s)\<rparr>"]
    by (cases "cs_write_queue s") (simp_all add: write_succeeded_def writing_ok_def[of s])
qed

lemma build_packet_host: "build_packet h p = build_packet h' p"
  by (cases p) (simp_all add: auth_build_frame work_build_frame)

text \<open>
  The bytes of a successful write under way, and the invariant of the outgoing stream. While the
  session is open, what is written, queued and posted is what was passed to \<open>send_packet\<close>. Once it is
  closed, nothing is started on the socket any more, and what has been written, or still may be, is
  a prefix of that.
\<close>

definition live :: "session \<Rightarrow> bytes" where
  "live c = (case cs_in_flight c of Some (True, w) \<Rightarrow> w | _ \<Rightarrow> [])"

definition sent_bytes :: "endian \<Rightarrow> session \<Rightarrow> bytes" where
  "sent_bytes h c = concat (map (build_packet h) (cs_sent c))"

definition stream_open :: "endian \<Rightarrow> session \<Rightarrow> bool" where
  "stream_open h c \<longleftrightarrow> writing_ok c \<and>
     sent_bytes h c = cs_wire c @ concat (cs_write_queue c) @ concat (map (build_packet h) (cs_posted c))"

definition stream_closed :: "endian \<Rightarrow> session \<Rightarrow> bool" where
  "stream_closed h c \<longleftrightarrow> \<not> cs_socket_open c \<and> (\<exists>rest. sent_bytes h c = cs_wire c @ live c @ rest)"

definition stream_ok :: "endian \<Rightarrow> 'w srv \<Rightarrow> bool" where
  "stream_ok h s \<longleftrightarrow> (cs_closed (sv_session s) \<longrightarrow> stream_closed h (sv_session s)) \<and>
     (\<not> cs_closed (sv_session s) \<longrightarrow> stream_open h (sv_session s))"

lemma open_live:
  assumes "stream_open h c"
  shows "\<exists>rest. sent_bytes h c = cs_wire c @ live c @ rest"
proof (cases "cs_write_queue c")
  case Nil
  then show ?thesis using assms by (auto simp: stream_open_def writing_ok_def live_def)
next
  case (Cons w q)
  then show ?thesis using assms
    by (intro exI[of _ "concat q @ concat (map (build_packet h) (cs_posted c))"])
       (auto simp: stream_open_def writing_ok_def live_def)
qed

text \<open>A field that is not about sending.\<close>

lemma stream_frame:
  assumes "\<And>c. cs_wire (f c) = cs_wire c" "\<And>c. cs_write_queue (f c) = cs_write_queue c"
    "\<And>c. cs_posted (f c) = cs_posted c" "\<And>c. cs_sent (f c) = cs_sent c" "\<And>c. cs_in_flight (f c) = cs_in_flight c"
    "\<And>c. cs_socket_open (f c) = cs_socket_open c" "\<And>c. cs_closed (f c) = cs_closed c" "\<And>c. cs_writing (f c) = cs_writing c"
  shows "keeps (stream_ok h) (on_session f)"
  by (rule keeps_on_session)
     (simp add: assms stream_ok_def stream_open_def stream_closed_def sent_bytes_def live_def writing_ok_def)

lemma stream_send [keeps_rules]: "keeps (stream_ok h) (send_packet p)"
proof -
  have "stream_ok h t" if s: "stream_ok h s" and t: "send_packet p s = (r, t)" for s t :: "'a srv" and r
  proof (cases "cs_closed (sv_session s)")
    case True
    then obtain rest where "sent_bytes h (sv_session s) = cs_wire (sv_session s) @ live (sv_session s) @ rest"
      using s by (auto simp: stream_ok_def stream_closed_def)
    then show ?thesis using True s t
      by (auto simp: stream_ok_def stream_closed_def send_packet_def on_session_def sent_bytes_def live_def
          intro!: exI[of _ "rest @ build_packet h p"])
  next
    case False
    then show ?thesis using s t
      by (auto simp: stream_ok_def stream_open_def send_packet_def on_session_def supdate_def sent_bytes_def writing_ok_def)
  qed
  then show ?thesis by (rule keepsI)
qed

lemma stream_close [keeps_rules]: "keeps (stream_ok h) session_close"
proof -
  have "stream_ok h t" if s: "stream_ok h s" and t: "session_close s = (r, t)" for s t :: "'a srv" and r
  proof (cases "cs_closed (sv_session s)")
    case True
    then show ?thesis using s t by (simp add: session_close_def Let_def)
  next
    case False
    then obtain rest where "sent_bytes h (sv_session s) = cs_wire (sv_session s) @ live (sv_session s) @ rest"
      using s open_live by (auto simp: stream_ok_def)
    then show ?thesis using False s t
      by (auto simp: stream_ok_def stream_closed_def session_close_def remove_session_def sent_bytes_def live_def Let_def)
  qed
  then show ?thesis by (rule keepsI)
qed

lemma stream_basic [keeps_rules]:
  "keeps (stream_ok h) (on_db d)" "keeps (stream_ok h) (cached_entry now u)"
  "keeps (stream_ok h) (supdate (remember_account now' u' salt v))" "keeps (stream_ok h) (send_packet_as q)"
  "keeps (stream_ok h) (send_packet_as_work r)" "keeps (stream_ok h) (on_srp f)"
  "keeps (stream_ok h) (on_session (set_session_mode mode))"
  "keeps (stream_ok h) (on_session (\<lambda>c. c\<lparr>cs_account := handle_auth_state (cs_account c)\<rparr>))"
  "keeps (stream_ok h) (on_session (\<lambda>c. c\<lparr>cs_read_buffer := m\<rparr>))"
  "keeps (stream_ok h) (on_session (\<lambda>c. c\<lparr>cs_reading := b\<rparr>))"
  "keeps (stream_ok h) (on_session (\<lambda>c. if isOpened c then do_read c else c))"
  by (auto simp: send_packet_as_def send_packet_as_work_def on_srp_def set_session_mode_def do_read_def
      intro!: stream_frame stream_send split: if_split_asm)
     (auto simp: keeps_def stream_ok_def on_db_def cached_entry_def supdate_def remember_account_def split: prod.split)

lemma stream_challenge: "keeps (stream_ok h) (auth_logon_challenge e p)"
proof -
  have "keeps (stream_ok h) (answer_challenge e salt v)" for salt v
    by (simp add: answer_challenge_def keeps_rules)
  moreover from this have "keeps (stream_ok h) (challenge_from_db e u)" for u
    by (auto simp: challenge_from_db_def answer_row_def split: option.split prod.split intro!: keeps_rules)
  ultimately show ?thesis
    by (auto simp: auth_logon_challenge_def Let_def split: sum.split fault.split option.split intro!: keeps_rules)
qed

lemma stream_dispatch: "keeps (stream_ok h) (auth_dispatch e p)" "keeps (stream_ok h) (work_dispatch e q)"
  by (auto simp: auth_dispatch_def spawn_challenge_def auth_ping_def auth_logon_proof_def stream_challenge
      work_dispatch_def work_ping_def work_message_def intro!: keeps_rules
      split: option.split AuthOpcodes.split WorkOpcodes.split prod.split)

lemma stream_written:
  assumes s: "stream_ok h s" and en: "event_enabled (Write_Done ec) (sv_session s)"
    and ev: "session_event e (Write_Done ec) s = (Inr (), s')"
  shows "stream_ok h s'"
proof -
  let ?c = "sv_session s"
  obtain rest where r: "sent_bytes h ?c = cs_wire ?c @ live ?c @ rest"
    using s open_live[of h ?c] by (auto simp: stream_ok_def stream_closed_def split: if_splits)
  show ?thesis
  proof (cases ec)
    case True
    have "stream_closed h (sv_session s')" "cs_closed (sv_session s')"
      using ev True r s
      by (auto simp: session_event_def on_session_def write_handler_def session_close_def remove_session_def Let_def
          stream_closed_def stream_ok_def sent_bytes_def live_def split: if_splits)
    then show ?thesis by (simp add: stream_ok_def)
  next
    case False
    obtain w where w: "cs_in_flight ?c = Some (True, w)" using en False by (auto simp: event_enabled_def)
    obtain x q where q: "cs_write_queue ?c = x # q"
      using ev False by (cases "cs_write_queue ?c") (auto simp: session_event_def on_session_def write_handler_def)
    have s': "s' = s\<lparr>sv_session := write_succeeded ?c\<rparr>"
      using ev False q by (simp add: session_event_def on_session_def write_handler_def write_succeeded_def supdate_def)
    show ?thesis
    proof (cases "cs_closed ?c")
      case True
      then show ?thesis using s s' r w q
        by (auto simp: stream_ok_def stream_closed_def write_succeeded_def sent_bytes_def live_def do_write_def
            split: list.split)
    next
      case False
      then have o: "writing_ok ?c" "sent_bytes h ?c = cs_wire ?c @ concat (cs_write_queue ?c) @ concat (map (build_packet h) (cs_posted ?c))"
        using s by (simp_all add: stream_ok_def stream_open_def)
      have "writing_ok (write_succeeded ?c)" using sess.finish_law[OF o(1)] q by simp
      moreover have "cs_sent (write_succeeded ?c) = cs_sent ?c" "cs_posted (write_succeeded ?c) = cs_posted ?c"
        "cs_closed (write_succeeded ?c) = cs_closed ?c"
        by (simp_all add: write_succeeded_def)
      ultimately show ?thesis
        using o(2) False sess.finish_stream[OF o(1)] q unfolding s'
        by (simp add: stream_ok_def stream_open_def sent_bytes_def flip: append_assoc)
    qed
  qed
qed

lemma stream_posted:
  assumes s: "stream_ok h s" and en: "event_enabled Run_Posted (sv_session s)"
    and ev: "session_event e Run_Posted s = (Inr (), s')"
  shows "stream_ok h s'"
proof -
  let ?c = "(sv_session s)\<lparr>cs_posted := tl (cs_posted (sv_session s))\<rparr>"
  have s': "s' = s\<lparr>sv_session := do_send_packet (env_host e) (hd (cs_posted (sv_session s))) ?c\<rparr>"
    using ev by (simp add: session_event_def run_posted_def on_session_def supdate_def)
  obtain p ps where p: "cs_posted (sv_session s) = p # ps" using en
    by (cases "cs_posted (sv_session s)") (auto simp: event_enabled_def)
  show ?thesis
  proof (cases "cs_closed (sv_session s)")
    case True
    then show ?thesis using s unfolding s'
      by (auto simp: stream_ok_def stream_closed_def do_send_packet_def do_write_def sent_bytes_def live_def Let_def
          split: list.split)
  next
    case False
    then have "writing_ok ?c" using s by (simp add: stream_ok_def stream_open_def writing_ok_posted)
    from do_send_packet_ok[OF this] False s show ?thesis
      unfolding s' using p build_packet_host[of h p "env_host e"]
      by (simp add: stream_ok_def stream_open_def sent_bytes_def)
  qed
qed

lemma stream_event:
  assumes "stream_ok h s" "event_enabled ev (sv_session s)" "session_event e ev s = (Inr (), s')"
  shows "stream_ok h s'"
proof (cases ev)
  case (Read_Done q)
  have "keeps (stream_ok h) (read_handler e q)"
    by (rule keeps_read_handler[OF stream_close stream_dispatch stream_basic(9,11)])
  then have "keeps (stream_ok h) (session_event e ev)"
    using Read_Done keeps_sbind[OF stream_basic(10)] by (simp add: session_event_def)
  from keepsD[OF this assms(1,3)] show ?thesis .
next
  case (Write_Done ec)
  then show ?thesis using stream_written assms by blast
next
  case Run_Posted
  then show ?thesis using stream_posted assms by blast
qed

text \<open>
  C2. What a session sends is first in, first out, and sent once. At every moment of every run of a
  new session, the bytes on the wire are a prefix of the packets that \<open>send_packet\<close> was called with,
  built and concatenated in the order of the calls, also after the session was closed. While it is
  open, the rest of that sequence is exactly what is queued and posted, so that no packet is lost,
  repeated or torn; and as long as some of it is not on the wire, a posted call can run or the write
  under way can complete. (The handlers of a session run one after the other, posted calls in the
  order of posting, and a failed write counts as having written nothing.)
\<close>

theorem session_sends_in_order:
  assumes "new_session ssl cache db = Inr s0" "session_reach s0 n s"
  shows "let c = sv_session s; sent = concat (map (build_packet h) (cs_sent c)) in
    (\<exists>rest. sent = cs_wire c @ rest) \<and>
    (\<not> cs_closed c \<longrightarrow>
       sent = cs_wire c @ concat (cs_write_queue c) @ concat (map (build_packet h) (cs_posted c)) \<and>
       (cs_wire c = sent \<or> event_enabled Run_Posted c \<or> event_enabled (Write_Done False) c))"
proof -
  let ?c = "sv_session s"
  have "stream_ok h s0"
    using assms(1)
    by (auto simp: new_session_def ClientSession_def session_start_def on_session_def set_session_mode_def supdate_def
        do_read_def stream_ok_def stream_open_def writing_ok_def sent_bytes_def rbind_def split: sum.splits)
  with assms(2) have k: "stream_ok h s"
    by (induction rule: session_reach.induct) (blast intro: stream_event)+
  then have "\<exists>rest. sent_bytes h ?c = cs_wire ?c @ rest"
    using open_live[of h ?c] by (auto simp: stream_ok_def stream_closed_def split: if_splits)
  moreover have "stream_open h ?c" if "\<not> cs_closed ?c" using k that by (simp add: stream_ok_def)
  moreover have "cs_wire ?c = sent_bytes h ?c \<or> event_enabled Run_Posted ?c \<or> event_enabled (Write_Done False) ?c"
    if "stream_open h ?c"
    using that by (cases "cs_write_queue ?c") (auto simp: stream_open_def writing_ok_def event_enabled_def)
  ultimately show ?thesis by (auto simp: Let_def sent_bytes_def stream_open_def)
qed

text \<open>A session that was sent a ping and has posted its answer.\<close>

definition pinged :: "unit srv" where
  "pinged = snd (session_event sample_env (Read_Done (Received (auth_frame 1 [1, 2, 3, 4]))) sample_session)"

lemma pinged_open: "fst (session_event sample_env (Read_Done (Received (auth_frame 1 [1, 2, 3, 4]))) sample_session) = Inr ()"
  "\<not> cs_closed (sv_session pinged)" "length (cs_sent (sv_session pinged)) = 1"
proof -
  let ?f = "auth_frame 1 [1, 2, 3, 4]"
  let ?p = "\<lparr>pk_buffer = \<lparr>bb_buffer = [1, 2, 3, 4], bb_read_pos = 0\<rparr>, ap_opcode = 1\<rparr>"
  let ?s = "sample_session\<lparr>sv_session := (sv_session sample_session)\<lparr>cs_reading := False\<rparr>\<rparr>"
  have i: "srv_inv 4608 ?s" using new_session_inv[OF sample_openssl_ok sample_new_session] by (simp add: srv_inv_reading)
  have o: "isOpened (sv_session ?s)" by (simp add: isOpened_def sample_defs)
  have l: "length ?f \<le> get_remaining_space (cs_read_buffer (sv_session ?s))"
    using sample_reads[of ?f] by (simp add: event_enabled_def auth_frame_def be16_eq)
  obtain m where m: "pending m = ?f" "mb_wf m" "read_handler sample_env (Received ?f) ?s =
      sbind (process_read_buffer sample_env) (\<lambda>_. on_session (\<lambda>c. if isOpened c then do_read c else c)) (with_buffer m ?s)"
    using read_handler_received[OF i o l, of sample_env] sample_pending by auto
  define t where "t = with_buffer m ?s"
  have t: "cs_read_buffer (sv_session t) = m" "mb_wf (cs_read_buffer (sv_session t))" "cs_mode (sv_session t) = AUTH_SESSION"
    using m(2) by (simp_all add: t_def with_buffer_def sample_defs)
  have c: "\<not> cs_closed (sv_session (consumed 7 t))" "cs_sent (sv_session (consumed 7 t)) = []"
    by (simp_all add: consumed_def t_def with_buffer_def sample_defs)
  have d: "auth_dispatch sample_env ?p (consumed 7 t) = send_packet_as (pk_write_uint32_le Little_Endian
      (of_le_bytes [1, 2, 3, 4]) (AuthPacket Auth_SMSG_PONG)) (consumed 7 t)"
    by (simp add: auth_dispatch_def auth_get_opcode_def auth_enum_def auth_ping_def ping_read unread_def sample_env_def)
  then obtain r where r: "auth_dispatch sample_env ?p (consumed 7 t) = (Inr (), posted_more (consumed 7 t) r)"
    using c(1) by (simp add: send_open)
  have "auth_plen (pending m) = 4" "pending m ! 0 = 1" "drop 3 (pending m) = [1, 2, 3, 4]"
    using m(1) auth_plen_frame[of 1 "[1, 2, 3, 4]" "[]"] by (simp_all add: auth_frame_def be16_eq)
  then have "process_read_buffer sample_env t = (Inr (), posted_more (consumed 7 t) r)"
    using t(3) auth_reader[OF t(2), of sample_env] t(1) m(1) r
    by (simp add: process_read_buffer_def scatch_def auth_frame_def be16_eq)
  then have e: "session_event sample_env (Read_Done (Received ?f)) sample_session =
      (Inr (), (posted_more (consumed 7 t) r)\<lparr>sv_session := do_read (sv_session (posted_more (consumed 7 t) r))\<rparr>)"
    using m(3) c(1) by (simp add: session_event_def on_session_def supdate_def sbind_def t_def isOpened_def)
  show "fst (session_event sample_env (Read_Done (Received ?f)) sample_session) = Inr ()" by (simp add: e)
  show "\<not> cs_closed (sv_session pinged)" "length (cs_sent (sv_session pinged)) = 1"
    using c by (simp_all add: pinged_def e do_read_def)
qed

theorem session_sends_in_order_witness:
  "let c = sv_session pinged; sent = concat (map (build_packet Little_Endian) (cs_sent c)) in
    session_reach sample_session 1 pinged \<and> length (cs_sent c) = 1 \<and>
    sent = cs_wire c @ concat (cs_write_queue c) @ concat (map (build_packet Little_Endian) (cs_posted c))"
proof -
  have "event_enabled (Read_Done (Received (auth_frame 1 [1, 2, 3, 4]))) (sv_session sample_session)"
    by (rule sample_reads) (simp add: auth_frame_def be16_eq)
  moreover have "session_event sample_env (Read_Done (Received (auth_frame 1 [1, 2, 3, 4]))) sample_session = (Inr (), pinged)"
    using pinged_open(1) by (simp add: pinged_def prod_eq_iff)
  ultimately have r: "session_reach sample_session 1 pinged"
    using session_reach.event[OF session_reach.init] by fastforce
  from session_sends_in_order[OF sample_new_session r, of Little_Endian] r pinged_open(2,3) show ?thesis by (simp add: Let_def)
qed

end
