(* ===== verification/Client.thy ===== *)
theory Client
  imports Session Sending
begin

text \<open>
  \<open>src/Client/Client.cpp\<close>: the client with its outgoing queue, its receive loop, its heart beat and
  its reconnection. Boost.Asio is modelled as for the server: \<open>cl_pending\<close> holds the asynchronous
  operations under way, a completion is an event that takes one of them out and runs its handler.
  Handlers run one at a time, on the thread that runs the \<open>io_context\<close>.
\<close>

subsection \<open>State\<close>

text \<open>
  A wait on a timer carries whether it was cancelled, by \<open>cancel\<close> or by setting a new expiry time.
  \<open>Header_Read\<close> and \<open>Payload_Read\<close> carry the session mode whose packet class the handler uses,
  \<open>Payload_Read\<close> the header read before and the number of bytes asked for.
\<close>

datatype client_op =
    Connect_Op
  | Reconnect_Wait bool
  | Heartbeat_Wait bool
  | Header_Read SessionMode
  | Payload_Read SessionMode bytes nat
  | Write_Op bytes
  | Disconnect_Post

text \<open>\<open>cl_delivered\<close>: the buffers whose \<open>async_write\<close> has completed without an error.\<close>

record client =
  cl_host :: bytes
  cl_port :: int
  cl_connected :: bool
  cl_outgoing_queue :: "bytes list"
  cl_session_mode :: SessionMode
  cl_srp :: srp6
  cl_socket_open :: bool
  cl_pending :: "client_op list"
  cl_delivered :: "bytes list"

text \<open>
  What the handlers use from outside: OpenSSL, the byte order of the host, the synchronous name
  resolution, the throwing overload of \<open>socket.close\<close>, the random bytes and the random number of the
  event at hand.
\<close>

record client_env =
  cx_ssl :: openssl
  cx_endian :: endian
  cx_resolve :: "bytes \<Rightarrow> bytes \<Rightarrow> unit result"
  cx_close :: "unit result"
  cx_rnd :: bytes
  cx_uint32 :: u32

definition Client :: "openssl \<Rightarrow> bytes \<Rightarrow> int \<Rightarrow> client result" where
  "Client ssl h p =
     rbind (SRP6 ssl) (\<lambda>srp.
     Inr \<lparr>cl_host = h, cl_port = p, cl_connected = False, cl_outgoing_queue = [],
          cl_session_mode = AUTH_SESSION, cl_srp = srp, cl_socket_open = False, cl_pending = [],
          cl_delivered = []\<rparr>)"

definition to_string :: "int \<Rightarrow> bytes" where
  "to_string i = (if i < 0 then str ''-'' else []) @ dec_digits (nat \<bar>i\<bar>)"

definition client_set_session_mode :: "SessionMode \<Rightarrow> client \<Rightarrow> client" where
  "client_set_session_mode mode c = c\<lparr>cl_session_mode := mode\<rparr>"

definition client_get_session_mode :: "client \<Rightarrow> SessionMode" where
  "client_get_session_mode c = cl_session_mode c"

definition begin_op :: "client_op \<Rightarrow> client \<Rightarrow> client" where
  "begin_op x c = c\<lparr>cl_pending := cl_pending c @ [x]\<rparr>"

fun cancel_reconnect_op :: "client_op \<Rightarrow> client_op" where
  "cancel_reconnect_op (Reconnect_Wait _) = Reconnect_Wait True"
| "cancel_reconnect_op x = x"

fun cancel_heartbeat_op :: "client_op \<Rightarrow> client_op" where
  "cancel_heartbeat_op (Heartbeat_Wait _) = Heartbeat_Wait True"
| "cancel_heartbeat_op x = x"

definition cancel_reconnect_timer :: "client \<Rightarrow> client" where
  "cancel_reconnect_timer c = c\<lparr>cl_pending := map cancel_reconnect_op (cl_pending c)\<rparr>"

definition cancel_heartbeat_timer :: "client \<Rightarrow> client" where
  "cancel_heartbeat_timer c = c\<lparr>cl_pending := map cancel_heartbeat_op (cl_pending c)\<rparr>"

subsection \<open>Connecting and sending\<close>

text \<open>
  \<open>resolve\<close> throws when the name cannot be resolved. \<open>async_connect\<close> on a list of endpoints closes the
  socket and opens it anew.
\<close>

definition connect :: "client_env \<Rightarrow> (client, unit) op" where
  "connect e =
     sbind (sget (\<lambda>c. (cl_host c, to_string (cl_port c)))) (\<lambda>(host, port).
     sbind (slift (cx_resolve e host port)) (\<lambda>_.
     supdate (\<lambda>c. begin_op Connect_Op (c\<lparr>cl_socket_open := True\<rparr>))))"

definition disconnect :: "client \<Rightarrow> client" where
  "disconnect c = begin_op Disconnect_Post c"

definition disconnect_posted :: "client \<Rightarrow> client" where
  "disconnect_posted c =
     (let c1 = cancel_reconnect_timer (cancel_heartbeat_timer c);
          c2 = (if cl_socket_open c1 then c1\<lparr>cl_socket_open := False\<rparr> else c1) in
      c2\<lparr>cl_connected := False\<rparr>)"

definition schedule_reconnect :: "client_env \<Rightarrow> (client, unit) op" where
  "schedule_reconnect e =
     sbind (supdate (\<lambda>c. c\<lparr>cl_connected := False, cl_socket_open := False\<rparr>)) (\<lambda>_.
     sbind (slift (cx_close e)) (\<lambda>_.
     supdate (\<lambda>c. begin_op (Reconnect_Wait False) (cancel_reconnect_timer c))))"

definition start_heartbeat :: "client \<Rightarrow> client" where
  "start_heartbeat c = begin_op (Heartbeat_Wait False) (cancel_heartbeat_timer c)"

definition flush_queue :: "client \<Rightarrow> client" where
  "flush_queue c =
     (if \<not> cl_connected c then c
      else case cl_outgoing_queue c of [] \<Rightarrow> c | front # _ \<Rightarrow> begin_op (Write_Op front) c)"

definition send_packet_impl :: "bytes \<Rightarrow> client \<Rightarrow> client" where
  "send_packet_impl full_packet c =
     (if \<not> cl_connected c then c\<lparr>cl_outgoing_queue := cl_outgoing_queue c @ [full_packet]\<rparr>
      else
        (let c1 = c\<lparr>cl_outgoing_queue := cl_outgoing_queue c @ [full_packet]\<rparr> in
         if length (cl_outgoing_queue c1) = 1 then flush_queue c1 else c1))"

definition client_send_auth :: "endian \<Rightarrow> auth_packet \<Rightarrow> client \<Rightarrow> client" where
  "client_send_auth h p = send_packet_impl (auth_build_packet h p)"

definition client_send_work :: "endian \<Rightarrow> work_packet \<Rightarrow> client \<Rightarrow> client" where
  "client_send_work h p = send_packet_impl (work_build_packet h p)"

definition send_ping :: "client_env \<Rightarrow> client \<Rightarrow> client" where
  "send_ping e c =
     (let ping_id = cx_uint32 e; h = cx_endian e in
      if client_get_session_mode c = AUTH_SESSION
      then client_send_auth h (pk_write_uint32_le h ping_id (AuthPacket Auth_CMSG_PING)) c
      else client_send_work h (pk_write_uint32_le h ping_id (WorkPacket Work_CMSG_PING)) c)"

definition send_message :: "client_env \<Rightarrow> bytes \<Rightarrow> client \<Rightarrow> client" where
  "send_message e msg c =
     (if client_get_session_mode c = AUTH_SESSION then c
      else client_send_work (cx_endian e) (pk_write_string_nt_le msg (WorkPacket CMSG_MESSAGE)) c)"

definition on_client_srp :: "(srp6 \<Rightarrow> srp6) \<Rightarrow> client \<Rightarrow> client" where
  "on_client_srp f c = c\<lparr>cl_srp := f (cl_srp c)\<rparr>"

definition handle_logon_challenge :: "client_env \<Rightarrow> bytes \<Rightarrow> bytes \<Rightarrow> client \<Rightarrow> client" where
  "handle_logon_challenge e username password c =
     client_send_auth (cx_endian e) (pk_write_string_nt_le username (AuthPacket CMSG_AUTH_LOGON_CHALLENGE))
       (on_client_srp (set_credentials username password) c)"

subsection \<open>Packets from the server\<close>

definition client_challenge :: "client_env \<Rightarrow> auth_packet \<Rightarrow> (client, unit) op" where
  "client_challenge e p =
     scatch
       (sbind (slift (pk_read_bytes 32 p)) (\<lambda>(B, p1).
        sbind (slift (pk_read_uint8 p1)) (\<lambda>(g, p2).
        sbind (slift (pk_read_bytes 32 p2)) (\<lambda>(N, p3).
        sbind (slift (pk_read_bytes 32 p3)) (\<lambda>(salt, _).
        sbind (sget cl_srp) (\<lambda>srp.
        sbind (slift (load_constants (cx_ssl e) N g srp)) (\<lambda>srp1.
        sbind (supdate (on_client_srp (\<lambda>_. srp1))) (\<lambda>_.
        sbind (supdate (on_client_srp (load_salt salt))) (\<lambda>_.
        sbind (supdate (on_client_srp (generate_client_ephemeral (cx_ssl e) (cx_rnd e)))) (\<lambda>_.
        sbind (sget cl_srp) (\<lambda>srp2.
        sbind (slift (get_A_bytes (cx_ssl e) srp2)) (\<lambda>padded_A.
        sbind (slift (compute_M1 (cx_ssl e) B srp2)) (\<lambda>(padded_M1, srp3).
        sbind (supdate (on_client_srp (\<lambda>_. srp3))) (\<lambda>_.
        supdate (client_send_auth (cx_endian e)
          (pk_write_bytes padded_M1 (pk_write_bytes padded_A (AuthPacket CMSG_AUTH_LOGON_PROOF))))))))))))))))))
       (\<lambda>ex. supdate disconnect)"

definition client_proof :: "client_env \<Rightarrow> auth_packet \<Rightarrow> (client, unit) op" where
  "client_proof e p =
     sbind (slift (pk_read_bytes 20 p)) (\<lambda>(M2_server, _).
     sbind (sget cl_srp) (\<lambda>srp.
     sbind (slift (verify_server_proof (cx_ssl e) (get_last_M1 srp) M2_server srp)) (\<lambda>ok.
     supdate (if \<not> ok then disconnect else client_set_session_mode WORK_SESSION))))"

definition handle_auth_packet :: "client_env \<Rightarrow> auth_packet \<Rightarrow> (client, unit) op" where
  "handle_auth_packet e p =
     (case auth_enum (auth_get_opcode p) of
        Some Auth_SMSG_PONG \<Rightarrow> sreturn ()
      | Some SMSG_AUTH_LOGON_CHALLENGE \<Rightarrow> client_challenge e p
      | Some SMSG_AUTH_LOGON_PROOF \<Rightarrow> client_proof e p
      | Some SMSG_AUTH_RESPONSE \<Rightarrow>
          sbind (slift (pk_read_uint8 p)) (\<lambda>(authcode, p1).
          sbind (slift (pk_read_uint8 p1)) (\<lambda>(errorcode, _).
          supdate disconnect))
      | _ \<Rightarrow> sreturn ())"

definition handle_work_packet :: "client_env \<Rightarrow> work_packet \<Rightarrow> (client, unit) op" where
  "handle_work_packet e p =
     (case work_enum (work_get_opcode p) of
        Some Work_SMSG_PONG \<Rightarrow> sreturn ()
      | Some SMSG_MESSAGE \<Rightarrow> sbind (slift (pk_read_string_nt_le p)) (\<lambda>_. sreturn ())
      | _ \<Rightarrow> sreturn ())"

subsection \<open>The receive loop\<close>

definition start_receive_loop :: "client \<Rightarrow> client" where
  "start_receive_loop c = begin_op (Header_Read (client_get_session_mode c)) c"

text \<open>The template argument \<open>PacketT\<close> is the packet class of the mode.\<close>

definition parse_packet :: "client_env \<Rightarrow> SessionMode \<Rightarrow> bytes \<Rightarrow> (client, unit) op" where
  "parse_packet e mode raw =
     scatch
       (case mode of
          AUTH_SESSION \<Rightarrow>
            sbind (slift (auth_deserialize (cx_endian e) raw AuthPacket_default)) (handle_auth_packet e)
        | WORK_SESSION \<Rightarrow>
            sbind (slift (work_deserialize (cx_endian e) raw WorkPacket_default)) (handle_work_packet e))
       (\<lambda>ex. sreturn ())"

definition process_empty :: "client_env \<Rightarrow> SessionMode \<Rightarrow> bytes \<Rightarrow> (client, unit) op" where
  "process_empty e mode header =
     sbind (parse_packet e mode header) (\<lambda>_. supdate start_receive_loop)"

definition read_payload :: "SessionMode \<Rightarrow> bytes \<Rightarrow> nat \<Rightarrow> client \<Rightarrow> client" where
  "read_payload mode header len c = begin_op (Payload_Read mode header len) c"

text \<open>What a completion handler is given: an error, or the bytes that were read.\<close>

datatype outcome = Failed | Succeeded bytes

definition payload_handler :: "client_env \<Rightarrow> SessionMode \<Rightarrow> bytes \<Rightarrow> outcome \<Rightarrow> (client, unit) op" where
  "payload_handler e mode header r =
     (case r of
        Failed \<Rightarrow> schedule_reconnect e
      | Succeeded bs \<Rightarrow>
          sbind (parse_packet e mode (header @ bs)) (\<lambda>_. supdate start_receive_loop))"

definition auth_header_handler :: "client_env \<Rightarrow> outcome \<Rightarrow> (client, unit) op" where
  "auth_header_handler e r =
     (case r of
        Failed \<Rightarrow> schedule_reconnect e
      | Succeeded header \<Rightarrow>
          (let len = unat (header_length (header ! 1) (header ! 2)) in
           if len > 2048 then schedule_reconnect e
           else if len = 0 then process_empty e AUTH_SESSION header
           else supdate (read_payload AUTH_SESSION header len)))"

definition work_header_handler :: "client_env \<Rightarrow> outcome \<Rightarrow> (client, unit) op" where
  "work_header_handler e r =
     (case r of
        Failed \<Rightarrow> schedule_reconnect e
      | Succeeded header \<Rightarrow>
          (let len = unat (header_length (header ! 2) (header ! 3)) in
           if len > 2048 then schedule_reconnect e
           else if len = 0 then process_empty e WORK_SESSION header
           else supdate (read_payload WORK_SESSION header len)))"

subsection \<open>The other completion handlers\<close>

definition connect_handler :: "client_env \<Rightarrow> outcome \<Rightarrow> (client, unit) op" where
  "connect_handler e r =
     (case r of
        Failed \<Rightarrow> schedule_reconnect e
      | Succeeded _ \<Rightarrow>
          supdate (\<lambda>c. start_heartbeat (flush_queue (start_receive_loop (c\<lparr>cl_connected := True\<rparr>)))))"

text \<open>The handler of the reconnect timer does not look at its error code.\<close>

definition reconnect_handler :: "client_env \<Rightarrow> outcome \<Rightarrow> (client, unit) op" where
  "reconnect_handler e r = connect e"

definition heartbeat_handler :: "client_env \<Rightarrow> outcome \<Rightarrow> client \<Rightarrow> client" where
  "heartbeat_handler e r c =
     (if r \<noteq> Failed \<and> cl_connected c then start_heartbeat (send_ping e c) else c)"

text \<open>\<open>pop\<close> of an empty queue is undefined.\<close>

definition client_write_handler :: "client_env \<Rightarrow> bytes \<Rightarrow> outcome \<Rightarrow> (client, unit) op" where
  "client_write_handler e buf r =
     (case r of
        Failed \<Rightarrow> schedule_reconnect e
      | Succeeded _ \<Rightarrow>
          (\<lambda>c. case cl_outgoing_queue c of
                 [] \<Rightarrow> (Inl Undefined, c)
               | _ # q \<Rightarrow>
                   (Inr (), flush_queue (c\<lparr>cl_outgoing_queue := q, cl_delivered := cl_delivered c @ [buf]\<rparr>))))"

subsection \<open>Events\<close>

text \<open>
  The program calls an operation, or the operation at an index of \<open>cl_pending\<close> completes. A connection
  is established only after the operations of the socket before it have completed: closing the
  socket queues their handlers at once. A wait that was not cancelled ends without an error, and
  \<open>async_read\<close> without an error fills its buffer.
\<close>

datatype client_event =
    Call_Connect
  | Call_Disconnect
  | Call_Message bytes
  | Call_Logon bytes bytes
  | Completes nat outcome

fun is_write :: "client_op \<Rightarrow> bool" where
  "is_write (Write_Op _) = True" | "is_write _ = False"

fun is_read :: "client_op \<Rightarrow> bool" where
  "is_read (Header_Read _) = True" | "is_read (Payload_Read _ _ _) = True" | "is_read _ = False"

definition header_size :: "SessionMode \<Rightarrow> nat" where
  "header_size mode = (case mode of AUTH_SESSION \<Rightarrow> 3 | WORK_SESSION \<Rightarrow> 4)"

definition can_complete :: "client_op \<Rightarrow> outcome \<Rightarrow> client \<Rightarrow> bool" where
  "can_complete x r c =
     (case x of
        Connect_Op \<Rightarrow> r = Failed \<or> list_all (\<lambda>y. \<not> is_write y \<and> \<not> is_read y) (cl_pending c)
      | Reconnect_Wait cancelled \<Rightarrow> cancelled \<or> r \<noteq> Failed
      | Heartbeat_Wait cancelled \<Rightarrow> cancelled \<or> r \<noteq> Failed
      | Header_Read mode \<Rightarrow> (case r of Failed \<Rightarrow> True | Succeeded bs \<Rightarrow> length bs = header_size mode)
      | Payload_Read _ _ n \<Rightarrow> (case r of Failed \<Rightarrow> True | Succeeded bs \<Rightarrow> length bs = n)
      | Write_Op _ \<Rightarrow> True
      | Disconnect_Post \<Rightarrow> True)"

definition client_enabled :: "client_event \<Rightarrow> client \<Rightarrow> bool" where
  "client_enabled ev c =
     (case ev of
        Completes i r \<Rightarrow> i < length (cl_pending c) \<and> can_complete (cl_pending c ! i) r c
      | _ \<Rightarrow> True)"

definition run_handler :: "client_env \<Rightarrow> client_op \<Rightarrow> outcome \<Rightarrow> (client, unit) op" where
  "run_handler e x r =
     (case x of
        Connect_Op \<Rightarrow> connect_handler e r
      | Reconnect_Wait _ \<Rightarrow> reconnect_handler e r
      | Heartbeat_Wait _ \<Rightarrow> supdate (heartbeat_handler e r)
      | Header_Read AUTH_SESSION \<Rightarrow> auth_header_handler e r
      | Header_Read WORK_SESSION \<Rightarrow> work_header_handler e r
      | Payload_Read mode header _ \<Rightarrow> payload_handler e mode header r
      | Write_Op buf \<Rightarrow> client_write_handler e buf r
      | Disconnect_Post \<Rightarrow> supdate disconnect_posted)"

definition take_out :: "nat \<Rightarrow> client \<Rightarrow> client" where
  "take_out i c = c\<lparr>cl_pending := take i (cl_pending c) @ drop (Suc i) (cl_pending c)\<rparr>"

definition client_event :: "client_env \<Rightarrow> client_event \<Rightarrow> (client, unit) op" where
  "client_event e ev c =
     (case ev of
        Call_Connect \<Rightarrow> connect e c
      | Call_Disconnect \<Rightarrow> (Inr (), disconnect c)
      | Call_Message msg \<Rightarrow> (Inr (), send_message e msg c)
      | Call_Logon u pw \<Rightarrow> (Inr (), handle_logon_challenge e u pw c)
      | Completes i r \<Rightarrow> run_handler e (cl_pending c ! i) r (take_out i c))"

inductive client_reach :: "client \<Rightarrow> client \<Rightarrow> bool" for c0 where
  init: "client_reach c0 c0"
| event: "client_reach c0 c \<Longrightarrow> client_enabled ev c \<Longrightarrow> client_event e ev c = (Inr (), c') \<Longrightarrow>
    client_reach c0 c'"

subsection \<open>The client program\<close>

text \<open>
  \<open>main\<close> connects to the server and then runs the event loop: a timer logs in after one second, a
  thread sends every line of the standard input, and a signal disconnects and stops the loop, which
  is the second value of \<open>main_event\<close>.
\<close>

definition main_client :: "client_env \<Rightarrow> client result" where
  "main_client e =
     rbind (Client (cx_ssl e) (str ''127.0.0.1'') 3724) (\<lambda>c.
     case connect e c of (Inl f, _) \<Rightarrow> Inl f | (Inr _, c') \<Rightarrow> Inr c')"

datatype main_event = Timer1 bool | Input_Line bytes | Signal

definition main_event :: "client_env \<Rightarrow> main_event \<Rightarrow> client \<Rightarrow> client \<times> bool" where
  "main_event e ev c =
     (case ev of
        Timer1 ec \<Rightarrow> (if \<not> ec then handle_logon_challenge e (str ''1'') (str ''1'') c else c, True)
      | Input_Line line \<Rightarrow> (send_message e line c, True)
      | Signal \<Rightarrow> (disconnect c, False))"

lemma main_client_reach:
  assumes "main_client e = Inr c"
  shows "\<exists>c0. Client (cx_ssl e) (str ''127.0.0.1'') 3724 = Inr c0 \<and> client_reach c0 c"
proof -
  obtain c0 where k: "Client (cx_ssl e) (str ''127.0.0.1'') 3724 = Inr c0"
    using assms by (auto simp: main_client_def rbind_Inr_iff)
  moreover have "connect e c0 = (Inr (), c)"
    using assms k by (cases "connect e c0"; cases "fst (connect e c0)") (simp_all add: main_client_def)
  ultimately show ?thesis
    using client_reach.event[OF client_reach.init, of Call_Connect c0 e c]
    by (auto simp: client_enabled_def client_event_def)
qed

lemma main_event_reach: "client_reach c0 c \<Longrightarrow> client_reach c0 (fst (main_event e ev c))"
  using client_reach.event[of c0 c "Call_Logon (str ''1'') (str ''1'')" e "fst (main_event e ev c)"]
    client_reach.event[of c0 c "Call_Message line" e "fst (main_event e ev c)" for line]
    client_reach.event[of c0 c Call_Disconnect e "fst (main_event e ev c)"]
  by (cases ev) (auto simp: main_event_def client_enabled_def client_event_def)

subsection \<open>Invariants of the queue and of the receive loop\<close>

text \<open>
  At most one write is under way, of the head of the queue, and a connected client with packets in
  the queue is writing. At most one read is under way, and exactly one when connected.
\<close>

abbreviation writes :: "client \<Rightarrow> client_op list" where
  "writes c \<equiv> filter is_write (cl_pending c)"

abbreviation reads :: "client \<Rightarrow> client_op list" where
  "reads c \<equiv> filter is_read (cl_pending c)"

definition sending_ok :: "client \<Rightarrow> bool" where
  "sending_ok c \<longleftrightarrow>
     writes c = [] \<and> (cl_connected c \<longrightarrow> cl_outgoing_queue c = []) \<or>
     (\<exists>p q. cl_outgoing_queue c = p # q \<and> writes c = [Write_Op p])"

definition client_inv :: "client \<Rightarrow> bool" where
  "client_inv c \<longleftrightarrow> sending_ok c \<and> length (reads c) \<le> 1 \<and> (cl_connected c \<longrightarrow> length (reads c) = 1)"

text \<open>What a handler may do besides ending an operation: it only appends to the queue.\<close>

definition appends :: "client \<Rightarrow> client \<Rightarrow> bool" where
  "appends c0 c \<longleftrightarrow> sending_ok c \<and> reads c = reads c0 \<and> cl_connected c = cl_connected c0 \<and>
     cl_delivered c = cl_delivered c0 \<and> (\<exists>new. cl_outgoing_queue c = cl_outgoing_queue c0 @ new)"

lemma begin_op_fields [simp]:
  "cl_pending (begin_op x c) = cl_pending c @ [x]" "cl_connected (begin_op x c) = cl_connected c"
  "cl_outgoing_queue (begin_op x c) = cl_outgoing_queue c" "cl_delivered (begin_op x c) = cl_delivered c"
  "cl_session_mode (begin_op x c) = cl_session_mode c" "cl_srp (begin_op x c) = cl_srp c"
  by (simp_all add: begin_op_def)

lemma cancel_ops [simp]:
  "is_write (cancel_reconnect_op x) = is_write x" "is_read (cancel_reconnect_op x) = is_read x"
  "is_write (cancel_heartbeat_op x) = is_write x" "is_read (cancel_heartbeat_op x) = is_read x"
  by (cases x; simp)+

lemma filter_cancel [simp]:
  "filter is_write (map cancel_reconnect_op xs) = filter is_write xs"
  "filter is_read (map cancel_reconnect_op xs) = filter is_read xs"
  "filter is_write (map cancel_heartbeat_op xs) = filter is_write xs"
  "filter is_read (map cancel_heartbeat_op xs) = filter is_read xs"
  by (induction xs; auto elim!: is_write.elims(2) is_read.elims(2))+

lemma send_packet_impl_ok:
  assumes "sending_ok c"
  shows "sending_ok (send_packet_impl p c)"
    "cl_outgoing_queue (send_packet_impl p c) = cl_outgoing_queue c @ [p]"
    "cl_delivered (send_packet_impl p c) = cl_delivered c"
    "reads (send_packet_impl p c) = reads c" "cl_connected (send_packet_impl p c) = cl_connected c"
    "cl_session_mode (send_packet_impl p c) = cl_session_mode c"
    "cl_srp (send_packet_impl p c) = cl_srp c"
  using assms by (auto simp: send_packet_impl_def sending_ok_def flush_queue_def Let_def)

lemma appends_refl: "sending_ok c \<Longrightarrow> appends c c"
  by (simp add: appends_def)

lemma appends_send: "appends c0 c \<Longrightarrow> appends c0 (send_packet_impl p c)"
  by (auto simp: appends_def send_packet_impl_ok)

lemma appends_frame:
  "appends c0 c \<Longrightarrow> appends c0 (disconnect c)" "appends c0 c \<Longrightarrow> appends c0 (on_client_srp f c)"
  "appends c0 c \<Longrightarrow> appends c0 (client_set_session_mode mode c)"
  "appends c0 c \<Longrightarrow> appends c0 (start_heartbeat c)"
  by (auto simp: appends_def sending_ok_def disconnect_def on_client_srp_def client_set_session_mode_def
      start_heartbeat_def cancel_heartbeat_timer_def)

lemma appends_ops [keeps_rules]:
  "keeps (appends c0) (supdate disconnect)" "keeps (appends c0) (supdate (on_client_srp f))"
  "keeps (appends c0) (supdate (client_set_session_mode mode))"
  "keeps (appends c0) (supdate (client_send_auth h p))" "keeps (appends c0) (supdate (client_send_work h q))"
  by (auto intro!: keeps_supdate appends_frame appends_send simp: client_send_auth_def client_send_work_def)

lemma appends_parse: "keeps (appends c0) (parse_packet e mode raw)"
proof -
  have "keeps (appends c0) (handle_auth_packet e p)" for p
    by (auto simp: handle_auth_packet_def client_challenge_def client_proof_def
        intro!: keeps_rules split: option.split AuthOpcodes.split)
  moreover have "keeps (appends c0) (handle_work_packet e p)" for p
    by (auto simp: handle_work_packet_def intro!: keeps_rules split: option.split WorkOpcodes.split)
  ultimately show ?thesis
    by (auto simp: parse_packet_def intro!: keeps_rules split: SessionMode.split)
qed

subsection \<open>One event\<close>

lemma filter_take_out:
  assumes "i < length (cl_pending c)"
  shows "\<not> P (cl_pending c ! i) \<Longrightarrow> filter P (cl_pending (take_out i c)) = filter P (cl_pending c)"
    "P (cl_pending c ! i) \<Longrightarrow> length (filter P (cl_pending c)) = Suc (length (filter P (cl_pending (take_out i c))))"
  using arg_cong[OF id_take_nth_drop[OF assms], of "filter P"] by (simp_all add: take_out_def)

lemma take_out_fields [simp]:
  "cl_connected (take_out i c) = cl_connected c" "cl_outgoing_queue (take_out i c) = cl_outgoing_queue c"
  "cl_delivered (take_out i c) = cl_delivered c" "cl_session_mode (take_out i c) = cl_session_mode c"
  "cl_srp (take_out i c) = cl_srp c"
  by (simp_all add: take_out_def)

lemma take_out_writes:
  assumes "i < length (cl_pending c)" "sending_ok c"
  shows "\<not> is_write (cl_pending c ! i) \<Longrightarrow> sending_ok (take_out i c)"
    "is_write (cl_pending c ! i) \<Longrightarrow> writes (take_out i c) = [] \<and>
       (\<exists>q p. cl_outgoing_queue c = p # q \<and> cl_pending c ! i = Write_Op p)"
proof -
  show "sending_ok (take_out i c)" if "\<not> is_write (cl_pending c ! i)"
    using assms(2) filter_take_out(1)[where P = is_write, OF assms(1) that] by (simp add: sending_ok_def)
  assume w: "is_write (cl_pending c ! i)"
  then have "cl_pending c ! i \<in> set (writes c)" using assms(1) by simp
  moreover have "length (writes c) = Suc (length (writes (take_out i c)))"
    by (rule filter_take_out(2)[where P = is_write, OF assms(1) w])
  ultimately show "writes (take_out i c) = [] \<and>
       (\<exists>q p. cl_outgoing_queue c = p # q \<and> cl_pending c ! i = Write_Op p)"
    using assms(2) by (auto simp: sending_ok_def simp del: set_filter)
qed

text \<open>
  One step: the invariant holds, what was delivered stays delivered, and the packets delivered and
  queued so far are extended at the end only.
\<close>

definition forwards :: "client \<Rightarrow> client \<Rightarrow> bool" where
  "forwards c c' \<longleftrightarrow> client_inv c' \<and> (\<exists>d. cl_delivered c' = cl_delivered c @ d) \<and>
     (\<exists>new. cl_delivered c' @ cl_outgoing_queue c' = cl_delivered c @ cl_outgoing_queue c @ new)"

lemma forwards_appends:
  "appends c1 c' \<Longrightarrow> client_inv c1 \<Longrightarrow> cl_delivered c1 = cl_delivered c \<Longrightarrow>
     cl_outgoing_queue c1 = cl_outgoing_queue c \<Longrightarrow> forwards c c'"
  by (auto simp: forwards_def appends_def client_inv_def)

text \<open>After a lost connection nothing is required of the read that has just ended.\<close>

lemma reconnect_result:
  assumes "schedule_reconnect e c = (Inr u, c')"
  shows "c' = begin_op (Reconnect_Wait False)
    (cancel_reconnect_timer (c\<lparr>cl_connected := False, cl_socket_open := False\<rparr>))"
  using assms by (auto simp: schedule_reconnect_def slift_def supdate_def outcome_simps)

lemma reconnect_forwards:
  assumes "schedule_reconnect e c = (Inr u, c')" "length (reads c) \<le> 1"
    "sending_ok c \<or> writes c = []"
  shows "forwards c c'"
  using assms(2,3) unfolding reconnect_result[OF assms(1)]
  by (auto simp: forwards_def client_inv_def sending_ok_def cancel_reconnect_timer_def)

lemma connect_result:
  assumes "connect e c = (Inr u, c')"
  shows "c' = begin_op Connect_Op (c\<lparr>cl_socket_open := True\<rparr>)"
  using assms by (auto simp: connect_def slift_def supdate_def outcome_simps sget_def)

lemma receive_forwards:
  assumes "sending_ok c" "reads c = []" "sbind (parse_packet e mode raw) (\<lambda>_. supdate start_receive_loop) c = (Inr u, c')"
  shows "forwards c c'"
proof -
  obtain c1 where p: "parse_packet e mode raw c = (Inr (), c1)" "c' = start_receive_loop c1"
    using assms(3) by (auto simp: sbind_eq supdate_def)
  have "appends c c1"
    by (rule keepsD[OF appends_parse appends_refl[OF assms(1)] p(1)])
  then show ?thesis
    using assms(2) unfolding p(2)
    by (auto simp: forwards_def appends_def client_inv_def start_receive_loop_def sending_ok_def)
qed

lemma payload_begins: "sending_ok c \<Longrightarrow> reads c = [] \<Longrightarrow> forwards c (read_payload mode header len c)"
  by (auto simp: forwards_def client_inv_def sending_ok_def read_payload_def)

lemma handled_read:
  assumes "sending_ok c" "reads c = []" "run_handler e x r c = (Inr (), c')" "is_read x"
  shows "forwards c c'"
proof -
  have f: "schedule_reconnect e c = (Inr (), c') \<Longrightarrow> forwards c c'"
    using assms(1,2) by (intro reconnect_forwards) simp_all
  consider (auth) "x = Header_Read AUTH_SESSION" | (work) "x = Header_Read WORK_SESSION"
    | (payload) mode header n where "x = Payload_Read mode header n"
    using assms(4) by (cases x rule: is_read.cases) (metis SessionMode.exhaust, auto)
  then show ?thesis
  proof cases
    case auth
    then show ?thesis
      using assms(3) f receive_forwards[OF assms(1,2)] payload_begins[OF assms(1,2)]
      by (auto simp: run_handler_def auth_header_handler_def process_empty_def supdate_def Let_def
          split: outcome.splits if_splits)
  next
    case work
    then show ?thesis
      using assms(3) f receive_forwards[OF assms(1,2)] payload_begins[OF assms(1,2)]
      by (auto simp: run_handler_def work_header_handler_def process_empty_def supdate_def Let_def
          split: outcome.splits if_splits)
  next
    case payload
    then show ?thesis
      using assms(3) f receive_forwards[OF assms(1,2)]
      by (auto simp: run_handler_def payload_handler_def split: outcome.splits)
  qed
qed

lemma flush_delivered:
  assumes "writes c = []" "cl_outgoing_queue c = p # q" "length (reads c) \<le> 1"
    "cl_connected c \<longrightarrow> length (reads c) = 1"
  shows "forwards c (flush_queue (c\<lparr>cl_outgoing_queue := q, cl_delivered := cl_delivered c @ [p]\<rparr>))"
  using assms by (cases q) (auto simp: forwards_def flush_queue_def client_inv_def sending_ok_def)

lemma connected_forwards:
  assumes "sending_ok c" "reads c = []" "writes c = []"
  shows "forwards c (start_heartbeat (flush_queue (start_receive_loop (c\<lparr>cl_connected := True\<rparr>))))"
  using assms
  by (auto simp: forwards_def client_inv_def sending_ok_def start_heartbeat_def flush_queue_def
      start_receive_loop_def cancel_heartbeat_timer_def split: list.split)

lemma heartbeat_forwards: "client_inv c \<Longrightarrow> forwards c (heartbeat_handler e r c)"
  by (rule forwards_appends[of c])
     (auto simp: heartbeat_handler_def send_ping_def client_send_auth_def client_send_work_def Let_def
       client_inv_def intro!: appends_frame appends_send appends_refl)

lemma disconnected_forwards: "client_inv c \<Longrightarrow> forwards c (disconnect_posted c)"
  by (auto simp: forwards_def client_inv_def sending_ok_def disconnect_posted_def Let_def
      cancel_heartbeat_timer_def cancel_reconnect_timer_def simp del: map_map)

text \<open>Every event that returns is such a step.\<close>

lemma handler_forwards:
  assumes "client_inv c" "i < length (cl_pending c)" "can_complete (cl_pending c ! i) r c"
    "run_handler e (cl_pending c ! i) r (take_out i c) = (Inr (), c')"
  shows "forwards (take_out i c) c'"
proof -
  let ?t = "take_out i c"
  note ok = take_out_writes[OF assms(2)] filter_take_out[where P = is_read, OF assms(2)]
  have inv: "client_inv ?t" if "\<not> is_write (cl_pending c ! i)" "\<not> is_read (cl_pending c ! i)"
    using assms(1) ok that by (simp add: client_inv_def)
  show ?thesis
  proof (cases "cl_pending c ! i")
    case Connect_Op
    have "r = Failed \<or> writes ?t = [] \<and> reads ?t = []"
      using assms(3) Connect_Op by (auto simp: can_complete_def list_all_iff take_out_def filter_empty_conv
          dest: in_set_takeD in_set_dropD)
    then show ?thesis
      using assms(4) Connect_Op inv connected_forwards[of ?t] reconnect_forwards[of e ?t]
      by (auto simp: run_handler_def connect_handler_def supdate_def client_inv_def split: outcome.splits)
  next
    case (Reconnect_Wait b)
    then have "c' = begin_op Connect_Op (?t\<lparr>cl_socket_open := True\<rparr>)"
      using assms(4) connect_result by (simp add: run_handler_def reconnect_handler_def)
    then show ?thesis
      using Reconnect_Wait inv by (auto simp: forwards_def client_inv_def sending_ok_def)
  next
    case (Heartbeat_Wait b)
    then show ?thesis using assms(4) inv heartbeat_forwards by (auto simp: run_handler_def supdate_def)
  next
    case (Header_Read mode)
    then show ?thesis using handled_read[OF _ _ assms(4)] assms(1) ok by (simp add: client_inv_def)
  next
    case (Payload_Read mode header n)
    then show ?thesis using handled_read[OF _ _ assms(4)] assms(1) ok by (simp add: client_inv_def)
  next
    case (Write_Op buf)
    have w: "writes ?t = []" "length (reads ?t) \<le> 1" "cl_connected ?t \<longrightarrow> length (reads ?t) = 1"
      and q: "\<exists>q. cl_outgoing_queue ?t = buf # q"
      using assms(1) ok Write_Op by (auto simp: client_inv_def)
    then show ?thesis
      using assms(4) Write_Op flush_delivered[of ?t] reconnect_forwards[of e ?t]
      by (auto simp: run_handler_def client_write_handler_def split: outcome.splits)
  next
    case Disconnect_Post
    then show ?thesis using assms(4) inv disconnected_forwards by (auto simp: run_handler_def supdate_def)
  qed
qed

lemma called_forwards:
  assumes "client_inv c"
  shows "forwards c (disconnect c)" "forwards c (send_message e msg c)"
    "forwards c (handle_logon_challenge e u pw c)" "forwards c (begin_op Connect_Op (c\<lparr>cl_socket_open := True\<rparr>))"
proof -
  have c: "sending_ok c" using assms by (simp add: client_inv_def)
  show "forwards c (disconnect c)" "forwards c (send_message e msg c)"
    "forwards c (handle_logon_challenge e u pw c)"
    by (rule forwards_appends[of c];
        auto simp: assms send_message_def handle_logon_challenge_def client_send_auth_def client_send_work_def
          intro!: appends_frame appends_send appends_refl c)+
  show "forwards c (begin_op Connect_Op (c\<lparr>cl_socket_open := True\<rparr>))"
    using assms by (auto simp: forwards_def client_inv_def sending_ok_def)
qed

lemma event_forwards:
  assumes "client_inv c" "client_enabled ev c" "client_event e ev c = (Inr (), c')"
  shows "forwards c c'"
proof (cases ev)
  case Call_Connect
  then show ?thesis
    using assms connect_result[of e c] called_forwards(4)[OF assms(1)] by (auto simp: client_event_def)
next
  case (Completes i r)
  then show ?thesis
    using assms handler_forwards[of c i r e c'] by (simp add: client_enabled_def client_event_def forwards_def)
qed (use assms called_forwards in \<open>auto simp: client_event_def\<close>)

lemma forwards_trans: "forwards a b \<Longrightarrow> forwards b c \<Longrightarrow> forwards a c"
proof -
  assume ab: "forwards a b" and bc: "forwards b c"
  obtain d d' where "cl_delivered b = cl_delivered a @ d" "cl_delivered c = cl_delivered b @ d'"
    using ab bc by (auto simp: forwards_def)
  moreover obtain n where n: "cl_delivered b @ cl_outgoing_queue b = cl_delivered a @ cl_outgoing_queue a @ n"
    using ab unfolding forwards_def by blast
  moreover obtain n' where "cl_delivered c @ cl_outgoing_queue c = (cl_delivered b @ cl_outgoing_queue b) @ n'"
    using bc unfolding forwards_def by auto
  then have "cl_delivered c @ cl_outgoing_queue c = cl_delivered a @ cl_outgoing_queue a @ n @ n'"
    unfolding n by simp
  ultimately show ?thesis using bc unfolding forwards_def by auto
qed

lemma forwards_refl: "client_inv c \<Longrightarrow> forwards c c"
  by (simp add: forwards_def)

lemma reach_forwards: "client_reach c c' \<Longrightarrow> client_inv c \<Longrightarrow> forwards c c'"
proof (induction rule: client_reach.induct)
  case init
  then show ?case by (rule forwards_refl)
next
  case (event c1 ev e c2)
  then have "forwards c c1" by simp
  moreover from this have "client_inv c1" by (simp add: forwards_def)
  then have "forwards c1 c2" using event_forwards event.hyps by blast
  ultimately show ?case by (rule forwards_trans)
qed

lemma Client_inv: "Client ssl h p = Inr c \<Longrightarrow> client_inv c"
  by (auto simp: Client_def client_inv_def sending_ok_def outcome_simps)

end
