(* ===== verification/Client_Properties.thy ===== *)
theory Client_Properties
  imports Client
begin

text \<open>
  Properties of the client: no handler fails, packets are delivered once and in order across
  reconnections, the receive loop and the reconnection never stop, and the session mode is never
  reset.
\<close>

subsection \<open>The client as a sender\<close>

definition write_finished :: "client \<Rightarrow> client" where
  "write_finished c = flush_queue (c\<lparr>cl_pending := filter (\<lambda>x. \<not> is_write x) (cl_pending c),
     cl_outgoing_queue := tl (cl_outgoing_queue c), cl_delivered := cl_delivered c @ [hd (cl_outgoing_queue c)]\<rparr>)"

interpretation cli: ordered_sender "\<lambda>c. concat (cl_delivered c)" cl_outgoing_queue sending_ok "\<lambda>p. p"
  send_packet_impl write_finished
proof
  show "sending_ok (send_packet_impl p s) \<and>
      concat (cl_delivered (send_packet_impl p s)) = concat (cl_delivered s) \<and>
      cl_outgoing_queue (send_packet_impl p s) = cl_outgoing_queue s @ [p]" if "sending_ok s" for s p
    using send_packet_impl_ok[OF that] by simp
  show "sending_ok (write_finished s) \<and>
      concat (cl_delivered (write_finished s)) = concat (cl_delivered s) @ hd (cl_outgoing_queue s) \<and>
      cl_outgoing_queue (write_finished s) = tl (cl_outgoing_queue s)"
    if "sending_ok s" "cl_outgoing_queue s \<noteq> []" for s
    using that by (auto simp: write_finished_def sending_ok_def flush_queue_def split: list.split)
qed

subsection \<open>Reading the packets of the server\<close>

lemma pk_read_bytes_cases:
  assumes "bb_read_pos (pk_buffer p) + n < size_t_range"
  shows "pk_read_bytes n p =
    (if bb_read_pos (pk_buffer p) + n \<le> length (bb_buffer (pk_buffer p))
     then Inr (take n (drop (bb_read_pos (pk_buffer p)) (bb_buffer (pk_buffer p))),
               p\<lparr>pk_buffer := advance n (pk_buffer p)\<rparr>)
     else Inl (Thrown (out_of_range ''ByteBuffer: not enough data to read'')))"
  using assms by (simp add: pk_read_bytes_def packet_read_def read_bytes_cases)

lemma pk_read_uint8_cases:
  assumes "bb_read_pos (pk_buffer p) + 1 < size_t_range"
  shows "pk_read_uint8 p =
    (if bb_read_pos (pk_buffer p) + 1 \<le> length (bb_buffer (pk_buffer p))
     then Inr (bb_buffer (pk_buffer p) ! bb_read_pos (pk_buffer p), p\<lparr>pk_buffer := advance 1 (pk_buffer p)\<rparr>)
     else Inl (Thrown (out_of_range ''ByteBuffer: not enough data to read'')))"
  using assms
  by (simp add: pk_read_uint8_def packet_read_def read_uint8_def read_scalar_cases hd_drop_conv_nth
      take_Suc_conv_app_nth)

definition read_challenge :: "auth_packet \<Rightarrow> (bytes \<times> byte \<times> bytes \<times> bytes) result" where
  "read_challenge p =
     rbind (pk_read_bytes 32 p) (\<lambda>(B, p1). rbind (pk_read_uint8 p1) (\<lambda>(g, p2).
     rbind (pk_read_bytes 32 p2) (\<lambda>(N, p3). rbind (pk_read_bytes 32 p3) (\<lambda>(salt, _).
     Inr (B, g, N, salt)))))"

lemma read_challenge_cases:
  assumes "unread p"
  defines "buf \<equiv> bb_buffer (pk_buffer p)"
  shows "read_challenge p =
    (if 97 \<le> length buf then Inr (take 32 buf, buf ! 32, take 32 (drop 33 buf), take 32 (drop 65 buf))
     else Inl (Thrown (out_of_range ''ByteBuffer: not enough data to read'')))"
  using assms(1) small_positions[of 32] small_positions[of 33] small_positions[of 65] small_positions[of 97]
  by (auto simp: read_challenge_def pk_read_bytes_cases pk_read_uint8_cases unread_def advance_def buf_def)

lemma sbind_slift_assoc:
  "sbind (slift (rbind q f)) k = sbind (slift q) (\<lambda>x. sbind (slift (f x)) k)"
  "sbind (slift (Inr x)) k = k x"
  by (cases q; simp add: fun_eq_iff) (simp add: fun_eq_iff)

text \<open>What the client does with the four values it has read.\<close>

definition answer_proof :: "client_env \<Rightarrow> bytes \<Rightarrow> byte \<Rightarrow> bytes \<Rightarrow> bytes \<Rightarrow> (client, unit) op" where
  "answer_proof e B g N salt =
     sbind (sget cl_srp) (\<lambda>srp.
     sbind (slift (load_constants (cx_ssl e) N g srp)) (\<lambda>srp1.
     sbind (supdate (on_client_srp (\<lambda>_. srp1))) (\<lambda>_.
     sbind (supdate (on_client_srp (load_salt salt))) (\<lambda>_.
     sbind (supdate (on_client_srp (generate_client_ephemeral (cx_ssl e) (cx_rnd e)))) (\<lambda>_.
     sbind (sget cl_srp) (\<lambda>srp2.
     sbind (slift (get_A_bytes (cx_ssl e) srp2)) (\<lambda>padded_A.
     sbind (slift (compute_M1 (cx_ssl e) B srp2)) (\<lambda>(padded_M1, srp3).
     sbind (supdate (on_client_srp (\<lambda>_. srp3))) (\<lambda>_.
     supdate (client_send_auth (cx_endian e)
       (pk_write_bytes padded_M1 (pk_write_bytes padded_A (AuthPacket CMSG_AUTH_LOGON_PROOF)))))))))))))"

lemma client_challenge_alt:
  "client_challenge e p =
     scatch (sbind (slift (read_challenge p)) (\<lambda>(B, g, N, salt). answer_proof e B g N salt))
       (\<lambda>ex. supdate disconnect)"
proof -
  have "sbind (slift (read_challenge p)) (\<lambda>(B, g, N, salt). answer_proof e B g N salt) =
      sbind (slift (pk_read_bytes 32 p)) (\<lambda>(B, p1). sbind (slift (pk_read_uint8 p1)) (\<lambda>(g, p2).
      sbind (slift (pk_read_bytes 32 p2)) (\<lambda>(N, p3). sbind (slift (pk_read_bytes 32 p3)) (\<lambda>(salt, _).
      answer_proof e B g N salt))))"
    by (simp add: read_challenge_def sbind_slift_assoc case_prod_unfold)
  then show ?thesis by (simp add: client_challenge_def answer_proof_def)
qed

subsection \<open>What the handlers parse is defined\<close>

lemma padded_defined: "pad_bytes_left bs n \<noteq> Inl Undefined"
  by (simp add: pad_bytes_left_def)

lemma M1_defined: "openssl_ok ssl \<Longrightarrow> compute_M1 ssl B srp \<noteq> Inl Undefined"
  by (simp add: compute_M1_def get_A_bytes_def rbind_Inl_iff bn_vector_ok padded_defined)

lemma defined_answer_proof:
  assumes "openssl_ok (cx_ssl e)"
  shows "defined (answer_proof e B g N salt)"
  unfolding answer_proof_def load_constants_ok[OF assms] get_A_bytes_def case_prod_beta
  by (intro defined_rules defined_slift bn_vector_defined[OF assms] M1_defined[OF assms]) simp

lemma defined_client_challenge:
  "openssl_ok (cx_ssl e) \<Longrightarrow> unread p \<Longrightarrow> defined (client_challenge e p)"
  unfolding client_challenge_alt
  by (auto intro!: defined_rules defined_slift defined_answer_proof simp: read_challenge_cases split: prod.split)

lemma server_proof_defined:
  assumes "openssl_ok ssl" "length M2 = 20"
  shows "verify_server_proof ssl M1 M2 srp \<noteq> Inl Undefined"
  using assms
  by (simp add: verify_server_proof_def get_A_bytes_def rbind_Inl_iff bn_vector_ok padded_defined
      equal_prefix_iff openssl_okD)

lemma read_20:
  assumes "unread p"
  shows "pk_read_bytes 20 p =
    (if 20 \<le> length (bb_buffer (pk_buffer p))
     then Inr (take 20 (bb_buffer (pk_buffer p)), p\<lparr>pk_buffer := advance 20 (pk_buffer p)\<rparr>)
     else Inl (Thrown (out_of_range ''ByteBuffer: not enough data to read'')))"
  using assms small_positions[of 20] by (simp add: pk_read_bytes_cases unread_def)

lemma defined_client_proof:
  assumes "openssl_ok (cx_ssl e)" "unread p"
  shows "defined (client_proof e p)"
  unfolding client_proof_def read_20[OF assms(2)]
  by (rule defined_slift_sbind)
     (auto intro!: defined_rules(2) defined_sbind[OF defined_basic(3)] defined_sbind[OF defined_slift] defined_basic
       server_proof_defined[OF assms(1)] split: if_splits)

lemma defined_response:
  assumes "unread p"
  shows "defined (sbind (slift (pk_read_uint8 p)) (\<lambda>(authcode, p1).
    sbind (slift (pk_read_uint8 p1)) (\<lambda>(errorcode, _). supdate disconnect)))"
proof (rule defined_slift_sbind)
  show "pk_read_uint8 p \<noteq> Inl Undefined"
    using assms small_positions[of 1] by (simp add: pk_read_uint8_cases unread_def)
  fix x assume "pk_read_uint8 p = Inr x"
  then have "bb_read_pos (pk_buffer (snd x)) = 1"
    using assms small_positions[of 1] by (auto simp: pk_read_uint8_cases unread_def advance_def split: if_splits)
  then have "pk_read_uint8 (snd x) \<noteq> Inl Undefined"
    using small_positions[of 2] by (simp add: pk_read_uint8_cases)
  then show "defined (case x of (authcode, p1) \<Rightarrow> sbind (slift (pk_read_uint8 p1)) (\<lambda>(errorcode, _). supdate disconnect))"
    by (auto intro!: defined_sbind defined_slift defined_basic split: prod.split)
qed

lemma defined_parse:
  assumes "openssl_ok (cx_ssl e)" "length raw \<le> header_size mode + 2048"
  shows "defined (parse_packet e mode raw)"
proof -
  have r: "length raw + 3 < size_t_range" "length raw + 4 < size_t_range"
    using assms(2) by (simp_all add: size_t_range_def header_size_def split: SessionMode.splits)
  have a: "defined (handle_auth_packet e p)" if "unread p" for p
    using defined_client_challenge[OF assms(1) that] defined_client_proof[OF assms(1) that] defined_response[OF that]
    by (auto simp: handle_auth_packet_def intro!: defined_basic split: option.split AuthOpcodes.split)
  have w: "defined (handle_work_packet e p)" for p
    using read_nt_total[of p]
    by (auto simp: handle_work_packet_def intro!: defined_sbind defined_slift defined_basic
        split: option.split WorkOpcodes.split)
  have "defined (sbind (slift (auth_deserialize h raw AuthPacket_default)) (handle_auth_packet e))"
    if "mode = AUTH_SESSION" for h
    by (rule defined_slift_sbind, insert assms(2) that)
       (auto simp: auth_deserialize_cases[OF r(1)] unread_def header_size_def intro!: a split: if_splits)
  moreover have "defined (sbind (slift (work_deserialize h raw WorkPacket_default)) (handle_work_packet e))" for h
    by (intro defined_sbind defined_slift w) (simp add: work_deserialize_cases[OF r(2)])
  ultimately show ?thesis
    by (cases mode) (simp_all add: parse_packet_def defined_scatch defined_basic)
qed

subsection \<open>The operations under way\<close>

fun op_ok :: "client_op \<Rightarrow> bool" where
  "op_ok (Payload_Read mode header n) = (n \<le> 2048 \<and> length header = header_size mode)"
| "op_ok x = True"

fun active :: "client_op \<Rightarrow> bool" where
  "active Connect_Op = True"
| "active (Reconnect_Wait _) = True"
| "active (Header_Read _) = True"
| "active (Payload_Read _ _ _) = True"
| "active _ = False"

definition ops_ok :: "client \<Rightarrow> bool" where
  "ops_ok c \<longleftrightarrow> (\<forall>x\<in>set (cl_pending c). op_ok x)"

definition lively :: "client \<Rightarrow> bool" where
  "lively c \<longleftrightarrow> (\<exists>x\<in>set (cl_pending c). active x)"

lemma cancelled_ops [simp]:
  "op_ok (cancel_reconnect_op x) = op_ok x" "op_ok (cancel_heartbeat_op x) = op_ok x"
  "active (cancel_reconnect_op x) = active x" "active (cancel_heartbeat_op x) = active x"
  by (cases x; simp)+

lemma begun_ops [simp]:
  "ops_ok (begin_op x c) \<longleftrightarrow> ops_ok c \<and> op_ok x" "lively (begin_op x c) \<longleftrightarrow> lively c \<or> active x"
  by (auto simp: ops_ok_def lively_def)

lemma frame_ops [simp]:
  "ops_ok (cancel_reconnect_timer c) = ops_ok c" "ops_ok (cancel_heartbeat_timer c) = ops_ok c"
  "lively (cancel_reconnect_timer c) = lively c" "lively (cancel_heartbeat_timer c) = lively c"
  "ops_ok (on_client_srp f c) = ops_ok c" "lively (on_client_srp f c) = lively c"
  "ops_ok (client_set_session_mode mode c) = ops_ok c" "lively (client_set_session_mode mode c) = lively c"
  "ops_ok (disconnect c) = ops_ok c" "lively (disconnect c) = lively c"
  by (simp_all add: cancel_reconnect_timer_def cancel_heartbeat_timer_def on_client_srp_def
      client_set_session_mode_def disconnect_def) (simp_all add: ops_ok_def lively_def)

lemma updated_ops [simp]:
  "ops_ok (c\<lparr>cl_connected := b\<rparr>) = ops_ok c" "lively (c\<lparr>cl_connected := b\<rparr>) = lively c"
  "ops_ok (c\<lparr>cl_socket_open := b\<rparr>) = ops_ok c" "lively (c\<lparr>cl_socket_open := b\<rparr>) = lively c"
  "ops_ok (c\<lparr>cl_outgoing_queue := q\<rparr>) = ops_ok c" "lively (c\<lparr>cl_outgoing_queue := q\<rparr>) = lively c"
  "ops_ok (c\<lparr>cl_outgoing_queue := q, cl_delivered := d\<rparr>) = ops_ok c"
  "lively (c\<lparr>cl_outgoing_queue := q, cl_delivered := d\<rparr>) = lively c"
  by (simp_all add: ops_ok_def lively_def)

lemma flushed_ops [simp]: "ops_ok (flush_queue c) = ops_ok c" "lively (flush_queue c) = lively c"
  by (simp_all add: flush_queue_def split: list.split)

lemma sent_ops [simp]:
  "ops_ok (send_packet_impl p c) = ops_ok c" "lively (send_packet_impl p c) = lively c"
  "cl_session_mode (send_packet_impl p c) = cl_session_mode c"
  by (simp_all add: send_packet_impl_def Let_def) (simp_all add: flush_queue_def split: list.split)

lemma started_ops [simp]:
  "ops_ok (start_receive_loop c) = ops_ok c" "lively (start_receive_loop c)"
  "ops_ok (start_heartbeat c) = ops_ok c" "lively (start_heartbeat c) = lively c"
  "ops_ok (disconnect_posted c) = ops_ok c" "lively (disconnect_posted c) = lively c"
  by (simp_all add: start_receive_loop_def start_heartbeat_def disconnect_posted_def Let_def)

text \<open>A packet from the server never resets the session mode and leaves the operations under way alone.\<close>

definition settled :: "client \<Rightarrow> client \<Rightarrow> bool" where
  "settled c0 c \<longleftrightarrow> (ops_ok c0 \<longrightarrow> ops_ok c) \<and> (lively c0 \<longrightarrow> lively c) \<and>
     (cl_session_mode c0 = WORK_SESSION \<longrightarrow> cl_session_mode c = WORK_SESSION)"

lemma settled_ops [keeps_rules]:
  "keeps (settled c0) (supdate disconnect)" "keeps (settled c0) (supdate (on_client_srp f))"
  "keeps (settled c0) (supdate (client_set_session_mode WORK_SESSION))"
  "keeps (settled c0) (supdate (client_send_auth h p))" "keeps (settled c0) (supdate (client_send_work h q))"
  by (auto intro!: keeps_supdate simp: client_send_auth_def client_send_work_def settled_def)
     (simp_all add: disconnect_def on_client_srp_def client_set_session_mode_def)

lemma settled_parse: "keeps (settled c0) (parse_packet e mode raw)"
proof -
  have "keeps (settled c0) (handle_auth_packet e p)" for p
    by (auto simp: handle_auth_packet_def client_challenge_def client_proof_def
        intro!: keeps_rules split: option.split AuthOpcodes.split)
  moreover have "keeps (settled c0) (handle_work_packet e p)" for p
    by (auto simp: handle_work_packet_def intro!: keeps_rules split: option.split WorkOpcodes.split)
  ultimately show ?thesis
    by (auto simp: parse_packet_def intro!: keeps_rules split: SessionMode.split)
qed

lemma settled_refl: "settled c c"
  by (simp add: settled_def)

lemma mode_frame [simp]:
  "cl_session_mode (flush_queue c) = cl_session_mode c"
  "cl_session_mode (start_receive_loop c) = cl_session_mode c"
  "cl_session_mode (start_heartbeat c) = cl_session_mode c"
  "cl_session_mode (disconnect_posted c) = cl_session_mode c"
  "cl_session_mode (disconnect c) = cl_session_mode c"
  "cl_session_mode (on_client_srp f c) = cl_session_mode c"
  by (simp_all add: flush_queue_def start_receive_loop_def start_heartbeat_def disconnect_posted_def
      cancel_heartbeat_timer_def cancel_reconnect_timer_def disconnect_def on_client_srp_def Let_def
      split: list.split)

lemma settled_reconnect:
  "schedule_reconnect e c = (Inr u, c') \<Longrightarrow> settled c c' \<and> lively c'"
  by (drule reconnect_result) (simp add: settled_def, simp add: cancel_reconnect_timer_def)

lemma settled_receive:
  assumes "sbind (parse_packet e mode raw) (\<lambda>_. supdate start_receive_loop) c = (Inr u, c')"
  shows "settled c c' \<and> lively c'"
proof -
  obtain c1 where p: "parse_packet e mode raw c = (Inr (), c1)" "c' = start_receive_loop c1"
    using assms by (auto simp: sbind_eq supdate_def)
  show ?thesis
    using keepsD[OF settled_parse settled_refl p(1)] by (simp add: p(2) settled_def)
qed

lemma settled_payload:
  "length header = header_size mode \<Longrightarrow> n \<le> 2048 \<Longrightarrow>
     settled c (read_payload mode header n c) \<and> lively (read_payload mode header n c)"
  by (simp add: settled_def read_payload_def)

lemma settled_handler:
  assumes "run_handler e x r c = (Inr (), c')" "can_complete x r c0"
  shows "settled c c' \<and> (active x \<longrightarrow> lively c')"
proof (cases x)
  case Connect_Op
  then show ?thesis
    using assms(1) settled_reconnect
    by (auto simp: run_handler_def connect_handler_def supdate_def settled_def split: outcome.splits)
next
  case (Reconnect_Wait b)
  then have "c' = begin_op Connect_Op (c\<lparr>cl_socket_open := True\<rparr>)"
    using assms(1) connect_result by (simp add: run_handler_def reconnect_handler_def)
  then show ?thesis by (simp add: settled_def)
next
  case (Heartbeat_Wait b)
  then show ?thesis
    using assms(1) by (auto simp: run_handler_def supdate_def heartbeat_handler_def send_ping_def settled_def Let_def
        client_send_auth_def client_send_work_def)
next
  case (Header_Read mode)
  show ?thesis
    using assms Header_Read settled_reconnect settled_receive settled_payload
    by (cases mode)
       (auto simp: run_handler_def auth_header_handler_def work_header_handler_def process_empty_def
         can_complete_def supdate_def Let_def split: outcome.splits if_splits)
next
  case (Payload_Read mode header n)
  then show ?thesis
    using assms(1) settled_reconnect settled_receive
    by (auto simp: run_handler_def payload_handler_def split: outcome.splits)
next
  case (Write_Op buf)
  then show ?thesis
    using assms(1) settled_reconnect
    by (auto simp: run_handler_def client_write_handler_def settled_def split: outcome.splits list.splits)
next
  case Disconnect_Post
  then show ?thesis using assms(1) by (auto simp: run_handler_def supdate_def settled_def)
qed

lemma taken_ops:
  assumes "i < length (cl_pending c)"
  shows "ops_ok c \<Longrightarrow> op_ok (cl_pending c ! i) \<and> ops_ok (take_out i c)"
    "lively c \<Longrightarrow> active (cl_pending c ! i) \<or> lively (take_out i c)"
proof -
  have s: "set (cl_pending c) = insert (cl_pending c ! i) (set (cl_pending (take_out i c)))"
    using arg_cong[OF id_take_nth_drop[OF assms], of set] by (simp add: take_out_def)
  show "ops_ok c \<Longrightarrow> op_ok (cl_pending c ! i) \<and> ops_ok (take_out i c)"
    "lively c \<Longrightarrow> active (cl_pending c ! i) \<or> lively (take_out i c)"
    unfolding ops_ok_def lively_def s by auto
qed

lemma settled_event:
  assumes "client_enabled ev c" "client_event e ev c = (Inr (), c')"
  shows "settled c c'"
proof (cases ev)
  case Call_Connect
  then show ?thesis
    using assms connect_result[of e c] by (auto simp: client_event_def settled_def)
next
  case (Completes i r)
  then show ?thesis
    using assms settled_handler[of e "cl_pending c ! i" r "take_out i c" c' c] taken_ops[of i c]
    by (auto simp: client_enabled_def client_event_def settled_def)
qed (use assms in \<open>auto simp: client_event_def settled_def send_message_def handle_logon_challenge_def
    client_send_auth_def client_send_work_def\<close>)

lemma settled_reach: "client_reach c c' \<Longrightarrow> settled c c'"
proof (induction rule: client_reach.induct)
  case init
  then show ?case by (rule settled_refl)
next
  case (event c1 ev e c2)
  then show ?case using settled_event[of ev c1 e c2] by (auto simp: settled_def)
qed

lemma Client_ops: "Client ssl h p = Inr c \<Longrightarrow> ops_ok c"
  by (auto simp: Client_def ops_ok_def outcome_simps)

subsection \<open>How an event ends\<close>

text \<open>
  The client makes two calls that may throw outside of any \<open>try\<close> block: \<open>resolve\<close> in \<open>connect\<close>, and
  \<open>close\<close> in \<open>schedule_reconnect\<close>. The call that a completion reaches, with its result.
\<close>

definition header_field :: "SessionMode \<Rightarrow> bytes \<Rightarrow> nat" where
  "header_field mode header =
     (case mode of
        AUTH_SESSION \<Rightarrow> unat (header_length (header ! 1) (header ! 2))
      | WORK_SESSION \<Rightarrow> unat (header_length (header ! 2) (header ! 3)))"

fun completion_call :: "client_env \<Rightarrow> unit result \<Rightarrow> client_op \<Rightarrow> outcome \<Rightarrow> unit result" where
  "completion_call e resolved (Reconnect_Wait b) r = resolved"
| "completion_call e resolved Connect_Op Failed = cx_close e"
| "completion_call e resolved (Header_Read mode) Failed = cx_close e"
| "completion_call e resolved (Header_Read mode) (Succeeded header) =
     (if 2048 < header_field mode header then cx_close e else Inr ())"
| "completion_call e resolved (Payload_Read mode header n) Failed = cx_close e"
| "completion_call e resolved (Write_Op buf) Failed = cx_close e"
| "completion_call e resolved x r = Inr ()"

definition unguarded_call :: "client_env \<Rightarrow> client_event \<Rightarrow> client \<Rightarrow> unit result" where
  "unguarded_call e ev c =
     (let resolved = cx_resolve e (cl_host c) (to_string (cl_port c)) in
      case ev of
        Call_Connect \<Rightarrow> resolved
      | Completes i r \<Rightarrow> completion_call e resolved (cl_pending c ! i) r
      | _ \<Rightarrow> Inr ())"

lemma reconnect_outcome: "fst (schedule_reconnect e c) = cx_close e"
  by (cases "cx_close e") (simp_all add: schedule_reconnect_def supdate_def)

lemma connect_outcome: "fst (connect e c) = cx_resolve e (cl_host c) (to_string (cl_port c))"
  by (cases "cx_resolve e (cl_host c) (to_string (cl_port c))") (simp_all add: connect_def supdate_def sget_def sbind_def slift_def)

lemma receive_outcome:
  assumes "openssl_ok (cx_ssl e)" "length raw \<le> header_size mode + 2048"
  shows "fst (sbind (parse_packet e mode raw) (\<lambda>_. supdate start_receive_loop) c) = Inr ()"
proof -
  have d: "defined (parse_packet e mode raw)"
    using assms by (simp add: defined_parse)
  have "\<exists>x c1. parse_packet e mode raw c = (Inr x, c1)"
    using d unfolding parse_packet_def
    by (cases "parse_packet e mode raw c")
       (auto simp: defined_def scatch_def sreturn_def split: prod.splits sum.splits fault.splits)
  then show ?thesis by (auto simp: supdate_def)
qed

lemma handler_outcome:
  assumes "openssl_ok (cx_ssl e)" "op_ok x" "can_complete x r c0"
    "is_write x \<Longrightarrow> cl_outgoing_queue c \<noteq> []"
  shows "fst (run_handler e x r c) = completion_call e (cx_resolve e (cl_host c) (to_string (cl_port c))) x r"
proof (cases x)
  case (Header_Read mode)
  then show ?thesis
    using assms reconnect_outcome receive_outcome[OF assms(1)]
    by (cases mode; cases r)
       (auto simp: run_handler_def auth_header_handler_def work_header_handler_def process_empty_def header_field_def
         can_complete_def supdate_def Let_def)
next
  case (Payload_Read mode header n)
  then show ?thesis
    using assms reconnect_outcome receive_outcome[OF assms(1)]
    by (cases r) (auto simp: run_handler_def payload_handler_def can_complete_def)
next
  case (Write_Op buf)
  then show ?thesis
    using assms(4) reconnect_outcome
    by (cases r) (auto simp: run_handler_def client_write_handler_def neq_Nil_conv)
next
  case Connect_Op
  then show ?thesis
    using reconnect_outcome by (cases r) (auto simp: run_handler_def connect_handler_def supdate_def)
qed (use connect_outcome in \<open>auto simp: run_handler_def reconnect_handler_def supdate_def\<close>)

lemma event_outcome:
  assumes "openssl_ok (cx_ssl e)" "client_inv c" "ops_ok c" "client_enabled ev c"
  shows "fst (client_event e ev c) = unguarded_call e ev c"
proof (cases ev)
  case Call_Connect
  then show ?thesis using connect_outcome by (simp add: client_event_def unguarded_call_def)
next
  case (Completes i r)
  then have i: "i < length (cl_pending c)" "can_complete (cl_pending c ! i) r c"
    using assms(4) by (simp_all add: client_enabled_def)
  have "cl_outgoing_queue (take_out i c) \<noteq> []" if "is_write (cl_pending c ! i)"
    using take_out_writes(2)[OF i(1) _ that] assms(2) by (auto simp: client_inv_def)
  then show ?thesis
    using handler_outcome[OF assms(1) _ i(2)] taken_ops(1)[OF i(1) assms(3)] Completes
    by (simp add: client_event_def unguarded_call_def take_out_def)
qed (auto simp: client_event_def unguarded_call_def)

subsection \<open>Properties\<close>

definition sample_client_env :: client_env where
  "sample_client_env = \<lparr>cx_ssl = sample_openssl, cx_endian = Little_Endian, cx_resolve = (\<lambda>h p. Inr ()),
     cx_close = Inr (), cx_rnd = [5], cx_uint32 = 7\<rparr>"

definition sample_client :: client where
  "sample_client = \<lparr>cl_host = str ''127.0.0.1'', cl_port = 3724, cl_connected = False, cl_outgoing_queue = [],
     cl_session_mode = AUTH_SESSION, cl_srp = fresh sample_openssl, cl_socket_open = False, cl_pending = [],
     cl_delivered = []\<rparr>"

lemma sample_client_made: "Client sample_openssl (str ''127.0.0.1'') 3724 = Inr sample_client"
  by (simp add: Client_def SRP6_fresh[OF sample_openssl_ok] sample_client_def)

lemma sample_client_env_ok: "openssl_ok (cx_ssl sample_client_env)" "cx_resolve sample_client_env h p = Inr ()"
  by (simp_all add: sample_client_env_def sample_openssl_ok)

text \<open>
  C8. What can go wrong in the client. When OpenSSL behaves as documented, then starting from \<open>main\<close>,
  whatever the order of calls and completions and whatever the bytes the server sends, the handler
  of every event ends as the one unguarded call it reaches ends, and returns when it reaches none:
  \<open>resolve\<close>, when the program connects or the reconnect timer ends, and \<open>close\<close>, when an operation of
  the socket failed or a header announces more than 2048 bytes. So an exception reaches the event
  loop exactly when one of these two throws. Packets that are too short, contradict their length
  field or carry bad parameters never make the client fail.
\<close>

theorem client_outcome:
  assumes "openssl_ok (cx_ssl e)" "openssl_ok (cx_ssl e0)"
  shows "case cx_resolve e0 (str ''127.0.0.1'') (to_string 3724) of
      Inl f \<Rightarrow> main_client e0 = Inl f
    | Inr _ \<Rightarrow> \<exists>c0. main_client e0 = Inr c0 \<and>
        (\<forall>c ev. client_reach c0 c \<longrightarrow> client_enabled ev c \<longrightarrow> fst (client_event e ev c) = unguarded_call e ev c)"
proof -
  obtain c1 where c1: "Client (cx_ssl e0) (str ''127.0.0.1'') 3724 = Inr c1"
    "cl_host c1 = str ''127.0.0.1''" "cl_port c1 = 3724"
    using SRP6_fresh[OF assms(2)] by (simp add: Client_def)
  have r: "fst (connect e0 c1) = cx_resolve e0 (str ''127.0.0.1'') (to_string 3724)" using c1 by (simp add: connect_outcome)
  show ?thesis
  proof (cases "cx_resolve e0 (str ''127.0.0.1'') (to_string 3724)")
    case (Inl f)
    then show ?thesis using c1(1) r by (cases "connect e0 c1") (simp add: main_client_def)
  next
    case (Inr u)
    then obtain c0 where "connect e0 c1 = (Inr (), c0)" using r by (cases "connect e0 c1") auto
    then have m: "main_client e0 = Inr c0" using c1 by (simp add: main_client_def)
    have r: "client_reach c1 c0" using main_client_reach[OF m] c1 by auto
    have i: "client_inv c0" "ops_ok c0"
      using reach_forwards[OF r Client_inv[OF c1(1)]] settled_reach[OF r] Client_ops[OF c1(1)]
      by (simp_all add: forwards_def settled_def)
    have "fst (client_event e ev c) = unguarded_call e ev c" if "client_reach c0 c" "client_enabled ev c" for c ev
      using event_outcome[OF assms(1) _ _ that(2)] reach_forwards[OF that(1) i(1)] settled_reach[OF that(1)] i(2)
      by (simp add: forwards_def settled_def)
    then show ?thesis using m Inr by auto
  qed
qed

theorem client_outcome_witness:
  "\<exists>c0. main_client sample_client_env = Inr c0 \<and> cl_pending c0 = [Connect_Op] \<and>
     fst (client_event sample_client_env (Completes 0 (Succeeded [])) c0) = Inr () \<and>
     fst (client_event (sample_client_env\<lparr>cx_close := Inl (Thrown (runtime_error ''close''))\<rparr>) (Completes 0 Failed) c0) = Inl (Thrown (runtime_error ''close''))"
proof -
  let ?t = "sample_client_env\<lparr>cx_close := Inl (Thrown (runtime_error ''close''))\<rparr>"
  have k: "openssl_ok (cx_ssl ?t)" using sample_client_env_ok(1) by simp
  have m: "main_client sample_client_env = Inr (begin_op Connect_Op (sample_client\<lparr>cl_socket_open := True\<rparr>))" (is "_ = Inr ?c")
    using sample_client_made by (simp add: main_client_def connect_def sample_client_env_def sget_def supdate_def)
  have p: "cl_pending ?c = [Connect_Op]" by (simp add: begin_op_def sample_client_def)
  have e: "client_enabled (Completes 0 (Succeeded [])) ?c" "client_enabled (Completes 0 Failed) ?c"
    by (simp_all add: client_enabled_def can_complete_def sample_client_def)
  have "fst (client_event sample_client_env (Completes 0 (Succeeded [])) ?c) =
      unguarded_call sample_client_env (Completes 0 (Succeeded [])) ?c"
    using client_outcome[OF sample_client_env_ok(1) sample_client_env_ok(1)] m e(1) client_reach.init
    by (auto simp: sample_client_env_ok(2))
  moreover have "fst (client_event ?t (Completes 0 Failed) ?c) = unguarded_call ?t (Completes 0 Failed) ?c"
    using client_outcome[OF k sample_client_env_ok(1)] m e(2) client_reach.init by (auto simp: sample_client_env_ok(2))
  ultimately show ?thesis using m p by (auto simp: unguarded_call_def)
qed

text \<open>
  C9. The client delivers every packet once and in order, across any number of lost connections. In
  every reachable state at most one write is under way, and it writes the head of the queue; a
  connected client with packets in the queue is writing. Sending a packet puts its bytes behind all
  bytes sent before. From there on, the packets whose writing has
  completed followed by the queue only ever grow at the end: nothing queued is lost, repeated or
  overtaken, and what was delivered stays delivered.
\<close>

theorem client_delivers_in_order:
  assumes "Client ssl h p = Inr c0" "client_reach c0 c" "client_reach c c'"
  shows "(writes c = [] \<and> (cl_connected c \<longrightarrow> cl_outgoing_queue c = []) \<or>
     writes c = [Write_Op (hd (cl_outgoing_queue c))] \<and> cl_outgoing_queue c \<noteq> []) \<and>
   (\<forall>q. concat (cl_delivered (send_packet_impl q c)) @ concat (cl_outgoing_queue (send_packet_impl q c)) =
      concat (cl_delivered c) @ concat (cl_outgoing_queue c) @ q) \<and>
   (\<exists>d. cl_delivered c' = cl_delivered c @ d) \<and>
   (\<exists>new. cl_delivered c' @ cl_outgoing_queue c' = cl_delivered c @ cl_outgoing_queue c @ new)"
proof -
  have "client_inv c"
    using reach_forwards[OF assms(2) Client_inv[OF assms(1)]] by (simp add: forwards_def)
  then show ?thesis
    using reach_forwards[OF assms(3)] cli.send_stream[of c]
    by (auto simp: forwards_def client_inv_def) (auto simp: sending_ok_def)
qed

theorem client_delivers_in_order_witness:
  "Client sample_openssl (str ''127.0.0.1'') 3724 = Inr sample_client \<and>
   (\<exists>c'. client_reach sample_client c' \<and> cl_outgoing_queue c' = [[3, 0, 2, 49, 0]] \<and>
     (\<exists>d. cl_delivered c' = cl_delivered sample_client @ d) \<and>
     (\<exists>new. cl_delivered c' @ cl_outgoing_queue c' = cl_delivered sample_client @ cl_outgoing_queue sample_client @ new))"
proof -
  let ?c = "handle_logon_challenge sample_client_env (str ''1'') (str ''1'') sample_client"
  have r: "client_reach sample_client ?c"
    by (rule client_reach.event[OF client_reach.init, of "Call_Logon (str ''1'') (str ''1'')" _ sample_client_env])
       (simp_all add: client_enabled_def client_event_def)
  have "cl_outgoing_queue ?c = [[3, 0, 2, 49, 0]]"
    by (simp add: handle_logon_challenge_def client_send_auth_def send_packet_impl_def on_client_srp_def sample_client_def
        auth_build_frame auth_frame_def be16_eq pk_write_string_nt_le_def packet_write_def codec_simps AuthPacket_def
        bb_empty_def str_def)
  then show ?thesis
    using client_delivers_in_order[OF sample_client_made client_reach.init r] r sample_client_made by blast
qed

text \<open>
  The client never comes to rest: after the first successful call of \<open>connect\<close>, in every reachable
  state it is connecting, waiting to reconnect, or receiving. In particular \<open>disconnect\<close> does not end
  the connection for good: the read it aborts, or the wait it cancels, leads to a new \<open>connect\<close>.
\<close>

theorem client_never_rests:
  assumes "connect e c0 = (Inr (), c1)" "client_reach c1 c"
  shows "Connect_Op \<in> set (cl_pending c) \<or> (\<exists>b. Reconnect_Wait b \<in> set (cl_pending c)) \<or> reads c \<noteq> []"
proof -
  have "lively c1" using connect_result[OF assms(1)] by simp
  then obtain x where "x \<in> set (cl_pending c)" "active x"
    using settled_reach[OF assms(2)] by (auto simp: settled_def lively_def)
  then show ?thesis by (cases x rule: client_op.exhaust) (force simp: filter_empty_conv)+
qed

theorem client_never_rests_witness:
  "\<exists>c1. connect sample_client_env sample_client = (Inr (), c1) \<and> client_reach c1 (disconnect c1) \<and>
     (Connect_Op \<in> set (cl_pending (disconnect c1)) \<or>
      (\<exists>b. Reconnect_Wait b \<in> set (cl_pending (disconnect c1))) \<or> reads (disconnect c1) \<noteq> [])"
proof -
  obtain c1 where c1: "connect sample_client_env sample_client = (Inr (), c1)"
    using connect_outcome[of sample_client_env sample_client] sample_client_env_ok(2)
    by (cases "connect sample_client_env sample_client") auto
  have "client_reach c1 (disconnect c1)"
    by (rule client_reach.event[OF client_reach.init, of Call_Disconnect _ sample_client_env])
       (simp_all add: client_enabled_def client_event_def)
  then show ?thesis using client_never_rests[OF c1] c1 by blast
qed

end
