(* ===== verification/Login.thy ===== *)
theory Login
  imports Session_Properties Client_Properties
begin

text \<open>
  A client and a session of the server joined by a connection: what one end writes arrives at the
  other, in pieces of any size.
\<close>

subsection \<open>The connection\<close>

text \<open>
  The client, the session, the bytes on their way to the server and the bytes on their way to the
  client. A completed write of the client and a completed write of the session put their bytes on
  the way, and a completed read takes them off.
\<close>

type_synonym 'w net = "client \<times> 'w srv \<times> bytes \<times> bytes"

fun client_takes :: "client_event \<Rightarrow> client \<Rightarrow> bytes" where
  "client_takes (Completes i (Succeeded bs)) c = (if is_read (cl_pending c ! i) then bs else [])"
| "client_takes ev c = []"

fun session_takes :: "session_event \<Rightarrow> bytes" where
  "session_takes (Read_Done (Received bs)) = bs"
| "session_takes ev = []"

definition client_gives :: "client \<Rightarrow> client \<Rightarrow> bytes" where
  "client_gives c c' = concat (drop (length (cl_delivered c)) (cl_delivered c'))"

definition session_gives :: "'w srv \<Rightarrow> 'w srv \<Rightarrow> bytes" where
  "session_gives s s' = drop (length (cs_wire (sv_session s))) (cs_wire (sv_session s'))"

inductive net_reach :: "client_env \<Rightarrow> 'w env \<Rightarrow> 'w net \<Rightarrow> 'w net \<Rightarrow> bool" for ce se where
  init: "net_reach ce se n n"
| client: "net_reach ce se n (c, s, up, client_takes ev c @ down) \<Longrightarrow> client_enabled ev c \<Longrightarrow>
    client_event ce ev c = (Inr (), c') \<Longrightarrow> net_reach ce se n (c', s, up @ client_gives c c', down)"
| server: "net_reach ce se n (c, s, session_takes ev @ up, down) \<Longrightarrow> event_enabled ev (sv_session s) \<Longrightarrow>
    session_event se ev s = (Inr (), s') \<Longrightarrow> net_reach ce se n (c, s', up, down @ session_gives s s')"

lemma net_reach_trans: "net_reach ce se n' n'' \<Longrightarrow> net_reach ce se n n' \<Longrightarrow> net_reach ce se n n''"
  by (induction rule: net_reach.induct) (auto intro: net_reach.intros)

subsection \<open>The server answers a frame\<close>

text \<open>What the packet handlers leave alone.\<close>

definition inert :: "session \<Rightarrow> 'w srv \<Rightarrow> bool" where
  "inert c s \<longleftrightarrow> cs_read_buffer (sv_session s) = cs_read_buffer c \<and> cs_closed (sv_session s) = cs_closed c \<and>
     cs_reading (sv_session s) = cs_reading c \<and> cs_write_queue (sv_session s) = cs_write_queue c \<and>
     cs_wire (sv_session s) = cs_wire c"

lemma inert_basic [keeps_rules]:
  "keeps (inert c) (on_srp f)" "keeps (inert c) (on_db d)" "keeps (inert c) (cached_entry now u)"
  "keeps (inert c) (supdate (remember_account now' u' salt v))" "keeps (inert c) (send_packet p)"
  "keeps (inert c) (send_packet_as q)" "keeps (inert c) (send_packet_as_work r)"
  "keeps (inert c) (on_session (set_session_mode mode))"
  "keeps (inert c) (on_session (\<lambda>c. c\<lparr>cs_account := handle_auth_state (cs_account c)\<rparr>))"
  by (auto simp: keeps_def inert_def on_srp_def on_session_def supdate_def on_db_def cached_entry_def
      send_packet_def send_packet_as_def send_packet_as_work_def set_session_mode_def remember_account_def
      split: prod.split)

lemma inert_challenge: "keeps (inert c) (auth_logon_challenge e p)"
proof -
  have "keeps (inert c) (answer_challenge e salt v)" for salt v
    by (simp add: answer_challenge_def keeps_rules)
  moreover from this have "keeps (inert c) (challenge_from_db e u)" for u
    by (auto simp: challenge_from_db_def answer_row_def split: option.split prod.split intro!: keeps_rules)
  ultimately show ?thesis
    by (auto simp: auth_logon_challenge_def Let_def split: sum.split fault.split option.split intro!: keeps_rules)
qed

lemma inert_auth_dispatch: "keeps (inert c) (auth_dispatch e p)"
  by (auto simp: auth_dispatch_def spawn_challenge_def auth_ping_def auth_logon_proof_def inert_challenge
      intro!: keeps_rules split: option.split AuthOpcodes.split prod.split)

text \<open>A session that waits for the next packet.\<close>

definition idle :: "nat \<Rightarrow> 'w srv \<Rightarrow> bool" where
  "idle b s \<longleftrightarrow> srv_inv b s \<and> \<not> cs_closed (sv_session s) \<and> cs_reading (sv_session s) \<and>
     pending (cs_read_buffer (sv_session s)) = [] \<and> 512 \<le> get_remaining_space (cs_read_buffer (sv_session s)) \<and>
     cs_posted (sv_session s) = [] \<and> cs_write_queue (sv_session s) = []"

text \<open>The packet a frame carries.\<close>

definition framed :: "byte \<Rightarrow> bytes \<Rightarrow> auth_packet" where
  "framed c body = \<lparr>pk_buffer = \<lparr>bb_buffer = body, bb_read_pos = 0\<rparr>, ap_opcode = c\<rparr>"

text \<open>The session after the bytes of a frame have been taken from the receive buffer.\<close>

definition took_frame :: "'w srv \<Rightarrow> 'w srv \<Rightarrow> bool" where
  "took_frame s t \<longleftrightarrow> cs_account (sv_session t) = cs_account (sv_session s) \<and>
     cs_mode (sv_session t) = cs_mode (sv_session s) \<and> cs_posted (sv_session t) = cs_posted (sv_session s) \<and>
     cs_closed (sv_session t) = cs_closed (sv_session s) \<and> sv_cache t = sv_cache s \<and> sv_db t = sv_db s"

lemma idle_reads_frame:
  assumes idle: "idle b s" and mode: "cs_mode (sv_session s) = AUTH_SESSION" and len: "length body \<le> 509"
    and lim: "b + 512 < size_t_range" and env: "env_ok e"
    and disp: "\<And>t. took_frame s t \<Longrightarrow> \<exists>u. auth_dispatch e (framed c body) t = (Inr (), u) \<and>
        cs_posted (sv_session u) = [Auth_Packet r] \<and> Q (sv_session u)"
    and Q: "\<And>c x y z i w. Q (c\<lparr>cs_read_buffer := x, cs_reading := y\<rparr>) = Q c"
  shows "event_enabled (Read_Done (Received (auth_frame c body))) (sv_session s) \<and>
    (\<exists>s'. session_event e (Read_Done (Received (auth_frame c body))) s = (Inr (), s') \<and>
      srv_inv (b + 512) s' \<and> \<not> cs_closed (sv_session s') \<and> cs_reading (sv_session s') \<and>
      pending (cs_read_buffer (sv_session s')) = [] \<and> 512 \<le> get_remaining_space (cs_read_buffer (sv_session s')) \<and>
      cs_posted (sv_session s') = [Auth_Packet r] \<and> cs_write_queue (sv_session s') = [] \<and>
      cs_wire (sv_session s') = cs_wire (sv_session s) \<and> Q (sv_session s'))"
proof -
  let ?f = "auth_frame c body"
  let ?s = "s\<lparr>sv_session := (sv_session s)\<lparr>cs_reading := False\<rparr>\<rparr>"
  have en: "event_enabled (Read_Done (Received ?f)) (sv_session s)"
    using idle len by (simp add: event_enabled_def idle_def)
  have i: "srv_inv b ?s" using idle by (simp add: srv_inv_reading idle_def)
  have o: "isOpened (sv_session ?s)" using idle by (simp add: isOpened_def idle_def)
  have l: "length ?f \<le> get_remaining_space (cs_read_buffer (sv_session ?s))"
    using en by (simp add: event_enabled_def)
  obtain m where m: "pending m = ?f" "mb_wf m" "srv_inv b (with_buffer m ?s)"
    "read_handler e (Received ?f) ?s =
       sbind (process_read_buffer e) (\<lambda>_. on_session (\<lambda>c. if isOpened c then do_read c else c)) (with_buffer m ?s)"
    using read_handler_received[OF i o l, of e] idle by (auto simp: idle_def)
  define t where "t = with_buffer m ?s"
  let ?t = "consumed (3 + length body) t"
  have tb: "cs_read_buffer (sv_session t) = m" "mb_wf (cs_read_buffer (sv_session t))"
    and tm: "cs_mode (sv_session t) = AUTH_SESSION"
    using mode m(2) by (simp_all add: t_def with_buffer_def)
  have took: "took_frame s ?t" by (simp add: took_frame_def consumed_def t_def with_buffer_def)
  then obtain u where u: "auth_dispatch e (framed c body) ?t = (Inr (), u)"
    "cs_posted (sv_session u) = [Auth_Packet r]" "Q (sv_session u)" using disp by blast
  have pl: "auth_plen (pending m) = length body" "pending m ! 0 = c" "take (length body) (drop 3 (pending m)) = body"
    using m(1) len auth_plen_frame[of c body "[]"] by (simp_all add: auth_frame_def be16_eq)
  have p: "process_read_buffer e t = (Inr (), u)"
    using tm auth_reader[OF tb(2), of e] tb(1) m(1) len u(1) pl
    by (simp add: process_read_buffer_def scatch_def framed_def)
  have iu: "srv_inv b u" using process_inv[OF m(3), of e] p by (simp add: t_def)
  have "inert (sv_session ?t) u"
    using keepsD[OF inert_auth_dispatch _ u(1)] by (simp add: inert_def)
  then have k: "pending (cs_read_buffer (sv_session u)) = []" "\<not> cs_closed (sv_session u)"
    "cs_write_queue (sv_session u) = []" "cs_wire (sv_session u) = cs_wire (sv_session s)"
    using consumed_buffer(1)[OF tb(2), of "3 + length body"] tb(1) m(1) idle
    by (simp_all add: inert_def consumed_def t_def with_buffer_def idle_def)
  have g: "mb_wf (cs_read_buffer (sv_session u))" "length (mb_storage (cs_read_buffer (sv_session u))) + 512 < size_t_range"
    using iu lim by (simp_all add: srv_inv_def)
  have ev: "session_event e (Read_Done (Received ?f)) s = (Inr (), u\<lparr>sv_session := do_read (sv_session u)\<rparr>)"
    using m(4) p k(2) by (simp add: session_event_def on_session_def supdate_def sbind_def t_def isOpened_def)
  show ?thesis
    using en ev do_read_inv[OF iu lim] k u(2,3) pending_ensure[OF g] ensure_room[OF g] Q
    by (simp add: do_read_def)
qed

text \<open>The packet that was posted is queued, written and completed.\<close>

lemma posted_is_written:
  fixes e :: "'w env"
  assumes "srv_inv b s" "\<not> cs_closed (sv_session s)" "cs_posted (sv_session s) = [p]"
    "cs_write_queue (sv_session s) = []"
  defines "c1 \<equiv> (sv_session s)\<lparr>cs_posted := [], cs_write_queue := [build_packet (env_host e) p],
    cs_writing := True, cs_in_flight := Some (True, build_packet (env_host e) p)\<rparr>"
  defines "c2 \<equiv> (sv_session s)\<lparr>cs_posted := [], cs_write_queue := [], cs_writing := False, cs_in_flight := None,
    cs_wire := cs_wire (sv_session s) @ build_packet (env_host e) p\<rparr>"
  shows "event_enabled Run_Posted (sv_session s)" "session_event e Run_Posted s = (Inr (), s\<lparr>sv_session := c1\<rparr>)"
    "event_enabled (Write_Done False) c1"
    "session_event e (Write_Done False) (s\<lparr>sv_session := c1\<rparr>) = (Inr (), s\<lparr>sv_session := c2\<rparr>)"
    "srv_inv b (s\<lparr>sv_session := c2\<rparr>)"
proof -
  have w: "cs_socket_open (sv_session s)" "\<not> cs_writing (sv_session s)"
    using assms(1,2,4) by (simp_all add: srv_inv_def writing_ok_def)
  show "event_enabled Run_Posted (sv_session s)" "event_enabled (Write_Done False) c1"
    using assms(3) by (simp_all add: event_enabled_def c1_def)
  show "session_event e Run_Posted s = (Inr (), s\<lparr>sv_session := c1\<rparr>)"
    using assms(3,4) w
    by (simp add: session_event_def run_posted_def on_session_def supdate_def do_send_packet_def do_write_def c1_def)
  show "session_event e (Write_Done False) (s\<lparr>sv_session := c1\<rparr>) = (Inr (), s\<lparr>sv_session := c2\<rparr>)"
    by (simp add: session_event_def on_session_def write_handler_def supdate_def do_write_def c1_def c2_def)
  show "srv_inv b (s\<lparr>sv_session := c2\<rparr>)"
    using assms(1,2) w by (intro srv_inv_writing) (simp_all add: writing_ok_def c2_def)
qed

lemma server_answers:
  assumes idle: "idle b s" and mode: "cs_mode (sv_session s) = AUTH_SESSION" and len: "length body \<le> 509"
    and lim: "b + 512 < size_t_range" and env: "env_ok se"
    and disp: "\<And>t. took_frame s t \<Longrightarrow> \<exists>u. auth_dispatch se (framed k body) t = (Inr (), u) \<and>
        cs_posted (sv_session u) = [Auth_Packet r] \<and> cs_mode (sv_session u) = m \<and> Q (cs_account (sv_session u))"
  shows "\<exists>s'. net_reach ce se (c, s, auth_frame k body, down) (c, s', [], down @ auth_build_packet h r) \<and>
    idle (b + 512) s' \<and> cs_mode (sv_session s') = m \<and> Q (cs_account (sv_session s'))"
proof -
  let ?Q = "\<lambda>x. cs_mode x = m \<and> Q (cs_account x)"
  obtain s1 where en: "event_enabled (Read_Done (Received (auth_frame k body))) (sv_session s)"
    and s1: "session_event se (Read_Done (Received (auth_frame k body))) s = (Inr (), s1)"
      "srv_inv (b + 512) s1" "\<not> cs_closed (sv_session s1)" "cs_reading (sv_session s1)"
      "pending (cs_read_buffer (sv_session s1)) = []" "512 \<le> get_remaining_space (cs_read_buffer (sv_session s1))"
      "cs_posted (sv_session s1) = [Auth_Packet r]" "cs_write_queue (sv_session s1) = []"
      "cs_wire (sv_session s1) = cs_wire (sv_session s)" "?Q (sv_session s1)"
    using idle_reads_frame[OF idle mode len lim env, of k r ?Q] disp by auto
  note w = posted_is_written(1)[OF s1(2,3,7,8)] posted_is_written(2-5)[OF s1(2,3,7,8), of se]
  let ?b = "build_packet (env_host se) (Auth_Packet r)"
  let ?s2 = "s1\<lparr>sv_session := (sv_session s1)\<lparr>cs_posted := [], cs_write_queue := [?b], cs_writing := True,
    cs_in_flight := Some (True, ?b)\<rparr>\<rparr>"
  let ?s3 = "s1\<lparr>sv_session := (sv_session s1)\<lparr>cs_posted := [], cs_write_queue := [], cs_writing := False,
    cs_in_flight := None, cs_wire := cs_wire (sv_session s1) @ ?b\<rparr>\<rparr>"
  have n0: "net_reach ce se (c, s, auth_frame k body, down)
      (c, s, session_takes (Read_Done (Received (auth_frame k body))) @ [], down)"
    by (simp add: net_reach.init)
  have n1: "net_reach ce se (c, s, auth_frame k body, down) (c, s1, session_takes Run_Posted @ [], down)"
    using net_reach.server[OF n0 en s1(1)] s1(9) by (simp add: session_gives_def)
  have n2: "net_reach ce se (c, s, auth_frame k body, down) (c, ?s2, session_takes (Write_Done False) @ [], down)"
    using net_reach.server[OF n1 w(1,2)] by (simp add: session_gives_def)
  have n3: "net_reach ce se (c, s, auth_frame k body, down) (c, ?s3, [], down @ ?b)"
    using net_reach.server[OF n2 _ w(4)] w(3) by (simp add: session_gives_def)
  have "idle (b + 512) ?s3" using w(5) s1 by (simp add: idle_def)
  moreover have "?b = auth_build_packet h r" by (simp add: auth_build_frame)
  ultimately show ?thesis using n3 s1(10) by (intro exI[of _ ?s3]) simp
qed

subsection \<open>The client sends and receives\<close>

text \<open>A connected client that waits for the next packet of the authentication stage.\<close>

definition listening :: "client \<Rightarrow> bool" where
  "listening c \<longleftrightarrow> cl_connected c \<and> cl_session_mode c = AUTH_SESSION \<and> cl_outgoing_queue c = [] \<and>
     writes c = [] \<and> reads c = [Header_Read AUTH_SESSION]"

lemma pending_index:
  assumes "filter P (cl_pending c) = [x]"
  obtains i where "i < length (cl_pending c)" "cl_pending c ! i = x" "P x"
    "filter P (cl_pending (take_out i c)) = []"
    "\<And>R. \<not> R x \<Longrightarrow> filter R (cl_pending (take_out i c)) = filter R (cl_pending c)"
proof -
  have "x \<in> set (filter P (cl_pending c))" using assms by simp
  then obtain i where i: "i < length (cl_pending c)" "cl_pending c ! i = x" "P x"
    by (auto simp: in_set_conv_nth)
  show thesis
    using that[OF i] filter_take_out(1)[OF i(1)] filter_take_out(2)[where P = P, OF i(1)] i(2,3) assms by simp
qed

lemma client_flushes:
  assumes "cl_connected c" "cl_outgoing_queue c = [p]" "writes c = [Write_Op p]"
  shows "\<exists>c'. net_reach ce se (c, s, up, down) (c', s, up @ p, down) \<and> cl_connected c' \<and> cl_outgoing_queue c' = [] \<and>
    writes c' = [] \<and> reads c' = reads c \<and> cl_session_mode c' = cl_session_mode c \<and> cl_srp c' = cl_srp c"
proof -
  obtain i where i: "i < length (cl_pending c)" "cl_pending c ! i = Write_Op p"
      "writes (take_out i c) = []" "reads (take_out i c) = reads c"
    using pending_index[OF assms(3)] by (metis is_read.simps(6))
  let ?c = "(take_out i c)\<lparr>cl_outgoing_queue := [], cl_delivered := cl_delivered c @ [p]\<rparr>"
  have "client_enabled (Completes i (Succeeded [])) c" using i by (simp add: client_enabled_def can_complete_def)
  moreover have "client_event ce (Completes i (Succeeded [])) c = (Inr (), ?c)"
    using i assms(2) by (simp add: client_event_def run_handler_def client_write_handler_def flush_queue_def)
  moreover have "net_reach ce se (c, s, up, down) (c, s, up, client_takes (Completes i (Succeeded [])) c @ down)"
    using i by (simp add: net_reach.init)
  ultimately have "net_reach ce se (c, s, up, down) (?c, s, up @ client_gives c ?c, down)"
    using net_reach.client by blast
  then show ?thesis
    using i assms by (intro exI[of _ ?c]) (simp add: client_gives_def)
qed

lemma client_reads_frame:
  assumes "listening c" "0 < length body" "length body \<le> 2048"
    and got: "\<And>c1. cl_connected c1 \<Longrightarrow> cl_outgoing_queue c1 = [] \<Longrightarrow> writes c1 = [] \<Longrightarrow> reads c1 = [] \<Longrightarrow>
       cl_session_mode c1 = AUTH_SESSION \<Longrightarrow> cl_srp c1 = cl_srp c \<Longrightarrow>
       \<exists>c2. handle_auth_packet ce (framed k body) c1 = (Inr (), c2) \<and> cl_delivered c2 = cl_delivered c1 \<and> P (start_receive_loop c2)"
  shows "\<exists>c'. net_reach ce se (c, s, up, auth_frame k body @ down) (c', s, up, down) \<and> P c'"
proof -
  let ?h = "k # be16 (of_nat (length body))"
  let ?n = "length body"
  have f: "auth_frame k body = ?h @ body" by (simp add: auth_frame_def)
  have pl: "unat (header_length (?h ! 1) (?h ! 2)) = ?n"
    using auth_plen_frame[of k body "[]"] assms(3) by (simp add: auth_plen_def auth_frame_def be16_eq)
  obtain i where i: "i < length (cl_pending c)" "cl_pending c ! i = Header_Read AUTH_SESSION"
      "reads (take_out i c) = []" "writes (take_out i c) = []"
    using pending_index[of is_read c "Header_Read AUTH_SESSION"] assms(1) unfolding listening_def
    by (metis is_write.simps(5))
  let ?c1 = "read_payload AUTH_SESSION ?h ?n (take_out i c)"
  have "client_enabled (Completes i (Succeeded ?h)) c"
    using i by (simp add: client_enabled_def can_complete_def header_size_def be16_eq)
  moreover have "client_event ce (Completes i (Succeeded ?h)) c = (Inr (), ?c1)"
    unfolding client_event_def using i pl assms(2,3)
    by (simp add: run_handler_def auth_header_handler_def supdate_def Let_def)
  moreover have "net_reach ce se (c, s, up, auth_frame k body @ down)
      (c, s, up, client_takes (Completes i (Succeeded ?h)) c @ body @ down)"
    using i f by (simp add: net_reach.init)
  ultimately have "net_reach ce se (c, s, up, auth_frame k body @ down) (?c1, s, up @ client_gives c ?c1, body @ down)"
    using net_reach.client by blast
  then have r1: "net_reach ce se (c, s, up, auth_frame k body @ down) (?c1, s, up, body @ down)"
    by (simp add: client_gives_def read_payload_def)
  have "reads ?c1 = [Payload_Read AUTH_SESSION ?h ?n]" using i by (simp add: read_payload_def)
  then obtain j where j: "j < length (cl_pending ?c1)" "cl_pending ?c1 ! j = Payload_Read AUTH_SESSION ?h ?n"
      "reads (take_out j ?c1) = []" "writes (take_out j ?c1) = writes ?c1"
    using pending_index by (metis is_write.simps(6))
  let ?c2 = "take_out j ?c1"
  obtain c3 where c3: "handle_auth_packet ce (framed k body) ?c2 = (Inr (), c3)" "cl_delivered c3 = cl_delivered ?c2"
      "P (start_receive_loop c3)"
    using got[of ?c2] j i assms(1) by (auto simp: read_payload_def listening_def)
  have "length (auth_frame k body) + 3 < size_t_range" using assms(3) by (simp add: size_t_range_def)
  then have "auth_deserialize (cx_endian ce) (auth_frame k body) AuthPacket_default = Inr (framed k body)"
    using auth_plen_frame[of k body "[]"] assms(3)
    by (simp add: auth_deserialize_cases) (simp add: framed_def AuthPacket_default_def auth_frame_def be16_eq)
  then have "client_event ce (Completes j (Succeeded body)) ?c1 = (Inr (), start_receive_loop c3)"
    unfolding client_event_def using j c3(1) f
    by (simp add: run_handler_def payload_handler_def parse_packet_def scatch_def supdate_def)
  moreover have "client_enabled (Completes j (Succeeded body)) ?c1"
    using j by (simp add: client_enabled_def can_complete_def)
  moreover have "net_reach ce se (c, s, up, auth_frame k body @ down)
      (?c1, s, up, client_takes (Completes j (Succeeded body)) ?c1 @ down)"
    using r1 j by simp
  ultimately have "net_reach ce se (c, s, up, auth_frame k body @ down)
      (start_receive_loop c3, s, up @ client_gives ?c1 (start_receive_loop c3), down)"
    using net_reach.client by blast
  then show ?thesis
    using c3 by (intro exI[of _ "start_receive_loop c3"]) (simp add: client_gives_def start_receive_loop_def)
qed

subsection \<open>The four messages\<close>

text \<open>The account of a name: in the cache, or else in the database.\<close>

definition account_known :: "'w env \<Rightarrow> bytes \<Rightarrow> 'w srv \<Rightarrow> bytes \<Rightarrow> bytes \<Rightarrow> bool" where
  "account_known e u s salt verifier \<longleftrightarrow> length salt = 32 \<and> length verifier = 32 \<and>
     (case fst (cache_get (env_now e) (to_uppercase u) (sv_cache s)) of
        Some entry \<Rightarrow> ce_salt entry = salt \<and> ce_verifier entry = verifier
      | None \<Rightarrow> (\<exists>row. fst (execute_sync (env_pq e) (accounts_struct (env_mktime e))
            (account_query (to_uppercase u)) (sv_db s)) = Inr (Some row) \<and>
          ar_salt row = Some salt \<and> ar_verifier row = Some verifier))"

definition in_mode :: "SessionMode \<Rightarrow> 'w srv \<Rightarrow> bool" where
  "in_mode m s \<longleftrightarrow> cs_mode (sv_session s) = m"

lemma mode_basic [keeps_rules]:
  "keeps (in_mode m) (on_srp f)" "keeps (in_mode m) (on_db d)" "keeps (in_mode m) (cached_entry now u)"
  "keeps (in_mode m) (supdate (remember_account now' u' salt v))" "keeps (in_mode m) (send_packet_as q)"
  by (auto simp: keeps_def in_mode_def on_srp_def on_session_def supdate_def on_db_def cached_entry_def
      send_packet_def send_packet_as_def remember_account_def split: prod.split)

lemma mode_challenge: "keeps (in_mode m) (auth_logon_challenge e p)"
proof -
  have "keeps (in_mode m) (answer_challenge e salt v)" for salt v
    by (simp add: answer_challenge_def keeps_rules)
  moreover from this have "keeps (in_mode m) (challenge_from_db e u)" for u
    by (auto simp: challenge_from_db_def answer_row_def split: option.split prod.split intro!: keeps_rules)
  ultimately show ?thesis
    by (auto simp: auth_logon_challenge_def Let_def split: sum.split fault.split option.split intro!: keeps_rules)
qed

lemma challenge_leg:
  assumes env: "env_ok se" "env_spawn_inline se" "server_srp (env_ssl se) (session_srp s)" "\<not> cs_closed (sv_session s)"
    and u: "0 \<notin> set u" "is_valid_utf8 u" "length u \<le> 500" and known: "account_known se u s salt verifier"
    and t: "took_frame s t" "cs_posted (sv_session s) = []"
  shows "\<exists>v. auth_dispatch se (framed (auth_code CMSG_AUTH_LOGON_CHALLENGE) (rev u @ [0])) t = (Inr (), v) \<and>
    cs_posted (sv_session v) = [Auth_Packet (challenge_answer (env_ssl se) (env_rnd se) salt verifier)] \<and>
    cs_mode (sv_session v) = cs_mode (sv_session s)"
proof -
  let ?p = "framed (auth_code CMSG_AUTH_LOGON_CHALLENGE) (rev u @ [0])"
  have p: "unread ?p" "payload ?p = rev u @ [0]" "ap_opcode ?p = auth_code CMSG_AUTH_LOGON_CHALLENGE"
    using u(3) by (simp_all add: framed_def unread_def)
  have t': "server_srp (env_ssl se) (session_srp t)" "\<not> cs_closed (sv_session t)" "sv_cache t = sv_cache s" "sv_db t = sv_db s"
    "cs_posted (sv_session t) = []" "cs_mode (sv_session t) = cs_mode (sv_session s)"
    using env t by (simp_all add: took_frame_def session_srp_def)
  have "answered (challenge_answer (env_ssl se) (env_rnd se) salt verifier) t (auth_dispatch se ?p t)"
    using dispatch_challenge[OF env(1) t'(1,2) env(2) p(1,2) u(1) p(3)] known u(2)
    unfolding account_known_def name_answer_def t'(3,4) by (auto simp: row_answer_def split: option.splits)
  then obtain v where v: "auth_dispatch se ?p t = (Inr (), v)" and
    "cs_posted (sv_session v) = [Auth_Packet (challenge_answer (env_ssl se) (env_rnd se) salt verifier)]"
    using t'(5) by (cases "auth_dispatch se ?p t") (auto simp: answered_def)
  moreover have "auth_dispatch se ?p = scatch (auth_logon_challenge se ?p) (\<lambda>_. sreturn ())"
    using env(2) p(3) by (simp del: auth_code.simps add: auth_dispatch_def auth_get_opcode_def spawn_challenge_def)
  then have k: "keeps (in_mode (cs_mode (sv_session t))) (auth_dispatch se ?p)"
    using keeps_scatch[OF mode_challenge keeps_basic(1)] by simp
  have "in_mode (cs_mode (sv_session t)) v" by (rule keepsD[OF k _ v]) (simp add: in_mode_def)
  then have "cs_mode (sv_session v) = cs_mode (sv_session t)" by (simp add: in_mode_def)
  ultimately show ?thesis using t'(6) by simp
qed

lemma proof_leg:
  assumes "openssl_ok (env_ssl se)" "\<not> cs_closed (sv_session s)" "cs_posted (sv_session s) = []" "took_frame s t"
    and len: "length A = 32" "length M1 = 20"
  shows "\<exists>v. auth_dispatch se (framed (auth_code CMSG_AUTH_LOGON_PROOF) (A @ M1)) t = (Inr (), v) \<and>
    cs_posted (sv_session v) =
      [Auth_Packet (pk_write_bytes (SHA1 (env_ssl se) (A @ M1)) (AuthPacket SMSG_AUTH_LOGON_PROOF))] \<and>
    cs_mode (sv_session v) = WORK_SESSION \<and> ai_isAuth (cs_account (sv_session v))"
proof -
  let ?p = "framed (auth_code CMSG_AUTH_LOGON_PROOF) (A @ M1)"
  have p: "unread ?p" "payload ?p = A @ M1" "ap_opcode ?p = auth_code CMSG_AUTH_LOGON_PROOF"
    using len by (simp_all add: framed_def unread_def)
  have t: "\<not> cs_closed (sv_session t)" "cs_posted (sv_session t) = []"
    using assms(2-4) by (simp_all add: took_frame_def)
  show ?thesis
    using p t len
    by (simp del: auth_code.simps add: auth_dispatch_def auth_get_opcode_def auth_logon_proof_alt proof_read scatch_def
        on_session_def set_session_mode_def handle_auth_state_def setIsAuthenticated_def send_open)
qed

lemma send_when_idle:
  assumes "cl_connected c" "cl_outgoing_queue c = []"
  shows "send_packet_impl p c = begin_op (Write_Op p) (c\<lparr>cl_outgoing_queue := [p]\<rparr>)"
  using assms by (simp add: send_packet_impl_def flush_queue_def)

text \<open>The answer of the client to a challenge: \<open>A\<close> and \<open>M1\<close>, with \<open>A\<close> kept for checking the last message.\<close>

definition proves :: "openssl \<Rightarrow> bytes \<Rightarrow> bytes \<Rightarrow> client \<Rightarrow> bool" where
  "proves ssl A M1 c \<longleftrightarrow> length A = 32 \<and> length M1 = 20 \<and> get_A_bytes ssl (cl_srp c) = Inr A \<and>
     get_last_M1 (cl_srp c) = M1 \<and> cl_connected c \<and> cl_session_mode c = AUTH_SESSION \<and>
     cl_outgoing_queue c = [auth_frame (auth_code CMSG_AUTH_LOGON_PROOF) (A @ M1)] \<and>
     writes c = [Write_Op (auth_frame (auth_code CMSG_AUTH_LOGON_PROOF) (A @ M1))]"

lemma answer_proof_ok:
  assumes ssl: "openssl_ok (cx_ssl ce)" and c: "cl_connected c" "cl_outgoing_queue c = []" "writes c = []"
    "cl_session_mode c = AUTH_SESSION"
    and N: "0 < be_nat N" "be_nat N < 256 ^ 32"
  shows "\<exists>c' A M1. answer_proof ce B g N salt c = (Inr (), c') \<and> proves (cx_ssl ce) A M1 c' \<and>
    reads c' = reads c \<and> cl_delivered c' = cl_delivered c"
proof -
  let ?A = "unat g ^ be_nat (cx_rnd ce) mod be_nat N"
  have A: "?A < 256 ^ 32" using mod_less_divisor[OF N(1), of "unat g ^ be_nat (cx_rnd ce)"] N(2) by linarith
  let ?M1 = "SHA1 (cx_ssl ce) (be32 ?A @ B @ salt)"
  let ?s = "(cl_srp c)\<lparr>srp_N := be_nat N, srp_g := unat g, srp_k := multiplier (cx_ssl ce) (be_nat N) (unat g),
    srp_salt := salt, srp_a := be_nat (cx_rnd ce), srp_A := ?A, srp_last_M1 := ?M1\<rparr>"
  let ?p = "auth_frame (auth_code CMSG_AUTH_LOGON_PROOF) (be32 ?A @ ?M1)"
  have "answer_proof ce B g N salt c =
      (Inr (), begin_op (Write_Op ?p) (c\<lparr>cl_srp := ?s, cl_outgoing_queue := [?p]\<rparr>))"
    using ssl c(1,2) N A
    by (simp add: answer_proof_def load_constants_ok on_client_srp_def load_salt_def generate_client_ephemeral_ok
        get_bytes_ok compute_M1_ok client_send_auth_def send_when_idle auth_build_frame AuthPacket_def
        pk_write_bytes_def packet_write_def codec_simps bb_empty_def supdate_def)
  moreover have "get_A_bytes (cx_ssl ce) ?s = Inr (be32 ?A)" using get_bytes_ok(3)[OF ssl, of ?s] A by simp
  ultimately show ?thesis
    using c(1,3,4) be32_length[OF A] openssl_okD(1)[OF ssl]
    by (intro exI[of _ "begin_op (Write_Op ?p) (c\<lparr>cl_srp := ?s, cl_outgoing_queue := [?p]\<rparr>)"]
        exI[of _ "be32 ?A"] exI[of _ ?M1]) (simp add: proves_def get_last_M1_def)
qed

lemma challenge_payload:
  "length salt = 32 \<Longrightarrow> \<exists>B body. challenge_answer ssl rnd salt v = framed (auth_code SMSG_AUTH_LOGON_CHALLENGE) body \<and>
     body = B @ [7] @ be32 srp_modulus @ salt \<and> length B = 32"
  using be32_length[OF below_modulus]
  by (simp add: challenge_answer_def challenge_packet_def framed_def pk_write_bytes_def pk_write_uint8_def packet_write_def
      codec_simps AuthPacket_def bb_empty_def)

lemma client_challenge_leg:
  assumes ssl: "openssl_ok (cx_ssl ce)" and l: "listening c" and B: "length B = 32" "length salt = 32"
  shows "\<exists>c' A M1. net_reach ce se (c, s, up, auth_frame (auth_code SMSG_AUTH_LOGON_CHALLENGE)
      (B @ [7] @ be32 srp_modulus @ salt) @ down) (c', s, up, down) \<and>
    proves (cx_ssl ce) A M1 c' \<and> reads c' = [Header_Read AUTH_SESSION]"
proof -
  let ?body = "B @ [7] @ be32 srp_modulus @ salt"
  have N: "0 < be_nat (be32 srp_modulus)" "be_nat (be32 srp_modulus) < 256 ^ 32"
    using modulus_pos modulus_less by (simp_all only: be32_value)
  have n: "length (be32 srp_modulus) = 32" by (rule be32_length[OF modulus_less])
  let ?P = "\<lambda>c'. \<exists>A M1. proves (cx_ssl ce) A M1 c' \<and> reads c' = [Header_Read AUTH_SESSION]"
  have "\<exists>c'. net_reach ce se (c, s, up, auth_frame (auth_code SMSG_AUTH_LOGON_CHALLENGE) ?body @ down) (c', s, up, down) \<and> ?P c'"
  proof (rule client_reads_frame[OF l])
    fix c1 assume c1: "cl_connected c1" "cl_outgoing_queue c1 = []" "writes c1 = []" "reads c1 = []"
      "cl_session_mode c1 = AUTH_SESSION"
    obtain c2 A M1 where c2: "answer_proof ce B 7 (be32 srp_modulus) salt c1 = (Inr (), c2)"
      "proves (cx_ssl ce) A M1 c2" "reads c2 = []" "cl_delivered c2 = cl_delivered c1"
      using answer_proof_ok[OF ssl c1(1-3,5) N, of B 7 salt] c1(4) by auto
    have "read_challenge (framed (auth_code SMSG_AUTH_LOGON_CHALLENGE) ?body) = Inr (B, 7, be32 srp_modulus, salt)"
      using B n by (subst read_challenge_cases) (simp_all add: framed_def unread_def nth_append)
    then have "handle_auth_packet ce (framed (auth_code SMSG_AUTH_LOGON_CHALLENGE) ?body) c1 = (Inr (), c2)"
      using c2(1) by (simp del: auth_code.simps add: handle_auth_packet_def auth_get_opcode_def framed_def
          client_challenge_alt scatch_def)
    moreover have "?P (start_receive_loop c2)"
      using c2(2,3) by (auto simp: proves_def start_receive_loop_def client_get_session_mode_def)
    ultimately show "\<exists>c2. handle_auth_packet ce (framed (auth_code SMSG_AUTH_LOGON_CHALLENGE) ?body) c1 = (Inr (), c2) \<and>
        cl_delivered c2 = cl_delivered c1 \<and> ?P (start_receive_loop c2)"
      using c2(4) by blast
  qed (use B n in simp_all)
  then show ?thesis by blast
qed

lemma client_proof_leg:
  assumes ssl: "openssl_ok (cx_ssl ce)" and l: "listening c"
    and A: "get_A_bytes (cx_ssl ce) (cl_srp c) = Inr A" "get_last_M1 (cl_srp c) = M1"
  shows "\<exists>c'. net_reach ce se (c, s, up, auth_frame (auth_code SMSG_AUTH_LOGON_PROOF)
      (SHA1 (cx_ssl ce) (A @ M1)) @ down) (c', s, up, down) \<and>
    cl_session_mode c' = WORK_SESSION \<and> reads c' = [Header_Read WORK_SESSION] \<and> cl_connected c'"
proof (rule client_reads_frame[OF l])
  let ?M2 = "SHA1 (cx_ssl ce) (A @ M1)"
  let ?p = "framed (auth_code SMSG_AUTH_LOGON_PROOF) ?M2"
  have n: "length ?M2 = 20" by (rule openssl_okD(1)[OF ssl])
  show "0 < length ?M2" "length ?M2 \<le> 2048" using n by simp_all
  fix c1 assume c1: "cl_connected c1" "reads c1 = []" "cl_srp c1 = cl_srp c"
  have u: "unread ?p" using n by (simp add: framed_def unread_def)
  have "verify_server_proof (cx_ssl ce) (get_last_M1 (cl_srp c1)) ?M2 (cl_srp c1) = Inr True"
    using A c1(3) by (simp add: verify_server_proof_def equal_prefix_iff)
  then have "handle_auth_packet ce ?p c1 = (Inr (), client_set_session_mode WORK_SESSION c1)"
    using read_20[OF u] n
    by (simp del: auth_code.simps add: handle_auth_packet_def auth_get_opcode_def framed_def client_proof_def supdate_def)
  then show "\<exists>c2. handle_auth_packet ce ?p c1 = (Inr (), c2) \<and> cl_delivered c2 = cl_delivered c1 \<and>
      cl_session_mode (start_receive_loop c2) = WORK_SESSION \<and>
      reads (start_receive_loop c2) = [Header_Read WORK_SESSION] \<and> cl_connected (start_receive_loop c2)"
    using c1 by (simp add: client_set_session_mode_def start_receive_loop_def client_get_session_mode_def)
qed

subsection \<open>Logging in\<close>

lemma logon_leg:
  assumes l: "listening c"
  shows "\<exists>c'. net_reach ce se (handle_logon_challenge ce u pw c, s, [], [])
      (c', s, auth_frame (auth_code CMSG_AUTH_LOGON_CHALLENGE) (rev u @ [0]), []) \<and> listening c'"
proof -
  let ?p = "auth_frame (auth_code CMSG_AUTH_LOGON_CHALLENGE) (rev u @ [0])"
  let ?c = "begin_op (Write_Op ?p) (c\<lparr>cl_srp := set_credentials u pw (cl_srp c), cl_outgoing_queue := [?p]\<rparr>)"
  have e: "handle_logon_challenge ce u pw c = ?c"
    using l by (simp add: handle_logon_challenge_def client_send_auth_def auth_build_frame AuthPacket_def
        pk_write_string_nt_le_def packet_write_def codec_simps bb_empty_def on_client_srp_def listening_def send_when_idle)
  obtain c' where c': "net_reach ce se (?c, s, [], []) (c', s, [] @ ?p, [])" "cl_connected c'" "cl_outgoing_queue c' = []"
      "writes c' = []" "reads c' = reads ?c" "cl_session_mode c' = cl_session_mode ?c"
    using client_flushes[of ?c ?p ce se s "[]" "[]"] l by (auto simp: listening_def)
  then have "listening c'" using l by (simp add: listening_def)
  then show ?thesis unfolding e using c'(1) by (intro exI[of _ c']) simp
qed

text \<open>
  A client can log in whenever its account exists with a salt and a verifier of 32 bytes and the
  coroutine of the challenge starts within \<open>co_spawn\<close>. From a connected client that waits for packets
  and a session that waits for packets, with an account for the upper-case name in the cache or in
  the database, there is a run of the connection to a state in which both ends are in work mode, the
  session is authenticated, the client reads work headers, and no byte is left on its way. The four
  messages fit the framing of both sides, and neither end throws. The password is arbitrary.
\<close>

theorem login_completes:
  assumes "openssl_ok ssl" "cx_ssl ce = ssl" "env_ssl se = ssl" "env_ok se"
    and "listening c" "idle b s" "b + 1024 < size_t_range" "cs_mode (sv_session s) = AUTH_SESSION"
    "server_srp ssl (session_srp s)"
    and "0 \<notin> set u" "is_valid_utf8 u" "length u \<le> 500" "account_known se u s salt verifier"
    and "env_spawn_inline se"
  shows "\<exists>c' s'. net_reach ce se (handle_logon_challenge ce u pw c, s, [], []) (c', s', [], []) \<and>
    cl_session_mode c' = WORK_SESSION \<and> reads c' = [Header_Read WORK_SESSION] \<and> cl_connected c' \<and>
    cs_mode (sv_session s') = WORK_SESSION \<and> ai_isAuth (cs_account (sv_session s')) \<and> idle (b + 1024) s'"
proof -
  note ssl = assms(1) and lim = assms(7)
  let ?N = "net_reach ce se (handle_logon_challenge ce u pw c, s, [], [])"
  have sal: "length salt = 32" using assms(13) by (simp add: account_known_def)
  obtain c1 where r1: "?N (c1, s, auth_frame (auth_code CMSG_AUTH_LOGON_CHALLENGE) (rev u @ [0]), [])" "listening c1"
    using logon_leg[OF assms(5)] by blast
  obtain B where B: "challenge_answer ssl (env_rnd se) salt verifier =
      framed (auth_code SMSG_AUTH_LOGON_CHALLENGE) (B @ [7] @ be32 srp_modulus @ salt)" "length B = 32"
    using challenge_payload[OF sal, of ssl "env_rnd se" verifier] by blast
  let ?f2 = "auth_frame (auth_code SMSG_AUTH_LOGON_CHALLENGE) (B @ [7] @ be32 srp_modulus @ salt)"
  have "\<exists>s'. net_reach ce se (c1, s, auth_frame (auth_code CMSG_AUTH_LOGON_CHALLENGE) (rev u @ [0]), [])
       (c1, s', [], [] @ auth_build_packet Little_Endian (challenge_answer ssl (env_rnd se) salt verifier)) \<and>
      idle (b + 512) s' \<and> cs_mode (sv_session s') = AUTH_SESSION \<and> True"
    using assms(3,6,9) challenge_leg[OF assms(4,14) _ _ assms(10-13)] assms(7,8,12)
    by (intro server_answers[OF assms(6,8) _ _ assms(4)]) (auto simp: idle_def)
  then obtain s2 where "net_reach ce se (c1, s, auth_frame (auth_code CMSG_AUTH_LOGON_CHALLENGE) (rev u @ [0]), []) (c1, s2, [], ?f2)"
    and s2: "idle (b + 512) s2" "cs_mode (sv_session s2) = AUTH_SESSION"
    by (auto simp: B(1) auth_build_frame framed_def)
  then have r2: "?N (c1, s2, [], ?f2)" using net_reach_trans[OF _ r1(1)] by blast
  obtain c3 A M1 where r3: "net_reach ce se (c1, s2, [], ?f2 @ []) (c3, s2, [], [])"
    and c3: "proves ssl A M1 c3" "reads c3 = [Header_Read AUTH_SESSION]"
    using client_challenge_leg[OF _ r1(2) B(2) sal, of ce] ssl assms(2) by blast
  let ?f3 = "auth_frame (auth_code CMSG_AUTH_LOGON_PROOF) (A @ M1)"
  obtain c4 where r4: "net_reach ce se (c3, s2, [], []) (c4, s2, [] @ ?f3, [])" and c4: "listening c4" "cl_srp c4 = cl_srp c3"
    using client_flushes[of c3 ?f3 ce se s2 "[]" "[]"] c3 by (auto simp: proves_def listening_def)
  let ?M2 = "SHA1 ssl (A @ M1)"
  have "\<exists>s'. net_reach ce se (c4, s2, ?f3, []) (c4, s', [], [] @ auth_build_packet Little_Endian
        (pk_write_bytes ?M2 (AuthPacket SMSG_AUTH_LOGON_PROOF))) \<and>
      idle (b + 512 + 512) s' \<and> cs_mode (sv_session s') = WORK_SESSION \<and> ai_isAuth (cs_account (sv_session s'))"
    using proof_leg[of se s2 _ A M1] assms(1,3) s2 c3(1) lim
    by (intro server_answers[OF s2 _ _ assms(4)]) (auto simp: idle_def proves_def)
  then obtain s5 where r5: "net_reach ce se (c4, s2, ?f3, []) (c4, s5, [], auth_frame (auth_code SMSG_AUTH_LOGON_PROOF) ?M2)"
    and s5: "idle (b + 1024) s5" "cs_mode (sv_session s5) = WORK_SESSION" "ai_isAuth (cs_account (sv_session s5))"
    by (auto simp: auth_build_frame pk_write_bytes_def packet_write_def codec_simps AuthPacket_def bb_empty_def add.commute)
  obtain c6 where r6: "net_reach ce se (c4, s5, [], auth_frame (auth_code SMSG_AUTH_LOGON_PROOF) ?M2 @ []) (c6, s5, [], [])"
    and c6: "cl_session_mode c6 = WORK_SESSION" "reads c6 = [Header_Read WORK_SESSION]" "cl_connected c6"
    using client_proof_leg[OF _ c4(1), of ce A M1 se s5 "[]" "[]"] ssl assms(2) c3(1) c4(2) unfolding proves_def by auto
  have "?N (c6, s5, [], [])"
    using net_reach_trans[OF r6] net_reach_trans[OF r5] net_reach_trans[OF r4] net_reach_trans[OF r3] r2 by simp
  then show ?thesis using c6 s5 by blast
qed

text \<open>A client that has just connected, and a session whose account is cached.\<close>

definition connected_client :: client where
  "connected_client = snd (run_handler sample_client_env Connect_Op (Succeeded []) sample_client)"

definition cached_session :: "unit srv" where
  "cached_session = remember_account 0 (str ''1'') (replicate 32 5) (replicate 32 9) sample_session"

lemma connected_listening: "listening connected_client"
  by (simp add: connected_client_def run_handler_def connect_handler_def supdate_def start_heartbeat_def flush_queue_def
      start_receive_loop_def client_get_session_mode_def cancel_heartbeat_timer_def sample_client_def listening_def)

lemma cached_known: "account_known sample_env (str ''1'') cached_session (replicate 32 5) (replicate 32 9)"
proof -
  have u: "to_uppercase (str ''1'') = str ''1''" by code_simp
  have "sv_cache cached_session = \<lparr>ac_cache = [(str ''1'', \<lparr>ce_salt = replicate 32 5, ce_verifier = replicate 32 9,
      ce_last_access = 0\<rparr>)], ac_timer = None, ac_ttl = default_ttl, ac_cleanup_interval = default_cleanup_interval\<rparr>"
    by (simp add: cached_session_def remember_account_def sample_session_def cache_put_def AccountCache_def)
  then have "fst (cache_get 0 (str ''1'') (sv_cache cached_session)) =
      Some \<lparr>ce_salt = replicate 32 5, ce_verifier = replicate 32 9, ce_last_access = 0\<rparr>"
    by (simp add: cache_get_def ac_expired_def nanoseconds_def default_ttl_def Let_def)
  then show ?thesis by (simp add: account_known_def u sample_env_def)
qed

lemma cached_idle: "idle 4608 cached_session"
proof -
  have "srv_inv 4608 sample_session" by (rule new_session_inv[OF sample_openssl_ok sample_new_session])
  moreover have "get_remaining_space (cs_read_buffer (sv_session sample_session)) \<ge> 512"
    using ensure_room[of "MessageBuffer 4096" 512]
    by (simp add: sample_defs mb_wf_def MessageBuffer_def size_t_range_def)
  moreover have "pending (cs_read_buffer (sv_session sample_session)) = pending (MessageBuffer 4096)"
    using pending_ensure[of "MessageBuffer 4096" 512]
    by (simp add: sample_session_def do_read_def size_t_range_def MessageBuffer_def mb_wf_def)
  ultimately show ?thesis
    by (simp add: idle_def cached_session_def remember_account_def srv_inv_def pending_def MessageBuffer_def)
       (simp add: sample_session_def do_read_def)
qed

theorem login_completes_witness:
  "\<exists>c' s'. net_reach sample_client_env sample_env
      (handle_logon_challenge sample_client_env (str ''1'') (str ''1'') connected_client, cached_session, [], [])
      (c', s', [], []) \<and>
    cl_session_mode c' = WORK_SESSION \<and> cs_mode (sv_session s') = WORK_SESSION"
proof -
  have v: "is_valid_utf8 (str ''1'')" by code_simp
  have m: "cs_mode (sv_session cached_session) = AUTH_SESSION"
    "server_srp sample_openssl (session_srp cached_session)"
    by (simp_all add: cached_session_def remember_account_def sample_defs server_srp_def session_srp_def fresh_def)
  have e: "cx_ssl sample_client_env = sample_openssl" "env_ssl sample_env = sample_openssl"
    by (simp_all add: sample_client_env_def sample_env_def)
  have n: "0 \<notin> set (str ''1'')" "length (str ''1'') \<le> 500" "4608 + 1024 < size_t_range"
    by (simp_all add: str_def size_t_range_def)
  have i: "env_spawn_inline sample_env" by (simp add: sample_env_def)
  from login_completes[OF sample_openssl_ok e sample_env_ok connected_listening cached_idle n(3) m n(1) v n(2) cached_known i,
    of "str ''1''"]
  show ?thesis by blast
qed

subsection \<open>Reconnecting\<close>

lemma incomplete_frame_kept:
  assumes idle: "idle b s" and mode: "cs_mode (sv_session s) = AUTH_SESSION" and lim: "b + 512 < size_t_range"
    and bs: "length bs \<le> 512" "length bs < 3 + auth_plen bs"
  shows "\<exists>s'. session_event e (Read_Done (Received bs)) s = (Inr (), s') \<and> \<not> cs_closed (sv_session s') \<and>
    cs_posted (sv_session s') = [] \<and> pending (cs_read_buffer (sv_session s')) = bs"
proof -
  let ?s = "s\<lparr>sv_session := (sv_session s)\<lparr>cs_reading := False\<rparr>\<rparr>"
  have i: "srv_inv b ?s" using idle by (simp add: srv_inv_reading idle_def)
  have o: "isOpened (sv_session ?s)" using idle by (simp add: isOpened_def idle_def)
  have l: "length bs \<le> get_remaining_space (cs_read_buffer (sv_session ?s))" using idle bs(1) by (simp add: idle_def)
  obtain m where m: "pending m = bs" "mb_wf m" "srv_inv b (with_buffer m ?s)"
    "read_handler e (Received bs) ?s =
       sbind (process_read_buffer e) (\<lambda>_. on_session (\<lambda>c. if isOpened c then do_read c else c)) (with_buffer m ?s)"
    using read_handler_received[OF i o l, of e] idle by (auto simp: idle_def)
  let ?t = "with_buffer m ?s"
  have t: "cs_read_buffer (sv_session ?t) = m" "cs_mode (sv_session ?t) = AUTH_SESSION" "isOpened (sv_session ?t)"
    "cs_posted (sv_session ?t) = []" "\<not> cs_closed (sv_session ?t)"
    using mode o idle by (simp_all add: with_buffer_def isOpened_def idle_def)
  have "process_read_buffer e ?t = (Inr (), ?t)"
    using auth_reader[of ?t e] t(1,2) m(1,2) bs(2) by (simp add: process_read_buffer_def)
  then have "session_event e (Read_Done (Received bs)) s = (Inr (), ?t\<lparr>sv_session := do_read (sv_session ?t)\<rparr>)"
    using m(4) t(3) by (simp add: session_event_def on_session_def supdate_def sbind_def)
  moreover have "length (mb_storage m) + 512 < size_t_range" using m(3) lim by (simp add: srv_inv_def with_buffer_def)
  ultimately show ?thesis using pending_ensure[OF m(2)] m(1) t by (simp add: do_read_def)
qed

text \<open>
  C31. The session mode of the client outlives the connection. Once in work mode, the client is in work
  mode in every state it reaches, through any number of reconnections, and its receive loop reads
  work headers; but the server greets a new connection in authentication mode. The heart beat the
  client then sends is a work frame, which such a session takes for the beginning of an
  authentication packet of 256 bytes: it posts no answer and keeps the bytes.
\<close>

theorem work_mode_outlives_connection:
  assumes "cl_session_mode c = WORK_SESSION" "client_reach c c'"
    and "idle b s" "cs_mode (sv_session s) = AUTH_SESSION" "b + 512 < size_t_range"
  shows "cl_session_mode c' = WORK_SESSION \<and>
    start_receive_loop c' = begin_op (Header_Read WORK_SESSION) c' \<and>
    (\<exists>p. send_ping ce c' = send_packet_impl p c' \<and> length p = 8 \<and>
      (\<exists>s'. session_event se (Read_Done (Received p)) s = (Inr (), s') \<and> \<not> cs_closed (sv_session s') \<and>
        cs_posted (sv_session s') = [] \<and> pending (cs_read_buffer (sv_session s')) = p))"
proof -
  let ?p = "work_frame 1 (le_bytes (cx_uint32 ce))"
  have m: "cl_session_mode c' = WORK_SESSION" using settled_reach[OF assms(2)] assms(1) by (simp add: settled_def)
  then have s: "send_ping ce c' = send_packet_impl ?p c'"
    by (simp add: send_ping_def client_get_session_mode_def client_send_work_def work_build_frame WorkPacket_def
        pk_write_uint32_le_def packet_write_def codec_simps bb_empty_def Let_def)
  have l: "length ?p = 8" by (simp add: work_frame_def be16_eq)
  have "header_length 1 0 = 256" by (simp add: header_length_def)
  then have "auth_plen ?p = 256" by (simp add: auth_plen_def work_frame_def be16_eq)
  then have "\<exists>s'. session_event se (Read_Done (Received ?p)) s = (Inr (), s') \<and> \<not> cs_closed (sv_session s') \<and>
      cs_posted (sv_session s') = [] \<and> pending (cs_read_buffer (sv_session s')) = ?p"
    using l by (intro incomplete_frame_kept[OF assms(3-5)]) simp_all
  then show ?thesis using m s l by (auto simp: start_receive_loop_def client_get_session_mode_def)
qed

theorem work_mode_outlives_connection_witness:
  "\<exists>p. send_ping sample_client_env (client_set_session_mode WORK_SESSION sample_client) =
      send_packet_impl p (client_set_session_mode WORK_SESSION sample_client) \<and>
    (\<exists>s'. session_event sample_env (Read_Done (Received p)) cached_session = (Inr (), s') \<and>
      cs_posted (sv_session s') = [])"
proof -
  have w: "cl_session_mode (client_set_session_mode WORK_SESSION sample_client) = WORK_SESSION"
    by (simp add: client_set_session_mode_def)
  have m: "cs_mode (sv_session cached_session) = AUTH_SESSION" "4608 + 512 < size_t_range"
    by (simp_all add: cached_session_def remember_account_def sample_defs size_t_range_def)
  from work_mode_outlives_connection[OF w client_reach.init cached_idle m, of sample_client_env sample_env]
  show ?thesis by blast
qed

end
