(* ===== verification/Server.thy ===== *)
theory Server
  imports Session_Properties
begin

text \<open>
  \<open>src/server/Server.cpp\<close> and \<open>src/main_server.cpp\<close>: the accept loop, the set of sessions and the
  orderly stop. The server holds the objects of all sessions it has made, numbered in order of
  creation (an object outlives its entry in \<open>sessions_\<close> while a handler holds a pointer to it), and
  an event of one session runs on the view of the server that \<open>Session\<close> works with. The accept handler
  and \<open>stop\<close> run on threads of their own: between two sections guarded by \<open>sessions_mutex_\<close>, and
  between the closing of two sessions, anything else may happen. A handler of a session is one step.
\<close>

subsection \<open>State\<close>

text \<open>
  Where the accept loop is: no \<open>async_accept\<close> under way, one under way, its handler about to start the
  session it has registered, or about to accept again.
\<close>

datatype accept_at = No_Accept | Accepting | Start_Session nat | Accept_Again

text \<open>Where \<open>stop\<close> is: the section it runs next, for the loop with the sessions it has still to visit.\<close>

datatype stop_at =
    Not_Stopping
  | Close_Acceptor
  | Copy_Sessions
  | Close_Sessions "nat list"
  | Clear_Sessions
  | Stop_Loop
  | Shutdown_Db
  | Log_Count
  | Stopped

text \<open>\<open>sr_running\<close>: the \<open>io_context\<close> has not been stopped.\<close>

record 'w server =
  sr_acceptor_open :: bool
  sr_accept :: accept_at
  sr_stop :: stop_at
  sr_objects :: "session list"
  sr_sessions :: "nat set"
  sr_cache :: account_cache
  sr_db :: "'w database"
  sr_running :: bool

text \<open>The view of one session, and an operation on it.\<close>

definition view :: "nat \<Rightarrow> 'w server \<Rightarrow> 'w srv" where
  "view i s = \<lparr>sv_session = sr_objects s ! i, sv_cache = sr_cache s, sv_db = sr_db s,
     sv_registered = (i \<in> sr_sessions s)\<rparr>"

definition put_view :: "nat \<Rightarrow> 'w srv \<Rightarrow> 'w server \<Rightarrow> 'w server" where
  "put_view i v s = s\<lparr>sr_objects := (sr_objects s)[i := sv_session v], sr_cache := sv_cache v, sr_db := sv_db v,
     sr_sessions := (if sv_registered v then insert i (sr_sessions s) else sr_sessions s - {i})\<rparr>"

definition on_view :: "nat \<Rightarrow> ('w srv, 'a) op \<Rightarrow> ('w server, 'a) op" where
  "on_view i m s = (case m (view i s) of (r, v) \<Rightarrow> (r, put_view i v s))"

subsection \<open>Operations\<close>

text \<open>Opening the acceptor on the port can throw.\<close>

definition Server :: "(int \<Rightarrow> unit result) \<Rightarrow> int \<Rightarrow> 'w database \<Rightarrow> int \<Rightarrow> 'w server result" where
  "Server bind now db port =
     rbind (bind port) (\<lambda>_.
     Inr \<lparr>sr_acceptor_open = True, sr_accept = No_Accept, sr_stop = Not_Stopping, sr_objects = [], sr_sessions = {},
          sr_cache = cache_start now (AccountCache (5 * 60) 60), sr_db = db, sr_running = True\<rparr>)"

text \<open>\<open>start_accept\<close> returns without accepting when the acceptor is closed.\<close>

definition start_accept :: "'w server \<Rightarrow> 'w server" where
  "start_accept s = s\<lparr>sr_accept := (if \<not> sr_acceptor_open s then No_Accept else Accepting)\<rparr>"

definition log_session_count :: "'w server \<Rightarrow> nat" where
  "log_session_count s = card (sr_sessions s)"

definition server_remove_session :: "nat \<Rightarrow> 'w server \<Rightarrow> 'w server" where
  "server_remove_session i s = s\<lparr>sr_sessions := sr_sessions s - {i}\<rparr>"

text \<open>
  The completion handler of \<open>async_accept\<close> in its three sections: with an error code it ends the loop;
  with a socket it makes a session and registers it, starts the session (given by what its
  \<open>remote_endpoint()\<close> does), and accepts again.
\<close>

definition accept_done :: "openssl \<Rightarrow> bool \<Rightarrow> ('w server, unit) op" where
  "accept_done ssl ec =
     sbind (supdate (\<lambda>s. s\<lparr>sr_accept := No_Accept\<rparr>)) (\<lambda>_.
     if ec then sreturn ()
     else
       sbind (slift (ClientSession ssl)) (\<lambda>c.
       supdate (\<lambda>s. s\<lparr>sr_objects := sr_objects s @ [c], sr_sessions := insert (length (sr_objects s)) (sr_sessions s),
         sr_accept := Start_Session (length (sr_objects s))\<rparr>)))"

definition accept_step :: "unit result \<Rightarrow> ('w server, unit) op" where
  "accept_step endpoint s =
     (case sr_accept s of
        Start_Session i \<Rightarrow>
          sbind (supdate (\<lambda>s. s\<lparr>sr_accept := No_Accept\<rparr>)) (\<lambda>_.
          sbind (on_view i (session_start endpoint)) (\<lambda>_.
          supdate (\<lambda>s. s\<lparr>sr_accept := Accept_Again\<rparr>))) s
      | Accept_Again \<Rightarrow> (Inr (), start_accept s)
      | _ \<Rightarrow> (Inr (), s))"

definition close_if_open :: "nat \<Rightarrow> ('w server, unit) op" where
  "close_if_open i s = (if isOpened (sr_objects s ! i) then on_view i session_close s else (Inr (), s))"

text \<open>
  \<open>stop\<close>, one section per step. Cancelling and closing the acceptor report errors to the log only.
  \<open>order\<close> is the order in which the copy of the unordered set of sessions is walked.
\<close>

definition server_stop :: "'w env \<Rightarrow> nat list \<Rightarrow> ('w server, unit) op" where
  "server_stop e order s =
     (case sr_stop s of
        Not_Stopping \<Rightarrow> (Inr (), s\<lparr>sr_cache := cache_stop (sr_cache s), sr_stop := Close_Acceptor\<rparr>)
      | Close_Acceptor \<Rightarrow> (Inr (), s\<lparr>sr_acceptor_open := False, sr_stop := Copy_Sessions\<rparr>)
      | Copy_Sessions \<Rightarrow> (Inr (), s\<lparr>sr_stop := Close_Sessions order\<rparr>)
      | Close_Sessions [] \<Rightarrow> (Inr (), s\<lparr>sr_stop := Clear_Sessions\<rparr>)
      | Close_Sessions (i # is) \<Rightarrow> sbind (close_if_open i) (\<lambda>_. supdate (\<lambda>s. s\<lparr>sr_stop := Close_Sessions is\<rparr>)) s
      | Clear_Sessions \<Rightarrow> (Inr (), s\<lparr>sr_sessions := {}, sr_stop := Stop_Loop\<rparr>)
      | Stop_Loop \<Rightarrow> (Inr (), s\<lparr>sr_running := False, sr_stop := Shutdown_Db\<rparr>)
      | Shutdown_Db \<Rightarrow> (Inr (), s\<lparr>sr_db := db_shutdown (env_pq e) (sr_db s), sr_stop := Log_Count\<rparr>)
      | Log_Count \<Rightarrow> (Inr (), s\<lparr>sr_stop := Stopped\<rparr>)
      | Stopped \<Rightarrow> (Inr (), s))"

subsection \<open>The program\<close>

text \<open>\<open>hardware_concurrency()\<close> may be 0 when it is not known.\<close>

definition network_threads :: "u32 \<Rightarrow> u32" where
  "network_threads hc = (if hc > 2 then hc - 1 else if hc = 0 then 1 else hc)"

definition getenv_or :: "(bytes \<Rightarrow> bytes option) \<Rightarrow> bytes \<Rightarrow> bytes \<Rightarrow> bytes" where
  "getenv_or getenv name dflt = (case getenv name of Some v \<Rightarrow> v | None \<Rightarrow> dflt)"

definition main_conninfo :: "(bytes \<Rightarrow> bytes option) \<Rightarrow> bytes" where
  "main_conninfo getenv =
     str ''host='' @ getenv_or getenv (str ''DB_URL'') (str ''127.0.0.1'') @
     str '' port='' @ getenv_or getenv (str ''DB_PORT'') (str ''5432'') @
     str '' user='' @ getenv_or getenv (str ''DB_USER'') (str ''postgres'') @
     str '' password='' @ getenv_or getenv (str ''DB_PASSWORD'') (str ''postgres'') @
     str '' dbname='' @ getenv_or getenv (str ''DB_NAME'') (str ''postgres'')"

text \<open>
  The \<open>try\<close> block of \<open>main\<close> up to the start of the I/O threads: the number of threads and the server,
  or the exception that ends the program.
\<close>

definition main_server ::
  "(bytes \<Rightarrow> bytes option) \<Rightarrow> u32 \<Rightarrow> ('w, pq_row) pqxx \<Rightarrow> (int \<Rightarrow> unit result) \<Rightarrow> int \<Rightarrow> 'w \<Rightarrow>
   (u32 \<times> 'w server) result" where
  "main_server getenv hc pq bind now w =
     (case Database pq (main_conninfo getenv) 2 w of
        (Inl f, _) \<Rightarrow> Inl f
      | (Inr _, db) \<Rightarrow>
          rbind (Server bind now db 3724) (\<lambda>s. Inr (network_threads hc, start_accept s)))"

subsection \<open>Events\<close>

text \<open>
  A signal starts \<open>stop\<close>, which then goes on by itself, as does the handler of an accepted connection;
  new handlers start only while the event loop runs. The \<open>remote_endpoint()\<close> of a socket that has been
  closed meanwhile throws.
\<close>

datatype server_event =
    Accept_Done bool
  | Accept_Step "unit result"
  | On_Session nat session_event
  | Cache_Timer bool int
  | Stop_Step "nat list"

definition server_enabled :: "server_event \<Rightarrow> 'w server \<Rightarrow> bool" where
  "server_enabled ev s =
     (case ev of
        Accept_Done ec \<Rightarrow> sr_running s \<and> sr_accept s = Accepting
      | Accept_Step endpoint \<Rightarrow>
          (case sr_accept s of
             Start_Session i \<Rightarrow> cs_closed (sr_objects s ! i) \<longrightarrow> (case endpoint of Inl (Thrown x) \<Rightarrow> True | _ \<Rightarrow> False)
           | Accept_Again \<Rightarrow> True
           | _ \<Rightarrow> False)
      | On_Session i x \<Rightarrow> sr_running s \<and> i < length (sr_objects s) \<and> event_enabled x (sr_objects s ! i)
      | Cache_Timer ec now' \<Rightarrow> sr_running s \<and> ac_timer (sr_cache s) \<noteq> None
      | Stop_Step order \<Rightarrow>
          (case sr_stop s of
             Not_Stopping \<Rightarrow> sr_running s
           | Copy_Sessions \<Rightarrow> set order = sr_sessions s \<and> distinct order
           | Stopped \<Rightarrow> False
           | _ \<Rightarrow> True))"

definition server_event :: "'w env \<Rightarrow> server_event \<Rightarrow> ('w server, unit) op" where
  "server_event e ev =
     (case ev of
        Accept_Done ec \<Rightarrow> accept_done (env_ssl e) ec
      | Accept_Step endpoint \<Rightarrow> accept_step endpoint
      | On_Session i x \<Rightarrow> on_view i (session_event e x)
      | Cache_Timer ec now' \<Rightarrow> supdate (\<lambda>s. s\<lparr>sr_cache := cleanup_timer_handler ec (env_now e) now' (sr_cache s)\<rparr>)
      | Stop_Step order \<Rightarrow> server_stop e order)"

inductive server_reach :: "'w server \<Rightarrow> nat \<Rightarrow> 'w server \<Rightarrow> bool" for s0 where
  init: "server_reach s0 0 s0"
| event: "server_reach s0 n s \<Longrightarrow> openssl_ok (env_ssl e) \<Longrightarrow> server_enabled ev s \<Longrightarrow>
    server_event e ev s = (Inr (), s') \<Longrightarrow> server_reach s0 (Suc n) s'"

subsection \<open>The invariant\<close>

definition server_inv :: "nat \<Rightarrow> 'w server \<Rightarrow> bool" where
  "server_inv b s \<longleftrightarrow> (\<forall>i<length (sr_objects s). srv_inv b (view i s)) \<and> sr_sessions s \<subseteq> {..<length (sr_objects s)}"

lemma view_put_view:
  "i < length (sr_objects s) \<Longrightarrow> view i (put_view i v s) = v"
  "i \<noteq> j \<Longrightarrow> view j (put_view i v s) = (view j s)\<lparr>sv_cache := sv_cache v, sv_db := sv_db v\<rparr>"
  by (auto simp: view_def put_view_def)

lemma srv_inv_surroundings [simp]: "srv_inv b (v\<lparr>sv_cache := c, sv_db := d\<rparr>) = srv_inv b v"
  by (simp add: srv_inv_def)

lemma srv_inv_view: "srv_inv b (view i s) \<longleftrightarrow>
    mb_wf (cs_read_buffer (sr_objects s ! i)) \<and> length (mb_storage (cs_read_buffer (sr_objects s ! i))) \<le> b \<and>
    (cs_mode (sr_objects s ! i) = WORK_SESSION \<longleftrightarrow> ai_isAuth (cs_account (sr_objects s ! i))) \<and>
    (i \<in> sr_sessions s \<longleftrightarrow> \<not> cs_closed (sr_objects s ! i)) \<and>
    (\<not> cs_closed (sr_objects s ! i) \<longrightarrow> writing_ok (sr_objects s ! i))"
  by (simp add: srv_inv_def view_def)

lemma server_inv_put:
  assumes "server_inv b s" "i < length (sr_objects s)" "srv_inv b' v" "b \<le> b'"
  shows "server_inv b' (put_view i v s)"
  unfolding server_inv_def
proof (intro conjI allI impI)
  fix j assume "j < length (sr_objects (put_view i v s))"
  then have "srv_inv b (view j s)" using assms(1) by (simp add: server_inv_def put_view_def)
  then show "srv_inv b' (view j (put_view i v s))"
    using assms(2-4) srv_inv_mono[OF _ assms(4)] by (cases "j = i") (simp_all add: view_put_view)
qed (use assms(1,2) in \<open>auto simp: server_inv_def put_view_def\<close>)

lemma server_inv_frame:
  "server_inv b (s\<lparr>sr_cache := c\<rparr>) = server_inv b s" "server_inv b (s\<lparr>sr_db := d\<rparr>) = server_inv b s"
  "server_inv b (s\<lparr>sr_accept := a\<rparr>) = server_inv b s" "server_inv b (s\<lparr>sr_running := r\<rparr>) = server_inv b s"
  "server_inv b (s\<lparr>sr_acceptor_open := o'\<rparr>) = server_inv b s" "server_inv b (s\<lparr>sr_stop := p\<rparr>) = server_inv b s"
  by (simp_all add: server_inv_def srv_inv_view)

lemma server_inv_mono: "server_inv b s \<Longrightarrow> b \<le> b' \<Longrightarrow> server_inv b' s"
  using srv_inv_mono by (auto simp: server_inv_def)

lemma start_accept_inv [simp]: "server_inv b (start_accept s) = server_inv b s"
  by (simp add: start_accept_def server_inv_frame)

lemma open_iff_registered: "server_inv b s \<Longrightarrow> i \<in> sr_sessions s \<longleftrightarrow> i < length (sr_objects s) \<and> \<not> cs_closed (sr_objects s ! i)"
  by (auto simp: server_inv_def srv_inv_view)

text \<open>A session that has been registered and not yet started: no operation of its socket is under way.\<close>

definition unstarted :: "session \<Rightarrow> bool" where
  "unstarted c \<longleftrightarrow> cs_mode c = AUTH_SESSION \<and> \<not> cs_reading c \<and> cs_in_flight c = None \<and> cs_posted c = []"

lemma unstarted_idle: "unstarted c \<Longrightarrow> \<not> event_enabled ev c"
  by (auto simp: unstarted_def event_enabled_def split: session_event.split read_result.split)

text \<open>A new session is registered and sound.\<close>

lemma ClientSession_made:
  assumes "openssl_ok ssl"
  obtains c where "ClientSession ssl = Inr c" "\<not> cs_closed c" "unstarted c"
    "\<And>cache (db :: 'w database). srv_inv 4096 \<lparr>sv_session = c, sv_cache = cache, sv_db = db, sv_registered = True\<rparr>"
proof -
  let ?c = "\<lparr>cs_account = \<lparr>ai_srp = fresh ssl, ai_isAuth = False\<rparr>, cs_read_buffer = MessageBuffer 4096, cs_write_queue = [],
      cs_writing = False, cs_closed = False, cs_mode = AUTH_SESSION, cs_posted = [], cs_reading = False,
      cs_in_flight = None, cs_socket_open = True, cs_wire = [], cs_sent = []\<rparr>"
  show thesis
    by (rule that[of ?c])
       (simp_all add: ClientSession_def AccountInfo_def SRP6_fresh[OF assms] srv_inv_def writing_ok_def mb_wf_def
         MessageBuffer_def size_t_range_def unstarted_def)
qed

text \<open>
  How far \<open>stop\<close> has come. From the copy on, the sessions that are still open and not on the list are
  at most the last one made, and not even that one while another accept may still complete.
\<close>

definition not_cleared :: "'w server \<Rightarrow> bool" where
  "not_cleared s \<longleftrightarrow> (case sr_stop s of
     Stop_Loop \<Rightarrow> False | Shutdown_Db \<Rightarrow> False | Log_Count \<Rightarrow> False | Stopped \<Rightarrow> False | _ \<Rightarrow> True)"

definition left_to_close :: "'w server \<Rightarrow> nat set option" where
  "left_to_close s = (case sr_stop s of
     Not_Stopping \<Rightarrow> None | Close_Acceptor \<Rightarrow> None | Copy_Sessions \<Rightarrow> None | Close_Sessions is \<Rightarrow> Some (set is) | _ \<Rightarrow> Some {})"

definition visited :: "'w server \<Rightarrow> nat" where
  "visited s = (if sr_accept s = Accepting then length (sr_objects s) else length (sr_objects s) - 1)"

definition stop_inv :: "'w server \<Rightarrow> bool" where
  "stop_inv s \<longleftrightarrow>
     (\<forall>i\<in>sr_sessions s. i < length (sr_objects s) \<and> \<not> cs_closed (sr_objects s ! i)) \<and>
     (sr_stop s \<noteq> Not_Stopping \<longrightarrow> sr_stop s \<noteq> Close_Acceptor \<longrightarrow> \<not> sr_acceptor_open s) \<and>
     (\<forall>is. sr_stop s = Close_Sessions is \<longrightarrow> set is \<subseteq> {..<length (sr_objects s)}) \<and>
     (\<forall>i. sr_accept s = Start_Session i \<longrightarrow> i < length (sr_objects s) \<and> unstarted (sr_objects s ! i)) \<and>
     (\<forall>S i. left_to_close s = Some S \<longrightarrow> i < visited s \<longrightarrow> \<not> cs_closed (sr_objects s ! i) \<longrightarrow> i \<in> S) \<and>
     (sr_stop s \<in> {Shutdown_Db, Log_Count, Stopped} \<longrightarrow> \<not> sr_running s) \<and>
     (sr_stop s \<in> {Log_Count, Stopped} \<longrightarrow> db_connections (sr_db s) = [])"

definition full_inv :: "nat \<Rightarrow> 'w server \<Rightarrow> bool" where
  "full_inv b s \<longleftrightarrow> (not_cleared s \<longrightarrow> server_inv b s) \<and> stop_inv s"

text \<open>An operation on one session neither reopens nor registers it.\<close>

definition closes_only :: "'w srv \<Rightarrow> 'w srv \<Rightarrow> bool" where
  "closes_only v v' \<longleftrightarrow> (cs_closed (sv_session v) \<longrightarrow> cs_closed (sv_session v')) \<and>
     (sv_registered v' \<longrightarrow> sv_registered v \<and> (cs_closed (sv_session v') \<longrightarrow> cs_closed (sv_session v)))"

lemma put_view_fields:
  "sr_accept (put_view i v s) = sr_accept s" "sr_stop (put_view i v s) = sr_stop s"
  "sr_acceptor_open (put_view i v s) = sr_acceptor_open s" "sr_running (put_view i v s) = sr_running s"
  "length (sr_objects (put_view i v s)) = length (sr_objects s)" "sr_db (put_view i v s) = sv_db v"
  by (simp_all add: put_view_def)

lemma put_closed: "j < length (sr_objects s) \<Longrightarrow>
    cs_closed (sr_objects (put_view i v s) ! j) = (if j = i then cs_closed (sv_session v) else cs_closed (sr_objects s ! j))"
  by (simp add: put_view_def)

lemma stop_inv_put:
  assumes inv: "stop_inv s" and i: "i < length (sr_objects s)" and v: "closes_only (view i s) v"
    and db: "sr_running s \<or> sv_db v = sr_db s" and u: "sr_accept s = Start_Session i \<Longrightarrow> unstarted (sv_session v)"
  shows "stop_inv (put_view i v s)"
proof -
  let ?t = "put_view i v s"
  have c: "cs_closed (sr_objects ?t ! j)" if "cs_closed (sr_objects s ! j)" "j < length (sr_objects s)" for j
    using that v by (auto simp: put_closed closes_only_def view_def)
  have f: "left_to_close ?t = left_to_close s" "visited ?t = visited s"
    by (simp_all add: left_to_close_def visited_def put_view_fields)
  have l: "visited s \<le> length (sr_objects s)" by (simp add: visited_def)
  have r: "j < length (sr_objects ?t) \<and> \<not> cs_closed (sr_objects ?t ! j)" if "j \<in> sr_sessions ?t" for j
  proof -
    have j: "j \<in> sr_sessions s" "j = i \<longrightarrow> sv_registered v"
      using that v by (auto simp: put_view_def closes_only_def view_def split: if_splits)
    then have "j < length (sr_objects s)" "\<not> cs_closed (sr_objects s ! j)" using inv by (auto simp: stop_inv_def)
    then show ?thesis using j v by (auto simp: put_closed closes_only_def view_def put_view_fields)
  qed
  have k: "j \<in> S" if "left_to_close s = Some S" "j < visited s" "\<not> cs_closed (sr_objects ?t ! j)" for S j
    using that inv c l by (fastforce simp: stop_inv_def)
  have us: "\<forall>j. sr_accept s = Start_Session j \<longrightarrow> j < length (sr_objects s) \<and> unstarted (sr_objects ?t ! j)"
    using inv u i by (auto simp: stop_inv_def put_view_def nth_list_update)
  show ?thesis
    unfolding stop_inv_def f put_view_fields
    using inv r k db us by (auto simp: stop_inv_def put_view_fields)
qed

lemma closes_only_refl: "closes_only v v"
  by (simp add: closes_only_def)

lemma closes_only_close: "session_close v = (r, v') \<Longrightarrow> closes_only v v' \<and> cs_closed (sv_session v') \<and> sv_db v' = sv_db v \<and>
    (unstarted (sv_session v) \<longrightarrow> unstarted (sv_session v'))"
  by (auto simp: session_close_def Let_def remove_session_def closes_only_def unstarted_def get_session_mode_def
      split: if_splits)

lemma closes_session: "(\<And>c. cs_closed (f c) = cs_closed c) \<Longrightarrow> keeps (closes_only v) (on_session f)"
  by (rule keeps_on_session) (simp add: closes_only_def)

lemma closes_basic [keeps_rules]:
  "keeps (closes_only v0) (on_srp f)" "keeps (closes_only v0) (on_db d)" "keeps (closes_only v0) (cached_entry now u)"
  "keeps (closes_only v0) (supdate (remember_account now' u' salt v))" "keeps (closes_only v0) (send_packet p)"
  "keeps (closes_only v0) (send_packet_as q)" "keeps (closes_only v0) (send_packet_as_work r)"
  "keeps (closes_only v0) (on_session (set_session_mode mode))"
  "keeps (closes_only v0) (on_session (\<lambda>c. c\<lparr>cs_account := handle_auth_state (cs_account c)\<rparr>))"
  "keeps (closes_only v0) session_close" "keeps (closes_only v0) (on_session (\<lambda>c. c\<lparr>cs_read_buffer := m\<rparr>))"
  "keeps (closes_only v0) (on_session (\<lambda>c. if isOpened c then do_read c else c))"
  by (auto simp: keeps_def closes_only_def on_srp_def on_session_def supdate_def on_db_def cached_entry_def
      send_packet_def send_packet_as_def send_packet_as_work_def set_session_mode_def remember_account_def sbind_def
      session_close_def remove_session_def do_read_def Let_def split: prod.split)

lemma closes_challenge: "keeps (closes_only v0) (auth_logon_challenge e p)"
proof -
  have "keeps (closes_only v0) (answer_challenge e salt v)" for salt v
    by (simp add: answer_challenge_def keeps_rules)
  moreover from this have "keeps (closes_only v0) (challenge_from_db e u)" for u
    by (auto simp: challenge_from_db_def answer_row_def split: option.split prod.split intro!: keeps_rules)
  ultimately show ?thesis
    by (auto simp: auth_logon_challenge_def Let_def split: sum.split fault.split option.split intro!: keeps_rules)
qed

lemma closes_dispatch: "keeps (closes_only v0) (auth_dispatch e p)" "keeps (closes_only v0) (work_dispatch e q)"
  by (auto simp: auth_dispatch_def spawn_challenge_def auth_ping_def auth_logon_proof_def closes_challenge
      work_dispatch_def work_ping_def work_message_def intro!: keeps_rules
      split: option.split AuthOpcodes.split WorkOpcodes.split prod.split)

lemma closes_event: "keeps (closes_only v0) (session_event e ev)"
proof (cases ev)
  case (Read_Done q)
  have "keeps (closes_only v0) (read_handler e q)"
    by (rule keeps_read_handler[OF closes_basic(10) closes_dispatch closes_basic(11,12)])
  moreover have "keeps (closes_only v0) (on_session (\<lambda>c. c\<lparr>cs_reading := False\<rparr>))" by (rule closes_session) simp
  ultimately show ?thesis using Read_Done keeps_sbind by (simp add: session_event_def)
next
  case (Write_Done ec)
  have "keeps (closes_only v0) (write_handler ec)"
    using closes_basic(10)[of v0]
    by (auto simp: write_handler_def keeps_def closes_only_def on_session_def supdate_def split: list.split)
  moreover have "keeps (closes_only v0) (on_session (\<lambda>c. c\<lparr>cs_in_flight := None,
      cs_wire := cs_wire c @ (if ec then [] else snd (the (cs_in_flight c)))\<rparr>))" by (rule closes_session) simp
  ultimately show ?thesis using Write_Done keeps_sbind by (simp add: session_event_def)
next
  case Run_Posted
  then show ?thesis by (simp add: session_event_def run_posted_def closes_session)
qed

lemma closes_start: "keeps (closes_only v0) (session_start endpoint)"
  by (auto simp: session_start_def set_session_mode_def do_read_def intro!: keeps_rules closes_session)

subsection \<open>Events keep the invariant\<close>

lemma full_inv_mono: "full_inv b s \<Longrightarrow> b \<le> b' \<Longrightarrow> full_inv b' s"
  using server_inv_mono by (auto simp: full_inv_def)

lemma full_inv_put:
  assumes "full_inv b s" "i < length (sr_objects s)" "closes_only (view i s) v" "sr_running s \<or> sv_db v = sr_db s"
    "sr_accept s = Start_Session i \<Longrightarrow> unstarted (sv_session v)" "b \<le> b'" "not_cleared s \<Longrightarrow> srv_inv b' v"
  shows "full_inv b' (put_view i v s)"
  using stop_inv_put[OF _ assms(2-5)] assms(1) server_inv_put[OF _ assms(2) _ assms(6)] assms(7)
  by (simp add: full_inv_def not_cleared_def put_view_fields)

lemma full_inv_view: "full_inv b s \<Longrightarrow> not_cleared s \<Longrightarrow> i < length (sr_objects s) \<Longrightarrow> srv_inv b (view i s)"
  by (simp add: full_inv_def server_inv_def)

lemma session_step_inv:
  assumes inv: "full_inv b s" and lim: "b + 512 < size_t_range"
    and en: "server_enabled (On_Session i x) s" and ev: "server_event e (On_Session i x) s = (Inr (), s')"
  shows "full_inv (b + 512) s'"
proof -
  have i: "i < length (sr_objects s)" "event_enabled x (sv_session (view i s))" "sr_running s"
    using en by (simp_all add: server_enabled_def view_def)
  obtain v where v: "session_event e x (view i s) = (Inr (), v)" "s' = put_view i v s"
    using ev by (auto simp: server_event_def on_view_def split: prod.splits)
  have "closes_only (view i s) v" using keepsD[OF closes_event closes_only_refl v(1)] .
  moreover have "srv_inv (b + 512) v" if "not_cleared s"
    using session_event_inv[OF full_inv_view[OF inv that i(1)] i(2) lim, of e] v(1) by simp
  moreover have "sr_accept s \<noteq> Start_Session i"
    using inv i(2) unstarted_idle by (auto simp: full_inv_def stop_inv_def view_def)
  ultimately show ?thesis unfolding v(2) using i full_inv_put[OF inv i(1)] by simp
qed

lemma accept_done_inv:
  fixes s :: "'w server"
  assumes inv: "full_inv b s" "4096 \<le> b" and ssl: "openssl_ok (env_ssl e)"
    and en: "server_enabled (Accept_Done ec) s" and ev: "server_event e (Accept_Done ec) s = (Inr (), s')"
  shows "full_inv b s'"
proof (cases ec)
  case True
  then have "s' = s\<lparr>sr_accept := No_Accept\<rparr>" using ev by (simp add: server_event_def accept_done_def sreturn_def)
  moreover have "visited (s\<lparr>sr_accept := No_Accept\<rparr>) \<le> visited s" by (simp add: visited_def)
  then have "i < visited (s\<lparr>sr_accept := No_Accept\<rparr>) \<Longrightarrow> i < visited s" for i by simp
  ultimately show ?thesis
    using inv(1) by (simp add: full_inv_def server_inv_frame stop_inv_def not_cleared_def left_to_close_def)
next
  case False
  obtain c where c: "ClientSession (env_ssl e) = Inr c" "\<not> cs_closed c" "unstarted c"
    "\<And>cache (db :: 'w database). srv_inv 4096 \<lparr>sv_session = c, sv_cache = cache, sv_db = db, sv_registered = True\<rparr>"
    using ClientSession_made[OF ssl, where 'w = 'w] by metis
  let ?n = "length (sr_objects s)"
  have s': "s' = s\<lparr>sr_objects := sr_objects s @ [c], sr_sessions := insert ?n (sr_sessions s), sr_accept := Start_Session ?n\<rparr>"
    using ev False c(1) by (simp add: server_event_def accept_done_def supdate_def)
  have a: "sr_accept s = Accepting" "sr_running s" using en by (simp_all add: server_enabled_def)
  have "server_inv b s'" if "server_inv b s"
  proof -
    have n: "view ?n s' = \<lparr>sv_session = c, sv_cache = sr_cache s, sv_db = sr_db s, sv_registered = True\<rparr>"
      by (simp add: view_def s')
    have "view j s' = view j s" if "j < ?n" for j using that by (simp add: view_def s' nth_append)
    then have "srv_inv b (view j s')" if "j < Suc ?n" for j
      using that \<open>server_inv b s\<close> n srv_inv_mono[OF c(4) inv(2)] by (cases "j = ?n") (auto simp: server_inv_def)
    moreover have "length (sr_objects s') = Suc ?n" "sr_sessions s' \<subseteq> {..<Suc ?n}"
      using \<open>server_inv b s\<close> by (auto simp: s' server_inv_def)
    ultimately show ?thesis by (simp add: server_inv_def)
  qed
  moreover have "stop_inv s'"
  proof -
    have i: "stop_inv s" using inv(1) by (simp add: full_inv_def)
    have v: "visited s' = ?n" "visited s = ?n" "left_to_close s' = left_to_close s" "sr_stop s' = sr_stop s"
      "sr_acceptor_open s' = sr_acceptor_open s" "sr_running s' = sr_running s" "sr_db s' = sr_db s"
      "length (sr_objects s') = Suc ?n" "sr_accept s' = Start_Session ?n" "sr_sessions s' = insert ?n (sr_sessions s)"
      using a(1) by (simp_all add: s' visited_def left_to_close_def)
    have o: "cs_closed (sr_objects s' ! j) = (if j = ?n then False else cs_closed (sr_objects s ! j))" if "j < Suc ?n" for j
      using that c(2) by (auto simp: s' nth_append)
    have u: "unstarted (sr_objects s' ! ?n)" using c(3) by (simp add: s')
    have r: "\<forall>j\<in>insert ?n (sr_sessions s). j < Suc ?n \<and> \<not> cs_closed (sr_objects s' ! j)"
      using i o by (auto simp: stop_inv_def less_Suc_eq)
    have k: "\<forall>S j. left_to_close s = Some S \<longrightarrow> j < ?n \<longrightarrow> \<not> cs_closed (sr_objects s' ! j) \<longrightarrow> j \<in> S"
      using i o by (auto simp: stop_inv_def v(2))
    have l: "\<forall>is. sr_stop s = Close_Sessions is \<longrightarrow> set is \<subseteq> {..<Suc ?n}"
      using i by (fastforce simp: stop_inv_def)
    show ?thesis
      unfolding stop_inv_def v using i u r k l by (simp add: stop_inv_def)
  qed
  ultimately show ?thesis using inv(1) by (simp add: full_inv_def not_cleared_def s')
qed

lemma accept_step_inv:
  assumes inv: "full_inv b s" and lim: "b + 512 < size_t_range"
    and en: "server_enabled (Accept_Step q) s" and ev: "server_event e (Accept_Step q) s = (Inr (), s')"
  shows "full_inv (b + 512) s'"
proof (cases "sr_accept s")
  case (Start_Session i)
  let ?s = "s\<lparr>sr_accept := No_Accept\<rparr>"
  have i: "i < length (sr_objects s)" using inv Start_Session by (simp add: full_inv_def stop_inv_def)
  have "visited ?s = visited s" using Start_Session by (simp add: visited_def)
  then have inv': "full_inv b ?s"
    using inv by (simp add: full_inv_def server_inv_frame stop_inv_def not_cleared_def left_to_close_def)
  obtain v where v: "session_start q (view i ?s) = (Inr (), v)" "s' = (put_view i v ?s)\<lparr>sr_accept := Accept_Again\<rparr>"
    using ev Start_Session
    by (auto simp: server_event_def accept_step_def sbind_def supdate_def on_view_def split: prod.splits sum.splits)
  have w: "v = (view i ?s)\<lparr>sv_session := do_read (set_session_mode AUTH_SESSION (sv_session (view i ?s)))\<rparr>" "q = Inr ()"
    using v(1) by (cases q; simp add: session_start_def on_session_def supdate_def)+
  have o: "\<not> cs_closed (sr_objects s ! i)" using en w(2) Start_Session by (auto simp: server_enabled_def)
  have "full_inv (b + 512) (put_view i v ?s)"
  proof (rule full_inv_put[OF inv'])
    show "closes_only (view i ?s) v" using keepsD[OF closes_start closes_only_refl v(1)] .
    show "sr_running ?s \<or> sv_db v = sr_db ?s" by (simp add: w(1) view_def)
    show "srv_inv (b + 512) v" if "not_cleared ?s"
    proof -
      have "srv_inv b (view i ?s)" using full_inv_view[OF inv' that] i by simp
      moreover have "set_session_mode AUTH_SESSION (sv_session (view i ?s)) = sv_session (view i ?s)"
        using inv Start_Session by (simp add: full_inv_def stop_inv_def unstarted_def set_session_mode_def view_def)
      ultimately show ?thesis using do_read_inv[OF _ lim] w(1) by simp
    qed
  qed (use i in simp_all)
  then show ?thesis
    unfolding v(2) using i
    by (simp add: full_inv_def server_inv_frame stop_inv_def not_cleared_def left_to_close_def visited_def put_view_fields)
next
  case Accept_Again
  then have "s' = start_accept s" using ev by (simp add: server_event_def accept_step_def)
  then show ?thesis
    using full_inv_mono[OF inv, of "b + 512"] Accept_Again
    by (auto simp: full_inv_def server_inv_frame stop_inv_def not_cleared_def left_to_close_def visited_def start_accept_def
        split: stop_at.splits)
qed (use en in \<open>simp_all add: server_enabled_def\<close>)

lemma close_one_step:
  assumes inv: "full_inv b s" and i: "i < length (sr_objects s)"
  shows "\<exists>s'. close_if_open i s = (Inr (), s') \<and> full_inv b s' \<and> cs_closed (sr_objects s' ! i) \<and>
    sr_stop s' = sr_stop s \<and> length (sr_objects s') = length (sr_objects s)"
proof (cases "isOpened (sr_objects s ! i)")
  case True
  obtain v where v: "session_close (view i s) = (Inr (), v)" using close_returns[of "view i s"] by auto
  have f: "closes_only (view i s) v" "cs_closed (sv_session v)" "sv_db v = sv_db (view i s)"
    "unstarted (sv_session (view i s)) \<longrightarrow> unstarted (sv_session v)"
    using closes_only_close[OF v] by simp_all
  have "full_inv b (put_view i v s)"
  proof (rule full_inv_put[OF inv i f(1)])
    show "sr_running s \<or> sv_db v = sr_db s" using f(3) by (simp add: view_def)
    show "unstarted (sv_session v)" if "sr_accept s = Start_Session i"
      using f(4) inv that by (simp add: full_inv_def stop_inv_def view_def)
    show "srv_inv b v" if "not_cleared s"
      using keepsD[OF keeps_close full_inv_view[OF inv that i] v] .
  qed simp
  then show ?thesis using True v f(2) i by (simp add: close_if_open_def on_view_def put_closed put_view_fields)
qed (use assms in \<open>auto simp: close_if_open_def isOpened_def\<close>)

text \<open>A section of \<open>stop\<close> other than the loop changes none of the sessions.\<close>

lemma stop_inv_step:
  assumes "stop_inv s" "sr_stop t \<noteq> Not_Stopping" "sr_stop t \<noteq> Close_Acceptor \<Longrightarrow> \<not> sr_acceptor_open t"
    "sr_objects t = sr_objects s" "sr_accept t = sr_accept s" "sr_sessions t \<subseteq> sr_sessions s"
    "\<And>is. sr_stop t = Close_Sessions is \<Longrightarrow> set is \<subseteq> {..<length (sr_objects t)}"
    "\<And>S i. left_to_close t = Some S \<Longrightarrow> i < visited t \<Longrightarrow> \<not> cs_closed (sr_objects t ! i) \<Longrightarrow> i \<in> S"
    "sr_stop t \<in> {Shutdown_Db, Log_Count, Stopped} \<Longrightarrow> \<not> sr_running t"
    "sr_stop t \<in> {Log_Count, Stopped} \<Longrightarrow> db_connections (sr_db t) = []"
  shows "stop_inv t"
  using assms unfolding stop_inv_def by (simp add: subset_iff)

lemma stop_invD:
  assumes "stop_inv s"
  shows "sr_stop s \<noteq> Not_Stopping \<Longrightarrow> sr_stop s \<noteq> Close_Acceptor \<Longrightarrow> \<not> sr_acceptor_open s"
    "sr_stop s = Close_Sessions is \<Longrightarrow> set is \<subseteq> {..<length (sr_objects s)}"
    "left_to_close s = Some S \<Longrightarrow> i < visited s \<Longrightarrow> \<not> cs_closed (sr_objects s ! i) \<Longrightarrow> i \<in> S"
    "sr_stop s \<in> {Shutdown_Db, Log_Count, Stopped} \<Longrightarrow> \<not> sr_running s"
    "sr_stop s \<in> {Log_Count, Stopped} \<Longrightarrow> db_connections (sr_db s) = []"
  using assms by (auto simp: stop_inv_def)

lemma visited_frame [simp]:
  "visited (s\<lparr>sr_stop := p\<rparr>) = visited s" "visited (s\<lparr>sr_sessions := S\<rparr>) = visited s"
  "visited (s\<lparr>sr_running := r\<rparr>) = visited s" "visited (s\<lparr>sr_db := d\<rparr>) = visited s"
  "visited (s\<lparr>sr_cache := c\<rparr>) = visited s" "visited (s\<lparr>sr_acceptor_open := a\<rparr>) = visited s"
  by (simp_all add: visited_def)

lemma stop_section:
  assumes "stop_inv s" "sr_stop s \<noteq> Not_Stopping" "sr_stop s \<noteq> Close_Acceptor"
  shows "sr_stop s = Close_Sessions [] \<Longrightarrow> stop_inv (s\<lparr>sr_stop := Clear_Sessions\<rparr>)"
    "sr_stop s = Clear_Sessions \<Longrightarrow> stop_inv (s\<lparr>sr_sessions := {}, sr_stop := Stop_Loop\<rparr>)"
    "sr_stop s = Stop_Loop \<Longrightarrow> stop_inv (s\<lparr>sr_running := False, sr_stop := Shutdown_Db\<rparr>)"
    "sr_stop s = Shutdown_Db \<Longrightarrow> stop_inv (s\<lparr>sr_db := db_shutdown pq (sr_db s), sr_stop := Log_Count\<rparr>)"
    "sr_stop s = Log_Count \<Longrightarrow> stop_inv (s\<lparr>sr_stop := Stopped\<rparr>)"
  by (rule stop_inv_step[OF assms(1)];
      use stop_invD[OF assms(1)] assms(2,3) in \<open>force simp: left_to_close_def db_shutdown_def\<close>)+

lemma stop_step_inv:
  assumes inv: "full_inv b s" and en: "server_enabled (Stop_Step order) s"
  shows "\<exists>s'. server_event e (Stop_Step order) s = (Inr (), s') \<and> full_inv b s'"
proof -
  have st: "stop_inv s" using inv by (simp add: full_inv_def)
  note stop = server_event_def server_stop_def
  note frame = full_inv_def not_cleared_def server_inv_frame
  show ?thesis
  proof (cases "sr_stop s")
    case Not_Stopping
    have "stop_inv (s\<lparr>sr_cache := cache_stop (sr_cache s), sr_stop := Close_Acceptor\<rparr>)"
      by (rule stop_inv_step[OF st]) (simp_all add: left_to_close_def)
    then show ?thesis using inv Not_Stopping by (simp add: stop frame)
  next
    case Close_Acceptor
    have "stop_inv (s\<lparr>sr_acceptor_open := False, sr_stop := Copy_Sessions\<rparr>)"
      by (rule stop_inv_step[OF st]) (simp_all add: left_to_close_def)
    then show ?thesis using inv Close_Acceptor by (simp add: stop frame)
  next
    case Copy_Sessions
    have "server_inv b s" using inv Copy_Sessions by (simp add: full_inv_def not_cleared_def)
    note reg = open_iff_registered[OF this]
    have o: "set order = sr_sessions s" using en Copy_Sessions by (simp add: server_enabled_def)
    have "stop_inv (s\<lparr>sr_stop := Close_Sessions order\<rparr>)"
    proof (rule stop_inv_step[OF st])
      fix S i assume "left_to_close (s\<lparr>sr_stop := Close_Sessions order\<rparr>) = Some S" "i < visited (s\<lparr>sr_stop := Close_Sessions order\<rparr>)"
        "\<not> cs_closed (sr_objects (s\<lparr>sr_stop := Close_Sessions order\<rparr>) ! i)"
      moreover have "visited s \<le> length (sr_objects s)" by (simp add: visited_def)
      ultimately show "i \<in> S" using reg o by (simp add: left_to_close_def)
    qed (use reg o stop_invD(1)[OF st] Copy_Sessions in auto)
    then show ?thesis using inv Copy_Sessions by (simp add: stop frame)
  next
    case (Close_Sessions l)
    show ?thesis
    proof (cases l)
      case Nil
      then show ?thesis using inv Close_Sessions stop_section(1)[OF st] by (simp add: stop frame)
    next
      case (Cons i "is")
      have "i < length (sr_objects s)" using stop_invD(2)[OF st] Close_Sessions Cons by simp
      from close_one_step[OF inv this] obtain t where t: "close_if_open i s = (Inr (), t)" "full_inv b t"
        "cs_closed (sr_objects t ! i)" "sr_stop t = Close_Sessions (i # is)"
        using Close_Sessions Cons by auto
      have i: "stop_inv t" using t(2) by (simp add: full_inv_def)
      have "stop_inv (t\<lparr>sr_stop := Close_Sessions is\<rparr>)"
        by (rule stop_inv_step[OF i]; use stop_invD[OF i] t(3,4) in \<open>force simp: left_to_close_def\<close>)
      then have "full_inv b (t\<lparr>sr_stop := Close_Sessions is\<rparr>)" using t(2,4) by (simp add: frame)
      then show ?thesis using t(1) Close_Sessions Cons by (simp add: stop supdate_def)
    qed
  next
    case Clear_Sessions
    then show ?thesis using stop_section(2)[OF st] by (simp add: stop frame)
  next
    case Stop_Loop
    then show ?thesis using stop_section(3)[OF st] by (simp add: stop frame)
  next
    case Shutdown_Db
    then show ?thesis using stop_section(4)[OF st] by (simp add: stop frame)
  next
    case Log_Count
    then show ?thesis using stop_section(5)[OF st] by (simp add: stop frame)
  qed (use en in \<open>simp add: server_enabled_def\<close>)
qed

lemma server_event_inv:
  assumes inv: "full_inv b s" "4608 \<le> b" "b + 512 < size_t_range" and ev: "server_enabled ev s" "openssl_ok (env_ssl e)"
    "server_event e ev s = (Inr (), s')"
  shows "full_inv (b + 512) s'"
proof (cases ev)
  case (Accept_Done ec)
  then have "full_inv b s'" using accept_done_inv[OF inv(1) _ ev(2)] inv(2) ev(1,3) by simp
  then show ?thesis by (rule full_inv_mono) simp
next
  case (Accept_Step q)
  then show ?thesis using accept_step_inv[OF inv(1,3)] ev(1,3) by simp
next
  case (On_Session i x)
  then show ?thesis using session_step_inv[OF inv(1,3)] ev(1,3) by simp
next
  case (Cache_Timer ec now')
  then have "s' = s\<lparr>sr_cache := cleanup_timer_handler ec (env_now e) now' (sr_cache s)\<rparr>"
    using ev(3) by (simp add: server_event_def supdate_def)
  then have "full_inv b s'"
    using inv(1) by (simp add: full_inv_def server_inv_frame stop_inv_def not_cleared_def left_to_close_def visited_def)
  then show ?thesis by (rule full_inv_mono) simp
next
  case (Stop_Step order)
  then have "full_inv b s'" using stop_step_inv[OF inv(1), of order e] ev(1,3) by auto
  then show ?thesis by (rule full_inv_mono) simp
qed

lemma server_reach_inv:
  assumes "server_reach s0 n s" "full_inv 4608 s0" "4608 + 512 * n < size_t_range"
  shows "full_inv (4608 + 512 * n) s"
  using assms
proof (induction rule: server_reach.induct)
  case init
  then show ?case by simp
next
  case (event n s e ev s')
  then have "full_inv (4608 + 512 * n) s" by simp
  then have "full_inv (4608 + 512 * n + 512) s'"
    using event.hyps event.prems by (intro server_event_inv) simp_all
  then show ?case by (simp add: algebra_simps)
qed

lemma Server_inv: "Server bind now db port = Inr s0 \<Longrightarrow> full_inv 4608 (start_accept s0)"
  by (auto simp: Server_def outcome_simps full_inv_def server_inv_def stop_inv_def left_to_close_def start_accept_def)

text \<open>When no \<open>async_accept\<close> is under way and none is about to be, none is started and no session is made.\<close>

definition frozen :: "nat \<Rightarrow> 'w server \<Rightarrow> bool" where
  "frozen n s \<longleftrightarrow> sr_accept s = No_Accept \<and> length (sr_objects s) = n"

lemma frozen_view: "keeps (frozen n) (on_view i m)"
  by (auto simp: keeps_def frozen_def on_view_def put_view_def split: prod.split)

lemma frozen_close: "keeps (frozen n) (close_if_open i)"
  using frozen_view[of n i session_close] by (auto simp: keeps_def close_if_open_def)

lemma frozen_stop: "keeps (frozen n) (server_stop e order)"
proof (rule keepsI)
  fix s t :: "'a server" and r assume "frozen n s" and "server_stop e order s = (r, t)"
  have k: "keeps (frozen n) (sbind (close_if_open i) (\<lambda>_. supdate (\<lambda>s. s\<lparr>sr_stop := p\<rparr>)))" for i p
    by (intro keeps_sbind frozen_close) (simp add: keeps_def supdate_def frozen_def)
  show "frozen n t"
  proof (cases "\<exists>i is. sr_stop s = Close_Sessions (i # is)")
    case True
    then obtain i p where "sbind (close_if_open i) (\<lambda>_. supdate (\<lambda>s. s\<lparr>sr_stop := p\<rparr>)) s = (r, t)"
      using \<open>server_stop e order s = (r, t)\<close> by (auto simp: server_stop_def)
    from keepsD[OF k \<open>frozen n s\<close> this] show ?thesis .
  next
    case False
    then show ?thesis using \<open>frozen n s\<close> \<open>server_stop e order s = (r, t)\<close>
      by (auto simp: server_stop_def frozen_def split: stop_at.splits list.splits)
  qed
qed

lemma frozen_event:
  assumes "frozen n s" "server_enabled ev s" "server_event e ev s = (r, s')"
  shows "frozen n s'"
proof (cases ev)
  case (Accept_Done ec)
  then show ?thesis using assms(1,2) by (simp add: server_enabled_def frozen_def)
next
  case (Accept_Step q)
  then show ?thesis using assms(1,2) by (simp add: server_enabled_def frozen_def)
next
  case (On_Session i x)
  then show ?thesis using keepsD[OF frozen_view assms(1)] assms(3) by (simp add: server_event_def)
next
  case (Cache_Timer ec now')
  then show ?thesis using assms(1,3) by (auto simp: server_event_def supdate_def frozen_def)
next
  case (Stop_Step order)
  then show ?thesis using keepsD[OF frozen_stop assms(1)] assms(3) by (simp add: server_event_def)
qed

lemma frozen_reach: "server_reach s m s' \<Longrightarrow> frozen n s \<Longrightarrow> frozen n s'"
  by (induction rule: server_reach.induct) (blast intro: frozen_event)+

subsection \<open>Properties\<close>

definition sample_server :: "unit server" where
  "sample_server = \<lparr>sr_acceptor_open = True, sr_accept = Accepting, sr_stop = Not_Stopping, sr_objects = [],
     sr_sessions = {}, sr_cache = cache_start 0 (AccountCache (5 * 60) 60), sr_db = empty_db, sr_running = True\<rparr>"

lemma sample_server_made: "\<exists>s0. Server (\<lambda>_. Inr ()) 0 empty_db 3724 = Inr s0 \<and> start_accept s0 = sample_server"
  by (simp add: Server_def start_accept_def sample_server_def)


text \<open>A run of the server: a connection is accepted and started, and the server is stopped.\<close>

lemma sample_accepts:
  obtains c where "ClientSession sample_openssl = Inr c" "\<not> cs_closed c"
    "server_event sample_env (Accept_Done False) s =
      (Inr (), s\<lparr>sr_objects := sr_objects s @ [c], sr_sessions := insert (length (sr_objects s)) (sr_sessions s),
         sr_accept := Start_Session (length (sr_objects s))\<rparr>)"
proof -
  obtain c where c: "ClientSession sample_openssl = Inr c" "\<not> cs_closed c" using ClientSession_made[OF sample_openssl_ok] .
  then show thesis using that by (simp add: server_event_def accept_done_def supdate_def sample_env_def)
qed

lemma sample_step:
  "server_reach s0 n s \<Longrightarrow> server_enabled ev s \<Longrightarrow> server_event sample_env ev s = (Inr (), s') \<Longrightarrow> server_reach s0 (Suc n) s'"
  using server_reach.event[of s0 n s sample_env ev s'] by (simp add: sample_env_def sample_openssl_ok)


text \<open>
  A connection may slip through \<open>stop\<close>. When an accept completes between the copy of the set and its
  clearing, the session it makes is open when \<open>stop\<close> has ended, and not registered.
\<close>

theorem late_accept_stays_open:
  "\<exists>s. server_reach sample_server 9 s \<and> sr_stop s = Stopped \<and> sr_sessions s = {} \<and> length (sr_objects s) = 1 \<and>
    \<not> cs_closed (sr_objects s ! 0)"
proof -
  let ?s1 = "sample_server\<lparr>sr_cache := cache_stop (sr_cache sample_server), sr_stop := Close_Acceptor\<rparr>"
  let ?s2 = "?s1\<lparr>sr_acceptor_open := False, sr_stop := Copy_Sessions\<rparr>"
  let ?s3 = "?s2\<lparr>sr_stop := Close_Sessions []\<rparr>"
  obtain c where c: "\<not> cs_closed c" "server_event sample_env (Accept_Done False) ?s3 =
      (Inr (), ?s3\<lparr>sr_objects := [c], sr_sessions := {0}, sr_accept := Start_Session 0\<rparr>)" (is "_ = (_, ?s4)")
    using sample_accepts[of ?s3] by (auto simp: sample_server_def)
  let ?s5 = "?s4\<lparr>sr_stop := Clear_Sessions\<rparr>"
  let ?s6 = "?s5\<lparr>sr_sessions := {}, sr_stop := Stop_Loop\<rparr>"
  let ?s7 = "?s6\<lparr>sr_running := False, sr_stop := Shutdown_Db\<rparr>"
  let ?s8 = "?s7\<lparr>sr_db := db_shutdown (env_pq sample_env) (sr_db ?s7), sr_stop := Log_Count\<rparr>"
  let ?s9 = "?s8\<lparr>sr_stop := Stopped\<rparr>"
  have start: "sr_stop sample_server = Not_Stopping" "sr_running sample_server" "sr_sessions sample_server = {}"
    "sr_accept sample_server = Accepting" by (simp_all add: sample_server_def)
  note defs = start server_enabled_def server_event_def server_stop_def
  have r1: "server_reach sample_server (Suc 0) ?s1" by (rule sample_step[OF server_reach.init, of "Stop_Step []"]) (simp_all add: defs)
  have r2: "server_reach sample_server (Suc (Suc 0)) ?s2" by (rule sample_step[OF r1, of "Stop_Step []"]) (simp_all add: defs)
  have "server_reach sample_server (Suc (Suc (Suc 0))) ?s3" by (rule sample_step[OF r2, of "Stop_Step []"]) (simp_all add: defs)
  then have r3: "server_reach sample_server 3 ?s3" by (simp only: numeral_3_eq_3)
  have r4: "server_reach sample_server (Suc 3) ?s4" by (rule sample_step[OF r3 _ c(2)]) (simp add: defs)
  have r5: "server_reach sample_server (Suc (Suc 3)) ?s5" by (rule sample_step[OF r4, of "Stop_Step []"]) (simp_all add: defs)
  have r6: "server_reach sample_server (Suc (Suc (Suc 3))) ?s6" by (rule sample_step[OF r5, of "Stop_Step []"]) (simp_all add: defs)
  have r7: "server_reach sample_server (Suc (Suc (Suc (Suc 3)))) ?s7" by (rule sample_step[OF r6, of "Stop_Step []"]) (simp_all add: defs)
  have r8: "server_reach sample_server (Suc (Suc (Suc (Suc (Suc 3))))) ?s8" by (rule sample_step[OF r7, of "Stop_Step []"]) (simp_all add: defs)
  have "server_reach sample_server (Suc (Suc (Suc (Suc (Suc (Suc 3)))))) ?s9" by (rule sample_step[OF r8, of "Stop_Step []"]) (simp_all add: defs)
  moreover have "Suc (Suc (Suc (Suc (Suc (Suc 3))))) = 9" by simp
  ultimately have "server_reach sample_server 9 ?s9" by simp
  then show ?thesis using c(1) by (intro exI[of _ ?s9]) simp
qed

text \<open>
  The accept loop ends at the first error. After an \<open>async_accept\<close> that failed, for whatever reason,
  the server is still running with its port open, but no later event accepts a connection or makes a
  session. When a connection is accepted whose peer is gone already, \<open>remote_endpoint()\<close> throws out of
  the completion handler and so out of the I/O thread; the session stays registered with no read
  under way, and nothing is accepted any more.
\<close>

theorem accept_loop_ends_on_error:
  assumes "sr_running s" "sr_acceptor_open s"
  shows "(\<exists>s1. server_event e (Accept_Done True) s = (Inr (), s1) \<and> sr_running s1 \<and> sr_acceptor_open s1 \<and>
      (\<forall>n s2. server_reach s1 n s2 \<longrightarrow> sr_accept s2 = No_Accept \<and> length (sr_objects s2) = length (sr_objects s))) \<and>
    (sr_accept s = Start_Session i \<and> i < length (sr_objects s) \<longrightarrow>
      (\<exists>s1. server_event e (Accept_Step (Inl (Thrown x))) s = (Inl (Thrown x), s1) \<and> sr_sessions s1 = sr_sessions s \<and>
        cs_reading (sr_objects s1 ! i) = cs_reading (sr_objects s ! i) \<and>
        (\<forall>n s2. server_reach s1 n s2 \<longrightarrow> sr_accept s2 = No_Accept)))"
proof (intro conjI impI)
  let ?s = "s\<lparr>sr_accept := No_Accept\<rparr>"
  have "server_event e (Accept_Done True) s = (Inr (), ?s)"
    by (simp add: server_event_def accept_done_def sreturn_def supdate_def)
  moreover have "sr_accept s2 = No_Accept \<and> length (sr_objects s2) = length (sr_objects s)" if "server_reach ?s n s2" for n s2
    using frozen_reach[OF that, of "length (sr_objects s)"] by (simp add: frozen_def)
  ultimately show "\<exists>s1. server_event e (Accept_Done True) s = (Inr (), s1) \<and> sr_running s1 \<and> sr_acceptor_open s1 \<and>
      (\<forall>n s2. server_reach s1 n s2 \<longrightarrow> sr_accept s2 = No_Accept \<and> length (sr_objects s2) = length (sr_objects s))"
    using assms by (intro exI[of _ ?s]) auto
  assume i: "sr_accept s = Start_Session i \<and> i < length (sr_objects s)"
  have p: "put_view i (view i ?s) ?s = ?s" using i by (auto simp: put_view_def view_def insert_absorb)
  have "server_event e (Accept_Step (Inl (Thrown x))) s = (Inl (Thrown x), ?s)"
    using i p by (simp add: server_event_def accept_step_def on_view_def session_start_def slift_def sbind_def supdate_def)
  moreover have "sr_accept s2 = No_Accept" if "server_reach ?s n s2" for n s2
    using frozen_reach[OF that, of "length (sr_objects s)"] by (simp add: frozen_def)
  ultimately show "\<exists>s1. server_event e (Accept_Step (Inl (Thrown x))) s = (Inl (Thrown x), s1) \<and> sr_sessions s1 = sr_sessions s \<and>
        cs_reading (sr_objects s1 ! i) = cs_reading (sr_objects s ! i) \<and>
        (\<forall>n s2. server_reach s1 n s2 \<longrightarrow> sr_accept s2 = No_Accept)"
    by (intro exI[of _ ?s]) auto
qed

end
