(* ===== verification/Circular_Queue.thy ===== *)
theory Circular_Queue
  imports Purity_Prelude
begin

text \<open>
  \<open>deps/spdlog-1.15.3/include/spdlog/details/circular_q.h\<close>: the ring buffer of the logging library. It
  is a vector with one slot more than the queue can hold; pushing onto a full queue overwrites the
  oldest item. The contract \<open>bounded_fifo\<close> describes it as a list of which only the newest items are
  kept; the queue of log messages and the backtrace of a logger are its clients.
\<close>

subsection \<open>The ring buffer\<close>

record 'a circular_q =
  cq_max_items :: nat
  cq_head :: nat
  cq_tail :: nat
  cq_overrun_counter :: nat
  cq_v :: "'a list"

text \<open>The default constructor makes a disabled queue.\<close>

definition cq_disabled :: "'a circular_q" where
  "cq_disabled = \<lparr>cq_max_items = 0, cq_head = 0, cq_tail = 0, cq_overrun_counter = 0, cq_v = []\<rparr>"

text \<open>\<open>dflt\<close> is a default-constructed item.\<close>

definition new_circular_q :: "'a \<Rightarrow> nat \<Rightarrow> 'a circular_q" where
  "new_circular_q dflt max_items =
     (let m = (max_items + 1) mod size_t_range in
      cq_disabled\<lparr>cq_max_items := m, cq_v := replicate m dflt\<rparr>)"

definition cq_push_back :: "'a \<Rightarrow> 'a circular_q \<Rightarrow> 'a circular_q result" where
  "cq_push_back item q =
     (if cq_max_items q > 0 then
        if cq_tail q < length (cq_v q) then
          (let q1 = q\<lparr>cq_v := (cq_v q)[cq_tail q := item], cq_tail := (cq_tail q + 1) mod cq_max_items q\<rparr> in
           Inr (if cq_tail q1 = cq_head q1
                then q1\<lparr>cq_head := (cq_head q1 + 1) mod cq_max_items q1,
                        cq_overrun_counter := (cq_overrun_counter q1 + 1) mod size_t_range\<rparr>
                else q1))
        else Inl Undefined
      else Inr q)"

definition cq_front :: "'a circular_q \<Rightarrow> 'a result" where
  "cq_front q = (if cq_head q < length (cq_v q) then Inr (cq_v q ! cq_head q) else Inl Undefined)"

definition cq_size :: "'a circular_q \<Rightarrow> nat" where
  "cq_size q =
     (if cq_tail q \<ge> cq_head q then cq_tail q - cq_head q
      else size_t_sub (cq_max_items q) (cq_head q - cq_tail q))"

definition cq_at :: "nat \<Rightarrow> 'a circular_q \<Rightarrow> 'a result" where
  "cq_at i q =
     (if cq_max_items q = 0 then Inl Undefined
      else (let j = (cq_head q + i) mod cq_max_items q in
            if i < cq_size q \<and> j < length (cq_v q) then Inr (cq_v q ! j) else Inl Undefined))"

text \<open>The remainder by zero is undefined.\<close>

definition cq_pop_front :: "'a circular_q \<Rightarrow> 'a circular_q result" where
  "cq_pop_front q =
     (if cq_max_items q = 0 then Inl Undefined
      else Inr (q\<lparr>cq_head := (cq_head q + 1) mod cq_max_items q\<rparr>))"

definition cq_empty :: "'a circular_q \<Rightarrow> bool" where
  "cq_empty q \<longleftrightarrow> cq_tail q = cq_head q"

definition cq_full :: "'a circular_q \<Rightarrow> bool" where
  "cq_full q = (if cq_max_items q > 0 then (cq_tail q + 1) mod cq_max_items q = cq_head q else False)"

definition cq_reset_overrun_counter :: "'a circular_q \<Rightarrow> 'a circular_q" where
  "cq_reset_overrun_counter q = q\<lparr>cq_overrun_counter := 0\<rparr>"

text \<open>The target and the emptied source of a move; a moved-from vector is empty.\<close>

definition cq_copy_moveable :: "'a circular_q \<Rightarrow> 'a circular_q \<times> 'a circular_q" where
  "cq_copy_moveable other = (other, cq_disabled)"

subsection \<open>The contract\<close>

text \<open>The newest \<open>n\<close> items of a list.\<close>

definition newest :: "nat \<Rightarrow> 'a list \<Rightarrow> 'a list" where
  "newest n xs = drop (length xs - n) xs"

locale bounded_fifo =
  fixes invar :: "'q \<Rightarrow> bool"
    and capacity :: "'q \<Rightarrow> nat"
    and contents :: "'q \<Rightarrow> 'a list"
    and push :: "'a \<Rightarrow> 'q \<Rightarrow> 'q result"
    and pop :: "'q \<Rightarrow> 'q result"
    and front :: "'q \<Rightarrow> 'a result"
  assumes push_law: "invar q \<Longrightarrow> \<exists>q'. push x q = Inr q' \<and> invar q' \<and> capacity q' = capacity q \<and>
      contents q' = newest (capacity q) (contents q @ [x])"
    and pop_law: "invar q \<Longrightarrow> contents q \<noteq> [] \<Longrightarrow> \<exists>q'. pop q = Inr q' \<and> invar q' \<and> capacity q' = capacity q \<and>
      contents q' = tl (contents q)"
    and front_law: "invar q \<Longrightarrow> contents q \<noteq> [] \<Longrightarrow> front q = Inr (hd (contents q))"
    and bounded: "invar q \<Longrightarrow> length (contents q) \<le> capacity q"
begin

lemma push_room:
  assumes "invar q" "length (contents q) < capacity q"
  shows "\<exists>q'. push x q = Inr q' \<and> invar q' \<and> capacity q' = capacity q \<and> contents q' = contents q @ [x]"
  using push_law[OF assms(1), of x] assms(2) by (auto simp: newest_def)

lemma push_overrun:
  assumes "invar q" "length (contents q) = capacity q" "0 < capacity q"
  shows "\<exists>q'. push x q = Inr q' \<and> invar q' \<and> capacity q' = capacity q \<and> contents q' = tl (contents q) @ [x]"
proof -
  have "drop 1 (contents q @ [x]) = tl (contents q) @ [x]" using assms(2,3) by (cases "contents q") auto
  then show ?thesis using push_law[OF assms(1), of x] assms(2) by (auto simp: newest_def)
qed

text \<open>The item pushed is the last one after it, if there is room for any.\<close>

lemma push_last:
  assumes "invar q" "push x q = Inr q'" "0 < capacity q"
  shows "contents q' \<noteq> [] \<and> last (contents q') = x"
proof -
  have "contents q' = newest (capacity q) (contents q @ [x])" using push_law[OF assms(1), of x] assms(2) by auto
  then show ?thesis using assms(3) by (simp add: newest_def)
qed

end

subsection \<open>The ring buffer fulfils the contract\<close>

definition cq_capacity :: "'a circular_q \<Rightarrow> nat" where
  "cq_capacity q = cq_max_items q - 1"

definition cq_wf :: "'a circular_q \<Rightarrow> bool" where
  "cq_wf q \<longleftrightarrow> cq_max_items q < size_t_range \<and> length (cq_v q) = cq_max_items q \<and>
     (if cq_max_items q = 0 then cq_head q = 0 \<and> cq_tail q = 0
      else cq_head q < cq_max_items q \<and> cq_tail q < cq_max_items q)"

definition cq_contents :: "'a circular_q \<Rightarrow> 'a list" where
  "cq_contents q = map (\<lambda>i. cq_v q ! ((cq_head q + i) mod cq_max_items q)) [0..<cq_size q]"

lemma cq_size_alt:
  assumes "cq_wf q"
  shows "cq_size q = (if cq_head q \<le> cq_tail q then cq_tail q - cq_head q else cq_max_items q - cq_head q + cq_tail q)"
  using assms by (auto simp: cq_size_def cq_wf_def size_t_sub_exact split: if_splits)

lemma cq_size_less: "cq_wf q \<Longrightarrow> 0 < cq_max_items q \<Longrightarrow> cq_size q < cq_max_items q"
  by (auto simp: cq_size_alt cq_wf_def split: if_splits)

lemma length_contents [simp]: "length (cq_contents q) = cq_size q"
  by (simp add: cq_contents_def)

lemma cq_tail_alt:
  assumes "cq_wf q" "0 < cq_max_items q"
  shows "cq_tail q = (cq_head q + cq_size q) mod cq_max_items q"
  using assms by (auto simp: cq_size_alt cq_wf_def mod_if)

lemma ring_index: "(h :: nat) < m \<Longrightarrow> i < m \<Longrightarrow> (h + i) mod m = (if h + i < m then h + i else h + i - m)"
  by (simp add: mod_if)

lemma ring_index_inj: "(h :: nat) < m \<Longrightarrow> i < m \<Longrightarrow> j < m \<Longrightarrow> (h + i) mod m = (h + j) mod m \<Longrightarrow> i = j"
  by (auto simp: ring_index split: if_splits)

lemma ring_index_Suc: "((h + 1) mod m + i) mod m = (h + Suc i) mod (m :: nat)"
  by (simp add: mod_simps)

lemma cq_size_unique:
  assumes "cq_wf q" "s < cq_max_items q" "cq_tail q = (cq_head q + s) mod cq_max_items q"
  shows "cq_size q = s"
proof (rule ring_index_inj[of "cq_head q" "cq_max_items q"])
  have m: "0 < cq_max_items q" using assms(2) by linarith
  show "cq_head q < cq_max_items q" using assms(1) m by (simp add: cq_wf_def)
  show "cq_size q < cq_max_items q" by (rule cq_size_less[OF assms(1) m])
  show "(cq_head q + cq_size q) mod cq_max_items q = (cq_head q + s) mod cq_max_items q"
    using cq_tail_alt[OF assms(1) m] assms(3) by simp
qed (rule assms(2))

lemma ring_index_0: "(h :: nat) < m \<Longrightarrow> i < m \<Longrightarrow> (h + i) mod m = h \<Longrightarrow> i = 0"
  using ring_index_inj[of h m i 0] by simp

lemma tail_next:
  assumes "cq_wf q" "0 < cq_max_items q"
  shows "(cq_tail q + 1) mod cq_max_items q = (cq_head q + Suc (cq_size q)) mod cq_max_items q"
  unfolding cq_tail_alt[OF assms] by (simp add: mod_simps)

lemma cq_full_iff:
  assumes "cq_wf q" "0 < cq_max_items q"
  shows "cq_full q \<longleftrightarrow> cq_size q = cq_capacity q"
proof (cases "Suc (cq_size q) = cq_max_items q")
  case True
  then have "(cq_head q + Suc (cq_size q)) mod cq_max_items q = cq_head q"
    using assms by (simp add: cq_wf_def)
  then show ?thesis using True assms(2) tail_next[OF assms] unfolding cq_full_def cq_capacity_def by simp
next
  case False
  then have "Suc (cq_size q) < cq_max_items q" using cq_size_less[OF assms] by linarith
  then have "(cq_head q + Suc (cq_size q)) mod cq_max_items q \<noteq> cq_head q"
    using ring_index_0[of "cq_head q" "cq_max_items q" "Suc (cq_size q)"] assms by (auto simp: cq_wf_def)
  then show ?thesis using False assms(2) tail_next[OF assms] unfolding cq_full_def cq_capacity_def by auto
qed

lemma cq_empty_iff: "cq_wf q \<Longrightarrow> cq_empty q \<longleftrightarrow> cq_contents q = []"
  by (auto simp: cq_empty_def cq_size_alt cq_wf_def simp flip: length_0_conv split: if_splits)

lemma cq_circular: "n + 1 < size_t_range \<Longrightarrow>
    cq_wf (new_circular_q d n) \<and> cq_capacity (new_circular_q d n) = n \<and> cq_contents (new_circular_q d n) = []"
  by (auto simp: new_circular_q_def cq_disabled_def cq_wf_def cq_capacity_def cq_contents_def cq_size_def Let_def)

lemma contents_nth: "i < cq_size q \<Longrightarrow> cq_contents q ! i = cq_v q ! ((cq_head q + i) mod cq_max_items q)"
  by (simp add: cq_contents_def)

text \<open>The state after a push, whether it overran the oldest item or not.\<close>

lemma cq_push_room:
  fixes x :: 'a
  assumes "cq_wf q" "Suc (cq_size q) < cq_max_items q"
  defines "q1 \<equiv> q\<lparr>cq_v := (cq_v q)[cq_tail q := x], cq_tail := (cq_tail q + 1) mod cq_max_items q\<rparr>"
  shows "cq_push_back x q = Inr q1" "cq_wf q1" "cq_contents q1 = cq_contents q @ [x]"
proof -
  let ?m = "cq_max_items q" let ?s = "cq_size q" let ?h = "cq_head q"
  have m: "0 < ?m" "?h < ?m" "cq_tail q < ?m" "length (cq_v q) = ?m" using assms(1,2) by (auto simp: cq_wf_def)
  have t: "cq_tail q = (?h + ?s) mod ?m" by (rule cq_tail_alt[OF assms(1) m(1)])
  have t1: "(cq_tail q + 1) mod ?m = (?h + Suc ?s) mod ?m" by (rule tail_next[OF assms(1) m(1)])
  show w: "cq_wf q1" using assms(1) m by (simp add: cq_wf_def q1_def)
  have "(?h + Suc ?s) mod ?m \<noteq> ?h" using ring_index_0[of ?h ?m "Suc ?s"] m assms(2) by blast
  then show "cq_push_back x q = Inr q1" using m t1 by (simp add: cq_push_back_def q1_def Let_def)
  have s1: "cq_size q1 = Suc ?s" by (rule cq_size_unique[OF w]) (use assms(2) t1 in \<open>simp_all add: q1_def\<close>)
  show "cq_contents q1 = cq_contents q @ [x]"
  proof (rule nth_equalityI)
    fix i assume "i < length (cq_contents q1)"
    then have i: "i < Suc ?s" using s1 by simp
    have e: "(?h + i) mod ?m = cq_tail q \<longleftrightarrow> i = ?s"
      unfolding t using ring_index_inj[of ?h ?m i ?s] m(2) i assms(2) by (metis Suc_lessD less_trans_Suc)
    have "cq_contents q1 ! i = (cq_v q)[cq_tail q := x] ! ((?h + i) mod ?m)"
      using i s1 contents_nth[of i q1] by (simp add: q1_def)
    also have "\<dots> = (if i = ?s then x else cq_v q ! ((?h + i) mod ?m))"
      using m(3,4) by (simp only: nth_list_update e[symmetric] eq_commute[of "cq_tail q"])
    finally show "cq_contents q1 ! i = (cq_contents q @ [x]) ! i"
      using i contents_nth[of i q] by (simp add: nth_append)
  qed (simp add: s1)
qed

lemma cq_push_full:
  fixes x :: 'a
  assumes "cq_wf q" "Suc (cq_size q) = cq_max_items q"
  defines "q1 \<equiv> q\<lparr>cq_v := (cq_v q)[cq_tail q := x], cq_tail := (cq_tail q + 1) mod cq_max_items q,
    cq_head := (cq_head q + 1) mod cq_max_items q,
    cq_overrun_counter := (cq_overrun_counter q + 1) mod size_t_range\<rparr>"
  shows "cq_push_back x q = Inr q1" "cq_wf q1" "cq_contents q1 = newest (cq_size q) (cq_contents q @ [x])"
proof -
  let ?m = "cq_max_items q" let ?s = "cq_size q" let ?h = "cq_head q"
  have m: "0 < ?m" "?h < ?m" "cq_tail q < ?m" "length (cq_v q) = ?m" using assms(1,2) by (auto simp: cq_wf_def)
  have t: "cq_tail q = (?h + ?s) mod ?m" by (rule cq_tail_alt[OF assms(1) m(1)])
  have t1: "(cq_tail q + 1) mod ?m = ?h" unfolding tail_next[OF assms(1) m(1)] assms(2) using m(2) by simp
  show w: "cq_wf q1" using assms(1) m by (simp add: cq_wf_def q1_def)
  show "cq_push_back x q = Inr q1" using m t1 by (simp add: cq_push_back_def q1_def Let_def)
  have "((?h + 1) mod ?m + ?s) mod ?m = ?h" unfolding ring_index_Suc assms(2) using m(2) by simp
  then have s1: "cq_size q1 = ?s"
    by (intro cq_size_unique[OF w]) (use assms(2) t1 in \<open>simp_all add: q1_def\<close>)
  show "cq_contents q1 = newest ?s (cq_contents q @ [x])"
  proof (rule nth_equalityI)
    fix i assume "i < length (cq_contents q1)"
    then have i: "i < ?s" using s1 by simp
    have e: "((?h + 1) mod ?m + i) mod ?m = (?h + Suc i) mod ?m" by (rule ring_index_Suc)
    have f: "(?h + Suc i) mod ?m = cq_tail q \<longleftrightarrow> Suc i = ?s"
      unfolding t using ring_index_inj[of ?h ?m "Suc i" ?s] m(2) i assms(2) by (metis Suc_lessI lessI less_trans)
    have "cq_contents q1 ! i = (cq_v q)[cq_tail q := x] ! ((?h + Suc i) mod ?m)"
      using i s1 contents_nth[of i q1] e by (simp add: q1_def)
    also have "\<dots> = (if Suc i = ?s then x else cq_v q ! ((?h + Suc i) mod ?m))"
      using m(3,4) by (simp only: nth_list_update f[symmetric] eq_commute[of "cq_tail q"])
    finally show "cq_contents q1 ! i = newest ?s (cq_contents q @ [x]) ! i"
      using i contents_nth[of "Suc i" q] by (auto simp: nth_append newest_def)
  qed (simp add: s1 newest_def)
qed

lemma cq_pop_nonempty:
  assumes "cq_wf q" "cq_contents q \<noteq> []"
  defines "q1 \<equiv> q\<lparr>cq_head := (cq_head q + 1) mod cq_max_items q\<rparr>"
  shows "cq_pop_front q = Inr q1" "cq_wf q1" "cq_contents q1 = tl (cq_contents q)" "cq_front q = Inr (hd (cq_contents q))"
proof -
  let ?m = "cq_max_items q" let ?s = "cq_size q" let ?h = "cq_head q"
  have s: "0 < ?s" using assms(2) length_contents[of q] by (cases ?s) (auto simp del: length_contents simp: cq_contents_def)
  have m: "0 < ?m" "?h < ?m" "length (cq_v q) = ?m" using assms(1) s by (auto simp: cq_wf_def cq_size_def split: if_splits)
  have t: "cq_tail q = (?h + ?s) mod ?m" by (rule cq_tail_alt[OF assms(1) m(1)])
  show w: "cq_wf q1" using assms(1) m by (simp add: cq_wf_def q1_def)
  show "cq_pop_front q = Inr q1" using m by (simp add: cq_pop_front_def q1_def)
  have "((?h + 1) mod ?m + (?s - 1)) mod ?m = (?h + ?s) mod ?m" using s ring_index_Suc[of ?h ?m "?s - 1"] by simp
  then have s1: "cq_size q1 = ?s - 1"
    using cq_size_less[OF assms(1) m(1)] t s by (intro cq_size_unique[OF w]) (simp_all add: q1_def)
  show "cq_contents q1 = tl (cq_contents q)"
    using s1 ring_index_Suc[of ?h ?m] by (intro nth_equalityI) (auto simp: contents_nth nth_tl q1_def)
  show "cq_front q = Inr (hd (cq_contents q))"
    using m s by (simp add: cq_front_def hd_conv_nth[OF assms(2)] contents_nth)
qed

interpretation cq: bounded_fifo cq_wf cq_capacity cq_contents cq_push_back cq_pop_front cq_front
proof
  show "\<exists>q'. cq_push_back x q = Inr q' \<and> cq_wf q' \<and> cq_capacity q' = cq_capacity q \<and>
      cq_contents q' = newest (cq_capacity q) (cq_contents q @ [x])" if "cq_wf q" for q :: "'a circular_q" and x
  proof (cases "cq_max_items q = 0")
    case True
    then show ?thesis
      using that by (auto simp: cq_push_back_def cq_contents_def cq_size_def cq_wf_def cq_capacity_def newest_def)
  next
    case False
    then have "Suc (cq_size q) < cq_max_items q \<or> Suc (cq_size q) = cq_max_items q"
      using cq_size_less[OF that] by linarith
    then show ?thesis
    proof
      assume r: "Suc (cq_size q) < cq_max_items q"
      show ?thesis using cq_push_room[OF that r, of x] r by (auto simp: cq_capacity_def newest_def)
    next
      assume f: "Suc (cq_size q) = cq_max_items q"
      then have "cq_capacity q = cq_size q" by (simp add: cq_capacity_def)
      then show ?thesis using cq_push_full[OF that f, of x] by (auto simp: cq_capacity_def)
    qed
  qed
  show "\<exists>q'. cq_pop_front q = Inr q' \<and> cq_wf q' \<and> cq_capacity q' = cq_capacity q \<and> cq_contents q' = tl (cq_contents q)"
    if "cq_wf q" "cq_contents q \<noteq> []" for q :: "'a circular_q"
    using cq_pop_nonempty[OF that] by (auto simp: cq_capacity_def)
  show "cq_front q = Inr (hd (cq_contents q))" if "cq_wf q" "cq_contents q \<noteq> []" for q :: "'a circular_q"
    using cq_pop_nonempty(4)[OF that] .
  show "length (cq_contents q) \<le> cq_capacity q" if "cq_wf q" for q :: "'a circular_q"
    using that cq_size_less[OF that]
    by (cases "cq_max_items q = 0") (auto simp: cq_capacity_def cq_size_def cq_wf_def)
qed

subsection \<open>Runs\<close>

datatype 'a cq_op = Push 'a | Pop

fun cq_run :: "'a cq_op list \<Rightarrow> 'a circular_q \<Rightarrow> 'a circular_q result" where
  "cq_run [] q = Inr q"
| "cq_run (Push x # ops) q = rbind (cq_push_back x q) (cq_run ops)"
| "cq_run (Pop # ops) q = rbind (cq_pop_front q) (cq_run ops)"

text \<open>The same on lists, and whether no operation pops an empty queue.\<close>

fun list_run :: "nat \<Rightarrow> 'a cq_op list \<Rightarrow> 'a list \<Rightarrow> 'a list" where
  "list_run n [] xs = xs"
| "list_run n (Push x # ops) xs = list_run n ops (newest n (xs @ [x]))"
| "list_run n (Pop # ops) xs = list_run n ops (tl xs)"

fun pops_ok :: "nat \<Rightarrow> 'a cq_op list \<Rightarrow> 'a list \<Rightarrow> bool" where
  "pops_ok n [] xs = True"
| "pops_ok n (Push x # ops) xs = pops_ok n ops (newest n (xs @ [x]))"
| "pops_ok n (Pop # ops) xs = (xs \<noteq> [] \<and> pops_ok n ops (tl xs))"

definition pushes :: "'a cq_op list \<Rightarrow> nat" where
  "pushes ops = length (filter (\<lambda>x. x \<noteq> Pop) ops)"

definition pops :: "'a cq_op list \<Rightarrow> nat" where
  "pops ops = length (filter (\<lambda>x. x = Pop) ops)"

lemma push_back_counts:
  assumes "cq_wf q" "0 < cq_max_items q" "cq_push_back x q = Inr q'"
  shows "cq_wf q' \<and> cq_max_items q' = cq_max_items q \<and> cq_contents q' = newest (cq_capacity q) (cq_contents q @ [x]) \<and>
    (\<exists>k. Suc (cq_size q) = cq_size q' + k \<and> cq_overrun_counter q' mod size_t_range = (cq_overrun_counter q + k) mod size_t_range)"
proof -
  consider (room) "Suc (cq_size q) < cq_max_items q" | (full) "Suc (cq_size q) = cq_max_items q"
    using cq_size_less[OF assms(1,2)] by linarith
  then show ?thesis
  proof cases
    case room
    note r = cq_push_room[OF assms(1) room, of x]
    have "cq_size q' = Suc (cq_size q)" using r(1,3) assms(3) length_contents[of q'] by simp
    then show ?thesis using r assms(3) room by (auto simp: cq_capacity_def newest_def intro!: exI[of _ 0])
  next
    case full
    note f = cq_push_full[OF assms(1) full, of x]
    have "cq_size q' = cq_size q" using f(1,3) assms(3) length_contents[of q'] by (simp add: newest_def)
    moreover have "cq_capacity q = cq_size q" using full by (simp add: cq_capacity_def)
    ultimately show ?thesis using f assms(3) by (auto intro!: exI[of _ 1])
  qed
qed

lemma cq_run_list:
  "cq_wf q \<Longrightarrow> 0 < cq_max_items q \<Longrightarrow> pops_ok (cq_capacity q) ops (cq_contents q) \<Longrightarrow>
   \<exists>q'. cq_run ops q = Inr q' \<and> cq_wf q' \<and> cq_max_items q' = cq_max_items q \<and>
     cq_contents q' = list_run (cq_capacity q) ops (cq_contents q) \<and>
     (\<exists>k. cq_size q + pushes ops = cq_size q' + pops ops + k \<and>
       cq_overrun_counter q' mod size_t_range = (cq_overrun_counter q + k) mod size_t_range)"
proof (induction ops arbitrary: q)
  case Nil
  then show ?case by (auto simp: pushes_def pops_def)
next
  case (Cons a ops)
  show ?case
  proof (cases a)
    case (Push x)
    obtain q1 where q1: "cq_push_back x q = Inr q1" using cq.push_law[OF Cons.prems(1), of x] by blast
    note p = push_back_counts[OF Cons.prems(1,2) q1]
    then obtain k where k: "Suc (cq_size q) = cq_size q1 + k"
      "cq_overrun_counter q1 mod size_t_range = (cq_overrun_counter q + k) mod size_t_range" by blast
    have cap: "cq_capacity q1 = cq_capacity q" using p by (simp add: cq_capacity_def)
    obtain q' k' where "cq_run ops q1 = Inr q'" "cq_wf q'" "cq_max_items q' = cq_max_items q1"
      "cq_contents q' = list_run (cq_capacity q) ops (cq_contents q1)"
      "cq_size q1 + pushes ops = cq_size q' + pops ops + k'"
      "cq_overrun_counter q' mod size_t_range = (cq_overrun_counter q1 + k') mod size_t_range"
      using Cons.IH[of q1] p Cons.prems(2,3) Push cap by auto
    moreover have "(cq_overrun_counter q1 + k') mod size_t_range = (cq_overrun_counter q + (k + k')) mod size_t_range"
      using k(2) by (metis add.assoc mod_add_left_eq)
    ultimately show ?thesis
      using Push q1 p k(1) by (intro exI[of _ q']) (auto simp: pushes_def pops_def intro!: exI[of _ "k + k'"])
  next
    case Pop
    then have n: "cq_contents q \<noteq> []" using Cons.prems(3) by simp
    note p = cq_pop_nonempty[OF Cons.prems(1) n]
    let ?q = "q\<lparr>cq_head := (cq_head q + 1) mod cq_max_items q\<rparr>"
    have s: "cq_size q = Suc (cq_size ?q)"
      using p(3) n length_contents[of ?q] length_contents[of q] by (cases "cq_contents q") simp_all
    have "cq_capacity ?q = cq_capacity q" by (simp add: cq_capacity_def)
    then obtain q' k' where "cq_run ops ?q = Inr q'" "cq_wf q'" "cq_max_items q' = cq_max_items q"
      "cq_contents q' = list_run (cq_capacity q) ops (tl (cq_contents q))"
      "cq_size ?q + pushes ops = cq_size q' + pops ops + k'"
      "cq_overrun_counter q' mod size_t_range = (cq_overrun_counter q + k') mod size_t_range"
      using Cons.IH[OF p(2)] Cons.prems(2,3) Pop p(3) by auto
    then show ?thesis
      using Pop p(1) s by (intro exI[of _ q']) (auto simp: pushes_def pops_def intro!: exI[of _ k'])
  qed
qed

text \<open>
  C19. The ring buffer of the logging library is a bounded queue that drops its oldest items. Any sequence
  of operations on a new queue for \<open>n\<close> items that never pops an empty one succeeds, and leaves exactly
  the items a list would hold that keeps its newest \<open>n\<close> after every push; \<open>front\<close>, \<open>at\<close>, \<open>size\<close>, \<open>empty\<close>
  and \<open>full\<close> read that list, and the overrun counter is the number of items dropped, modulo the
  range of \<open>size_t\<close>.
\<close>

theorem circular_q_refines:
  assumes "n + 1 < size_t_range" "pops_ok n ops []"
  shows "\<exists>q. cq_run ops (new_circular_q d n) = Inr q \<and>
    (let xs = list_run n ops [] in
      cq_size q = length xs \<and> (cq_empty q \<longleftrightarrow> xs = []) \<and> (cq_full q \<longleftrightarrow> length xs = n) \<and>
      (\<forall>i<length xs. cq_at i q = Inr (xs ! i)) \<and> (xs \<noteq> [] \<longrightarrow> cq_front q = Inr (hd xs)) \<and>
      cq_overrun_counter q mod size_t_range = (pushes ops - pops ops - length xs) mod size_t_range)"
proof -
  let ?q = "new_circular_q d n"
  have i: "cq_wf ?q" "cq_capacity ?q = n" "cq_contents ?q = []" using cq_circular[OF assms(1), of d] by auto
  have m: "0 < cq_max_items ?q" "cq_size ?q = 0" "cq_overrun_counter ?q = 0"
    using assms(1) by (simp_all add: new_circular_q_def cq_disabled_def cq_size_def Let_def)
  obtain q k where q: "cq_run ops ?q = Inr q" "cq_wf q" "cq_max_items q = cq_max_items ?q"
    "cq_contents q = list_run n ops []" "pushes ops = cq_size q + pops ops + k"
    "cq_overrun_counter q mod size_t_range = k mod size_t_range"
    using cq_run_list[OF i(1) m(1), of ops] assms(2) i(2,3) m(2,3) by auto
  have s: "cq_size q = length (list_run n ops [])" using q(4) length_contents[of q] by simp
  have "cq_at j q = Inr (list_run n ops [] ! j)" if "j < length (list_run n ops [])" for j
    using that s q(2,3) m(1) contents_nth[of j q] q(4) by (auto simp: cq_at_def Let_def cq_wf_def)
  then show ?thesis
    using q s cq_empty_iff[OF q(2)] cq_full_iff[OF q(2)] m(1) i(2) cq.front_law[OF q(2)]
    by (intro exI[of _ q]) (auto simp: Let_def cq_capacity_def)
qed

theorem circular_q_refines_witness:
  "\<exists>q. cq_run [Push 1, Push 2, Push 3, Push (4 :: nat), Pop] (new_circular_q 0 2) = Inr q \<and>
     cq_size q = 1 \<and> cq_front q = Inr 4 \<and> cq_overrun_counter q mod size_t_range = 2"
proof -
  have "2 + 1 < size_t_range" "pops_ok 2 [Push 1, Push 2, Push 3, Push (4 :: nat), Pop] []"
    by (simp_all add: size_t_range_def newest_def)
  from circular_q_refines[OF this, of 0] show ?thesis
    by (auto simp: newest_def pushes_def pops_def size_t_range_def Let_def)
qed

end
