(* ===== verification/Log_Core.thy ===== *)
theory Log_Core
  imports Circular_Queue
begin

text \<open>
  The core of the logging library under \<open>deps/spdlog-1.15.3/include/spdlog\<close>: levels
  (\<open>common.h\<close>, \<open>common-inl.h\<close>), messages (\<open>log_msg.h\<close>, \<open>log_msg_buffer-inl.h\<close>), sinks
  (\<open>sink-inl.h\<close>, \<open>base_sink-inl.h\<close>), the backtrace (\<open>backtracer-inl.h\<close>) and the synchronous logger
  (\<open>logger.h\<close>, \<open>logger-inl.h\<close>). What a sink does with a message is a parameter, the record \<open>sink_ops\<close>,
  which the file and console sinks instantiate.
\<close>

subsection \<open>Levels\<close>

datatype level_enum = lv_trace | lv_debug | lv_info | lv_warn | lv_err | lv_critical | lv_off

definition all_levels :: "level_enum list" where
  "all_levels = [lv_trace, lv_debug, lv_info, lv_warn, lv_err, lv_critical, lv_off]"

fun level_value :: "level_enum \<Rightarrow> nat" where
  "level_value lv_trace = 0"
| "level_value lv_debug = 1"
| "level_value lv_info = 2"
| "level_value lv_warn = 3"
| "level_value lv_err = 4"
| "level_value lv_critical = 5"
| "level_value lv_off = 6"

lemma level_value_inj: "level_value a = level_value b \<Longrightarrow> a = b"
  by (cases a; cases b) simp_all

text \<open>Levels are compared as the integers they are.\<close>

instantiation level_enum :: linorder
begin

definition less_eq_level_enum :: "level_enum \<Rightarrow> level_enum \<Rightarrow> bool" where
  "less_eq_level_enum a b \<longleftrightarrow> level_value a \<le> level_value b"

definition less_level_enum :: "level_enum \<Rightarrow> level_enum \<Rightarrow> bool" where
  "less_level_enum a b \<longleftrightarrow> level_value a < level_value b"

instance
  by standard (auto simp: less_eq_level_enum_def less_level_enum_def intro: level_value_inj)

end

fun to_string_view :: "level_enum \<Rightarrow> bytes" where
  "to_string_view lv_trace = str ''trace''"
| "to_string_view lv_debug = str ''debug''"
| "to_string_view lv_info = str ''info''"
| "to_string_view lv_warn = str ''warning''"
| "to_string_view lv_err = str ''error''"
| "to_string_view lv_critical = str ''critical''"
| "to_string_view lv_off = str ''off''"

fun to_short_c_str :: "level_enum \<Rightarrow> bytes" where
  "to_short_c_str lv_trace = str ''T''"
| "to_short_c_str lv_debug = str ''D''"
| "to_short_c_str lv_info = str ''I''"
| "to_short_c_str lv_warn = str ''W''"
| "to_short_c_str lv_err = str ''E''"
| "to_short_c_str lv_critical = str ''C''"
| "to_short_c_str lv_off = str ''O''"

definition from_str :: "bytes \<Rightarrow> level_enum" where
  "from_str name =
     (case find (\<lambda>l. to_string_view l = name) all_levels of
        Some l \<Rightarrow> l
      | None \<Rightarrow>
          if name = str ''warn'' then lv_warn
          else if name = str ''err'' then lv_err
          else lv_off)"

lemma from_str_to_string_view [simp]: "from_str (to_string_view l) = l"
  by (cases l) (simp_all add: from_str_def all_levels_def str_def)

subsection \<open>Messages\<close>

record source_loc =
  sl_filename :: "bytes option"
  sl_line :: int
  sl_funcname :: "bytes option"

definition no_source :: source_loc where
  "no_source = \<lparr>sl_filename = None, sl_line = 0, sl_funcname = None\<rparr>"

definition source_empty :: "source_loc \<Rightarrow> bool" where
  "source_empty l \<longleftrightarrow> sl_line l \<le> 0"

record log_msg =
  lm_logger_name :: bytes
  lm_level :: level_enum
  lm_time :: int
  lm_thread_id :: nat
  lm_color_range_start :: nat
  lm_color_range_end :: nat
  lm_source :: source_loc
  lm_payload :: bytes

text \<open>The clock and the thread are those of the caller.\<close>

record log_env =
  le_now :: int
  le_thread_id :: nat
  le_date :: "int \<Rightarrow> bytes"

definition new_log_msg :: "log_env \<Rightarrow> int \<Rightarrow> source_loc \<Rightarrow> bytes \<Rightarrow> level_enum \<Rightarrow> bytes \<Rightarrow> log_msg" where
  "new_log_msg e time loc name lvl msg =
     \<lparr>lm_logger_name = name, lm_level = lvl, lm_time = time, lm_thread_id = le_thread_id e,
      lm_color_range_start = 0, lm_color_range_end = 0, lm_source = loc, lm_payload = msg\<rparr>"

definition log_msg_now :: "log_env \<Rightarrow> source_loc \<Rightarrow> bytes \<Rightarrow> level_enum \<Rightarrow> bytes \<Rightarrow> log_msg" where
  "log_msg_now e loc name lvl msg = new_log_msg e (le_now e) loc name lvl msg"

definition log_msg_plain :: "log_env \<Rightarrow> bytes \<Rightarrow> level_enum \<Rightarrow> bytes \<Rightarrow> log_msg" where
  "log_msg_plain e name lvl msg = new_log_msg e (le_now e) no_source name lvl msg"

text \<open>
  A message that owns its text: the name and the payload lie one after the other in \<open>lb_buffer\<close>, and
  the two views of the base class point into it (\<open>update_string_views\<close>), so only their sizes are kept.
\<close>

record log_msg_buffer =
  lb_msg :: log_msg
  lb_buffer :: bytes
  lb_name_size :: nat
  lb_payload_size :: nat

definition new_log_msg_buffer :: "log_msg \<Rightarrow> log_msg_buffer" where
  "new_log_msg_buffer m =
     \<lparr>lb_msg = m, lb_buffer = lm_logger_name m @ lm_payload m,
      lb_name_size = length (lm_logger_name m), lb_payload_size = length (lm_payload m)\<rparr>"

definition update_string_views :: "log_msg_buffer \<Rightarrow> log_msg" where
  "update_string_views b =
     (lb_msg b)\<lparr>lm_logger_name := take (lb_name_size b) (lb_buffer b),
                 lm_payload := take (lb_payload_size b) (drop (lb_name_size b) (lb_buffer b))\<rparr>"

definition lb_copy :: "log_msg_buffer \<Rightarrow> log_msg_buffer" where
  "lb_copy other = new_log_msg_buffer (update_string_views other)"

definition lb_assign :: "log_msg_buffer \<Rightarrow> log_msg_buffer" where
  "lb_assign other = other\<lparr>lb_msg := update_string_views other\<rparr>"

text \<open>The owning copy has the text of the original.\<close>

lemma log_msg_buffer_inverse [simp]: "update_string_views (new_log_msg_buffer m) = m"
  by (simp add: update_string_views_def new_log_msg_buffer_def)

lemma lb_copy_views [simp]: "update_string_views (lb_copy b) = update_string_views b"
  by (simp add: lb_copy_def)

lemma lb_assign_views [simp]: "update_string_views (lb_assign b) = update_string_views b"
  by (simp add: lb_assign_def update_string_views_def)

definition default_buffer :: log_msg_buffer where
  "default_buffer = new_log_msg_buffer \<lparr>lm_logger_name = [], lm_level = lv_off, lm_time = 0, lm_thread_id = 0,
     lm_color_range_start = 0, lm_color_range_end = 0, lm_source = no_source, lm_payload = []\<rparr>"

subsection \<open>Sinks\<close>

record 'k sink_ops =
  so_log :: "log_msg \<Rightarrow> ('k, unit) op"
  so_flush :: "('k, unit) op"

record 'k sink =
  sk_level :: level_enum
  sk_state :: 'k

definition new_sink :: "'k \<Rightarrow> 'k sink" where
  "new_sink st = \<lparr>sk_level = lv_trace, sk_state = st\<rparr>"

definition sink_should_log :: "level_enum \<Rightarrow> 'k sink \<Rightarrow> bool" where
  "sink_should_log msg_level k \<longleftrightarrow> msg_level \<ge> sk_level k"

definition sink_set_level :: "level_enum \<Rightarrow> 'k sink \<Rightarrow> 'k sink" where
  "sink_set_level l k = k\<lparr>sk_level := l\<rparr>"

subsection \<open>The backtrace\<close>

record backtracer =
  bt_enabled :: bool
  bt_messages :: "log_msg_buffer circular_q"

definition new_backtracer :: backtracer where
  "new_backtracer = \<lparr>bt_enabled = False, bt_messages = cq_disabled\<rparr>"

definition backtracer_copy :: "backtracer \<Rightarrow> backtracer" where
  "backtracer_copy other = \<lparr>bt_enabled = bt_enabled other, bt_messages = bt_messages other\<rparr>"

definition backtracer_move :: "backtracer \<Rightarrow> backtracer" where
  "backtracer_move other = \<lparr>bt_enabled = bt_enabled other, bt_messages = fst (cq_copy_moveable (bt_messages other))\<rparr>"

definition bt_enable :: "nat \<Rightarrow> backtracer \<Rightarrow> backtracer" where
  "bt_enable n t = t\<lparr>bt_enabled := True, bt_messages := new_circular_q default_buffer n\<rparr>"

definition bt_disable :: "backtracer \<Rightarrow> backtracer" where
  "bt_disable t = t\<lparr>bt_enabled := False\<rparr>"

definition bt_push_back :: "log_msg \<Rightarrow> backtracer \<Rightarrow> backtracer result" where
  "bt_push_back msg t =
     rbind (cq_push_back (new_log_msg_buffer msg) (bt_messages t)) (\<lambda>q. Inr (t\<lparr>bt_messages := q\<rparr>))"

definition bt_empty :: "backtracer \<Rightarrow> bool" where
  "bt_empty t = cq_empty (bt_messages t)"


text \<open>
  The loop of \<open>foreach_pop\<close> as it runs: the visitor sees the front, which is removed afterwards, so a
  visitor that throws leaves it in the queue. \<open>None\<close> means that a visitor does not return, or that the
  queue does not become empty and the loop runs for ever.
\<close>

partial_function (option) foreach_pop ::
  "(log_msg \<Rightarrow> 'w \<Rightarrow> (unit result \<times> 'w) option) \<Rightarrow> log_msg_buffer circular_q \<Rightarrow> 'w \<Rightarrow>
   (unit result \<times> log_msg_buffer circular_q \<times> 'w) option" where
  "foreach_pop f q w =
     (if cq_empty q then Some (Inr (), q, w)
      else (case cq_front q of
          Inl e \<Rightarrow> Some (Inl e, q, w)
        | Inr b \<Rightarrow> (case f (update_string_views b) w of
              None \<Rightarrow> None
            | Some (Inl e, w1) \<Rightarrow> Some (Inl e, q, w1)
            | Some (Inr _, w1) \<Rightarrow> (case cq_pop_front q of
                  Inl e \<Rightarrow> Some (Inl e, q, w1)
                | Inr q1 \<Rightarrow> foreach_pop f q1 w1))))"

subsection \<open>The logger\<close>

text \<open>
  Sinks are shared objects: a logger holds their addresses, the world their contents. A user's error
  handler is code outside the library: what it is given is recorded, and it may throw.
\<close>

record logger =
  lg_name :: bytes
  lg_sinks :: "nat list"
  lg_level :: level_enum
  lg_flush_level :: level_enum
  lg_custom_err_handler :: "(bytes \<Rightarrow> unit result) option"
  lg_tracer :: backtracer

text \<open>
  Besides the sinks, the world holds the function-local statics of \<open>err_handler_\<close> and what it wrote to
  \<open>stderr\<close>.
\<close>

record 'k log_world =
  lw_sinks :: "nat \<Rightarrow> 'k sink"
  lw_env :: log_env
  lw_last_report_time :: int
  lw_err_counter :: nat
  lw_stderr :: bytes
  lw_err_calls :: "bytes list"

definition new_logger :: "bytes \<Rightarrow> nat list \<Rightarrow> logger" where
  "new_logger name sinks =
     \<lparr>lg_name = name, lg_sinks = sinks, lg_level = lv_info, lg_flush_level = lv_off,
      lg_custom_err_handler = None, lg_tracer = new_backtracer\<rparr>"

definition logger_copy :: "logger \<Rightarrow> logger" where
  "logger_copy other =
     \<lparr>lg_name = lg_name other, lg_sinks = lg_sinks other, lg_level = lg_level other,
      lg_flush_level = lg_flush_level other, lg_custom_err_handler = lg_custom_err_handler other,
      lg_tracer = backtracer_copy (lg_tracer other)\<rparr>"

text \<open>Field by field; the two levels go through a temporary.\<close>

definition logger_swap :: "logger \<times> logger \<Rightarrow> logger \<times> logger" where
  "logger_swap = (\<lambda>(a, b).
     let (n1, n2) = (lg_name b, lg_name a);
         (s1, s2) = (lg_sinks b, lg_sinks a);
         other_level = lg_level b; my_level = lg_level a;
         other_flush = lg_flush_level b; my_flush = lg_flush_level a
     in (a\<lparr>lg_name := n1, lg_sinks := s1, lg_level := other_level, lg_flush_level := other_flush,
           lg_custom_err_handler := lg_custom_err_handler b, lg_tracer := lg_tracer b\<rparr>,
         b\<lparr>lg_name := n2, lg_sinks := s2, lg_level := my_level, lg_flush_level := my_flush,
           lg_custom_err_handler := lg_custom_err_handler a, lg_tracer := lg_tracer a\<rparr>))"

lemma logger_swap_swaps [simp]: "logger_swap (a, b) = (b, a)"
  by (simp add: logger_swap_def)

definition set_level :: "level_enum \<Rightarrow> 'z logger_scheme \<Rightarrow> 'z logger_scheme" where
  "set_level l lg = lg\<lparr>lg_level := l\<rparr>"

definition flush_on :: "level_enum \<Rightarrow> 'z logger_scheme \<Rightarrow> 'z logger_scheme" where
  "flush_on l lg = lg\<lparr>lg_flush_level := l\<rparr>"

definition set_error_handler :: "(bytes \<Rightarrow> unit result) \<Rightarrow> 'z logger_scheme \<Rightarrow> 'z logger_scheme" where
  "set_error_handler h lg = lg\<lparr>lg_custom_err_handler := Some h\<rparr>"

definition enable_backtrace :: "nat \<Rightarrow> 'z logger_scheme \<Rightarrow> 'z logger_scheme" where
  "enable_backtrace n lg = lg\<lparr>lg_tracer := bt_enable n (lg_tracer lg)\<rparr>"

definition disable_backtrace :: "'z logger_scheme \<Rightarrow> 'z logger_scheme" where
  "disable_backtrace lg = lg\<lparr>lg_tracer := bt_disable (lg_tracer lg)\<rparr>"

definition logger_clone :: "bytes \<Rightarrow> logger \<Rightarrow> logger" where
  "logger_clone logger_name lg = (logger_copy lg)\<lparr>lg_name := logger_name\<rparr>"

definition should_log :: "level_enum \<Rightarrow> 'z logger_scheme \<Rightarrow> bool" where
  "should_log msg_level lg \<longleftrightarrow> msg_level \<ge> lg_level lg"

definition should_flush :: "log_msg \<Rightarrow> 'z logger_scheme \<Rightarrow> bool" where
  "should_flush msg lg \<longleftrightarrow> lm_level msg \<ge> lg_flush_level lg \<and> lm_level msg \<noteq> lv_off"

paragraph \<open>Errors while logging\<close>

text \<open>\<open>duration_cast\<close> to seconds drops the fraction; a string given to \<open>%s\<close> ends at its first null byte.\<close>

definition to_seconds :: "int \<Rightarrow> int" where
  "to_seconds ns = (if ns \<ge> 0 then ns div 1000000000 else - ((- ns) div 1000000000))"

definition c_str :: "bytes \<Rightarrow> bytes" where
  "c_str s = takeWhile (\<lambda>b. b \<noteq> 0) s"

definition pad_zeros :: "nat \<Rightarrow> nat \<Rightarrow> bytes" where
  "pad_zeros width n = replicate (width - length (dec_digits n)) 48 @ dec_digits n"

definition dec_int :: "int \<Rightarrow> bytes" where
  "dec_int i = (if i < 0 then 45 # dec_digits (nat (- i)) else dec_digits (nat i))"

definition err_report :: "nat \<Rightarrow> bytes \<Rightarrow> bytes \<Rightarrow> bytes \<Rightarrow> bytes" where
  "err_report counter date name msg =
     str ''[*** LOG ERROR #'' @ pad_zeros 4 counter @ str '' ***] ['' @ date @ str ''] ['' @ c_str name @
     str ''] '' @ c_str msg @ [10]"

definition err_handler :: "bytes \<Rightarrow> 'z logger_scheme \<Rightarrow> (('k, 'y) log_world_scheme, unit) op" where
  "err_handler msg lg w =
     (case lg_custom_err_handler lg of
        Some h \<Rightarrow> (h msg, w\<lparr>lw_err_calls := lw_err_calls w @ [msg]\<rparr>)
      | None \<Rightarrow>
          let now = le_now (lw_env w);
              counter = (lw_err_counter w + 1) mod size_t_range;
              w1 = w\<lparr>lw_err_counter := counter\<rparr>
          in if now - lw_last_report_time w < 1000000000 then (Inr (), w1)
             else (Inr (), w1\<lparr>lw_last_report_time := now,
               lw_stderr := lw_stderr w @ err_report counter (le_date (lw_env w) (to_seconds now)) (lg_name lg) msg\<rparr>))"

fun what :: "exn \<Rightarrow> bytes" where
  "what (out_of_range s) = str s"
| "what (runtime_error s) = str s"
| "what (invalid_argument s) = str s"
| "what broken_connection = str ''Broken connection''"
| "what (spdlog_ex s) = c_str s"

text \<open>\<open>SPDLOG_LOGGER_CATCH\<close>\<close>

definition catch_text :: "source_loc \<Rightarrow> exn \<Rightarrow> bytes" where
  "catch_text loc ex =
     (case sl_filename loc of
        Some file \<Rightarrow> what ex @ str '' ['' @ file @ str ''('' @ dec_int (sl_line loc) @ str '')]''
      | None \<Rightarrow> what ex)"

definition logger_catch ::
  "'z logger_scheme \<Rightarrow> source_loc \<Rightarrow> (('k, 'y) log_world_scheme, unit) op \<Rightarrow> (('k, 'y) log_world_scheme, unit) op" where
  "logger_catch lg loc m = scatch m (\<lambda>ex. err_handler (catch_text loc ex) lg)"

paragraph \<open>Delivery\<close>

definition on_sink :: "nat \<Rightarrow> ('k, unit) op \<Rightarrow> (('k, 'y) log_world_scheme, unit) op" where
  "on_sink k m w =
     (case m (sk_state (lw_sinks w k)) of
        (r, st) \<Rightarrow> (r, w\<lparr>lw_sinks := (lw_sinks w)(k := (lw_sinks w k)\<lparr>sk_state := st\<rparr>)\<rparr>))"

primrec each :: "('a \<Rightarrow> ('w, unit) op) \<Rightarrow> 'a list \<Rightarrow> ('w, unit) op" where
  "each f [] = sreturn ()"
| "each f (k # ks) = sbind (f k) (\<lambda>_. each f ks)"

definition logger_flush :: "'k sink_ops \<Rightarrow> 'z logger_scheme \<Rightarrow> (('k, 'y) log_world_scheme, unit) op" where
  "logger_flush ops lg = each (\<lambda>k. logger_catch lg no_source (on_sink k (so_flush ops))) (lg_sinks lg)"

definition log_to_sink ::
  "'k sink_ops \<Rightarrow> log_msg \<Rightarrow> 'z logger_scheme \<Rightarrow> nat \<Rightarrow> (('k, 'y) log_world_scheme, unit) op" where
  "log_to_sink ops msg lg k w =
     (if sink_should_log (lm_level msg) (lw_sinks w k)
      then logger_catch lg (lm_source msg) (on_sink k (so_log ops msg)) w
      else (Inr (), w))"

definition sink_it :: "'k sink_ops \<Rightarrow> log_msg \<Rightarrow> 'z logger_scheme \<Rightarrow> (('k, 'y) log_world_scheme, unit) op" where
  "sink_it ops msg lg =
     sbind (each (log_to_sink ops msg lg) (lg_sinks lg)) (\<lambda>_.
       if should_flush msg lg then logger_flush ops lg else sreturn ())"

text \<open>
  \<open>sink_it_\<close> is virtual: the functions that call it take it as an argument. An override may wait, for
  room in a queue: then it gives \<open>None\<close>, and so does its caller. What the formatting library makes of the
  arguments, text or an exception, is an argument of \<open>log_\<close>.
\<close>

type_synonym ('l, 'w) virtual_sink_it = "log_msg \<Rightarrow> 'l \<Rightarrow> 'w \<Rightarrow> (unit result \<times> 'w) option"

definition sync_sink_it :: "'k sink_ops \<Rightarrow> ('z logger_scheme, ('k, 'y) log_world_scheme) virtual_sink_it" where
  "sync_sink_it ops msg lg w = Some (sink_it ops msg lg w)"

definition log_it ::
  "('z logger_scheme, 'w) virtual_sink_it \<Rightarrow> log_msg \<Rightarrow> bool \<Rightarrow> bool \<Rightarrow> 'z logger_scheme \<Rightarrow> 'w \<Rightarrow>
   (unit result \<times> 'z logger_scheme \<times> 'w) option" where
  "log_it virt msg log_enabled traceback_enabled lg w =
     (case (if log_enabled then virt msg lg w else Some (Inr (), w)) of
       None \<Rightarrow> None
     | Some (Inl e, w1) \<Rightarrow> Some (Inl e, lg, w1)
     | Some (Inr _, w1) \<Rightarrow>
         if traceback_enabled then
           (case bt_push_back msg (lg_tracer lg) of
              Inl e \<Rightarrow> Some (Inl e, lg, w1)
            | Inr t \<Rightarrow> Some (Inr (), lg\<lparr>lg_tracer := t\<rparr>, w1))
         else Some (Inr (), lg, w1))"

definition logger_log ::
  "('z logger_scheme, ('k, 'y) log_world_scheme) virtual_sink_it \<Rightarrow> source_loc \<Rightarrow> level_enum \<Rightarrow> bytes result \<Rightarrow>
   'z logger_scheme \<Rightarrow> ('k, 'y) log_world_scheme \<Rightarrow>
   (unit result \<times> 'z logger_scheme \<times> ('k, 'y) log_world_scheme) option" where
  "logger_log virt loc lvl formatted lg w =
     (let log_enabled = should_log lvl lg; traceback_enabled = bt_enabled (lg_tracer lg) in
      if \<not> log_enabled \<and> \<not> traceback_enabled then Some (Inr (), lg, w)
      else
        (case (case formatted of
                 Inl e \<Rightarrow> Some (Inl e, lg, w)
               | Inr buf \<Rightarrow>
                   log_it virt (log_msg_now (lw_env w) loc (lg_name lg) lvl buf) log_enabled traceback_enabled lg w) of
           None \<Rightarrow> None
         | Some (Inl (Thrown ex), lg1, w1) \<Rightarrow>
             (case err_handler (catch_text loc ex) lg1 w1 of (r, w2) \<Rightarrow> Some (r, lg1, w2))
         | Some r \<Rightarrow> Some r))"

text \<open>The overloads that take a finished text: no exception is caught.\<close>

definition logger_log_at ::
  "('z logger_scheme, ('k, 'y) log_world_scheme) virtual_sink_it \<Rightarrow> int \<Rightarrow> source_loc \<Rightarrow> level_enum \<Rightarrow> bytes \<Rightarrow>
   'z logger_scheme \<Rightarrow> ('k, 'y) log_world_scheme \<Rightarrow>
   (unit result \<times> 'z logger_scheme \<times> ('k, 'y) log_world_scheme) option" where
  "logger_log_at virt log_time loc lvl msg lg w =
     (let log_enabled = should_log lvl lg; traceback_enabled = bt_enabled (lg_tracer lg) in
      if \<not> log_enabled \<and> \<not> traceback_enabled then Some (Inr (), lg, w)
      else log_it virt (new_log_msg (lw_env w) log_time loc (lg_name lg) lvl msg) log_enabled traceback_enabled lg w)"

definition logger_log_view ::
  "('z logger_scheme, ('k, 'y) log_world_scheme) virtual_sink_it \<Rightarrow> source_loc \<Rightarrow> level_enum \<Rightarrow> bytes \<Rightarrow>
   'z logger_scheme \<Rightarrow> ('k, 'y) log_world_scheme \<Rightarrow>
   (unit result \<times> 'z logger_scheme \<times> ('k, 'y) log_world_scheme) option" where
  "logger_log_view virt loc lvl msg lg w =
     (let log_enabled = should_log lvl lg; traceback_enabled = bt_enabled (lg_tracer lg) in
      if \<not> log_enabled \<and> \<not> traceback_enabled then Some (Inr (), lg, w)
      else log_it virt (log_msg_now (lw_env w) loc (lg_name lg) lvl msg) log_enabled traceback_enabled lg w)"

definition dump_backtrace ::
  "('z logger_scheme, ('k, 'y) log_world_scheme) virtual_sink_it \<Rightarrow> 'z logger_scheme \<Rightarrow> ('k, 'y) log_world_scheme \<Rightarrow>
   (unit result \<times> 'z logger_scheme \<times> ('k, 'y) log_world_scheme) option" where
  "dump_backtrace virt lg w =
     (if bt_enabled (lg_tracer lg) \<and> \<not> bt_empty (lg_tracer lg) then
        (case virt (log_msg_plain (lw_env w) (lg_name lg) lv_info
                (str ''****************** Backtrace Start ******************'')) lg w of
           None \<Rightarrow> None
         | Some (Inl e, w1) \<Rightarrow> Some (Inl e, lg, w1)
         | Some (Inr _, w1) \<Rightarrow>
             (case foreach_pop (\<lambda>msg. virt msg lg) (bt_messages (lg_tracer lg)) w1 of
                None \<Rightarrow> None
              | Some (r, q, w2) \<Rightarrow>
                  let lg1 = lg\<lparr>lg_tracer := (lg_tracer lg)\<lparr>bt_messages := q\<rparr>\<rparr> in
                  (case r of
                     Inl e \<Rightarrow> Some (Inl e, lg1, w2)
                   | Inr _ \<Rightarrow>
                       (case virt (log_msg_plain (lw_env w2) (lg_name lg1) lv_info
                               (str ''****************** Backtrace End ********************'')) lg1 w2 of
                          None \<Rightarrow> None
                        | Some (r, w3) \<Rightarrow> Some (r, lg1, w3)))))
      else Some (Inr (), lg, w))"

subsection \<open>What a logger needs of its sinks\<close>

text \<open>
  A sink may throw, but it must not run into undefined behaviour. Then a logger with the default
  error handler always returns, and each sink sees what it would see if it were the only one.
\<close>

definition sink_after :: "'k sink_ops \<Rightarrow> log_msg \<Rightarrow> bool \<Rightarrow> 'k sink \<Rightarrow> 'k sink" where
  "sink_after ops msg flushed s =
     (let s1 = (if sink_should_log (lm_level msg) s then s\<lparr>sk_state := snd (so_log ops msg (sk_state s))\<rparr> else s)
      in if flushed then s1\<lparr>sk_state := snd (so_flush ops (sk_state s1))\<rparr> else s1)"

lemma each_append: "each f (xs @ ys) = sbind (each f xs) (\<lambda>_. each f ys)"
  by (induction xs) (auto simp: fun_eq_iff op_defs split: prod.splits sum.splits)

lemma each_total:
  assumes "\<And>x u. I u \<Longrightarrow> \<exists>u'. f x u = (Inr (), u') \<and> I u'" "I w"
  shows "\<exists>w'. each f xs w = (Inr (), w') \<and> I w'"
  using assms(2)
proof (induction xs arbitrary: w)
  case (Cons x xs)
  then show ?case using assms(1)[OF Cons.prems, of x] by auto
qed (simp add: sreturn_def)

lemma err_handler_default:
  assumes "lg_custom_err_handler lg = None"
  shows "\<exists>w1. err_handler msg lg w = (Inr (), w1) \<and> lw_sinks w1 = lw_sinks w \<and> lw_env w1 = lw_env w"
  using assms by (simp add: err_handler_def Let_def)

text \<open>Delivery does not look at the backtrace.\<close>

lemma err_handler_tracer [simp]: "err_handler msg (lg\<lparr>lg_tracer := t\<rparr>) = err_handler msg lg"
  by (cases "lg_custom_err_handler lg") (simp_all add: fun_eq_iff err_handler_def Let_def)

lemma log_to_sink_tracer [simp]: "log_to_sink ops msg (lg\<lparr>lg_tracer := t\<rparr>) = log_to_sink ops msg lg"
  by (simp add: fun_eq_iff log_to_sink_def logger_catch_def)

lemma sink_it_tracer [simp]: "sink_it ops msg (lg\<lparr>lg_tracer := t\<rparr>) = sink_it ops msg lg"
  by (simp add: sink_it_def logger_catch_def logger_flush_def should_flush_def)

lemma sync_sink_it_tracer [simp]: "sync_sink_it ops msg (lg\<lparr>lg_tracer := t\<rparr>) = sync_sink_it ops msg lg"
  by (simp add: sync_sink_it_def fun_eq_iff)

locale sink_contract =
  fixes ops :: "'k sink_ops"
  assumes log_defined: "fst (so_log ops msg st) \<noteq> Inl Undefined"
    and flush_defined: "fst (so_flush ops st) \<noteq> Inl Undefined"
begin

lemma guarded_sink:
  assumes "lg_custom_err_handler lg = None" "fst (m (sk_state (lw_sinks w k))) \<noteq> Inl Undefined"
  shows "\<exists>w1. logger_catch lg loc (on_sink k m) w = (Inr (), w1) \<and> lw_env w1 = lw_env w \<and>
    lw_sinks w1 = (lw_sinks w)(k := (lw_sinks w k)\<lparr>sk_state := snd (m (sk_state (lw_sinks w k)))\<rparr>)"
proof (cases "m (sk_state (lw_sinks w k))")
  case (Pair r st)
  show ?thesis
  proof (cases r)
    case (Inl e)
    then obtain ex where "e = Thrown ex" using assms(2) Pair by (cases e) auto
    then show ?thesis
      using err_handler_default[OF assms(1)] Pair Inl by (force simp: logger_catch_def scatch_def on_sink_def)
  next
    case (Inr u)
    then show ?thesis using Pair by (simp add: logger_catch_def scatch_def on_sink_def)
  qed
qed

lemma each_guarded:
  assumes "lg_custom_err_handler lg = None" "distinct ks"
    and f: "\<And>k w. \<exists>w1. f k w = (Inr (), w1) \<and> lw_env w1 = lw_env w \<and> lw_sinks w1 = (lw_sinks w)(k := g (lw_sinks w k))"
  shows "\<exists>w1. each f ks w = (Inr (), w1) \<and> lw_env w1 = lw_env w \<and>
    (\<forall>k. lw_sinks w1 k = (if k \<in> set ks then g (lw_sinks w k) else lw_sinks w k))"
  using assms(2)
proof (induction ks arbitrary: w)
  case (Cons k ks)
  obtain w1 where 1: "f k w = (Inr (), w1)" "lw_env w1 = lw_env w" "lw_sinks w1 = (lw_sinks w)(k := g (lw_sinks w k))"
    using f by blast
  obtain w2 where "each f ks w1 = (Inr (), w2)" "lw_env w2 = lw_env w1"
      "\<forall>k. lw_sinks w2 k = (if k \<in> set ks then g (lw_sinks w1 k) else lw_sinks w1 k)"
    using Cons by (metis distinct.simps(2))
  then show ?case using 1 Cons.prems by (intro exI[of _ w2]) auto
qed (simp add: sreturn_def)

lemma sink_it_total:
  assumes "lg_custom_err_handler lg = None" "distinct (lg_sinks lg)"
  shows "\<exists>w1. sink_it ops msg lg w = (Inr (), w1) \<and> lw_env w1 = lw_env w \<and>
    (\<forall>k. lw_sinks w1 k =
       (if k \<in> set (lg_sinks lg) then sink_after ops msg (should_flush msg lg) (lw_sinks w k) else lw_sinks w k))"
proof -
  define g where "g s = sink_after ops msg False s" for s
  define h where "h s = s\<lparr>sk_state := snd (so_flush ops (sk_state s))\<rparr>" for s :: "'k sink"
  have "\<exists>w1. log_to_sink ops msg lg k w = (Inr (), w1) \<and> lw_env w1 = lw_env w \<and>
      lw_sinks w1 = (lw_sinks w)(k := g (lw_sinks w k))" for k and w :: "('k, 'b) log_world_scheme"
    using guarded_sink[OF assms(1) log_defined] by (auto simp: log_to_sink_def g_def sink_after_def)
  from each_guarded[OF assms this, of w] obtain w1 where
    1: "each (log_to_sink ops msg lg) (lg_sinks lg) w = (Inr (), w1)" "lw_env w1 = lw_env w"
      "\<forall>k. lw_sinks w1 k = (if k \<in> set (lg_sinks lg) then g (lw_sinks w k) else lw_sinks w k)"
    by blast
  have "\<exists>w1. logger_catch lg no_source (on_sink k (so_flush ops)) w = (Inr (), w1) \<and> lw_env w1 = lw_env w \<and>
      lw_sinks w1 = (lw_sinks w)(k := h (lw_sinks w k))" for k and w :: "('k, 'b) log_world_scheme"
    using guarded_sink[OF assms(1) flush_defined] by (simp add: h_def)
  from each_guarded[OF assms this, of w1] obtain w2 where
    2: "logger_flush ops lg w1 = (Inr (), w2)" "lw_env w2 = lw_env w1"
      "\<forall>k. lw_sinks w2 k = (if k \<in> set (lg_sinks lg) then h (lw_sinks w1 k) else lw_sinks w1 k)"
    by (auto simp: logger_flush_def)
  show ?thesis
  proof (cases "should_flush msg lg")
    case True
    then show ?thesis
      using 1 2 by (intro exI[of _ w2]) (simp add: sink_it_def g_def h_def sink_after_def Let_def)
  next
    case False
    then show ?thesis
      using 1 by (intro exI[of _ w1]) (simp add: sink_it_def g_def sreturn_def)
  qed
qed

end

subsection \<open>The backtrace loop ends\<close>

lemma foreach_pop_each:
  assumes "cq_wf q" "0 < cq_max_items q"
  shows "\<exists>q'. foreach_pop (\<lambda>x w. Some (f x w)) q w =
      Some (fst (each f (map update_string_views (cq_contents q)) w), q',
            snd (each f (map update_string_views (cq_contents q)) w)) \<and>
    cq_wf q' \<and> cq_max_items q' = cq_max_items q \<and>
    (fst (each f (map update_string_views (cq_contents q)) w) = Inr () \<longrightarrow> cq_contents q' = [])"
  using assms
proof (induction "cq_contents q" arbitrary: q w)
  case Nil
  then show ?case using cq_empty_iff[of q] by (subst foreach_pop.simps) (simp add: sreturn_def)
next
  case (Cons b bs)
  then have ne: "cq_contents q \<noteq> []" "\<not> cq_empty q" using cq_empty_iff[of q] by auto
  let ?q1 = "q\<lparr>cq_head := (cq_head q + 1) mod cq_max_items q\<rparr>"
  have p: "cq_front q = Inr b" "cq_pop_front q = Inr ?q1" "cq_wf ?q1" "cq_contents ?q1 = bs"
    using cq_pop_nonempty[OF Cons.prems(1) ne(1)] Cons.hyps(2)[symmetric] by auto
  obtain r w1 where fw: "f (update_string_views b) w = (r, w1)" by fastforce
  show ?case
  proof (cases r)
    case (Inl e)
    then show ?thesis
      using ne p(1) fw Cons.hyps(2)[symmetric] Cons.prems by (subst foreach_pop.simps) simp
  next
    case (Inr u)
    then show ?thesis
      using Cons.hyps(1)[of ?q1 w1] p ne(2) fw Cons.prems Cons.hyps(2)[symmetric]
      by (subst foreach_pop.simps) simp
  qed
qed


context sink_contract
begin

lemma logger_log_traced:
  assumes "lg_custom_err_handler lg = None" "distinct (lg_sinks lg)" "bt_enabled (lg_tracer lg)"
    and q: "cq_wf (bt_messages (lg_tracer lg))" "0 < cq_max_items (bt_messages (lg_tracer lg))"
  shows "\<exists>t w1. logger_log (sync_sink_it ops) loc lvl (Inr body) lg w = Some (Inr (), lg\<lparr>lg_tracer := t\<rparr>, w1) \<and>
    lw_env w1 = lw_env w \<and> bt_enabled t \<and> cq_wf (bt_messages t) \<and>
    cq_max_items (bt_messages t) = cq_max_items (bt_messages (lg_tracer lg)) \<and>
    cq_contents (bt_messages t) =
      newest (cq_capacity (bt_messages (lg_tracer lg)))
        (cq_contents (bt_messages (lg_tracer lg)) @ [new_log_msg_buffer (log_msg_now (lw_env w) loc (lg_name lg) lvl body)])"
proof -
  let ?m = "log_msg_now (lw_env w) loc (lg_name lg) lvl body"
  obtain q' where p: "cq_push_back (new_log_msg_buffer ?m) (bt_messages (lg_tracer lg)) = Inr q'"
    using cq.push_law[OF q(1)] by blast
  obtain w1 where "(if should_log lvl lg then sink_it ops ?m lg w else (Inr (), w)) = (Inr (), w1)" "lw_env w1 = lw_env w"
    using sink_it_total[OF assms(1,2), of ?m w] by (cases "should_log lvl lg") auto
  then show ?thesis
    using assms(3) p push_back_counts[OF q p]
    by (intro exI[of _ "(lg_tracer lg)\<lparr>bt_messages := q'\<rparr>"] exI[of _ w1])
      (auto simp: logger_log_def sync_sink_it_def log_it_def bt_push_back_def split: if_splits)
qed

end

lemma newest_newest: "newest n (newest n xs @ ys) = newest n (xs @ ys)"
  by (cases "length xs \<le> n") (simp_all add: newest_def add.commute)

lemma newest_map: "newest n (map f xs) = map f (newest n xs)"
  by (simp add: newest_def drop_map)

text \<open>The calls of the program on one logger, in order.\<close>

fun logger_calls ::
  "'k sink_ops \<Rightarrow> (source_loc \<times> level_enum \<times> bytes) list \<Rightarrow> logger \<Rightarrow> 'k log_world \<Rightarrow>
   (unit result \<times> logger \<times> 'k log_world) option" where
  "logger_calls ops [] lg w = Some (Inr (), lg, w)"
| "logger_calls ops ((loc, lvl, body) # ms) lg w =
     (case logger_log (sync_sink_it ops) loc lvl (Inr body) lg w of
        Some (Inr _, lg1, w1) \<Rightarrow> logger_calls ops ms lg1 w1
      | r \<Rightarrow> r)"

context sink_contract
begin

lemma logger_calls_traced:
  assumes "lg_custom_err_handler lg = None" "distinct (lg_sinks lg)" "bt_enabled (lg_tracer lg)"
    and "cq_wf (bt_messages (lg_tracer lg))" "cq_max_items (bt_messages (lg_tracer lg)) = Suc n"
  shows "\<exists>t w1. logger_calls ops ms lg w = Some (Inr (), lg\<lparr>lg_tracer := t\<rparr>, w1) \<and>
    lw_env w1 = lw_env w \<and> bt_enabled t \<and> cq_wf (bt_messages t) \<and> cq_max_items (bt_messages t) = Suc n \<and>
    cq_contents (bt_messages t) =
      newest n (cq_contents (bt_messages (lg_tracer lg)) @
        map (\<lambda>(loc, lvl, body). new_log_msg_buffer (log_msg_now (lw_env w) loc (lg_name lg) lvl body)) ms)"
  using assms
proof (induction ms arbitrary: lg w)
  case Nil
  then have "length (cq_contents (bt_messages (lg_tracer lg))) \<le> n"
    using cq.bounded[of "bt_messages (lg_tracer lg)"] by (simp add: cq_capacity_def)
  then show ?case using Nil
    by (intro exI[of _ "lg_tracer lg"] exI[of _ w]) (simp add: newest_def)
next
  case (Cons m ms)
  obtain loc lvl body where m: "m = (loc, lvl, body)" by (cases m)
  have "0 < cq_max_items (bt_messages (lg_tracer lg))" using Cons.prems by simp
  from logger_log_traced[OF Cons.prems(1-4) this, of loc lvl body w] obtain t w1 where
    1: "logger_log (sync_sink_it ops) loc lvl (Inr body) lg w = Some (Inr (), lg\<lparr>lg_tracer := t\<rparr>, w1)"
      "lw_env w1 = lw_env w" "bt_enabled t" "cq_wf (bt_messages t)" "cq_max_items (bt_messages t) = Suc n"
      "cq_contents (bt_messages t) = newest n (cq_contents (bt_messages (lg_tracer lg)) @
         [new_log_msg_buffer (log_msg_now (lw_env w) loc (lg_name lg) lvl body)])"
    using Cons.prems(5) by (auto simp: cq_capacity_def)
  show ?case
    using Cons.IH[of "lg\<lparr>lg_tracer := t\<rparr>" w1] Cons.prems(1,2) 1
    by (auto simp: m newest_newest)
qed

end

abbreviation backtrace_start :: "log_env \<Rightarrow> bytes \<Rightarrow> log_msg" where
  "backtrace_start e name \<equiv>
     log_msg_plain e name lv_info (str ''****************** Backtrace Start ******************'')"

abbreviation backtrace_end :: "log_env \<Rightarrow> bytes \<Rightarrow> log_msg" where
  "backtrace_end e name \<equiv>
     log_msg_plain e name lv_info (str ''****************** Backtrace End ********************'')"

text \<open>A sink that keeps what it is given and then throws, in a world where nothing has been logged.\<close>

definition recording_sink :: "log_msg list sink_ops" where
  "recording_sink = \<lparr>so_log = (\<lambda>m st. (Inl (Thrown (spdlog_ex [])), st @ [m])), so_flush = (\<lambda>st. (Inr (), st))\<rparr>"

definition quiet_world :: "'k \<Rightarrow> 'k log_world" where
  "quiet_world st =
     \<lparr>lw_sinks = (\<lambda>_. new_sink st), lw_env = \<lparr>le_now = 0, le_thread_id = 0, le_date = (\<lambda>_. [])\<rparr>,
      lw_last_report_time = 0, lw_err_counter = 0, lw_stderr = [], lw_err_calls = []\<rparr>"

text \<open>
  C28. The backtrace replays the last messages and its loop ends. After a backtrace of \<open>n\<close> messages is
  enabled on a logger with the default error handler and \<open>ms\<close> is logged, whatever the levels, dumping it
  returns; the sinks are given the start line, the last \<open>n\<close> messages of \<open>ms\<close> in order and the end line, and
  nothing else, also when sinks throw; afterwards the backtrace is empty.
\<close>

theorem backtrace_replays:
  fixes ops :: "'k sink_ops" and w :: "'k log_world"
  assumes "0 < n" "n + 1 < size_t_range" "ms \<noteq> []"
    and "lg_custom_err_handler lg = None" "distinct (lg_sinks lg)"
    and "\<And>msg st. fst (so_log ops msg st) \<noteq> Inl Undefined" "\<And>st. fst (so_flush ops st) \<noteq> Inl Undefined"
  defines "replay \<equiv> backtrace_start (lw_env w) (lg_name lg) #
    newest n (map (\<lambda>(loc, lvl, body). log_msg_now (lw_env w) loc (lg_name lg) lvl body) ms) @
    [backtrace_end (lw_env w) (lg_name lg)]"
  shows "\<exists>lg1 w1 lg2 w2. logger_calls ops ms (enable_backtrace n lg) w = Some (Inr (), lg1, w1) \<and>
    dump_backtrace (sync_sink_it ops) lg1 w1 = Some (Inr (), lg2, w2) \<and>
    each (\<lambda>msg. sink_it ops msg lg) replay w1 = (Inr (), w2) \<and> bt_empty (lg_tracer lg2)"
proof -
  have c: "sink_contract ops" using assms(6,7) by (simp add: sink_contract_def)
  let ?lg = "enable_backtrace n lg"
  have q: "cq_wf (bt_messages (lg_tracer ?lg))" "cq_max_items (bt_messages (lg_tracer ?lg)) = Suc n"
      "cq_contents (bt_messages (lg_tracer ?lg)) = []"
    using cq_circular[OF assms(2), of default_buffer] assms(2)
    by (auto simp: enable_backtrace_def bt_enable_def new_circular_q_def cq_disabled_def Let_def)
  have "lg_custom_err_handler ?lg = None" "distinct (lg_sinks ?lg)" "bt_enabled (lg_tracer ?lg)"
    using assms(4,5) by (simp_all add: enable_backtrace_def bt_enable_def)
  from sink_contract.logger_calls_traced[OF c this q(1,2), of ms w] q(3) obtain t w1 where
    1: "logger_calls ops ms ?lg w = Some (Inr (), ?lg\<lparr>lg_tracer := t\<rparr>, w1)"
      "lw_env w1 = lw_env w" "bt_enabled t" "cq_wf (bt_messages t)" "cq_max_items (bt_messages t) = Suc n"
      "cq_contents (bt_messages t) =
        newest n (map (\<lambda>(loc, lvl, body). new_log_msg_buffer (log_msg_now (lw_env w) loc (lg_name lg) lvl body)) ms)"
    by (auto simp: enable_backtrace_def)
  have lg1: "?lg\<lparr>lg_tracer := t\<rparr> = lg\<lparr>lg_tracer := t\<rparr>" by (simp add: enable_backtrace_def)
  let ?mid = "newest n (map (\<lambda>(loc, lvl, body). log_msg_now (lw_env w) loc (lg_name lg) lvl body) ms)"
  have mid: "map update_string_views (cq_contents (bt_messages t)) = ?mid"
    by (simp add: 1(6) flip: newest_map) (simp add: comp_def case_prod_unfold)
  have ne: "\<not> bt_empty t"
    using assms(1,3) 1(4,6) by (cases ms) (auto simp: bt_empty_def cq_empty_iff newest_def)
  have tot: "\<exists>w'. sink_it ops m lg u = (Inr (), w') \<and> lw_env w' = lw_env u" for m u
    using sink_contract.sink_it_total[OF c assms(4,5)] by blast
  obtain a where a: "sink_it ops (backtrace_start (lw_env w) (lg_name lg)) lg w1 = (Inr (), a)" "lw_env a = lw_env w"
    using tot 1(2) by metis
  obtain b where b: "each (\<lambda>msg. sink_it ops msg lg) ?mid a = (Inr (), b)" "lw_env b = lw_env w"
    using each_total[where f = "\<lambda>msg. sink_it ops msg lg" and I = "\<lambda>u. lw_env u = lw_env w", of a ?mid] tot a(2) by metis
  obtain d where d: "sink_it ops (backtrace_end (lw_env w) (lg_name lg)) lg b = (Inr (), d)"
    using tot by blast
  obtain q' where q': "foreach_pop (\<lambda>msg. sync_sink_it ops msg lg) (bt_messages t) a = Some (Inr (), q', b)"
      "cq_wf q'" "cq_contents q' = []"
    using foreach_pop_each[OF 1(4), of "\<lambda>msg. sink_it ops msg lg" a] b(1) 1(5)
    by (auto simp: mid sync_sink_it_def[abs_def])
  have "dump_backtrace (sync_sink_it ops) (lg\<lparr>lg_tracer := t\<rparr>) w1 =
      Some (Inr (), lg\<lparr>lg_tracer := t\<lparr>bt_messages := q'\<rparr>\<rparr>, d)"
    using 1(2,3) ne a b d q' by (simp add: dump_backtrace_def sync_sink_it_def)
  moreover have "each (\<lambda>msg. sink_it ops msg lg) replay w1 = (Inr (), d)"
    using a b d by (simp add: replay_def each_append sreturn_def)
  moreover have "bt_empty (t\<lparr>bt_messages := q'\<rparr>)" using cq_empty_iff[OF q'(2)] q'(3) by (simp add: bt_empty_def)
  ultimately show ?thesis using 1(1) lg1 by auto
qed

theorem backtrace_replays_witness:
  "\<exists>lg1 w1 lg2 w2.
     logger_calls recording_sink [(no_source, lv_debug, [65]), (no_source, lv_debug, [66])]
       (enable_backtrace 1 (new_logger [] [0])) (quiet_world []) = Some (Inr (), lg1, w1) \<and>
     dump_backtrace (sync_sink_it recording_sink) lg1 w1 = Some (Inr (), lg2, w2) \<and> bt_empty (lg_tracer lg2)"
  using backtrace_replays[of 1 "[(no_source, lv_debug, [65]), (no_source, lv_debug, [66])]" "new_logger [] [0]"
      recording_sink "quiet_world []"]
  by (simp add: size_t_range_def new_logger_def recording_sink_def) blast

end
