(* ===== verification/Blocking_Queue.thy ===== *)
theory Blocking_Queue
  imports Circular_Queue
begin

text \<open>
  \<open>deps/spdlog-1.15.3/include/spdlog/details/mpmc_blocking_q.h\<close>: the queue between the threads that log
  and the thread that writes the log. A section that holds the mutex is one step; \<open>None\<close> means that
  the caller waits for a condition variable. Both variants of the class (for mingw and otherwise)
  run the same sections and differ only in whether a notification is sent before or after unlocking.
\<close>

subsection \<open>Operations\<close>

record 'a mpmc =
  mq_q :: "'a circular_q"
  mq_discard_counter :: nat

definition mpmc_blocking_queue :: "'a \<Rightarrow> nat \<Rightarrow> 'a mpmc" where
  "mpmc_blocking_queue dflt max_items = \<lparr>mq_q = new_circular_q dflt max_items, mq_discard_counter = 0\<rparr>"

definition mq_push :: "'a \<Rightarrow> 'a mpmc \<Rightarrow> 'a mpmc result" where
  "mq_push item m = rbind (cq_push_back item (mq_q m)) (\<lambda>q. Inr (m\<lparr>mq_q := q\<rparr>))"

definition enqueue :: "'a \<Rightarrow> 'a mpmc \<Rightarrow> 'a mpmc result option" where
  "enqueue item m = (if cq_full (mq_q m) then None else Some (mq_push item m))"

definition enqueue_nowait :: "'a \<Rightarrow> 'a mpmc \<Rightarrow> 'a mpmc result" where
  "enqueue_nowait item m = mq_push item m"

definition enqueue_if_have_room :: "'a \<Rightarrow> 'a mpmc \<Rightarrow> 'a mpmc result" where
  "enqueue_if_have_room item m =
     (if \<not> cq_full (mq_q m) then mq_push item m
      else Inr (m\<lparr>mq_discard_counter := (mq_discard_counter m + 1) mod size_t_range\<rparr>))"

definition mq_pop :: "'a mpmc \<Rightarrow> ('a \<times> 'a mpmc) result" where
  "mq_pop m =
     rbind (cq_front (mq_q m)) (\<lambda>x.
     rbind (cq_pop_front (mq_q m)) (\<lambda>q. Inr (x, m\<lparr>mq_q := q\<rparr>)))"

definition dequeue :: "'a mpmc \<Rightarrow> ('a \<times> 'a mpmc) result option" where
  "dequeue m = (if cq_empty (mq_q m) then None else Some (mq_pop m))"

text \<open>With a timeout, a call on an empty queue returns false once the time is over.\<close>

definition dequeue_for :: "bool \<Rightarrow> 'a mpmc \<Rightarrow> ('a option \<times> 'a mpmc) result option" where
  "dequeue_for timed_out m =
     (if cq_empty (mq_q m) then (if timed_out then Some (Inr (None, m)) else None)
      else Some (rbind (mq_pop m) (\<lambda>(x, m'). Inr (Some x, m'))))"

definition mq_overrun_counter :: "'a mpmc \<Rightarrow> nat" where
  "mq_overrun_counter m = cq_overrun_counter (mq_q m)"

definition mq_discard_count :: "'a mpmc \<Rightarrow> nat" where
  "mq_discard_count m = mq_discard_counter m"

definition mq_size :: "'a mpmc \<Rightarrow> nat" where
  "mq_size m = cq_size (mq_q m)"

definition mq_reset_overrun_counter :: "'a mpmc \<Rightarrow> 'a mpmc" where
  "mq_reset_overrun_counter m = m\<lparr>mq_q := cq_reset_overrun_counter (mq_q m)\<rparr>"

definition mq_reset_discard_counter :: "'a mpmc \<Rightarrow> 'a mpmc" where
  "mq_reset_discard_counter m = m\<lparr>mq_discard_counter := 0\<rparr>"

subsection \<open>Threads\<close>

text \<open>
  Producers call \<open>enqueue\<close>, consumers call \<open>dequeue\<close>. A thread is awake when it has yet to look at the
  queue (it has just called, or has been woken), and asleep while it waits for its condition
  variable. \<open>ms_push_notify\<close> and \<open>ms_pop_notify\<close> count the threads that have left their section and have
  yet to call \<open>notify_one\<close>. \<open>ms_accepted\<close> and \<open>ms_taken\<close> record what entered and what left the queue.
\<close>

record 'a mq_sys =
  ms_m :: "'a mpmc"
  ms_prod_awake :: "'a list"
  ms_prod_asleep :: "'a list"
  ms_cons_awake :: nat
  ms_cons_asleep :: nat
  ms_push_notify :: nat
  ms_pop_notify :: nat
  ms_accepted :: "'a list"
  ms_taken :: "'a list"

definition mq_start :: "'a \<Rightarrow> nat \<Rightarrow> 'a mq_sys" where
  "mq_start d n =
     \<lparr>ms_m = mpmc_blocking_queue d n, ms_prod_awake = [], ms_prod_asleep = [], ms_cons_awake = 0,
      ms_cons_asleep = 0, ms_push_notify = 0, ms_pop_notify = 0, ms_accepted = [], ms_taken = []\<rparr>"

definition wake_consumer :: "'a mq_sys \<Rightarrow> 'a mq_sys" where
  "wake_consumer s =
     (if ms_cons_asleep s = 0 then s
      else s\<lparr>ms_cons_asleep := ms_cons_asleep s - 1, ms_cons_awake := ms_cons_awake s + 1\<rparr>)"

definition wake_producer :: "nat \<Rightarrow> 'a mq_sys \<Rightarrow> 'a mq_sys" where
  "wake_producer i s =
     (if i < length (ms_prod_asleep s)
      then s\<lparr>ms_prod_asleep := take i (ms_prod_asleep s) @ drop (Suc i) (ms_prod_asleep s),
             ms_prod_awake := ms_prod_awake s @ [ms_prod_asleep s ! i]\<rparr>
      else s)"

text \<open>
  Which waiting thread a notification wakes is not determined, and a thread may wake without one.
\<close>

inductive mq_step :: "'a mq_sys \<Rightarrow> 'a mq_sys \<Rightarrow> bool" where
  call_enqueue: "mq_step s (s\<lparr>ms_prod_awake := ms_prod_awake s @ [x]\<rparr>)"
| call_dequeue: "mq_step s (s\<lparr>ms_cons_awake := ms_cons_awake s + 1\<rparr>)"
| enqueued: "ms_prod_awake s = as @ x # bs \<Longrightarrow> enqueue x (ms_m s) = Some (Inr m) \<Longrightarrow>
    mq_step s (s\<lparr>ms_m := m, ms_prod_awake := as @ bs, ms_push_notify := ms_push_notify s + 1,
      ms_accepted := ms_accepted s @ [x]\<rparr>)"
| enqueue_waits: "ms_prod_awake s = as @ x # bs \<Longrightarrow> enqueue x (ms_m s) = None \<Longrightarrow>
    mq_step s (s\<lparr>ms_prod_awake := as @ bs, ms_prod_asleep := ms_prod_asleep s @ [x]\<rparr>)"
| push_notifies: "ms_push_notify s = Suc k \<Longrightarrow> mq_step s (wake_consumer (s\<lparr>ms_push_notify := k\<rparr>))"
| dequeued: "ms_cons_awake s = Suc k \<Longrightarrow> dequeue (ms_m s) = Some (Inr (x, m)) \<Longrightarrow>
    mq_step s (s\<lparr>ms_m := m, ms_cons_awake := k, ms_pop_notify := ms_pop_notify s + 1, ms_taken := ms_taken s @ [x]\<rparr>)"
| dequeue_waits: "ms_cons_awake s = Suc k \<Longrightarrow> dequeue (ms_m s) = None \<Longrightarrow>
    mq_step s (s\<lparr>ms_cons_awake := k, ms_cons_asleep := ms_cons_asleep s + 1\<rparr>)"
| pop_notifies: "ms_pop_notify s = Suc k \<Longrightarrow> ms_prod_asleep s = [] \<or> i < length (ms_prod_asleep s) \<Longrightarrow>
    mq_step s (wake_producer i (s\<lparr>ms_pop_notify := k\<rparr>))"
| spurious_consumer: "mq_step s (wake_consumer s)"
| spurious_producer: "mq_step s (wake_producer i s)"

inductive mq_reach :: "'a mq_sys \<Rightarrow> 'a mq_sys \<Rightarrow> bool" for s0 where
  init: "mq_reach s0 s0"
| step: "mq_reach s0 s \<Longrightarrow> mq_step s s' \<Longrightarrow> mq_reach s0 s'"

subsection \<open>The invariant\<close>

abbreviation waiting_items :: "'a mq_sys \<Rightarrow> 'a list" where
  "waiting_items s \<equiv> cq_contents (mq_q (ms_m s))"

text \<open>
  While a consumer sleeps, every item in the queue is accounted for by a consumer that is awake or a
  notification that is due; while a producer sleeps, so is every free slot.
\<close>

definition mq_inv :: "nat \<Rightarrow> 'a mq_sys \<Rightarrow> bool" where
  "mq_inv n s \<longleftrightarrow> cq_wf (mq_q (ms_m s)) \<and> cq_max_items (mq_q (ms_m s)) = Suc n \<and>
     ms_accepted s = ms_taken s @ waiting_items s \<and>
     (ms_cons_asleep s > 0 \<longrightarrow> length (waiting_items s) \<le> ms_cons_awake s + ms_push_notify s) \<and>
     (ms_prod_asleep s \<noteq> [] \<longrightarrow> n \<le> length (waiting_items s) + length (ms_prod_awake s) + ms_pop_notify s)"

lemma enqueue_cases:
  assumes "cq_wf (mq_q m)" "cq_max_items (mq_q m) = Suc n"
  shows "if length (cq_contents (mq_q m)) = n then enqueue x m = None
    else \<exists>m'. enqueue x m = Some (Inr m') \<and> cq_wf (mq_q m') \<and> cq_max_items (mq_q m') = Suc n \<and>
      cq_contents (mq_q m') = cq_contents (mq_q m) @ [x]"
proof -
  have c: "cq_capacity (mq_q m) = n" using assms(2) by (simp add: cq_capacity_def)
  have f: "cq_full (mq_q m) \<longleftrightarrow> length (cq_contents (mq_q m)) = n"
    using cq_full_iff[OF assms(1)] assms(2) c by simp
  show ?thesis
  proof (cases "length (cq_contents (mq_q m)) = n")
    case False
    then have "length (cq_contents (mq_q m)) < cq_capacity (mq_q m)"
      using cq.bounded[OF assms(1)] c by simp
    then obtain q where q: "cq_push_back x (mq_q m) = Inr q" "cq_contents q = cq_contents (mq_q m) @ [x]" "cq_wf q"
      using cq.push_room[OF assms(1), of x] by blast
    have "cq_max_items q = Suc n" using push_back_counts[OF assms(1) _ q(1)] assms(2) by simp
    then show ?thesis using False f q by (simp add: enqueue_def mq_push_def)
  qed (simp add: enqueue_def f)
qed

lemma dequeue_cases:
  assumes "cq_wf (mq_q m)" "cq_max_items (mq_q m) = Suc n"
  shows "case cq_contents (mq_q m) of [] \<Rightarrow> dequeue m = None
    | x # xs \<Rightarrow> \<exists>m'. dequeue m = Some (Inr (x, m')) \<and> cq_wf (mq_q m') \<and> cq_max_items (mq_q m') = Suc n \<and>
        cq_contents (mq_q m') = xs"
proof (cases "cq_contents (mq_q m)")
  case Nil
  then show ?thesis using cq_empty_iff[OF assms(1)] by (simp add: dequeue_def)
next
  case (Cons x xs)
  then have "cq_contents (mq_q m) \<noteq> []" by simp
  note p = cq_pop_nonempty[OF assms(1) this]
  show ?thesis
    using Cons p cq_empty_iff[OF assms(1)] assms(2) by (simp add: dequeue_def mq_pop_def)
qed

lemma wake_consumer_inv: "mq_inv n s \<Longrightarrow> mq_inv n (wake_consumer s)"
  by (auto simp: mq_inv_def wake_consumer_def)

lemma wake_producer_inv: "mq_inv n s \<Longrightarrow> mq_inv n (wake_producer i s)"
  by (auto simp: mq_inv_def wake_producer_def)

lemma mq_step_inv: "mq_step s s' \<Longrightarrow> mq_inv n s \<Longrightarrow> mq_inv n s'"
proof (induction rule: mq_step.induct)
  case (enqueued s as x bs m)
  have w: "cq_wf (mq_q (ms_m s))" "cq_max_items (mq_q (ms_m s)) = Suc n" using enqueued.prems by (simp_all add: mq_inv_def)
  show ?case
    using enqueue_cases[OF w, of x] enqueued by (auto simp: mq_inv_def simp del: length_contents split: if_splits)
next
  case (enqueue_waits s as x bs)
  have w: "cq_wf (mq_q (ms_m s))" "cq_max_items (mq_q (ms_m s)) = Suc n" using enqueue_waits.prems by (simp_all add: mq_inv_def)
  show ?case
    using enqueue_cases[OF w, of x] enqueue_waits by (auto simp: mq_inv_def simp del: length_contents split: if_splits)
next
  case (push_notifies s k)
  then show ?case by (auto simp: mq_inv_def wake_consumer_def)
next
  case (dequeued s k x m)
  have w: "cq_wf (mq_q (ms_m s))" "cq_max_items (mq_q (ms_m s)) = Suc n" using dequeued.prems by (simp_all add: mq_inv_def)
  show ?case
    using dequeue_cases[OF w] dequeued by (cases "waiting_items s") (auto simp: mq_inv_def simp del: length_contents)
next
  case (dequeue_waits s k)
  have w: "cq_wf (mq_q (ms_m s))" "cq_max_items (mq_q (ms_m s)) = Suc n" using dequeue_waits.prems by (simp_all add: mq_inv_def)
  show ?case
    using dequeue_cases[OF w] dequeue_waits by (cases "waiting_items s") (auto simp: mq_inv_def simp del: length_contents)
next
  case (pop_notifies s k i)
  then show ?case by (auto simp: mq_inv_def wake_producer_def)
qed (auto simp: mq_inv_def wake_consumer_def wake_producer_def)

lemma mq_reach_inv: "mq_reach s0 s \<Longrightarrow> mq_inv n s0 \<Longrightarrow> mq_inv n s"
  by (induction rule: mq_reach.induct) (auto intro: mq_step_inv)

lemma mq_start_inv: "n + 1 < size_t_range \<Longrightarrow> mq_inv n (mq_start d n)"
  using cq_circular[of n d]
  by (auto simp: mq_inv_def mq_start_def mpmc_blocking_queue_def new_circular_q_def cq_disabled_def Let_def)

text \<open>
  C18. The blocking queue loses, repeats and reorders nothing, and no wake-up is lost. In every
  interleaving of any number of producers and consumers, with spurious wake-ups and notifications sent
  late, what was accepted is what was taken followed by what waits, in order, and at most \<open>n\<close> items wait.
  When no thread is about to run and no notification is due, consumers sleep only on an empty queue
  and producers only on a full one, so producers and consumers never sleep at the same time.
\<close>

theorem blocking_queue_live:
  assumes "n + 1 < size_t_range" "0 < n" "mq_reach (mq_start d n) s"
  shows "ms_accepted s = ms_taken s @ waiting_items s \<and> length (waiting_items s) \<le> n \<and>
    (ms_prod_awake s = [] \<and> ms_cons_awake s = 0 \<and> ms_push_notify s = 0 \<and> ms_pop_notify s = 0 \<longrightarrow>
      (0 < ms_cons_asleep s \<longrightarrow> waiting_items s = []) \<and>
      (ms_prod_asleep s \<noteq> [] \<longrightarrow> length (waiting_items s) = n) \<and>
      \<not> (0 < ms_cons_asleep s \<and> ms_prod_asleep s \<noteq> []))"
proof -
  have i: "mq_inv n s" by (rule mq_reach_inv[OF assms(3) mq_start_inv[OF assms(1)]])
  then have "length (waiting_items s) \<le> n"
    using cq.bounded[of "mq_q (ms_m s)"] by (auto simp: mq_inv_def cq_capacity_def)
  then show ?thesis using i assms(2) by (auto simp: mq_inv_def simp del: length_contents)
qed

theorem blocking_queue_live_witness:
  "\<exists>s. mq_reach (mq_start (0 :: nat) 1) s \<and> ms_cons_asleep s = 1 \<and> waiting_items s = []"
proof -
  let ?a = "mq_start (0 :: nat) 1"
  let ?b = "?a\<lparr>ms_cons_awake := 0, ms_cons_asleep := 1\<rparr>"
  have "mq_step ?a (?a\<lparr>ms_cons_awake := ms_cons_awake ?a + 1\<rparr>)" by (rule mq_step.call_dequeue)
  moreover have "dequeue (ms_m ?a) = None"
    by (simp add: dequeue_def cq_empty_def mq_start_def mpmc_blocking_queue_def new_circular_q_def cq_disabled_def Let_def)
  then have "mq_step (?a\<lparr>ms_cons_awake := ms_cons_awake ?a + 1\<rparr>) ?b"
    using mq_step.dequeue_waits[of "?a\<lparr>ms_cons_awake := ms_cons_awake ?a + 1\<rparr>" 0] by (simp add: mq_start_def)
  ultimately have r: "mq_reach ?a ?b" using mq_reach.intros by metis
  have "1 + 1 < size_t_range" by (simp add: size_t_range_def)
  from blocking_queue_live[OF this _ r] have "waiting_items ?b = []" by (simp add: mq_start_def)
  then show ?thesis using r by (intro exI[of _ ?b]) simp
qed

end
