(* ===== verification/Thread_Pool.thy ===== *)
theory Thread_Pool
  imports Log_Core Blocking_Queue
begin

text \<open>
  Asynchronous logging, which is what the program uses: \<open>deps/spdlog-1.15.3/include/spdlog/details/thread_pool.h\<close>,
  \<open>thread_pool-inl.h\<close> and \<open>async_logger-inl.h\<close>. Callers put messages into the blocking queue of
  the pool, a worker thread takes them out and gives them to the sinks of the logger that sent them.
\<close>

subsection \<open>Messages and the pool\<close>

datatype async_overflow_policy = block | overrun_oldest | discard_new

datatype async_msg_type = am_log | am_flush | am_terminate

record async_msg =
  am_buffer :: log_msg_buffer
  am_type :: async_msg_type
  am_worker :: "nat option"

definition default_async_msg :: async_msg where
  "default_async_msg = \<lparr>am_buffer = default_buffer, am_type = am_log, am_worker = None\<rparr>"

definition new_async_msg :: "nat \<Rightarrow> async_msg_type \<Rightarrow> log_msg \<Rightarrow> async_msg" where
  "new_async_msg worker the_type m = \<lparr>am_buffer = new_log_msg_buffer m, am_type = the_type, am_worker = Some worker\<rparr>"

definition async_msg_for :: "nat option \<Rightarrow> async_msg_type \<Rightarrow> async_msg" where
  "async_msg_for worker the_type = \<lparr>am_buffer = default_buffer, am_type = the_type, am_worker = worker\<rparr>"

definition async_msg_of_type :: "async_msg_type \<Rightarrow> async_msg" where
  "async_msg_of_type the_type = async_msg_for None the_type"

record thread_pool =
  tp_q :: "async_msg mpmc"
  tp_threads :: nat

definition new_thread_pool :: "nat \<Rightarrow> nat \<Rightarrow> thread_pool result" where
  "new_thread_pool q_max_items threads_n =
     (if threads_n = 0 \<or> threads_n > 1000
      then Inl (Thrown (spdlog_ex (str ''spdlog::thread_pool(): invalid threads_n param (valid range is 1-1000)'')))
      else Inr \<lparr>tp_q = mpmc_blocking_queue default_async_msg q_max_items, tp_threads = threads_n\<rparr>)"

definition tp_put :: "thread_pool \<Rightarrow> async_msg mpmc result \<Rightarrow> thread_pool result" where
  "tp_put tp r = rbind r (\<lambda>q. Inr (tp\<lparr>tp_q := q\<rparr>))"

text \<open>\<open>None\<close>: the caller waits for room.\<close>

definition post_async_msg :: "async_msg \<Rightarrow> async_overflow_policy \<Rightarrow> thread_pool \<Rightarrow> thread_pool result option" where
  "post_async_msg new_msg overflow_policy tp =
     (case overflow_policy of
        block \<Rightarrow> map_option (tp_put tp) (enqueue new_msg (tp_q tp))
      | overrun_oldest \<Rightarrow> Some (tp_put tp (enqueue_nowait new_msg (tp_q tp)))
      | discard_new \<Rightarrow> Some (tp_put tp (enqueue_if_have_room new_msg (tp_q tp))))"

definition post_log :: "nat \<Rightarrow> log_msg \<Rightarrow> async_overflow_policy \<Rightarrow> thread_pool \<Rightarrow> thread_pool result option" where
  "post_log worker msg overflow_policy tp = post_async_msg (new_async_msg worker am_log msg) overflow_policy tp"

definition post_flush :: "nat \<Rightarrow> async_overflow_policy \<Rightarrow> thread_pool \<Rightarrow> thread_pool result option" where
  "post_flush worker overflow_policy tp = post_async_msg (async_msg_for (Some worker) am_flush) overflow_policy tp"

text \<open>One turn of the first loop of the destructor.\<close>

definition post_terminate :: "thread_pool \<Rightarrow> thread_pool result option" where
  "post_terminate tp = post_async_msg (async_msg_of_type am_terminate) block tp"

definition tp_overrun_counter :: "thread_pool \<Rightarrow> nat" where
  "tp_overrun_counter tp = mq_overrun_counter (tp_q tp)"

definition tp_reset_overrun_counter :: "thread_pool \<Rightarrow> thread_pool" where
  "tp_reset_overrun_counter tp = tp\<lparr>tp_q := mq_reset_overrun_counter (tp_q tp)\<rparr>"

definition tp_discard_counter :: "thread_pool \<Rightarrow> nat" where
  "tp_discard_counter tp = mq_discard_count (tp_q tp)"

definition tp_reset_discard_counter :: "thread_pool \<Rightarrow> thread_pool" where
  "tp_reset_discard_counter tp = tp\<lparr>tp_q := mq_reset_discard_counter (tp_q tp)\<rparr>"

definition tp_queue_size :: "thread_pool \<Rightarrow> nat" where
  "tp_queue_size tp = mq_size (tp_q tp)"

subsection \<open>The asynchronous logger\<close>

text \<open>
  A logger refers to its pool weakly: \<open>lock\<close> finds nothing once the pool is gone. Loggers and pools are
  shared objects of the world.
\<close>

record async_logger = logger +
  al_thread_pool :: "nat option"
  al_overflow_policy :: async_overflow_policy

record 'k async_world = "'k log_world" +
  aw_loggers :: "nat \<Rightarrow> async_logger"
  aw_pools :: "nat \<Rightarrow> thread_pool option"

definition lock_pool :: "async_logger \<Rightarrow> 'k async_world \<Rightarrow> (nat \<times> thread_pool) option" where
  "lock_pool lg w =
     (case al_thread_pool lg of
        None \<Rightarrow> None
      | Some i \<Rightarrow> (case aw_pools w i of None \<Rightarrow> None | Some tp \<Rightarrow> Some (i, tp)))"

definition post_guarded ::
  "source_loc \<Rightarrow> bytes \<Rightarrow> (thread_pool \<Rightarrow> thread_pool result option) \<Rightarrow> async_logger \<Rightarrow> 'k async_world \<Rightarrow>
   (unit result \<times> 'k async_world) option" where
  "post_guarded loc gone post lg w =
     (case lock_pool lg w of
        None \<Rightarrow> Some (logger_catch lg loc (sthrow (spdlog_ex gone)) w)
      | Some (i, tp) \<Rightarrow>
          (case post tp of
             None \<Rightarrow> None
           | Some r \<Rightarrow> Some (logger_catch lg loc
               (sbind (slift r) (\<lambda>tp'. supdate (\<lambda>w. w\<lparr>aw_pools := (aw_pools w)(i \<mapsto> tp')\<rparr>))) w)))"

definition log_pool_gone :: bytes where
  "log_pool_gone = str ''async log: thread pool doesn't exist anymore''"

definition flush_pool_gone :: bytes where
  "flush_pool_gone = str ''async flush: thread pool doesn't exist anymore''"

definition async_sink_it :: "nat \<Rightarrow> (async_logger, 'k async_world) virtual_sink_it" where
  "async_sink_it this msg lg w =
     post_guarded (lm_source msg) log_pool_gone
       (post_log this msg (al_overflow_policy lg)) lg w"

definition async_flush :: "nat \<Rightarrow> async_logger \<Rightarrow> 'k async_world \<Rightarrow> (unit result \<times> 'k async_world) option" where
  "async_flush this lg w =
     post_guarded no_source flush_pool_gone
       (post_flush this (al_overflow_policy lg)) lg w"

definition backend_flush :: "'k sink_ops \<Rightarrow> 'z logger_scheme \<Rightarrow> (('k, 'y) log_world_scheme, unit) op" where
  "backend_flush ops lg = each (\<lambda>k. logger_catch lg no_source (on_sink k (so_flush ops))) (lg_sinks lg)"

definition backend_sink_it :: "'k sink_ops \<Rightarrow> log_msg \<Rightarrow> 'z logger_scheme \<Rightarrow> (('k, 'y) log_world_scheme, unit) op" where
  "backend_sink_it ops msg lg =
     sbind (each (\<lambda>k w.
         if sink_should_log (lm_level msg) (lw_sinks w k)
         then logger_catch lg (lm_source msg) (on_sink k (so_log ops msg)) w
         else (Inr (), w)) (lg_sinks lg)) (\<lambda>_.
       if should_flush msg lg then backend_flush ops lg else sreturn ())"

definition async_clone :: "bytes \<Rightarrow> async_logger \<Rightarrow> async_logger" where
  "async_clone new_name lg = lg\<lparr>lg_tracer := backtracer_copy (lg_tracer lg), lg_name := new_name\<rparr>"

subsection \<open>The worker\<close>

definition process_next_msg :: "'k sink_ops \<Rightarrow> nat \<Rightarrow> 'k async_world \<Rightarrow> (bool result \<times> 'k async_world) option" where
  "process_next_msg ops i w =
     (case aw_pools w i of
        None \<Rightarrow> Some (Inl Undefined, w)
      | Some tp \<Rightarrow>
          (case dequeue (tp_q tp) of
             None \<Rightarrow> None
           | Some (Inl e) \<Rightarrow> Some (Inl e, w)
           | Some (Inr (incoming, q)) \<Rightarrow>
               let w1 = w\<lparr>aw_pools := (aw_pools w)(i \<mapsto> tp\<lparr>tp_q := q\<rparr>)\<rparr> in
               (case am_type incoming of
                  am_log \<Rightarrow>
                    (case am_worker incoming of
                       None \<Rightarrow> Some (Inl Undefined, w1)
                     | Some p \<Rightarrow>
                         Some (sbind (backend_sink_it ops (update_string_views (am_buffer incoming)) (aw_loggers w1 p))
                           (\<lambda>_. sreturn True) w1))
                | am_flush \<Rightarrow>
                    (case am_worker incoming of
                       None \<Rightarrow> Some (Inl Undefined, w1)
                     | Some p \<Rightarrow> Some (sbind (backend_flush ops (aw_loggers w1 p)) (\<lambda>_. sreturn True) w1))
                | am_terminate \<Rightarrow> Some (Inr False, w1))))"

text \<open>
  The loop of a worker while nobody else uses the pool. It ends when it takes a terminate message;
  \<open>None\<close>: it waits on an empty queue, or runs for ever.
\<close>

partial_function (option) worker_loop :: "'k sink_ops \<Rightarrow> nat \<Rightarrow> 'k async_world \<Rightarrow> (unit result \<times> 'k async_world) option" where
  "worker_loop ops i w =
     (case process_next_msg ops i w of
        None \<Rightarrow> None
      | Some (Inl e, w1) \<Rightarrow> Some (Inl e, w1)
      | Some (Inr go, w1) \<Rightarrow> if go then worker_loop ops i w1 else Some (Inr (), w1))"

lemma backend_flush_eq: "backend_flush = logger_flush"
  by (simp add: fun_eq_iff backend_flush_def logger_flush_def)

lemma backend_sink_it_eq: "backend_sink_it = sink_it"
  by (simp add: fun_eq_iff backend_sink_it_def sink_it_def backend_flush_eq log_to_sink_def[abs_def])

subsection \<open>Callers and the worker interleaved\<close>

text \<open>
  A run of the pool of address \<open>0\<close>: calls of loggers, by any thread and at any time (\<open>log_env\<close> is the
  caller's clock and thread), and turns of the worker. A call that has to wait is not a step.
\<close>

datatype pool_event =
    Call log_env nat source_loc level_enum bytes
  | Flush_Call log_env nat
  | Work log_env

definition as_caller :: "log_env \<Rightarrow> 'k async_world \<Rightarrow> 'k async_world" where
  "as_caller e w = w\<lparr>lw_env := e\<rparr>"

fun pool_do :: "'k sink_ops \<Rightarrow> pool_event \<Rightarrow> 'k async_world \<Rightarrow> 'k async_world option" where
  "pool_do ops (Call e p loc lvl body) w =
     (case logger_log (async_sink_it p) loc lvl (Inr body) (aw_loggers w p) (as_caller e w) of
        Some (Inr _, lg, w1) \<Rightarrow> Some (w1\<lparr>aw_loggers := (aw_loggers w1)(p := lg)\<rparr>)
      | _ \<Rightarrow> None)"
| "pool_do ops (Flush_Call e p) w =
     (case async_flush p (aw_loggers w p) (as_caller e w) of Some (Inr _, w1) \<Rightarrow> Some w1 | _ \<Rightarrow> None)"
| "pool_do ops (Work e) w =
     (case process_next_msg ops 0 (as_caller e w) of Some (Inr True, w1) \<Rightarrow> Some w1 | _ \<Rightarrow> None)"

fun pool_run :: "'k sink_ops \<Rightarrow> pool_event list \<Rightarrow> 'k async_world \<Rightarrow> 'k async_world option" where
  "pool_run ops [] w = Some w"
| "pool_run ops (ev # evs) w = (case pool_do ops ev w of None \<Rightarrow> None | Some w1 \<Rightarrow> pool_run ops evs w1)"

text \<open>The messages that the calls of a run send, and what the sinks make of a sequence of messages.\<close>

fun sent :: "(nat \<Rightarrow> async_logger) \<Rightarrow> pool_event list \<Rightarrow> async_msg list" where
  "sent ls [] = []"
| "sent ls (Call e p loc lvl body # evs) =
     (if should_log lvl (ls p) then [new_async_msg p am_log (log_msg_now e loc (lg_name (ls p)) lvl body)] else []) @ sent ls evs"
| "sent ls (Flush_Call e p # evs) = async_msg_for (Some p) am_flush # sent ls evs"
| "sent ls (Work e # evs) = sent ls evs"

definition delivered :: "'k sink_ops \<Rightarrow> (nat \<Rightarrow> async_logger) \<Rightarrow> async_msg \<Rightarrow> (nat \<Rightarrow> 'k sink) \<Rightarrow> nat \<Rightarrow> 'k sink" where
  "delivered ops ls m S k =
     (case am_worker m of
        None \<Rightarrow> S k
      | Some p \<Rightarrow>
          if k \<notin> set (lg_sinks (ls p)) then S k
          else (case am_type m of
              am_log \<Rightarrow>
                sink_after ops (update_string_views (am_buffer m)) (should_flush (update_string_views (am_buffer m)) (ls p)) (S k)
            | am_flush \<Rightarrow> (S k)\<lparr>sk_state := snd (so_flush ops (sk_state (S k)))\<rparr>
            | am_terminate \<Rightarrow> S k))"

definition delivered_all :: "'k sink_ops \<Rightarrow> (nat \<Rightarrow> async_logger) \<Rightarrow> async_msg list \<Rightarrow> (nat \<Rightarrow> 'k sink) \<Rightarrow> nat \<Rightarrow> 'k sink" where
  "delivered_all ops ls ms S = fold (delivered ops ls) ms S"

text \<open>Loggers as the program makes them: default error handler, no backtrace, waiting for room in pool \<open>0\<close>.\<close>

definition plain_async :: "async_logger \<Rightarrow> bool" where
  "plain_async lg \<longleftrightarrow> lg_custom_err_handler lg = None \<and> distinct (lg_sinks lg) \<and> \<not> bt_enabled (lg_tracer lg) \<and>
     al_thread_pool lg = Some 0 \<and> al_overflow_policy lg = block"

definition pool_of_size :: "nat \<Rightarrow> thread_pool \<Rightarrow> bool" where
  "pool_of_size n tp \<longleftrightarrow> cq_wf (mq_q (tp_q tp)) \<and> cq_max_items (mq_q (tp_q tp)) = Suc n"

abbreviation queued :: "thread_pool \<Rightarrow> async_msg list" where
  "queued tp \<equiv> cq_contents (mq_q (tp_q tp))"

subsection \<open>The queue\<close>

lemma post_block:
  assumes "pool_of_size n tp"
  shows "if length (queued tp) = n then post_async_msg m block tp = None
    else \<exists>tp'. post_async_msg m block tp = Some (Inr tp') \<and> pool_of_size n tp' \<and> queued tp' = queued tp @ [m]"
proof -
  have w: "cq_wf (mq_q (tp_q tp))" "cq_max_items (mq_q (tp_q tp)) = Suc n" using assms by (simp_all add: pool_of_size_def)
  show ?thesis
    using enqueue_cases[OF w, of m] by (auto simp: post_async_msg_def tp_put_def pool_of_size_def simp del: length_contents)
qed

lemma post_guarded_block:
  assumes "plain_async lg" "aw_pools w 0 = Some tp" "pool_of_size n tp"
  shows "if length (queued tp) = n then post_guarded loc gone (post_async_msg m block) lg w = None
    else \<exists>tp'. post_guarded loc gone (post_async_msg m block) lg w = Some (Inr (), w\<lparr>aw_pools := (aw_pools w)(0 \<mapsto> tp')\<rparr>) \<and>
      pool_of_size n tp' \<and> queued tp' = queued tp @ [m]"
  using post_block[OF assms(3), of m] assms(1,2)
  by (auto simp: post_guarded_def lock_pool_def plain_async_def logger_catch_def scatch_def supdate_def) blast

subsection \<open>Delivery leaves loggers and pools alone\<close>

lemma keeps_each [keeps_rules]: "(\<And>x. keeps I (f x)) \<Longrightarrow> keeps I (each f xs)"
  by (induction xs) (simp_all add: keeps_rules)

definition rest_is :: "'y \<Rightarrow> ('k, 'y) log_world_scheme \<Rightarrow> bool" where
  "rest_is y w \<longleftrightarrow> log_world.more w = y"

lemma err_handler_keeps_rest [keeps_rules]: "keeps (rest_is y) (err_handler msg lg)"
  by (auto simp: keeps_def rest_is_def err_handler_def Let_def split: option.splits)

lemma on_sink_keeps_rest [keeps_rules]: "keeps (rest_is y) (on_sink k m)"
  by (auto simp: keeps_def rest_is_def on_sink_def split: prod.splits)

lemma logger_catch_keeps_rest [keeps_rules]: "keeps (rest_is y) m \<Longrightarrow> keeps (rest_is y) (logger_catch lg loc m)"
  by (simp add: logger_catch_def keeps_rules)

lemma log_to_sink_keeps_rest [keeps_rules]: "keeps (rest_is y) (log_to_sink ops msg lg k)"
proof -
  have "keeps (rest_is y) (logger_catch lg (lm_source msg) (on_sink k (so_log ops msg)))" by (simp add: keeps_rules)
  then show ?thesis by (simp add: keeps_def log_to_sink_def)
qed

lemma logger_flush_keeps_rest [keeps_rules]: "keeps (rest_is y) (logger_flush ops lg)"
  by (simp add: logger_flush_def keeps_rules)

lemma sink_it_keeps_rest [keeps_rules]: "keeps (rest_is y) (sink_it ops msg lg)"
  by (simp add: sink_it_def keeps_rules)

lemma kept_rest:
  fixes w w1 :: "'k async_world"
  assumes "keeps (rest_is (log_world.more w)) m" "m w = (r, w1)"
  shows "aw_loggers w1 = aw_loggers w \<and> aw_pools w1 = aw_pools w"
proof -
  have "log_world.more w1 = log_world.more w" using keepsD[OF assms(1) _ assms(2)] by (simp add: rest_is_def)
  then show ?thesis by (cases w; cases w1) simp
qed

subsection \<open>One turn of the worker\<close>

context sink_contract
begin

lemma flush_total:
  assumes "lg_custom_err_handler lg = None" "distinct (lg_sinks lg)"
  shows "\<exists>w1. logger_flush ops lg w = (Inr (), w1) \<and>
    (\<forall>k. lw_sinks w1 k =
       (if k \<in> set (lg_sinks lg) then (lw_sinks w k)\<lparr>sk_state := snd (so_flush ops (sk_state (lw_sinks w k)))\<rparr>
        else lw_sinks w k))"
proof -
  let ?g = "\<lambda>s :: 'k sink. s\<lparr>sk_state := snd (so_flush ops (sk_state s))\<rparr>"
  have "\<exists>w1. logger_catch lg no_source (on_sink k (so_flush ops)) u = (Inr (), w1) \<and> lw_env w1 = lw_env u \<and>
      lw_sinks w1 = (lw_sinks u)(k := ?g (lw_sinks u k))" for k and u :: "('k, 'b) log_world_scheme"
    by (rule guarded_sink[OF assms(1) flush_defined])
  from each_guarded[where g = ?g, OF assms this, of w] show ?thesis by (auto simp: logger_flush_def)
qed

lemma worker_turn:
  assumes p: "aw_pools w 0 = Some tp" "pool_of_size n tp" "queued tp = m # ms"
    and ls: "\<forall>p. plain_async (aw_loggers w p)" and m: "am_type m = am_terminate \<or> am_worker m \<noteq> None"
  shows "\<exists>w1 tp1. process_next_msg ops 0 w = Some (Inr (am_type m \<noteq> am_terminate), w1) \<and>
    aw_pools w1 = (aw_pools w)(0 \<mapsto> tp1) \<and> pool_of_size n tp1 \<and> queued tp1 = ms \<and> aw_loggers w1 = aw_loggers w \<and>
    (am_type m \<noteq> am_terminate \<longrightarrow> lw_sinks w1 = delivered ops (aw_loggers w) m (lw_sinks w)) \<and>
    (am_type m = am_terminate \<longrightarrow> lw_sinks w1 = lw_sinks w)"
proof -
  have q: "cq_wf (mq_q (tp_q tp))" "cq_max_items (mq_q (tp_q tp)) = Suc n" using p(2) by (simp_all add: pool_of_size_def)
  obtain q' where d: "dequeue (tp_q tp) = Some (Inr (m, q'))" "cq_wf (mq_q q')" "cq_max_items (mq_q q') = Suc n" "cq_contents (mq_q q') = ms"
    using dequeue_cases[OF q] p(3) by auto
  let ?tp = "tp\<lparr>tp_q := q'\<rparr>" let ?w = "w\<lparr>aw_pools := (aw_pools w)(0 \<mapsto> ?tp)\<rparr>"
  have tp: "pool_of_size n ?tp" "queued ?tp = ms" using d by (simp_all add: pool_of_size_def)
  show ?thesis
  proof (cases "am_type m")
    case am_log
    then obtain a where a: "am_worker m = Some a" using m by auto
    let ?msg = "update_string_views (am_buffer m)"
    obtain w1 where s: "sink_it ops ?msg (aw_loggers ?w a) ?w = (Inr (), w1)"
      "\<forall>k. lw_sinks w1 k = (if k \<in> set (lg_sinks (aw_loggers ?w a))
         then sink_after ops ?msg (should_flush ?msg (aw_loggers ?w a)) (lw_sinks ?w k) else lw_sinks ?w k)"
      using sink_it_total[of "aw_loggers ?w a" ?msg ?w] ls by (auto simp: plain_async_def)
    have "aw_loggers w1 = aw_loggers ?w \<and> aw_pools w1 = aw_pools ?w" by (rule kept_rest[OF sink_it_keeps_rest s(1)])
    then show ?thesis
      using p(1) d s am_log a tp
      by (intro exI[of _ w1] exI[of _ ?tp])
        (auto simp: process_next_msg_def backend_sink_it_eq sreturn_def delivered_def fun_eq_iff)
  next
    case am_flush
    then obtain a where a: "am_worker m = Some a" using m by auto
    obtain w1 where s: "logger_flush ops (aw_loggers ?w a) ?w = (Inr (), w1)"
      "\<forall>k. lw_sinks w1 k = (if k \<in> set (lg_sinks (aw_loggers ?w a))
         then (lw_sinks ?w k)\<lparr>sk_state := snd (so_flush ops (sk_state (lw_sinks ?w k)))\<rparr> else lw_sinks ?w k)"
      using flush_total[of "aw_loggers ?w a" ?w] ls by (auto simp: plain_async_def)
    have "aw_loggers w1 = aw_loggers ?w \<and> aw_pools w1 = aw_pools ?w" by (rule kept_rest[OF logger_flush_keeps_rest s(1)])
    then show ?thesis
      using p(1) d s am_flush a tp
      by (intro exI[of _ w1] exI[of _ ?tp])
        (auto simp: process_next_msg_def backend_flush_eq sreturn_def delivered_def fun_eq_iff)
  next
    case am_terminate
    then show ?thesis
      using p(1) d tp by (intro exI[of _ ?w] exI[of _ ?tp]) (simp add: process_next_msg_def)
  qed
qed

end

subsection \<open>Runs\<close>

definition run_inv :: "nat \<Rightarrow> (nat \<Rightarrow> async_logger) \<Rightarrow> thread_pool \<Rightarrow> 'k async_world \<Rightarrow> bool" where
  "run_inv n ls tp w \<longleftrightarrow> aw_pools w 0 = Some tp \<and> pool_of_size n tp \<and> aw_loggers w = ls \<and> (\<forall>p. plain_async (ls p)) \<and>
     (\<forall>m \<in> set (queued tp). am_type m \<noteq> am_terminate \<and> am_worker m \<noteq> None)"

lemma as_caller_simps [simp]:
  "aw_pools (as_caller e w) = aw_pools w" "aw_loggers (as_caller e w) = aw_loggers w" "lw_sinks (as_caller e w) = lw_sinks w"
  "lw_env (as_caller e w) = e" "run_inv n ls tp (as_caller e w) \<longleftrightarrow> run_inv n ls tp w"
  by (simp_all add: as_caller_def run_inv_def)

lemma run_inv_post:
  assumes "run_inv n ls tp w" "pool_of_size n tp'" "queued tp' = queued tp @ [m]" "am_type m \<noteq> am_terminate" "am_worker m \<noteq> None"
  shows "run_inv n ls tp' (w\<lparr>aw_pools := (aw_pools w)(0 \<mapsto> tp')\<rparr>)"
  using assms by (auto simp: run_inv_def)

lemma sent_Cons: "sent ls (ev # evs) = sent ls [ev] @ sent ls evs"
  by (cases ev) simp_all

lemma new_async_msg_kind [simp]:
  "am_type (new_async_msg p k m) = k" "am_worker (new_async_msg p k m) = Some p"
  "am_type (async_msg_for a k) = k" "am_worker (async_msg_for a k) = a"
  by (simp_all add: new_async_msg_def async_msg_for_def)

context sink_contract
begin

lemma call_step:
  assumes i: "run_inv n ls tp w" and d: "pool_do ops (Call e p loc lvl body) w = Some w1"
  shows "\<exists>tp1. run_inv n ls tp1 w1 \<and> queued tp1 = queued tp @ sent ls [Call e p loc lvl body] \<and> lw_sinks w1 = lw_sinks w"
proof (cases "should_log lvl (ls p)")
  case False
  have "\<not> bt_enabled (lg_tracer (ls p))" "aw_loggers w = ls" using i by (simp_all add: run_inv_def plain_async_def)
  then show ?thesis
    using i d False by (intro exI[of _ tp]) (auto simp: logger_log_def run_inv_def)
next
  case True
  let ?m = "log_msg_now e loc (lg_name (ls p)) lvl body" let ?u = "as_caller e w"
  have l: "aw_loggers w = ls" "plain_async (ls p)" "aw_pools ?u 0 = Some tp" "pool_of_size n tp"
    "\<not> bt_enabled (lg_tracer (ls p))" "al_overflow_policy (ls p) = block"
    using i by (simp_all add: run_inv_def plain_async_def)
  note g = post_guarded_block[OF l(2-4), of "lm_source ?m" log_pool_gone "new_async_msg p am_log ?m"]
  have s: "async_sink_it p ?m (ls p) ?u =
      post_guarded (lm_source ?m) log_pool_gone (post_async_msg (new_async_msg p am_log ?m) block) (ls p) ?u"
    by (simp add: async_sink_it_def post_log_def[abs_def] l(6))
  have "length (queued tp) \<noteq> n"
    using d g s l(1,5) True by (auto simp: logger_log_def log_it_def)
  then obtain tp1 where t: "async_sink_it p ?m (ls p) ?u = Some (Inr (), ?u\<lparr>aw_pools := (aw_pools ?u)(0 \<mapsto> tp1)\<rparr>)"
      "pool_of_size n tp1" "queued tp1 = queued tp @ [new_async_msg p am_log ?m]"
    using g s by auto
  let ?v = "?u\<lparr>aw_pools := (aw_pools ?u)(0 \<mapsto> tp1)\<rparr>"
  have "w1 = ?v\<lparr>aw_loggers := (aw_loggers ?v)(p := ls p)\<rparr>"
    using d t(1) l(1,5) True by (simp add: logger_log_def log_it_def)
  then have "w1 = ?v" using l(1) by simp
  moreover have "run_inv n ls tp1 ?v" using run_inv_post[of n ls tp ?u] i t(2,3) by simp
  ultimately show ?thesis using t(3) True by auto
qed

lemma flush_step:
  assumes i: "run_inv n ls tp w" and d: "pool_do ops (Flush_Call e p) w = Some w1"
  shows "\<exists>tp1. run_inv n ls tp1 w1 \<and> queued tp1 = queued tp @ sent ls [Flush_Call e p] \<and> lw_sinks w1 = lw_sinks w"
proof -
  let ?u = "as_caller e w" let ?m = "async_msg_for (Some p) am_flush"
  have l: "aw_loggers w = ls" "plain_async (ls p)" "aw_pools ?u 0 = Some tp" "pool_of_size n tp" "al_overflow_policy (ls p) = block"
    using i by (simp_all add: run_inv_def plain_async_def)
  note g = post_guarded_block[OF l(2-4), of no_source flush_pool_gone ?m]
  have s: "async_flush p (ls p) ?u = post_guarded no_source flush_pool_gone (post_async_msg ?m block) (ls p) ?u"
    by (simp add: async_flush_def post_flush_def[abs_def] l(5))
  have "length (queued tp) \<noteq> n" using d g s l(1) by auto
  then obtain tp1 where t: "w1 = ?u\<lparr>aw_pools := (aw_pools ?u)(0 \<mapsto> tp1)\<rparr>" "pool_of_size n tp1" "queued tp1 = queued tp @ [?m]"
    using g s l(1) d by auto
  then have "run_inv n ls tp1 w1" using run_inv_post[of n ls tp ?u] i by simp
  then show ?thesis using t by auto
qed

lemma work_step:
  assumes i: "run_inv n ls tp w" and d: "pool_do ops (Work e) w = Some w1"
  shows "\<exists>tp1 m. run_inv n ls tp1 w1 \<and> queued tp = m # queued tp1 \<and> lw_sinks w1 = delivered ops ls m (lw_sinks w)"
proof -
  let ?u = "as_caller e w"
  have l: "aw_loggers w = ls" "aw_pools ?u 0 = Some tp" "pool_of_size n tp" "\<forall>p. plain_async (aw_loggers ?u p)"
    using i by (simp_all add: run_inv_def)
  have q: "cq_wf (mq_q (tp_q tp))" "cq_max_items (mq_q (tp_q tp)) = Suc n" using l(3) by (simp_all add: pool_of_size_def)
  have "queued tp \<noteq> []" using d dequeue_cases[OF q] l(2) by (auto simp: process_next_msg_def)
  then obtain m ms where ms: "queued tp = m # ms" by (cases "queued tp") auto
  then have k: "am_type m \<noteq> am_terminate" "am_worker m \<noteq> None" using i by (simp_all add: run_inv_def)
  from worker_turn[OF l(2,3) ms l(4)] k obtain w2 tp1 where
    t: "process_next_msg ops 0 ?u = Some (Inr True, w2)" "aw_pools w2 = (aw_pools ?u)(0 \<mapsto> tp1)" "pool_of_size n tp1" "queued tp1 = ms"
      "aw_loggers w2 = aw_loggers ?u" "lw_sinks w2 = delivered ops (aw_loggers ?u) m (lw_sinks ?u)"
    by auto
  have "w1 = w2" using d t(1) by simp
  then show ?thesis using t i ms l(1) by (intro exI[of _ tp1] exI[of _ m]) (auto simp: run_inv_def)
qed

lemma run_exact:
  "run_inv n ls tp w \<Longrightarrow> pool_run ops evs w = Some w1 \<Longrightarrow>
   \<exists>tp1 out. run_inv n ls tp1 w1 \<and> queued tp @ sent ls evs = out @ queued tp1 \<and>
     lw_sinks w1 = delivered_all ops ls out (lw_sinks w)"
proof (induction evs arbitrary: tp w)
  case Nil
  then show ?case by (intro exI[of _ tp] exI[of _ "[]"]) (simp add: delivered_all_def)
next
  case (Cons ev evs)
  then obtain w2 where w2: "pool_do ops ev w = Some w2" "pool_run ops evs w2 = Some w1" by (auto split: option.splits)
  obtain tp2 out1 where s: "run_inv n ls tp2 w2" "queued tp @ sent ls [ev] = out1 @ queued tp2"
      "lw_sinks w2 = delivered_all ops ls out1 (lw_sinks w)"
  proof (cases ev)
    case (Call e p loc lvl body)
    from call_step[OF Cons.prems(1) w2(1)[unfolded Call]] obtain tp1 where
      "run_inv n ls tp1 w2" "queued tp1 = queued tp @ sent ls [ev]" "lw_sinks w2 = lw_sinks w"
      unfolding Call by blast
    then show ?thesis using that[of tp1 "[]"] by (simp add: delivered_all_def)
  next
    case (Flush_Call e p)
    from flush_step[OF Cons.prems(1) w2(1)[unfolded Flush_Call]] obtain tp1 where
      "run_inv n ls tp1 w2" "queued tp1 = queued tp @ sent ls [ev]" "lw_sinks w2 = lw_sinks w"
      unfolding Flush_Call by blast
    then show ?thesis using that[of tp1 "[]"] by (simp add: delivered_all_def)
  next
    case (Work e)
    from work_step[OF Cons.prems(1) w2(1)[unfolded Work]] obtain tp1 m where
      "run_inv n ls tp1 w2" "queued tp = m # queued tp1" "lw_sinks w2 = delivered ops ls m (lw_sinks w)"
      by blast
    then show ?thesis using that[of tp1 "[m]"] Work by (simp add: delivered_all_def)
  qed
  obtain tp1 out2 where "run_inv n ls tp1 w1" "queued tp2 @ sent ls evs = out2 @ queued tp1"
      "lw_sinks w1 = delivered_all ops ls out2 (lw_sinks w2)"
    using Cons.IH[OF s(1) w2(2)] by blast
  moreover have "queued tp @ sent ls (ev # evs) = out1 @ queued tp2 @ sent ls evs"
    using s(2) by (simp only: sent_Cons[of ls ev evs] append_assoc[symmetric])
  ultimately show ?case
    using s(3) by (intro exI[of _ tp1] exI[of _ "out1 @ out2"]) (simp add: delivered_all_def del: sent.simps)
qed

lemma worker_loop_drains:
  assumes "\<forall>p. plain_async (aw_loggers w p)" "aw_pools w 0 = Some tp" "pool_of_size n tp" "queued tp = ms @ [t]"
    and "am_type t = am_terminate" "\<forall>m \<in> set ms. am_type m \<noteq> am_terminate \<and> am_worker m \<noteq> None"
  shows "\<exists>w1 tp1. worker_loop ops 0 w = Some (Inr (), w1) \<and> aw_pools w1 0 = Some tp1 \<and> queued tp1 = [] \<and>
    lw_sinks w1 = delivered_all ops (aw_loggers w) ms (lw_sinks w)"
  using assms
proof (induction ms arbitrary: w tp)
  case Nil
  then have p: "queued tp = t # []" by simp
  from worker_turn[OF Nil.prems(2,3) p Nil.prems(1)] Nil.prems(5) show ?case
    by (subst worker_loop.simps) (auto simp: delivered_all_def)
next
  case (Cons m ms)
  then have p: "queued tp = m # (ms @ [t])" and m: "am_type m \<noteq> am_terminate" "am_worker m \<noteq> None" by auto
  from worker_turn[OF Cons.prems(2,3) p Cons.prems(1)] m obtain w1 tp1 where
    t: "process_next_msg ops 0 w = Some (Inr True, w1)" "aw_pools w1 = (aw_pools w)(0 \<mapsto> tp1)" "pool_of_size n tp1"
      "queued tp1 = ms @ [t]" "aw_loggers w1 = aw_loggers w" "lw_sinks w1 = delivered ops (aw_loggers w) m (lw_sinks w)"
    by auto
  then show ?case
    using Cons.IH[of w1 tp1] Cons.prems by (subst worker_loop.simps) (auto simp: delivered_all_def)
qed

end

subsection \<open>Nothing logged is lost\<close>

lemma new_pool_size:
  assumes "new_thread_pool n k = Inr tp" "n + 1 < size_t_range"
  shows "pool_of_size n tp \<and> queued tp = []"
  using assms cq_circular[OF assms(2), of default_async_msg]
  by (auto simp: new_thread_pool_def pool_of_size_def mpmc_blocking_queue_def new_circular_q_def cq_disabled_def Let_def split: if_splits)

lemma worker_drains_all:
  assumes "sink_contract ops" "\<forall>p. plain_async (aw_loggers w p)" "n + 1 < size_t_range"
    and "new_thread_pool n 1 = Inr tp0" "aw_pools w 0 = Some tp0"
    and "pool_run ops evs w = Some w1" "aw_pools w1 0 = Some tp1" "post_terminate tp1 = Some (Inr tp2)"
  shows "\<exists>w2 tp3. worker_loop ops 0 (w1\<lparr>aw_pools := (aw_pools w1)(0 \<mapsto> tp2)\<rparr>) = Some (Inr (), w2) \<and>
    lw_sinks w2 = delivered_all ops (aw_loggers w) (sent (aw_loggers w) evs) (lw_sinks w) \<and>
    aw_pools w2 0 = Some tp3 \<and> tp_queue_size tp3 = 0"
proof -
  have "run_inv n (aw_loggers w) tp0 w" and e: "queued tp0 = []"
    using new_pool_size[OF assms(4,3)] assms(2,5) by (simp_all add: run_inv_def)
  from sink_contract.run_exact[OF assms(1) this(1) assms(6)] obtain out where
    r: "run_inv n (aw_loggers w) tp1 w1" "sent (aw_loggers w) evs = out @ queued tp1"
      "lw_sinks w1 = delivered_all ops (aw_loggers w) out (lw_sinks w)"
    using e assms(7) by (auto simp: run_inv_def)
  have tp1: "pool_of_size n tp1" using r(1) by (simp add: run_inv_def)
  have tp2: "pool_of_size n tp2" "queued tp2 = queued tp1 @ [async_msg_of_type am_terminate]"
    using post_block[OF tp1, of "async_msg_of_type am_terminate"] assms(8) by (auto simp: post_terminate_def split: if_splits)
  let ?w = "w1\<lparr>aw_pools := (aw_pools w1)(0 \<mapsto> tp2)\<rparr>"
  have "\<exists>w2 tp3. worker_loop ops 0 ?w = Some (Inr (), w2) \<and> aw_pools w2 0 = Some tp3 \<and> queued tp3 = [] \<and>
      lw_sinks w2 = delivered_all ops (aw_loggers ?w) (queued tp1) (lw_sinks ?w)"
    by (rule sink_contract.worker_loop_drains[OF assms(1) _ _ tp2]) (use r(1) in \<open>auto simp: run_inv_def async_msg_of_type_def\<close>)
  then obtain w2 tp3 where "worker_loop ops 0 ?w = Some (Inr (), w2)" "aw_pools w2 0 = Some tp3" "queued tp3 = []"
      "lw_sinks w2 = delivered_all ops (aw_loggers ?w) (queued tp1) (lw_sinks ?w)"
    by blast
  moreover have "aw_loggers ?w = aw_loggers w" "lw_sinks ?w = lw_sinks w1" using r(1) by (simp_all add: run_inv_def)
  moreover have "tp_queue_size tp3 = length (queued tp3)" by (simp add: tp_queue_size_def mq_size_def)
  ultimately show ?thesis
    using r(2,3) by (intro exI[of _ w2] exI[of _ tp3]) (simp add: delivered_all_def del: length_contents)
qed

text \<open>
  C16. The worker thread writes everything that was logged, once and in order, and ends. Take a new pool
  with a queue of \<open>n\<close> messages, loggers that wait for room, sinks that may throw but are free of undefined
  behaviour, any interleaving of calls from any threads with turns of the worker, and then the terminate
  message of the destructor. The worker's loop returns with an empty queue, and every sink is in the
  state it has after the messages that passed their logger's level, each exactly once, in the order of the calls.
\<close>

theorem worker_writes_everything:
  fixes ops :: "'k sink_ops"
  assumes "\<And>msg st. fst (so_log ops msg st) \<noteq> Inl Undefined" "\<And>st. fst (so_flush ops st) \<noteq> Inl Undefined"
    and "\<forall>p. plain_async (aw_loggers w p)" "n + 1 < size_t_range"
    and "new_thread_pool n 1 = Inr tp0" "aw_pools w 0 = Some tp0"
    and "pool_run ops evs w = Some w1" "aw_pools w1 0 = Some tp1" "post_terminate tp1 = Some (Inr tp2)"
  shows "\<exists>w2 tp3. worker_loop ops 0 (w1\<lparr>aw_pools := (aw_pools w1)(0 \<mapsto> tp2)\<rparr>) = Some (Inr (), w2) \<and>
    lw_sinks w2 = delivered_all ops (aw_loggers w) (sent (aw_loggers w) evs) (lw_sinks w) \<and>
    aw_pools w2 0 = Some tp3 \<and> tp_queue_size tp3 = 0"
  by (rule worker_drains_all[OF _ assms(3-9)]) (use assms(1,2) in \<open>simp add: sink_contract_def\<close>)

definition sample_logger :: async_logger where
  "sample_logger =
     \<lparr>lg_name = [], lg_sinks = [0], lg_level = lv_debug, lg_flush_level = lv_off, lg_custom_err_handler = None,
      lg_tracer = new_backtracer, al_thread_pool = Some 0, al_overflow_policy = block\<rparr>"

definition sample_world :: "log_msg list async_world" where
  "sample_world =
     \<lparr>lw_sinks = (\<lambda>_. new_sink []), lw_env = \<lparr>le_now = 0, le_thread_id = 0, le_date = (\<lambda>_. [])\<rparr>,
      lw_last_report_time = 0, lw_err_counter = 0, lw_stderr = [], lw_err_calls = [],
      aw_loggers = (\<lambda>_. sample_logger),
      aw_pools = [0 \<mapsto> \<lparr>tp_q = mpmc_blocking_queue default_async_msg 2, tp_threads = 1\<rparr>]\<rparr>"

definition sample_call :: pool_event where
  "sample_call = Call \<lparr>le_now = 5, le_thread_id = 1, le_date = (\<lambda>_. [])\<rparr> 0 no_source lv_info [65]"

lemmas pool_compute = sample_world_def sample_logger_def sample_call_def logger_log_def log_it_def async_sink_it_def
  post_guarded_def lock_pool_def post_log_def post_terminate_def post_async_msg_def tp_put_def enqueue_def mq_push_def
  cq_push_back_def cq_full_def mpmc_blocking_queue_def new_circular_q_def cq_disabled_def Let_def should_log_def as_caller_def
  logger_catch_def scatch_def supdate_def slift_def sbind_def new_backtracer_def size_t_range_def less_eq_level_enum_def

theorem worker_writes_everything_witness:
  "\<exists>w1 tp1 tp2 w2. pool_run recording_sink [sample_call] sample_world = Some w1 \<and> aw_pools w1 0 = Some tp1 \<and>
     post_terminate tp1 = Some (Inr tp2) \<and>
     worker_loop recording_sink 0 (w1\<lparr>aw_pools := (aw_pools w1)(0 \<mapsto> tp2)\<rparr>) = Some (Inr (), w2) \<and>
     map lm_payload (sk_state (lw_sinks w2 0)) = [[65]]"
proof -
  have a: "new_thread_pool 2 1 = Inr \<lparr>tp_q = mpmc_blocking_queue default_async_msg 2, tp_threads = 1\<rparr>"
    by (simp add: new_thread_pool_def)
  have l: "\<forall>p. plain_async (aw_loggers sample_world p)"
    by (simp add: sample_world_def sample_logger_def plain_async_def new_backtracer_def)
  have "\<exists>w1 tp1 tp2. pool_run recording_sink [sample_call] sample_world = Some w1 \<and> aw_pools w1 0 = Some tp1 \<and>
     post_terminate tp1 = Some (Inr tp2)"
    by (simp add: pool_compute)
  then obtain w1 tp1 tp2 where r: "pool_run recording_sink [sample_call] sample_world = Some w1" "aw_pools w1 0 = Some tp1"
     "post_terminate tp1 = Some (Inr tp2)" by blast
  have "2 + 1 < size_t_range" by (simp add: size_t_range_def)
  from worker_writes_everything[of recording_sink sample_world 2, OF _ _ l this a _ r] obtain w2 where
    "worker_loop recording_sink 0 (w1\<lparr>aw_pools := (aw_pools w1)(0 \<mapsto> tp2)\<rparr>) = Some (Inr (), w2)"
    "lw_sinks w2 = delivered_all recording_sink (aw_loggers sample_world) (sent (aw_loggers sample_world) [sample_call]) (lw_sinks sample_world)"
    by (auto simp: recording_sink_def sample_world_def)
  then show ?thesis using r
    by (intro exI[of _ w1] exI[of _ tp1] exI[of _ tp2] exI[of _ w2])
      (simp add: delivered_all_def delivered_def sample_world_def sample_logger_def sample_call_def recording_sink_def
        should_log_def less_eq_level_enum_def sink_after_def sink_should_log_def new_sink_def should_flush_def
        new_async_msg_def log_msg_now_def new_log_msg_def)
qed

end
