(* ===== verification/Registry.thy ===== *)
theory Registry
  imports Thread_Pool "HOL-Library.AList"
begin

text \<open>
  \<open>deps/spdlog-1.15.3/include/spdlog/details/registry-inl.h\<close>, the global table of loggers behind
  \<open>spdlog-inl.h\<close>, and \<open>cfg/helpers-inl.h\<close>, which reads levels from a configuration text.
\<close>

subsection \<open>State\<close>

text \<open>
  Loggers are shared objects, named by their addresses: \<open>rw_loggers\<close> holds them. \<open>rw_formatters\<close> holds
  the formatter of each sink; \<open>cl\<close> is the formatter's virtual \<open>clone\<close>. The table of names is an
  association list in whatever order the hash table has.
\<close>

record ('f, 'z) registry_world =
  rw_loggers :: "nat \<Rightarrow> 'z logger_scheme"
  rw_formatters :: "nat \<Rightarrow> 'f"

record ('f, 'z) registry =
  rg_loggers :: "(bytes \<times> nat) list"
  rg_log_levels :: "bytes \<rightharpoonup> level_enum"
  rg_formatter :: 'f
  rg_global_log_level :: level_enum
  rg_flush_level :: level_enum
  rg_err_handler :: "(bytes \<Rightarrow> unit result) option"
  rg_tp :: "nat option"
  rg_default_logger :: "nat option"
  rg_automatic_registration :: bool
  rg_backtrace_n_messages :: nat
  rg_world :: "('f, 'z) registry_world"

abbreviation logger_at :: "('f, 'z) registry \<Rightarrow> nat \<Rightarrow> 'z logger_scheme" where
  "logger_at r p \<equiv> rw_loggers (rg_world r) p"

definition new_registry :: "'f \<Rightarrow> nat \<Rightarrow> ('f, 'z) registry_world \<Rightarrow> ('f, 'z) registry" where
  "new_registry default_formatter p w =
     \<lparr>rg_loggers = [([], p)], rg_log_levels = Map.empty, rg_formatter = default_formatter, rg_global_log_level = lv_info,
      rg_flush_level = lv_off, rg_err_handler = None, rg_tp = None, rg_default_logger = Some p,
      rg_automatic_registration = True, rg_backtrace_n_messages = 0, rg_world = w\<rparr>"

text \<open>\<open>loggers_[name] = p\<close>, \<open>find\<close> and \<open>erase\<close>.\<close>

definition put_entry :: "bytes \<Rightarrow> nat \<Rightarrow> (bytes \<times> nat) list \<Rightarrow> (bytes \<times> nat) list" where
  "put_entry name p t = AList.update name p t"

definition erase_entry :: "bytes \<Rightarrow> (bytes \<times> nat) list \<Rightarrow> (bytes \<times> nat) list" where
  "erase_entry name t = AList.delete name t"

definition on_logger :: "nat \<Rightarrow> ('z logger_scheme \<Rightarrow> 'z logger_scheme) \<Rightarrow> ('f, 'z) registry \<Rightarrow> ('f, 'z) registry" where
  "on_logger p f r =
     r\<lparr>rg_world := (rg_world r)\<lparr>rw_loggers := (rw_loggers (rg_world r))(p := f (logger_at r p))\<rparr>\<rparr>"

text \<open>\<open>for (auto &l : loggers_)\<close>\<close>

definition for_loggers ::
  "(bytes \<Rightarrow> nat \<Rightarrow> ('f, 'z) registry \<Rightarrow> ('f, 'z) registry) \<Rightarrow> ('f, 'z) registry \<Rightarrow> ('f, 'z) registry" where
  "for_loggers f r = fold (\<lambda>(n, p). f n p) (rg_loggers r) r"

text \<open>\<open>logger::set_formatter\<close>: every sink but the last gets a clone, the last one the object itself.\<close>

fun give_formatter :: "('f \<Rightarrow> 'f) \<Rightarrow> 'f \<Rightarrow> nat list \<Rightarrow> (nat \<Rightarrow> 'f) \<Rightarrow> nat \<Rightarrow> 'f" where
  "give_formatter cl f [] F = F"
| "give_formatter cl f [k] F = F(k := f)"
| "give_formatter cl f (k # k' # ks) F = give_formatter cl f (k' # ks) (F(k := cl f))"

definition logger_set_formatter :: "('f \<Rightarrow> 'f) \<Rightarrow> 'f \<Rightarrow> nat \<Rightarrow> ('f, 'z) registry \<Rightarrow> ('f, 'z) registry" where
  "logger_set_formatter cl f p r =
     r\<lparr>rg_world := (rg_world r)\<lparr>rw_formatters := give_formatter cl f (lg_sinks (logger_at r p)) (rw_formatters (rg_world r))\<rparr>\<rparr>"

subsection \<open>Operations\<close>

definition throw_if_exists :: "bytes \<Rightarrow> ('f, 'z) registry \<Rightarrow> unit result" where
  "throw_if_exists logger_name r =
     (if logger_name \<in> fst ` set (rg_loggers r)
      then Inl (Thrown (spdlog_ex (str ''logger with name '' @ [39] @ logger_name @ [39] @ str '' already exists'')))
      else Inr ())"

definition register_logger :: "nat \<Rightarrow> (('f, 'z) registry, unit) op" where
  "register_logger p r =
     (case throw_if_exists (lg_name (logger_at r p)) r of
        Inl e \<Rightarrow> (Inl e, r)
      | Inr _ \<Rightarrow> (Inr (), r\<lparr>rg_loggers := put_entry (lg_name (logger_at r p)) p (rg_loggers r)\<rparr>))"

definition register_or_replace :: "nat \<Rightarrow> ('f, 'z) registry \<Rightarrow> ('f, 'z) registry" where
  "register_or_replace p r = r\<lparr>rg_loggers := put_entry (lg_name (logger_at r p)) p (rg_loggers r)\<rparr>"

definition configured_level :: "bytes \<Rightarrow> ('f, 'z) registry \<Rightarrow> level_enum" where
  "configured_level name r = (case rg_log_levels r name of Some l \<Rightarrow> l | None \<Rightarrow> rg_global_log_level r)"

definition initialize_logger :: "('f \<Rightarrow> 'f) \<Rightarrow> nat \<Rightarrow> (('f, 'z) registry, unit) op" where
  "initialize_logger cl p r =
     (let r1 = logger_set_formatter cl (cl (rg_formatter r)) p r;
          r2 = (case rg_err_handler r1 of Some h \<Rightarrow> on_logger p (set_error_handler h) r1 | None \<Rightarrow> r1);
          r3 = on_logger p (set_level (configured_level (lg_name (logger_at r2 p)) r2)) r2;
          r4 = on_logger p (flush_on (rg_flush_level r3)) r3;
          r5 = (if rg_backtrace_n_messages r4 > 0
                then on_logger p (enable_backtrace (rg_backtrace_n_messages r4)) r4 else r4)
      in if rg_automatic_registration r5 then register_logger p r5 else (Inr (), r5))"

definition registry_get :: "bytes \<Rightarrow> ('f, 'z) registry \<Rightarrow> nat option" where
  "registry_get logger_name r = map_of (rg_loggers r) logger_name"

definition set_default_logger :: "nat option \<Rightarrow> ('f, 'z) registry \<Rightarrow> ('f, 'z) registry" where
  "set_default_logger new_default r =
     (let r1 = (case new_default of
          Some p \<Rightarrow> r\<lparr>rg_loggers := put_entry (lg_name (logger_at r p)) p (rg_loggers r)\<rparr>
        | None \<Rightarrow> r)
      in r1\<lparr>rg_default_logger := new_default\<rparr>)"

definition set_tp :: "nat option \<Rightarrow> ('f, 'z) registry \<Rightarrow> ('f, 'z) registry" where
  "set_tp tp r = r\<lparr>rg_tp := tp\<rparr>"

definition registry_set_formatter :: "('f \<Rightarrow> 'f) \<Rightarrow> 'f \<Rightarrow> ('f, 'z) registry \<Rightarrow> ('f, 'z) registry" where
  "registry_set_formatter cl f r = for_loggers (\<lambda>n p r. logger_set_formatter cl (cl (rg_formatter r)) p r) (r\<lparr>rg_formatter := f\<rparr>)"

definition registry_enable_backtrace :: "nat \<Rightarrow> ('f, 'z) registry \<Rightarrow> ('f, 'z) registry" where
  "registry_enable_backtrace n r = for_loggers (\<lambda>_ p. on_logger p (enable_backtrace n)) (r\<lparr>rg_backtrace_n_messages := n\<rparr>)"

definition registry_disable_backtrace :: "('f, 'z) registry \<Rightarrow> ('f, 'z) registry" where
  "registry_disable_backtrace r = for_loggers (\<lambda>_ p. on_logger p disable_backtrace) (r\<lparr>rg_backtrace_n_messages := 0\<rparr>)"

definition registry_set_level :: "level_enum \<Rightarrow> ('f, 'z) registry \<Rightarrow> ('f, 'z) registry" where
  "registry_set_level l r = (for_loggers (\<lambda>_ p. on_logger p (set_level l)) r)\<lparr>rg_global_log_level := l\<rparr>"

definition registry_flush_on :: "level_enum \<Rightarrow> ('f, 'z) registry \<Rightarrow> ('f, 'z) registry" where
  "registry_flush_on l r = (for_loggers (\<lambda>_ p. on_logger p (flush_on l)) r)\<lparr>rg_flush_level := l\<rparr>"

definition registry_set_error_handler :: "(bytes \<Rightarrow> unit result) \<Rightarrow> ('f, 'z) registry \<Rightarrow> ('f, 'z) registry" where
  "registry_set_error_handler h r = (for_loggers (\<lambda>_ p. on_logger p (set_error_handler h)) r)\<lparr>rg_err_handler := Some h\<rparr>"

text \<open>
  \<open>apply_all\<close> and \<open>flush_all\<close> call a function, or the virtual \<open>flush\<close>, for every logger, on a state of the caller; the
  first call that throws ends the loop.
\<close>

definition apply_all :: "(nat \<Rightarrow> ('s, unit) op) \<Rightarrow> ('f, 'z) registry \<Rightarrow> ('s, unit) op" where
  "apply_all fn r = each (\<lambda>(_, p). fn p) (rg_loggers r)"

definition flush_all :: "(nat \<Rightarrow> ('s, unit) op) \<Rightarrow> ('f, 'z) registry \<Rightarrow> ('s, unit) op" where
  "flush_all flush r = each (\<lambda>(_, p). flush p) (rg_loggers r)"

definition drop_logger :: "bytes \<Rightarrow> ('f, 'z) registry \<Rightarrow> ('f, 'z) registry" where
  "drop_logger logger_name r =
     (let is_default = (case rg_default_logger r of Some p \<Rightarrow> lg_name (logger_at r p) = logger_name | None \<Rightarrow> False);
          r1 = r\<lparr>rg_loggers := erase_entry logger_name (rg_loggers r)\<rparr>
      in if is_default then r1\<lparr>rg_default_logger := None\<rparr> else r1)"

definition drop_all :: "('f, 'z) registry \<Rightarrow> ('f, 'z) registry" where
  "drop_all r = r\<lparr>rg_loggers := [], rg_default_logger := None\<rparr>"

text \<open>\<open>shutdown\<close> gives up the pool; the pool's destructor runs when nobody else holds it.\<close>

definition registry_shutdown :: "('f, 'z) registry \<Rightarrow> ('f, 'z) registry" where
  "registry_shutdown r = (drop_all r)\<lparr>rg_tp := None\<rparr>"

definition set_automatic_registration :: "bool \<Rightarrow> ('f, 'z) registry \<Rightarrow> ('f, 'z) registry" where
  "set_automatic_registration b r = r\<lparr>rg_automatic_registration := b\<rparr>"

definition set_levels :: "(bytes \<rightharpoonup> level_enum) \<Rightarrow> level_enum option \<Rightarrow> ('f, 'z) registry \<Rightarrow> ('f, 'z) registry" where
  "set_levels levels global_level r =
     for_loggers (\<lambda>name p r.
         case rg_log_levels r name of
           Some l \<Rightarrow> on_logger p (set_level l) r
         | None \<Rightarrow> (case global_level of Some l \<Rightarrow> on_logger p (set_level l) r | None \<Rightarrow> r))
       (r\<lparr>rg_log_levels := levels,
          rg_global_log_level := (case global_level of Some l \<Rightarrow> l | None \<Rightarrow> rg_global_log_level r)\<rparr>)"

definition apply_logger_env_levels :: "nat \<Rightarrow> ('f, 'z) registry \<Rightarrow> ('f, 'z) registry" where
  "apply_logger_env_levels p r = on_logger p (set_level (configured_level (lg_name (logger_at r p)) r)) r"

subsection \<open>Levels from a text\<close>

definition to_lower :: "bytes \<Rightarrow> bytes" where
  "to_lower s = map (\<lambda>ch. if 65 \<le> ch \<and> ch \<le> 90 then ch + (97 - 65) else ch) s"

definition blank :: "byte \<Rightarrow> bool" where
  "blank b \<longleftrightarrow> b \<in> {32, 10, 13, 9}"

definition trim :: "bytes \<Rightarrow> bytes" where
  "trim s = dropWhile blank (rev (dropWhile blank (rev s)))"

definition extract_kv :: "byte \<Rightarrow> bytes \<Rightarrow> bytes \<times> bytes" where
  "extract_kv sep s =
     (if sep \<in> set s
      then (trim (takeWhile (\<lambda>b. b \<noteq> sep) s), trim (tl (dropWhile (\<lambda>b. b \<noteq> sep) s)))
      else (trim [], trim s))"

text \<open>\<open>std::getline\<close> with a separator: a separator at the very end starts no further token.\<close>

function tokens :: "byte \<Rightarrow> bytes \<Rightarrow> bytes list" where
  "tokens sep s =
     (if s = [] then []
      else takeWhile (\<lambda>b. b \<noteq> sep) s # tokens sep (tl (dropWhile (\<lambda>b. b \<noteq> sep) s)))"
  by pat_completeness auto
termination
proof (relation "measure (\<lambda>(sep, s). length s)", simp)
  fix sep :: byte and s :: bytes
  assume "s \<noteq> []"
  then show "((sep, tl (dropWhile (\<lambda>b. b \<noteq> sep) s)), (sep, s)) \<in> measure (\<lambda>(sep, s). length s)"
    using length_dropWhile_le[of "\<lambda>b. b \<noteq> sep" s] by (cases s) (auto simp: less_Suc_eq_le intro: le_trans[OF diff_le_self])
qed

declare tokens.simps [simp del]

definition extract_key_vals :: "bytes \<Rightarrow> bytes \<rightharpoonup> bytes" where
  "extract_key_vals s = map_of (rev (map (extract_kv 61) (filter (\<lambda>t. t \<noteq> []) (tokens 44 s))))"

definition known_level :: "bytes \<Rightarrow> level_enum option" where
  "known_level v =
     (let level_name = to_lower v; l = from_str level_name in
      if l = lv_off \<and> level_name \<noteq> str ''off'' then None else Some l)"

text \<open>A name without a logger is the global level. Texts of more than 512 bytes are ignored.\<close>

definition load_levels :: "bytes \<Rightarrow> ('f, 'z) registry \<Rightarrow> ('f, 'z) registry" where
  "load_levels input r =
     (if input = [] \<or> length input > 512 then r
      else
        let key_vals = extract_key_vals input;
            level_of = (\<lambda>name. case key_vals name of None \<Rightarrow> None | Some v \<Rightarrow> known_level v);
            levels = (\<lambda>name. if name = [] then None else level_of name)
        in set_levels levels (level_of []) r)"

subsection \<open>Names\<close>

lemma put_entry_lookup [simp]: "map_of (put_entry name p t) = (map_of t)(name \<mapsto> p)"
  by (simp add: put_entry_def AList.update_conv')

lemma put_entry_distinct: "distinct (map fst t) \<Longrightarrow> distinct (map fst (put_entry name p t))"
  by (simp add: put_entry_def AList.distinct_update)

lemma erase_entry_lookup [simp]: "map_of (erase_entry name t) = (map_of t)(name := None)"
  by (simp add: erase_entry_def AList.delete_conv')

text \<open>What the loops over all loggers do, when no logger is registered under two names.\<close>

lemma fold_on_loggers:
  assumes "distinct (map snd t)" "(name, p) \<in> set t" "I r"
    and f: "\<And>n q r. I r \<Longrightarrow> I (f n q r) \<and> logger_at (f n q r) = (logger_at r)(q := g n (logger_at r q))"
  shows "logger_at (fold (\<lambda>(n, q). f n q) t r) p = g name (logger_at r p)"
  using assms(1-3)
proof (induction t arbitrary: r)
  case (Cons e t)
  obtain n q where e: "e = (n, q)" by (cases e)
  have other: "I r' \<Longrightarrow> q' \<notin> snd ` set t' \<Longrightarrow> logger_at (fold (\<lambda>(n, q). f n q) t' r') q' = logger_at r' q'" for q' r' t'
    by (induction t' arbitrary: r') (auto simp: f)
  show ?case
  proof (cases "(name, p) = e")
    case True
    then have "p \<notin> snd ` set t" using Cons.prems(1) by (auto simp: rev_image_eqI)
    then show ?thesis using True e Cons.prems(3) other[of "f n q r" p t] by (simp add: f)
  next
    case False
    then have m: "(name, p) \<in> set t" using Cons.prems(2) by simp
    then have "p \<noteq> q" using Cons.prems(1) e by (force simp: rev_image_eqI)
    then show ?thesis using Cons.IH[of "f n q r"] Cons.prems(1,3) m e by (simp add: f)
  qed
qed simp

lemma set_levels_at:
  assumes "distinct (map snd (rg_loggers r))" "(name, p) \<in> set (rg_loggers r)"
  shows "lg_level (logger_at (set_levels levels g r) p) =
    (case levels name of Some l \<Rightarrow> l | None \<Rightarrow> (case g of Some l \<Rightarrow> l | None \<Rightarrow> lg_level (logger_at r p)))"
proof -
  let ?r = "r\<lparr>rg_log_levels := levels, rg_global_log_level := (case g of Some l \<Rightarrow> l | None \<Rightarrow> rg_global_log_level r)\<rparr>"
  let ?f = "\<lambda>name p r. case rg_log_levels r name of Some l \<Rightarrow> on_logger p (set_level l) r
         | None \<Rightarrow> (case g of Some l \<Rightarrow> on_logger p (set_level l) r | None \<Rightarrow> r)"
  let ?g = "\<lambda>name lg. case levels name of Some l \<Rightarrow> set_level l lg | None \<Rightarrow> (case g of Some l \<Rightarrow> set_level l lg | None \<Rightarrow> lg)"
  have "logger_at (fold (\<lambda>(n, q). ?f n q) (rg_loggers r) ?r) p = ?g name (logger_at ?r p)"
    by (rule fold_on_loggers[OF assms, where I = "\<lambda>r. rg_log_levels r = levels"])
      (auto simp: on_logger_def split: option.splits)
  then show ?thesis by (simp add: set_levels_def for_loggers_def set_level_def split: option.split)
qed

text \<open>
  Levels given as a text reach the loggers they name. After \<open>load_levels\<close> has read a text of at most
  512 bytes, a registered logger has the level given for its name, else the level given without a name,
  else the level it had; an entry whose level is not known counts as absent. A longer text changes nothing.
\<close>

theorem load_levels_exact:
  assumes "distinct (map snd (rg_loggers r))" "(name, p) \<in> set (rg_loggers r)" "name \<noteq> []"
  shows "lg_level (logger_at (load_levels input r) p) =
    (if length input > 512 then lg_level (logger_at r p)
     else case Option.bind (extract_key_vals input name) known_level of
       Some l \<Rightarrow> l
     | None \<Rightarrow> (case Option.bind (extract_key_vals input []) known_level of Some l \<Rightarrow> l | None \<Rightarrow> lg_level (logger_at r p)))"
proof -
  have e: "extract_key_vals [] = Map.empty" by (simp add: extract_key_vals_def tokens.simps)
  have b: "(case x of None \<Rightarrow> None | Some v \<Rightarrow> known_level v) = Option.bind x known_level" for x by (cases x) simp_all
  show ?thesis using assms(3) by (auto simp: load_levels_def Let_def set_levels_at[OF assms(1,2)] b e split: option.splits)
qed

definition sample_registry :: "(unit, unit) registry" where
  "sample_registry = (new_registry () 1 \<lparr>rw_loggers = (\<lambda>_. new_logger [97] []), rw_formatters = (\<lambda>_. ())\<rparr>)
     \<lparr>rg_loggers := [([97], 0)]\<rparr>"

theorem load_levels_exact_witness:
  "lg_level (logger_at (load_levels (str ''a=Debug, b=off'') sample_registry) 0) = lv_debug"
proof -
  have "Option.bind (extract_key_vals (str ''a=Debug, b=off'') [97]) known_level = Some lv_debug" by code_simp
  moreover have "length (str ''a=Debug, b=off'') = 14" by (simp add: str_def)
  ultimately show ?thesis using load_levels_exact[of sample_registry "[97]" 0 "str ''a=Debug, b=off''"]
    by (simp add: sample_registry_def)
qed

end
