(* ===== verification/File_Sink.thy ===== *)
theory File_Sink
  imports Log_Core
begin

text \<open>
  The sinks the program writes to: \<open>sinks/stdout_sinks-inl.h\<close>, \<open>sinks/rotating_file_sink-inl.h\<close> and, under
  it, \<open>details/file_helper-inl.h\<close> and the file functions of \<open>details/os-inl.h\<close>, all under
  \<open>deps/spdlog-1.15.3/include/spdlog\<close> and on a POSIX system; also \<open>sinks/base_sink-inl.h\<close> and
  \<open>sinks/basic_file_sink-inl.h\<close>.
\<close>

subsection \<open>The disk\<close>

text \<open>
  Regular files with their contents and directories. Every call of the system that can fail asks
  \<open>dk_fault\<close>, at the number of the call, whether it fails for a reason the model does not
  describe (permissions, a full disk). \<open>dk_strerror\<close> is the system's description of an error. The
  buffer of a stream is not visible: the library asks for the size of a file only after a flush.
\<close>

type_synonym path = bytes

datatype file_event_kind = Before_Open | After_Open | Before_Close | After_Close

record disk =
  dk_files :: "path \<rightharpoonup> bytes"
  dk_dirs :: "path set"
  dk_fault :: "nat \<Rightarrow> bool"
  dk_calls :: nat
  dk_strerror :: bytes
  dk_events :: "(file_event_kind \<times> path) list"

definition find_last_of :: "byte \<Rightarrow> bytes \<Rightarrow> nat option" where
  "find_last_of c p = (if c \<in> set p then Some (length p - 1 - length (takeWhile (\<lambda>b. b \<noteq> c) (rev p))) else None)"

definition find_first_of :: "byte \<Rightarrow> bytes \<Rightarrow> nat \<Rightarrow> nat option" where
  "find_first_of c p off =
     (if c \<in> set (drop off p) then Some (off + length (takeWhile (\<lambda>b. b \<noteq> c) (drop off p))) else None)"

definition dir_name :: "path \<Rightarrow> path" where
  "dir_name p = (case find_last_of 47 p of Some pos \<Rightarrow> take pos p | None \<Rightarrow> [])"

definition path_exists :: "path \<Rightarrow> disk \<Rightarrow> bool" where
  "path_exists p d \<longleftrightarrow> dk_files d p \<noteq> None \<or> p \<in> dk_dirs d"

text \<open>A name can be created in the current directory or in a directory that exists.\<close>

definition parent_exists :: "path \<Rightarrow> disk \<Rightarrow> bool" where
  "parent_exists p d \<longleftrightarrow> dir_name p = [] \<or> dir_name p \<in> dk_dirs d"

definition system_call :: "(disk \<Rightarrow> bool) \<Rightarrow> (disk \<Rightarrow> disk) \<Rightarrow> disk \<Rightarrow> bool \<times> disk" where
  "system_call possible effect d =
     (let d1 = d\<lparr>dk_calls := Suc (dk_calls d)\<rparr> in
      if dk_fault d (dk_calls d) \<or> \<not> possible d then (False, d1) else (True, effect d1))"

definition mkdir :: "path \<Rightarrow> disk \<Rightarrow> bool \<times> disk" where
  "mkdir p = system_call (\<lambda>d. \<not> path_exists p d \<and> parent_exists p d) (\<lambda>d. d\<lparr>dk_dirs := insert p (dk_dirs d)\<rparr>)"

definition fopen_ab :: "path \<Rightarrow> disk \<Rightarrow> bool \<times> disk" where
  "fopen_ab p = system_call (\<lambda>d. p \<noteq> [] \<and> p \<notin> dk_dirs d \<and> parent_exists p d)
     (\<lambda>d. case dk_files d p of None \<Rightarrow> d\<lparr>dk_files := (dk_files d)(p \<mapsto> [])\<rparr> | Some _ \<Rightarrow> d)"

definition fopen_wb :: "path \<Rightarrow> disk \<Rightarrow> bool \<times> disk" where
  "fopen_wb p = system_call (\<lambda>d. p \<noteq> [] \<and> p \<notin> dk_dirs d \<and> parent_exists p d) (\<lambda>d. d\<lparr>dk_files := (dk_files d)(p \<mapsto> [])\<rparr>)"

definition os_remove :: "path \<Rightarrow> disk \<Rightarrow> bool \<times> disk" where
  "os_remove p = system_call (\<lambda>d. dk_files d p \<noteq> None) (\<lambda>d. d\<lparr>dk_files := (dk_files d)(p := None)\<rparr>)"

definition os_rename :: "path \<Rightarrow> path \<Rightarrow> disk \<Rightarrow> bool \<times> disk" where
  "os_rename a b = system_call (\<lambda>d. dk_files d a \<noteq> None \<and> b \<notin> dk_dirs d \<and> parent_exists b d)
     (\<lambda>d. d\<lparr>dk_files := (dk_files d)(a := None, b := dk_files d a)\<rparr>)"

text \<open>Writing to a stream whose file was removed succeeds, and what is written is lost.\<close>

definition fwrite_bytes :: "path \<Rightarrow> bytes \<Rightarrow> disk \<Rightarrow> bool \<times> disk" where
  "fwrite_bytes p buf = system_call (\<lambda>_. True)
     (\<lambda>d. d\<lparr>dk_files := (dk_files d)(p := map_option (\<lambda>c. c @ buf) (dk_files d p))\<rparr>)"

definition fflush :: "disk \<Rightarrow> bool \<times> disk" where
  "fflush = system_call (\<lambda>_. True) (\<lambda>d. d)"

definition fsync :: "path \<Rightarrow> disk \<Rightarrow> bool \<times> disk" where
  "fsync p = system_call (\<lambda>_. True) (\<lambda>d. d)"

text \<open>The turns of the loop of \<open>create_dir\<close>: one directory after the other, from the top.\<close>

lemma takeWhile_before: "c \<in> set xs \<Longrightarrow> length (takeWhile (\<lambda>b. b \<noteq> c) xs) < length xs"
  by (induction xs) auto

lemma find_first_of_bounds: "find_first_of c p off = Some pos \<Longrightarrow> off \<le> pos \<and> pos < length p"
proof -
  assume f: "find_first_of c p off = Some pos"
  then have c: "c \<in> set (drop off p)" and pos: "pos = off + length (takeWhile (\<lambda>b. b \<noteq> c) (drop off p))"
    by (auto simp: find_first_of_def split: if_splits)
  have "length (takeWhile (\<lambda>b. b \<noteq> c) (drop off p)) < length (drop off p)"
    by (rule takeWhile_before[OF c])
  then show ?thesis using pos by simp
qed

function create_dirs :: "path \<Rightarrow> nat \<Rightarrow> disk \<Rightarrow> bool \<times> disk" where
  "create_dirs p off d =
     (let token_pos = (case find_first_of 47 p off of None \<Rightarrow> length p | Some pos \<Rightarrow> pos);
          subdir = take token_pos p;
          (ok, d1) = (if subdir \<noteq> [] \<and> \<not> path_exists subdir d then mkdir subdir d else (True, d))
      in if \<not> ok then (False, d1)
         else if token_pos + 1 < length p then create_dirs p (token_pos + 1) d1
         else (True, d1))"
  by pat_completeness auto
termination
  by (relation "measure (\<lambda>(p, off, d). length p - off)")
     (auto split: option.splits dest: find_first_of_bounds)

declare create_dirs.simps [simp del]

definition create_dir :: "path \<Rightarrow> disk \<Rightarrow> bool \<times> disk" where
  "create_dir p d =
     (if path_exists p d then (True, d) else if p = [] then (False, d) else create_dirs p 0 d)"

subsection \<open>The file helper\<close>

text \<open>
  The helper keeps the name of its file and, in \<open>fh_fd\<close>, the file that its stream appends to, \<open>None\<close>
  when the stream is null. The disk it works on is part of its state; \<open>fh_handlers\<close> says which of the
  four callbacks of a user are set.
\<close>

record file_helper =
  fh_fd :: "path option"
  fh_filename :: path
  fh_handlers :: "file_event_kind set"
  fh_disk :: disk

definition new_file_helper :: "file_event_kind set \<Rightarrow> disk \<Rightarrow> file_helper" where
  "new_file_helper hs d = \<lparr>fh_fd = None, fh_filename = [], fh_handlers = hs, fh_disk = d\<rparr>"

definition on_disk :: "(disk \<Rightarrow> bool \<times> disk) \<Rightarrow> (file_helper, bool) op" where
  "on_disk f h = (case f (fh_disk h) of (ok, d) \<Rightarrow> (Inr ok, h\<lparr>fh_disk := d\<rparr>))"

definition file_event :: "file_event_kind \<Rightarrow> file_helper \<Rightarrow> file_helper" where
  "file_event k h =
     (if k \<in> fh_handlers h
      then h\<lparr>fh_disk := (fh_disk h)\<lparr>dk_events := dk_events (fh_disk h) @ [(k, fh_filename h)]\<rparr>\<rparr> else h)"

text \<open>\<open>throw_spdlog_ex(msg, errno)\<close>: the text ends with the system's description.\<close>

definition throw_errno :: "bytes \<Rightarrow> (file_helper, 'a) op" where
  "throw_errno msg h = (Inl (Thrown (spdlog_ex (msg @ str '': '' @ dk_strerror (fh_disk h)))), h)"

definition fh_close :: "file_helper \<Rightarrow> file_helper" where
  "fh_close h =
     (case fh_fd h of
        None \<Rightarrow> h
      | Some _ \<Rightarrow> file_event After_Close ((file_event Before_Close h)\<lparr>fh_fd := None\<rparr>))"

definition open_tries :: nat where
  "open_tries = 5"

primrec try_open :: "path \<Rightarrow> bool \<Rightarrow> nat \<Rightarrow> (file_helper, unit) op" where
  "try_open fname trunc 0 = sbind (sget fh_filename) (\<lambda>name.
     throw_errno (str ''Failed opening file '' @ name @ str '' for writing''))"
| "try_open fname trunc (Suc n) =
     sbind (on_disk (create_dir (dir_name fname))) (\<lambda>_.
     sbind (if trunc then on_disk (fopen_wb fname) else sreturn True) (\<lambda>ok.
       if \<not> ok then try_open fname trunc n
       else sbind (on_disk (fopen_ab fname)) (\<lambda>opened.
         if opened then supdate (\<lambda>h. file_event After_Open (h\<lparr>fh_fd := Some fname\<rparr>))
         else try_open fname trunc n)))"

definition fh_open :: "path \<Rightarrow> bool \<Rightarrow> (file_helper, unit) op" where
  "fh_open fname trunc =
     sbind (supdate (\<lambda>h. file_event Before_Open ((fh_close h)\<lparr>fh_filename := fname\<rparr>))) (\<lambda>_.
       try_open fname trunc open_tries)"

definition fh_reopen :: "bool \<Rightarrow> (file_helper, unit) op" where
  "fh_reopen trunc =
     sbind (sget fh_filename) (\<lambda>name.
       if name = [] then sthrow (spdlog_ex (str ''Failed re opening file - was not opened before''))
       else fh_open name trunc)"

text \<open>\<open>fflush(nullptr)\<close> flushes every stream of the process.\<close>

definition fh_flush :: "(file_helper, unit) op" where
  "fh_flush =
     sbind (on_disk fflush) (\<lambda>ok.
       if ok then sreturn () else sbind (sget fh_filename) (\<lambda>name. throw_errno (str ''Failed flush to file '' @ name)))"

definition fh_sync :: "(file_helper, unit) op" where
  "fh_sync =
     sbind (sget fh_fd) (\<lambda>fd. case fd of
       None \<Rightarrow> slift (Inl Undefined)
     | Some p \<Rightarrow> sbind (on_disk (fsync p)) (\<lambda>ok.
         if ok then sreturn () else sbind (sget fh_filename) (\<lambda>name. throw_errno (str ''Failed to fsync file '' @ name))))"

definition fh_write :: "bytes \<Rightarrow> (file_helper, unit) op" where
  "fh_write buf =
     sbind (sget fh_fd) (\<lambda>fd. case fd of
       None \<Rightarrow> sreturn ()
     | Some p \<Rightarrow> sbind (on_disk (fwrite_bytes p buf)) (\<lambda>ok.
         if ok then sreturn () else sbind (sget fh_filename) (\<lambda>name. throw_errno (str ''Failed writing to file '' @ name))))"

definition filesize :: "path \<Rightarrow> (file_helper, nat) op" where
  "filesize p h =
     (let (ok, d) = system_call (\<lambda>d. dk_files d p \<noteq> None) (\<lambda>d. d) (fh_disk h); h1 = h\<lparr>fh_disk := d\<rparr> in
      if ok then (Inr (length (the (dk_files d p))), h1)
      else throw_errno (str ''Failed getting file size from fd'') h1)"

definition fh_size :: "(file_helper, nat) op" where
  "fh_size =
     sbind (sget fh_fd) (\<lambda>fd. case fd of
       None \<Rightarrow> sbind (sget fh_filename) (\<lambda>name. sthrow (spdlog_ex (str ''Cannot use size() on closed file '' @ name)))
     | Some p \<Rightarrow> filesize p)"

definition split_by_extension :: "path \<Rightarrow> path \<times> path" where
  "split_by_extension fname =
     (case find_last_of 46 fname of
        None \<Rightarrow> (fname, [])
      | Some ext_index \<Rightarrow>
          if ext_index = 0 \<or> ext_index = length fname - 1 then (fname, [])
          else (case find_last_of 47 fname of
              Some folder_index \<Rightarrow>
                if folder_index \<ge> ext_index - 1 then (fname, [])
                else (take ext_index fname, drop ext_index fname)
            | None \<Rightarrow> (take ext_index fname, drop ext_index fname)))"

subsection \<open>The rotating file sink\<close>

text \<open>The formatter is a virtual object of the sink: what it makes of a message, or what it throws.\<close>

definition formatted_by :: "(log_msg \<Rightarrow> exn + bytes) \<Rightarrow> log_msg \<Rightarrow> bytes result" where
  "formatted_by f msg = (case f msg of Inl e \<Rightarrow> Inl (Thrown e) | Inr b \<Rightarrow> Inr b)"

record rotating_file_sink =
  rs_base_filename :: path
  rs_max_size :: nat
  rs_max_files :: nat
  rs_current_size :: nat
  rs_helper :: file_helper
  rs_formatter :: "log_msg \<Rightarrow> exn + bytes"

definition on_helper :: "(file_helper, 'a) op \<Rightarrow> (rotating_file_sink, 'a) op" where
  "on_helper m s = (case m (rs_helper s) of (r, h) \<Rightarrow> (r, s\<lparr>rs_helper := h\<rparr>))"

definition calc_filename :: "path \<Rightarrow> nat \<Rightarrow> path" where
  "calc_filename filename index =
     (if index = 0 then filename
      else case split_by_extension filename of (basename, ext) \<Rightarrow> basename @ [46] @ dec_digits index @ ext)"

definition rename_file :: "path \<Rightarrow> path \<Rightarrow> (file_helper, bool) op" where
  "rename_file src target = sbind (on_disk (os_remove target)) (\<lambda>_. on_disk (os_rename src target))"

text \<open>The turns of the loop of \<open>rotate_\<close>, from \<open>i\<close> down to one.\<close>

definition rotate_one :: "nat \<Rightarrow> (rotating_file_sink, unit) op" where
  "rotate_one i =
     sbind (sget (\<lambda>s. (calc_filename (rs_base_filename s) (i - 1), calc_filename (rs_base_filename s) i,
                       path_exists (calc_filename (rs_base_filename s) (i - 1)) (fh_disk (rs_helper s)))))
       (\<lambda>(src, target, exists).
         if \<not> exists then sreturn ()
         else sbind (on_helper (rename_file src target)) (\<lambda>ok.
           if ok then sreturn ()
           else sbind (on_helper (rename_file src target)) (\<lambda>ok.
             if ok then sreturn ()
             else sbind (on_helper (fh_reopen True)) (\<lambda>_.
               sbind (supdate (\<lambda>s. s\<lparr>rs_current_size := 0\<rparr>)) (\<lambda>_.
                 on_helper (throw_errno (str ''rotating_file_sink: failed renaming '' @ src @ str '' to '' @ target)))))))"

primrec rotate_from :: "nat \<Rightarrow> (rotating_file_sink, unit) op" where
  "rotate_from 0 = sreturn ()"
| "rotate_from (Suc i) = sbind (rotate_one (Suc i)) (\<lambda>_. rotate_from i)"

definition rotate :: "(rotating_file_sink, unit) op" where
  "rotate =
     sbind (supdate (\<lambda>s. s\<lparr>rs_helper := fh_close (rs_helper s)\<rparr>)) (\<lambda>_.
     sbind (sget rs_max_files) (\<lambda>n.
     sbind (rotate_from n) (\<lambda>_. on_helper (fh_reopen True))))"

definition MaxFiles :: nat where
  "MaxFiles = 200000"

definition new_rotating_file_sink ::
  "path \<Rightarrow> nat \<Rightarrow> nat \<Rightarrow> bool \<Rightarrow> file_event_kind set \<Rightarrow> (log_msg \<Rightarrow> exn + bytes) \<Rightarrow> disk \<Rightarrow>
   unit result \<times> rotating_file_sink" where
  "new_rotating_file_sink base_filename max_size max_files rotate_on_open handlers formatter d =
     (if max_size = 0 then sthrow (spdlog_ex (str ''rotating sink constructor: max_size arg cannot be zero''))
      else if max_files > MaxFiles then
        sthrow (spdlog_ex (str ''rotating sink constructor: max_files arg cannot exceed MaxFiles''))
      else
        sbind (on_helper (fh_open (calc_filename base_filename 0) False)) (\<lambda>_.
        sbind (on_helper fh_size) (\<lambda>n.
        sbind (supdate (\<lambda>s. s\<lparr>rs_current_size := n\<rparr>)) (\<lambda>_.
          if rotate_on_open \<and> n > 0
          then sbind rotate (\<lambda>_. supdate (\<lambda>s. s\<lparr>rs_current_size := 0\<rparr>))
          else sreturn ()))))
     \<lparr>rs_base_filename = base_filename, rs_max_size = max_size, rs_max_files = max_files, rs_current_size = 0,
      rs_helper = new_file_helper handlers d, rs_formatter = formatter\<rparr>"

definition rotate_now :: "(rotating_file_sink, unit) op" where
  "rotate_now = rotate"

definition rotating_set_formatter :: "(log_msg \<Rightarrow> exn + bytes) \<Rightarrow> rotating_file_sink \<Rightarrow> rotating_file_sink" where
  "rotating_set_formatter f s = s\<lparr>rs_formatter := f\<rparr>"

definition set_max_size :: "nat \<Rightarrow> (rotating_file_sink, unit) op" where
  "set_max_size n =
     (if n = 0 then sthrow (spdlog_ex (str ''rotating sink set_max_size: max_size arg cannot be zero''))
      else supdate (\<lambda>s. s\<lparr>rs_max_size := n\<rparr>))"

definition set_max_files :: "nat \<Rightarrow> (rotating_file_sink, unit) op" where
  "set_max_files n =
     (if n > MaxFiles then sthrow (spdlog_ex (str ''rotating sink set_max_files: max_files arg cannot exceed 200000''))
      else supdate (\<lambda>s. s\<lparr>rs_max_files := n\<rparr>))"

definition rotating_sink_it :: "log_msg \<Rightarrow> (rotating_file_sink, unit) op" where
  "rotating_sink_it msg =
     sbind (\<lambda>s. (formatted_by (rs_formatter s) msg, s)) (\<lambda>formatted.
     sbind (sget (\<lambda>s. (rs_current_size s + length formatted) mod size_t_range)) (\<lambda>new_size.
     sbind (sget rs_max_size) (\<lambda>max_size.
     sbind (if new_size > max_size then
              sbind (on_helper fh_flush) (\<lambda>_.
              sbind (on_helper fh_size) (\<lambda>n.
                if n > 0 then sbind rotate (\<lambda>_. sreturn (length formatted)) else sreturn new_size))
            else sreturn new_size) (\<lambda>new_size.
     sbind (on_helper (fh_write formatted)) (\<lambda>_.
       supdate (\<lambda>s. s\<lparr>rs_current_size := new_size\<rparr>))))))"

definition rotating_ops :: "rotating_file_sink sink_ops" where
  "rotating_ops = \<lparr>so_log = rotating_sink_it, so_flush = on_helper fh_flush\<rparr>"

subsection \<open>The plain file sink and the console\<close>

record basic_file_sink =
  bs_helper :: file_helper
  bs_formatter :: "log_msg \<Rightarrow> exn + bytes"

definition on_basic :: "(file_helper, 'a) op \<Rightarrow> (basic_file_sink, 'a) op" where
  "on_basic m s = (case m (bs_helper s) of (r, h) \<Rightarrow> (r, s\<lparr>bs_helper := h\<rparr>))"

definition new_basic_file_sink ::
  "path \<Rightarrow> bool \<Rightarrow> file_event_kind set \<Rightarrow> (log_msg \<Rightarrow> exn + bytes) \<Rightarrow> disk \<Rightarrow> unit result \<times> basic_file_sink" where
  "new_basic_file_sink filename trunc handlers formatter d =
     on_basic (fh_open filename trunc) \<lparr>bs_helper = new_file_helper handlers d, bs_formatter = formatter\<rparr>"

definition basic_truncate :: "(basic_file_sink, unit) op" where
  "basic_truncate = on_basic (fh_reopen True)"

definition basic_sink_it :: "log_msg \<Rightarrow> (basic_file_sink, unit) op" where
  "basic_sink_it msg = sbind (\<lambda>s. (formatted_by (bs_formatter s) msg, s)) (\<lambda>formatted. on_basic (fh_write formatted))"

definition basic_ops :: "basic_file_sink sink_ops" where
  "basic_ops = \<lparr>so_log = basic_sink_it, so_flush = on_basic fh_flush\<rparr>"

text \<open>The console: \<open>so_fails\<close> says which writes fail; the sink does not look at the result.\<close>

record stdout_sink =
  ss_formatter :: "log_msg \<Rightarrow> exn + bytes"
  ss_out :: bytes
  ss_writes :: nat
  ss_fails :: "nat \<Rightarrow> bool"

definition new_stdout_sink :: "(log_msg \<Rightarrow> exn + bytes) \<Rightarrow> (nat \<Rightarrow> bool) \<Rightarrow> stdout_sink" where
  "new_stdout_sink formatter fails = \<lparr>ss_formatter = formatter, ss_out = [], ss_writes = 0, ss_fails = fails\<rparr>"

definition stdout_set_formatter :: "(log_msg \<Rightarrow> exn + bytes) \<Rightarrow> stdout_sink \<Rightarrow> stdout_sink" where
  "stdout_set_formatter f s = s\<lparr>ss_formatter := f\<rparr>"

definition stdout_log :: "log_msg \<Rightarrow> (stdout_sink, unit) op" where
  "stdout_log msg =
     sbind (\<lambda>s. (formatted_by (ss_formatter s) msg, s)) (\<lambda>formatted.
       supdate (\<lambda>s. if ss_fails s (ss_writes s) then s\<lparr>ss_writes := Suc (ss_writes s)\<rparr>
                    else s\<lparr>ss_writes := Suc (ss_writes s), ss_out := ss_out s @ formatted\<rparr>))"

definition stdout_ops :: "stdout_sink sink_ops" where
  "stdout_ops = \<lparr>so_log = stdout_log, so_flush = sreturn ()\<rparr>"


subsection \<open>The sinks keep the contract\<close>

lemma defined_on_disk [defined_rules]: "defined (on_disk f)"
  by (auto simp: defined_def on_disk_def split: prod.split)

lemma defined_throw_errno [defined_rules]: "defined (throw_errno msg)"
  by (simp add: defined_def throw_errno_def)

lemma defined_on_helper [defined_rules]: "defined m \<Longrightarrow> defined (on_helper m)"
  by (auto simp: defined_def on_helper_def split: prod.split) (metis fst_conv)

lemma defined_on_basic [defined_rules]: "defined m \<Longrightarrow> defined (on_basic m)"
  by (auto simp: defined_def on_basic_def split: prod.split) (metis fst_conv)

lemma defined_filesize [defined_rules]: "defined (filesize p)"
  by (auto simp: defined_def filesize_def throw_errno_def Let_def split: prod.split if_splits)

lemma defined_fh_size [defined_rules]: "defined fh_size"
  by (auto simp: fh_size_def intro!: defined_rules split: option.split)

lemma defined_fh_flush [defined_rules]: "defined fh_flush"
  by (auto simp: fh_flush_def intro!: defined_rules)

lemma defined_fh_write [defined_rules]: "defined (fh_write b)"
  by (auto simp: fh_write_def intro!: defined_rules split: option.split)

lemma defined_try_open [defined_rules]: "defined (try_open p t n)"
proof (induction n)
  case 0
  then show ?case by (simp only: try_open.simps) (intro defined_rules)
next
  case (Suc n)
  then show ?case by (simp only: try_open.simps) (auto intro!: defined_rules)
qed

lemma defined_fh_reopen [defined_rules]: "defined (fh_reopen t)"
  by (auto simp: fh_reopen_def fh_open_def intro!: defined_rules)

lemma defined_rotate_one [defined_rules]: "defined (rotate_one i)"
  by (auto simp: rotate_one_def rename_file_def intro!: defined_rules split: prod.split)

lemma defined_rotate_from [defined_rules]: "defined (rotate_from n)"
  by (induction n) (auto intro!: defined_rules)

lemma defined_rotate [defined_rules]: "defined rotate"
  by (auto simp: rotate_def intro!: defined_rules)

lemma defined_format [defined_rules]: "defined (\<lambda>s. (formatted_by (f s) msg, s))"
  by (auto simp: defined_def formatted_by_def split: sum.split)

lemma defined_rotating_sink_it [defined_rules]: "defined (rotating_sink_it msg)"
  by (auto simp: rotating_sink_it_def intro!: defined_rules)

lemma definedD: "defined m \<Longrightarrow> fst (m s) \<noteq> Inl Undefined"
  by (simp add: defined_def)

interpretation rotating: sink_contract rotating_ops
  by unfold_locales (auto simp: rotating_ops_def intro!: definedD defined_rules)

interpretation basic: sink_contract basic_ops
  by unfold_locales (auto simp: basic_ops_def basic_sink_it_def intro!: definedD defined_rules)

interpretation console: sink_contract stdout_ops
  by unfold_locales (auto simp: stdout_ops_def stdout_log_def intro!: definedD defined_rules)

subsection \<open>File names\<close>

lemma find_last_of_append: "c \<notin> set ys \<Longrightarrow> find_last_of c (xs @ ys) = find_last_of c xs"
proof -
  assume c: "c \<notin> set ys"
  have "takeWhile (\<lambda>b. b \<noteq> c) (rev ys @ rev xs) = rev ys @ takeWhile (\<lambda>b. b \<noteq> c) (rev xs)"
    using c by (subst takeWhile_append2) auto
  then show ?thesis using c by (auto simp: find_last_of_def)
qed

lemma find_last_of_bound: "find_last_of c p = Some i \<Longrightarrow> i < length p"
  by (cases p) (auto simp: find_last_of_def split: if_splits)

lemma dir_name_append: "47 \<notin> set ys \<Longrightarrow> dir_name (xs @ ys) = dir_name xs"
  by (auto simp: dir_name_def find_last_of_append split: option.split dest: find_last_of_bound)

lemma find_last_of_right: "c \<in> set ys \<Longrightarrow> find_last_of c (xs @ ys) = Some i \<Longrightarrow> length xs \<le> i"
proof -
  assume c: "c \<in> set ys" and f: "find_last_of c (xs @ ys) = Some i"
  have "takeWhile (\<lambda>b. b \<noteq> c) (rev ys @ rev xs) = takeWhile (\<lambda>b. b \<noteq> c) (rev ys)"
    using c by (intro takeWhile_append1[of c]) auto
  moreover have "length (takeWhile (\<lambda>b. b \<noteq> c) (rev ys)) < length ys" using takeWhile_before[of c "rev ys"] c by simp
  ultimately show ?thesis using f c by (auto simp: find_last_of_def)
qed

lemma no_byte_after_last: "find_last_of c p = Some i \<Longrightarrow> i < k \<Longrightarrow> c \<notin> set (drop k p)"
proof
  assume f: "find_last_of c p = Some i" and k: "i < k" and c: "c \<in> set (drop k p)"
  then have "length (take k p) \<le> i" using find_last_of_right[of c "drop k p" "take k p"] by simp
  then show False using k find_last_of_bound[OF f] by simp
qed

text \<open>A name and its numbered variants differ, and lie in the same directory.\<close>

lemma split_by_extension_append: "split_by_extension f = (b, e) \<Longrightarrow> f = b @ e \<and> 47 \<notin> set e"
proof -
  assume s: "split_by_extension f = (b, e)"
  consider "b = f" "e = []"
    | i where "b = take i f" "e = drop i f" "find_last_of 47 f = None"
    | i j where "b = take i f" "e = drop i f" "find_last_of 47 f = Some j" "j < i"
    using s by (auto simp: split_by_extension_def split: option.splits if_splits)
  then show ?thesis
  proof cases
    case 2
    then have "47 \<notin> set f" by (simp add: find_last_of_def split: if_splits)
    then show ?thesis using 2 by (auto dest: in_set_dropD)
  next
    case 3
    then show ?thesis using no_byte_after_last[OF 3(3,4)] by simp
  qed simp
qed

lemma dec_digits_no_sep: "47 \<notin> set (dec_digits n)"
  using dec_digits_range[of n] by (auto simp: subset_iff)

lemma calc_filename_inj: "calc_filename f i = calc_filename f j \<longleftrightarrow> i = j"
proof -
  obtain b e where s: "split_by_extension f = (b, e)" by fastforce
  then have f: "f = b @ e" using split_by_extension_append by blast
  have ne: "b @ 46 # dec_digits k @ e \<noteq> b @ e" for k by (simp add: append_eq_append_conv2)
  have "dec_digits i = dec_digits j \<Longrightarrow> i = j" by (metis dec_value_digits)
  then show ?thesis using s ne[of i] ne[of j] by (auto simp: calc_filename_def) (auto simp: f)
qed

lemma dir_name_calc [simp]: "dir_name (calc_filename f i) = dir_name f"
proof -
  obtain b e where s: "split_by_extension f = (b, e)" by fastforce
  then have f: "f = b @ e" "47 \<notin> set e" using split_by_extension_append by blast+
  have "47 \<notin> set (46 # dec_digits i @ e)" using f(2) dec_digits_no_sep by simp
  then have "dir_name (b @ 46 # dec_digits i @ e) = dir_name b" by (rule dir_name_append)
  then show ?thesis using s f dir_name_append[OF f(2)] by (simp add: calc_filename_def)
qed

lemma length_calc_filename: "length f \<le> length (calc_filename f i)"
proof -
  obtain b e where s: "split_by_extension f = (b, e)" by fastforce
  then have "f = b @ e" using split_by_extension_append by blast
  then show ?thesis using s by (simp add: calc_filename_def)
qed

end
