(* ===== verification/Rotation.thy ===== *)
theory Rotation
  imports File_Sink
begin

text \<open>
  What the rotating file sink leaves on the disk, when no call of the system fails: the effect of one
  rotation on every file, and the refinement of the sink by a list of file contents.
\<close>

subsection \<open>Calls that do not fail\<close>

definition no_faults :: "disk \<Rightarrow> bool" where
  "no_faults d \<longleftrightarrow> (\<forall>n. \<not> dk_fault d n)"

text \<open>\<open>now F h h'\<close>: the helper is as before, but the files are \<open>F\<close>.\<close>

definition now :: "(path \<rightharpoonup> bytes) \<Rightarrow> file_helper \<Rightarrow> file_helper \<Rightarrow> bool" where
  "now F h h' \<longleftrightarrow> fh_fd h' = fh_fd h \<and> fh_filename h' = fh_filename h \<and> fh_handlers h' = fh_handlers h \<and>
     dk_files (fh_disk h') = F \<and> dk_dirs (fh_disk h') = dk_dirs (fh_disk h) \<and> no_faults (fh_disk h')"

abbreviation files :: "file_helper \<Rightarrow> path \<rightharpoonup> bytes" where
  "files h \<equiv> dk_files (fh_disk h)"

text \<open>Where the sink can put a file of the given name.\<close>

definition usable :: "path \<Rightarrow> file_helper \<Rightarrow> bool" where
  "usable p h \<longleftrightarrow> p \<noteq> [] \<and> p \<notin> dk_dirs (fh_disk h) \<and> parent_exists p (fh_disk h) \<and> no_faults (fh_disk h)"

lemma usable_now: "now F h h' \<Longrightarrow> usable p h \<Longrightarrow> usable p h'"
  by (simp add: now_def usable_def parent_exists_def)

lemma usable_cong:
  "dk_dirs (fh_disk h') = dk_dirs (fh_disk h) \<Longrightarrow> no_faults (fh_disk h') \<Longrightarrow> usable p h \<Longrightarrow> usable p h'"
  by (simp add: usable_def parent_exists_def)

lemma fopen_wb_ok: "usable p h \<Longrightarrow> \<exists>h'. on_disk (fopen_wb p) h = (Inr True, h') \<and> now ((files h)(p \<mapsto> [])) h h'"
  by (simp add: on_disk_def fopen_wb_def system_call_def usable_def no_faults_def now_def parent_exists_def)

lemma fopen_ab_ok:
  "usable p h \<Longrightarrow> files h p = Some c \<Longrightarrow> \<exists>h'. on_disk (fopen_ab p) h = (Inr True, h') \<and> now (files h) h h'"
  by (simp add: on_disk_def fopen_ab_def system_call_def usable_def no_faults_def now_def parent_exists_def)

lemma fwrite_ok:
  "usable p h \<Longrightarrow> files h p = Some c \<Longrightarrow>
   \<exists>h'. on_disk (fwrite_bytes p b) h = (Inr True, h') \<and> now ((files h)(p \<mapsto> c @ b)) h h'"
  by (simp add: on_disk_def fwrite_bytes_def system_call_def usable_def no_faults_def now_def)

lemma fflush_ok: "usable p h \<Longrightarrow> \<exists>h'. on_disk fflush h = (Inr True, h') \<and> now (files h) h h'"
  by (simp add: on_disk_def fflush_def system_call_def usable_def no_faults_def now_def)

lemma filesize_ok:
  "usable p h \<Longrightarrow> files h p = Some c \<Longrightarrow> \<exists>h'. filesize p h = (Inr (length c), h') \<and> now (files h) h h'"
  by (simp add: filesize_def system_call_def usable_def no_faults_def now_def)

lemma remove_ok: "usable p h \<Longrightarrow> \<exists>ok h'. on_disk (os_remove p) h = (Inr ok, h') \<and> now ((files h)(p := None)) h h'"
  by (cases "files h p") (auto simp: on_disk_def os_remove_def system_call_def usable_def no_faults_def now_def)

lemma rename_ok:
  "usable src h \<Longrightarrow> usable target h \<Longrightarrow> files h src = Some c \<Longrightarrow>
   \<exists>h'. on_disk (os_rename src target) h = (Inr True, h') \<and> now ((files h)(src := None, target \<mapsto> c)) h h'"
  by (simp add: on_disk_def os_rename_def system_call_def usable_def no_faults_def now_def parent_exists_def Let_def)

lemma rename_file_ok:
  assumes "usable src h" "usable target h" "files h src = Some c" "src \<noteq> target"
  shows "\<exists>h'. rename_file src target h = (Inr True, h') \<and> now ((files h)(src := None, target \<mapsto> c)) h h'"
proof -
  obtain ok h1 where r: "on_disk (os_remove target) h = (Inr ok, h1)" "now ((files h)(target := None)) h h1"
    using remove_ok[OF assms(2)] by blast
  have f: "files h1 = (files h)(target := None)" "files h1 src = Some c" using r(2) assms(3,4) by (simp_all add: now_def)
  obtain h2 where "on_disk (os_rename src target) h1 = (Inr True, h2)" "now ((files h1)(src := None, target \<mapsto> c)) h1 h2"
    using rename_ok[OF usable_now[OF r(2) assms(1)] usable_now[OF r(2) assms(2)] f(2)] by blast
  then show ?thesis using r f(1) by (auto simp: rename_file_def now_def fun_upd_twist)
qed

lemma create_dir_parent:
  assumes "usable p h"
  shows "\<exists>ok. on_disk (create_dir (dir_name p)) h = (Inr ok, h)"
  using assms by (auto simp: on_disk_def create_dir_def usable_def parent_exists_def path_exists_def)

lemma try_open_trunc_ok:
  assumes "usable p h"
  shows "\<exists>h'. try_open p True (Suc n) h = (Inr (), file_event After_Open (h'\<lparr>fh_fd := Some p\<rparr>)) \<and> now ((files h)(p \<mapsto> [])) h h'"
proof -
  obtain ok where c: "on_disk (create_dir (dir_name p)) h = (Inr ok, h)" using create_dir_parent[OF assms] by blast
  obtain h1 where w: "on_disk (fopen_wb p) h = (Inr True, h1)" "now ((files h)(p \<mapsto> [])) h h1" using fopen_wb_ok[OF assms] by blast
  have f: "files h1 p = Some []" "files h1 = (files h)(p \<mapsto> [])" using w(2) by (simp_all add: now_def)
  obtain h2 where a: "on_disk (fopen_ab p) h1 = (Inr True, h2)" "now (files h1) h1 h2"
    using fopen_ab_ok[OF usable_now[OF w(2) assms] f(1)] by blast
  have "now ((files h)(p \<mapsto> [])) h h2" using w(2) a(2) f(2) by (simp add: now_def)
  then show ?thesis using c w(1) a(1) by (auto simp: supdate_def)
qed

lemma file_event_keeps [simp]:
  "fh_fd (file_event k h) = fh_fd h" "fh_filename (file_event k h) = fh_filename h" "fh_handlers (file_event k h) = fh_handlers h"
  "files (file_event k h) = files h" "dk_dirs (fh_disk (file_event k h)) = dk_dirs (fh_disk h)"
  "no_faults (fh_disk (file_event k h)) = no_faults (fh_disk h)"
  by (simp_all add: file_event_def no_faults_def)

lemma fh_close_keeps [simp]:
  "fh_fd (fh_close h) = None" "fh_filename (fh_close h) = fh_filename h" "fh_handlers (fh_close h) = fh_handlers h"
  "files (fh_close h) = files h" "dk_dirs (fh_disk (fh_close h)) = dk_dirs (fh_disk h)"
  "no_faults (fh_disk (fh_close h)) = no_faults (fh_disk h)"
  by (simp_all add: fh_close_def split: option.split)

text \<open>Reopening empties the file and leaves the rest.\<close>

lemma reopen_ok:
  assumes "usable p h" "fh_filename h = p"
  shows "\<exists>h'. fh_reopen True h = (Inr (), h') \<and> fh_fd h' = Some p \<and> fh_filename h' = p \<and>
    dk_dirs (fh_disk h') = dk_dirs (fh_disk h) \<and> no_faults (fh_disk h') \<and> files h' = (files h)(p \<mapsto> [])"
proof -
  let ?h = "file_event Before_Open ((fh_close h)\<lparr>fh_filename := p\<rparr>)"
  have u: "usable p ?h" using assms(1) by (simp add: usable_def parent_exists_def)
  have s: "try_open p True open_tries = try_open p True (Suc 4)" by (simp add: open_tries_def eval_nat_numeral)
  obtain h1 where h1: "try_open p True (Suc 4) ?h = (Inr (), file_event After_Open (h1\<lparr>fh_fd := Some p\<rparr>))"
      "now ((files ?h)(p \<mapsto> [])) ?h h1"
    using try_open_trunc_ok[OF u] by blast
  have "p \<noteq> []" using assms(1) by (simp add: usable_def)
  then have "fh_reopen True h = (Inr (), file_event After_Open (h1\<lparr>fh_fd := Some p\<rparr>))"
    using h1(1) assms(2) by (simp add: fh_reopen_def fh_open_def s del: try_open.simps)
  then show ?thesis using h1(2) assms(2) by (simp add: now_def)
qed

subsection \<open>One rotation\<close>

primrec shift_files :: "path \<Rightarrow> nat \<Rightarrow> (path \<rightharpoonup> bytes) \<Rightarrow> path \<rightharpoonup> bytes" where
  "shift_files f 0 F = F"
| "shift_files f (Suc i) F =
     shift_files f i (case F (calc_filename f i) of
       None \<Rightarrow> F
     | Some c \<Rightarrow> F(calc_filename f i := None, calc_filename f (Suc i) \<mapsto> c))"

lemma rotate_one_ok:
  assumes u: "usable (calc_filename f i) (rs_helper s)" "usable (calc_filename f (Suc i)) (rs_helper s)"
    and f: "rs_base_filename s = f"
  shows "\<exists>h. rotate_one (Suc i) s = (Inr (), s\<lparr>rs_helper := h\<rparr>) \<and>
    now (case files (rs_helper s) (calc_filename f i) of
       None \<Rightarrow> files (rs_helper s)
     | Some c \<Rightarrow> (files (rs_helper s))(calc_filename f i := None, calc_filename f (Suc i) \<mapsto> c)) (rs_helper s) h"
proof (cases "files (rs_helper s) (calc_filename f i)")
  case None
  moreover have "calc_filename f i \<notin> dk_dirs (fh_disk (rs_helper s))" "no_faults (fh_disk (rs_helper s))" using u(1) by (simp_all add: usable_def)
  ultimately show ?thesis
    using f by (intro exI[of _ "rs_helper s"]) (simp add: rotate_one_def path_exists_def sreturn_def now_def)
next
  case (Some c)
  obtain h where h: "rename_file (calc_filename f i) (calc_filename f (Suc i)) (rs_helper s) = (Inr True, h)"
      "now ((files (rs_helper s))(calc_filename f i := None, calc_filename f (Suc i) \<mapsto> c)) (rs_helper s) h"
    using rename_file_ok[OF u Some] by (auto simp: calc_filename_inj)
  then show ?thesis
    using Some f by (intro exI[of _ h]) (simp add: rotate_one_def path_exists_def on_helper_def sbind_def sget_def sreturn_def)
qed

lemma rotate_from_ok:
  assumes "\<forall>i\<le>n. usable (calc_filename f i) (rs_helper s)" "rs_base_filename s = f"
  shows "\<exists>h. rotate_from n s = (Inr (), s\<lparr>rs_helper := h\<rparr>) \<and> now (shift_files f n (files (rs_helper s))) (rs_helper s) h"
  using assms
proof (induction n arbitrary: s)
  case 0
  then have "no_faults (fh_disk (rs_helper s))" by (simp add: usable_def)
  then show ?case by (intro exI[of _ "rs_helper s"]) (simp add: sreturn_def now_def)
next
  case (Suc n)
  have u: "usable (calc_filename f n) (rs_helper s)" "usable (calc_filename f (Suc n)) (rs_helper s)" using Suc.prems(1) by simp_all
  let ?G = "case files (rs_helper s) (calc_filename f n) of None \<Rightarrow> files (rs_helper s)
     | Some c \<Rightarrow> (files (rs_helper s))(calc_filename f n := None, calc_filename f (Suc n) \<mapsto> c)"
  obtain h1 where 1: "rotate_one (Suc n) s = (Inr (), s\<lparr>rs_helper := h1\<rparr>)" "now ?G (rs_helper s) h1"
    using rotate_one_ok[OF u Suc.prems(2)] by blast
  have "\<forall>i\<le>n. usable (calc_filename f i) h1" using Suc.prems(1) usable_now[OF 1(2)] by simp
  then obtain h2 where 2: "rotate_from n (s\<lparr>rs_helper := h1\<rparr>) = (Inr (), s\<lparr>rs_helper := h2\<rparr>)" "now (shift_files f n (files h1)) h1 h2"
    using Suc.IH[of "s\<lparr>rs_helper := h1\<rparr>"] Suc.prems(2) by auto
  have "files h1 = ?G" using 1(2) by (simp add: now_def)
  then have "now (shift_files f (Suc n) (files (rs_helper s))) (rs_helper s) h2" using 1(2) 2(2) by (simp add: now_def)
  then show ?case using 1(1) 2(1) by auto
qed

lemma shift_files_at:
  "shift_files f n F (calc_filename f i) =
     (if i > n \<or> n = 0 then F (calc_filename f i)
      else if i = 0 then None
      else if i = n \<and> F (calc_filename f (n - 1)) = None then F (calc_filename f n)
      else F (calc_filename f (i - 1)))"
proof (induction n arbitrary: F)
  case (Suc n)
  let ?G = "case F (calc_filename f n) of None \<Rightarrow> F | Some c \<Rightarrow> F(calc_filename f n := None, calc_filename f (Suc n) \<mapsto> c)"
  have g: "?G (calc_filename f j) = (if j = n then None else if j = Suc n \<and> F (calc_filename f n) \<noteq> None
      then F (calc_filename f n) else F (calc_filename f j))" for j
    by (auto simp: calc_filename_inj split: option.split)
  show ?case
    unfolding shift_files.simps Suc.IH g by auto
qed simp

lemma shift_files_other:
  "\<forall>i\<le>n. p \<noteq> calc_filename f i \<Longrightarrow> shift_files f n F p = F p"
  by (induction n arbitrary: F) (auto split: option.split)

lemma rotate_ok:
  assumes u: "\<forall>i\<le>rs_max_files s. usable (calc_filename f i) (rs_helper s)"
    and f: "rs_base_filename s = f" "fh_filename (rs_helper s) = f"
  shows "\<exists>h. rotate s = (Inr (), s\<lparr>rs_helper := h\<rparr>) \<and> fh_fd h = Some f \<and> fh_filename h = f \<and>
    dk_dirs (fh_disk h) = dk_dirs (fh_disk (rs_helper s)) \<and> no_faults (fh_disk h) \<and>
    files h = (shift_files f (rs_max_files s) (files (rs_helper s)))(f \<mapsto> [])"
proof -
  let ?s = "s\<lparr>rs_helper := fh_close (rs_helper s)\<rparr>"
  have u1: "\<forall>i\<le>rs_max_files s. usable (calc_filename f i) (rs_helper ?s)"
    using u by (simp add: usable_def parent_exists_def)
  obtain h1 where 1: "rotate_from (rs_max_files s) ?s = (Inr (), s\<lparr>rs_helper := h1\<rparr>)"
      "now (shift_files f (rs_max_files s) (files (rs_helper s))) (rs_helper ?s) h1"
    using rotate_from_ok[OF u1] f(1) by auto
  have "usable (calc_filename f 0) (rs_helper ?s)" using u1 by blast
  then have "usable f h1" using usable_now[OF 1(2)] by (simp add: calc_filename_def)
  moreover have "fh_filename h1 = f" using 1(2) f(2) by (simp add: now_def)
  ultimately obtain h2 where "fh_reopen True h1 = (Inr (), h2)" "fh_fd h2 = Some f" "fh_filename h2 = f"
      "dk_dirs (fh_disk h2) = dk_dirs (fh_disk h1)" "no_faults (fh_disk h2)" "files h2 = (files h1)(f \<mapsto> [])"
    using reopen_ok by blast
  then show ?thesis
    using 1 by (intro exI[of _ h2]) (simp add: rotate_def sbind_def supdate_def sget_def on_helper_def now_def)
qed

subsection \<open>The sink as a list of contents\<close>

text \<open>The abstract sink: the contents of the files, the one that is written first.\<close>

fun rot_spec :: "nat \<Rightarrow> nat \<Rightarrow> bytes \<Rightarrow> bytes list \<Rightarrow> bytes list" where
  "rot_spec max_size max_files r [] = [r]"
| "rot_spec max_size max_files r (cur # old) =
     (if length cur + length r > max_size \<and> cur \<noteq> [] then r # take max_files (cur # old) else (cur @ r) # old)"

definition holds_files :: "path \<Rightarrow> nat \<Rightarrow> bytes list \<Rightarrow> rotating_file_sink \<Rightarrow> bool" where
  "holds_files f n L s \<longleftrightarrow> L \<noteq> [] \<and> length L \<le> Suc n \<and> rs_base_filename s = f \<and> rs_max_files s = n \<and>
     fh_filename (rs_helper s) = f \<and> fh_fd (rs_helper s) = Some f \<and> rs_current_size s = length (hd L) \<and>
     (\<forall>i\<le>n. usable (calc_filename f i) (rs_helper s)) \<and>
     (\<forall>i\<le>n. files (rs_helper s) (calc_filename f i) = (if i < length L then Some (L ! i) else None))"

lemma holds_files_base: "holds_files f n L s \<Longrightarrow> files (rs_helper s) f = Some (hd L) \<and> usable f (rs_helper s)"
proof -
  assume "holds_files f n L s"
  then have "files (rs_helper s) (calc_filename f 0) = Some (L ! 0)" "usable (calc_filename f 0) (rs_helper s)" "L \<noteq> []"
    unfolding holds_files_def by (metis le0 length_greater_0_conv)+
  then show ?thesis by (simp add: calc_filename_def hd_conv_nth)
qed

lemma write_refines:
  assumes "holds_files f n L s"
  shows "\<exists>h. on_helper (fh_write r) s = (Inr (), s\<lparr>rs_helper := h\<rparr>) \<and>
    holds_files f n ((hd L @ r) # tl L) (s\<lparr>rs_helper := h, rs_current_size := length (hd L @ r)\<rparr>)"
proof -
  have b: "files (rs_helper s) f = Some (hd L)" "usable f (rs_helper s)" using holds_files_base[OF assms] by simp_all
  obtain h where h: "on_disk (fwrite_bytes f r) (rs_helper s) = (Inr True, h)"
      "now ((files (rs_helper s))(f \<mapsto> hd L @ r)) (rs_helper s) h"
    using fwrite_ok[OF b(2,1)] by blast
  have w: "on_helper (fh_write r) s = (Inr (), s\<lparr>rs_helper := h\<rparr>)"
    using h(1) assms by (simp add: on_helper_def fh_write_def holds_files_def sbind_def sget_def sreturn_def)
  have "calc_filename f i = f \<longleftrightarrow> i = 0" for i using calc_filename_inj[of f i 0] by (simp add: calc_filename_def)
  then have "holds_files f n ((hd L @ r) # tl L) (s\<lparr>rs_helper := h, rs_current_size := length (hd L @ r)\<rparr>)"
    using assms h(2) usable_now[OF h(2)] unfolding holds_files_def
    by (cases L) (auto simp: now_def nth_Cons')
  then show ?thesis using w by blast
qed

lemma rotate_refines:
  assumes "holds_files f n L s"
  shows "\<exists>h. rotate s = (Inr (), s\<lparr>rs_helper := h\<rparr>) \<and>
    holds_files f n ([] # take n L) (s\<lparr>rs_helper := h, rs_current_size := 0\<rparr>)"
proof -
  have a: "\<forall>i\<le>rs_max_files s. usable (calc_filename f i) (rs_helper s)" "rs_base_filename s = f" "fh_filename (rs_helper s) = f"
    "rs_max_files s = n" using assms by (simp_all add: holds_files_def)
  obtain h where h: "rotate s = (Inr (), s\<lparr>rs_helper := h\<rparr>)" "fh_fd h = Some f" "fh_filename h = f"
      "dk_dirs (fh_disk h) = dk_dirs (fh_disk (rs_helper s))" "no_faults (fh_disk h)"
      "files h = (shift_files f n (files (rs_helper s)))(f \<mapsto> [])"
    using rotate_ok[OF a(1-3)] a(4) by auto
  have z: "calc_filename f i = f \<longleftrightarrow> i = 0" for i using calc_filename_inj[of f i 0] by (simp add: calc_filename_def)
  have F: "files (rs_helper s) (calc_filename f i) = (if i < length L then Some (L ! i) else None)" if "i \<le> n" for i
    using assms that by (simp add: holds_files_def)
  have u: "usable (calc_filename f i) h" if "i \<le> n" for i
    using assms that usable_cong[OF h(4,5)] by (simp add: holds_files_def)
  have "files h (calc_filename f i) = (if i < length ([] # take n L) then Some (([] # take n L) ! i) else None)" if i: "i \<le> n" for i
  proof (cases i)
    case 0
    then show ?thesis by (simp add: h(6) z)
  next
    case (Suc j)
    have "files h (calc_filename f i) =
        (if i = n \<and> files (rs_helper s) (calc_filename f (n - 1)) = None then files (rs_helper s) (calc_filename f n)
         else files (rs_helper s) (calc_filename f j))"
      using Suc i by (simp add: h(6) z shift_files_at)
    then show ?thesis using Suc i F[of n] F[of "n - 1"] F[of j] by (auto split: if_splits)
  qed
  then show ?thesis
    using h(1-3) u a assms by (intro exI[of _ h]) (auto simp: holds_files_def)
qed

lemma rotating_sink_refines:
  assumes s: "holds_files f n L s" and r: "rs_formatter s msg = Inr r" and w: "length (hd L) + length r < size_t_range"
  shows "\<exists>s'. rotating_sink_it msg s = (Inr (), s') \<and> holds_files f n (rot_spec (rs_max_size s) n r L) s' \<and>
    rs_formatter s' = rs_formatter s \<and> rs_max_size s' = rs_max_size s"
proof -
  have b: "files (rs_helper s) f = Some (hd L)" "usable f (rs_helper s)" using holds_files_base[OF s] by simp_all
  obtain cur old where L: "L = cur # old" using s by (cases L) (auto simp: holds_files_def)
  have c: "rs_current_size s = length cur" using s L by (simp add: holds_files_def)
  have new: "(rs_current_size s + length r) mod size_t_range = length cur + length r" using w L c by simp
  have fmt: "formatted_by (rs_formatter s) msg = Inr r" using r by (simp add: formatted_by_def)
  note run = rotating_sink_it_def sbind_def sget_def sreturn_def supdate_def fmt new
  show ?thesis
  proof (cases "length cur + length r > rs_max_size s")
    case False
    obtain h where "on_helper (fh_write r) s = (Inr (), s\<lparr>rs_helper := h\<rparr>)"
        "holds_files f n ((hd L @ r) # tl L) (s\<lparr>rs_helper := h, rs_current_size := length (hd L @ r)\<rparr>)"
      using write_refines[OF s] by blast
    then show ?thesis using False L by (simp add: run)
  next
    case True
    obtain h1 where f1: "on_disk fflush (rs_helper s) = (Inr True, h1)" "now (files (rs_helper s)) (rs_helper s) h1"
      using fflush_ok[OF b(2)] by blast
    have "files h1 f = Some cur" "fh_fd h1 = Some f" using f1(2) b(1) L s by (simp_all add: now_def holds_files_def)
    then obtain h2 where f2: "fh_size h1 = (Inr (length cur), h2)" "now (files h1) h1 h2"
      using filesize_ok[OF usable_now[OF f1(2) b(2)]] by (auto simp: fh_size_def)
    let ?s = "s\<lparr>rs_helper := h2\<rparr>"
    have now: "now (files (rs_helper s)) (rs_helper s) h2" using f1(2) f2(2) by (simp add: now_def)
    have s2: "holds_files f n L ?s" using s usable_now[OF now] now by (simp add: holds_files_def now_def)
    have pre: "on_helper fh_flush s = (Inr (), s\<lparr>rs_helper := h1\<rparr>)" "on_helper fh_size (s\<lparr>rs_helper := h1\<rparr>) = (Inr (length cur), ?s)"
      using f1(1) f2(1) by (simp_all add: on_helper_def fh_flush_def sbind_def sreturn_def)
    show ?thesis
    proof (cases "cur = []")
      case True': True
      obtain h where "on_helper (fh_write r) ?s = (Inr (), ?s\<lparr>rs_helper := h\<rparr>)"
          "holds_files f n ((hd L @ r) # tl L) (?s\<lparr>rs_helper := h, rs_current_size := length (hd L @ r)\<rparr>)"
        using write_refines[OF s2] by blast
      then show ?thesis using True True' pre L by (simp add: run)
    next
      case False
      obtain h3 where h3: "rotate ?s = (Inr (), s\<lparr>rs_helper := h3\<rparr>)" "holds_files f n ([] # take n L) (s\<lparr>rs_helper := h3, rs_current_size := 0\<rparr>)"
        using rotate_refines[OF s2] by auto
      obtain h4 where "on_helper (fh_write r) (s\<lparr>rs_helper := h3, rs_current_size := 0\<rparr>) =
            (Inr (), s\<lparr>rs_helper := h3, rs_current_size := 0\<rparr>\<lparr>rs_helper := h4\<rparr>)"
          "holds_files f n (r # take n L) (s\<lparr>rs_helper := h4, rs_current_size := length r\<rparr>)"
        using write_refines[OF h3(2), of r] by auto
      moreover from this(1) have "on_helper (fh_write r) (s\<lparr>rs_helper := h3\<rparr>) = (Inr (), s\<lparr>rs_helper := h4\<rparr>)"
        by (cases "fh_write r h3") (auto simp: on_helper_def dest: arg_cong[where f = rs_helper])
      ultimately show ?thesis using True False pre h3(1) L by (simp add: run)
    qed
  qed
qed

subsection \<open>Opening a new log\<close>

lemma mkdir_effect:
  "no_faults d \<Longrightarrow> dk_files (snd (mkdir p d)) = dk_files d \<and> no_faults (snd (mkdir p d)) \<and> dk_dirs (snd (mkdir p d)) \<subseteq> insert p (dk_dirs d)"
  by (auto simp: mkdir_def system_call_def no_faults_def Let_def)

lemma create_dirs_effect:
  "no_faults d \<Longrightarrow> dk_files (snd (create_dirs p off d)) = dk_files d \<and> no_faults (snd (create_dirs p off d)) \<and>
     dk_dirs (snd (create_dirs p off d)) \<subseteq> dk_dirs d \<union> {q. length q \<le> length p}"
proof (induction p off d rule: create_dirs.induct)
  case (1 p off d)
  define pos where "pos = (case find_first_of 47 p off of None \<Rightarrow> length p | Some pos \<Rightarrow> pos)"
  obtain ok d1 where m: "(if take pos p \<noteq> [] \<and> \<not> path_exists (take pos p) d then mkdir (take pos p) d else (True, d)) = (ok, d1)"
    by fastforce
  then have d1: "dk_files d1 = dk_files d" "no_faults d1" "dk_dirs d1 \<subseteq> dk_dirs d \<union> {q. length q \<le> length p}"
    using mkdir_effect[OF "1.prems", of "take pos p"] "1.prems" by (auto split: if_splits)
  have eq: "create_dirs p off d =
      (if \<not> ok then (False, d1) else if pos + 1 < length p then create_dirs p (pos + 1) d1 else (True, d1))"
    using m by (subst create_dirs.simps) (simp add: Let_def flip: pos_def)
  show ?case
  proof (cases "ok \<and> pos + 1 < length p")
    case True
    then show ?thesis
      using "1.IH"[OF pos_def refl m[symmetric] refl] d1 eq by fastforce
  next
    case False
    then show ?thesis using d1 eq by auto
  qed
qed

lemma dir_name_shorter: "p \<noteq> [] \<Longrightarrow> length (dir_name p) < length p"
  by (auto simp: dir_name_def split: option.split dest: find_last_of_bound)

lemma create_dir_effect:
  assumes "no_faults d"
  shows "dk_files (snd (create_dir p d)) = dk_files d \<and> no_faults (snd (create_dir p d)) \<and>
     dk_dirs (snd (create_dir p d)) \<subseteq> dk_dirs d \<union> {q. length q \<le> length p}"
  using create_dirs_effect[OF assms] assms by (auto simp: create_dir_def)

lemma try_open_new:
  assumes "try_open p False k h = (Inr (), h')" "no_faults (fh_disk h)" "files h p = None"
  shows "fh_fd h' = Some p \<and> fh_filename h' = fh_filename h \<and> files h' = (files h)(p \<mapsto> []) \<and> usable p h' \<and>
    dk_dirs (fh_disk h') \<subseteq> dk_dirs (fh_disk h) \<union> {q. length q < length p}"
  using assms
proof (induction k arbitrary: h)
  case 0
  then show ?case by (simp add: sbind_def sget_def throw_errno_def)
next
  case (Suc k)
  obtain ok d1 where c: "create_dir (dir_name p) (fh_disk h) = (ok, d1)" by fastforce
  let ?h = "h\<lparr>fh_disk := d1\<rparr>"
  have d1: "dk_files d1 = files h" "no_faults d1" "dk_dirs d1 \<subseteq> dk_dirs (fh_disk h) \<union> {q. length q \<le> length (dir_name p)}"
    using create_dir_effect[OF Suc.prems(2), of "dir_name p"] c by simp_all
  have step: "try_open p False (Suc k) h = sbind (on_disk (fopen_ab p)) (\<lambda>opened.
      if opened then supdate (\<lambda>h. file_event After_Open (h\<lparr>fh_fd := Some p\<rparr>)) else try_open p False k) ?h"
    using c by (simp add: on_disk_def sbind_def sreturn_def)
  show ?case
  proof (cases "p \<noteq> [] \<and> p \<notin> dk_dirs d1 \<and> parent_exists p d1")
    case True
    then have "dk_dirs d1 \<subseteq> dk_dirs (fh_disk h) \<union> {q. length q < length p}" using d1(3) dir_name_shorter[of p] by auto
    moreover let ?h3 = "?h\<lparr>fh_disk := d1\<lparr>dk_calls := Suc (dk_calls d1), dk_files := (files h)(p \<mapsto> [])\<rparr>\<rparr>"
    have "on_disk (fopen_ab p) ?h = (Inr True, ?h3)"
      using True Suc.prems(3) d1(1,2) by (simp add: on_disk_def fopen_ab_def system_call_def no_faults_def Let_def)
    then have "h' = file_event After_Open (?h3\<lparr>fh_fd := Some p\<rparr>)" using Suc.prems(1) unfolding step by (simp add: supdate_def)
    moreover have "no_faults (d1\<lparr>dk_calls := Suc (dk_calls d1), dk_files := (files h)(p \<mapsto> [])\<rparr>)" using d1(2) by (simp add: no_faults_def)
    ultimately show ?thesis using True by (simp add: usable_def parent_exists_def)
  next
    case False
    let ?h2 = "?h\<lparr>fh_disk := d1\<lparr>dk_calls := Suc (dk_calls d1)\<rparr>\<rparr>"
    have "on_disk (fopen_ab p) ?h = (Inr False, ?h2)" using False by (auto simp: on_disk_def fopen_ab_def system_call_def)
    then have t: "try_open p False k ?h2 = (Inr (), h')" using Suc.prems(1) unfolding step by (simp add: sbind_def)
    have "no_faults (fh_disk ?h2)" "files ?h2 p = None" using d1 Suc.prems(3) by (simp_all add: no_faults_def)
    from Suc.IH[OF t this] have ih: "fh_fd h' = Some p" "fh_filename h' = fh_filename h" "files h' = (files h)(p \<mapsto> [])" "usable p h'"
        "dk_dirs (fh_disk h') \<subseteq> dk_dirs d1 \<union> {q. length q < length p}" using d1 by (simp_all add: fun_upd_def)
    then have "p \<noteq> []" by (simp add: usable_def)
    then show ?thesis using ih d1(3) dir_name_shorter[of p] by auto
  qed
qed

lemma new_rotating_sink:
  assumes c: "new_rotating_file_sink f max_size n False hs fmt d = (Inr (), s)"
    and d: "no_faults d" "\<forall>i\<le>n. \<not> path_exists (calc_filename f i) d"
  shows "holds_files f n [[]] s \<and> rs_max_size s = max_size \<and> rs_formatter s = fmt"
proof -
  let ?s = "\<lparr>rs_base_filename = f, rs_max_size = max_size, rs_max_files = n, rs_current_size = 0,
      rs_helper = new_file_helper hs d, rs_formatter = fmt\<rparr>"
  let ?h = "file_event Before_Open (fh_close (new_file_helper hs d)\<lparr>fh_filename := f\<rparr>)"
  have g: "max_size \<noteq> 0" "\<not> n > MaxFiles" using c by (auto simp: new_rotating_file_sink_def sthrow_def split: if_splits)
  then have "sbind (on_helper (fh_open f False)) (\<lambda>_. sbind (on_helper fh_size) (\<lambda>n. sbind (supdate (\<lambda>s. s\<lparr>rs_current_size := n\<rparr>))
      (\<lambda>_. sreturn ()))) ?s = (Inr (), s)"
    using c by (simp add: new_rotating_file_sink_def calc_filename_def)
  then obtain h1 h2 m where o: "fh_open f False (new_file_helper hs d) = (Inr (), h1)" "fh_size h1 = (Inr m, h2)"
      "s = ?s\<lparr>rs_helper := h2, rs_current_size := m\<rparr>"
    by (auto simp: outcome_simps on_helper_def supdate_def sreturn_def split: prod.splits)
  have f: "files (new_file_helper hs d) f = None" using d(2) by (auto simp: path_exists_def new_file_helper_def calc_filename_def)
  have "try_open f False open_tries ?h = (Inr (), h1)" using o(1) by (simp add: fh_open_def)
  moreover have "no_faults (fh_disk ?h)" "files ?h f = None" using d(1) f by (simp_all add: new_file_helper_def)
  note opened = try_open_new[OF calculation this]
  from opened have h1: "fh_fd h1 = Some f" "fh_filename h1 = f" "files h1 = (files ?h)(f \<mapsto> [])" "usable f h1"
      "dk_dirs (fh_disk h1) \<subseteq> dk_dirs (fh_disk ?h) \<union> {q. length q < length f}"
    by auto
  then obtain h' where "filesize f h1 = (Inr 0, h')" "now (files h1) h1 h'" using filesize_ok[OF h1(4)] by fastforce
  then have h2: "m = 0" "now (files h1) h1 h2" using o(2) h1(1) by (simp_all add: fh_size_def)
  have u: "usable (calc_filename f i) h2" if "i \<le> n" for i
  proof -
    have "calc_filename f i \<notin> dk_dirs (fh_disk h1)"
      using h1(5) d(2) that length_calc_filename[of f i] by (auto simp: path_exists_def new_file_helper_def)
    moreover have "calc_filename f i \<noteq> []" using length_calc_filename[of f i] h1(4) by (auto simp: usable_def)
    ultimately have "usable (calc_filename f i) h1" using h1(4) by (simp add: usable_def parent_exists_def)
    then show ?thesis by (rule usable_now[OF h2(2)])
  qed
  have "calc_filename f i = f \<longleftrightarrow> i = 0" for i using calc_filename_inj[of f i 0] by (simp add: calc_filename_def)
  then have "files h2 (calc_filename f i) = (if i < 1 then Some [] else None)" if "i \<le> n" for i
    using h2(2) h1(3) d(2) that by (auto simp: now_def new_file_helper_def path_exists_def)
  then show ?thesis using u o(3) h1(1,2) h2 by (simp add: holds_files_def now_def)
qed

subsection \<open>What is on the disk\<close>

lemma rot_spec_bounds:
  assumes "L \<noteq> []" "length L \<le> Suc n" "\<forall>c \<in> set L. length c \<le> m \<or> c \<in> R" "r \<in> R"
  shows "rot_spec m n r L \<noteq> [] \<and> length (rot_spec m n r L) \<le> Suc n \<and> (\<forall>c \<in> set (rot_spec m n r L). length c \<le> m \<or> c \<in> R)"
proof -
  obtain cur old where L: "L = cur # old" using assms(1) by (cases L) auto
  have "c \<in> set (take n L) \<Longrightarrow> c \<in> set L" for c by (rule in_set_takeD)
  then show ?thesis using assms(2-4) by (auto simp: L)
qed

lemma concat_rev_take: "\<exists>pre. concat (rev L) = pre @ concat (rev (take n L))"
  by (metis append_take_drop_id concat_append rev_append)

lemma rot_spec_suffix:
  assumes "L \<noteq> []" "t = pre @ concat (rev L)"
  shows "\<exists>pre'. t @ r = pre' @ concat (rev (rot_spec m n r L)) \<and>
    (length (rot_spec m n r L) \<le> n \<longrightarrow> length L \<le> n \<and> pre' = pre)"
proof -
  obtain cur old where L: "L = cur # old" using assms(1) by (cases L) auto
  show ?thesis
  proof (cases "length cur + length r > m \<and> cur \<noteq> []")
    case True
    obtain q where q: "concat (rev L) = q @ concat (rev (take n L))" using concat_rev_take by blast
    show ?thesis
    proof (cases "length L \<le> n")
      case True': True
      then show ?thesis using assms(2) L True by (intro exI[of _ pre]) auto
    next
      case False
      then show ?thesis using q assms(2) L True by (intro exI[of _ "pre @ q"]) (auto simp: min_def)
    qed
  next
    case False
    then show ?thesis using assms(2) L by (intro exI[of _ pre]) auto
  qed
qed

lemma rotating_run:
  assumes "holds_files f n L s" "map (rs_formatter s) ms = map Inr rs" "t = pre @ concat (rev L)"
    and "\<forall>c \<in> set L. length c \<le> rs_max_size s \<or> c \<in> R" "set rs \<subseteq> R" "\<forall>r \<in> R. 2 * (rs_max_size s + length r) < size_t_range"
    and "length L \<le> n \<longrightarrow> pre = []"
  shows "\<exists>s' L' pre'. each rotating_sink_it ms s = (Inr (), s') \<and> holds_files f n L' s' \<and>
    t @ concat rs = pre' @ concat (rev L') \<and> (\<forall>c \<in> set L'. length c \<le> rs_max_size s \<or> c \<in> R) \<and> (length L' \<le> n \<longrightarrow> pre' = [])"
  using assms
proof (induction ms arbitrary: s L t pre rs)
  case Nil
  then show ?case by (intro exI[of _ s] exI[of _ L] exI[of _ pre]) (simp add: sreturn_def)
next
  case (Cons m ms)
  then obtain r rs' where rs: "rs = r # rs'" "rs_formatter s m = Inr r" "map (rs_formatter s) ms = map Inr rs'" by (cases rs) auto
  have L: "L \<noteq> []" "length L \<le> Suc n" using Cons.prems(1) by (simp_all add: holds_files_def)
  have "r \<in> R" using Cons.prems(5) rs(1) by simp
  moreover have "hd L \<in> set L" using L(1) by simp
  ultimately have "2 * (rs_max_size s + length r) < size_t_range"
      "length (hd L) \<le> rs_max_size s \<or> 2 * (rs_max_size s + length (hd L)) < size_t_range"
    using Cons.prems(4,6) by blast+
  then have w: "length (hd L) + length r < size_t_range" by auto
  obtain s1 where s1: "rotating_sink_it m s = (Inr (), s1)" "holds_files f n (rot_spec (rs_max_size s) n r L) s1"
      "rs_formatter s1 = rs_formatter s" "rs_max_size s1 = rs_max_size s"
    using rotating_sink_refines[OF Cons.prems(1) rs(2) w] by blast
  obtain pre1 where p1: "t @ r = pre1 @ concat (rev (rot_spec (rs_max_size s) n r L))"
      "length (rot_spec (rs_max_size s) n r L) \<le> n \<longrightarrow> length L \<le> n \<and> pre1 = pre"
    using rot_spec_suffix[OF L(1) Cons.prems(3)] by blast
  have b: "\<forall>c \<in> set (rot_spec (rs_max_size s) n r L). length c \<le> rs_max_size s \<or> c \<in> R"
    using rot_spec_bounds[OF L Cons.prems(4) \<open>r \<in> R\<close>] by simp
  obtain s2 L' pre' where "each rotating_sink_it ms s1 = (Inr (), s2)" "holds_files f n L' s2"
      "(t @ r) @ concat rs' = pre' @ concat (rev L')" "\<forall>c \<in> set L'. length c \<le> rs_max_size s1 \<or> c \<in> R" "length L' \<le> n \<longrightarrow> pre' = []"
    using Cons.IH[OF s1(2) _ p1(1), of rs'] b Cons.prems(5-7) rs(1,3) p1(2) s1(3,4) by auto
  then show ?case using s1(1,4) rs(1) by (intro exI[of _ s2] exI[of _ L'] exI[of _ pre']) auto
qed

lemma rotating_exact:
  assumes "no_faults d" "\<forall>i\<le>n. \<not> path_exists (calc_filename f i) d"
    and "new_rotating_file_sink f max_size n False handlers fmt d = (Inr (), s0)"
    and "map fmt ms = map Inr rs" "\<forall>r \<in> set rs. 2 * (max_size + length r) < size_t_range"
  shows "\<exists>s L pre. each rotating_sink_it ms s0 = (Inr (), s) \<and>
    (\<forall>i\<le>n. dk_files (fh_disk (rs_helper s)) (calc_filename f i) = (if i < length L then Some (L ! i) else None)) \<and>
    length L \<le> n + 1 \<and> (\<forall>c \<in> set L. length c \<le> max_size \<or> c \<in> set rs) \<and>
    concat rs = pre @ concat (rev L) \<and> (length L \<le> n \<longrightarrow> pre = [])"
proof -
  have s0: "holds_files f n [[]] s0" "rs_max_size s0 = max_size" "rs_formatter s0 = fmt"
    using new_rotating_sink[OF assms(3,1,2)] by simp_all
  obtain s L pre where "each rotating_sink_it ms s0 = (Inr (), s)" "holds_files f n L s"
      "[] @ concat rs = pre @ concat (rev L)" "\<forall>c \<in> set L. length c \<le> max_size \<or> c \<in> set rs" "length L \<le> n \<longrightarrow> pre = []"
    using rotating_run[OF s0(1), of ms rs "[]" "[]" "set rs"] assms(4,5) s0(2,3) by auto
  then show ?thesis by (intro exI[of _ s] exI[of _ L] exI[of _ pre]) (auto simp: holds_files_def)
qed

text \<open>
  C17. The rotating log keeps the newest text in a bounded number of bounded files. Take a sink that was
  opened where none of its files existed, messages whose formatted records are \<open>rs\<close>, and a disk on which
  nothing fails. Every call returns; afterwards the files of the sink are the numbers from zero up
  without a gap, at most \<open>n + 1\<close> of them; each is no longer than \<open>max_size\<close>, unless it is one single
  record; and their contents from the highest number down to zero, joined, are the end of everything
  that was logged, and all of it when the last number \<open>n\<close> is not in use.
\<close>

theorem rotating_log_bounded:
  assumes "no_faults d" "\<forall>i\<le>n. \<not> path_exists (calc_filename f i) d"
    and "new_rotating_file_sink f max_size n False handlers fmt d = (Inr (), s0)"
    and "map fmt ms = map Inr rs" "\<forall>r \<in> set rs. 2 * (max_size + length r) < size_t_range"
  shows "\<exists>s L pre. each rotating_sink_it ms s0 = (Inr (), s) \<and>
    (\<forall>i\<le>n. dk_files (fh_disk (rs_helper s)) (calc_filename f i) = (if i < length L then Some (L ! i) else None)) \<and>
    length L \<le> n + 1 \<and> (\<forall>c \<in> set L. length c \<le> max_size \<or> c \<in> set rs) \<and>
    concat rs = pre @ concat (rev L) \<and> (length L \<le> n \<longrightarrow> pre = [])"
  by (rule rotating_exact[OF assms])

definition empty_disk :: disk where
  "empty_disk = \<lparr>dk_files = Map.empty, dk_dirs = {}, dk_fault = (\<lambda>_. False), dk_calls = 0, dk_strerror = [], dk_events = []\<rparr>"

definition sample_msg :: log_msg where
  "sample_msg = \<lparr>lm_logger_name = [], lm_level = lv_info, lm_time = 0, lm_thread_id = 0, lm_color_range_start = 0,
     lm_color_range_end = 0, lm_source = no_source, lm_payload = []\<rparr>"

theorem rotating_log_bounded_witness:
  "\<exists>s0 s L pre. new_rotating_file_sink [97] 3 1 False {} (\<lambda>_. Inr [65, 66]) empty_disk = (Inr (), s0) \<and>
     each rotating_sink_it [sample_msg, sample_msg] s0 = (Inr (), s) \<and> length L \<le> 2 \<and> [65 :: byte, 66, 65, 66] = pre @ concat (rev L)"
proof -
  let ?h = "new_file_helper {} empty_disk"
  have n: "calc_filename [97] 0 = [97]" by (simp add: calc_filename_def)
  have u: "usable [97] (?h\<lparr>fh_filename := [97]\<rparr>)"
    by (simp add: usable_def parent_exists_def dir_name_def find_last_of_def no_faults_def new_file_helper_def empty_disk_def)
  obtain k where k: "on_disk (create_dir (dir_name [97])) (?h\<lparr>fh_filename := [97]\<rparr>) = (Inr k, ?h\<lparr>fh_filename := [97]\<rparr>)"
    using create_dir_parent[OF u] by blast
  have "\<exists>h. on_disk (fopen_ab [97]) (?h\<lparr>fh_filename := [97]\<rparr>) = (Inr True, h) \<and> usable [97] h \<and> files h [97] = Some []"
    using u by (simp add: on_disk_def fopen_ab_def system_call_def usable_def no_faults_def parent_exists_def new_file_helper_def empty_disk_def)
  then obtain h where h: "on_disk (fopen_ab [97]) (?h\<lparr>fh_filename := [97]\<rparr>) = (Inr True, h)" "usable [97] h" "files h [97] = Some []"
    by blast
  obtain m where t: "open_tries = Suc m" by (metis open_tries_def not0_implies_Suc zero_neq_numeral)
  have e: "file_event Before_Open (fh_close ?h\<lparr>fh_filename := [97]\<rparr>) = ?h\<lparr>fh_filename := [97]\<rparr>"
    by (simp add: file_event_def fh_close_def new_file_helper_def)
  have o: "fh_open [97] False ?h = (Inr (), file_event After_Open (h\<lparr>fh_fd := Some [97]\<rparr>))"
    using k h(1) by (simp add: fh_open_def t e supdate_def)
  let ?h1 = "file_event After_Open (h\<lparr>fh_fd := Some [97]\<rparr>)"
  have "usable [97] ?h1" "files ?h1 [97] = Some []" using h(2,3) by (simp_all add: usable_def parent_exists_def)
  then obtain h2 where h2: "filesize [97] ?h1 = (Inr 0, h2)" using filesize_ok by (metis list.size(3))
  have "\<exists>s0. new_rotating_file_sink [97] 3 1 False {} (\<lambda>_. Inr [65, 66]) empty_disk = (Inr (), s0)"
    using o h2 by (simp add: new_rotating_file_sink_def MaxFiles_def n on_helper_def sbind_def supdate_def sreturn_def sget_def fh_size_def)
  then obtain s0 where s0: "new_rotating_file_sink [97] 3 1 False {} (\<lambda>_. Inr [65, 66]) empty_disk = (Inr (), s0)"
    by blast
  have "no_faults empty_disk" "\<forall>i\<le>1. \<not> path_exists (calc_filename [97] i) empty_disk"
    by (simp_all add: no_faults_def path_exists_def empty_disk_def)
  moreover have "map (\<lambda>_. Inr [65, 66]) [sample_msg, sample_msg] = map Inr [[65, 66], [65 :: byte, 66]]"
      "\<forall>r \<in> set [[65, 66], [65 :: byte, 66]]. 2 * (3 + length r) < size_t_range"
    by (simp_all add: size_t_range_def)
  ultimately obtain s L pre where "each rotating_sink_it [sample_msg, sample_msg] s0 = (Inr (), s)" "length L \<le> 1 + 1"
      "concat [[65, 66], [65 :: byte, 66]] = pre @ concat (rev L)"
    using rotating_log_bounded[OF _ _ s0] by metis
  then show ?thesis using s0 by (intro exI[of _ s0] exI[of _ s] exI[of _ L] exI[of _ pre]) simp
qed

subsection \<open>After a failed reopen\<close>

definition closed_with :: "(path \<rightharpoonup> bytes) \<Rightarrow> rotating_file_sink \<Rightarrow> bool" where
  "closed_with F s \<longleftrightarrow> fh_fd (rs_helper s) = None \<and> dk_files (fh_disk (rs_helper s)) = F"

lemma closed_keeps_flush [keeps_rules]: "keeps (closed_with F) (on_helper fh_flush)"
  by (auto simp: keeps_def closed_with_def on_helper_def fh_flush_def on_disk_def fflush_def system_call_def sbind_def sget_def
      throw_errno_def sreturn_def Let_def split: prod.splits sum.splits if_splits)

lemma closed_size_throws:
  "closed_with F s \<Longrightarrow> on_helper fh_size s =
     (Inl (Thrown (spdlog_ex (str ''Cannot use size() on closed file '' @ fh_filename (rs_helper s)))), s)"
  by (simp add: closed_with_def on_helper_def fh_size_def sbind_def sget_def sthrow_def)

text \<open>
  A rotating sink whose file could not be opened again stays closed. From then on a message that is
  estimated to fit is dropped and the call returns as if it had been written; any other message ends in
  an exception; no message opens the file again or changes a file.
\<close>

theorem closed_sink_stays_closed:
  assumes "fh_fd (rs_helper s) = None" "rs_formatter s msg = Inr r"
  defines "new_size \<equiv> (rs_current_size s + length r) mod size_t_range"
  shows "if new_size \<le> rs_max_size s then rotating_sink_it msg s = (Inr (), s\<lparr>rs_current_size := new_size\<rparr>)
    else \<exists>e s'. rotating_sink_it msg s = (Inl (Thrown e), s') \<and> fh_fd (rs_helper s') = None \<and>
      dk_files (fh_disk (rs_helper s')) = dk_files (fh_disk (rs_helper s))"
proof -
  have f: "formatted_by (rs_formatter s) msg = Inr r" using assms(2) by (simp add: formatted_by_def)
  have w: "on_helper (fh_write r) s = (Inr (), s)" using assms(1) by (simp add: on_helper_def fh_write_def sbind_def sget_def sreturn_def)
  obtain q s1 where fl: "on_helper fh_flush s = (q, s1)" by fastforce
  have "closed_with (dk_files (fh_disk (rs_helper s))) s" using assms(1) by (simp add: closed_with_def)
  then have c: "closed_with (dk_files (fh_disk (rs_helper s))) s1" using keepsD[OF closed_keeps_flush _ fl] by blast
  have d: "q \<noteq> Inl Undefined" using definedD[of "on_helper fh_flush" s] fl by (simp add: defined_rules)
  show ?thesis
  proof (cases "new_size \<le> rs_max_size s")
    case True
    then show ?thesis using f w by (simp add: rotating_sink_it_def sbind_def sget_def sreturn_def supdate_def new_size_def)
  next
    case False
    then show ?thesis
      using f fl c d closed_size_throws[OF c]
      by (cases q) (auto simp: rotating_sink_it_def sbind_def sget_def new_size_def closed_with_def fault.distinct
          intro: fault.exhaust)
  qed
qed

definition sample_closed_sink :: rotating_file_sink where
  "sample_closed_sink =
     \<lparr>rs_base_filename = [97], rs_max_size = 3, rs_max_files = 1, rs_current_size = 0,
      rs_helper = new_file_helper {} empty_disk, rs_formatter = (\<lambda>_. Inr [65, 66])\<rparr>"

theorem closed_sink_stays_closed_witness:
  "rotating_sink_it sample_msg sample_closed_sink = (Inr (), sample_closed_sink\<lparr>rs_current_size := 2\<rparr>)"
  using closed_sink_stays_closed[of sample_closed_sink sample_msg "[65, 66]"]
  by (simp add: sample_closed_sink_def new_file_helper_def size_t_range_def)

end
