(* ===== verification/Json_Logger.thy ===== *)
theory Json_Logger
  imports Registry Rotation
begin

text \<open>
  \<open>src/common/Logger.hpp\<close>: the program's logger. It writes one JSON object per line, through an
  asynchronous logger of the library, to the console and, if the environment asks for it, to a rotating file.
\<close>

subsection \<open>The diagnostic context\<close>

text \<open>A hash table of strings, as an association list in whatever order it is walked.\<close>

type_synonym mdc = "(bytes \<times> bytes) list"

definition mdc_put :: "bytes \<Rightarrow> bytes \<Rightarrow> mdc \<Rightarrow> mdc" where
  "mdc_put key value m = AList.update key value m"

definition mdc_clear :: "mdc \<Rightarrow> mdc" where
  "mdc_clear m = []"

subsection \<open>Text\<close>

primrec escape :: "bytes \<Rightarrow> bytes" where
  "escape [] = []"
| "escape (c # s) =
     (if c = 34 then [92, 34] else if c = 92 then [92, 92] else [c]) @ escape s"

definition quoted :: "bytes \<Rightarrow> bytes" where
  "quoted s = 34 # escape s @ [34]"

fun mdc_members :: "bool \<Rightarrow> mdc \<Rightarrow> bytes" where
  "mdc_members first [] = []"
| "mdc_members first ((k, v) # m) = (if first then [] else [44]) @ quoted k @ [58] @ quoted v @ mdc_members False m"

definition mdc_to_json :: "mdc \<Rightarrow> bytes" where
  "mdc_to_json m = [123] @ mdc_members True m @ [125]"

definition message_key :: bytes where
  "message_key = 34 # str ''message'' @ [34, 58]"

definition mdc_key :: bytes where
  "mdc_key = 44 # 34 # str ''mdc'' @ [34, 58]"

definition format_with_mdc :: "bytes \<Rightarrow> mdc \<Rightarrow> bytes" where
  "format_with_mdc message m = message_key @ quoted message @ mdc_key @ mdc_to_json m"

definition log_json_text :: "bytes \<Rightarrow> bytes" where
  "log_json_text message = message_key @ quoted message"

text \<open>\<open>{:03}\<close> of an \<open>int\<close>; \<open>time_point_cast\<close> rounds towards zero.\<close>

definition fmt_03 :: "int \<Rightarrow> bytes" where
  "fmt_03 i = (if i < 0 then 45 # pad_zeros 2 (nat (- i)) else pad_zeros 3 (nat i))"

definition to_millis :: "int \<Rightarrow> int" where
  "to_millis ns = (if ns \<ge> 0 then ns div 1000000 else - ((- ns) div 1000000))"

definition json_format :: "(int \<Rightarrow> bytes) \<Rightarrow> log_msg \<Rightarrow> bytes" where
  "json_format local_date msg =
     (let tp = lm_time msg;
          s = to_seconds tp;
          ms = to_millis tp - 1000 * s;
          ns = tp - 1000000 * to_millis tp
      in [123, 34] @ str ''timestamp'' @ [34, 58, 34] @ local_date s @ [46] @ fmt_03 ms @ fmt_03 ns @ [34, 44, 34] @
         str ''level'' @ [34, 58, 34] @ to_string_view (lm_level msg) @ [34, 44, 34] @ str ''thread_id'' @ [34, 58] @
         dec_digits (lm_thread_id msg) @ [44] @ lm_payload msg @ [32, 125, 10])"

definition JsonFormatter :: "(int \<Rightarrow> bytes) \<Rightarrow> log_msg \<Rightarrow> exn + bytes" where
  "JsonFormatter local_date msg = Inr (json_format local_date msg)"

subsection \<open>The logger\<close>

datatype app_sink = Console stdout_sink | File rotating_file_sink

fun app_log :: "log_msg \<Rightarrow> (app_sink, unit) op" where
  "app_log msg (Console s) = (case stdout_log msg s of (r, s1) \<Rightarrow> (r, Console s1))"
| "app_log msg (File s) = (case rotating_sink_it msg s of (r, s1) \<Rightarrow> (r, File s1))"

fun app_flush :: "(app_sink, unit) op" where
  "app_flush (Console s) = (case so_flush stdout_ops s of (r, s1) \<Rightarrow> (r, Console s1))"
| "app_flush (File s) = (case so_flush rotating_ops s of (r, s1) \<Rightarrow> (r, File s1))"

definition app_ops :: "app_sink sink_ops" where
  "app_ops = \<lparr>so_log = app_log, so_flush = app_flush\<rparr>"

definition file_log_wanted :: "bytes option \<Rightarrow> bool" where
  "file_log_wanted env_log_file =
     (case env_log_file of
        None \<Rightarrow> False
      | Some v \<Rightarrow> to_lower v = str ''true'' \<or> to_lower v = str ''1'' \<or> to_lower v = str ''yes'')"

text \<open>The sinks, which the constructor makes in this order; opening the file may throw.\<close>

definition app_sinks ::
  "bytes option \<Rightarrow> (int \<Rightarrow> bytes) \<Rightarrow> (nat \<Rightarrow> bool) \<Rightarrow> disk \<Rightarrow> app_sink sink list result" where
  "app_sinks env_log_file local_date console_fails d =
     (let console = sink_set_level lv_debug (new_sink (Console (new_stdout_sink (JsonFormatter local_date) console_fails))) in
      if file_log_wanted env_log_file then
        (case new_rotating_file_sink (str ''logs/server.log'') (1024 * 1024 * 5) 3 False {} (JsonFormatter local_date) d of
           (Inl e, _) \<Rightarrow> Inl e
         | (Inr _, s) \<Rightarrow> Inr [console, sink_set_level lv_debug (new_sink (File s))])
      else Inr [console])"

definition app_logger :: "nat \<Rightarrow> nat option \<Rightarrow> async_logger" where
  "app_logger sinks pool =
     \<lparr>lg_name = str ''async_logger'', lg_sinks = [0..<sinks], lg_level = lv_debug, lg_flush_level = lv_off,
      lg_custom_err_handler = None, lg_tracer = new_backtracer, al_thread_pool = pool, al_overflow_policy = block\<rparr>"

type_synonym 'f app_registry =
  "('f, \<lparr>al_thread_pool :: nat option, al_overflow_policy :: async_overflow_policy\<rparr>) registry"

text \<open>
  The constructor, for a logger that will live at address \<open>p\<close>. Besides its result it gives what it wrote
  to \<open>std::cerr\<close> before it threw again.
\<close>

definition Logger ::
  "nat \<Rightarrow> bytes option \<Rightarrow> (int \<Rightarrow> bytes) \<Rightarrow> (nat \<Rightarrow> bool) \<Rightarrow> disk \<Rightarrow> 'f app_registry \<Rightarrow>
   app_sink sink list result \<times> 'f app_registry \<times> bytes" where
  "Logger p env_log_file local_date console_fails d r =
     (case (case app_sinks env_log_file local_date console_fails d of
              Inl e \<Rightarrow> (Inl e, r)
            | Inr sinks \<Rightarrow>
                let r1 = on_logger p (\<lambda>_. app_logger (length sinks) (rg_tp r)) r in
                (case register_logger p r1 of
                   (Inl e, r2) \<Rightarrow> (Inl e, r2)
                 | (Inr _, r2) \<Rightarrow> (Inr sinks, set_default_logger (Some p) r2))) of
        (Inl (Thrown (spdlog_ex m)), r1) \<Rightarrow> (Inl (Thrown (spdlog_ex m)), r1, str ''Logger init failed: '' @ m @ [10])
      | (res, r1) \<Rightarrow> (res, r1, []))"

definition init_thread_pool :: "nat \<Rightarrow> 'f app_registry \<Rightarrow> thread_pool result \<times> 'f app_registry" where
  "init_thread_pool i r =
     (case new_thread_pool 8192 1 of Inl e \<Rightarrow> (Inl e, r) | Inr tp \<Rightarrow> (Inr tp, set_tp (Some i) r))"

definition Logger_shutdown :: "'f app_registry \<Rightarrow> 'f app_registry" where
  "Logger_shutdown r = registry_shutdown r"

text \<open>The calls: a level and a message, with or without a context; each is one call of the library's logger.\<close>

datatype app_call = App_Log level_enum bytes | App_Log_Mdc level_enum bytes mdc

fun call_level :: "app_call \<Rightarrow> level_enum" where
  "call_level (App_Log l _) = l"
| "call_level (App_Log_Mdc l _ _) = l"

fun call_text :: "app_call \<Rightarrow> bytes" where
  "call_text (App_Log _ message) = log_json_text message"
| "call_text (App_Log_Mdc _ message m) = format_with_mdc message m"

definition call_event :: "log_env \<Rightarrow> app_call \<Rightarrow> pool_event" where
  "call_event e c = Call e 0 no_source (call_level c) (call_text c)"

subsection \<open>What was written can be read back\<close>

text \<open>A reader of the text of a call: strings with their escapes, and the members of the context.\<close>

fun read_string :: "bytes \<Rightarrow> (bytes \<times> bytes) option" where
  "read_string [] = None"
| "read_string (c # s) =
     (if c = 34 then Some ([], s)
      else if c = 92 then (case s of [] \<Rightarrow> None | d # s' \<Rightarrow> map_option (\<lambda>(t, rest). (d # t, rest)) (read_string s'))
      else map_option (\<lambda>(t, rest). (c # t, rest)) (read_string s))"

definition read_quoted :: "bytes \<Rightarrow> (bytes \<times> bytes) option" where
  "read_quoted s = (case s of [] \<Rightarrow> None | c # s' \<Rightarrow> if c = 34 then read_string s' else None)"

definition read_literal :: "bytes \<Rightarrow> bytes \<Rightarrow> bytes option" where
  "read_literal l s = (if take (length l) s = l then Some (drop (length l) s) else None)"

primrec read_members :: "nat \<Rightarrow> bytes \<Rightarrow> (mdc \<times> bytes) option" where
  "read_members 0 s = None"
| "read_members (Suc n) s =
     Option.bind (read_quoted s) (\<lambda>(k, s1).
     Option.bind (read_literal [58] s1) (\<lambda>s2.
     Option.bind (read_quoted s2) (\<lambda>(v, s3).
       case read_literal [44] s3 of
         Some s4 \<Rightarrow> map_option (\<lambda>(m, rest). ((k, v) # m, rest)) (read_members n s4)
       | None \<Rightarrow> map_option (\<lambda>rest. ([(k, v)], rest)) (read_literal [125] s3))))"

definition read_mdc :: "bytes \<Rightarrow> (mdc \<times> bytes) option" where
  "read_mdc s =
     Option.bind (read_literal [123] s) (\<lambda>s1.
       case read_literal [125] s1 of Some rest \<Rightarrow> Some ([], rest) | None \<Rightarrow> read_members (length s1) s1)"

definition read_text :: "bytes \<Rightarrow> (bytes \<times> mdc option) option" where
  "read_text s =
     Option.bind (read_literal message_key s) (\<lambda>s1.
     Option.bind (read_quoted s1) (\<lambda>(message, s2).
       if s2 = [] then Some (message, None)
       else Option.bind (read_literal mdc_key s2) (\<lambda>s3.
         Option.bind (read_mdc s3) (\<lambda>(m, rest). if rest = [] then Some (message, Some m) else None))))"

lemma read_string_escape [simp]: "read_string (escape s @ 34 # rest) = Some (s, rest)"
  by (induction s) auto

lemma read_quoted_quoted [simp]: "read_quoted (quoted s @ rest) = Some (s, rest)"
  by (simp add: read_quoted_def quoted_def)

lemma read_literal_same [simp]: "read_literal l (l @ rest) = Some rest"
  by (simp add: read_literal_def)

lemma read_literal_Cons [simp]: "read_literal [a] (b # s) = (if a = b then Some s else None)" "read_literal [a] [] = None"
  by (auto simp: read_literal_def)

lemma quoted_head [simp]: "read_literal [125] (quoted s @ rest) = None"
  by (simp add: quoted_def)

lemma read_members_written:
  "length m < n \<Longrightarrow> m \<noteq> [] \<Longrightarrow> read_members n (mdc_members True m @ 125 # rest) = Some (m, rest)"
proof (induction m arbitrary: n)
  case (Cons e m)
  obtain k v where e: "e = (k, v)" by (cases e)
  obtain n' where n: "n = Suc n'" "length m < n'" using Cons.prems(1) by (cases n) auto
  show ?case
  proof (cases m)
    case Nil
    then show ?thesis by (simp add: e n)
  next
    case (Cons e' m')
    then have "mdc_members False m = 44 # mdc_members True m" by (cases e') simp
    then show ?thesis using Cons.IH[OF n(2)] Cons by (simp add: e n)
  qed
qed simp

lemma length_mdc_members: "length m \<le> length (mdc_members b m)"
proof (induction b m rule: mdc_members.induct)
  case (2 first k v m)
  then show ?case by (auto simp: quoted_def)
qed simp

lemma read_mdc_written [simp]: "read_mdc (mdc_to_json m @ rest) = Some (m, rest)"
proof (cases m)
  case Nil
  then show ?thesis by (simp add: read_mdc_def mdc_to_json_def)
next
  case (Cons e m')
  obtain k v where e: "e = (k, v)" by (cases e)
  have "read_literal [125] (mdc_members True m @ 125 # rest) = None" by (simp add: Cons e)
  moreover have "length m < length (mdc_members True m @ 125 # rest)" using length_mdc_members[of m True] by simp
  ultimately show ?thesis
    using read_members_written[of m "length (mdc_members True m @ 125 # rest)" rest] Cons
    by (simp add: read_mdc_def mdc_to_json_def del: length_append mdc_members.simps)
qed

text \<open>
  C29. What a call logs can be read back. From the text that the logger builds of a call, a reader that
  knows the two escapes recovers the message and the context with its keys, values and order,
  whatever bytes they hold: quotes and backslashes in a message cannot end its string or add a member.
\<close>

theorem call_text_roundtrip:
  "read_text (call_text c) =
     (case c of App_Log l message \<Rightarrow> Some (message, None) | App_Log_Mdc l message m \<Rightarrow> Some (message, Some m))"
proof (cases c)
  case (App_Log l message)
  then show ?thesis using read_quoted_quoted[of message "[]"] by (simp add: read_text_def log_json_text_def del: read_quoted_quoted)
next
  case (App_Log_Mdc l message m)
  have "mdc_key @ x \<noteq> []" for x by (simp add: mdc_key_def)
  then show ?thesis using App_Log_Mdc read_mdc_written[of m "[]"]
    by (simp add: read_text_def format_with_mdc_def del: read_mdc_written)
qed

subsection \<open>Where the lines are not what they are meant to be\<close>

text \<open>
  Only quotes and backslashes are escaped: every other byte, a line feed too, goes to the log as it is,
  where JSON wants an escape and where a line feed ends the record.
\<close>

lemma escape_keeps_controls: "c < 32 \<Longrightarrow> c \<in> set s \<Longrightarrow> c \<in> set (escape s)"
  by (induction s) auto

text \<open>
  The second number of the time stamp counts the nanoseconds within the millisecond, up to 999999, but it
  is printed with at least three digits: one nanosecond later the fraction of the second can be smaller.
\<close>

lemma fraction_not_monotone:
  "fmt_03 (to_millis 1000999 - 1000 * to_seconds 1000999) @ fmt_03 (1000999 - 1000000 * to_millis 1000999) = str ''001999''"
  "fmt_03 (to_millis 1001000 - 1000 * to_seconds 1001000) @ fmt_03 (1001000 - 1000000 * to_millis 1001000) = str ''0011000''"
  by (code_simp, code_simp)

subsection \<open>From the call to the line\<close>

lemma app_log_fst:
  "fst (app_log msg (Console s)) = fst (stdout_log msg s)" "fst (app_log msg (File f)) = fst (rotating_sink_it msg f)"
  "fst (app_flush (Console s)) = fst (so_flush stdout_ops s)" "fst (app_flush (File f)) = fst (so_flush rotating_ops f)"
  by (simp_all split: prod.split)

interpretation app: sink_contract app_ops
proof
  fix msg st
  show "fst (so_log app_ops msg st) \<noteq> Inl Undefined"
    using rotating.log_defined[of msg] console.log_defined[of msg]
    by (cases st) (simp_all add: app_ops_def app_log_fst rotating_ops_def stdout_ops_def del: app_log.simps)
  show "fst (so_flush app_ops st) \<noteq> Inl Undefined"
    using rotating.flush_defined console.flush_defined
    by (cases st) (simp_all add: app_ops_def app_log_fst del: app_flush.simps)
qed


text \<open>Calls of any threads and turns of the worker, interleaved; the calls that pass the level; their lines.\<close>

type_synonym app_event = "(log_env \<times> app_call) + log_env"

fun event_of :: "app_event \<Rightarrow> pool_event" where
  "event_of (Inl (e, c)) = call_event e c"
| "event_of (Inr e) = Work e"

fun logged :: "app_event list \<Rightarrow> (log_env \<times> app_call) list" where
  "logged [] = []"
| "logged (Inl (e, c) # es) = (if call_level c \<ge> lv_debug then (e, c) # logged es else logged es)"
| "logged (Inr e # es) = logged es"

definition app_msg :: "log_env \<times> app_call \<Rightarrow> log_msg" where
  "app_msg = (\<lambda>(e, c). log_msg_now e no_source (str ''async_logger'') (call_level c) (call_text c))"

definition line :: "(int \<Rightarrow> bytes) \<Rightarrow> log_env \<times> app_call \<Rightarrow> bytes" where
  "line local_date x = json_format local_date (app_msg x)"

lemma sent_app:
  "sent (\<lambda>_. app_logger n tp) (map event_of es) = map (\<lambda>x. new_async_msg 0 am_log (app_msg x)) (logged es)"
  by (induction es rule: logged.induct) (simp_all add: call_event_def app_msg_def should_log_def app_logger_def)

lemma not_flushed [simp]: "\<not> should_flush m (app_logger n tp)"
  by (cases "lm_level m") (simp_all add: should_flush_def app_logger_def less_eq_level_enum_def)

lemma delivered_app:
  assumes "k < n"
  shows "delivered_all app_ops (\<lambda>_. app_logger n tp) (map (\<lambda>x. new_async_msg 0 am_log (app_msg x)) xs) S k =
    fold (\<lambda>x. sink_after app_ops (app_msg x) False) xs (S k)"
  using assms
proof (induction xs arbitrary: S)
  case (Cons x xs)
  have "delivered app_ops (\<lambda>_. app_logger n tp) (new_async_msg 0 am_log (app_msg x)) S k = sink_after app_ops (app_msg x) False (S k)"
    using Cons.prems by (simp add: delivered_def new_async_msg_def) (simp add: app_logger_def)
  then show ?case using Cons by (simp add: delivered_all_def)
qed (simp add: delivered_all_def)

lemma logged_levels: "x \<in> set (logged es) \<Longrightarrow> lv_debug \<le> lm_level (app_msg x)"
  by (induction es rule: logged.induct) (auto simp: app_msg_def log_msg_now_def new_log_msg_def split: if_splits)

lemma console_after:
  assumes "sk_level s = lv_debug" "sk_state s = Console c" "ss_formatter c = JsonFormatter date" "ss_fails c = (\<lambda>_. False)"
    and "\<forall>x \<in> set xs. lv_debug \<le> lm_level (app_msg x)"
  shows "\<exists>c'. sk_state (fold (\<lambda>x. sink_after app_ops (app_msg x) False) xs s) = Console c' \<and>
    ss_out c' = ss_out c @ concat (map (line date) xs)"
  using assms
proof (induction xs arbitrary: s c)
  case (Cons x xs)
  let ?c = "c\<lparr>ss_writes := Suc (ss_writes c), ss_out := ss_out c @ line date x\<rparr>"
  have "sink_after app_ops (app_msg x) False s = s\<lparr>sk_state := Console ?c\<rparr>"
    using Cons.prems by (simp add: sink_after_def sink_should_log_def app_ops_def stdout_log_def sbind_def formatted_by_def
        JsonFormatter_def supdate_def line_def)
  then show ?case using Cons.IH[of "s\<lparr>sk_state := Console ?c\<rparr>" ?c] Cons.prems by simp
qed simp

lemma file_after:
  assumes "sk_level s = lv_debug" "sk_state s = File f" "each rotating_sink_it (map app_msg xs) f = (Inr (), f')"
    and "\<forall>x \<in> set xs. lv_debug \<le> lm_level (app_msg x)"
  shows "sk_state (fold (\<lambda>x. sink_after app_ops (app_msg x) False) xs s) = File f'"
  using assms
proof (induction xs arbitrary: s f)
  case (Cons x xs)
  then obtain f1 where f1: "rotating_sink_it (app_msg x) f = (Inr (), f1)" "each rotating_sink_it (map app_msg xs) f1 = (Inr (), f')"
    by (auto simp: outcome_simps)
  have "sink_after app_ops (app_msg x) False s = s\<lparr>sk_state := File f1\<rparr>"
    using Cons.prems f1(1) by (simp add: sink_after_def sink_should_log_def app_ops_def)
  then show ?case using Cons.IH[of "s\<lparr>sk_state := File f1\<rparr>" f1] Cons.prems f1(2) by simp
qed (simp add: sreturn_def)

lemma Logger_made:
  assumes "Logger p env date fails d r = (Inr sinks, r', err)"
  shows "app_sinks env date fails d = Inr sinks \<and> logger_at r' p = app_logger (length sinks) (rg_tp r)"
proof (cases "app_sinks env date fails d")
  case (Inl e)
  then show ?thesis using assms by (auto simp: Logger_def split: fault.splits exn.splits)
next
  case (Inr ks)
  let ?r1 = "on_logger p (\<lambda>_. app_logger (length ks) (rg_tp r)) r"
  show ?thesis
  proof (cases "throw_if_exists (lg_name (logger_at ?r1 p)) ?r1")
    case (Inl e)
    then show ?thesis using assms Inr by (auto simp: Logger_def Let_def register_logger_def split: fault.splits exn.splits)
  next
    case Inr': (Inr u)
    then show ?thesis
      using assms Inr by (auto simp: Logger_def Let_def register_logger_def set_default_logger_def on_logger_def split: prod.splits)
  qed
qed

lemma app_sinks_made:
  assumes "app_sinks env date fails d = Inr sinks"
  shows "sinks \<noteq> [] \<and> sk_level (sinks ! 0) = lv_debug \<and> sk_state (sinks ! 0) = Console (new_stdout_sink (JsonFormatter date) fails) \<and>
    (file_log_wanted env \<longrightarrow> length sinks = 2 \<and> sk_level (sinks ! 1) = lv_debug \<and>
      (\<exists>f. sk_state (sinks ! 1) = File f \<and>
        new_rotating_file_sink (str ''logs/server.log'') (1024 * 1024 * 5) 3 False {} (JsonFormatter date) d = (Inr (), f)))"
  using assms by (auto simp: app_sinks_def Let_def sink_set_level_def new_sink_def split: if_splits prod.splits sum.splits)

text \<open>
  C14. Everything the program logs arrives once and in order, on the console and in the log files. Take the
  program's logger on its thread pool, with a console whose writes never fail and a disk where nothing fails and that had no
  log yet, any interleaving of calls by any threads with turns of the worker, and the shutdown of the pool. The
  worker ends, and the console has received the texts that the formatter makes of exactly the calls at debug level and above, in the
  order of the calls. With \<open>LOG_FILE\<close> set, the four log files hold the end of the same text, each at most 5 MiB unless it is the text of a
  single call. (The text of a call is one line of JSON only when its message has no control
  characters, which are not escaped: \<open>escape_keeps_controls\<close>.)
\<close>

theorem logged_lines_in_order:
  assumes "init_thread_pool 0 r0 = (Inr tp0, r)" "Logger 0 env date (\<lambda>_. False) d r = (Inr sinks, r', err)"
    and "no_faults d" "\<forall>i\<le>3. \<not> path_exists (calc_filename (str ''logs/server.log'') i) d"
    and "aw_loggers w = (\<lambda>_. logger_at r' 0)" "aw_pools w 0 = Some tp0" "\<forall>k<length sinks. lw_sinks w k = sinks ! k"
    and "pool_run app_ops (map event_of es) w = Some w1" "aw_pools w1 0 = Some tp1" "post_terminate tp1 = Some (Inr tp2)"
    and "\<forall>x \<in> set (logged es). 2 * (5242880 + length (line date x)) < size_t_range"
  shows "\<exists>w2 c. worker_loop app_ops 0 (w1\<lparr>aw_pools := (aw_pools w1)(0 \<mapsto> tp2)\<rparr>) = Some (Inr (), w2) \<and>
    sk_state (lw_sinks w2 0) = Console c \<and> ss_out c = concat (map (line date) (logged es)) \<and>
    (file_log_wanted env \<longrightarrow> (\<exists>f L pre. sk_state (lw_sinks w2 1) = File f \<and>
      (\<forall>i\<le>3. dk_files (fh_disk (rs_helper f)) (calc_filename (str ''logs/server.log'') i) =
        (if i < length L then Some (L ! i) else None)) \<and>
      length L \<le> 4 \<and> (\<forall>t \<in> set L. length t \<le> 5242880 \<or> t \<in> set (map (line date) (logged es))) \<and>
      concat (map (line date) (logged es)) = pre @ concat (rev L)))"
proof -
  have tp: "new_thread_pool 8192 1 = Inr tp0" "rg_tp r = Some 0"
    using assms(1) by (auto simp: init_thread_pool_def set_tp_def split: sum.splits)
  note made = Logger_made[OF assms(2)]
  note sinks = app_sinks_made[OF conjunct1[OF made]]
  have ls: "aw_loggers w = (\<lambda>_. app_logger (length sinks) (Some 0))" using made assms(5) tp(2) by simp
  have "\<forall>p. plain_async (aw_loggers w p)"
    by (simp add: ls) (simp add: plain_async_def app_logger_def new_backtracer_def)
  then obtain w2 where w2: "worker_loop app_ops 0 (w1\<lparr>aw_pools := (aw_pools w1)(0 \<mapsto> tp2)\<rparr>) = Some (Inr (), w2)"
      "lw_sinks w2 = delivered_all app_ops (aw_loggers w) (sent (aw_loggers w) (map event_of es)) (lw_sinks w)"
    using worker_drains_all[OF app.sink_contract_axioms _ _ tp(1) assms(6,8-10)] by (auto simp: size_t_range_def)
  have at: "lw_sinks w2 k = fold (\<lambda>x. sink_after app_ops (app_msg x) False) (logged es) (sinks ! k)" if "k < length sinks" for k
    using that assms(7) by (simp add: w2(2) ls sent_app delivered_app)
  have lv: "\<forall>x \<in> set (logged es). lv_debug \<le> lm_level (app_msg x)" using logged_levels by blast
  obtain c where c: "sk_state (lw_sinks w2 0) = Console c" "ss_out c = concat (map (line date) (logged es))"
    using console_after[of "sinks ! 0" _ date "logged es"] sinks lv at[of 0] by (auto simp: new_stdout_sink_def)
  have "\<exists>f L pre. sk_state (lw_sinks w2 1) = File f \<and>
      (\<forall>i\<le>3. dk_files (fh_disk (rs_helper f)) (calc_filename (str ''logs/server.log'') i) =
        (if i < length L then Some (L ! i) else None)) \<and>
      length L \<le> 4 \<and> (\<forall>t \<in> set L. length t \<le> 5242880 \<or> t \<in> set (map (line date) (logged es))) \<and>
      concat (map (line date) (logged es)) = pre @ concat (rev L)" if wanted: "file_log_wanted env"
  proof -
    obtain f0 where f0: "length sinks = 2" "sk_level (sinks ! 1) = lv_debug" "sk_state (sinks ! 1) = File f0"
        "new_rotating_file_sink (str ''logs/server.log'') 5242880 3 False {} (JsonFormatter date) d = (Inr (), f0)"
      using sinks wanted by auto
    have m: "map (JsonFormatter date) (map app_msg (logged es)) = map Inr (map (line date) (logged es))"
      by (simp add: JsonFormatter_def line_def)
    have b: "\<forall>t \<in> set (map (line date) (logged es)). 2 * (5242880 + length t) < size_t_range" using assms(11) by simp
    obtain f L pre where f: "each rotating_sink_it (map app_msg (logged es)) f0 = (Inr (), f)"
        "\<forall>i\<le>3. dk_files (fh_disk (rs_helper f)) (calc_filename (str ''logs/server.log'') i) = (if i < length L then Some (L ! i) else None)"
        "length L \<le> 3 + 1" "\<forall>t \<in> set L. length t \<le> 5242880 \<or> t \<in> set (map (line date) (logged es))"
        "concat (map (line date) (logged es)) = pre @ concat (rev L)"
      using rotating_exact[OF assms(3,4) f0(4) m b] by metis
    have "sk_state (lw_sinks w2 1) = File f" using file_after[OF f0(2,3) f(1) lv] at[of 1] f0(1) by simp
    then show ?thesis using f by (intro exI[of _ f] exI[of _ L] exI[of _ pre]) simp
  qed
  then show ?thesis using w2(1) c by (intro exI[of _ w2] exI[of _ c]) blast
qed

definition start_registry :: "unit app_registry" where
  "start_registry = new_registry () 1 \<lparr>rw_loggers = (\<lambda>_. sample_logger), rw_formatters = (\<lambda>_. ())\<rparr>"

definition start_sinks :: "app_sink sink list" where
  "start_sinks = [sink_set_level lv_debug (new_sink (Console (new_stdout_sink (JsonFormatter (\<lambda>_. [])) (\<lambda>_. False))))]"

definition start_world :: "app_sink async_world" where
  "start_world =
     \<lparr>lw_sinks = (\<lambda>_. hd start_sinks), lw_env = \<lparr>le_now = 0, le_thread_id = 0, le_date = (\<lambda>_. [])\<rparr>,
      lw_last_report_time = 0, lw_err_counter = 0, lw_stderr = [], lw_err_calls = [],
      aw_loggers = (\<lambda>_. app_logger 1 (Some 0)),
      aw_pools = [0 \<mapsto> \<lparr>tp_q = mpmc_blocking_queue default_async_msg 8192, tp_threads = 1\<rparr>]\<rparr>"

definition start_call :: "log_env \<times> app_call" where
  "start_call = (\<lparr>le_now = 5, le_thread_id = 1, le_date = (\<lambda>_. [])\<rparr>, App_Log lv_info [65])"

lemma start_run:
  "\<exists>w1 tp1 tp2. pool_run app_ops [event_of (Inl start_call)] start_world = Some w1 \<and> aw_pools w1 0 = Some tp1 \<and>
     post_terminate tp1 = Some (Inr tp2)"
  by (simp add: pool_compute start_world_def start_call_def call_event_def app_logger_def)

lemma start_logger:
  "\<exists>r'. Logger 0 None (\<lambda>_. []) (\<lambda>_. False) empty_disk (set_tp (Some 0) start_registry) = (Inr start_sinks, r', []) \<and>
     logger_at r' 0 = app_logger 1 (Some 0)"
  by (simp add: Logger_def app_sinks_def file_log_wanted_def start_sinks_def Let_def register_logger_def throw_if_exists_def
      on_logger_def start_registry_def new_registry_def set_tp_def app_logger_def str_def set_default_logger_def)

theorem logged_lines_in_order_witness:
  "\<exists>w1 tp1 tp2 w2 c. pool_run app_ops [event_of (Inl start_call)] start_world = Some w1 \<and> aw_pools w1 0 = Some tp1 \<and>
     post_terminate tp1 = Some (Inr tp2) \<and>
     worker_loop app_ops 0 (w1\<lparr>aw_pools := (aw_pools w1)(0 \<mapsto> tp2)\<rparr>) = Some (Inr (), w2) \<and>
     sk_state (lw_sinks w2 0) = Console c \<and> ss_out c = line (\<lambda>_. []) start_call"
proof -
  obtain w1 tp1 tp2 where r: "pool_run app_ops (map event_of [Inl start_call]) start_world = Some w1" "aw_pools w1 0 = Some tp1"
      "post_terminate tp1 = Some (Inr tp2)" using start_run by auto
  obtain r' where l: "Logger 0 None (\<lambda>_. []) (\<lambda>_. False) empty_disk (set_tp (Some 0) start_registry) = (Inr start_sinks, r', [])"
      "logger_at r' 0 = app_logger 1 (Some 0)" using start_logger by blast
  have i: "init_thread_pool 0 start_registry =
      (Inr \<lparr>tp_q = mpmc_blocking_queue default_async_msg 8192, tp_threads = 1\<rparr>, set_tp (Some 0) start_registry)"
    by (simp add: init_thread_pool_def new_thread_pool_def)
  have d: "no_faults empty_disk" "\<forall>i\<le>3. \<not> path_exists (calc_filename (str ''logs/server.log'') i) empty_disk"
    by (simp_all add: no_faults_def path_exists_def empty_disk_def)
  have w: "aw_loggers start_world = (\<lambda>_. logger_at r' 0)"
      "aw_pools start_world 0 = Some \<lparr>tp_q = mpmc_blocking_queue default_async_msg 8192, tp_threads = 1\<rparr>"
      "\<forall>k<length start_sinks. lw_sinks start_world k = start_sinks ! k"
    by (simp_all add: start_world_def l(2) start_sinks_def)
  have g: "logged [Inl start_call] = [start_call]" by (simp add: start_call_def less_eq_level_enum_def)
  have "length (line (\<lambda>_. []) start_call) < 1000" by code_simp
  then have "\<forall>x \<in> set (logged [Inl start_call]). 2 * (5242880 + length (line (\<lambda>_. []) x)) < size_t_range"
    unfolding g by (simp add: size_t_range_def)
  from logged_lines_in_order[OF i l(1) d w r this] obtain w2 c where
    "worker_loop app_ops 0 (w1\<lparr>aw_pools := (aw_pools w1)(0 \<mapsto> tp2)\<rparr>) = Some (Inr (), w2)"
    "sk_state (lw_sinks w2 0) = Console c" "ss_out c = concat (map (line (\<lambda>_. [])) [start_call])"
    unfolding g by blast
  then show ?thesis using r by (intro exI[of _ w1] exI[of _ tp1] exI[of _ tp2] exI[of _ w2] exI[of _ c]) simp
qed

end
