(* ===== verification/Fmt_Int.thy ===== *)
theory Fmt_Int
  imports Log_Core "HOL-Library.Log_Nat"
begin

text \<open>
  \<open>fmt/bundled/format.h\<close>, decimal integers: how many digits a number has, two digits at a time into a
  buffer, and the class \<open>format_int\<close>. The loggers print every number through them. The reference is
  \<open>dec_digits\<close>, the plain decimal expansion.
\<close>

subsection \<open>How many digits\<close>

function count_digits_from :: "nat \<Rightarrow> nat \<Rightarrow> nat" where
  "count_digits_from count n =
     (if n < 10 then count
      else if n < 100 then count + 1
      else if n < 1000 then count + 2
      else if n < 10000 then count + 3
      else count_digits_from (count + 4) (n div 10000))"
  by pat_completeness auto
termination by (relation "measure snd") auto

declare count_digits_from.simps [simp del]

definition count_digits_fallback :: "nat \<Rightarrow> nat" where
  "count_digits_fallback n = count_digits_from 1 n"

text \<open>\<open>__builtin_clz\<close>: the number of zero bits above the highest bit that is set.\<close>

definition clz :: "'a::len word \<Rightarrow> nat" where
  "clz w = length (takeWhile (\<lambda>i. \<not> bit w i) (rev [0..<LENGTH('a)]))"

definition bsr2log10 :: "nat list" where
  "bsr2log10 =
     [1,  1,  1,  2,  2,  2,  3,  3,  3,  4,  4,  4,  4,  5,  5,  5,
      6,  6,  6,  7,  7,  7,  7,  8,  8,  8,  9,  9,  9,  10, 10, 10,
      10, 11, 11, 11, 12, 12, 12, 13, 13, 13, 13, 14, 14, 14, 15, 15,
      15, 16, 16, 16, 16, 17, 17, 17, 18, 18, 18, 19, 19, 19, 19, 20]"

definition powers_of_10 :: "u64 \<Rightarrow> u64 list" where
  "powers_of_10 factor = map (\<lambda>i. factor * 10 ^ i) [1..<10]"

definition zero_or_powers_of_10 :: "u64 list" where
  "zero_or_powers_of_10 = [0, 0] @ powers_of_10 1 @ powers_of_10 1000000000 @ [10000000000000000000]"

definition do_count_digits_64 :: "u64 \<Rightarrow> nat" where
  "do_count_digits_64 n =
     (let t = bsr2log10 ! (clz (n OR 1) XOR 63) in t - (if n < zero_or_powers_of_10 ! t then 1 else 0))"

text \<open>\<open>FMT_INC(T)\<close>; \<open>sizeof(#T) - 1\<close> is the number of digits of the literal.\<close>

definition fmt_inc :: "nat \<Rightarrow> u64" where
  "fmt_inc t = push_bit 32 (of_nat (length (dec_digits t))) - of_nat t"

definition inc_table :: "u64 list" where
  "inc_table = map fmt_inc
     [0,          0,          0,
      10,         10,         10,
      100,        100,        100,
      1000,       1000,       1000,
      10000,      10000,      10000,
      100000,     100000,     100000,
      1000000,    1000000,    1000000,
      10000000,   10000000,   10000000,
      100000000,  100000000,  100000000,
      1000000000, 1000000000, 1000000000,
      1000000000, 1000000000]"

definition do_count_digits_32 :: "u32 \<Rightarrow> nat" where
  "do_count_digits_32 n =
     (let inc = inc_table ! (clz (n OR 1) XOR 31) in unat (drop_bit 32 (ucast n + inc)))"

subsection \<open>Printing into a buffer\<close>

definition digits2_data :: bytes where
  "digits2_data =
     str (''0001020304050607080910111213141516171819'' @
          ''2021222324252627282930313233343536373839'' @
          ''4041424344454647484950515253545556575859'' @
          ''6061626364656667686970717273747576777879'' @
          ''8081828384858687888990919293949596979899'')"

definition digits2 :: "nat \<Rightarrow> bytes" where
  "digits2 value = drop (value * 2) digits2_data"

definition write_at :: "bytes \<Rightarrow> nat \<Rightarrow> bytes \<Rightarrow> bytes result" where
  "write_at out i bs =
     (if i + length bs \<le> length out then Inr (take i out @ bs @ drop (i + length bs) out) else Inl Undefined)"

definition write2digits :: "bytes \<Rightarrow> nat \<Rightarrow> nat \<Rightarrow> bytes result" where
  "write2digits out i value = write_at out i (take 2 (digits2 value))"

text \<open>The position \<open>n\<close> is unsigned: going below 0 it leaves the buffer.\<close>

function format_pairs :: "bytes \<Rightarrow> nat \<Rightarrow> nat \<Rightarrow> (bytes \<times> nat) result" where
  "format_pairs out n value =
     (if value \<ge> 100 then
        (if n < 2 then Inl Undefined
         else rbind (write2digits out (n - 2) (value mod 100)) (\<lambda>out. format_pairs out (n - 2) (value div 100)))
      else if value \<ge> 10 then
        (if n < 2 then Inl Undefined
         else rbind (write2digits out (n - 2) value) (\<lambda>out. Inr (out, n - 2)))
      else
        (if n < 1 then Inl Undefined
         else rbind (write_at out (n - 1) [of_nat (48 + value)]) (\<lambda>out. Inr (out, n - 1))))"
  by pat_completeness auto
termination by (relation "measure (\<lambda>(_, _, v). v)") auto

declare format_pairs.simps [simp del]

definition do_format_decimal :: "bytes \<Rightarrow> nat \<Rightarrow> nat \<Rightarrow> (bytes \<times> nat) result" where
  "do_format_decimal out value sz = format_pairs out sz value"

text \<open>\<open>format_int\<close>: the buffer, whatever it holds, and the position of the first character.\<close>

definition buffer_size :: nat where
  "buffer_size = 19 + 3"

record format_int =
  fi_buffer :: bytes
  fi_str :: nat

definition format_unsigned :: "bytes \<Rightarrow> 'a::len word \<Rightarrow> format_int result" where
  "format_unsigned buffer value =
     rbind (do_format_decimal buffer (unat value) (buffer_size - 1)) (\<lambda>(out, n). Inr \<lparr>fi_buffer = out, fi_str = n\<rparr>)"

definition format_signed :: "bytes \<Rightarrow> 'a::len word \<Rightarrow> format_int result" where
  "format_signed buffer value =
     (let negative = sint value < 0;
          abs_value = if negative then 0 - value else value
      in rbind (format_unsigned buffer abs_value) (\<lambda>i.
         if negative then
           (if fi_str i = 0 then Inl Undefined
            else rbind (write_at (fi_buffer i) (fi_str i - 1) [45]) (\<lambda>out. Inr \<lparr>fi_buffer = out, fi_str = fi_str i - 1\<rparr>))
         else Inr i))"

definition fi_size :: "format_int \<Rightarrow> nat" where
  "fi_size i = buffer_size - 1 - fi_str i"

definition fi_data :: "format_int \<Rightarrow> bytes" where
  "fi_data i = take (fi_size i) (drop (fi_str i) (fi_buffer i))"

subsection \<open>The number of digits\<close>

lemma length_dec_digits_pos [simp]: "0 < length (dec_digits n)"
  by (subst dec_digits.simps) simp

lemma length_dec_digits_step: "length (dec_digits n) = (if n < 10 then 1 else Suc (length (dec_digits (n div 10))))"
  by (subst dec_digits.simps) simp

lemma length_dec_digits_eq:
  "length (dec_digits n) = d \<longleftrightarrow> 0 < d \<and> n < 10 ^ d \<and> (d = 1 \<or> 10 ^ (d - 1) \<le> n)"
proof (induction n arbitrary: d rule: dec_digits.induct)
  case (1 n)
  show ?case
  proof (cases "n < 10")
    case True
    have "10 ^ (d - 1) \<le> n \<longleftrightarrow> d \<le> 1 \<and> 0 < n" 
    proof (cases "d \<le> 1")
      case False
      then obtain e where "d = Suc (Suc e)" by (metis Suc_le_D not_less_eq_eq numeral_nat(7))
      moreover have "n < 10 * 10 ^ e" using True by (rule less_le_trans) simp
      ultimately have "\<not> 10 ^ (d - 1) \<le> n" by simp
      with False show ?thesis by simp
    qed auto
    moreover have "d = 1 \<Longrightarrow> n < 10 ^ d" using True by simp
    ultimately show ?thesis using True by (auto simp: length_dec_digits_step[of n])
  next
    case False
    show ?thesis
    proof (cases d)
      case 0
      then show ?thesis by (simp add: length_dec_digits_step[of n])
    next
      case (Suc e)
      have a: "n div 10 < 10 ^ e \<longleftrightarrow> n < 10 ^ Suc e" by (simp add: div_less_iff_less_mult mult.commute)
      have b: "10 ^ (e - 1) \<le> n div 10 \<longleftrightarrow> 10 ^ e \<le> n" if "0 < e"
        using that by (cases e) (simp_all add: less_eq_div_iff_mult_less_eq mult.commute)
      have c: "e = 1 \<Longrightarrow> 10 ^ e \<le> n" using False by simp
      have d: "e = 0 \<Longrightarrow> \<not> n < 10 ^ Suc e" using False by simp
      show ?thesis
        using False "1"[of e] a b c d Suc by (cases "e = 0") (auto simp: length_dec_digits_step[of n])
    qed
  qed
qed

lemma count_digits_from_eq: "Suc (count_digits_from c n) = c + length (dec_digits n)"
proof (induction c n rule: count_digits_from.induct)
  case (1 c n)
  show ?case
  proof (cases "n < 10000")
    case True
    have "length (dec_digits n) = (if n < 10 then 1 else if n < 100 then 2 else if n < 1000 then 3 else 4)"
      using True by (auto simp: length_dec_digits_eq)
    then show ?thesis using True by (subst count_digits_from.simps) simp
  next
    case False
    have q: "n div 10 div 10 div 10 div 10 = n div 10000" by (simp add: div_mult2_eq[symmetric])
    have "length (dec_digits n) = 4 + length (dec_digits (n div 10000))"
      using False unfolding q[symmetric]
      by (simp add: length_dec_digits_step[of n] length_dec_digits_step[of "n div 10"]
          length_dec_digits_step[of "n div 10 div 10"] length_dec_digits_step[of "n div 10 div 10 div 10"]
          div_less_iff_less_mult)
    then show ?thesis using False "1" by (subst count_digits_from.simps) simp
  qed
qed

lemma count_digits_fallback_eq: "count_digits_fallback n = length (dec_digits n)"
  using count_digits_from_eq[of 1 n] by (simp add: count_digits_fallback_def)

lemma length_dec_digits_bracket:
  assumes "0 < t" "n < 10 ^ t" "2 \<le> t \<longrightarrow> 10 ^ (t - 2) \<le> n"
  shows "length (dec_digits n) = t - (if 2 \<le> t \<and> n < 10 ^ (t - 1) then 1 else 0)"
proof (cases "2 \<le> t \<and> n < 10 ^ (t - 1)")
  case True
  moreover have "t - 1 - 1 = t - 2" by simp
  ultimately show ?thesis using assms by (simp add: length_dec_digits_eq del: One_nat_def)
next
  case False
  then show ?thesis using assms by (auto simp: length_dec_digits_eq)
qed

subsection \<open>The highest bit\<close>

lemma takeWhile_rev_upt:
  assumes "k < m" "P k" "\<forall>i. k < i \<and> i < m \<longrightarrow> \<not> P i"
  shows "length (takeWhile (\<lambda>i. \<not> P i) (rev [0..<m])) = m - 1 - k"
  using assms
proof (induction m)
  case (Suc m)
  then show ?case
    by (cases "k = m") (auto simp: Suc_diff_Suc)
qed simp

lemma highest_bit:
  fixes w :: "'a::len word"
  assumes "w \<noteq> 0"
  shows "\<exists>k < LENGTH('a). clz w = LENGTH('a) - 1 - k \<and> 2 ^ k \<le> unat w \<and> unat w < 2 ^ Suc k"
proof -
  have pos: "0 < unat w" using assms by (simp add: unat_gt_0)
  define k where "k = floorlog 2 (unat w) - 1"
  have "floorlog 2 (unat w) \<noteq> 0" using pos by (simp add: floorlog_eq_zero_iff)
  then have S: "floorlog 2 (unat w) = Suc k" by (simp add: k_def)
  have lo: "2 ^ k \<le> unat w" and hi: "unat w < 2 ^ Suc k"
    using floorlog_bounds[OF pos, of 2] unfolding S by simp_all
  have "(2::nat) ^ k < 2 ^ LENGTH('a)" using lo unsigned_less[of w] by (rule le_less_trans)
  then have k: "k < LENGTH('a)" by simp
  have "unat w div 2 ^ k = 1" using lo hi by (intro div_nat_eqI) simp_all
  then have b: "bit (unat w) k" by (simp add: bit_iff_odd)
  have nb: "\<not> bit (unat w) i" if "k < i" for i
  proof -
    have "(2::nat) ^ Suc k \<le> 2 ^ i" using that by (intro power_increasing) simp_all
    then show ?thesis using hi by (simp add: bit_iff_odd)
  qed
  have "clz w = LENGTH('a) - 1 - k"
    unfolding clz_def using k b nb by (intro takeWhile_rev_upt) (simp_all add: bit_unsigned_iff)
  with k lo hi show ?thesis by blast
qed

lemma xor_mask_sub:
  "k < 64 \<Longrightarrow> (63 - k) XOR 63 = (k::nat)" "k < 32 \<Longrightarrow> (31 - k) XOR 31 = (k::nat)"
proof -
  have "\<forall>k\<in>set [0..<64]. (63 - k) XOR 63 = (k::nat)" "\<forall>k\<in>set [0..<32]. (31 - k) XOR 31 = (k::nat)" by code_simp+
  then show "k < 64 \<Longrightarrow> (63 - k) XOR 63 = (k::nat)" "k < 32 \<Longrightarrow> (31 - k) XOR 31 = (k::nat)" by simp_all
qed

lemma unat_or_1: "unat (n OR 1) = (if even (unat n) then Suc (unat n) else unat (n :: 'a::len word))"
proof -
  have "unat (n OR 1) = unat n OR 1" by (simp add: unsigned_or_eq)
  also have "\<dots> = (if even (unat n) then Suc (unat n) else unat n)" using or_one_eq[of "unat n"] by simp
  finally show ?thesis .
qed

lemma bracket_or_1:
  assumes "2 ^ k \<le> unat (n OR 1 :: 'a::len word)" "unat (n OR 1) < 2 ^ Suc k" "0 < k"
  shows "2 ^ k \<le> unat n \<and> unat n < 2 ^ Suc k"
proof (cases "even (unat n)")
  case True
  then have "Suc (unat n) \<noteq> 2 ^ k" using assms(3) by (metis even_Suc even_power even_numeral)
  then show ?thesis using assms True by (simp add: unat_or_1)
qed (use assms in \<open>simp_all add: unat_or_1\<close>)

subsection \<open>The table lookups count digits\<close>

lemma bsr2log10_bracket:
  "\<forall>k\<in>set [0..<64]. 0 < bsr2log10 ! k \<and> bsr2log10 ! k \<le> 20 \<and> (2::nat) ^ Suc k \<le> 10 ^ (bsr2log10 ! k) \<and>
     (2 \<le> bsr2log10 ! k \<longrightarrow> 0 < k \<and> (10::nat) ^ (bsr2log10 ! k - 2) \<le> 2 ^ k)"
  by (simp add: bsr2log10_def upt_rec)

lemma zero_or_powers_of_10_eq:
  "\<forall>t\<in>set [0..<21]. unat (zero_or_powers_of_10 ! t) = (if 2 \<le> t then 10 ^ (t - 1) else 0)"
  by (simp add: zero_or_powers_of_10_def powers_of_10_def upt_rec)

lemma do_count_digits_64_eq: "do_count_digits_64 n = length (dec_digits (unat n))"
proof -
  have "n OR 1 \<noteq> 0" by (metis or_eq_0_iff zero_neq_one)
  then obtain k where k: "k < 64" "clz (n OR 1) = 63 - k" "2 ^ k \<le> unat (n OR 1)" "unat (n OR 1) < 2 ^ Suc k"
    using highest_bit[of "n OR 1"] by auto
  define t where "t = bsr2log10 ! k"
  have t: "0 < t" "t \<le> 20" "(2::nat) ^ Suc k \<le> 10 ^ t" "2 \<le> t \<longrightarrow> 0 < k \<and> (10::nat) ^ (t - 2) \<le> 2 ^ k"
    using bsr2log10_bracket k(1) by (auto simp: t_def)
  have "unat n \<le> unat (n OR 1)" by (simp add: unat_or_1)
  then have hi: "unat n < 10 ^ t" using k(4) t(3) by linarith
  have lo: "2 \<le> t \<longrightarrow> 10 ^ (t - 2) \<le> unat n"
    using t(4) bracket_or_1[OF k(3,4)] by (meson le_trans)
  have z: "unat (zero_or_powers_of_10 ! t) = (if 2 \<le> t then 10 ^ (t - 1) else 0)"
    using zero_or_powers_of_10_eq t(2) by auto
  have "do_count_digits_64 n = t - (if n < zero_or_powers_of_10 ! t then 1 else 0)"
    using k(1,2) by (simp add: do_count_digits_64_def xor_mask_sub t_def Let_def)
  also have "\<dots> = length (dec_digits (unat n))"
    using length_dec_digits_bracket[OF t(1) hi lo] by (simp add: word_less_nat_alt z)
  finally show ?thesis .
qed

lemma inc_table_bracket:
  "\<forall>k\<in>set [0..<32]. let d = if k < 30 then k div 3 + 1 else 10 in
     inc_table ! k = fmt_inc (if d = 1 then 0 else 10 ^ (d - 1)) \<and> (2::nat) ^ Suc k \<le> 10 ^ d \<and>
     (2 \<le> d \<longrightarrow> 0 < k \<and> (10::nat) ^ (d - 2) \<le> 2 ^ k)"
  by (simp add: inc_table_def upt_rec)

lemma fmt_inc_added:
  assumes "0 < d" "d \<le> 10" "n < 2 ^ 32" "t = (if d = 1 then 0 else 10 ^ (d - 1))"
  shows "unat (drop_bit 32 (of_nat n + fmt_inc t)) = d - (if n < t then 1 else 0)"
proof -
  have len: "length (dec_digits t) = d" using assms(1,4) by (auto simp: length_dec_digits_eq)
  have "t \<le> 10 ^ 9" using assms(2,4) power_increasing[of "d - 1" 9 "10::nat"] by auto
  then have t: "t < 2 ^ 32" by simp
  have le: "t \<le> d * 2 ^ 32" using t assms(1) by (cases d) auto
  have "of_nat n + fmt_inc t = of_nat n + (of_nat (d * 2 ^ 32) - of_nat t)"
    by (simp add: fmt_inc_def len push_bit_eq_mult)
  also have "\<dots> = of_nat (n + (d * 2 ^ 32 - t))" by (simp only: of_nat_add of_nat_diff[OF le])
  finally have e: "of_nat n + fmt_inc t = (of_nat (n + (d * 2 ^ 32 - t)) :: u64)" .
  have "d * 2 ^ 32 \<le> 10 * (2 ^ 32 :: nat)" using assms(2) by simp
  then have "n + (d * 2 ^ 32 - t) < 2 ^ 64" using assms(3) by simp
  then have "unat (drop_bit 32 (of_nat n + fmt_inc t)) = (n + (d * 2 ^ 32 - t)) div 2 ^ 32"
    unfolding e unsigned_drop_bit_eq by (simp only: drop_bit_eq_div unat_of_nat) (simp add: take_bit_nat_eq_self)
  also have "\<dots> = d - (if n < t then 1 else 0)"
    using assms(1,3) t by (intro div_nat_eqI) (cases d; auto)+
  finally show ?thesis .
qed

lemma do_count_digits_32_eq: "do_count_digits_32 n = length (dec_digits (unat n))"
proof -
  have "n OR 1 \<noteq> 0" by (metis or_eq_0_iff zero_neq_one)
  then obtain k where k: "k < 32" "clz (n OR 1) = 31 - k" "2 ^ k \<le> unat (n OR 1)" "unat (n OR 1) < 2 ^ Suc k"
    using highest_bit[of "n OR 1"] by auto
  define d :: nat where "d = (if k < 30 then k div 3 + 1 else 10)"
  define t :: nat where "t = (if d = 1 then 0 else 10 ^ (d - 1))"
  have d: "0 < d" "d \<le> 10" using k(1) by (auto simp: d_def)
  have i: "inc_table ! k = fmt_inc t" and up: "(2::nat) ^ Suc k \<le> 10 ^ d"
    and down: "2 \<le> d \<longrightarrow> 0 < k \<and> (10::nat) ^ (d - 2) \<le> 2 ^ k"
    using inc_table_bracket k(1) unfolding Let_def t_def d_def by simp_all
  have "unat n \<le> unat (n OR 1)" by (simp add: unat_or_1)
  then have hi: "unat n < 10 ^ d" using k(4) up by linarith
  have lo: "2 \<le> d \<longrightarrow> 10 ^ (d - 2) \<le> unat n"
    using down bracket_or_1[OF k(3,4)] by (meson le_trans)
  have n: "unat n < 2 ^ 32" by (rule order_less_le_trans[OF unsigned_less]) simp
  have "do_count_digits_32 n = d - (if unat n < t then 1 else 0)"
    using fmt_inc_added[OF d n t_def] k(1,2) i
    by (simp add: do_count_digits_32_def xor_mask_sub)
  also have "\<dots> = length (dec_digits (unat n))"
    using length_dec_digits_bracket[OF d(1) hi lo] d(1) by (auto simp: t_def)
  finally show ?thesis .
qed

text \<open>
  The two table lookups that count decimal digits without a loop (by the highest bit and a table of
  powers of ten for 64 bits; by one addition to a table entry whose upper half is the answer for 32 bits),
  and the loop over groups of four digits, all give the length of the decimal expansion of every value.
\<close>

theorem digit_counts_agree:
  "do_count_digits_64 n = length (dec_digits (unat n)) \<and> do_count_digits_32 m = length (dec_digits (unat m)) \<and>
   count_digits_fallback k = length (dec_digits k)"
  by (simp add: do_count_digits_64_eq do_count_digits_32_eq count_digits_fallback_eq)

subsection \<open>The digits in the buffer\<close>

definition pair_of :: "nat \<Rightarrow> bytes" where
  "pair_of v = [of_nat (48 + v div 10), of_nat (48 + v mod 10)]"

lemma digits2_data_pairs: "digits2_data = concat (map pair_of [0..<100])"
  by (simp add: digits2_data_def str_def upt_rec pair_of_def)

lemma drop_concat_pairs: "drop (v * 2) (concat (map pair_of xs)) = concat (map pair_of (drop v xs))"
proof (induction v arbitrary: xs)
  case (Suc v)
  then show ?case by (cases xs) (simp_all add: pair_of_def)
qed simp

lemma digits2_eq: "v < 100 \<Longrightarrow> take 2 (digits2 v) = pair_of v"
  unfolding digits2_def digits2_data_pairs drop_concat_pairs by (simp add: upt_conv_Cons[of v] pair_of_def)

lemma dec_digits_pairs:
  "dec_digits n = (if n < 10 then [of_nat (48 + n)] else if n < 100 then pair_of n
                   else dec_digits (n div 100) @ pair_of (n mod 100))"
proof -
  have a: "n div 10 div 10 = n div 100" by (simp add: div_mult2_eq[symmetric])
  have b: "n div 10 mod 10 = n mod 100 div 10" using mod_mult2_eq[of n 10 10] by simp
  have c: "n mod 100 mod 10 = n mod 10" by (simp add: mod_mod_cancel)
  show ?thesis
    by (subst dec_digits.simps, subst dec_digits.simps) (auto simp: pair_of_def a b c div_less_iff_less_mult)
qed

text \<open>What is written: the digits end at position \<open>n\<close>; what is before them and after them stays.\<close>

lemma format_pairs_eq:
  assumes "length (dec_digits v) \<le> n" "n \<le> length out"
  shows "format_pairs out n v =
    Inr (take (n - length (dec_digits v)) out @ dec_digits v @ drop n out, n - length (dec_digits v))"
  using assms
proof (induction out n v rule: format_pairs.induct)
  case (1 out n v)
  let ?l = "length (dec_digits v)"
  consider "v < 10" | "10 \<le> v" "v < 100" | "100 \<le> v" by linarith
  then show ?case
  proof cases
    case 1
    then have d: "dec_digits v = [of_nat (48 + v)]" by (simp add: dec_digits_pairs)
    show ?thesis using 1 "1.prems" unfolding d
      by (subst format_pairs.simps) (simp add: write_at_def)
  next
    case 2
    then have d: "dec_digits v = pair_of v" by (simp add: dec_digits_pairs)
    then obtain m where "n = m + 2" using "1.prems"(1) le_Suc_ex[of 2 n] by (auto simp: pair_of_def)
    then show ?thesis using 2 "1.prems" unfolding d
      by (subst format_pairs.simps) (simp add: write2digits_def digits2_eq write_at_def pair_of_def)
  next
    case 3
    then have d: "dec_digits v = dec_digits (v div 100) @ pair_of (v mod 100)" by (simp add: dec_digits_pairs[of v])
    let ?w = "take (n - 2) out @ pair_of (v mod 100) @ drop n out"
    have l: "?l = length (dec_digits (v div 100)) + 2" by (simp add: d pair_of_def)
    have "n - 2 + 2 = n" using "1.prems" l by linarith
    then have w: "write2digits out (n - 2) (v mod 100) = Inr ?w"
      using "1.prems" l by (simp add: write2digits_def digits2_eq write_at_def pair_of_def)
    have IH: "format_pairs ?w (n - 2) (v div 100) =
        Inr (take (n - 2 - length (dec_digits (v div 100))) ?w @ dec_digits (v div 100) @ drop (n - 2) ?w,
             n - 2 - length (dec_digits (v div 100)))"
      using 3 "1.prems" l by (intro "1.IH") (simp_all add: pair_of_def)
    have n2: "\<not> n < 2" using "1.prems" l by linarith
    have "format_pairs out n v = format_pairs ?w (n - 2) (v div 100)"
      using 3 n2 by (subst format_pairs.simps) (simp only: w rbind_simps if_True if_False)
    also note IH
    finally show ?thesis using "1.prems" l n2 unfolding l by (simp add: d pair_of_def)
  qed
qed

lemma length_dec_digits_64: "n < 2 ^ 64 \<Longrightarrow> length (dec_digits n) \<le> 20"
proof -
  assume "n < 2 ^ 64"
  then have "n < 10 ^ 20" by simp
  show ?thesis
  proof (rule ccontr)
    assume "\<not> length (dec_digits n) \<le> 20"
    then obtain d where d: "length (dec_digits n) = Suc d" "20 \<le> d" by (cases "length (dec_digits n)") auto
    then have "10 ^ d \<le> n" using length_dec_digits_eq[of n "Suc d"] by auto
    moreover have "(10::nat) ^ 20 \<le> 10 ^ d" using d(2) by (intro power_increasing) simp_all
    ultimately show False using \<open>n < 10 ^ 20\<close> by linarith
  qed
qed

lemma format_unsigned_eq:
  fixes w :: "'a::len word"
  assumes "length buffer = buffer_size" "LENGTH('a) \<le> 64"
  shows "format_unsigned buffer w = Inr \<lparr>fi_buffer = take (21 - length (dec_digits (unat w))) buffer @ dec_digits (unat w) @ drop 21 buffer,
     fi_str = 21 - length (dec_digits (unat w))\<rparr> \<and> length (dec_digits (unat w)) \<le> 20"
proof -
  have "unat w < 2 ^ LENGTH('a)" by (rule unsigned_less)
  also have "(2::nat) ^ LENGTH('a) \<le> 2 ^ 64" using assms(2) by (intro power_increasing) simp_all
  finally have l: "length (dec_digits (unat w)) \<le> 20" by (rule length_dec_digits_64)
  then have "format_pairs buffer 21 (unat w) =
      Inr (take (21 - length (dec_digits (unat w))) buffer @ dec_digits (unat w) @ drop 21 buffer, 21 - length (dec_digits (unat w)))"
    using assms(1) by (intro format_pairs_eq) (simp_all add: buffer_size_def)
  with l show ?thesis by (simp add: format_unsigned_def do_format_decimal_def buffer_size_def)
qed

lemma format_unsigned_text:
  fixes w :: "'a::len word"
  assumes "length buffer = buffer_size" "LENGTH('a) \<le> 64"
  shows "rbind (format_unsigned buffer w) (\<lambda>i. Inr (fi_data i)) = Inr (dec_digits (unat w))"
  using format_unsigned_eq[OF assms, of w] assms(1) by (simp add: fi_data_def fi_size_def buffer_size_def)

lemma unat_abs_word:
  fixes w :: "'a::len word"
  assumes "sint w < 0"
  shows "unat (0 - w) = nat (- sint w)"
proof -
  have "- (2 ^ (LENGTH('a) - 1)) \<le> sint w" by (simp add: sint_greater_eq)
  moreover have "(2::int) ^ (LENGTH('a) - 1) < 2 ^ LENGTH('a)" by (rule power_strict_increasing) simp_all
  ultimately have r: "0 \<le> - sint w" "- sint w < 2 ^ LENGTH('a)" using assms by linarith+
  have "0 - w = word_of_int (- sint w)" by simp
  then have "uint (0 - w) = - sint w" using r by (simp only: uint_word_of_int_eq take_bit_int_eq_self)
  then show ?thesis by (simp only: unat_eq_nat_uint)
qed

lemma unat_nonneg_word:
  fixes w :: "'a::len word"
  assumes "0 \<le> sint w"
  shows "unat w = nat (sint w)"
proof -
  have "sint w < 2 ^ (LENGTH('a) - 1)" by (simp add: sint_less)
  moreover have "(2::int) ^ (LENGTH('a) - 1) < 2 ^ LENGTH('a)" by (rule power_strict_increasing) simp_all
  ultimately have "uint (word_of_int (sint w) :: 'a word) = sint w"
    using assms by (simp only: uint_word_of_int_eq take_bit_int_eq_self order_less_trans)
  then show ?thesis by (simp add: unat_eq_nat_uint)
qed

lemma format_signed_text:
  fixes w :: "'a::len word"
  assumes "length buffer = buffer_size" "LENGTH('a) \<le> 64"
  shows "rbind (format_signed buffer w) (\<lambda>i. Inr (fi_data i)) = Inr (dec_int (sint w))"
proof (cases "sint w < 0")
  case True
  let ?d = "dec_digits (nat (- sint w))"
  have f: "format_unsigned buffer (0 - w) = Inr \<lparr>fi_buffer = take (21 - length ?d) buffer @ ?d @ drop 21 buffer, fi_str = 21 - length ?d\<rparr>"
    and l: "length ?d \<le> 20"
    using format_unsigned_eq[OF assms, of "0 - w"] unfolding unat_abs_word[OF True] by auto
  have "21 - length ?d \<noteq> 0" using l by simp
  then obtain p where p: "21 - length ?d = Suc p" by (meson not0_implies_Suc)
  have q: "21 - p = Suc (length ?d)" "\<not> 21 \<le> p" "\<not> 22 \<le> p" using p l by linarith+
  show ?thesis
    using True l assms(1)
    by (simp add: format_signed_def f[simplified] p write_at_def fi_data_def fi_size_def buffer_size_def dec_int_def min_def q)
next
  case False
  then have "unat w = nat (sint w)" by (simp add: unat_nonneg_word)
  then show ?thesis
    using False format_unsigned_text[OF assms, of w] by (simp add: format_signed_def dec_int_def rbind_assoc)
qed

text \<open>
  \<open>format_int\<close> on any integer type up to 64 bits, whatever its 22-byte buffer held: two digits at a time
  from the end it never writes outside the buffer, and the text is the decimal expansion, with a minus sign for
  the negative ones, the smallest value included, whose absolute value is not a value of the type.
\<close>

theorem format_int_prints:
  fixes w :: "'a::len word"
  assumes "length buffer = buffer_size" "LENGTH('a) \<le> 64"
  shows "rbind (format_signed buffer w) (\<lambda>i. Inr (fi_data i)) = Inr (dec_int (sint w)) \<and>
         rbind (format_unsigned buffer w) (\<lambda>i. Inr (fi_data i)) = Inr (dec_digits (unat w))"
  using format_signed_text[OF assms] format_unsigned_text[OF assms] by simp

theorem format_int_prints_witness:
  "rbind (format_signed (replicate 22 0) (- 2147483648 :: 32 word)) (\<lambda>i. Inr (fi_data i)) = Inr (dec_int (- 2147483648)) \<and>
   rbind (format_unsigned (replicate 22 0) (- 2147483648 :: 32 word)) (\<lambda>i. Inr (fi_data i)) = Inr (dec_digits 2147483648)"
  using format_int_prints[of "replicate 22 0" "- 2147483648 :: 32 word"] by (simp add: buffer_size_def)

end
