(* ===== verification/Flag_Formatters.thy ===== *)
theory Flag_Formatters
  imports Fmt_Int File_Sink
begin

text \<open>
  \<open>spdlog/details/fmt_helper.h\<close>, \<open>spdlog/mdc.h\<close> and the first part of \<open>spdlog/pattern_formatter-inl.h\<close>:
  numbers with leading zeros, the diagnostic context, the padder, and one formatter per flag of a pattern. A
  formatter appends to a buffer; times are nanoseconds since the epoch. The pointers of a source location may be
  null, and the tables of names are indexed without a check: both are undefined behaviour.
\<close>

subsection \<open>Numbers\<close>

definition append_int :: "int \<Rightarrow> bytes \<Rightarrow> bytes" where
  "append_int n dest = dest @ dec_int n"

text \<open>It is what \<open>format_int\<close> leaves in its buffer.\<close>

lemma append_int_format_int:
  fixes w :: "'a::len word"
  assumes "length buffer = buffer_size" "LENGTH('a) \<le> 64"
  shows "rbind (format_signed buffer w) (\<lambda>i. Inr (dest @ fi_data i)) = Inr (append_int (sint w) dest)"
    "rbind (format_unsigned buffer w) (\<lambda>i. Inr (dest @ fi_data i)) = Inr (append_int (uint w) dest)"
  using format_signed_text[OF assms, of w] format_unsigned_text[OF assms, of w]
  by (auto simp: append_int_def dec_int_def outcome_simps)

text \<open>\<open>count_digits\<close> of a type of at most 32 bits and of a larger one.\<close>

definition count_digits_int :: "int \<Rightarrow> nat" where
  "count_digits_int n = do_count_digits_32 (word_of_int n)"

definition count_digits_size :: "nat \<Rightarrow> nat" where
  "count_digits_size n = do_count_digits_64 (of_nat n)"

definition fmt_02 :: "int \<Rightarrow> bytes" where
  "fmt_02 n = (if n < 0 then 45 # pad_zeros 1 (nat (- n)) else pad_zeros 2 (nat n))"

definition pad2 :: "int \<Rightarrow> bytes \<Rightarrow> bytes" where
  "pad2 n dest =
     (if 0 \<le> n \<and> n < 100 then dest @ [of_int (48 + n div 10)] @ [of_int (48 + n mod 10)]
      else dest @ fmt_02 n)"

definition pad_uint :: "nat \<Rightarrow> nat \<Rightarrow> bytes \<Rightarrow> bytes" where
  "pad_uint n width dest = append_int (int n) (dest @ replicate (width - count_digits_size n) 48)"

definition pad3 :: "nat \<Rightarrow> bytes \<Rightarrow> bytes" where
  "pad3 n dest =
     (if n < 1000
      then dest @ [of_nat (n div 100 + 48)] @ [of_nat (n mod 100 div 10 + 48)] @ [of_nat (n mod 100 mod 10 + 48)]
      else append_int (int n) dest)"

definition pad6 :: "nat \<Rightarrow> bytes \<Rightarrow> bytes" where
  "pad6 n dest = pad_uint n 6 dest"

definition pad9 :: "nat \<Rightarrow> bytes \<Rightarrow> bytes" where
  "pad9 n dest = pad_uint n 9 dest"

text \<open>\<open>duration_cast\<close> to a unit of so many nanoseconds rounds towards zero.\<close>

definition duration_cast :: "int \<Rightarrow> int \<Rightarrow> int" where
  "duration_cast unit ns = (if ns \<ge> 0 then ns div unit else - ((- ns) div unit))"

definition time_fraction :: "int \<Rightarrow> int \<Rightarrow> int" where
  "time_fraction unit tp = duration_cast unit tp - to_seconds tp * (1000000000 div unit)"

text \<open>\<open>static_cast\<close> of a count to \<open>uint32_t\<close> and to \<open>size_t\<close>.\<close>

definition as_uint32 :: "int \<Rightarrow> nat" where
  "as_uint32 i = unat (word_of_int i :: u32)"

definition as_size_t :: "int \<Rightarrow> nat" where
  "as_size_t i = unat (word_of_int i :: u64)"

subsection \<open>The diagnostic context\<close>

text \<open>A \<open>std::map\<close>: pairs in the order of the keys, which are compared byte by byte.\<close>

type_synonym mdc_map = "(bytes \<times> bytes) list"

fun bytes_less :: "bytes \<Rightarrow> bytes \<Rightarrow> bool" where
  "bytes_less xs [] = False"
| "bytes_less [] (y # ys) = True"
| "bytes_less (x # xs) (y # ys) = (x < y \<or> (x = y \<and> bytes_less xs ys))"

fun ctx_put :: "bytes \<Rightarrow> bytes \<Rightarrow> mdc_map \<Rightarrow> mdc_map" where
  "ctx_put key v [] = [(key, v)]"
| "ctx_put key v ((k, w) # m) =
     (if key = k then (key, v) # m else if bytes_less key k then (key, v) # (k, w) # m else (k, w) # ctx_put key v m)"

definition ctx_get :: "bytes \<Rightarrow> mdc_map \<Rightarrow> bytes" where
  "ctx_get key m = (case map_of m key of Some v \<Rightarrow> v | None \<Rightarrow> [])"

definition ctx_remove :: "bytes \<Rightarrow> mdc_map \<Rightarrow> mdc_map" where
  "ctx_remove key m = filter (\<lambda>(k, v). k \<noteq> key) m"

definition ctx_clear :: "mdc_map \<Rightarrow> mdc_map" where
  "ctx_clear m = []"

lemma bytes_less_irrefl [simp]: "\<not> bytes_less x x"
  by (induction x) auto

lemma bytes_less_trans: "bytes_less x y \<Longrightarrow> bytes_less y z \<Longrightarrow> bytes_less x z"
proof (induction x y arbitrary: z rule: bytes_less.induct)
  case (2 y ys)
  then show ?case by (cases z) auto
next
  case (3 x xs y ys)
  then show ?case by (cases z) auto
qed simp

lemma bytes_less_linear: "x = y \<or> bytes_less x y \<or> bytes_less y x"
proof (induction x y rule: bytes_less.induct)
  case (1 xs)
  then show ?case by (cases xs) auto
qed auto

definition sorted_ctx :: "mdc_map \<Rightarrow> bool" where
  "sorted_ctx m \<longleftrightarrow> sorted_wrt bytes_less (map fst m)"

lemma set_ctx_put: "fst ` set (ctx_put key v m) = insert key (fst ` set m)"
  by (induction key v m rule: ctx_put.induct) auto

lemma ctx_put_sorted: "sorted_ctx m \<Longrightarrow> sorted_ctx (ctx_put key v m)"
proof (induction key v m rule: ctx_put.induct)
  case (2 key v k w m)
  have "bytes_less k key" if "key \<noteq> k" "\<not> bytes_less key k" using that bytes_less_linear[of key k] by auto
  with 2 show ?case by (auto simp: sorted_ctx_def set_ctx_put dest: bytes_less_trans)
qed (simp add: sorted_ctx_def)

lemma ctx_remove_sorted: "sorted_ctx m \<Longrightarrow> sorted_ctx (ctx_remove key m)"
  by (auto simp: sorted_ctx_def ctx_remove_def sorted_wrt_map intro: sorted_wrt_filter)

lemma ctx_get_put: "ctx_get k (ctx_put key v m) = (if k = key then v else ctx_get k m)"
  by (induction key v m rule: ctx_put.induct) (auto simp: ctx_get_def)

lemma ctx_get_remove: "ctx_get k (ctx_remove key m) = (if k = key then [] else ctx_get k m)"
  by (induction m) (auto simp: ctx_get_def ctx_remove_def)

subsection \<open>Time broken down\<close>

text \<open>The fields of \<open>std::tm\<close> that the formatters read; \<open>st_gmtoff\<close> is in seconds.\<close>

record std_tm =
  st_sec :: int
  st_min :: int
  st_hour :: int
  st_mday :: int
  st_mon :: int
  st_year :: int
  st_wday :: int
  st_gmtoff :: int

definition zero_tm :: std_tm where
  "zero_tm = \<lparr>st_sec = 0, st_min = 0, st_hour = 0, st_mday = 0, st_mon = 0, st_year = 0, st_wday = 0, st_gmtoff = 0\<rparr>"

definition utc_minutes_offset :: "std_tm \<Rightarrow> int" where
  "utc_minutes_offset t = duration_cast 60 (st_gmtoff t)"

definition ampm :: "std_tm \<Rightarrow> bytes" where
  "ampm t = (if st_hour t \<ge> 12 then str ''PM'' else str ''AM'')"

definition to12h :: "std_tm \<Rightarrow> int" where
  "to12h t = (if st_hour t > 12 then st_hour t - 12 else st_hour t)"

definition days :: "bytes list" where
  "days = map str [''Sun'', ''Mon'', ''Tue'', ''Wed'', ''Thu'', ''Fri'', ''Sat'']"

definition full_days :: "bytes list" where
  "full_days = map str [''Sunday'', ''Monday'', ''Tuesday'', ''Wednesday'', ''Thursday'', ''Friday'', ''Saturday'']"

definition months :: "bytes list" where
  "months = map str [''Jan'', ''Feb'', ''Mar'', ''Apr'', ''May'', ''Jun'', ''Jul'', ''Aug'', ''Sep'', ''Oct'', ''Nov'', ''Dec'']"

definition full_months :: "bytes list" where
  "full_months = map str [''January'', ''February'', ''March'', ''April'',
                          ''May'', ''June'', ''July'', ''August'', ''September'',
                          ''October'', ''November'', ''December'']"

definition array_at :: "bytes list \<Rightarrow> int \<Rightarrow> bytes result" where
  "array_at a i = (if 0 \<le> i \<and> i < int (length a) then Inr (a ! nat i) else Inl Undefined)"

subsection \<open>Padding\<close>

datatype pad_side = pad_left | pad_right | pad_center

record padding_info =
  pd_width :: nat
  pd_side :: pad_side
  pd_truncate :: bool
  pd_enabled :: bool

definition no_padding :: padding_info where
  "no_padding = \<lparr>pd_width = 0, pd_side = pad_left, pd_truncate = False, pd_enabled = False\<rparr>"

definition new_padding_info :: "nat \<Rightarrow> pad_side \<Rightarrow> bool \<Rightarrow> padding_info" where
  "new_padding_info width side trunc = \<lparr>pd_width = width, pd_side = side, pd_truncate = trunc, pd_enabled = True\<rparr>"

text \<open>The spaces are taken from a literal of 64.\<close>

definition pad_it :: "int \<Rightarrow> bytes \<Rightarrow> bytes result" where
  "pad_it count dest = (if 0 \<le> count \<and> count \<le> 64 then Inr (dest @ replicate (nat count) 32) else Inl Undefined)"

definition scoped_padder :: "nat \<Rightarrow> padding_info \<Rightarrow> bytes \<Rightarrow> (int \<times> bytes) result" where
  "scoped_padder wrapped_size padinfo dest =
     (let remaining_pad = int (pd_width padinfo) - int wrapped_size in
      if remaining_pad \<le> 0 then Inr (remaining_pad, dest)
      else case pd_side padinfo of
        pad_left \<Rightarrow> rbind (pad_it remaining_pad dest) (\<lambda>dest. Inr (0, dest))
      | pad_center \<Rightarrow>
          (let half_pad = remaining_pad div 2; reminder = remaining_pad mod 2 in
           rbind (pad_it half_pad dest) (\<lambda>dest. Inr (half_pad + reminder, dest)))
      | pad_right \<Rightarrow> Inr (remaining_pad, dest))"

definition end_scoped_padder :: "int \<Rightarrow> padding_info \<Rightarrow> bytes \<Rightarrow> bytes result" where
  "end_scoped_padder remaining_pad padinfo dest =
     (if remaining_pad \<ge> 0 then pad_it remaining_pad dest
      else if pd_truncate padinfo then Inr (take (nat (int (length dest) + remaining_pad)) dest)
      else Inr dest)"

text \<open>
  The template parameter of the formatters. A padder is built before the text is appended and destroyed after it.
\<close>

datatype padder = Scoped | Null

definition padded :: "padder \<Rightarrow> nat \<Rightarrow> padding_info \<Rightarrow> (bytes \<Rightarrow> bytes) \<Rightarrow> bytes \<Rightarrow> bytes result" where
  "padded P wrapped_size padinfo body dest =
     (case P of
        Scoped \<Rightarrow> rbind (scoped_padder wrapped_size padinfo dest) (\<lambda>(remaining_pad, dest).
                    end_scoped_padder remaining_pad padinfo (body dest))
      | Null \<Rightarrow> Inr (body dest))"

definition padder_count_int :: "padder \<Rightarrow> int \<Rightarrow> nat" where
  "padder_count_int P n = (case P of Scoped \<Rightarrow> count_digits_int n | Null \<Rightarrow> 0)"

definition padder_count_size :: "padder \<Rightarrow> nat \<Rightarrow> nat" where
  "padder_count_size P n = (case P of Scoped \<Rightarrow> count_digits_size n | Null \<Rightarrow> 0)"

definition append_view :: "bytes \<Rightarrow> bytes \<Rightarrow> bytes" where
  "append_view view dest = dest @ view"

definition push_char :: "byte \<Rightarrow> bytes \<Rightarrow> bytes" where
  "push_char c dest = dest @ [c]"

text \<open>Calls on the buffer, one after the other.\<close>

definition run_writes :: "(bytes \<Rightarrow> bytes) list \<Rightarrow> bytes \<Rightarrow> bytes" where
  "run_writes ws dest = fold (\<lambda>w. w) ws dest"

definition c_ptr :: "bytes option \<Rightarrow> bytes result" where
  "c_ptr p = (case p of Some s \<Rightarrow> Inr (c_str s) | None \<Rightarrow> Inl Undefined)"

subsection \<open>Name and level\<close>

definition name_format :: "padder \<Rightarrow> padding_info \<Rightarrow> log_msg \<Rightarrow> bytes \<Rightarrow> bytes result" where
  "name_format P pd msg dest = padded P (length (lm_logger_name msg)) pd (append_view (lm_logger_name msg)) dest"

definition level_format :: "padder \<Rightarrow> padding_info \<Rightarrow> log_msg \<Rightarrow> bytes \<Rightarrow> bytes result" where
  "level_format P pd msg dest =
     (let level_name = to_string_view (lm_level msg) in padded P (length level_name) pd (append_view level_name) dest)"

definition short_level_format :: "padder \<Rightarrow> padding_info \<Rightarrow> log_msg \<Rightarrow> bytes \<Rightarrow> bytes result" where
  "short_level_format P pd msg dest =
     (let level_name = to_short_c_str (lm_level msg) in padded P (length level_name) pd (append_view level_name) dest)"

subsection \<open>Date and time\<close>

definition a_format :: "padder \<Rightarrow> padding_info \<Rightarrow> std_tm \<Rightarrow> bytes \<Rightarrow> bytes result" where
  "a_format P pd tm_time dest =
     rbind (array_at days (st_wday tm_time)) (\<lambda>field_value. padded P (length field_value) pd (append_view field_value) dest)"

definition A_format :: "padder \<Rightarrow> padding_info \<Rightarrow> std_tm \<Rightarrow> bytes \<Rightarrow> bytes result" where
  "A_format P pd tm_time dest =
     rbind (array_at full_days (st_wday tm_time)) (\<lambda>field_value. padded P (length field_value) pd (append_view field_value) dest)"

definition b_format :: "padder \<Rightarrow> padding_info \<Rightarrow> std_tm \<Rightarrow> bytes \<Rightarrow> bytes result" where
  "b_format P pd tm_time dest =
     rbind (array_at months (st_mon tm_time)) (\<lambda>field_value. padded P (length field_value) pd (append_view field_value) dest)"

definition B_format :: "padder \<Rightarrow> padding_info \<Rightarrow> std_tm \<Rightarrow> bytes \<Rightarrow> bytes result" where
  "B_format P pd tm_time dest =
     rbind (array_at full_months (st_mon tm_time)) (\<lambda>field_value. padded P (length field_value) pd (append_view field_value) dest)"

definition c_format :: "padder \<Rightarrow> padding_info \<Rightarrow> std_tm \<Rightarrow> bytes \<Rightarrow> bytes result" where
  "c_format P pd tm_time dest =
     rbind (array_at days (st_wday tm_time)) (\<lambda>day.
     rbind (array_at months (st_mon tm_time)) (\<lambda>month.
       padded P 24 pd (run_writes
         [append_view day, push_char 32, append_view month, push_char 32, append_int (st_mday tm_time), push_char 32,
          pad2 (st_hour tm_time), push_char 58, pad2 (st_min tm_time), push_char 58, pad2 (st_sec tm_time), push_char 32,
          append_int (st_year tm_time + 1900)]) dest))"

text \<open>\<open>%\<close> of the language takes the sign of the dividend.\<close>

definition c_mod :: "int \<Rightarrow> int \<Rightarrow> int" where
  "c_mod a b = (if a \<ge> 0 then a mod b else - ((- a) mod b))"

definition C_format :: "padder \<Rightarrow> padding_info \<Rightarrow> std_tm \<Rightarrow> bytes \<Rightarrow> bytes result" where
  "C_format P pd tm_time dest = padded P 2 pd (pad2 (c_mod (st_year tm_time) 100)) dest"

definition D_format :: "padder \<Rightarrow> padding_info \<Rightarrow> std_tm \<Rightarrow> bytes \<Rightarrow> bytes result" where
  "D_format P pd tm_time dest =
     padded P 8 pd (run_writes
       [pad2 (st_mon tm_time + 1), push_char 47, pad2 (st_mday tm_time), push_char 47,
        pad2 (c_mod (st_year tm_time) 100)]) dest"

definition Y_format :: "padder \<Rightarrow> padding_info \<Rightarrow> std_tm \<Rightarrow> bytes \<Rightarrow> bytes result" where
  "Y_format P pd tm_time dest = padded P 4 pd (append_int (st_year tm_time + 1900)) dest"

definition m_format :: "padder \<Rightarrow> padding_info \<Rightarrow> std_tm \<Rightarrow> bytes \<Rightarrow> bytes result" where
  "m_format P pd tm_time dest = padded P 2 pd (pad2 (st_mon tm_time + 1)) dest"

definition d_format :: "padder \<Rightarrow> padding_info \<Rightarrow> std_tm \<Rightarrow> bytes \<Rightarrow> bytes result" where
  "d_format P pd tm_time dest = padded P 2 pd (pad2 (st_mday tm_time)) dest"

definition H_format :: "padder \<Rightarrow> padding_info \<Rightarrow> std_tm \<Rightarrow> bytes \<Rightarrow> bytes result" where
  "H_format P pd tm_time dest = padded P 2 pd (pad2 (st_hour tm_time)) dest"

definition I_format :: "padder \<Rightarrow> padding_info \<Rightarrow> std_tm \<Rightarrow> bytes \<Rightarrow> bytes result" where
  "I_format P pd tm_time dest = padded P 2 pd (pad2 (to12h tm_time)) dest"

definition M_format :: "padder \<Rightarrow> padding_info \<Rightarrow> std_tm \<Rightarrow> bytes \<Rightarrow> bytes result" where
  "M_format P pd tm_time dest = padded P 2 pd (pad2 (st_min tm_time)) dest"

definition S_format :: "padder \<Rightarrow> padding_info \<Rightarrow> std_tm \<Rightarrow> bytes \<Rightarrow> bytes result" where
  "S_format P pd tm_time dest = padded P 2 pd (pad2 (st_sec tm_time)) dest"

definition e_format :: "padder \<Rightarrow> padding_info \<Rightarrow> log_msg \<Rightarrow> bytes \<Rightarrow> bytes result" where
  "e_format P pd msg dest =
     (let millis = time_fraction 1000000 (lm_time msg) in padded P 3 pd (pad3 (as_uint32 millis)) dest)"

definition f_format :: "padder \<Rightarrow> padding_info \<Rightarrow> log_msg \<Rightarrow> bytes \<Rightarrow> bytes result" where
  "f_format P pd msg dest =
     (let micros = time_fraction 1000 (lm_time msg) in padded P 6 pd (pad6 (as_size_t micros)) dest)"

definition F_format :: "padder \<Rightarrow> padding_info \<Rightarrow> log_msg \<Rightarrow> bytes \<Rightarrow> bytes result" where
  "F_format P pd msg dest =
     (let ns = time_fraction 1 (lm_time msg) in padded P 9 pd (pad9 (as_size_t ns)) dest)"

definition E_format :: "padder \<Rightarrow> padding_info \<Rightarrow> log_msg \<Rightarrow> bytes \<Rightarrow> bytes result" where
  "E_format P pd msg dest = padded P 10 pd (append_int (to_seconds (lm_time msg))) dest"

definition p_format :: "padder \<Rightarrow> padding_info \<Rightarrow> std_tm \<Rightarrow> bytes \<Rightarrow> bytes result" where
  "p_format P pd tm_time dest = padded P 2 pd (append_view (ampm tm_time)) dest"

definition r_format :: "padder \<Rightarrow> padding_info \<Rightarrow> std_tm \<Rightarrow> bytes \<Rightarrow> bytes result" where
  "r_format P pd tm_time dest =
     padded P 11 pd (run_writes
       [pad2 (to12h tm_time), push_char 58, pad2 (st_min tm_time), push_char 58, pad2 (st_sec tm_time), push_char 32,
        append_view (ampm tm_time)]) dest"

definition R_format :: "padder \<Rightarrow> padding_info \<Rightarrow> std_tm \<Rightarrow> bytes \<Rightarrow> bytes result" where
  "R_format P pd tm_time dest = padded P 5 pd (run_writes [pad2 (st_hour tm_time), push_char 58, pad2 (st_min tm_time)]) dest"

definition T_format :: "padder \<Rightarrow> padding_info \<Rightarrow> std_tm \<Rightarrow> bytes \<Rightarrow> bytes result" where
  "T_format P pd tm_time dest =
     padded P 8 pd (run_writes
       [pad2 (st_hour tm_time), push_char 58, pad2 (st_min tm_time), push_char 58, pad2 (st_sec tm_time)]) dest"

text \<open>The time zone: the offset is looked up again after 10 seconds.\<close>

record z_state =
  zs_last_update :: int
  zs_offset_minutes :: int

definition new_z_state :: z_state where
  "new_z_state = \<lparr>zs_last_update = 0, zs_offset_minutes = 0\<rparr>"

definition get_cached_offset :: "log_msg \<Rightarrow> std_tm \<Rightarrow> z_state \<Rightarrow> z_state" where
  "get_cached_offset msg tm_time z =
     (if lm_time msg - zs_last_update z \<ge> 10 * 1000000000
      then \<lparr>zs_last_update = lm_time msg, zs_offset_minutes = utc_minutes_offset tm_time\<rparr>
      else z)"

definition z_format :: "padder \<Rightarrow> padding_info \<Rightarrow> log_msg \<Rightarrow> std_tm \<Rightarrow> z_state \<Rightarrow> bytes \<Rightarrow> (z_state \<times> bytes) result" where
  "z_format P pd msg tm_time z dest =
     (let z' = get_cached_offset msg tm_time z;
          total_minutes = zs_offset_minutes z';
          is_negative = total_minutes < 0;
          minutes = if is_negative then - total_minutes else total_minutes
      in rbind (padded P 6 pd (run_writes
           [push_char (if is_negative then 45 else 43), pad2 (minutes div 60), push_char 58, pad2 (minutes mod 60)]) dest)
           (\<lambda>dest. Inr (z', dest)))"

subsection \<open>Thread, process, text\<close>

definition t_format :: "padder \<Rightarrow> padding_info \<Rightarrow> log_msg \<Rightarrow> bytes \<Rightarrow> bytes result" where
  "t_format P pd msg dest =
     padded P (padder_count_size P (lm_thread_id msg)) pd (append_int (int (lm_thread_id msg))) dest"

definition pid_format :: "int \<Rightarrow> padder \<Rightarrow> padding_info \<Rightarrow> bytes \<Rightarrow> bytes result" where
  "pid_format os_pid P pd dest =
     (let pid = as_uint32 os_pid in padded P (padder_count_int P (int pid)) pd (append_int (int pid)) dest)"

definition v_format :: "padder \<Rightarrow> padding_info \<Rightarrow> log_msg \<Rightarrow> bytes \<Rightarrow> bytes result" where
  "v_format P pd msg dest = padded P (length (lm_payload msg)) pd (append_view (lm_payload msg)) dest"

subsection \<open>Source location\<close>

definition source_location_format :: "padder \<Rightarrow> padding_info \<Rightarrow> log_msg \<Rightarrow> bytes \<Rightarrow> bytes result" where
  "source_location_format P pd msg dest =
     (let source = lm_source msg in
      if source_empty source then padded P 0 pd (\<lambda>dest. dest) dest
      else rbind (c_ptr (sl_filename source)) (\<lambda>filename.
        let text_size = if pd_enabled pd then length filename + padder_count_int P (sl_line source) + 1 else 0 in
        padded P text_size pd (run_writes [append_view filename, push_char 58, append_int (sl_line source)]) dest))"

definition source_filename_format :: "padder \<Rightarrow> padding_info \<Rightarrow> log_msg \<Rightarrow> bytes \<Rightarrow> bytes result" where
  "source_filename_format P pd msg dest =
     (let source = lm_source msg in
      if source_empty source then padded P 0 pd (\<lambda>dest. dest) dest
      else rbind (c_ptr (sl_filename source)) (\<lambda>filename.
        let text_size = if pd_enabled pd then length filename else 0 in
        padded P text_size pd (append_view filename) dest))"

definition basename :: "bytes \<Rightarrow> bytes" where
  "basename filename = (case find_last_of 47 filename of Some rv \<Rightarrow> drop (rv + 1) filename | None \<Rightarrow> filename)"

definition short_filename_format :: "padder \<Rightarrow> padding_info \<Rightarrow> log_msg \<Rightarrow> bytes \<Rightarrow> bytes result" where
  "short_filename_format P pd msg dest =
     (let source = lm_source msg in
      if source_empty source then padded P 0 pd (\<lambda>dest. dest) dest
      else rbind (c_ptr (sl_filename source)) (\<lambda>name.
        let filename = basename name; text_size = if pd_enabled pd then length filename else 0 in
        padded P text_size pd (append_view filename) dest))"

definition source_linenum_format :: "padder \<Rightarrow> padding_info \<Rightarrow> log_msg \<Rightarrow> bytes \<Rightarrow> bytes result" where
  "source_linenum_format P pd msg dest =
     (let source = lm_source msg in
      if source_empty source then padded P 0 pd (\<lambda>dest. dest) dest
      else padded P (padder_count_int P (sl_line source)) pd (append_int (sl_line source)) dest)"

definition source_funcname_format :: "padder \<Rightarrow> padding_info \<Rightarrow> log_msg \<Rightarrow> bytes \<Rightarrow> bytes result" where
  "source_funcname_format P pd msg dest =
     (let source = lm_source msg in
      if source_empty source then padded P 0 pd (\<lambda>dest. dest) dest
      else rbind (c_ptr (sl_funcname source)) (\<lambda>funcname.
        let text_size = if pd_enabled pd then length funcname else 0 in
        padded P text_size pd (append_view funcname) dest))"

subsection \<open>Elapsed time\<close>

text \<open>The unit in nanoseconds is the template parameter; the state is the time of the message before.\<close>

definition elapsed_format ::
  "int \<Rightarrow> padder \<Rightarrow> padding_info \<Rightarrow> log_msg \<Rightarrow> int \<Rightarrow> bytes \<Rightarrow> (int \<times> bytes) result" where
  "elapsed_format unit P pd msg last_message_time dest =
     (let delta = max (lm_time msg - last_message_time) 0;
          delta_count = as_size_t (duration_cast unit delta)
      in rbind (padded P (padder_count_size P delta_count) pd (append_int (int delta_count)) dest)
           (\<lambda>dest. Inr (lm_time msg, dest)))"

subsection \<open>The context and the full line\<close>

fun format_mdc :: "padder \<Rightarrow> padding_info \<Rightarrow> mdc_map \<Rightarrow> bytes \<Rightarrow> bytes result" where
  "format_mdc P pd [] dest = Inr dest"
| "format_mdc P pd ((key, v) # m) dest =
     (let last_element = (m = []);
          content_size = length key + length v + 1 + (if last_element then 0 else 1)
      in rbind (padded P content_size pd
           (run_writes ([append_view key, append_view [58], append_view v] @ (if last_element then [] else [append_view [32]]))) dest)
           (\<lambda>dest. format_mdc P pd m dest))"

definition mdc_format :: "mdc_map \<Rightarrow> padder \<Rightarrow> padding_info \<Rightarrow> bytes \<Rightarrow> bytes result" where
  "mdc_format context P pd dest =
     (if context = [] then padded P 0 pd (\<lambda>dest. dest) dest else format_mdc P pd context dest)"

record full_state =
  fs_cache_timestamp :: int
  fs_cached_datetime :: bytes

definition new_full_state :: full_state where
  "new_full_state = \<lparr>fs_cache_timestamp = 0, fs_cached_datetime = []\<rparr>"

definition datetime_text :: "std_tm \<Rightarrow> bytes" where
  "datetime_text tm_time = run_writes
     [push_char 91, append_int (st_year tm_time + 1900), push_char 45, pad2 (st_mon tm_time + 1), push_char 45,
      pad2 (st_mday tm_time), push_char 32, pad2 (st_hour tm_time), push_char 58, pad2 (st_min tm_time), push_char 58,
      pad2 (st_sec tm_time), push_char 46] []"

definition refresh_datetime :: "log_msg \<Rightarrow> std_tm \<Rightarrow> full_state \<Rightarrow> full_state" where
  "refresh_datetime msg tm_time s =
     (let secs = to_seconds (lm_time msg) in
      if fs_cache_timestamp s \<noteq> secs \<or> length (fs_cached_datetime s) = 0
      then \<lparr>fs_cache_timestamp = secs, fs_cached_datetime = datetime_text tm_time\<rparr> else s)"

text \<open>
  The line up to the level name; the message comes back with the range of that name, for the sinks that print colours.
\<close>

definition full_head :: "log_msg \<Rightarrow> full_state \<Rightarrow> bytes \<Rightarrow> bytes" where
  "full_head msg s dest =
     (let millis = time_fraction 1000000 (lm_time msg);
          d1 = run_writes [append_view (fs_cached_datetime s), pad3 (as_uint32 millis), push_char 93, push_char 32] dest;
          d2 = (if length (lm_logger_name msg) > 0
                then run_writes [push_char 91, append_view (lm_logger_name msg), push_char 93, push_char 32] d1 else d1)
      in push_char 91 d2)"

definition full_format :: "mdc_map \<Rightarrow> log_msg \<Rightarrow> std_tm \<Rightarrow> full_state \<Rightarrow> bytes \<Rightarrow> (full_state \<times> log_msg \<times> bytes) result" where
  "full_format context msg tm_time s dest =
     (let s' = refresh_datetime msg tm_time s;
          d3 = full_head msg s' dest;
          d4 = append_view (to_string_view (lm_level msg)) d3;
          msg' = msg\<lparr>lm_color_range_start := length d3, lm_color_range_end := length d4\<rparr>;
          d5 = run_writes [push_char 93, push_char 32] d4;
          source = lm_source msg
      in rbind (if source_empty source then Inr d5
                else rbind (c_ptr (sl_filename source)) (\<lambda>name. Inr (run_writes
                  [push_char 91, append_view (basename name), push_char 58, append_int (sl_line source), push_char 93,
                   push_char 32] d5))) (\<lambda>d6.
         rbind (if context = [] then Inr d6
                else rbind (format_mdc Null no_padding context (push_char 91 d6)) (\<lambda>d. Inr (run_writes [push_char 93, push_char 32] d)))
           (\<lambda>d7. Inr (s', msg', append_view (lm_payload msg) d7))))"

subsection \<open>Numbers are printed with their zeros\<close>

lemma writes_simps [simp]: "run_writes [] dest = dest" "run_writes (w # ws) dest = run_writes ws (w dest)"
  by (simp_all add: run_writes_def)

lemma writes_append: "run_writes (ws @ vs) dest = run_writes vs (run_writes ws dest)"
  by (simp add: run_writes_def)

lemma count_digits_size_eq: "n < 2 ^ 64 \<Longrightarrow> count_digits_size n = length (dec_digits n)"
  by (simp add: count_digits_size_def do_count_digits_64_eq unat_of_nat take_bit_nat_eq_self)

lemma count_digits_int_eq: "0 \<le> n \<Longrightarrow> n < 2 ^ 32 \<Longrightarrow> count_digits_int n = length (dec_int n)"
  by (simp add: count_digits_int_def do_count_digits_32_eq dec_int_def unat_eq_nat_uint uint_word_of_int_eq
      take_bit_int_eq_self)

lemma pad_uint_eq: "n < 2 ^ 64 \<Longrightarrow> pad_uint n width dest = dest @ pad_zeros width n"
  by (simp add: pad_uint_def append_int_def dec_int_def count_digits_size_eq pad_zeros_def)

lemma pad2_eq: "0 \<le> n \<Longrightarrow> n < 100 \<Longrightarrow> pad2 n dest = dest @ pad_zeros 2 (nat n)"
proof -
  assume n: "0 \<le> n" "n < 100"
  define m where "m = nat n"
  have m: "m < 100" "n = int m" using n by (auto simp: m_def)
  have "[of_int (48 + n div 10)] @ [of_int (48 + n mod 10)] = pair_of m"
    using zdiv_int[of m 10] zmod_int[of m 10] by (simp add: m(2) pair_of_def) (metis of_int_of_nat_eq)
  also have "\<dots> = pad_zeros 2 m" using m(1) by (simp add: pad_zeros_def dec_digits_pairs[of m] pair_of_def)
  finally show ?thesis using n by (simp add: pad2_def m_def)
qed

lemma pad3_eq: "n < 2 ^ 32 \<Longrightarrow> pad3 n dest = dest @ pad_zeros 3 n"
proof (cases "n < 1000")
  case True
  consider "n < 10" | "10 \<le> n" "n < 100" | "100 \<le> n" by linarith
  then show ?thesis
  proof cases
    case 3
    then have "dec_digits n = of_nat (48 + n div 100) # pair_of (n mod 100)"
      using True by (simp add: dec_digits_pairs[of n] dec_digits_pairs[of "n div 100"] div_less_iff_less_mult)
    with True show ?thesis by (simp add: pad3_def pad_zeros_def pair_of_def add.commute)
  qed (use True in \<open>simp_all add: pad3_def pad_zeros_def dec_digits_pairs[of n] pair_of_def numeral_3_eq_3 add.commute\<close>)
next
  case False
  assume "n < 2 ^ 32"
  have "4 \<le> length (dec_digits n)"
    using False by (simp add: length_dec_digits_step[of n] length_dec_digits_step[of "n div 10"]
        length_dec_digits_step[of "n div 10 div 10"] div_less_iff_less_mult Suc_le_eq
        del: length_greater_0_conv)
  with False show ?thesis by (simp add: pad3_def append_int_def dec_int_def pad_zeros_def)
qed

subsection \<open>Padding\<close>

definition spaces :: "nat \<Rightarrow> bytes" where
  "spaces n = replicate n 32"

definition fit :: "padding_info \<Rightarrow> bytes \<Rightarrow> bytes" where
  "fit pd body =
     (let w = pd_width pd; l = length body in
      if w \<le> l then (if pd_truncate pd then take w body else body)
      else case pd_side pd of
        pad_left \<Rightarrow> spaces (w - l) @ body
      | pad_right \<Rightarrow> body @ spaces (w - l)
      | pad_center \<Rightarrow> spaces ((w - l) div 2) @ body @ spaces (w - l - (w - l) div 2))"

lemma padded_total: "pd_width pd \<le> 64 \<Longrightarrow> \<exists>d. padded P n pd body dest = Inr d"
  by (auto simp: padded_def scoped_padder_def end_scoped_padder_def pad_it_def Let_def
      split: padder.split pad_side.split)

lemma padded_null [simp]: "padded Null n pd body dest = Inr (body dest)"
  by (simp add: padded_def)

lemma padded_fit:
  assumes "pd_width pd \<le> 64"
  shows "padded Scoped (length body) pd (append_view body) dest = Inr (dest @ fit pd body)"
proof (cases "pd_width pd \<le> length body")
  case True
  then show ?thesis
    by (simp add: padded_def scoped_padder_def end_scoped_padder_def pad_it_def append_view_def fit_def spaces_def
        nat_add_distrib nat_int_add) 
next
  case False
  define k where "k = pd_width pd - length body"
  have k: "int (pd_width pd) - int (length body) = int k" "0 < k" "k \<le> 64" using False assms by (auto simp: k_def)
  have "int k div 2 = int (k div 2)" "int k mod 2 = int (k mod 2)" by (simp_all add: zdiv_int zmod_int)
  moreover have kk: "k div 2 + k mod 2 = k - k div 2" by presburger
  moreover have "nat (int (k div 2) + int (k mod 2)) = k - k div 2" by (simp only: of_nat_add[symmetric] nat_int kk)
  moreover have "k div 2 + k mod 2 \<le> 64" using k(3) kk by linarith
  ultimately have h: "nat (int k div 2) = k div 2" "nat (int k div 2 + int k mod 2) = k - k div 2"
    "int k div 2 \<le> 64" "int k div 2 + int k mod 2 \<le> 64" using k(3) by simp_all
  show ?thesis
    using False k h by (cases "pd_side pd")
      (simp_all add: padded_def scoped_padder_def end_scoped_padder_def pad_it_def append_view_def fit_def spaces_def
        Let_def k_def[symmetric])
qed

lemma length_fit: "length (fit pd body) = (if pd_truncate pd then pd_width pd else max (pd_width pd) (length body))"
  by (auto simp: fit_def spaces_def Let_def split: pad_side.split)

text \<open>
  Fields that say how long they are: a name, a level, a message text, a file or function name under a
  padding of at most 64 is laid out in exactly the width asked for, on the side asked for (an odd space of a
  centred text goes to the right), a longer one is kept whole or cut to the width; what was in the buffer stays.
\<close>

theorem fields_are_fitted:
  assumes "pd_width pd \<le> 64" "\<not> source_empty (lm_source msg)" "sl_filename (lm_source msg) = Some file"
    "sl_funcname (lm_source msg) = Some fname" "pd_enabled pd"
  shows "name_format Scoped pd msg dest = Inr (dest @ fit pd (lm_logger_name msg)) \<and>
    level_format Scoped pd msg dest = Inr (dest @ fit pd (to_string_view (lm_level msg))) \<and>
    v_format Scoped pd msg dest = Inr (dest @ fit pd (lm_payload msg)) \<and>
    source_filename_format Scoped pd msg dest = Inr (dest @ fit pd (c_str file)) \<and>
    short_filename_format Scoped pd msg dest = Inr (dest @ fit pd (basename (c_str file))) \<and>
    source_funcname_format Scoped pd msg dest = Inr (dest @ fit pd (c_str fname)) \<and>
    length (fit pd body) = (if pd_truncate pd then pd_width pd else max (pd_width pd) (length body))"
  using assms
  by (simp add: name_format_def level_format_def v_format_def source_filename_format_def short_filename_format_def
      source_funcname_format_def padded_fit c_ptr_def Let_def length_fit)

theorem fields_are_fitted_witness:
  "name_format Scoped (new_padding_info 6 pad_center False) \<lparr>lm_logger_name = str ''net'', lm_level = lv_warn, lm_time = 0, lm_thread_id = 9,
     lm_color_range_start = 0, lm_color_range_end = 0,
     lm_source = \<lparr>sl_filename = Some (str ''src/a.cpp''), sl_line = 12, sl_funcname = Some (str ''run'')\<rparr>,
     lm_payload = str ''hello''\<rparr> [65] = Inr ([65] @ fit (new_padding_info 6 pad_center False) (str ''net''))"
  using fields_are_fitted[of "new_padding_info 6 pad_center False" "\<lparr>lm_logger_name = str ''net'', lm_level = lv_warn, lm_time = 0, lm_thread_id = 9,
     lm_color_range_start = 0, lm_color_range_end = 0,
     lm_source = \<lparr>sl_filename = Some (str ''src/a.cpp''), sl_line = 12, sl_funcname = Some (str ''run'')\<rparr>,
     lm_payload = str ''hello''\<rparr>" "str ''src/a.cpp''" "str ''run''" "[65]"]
  by (simp add: new_padding_info_def source_empty_def)

text \<open>
  The other fields declare a size that their text need not have: the date and time of \<open>%c\<close> says 24 where a day of the
  month below 10 gives 23, the year says 4, the seconds say 10. A cut then reaches into the text before the field.
\<close>

lemma short_date_cuts_neighbour:
  "c_format Scoped (new_padding_info 0 pad_left True) \<lparr>st_sec = 0, st_min = 0, st_hour = 0, st_mday = 5, st_mon = 0, st_year = 125,
     st_wday = 0, st_gmtoff = 0\<rparr> (str ''AB'') = Inr (str ''A'')"
  by code_simp

lemma midnight_is_hour_zero: "to12h (zero_tm\<lparr>st_mday := 1\<rparr>) = 0"
  by code_simp

end
