(* ===== verification/Pattern_Formatter.thy ===== *)
theory Pattern_Formatter
  imports Flag_Formatters
begin

text \<open>
  \<open>spdlog/pattern_formatter.h\<close> and the second part of \<open>spdlog/pattern_formatter-inl.h\<close>: a pattern is compiled
  to a list of flag formatters, which format a message one after the other. A formatter keeps the broken-down
  time of the last second it saw. The clock, the time zone, the process and the context of the thread are
  an argument of every call; the formatters a program adds for flags of its own are a parameter.
\<close>

subsection \<open>Formatters\<close>

record fmt_env =
  fe_now :: int
  fe_localtime :: "int \<Rightarrow> std_tm"
  fe_gmtime :: "int \<Rightarrow> std_tm"
  fe_pid :: int
  fe_mdc :: mdc_map

text \<open>A formatter added by the program: its clone, its padding, and its text.\<close>

record 'c custom_ops =
  cu_clone :: "'c \<Rightarrow> 'c"
  cu_set_padding_info :: "padding_info \<Rightarrow> 'c \<Rightarrow> 'c"
  cu_format :: "log_msg \<Rightarrow> std_tm \<Rightarrow> 'c \<Rightarrow> bytes \<Rightarrow> ('c \<times> bytes) result"

text \<open>The classes without state of their own.\<close>

datatype flag_field =
    name_formatter | level_formatter | short_level_formatter
  | a_formatter | A_formatter | b_formatter | B_formatter | c_formatter | C_formatter | D_formatter | Y_formatter
  | m_formatter | d_formatter | H_formatter | I_formatter | M_formatter | S_formatter
  | e_formatter | f_formatter | F_formatter | E_formatter | p_formatter | r_formatter | R_formatter | T_formatter
  | t_formatter | pid_formatter | v_formatter
  | source_location_formatter | source_filename_formatter | short_filename_formatter | source_linenum_formatter
  | source_funcname_formatter | mdc_formatter

datatype 'c flag_formatter =
    Field flag_field padder padding_info
  | z_formatter padder padding_info z_state
  | elapsed_formatter int padder padding_info int
  | ch_formatter byte
  | aggregate_formatter bytes
  | color_start_formatter padding_info
  | color_stop_formatter padding_info
  | full_formatter padding_info full_state
  | Custom 'c

fun field_format ::
  "fmt_env \<Rightarrow> log_msg \<Rightarrow> std_tm \<Rightarrow> flag_field \<Rightarrow> padder \<Rightarrow> padding_info \<Rightarrow> bytes \<Rightarrow> bytes result" where
  "field_format e msg tm_time name_formatter P pd dest = name_format P pd msg dest"
| "field_format e msg tm_time level_formatter P pd dest = level_format P pd msg dest"
| "field_format e msg tm_time short_level_formatter P pd dest = short_level_format P pd msg dest"
| "field_format e msg tm_time a_formatter P pd dest = a_format P pd tm_time dest"
| "field_format e msg tm_time A_formatter P pd dest = A_format P pd tm_time dest"
| "field_format e msg tm_time b_formatter P pd dest = b_format P pd tm_time dest"
| "field_format e msg tm_time B_formatter P pd dest = B_format P pd tm_time dest"
| "field_format e msg tm_time c_formatter P pd dest = c_format P pd tm_time dest"
| "field_format e msg tm_time C_formatter P pd dest = C_format P pd tm_time dest"
| "field_format e msg tm_time D_formatter P pd dest = D_format P pd tm_time dest"
| "field_format e msg tm_time Y_formatter P pd dest = Y_format P pd tm_time dest"
| "field_format e msg tm_time m_formatter P pd dest = m_format P pd tm_time dest"
| "field_format e msg tm_time d_formatter P pd dest = d_format P pd tm_time dest"
| "field_format e msg tm_time H_formatter P pd dest = H_format P pd tm_time dest"
| "field_format e msg tm_time I_formatter P pd dest = I_format P pd tm_time dest"
| "field_format e msg tm_time M_formatter P pd dest = M_format P pd tm_time dest"
| "field_format e msg tm_time S_formatter P pd dest = S_format P pd tm_time dest"
| "field_format e msg tm_time e_formatter P pd dest = e_format P pd msg dest"
| "field_format e msg tm_time f_formatter P pd dest = f_format P pd msg dest"
| "field_format e msg tm_time F_formatter P pd dest = F_format P pd msg dest"
| "field_format e msg tm_time E_formatter P pd dest = E_format P pd msg dest"
| "field_format e msg tm_time p_formatter P pd dest = p_format P pd tm_time dest"
| "field_format e msg tm_time r_formatter P pd dest = r_format P pd tm_time dest"
| "field_format e msg tm_time R_formatter P pd dest = R_format P pd tm_time dest"
| "field_format e msg tm_time T_formatter P pd dest = T_format P pd tm_time dest"
| "field_format e msg tm_time t_formatter P pd dest = t_format P pd msg dest"
| "field_format e msg tm_time pid_formatter P pd dest = pid_format (fe_pid e) P pd dest"
| "field_format e msg tm_time v_formatter P pd dest = v_format P pd msg dest"
| "field_format e msg tm_time source_location_formatter P pd dest = source_location_format P pd msg dest"
| "field_format e msg tm_time source_filename_formatter P pd dest = source_filename_format P pd msg dest"
| "field_format e msg tm_time short_filename_formatter P pd dest = short_filename_format P pd msg dest"
| "field_format e msg tm_time source_linenum_formatter P pd dest = source_linenum_format P pd msg dest"
| "field_format e msg tm_time source_funcname_formatter P pd dest = source_funcname_format P pd msg dest"
| "field_format e msg tm_time mdc_formatter P pd dest = mdc_format (fe_mdc e) P pd dest"

text \<open>The virtual call: the formatter after it, the message with its colour range, and the buffer.\<close>

fun flag_format ::
  "'c custom_ops \<Rightarrow> fmt_env \<Rightarrow> std_tm \<Rightarrow> 'c flag_formatter \<Rightarrow> log_msg \<times> bytes \<Rightarrow> ('c flag_formatter \<times> log_msg \<times> bytes) result" where
  "flag_format U e tm_time (Field k P pd) (msg, dest) =
     rbind (field_format e msg tm_time k P pd dest) (\<lambda>dest. Inr (Field k P pd, msg, dest))"
| "flag_format U e tm_time (z_formatter P pd z) (msg, dest) =
     rbind (z_format P pd msg tm_time z dest) (\<lambda>(z, dest). Inr (z_formatter P pd z, msg, dest))"
| "flag_format U e tm_time (elapsed_formatter unit P pd prev) (msg, dest) =
     rbind (elapsed_format unit P pd msg prev dest) (\<lambda>(prev, dest). Inr (elapsed_formatter unit P pd prev, msg, dest))"
| "flag_format U e tm_time (ch_formatter ch) (msg, dest) = Inr (ch_formatter ch, msg, push_char ch dest)"
| "flag_format U e tm_time (aggregate_formatter s) (msg, dest) = Inr (aggregate_formatter s, msg, append_view s dest)"
| "flag_format U e tm_time (color_start_formatter pd) (msg, dest) =
     Inr (color_start_formatter pd, msg\<lparr>lm_color_range_start := length dest\<rparr>, dest)"
| "flag_format U e tm_time (color_stop_formatter pd) (msg, dest) =
     Inr (color_stop_formatter pd, msg\<lparr>lm_color_range_end := length dest\<rparr>, dest)"
| "flag_format U e tm_time (full_formatter pd s) (msg, dest) =
     rbind (full_format (fe_mdc e) msg tm_time s dest) (\<lambda>(s, msg, dest). Inr (full_formatter pd s, msg, dest))"
| "flag_format U e tm_time (Custom c) (msg, dest) =
     rbind (cu_format U msg tm_time c dest) (\<lambda>(c, dest). Inr (Custom c, msg, dest))"

primrec format_each ::
  "'c custom_ops \<Rightarrow> fmt_env \<Rightarrow> std_tm \<Rightarrow> 'c flag_formatter list \<Rightarrow> log_msg \<times> bytes \<Rightarrow>
   ('c flag_formatter list \<times> log_msg \<times> bytes) result" where
  "format_each U e tm_time [] m = Inr ([], m)"
| "format_each U e tm_time (f # fs) m =
     rbind (flag_format U e tm_time f m) (\<lambda>(f, m).
     rbind (format_each U e tm_time fs m) (\<lambda>(fs, m). Inr (f # fs, m)))"

datatype pattern_time_type = time_local | time_utc

record 'c pattern_formatter =
  pf_pattern :: bytes
  pf_eol :: bytes
  pf_time_type :: pattern_time_type
  pf_need_localtime :: bool
  pf_cached_tm :: std_tm
  pf_last_log_secs :: int
  pf_formatters :: "'c flag_formatter list"
  pf_custom_handlers :: "byte \<rightharpoonup> 'c"

subsection \<open>Compiling a pattern\<close>

definition push_formatter :: "'c flag_formatter \<Rightarrow> 'c pattern_formatter \<Rightarrow> 'c pattern_formatter" where
  "push_formatter f pf = pf\<lparr>pf_formatters := pf_formatters pf @ [f]\<rparr>"

definition need_localtime :: "bool \<Rightarrow> 'c pattern_formatter \<Rightarrow> 'c pattern_formatter" where
  "need_localtime need pf = pf\<lparr>pf_need_localtime := need\<rparr>"

text \<open>The switch of \<open>handle_flag_\<close>: the formatter of a character and whether it needs the broken-down time.\<close>

definition builtin_field :: "byte \<Rightarrow> (flag_field \<times> bool) option" where
  "builtin_field flag =
     (if flag \<in> set (str ''n'') then Some (name_formatter, False)
      else if flag \<in> set (str ''l'') then Some (level_formatter, False)
      else if flag \<in> set (str ''L'') then Some (short_level_formatter, False)
      else if flag \<in> set (str ''t'') then Some (t_formatter, False)
      else if flag \<in> set (str ''v'') then Some (v_formatter, False)
      else if flag \<in> set (str ''a'') then Some (a_formatter, True)
      else if flag \<in> set (str ''A'') then Some (A_formatter, True)
      else if flag \<in> set (str ''bh'') then Some (b_formatter, True)
      else if flag \<in> set (str ''B'') then Some (B_formatter, True)
      else if flag \<in> set (str ''c'') then Some (c_formatter, True)
      else if flag \<in> set (str ''C'') then Some (C_formatter, True)
      else if flag \<in> set (str ''Y'') then Some (Y_formatter, True)
      else if flag \<in> set (str ''Dx'') then Some (D_formatter, True)
      else if flag \<in> set (str ''m'') then Some (m_formatter, True)
      else if flag \<in> set (str ''d'') then Some (d_formatter, True)
      else if flag \<in> set (str ''H'') then Some (H_formatter, True)
      else if flag \<in> set (str ''I'') then Some (I_formatter, True)
      else if flag \<in> set (str ''M'') then Some (M_formatter, True)
      else if flag \<in> set (str ''S'') then Some (S_formatter, True)
      else if flag \<in> set (str ''e'') then Some (e_formatter, False)
      else if flag \<in> set (str ''f'') then Some (f_formatter, False)
      else if flag \<in> set (str ''F'') then Some (F_formatter, False)
      else if flag \<in> set (str ''E'') then Some (E_formatter, False)
      else if flag \<in> set (str ''p'') then Some (p_formatter, True)
      else if flag \<in> set (str ''r'') then Some (r_formatter, True)
      else if flag \<in> set (str ''R'') then Some (R_formatter, True)
      else if flag \<in> set (str ''TX'') then Some (T_formatter, True)
      else if flag \<in> set (str ''P'') then Some (pid_formatter, False)
      else if flag \<in> set (str ''@'') then Some (source_location_formatter, False)
      else if flag \<in> set (str ''s'') then Some (short_filename_formatter, False)
      else if flag \<in> set (str ''g'') then Some (source_filename_formatter, False)
      else if flag \<in> set (str ''#'') then Some (source_linenum_formatter, False)
      else if flag \<in> set (str ''!'') then Some (source_funcname_formatter, False)
      else if flag \<in> set (str ''&'') then Some (mdc_formatter, False)
      else None)"

definition builtin_flag :: "fmt_env \<Rightarrow> padder \<Rightarrow> byte \<Rightarrow> padding_info \<Rightarrow> ('c flag_formatter \<times> bool) option" where
  "builtin_flag e P flag padding =
     (if flag \<in> set (str ''+'') then Some (full_formatter padding new_full_state, True)
      else if flag \<in> set (str ''z'') then Some (z_formatter P padding new_z_state, True)
      else if flag \<in> set (str ''^'') then Some (color_start_formatter padding, False)
      else if flag \<in> set (str ''$'') then Some (color_stop_formatter padding, False)
      else if flag \<in> set (str ''%'') then Some (ch_formatter 37, False)
      else if flag \<in> set (str ''u'') then Some (elapsed_formatter 1 P padding (fe_now e), False)
      else if flag \<in> set (str ''i'') then Some (elapsed_formatter 1000 P padding (fe_now e), False)
      else if flag \<in> set (str ''o'') then Some (elapsed_formatter 1000000 P padding (fe_now e), False)
      else if flag \<in> set (str ''O'') then Some (elapsed_formatter 1000000000 P padding (fe_now e), False)
      else case builtin_field flag of
        Some (k, local) \<Rightarrow> Some (Field k P padding, local)
      | None \<Rightarrow> None)"

definition handle_flag ::
  "'c custom_ops \<Rightarrow> fmt_env \<Rightarrow> padder \<Rightarrow> byte \<Rightarrow> padding_info \<Rightarrow> 'c pattern_formatter \<Rightarrow> 'c pattern_formatter" where
  "handle_flag U e P flag padding pf =
     (case pf_custom_handlers pf flag of
        Some c \<Rightarrow> push_formatter (Custom (cu_set_padding_info U padding (cu_clone U c))) pf
      | None \<Rightarrow>
          (case builtin_flag e P flag padding of
             Some (f, local) \<Rightarrow>
               (let pf = push_formatter f pf in if local then need_localtime True pf else pf)
           | None \<Rightarrow>
               (if \<not> pd_truncate padding then push_formatter (aggregate_formatter [37, flag]) pf
                else push_formatter (aggregate_formatter [flag])
                       (push_formatter (Field source_funcname_formatter P (padding\<lparr>pd_truncate := False\<rparr>)) pf))))"

definition is_digit_char :: "byte \<Rightarrow> bool" where
  "is_digit_char b \<longleftrightarrow> 48 \<le> b \<and> b \<le> 57"

text \<open>The width is accumulated in a \<open>size_t\<close>, which wraps around.\<close>

fun pad_width :: "nat \<Rightarrow> bytes \<Rightarrow> nat \<times> bytes" where
  "pad_width width [] = (width, [])"
| "pad_width width (c # it) =
     (if is_digit_char c then pad_width ((width * 10 + (unat c - 48)) mod size_t_range) it else (width, c # it))"

definition truncate_marker :: "bytes \<Rightarrow> bool \<times> bytes" where
  "truncate_marker it = (case it of x # rest \<Rightarrow> if x = 33 then (True, rest) else (False, it) | [] \<Rightarrow> (False, it))"

definition handle_padspec :: "bytes \<Rightarrow> padding_info \<times> bytes" where
  "handle_padspec it =
     (case it of
        [] \<Rightarrow> (no_padding, [])
      | c # rest \<Rightarrow>
          (let (side, it) = (if c = 45 then (pad_right, rest) else if c = 61 then (pad_center, rest) else (pad_left, c # rest)) in
           case it of
             [] \<Rightarrow> (no_padding, [])
           | d # rest \<Rightarrow>
               (if \<not> is_digit_char d then (no_padding, d # rest)
                else
                  let (width, it) = pad_width (unat d - 48) rest;
                      (trunc, it) = truncate_marker it
                  in (new_padding_info (min width 64) side trunc, it))))"

lemma pad_width_shorter: "length (snd (pad_width w it)) \<le> length it"
  by (induction w it rule: pad_width.induct) auto

lemma truncate_marker_shorter: "length (snd (truncate_marker it)) \<le> length it"
  by (auto simp: truncate_marker_def split: list.split)

lemma handle_padspec_shorter: "length (snd (handle_padspec it)) \<le> length it"
proof -
  have tail: "length (snd (truncate_marker (snd (pad_width w r)))) \<le> length r" for w r
    using truncate_marker_shorter pad_width_shorter le_trans by blast
  show ?thesis
  proof (cases it)
    case (Cons c rest)
    define r where "r = (if c = 45 \<or> c = 61 then rest else c # rest)"
    have r: "length r \<le> length it" by (simp add: r_def Cons)
    have "length (snd (handle_padspec it)) \<le> length r"
    proof (cases r)
      case Nil
      then show ?thesis by (auto simp: handle_padspec_def Cons r_def split: if_splits)
    next
      case (Cons d q)
      then show ?thesis
        using tail[of "unat d - 48" q]
        by (cases "c = 45"; cases "c = 61"; cases "is_digit_char d")
          (simp_all add: handle_padspec_def \<open>it = c # rest\<close> r_def Let_def case_prod_beta)
    qed
    with r show ?thesis by simp
  qed (simp add: handle_padspec_def)
qed

lemma handle_padspec_consumes: "(padding, flag # rest) = handle_padspec it \<Longrightarrow> length rest < Suc (length it)"
  using handle_padspec_shorter[of it] by (metis Suc_le_lessD length_Cons less_SucI snd_conv)

definition push_user_chars :: "bytes option \<Rightarrow> 'c pattern_formatter \<Rightarrow> 'c pattern_formatter" where
  "push_user_chars user_chars pf = (case user_chars of Some s \<Rightarrow> push_formatter (aggregate_formatter s) pf | None \<Rightarrow> pf)"

function compile_from ::
  "'c custom_ops \<Rightarrow> fmt_env \<Rightarrow> bytes option \<Rightarrow> bytes \<Rightarrow> 'c pattern_formatter \<Rightarrow> 'c pattern_formatter" where
  "compile_from U e user_chars [] pf = push_user_chars user_chars pf"
| "compile_from U e user_chars (c # it) pf =
     (if c = 37 then
        let pf = push_user_chars user_chars pf; (padding, it) = handle_padspec it in
        case it of
          [] \<Rightarrow> pf
        | flag # it \<Rightarrow> compile_from U e None it (handle_flag U e (if pd_enabled padding then Scoped else Null) flag padding pf)
      else compile_from U e (Some ((case user_chars of Some s \<Rightarrow> s | None \<Rightarrow> []) @ [c])) it pf)"
  by pat_completeness auto

termination
  by (relation "measure (\<lambda>(_, _, _, it, _). length it)") (auto simp: handle_padspec_consumes)

definition compile_pattern :: "'c custom_ops \<Rightarrow> fmt_env \<Rightarrow> bytes \<Rightarrow> 'c pattern_formatter \<Rightarrow> 'c pattern_formatter" where
  "compile_pattern U e pattern pf = compile_from U e None pattern (pf\<lparr>pf_formatters := []\<rparr>)"

subsection \<open>The pattern formatter\<close>

definition new_pattern_formatter ::
  "'c custom_ops \<Rightarrow> fmt_env \<Rightarrow> bytes \<Rightarrow> pattern_time_type \<Rightarrow> bytes \<Rightarrow> (byte \<rightharpoonup> 'c) \<Rightarrow> 'c pattern_formatter" where
  "new_pattern_formatter U e pattern time_type eol custom_user_flags =
     compile_pattern U e pattern
       \<lparr>pf_pattern = pattern, pf_eol = eol, pf_time_type = time_type, pf_need_localtime = False, pf_cached_tm = zero_tm,
        pf_last_log_secs = 0, pf_formatters = [], pf_custom_handlers = custom_user_flags\<rparr>"

definition default_pattern_formatter :: "pattern_time_type \<Rightarrow> bytes \<Rightarrow> 'c pattern_formatter" where
  "default_pattern_formatter time_type eol =
     push_formatter (full_formatter no_padding new_full_state)
       \<lparr>pf_pattern = str ''%+'', pf_eol = eol, pf_time_type = time_type, pf_need_localtime = True, pf_cached_tm = zero_tm,
        pf_last_log_secs = 0, pf_formatters = [], pf_custom_handlers = Map.empty\<rparr>"

definition pf_clone :: "'c custom_ops \<Rightarrow> fmt_env \<Rightarrow> 'c pattern_formatter \<Rightarrow> 'c pattern_formatter" where
  "pf_clone U e pf =
     (let cloned_custom_formatters = map_option (cu_clone U) \<circ> pf_custom_handlers pf in
      need_localtime (pf_need_localtime pf)
        (new_pattern_formatter U e (pf_pattern pf) (pf_time_type pf) (pf_eol pf) cloned_custom_formatters))"

definition add_flag :: "byte \<Rightarrow> 'c \<Rightarrow> 'c pattern_formatter \<Rightarrow> 'c pattern_formatter" where
  "add_flag flag c pf = pf\<lparr>pf_custom_handlers := (pf_custom_handlers pf)(flag \<mapsto> c)\<rparr>"

definition pf_set_pattern :: "'c custom_ops \<Rightarrow> fmt_env \<Rightarrow> bytes \<Rightarrow> 'c pattern_formatter \<Rightarrow> 'c pattern_formatter" where
  "pf_set_pattern U e pattern pf = compile_pattern U e pattern (need_localtime False (pf\<lparr>pf_pattern := pattern\<rparr>))"

definition time_at :: "fmt_env \<Rightarrow> pattern_time_type \<Rightarrow> int \<Rightarrow> std_tm" where
  "time_at e time_type secs = (case time_type of time_local \<Rightarrow> fe_localtime e secs | time_utc \<Rightarrow> fe_gmtime e secs)"

definition pf_get_time :: "fmt_env \<Rightarrow> log_msg \<Rightarrow> 'c pattern_formatter \<Rightarrow> std_tm" where
  "pf_get_time e msg pf = time_at e (pf_time_type pf) (to_seconds (lm_time msg))"

definition refresh_time :: "fmt_env \<Rightarrow> log_msg \<Rightarrow> 'c pattern_formatter \<Rightarrow> 'c pattern_formatter" where
  "refresh_time e msg pf =
     (let secs = to_seconds (lm_time msg) in
      if pf_need_localtime pf \<and> secs \<noteq> pf_last_log_secs pf
      then pf\<lparr>pf_cached_tm := pf_get_time e msg pf, pf_last_log_secs := secs\<rparr> else pf)"

definition pf_format ::
  "'c custom_ops \<Rightarrow> fmt_env \<Rightarrow> log_msg \<Rightarrow> bytes \<Rightarrow> 'c pattern_formatter \<Rightarrow> (log_msg \<times> bytes \<times> 'c pattern_formatter) result" where
  "pf_format U e msg dest pf =
     (let pf = refresh_time e msg pf in
      rbind (format_each U e (pf_cached_tm pf) (pf_formatters pf) (msg, dest)) (\<lambda>(fs, msg, dest).
      Inr (msg, append_view (pf_eol pf) dest, pf\<lparr>pf_formatters := fs\<rparr>)))"

text \<open>Several messages, each with the environment of its call: what was appended for each.\<close>

fun pf_run ::
  "'c custom_ops \<Rightarrow> (fmt_env \<times> log_msg) list \<Rightarrow> 'c pattern_formatter \<Rightarrow> (bytes list \<times> 'c pattern_formatter) result" where
  "pf_run U [] pf = Inr ([], pf)"
| "pf_run U ((e, msg) # ms) pf =
     rbind (pf_format U e msg [] pf) (\<lambda>(_, out, pf).
     rbind (pf_run U ms pf) (\<lambda>(outs, pf). Inr (out # outs, pf)))"

subsection \<open>No pattern goes wrong\<close>

definition wf_padding :: "padder \<Rightarrow> padding_info \<Rightarrow> bool" where
  "wf_padding P pd \<longleftrightarrow> pd_width pd \<le> 64 \<and> (P = Scoped \<longleftrightarrow> pd_enabled pd)"

fun wf_flag :: "('c \<Rightarrow> bool) \<Rightarrow> 'c flag_formatter \<Rightarrow> bool" where
  "wf_flag ok (Field k P pd) = wf_padding P pd"
| "wf_flag ok (z_formatter P pd z) = wf_padding P pd"
| "wf_flag ok (elapsed_formatter unit P pd prev) = (wf_padding P pd \<and> unit \<in> {1, 1000, 1000000, 1000000000})"
| "wf_flag ok (Custom c) = ok c"
| "wf_flag ok f = True"

definition tm_ok :: "std_tm \<Rightarrow> bool" where
  "tm_ok t \<longleftrightarrow> 0 \<le> st_wday t \<and> st_wday t \<le> 6 \<and> 0 \<le> st_mon t \<and> st_mon t \<le> 11"

definition wf_pf :: "('c \<Rightarrow> bool) \<Rightarrow> 'c pattern_formatter \<Rightarrow> bool" where
  "wf_pf ok pf \<longleftrightarrow> list_all (wf_flag ok) (pf_formatters pf) \<and> (\<forall>c\<in>ran (pf_custom_handlers pf). ok c) \<and> tm_ok (pf_cached_tm pf)"

definition zone_ok :: "fmt_env \<Rightarrow> bool" where
  "zone_ok e \<longleftrightarrow> (\<forall>t. tm_ok (fe_localtime e t) \<and> tm_ok (fe_gmtime e t))"

definition source_ok :: "log_msg \<Rightarrow> bool" where
  "source_ok msg \<longleftrightarrow> source_empty (lm_source msg) \<or> sl_filename (lm_source msg) \<noteq> None \<and> sl_funcname (lm_source msg) \<noteq> None"

definition custom_ok :: "'c custom_ops \<Rightarrow> ('c \<Rightarrow> bool) \<Rightarrow> bool" where
  "custom_ok U ok \<longleftrightarrow> (\<forall>c. ok c \<longrightarrow> ok (cu_clone U c) \<and> (\<forall>pd. ok (cu_set_padding_info U pd c)) \<and>
     (\<forall>msg t dest. \<exists>c' dest'. cu_format U msg t c dest = Inr (c', dest') \<and> ok c'))"

lemma array_at_days [simp]:
  "tm_ok t \<Longrightarrow> \<exists>s. array_at days (st_wday t) = Inr s"
  "tm_ok t \<Longrightarrow> \<exists>s. array_at full_days (st_wday t) = Inr s"
  "tm_ok t \<Longrightarrow> \<exists>s. array_at months (st_mon t) = Inr s"
  "tm_ok t \<Longrightarrow> \<exists>s. array_at full_months (st_mon t) = Inr s"
  by (simp_all add: tm_ok_def array_at_def days_def full_days_def months_def full_months_def)

lemma c_ptr_some: "p \<noteq> None \<Longrightarrow> \<exists>s. c_ptr p = Inr s"
  by (auto simp: c_ptr_def)

lemma rbind_progress: "\<exists>x. m = Inr x \<Longrightarrow> (\<And>x. \<exists>y. f x = Inr y) \<Longrightarrow> \<exists>y. rbind m f = Inr y"
  by (auto simp: outcome_simps)

lemma format_mdc_defined: "pd_width pd \<le> 64 \<Longrightarrow> \<exists>d. format_mdc P pd m dest = Inr d"
proof (induction m arbitrary: dest)
  case (Cons kv m)
  then show ?case
    by (cases kv) (auto simp: Let_def intro!: rbind_progress padded_total)
qed simp

lemma field_format_defined:
  assumes "wf_padding P pd" "tm_ok t" "source_ok msg"
  shows "\<exists>d. field_format e msg t k P pd dest = Inr d"
proof -
  have w: "pd_width pd \<le> 64" using assms(1) by (simp add: wf_padding_def)
  note pad = padded_total[OF w] and mdc = format_mdc_defined[OF w]
  note time_defs = a_format_def A_format_def b_format_def B_format_def c_format_def C_format_def D_format_def Y_format_def
    m_format_def d_format_def H_format_def I_format_def M_format_def S_format_def p_format_def r_format_def R_format_def
    T_format_def e_format_def f_format_def F_format_def E_format_def Let_def
  note msg_defs = name_format_def level_format_def short_level_format_def t_format_def pid_format_def v_format_def
    mdc_format_def Let_def
  note src_defs = source_location_format_def source_filename_format_def short_filename_format_def
    source_linenum_format_def source_funcname_format_def Let_def
  show ?thesis
  proof (cases "k \<in> {source_location_formatter, source_filename_formatter, short_filename_formatter,
      source_linenum_formatter, source_funcname_formatter}")
    case True
    then show ?thesis
      using assms(3) by (cases "source_empty (lm_source msg)")
        (auto simp: src_defs source_ok_def c_ptr_def pad intro: pad)
  next
    case False
    then show ?thesis
      using array_at_days[OF assms(2)] by (cases k) (auto simp: time_defs msg_defs intro: pad mdc)
  qed
qed

lemma rbind_post:
  "\<exists>x. m = Inr x \<Longrightarrow> (\<And>x. \<exists>a b c. f x = Inr (a, b, c) \<and> Q b) \<Longrightarrow> \<exists>a b c. rbind m f = Inr (a, b, c) \<and> Q b"
  by auto

lemma full_format_defined:
  assumes "source_ok msg"
  shows "\<exists>s' msg' d. full_format ctx msg t s dest = Inr (s', msg', d) \<and> lm_source msg' = lm_source msg"
proof -
  have mdc: "\<exists>d. format_mdc Null no_padding ctx dest = Inr d" for dest
    by (rule format_mdc_defined) (simp add: no_padding_def)
  have "\<exists>d6. (if source_empty (lm_source msg) then Inr d5
                else rbind (c_ptr (sl_filename (lm_source msg))) (\<lambda>name. Inr (f name))) = (Inr d6 :: bytes result)" for f d5
    using assms by (auto simp: source_ok_def c_ptr_def)
  moreover have "\<exists>d7. (if ctx = [] then Inr d6 else rbind (format_mdc Null no_padding ctx (push_char 91 d6)) (\<lambda>d. Inr (g d)))
      = (Inr d7 :: bytes result)" for g d6
    using mdc[of "push_char 91 d6"] by auto
  ultimately show ?thesis unfolding full_format_def Let_def by (intro rbind_post) simp_all
qed

lemma flag_format_wf:
  assumes "wf_flag ok f" "tm_ok t" "source_ok msg" "custom_ok U ok"
  shows "\<exists>f' msg' d. flag_format U e t f (msg, dest) = Inr (f', msg', d) \<and> wf_flag ok f' \<and> lm_source msg' = lm_source msg"
proof (cases f)
  case (Field k P pd)
  with assms field_format_defined[of P pd t msg e k dest] show ?thesis by auto
next
  case (z_formatter P pd z)
  with assms show ?thesis
    using padded_total[of pd P 6] by (fastforce simp: z_format_def Let_def wf_padding_def outcome_simps)
next
  case (elapsed_formatter unit P pd prev)
  with assms show ?thesis
    using padded_total[of pd P] by (fastforce simp: elapsed_format_def Let_def wf_padding_def outcome_simps)
next
  case (full_formatter pd s)
  with full_format_defined[OF assms(3), of "fe_mdc e" t s dest] show ?thesis by auto
next
  case (Custom c)
  then have "ok c" using assms(1) by simp
  then obtain c' d where "cu_format U msg t c dest = Inr (c', d)" "ok c'" using assms(4) unfolding custom_ok_def by meson
  with Custom show ?thesis by simp
qed simp_all

lemma format_each_wf:
  assumes "list_all (wf_flag ok) fs" "tm_ok t" "source_ok msg" "custom_ok U ok"
  shows "\<exists>fs' msg' d. format_each U e t fs (msg, dest) = Inr (fs', msg', d) \<and> list_all (wf_flag ok) fs'"
  using assms
proof (induction fs arbitrary: msg dest)
  case (Cons f fs)
  then obtain f' msg' d where f: "flag_format U e t f (msg, dest) = Inr (f', msg', d)" "wf_flag ok f'" "lm_source msg' = lm_source msg"
    using flag_format_wf[of ok f t msg U e dest] by auto
  then have "source_ok msg'" using Cons.prems(3) by (simp add: source_ok_def)
  with Cons obtain fs' msg'' d' where "format_each U e t fs (msg', d) = Inr (fs', msg'', d')" "list_all (wf_flag ok) fs'"
    by fastforce
  with f show ?case by simp
qed simp

lemma pf_format_wf:
  assumes "wf_pf ok pf" "zone_ok e" "source_ok msg" "custom_ok U ok"
  shows "\<exists>msg' d pf'. pf_format U e msg dest pf = Inr (msg', d, pf') \<and> wf_pf ok pf'"
proof -
  let ?p = "refresh_time e msg pf"
  have "tm_ok (pf_cached_tm ?p)"
    using assms(1,2) by (simp add: refresh_time_def Let_def wf_pf_def zone_ok_def pf_get_time_def time_at_def
        split: pattern_time_type.split)
  moreover have r: "pf_formatters ?p = pf_formatters pf" "pf_custom_handlers ?p = pf_custom_handlers pf"
    by (simp_all add: refresh_time_def Let_def)
  ultimately obtain fs' msg' d where "format_each U e (pf_cached_tm ?p) (pf_formatters ?p) (msg, dest) = Inr (fs', msg', d)"
      "list_all (wf_flag ok) fs'"
    using format_each_wf[of ok "pf_formatters pf" "pf_cached_tm ?p" msg U e dest] assms by (auto simp: wf_pf_def)
  with assms(1) \<open>tm_ok (pf_cached_tm ?p)\<close> r show ?thesis by (simp add: pf_format_def wf_pf_def Let_def)
qed

paragraph \<open>Compiling gives well-formed formatters\<close>

lemma handle_padspec_wf: "handle_padspec it = (pd, r) \<Longrightarrow> wf_padding (if pd_enabled pd then Scoped else Null) pd"
  by (auto simp: handle_padspec_def wf_padding_def no_padding_def new_padding_info_def Let_def case_prod_beta
      split: list.splits if_splits)

lemma builtin_flag_wf:
  "wf_padding P pd \<Longrightarrow> builtin_flag e P flag pd = Some (f, local) \<Longrightarrow> wf_flag ok f"
  by (auto simp: builtin_flag_def split: if_splits option.splits)

lemma push_formatter_wf: "wf_pf ok pf \<Longrightarrow> wf_flag ok f \<Longrightarrow> wf_pf ok (push_formatter f pf)"
  by (simp add: wf_pf_def push_formatter_def)

lemma need_localtime_wf [simp]: "wf_pf ok (need_localtime b pf) = wf_pf ok pf"
  by (simp add: wf_pf_def need_localtime_def)

lemma handle_flag_wf:
  assumes "wf_pf ok pf" "wf_padding P pd" "custom_ok U ok"
  shows "wf_pf ok (handle_flag U e P flag pd pf)"
proof (cases "pf_custom_handlers pf flag")
  case None
  have pd: "wf_padding P (pd\<lparr>pd_truncate := False\<rparr>)" using assms(2) by (simp add: wf_padding_def)
  show ?thesis
    using None assms(1) pd builtin_flag_wf[OF assms(2)]
    by (auto simp: handle_flag_def Let_def split: option.split intro!: push_formatter_wf)
next
  case (Some c)
  then have "ok c" using assms(1) by (auto simp: wf_pf_def ran_def)
  with Some assms show ?thesis by (auto simp: handle_flag_def custom_ok_def intro: push_formatter_wf)
qed

lemma push_user_chars_wf: "wf_pf ok pf \<Longrightarrow> wf_pf ok (push_user_chars u pf)"
  by (auto simp: push_user_chars_def intro: push_formatter_wf split: option.split)

lemma compile_from_wf: "wf_pf ok pf \<Longrightarrow> custom_ok U ok \<Longrightarrow> wf_pf ok (compile_from U e u it pf)"
proof (induction U e u it pf rule: compile_from.induct)
  case (2 U e u c it pf)
  obtain pd r where h: "handle_padspec it = (pd, r)" by (cases "handle_padspec it") simp
  show ?case
  proof (cases "c = 37")
    case True
    note wf = push_user_chars_wf[OF "2.prems"(1), of u]
    show ?thesis
    proof (cases r)
      case Nil
      with True h wf show ?thesis by simp
    next
      case (Cons flag q)
      have "wf_pf ok (handle_flag U e (if pd_enabled pd then Scoped else Null) flag pd (push_user_chars u pf))"
        by (rule handle_flag_wf[OF wf handle_padspec_wf[OF h] "2.prems"(2)])
      then have "wf_pf ok (compile_from U e None q (handle_flag U e (if pd_enabled pd then Scoped else Null) flag pd (push_user_chars u pf)))"
        by (rule "2.IH"(1)[OF True refl h[symmetric] refl Cons _ "2.prems"(2)])
      with True h Cons show ?thesis by simp
    qed
  next
    case False
    with "2.IH"(2)[OF False "2.prems"] show ?thesis by simp
  qed
qed (simp add: push_user_chars_wf)

lemma compile_pattern_wf: "wf_pf ok pf \<Longrightarrow> custom_ok U ok \<Longrightarrow> wf_pf ok (compile_pattern U e p pf)"
  unfolding compile_pattern_def by (rule compile_from_wf) (simp_all add: wf_pf_def)

lemma tm_ok_zero [simp]: "tm_ok zero_tm"
  by (simp add: tm_ok_def zero_tm_def)

lemma new_pattern_formatter_wf:
  "custom_ok U ok \<Longrightarrow> \<forall>c\<in>ran handlers. ok c \<Longrightarrow> wf_pf ok (new_pattern_formatter U e p tt eol handlers)"
  unfolding new_pattern_formatter_def by (rule compile_pattern_wf) (simp_all add: wf_pf_def)

lemma pf_clone_wf:
  assumes "custom_ok U ok" "wf_pf ok pf"
  shows "wf_pf ok (pf_clone U e pf)"
proof -
  have "\<forall>c\<in>ran (map_option (cu_clone U) \<circ> pf_custom_handlers pf). ok c"
    using assms unfolding custom_ok_def wf_pf_def ran_def by auto
  then show ?thesis using new_pattern_formatter_wf[OF assms(1)] by (simp add: pf_clone_def Let_def)
qed

lemma pf_set_pattern_wf: "custom_ok U ok \<Longrightarrow> wf_pf ok pf \<Longrightarrow> wf_pf ok (pf_set_pattern U e p pf)"
  unfolding pf_set_pattern_def by (rule compile_pattern_wf) (simp_all add: wf_pf_def need_localtime_def)

lemma pf_run_wf:
  assumes "wf_pf ok pf" "custom_ok U ok" "\<forall>(e, msg)\<in>set ms. zone_ok e \<and> source_ok msg"
  shows "\<exists>outs pf'. pf_run U ms pf = Inr (outs, pf') \<and> wf_pf ok pf' \<and> length outs = length ms"
  using assms
proof (induction ms arbitrary: pf)
  case (Cons em ms)
  obtain e msg where em: "em = (e, msg)" by (cases em)
  with Cons.prems obtain msg' out pf' where f: "pf_format U e msg [] pf = Inr (msg', out, pf')" "wf_pf ok pf'"
    using pf_format_wf[of ok pf e msg U "[]"] by auto
  moreover have "\<forall>(e, msg)\<in>set ms. zone_ok e \<and> source_ok msg" using Cons.prems(3) by simp
  ultimately obtain outs pf'' where "pf_run U ms pf' = Inr (outs, pf'')" "wf_pf ok pf''" "length outs = length ms"
    using Cons.IH[of pf'] Cons.prems(2) by auto
  with f em show ?case by simp
qed simp

text \<open>
  C32. Whatever text is given as a pattern, it compiles to well-formed formatters: every padding is at most the 64
  spaces there are, and a padder is used exactly where a width was given. Such a formatter formats every sequence of
  messages with a valid calendar and no null pointer in a source location, without undefined behaviour, and stays
  well-formed, as do its clones and the formatters \<open>set_pattern\<close> makes of it; formatters added by the program are
  taken not to fail.
\<close>

theorem patterns_never_go_wrong:
  assumes "custom_ok U ok" "\<forall>c\<in>ran handlers. ok c" "\<forall>(e, msg)\<in>set ms. zone_ok e \<and> source_ok msg"
  shows "\<exists>outs pf. pf_run U ms (new_pattern_formatter U e pattern time_type eol handlers) = Inr (outs, pf) \<and>
     length outs = length ms \<and> wf_pf ok pf \<and> wf_pf ok (pf_clone U e pf) \<and> wf_pf ok (pf_set_pattern U e pattern' pf)"
  using pf_run_wf[OF new_pattern_formatter_wf[OF assms(1,2)] assms(1,3)] pf_clone_wf[OF assms(1)] pf_set_pattern_wf[OF assms(1)]
  by blast

subsection \<open>Text prints itself\<close>

text \<open>Doubling every \<open>%\<close>.\<close>

primrec quote_pattern :: "bytes \<Rightarrow> bytes" where
  "quote_pattern [] = []"
| "quote_pattern (c # s) = (if c = 37 then [37, 37] else [c]) @ quote_pattern s"

lemma push_formatter_fields [simp]:
  "pf_formatters (push_formatter f pf) = pf_formatters pf @ [f]"
  "pf_custom_handlers (push_formatter f pf) = pf_custom_handlers pf"
  "pf_need_localtime (push_formatter f pf) = pf_need_localtime pf"
  "pf_eol (push_formatter f pf) = pf_eol pf"
  "pf_cached_tm (push_formatter f pf) = pf_cached_tm pf"
  "pf_time_type (push_formatter f pf) = pf_time_type pf"
  "pf_last_log_secs (push_formatter f pf) = pf_last_log_secs pf"
  by (simp_all add: push_formatter_def)

lemma push_user_chars_fields [simp]:
  "pf_custom_handlers (push_user_chars u pf) = pf_custom_handlers pf"
  "pf_need_localtime (push_user_chars u pf) = pf_need_localtime pf"
  "pf_eol (push_user_chars u pf) = pf_eol pf"
  by (simp_all add: push_user_chars_def split: option.split)

fun literal_text :: "'c flag_formatter list \<Rightarrow> bytes option" where
  "literal_text [] = Some []"
| "literal_text (ch_formatter c # fs) = map_option (\<lambda>s. c # s) (literal_text fs)"
| "literal_text (aggregate_formatter s # fs) = map_option (\<lambda>r. s @ r) (literal_text fs)"
| "literal_text (f # fs) = None"

lemma literal_text_append:
  "literal_text fs = Some s \<Longrightarrow> literal_text (fs @ gs) = map_option (\<lambda>r. s @ r) (literal_text gs)"
  by (induction fs arbitrary: s rule: literal_text.induct; cases "literal_text gs") auto

lemma format_each_literal:
  "literal_text fs = Some s \<Longrightarrow> format_each U e t fs (msg, dest) = Inr (fs, msg, dest @ s)"
  by (induction fs arbitrary: s dest rule: literal_text.induct) (auto simp: push_char_def append_view_def)

definition chars_so_far :: "bytes option \<Rightarrow> bytes" where
  "chars_so_far u = (case u of Some s \<Rightarrow> s | None \<Rightarrow> [])"

lemma push_user_chars_text:
  "literal_text (pf_formatters pf) = Some s \<Longrightarrow> literal_text (pf_formatters (push_user_chars u pf)) = Some (s @ chars_so_far u)"
  by (auto simp: push_user_chars_def chars_so_far_def literal_text_append split: option.split)

lemma compile_percent:
  "pf_custom_handlers pf 37 = None \<Longrightarrow>
   compile_from U e u (37 # 37 # it) pf = compile_from U e None it (push_formatter (ch_formatter 37) (push_user_chars u pf))"
  by (simp add: handle_padspec_def is_digit_char_def no_padding_def handle_flag_def builtin_flag_def str_def)

lemma compile_quoted:
  assumes "pf_custom_handlers pf 37 = None" "literal_text (pf_formatters pf) = Some s"
  shows "literal_text (pf_formatters (compile_from U e u (quote_pattern p) pf)) = Some (s @ chars_so_far u @ p) \<and>
    pf_need_localtime (compile_from U e u (quote_pattern p) pf) = pf_need_localtime pf \<and>
    pf_eol (compile_from U e u (quote_pattern p) pf) = pf_eol pf"
  using assms
proof (induction p arbitrary: u pf s)
  case Nil
  then show ?case by (simp add: push_user_chars_text)
next
  case (Cons c p)
  show ?case
  proof (cases "c = 37")
    case True
    let ?pf = "push_formatter (ch_formatter 37) (push_user_chars u pf)"
    have q: "compile_from U e u (quote_pattern (c # p)) pf = compile_from U e None (quote_pattern p) ?pf"
      using True compile_percent[OF Cons.prems(1), of U e u] by simp
    have "literal_text (pf_formatters ?pf) = Some ((s @ chars_so_far u) @ [37])"
      using push_user_chars_text[OF Cons.prems(2), of u] by (simp add: literal_text_append)
    then show ?thesis
      unfolding q using True Cons.prems(1) Cons.IH[of ?pf "(s @ chars_so_far u) @ [37]" None] by (simp add: chars_so_far_def)
  next
    case False
    then show ?thesis using Cons.IH[OF Cons.prems, of "Some (chars_so_far u @ [c])"] by (simp add: chars_so_far_def)
  qed
qed

text \<open>
  A text with every \<open>%\<close> doubled is a pattern that prints the text: compiled and given any message, the formatter
  appends the text and the end of line and leaves the message as it is.
\<close>

theorem quoted_pattern_prints_text:
  assumes "handlers 37 = None"
  shows "\<exists>pf. pf_format U e msg dest (new_pattern_formatter U e' (quote_pattern s) time_type eol handlers) =
    Inr (msg, dest @ s @ eol, pf)"
proof -
  let ?z = "\<lparr>pf_pattern = quote_pattern s, pf_eol = eol, pf_time_type = time_type, pf_need_localtime = False, pf_cached_tm = zero_tm,
        pf_last_log_secs = 0, pf_formatters = [], pf_custom_handlers = handlers\<rparr>"
  let ?pf = "new_pattern_formatter U e' (quote_pattern s) time_type eol handlers"
  have "literal_text (pf_formatters ?pf) = Some s \<and> pf_need_localtime ?pf = False \<and> pf_eol ?pf = eol"
    using compile_quoted[of ?z "[]" U e' None s] assms
    by (simp add: new_pattern_formatter_def compile_pattern_def chars_so_far_def)
  then show ?thesis
    by (simp add: pf_format_def refresh_time_def format_each_literal append_view_def Let_def)
qed

subsection \<open>The caches are not seen\<close>

text \<open>What a call appends and the message it leaves, without the formatter.\<close>

definition pf_out :: "'c custom_ops \<Rightarrow> fmt_env \<Rightarrow> log_msg \<Rightarrow> bytes \<Rightarrow> 'c pattern_formatter \<Rightarrow> (log_msg \<times> bytes) result" where
  "pf_out U e msg dest pf = rbind (pf_format U e msg dest pf) (\<lambda>(msg, dest, _). Inr (msg, dest))"

text \<open>The flags whose text is that of the message and the calendar alone.\<close>

fun memoryless :: "'c flag_formatter \<Rightarrow> bool" where
  "memoryless (z_formatter P pd z) = False"
| "memoryless (elapsed_formatter unit P pd prev) = False"
| "memoryless (Custom c) = False"
| "memoryless f = True"

text \<open>The same formatter up to a cached date, which is that of the second it is for.\<close>

definition cached_for :: "(int \<Rightarrow> std_tm) \<Rightarrow> full_state \<Rightarrow> bool" where
  "cached_for cal s \<longleftrightarrow> fs_cached_datetime s = [] \<or> fs_cached_datetime s = datetime_text (cal (fs_cache_timestamp s))"

fun same_flag :: "(int \<Rightarrow> std_tm) \<Rightarrow> 'c flag_formatter \<Rightarrow> 'c flag_formatter \<Rightarrow> bool" where
  "same_flag cal (full_formatter pd s) g = (\<exists>s'. g = full_formatter pd s' \<and> cached_for cal s \<and> cached_for cal s')"
| "same_flag cal f g = (f = g \<and> memoryless f)"

lemma refresh_datetime_cached:
  "cached_for cal s \<Longrightarrow> t = cal (to_seconds (lm_time msg)) \<Longrightarrow>
   cached_for cal (refresh_datetime msg t s) \<and> fs_cached_datetime (refresh_datetime msg t s) = datetime_text t"
  by (auto simp: refresh_datetime_def cached_for_def Let_def)

lemma full_format_cached:
  assumes "cached_for cal s" "cached_for cal s'" "t = cal (to_seconds (lm_time msg))"
  shows "rel_sum (=) (rel_prod (\<lambda>s s'. cached_for cal s \<and> cached_for cal s') (=)) (full_format ctx msg t s dest) (full_format ctx msg t s' dest)"
proof -
  let ?r = "\<lambda>s. refresh_datetime msg t s"
  have e: "fs_cached_datetime (?r s) = datetime_text t" "fs_cached_datetime (?r s') = datetime_text t"
    and c: "cached_for cal (?r s)" "cached_for cal (?r s')"
    using refresh_datetime_cached[OF assms(1,3)] refresh_datetime_cached[OF assms(2,3)] by auto
  show ?thesis
    unfolding full_format_def full_head_def Let_def e using c by (auto simp: rbind_def split: sum.split)
qed

lemma flag_format_same:
  assumes "same_flag cal f g" "t = cal (to_seconds (lm_time msg))"
  shows "rel_sum (=) (rel_prod (same_flag cal) (=)) (flag_format U e t f (msg, dest)) (flag_format U e t g (msg, dest))"
proof (cases f)
  case (full_formatter pd s)
  then obtain s' where g: "g = full_formatter pd s'" "cached_for cal s" "cached_for cal s'" using assms(1) by auto
  from full_format_cached[OF g(2,3) assms(2), of "fe_mdc e" dest]
  show ?thesis unfolding full_formatter g(1) flag_format.simps
    by (cases "full_format (fe_mdc e) msg t s dest"; cases "full_format (fe_mdc e) msg t s' dest") auto
next
  case (Field k P pd)
  then show ?thesis using assms(1) by (cases "field_format e msg t k P pd dest") auto
qed (use assms in auto)

lemma flag_format_time: "flag_format U e t f (msg, dest) = Inr (f', msg', d) \<Longrightarrow> lm_time msg' = lm_time msg"
  by (cases f) (auto simp: outcome_simps full_format_def Let_def)

lemma format_each_same:
  assumes "list_all2 (same_flag cal) fs gs" "t = cal (to_seconds (lm_time msg))"
  shows "rel_sum (=) (rel_prod (list_all2 (same_flag cal)) (=)) (format_each U e t fs (msg, dest)) (format_each U e t gs (msg, dest))"
  using assms
proof (induction fs gs arbitrary: msg dest rule: list_all2_induct)
  case (Cons f fs g gs)
  note f = flag_format_same[OF Cons.hyps(1) Cons.prems, of U e dest]
  show ?case
  proof (cases "flag_format U e t f (msg, dest)")
    case (Inl x)
    with f show ?thesis by (cases "flag_format U e t g (msg, dest)") auto
  next
    case (Inr r)
    then obtain f' msg' d where r: "flag_format U e t f (msg, dest) = Inr (f', msg', d)" by (cases r) auto
    with f obtain g' where g: "flag_format U e t g (msg, dest) = Inr (g', msg', d)" "same_flag cal f' g'"
      by (cases "flag_format U e t g (msg, dest)") auto
    have "t = cal (to_seconds (lm_time msg'))" using Cons.prems flag_format_time[OF r] by simp
    from Cons.IH[OF this, of d] r g show ?thesis
      by (cases "format_each U e t fs (msg', d)"; cases "format_each U e t gs (msg', d)") auto
  qed
qed simp

lemma flag_format_keeps:
  assumes "same_flag cal f g" "t = cal (to_seconds (lm_time msg))" "flag_format U e t f (msg, dest) = Inr (f', r)"
  shows "same_flag cal f' g"
proof (cases f)
  case (full_formatter pd s)
  then obtain s' where g: "g = full_formatter pd s'" "cached_for cal s" "cached_for cal s'" using assms(1) by auto
  have "f' = full_formatter pd (refresh_datetime msg t s)"
    using assms(3) by (auto simp: full_formatter outcome_simps full_format_def Let_def)
  then show ?thesis using g refresh_datetime_cached[OF g(2) assms(2)] by simp
qed (use assms in \<open>auto simp: outcome_simps\<close>)

lemma format_each_keeps:
  assumes "list_all2 (same_flag cal) fs gs" "t = cal (to_seconds (lm_time msg))" "format_each U e t fs (msg, dest) = Inr (fs', r)"
  shows "list_all2 (same_flag cal) fs' gs"
  using assms
proof (induction fs gs arbitrary: msg dest fs' r rule: list_all2_induct)
  case (Cons f fs g gs)
  then obtain f' msg' d fs'' r' where f: "flag_format U e t f (msg, dest) = Inr (f', msg', d)"
      "format_each U e t fs (msg', d) = Inr (fs'', r')" "fs' = f' # fs''"
    by (auto simp: outcome_simps)
  have "t = cal (to_seconds (lm_time msg'))" using Cons.prems(1) flag_format_time[OF f(1)] by simp
  with Cons.IH f flag_format_keeps[OF Cons.hyps(1) Cons.prems(1) f(1)] show ?case by auto
qed simp

text \<open>The calendar a formatter goes by, and what its cache of the last second holds.\<close>

definition calendar :: "fmt_env \<Rightarrow> 'c pattern_formatter \<Rightarrow> int \<Rightarrow> std_tm" where
  "calendar e pf secs = (if pf_need_localtime pf then time_at e (pf_time_type pf) secs else zero_tm)"

definition same_pf :: "(int \<Rightarrow> std_tm) \<Rightarrow> 'c pattern_formatter \<Rightarrow> 'c pattern_formatter \<Rightarrow> bool" where
  "same_pf cal pf pf0 \<longleftrightarrow> pf_eol pf = pf_eol pf0 \<and> pf_need_localtime pf = pf_need_localtime pf0 \<and> pf_time_type pf = pf_time_type pf0 \<and>
     list_all2 (same_flag cal) (pf_formatters pf) (pf_formatters pf0) \<and>
     (if pf_need_localtime pf then pf_last_log_secs pf \<noteq> 0 \<longrightarrow> pf_cached_tm pf = cal (pf_last_log_secs pf) else pf_cached_tm pf = zero_tm)"

lemma calendar_cong:
  "fe_localtime e = fe_localtime e' \<Longrightarrow> fe_gmtime e = fe_gmtime e' \<Longrightarrow> calendar e' pf = calendar e pf"
  by (simp add: fun_eq_iff calendar_def time_at_def split: pattern_time_type.split)

lemma refresh_time_same:
  assumes "same_pf cal pf pf0" "cal = calendar e pf0" "to_seconds (lm_time msg) \<noteq> 0"
  shows "same_pf cal (refresh_time e msg pf) pf0 \<and> pf_cached_tm (refresh_time e msg pf) = cal (to_seconds (lm_time msg))"
  using assms by (auto simp: same_pf_def refresh_time_def Let_def pf_get_time_def calendar_def)

lemma pf_format_keeps:
  assumes "same_pf cal pf pf0" "cal = calendar e pf0" "to_seconds (lm_time msg) \<noteq> 0" "pf_format U e msg dest pf = Inr (msg', d, pf')"
  shows "same_pf cal pf' pf0"
proof -
  let ?p = "refresh_time e msg pf"
  note r = refresh_time_same[OF assms(1-3)]
  obtain fs d' where f: "format_each U e (pf_cached_tm ?p) (pf_formatters ?p) (msg, dest) = Inr (fs, msg', d')"
      and p: "pf' = ?p\<lparr>pf_formatters := fs\<rparr>"
    using assms(4) by (auto simp: pf_format_def Let_def outcome_simps)
  have "list_all2 (same_flag cal) fs (pf_formatters pf0)"
    using r by (intro format_each_keeps[OF _ _ f]) (auto simp: same_pf_def)
  with r p show ?thesis by (auto simp: same_pf_def split: if_splits)
qed

lemma pf_out_same:
  assumes "same_pf cal pf pf0" "same_pf cal pf0 pf0" "cal = calendar e pf0" "to_seconds (lm_time msg) \<noteq> 0"
  shows "pf_out U e msg dest pf = pf_out U e msg dest pf0"
proof -
  let ?p = "refresh_time e msg pf" and ?q = "refresh_time e msg pf0" and ?t = "cal (to_seconds (lm_time msg))"
  note r = refresh_time_same[OF assms(1,3,4)] and q = refresh_time_same[OF assms(2-4)]
  have eol: "pf_eol ?p = pf_eol ?q" using r q by (simp add: same_pf_def)
  have "pf_formatters ?q = pf_formatters pf0" by (simp add: refresh_time_def Let_def)
  then have "list_all2 (same_flag cal) (pf_formatters ?p) (pf_formatters ?q)" using r by (simp add: same_pf_def)
  from format_each_same[OF this refl, of U e msg dest] r q eol show ?thesis
    by (cases "format_each U e ?t (pf_formatters ?p) (msg, dest)"; cases "format_each U e ?t (pf_formatters ?q) (msg, dest)")
      (auto simp: pf_out_def pf_format_def Let_def)
qed

lemma pf_run_keeps:
  assumes "same_pf cal pf pf0" "pf_run U ms pf = Inr (outs, pf')"
    "\<forall>(e, msg)\<in>set ms. cal = calendar e pf0 \<and> to_seconds (lm_time msg) \<noteq> 0"
  shows "same_pf cal pf' pf0"
  using assms
proof (induction ms arbitrary: pf outs)
  case (Cons em ms)
  obtain e msg where em: "em = (e, msg)" by (cases em)
  with Cons.prems(2) obtain msg' out p outs' where
      f: "pf_format U e msg [] pf = Inr (msg', out, p)" "pf_run U ms p = Inr (outs', pf')"
    by (auto simp: outcome_simps)
  have "same_pf cal p pf0" using Cons.prems(1,3) em by (intro pf_format_keeps[OF _ _ _ f(1)]) auto
  then show ?case using Cons.IH[OF _ f(2)] Cons.prems(3) by simp
qed simp

paragraph \<open>A compiled pattern starts with empty caches\<close>

lemma handle_flag_all:
  assumes "list_all R (pf_formatters pf)" "\<And>s. R (aggregate_formatter s)" "\<And>c. R (Custom c)"
    "\<And>k P pd. R (Field k P pd)" "\<And>P flag pd f l. builtin_flag e P flag pd = Some (f, l) \<Longrightarrow> R f"
  shows "list_all R (pf_formatters (handle_flag U e P flag pd pf))"
  using assms by (auto simp: handle_flag_def need_localtime_def Let_def split: option.split)

lemma handle_flag_fields [simp]:
  "pf_cached_tm (handle_flag U e P flag pd pf) = pf_cached_tm pf"
  "pf_last_log_secs (handle_flag U e P flag pd pf) = pf_last_log_secs pf"
  by (auto simp: handle_flag_def need_localtime_def Let_def split: option.split)

lemma push_user_chars_caches [simp]:
  "pf_cached_tm (push_user_chars u pf) = pf_cached_tm pf"
  "pf_last_log_secs (push_user_chars u pf) = pf_last_log_secs pf"
  by (simp_all add: push_user_chars_def split: option.split)

definition starts_with :: "('c flag_formatter \<Rightarrow> bool) \<Rightarrow> 'c pattern_formatter \<Rightarrow> bool" where
  "starts_with R pf \<longleftrightarrow> list_all R (pf_formatters pf) \<and> pf_cached_tm pf = zero_tm \<and> pf_last_log_secs pf = 0"

lemma compile_from_starts:
  assumes "starts_with R pf" "\<And>s. R (aggregate_formatter s)" "\<And>c. R (Custom c)"
    "\<And>k P pd. R (Field k P pd)" "\<And>P flag pd f l. builtin_flag e P flag pd = Some (f, l) \<Longrightarrow> R f"
  shows "starts_with R (compile_from U e u it pf)"
  using assms
proof (induction U e u it pf rule: compile_from.induct)
  case (1 U e u pf)
  then show ?case by (auto simp: starts_with_def push_user_chars_def split: option.split)
next
  case (2 U e u c it pf)
  obtain pd r where h: "handle_padspec it = (pd, r)" by (cases "handle_padspec it") simp
  have s: "starts_with R (push_user_chars u pf)"
    using "2.prems"(1,2) by (auto simp: starts_with_def push_user_chars_def split: option.split)
  show ?case
  proof (cases "c = 37")
    case True
    show ?thesis
    proof (cases r)
      case Nil
      with True h s show ?thesis by simp
    next
      case (Cons flag q)
      let ?pf = "handle_flag U e (if pd_enabled pd then Scoped else Null) flag pd (push_user_chars u pf)"
      have "starts_with R ?pf"
        using s handle_flag_all[of R "push_user_chars u pf" e U _ flag pd] "2.prems" by (simp add: starts_with_def)
      then have "starts_with R (compile_from U e None q ?pf)"
        by (rule "2.IH"(1)[OF True refl h[symmetric] refl Cons]) (use "2.prems" in auto)
      with True h Cons show ?thesis by simp
    qed
  next
    case False
    with "2.IH"(2)[OF False "2.prems"] show ?thesis by simp
  qed
qed

definition unused_flag :: "'c flag_formatter \<Rightarrow> bool" where
  "unused_flag f \<longleftrightarrow> (\<forall>pd s. f = full_formatter pd s \<longrightarrow> s = new_full_state)"

lemma new_pattern_formatter_fresh: "starts_with unused_flag (new_pattern_formatter U e p tt eol handlers)"
  unfolding new_pattern_formatter_def compile_pattern_def
proof (rule compile_from_starts)
  show "unused_flag f" if "builtin_flag e P flag pd = Some (f, l)" for P flag pd and f :: "'a flag_formatter" and l
    using that by (auto simp: builtin_flag_def unused_flag_def split: if_splits option.splits)
qed (simp_all add: starts_with_def unused_flag_def)

lemma unused_flag_same: "unused_flag f \<Longrightarrow> memoryless f \<Longrightarrow> same_flag cal f f"
  by (cases f) (auto simp: unused_flag_def cached_for_def new_full_state_def)

lemma starts_same:
  assumes "starts_with unused_flag pf" "list_all memoryless (pf_formatters pf)"
  shows "same_pf cal pf pf"
  using assms by (auto simp: starts_with_def same_pf_def list_all_iff list_all2_same intro: unused_flag_same)

text \<open>
  C33. The caches (the broken-down time of the last second in the formatter, the date in \<open>%+\<close>) are not seen: after any
  messages it has formatted, whatever their order in time, a formatter of a pattern of memoryless flags does with the
  next message what it does when it is new. The time zone is fixed, and no message is of the second 0, which
  the cache takes for a second it has seen.
\<close>

theorem caches_are_not_seen:
  assumes "pf0 = new_pattern_formatter U e0 pattern time_type eol handlers" "list_all memoryless (pf_formatters pf0)"
    "pf_run U ms pf0 = Inr (outs, pf)"
    "\<forall>(e', m)\<in>set ((e, msg) # ms). fe_localtime e' = fe_localtime e \<and> fe_gmtime e' = fe_gmtime e \<and> to_seconds (lm_time m) \<noteq> 0"
  shows "pf_out U e msg dest pf = pf_out U e msg dest pf0"
proof (rule pf_out_same)
  show s: "same_pf (calendar e pf0) pf0 pf0"
    unfolding assms(1) by (rule starts_same[OF new_pattern_formatter_fresh]) (use assms(1,2) in simp)
  show "same_pf (calendar e pf0) pf pf0"
    using assms(4) by (intro pf_run_keeps[OF s assms(3)]) (auto intro!: calendar_cong)
qed (use assms(4) in auto)

subsection \<open>The default line\<close>

definition full_pattern :: bytes where
  "full_pattern = str ''[%Y-%m-%d %H:%M:%S.%e] [%n] [%^%l%$] [%s:%#] %v''"

definition full_flags :: "'c flag_formatter list" where
  "full_flags =
    [aggregate_formatter (str ''[''), Field Y_formatter Null no_padding, aggregate_formatter (str ''-''),
     Field m_formatter Null no_padding, aggregate_formatter (str ''-''), Field d_formatter Null no_padding,
     aggregate_formatter (str '' ''), Field H_formatter Null no_padding, aggregate_formatter (str '':''),
     Field M_formatter Null no_padding, aggregate_formatter (str '':''), Field S_formatter Null no_padding,
     aggregate_formatter (str ''.''), Field e_formatter Null no_padding, aggregate_formatter (str ''] [''),
     Field name_formatter Null no_padding, aggregate_formatter (str ''] [''), color_start_formatter no_padding,
     Field level_formatter Null no_padding, color_stop_formatter no_padding, aggregate_formatter (str ''] [''),
     Field short_filename_formatter Null no_padding, aggregate_formatter (str '':''),
     Field source_linenum_formatter Null no_padding, aggregate_formatter (str ''] ''), Field v_formatter Null no_padding]"

lemma compile_flag:
  assumes "flag \<noteq> 45" "flag \<noteq> 61" "\<not> is_digit_char flag"
  shows "compile_from U e u (37 # flag # it) pf =
    compile_from U e None it (handle_flag U e Null flag no_padding (push_user_chars u pf))"
  using assms by (simp add: handle_padspec_def no_padding_def)

lemma handle_builtin:
  "pf_custom_handlers pf flag = None \<Longrightarrow> builtin_flag e P flag pd = Some (f, True) \<Longrightarrow>
     handle_flag U e P flag pd pf = need_localtime True (push_formatter f pf)"
  "pf_custom_handlers pf flag = None \<Longrightarrow> builtin_flag e P flag pd = Some (f, False) \<Longrightarrow>
     handle_flag U e P flag pd pf = push_formatter f pf"
  by (simp_all add: handle_flag_def Let_def)

lemma builtin_flags:
  "builtin_flag e P 89 pd = Some (Field Y_formatter P pd, True)" "builtin_flag e P 109 pd = Some (Field m_formatter P pd, True)"
  "builtin_flag e P 100 pd = Some (Field d_formatter P pd, True)" "builtin_flag e P 72 pd = Some (Field H_formatter P pd, True)"
  "builtin_flag e P 77 pd = Some (Field M_formatter P pd, True)" "builtin_flag e P 83 pd = Some (Field S_formatter P pd, True)"
  "builtin_flag e P 101 pd = Some (Field e_formatter P pd, False)" "builtin_flag e P 110 pd = Some (Field name_formatter P pd, False)"
  "builtin_flag e P 94 pd = Some (color_start_formatter pd, False)" "builtin_flag e P 108 pd = Some (Field level_formatter P pd, False)"
  "builtin_flag e P 36 pd = Some (color_stop_formatter pd, False)" "builtin_flag e P 115 pd = Some (Field short_filename_formatter P pd, False)"
  "builtin_flag e P 35 pd = Some (Field source_linenum_formatter P pd, False)" "builtin_flag e P 118 pd = Some (Field v_formatter P pd, False)"
  "builtin_flag e P 43 pd = Some (full_formatter pd new_full_state, True)"
  by (simp_all add: builtin_flag_def builtin_field_def str_def)

lemma need_localtime_fields [simp]:
  "pf_custom_handlers (need_localtime b pf) = pf_custom_handlers pf" "pf_formatters (need_localtime b pf) = pf_formatters pf"
  by (simp_all add: need_localtime_def)

lemma compile_char: "c \<noteq> 37 \<Longrightarrow> compile_from U e u (c # it) pf = compile_from U e (Some (chars_so_far u @ [c])) it pf"
  by (simp add: chars_so_far_def)

lemmas compile_steps = compile_flag handle_builtin builtin_flags compile_char compile_from.simps(1)

lemma full_pattern_compiled:
  "new_pattern_formatter U e full_pattern tt eol Map.empty =
     \<lparr>pf_pattern = full_pattern, pf_eol = eol, pf_time_type = tt, pf_need_localtime = True, pf_cached_tm = zero_tm,
      pf_last_log_secs = 0, pf_formatters = full_flags, pf_custom_handlers = Map.empty\<rparr>"
proof -
  define z :: "'a pattern_formatter" where "z = \<lparr>pf_pattern = full_pattern, pf_eol = eol, pf_time_type = tt, pf_need_localtime = False, pf_cached_tm = zero_tm,
        pf_last_log_secs = 0, pf_formatters = [], pf_custom_handlers = Map.empty\<rparr>"
  have z: "pf_custom_handlers z = Map.empty" by (simp add: z_def)
  have p: "full_pattern = map (\<lambda>c. of_nat (of_char c)) ''[%Y-%m-%d %H:%M:%S.%e] [%n] [%^%l%$] [%s:%#] %v''"
    by (simp add: full_pattern_def str_def)
  have "compile_from U e None full_pattern z = z\<lparr>pf_need_localtime := True, pf_formatters := full_flags\<rparr>"
    unfolding p by (simp add: compile_steps is_digit_char_def chars_so_far_def z del: compile_from.simps(2))
      (simp add: push_user_chars_def push_formatter_def need_localtime_def full_flags_def str_def z_def)
  then show ?thesis by (simp add: new_pattern_formatter_def compile_pattern_def z_def)
qed

lemma default_is_plus:
  "default_pattern_formatter tt eol = new_pattern_formatter U e (str ''%+'') tt eol Map.empty"
  by (simp add: default_pattern_formatter_def new_pattern_formatter_def compile_pattern_def str_def compile_steps
      is_digit_char_def del: compile_from.simps(2))
    (simp add: push_user_chars_def push_formatter_def need_localtime_def)

text \<open>Without a padder a field is its text.\<close>

lemma append_text: "append_view v dest = dest @ v" "push_char c dest = dest @ [c]"
  by (simp_all add: append_view_def push_char_def)

definition pad2_text :: "int \<Rightarrow> bytes" where
  "pad2_text n = pad2 n []"

definition millis_text :: "log_msg \<Rightarrow> bytes" where
  "millis_text msg = pad3 (as_uint32 (time_fraction 1000000 (lm_time msg))) []"

lemma pad_append:
  "pad2 n dest = dest @ pad2_text n" "pad3 (as_uint32 (time_fraction 1000000 (lm_time msg))) dest = dest @ millis_text msg"
  by (simp_all add: pad2_text_def millis_text_def pad2_def pad3_def append_int_def)

definition line_start :: "std_tm \<Rightarrow> log_msg \<Rightarrow> bytes" where
  "line_start t msg = datetime_text t @ millis_text msg @ str ''] ['' @ lm_logger_name msg @ str ''] [''"

definition line_text :: "std_tm \<Rightarrow> bytes \<Rightarrow> log_msg \<Rightarrow> bytes" where
  "line_text t file msg = line_start t msg @ to_string_view (lm_level msg) @ str ''] ['' @ basename (c_str file) @ str '':'' @
     dec_int (sl_line (lm_source msg)) @ str ''] '' @ lm_payload msg"

definition coloured :: "std_tm \<Rightarrow> bytes \<Rightarrow> log_msg \<Rightarrow> log_msg" where
  "coloured t dest msg = msg\<lparr>lm_color_range_start := length dest + length (line_start t msg),
     lm_color_range_end := length dest + length (line_start t msg) + length (to_string_view (lm_level msg))\<rparr>"

lemmas plain_fields = Y_format_def m_format_def d_format_def H_format_def M_format_def S_format_def e_format_def
  name_format_def level_format_def v_format_def short_filename_format_def source_linenum_format_def Let_def

lemma full_flags_text:
  assumes "\<not> source_empty (lm_source msg)" "sl_filename (lm_source msg) = Some file"
  shows "format_each U e t full_flags (msg, dest) = Inr (full_flags, coloured t dest msg, dest @ line_text t file msg)"
  using assms
  by (simp add: full_flags_def plain_fields append_text pad_append append_int_def c_ptr_def str_def coloured_def line_text_def
      line_start_def datetime_text_def)

lemma full_format_text:
  assumes "\<not> source_empty (lm_source msg)" "sl_filename (lm_source msg) = Some file" "lm_logger_name msg \<noteq> []"
    "fs_cached_datetime (refresh_datetime msg t s) = datetime_text t"
  shows "\<exists>s'. full_format [] msg t s dest = Inr (s', coloured t dest msg, dest @ line_text t file msg)"
  using assms
  by (simp add: full_format_def full_head_def Let_def append_text pad_append append_int_def c_ptr_def str_def coloured_def
      line_text_def line_start_def)

text \<open>
  The default line is the pattern its comment gives, \<open>[%Y-%m-%d %H:%M:%S.%e] [%n] [%l] [%s:%#] %v\<close> with the level
  coloured: for a message with a logger name and a source location, in an empty diagnostic context, both formatters
  append the same text and mark the same colour range.
\<close>

theorem default_line_is_its_pattern:
  assumes "\<not> source_empty (lm_source msg)" "sl_filename (lm_source msg) = Some file" "lm_logger_name msg \<noteq> []" "fe_mdc e = []"
  shows "pf_out U e msg dest (default_pattern_formatter time_type eol) =
         pf_out U e msg dest (new_pattern_formatter U e full_pattern time_type eol Map.empty)"
proof -
  define t where "t = (if to_seconds (lm_time msg) = 0 then zero_tm else time_at e time_type (to_seconds (lm_time msg)))"
  have c: "fs_cached_datetime (refresh_datetime msg t new_full_state) = datetime_text t"
    by (simp add: refresh_datetime_def new_full_state_def Let_def)
  have "pf_out U e msg dest (default_pattern_formatter time_type eol) = Inr (coloured t dest msg, dest @ line_text t file msg @ eol)"
  proof -
    obtain s' where "full_format [] msg t new_full_state dest = Inr (s', coloured t dest msg, dest @ line_text t file msg)"
      using full_format_text[OF assms(1-3) c, of dest] by blast
    then show ?thesis
      using assms(4) by (cases "to_seconds (lm_time msg) = 0")
        (simp_all add: pf_out_def pf_format_def default_pattern_formatter_def push_formatter_def refresh_time_def pf_get_time_def
          append_text Let_def t_def)
  qed
  moreover have "pf_out U e msg dest (new_pattern_formatter U e full_pattern time_type eol Map.empty) =
      Inr (coloured t dest msg, dest @ line_text t file msg @ eol)"
    by (simp add: full_flags_text[OF assms(1,2)] pf_out_def pf_format_def full_pattern_compiled refresh_time_def pf_get_time_def append_text t_def Let_def)
  ultimately show ?thesis by simp
qed

subsection \<open>Concrete patterns\<close>

text \<open>No flags of its own, a fixed calendar, a message.\<close>

definition no_custom :: "unit custom_ops" where
  "no_custom = \<lparr>cu_clone = (\<lambda>c. c), cu_set_padding_info = (\<lambda>_ c. c), cu_format = (\<lambda>msg t c dest. Inr (c, dest @ [63]))\<rparr>"

definition sample_date :: std_tm where
  "sample_date = \<lparr>st_sec = 7, st_min = 6, st_hour = 5, st_mday = 4, st_mon = 2, st_year = 125, st_wday = 2, st_gmtoff = 3600\<rparr>"

definition sample_fmt_env :: fmt_env where
  "sample_fmt_env = \<lparr>fe_now = 0, fe_localtime = (\<lambda>_. sample_date), fe_gmtime = (\<lambda>_. sample_date), fe_pid = 42, fe_mdc = []\<rparr>"

definition sample_line_msg :: log_msg where
  "sample_line_msg = \<lparr>lm_logger_name = str ''net'', lm_level = lv_warn, lm_time = 5000000000, lm_thread_id = 9,
     lm_color_range_start = 0, lm_color_range_end = 0,
     lm_source = \<lparr>sl_filename = Some (str ''src/a.cpp''), sl_line = 12, sl_funcname = Some (str ''run'')\<rparr>,
     lm_payload = str ''hello''\<rparr>"

lemma sample_ok: "custom_ok no_custom (\<lambda>_. True)" "zone_ok sample_fmt_env" "source_ok sample_line_msg"
  by (simp_all add: custom_ok_def no_custom_def zone_ok_def sample_fmt_env_def sample_date_def tm_ok_def source_ok_def sample_line_msg_def)

lemma sample_line:
  "pf_out no_custom sample_fmt_env sample_line_msg [] (new_pattern_formatter no_custom sample_fmt_env (str ''%H:%M [%-6l] %=9n|%3!v%%%q'') time_utc [10] Map.empty) =
   Inr (sample_line_msg, str ''05:06 [warning]    net   |hel%%q'' @ [10])"
  by code_simp

theorem patterns_never_go_wrong_witness:
  "\<exists>outs pf. pf_run no_custom [(sample_fmt_env, sample_line_msg), (sample_fmt_env, sample_line_msg)]
      (new_pattern_formatter no_custom sample_fmt_env (str ''%99n %!%3!'') time_utc [10] (Map.empty(81 \<mapsto> ()))) = Inr (outs, pf) \<and>
     length outs = 2 \<and> wf_pf (\<lambda>_. True) pf \<and> wf_pf (\<lambda>_. True) (pf_clone no_custom sample_fmt_env pf) \<and>
     wf_pf (\<lambda>_. True) (pf_set_pattern no_custom sample_fmt_env (str ''%'') pf)"
  using patterns_never_go_wrong[OF sample_ok(1), of "Map.empty(81 \<mapsto> ())" "[(sample_fmt_env, sample_line_msg), (sample_fmt_env, sample_line_msg)]"
      sample_fmt_env "str ''%99n %!%3!''" time_utc "[10]" "str ''%''"] sample_ok(2,3)
  by (simp add: numeral_2_eq_2)

theorem quoted_pattern_prints_text_witness:
  "\<exists>pf. pf_format no_custom sample_fmt_env sample_line_msg [65] (new_pattern_formatter no_custom sample_fmt_env (quote_pattern (str ''100% of %v'')) time_utc [10] Map.empty) =
    Inr (sample_line_msg, [65] @ str ''100% of %v'' @ [10], pf)"
  by (rule quoted_pattern_prints_text) simp

theorem caches_are_not_seen_witness:
  "pf_out no_custom sample_fmt_env sample_line_msg [] (snd (projr (pf_run no_custom [(sample_fmt_env, sample_line_msg\<lparr>lm_time := 7000000000\<rparr>)]
      (new_pattern_formatter no_custom sample_fmt_env (str ''%+ %H %v'') time_utc [10] Map.empty)))) =
   pf_out no_custom sample_fmt_env sample_line_msg [] (new_pattern_formatter no_custom sample_fmt_env (str ''%+ %H %v'') time_utc [10] Map.empty)"
proof -
  let ?pf = "new_pattern_formatter no_custom sample_fmt_env (str ''%+ %H %v'') time_utc [10] Map.empty"
  let ?ms = "[(sample_fmt_env, sample_line_msg\<lparr>lm_time := 7000000000\<rparr>)]"
  have m: "list_all memoryless (pf_formatters ?pf)" by code_simp
  have w: "wf_pf (\<lambda>_. True) ?pf" by (rule new_pattern_formatter_wf[OF sample_ok(1)]) simp
  have "\<forall>(e, msg)\<in>set ?ms. zone_ok e \<and> source_ok msg" using sample_ok(2,3) by (simp add: source_ok_def)
  then obtain outs pf where r: "pf_run no_custom ?ms ?pf = Inr (outs, pf)" using pf_run_wf[OF w sample_ok(1)] by blast
  have "\<forall>(e', m)\<in>set ((sample_fmt_env, sample_line_msg) # ?ms). fe_localtime e' = fe_localtime sample_fmt_env \<and>
      fe_gmtime e' = fe_gmtime sample_fmt_env \<and> to_seconds (lm_time m) \<noteq> 0"
    by (simp add: sample_line_msg_def to_seconds_def)
  from caches_are_not_seen[OF refl m r this, of "[]"] show ?thesis unfolding r by simp
qed

theorem default_line_is_its_pattern_witness:
  "pf_out no_custom sample_fmt_env sample_line_msg [] (default_pattern_formatter time_utc [10]) =
   pf_out no_custom sample_fmt_env sample_line_msg [] (new_pattern_formatter no_custom sample_fmt_env full_pattern time_utc [10] Map.empty)"
  by (rule default_line_is_its_pattern[of _ "str ''src/a.cpp''"])
    (simp_all add: sample_line_msg_def sample_fmt_env_def source_empty_def str_def)

text \<open>In the first second of the epoch the formatter takes its cleared cache for the time: year 1900, day 0.\<close>

lemma epoch_second_is_1900:
  "pf_out no_custom sample_fmt_env (sample_line_msg\<lparr>lm_time := 999\<rparr>) [] (new_pattern_formatter no_custom sample_fmt_env (str ''%Y-%m-%d'') time_utc [] Map.empty) =
   Inr (sample_line_msg\<lparr>lm_time := 999\<rparr>, str ''1900-01-00'')"
  by code_simp

text \<open>A width that does not fit in a \<open>size_t\<close> wraps around: the largest field becomes one of width 3.\<close>

lemma huge_width_wraps: "fst (handle_padspec (str ''18446744073709551619n'')) = new_padding_info 3 pad_left False"
  by (simp add: handle_padspec_def str_def is_digit_char_def new_padding_info_def truncate_marker_def size_t_range_def)

end
