(* ===== verification/Sinks.thy ===== *)
theory Sinks
  imports Pattern_Formatter "HOL-Library.Sublist"
begin

text \<open>
  \<open>spdlog/sinks/\<close>: \<open>base_sink\<close>, \<open>null_sink.h\<close>, \<open>callback_sink.h\<close>, \<open>ostream_sink.h\<close>, \<open>ansicolor_sink\<close>,
  \<open>ringbuffer_sink.h\<close>, \<open>dist_sink.h\<close> and \<open>dup_filter_sink.h\<close>. A sink owns a formatter, which has a state of its own: what a
  sink needs of it is the contract \<open>formatter_contract\<close>, which the pattern formatter fulfils.
\<close>

subsection \<open>Formatters as objects\<close>

text \<open>The virtual functions, and the pattern formatter a sink makes for \<open>set_pattern\<close>.\<close>

record 'f formatter_ops =
  fo_format :: "log_msg \<Rightarrow> bytes \<Rightarrow> 'f \<Rightarrow> (log_msg \<times> bytes \<times> 'f) result"
  fo_clone :: "'f \<Rightarrow> 'f"
  fo_pattern :: "bytes \<Rightarrow> 'f"

definition pattern_ops :: "'c custom_ops \<Rightarrow> fmt_env \<Rightarrow> 'c pattern_formatter formatter_ops" where
  "pattern_ops U e = \<lparr>fo_format = pf_format U e, fo_clone = pf_clone U e,
     fo_pattern = (\<lambda>pattern. new_pattern_formatter U e pattern time_local [10] Map.empty)\<rparr>"

locale formatter_contract =
  fixes F :: "'f formatter_ops"
    and wf :: "'f \<Rightarrow> bool"
    and ok :: "log_msg \<Rightarrow> bool"
  assumes format_law: "wf f \<Longrightarrow> ok msg \<Longrightarrow> \<exists>msg' dest' f'. fo_format F msg dest f = Inr (msg', dest', f') \<and> wf f'"
    and clone_law: "wf f \<Longrightarrow> wf (fo_clone F f)"
    and pattern_law: "wf f \<Longrightarrow> wf (fo_pattern F p)"

definition pattern_wf :: "'c custom_ops \<Rightarrow> fmt_env \<Rightarrow> ('c \<Rightarrow> bool) \<Rightarrow> 'c pattern_formatter \<Rightarrow> bool" where
  "pattern_wf U e ok pf \<longleftrightarrow> custom_ok U ok \<and> zone_ok e \<and> wf_pf ok pf"

interpretation pf: formatter_contract "pattern_ops U e" "pattern_wf U e ok" source_ok for U e ok
proof
  fix f msg dest
  assume "pattern_wf U e ok f" "source_ok msg"
  then show "\<exists>msg' dest' f'. fo_format (pattern_ops U e) msg dest f = Inr (msg', dest', f') \<and> pattern_wf U e ok f'"
    using pf_format_wf[of ok f e msg U dest] by (auto simp: pattern_ops_def pattern_wf_def)
next
  fix f p
  assume f: "pattern_wf U e ok f"
  then show "pattern_wf U e ok (fo_clone (pattern_ops U e) f)"
    using pf_clone_wf[of U ok f e] by (auto simp: pattern_ops_def pattern_wf_def)
  show "pattern_wf U e ok (fo_pattern (pattern_ops U e) p)"
    using f new_pattern_formatter_wf[of U ok Map.empty e p] by (auto simp: pattern_ops_def pattern_wf_def)
qed

subsection \<open>The sinks\<close>

text \<open>\<open>base_sink\<close>: the formatter and the state of the derived class.\<close>

record ('f, 'k) base_sink =
  bk_formatter :: 'f
  bk_state :: 'k

definition new_base_sink :: "'f \<Rightarrow> 'k \<Rightarrow> ('f, 'k) base_sink" where
  "new_base_sink f k = \<lparr>bk_formatter = f, bk_state = k\<rparr>"

definition base_set_formatter :: "'f \<Rightarrow> ('f, 'k) base_sink \<Rightarrow> ('f, 'k) base_sink" where
  "base_set_formatter f s = s\<lparr>bk_formatter := f\<rparr>"

definition base_set_pattern :: "'f formatter_ops \<Rightarrow> bytes \<Rightarrow> ('f, 'k) base_sink \<Rightarrow> ('f, 'k) base_sink" where
  "base_set_pattern F pattern s = base_set_formatter (fo_pattern F pattern) s"

text \<open>\<open>memory_buf_t formatted; formatter_->format(msg, formatted)\<close>\<close>

definition base_format :: "'f formatter_ops \<Rightarrow> log_msg \<Rightarrow> (('f, 'k) base_sink, log_msg \<times> bytes) op" where
  "base_format F msg s =
     (case fo_format F msg [] (bk_formatter s) of
        Inl x \<Rightarrow> (Inl x, s)
      | Inr (msg, formatted, f) \<Rightarrow> (Inr (msg, formatted), s\<lparr>bk_formatter := f\<rparr>))"

definition on_base :: "('k \<Rightarrow> 'k) \<Rightarrow> (('f, 'k) base_sink, unit) op" where
  "on_base u = supdate (\<lambda>s. s\<lparr>bk_state := u (bk_state s)\<rparr>)"

paragraph \<open>Nothing, a callback, a stream\<close>

definition null_sink_it :: "log_msg \<Rightarrow> (('f, unit) base_sink, unit) op" where
  "null_sink_it msg = sreturn ()"

text \<open>The callback is code of the program; the messages it was given are recorded, and it may throw.\<close>

record callback_sink =
  cs_callback :: "log_msg \<Rightarrow> unit result"
  cs_given :: "log_msg list"

definition callback_sink_it :: "log_msg \<Rightarrow> (('f, callback_sink) base_sink, unit) op" where
  "callback_sink_it msg =
     sbind (on_base (\<lambda>k. k\<lparr>cs_given := cs_given k @ [msg]\<rparr>)) (\<lambda>_.
     sbind (sget (\<lambda>s. cs_callback (bk_state s))) (\<lambda>callback. slift (callback msg)))"

text \<open>A stream takes what is written until a write fails; from then on it takes nothing.\<close>

record ostream_sink =
  ok_out :: bytes
  ok_bad :: bool
  ok_fails :: "nat \<Rightarrow> bool"
  ok_writes :: nat
  ok_flushed :: nat
  ok_force_flush :: bool

definition stream_write :: "bytes \<Rightarrow> ostream_sink \<Rightarrow> ostream_sink" where
  "stream_write b k =
     (if ok_bad k then k
      else if ok_fails k (ok_writes k) then k\<lparr>ok_bad := True, ok_writes := Suc (ok_writes k)\<rparr>
      else k\<lparr>ok_out := ok_out k @ b, ok_writes := Suc (ok_writes k)\<rparr>)"

definition stream_flush :: "ostream_sink \<Rightarrow> ostream_sink" where
  "stream_flush k = (if ok_bad k then k else k\<lparr>ok_flushed := length (ok_out k)\<rparr>)"

definition ostream_sink_it :: "'f formatter_ops \<Rightarrow> log_msg \<Rightarrow> (('f, ostream_sink) base_sink, unit) op" where
  "ostream_sink_it F msg =
     sbind (base_format F msg) (\<lambda>(_, formatted).
     sbind (on_base (stream_write formatted)) (\<lambda>_.
     sbind (sget (\<lambda>s. ok_force_flush (bk_state s))) (\<lambda>force_flush.
       if force_flush then on_base stream_flush else sreturn ())))"

definition ostream_flush :: "(('f, ostream_sink) base_sink, unit) op" where
  "ostream_flush = on_base stream_flush"

paragraph \<open>Colours\<close>

datatype color_mode = color_always | color_automatic | color_never

definition esc :: "string \<Rightarrow> bytes" where
  "esc s = [27, 91] @ str s"

definition color_reset :: bytes where
  "color_reset = esc ''m''"

text \<open>The colours of the levels, from trace to off.\<close>

definition default_colors :: "bytes list" where
  "default_colors = [esc ''37m'', esc ''36m'', esc ''32m'', esc ''33m'' @ esc ''1m'', esc ''31m'' @ esc ''1m'', esc ''1m'' @ esc ''41m'',
     color_reset]"

record 'f ansicolor_sink =
  ac_formatter :: 'f
  ac_should_do_colors :: bool
  ac_colors :: "bytes list"
  ac_out :: bytes

text \<open>Whether the target is a terminal that knows colours is an argument.\<close>

definition color_mode_on :: "bool \<Rightarrow> color_mode \<Rightarrow> bool" where
  "color_mode_on color_terminal mode =
     (case mode of color_always \<Rightarrow> True | color_automatic \<Rightarrow> color_terminal | color_never \<Rightarrow> False)"

definition new_ansicolor_sink :: "bool \<Rightarrow> color_mode \<Rightarrow> 'f \<Rightarrow> 'f ansicolor_sink" where
  "new_ansicolor_sink color_terminal mode f =
     \<lparr>ac_formatter = f, ac_should_do_colors = color_mode_on color_terminal mode, ac_colors = default_colors, ac_out = []\<rparr>"

definition set_color :: "level_enum \<Rightarrow> bytes \<Rightarrow> 'f ansicolor_sink \<Rightarrow> 'f ansicolor_sink" where
  "set_color l color s = s\<lparr>ac_colors := (ac_colors s)[level_value l := color]\<rparr>"

definition set_color_mode :: "bool \<Rightarrow> color_mode \<Rightarrow> 'f ansicolor_sink \<Rightarrow> 'f ansicolor_sink" where
  "set_color_mode color_terminal mode s = s\<lparr>ac_should_do_colors := color_mode_on color_terminal mode\<rparr>"

definition should_color :: "'f ansicolor_sink \<Rightarrow> bool" where
  "should_color s = ac_should_do_colors s"

definition ansicolor_set_formatter :: "'f \<Rightarrow> 'f ansicolor_sink \<Rightarrow> 'f ansicolor_sink" where
  "ansicolor_set_formatter f s = s\<lparr>ac_formatter := f\<rparr>"

definition ansicolor_set_pattern :: "'f formatter_ops \<Rightarrow> bytes \<Rightarrow> 'f ansicolor_sink \<Rightarrow> 'f ansicolor_sink" where
  "ansicolor_set_pattern F pattern s = s\<lparr>ac_formatter := fo_pattern F pattern\<rparr>"

definition print_ccode :: "bytes \<Rightarrow> ('f ansicolor_sink, unit) op" where
  "print_ccode code = supdate (\<lambda>s. s\<lparr>ac_out := ac_out s @ code\<rparr>)"

text \<open>\<open>end - start\<close> is unsigned: a range that is not inside the buffer is read from beyond it.\<close>

definition print_range :: "bytes \<Rightarrow> nat \<Rightarrow> nat \<Rightarrow> ('f ansicolor_sink, unit) op" where
  "print_range formatted start end' =
     (if start \<le> end' \<and> end' \<le> length formatted
      then supdate (\<lambda>s. s\<lparr>ac_out := ac_out s @ take (end' - start) (drop start formatted)\<rparr>)
      else slift (Inl Undefined))"

definition ansicolor_log :: "'f formatter_ops \<Rightarrow> log_msg \<Rightarrow> ('f ansicolor_sink, unit) op" where
  "ansicolor_log F msg s =
     (case fo_format F (msg\<lparr>lm_color_range_start := 0, lm_color_range_end := 0\<rparr>) [] (ac_formatter s) of
        Inl x \<Rightarrow> (Inl x, s)
      | Inr (msg, formatted, f) \<Rightarrow>
          (let a = lm_color_range_start msg; b = lm_color_range_end msg in
           if ac_should_do_colors s \<and> b > a
           then sbind (print_range formatted 0 a) (\<lambda>_.
                sbind (print_ccode (ac_colors s ! level_value (lm_level msg))) (\<lambda>_.
                sbind (print_range formatted a b) (\<lambda>_.
                sbind (print_ccode color_reset) (\<lambda>_.
                  print_range formatted b (length formatted)))))
           else print_range formatted 0 (length formatted))
          (s\<lparr>ac_formatter := f\<rparr>))"

paragraph \<open>The last messages\<close>

type_synonym ringbuffer_sink = "log_msg_buffer circular_q"

definition new_ringbuffer_sink :: "nat \<Rightarrow> ringbuffer_sink" where
  "new_ringbuffer_sink n_items = new_circular_q default_buffer n_items"

definition ringbuffer_sink_it :: "log_msg \<Rightarrow> (('f, ringbuffer_sink) base_sink, unit) op" where
  "ringbuffer_sink_it msg s =
     (case cq_push_back (new_log_msg_buffer msg) (bk_state s) of
        Inl x \<Rightarrow> (Inl x, s)
      | Inr q \<Rightarrow> (Inr (), s\<lparr>bk_state := q\<rparr>))"

definition last_range :: "nat \<Rightarrow> ringbuffer_sink \<Rightarrow> nat list" where
  "last_range limit q =
     (let items_available = cq_size q; n_items = if limit > 0 then min limit items_available else items_available in
      [items_available - n_items..<items_available])"

primrec items_at :: "ringbuffer_sink \<Rightarrow> nat list \<Rightarrow> log_msg_buffer list result" where
  "items_at q [] = Inr []"
| "items_at q (i # is) = rbind (cq_at i q) (\<lambda>b. rbind (items_at q is) (\<lambda>bs. Inr (b # bs)))"

definition last_raw :: "nat \<Rightarrow> (('f, ringbuffer_sink) base_sink, log_msg_buffer list) op" where
  "last_raw limit s = (items_at (bk_state s) (last_range limit (bk_state s)), s)"

primrec format_items ::
  "'f formatter_ops \<Rightarrow> nat list \<Rightarrow> (('f, ringbuffer_sink) base_sink, bytes list) op" where
  "format_items F [] = sreturn []"
| "format_items F (i # is) =
     sbind (\<lambda>s. (cq_at i (bk_state s), s)) (\<lambda>b.
     sbind (base_format F (update_string_views b)) (\<lambda>(_, formatted).
     sbind (format_items F is) (\<lambda>texts. sreturn (formatted # texts))))"

definition last_formatted :: "'f formatter_ops \<Rightarrow> nat \<Rightarrow> (('f, ringbuffer_sink) base_sink, bytes list) op" where
  "last_formatted F limit = sbind (sget (\<lambda>s. last_range limit (bk_state s))) (format_items F)"

paragraph \<open>Several sinks behind one\<close>

text \<open>Shared sinks are named by their addresses; \<open>ds_store\<close> holds them.\<close>

record 'k dist_sink =
  ds_sinks :: "nat list"
  ds_store :: "nat \<Rightarrow> 'k sink"

definition add_sink :: "nat \<Rightarrow> ('f, 'k dist_sink) base_sink \<Rightarrow> ('f, 'k dist_sink) base_sink" where
  "add_sink k s = s\<lparr>bk_state := (bk_state s)\<lparr>ds_sinks := ds_sinks (bk_state s) @ [k]\<rparr>\<rparr>"

definition remove_sink :: "nat \<Rightarrow> ('f, 'k dist_sink) base_sink \<Rightarrow> ('f, 'k dist_sink) base_sink" where
  "remove_sink k s = s\<lparr>bk_state := (bk_state s)\<lparr>ds_sinks := removeAll k (ds_sinks (bk_state s))\<rparr>\<rparr>"

definition set_sinks :: "nat list \<Rightarrow> ('f, 'k dist_sink) base_sink \<Rightarrow> ('f, 'k dist_sink) base_sink" where
  "set_sinks ks s = s\<lparr>bk_state := (bk_state s)\<lparr>ds_sinks := ks\<rparr>\<rparr>"

definition on_sub_sink :: "nat \<Rightarrow> ('k, unit) op \<Rightarrow> ('k dist_sink, unit) op" where
  "on_sub_sink k m d =
     (case m (sk_state (ds_store d k)) of
        (r, st) \<Rightarrow> (r, d\<lparr>ds_store := (ds_store d)(k := (ds_store d k)\<lparr>sk_state := st\<rparr>)\<rparr>))"

definition dist_sink_it :: "'k sink_ops \<Rightarrow> log_msg \<Rightarrow> ('k dist_sink, unit) op" where
  "dist_sink_it ops msg =
     sbind (sget ds_sinks) (each (\<lambda>k d.
       if sink_should_log (lm_level msg) (ds_store d k) then on_sub_sink k (so_log ops msg) d else (Inr (), d)))"

definition dist_flush :: "'k sink_ops \<Rightarrow> ('k dist_sink, unit) op" where
  "dist_flush ops = sbind (sget ds_sinks) (each (\<lambda>k. on_sub_sink k (so_flush ops)))"

text \<open>The formatter is kept, and every sub-sink is given a clone of it.\<close>

definition dist_set_formatter ::
  "'f formatter_ops \<Rightarrow> ('f \<Rightarrow> 'k \<Rightarrow> 'k) \<Rightarrow> 'f \<Rightarrow> ('f, 'k dist_sink) base_sink \<Rightarrow> ('f, 'k dist_sink) base_sink" where
  "dist_set_formatter F sub_set_formatter f s =
     (let d = bk_state s in
      s\<lparr>bk_formatter := f,
        bk_state := d\<lparr>ds_store := fold (\<lambda>k st. st(k := (st k)\<lparr>sk_state := sub_set_formatter (fo_clone F f) (sk_state (st k))\<rparr>))
                       (ds_sinks d) (ds_store d)\<rparr>\<rparr>)"

definition dist_set_pattern ::
  "'f formatter_ops \<Rightarrow> ('f \<Rightarrow> 'k \<Rightarrow> 'k) \<Rightarrow> bytes \<Rightarrow> ('f, 'k dist_sink) base_sink \<Rightarrow> ('f, 'k dist_sink) base_sink" where
  "dist_set_pattern F sub_set_formatter pattern s = dist_set_formatter F sub_set_formatter (fo_pattern F pattern) s"

paragraph \<open>Duplicates\<close>

record 'k dup_filter_sink =
  df_dist :: "'k dist_sink"
  df_max_skip_duration :: int
  df_last_msg_time :: int
  df_last_msg_payload :: bytes
  df_skip_counter :: nat
  df_skipped_msg_log_level :: level_enum

text \<open>The duration is in microseconds.\<close>

definition new_dup_filter_sink :: "int \<Rightarrow> (nat \<Rightarrow> 'k sink) \<Rightarrow> 'k dup_filter_sink" where
  "new_dup_filter_sink max_skip_duration store =
     \<lparr>df_dist = \<lparr>ds_sinks = [], ds_store = store\<rparr>, df_max_skip_duration = max_skip_duration, df_last_msg_time = 0,
      df_last_msg_payload = [], df_skip_counter = 0, df_skipped_msg_log_level = lv_off\<rparr>"

definition dup_filter :: "log_msg \<Rightarrow> 'k dup_filter_sink \<Rightarrow> bool" where
  "dup_filter msg s \<longleftrightarrow>
     lm_time msg - df_last_msg_time s > df_max_skip_duration s * 1000 \<or> lm_payload msg \<noteq> df_last_msg_payload s"

definition on_dist :: "('k dist_sink, unit) op \<Rightarrow> ('k dup_filter_sink, unit) op" where
  "on_dist m s = (case m (df_dist s) of (r, d) \<Rightarrow> (r, s\<lparr>df_dist := d\<rparr>))"

text \<open>\<open>snprintf\<close> of \<open>static_cast<unsigned>(skip_counter_)\<close>: at most 41 of the 64 bytes.\<close>

definition skipped_text :: "nat \<Rightarrow> bytes" where
  "skipped_text counter = str ''Skipped '' @ dec_digits (counter mod 2 ^ 32) @ str '' duplicate messages..''"

definition dup_sink_it :: "log_env \<Rightarrow> 'k sink_ops \<Rightarrow> log_msg \<Rightarrow> ('k dup_filter_sink, unit) op" where
  "dup_sink_it e ops msg s =
     (if \<not> dup_filter msg s then
        (Inr (), s\<lparr>df_skip_counter := (df_skip_counter s + 1) mod size_t_range, df_skipped_msg_log_level := lm_level msg\<rparr>)
      else
        sbind (if df_skip_counter s > 0 \<and> length (skipped_text (df_skip_counter s)) < 64
               then on_dist (dist_sink_it ops
                      (log_msg_now e (lm_source msg) (lm_logger_name msg) (df_skipped_msg_log_level s) (skipped_text (df_skip_counter s))))
               else sreturn ()) (\<lambda>_.
        sbind (on_dist (dist_sink_it ops msg)) (\<lambda>_.
          supdate (\<lambda>s. s\<lparr>df_last_msg_time := lm_time msg, df_skip_counter := 0, df_last_msg_payload := lm_payload msg\<rparr>))) s)"

subsection \<open>The ring buffer keeps the newest messages\<close>

lemma cq_at_contents: "cq_wf q \<Longrightarrow> i < length (cq_contents q) \<Longrightarrow> cq_at i q = Inr (cq_contents q ! i)"
  by (cases "cq_max_items q = 0") (auto simp: cq_at_def cq_wf_def contents_nth cq_size_def Let_def)

lemma items_at_contents:
  "cq_wf q \<Longrightarrow> set is \<subseteq> {..<length (cq_contents q)} \<Longrightarrow> items_at q is = Inr (map (\<lambda>i. cq_contents q ! i) is)"
  by (induction "is") (auto simp: cq_at_contents)

lemma map_nth_suffix: "n \<le> length xs \<Longrightarrow> map (\<lambda>i. xs ! i) [length xs - n..<length xs] = drop (length xs - n) xs"
  by (rule nth_equalityI) auto

lemma last_raw_newest:
  assumes "cq_wf (bk_state s)"
  shows "last_raw limit s = (Inr (newest (if limit > 0 then limit else cq_size (bk_state s)) (cq_contents (bk_state s))), s)"
proof -
  let ?q = "bk_state s"
  define n where "n = (if limit > 0 then min limit (cq_size ?q) else cq_size ?q)"
  have n: "n \<le> length (cq_contents ?q)" by (simp add: n_def)
  have r: "last_range limit ?q = [length (cq_contents ?q) - n..<length (cq_contents ?q)]"
    by (simp add: last_range_def n_def Let_def)
  have "items_at ?q (last_range limit ?q) = Inr (drop (length (cq_contents ?q) - n) (cq_contents ?q))"
    unfolding r using map_nth_suffix[OF n] by (subst items_at_contents[OF assms]) auto
  then show ?thesis by (auto simp: last_raw_def newest_def n_def min_def)
qed

lemma newest_newest_min: "newest a (newest b xs) = newest (min a b) xs"
proof -
  have "length xs - b + (length xs - (length xs - b) - a) = length xs - min a b" by (simp add: min_def) arith
  then show ?thesis by (simp add: newest_def add.commute)
qed

lemma ringbuffer_logs:
  assumes "cq_wf (bk_state s)" "cq_capacity (bk_state s) = n" "cq_contents (bk_state s) = newest n (map new_log_msg_buffer old)"
  shows "\<exists>s'. each ringbuffer_sink_it ms s = (Inr (), s') \<and> cq_wf (bk_state s') \<and> cq_capacity (bk_state s') = n \<and>
    bk_formatter s' = bk_formatter s \<and> cq_contents (bk_state s') = newest n (map new_log_msg_buffer (old @ ms))"
  using assms
proof (induction ms arbitrary: s old)
  case (Cons m ms)
  obtain q where q: "cq_push_back (new_log_msg_buffer m) (bk_state s) = Inr q" "cq_wf q" "cq_capacity q = n"
      "cq_contents q = newest n (cq_contents (bk_state s) @ [new_log_msg_buffer m])"
    using cq.push_law[OF Cons.prems(1), of "new_log_msg_buffer m"] Cons.prems(2) by auto
  have "cq_contents q = newest n (map new_log_msg_buffer (old @ [m]))"
    using q(4) Cons.prems(3) by (simp add: newest_newest)
  from Cons.IH[of "s\<lparr>bk_state := q\<rparr>" "old @ [m]"] this q show ?case by (simp add: ringbuffer_sink_it_def)
qed (simp add: sreturn_def)

text \<open>
  A ring buffer sink for \<open>n\<close> messages: after any messages were logged, \<open>last_raw\<close> gives the newest ones, in the
  order they were logged, as many as were asked for (0 for all) and as there are, never more than \<open>n\<close>; what it
  gives are owning copies that read as the messages did.
\<close>

theorem ringbuffer_keeps_newest:
  assumes "n + 1 < size_t_range"
  shows "\<exists>s. each ringbuffer_sink_it ms (new_base_sink f (new_ringbuffer_sink n)) = (Inr (), s) \<and>
    (\<exists>bs. last_raw limit s = (Inr bs, s) \<and>
       map update_string_views bs = newest (if limit > 0 then min limit n else n) ms)"
proof -
  have c: "cq_wf (new_ringbuffer_sink n) \<and> cq_capacity (new_ringbuffer_sink n) = n \<and> cq_contents (new_ringbuffer_sink n) = []"
    using cq_circular[OF assms] by (simp add: new_ringbuffer_sink_def)
  then obtain s where s: "each ringbuffer_sink_it ms (new_base_sink f (new_ringbuffer_sink n)) = (Inr (), s)" "cq_wf (bk_state s)"
      "cq_capacity (bk_state s) = n" "cq_contents (bk_state s) = newest n (map new_log_msg_buffer ms)"
    using ringbuffer_logs[of "new_base_sink f (new_ringbuffer_sink n)" n "[]" ms] by (auto simp: new_base_sink_def newest_def)
  have "newest (if limit > 0 then limit else cq_size (bk_state s)) (newest n ms) = newest (if limit > 0 then min limit n else n) ms"
    using arg_cong[OF s(4), of length] by (auto simp: newest_newest_min) (auto simp: newest_def)
  then show ?thesis
    using s last_raw_newest[OF s(2), of limit]
    by (intro exI[of _ s]) (auto simp: newest_map[symmetric] comp_def)
qed

theorem ringbuffer_keeps_newest_witness:
  "\<exists>s. each ringbuffer_sink_it [sample_line_msg, sample_line_msg\<lparr>lm_time := 1\<rparr>, sample_line_msg\<lparr>lm_time := 2\<rparr>]
        (new_base_sink () (new_ringbuffer_sink 2)) = (Inr (), s) \<and>
    (\<exists>bs. last_raw 0 s = (Inr bs, s) \<and> map update_string_views bs = [sample_line_msg\<lparr>lm_time := 1\<rparr>, sample_line_msg\<lparr>lm_time := 2\<rparr>])"
  using ringbuffer_keeps_newest[of 2 "[sample_line_msg, sample_line_msg\<lparr>lm_time := 1\<rparr>, sample_line_msg\<lparr>lm_time := 2\<rparr>]" "()" 0]
  by (simp add: size_t_range_def newest_def)

subsection \<open>What the sinks owe to the contract of the formatter\<close>

context formatter_contract
begin

lemma base_format_ok:
  assumes "wf (bk_formatter s)" "ok msg"
  shows "\<exists>r s'. base_format F msg s = (Inr r, s') \<and> wf (bk_formatter s') \<and> bk_state s' = bk_state s"
  using format_law[OF assms, of "[]"] by (auto simp: base_format_def)

lemma ostream_ok:
  assumes "wf (bk_formatter s)" "ok msg"
  shows "\<exists>s'. ostream_sink_it F msg s = (Inr (), s') \<and> wf (bk_formatter s')"
proof -
  obtain m formatted s1 where 1: "base_format F msg s = (Inr (m, formatted), s1)" "wf (bk_formatter s1)"
    using base_format_ok[OF assms] by auto
  then show ?thesis by (simp add: ostream_sink_it_def on_base_def supdate_def sreturn_def sget_def sbind_def)
qed

lemma set_formatter_ok:
  "wf (bk_formatter s) \<Longrightarrow> wf (bk_formatter (base_set_pattern F p s))"
  "wf f \<Longrightarrow> wf (bk_formatter (base_set_formatter f s))"
  by (simp_all add: base_set_pattern_def base_set_formatter_def pattern_law)

lemma format_items_ok:
  assumes "wf (bk_formatter s)" "cq_wf (bk_state s)" "set is \<subseteq> {..<length (cq_contents (bk_state s))}"
    "\<forall>b\<in>set (cq_contents (bk_state s)). ok (update_string_views b)"
  shows "\<exists>texts s'. format_items F is s = (Inr texts, s') \<and> length texts = length is \<and> wf (bk_formatter s') \<and> bk_state s' = bk_state s"
  using assms
proof (induction "is" arbitrary: s)
  case (Cons i "is")
  let ?b = "cq_contents (bk_state s) ! i"
  have at: "cq_at i (bk_state s) = Inr ?b" using Cons.prems(2,3) by (simp add: cq_at_contents)
  have "ok (update_string_views ?b)" using Cons.prems(3,4) by simp
  from base_format_ok[OF Cons.prems(1) this] obtain m formatted s1 where
      1: "base_format F (update_string_views ?b) s = (Inr (m, formatted), s1)" "wf (bk_formatter s1)" "bk_state s1 = bk_state s"
    by auto
  have "set is \<subseteq> {..<length (cq_contents (bk_state s1))}" using Cons.prems(3) 1(3) by simp
  from Cons.IH[OF 1(2) _ this] Cons.prems(2,4) 1(3) obtain texts s2 where
      2: "format_items F is s1 = (Inr texts, s2)" "length texts = length is" "wf (bk_formatter s2)" "bk_state s2 = bk_state s1"
    by auto
  have "format_items F (i # is) s = (Inr (formatted # texts), s2)"
    using at 1(1) 2(1) by (simp add: sbind_def sreturn_def)
  with 1 2 show ?case by auto
qed (simp add: sreturn_def)

lemma last_formatted_ok:
  assumes "wf (bk_formatter s)" "cq_wf (bk_state s)" "\<forall>b\<in>set (cq_contents (bk_state s)). ok (update_string_views b)"
  shows "\<exists>texts s'. last_formatted F limit s = (Inr texts, s') \<and>
    length texts = (if limit > 0 then min limit (cq_size (bk_state s)) else cq_size (bk_state s)) \<and> wf (bk_formatter s')"
proof -
  have "set (last_range limit (bk_state s)) \<subseteq> {..<length (cq_contents (bk_state s))}"
    by (auto simp: last_range_def Let_def)
  from format_items_ok[OF assms(1,2) this assms(3)] show ?thesis
    by (auto simp: last_formatted_def last_range_def Let_def)
qed

end

subsection \<open>Colours\<close>

lemma print_range_ok:
  "a \<le> b \<Longrightarrow> b \<le> length t \<Longrightarrow> print_range t a b s = (Inr (), s\<lparr>ac_out := ac_out s @ take (b - a) (drop a t)\<rparr>)"
  by (simp add: print_range_def supdate_def)

text \<open>The level name stands in the full line, at the range that is marked.\<close>

lemma format_mdc_extends:
  "format_mdc Null no_padding m dest = Inr d \<Longrightarrow> \<exists>t. d = dest @ t"
proof (induction m arbitrary: dest)
  case (Cons kv m)
  obtain t where "d = run_writes ([append_view (fst kv), append_view [58], append_view (snd kv)] @
      (if m = [] then [] else [append_view [32]])) dest @ t"
    using Cons.IH Cons.prems by (cases kv) (auto simp: Let_def)
  then show ?case by (auto simp: append_text split: if_splits)
qed simp

lemma full_format_marks_level:
  assumes "full_format ctx msg t s dest = Inr (s', msg', d)"
  shows "\<exists>pre post. d = pre @ to_string_view (lm_level msg) @ post \<and>
    msg' = msg\<lparr>lm_color_range_start := length pre, lm_color_range_end := length pre + length (to_string_view (lm_level msg))\<rparr>"
proof -
  let ?pre = "full_head msg (refresh_datetime msg t s) dest" and ?name = "to_string_view (lm_level msg)"
  have m: "msg' = msg\<lparr>lm_color_range_start := length ?pre, lm_color_range_end := length ?pre + length ?name\<rparr>"
    using assms by (auto simp: full_format_def Let_def append_text rbind_Inr_iff)
  obtain u where "d = ?pre @ ?name @ u"
  proof (cases "ctx = []")
    case True
    with assms show thesis
      by (cases "source_empty (lm_source msg)") (auto simp: full_format_def Let_def append_text append_int_def rbind_Inr_iff intro: that)
  next
    case False
    obtain w d7 where d7: "format_mdc Null no_padding ctx (?pre @ ?name @ w) = Inr d7" "d = d7 @ [93, 32] @ lm_payload msg"
      using assms False by (cases "source_empty (lm_source msg)")
        (auto simp: full_format_def Let_def append_text append_int_def rbind_Inr_iff)
    from format_mdc_extends[OF d7(1)] obtain v where "d7 = (?pre @ ?name @ w) @ v" by auto
    with d7(2) have "d = ?pre @ ?name @ (w @ v @ [93, 32] @ lm_payload msg)" by simp
    then show thesis by (rule that)
  qed
  with m show ?thesis by blast
qed

lemma ansicolor_log_marked:
  assumes "fo_format F (msg\<lparr>lm_color_range_start := 0, lm_color_range_end := 0\<rparr>) [] (ac_formatter s) = Inr (msg', pre @ name @ post, f)"
    "lm_color_range_start msg' = length pre" "lm_color_range_end msg' = length pre + length name" "name \<noteq> []"
  shows "ansicolor_log F msg s = (Inr (), s\<lparr>ac_formatter := f, ac_out := ac_out s @ pre @
    (if ac_should_do_colors s then ac_colors s ! level_value (lm_level msg') @ name @ color_reset else name) @ post\<rparr>)"
proof -
  have p: "0 < length name" using assms(4) by simp
  show ?thesis
    using assms(1-3) p by (simp add: ansicolor_log_def Let_def print_range_ok print_ccode_def supdate_def)
qed

text \<open>
  The coloured console with the default line: whatever the message and whatever the formatter has cached, the name of
  the level, and nothing else, is printed between the colour of the level and the code that resets it; with
  colours off the same line is printed without them.
\<close>

theorem console_colours_the_level:
  assumes "pf_formatters (ac_formatter s) = [full_formatter pd fs]" "source_ok msg"
  shows "\<exists>pre post f. pf_out U e (msg\<lparr>lm_color_range_start := 0, lm_color_range_end := 0\<rparr>) [] (ac_formatter s) =
      Inr (msg\<lparr>lm_color_range_start := length pre, lm_color_range_end := length pre + length (to_string_view (lm_level msg))\<rparr>,
           pre @ to_string_view (lm_level msg) @ post) \<and>
    ansicolor_log (pattern_ops U e) msg s = (Inr (), s\<lparr>ac_formatter := f, ac_out := ac_out s @ pre @
      (if ac_should_do_colors s then ac_colors s ! level_value (lm_level msg) @ to_string_view (lm_level msg) @ color_reset
       else to_string_view (lm_level msg)) @ post\<rparr>)"
proof -
  let ?m = "msg\<lparr>lm_color_range_start := 0, lm_color_range_end := 0\<rparr>" and ?pf = "ac_formatter s" and ?name = "to_string_view (lm_level msg)"
  let ?q = "refresh_time e ?m ?pf"
  have ok: "source_ok ?m" using assms(2) by (simp add: source_ok_def)
  obtain s' m' d where full: "full_format (fe_mdc e) ?m (pf_cached_tm ?q) fs [] = Inr (s', m', d)"
    using full_format_defined[OF ok] by blast
  from full_format_marks_level[OF full] obtain pre post where
    m: "d = pre @ ?name @ post" "m' = msg\<lparr>lm_color_range_start := length pre, lm_color_range_end := length pre + length ?name\<rparr>"
    by auto
  have q: "pf_formatters ?q = [full_formatter pd fs]" using assms(1) by (simp add: refresh_time_def Let_def)
  have f: "pf_format U e ?m [] ?pf = Inr (m', pre @ ?name @ (post @ pf_eol ?q), ?q\<lparr>pf_formatters := [full_formatter pd s']\<rparr>)"
    using full m q by (simp add: pf_format_def Let_def append_text)
  then have "pf_out U e ?m [] ?pf = Inr (m', pre @ ?name @ (post @ pf_eol ?q))" by (simp add: pf_out_def)
  moreover have "?name \<noteq> []" by (cases "lm_level msg") (simp_all add: str_def)
  then have "ansicolor_log (pattern_ops U e) msg s = (Inr (), s\<lparr>ac_formatter := ?q\<lparr>pf_formatters := [full_formatter pd s']\<rparr>, ac_out := ac_out s @ pre @
      (if ac_should_do_colors s then ac_colors s ! level_value (lm_level m') @ ?name @ color_reset else ?name) @ post @ pf_eol ?q\<rparr>)"
    using f m(2) by (intro ansicolor_log_marked) (simp_all add: pattern_ops_def)
  moreover have "lm_level m' = lm_level msg" by (simp add: m(2))
  ultimately show ?thesis unfolding m(2) by auto
qed

theorem console_colours_the_level_witness:
  "\<exists>pre post f. pf_out no_custom sample_fmt_env (sample_line_msg\<lparr>lm_color_range_start := 0, lm_color_range_end := 0\<rparr>) [] (default_pattern_formatter time_utc [10]) =
      Inr (sample_line_msg\<lparr>lm_color_range_start := length pre, lm_color_range_end := length pre + length (to_string_view lv_warn)\<rparr>,
           pre @ to_string_view lv_warn @ post) \<and>
    ansicolor_log (pattern_ops no_custom sample_fmt_env) sample_line_msg (new_ansicolor_sink True color_automatic (default_pattern_formatter time_utc [10])) =
      (Inr (), (new_ansicolor_sink True color_automatic (default_pattern_formatter time_utc [10]))\<lparr>ac_formatter := f,
         ac_out := [] @ pre @ ((esc ''33m'' @ esc ''1m'') @ to_string_view lv_warn @ color_reset) @ post\<rparr>)"
  using console_colours_the_level[of "new_ansicolor_sink True color_automatic (default_pattern_formatter time_utc [10])" no_padding new_full_state
      sample_line_msg no_custom sample_fmt_env] sample_ok(3)
  by (simp add: new_ansicolor_sink_def default_pattern_formatter_def push_formatter_def color_mode_on_def default_colors_def sample_line_msg_def)

text \<open>A cut that reaches into the coloured text leaves a range that ends beyond the line: the sink reads past its buffer.\<close>

lemma colour_range_beyond_line:
  "fst (ansicolor_log (pattern_ops no_custom sample_fmt_env) sample_line_msg
     (new_ansicolor_sink True color_always
       (new_pattern_formatter no_custom sample_fmt_env (str ''%^AB%$%0!c%0!c'') time_utc [10] Map.empty))) = Inl Undefined"
  by code_simp

subsection \<open>The duplicate filter accounts for every message\<close>

datatype dup_event = Shown log_msg | Skipped nat log_msg

fun event_msg :: "dup_event \<Rightarrow> log_msg" where
  "event_msg (Shown m) = m"
| "event_msg (Skipped n m) = m"

fun shown :: "dup_event list \<Rightarrow> log_msg list" where
  "shown [] = []"
| "shown (Shown m # es) = m # shown es"
| "shown (Skipped n m # es) = shown es"

fun skipped :: "dup_event list \<Rightarrow> nat" where
  "skipped [] = 0"
| "skipped (Shown m # es) = skipped es"
| "skipped (Skipped n m # es) = n + skipped es"

lemma shown_append [simp]: "shown (es @ fs) = shown es @ shown fs"
  by (induction es rule: shown.induct) auto

lemma skipped_append [simp]: "skipped (es @ fs) = skipped es + skipped fs"
  by (induction es rule: skipped.induct) auto

definition dup_events :: "log_env \<Rightarrow> log_msg \<Rightarrow> 'k dup_filter_sink \<Rightarrow> dup_event list" where
  "dup_events e msg s =
     (if \<not> dup_filter msg s then []
      else (if df_skip_counter s > 0 then [Skipped (df_skip_counter s)
              (log_msg_now e (lm_source msg) (lm_logger_name msg) (df_skipped_msg_log_level s) (skipped_text (df_skip_counter s)))] else []) @
           [Shown msg])"

definition dup_next :: "log_msg \<Rightarrow> 'k dup_filter_sink \<Rightarrow> 'k dup_filter_sink" where
  "dup_next msg s =
     (if \<not> dup_filter msg s
      then s\<lparr>df_skip_counter := (df_skip_counter s + 1) mod size_t_range, df_skipped_msg_log_level := lm_level msg\<rparr>
      else s\<lparr>df_last_msg_time := lm_time msg, df_skip_counter := 0, df_last_msg_payload := lm_payload msg\<rparr>)"

lemma skipped_text_short: "length (skipped_text n) < 64"
proof -
  have "n mod 2 ^ 32 < 2 ^ 64" by (rule less_trans[of _ "2 ^ 32"]) simp_all
  then have "length (dec_digits (n mod 2 ^ 32)) \<le> 20" by (rule length_dec_digits_64)
  then show ?thesis by (simp add: skipped_text_def str_def)
qed

lemma dup_sink_it_events:
  assumes "dup_sink_it e ops msg s = (Inr (), s')"
  shows "s' = (dup_next msg s)\<lparr>df_dist := df_dist s'\<rparr> \<and>
    each (dist_sink_it ops) (map event_msg (dup_events e msg s)) (df_dist s) = (Inr (), df_dist s')"
  using assms
  by (auto simp: dup_sink_it_def dup_next_def dup_events_def skipped_text_short on_dist_def supdate_def sreturn_def sbind_eq
      split: if_splits prod.splits)

primrec dup_run :: "'k sink_ops \<Rightarrow> (log_env \<times> log_msg) list \<Rightarrow> ('k dup_filter_sink, unit) op" where
  "dup_run ops [] = sreturn ()"
| "dup_run ops (em # ms) = sbind (dup_sink_it (fst em) ops (snd em)) (\<lambda>_. dup_run ops ms)"

lemma dup_events_account:
  assumes "df_skip_counter s + 1 < size_t_range"
  shows "length (shown (dup_events e msg s)) + skipped (dup_events e msg s) + df_skip_counter (dup_next msg s) = df_skip_counter s + 1"
    "df_last_msg_payload (dup_next msg s) =
       (if shown (dup_events e msg s) = [] then df_last_msg_payload s else lm_payload (last (shown (dup_events e msg s))))"
    "subseq (shown (dup_events e msg s)) [msg]"
  using assms by (auto simp: dup_events_def dup_next_def)

lemma dup_run_events:
  assumes "dup_run ops ms s = (Inr (), s')" "df_skip_counter s + length ms < size_t_range"
  shows "\<exists>evs. each (dist_sink_it ops) (map event_msg evs) (df_dist s) = (Inr (), df_dist s') \<and>
    length (shown evs) + skipped evs + df_skip_counter s' = df_skip_counter s + length ms \<and>
    df_last_msg_payload s' = (if shown evs = [] then df_last_msg_payload s else lm_payload (last (shown evs))) \<and>
    subseq (shown evs) (map snd ms)"
  using assms
proof (induction ms arbitrary: s)
  case Nil
  then show ?case by (intro exI[of _ "[]"]) (simp add: sreturn_def)
next
  case (Cons em ms)
  obtain e msg where em: "em = (e, msg)" by (cases em)
  with Cons.prems(1) obtain s1 where 1: "dup_sink_it e ops msg s = (Inr (), s1)" "dup_run ops ms s1 = (Inr (), s')"
    by (auto simp: sbind_eq)
  note step = dup_sink_it_events[OF 1(1)]
  have c: "df_skip_counter s1 = df_skip_counter (dup_next msg s)" "df_last_msg_payload s1 = df_last_msg_payload (dup_next msg s)"
    using step by (metis dup_filter_sink.select_convs dup_filter_sink.surjective dup_filter_sink.update_convs(1))+
  have lt: "df_skip_counter s + 1 < size_t_range" "df_skip_counter s1 + length ms < size_t_range"
    using Cons.prems(2) c(1) dup_events_account(1)[where s = s and e = e and msg = msg] by simp_all
  from Cons.IH[OF 1(2) lt(2)] obtain evs where
    evs: "each (dist_sink_it ops) (map event_msg evs) (df_dist s1) = (Inr (), df_dist s')"
      "length (shown evs) + skipped evs + df_skip_counter s' = df_skip_counter s1 + length ms"
      "df_last_msg_payload s' = (if shown evs = [] then df_last_msg_payload s1 else lm_payload (last (shown evs)))"
      "subseq (shown evs) (map snd ms)" by blast
  let ?evs = "dup_events e msg s @ evs"
  note acc = dup_events_account[OF lt(1), where e = e and msg = msg]
  have "each (dist_sink_it ops) (map event_msg ?evs) (df_dist s) = (Inr (), df_dist s')"
    using step evs(1) by (simp add: each_append)
  moreover have "length (shown ?evs) + skipped ?evs + df_skip_counter s' = df_skip_counter s + length (em # ms)"
    using evs(2) acc(1) c(1) by simp
  moreover have "df_last_msg_payload s' = (if shown ?evs = [] then df_last_msg_payload s else lm_payload (last (shown ?evs)))"
    using evs(3) acc(2) c(2) by simp
  moreover have "subseq (shown ?evs) (map snd (em # ms))"
    using list_emb_append_mono[OF acc(3) evs(4)] em by simp
  ultimately show ?case by blast
qed

text \<open>
  The duplicate filter: of the messages logged through it, in a run in which no sink behind it throws, those handed on
  are in their order, the last of them is the one new messages are compared with, and each other message is
  counted: handed on, counted in a \<open>Skipped n duplicate messages\<close> line, or pending in the counter.
\<close>

theorem duplicates_are_accounted_for:
  assumes "dup_run ops ms ((new_dup_filter_sink max_skip store)\<lparr>df_dist := d\<rparr>) = (Inr (), s)" "length ms < size_t_range"
  shows "\<exists>evs. each (dist_sink_it ops) (map event_msg evs) d = (Inr (), df_dist s) \<and>
    length (shown evs) + skipped evs + df_skip_counter s = length ms \<and> subseq (shown evs) (map snd ms) \<and>
    (shown evs \<noteq> [] \<longrightarrow> df_last_msg_payload s = lm_payload (last (shown evs)))"
proof -
  have "df_skip_counter ((new_dup_filter_sink max_skip store)\<lparr>df_dist := d\<rparr>) + length ms < size_t_range"
    using assms(2) by (simp add: new_dup_filter_sink_def)
  from dup_run_events[OF assms(1) this] show ?thesis by (auto simp: new_dup_filter_sink_def)
qed

definition keeping_sink :: "log_msg list sink_ops" where
  "keeping_sink = \<lparr>so_log = (\<lambda>m st. (Inr (), st @ [m])), so_flush = (\<lambda>st. (Inr (), st))\<rparr>"

definition sample_dup :: "log_msg list dup_filter_sink" where
  "sample_dup = (new_dup_filter_sink 5000000 (\<lambda>_. new_sink []))\<lparr>df_dist := \<lparr>ds_sinks = [0], ds_store = (\<lambda>_. new_sink [])\<rparr>\<rparr>"

definition sample_log_env :: log_env where
  "sample_log_env = \<lparr>le_now = 9, le_thread_id = 1, le_date = (\<lambda>_. [])\<rparr>"

definition sample_dup_msgs :: "(log_env \<times> log_msg) list" where
  "sample_dup_msgs = map (\<lambda>m. (sample_log_env, m)) [sample_line_msg, sample_line_msg, sample_line_msg, sample_line_msg\<lparr>lm_payload := [66]\<rparr>]"

lemma keeping_dist: "\<exists>d'. dist_sink_it keeping_sink m d = (Inr (), d')"
proof -
  have "\<exists>u'. (if sink_should_log (lm_level m) (ds_store u k) then on_sub_sink k (so_log keeping_sink m) u else (Inr (), u)) = (Inr (), u') \<and> True"
    for k and u :: "log_msg list dist_sink"
    by (simp add: on_sub_sink_def keeping_sink_def)
  from each_total[of "\<lambda>_. True", OF this TrueI] show ?thesis by (simp add: dist_sink_it_def)
qed

lemma keeping_run: "\<exists>s'. dup_run keeping_sink ms s = (Inr (), s')"
proof (induction ms arbitrary: s)
  case (Cons em ms)
  have on: "\<exists>s'. on_dist (dist_sink_it keeping_sink m) s = (Inr (), s')" for m and s :: "log_msg list dup_filter_sink"
    using keeping_dist[of m "df_dist s"] by (auto simp: on_dist_def)
  have "\<exists>s'. dup_sink_it e keeping_sink m s = (Inr (), s')" for e m and s :: "log_msg list dup_filter_sink"
  proof -
    let ?a = "if df_skip_counter s > 0 \<and> length (skipped_text (df_skip_counter s)) < 64
        then on_dist (dist_sink_it keeping_sink
          (log_msg_now e (lm_source m) (lm_logger_name m) (df_skipped_msg_log_level s) (skipped_text (df_skip_counter s))))
        else sreturn ()"
    obtain s1 where "?a s = (Inr (), s1)" using on by (fastforce simp: sreturn_def)
    moreover obtain s2 where "on_dist (dist_sink_it keeping_sink m) s1 = (Inr (), s2)" using on by blast
    ultimately show ?thesis by (simp add: dup_sink_it_def supdate_def)
  qed
  then obtain s1 where "dup_sink_it (fst em) keeping_sink (snd em) s = (Inr (), s1)" by blast
  then show ?case using Cons.IH[of s1] by simp
qed (simp add: sreturn_def)

lemma sample_dup_runs: "fst (dup_run keeping_sink sample_dup_msgs sample_dup) = Inr ()"
  using keeping_run[of sample_dup_msgs sample_dup] by auto

theorem duplicates_are_accounted_for_witness:
  "\<exists>evs. each (dist_sink_it keeping_sink) (map event_msg evs) (df_dist sample_dup) =
        (Inr (), df_dist (snd (dup_run keeping_sink sample_dup_msgs sample_dup))) \<and>
    length (shown evs) + skipped evs + df_skip_counter (snd (dup_run keeping_sink sample_dup_msgs sample_dup)) = 4 \<and>
    subseq (shown evs) (map snd sample_dup_msgs) \<and>
    (shown evs \<noteq> [] \<longrightarrow> df_last_msg_payload (snd (dup_run keeping_sink sample_dup_msgs sample_dup)) = lm_payload (last (shown evs)))"
proof -
  have r: "dup_run keeping_sink sample_dup_msgs sample_dup = (Inr (), snd (dup_run keeping_sink sample_dup_msgs sample_dup))"
    using sample_dup_runs by (metis prod.collapse)
  have l: "length sample_dup_msgs = 4" by (simp add: sample_dup_msgs_def)
  show ?thesis
    using duplicates_are_accounted_for[OF r[unfolded sample_dup_def]] unfolding sample_dup_def[symmetric] l
    by (simp add: size_t_range_def sample_dup_def)
qed

end
