(* ===== verification/Daily_Sink.thy ===== *)
theory Daily_Sink
  imports Sinks
begin

text \<open>
  \<open>spdlog/sinks/daily_file_sink.h\<close> and \<open>hourly_file_sink.h\<close>: a new file every day at a given time, or every hour, and at
  most so many files kept. The calendar of the process, \<open>localtime\<close> and \<open>mktime\<close>, and the clock are an argument of
  each call; the clock is read once in a call. The rule that makes a file name of a date is a template parameter.
\<close>

subsection \<open>What the two sinks share\<close>

record day_env =
  de_now :: int
  de_localtime :: "int \<Rightarrow> std_tm"
  de_mktime :: "std_tm \<Rightarrow> int"

abbreviation second :: int where
  "second \<equiv> 1000000000"

definition now_tm :: "day_env \<Rightarrow> int \<Rightarrow> std_tm" where
  "now_tm e tp = de_localtime e (to_seconds tp)"

definition fmt_zeros :: "nat \<Rightarrow> int \<Rightarrow> bytes" where
  "fmt_zeros width i = (if i < 0 then 45 # pad_zeros (width - 1) (nat (- i)) else pad_zeros width (nat i))"

definition daily_filename :: "path \<Rightarrow> std_tm \<Rightarrow> path" where
  "daily_filename filename t =
     (case split_by_extension filename of (base, ext) \<Rightarrow>
        base @ [95] @ fmt_zeros 4 (st_year t + 1900) @ [45] @ fmt_zeros 2 (st_mon t + 1) @ [45] @ fmt_zeros 2 (st_mday t) @ ext)"

definition hourly_filename :: "path \<Rightarrow> std_tm \<Rightarrow> path" where
  "hourly_filename filename t =
     (case split_by_extension filename of (base, ext) \<Rightarrow>
        base @ [95] @ fmt_zeros 4 (st_year t + 1900) @ [45] @ fmt_zeros 2 (st_mon t + 1) @ [45] @ fmt_zeros 2 (st_mday t) @ [95] @
        fmt_zeros 2 (st_hour t) @ ext)"

type_synonym filename_calc = "path \<Rightarrow> std_tm \<Rightarrow> path"

record 'f timed_file_sink =
  tf_base_filename :: path
  tf_rotation_tp :: int
  tf_helper :: file_helper
  tf_truncate :: bool
  tf_max_files :: nat
  tf_filenames_q :: "path circular_q"
  tf_formatter :: 'f

definition on_timed :: "(file_helper, 'a) op \<Rightarrow> (('f, 'z) timed_file_sink_scheme, 'a) op" where
  "on_timed m s = (case m (tf_helper s) of (r, h) \<Rightarrow> (r, s\<lparr>tf_helper := h\<rparr>))"

definition timed_format :: "'f formatter_ops \<Rightarrow> log_msg \<Rightarrow> (('f, 'z) timed_file_sink_scheme, bytes) op" where
  "timed_format F msg s =
     (case fo_format F msg [] (tf_formatter s) of
        Inl x \<Rightarrow> (Inl x, s)
      | Inr (_, formatted, f) \<Rightarrow> (Inr formatted, s\<lparr>tf_formatter := f\<rparr>))"

definition on_queue :: "(path circular_q \<Rightarrow> path circular_q result) \<Rightarrow> (('f, 'z) timed_file_sink_scheme, unit) op" where
  "on_queue f s = (case f (tf_filenames_q s) of Inl x \<Rightarrow> (Inl x, s) | Inr q \<Rightarrow> (Inr (), s\<lparr>tf_filenames_q := q\<rparr>))"

text \<open>The names of the files that exist, from now backwards, at most so many.\<close>

primrec existing_files :: "filename_calc \<Rightarrow> day_env \<Rightarrow> int \<Rightarrow> path \<Rightarrow> disk \<Rightarrow> nat \<Rightarrow> int \<Rightarrow> path list" where
  "existing_files calc e period base d 0 now = []"
| "existing_files calc e period base d (Suc n) now =
     (let filename = calc base (now_tm e now) in
      if \<not> path_exists filename d then [] else filename # existing_files calc e period base d n (now - period))"

definition init_filenames_q ::
  "filename_calc \<Rightarrow> day_env \<Rightarrow> int \<Rightarrow> (('f, 'z) timed_file_sink_scheme, unit) op" where
  "init_filenames_q calc e period =
     sbind (supdate (\<lambda>s. s\<lparr>tf_filenames_q := new_circular_q [] (tf_max_files s)\<rparr>)) (\<lambda>_.
     sbind (sget (\<lambda>s. existing_files calc e period (tf_base_filename s) (fh_disk (tf_helper s)) (tf_max_files s) (de_now e))) (\<lambda>filenames.
       each (\<lambda>name. on_queue (cq_push_back name)) (rev filenames)))"

definition remove_if_exists :: "path \<Rightarrow> (file_helper, bool) op" where
  "remove_if_exists p = sbind (sget (\<lambda>h. path_exists p (fh_disk h))) (\<lambda>exists.
     if exists then on_disk (os_remove p) else sreturn True)"

definition delete_old :: "bytes \<Rightarrow> (('f, 'z) timed_file_sink_scheme, unit) op" where
  "delete_old failed =
     sbind (sget (\<lambda>s. fh_filename (tf_helper s))) (\<lambda>current_file.
     sbind (sget (\<lambda>s. cq_full (tf_filenames_q s))) (\<lambda>full.
     sbind (if full then
              sbind (\<lambda>s. (cq_front (tf_filenames_q s), s)) (\<lambda>old_filename.
              sbind (on_queue cq_pop_front) (\<lambda>_.
              sbind (on_timed (remove_if_exists old_filename)) (\<lambda>ok.
                if ok then sreturn ()
                else sbind (on_queue (cq_push_back current_file)) (\<lambda>_. on_timed (throw_errno (failed @ old_filename))))))
            else sreturn ()) (\<lambda>_.
       on_queue (cq_push_back current_file))))"

subsection \<open>The daily sink\<close>

record 'f daily_file_sink = "'f timed_file_sink" +
  dl_rotation_h :: int
  dl_rotation_m :: int

definition daily_next_rotation_tp :: "day_env \<Rightarrow> int \<Rightarrow> int \<Rightarrow> int" where
  "daily_next_rotation_tp e rotation_h rotation_m =
     (let now = de_now e;
          date = (now_tm e now)\<lparr>st_hour := rotation_h, st_min := rotation_m, st_sec := 0\<rparr>;
          rotation_time = de_mktime e date * second
      in if rotation_time > now then rotation_time else rotation_time + 24 * 3600 * second)"

definition set_rotation_tp :: "day_env \<Rightarrow> ('f daily_file_sink, unit) op" where
  "set_rotation_tp e = supdate (\<lambda>s. s\<lparr>tf_rotation_tp := daily_next_rotation_tp e (dl_rotation_h s) (dl_rotation_m s)\<rparr>)"

definition new_daily_file_sink ::
  "filename_calc \<Rightarrow> day_env \<Rightarrow> path \<Rightarrow> int \<Rightarrow> int \<Rightarrow> bool \<Rightarrow> nat \<Rightarrow> file_event_kind set \<Rightarrow> 'f \<Rightarrow> disk \<Rightarrow> unit result \<times> 'f daily_file_sink" where
  "new_daily_file_sink calc e base_filename rotation_hour rotation_minute trunc max_files handlers f d =
     (if rotation_hour < 0 \<or> rotation_hour > 23 \<or> rotation_minute < 0 \<or> rotation_minute > 59
      then sthrow (spdlog_ex (str ''daily_file_sink: Invalid rotation time in ctor''))
      else sbind (on_timed (fh_open (calc base_filename (now_tm e (de_now e))) trunc)) (\<lambda>_.
           sbind (set_rotation_tp e) (\<lambda>_.
             if max_files > 0 then init_filenames_q calc e (24 * 3600 * second) else sreturn ())))
     \<lparr>tf_base_filename = base_filename, tf_rotation_tp = 0, tf_helper = new_file_helper handlers d, tf_truncate = trunc,
      tf_max_files = max_files, tf_filenames_q = cq_disabled, tf_formatter = f,
      dl_rotation_h = rotation_hour, dl_rotation_m = rotation_minute\<rparr>"

definition daily_delete_old :: "('f daily_file_sink, unit) op" where
  "daily_delete_old = delete_old (str ''Failed removing daily file '')"

definition daily_sink_it :: "filename_calc \<Rightarrow> day_env \<Rightarrow> 'f formatter_ops \<Rightarrow> log_msg \<Rightarrow> ('f daily_file_sink, unit) op" where
  "daily_sink_it calc e F msg =
     sbind (sget (\<lambda>s. lm_time msg \<ge> tf_rotation_tp s)) (\<lambda>should_rotate.
     sbind (if should_rotate then
              sbind (sget (\<lambda>s. calc (tf_base_filename s) (now_tm e (lm_time msg)))) (\<lambda>filename.
              sbind (sget tf_truncate) (\<lambda>trunc.
              sbind (on_timed (fh_open filename trunc)) (\<lambda>_. set_rotation_tp e)))
            else sreturn ()) (\<lambda>_.
     sbind (timed_format F msg) (\<lambda>formatted.
     sbind (on_timed (fh_write formatted)) (\<lambda>_.
     sbind (sget tf_max_files) (\<lambda>max_files.
       if should_rotate \<and> max_files > 0 then daily_delete_old else sreturn ())))))"

definition daily_flush :: "('f daily_file_sink, unit) op" where
  "daily_flush = on_timed fh_flush"

definition daily_current_filename :: "'f daily_file_sink \<Rightarrow> path" where
  "daily_current_filename s = fh_filename (tf_helper s)"

subsection \<open>The hourly sink\<close>

record 'f hourly_file_sink = "'f timed_file_sink" +
  hr_remove_init_file :: bool

definition hourly_next_rotation_tp :: "day_env \<Rightarrow> int" where
  "hourly_next_rotation_tp e =
     (let now = de_now e;
          date = (now_tm e now)\<lparr>st_min := 0, st_sec := 0\<rparr>;
          rotation_time = de_mktime e date * second
      in if rotation_time > now then rotation_time else rotation_time + 3600 * second)"

definition new_hourly_file_sink ::
  "filename_calc \<Rightarrow> day_env \<Rightarrow> path \<Rightarrow> bool \<Rightarrow> nat \<Rightarrow> file_event_kind set \<Rightarrow> 'f \<Rightarrow> disk \<Rightarrow> unit result \<times> 'f hourly_file_sink" where
  "new_hourly_file_sink calc e base_filename trunc max_files handlers f d =
     (sbind (on_timed (fh_open (calc base_filename (now_tm e (de_now e))) trunc)) (\<lambda>_.
      sbind (on_timed fh_size) (\<lambda>n.
      sbind (supdate (\<lambda>s. s\<lparr>hr_remove_init_file := (n = 0), tf_rotation_tp := hourly_next_rotation_tp e\<rparr>)) (\<lambda>_.
        if max_files > 0 then init_filenames_q calc e (3600 * second) else sreturn ()))))
     \<lparr>tf_base_filename = base_filename, tf_rotation_tp = 0, tf_helper = new_file_helper handlers d, tf_truncate = trunc,
      tf_max_files = max_files, tf_filenames_q = cq_disabled, tf_formatter = f, hr_remove_init_file = False\<rparr>"

definition hourly_delete_old :: "('f hourly_file_sink, unit) op" where
  "hourly_delete_old = delete_old (str ''Failed removing hourly file '')"

definition hourly_sink_it :: "filename_calc \<Rightarrow> day_env \<Rightarrow> 'f formatter_ops \<Rightarrow> log_msg \<Rightarrow> ('f hourly_file_sink, unit) op" where
  "hourly_sink_it calc e F msg =
     sbind (sget (\<lambda>s. lm_time msg \<ge> tf_rotation_tp s)) (\<lambda>should_rotate.
     sbind (if should_rotate then
              sbind (sget hr_remove_init_file) (\<lambda>remove_init_file.
              sbind (if remove_init_file then
                       sbind (supdate (\<lambda>s. s\<lparr>tf_helper := fh_close (tf_helper s)\<rparr>)) (\<lambda>_.
                       sbind (sget (\<lambda>s. fh_filename (tf_helper s))) (\<lambda>name.
                       sbind (on_timed (on_disk (os_remove name))) (\<lambda>_. sreturn ())))
                     else sreturn ()) (\<lambda>_.
              sbind (sget (\<lambda>s. calc (tf_base_filename s) (now_tm e (lm_time msg)))) (\<lambda>filename.
              sbind (sget tf_truncate) (\<lambda>trunc.
              sbind (on_timed (fh_open filename trunc)) (\<lambda>_.
                supdate (\<lambda>s. s\<lparr>tf_rotation_tp := hourly_next_rotation_tp e\<rparr>))))))
            else sreturn ()) (\<lambda>_.
     sbind (supdate (\<lambda>s. s\<lparr>hr_remove_init_file := False\<rparr>)) (\<lambda>_.
     sbind (timed_format F msg) (\<lambda>formatted.
     sbind (on_timed (fh_write formatted)) (\<lambda>_.
     sbind (sget tf_max_files) (\<lambda>max_files.
       if should_rotate \<and> max_files > 0 then hourly_delete_old else sreturn ()))))))"

definition hourly_flush :: "('f hourly_file_sink, unit) op" where
  "hourly_flush = on_timed fh_flush"

definition hourly_current_filename :: "'f hourly_file_sink \<Rightarrow> path" where
  "hourly_current_filename s = fh_filename (tf_helper s)"

subsection \<open>A file that is gone stays gone until it is opened again\<close>

definition gone :: "path \<Rightarrow> file_helper \<Rightarrow> bool" where
  "gone p h \<longleftrightarrow> dk_files (fh_disk h) p = None"

lemma mkdir_files [simp]: "dk_files (snd (mkdir p d)) = dk_files d"
  by (simp add: mkdir_def system_call_def Let_def)

lemma create_dirs_files: "dk_files (snd (create_dirs p off d)) = dk_files d"
proof (induction p off d rule: create_dirs.induct)
  case (1 p off d)
  define pos where "pos = (case find_first_of 47 p off of None \<Rightarrow> length p | Some pos \<Rightarrow> pos)"
  obtain ok d1 where m: "(if take pos p \<noteq> [] \<and> \<not> path_exists (take pos p) d then mkdir (take pos p) d else (True, d)) = (ok, d1)"
    by fastforce
  then have d1: "dk_files d1 = dk_files d" by (metis mkdir_files snd_conv)
  have eq: "create_dirs p off d =
      (if \<not> ok then (False, d1) else if pos + 1 < length p then create_dirs p (pos + 1) d1 else (True, d1))"
    using m by (subst create_dirs.simps) (simp add: Let_def flip: pos_def)
  show ?case
  proof (cases "ok \<and> pos + 1 < length p")
    case True
    then show ?thesis using "1.IH"[OF pos_def refl m[symmetric] refl] d1 eq by simp
  qed (use d1 eq in auto)
qed

lemma create_dir_files [simp]: "dk_files (snd (create_dir p d)) = dk_files d"
  by (simp add: create_dir_def create_dirs_files)

lemma gone_on_disk [keeps_rules]:
  "keeps (gone p) (on_disk (create_dir q))"
  "p \<noteq> q \<Longrightarrow> keeps (gone p) (on_disk (fopen_wb q))"
  "p \<noteq> q \<Longrightarrow> keeps (gone p) (on_disk (fopen_ab q))"
  "keeps (gone p) (on_disk (fwrite_bytes q buf))"
  "keeps (gone p) (on_disk (os_remove q))"
  "keeps (gone p) (throw_errno msg)"
  by (auto simp: keeps_def gone_def on_disk_def throw_errno_def fopen_wb_def fopen_ab_def fwrite_bytes_def os_remove_def
      system_call_def Let_def split: prod.split option.split if_splits) (metis create_dir_files snd_conv)

lemma file_event_disk [simp]: "dk_files (fh_disk (file_event k h)) = dk_files (fh_disk h)" "fh_filename (file_event k h) = fh_filename h"
  by (simp_all add: file_event_def)

lemma fh_close_disk [simp]: "dk_files (fh_disk (fh_close h)) = dk_files (fh_disk h)" "fh_filename (fh_close h) = fh_filename h"
  by (simp_all add: fh_close_def split: option.split)

lemma gone_try_open: "p \<noteq> f \<Longrightarrow> keeps (gone p) (try_open f t n)"
proof (induction n)
  case (Suc n)
  have "keeps (gone p) (supdate (\<lambda>h. file_event After_Open (h\<lparr>fh_fd := Some f\<rparr>)))"
    by (simp add: keeps_def supdate_def gone_def)
  with Suc show ?case by (simp only: try_open.simps) (auto intro!: keeps_rules)
qed (simp only: try_open.simps, intro keeps_rules)

lemma gone_fh_open: "p \<noteq> f \<Longrightarrow> keeps (gone p) (fh_open f t)"
proof -
  assume "p \<noteq> f"
  moreover have "keeps (gone p) (supdate (\<lambda>h. file_event Before_Open ((fh_close h)\<lparr>fh_filename := f\<rparr>)))"
    by (simp add: keeps_def supdate_def gone_def)
  ultimately show ?thesis unfolding fh_open_def by (intro keeps_rules gone_try_open)
qed

lemma gone_fh_write: "keeps (gone p) (fh_write b)"
  by (auto simp: fh_write_def intro!: keeps_rules split: option.split)

lemma name_try_open: "keeps (\<lambda>h. fh_filename h = f) (try_open f t n)"
proof (induction n)
  case (Suc n)
  have u: "keeps (\<lambda>h. fh_filename h = f) (supdate (\<lambda>h. file_event After_Open (h\<lparr>fh_fd := Some f\<rparr>)))"
    by (simp add: keeps_def supdate_def)
  have d: "keeps (\<lambda>h. fh_filename h = f) (on_disk g)" for g by (auto simp: keeps_def on_disk_def split: prod.split)
  from Suc u d show ?case by (simp only: try_open.simps) (auto intro!: keeps_rules)
qed (auto simp: keeps_def sbind_def sget_def throw_errno_def)

lemma fh_open_name: "fh_open f t h = (r, h') \<Longrightarrow> fh_filename h' = f"
  using keepsD[OF name_try_open[of f t open_tries], of "file_event Before_Open ((fh_close h)\<lparr>fh_filename := f\<rparr>)" r h']
  by (simp add: fh_open_def)

lemma fh_write_name: "fh_write b h = (r, h') \<Longrightarrow> fh_filename h' = fh_filename h"
  by (auto simp: fh_write_def on_disk_def throw_errno_def outcome_simps op_defs split: option.splits prod.splits if_splits)

lemma remove_if_exists_gone: "remove_if_exists p h = (Inr True, h') \<Longrightarrow> gone p h'"
  by (auto simp: remove_if_exists_def on_disk_def os_remove_def system_call_def gone_def path_exists_def sreturn_def sget_def sbind_def Let_def
      split: if_splits prod.splits)

lemma gone_remove_if_exists: "keeps (gone p) (remove_if_exists q)"
  by (auto simp: remove_if_exists_def intro!: keeps_rules)

subsection \<open>Retention\<close>

text \<open>
  Of the names \<open>created\<close> that were put into the queue, oldest first, the queue has the newest, and the files of the others
  are gone.
\<close>

definition retains :: "nat \<Rightarrow> path list \<Rightarrow> ('f, 'z) timed_file_sink_scheme \<Rightarrow> bool" where
  "retains n created s \<longleftrightarrow> cq_wf (tf_filenames_q s) \<and> cq_capacity (tf_filenames_q s) = n \<and> 0 < cq_max_items (tf_filenames_q s) \<and>
     cq_contents (tf_filenames_q s) = newest n created \<and> (\<forall>p\<in>set created - set (newest n created). gone p (tf_helper s))"

lemma on_timed_eq: "on_timed m s = (r, s') \<longleftrightarrow> (\<exists>h. m (tf_helper s) = (r, h) \<and> s' = s\<lparr>tf_helper := h\<rparr>)"
  by (auto simp: on_timed_def split: prod.split)

lemma on_queue_Inr: "on_queue f s = (Inr (), s') \<longleftrightarrow> (\<exists>q. f (tf_filenames_q s) = Inr q \<and> s' = s\<lparr>tf_filenames_q := q\<rparr>)"
  by (auto simp: on_queue_def split: sum.split)

lemma cq_full_length: "cq_wf q \<Longrightarrow> 0 < cq_max_items q \<Longrightarrow> cq_full q \<longleftrightarrow> length (cq_contents q) = cq_capacity q"
  using cq_full_iff[of q] by (auto simp: cq_capacity_def)

lemma newest_snoc: "newest n (newest n xs @ [x]) = newest n (xs @ [x])"
  by (rule newest_newest)

lemma set_newest_snoc: "0 < n \<Longrightarrow> set (newest n (xs @ [x])) = insert x (set (newest (n - 1) xs))"
  by (auto simp: newest_def)

lemma newest_split: "0 < n \<Longrightarrow> n \<le> length xs \<Longrightarrow> newest n xs = xs ! (length xs - n) # newest (n - 1) xs"
  by (simp add: newest_def Cons_nth_drop_Suc[symmetric] Suc_diff_le)

lemma newest_all: "length xs \<le> n \<Longrightarrow> newest n xs = xs"
  by (simp add: newest_def)

lemma delete_old_full:
  assumes "delete_old failed s = (Inr (), s')" "cq_full (tf_filenames_q s)"
  shows "\<exists>old q1 h q2. cq_front (tf_filenames_q s) = Inr old \<and> cq_pop_front (tf_filenames_q s) = Inr q1 \<and>
    remove_if_exists old (tf_helper s) = (Inr True, h) \<and> cq_push_back (fh_filename (tf_helper s)) q1 = Inr q2 \<and>
    s' = s\<lparr>tf_filenames_q := q2, tf_helper := h\<rparr>"
  using assms
  by (auto simp: delete_old_def sbind_eq sget_def sreturn_def on_timed_eq on_queue_Inr throw_errno_def split: if_splits)

lemma delete_old_room:
  assumes "delete_old failed s = (Inr (), s')" "\<not> cq_full (tf_filenames_q s)"
  shows "\<exists>q. cq_push_back (fh_filename (tf_helper s)) (tf_filenames_q s) = Inr q \<and> s' = s\<lparr>tf_filenames_q := q\<rparr>"
  using assms by (simp add: delete_old_def sget_def sreturn_def on_queue_Inr)

lemma push_max_items: "cq_push_back x q = Inr q' \<Longrightarrow> cq_max_items q' = cq_max_items q"
  by (auto simp: cq_push_back_def Let_def split: if_splits)

lemma delete_old_retains:
  assumes q: "cq_wf (tf_filenames_q s)" "cq_capacity (tf_filenames_q s) = n" "0 < cq_max_items (tf_filenames_q s)"
    "cq_contents (tf_filenames_q s) = newest n created"
    and g: "\<forall>p\<in>set created - set (newest n created). p \<noteq> fh_filename (tf_helper s) \<longrightarrow> gone p (tf_helper s)"
    and n: "0 < n" and d: "delete_old failed s = (Inr (), s')"
  shows "retains n (created @ [fh_filename (tf_helper s)]) s'"
proof (cases "cq_full (tf_filenames_q s)")
  case True
  let ?q = "tf_filenames_q s" and ?cur = "fh_filename (tf_helper s)"
  obtain old q1 h q2 where 1: "cq_front ?q = Inr old" "cq_pop_front ?q = Inr q1" "remove_if_exists old (tf_helper s) = (Inr True, h)"
      "cq_push_back ?cur q1 = Inr q2" "s' = s\<lparr>tf_filenames_q := q2, tf_helper := h\<rparr>"
    using delete_old_full[OF d True] by blast
  have len: "length (newest n created) = n" using True cq_full_length[OF q(1,3)] q(2,4) by simp
  then have ne: "cq_contents ?q \<noteq> []" using n q(4) by auto
  have q1: "cq_wf q1" "cq_contents q1 = tl (newest n created)" "old = hd (newest n created)" "cq_max_items q1 = cq_max_items ?q"
    using cq_pop_nonempty[OF q(1) ne] 1(1,2) q(4) by auto
  then have cap: "cq_capacity q1 = n" using q(2) by (simp add: cq_capacity_def)
  have tl: "tl (newest n created) @ [?cur] = newest n (created @ [?cur])"
  proof -
    have "newest n (created @ [?cur]) = newest n (newest n created @ [?cur])" by (simp add: newest_snoc)
    also have "\<dots> = tl (newest n created) @ [?cur]"
    proof -
      obtain a xs where a: "newest n created = a # xs" using len n by (cases "newest n created") auto
      have "n = Suc (length xs)" using len unfolding a by simp
      then show ?thesis unfolding a by (simp add: newest_def)
    qed
    finally show ?thesis by simp
  qed
  have "cq_contents q2 = newest n (tl (newest n created) @ [?cur]) \<and> cq_wf q2 \<and> cq_capacity q2 = n"
    using cq.push_law[OF q1(1), of ?cur] 1(4) q1(2) cap by auto
  moreover have "newest n (tl (newest n created) @ [?cur]) = newest n (created @ [?cur])"
    unfolding tl using len by (simp add: newest_newest_min)
  moreover have "gone p h" if p: "p \<in> set (created @ [?cur]) - set (newest n (created @ [?cur]))" for p
  proof -
    have "p \<noteq> ?cur" "p \<notin> set (tl (newest n created))" "p \<in> set created" using p unfolding tl[symmetric] by simp_all
    moreover have "gone old h" by (rule remove_if_exists_gone[OF 1(3)])
    moreover have "gone p h" if "gone p (tf_helper s)" by (rule keepsD[OF gone_remove_if_exists that 1(3)])
    moreover have "p = old" if "p \<in> set (newest n created)"
      using that ne q(4) q1(3) \<open>p \<notin> set (tl (newest n created))\<close> by (cases "newest n created") simp_all
    ultimately show ?thesis using g by blast
  qed
  ultimately show ?thesis using 1(5) push_max_items[OF 1(4)] q1(4) q(3) by (simp add: retains_def)
next
  case False
  let ?q = "tf_filenames_q s" and ?cur = "fh_filename (tf_helper s)"
  obtain q2 where 1: "cq_push_back ?cur ?q = Inr q2" "s' = s\<lparr>tf_filenames_q := q2\<rparr>"
    using delete_old_room[OF d False] by blast
  have "length (newest n created) < n"
    using False cq_full_length[OF q(1,3)] cq.bounded[OF q(1)] q(2,4) by simp
  then have l: "length created < n" by (auto simp: newest_def)
  have "cq_contents q2 = newest n (newest n created @ [?cur]) \<and> cq_wf q2 \<and> cq_capacity q2 = n"
    using cq.push_law[OF q(1), of ?cur] 1(1) q(2,4) by auto
  then show ?thesis
    using 1(2) push_max_items[OF 1(1)] q(3) l by (auto simp: retains_def newest_all newest_snoc)
qed

text \<open>Formatting and writing leave the queue, and what is gone, as they are.\<close>

lemma timed_format_Inr:
  "timed_format F msg s = (Inr b, s') \<Longrightarrow> \<exists>f. s' = s\<lparr>tf_formatter := f\<rparr>"
  by (auto simp: timed_format_def split: sum.splits prod.splits)

definition wrote :: "('f, 'z) timed_file_sink_scheme \<Rightarrow> ('f, 'z) timed_file_sink_scheme \<Rightarrow> bool" where
  "wrote s s' \<longleftrightarrow> tf_filenames_q s' = tf_filenames_q s \<and> fh_filename (tf_helper s') = fh_filename (tf_helper s) \<and>
     tf_max_files s' = tf_max_files s \<and> tf_base_filename s' = tf_base_filename s \<and> tf_rotation_tp s' = tf_rotation_tp s \<and>
     timed_file_sink.more s' = timed_file_sink.more s \<and> (\<forall>p. gone p (tf_helper s) \<longrightarrow> gone p (tf_helper s'))"

lemma write_text:
  assumes "sbind (timed_format F msg) (\<lambda>formatted. sbind (on_timed (fh_write formatted)) g) s = (Inr (), s')"
  shows "\<exists>s1. wrote s s1 \<and> g () s1 = (Inr (), s')"
proof -
  obtain b f where f: "timed_format F msg s = (Inr b, s\<lparr>tf_formatter := f\<rparr>)"
      and w: "sbind (on_timed (fh_write b)) g (s\<lparr>tf_formatter := f\<rparr>) = (Inr (), s')"
    using assms timed_format_Inr[of F msg s] by (auto simp: sbind_eq)
  then obtain h where h: "fh_write b (tf_helper s) = (Inr (), h)" "g () (s\<lparr>tf_formatter := f, tf_helper := h\<rparr>) = (Inr (), s')"
    by (auto simp: sbind_eq on_timed_eq)
  have "wrote s (s\<lparr>tf_formatter := f, tf_helper := h\<rparr>)"
    using fh_write_name[OF h(1)] keepsD[OF gone_fh_write _ h(1)] by (simp add: wrote_def)
  with h(2) show ?thesis by blast
qed

lemma retains_wrote: "retains n created s \<Longrightarrow> wrote s s' \<Longrightarrow> retains n created s'"
  by (auto simp: retains_def wrote_def)

text \<open>A file was opened: names that were gone are gone, but for the one that was opened.\<close>

lemma rotated_retains:
  assumes "retains n created s" "fh_open f t h = (Inr (), h')" "\<forall>p. gone p (tf_helper s) \<longrightarrow> gone p h"
    "tf_filenames_q s1 = tf_filenames_q s" "tf_helper s1 = h'" "wrote s1 s2" "delete_old failed s2 = (Inr (), s')" "0 < n"
  shows "retains n (created @ [f]) s'"
proof -
  have name: "fh_filename (tf_helper s2) = f" using fh_open_name[OF assms(2)] assms(5,6) by (simp add: wrote_def)
  have "gone p (tf_helper s2)" if "p \<in> set created - set (newest n created)" "p \<noteq> f" for p
    using that assms(1,3,5,6) keepsD[OF gone_fh_open[OF that(2)] _ assms(2)] by (auto simp: retains_def wrote_def)
  then show ?thesis
    using delete_old_retains[of s2 n created failed s'] assms(1,4,6-8) name by (auto simp: retains_def wrote_def)
qed

lemma daily_rotates:
  assumes "daily_sink_it calc e F msg s = (Inr (), s')" "lm_time msg \<ge> tf_rotation_tp s" "0 < tf_max_files s"
  shows "\<exists>h s2. fh_open (calc (tf_base_filename s) (now_tm e (lm_time msg))) (tf_truncate s) (tf_helper s) = (Inr (), h) \<and>
    wrote (s\<lparr>tf_helper := h, tf_rotation_tp := daily_next_rotation_tp e (dl_rotation_h s) (dl_rotation_m s)\<rparr>) s2 \<and>
    delete_old (str ''Failed removing daily file '') s2 = (Inr (), s')"
proof -
  let ?f = "calc (tf_base_filename s) (now_tm e (lm_time msg))"
  define k where "k = (\<lambda>u :: unit. sbind (sget tf_max_files) (\<lambda>max_files. if True \<and> max_files > 0 then daily_delete_old else sreturn ()) :: ('a daily_file_sink, unit) op)"
  obtain h where h: "fh_open ?f (tf_truncate s) (tf_helper s) = (Inr (), h)"
      and r: "sbind (timed_format F msg) (\<lambda>formatted. sbind (on_timed (fh_write formatted)) k)
        (s\<lparr>tf_helper := h, tf_rotation_tp := daily_next_rotation_tp e (dl_rotation_h s) (dl_rotation_m s)\<rparr>) = (Inr (), s')"
    using assms(1,2) unfolding daily_sink_it_def
    by (auto simp: sget_def sbind_eq on_timed_eq set_rotation_tp_def supdate_def k_def)
  then obtain s2 where w: "wrote (s\<lparr>tf_helper := h, tf_rotation_tp := daily_next_rotation_tp e (dl_rotation_h s) (dl_rotation_m s)\<rparr>) s2"
      "k () s2 = (Inr (), s')" using write_text[OF r] by blast
  then have "delete_old (str ''Failed removing daily file '') s2 = (Inr (), s')"
    using assms(3) by (simp add: k_def sget_def daily_delete_old_def wrote_def)
  with h w(1) show ?thesis by blast
qed

text \<open>The configuration of a daily sink, which logging leaves as it is.\<close>

definition same_plan :: "'f daily_file_sink \<Rightarrow> 'f daily_file_sink \<Rightarrow> bool" where
  "same_plan s s' \<longleftrightarrow> tf_max_files s' = tf_max_files s \<and> tf_base_filename s' = tf_base_filename s \<and>
     dl_rotation_h s' = dl_rotation_h s \<and> dl_rotation_m s' = dl_rotation_m s"

lemma wrote_plan: "wrote s s' \<Longrightarrow> same_plan s s' \<and> tf_rotation_tp s' = tf_rotation_tp s"
  by (cases s; cases s') (simp add: wrote_def same_plan_def)

lemma delete_old_plan: "delete_old failed s = (Inr (), s') \<Longrightarrow> same_plan s s' \<and> tf_rotation_tp s' = tf_rotation_tp s"
  using delete_old_full[of failed s s'] delete_old_room[of failed s s']
  by (cases "cq_full (tf_filenames_q s)") (auto simp: same_plan_def)

text \<open>The files a message opens, and what the moment of the next rotation is after it.\<close>

primrec opened_by :: "filename_calc \<Rightarrow> path \<Rightarrow> int \<Rightarrow> int \<Rightarrow> int \<Rightarrow> (day_env \<times> log_msg) list \<Rightarrow> path list" where
  "opened_by calc base rotation_h rotation_m tp [] = []"
| "opened_by calc base rotation_h rotation_m tp (em # ms) =
     (if lm_time (snd em) \<ge> tp
      then calc base (now_tm (fst em) (lm_time (snd em))) #
        opened_by calc base rotation_h rotation_m (daily_next_rotation_tp (fst em) rotation_h rotation_m) ms
      else opened_by calc base rotation_h rotation_m tp ms)"

lemma daily_keeps_file:
  assumes "daily_sink_it calc e F msg s = (Inr (), s')" "\<not> lm_time msg \<ge> tf_rotation_tp s"
  shows "wrote s s'"
proof -
  have r: "sbind (timed_format F msg) (\<lambda>formatted. sbind (on_timed (fh_write formatted))
      (\<lambda>_. sbind (sget tf_max_files) (\<lambda>_. sreturn ()))) s = (Inr (), s')"
    using assms by (simp add: daily_sink_it_def)
  show ?thesis using write_text[OF r] by (auto simp: sreturn_def)
qed

lemma daily_opens_file:
  assumes "daily_sink_it calc e F msg s = (Inr (), s')" "lm_time msg \<ge> tf_rotation_tp s" "retains n created s" "0 < n"
    "tf_max_files s = n"
  shows "retains n (created @ [calc (tf_base_filename s) (now_tm e (lm_time msg))]) s' \<and> same_plan s s' \<and>
    tf_rotation_tp s' = daily_next_rotation_tp e (dl_rotation_h s) (dl_rotation_m s)"
proof -
  let ?f = "calc (tf_base_filename s) (now_tm e (lm_time msg))"
  obtain h s2 where h: "fh_open ?f (tf_truncate s) (tf_helper s) = (Inr (), h)"
      and w: "wrote (s\<lparr>tf_helper := h, tf_rotation_tp := daily_next_rotation_tp e (dl_rotation_h s) (dl_rotation_m s)\<rparr>) s2"
      and d: "delete_old (str ''Failed removing daily file '') s2 = (Inr (), s')"
    using daily_rotates[OF assms(1,2)] assms(4,5) by auto
  have "retains n (created @ [?f]) s'"
    by (rule rotated_retains[OF assms(3) h _ _ _ w d assms(4)]) simp_all
  then show ?thesis using wrote_plan[OF w] delete_old_plan[OF d] by (simp add: same_plan_def)
qed

primrec daily_run ::
  "filename_calc \<Rightarrow> 'f formatter_ops \<Rightarrow> (day_env \<times> log_msg) list \<Rightarrow> ('f daily_file_sink, unit) op" where
  "daily_run calc F [] = sreturn ()"
| "daily_run calc F (em # ms) = sbind (daily_sink_it calc (fst em) F (snd em)) (\<lambda>_. daily_run calc F ms)"

lemma daily_run_retains:
  assumes "daily_run calc F ms s = (Inr (), s')" "retains n created s" "0 < n" "tf_max_files s = n"
  shows "retains n (created @ opened_by calc (tf_base_filename s) (dl_rotation_h s) (dl_rotation_m s) (tf_rotation_tp s) ms) s'"
  using assms
proof (induction ms arbitrary: s created)
  case Nil
  then show ?case by (simp add: sreturn_def)
next
  case (Cons em ms)
  then obtain s1 where 1: "daily_sink_it calc (fst em) F (snd em) s = (Inr (), s1)" "daily_run calc F ms s1 = (Inr (), s')"
    by (auto simp: sbind_eq)
  show ?case
  proof (cases "lm_time (snd em) \<ge> tf_rotation_tp s")
    case True
    note o = daily_opens_file[OF 1(1) True Cons.prems(2-4)]
    then show ?thesis using Cons.IH[OF 1(2) conjunct1[OF o] Cons.prems(3)] Cons.prems(4) True by (simp add: same_plan_def)
  next
    case False
    note w = daily_keeps_file[OF 1(1) False]
    then show ?thesis
      using Cons.IH[OF 1(2) retains_wrote[OF Cons.prems(2) w] Cons.prems(3)] wrote_plan[OF w] Cons.prems(4) False
      by (simp add: same_plan_def)
  qed
qed

paragraph \<open>The constructor\<close>

lemma existing_files_length: "length (existing_files calc e period base d n now) \<le> n"
  by (induction n arbitrary: now) (auto simp: Let_def)

lemma push_names:
  assumes "cq_wf (tf_filenames_q s)" "cq_capacity (tf_filenames_q s) = n" "cq_contents (tf_filenames_q s) = xs" "length (xs @ ys) \<le> n"
  shows "\<exists>q. each (\<lambda>name. on_queue (cq_push_back name)) ys s = (Inr (), s\<lparr>tf_filenames_q := q\<rparr>) \<and> cq_wf q \<and> cq_capacity q = n \<and>
    cq_max_items q = cq_max_items (tf_filenames_q s) \<and> cq_contents q = xs @ ys"
  using assms
proof (induction ys arbitrary: s xs)
  case Nil
  then show ?case by (intro exI[of _ "tf_filenames_q s"]) (simp add: sreturn_def)
next
  case (Cons y ys)
  obtain q where q: "cq_push_back y (tf_filenames_q s) = Inr q" "cq_wf q" "cq_capacity q = n" "cq_contents q = xs @ [y]"
    using cq.push_room[OF Cons.prems(1), of y] Cons.prems(2-4) by auto
  from Cons.IH[of "s\<lparr>tf_filenames_q := q\<rparr>" "xs @ [y]"] q Cons.prems(4) obtain q' where
    "each (\<lambda>name. on_queue (cq_push_back name)) ys (s\<lparr>tf_filenames_q := q\<rparr>) = (Inr (), s\<lparr>tf_filenames_q := q'\<rparr>)" "cq_wf q'"
      "cq_capacity q' = n" "cq_max_items q' = cq_max_items q" "cq_contents q' = xs @ y # ys" by auto
  moreover have "on_queue (cq_push_back y) s = (Inr (), s\<lparr>tf_filenames_q := q\<rparr>)" using q(1) by (simp add: on_queue_Inr)
  ultimately show ?case using push_max_items[OF q(1)] by (intro exI[of _ q']) simp
qed

lemma init_filenames_q_retains:
  assumes "init_filenames_q calc e period s = (Inr (), s')" "tf_max_files s = n" "0 < n" "n + 1 < size_t_range"
  shows "retains n (rev (existing_files calc e period (tf_base_filename s) (fh_disk (tf_helper s)) n (de_now e))) s' \<and>
    (\<exists>q. s' = s\<lparr>tf_filenames_q := q\<rparr>)"
proof -
  let ?xs = "rev (existing_files calc e period (tf_base_filename s) (fh_disk (tf_helper s)) n (de_now e))"
  let ?q = "new_circular_q [] n :: path circular_q" and ?s = "s\<lparr>tf_filenames_q := new_circular_q [] n\<rparr>"
  have c: "cq_wf ?q" "cq_capacity ?q = n" "cq_contents ?q = []" using cq_circular[OF assms(4), of "[]"] by auto
  have m: "cq_max_items ?q = n + 1" using assms(4) by (simp add: new_circular_q_def cq_disabled_def Let_def)
  have l: "length ?xs \<le> n" by (simp add: existing_files_length)
  obtain q where q: "each (\<lambda>name. on_queue (cq_push_back name)) ?xs ?s = (Inr (), ?s\<lparr>tf_filenames_q := q\<rparr>)" "cq_wf q"
      "cq_capacity q = n" "cq_max_items q = n + 1" "cq_contents q = ?xs"
    using push_names[of ?s n "[]" ?xs] c m l by auto
  then have "s' = ?s\<lparr>tf_filenames_q := q\<rparr>" using assms(1,2) by (simp add: init_filenames_q_def supdate_def sget_def)
  then show ?thesis using q l assms(2) by (auto simp: retains_def newest_all)
qed

lemma init_filenames_q_defined: "tf_max_files s + 1 < size_t_range \<Longrightarrow> fst (init_filenames_q calc e period s) = Inr ()"
proof -
  let ?n = "tf_max_files s"
  let ?xs = "rev (existing_files calc e period (tf_base_filename s) (fh_disk (tf_helper s)) ?n (de_now e))"
  assume n: "?n + 1 < size_t_range"
  have c: "cq_wf (new_circular_q [] ?n :: path circular_q)" "cq_capacity (new_circular_q [] ?n :: path circular_q) = ?n"
      "cq_contents (new_circular_q [] ?n :: path circular_q) = []"
    using cq_circular[OF n, of "[]"] by auto
  obtain q where "each (\<lambda>name. on_queue (cq_push_back name)) ?xs (s\<lparr>tf_filenames_q := new_circular_q [] ?n\<rparr>) =
      (Inr (), s\<lparr>tf_filenames_q := q\<rparr>)"
    using push_names[of "s\<lparr>tf_filenames_q := new_circular_q [] ?n\<rparr>" ?n "[]" ?xs] c by (auto simp: existing_files_length)
  then show ?thesis by (simp add: init_filenames_q_def)
qed

text \<open>
  Retention of the daily sink: from its construction with a limit of \<open>n\<close> files on, after any messages that were logged
  without an error, take the names found at the start and those opened since, oldest first; a message opens the file of its
  day when its time has reached the rotation time. The newest \<open>n\<close> of them are remembered, and the file of every other one is
  gone from the disk.
\<close>

theorem daily_files_retained:
  assumes "new_daily_file_sink calc e base hour minute trunc n handlers f d = (Inr (), s0)" "0 < n" "n < 2 ^ 16"
    "daily_run calc F ms s0 = (Inr (), s)"
    "created = rev (existing_files calc e (24 * 3600 * second) base (fh_disk (tf_helper s0)) n (de_now e)) @
       opened_by calc base hour minute (daily_next_rotation_tp e hour minute) ms"
  shows "cq_contents (tf_filenames_q s) = newest n created \<and>
    (\<forall>p\<in>set created. p \<notin> set (newest n created) \<longrightarrow> dk_files (fh_disk (tf_helper s)) p = None)"
proof -
  let ?p = "24 * 3600 * second"
  obtain h where "init_filenames_q calc e ?p \<lparr>tf_base_filename = base, tf_rotation_tp = daily_next_rotation_tp e hour minute,
      tf_helper = h, tf_truncate = trunc, tf_max_files = n, tf_filenames_q = cq_disabled, tf_formatter = f,
      dl_rotation_h = hour, dl_rotation_m = minute\<rparr> = (Inr (), s0)"
    using assms(1,2) by (auto simp: new_daily_file_sink_def sbind_eq on_timed_eq set_rotation_tp_def supdate_def sthrow_def split: if_splits)
  moreover have "n + 1 < size_t_range" using assms(3) by (simp add: size_t_range_def)
  ultimately have "retains n (rev (existing_files calc e ?p base (fh_disk (tf_helper s0)) n (de_now e))) s0 \<and> tf_max_files s0 = n \<and>
      tf_base_filename s0 = base \<and> tf_rotation_tp s0 = daily_next_rotation_tp e hour minute \<and> dl_rotation_h s0 = hour \<and> dl_rotation_m s0 = minute"
    using init_filenames_q_retains[of calc e ?p _ s0 n] assms(2) by fastforce
  then have "retains n created s" using daily_run_retains[OF assms(4) _ assms(2)] assms(5) by fastforce
  then show ?thesis unfolding retains_def gone_def by blast
qed

lemma hourly_step:
  assumes "hourly_sink_it calc e F msg s = (Inr (), s')" "retains n created s" "0 < n" "tf_max_files s = n"
  shows "\<exists>more. retains n (created @ more) s' \<and> set more \<subseteq> {calc (tf_base_filename s) (now_tm e (lm_time msg))}"
proof (cases "lm_time msg \<ge> tf_rotation_tp s")
  case False
  then have r: "sbind (timed_format F msg) (\<lambda>formatted. sbind (on_timed (fh_write formatted))
      (\<lambda>_. sbind (sget tf_max_files) (\<lambda>_. sreturn ()))) (s\<lparr>hr_remove_init_file := False\<rparr>) = (Inr (), s')"
    using assms(1) by (simp add: hourly_sink_it_def)
  have "wrote (s\<lparr>hr_remove_init_file := False\<rparr>) s'" using write_text[OF r] by (auto simp: sreturn_def)
  then show ?thesis using assms(2) by (intro exI[of _ "[]"]) (auto simp: wrote_def retains_def)
next
  case True
  let ?f = "calc (tf_base_filename s) (now_tm e (lm_time msg))"
  define k where "k = (\<lambda>u :: unit. sbind (sget tf_max_files) (\<lambda>max_files. if True \<and> max_files > 0 then hourly_delete_old else sreturn ()) :: ('a hourly_file_sink, unit) op)"
  obtain h0 h where h0: "\<forall>p. gone p (tf_helper s) \<longrightarrow> gone p h0" and h: "fh_open ?f (tf_truncate s) h0 = (Inr (), h)"
      and r: "sbind (timed_format F msg) (\<lambda>formatted. sbind (on_timed (fh_write formatted)) k)
        (s\<lparr>tf_helper := h, tf_rotation_tp := hourly_next_rotation_tp e, hr_remove_init_file := False\<rparr>) = (Inr (), s')"
  proof (cases "hr_remove_init_file s")
    case r: True
    obtain ok h0 where h0: "on_disk (os_remove (fh_filename (tf_helper s))) (fh_close (tf_helper s)) = (Inr ok, h0)"
      by (cases "os_remove (fh_filename (tf_helper s)) (fh_disk (fh_close (tf_helper s)))") (auto simp: on_disk_def)
    have "gone p h0" if "gone p (tf_helper s)" for p
      using keepsD[OF gone_on_disk(5) _ h0, of p] that by (simp add: gone_def)
    with r h0 show thesis
      using assms(1) True that[of h0] unfolding hourly_sink_it_def
      by (auto simp: sget_def sbind_eq on_timed_eq supdate_def sreturn_def k_def)
  next
    case False
    then show thesis
      using assms(1) True that[of "tf_helper s"] unfolding hourly_sink_it_def
      by (auto simp: sget_def sbind_eq on_timed_eq supdate_def sreturn_def k_def)
  qed
  then obtain s2 where w: "wrote (s\<lparr>tf_helper := h, tf_rotation_tp := hourly_next_rotation_tp e, hr_remove_init_file := False\<rparr>) s2"
      "k () s2 = (Inr (), s')" using write_text[OF r] by blast
  have "tf_max_files s2 = n" using w(1) assms(4) by (simp add: wrote_def)
  then have d: "delete_old (str ''Failed removing hourly file '') s2 = (Inr (), s')"
    using w(2) assms(3) by (simp add: k_def sget_def hourly_delete_old_def)
  have "retains n (created @ [?f]) s'"
    by (rule rotated_retains[OF assms(2) h h0 _ _ w(1) d assms(3)]) simp_all
  then show ?thesis by (intro exI[of _ "[?f]"]) simp
qed

subsection \<open>Examples\<close>

definition plain_ops :: "unit formatter_ops" where
  "plain_ops = \<lparr>fo_format = (\<lambda>m d f. Inr (m, d @ lm_payload m, f)), fo_clone = (\<lambda>f. f), fo_pattern = (\<lambda>_. ())\<rparr>"

definition sample_day :: "std_tm \<Rightarrow> int \<Rightarrow> day_env" where
  "sample_day t now = \<lparr>de_now = now, de_localtime = (\<lambda>_. t), de_mktime = (\<lambda>_. 0)\<rparr>"

definition blank_disk :: disk where
  "blank_disk = \<lparr>dk_files = Map.empty, dk_dirs = {}, dk_fault = (\<lambda>_. False), dk_calls = 0, dk_strerror = [], dk_events = []\<rparr>"

abbreviation day_4 :: path where
  "day_4 \<equiv> str ''a_2025-03-04.log''"

abbreviation day_5 :: path where
  "day_5 \<equiv> str ''a_2025-03-05.log''"

definition sample_helper :: file_helper where
  "sample_helper = snd (fh_open day_4 False (new_file_helper {} blank_disk))"

definition sample_daily :: "unit daily_file_sink" where
  "sample_daily = \<lparr>tf_base_filename = str ''a.log'', tf_rotation_tp = 24 * 3600 * second, tf_helper = sample_helper, tf_truncate = False,
     tf_max_files = 1, tf_filenames_q = \<lparr>cq_max_items = 2, cq_head = 0, cq_tail = 1, cq_overrun_counter = 0, cq_v = [day_4, []]\<rparr>,
     tf_formatter = (), dl_rotation_h = 14, dl_rotation_m = 30\<rparr>"

definition next_day :: "day_env \<times> log_msg" where
  "next_day = (sample_day (sample_date\<lparr>st_mday := 5\<rparr>) (25 * 3600 * second), sample_line_msg\<lparr>lm_time := 25 * 3600 * second\<rparr>)"

lemma sample_names: "daily_filename (str ''a.log'') sample_date = day_4" "daily_filename (str ''a.log'') (sample_date\<lparr>st_mday := 5\<rparr>) = day_5"
  by code_simp+

lemma sample_daily_made:
  "new_daily_file_sink daily_filename (sample_day sample_date 10) (str ''a.log'') 14 30 False 1 {} () blank_disk = (Inr (), sample_daily)"
proof -
  have "fst (fh_open day_4 False (new_file_helper {} blank_disk)) = Inr ()" by code_simp
  then have h: "fh_open day_4 False (new_file_helper {} blank_disk) = (Inr (), sample_helper)" by (metis prod.collapse sample_helper_def)
  have "path_exists day_4 (fh_disk sample_helper)" by code_simp
  then have "existing_files daily_filename (sample_day sample_date 10) p (str ''a.log'') (fh_disk sample_helper) (Suc 0) 10 = [day_4]" for p
    by (simp add: now_tm_def sample_day_def sample_names)
  then show ?thesis using h
    by (simp add: new_daily_file_sink_def sample_names now_tm_def sample_day_def on_timed_def set_rotation_tp_def init_filenames_q_def
      daily_next_rotation_tp_def supdate_def sget_def sample_daily_def new_circular_q_def cq_disabled_def size_t_range_def
      on_queue_def cq_push_back_def sreturn_def Let_def)
qed

lemma sample_daily_runs: "\<exists>s. daily_run daily_filename plain_ops [next_day] sample_daily = (Inr (), s)"
proof -
  define h1 where "h1 = snd (fh_open day_5 False sample_helper)"
  define h2 where "h2 = snd (fh_write (str ''hello'') h1)"
  have "fst (fh_open day_5 False sample_helper) = Inr ()" by code_simp
  then have 1: "fh_open day_5 False sample_helper = (Inr (), h1)" unfolding h1_def by (metis prod.collapse)
  have "fst (fh_write (str ''hello'') h1) = Inr ()" unfolding h1_def by code_simp
  then have 2: "fh_write (str ''hello'') h1 = (Inr (), h2)" unfolding h2_def by (metis prod.collapse)
  have "fst (remove_if_exists day_4 h2) = Inr True" unfolding h2_def h1_def by code_simp
  then obtain h3 where 3: "remove_if_exists day_4 h2 = (Inr True, h3)" by (metis prod.collapse)
  have 4: "fh_filename h2 = day_5" using fh_write_name[OF 2] fh_open_name[OF 1] by simp
  from 1 2 3 4 show ?thesis
    by (simp add: next_day_def sample_day_def sample_daily_def daily_sink_it_def now_tm_def sample_names on_timed_def set_rotation_tp_def
      sget_def supdate_def timed_format_def plain_ops_def sample_line_msg_def daily_delete_old_def delete_old_def cq_full_def cq_front_def
      cq_pop_front_def cq_push_back_def on_queue_def sreturn_def Let_def)
qed

theorem daily_files_retained_witness:
  "\<exists>s. daily_run daily_filename plain_ops [next_day] sample_daily = (Inr (), s) \<and>
    cq_contents (tf_filenames_q s) = [day_5] \<and> dk_files (fh_disk (tf_helper s)) day_4 = None"
proof -
  obtain s where s: "daily_run daily_filename plain_ops [next_day] sample_daily = (Inr (), s)" using sample_daily_runs by blast
  have o: "[day_4, day_5] = rev (existing_files daily_filename (sample_day sample_date 10) (24 * 3600 * second) (str ''a.log'')
      (fh_disk (tf_helper sample_daily)) 1 (de_now (sample_day sample_date 10))) @
    opened_by daily_filename (str ''a.log'') 14 30 (daily_next_rotation_tp (sample_day sample_date 10) 14 30) [next_day]"
    by code_simp
  have "newest 1 [day_4, day_5] = [day_5]" "day_4 \<noteq> day_5" by (simp_all add: newest_def str_def)
  then show ?thesis using daily_files_retained[OF sample_daily_made _ _ s o] s by simp
qed

text \<open>
  A rotation time that is not midnight: the name of the file is that of the day, so the file opened at the rotation can be the
  one that is open. It is queued again, and with room for one file it is the old file that is deleted: the sink goes
  on writing to a file that is gone.
\<close>

lemma same_day_rotation_deletes_current:
  assumes "daily_sink_it calc e F msg s = (Inr (), s')" "lm_time msg \<ge> tf_rotation_tp s" "tf_max_files s = 1"
    "cq_wf (tf_filenames_q s)" "cq_capacity (tf_filenames_q s) = 1" "0 < cq_max_items (tf_filenames_q s)"
    "cq_contents (tf_filenames_q s) = [calc (tf_base_filename s) (now_tm e (lm_time msg))]"
  shows "gone (daily_current_filename s') (tf_helper s')"
proof -
  let ?f = "calc (tf_base_filename s) (now_tm e (lm_time msg))"
  obtain h s2 where h: "fh_open ?f (tf_truncate s) (tf_helper s) = (Inr (), h)"
      and w: "wrote (s\<lparr>tf_helper := h, tf_rotation_tp := daily_next_rotation_tp e (dl_rotation_h s) (dl_rotation_m s)\<rparr>) s2"
      and d: "delete_old (str ''Failed removing daily file '') s2 = (Inr (), s')"
    using daily_rotates[OF assms(1,2)] assms(3) by auto
  have q: "tf_filenames_q s2 = tf_filenames_q s" and n: "fh_filename (tf_helper s2) = ?f"
    using w fh_open_name[OF h] by (simp_all add: wrote_def)
  have "cq_full (tf_filenames_q s2)" unfolding q cq_full_length[OF assms(4,6)] using assms(5,7) by simp
  from delete_old_full[OF d this] obtain old q1 h' q2 where
    1: "cq_front (tf_filenames_q s) = Inr old" "remove_if_exists old (tf_helper s2) = (Inr True, h')" "s' = s2\<lparr>tf_filenames_q := q2, tf_helper := h'\<rparr>"
    unfolding q by blast
  have "old = ?f" using cq.front_law[OF assms(4)] 1(1) assms(7) by simp
  moreover have "fh_filename h' = fh_filename (tf_helper s2)"
    using 1(2) by (auto simp: remove_if_exists_def on_disk_def sbind_eq sget_def sreturn_def split: prod.splits if_splits)
  ultimately show ?thesis using remove_if_exists_gone[OF 1(2)] 1(3) n by (simp add: daily_current_filename_def)
qed

end
