(* ===== verification/Periodic_Worker.thy ===== *)
theory Periodic_Worker
  imports Log_Core
begin

text \<open>
  \<open>spdlog/details/periodic_worker.h\<close> and \<open>periodic_worker-inl.h\<close>: a thread that calls a function at regular intervals until its
  owner destroys it. Worker and owner are two threads with a mutex and a condition variable between them; the system is a step
  relation in which the clock may let the waiting time elapse at any moment and a wait may end for no reason.
\<close>

subsection \<open>The threads\<close>

text \<open>
  Where the worker is: about to take the mutex, in \<open>wait_for\<close> without the mutex, out of it and about to test the condition, in the
  callback, which runs under the mutex, or returned. A callback that throws ends the process.
\<close>

datatype pw_thread = No_Thread | Locking | Waiting | Woken bool | In_Callback | Returned | Crashed

text \<open>Where the owner is: before the destructor, after \<open>active_ = false\<close>, in \<open>join\<close>, or through.\<close>

datatype pw_owner = Owning | Cleared | Joining | Destroyed

record 's periodic_worker =
  pw_active :: bool
  pw_thread :: pw_thread
  pw_owner :: pw_owner
  pw_state :: 's
  pw_calls :: nat

definition new_periodic_worker :: "int \<Rightarrow> 's \<Rightarrow> 's periodic_worker" where
  "new_periodic_worker interval st =
     \<lparr>pw_active = (interval > 0), pw_thread = (if interval > 0 then Locking else No_Thread), pw_owner = Owning, pw_state = st, pw_calls = 0\<rparr>"

text \<open>\<open>wait_for\<close> tests the condition first, after every wake-up, and once more when the time has elapsed.\<close>

definition enter_wait :: "'s periodic_worker \<Rightarrow> 's periodic_worker" where
  "enter_wait w = w\<lparr>pw_thread := (if \<not> pw_active w then Returned else Waiting)\<rparr>"

definition leave_wait :: "bool \<Rightarrow> 's periodic_worker \<Rightarrow> 's periodic_worker" where
  "leave_wait elapsed w =
     w\<lparr>pw_thread := (if \<not> pw_active w then Returned else if elapsed then In_Callback else Waiting)\<rparr>"

definition run_callback :: "('s, unit) op \<Rightarrow> 's periodic_worker \<Rightarrow> 's periodic_worker" where
  "run_callback f w =
     (case f (pw_state w) of (r, st) \<Rightarrow>
        w\<lparr>pw_state := st, pw_calls := pw_calls w + 1, pw_thread := (case r of Inl _ \<Rightarrow> Crashed | Inr _ \<Rightarrow> Locking)\<rparr>)"

definition mutex_free :: "'s periodic_worker \<Rightarrow> bool" where
  "mutex_free w \<longleftrightarrow> pw_thread w \<noteq> In_Callback \<and> pw_thread w \<noteq> Crashed"

definition joinable :: "'s periodic_worker \<Rightarrow> bool" where
  "joinable w \<longleftrightarrow> pw_thread w \<noteq> No_Thread"

definition notify_worker :: "'s periodic_worker \<Rightarrow> 's periodic_worker" where
  "notify_worker w = (if pw_thread w = Waiting then w\<lparr>pw_thread := Woken False\<rparr> else w)"

datatype mover = Worker | Owner | Chance

inductive pw_step :: "('s, unit) op \<Rightarrow> mover \<Rightarrow> 's periodic_worker \<Rightarrow> 's periodic_worker \<Rightarrow> bool" for f where
  locks: "pw_thread w = Locking \<Longrightarrow> pw_step f Worker w (enter_wait w)"
| tests: "pw_thread w = Woken elapsed \<Longrightarrow> pw_step f Worker w (leave_wait elapsed w)"
| calls: "pw_thread w = In_Callback \<Longrightarrow> pw_step f Worker w (run_callback f w)"
| elapses: "pw_thread w = Waiting \<Longrightarrow> pw_step f Chance w (w\<lparr>pw_thread := Woken True\<rparr>)"
| spurious: "pw_thread w = Waiting \<Longrightarrow> pw_step f Chance w (w\<lparr>pw_thread := Woken False\<rparr>)"
| clears: "pw_owner w = Owning \<Longrightarrow> joinable w \<Longrightarrow> mutex_free w \<Longrightarrow>
    pw_step f Owner w (w\<lparr>pw_active := False, pw_owner := Cleared\<rparr>)"
| no_thread: "pw_owner w = Owning \<Longrightarrow> \<not> joinable w \<Longrightarrow> pw_step f Owner w (w\<lparr>pw_owner := Destroyed\<rparr>)"
| notifies: "pw_owner w = Cleared \<Longrightarrow> pw_step f Owner w (notify_worker (w\<lparr>pw_owner := Joining\<rparr>))"
| joins: "pw_owner w = Joining \<Longrightarrow> pw_thread w = Returned \<Longrightarrow> pw_step f Owner w (w\<lparr>pw_owner := Destroyed\<rparr>)"

inductive pw_reach :: "('s, unit) op \<Rightarrow> 's periodic_worker \<Rightarrow> 's periodic_worker \<Rightarrow> bool" for f w0 where
  init: "pw_reach f w0 w0"
| step: "pw_reach f w0 w \<Longrightarrow> pw_step f m w w' \<Longrightarrow> pw_reach f w0 w'"

lemmas pw_defs = enter_wait_def leave_wait_def run_callback_def mutex_free_def joinable_def notify_worker_def

subsection \<open>Invariant\<close>

text \<open>
  The condition is false from the moment the owner has cleared it; from then on no callback runs, and once the owner has notified
  the worker is not asleep. After the destructor the thread has returned.
\<close>

definition pw_inv :: "'s periodic_worker \<Rightarrow> bool" where
  "pw_inv w \<longleftrightarrow>
     (pw_owner w \<noteq> Owning \<and> pw_thread w \<noteq> No_Thread \<longrightarrow> \<not> pw_active w \<and> pw_thread w \<noteq> In_Callback \<and> pw_thread w \<noteq> Crashed) \<and>
     (pw_owner w = Joining \<longrightarrow> pw_thread w \<noteq> Waiting \<and> pw_thread w \<noteq> No_Thread) \<and>
     (pw_owner w = Cleared \<longrightarrow> pw_thread w \<noteq> No_Thread) \<and>
     (pw_owner w = Destroyed \<longrightarrow> pw_thread w = Returned \<or> pw_thread w = No_Thread) \<and>
     (pw_owner w = Owning \<and> pw_thread w \<noteq> No_Thread \<longrightarrow> pw_active w \<and> pw_thread w \<noteq> Returned)"

lemma pw_step_inv: "pw_step f m w w' \<Longrightarrow> pw_inv w \<Longrightarrow> pw_inv w'"
  by (induction rule: pw_step.induct) (auto simp: pw_inv_def pw_defs split: prod.splits sum.splits)

lemma pw_reach_inv: "pw_reach f (new_periodic_worker interval st) w \<Longrightarrow> pw_inv w"
proof (induction rule: pw_reach.induct)
  case init
  then show ?case by (simp add: pw_inv_def new_periodic_worker_def)
qed (rule pw_step_inv)

subsection \<open>Stopping\<close>

text \<open>How many steps of the worker and of the owner are left until the destructor returns.\<close>

fun thread_left :: "pw_thread \<Rightarrow> nat" where
  "thread_left Returned = 0"
| "thread_left No_Thread = 0"
| "thread_left _ = 1"

fun owner_left :: "pw_owner \<Rightarrow> nat" where
  "owner_left Destroyed = 0"
| "owner_left Joining = 1"
| "owner_left Cleared = 2"
| "owner_left Owning = 3"

definition stop_left :: "'s periodic_worker \<Rightarrow> nat" where
  "stop_left w = thread_left (pw_thread w) + owner_left (pw_owner w)"

text \<open>A step of the owner, or of the worker once the destructor runs, is progress; a step of chance never undoes it.\<close>

lemma stopping_step:
  assumes "pw_inv w" "pw_owner w \<noteq> Owning" "pw_step f m w w'"
  shows "pw_owner w' \<noteq> Owning" "pw_calls w' = pw_calls w" "pw_state w' = pw_state w"
    "m \<noteq> Chance \<Longrightarrow> stop_left w' < stop_left w" "stop_left w' \<le> stop_left w"
  using assms(3,1,2)
  by (induction rule: pw_step.induct) (auto simp: pw_inv_def pw_defs stop_left_def split: if_splits)

lemma stopping_progress:
  assumes "pw_inv w" "pw_owner w = Cleared \<or> pw_owner w = Joining"
  shows "\<exists>m w'. m \<noteq> Chance \<and> pw_step f m w w'"
proof (cases "pw_owner w = Cleared")
  case True
  then show ?thesis using pw_step.notifies[of w f] by blast
next
  case False
  then have j: "pw_owner w = Joining" using assms(2) by simp
  with assms(1) have "pw_thread w \<in> {Locking, Returned} \<union> range Woken"
    by (cases "pw_thread w") (auto simp: pw_inv_def)
  then show ?thesis using j by (auto intro: pw_step.locks pw_step.tests pw_step.joins)
qed

text \<open>A run of the system from a state, with the movers.\<close>

inductive pw_run :: "('s, unit) op \<Rightarrow> 's periodic_worker \<Rightarrow> mover list \<Rightarrow> 's periodic_worker \<Rightarrow> bool" for f where
  stay: "pw_run f w [] w"
| go: "pw_step f m w w1 \<Longrightarrow> pw_run f w1 ms w' \<Longrightarrow> pw_run f w (m # ms) w'"

lemma stopping_run:
  assumes "pw_run f w ms w'" "pw_inv w" "pw_owner w \<noteq> Owning"
  shows "pw_inv w'" "pw_calls w' = pw_calls w" "pw_state w' = pw_state w"
    "length (filter (\<lambda>m. m \<noteq> Chance) ms) + stop_left w' \<le> stop_left w" "pw_owner w' \<noteq> Owning"
proof (atomize (full), use assms in \<open>induction rule: pw_run.induct\<close>)
  case (go m w w1 ms w')
  note s = stopping_step[OF go.prems go.hyps(1)] and i = pw_step_inv[OF go.hyps(1) go.prems(1)]
  from go.IH[OF i s(1)] s show ?case by (cases "m = Chance") force+
qed simp

text \<open>
  C34. Destroying a periodic worker. From the moment its owner has cleared the flag, in every interleaving: no callback begins,
  the worker and the owner together make at most three more steps, and until the destructor has returned one of the two can step
  without waiting for the interval to elapse. When it has returned, the thread has.
\<close>

theorem periodic_worker_stops:
  assumes "pw_reach f (new_periodic_worker interval st) w" "pw_owner w \<noteq> Owning" "pw_run f w ms w'"
  shows "pw_calls w' = pw_calls w \<and> pw_state w' = pw_state w \<and> length (filter (\<lambda>m. m \<noteq> Chance) ms) \<le> 3 \<and>
    (if pw_owner w' = Destroyed then pw_thread w' = Returned \<or> pw_thread w' = No_Thread
     else \<exists>m w''. m \<noteq> Chance \<and> pw_step f m w' w'')"
proof -
  note r = stopping_run[OF assms(3) pw_reach_inv[OF assms(1)] assms(2)]
  have "stop_left w \<le> 3"
    using assms(2) by (cases "pw_owner w"; cases "pw_thread w") (simp_all add: stop_left_def)
  moreover have "\<exists>m w''. m \<noteq> Chance \<and> pw_step f m w' w''" if "pw_owner w' \<noteq> Destroyed"
    by (rule stopping_progress[OF r(1)]) (use r(5) that in \<open>cases "pw_owner w'"; simp\<close>)
  ultimately show ?thesis using r by (auto simp: pw_inv_def)
qed

definition sample_worker :: "nat periodic_worker" where
  "sample_worker = \<lparr>pw_active = False, pw_thread = Waiting, pw_owner = Cleared, pw_state = 0, pw_calls = 0\<rparr>"

definition count_callback :: "(nat, unit) op" where
  "count_callback n = (Inr (), n + 1)"

lemma sample_worker_reached: "pw_reach count_callback (new_periodic_worker 5 0) sample_worker"
proof -
  let ?w0 = "new_periodic_worker 5 (0 :: nat)"
  have "pw_reach count_callback ?w0 (enter_wait ?w0)"
    by (rule pw_reach.step[OF pw_reach.init pw_step.locks]) (simp add: new_periodic_worker_def)
  from pw_reach.step[OF this pw_step.clears] show ?thesis
    by (simp add: new_periodic_worker_def enter_wait_def mutex_free_def joinable_def sample_worker_def)
qed

theorem periodic_worker_stops_witness:
  "\<exists>w'. pw_run count_callback sample_worker [Owner, Worker, Owner] w' \<and> pw_owner w' = Destroyed \<and> pw_calls w' = 0 \<and> pw_thread w' = Returned"
proof -
  let ?w1 = "notify_worker (sample_worker\<lparr>pw_owner := Joining\<rparr>)"
  let ?w2 = "leave_wait False ?w1"
  let ?w3 = "?w2\<lparr>pw_owner := Destroyed\<rparr>"
  have "pw_step count_callback Owner sample_worker ?w1" by (rule pw_step.notifies) (simp add: sample_worker_def)
  moreover have "pw_step count_callback Worker ?w1 ?w2" by (rule pw_step.tests) (simp add: sample_worker_def notify_worker_def)
  moreover have "pw_step count_callback Owner ?w2 ?w3"
    by (rule pw_step.joins) (simp_all add: sample_worker_def notify_worker_def leave_wait_def)
  ultimately have "pw_run count_callback sample_worker [Owner, Worker, Owner] ?w3" by (meson pw_run.intros)
  from periodic_worker_stops[OF sample_worker_reached _ this] this show ?thesis
    by (intro exI[of _ ?w3]) (simp add: sample_worker_def notify_worker_def leave_wait_def)
qed

end
