(* ===== verification/Global_Log.thy ===== *)
theory Global_Log
  imports Registry Sinks Periodic_Worker "HOL-Library.Sublist"
begin

text \<open>
  The functions of \<open>spdlog-inl.h\<close> and \<open>async.h\<close> over the registry: creating loggers, the pattern of a logger or of all of
  them, the periodic flusher, the levels from the environment and the command line, and the default logger.
\<close>

subsection \<open>Factories\<close>

text \<open>
  \<open>synchronous_factory::create\<close> and \<open>async_factory_impl::create\<close>: the sink is made at address \<open>k\<close> with its own formatter \<open>f\<close>, the
  logger at \<open>p\<close>.
\<close>

definition place_logger :: "'f \<Rightarrow> nat \<Rightarrow> 'z logger_scheme \<Rightarrow> nat \<Rightarrow> ('f, 'z) registry \<Rightarrow> ('f, 'z) registry" where
  "place_logger f k lg p r =
     r\<lparr>rg_world := \<lparr>rw_loggers = (rw_loggers (rg_world r))(p := lg), rw_formatters = (rw_formatters (rg_world r))(k := f)\<rparr>\<rparr>"

definition sync_create :: "('f \<Rightarrow> 'f) \<Rightarrow> 'f \<Rightarrow> bytes \<Rightarrow> nat \<Rightarrow> nat \<Rightarrow> (('f, unit) registry, unit) op" where
  "sync_create cl f logger_name k p r = initialize_logger cl p (place_logger f k (new_logger logger_name [k]) p r)"

definition default_async_q_size :: nat where
  "default_async_q_size = 8192"

record 'f async_registry =
  ar_registry :: "('f, \<lparr>al_thread_pool :: nat option, al_overflow_policy :: async_overflow_policy\<rparr>) registry"
  ar_pools :: "nat \<Rightarrow> thread_pool option"

text \<open>A pool that is needed is made at address \<open>q\<close>.\<close>

definition ensure_pool :: "nat \<Rightarrow> ('f async_registry, nat option) op" where
  "ensure_pool q a =
     (case rg_tp (ar_registry a) of
        Some tp \<Rightarrow> (Inr (Some tp), a)
      | None \<Rightarrow> (case new_thread_pool default_async_q_size 1 of
            Inl x \<Rightarrow> (Inl x, a)
          | Inr pool \<Rightarrow> (Inr (Some q), a\<lparr>ar_pools := (ar_pools a)(q \<mapsto> pool), ar_registry := set_tp (Some q) (ar_registry a)\<rparr>)))"

definition new_async_logger :: "bytes \<Rightarrow> nat list \<Rightarrow> nat option \<Rightarrow> async_overflow_policy \<Rightarrow> async_logger" where
  "new_async_logger logger_name sinks tp policy =
     logger.extend (new_logger logger_name sinks) \<lparr>al_thread_pool = tp, al_overflow_policy = policy\<rparr>"

definition async_create ::
  "('f \<Rightarrow> 'f) \<Rightarrow> 'f \<Rightarrow> async_overflow_policy \<Rightarrow> bytes \<Rightarrow> nat \<Rightarrow> nat \<Rightarrow> nat \<Rightarrow> ('f async_registry, unit) op" where
  "async_create cl f policy logger_name k p q =
     sbind (ensure_pool q) (\<lambda>tp a.
       case initialize_logger cl p (place_logger f k (new_async_logger logger_name [k] tp policy) p (ar_registry a)) of
         (res, r) \<Rightarrow> (res, a\<lparr>ar_registry := r\<rparr>))"

text \<open>The pool that was there is not destroyed while a logger or another holder keeps it.\<close>

definition global_init_thread_pool :: "nat \<Rightarrow> nat \<Rightarrow> nat \<Rightarrow> ('f async_registry, unit) op" where
  "global_init_thread_pool q_size thread_count q a =
     (case new_thread_pool q_size thread_count of
        Inl x \<Rightarrow> (Inl x, a)
      | Inr pool \<Rightarrow> (Inr (), a\<lparr>ar_pools := (ar_pools a)(q \<mapsto> pool), ar_registry := set_tp (Some q) (ar_registry a)\<rparr>))"

subsection \<open>Patterns\<close>

type_synonym ('c, 'z) pattern_registry = "('c pattern_formatter, 'z) registry"

definition default_eol :: bytes where
  "default_eol = [10]"

definition plain_pattern :: "'c custom_ops \<Rightarrow> fmt_env \<Rightarrow> bytes \<Rightarrow> pattern_time_type \<Rightarrow> 'c pattern_formatter" where
  "plain_pattern U e pattern time_type = new_pattern_formatter U e pattern time_type default_eol Map.empty"

definition logger_set_pattern ::
  "'c custom_ops \<Rightarrow> fmt_env \<Rightarrow> bytes \<Rightarrow> pattern_time_type \<Rightarrow> nat \<Rightarrow> ('c, 'z) pattern_registry \<Rightarrow> ('c, 'z) pattern_registry" where
  "logger_set_pattern U e pattern time_type p = logger_set_formatter (pf_clone U e) (plain_pattern U e pattern time_type) p"

definition global_set_pattern ::
  "'c custom_ops \<Rightarrow> fmt_env \<Rightarrow> bytes \<Rightarrow> pattern_time_type \<Rightarrow> ('c, 'z) pattern_registry \<Rightarrow> ('c, 'z) pattern_registry" where
  "global_set_pattern U e pattern time_type = registry_set_formatter (pf_clone U e) (plain_pattern U e pattern time_type)"

subsection \<open>The default logger\<close>

text \<open>\<open>default_logger_raw()\<close> may be a null pointer.\<close>

definition default_logger_raw :: "('f, 'z) registry \<Rightarrow> 'z logger_scheme result" where
  "default_logger_raw r = (case rg_default_logger r of None \<Rightarrow> Inl Undefined | Some p \<Rightarrow> Inr (logger_at r p))"

definition global_get_level :: "('f, 'z) registry \<Rightarrow> level_enum result" where
  "global_get_level r = rbind (default_logger_raw r) (\<lambda>lg. Inr (lg_level lg))"

definition global_should_log :: "level_enum \<Rightarrow> ('f, 'z) registry \<Rightarrow> bool result" where
  "global_should_log l r = rbind (default_logger_raw r) (\<lambda>lg. Inr (should_log l lg))"

subsection \<open>Levels from outside\<close>

definition load_env_levels :: "(bytes \<Rightarrow> bytes) \<Rightarrow> bytes \<Rightarrow> ('f, 'z) registry \<Rightarrow> ('f, 'z) registry" where
  "load_env_levels getenv var r = (let env_val = getenv var in if env_val \<noteq> [] then load_levels env_val r else r)"

definition level_prefix :: bytes where
  "level_prefix = str ''SPDLOG_LEVEL=''"

definition load_argv_levels :: "bytes list \<Rightarrow> ('f, 'z) registry \<Rightarrow> ('f, 'z) registry" where
  "load_argv_levels argv r =
     fold (\<lambda>arg r. if prefix level_prefix arg then load_levels (drop (length level_prefix) arg) r else r) (tl argv) r"

subsection \<open>The periodic flusher\<close>

text \<open>
  The flusher calls \<open>flush_all\<close>. \<open>stop_worker\<close> runs the destructor of a worker: the owner gets the mutex when no callback runs, and
  the worker then returns.
\<close>

record ('f, 'z, 's) flushing_registry =
  fl_registry :: "('f, 'z) registry"
  fl_flusher :: "'s periodic_worker option"

definition stop_worker :: "('s, unit) op \<Rightarrow> 's periodic_worker \<Rightarrow> 's periodic_worker" where
  "stop_worker f w =
     (let w1 = (if pw_thread w = In_Callback then run_callback f w else w) in
      if pw_thread w1 = Crashed then w1
      else if \<not> joinable w1 then w1\<lparr>pw_owner := Destroyed\<rparr>
      else w1\<lparr>pw_active := False, pw_thread := Returned, pw_owner := Destroyed\<rparr>)"

text \<open>The new worker is running before the old one is destroyed; the state the callbacks share goes from one to the other.\<close>

definition flush_every ::
  "(nat \<Rightarrow> ('s, unit) op) \<Rightarrow> int \<Rightarrow> 's \<Rightarrow> ('f, 'z, 's) flushing_registry \<Rightarrow> ('f, 'z, 's) flushing_registry" where
  "flush_every flush interval st g =
     (let st1 = (case fl_flusher g of None \<Rightarrow> st | Some w \<Rightarrow> pw_state (stop_worker (flush_all flush (fl_registry g)) w)) in
      g\<lparr>fl_flusher := Some (new_periodic_worker interval st1)\<rparr>)"

definition flusher_shutdown :: "('f, 'z, 's) flushing_registry \<Rightarrow> ('f, 'z, 's) flushing_registry" where
  "flusher_shutdown g = g\<lparr>fl_flusher := None, fl_registry := registry_shutdown (fl_registry g)\<rparr>"

text \<open>\<open>stop_worker\<close> is one of the runs of the two threads.\<close>

lemma stop_idle_worker_runs:
  assumes "pw_inv w" "pw_owner w = Owning" "mutex_free w" "joinable w"
  shows "\<exists>ms. pw_run f w ms (w\<lparr>pw_active := False, pw_thread := Returned, pw_owner := Destroyed\<rparr>)"
proof -
  let ?c = "w\<lparr>pw_active := False, pw_owner := Cleared\<rparr>"
  let ?n = "notify_worker (?c\<lparr>pw_owner := Joining\<rparr>)"
  let ?r = "w\<lparr>pw_active := False, pw_owner := Joining, pw_thread := Returned\<rparr>"
  have c: "pw_step f Owner w ?c" by (rule pw_step.clears) (use assms in auto)
  have n: "pw_step f Owner ?c ?n" by (rule pw_step.notifies) simp
  have "pw_step f Worker ?n ?r"
  proof (cases "pw_thread w")
    case Locking
    then show ?thesis using pw_step.locks[of ?n f] by (simp add: notify_worker_def enter_wait_def)
  next
    case Waiting
    then show ?thesis using pw_step.tests[of ?n False f] by (simp add: notify_worker_def leave_wait_def)
  next
    case (Woken b)
    then show ?thesis using pw_step.tests[of ?n b f] by (simp add: notify_worker_def leave_wait_def)
  qed (use assms in \<open>auto simp: pw_inv_def mutex_free_def joinable_def\<close>)
  moreover have "pw_step f Owner ?r (?r\<lparr>pw_owner := Destroyed\<rparr>)" by (rule pw_step.joins) simp_all
  ultimately have "pw_run f w [Owner, Owner, Worker, Owner] (?r\<lparr>pw_owner := Destroyed\<rparr>)"
    using c n by (meson pw_run.intros)
  moreover have "?r\<lparr>pw_owner := Destroyed\<rparr> = w\<lparr>pw_active := False, pw_thread := Returned, pw_owner := Destroyed\<rparr>" by (cases w) simp
  ultimately show ?thesis by metis
qed

lemma stop_worker_runs:
  assumes "pw_inv w" "pw_owner w = Owning"
  shows "\<exists>ms. pw_run f w ms (stop_worker f w)"
proof -
  let ?w1 = "if pw_thread w = In_Callback then run_callback f w else w"
  have o: "pw_owner ?w1 = Owning" using assms(2) by (simp add: run_callback_def split: prod.split)
  have i: "pw_inv ?w1" using assms(1) pw_step_inv[OF pw_step.calls[of w f]] by simp
  have first: "\<exists>ms. pw_run f w ms w'" if "\<exists>ms. pw_run f ?w1 ms w'" for w'
  proof (cases "pw_thread w = In_Callback")
    case True
    with that show ?thesis using pw_run.go[OF pw_step.calls[OF True, of f]] by auto
  qed (use that in simp)
  have t: "pw_thread ?w1 \<noteq> In_Callback" by (simp add: run_callback_def split: prod.split sum.split)
  show ?thesis
  proof (cases "pw_thread ?w1 = Crashed \<or> \<not> joinable ?w1")
    case True
    have "\<exists>ms. pw_run f ?w1 ms (stop_worker f w)"
      using True pw_run.go[OF pw_step.no_thread[OF o, of f] pw_run.stay] pw_run.stay[of f ?w1]
      by (cases "pw_thread ?w1 = Crashed") (auto simp only: stop_worker_def Let_def if_True if_False simp_thms)
    then show ?thesis by (rule first)
  next
    case False
    then have "mutex_free ?w1" "joinable ?w1" using t by (auto simp: mutex_free_def)
    from stop_idle_worker_runs[OF i o this, of f] False show ?thesis
      by (intro first) (simp add: stop_worker_def Let_def)
  qed
qed

subsection \<open>A pattern for every sink\<close>

lemma compile_from_keeps [simp]:
  "pf_pattern (compile_from U e u it pf) = pf_pattern pf \<and> pf_time_type (compile_from U e u it pf) = pf_time_type pf \<and>
   pf_eol (compile_from U e u it pf) = pf_eol pf \<and> pf_custom_handlers (compile_from U e u it pf) = pf_custom_handlers pf"
proof (induction U e u it pf rule: compile_from.induct)
  case (1 U e u pf)
  then show ?case by (simp add: push_user_chars_def push_formatter_def split: option.split)
next
  case (2 U e u c it pf)
  then show ?case
    by (auto simp: push_user_chars_def push_formatter_def handle_flag_def need_localtime_def Let_def split: option.split prod.split list.split)
qed

lemma plain_clone: "pf_clone U e (plain_pattern U e pattern time_type) = plain_pattern U e pattern time_type"
proof -
  have "need_localtime (pf_need_localtime pf) pf = pf" for pf :: "'a pattern_formatter" by (simp add: need_localtime_def)
  then show ?thesis by (simp add: pf_clone_def plain_pattern_def new_pattern_formatter_def compile_pattern_def)
qed

lemma give_formatter_at: "cl f = f \<Longrightarrow> give_formatter cl f ks F k = (if k \<in> set ks then f else F k)"
  by (induction cl f ks F rule: give_formatter.induct) auto

lemma set_formatter_fold:
  assumes "cl f = f" "rg_formatter r = f"
  shows "let r' = fold (\<lambda>(n, p) r. logger_set_formatter cl (cl (rg_formatter r)) p r) t r in
    rg_formatter r' = f \<and> rg_loggers r' = rg_loggers r \<and> rw_loggers (rg_world r') = rw_loggers (rg_world r) \<and>
    rw_formatters (rg_world r') k =
      (if k \<in> set (concat (map (\<lambda>(_, p). lg_sinks (logger_at r p)) t)) then f else rw_formatters (rg_world r) k)"
  using assms(2)
proof (induction t arbitrary: r)
  case (Cons x t)
  obtain n p where x: "x = (n, p)" by (cases x)
  let ?r = "logger_set_formatter cl (cl (rg_formatter r)) p r"
  have "rg_formatter ?r = f" using Cons.prems by (simp add: logger_set_formatter_def)
  from Cons.IH[OF this] show ?case
    using Cons.prems assms(1) by (auto simp: x Let_def logger_set_formatter_def give_formatter_at)
qed simp

text \<open>
  \<open>set_pattern\<close> gives the pattern to every sink of every registered logger, through the clones the registry and the loggers
  make, and remembers it for the loggers to come; every other sink keeps its formatter, and no logger changes.
\<close>

theorem set_pattern_everywhere:
  "rw_formatters (rg_world (global_set_pattern U e pattern time_type r)) k =
     (if k \<in> set (concat (map (\<lambda>(_, p). lg_sinks (logger_at r p)) (rg_loggers r)))
      then plain_pattern U e pattern time_type else rw_formatters (rg_world r) k) \<and>
   rg_formatter (global_set_pattern U e pattern time_type r) = plain_pattern U e pattern time_type \<and>
   rg_loggers (global_set_pattern U e pattern time_type r) = rg_loggers r \<and>
   logger_at (global_set_pattern U e pattern time_type r) = logger_at r"
  using set_formatter_fold[where cl = "pf_clone U e" and f = "plain_pattern U e pattern time_type" and t = "rg_loggers r" and k = k and
      r = "r\<lparr>rg_formatter := plain_pattern U e pattern time_type\<rparr>"] plain_clone[of U e pattern time_type]
  by (auto simp: global_set_pattern_def registry_set_formatter_def for_loggers_def Let_def)

subsection \<open>A new logger\<close>

lemma on_logger_simps [simp]:
  "rg_loggers (on_logger p f r) = rg_loggers r" "rg_formatter (on_logger p f r) = rg_formatter r"
  "rg_log_levels (on_logger p f r) = rg_log_levels r" "rg_global_log_level (on_logger p f r) = rg_global_log_level r"
  "rg_flush_level (on_logger p f r) = rg_flush_level r" "rg_err_handler (on_logger p f r) = rg_err_handler r"
  "rg_automatic_registration (on_logger p f r) = rg_automatic_registration r"
  "rg_backtrace_n_messages (on_logger p f r) = rg_backtrace_n_messages r"
  "rw_formatters (rg_world (on_logger p f r)) = rw_formatters (rg_world r)"
  "logger_at (on_logger p f r) = (logger_at r)(p := f (logger_at r p))"
  by (simp_all add: on_logger_def fun_eq_iff)

text \<open>
  C35. A synchronous logger that is created gets a clone of the formatter of the registry for its sink, the level configured for its
  name or else the global one, the flush level, error handler and backtrace size of the registry. With automatic
  registration, the default, it is then found under its name if the name was free; if the name was taken, creating it throws and the table
  of names is as before. With automatic registration switched off, creating it never throws and no name changes its meaning.
\<close>

theorem created_logger:
  assumes "sync_create cl f name k p r = (res, r')"
  shows "lg_level (logger_at r' p) = (case rg_log_levels r name of Some l \<Rightarrow> l | None \<Rightarrow> rg_global_log_level r) \<and>
    lg_flush_level (logger_at r' p) = rg_flush_level r \<and> lg_custom_err_handler (logger_at r' p) = rg_err_handler r \<and>
    lg_tracer (logger_at r' p) =
      (if rg_backtrace_n_messages r > 0 then bt_enable (rg_backtrace_n_messages r) new_backtracer else new_backtracer) \<and>
    rw_formatters (rg_world r') k = cl (rg_formatter r) \<and>
    (if rg_automatic_registration r \<and> registry_get name r \<noteq> None
     then res = Inl (Thrown (spdlog_ex (str ''logger with name '' @ [39] @ name @ [39] @ str '' already exists''))) \<and> registry_get n r' = registry_get n r
     else res = Inr () \<and> registry_get n r' = (if rg_automatic_registration r \<and> n = name then Some p else registry_get n r))"
proof -
  let ?r0 = "place_logger f k (new_logger name [k]) p r"
  let ?r1 = "logger_set_formatter cl (cl (rg_formatter ?r0)) p ?r0"
  let ?r2 = "case rg_err_handler ?r1 of Some h \<Rightarrow> on_logger p (set_error_handler h) ?r1 | None \<Rightarrow> ?r1"
  let ?r4 = "on_logger p (flush_on (rg_flush_level ?r2)) (on_logger p (set_level (configured_level name ?r2)) ?r2)"
  let ?r5 = "if rg_backtrace_n_messages r > 0 then on_logger p (enable_backtrace (rg_backtrace_n_messages r)) ?r4 else ?r4"
  have 2: "lg_name (logger_at ?r2 p) = name" "rg_backtrace_n_messages ?r2 = rg_backtrace_n_messages r" "rg_flush_level ?r2 = rg_flush_level r"
      "rg_automatic_registration ?r2 = rg_automatic_registration r" "rg_loggers ?r2 = rg_loggers r"
      "rw_formatters (rg_world ?r2) k = cl (rg_formatter r)" "lg_custom_err_handler (logger_at ?r2 p) = rg_err_handler r"
      "lg_tracer (logger_at ?r2 p) = new_backtracer"
      "configured_level name ?r2 = (case rg_log_levels r name of Some l \<Rightarrow> l | None \<Rightarrow> rg_global_log_level r)"
    by (simp_all add: place_logger_def logger_set_formatter_def new_logger_def set_error_handler_def configured_level_def split: option.split)
  have run: "sync_create cl f name k p r = (if rg_automatic_registration r then register_logger p ?r5 else (Inr (), ?r5))"
    by (simp add: sync_create_def initialize_logger_def Let_def 2 set_level_def flush_on_def enable_backtrace_def)
  have 5: "lg_name (logger_at ?r5 p) = name" "lg_level (logger_at ?r5 p) = configured_level name ?r2" "lg_flush_level (logger_at ?r5 p) = rg_flush_level r"
      "lg_custom_err_handler (logger_at ?r5 p) = rg_err_handler r" "rw_formatters (rg_world ?r5) k = cl (rg_formatter r)" "rg_loggers ?r5 = rg_loggers r"
      "lg_tracer (logger_at ?r5 p) =
        (if rg_backtrace_n_messages r > 0 then bt_enable (rg_backtrace_n_messages r) new_backtracer else new_backtracer)"
    by (simp_all add: 2 set_level_def flush_on_def enable_backtrace_def)
  have reg: "register_logger p ?r5 = (if registry_get name r \<noteq> None
      then (Inl (Thrown (spdlog_ex (str ''logger with name '' @ [39] @ name @ [39] @ str '' already exists''))), ?r5)
      else (Inr (), ?r5\<lparr>rg_loggers := put_entry name p (rg_loggers r)\<rparr>))"
    unfolding register_logger_def throw_if_exists_def 5 registry_get_def by (auto simp: map_of_eq_None_iff)
  show ?thesis
  proof (cases "rg_automatic_registration r")
    case True
    then show ?thesis
      using assms 5 2(9) unfolding run reg by (auto simp del: on_logger_simps simp: registry_get_def)
  next
    case False
    then show ?thesis using assms 5 2(9) unfolding run by (auto simp del: on_logger_simps simp: registry_get_def)
  qed
qed

theorem created_logger_witness:
  "fst (sync_create id () [98] 7 2 sample_registry) = Inr () \<and> registry_get [98] (snd (sync_create id () [98] 7 2 sample_registry)) = Some 2 \<and>
   fst (sync_create id () [97] 7 2 sample_registry) \<noteq> Inr () \<and> lg_level (logger_at (snd (sync_create id () [98] 7 2 sample_registry)) 2) = lv_info"
  using created_logger[of id "()" "[98]" 7 2 sample_registry _ _ "[98]", OF prod.collapse[symmetric]]
    created_logger[of id "()" "[97]" 7 2 sample_registry _ _ "[97]", OF prod.collapse[symmetric]]
  by (simp add: sample_registry_def new_registry_def registry_get_def)

end
