(* ===== verification/Generators.thy ===== *)
theory Generators
  imports Purity_Prelude
begin

text \<open>
  \<open>src/common/utils/generators/GeneratorUtils.cpp\<close>. The engine of the standard library is a state \<open>'g\<close>, its distributions are
  functions of this state; what the standard says of a uniform distribution of integers is \<open>uniform_ok\<close>. Real numbers are values \<open>'r\<close>.
\<close>

record ('g, 'r) random_lib =
  uniform_int_distribution :: "int \<Rightarrow> int \<Rightarrow> 'g \<Rightarrow> int \<times> 'g"
  uniform_real_distribution :: "'r \<Rightarrow> 'r \<Rightarrow> 'g \<Rightarrow> 'r \<times> 'g"
  bernoulli_distribution :: "'r \<Rightarrow> 'g \<Rightarrow> bool \<times> 'g"

definition uniform_ok :: "('g, 'r) random_lib \<Rightarrow> bool" where
  "uniform_ok lib \<longleftrightarrow> (\<forall>a b g. a \<le> b \<longrightarrow> a \<le> fst (uniform_int_distribution lib a b g) \<and> fst (uniform_int_distribution lib a b g) \<le> b)"

text \<open>The conversion of the result to the type that is returned.\<close>

definition cast_result :: "int \<times> 'g \<Rightarrow> 'a::len word \<times> 'g" where
  "cast_result r = (word_of_int (fst r), snd r)"

definition random_uint8 :: "('g, 'r) random_lib \<Rightarrow> 'g \<Rightarrow> byte \<times> 'g" where
  "random_uint8 lib gen = cast_result (uniform_int_distribution lib 0 0xFF gen)"

definition random_uint16 :: "('g, 'r) random_lib \<Rightarrow> 'g \<Rightarrow> u16 \<times> 'g" where
  "random_uint16 lib gen = cast_result (uniform_int_distribution lib 0 0xFFFF gen)"

text \<open>Without arguments the distribution goes from zero to the largest value of its type.\<close>

definition random_uint32 :: "('g, 'r) random_lib \<Rightarrow> 'g \<Rightarrow> u32 \<times> 'g" where
  "random_uint32 lib gen = cast_result (uniform_int_distribution lib 0 0xFFFFFFFF gen)"

definition random_uint64 :: "('g, 'r) random_lib \<Rightarrow> 'g \<Rightarrow> u64 \<times> 'g" where
  "random_uint64 lib gen = cast_result (uniform_int_distribution lib 0 0xFFFFFFFFFFFFFFFF gen)"

definition random_int8 :: "('g, 'r) random_lib \<Rightarrow> 'g \<Rightarrow> byte \<times> 'g" where
  "random_int8 lib gen = cast_result (uniform_int_distribution lib (- 0x80) 0x7F gen)"

definition random_int16 :: "('g, 'r) random_lib \<Rightarrow> 'g \<Rightarrow> u16 \<times> 'g" where
  "random_int16 lib gen = cast_result (uniform_int_distribution lib (- 0x8000) 0x7FFF gen)"

definition random_int32 :: "('g, 'r) random_lib \<Rightarrow> 'g \<Rightarrow> u32 \<times> 'g" where
  "random_int32 lib gen = cast_result (uniform_int_distribution lib (- 0x80000000) 0x7FFFFFFF gen)"

definition random_int64 :: "('g, 'r) random_lib \<Rightarrow> 'g \<Rightarrow> u64 \<times> 'g" where
  "random_int64 lib gen = cast_result (uniform_int_distribution lib (- 0x8000000000000000) 0x7FFFFFFFFFFFFFFF gen)"

definition random_float :: "('g, 'r) random_lib \<Rightarrow> 'r \<Rightarrow> 'r \<Rightarrow> 'g \<Rightarrow> 'r \<times> 'g" where
  "random_float lib lo hi gen = uniform_real_distribution lib lo hi gen"

definition random_double :: "('g, 'r) random_lib \<Rightarrow> 'r \<Rightarrow> 'r \<Rightarrow> 'g \<Rightarrow> 'r \<times> 'g" where
  "random_double lib lo hi gen = uniform_real_distribution lib lo hi gen"

definition random_bool :: "('g, 'r) random_lib \<Rightarrow> 'r \<Rightarrow> 'g \<Rightarrow> bool \<times> 'g" where
  "random_bool lib half gen = bernoulli_distribution lib half gen"

subsection \<open>Nothing is cut off\<close>

lemma cast_unsigned:
  assumes "uniform_ok lib" "b < 2 ^ LENGTH('a::len)" "0 \<le> b"
  shows "uint (fst (cast_result (uniform_int_distribution lib 0 b gen)) :: 'a word) = fst (uniform_int_distribution lib 0 b gen)"
proof -
  have "0 \<le> fst (uniform_int_distribution lib 0 b gen)" "fst (uniform_int_distribution lib 0 b gen) \<le> b"
    using assms(1,3) by (simp_all add: uniform_ok_def)
  then show ?thesis using assms(2) by (simp add: cast_result_def uint_word_of_int_eq take_bit_int_eq_self_iff)
qed

lemma cast_signed:
  assumes "uniform_ok lib" "- (2 ^ (LENGTH('a::len) - 1)) \<le> a" "b < 2 ^ (LENGTH('a) - 1)" "a \<le> b"
  shows "sint (fst (cast_result (uniform_int_distribution lib a b gen)) :: 'a word) = fst (uniform_int_distribution lib a b gen)"
proof -
  have "a \<le> fst (uniform_int_distribution lib a b gen)" "fst (uniform_int_distribution lib a b gen) \<le> b"
    using assms(1,4) by (simp_all add: uniform_ok_def)
  then show ?thesis using assms(2,3) by (simp add: cast_result_def sint_sbintrunc' signed_take_bit_int_eq_self_iff)
qed

text \<open>Each function returns the number that was drawn from the range of its type, so every value of the type can come.\<close>

lemma drawn_numbers:
  assumes "uniform_ok lib"
  shows "uint (fst (random_uint8 lib gen)) = fst (uniform_int_distribution lib 0 0xFF gen)"
    "uint (fst (random_uint16 lib gen)) = fst (uniform_int_distribution lib 0 0xFFFF gen)"
    "uint (fst (random_uint32 lib gen)) = fst (uniform_int_distribution lib 0 0xFFFFFFFF gen)"
    "uint (fst (random_uint64 lib gen)) = fst (uniform_int_distribution lib 0 0xFFFFFFFFFFFFFFFF gen)"
    "sint (fst (random_int8 lib gen)) = fst (uniform_int_distribution lib (- 0x80) 0x7F gen)"
    "sint (fst (random_int16 lib gen)) = fst (uniform_int_distribution lib (- 0x8000) 0x7FFF gen)"
    "sint (fst (random_int32 lib gen)) = fst (uniform_int_distribution lib (- 0x80000000) 0x7FFFFFFF gen)"
    "sint (fst (random_int64 lib gen)) = fst (uniform_int_distribution lib (- 0x8000000000000000) 0x7FFFFFFFFFFFFFFF gen)"
  unfolding random_uint8_def random_uint16_def random_uint32_def random_uint64_def random_int8_def random_int16_def random_int32_def random_int64_def
  by (rule cast_unsigned[OF assms] cast_signed[OF assms]; simp)+

end
