(* ===== verification/Fmt_Buffer.thy ===== *)
theory Fmt_Buffer
  imports Purity_Prelude
begin

text \<open>
  The output buffers of the formatting library (\<open>base.h\<close>, class \<open>buffer\<close> and its descendants, and \<open>basic_memory_buffer\<close> of \<open>format.h\<close>). A
  buffer has the bytes written since it was last emptied, a capacity, and what its class adds; the class gives the function that makes
  room. Sizes are natural numbers: a buffer is in memory, so their sums do not wrap.
\<close>

subsection \<open>The base class\<close>

record 'x fbuf =
  fb_data :: bytes
  fb_capacity :: nat
  fb_sub :: 'x

text \<open>Memory that cannot be had, and a write behind the capacity, which the code does not check.\<close>

datatype buf_fault = bad_alloc | out_of_bounds

type_synonym 'x grow_fun = "nat \<Rightarrow> 'x fbuf \<Rightarrow> (buf_fault + unit) \<times> 'x fbuf"

definition fb_size :: "'x fbuf \<Rightarrow> nat" where
  "fb_size b = length (fb_data b)"

definition fb_clear :: "'x fbuf \<Rightarrow> 'x fbuf" where
  "fb_clear b = b\<lparr>fb_data := []\<rparr>"

definition try_reserve :: "'x grow_fun \<Rightarrow> nat \<Rightarrow> 'x fbuf \<Rightarrow> (buf_fault + unit) \<times> 'x fbuf" where
  "try_reserve grow new_capacity b = (if new_capacity > fb_capacity b then grow new_capacity b else (Inr (), b))"

text \<open>New elements are not initialised: they are whatever \<open>junk\<close> says.\<close>

definition try_resize :: "'x grow_fun \<Rightarrow> (nat \<Rightarrow> byte) \<Rightarrow> nat \<Rightarrow> 'x fbuf \<Rightarrow> (buf_fault + unit) \<times> 'x fbuf" where
  "try_resize grow junk count b =
     (case try_reserve grow count b of
        (Inl e, b) \<Rightarrow> (Inl e, b)
      | (Inr _, b) \<Rightarrow>
          let n = min count (fb_capacity b) in
          (Inr (), b\<lparr>fb_data := take n (fb_data b) @ map junk [fb_size b..<n]\<rparr>))"

definition fb_push_back :: "'x grow_fun \<Rightarrow> byte \<Rightarrow> 'x fbuf \<Rightarrow> (buf_fault + unit) \<times> 'x fbuf" where
  "fb_push_back grow v b =
     (case try_reserve grow (fb_size b + 1) b of
        (Inl e, b) \<Rightarrow> (Inl e, b)
      | (Inr _, b) \<Rightarrow> if fb_size b < fb_capacity b then (Inr (), b\<lparr>fb_data := fb_data b @ [v]\<rparr>) else (Inl out_of_bounds, b))"

text \<open>The loop of \<open>append\<close> goes on as long as there is something left, so it ends only if making room makes some.\<close>

partial_function (option) fb_append :: "'x grow_fun \<Rightarrow> bytes \<Rightarrow> 'x fbuf \<Rightarrow> ((buf_fault + unit) \<times> 'x fbuf) option" where
  "fb_append grow bs b =
     (if bs = [] then Some (Inr (), b)
      else
        case try_reserve grow (fb_size b + length bs) b of
          (Inl e, b) \<Rightarrow> Some (Inl e, b)
        | (Inr _, b) \<Rightarrow>
            let n = min (length bs) (fb_capacity b - fb_size b) in
            fb_append grow (drop n bs) (b\<lparr>fb_data := fb_data b @ take n bs\<rparr>))"

text \<open>
  \<open>to_pointer\<close>: the position of \<open>n\<close> new elements, if the buffer has room for them in one piece. Numbers are written there, or otherwise to a
  small array first, which is then appended.
\<close>

definition to_pointer :: "'x grow_fun \<Rightarrow> (nat \<Rightarrow> byte) \<Rightarrow> nat \<Rightarrow> 'x fbuf \<Rightarrow> (buf_fault + nat option) \<times> 'x fbuf" where
  "to_pointer grow junk n b =
     (case try_reserve grow (fb_size b + n) b of
        (Inl e, b) \<Rightarrow> (Inl e, b)
      | (Inr _, b) \<Rightarrow>
          let size = fb_size b in
          if fb_capacity b < size + n then (Inr None, b)
          else (case try_resize grow junk (size + n) b of (Inl e, b) \<Rightarrow> (Inl e, b) | (Inr _, b) \<Rightarrow> (Inr (Some size), b)))"

definition write_direct :: "'x grow_fun \<Rightarrow> (nat \<Rightarrow> byte) \<Rightarrow> bytes \<Rightarrow> 'x fbuf \<Rightarrow> ((buf_fault + unit) \<times> 'x fbuf) option" where
  "write_direct grow junk bs b =
     (case to_pointer grow junk (length bs) b of
        (Inl e, b) \<Rightarrow> Some (Inl e, b)
      | (Inr (Some p), b) \<Rightarrow> Some (Inr (), b\<lparr>fb_data := take p (fb_data b) @ bs @ drop (p + length bs) (fb_data b)\<rparr>)
      | (Inr None, b) \<Rightarrow> fb_append grow bs b)"

text \<open>What an appender does to its buffer: one byte, several, several in place, or only asking for room.\<close>

datatype buf_write = Push byte | Append bytes | Direct "nat \<Rightarrow> byte" bytes | Reserve nat

fun fb_write :: "'x grow_fun \<Rightarrow> buf_write \<Rightarrow> 'x fbuf \<Rightarrow> ((buf_fault + unit) \<times> 'x fbuf) option" where
  "fb_write grow (Push v) b = Some (fb_push_back grow v b)"
| "fb_write grow (Append bs) b = fb_append grow bs b"
| "fb_write grow (Direct junk bs) b = write_direct grow junk bs b"
| "fb_write grow (Reserve n) b = Some (try_reserve grow (fb_size b + n) b)"

fun fb_writes :: "'x grow_fun \<Rightarrow> buf_write list \<Rightarrow> 'x fbuf \<Rightarrow> ((buf_fault + unit) \<times> 'x fbuf) option" where
  "fb_writes grow [] b = Some (Inr (), b)"
| "fb_writes grow (w # ws) b =
     (case fb_write grow w b of
        None \<Rightarrow> None
      | Some (Inl e, b) \<Rightarrow> Some (Inl e, b)
      | Some (Inr _, b) \<Rightarrow> fb_writes grow ws b)"

fun text_of_write :: "buf_write \<Rightarrow> bytes" where
  "text_of_write (Push v) = [v]"
| "text_of_write (Append bs) = bs"
| "text_of_write (Direct junk bs) = bs"
| "text_of_write (Reserve n) = []"

definition written :: "buf_write list \<Rightarrow> bytes" where
  "written ws = concat (map text_of_write ws)"

subsection \<open>What a buffer promises\<close>

text \<open>
  \<open>holds b xs\<close>: everything written to \<open>b\<close> so far is \<open>xs\<close>, wherever the class has put it; \<open>may_fail\<close>: the class asks for memory.
\<close>

locale output_buffer =
  fixes grow :: "'x grow_fun" and holds :: "'x fbuf \<Rightarrow> bytes \<Rightarrow> bool" and may_fail :: bool
  assumes bounded: "holds b xs \<Longrightarrow> fb_size b \<le> fb_capacity b"
    and makes_room: "holds b xs \<Longrightarrow> fb_capacity b < n \<Longrightarrow> grow n b = (Inr u, b') \<Longrightarrow> holds b' xs \<and> fb_size b' < fb_capacity b'"
    and fails_cleanly: "holds b xs \<Longrightarrow> grow n b = (Inl e, b') \<Longrightarrow> may_fail \<and> e = bad_alloc \<and> holds b' xs"
    and takes: "holds b xs \<Longrightarrow> length ys \<le> fb_capacity b - fb_size b \<Longrightarrow> holds (b\<lparr>fb_data := fb_data b @ ys\<rparr>) (xs @ ys)"
begin

text \<open>A write ends: all of it is written, or memory ran out and some first part is.\<close>

definition wrote_all :: "bytes \<Rightarrow> bytes \<Rightarrow> (buf_fault + unit) \<times> 'x fbuf \<Rightarrow> bool" where
  "wrote_all xs ys rb \<longleftrightarrow> (case rb of (Inr _, b) \<Rightarrow> holds b (xs @ ys) | (Inl e, b) \<Rightarrow> may_fail \<and> e = bad_alloc \<and> (\<exists>k. holds b (xs @ take k ys)))"

lemma reserve_ok:
  assumes "holds b xs" "try_reserve grow n b = (r, b')"
  shows "(case r of Inl e \<Rightarrow> may_fail \<and> e = bad_alloc \<and> holds b' xs
         | Inr _ \<Rightarrow> holds b' xs \<and> (n \<le> fb_capacity b' \<and> b' = b \<or> fb_size b' < fb_capacity b'))"
  using assms makes_room[OF assms(1), of n] fails_cleanly[OF assms(1), of n]
  by (auto simp: try_reserve_def split: sum.splits if_splits)

lemma push_ok:
  assumes "holds b xs"
  shows "wrote_all xs [v] (fb_push_back grow v b)"
proof -
  obtain r b' where t: "try_reserve grow (fb_size b + 1) b = (r, b')" by (cases "try_reserve grow (fb_size b + 1) b") auto
  note ok = reserve_ok[OF assms t]
  show ?thesis
  proof (cases r)
    case (Inl e)
    then have "holds b' (xs @ take 0 [v])" using ok by simp
    then show ?thesis using ok Inl unfolding fb_push_back_def t wrote_all_def by (auto intro: exI[of _ 0])
  next
    case (Inr u)
    then have h: "holds b' xs" "fb_size b' < fb_capacity b'" using ok by auto
    then show ?thesis using takes[OF h(1), of "[v]"] Inr unfolding fb_push_back_def t wrote_all_def by simp
  qed
qed

lemma append_ok: "holds b xs \<Longrightarrow> \<exists>rb. fb_append grow bs b = Some rb \<and> wrote_all xs bs rb"
proof (induction "length bs" arbitrary: bs b xs rule: less_induct)
  case less
  show ?case
  proof (cases "bs = []")
    case True
    then show ?thesis using less.prems by (simp add: fb_append.simps wrote_all_def)
  next
    case False
    obtain r b' where t: "try_reserve grow (fb_size b + length bs) b = (r, b')" by (cases "try_reserve grow (fb_size b + length bs) b") auto
    note ok = reserve_ok[OF less.prems t]
    show ?thesis
    proof (cases r)
      case (Inl e)
      then have "may_fail" "e = bad_alloc" "holds b' (xs @ take 0 bs)" using ok by simp_all
      then show ?thesis using False t Inl unfolding wrote_all_def by (auto simp: fb_append.simps intro: exI[of _ 0])
    next
      case (Inr u)
      define n where "n = min (length bs) (fb_capacity b' - fb_size b')"
      have h: "holds b' xs" using ok Inr by simp
      have n: "n > 0" using ok Inr False by (cases bs) (auto simp: n_def)
      have n2: "n \<le> fb_capacity b' - fb_size b'" "n \<le> length bs" by (simp_all add: n_def)
      then have "holds (b'\<lparr>fb_data := fb_data b' @ take n bs\<rparr>) (xs @ take n bs)" using takes[OF h, of "take n bs"] by simp
      from less.hyps[OF _ this, of "drop n bs"] obtain rb where
        rb: "fb_append grow (drop n bs) (b'\<lparr>fb_data := fb_data b' @ take n bs\<rparr>) = Some rb" "wrote_all (xs @ take n bs) (drop n bs) rb"
        using n False by auto
      have "wrote_all xs bs rb"
      proof (cases rb)
        case (Pair q c)
        have "xs @ take n bs @ take k (drop n bs) = xs @ take (n + k) bs" for k by (simp add: take_add)
        then show ?thesis using rb(2) Pair by (auto simp: wrote_all_def split: sum.splits)
      qed
      moreover have "fb_append grow bs b = Some rb" using False t Inr rb(1) by (subst fb_append.simps) (simp add: n_def Let_def)
      ultimately show ?thesis by blast
    qed
  qed
qed

lemma direct_ok:
  assumes "holds b xs"
  shows "\<exists>rb. write_direct grow junk bs b = Some rb \<and> wrote_all xs bs rb"
proof -
  obtain r b' where t: "try_reserve grow (fb_size b + length bs) b = (r, b')" by (cases "try_reserve grow (fb_size b + length bs) b") auto
  note ok = reserve_ok[OF assms t]
  show ?thesis
  proof (cases r)
    case (Inl e)
    then have "may_fail" "e = bad_alloc" "holds b' (xs @ take 0 bs)" using ok by simp_all
    then show ?thesis using t Inl unfolding wrote_all_def write_direct_def to_pointer_def by (auto intro: exI[of _ 0])
  next
    case (Inr u)
    then have h: "holds b' xs" using ok by simp
    show ?thesis
    proof (cases "fb_capacity b' < fb_size b' + length bs")
      case True
      then show ?thesis using append_ok[OF h, of bs] t Inr unfolding write_direct_def to_pointer_def by simp
    next
      case False
      then have fit: "length bs \<le> fb_capacity b' - fb_size b'" by simp
      show ?thesis
        using takes[OF h fit] False t Inr unfolding write_direct_def to_pointer_def wrote_all_def
        by (simp add: try_resize_def try_reserve_def Let_def fb_size_def min_absorb1)
    qed
  qed
qed

lemma write_ok: "holds b xs \<Longrightarrow> \<exists>rb. fb_write grow w b = Some rb \<and> wrote_all xs (text_of_write w) rb"
proof (cases w)
  case (Reserve n)
  assume h: "holds b xs"
  obtain r b' where t: "try_reserve grow (fb_size b + n) b = (r, b')" by (cases "try_reserve grow (fb_size b + n) b") auto
  show ?thesis using reserve_ok[OF h t] t Reserve by (auto simp: wrote_all_def split: sum.splits)
qed (use push_ok append_ok direct_ok in auto)

lemma writes_ok: "holds b xs \<Longrightarrow> \<exists>rb. fb_writes grow ws b = Some rb \<and> wrote_all xs (written ws) rb"
proof (induction ws arbitrary: b xs)
  case Nil
  then show ?case by (simp add: wrote_all_def written_def)
next
  case (Cons w ws)
  obtain r b' where 1: "fb_write grow w b = Some (r, b')" "wrote_all xs (text_of_write w) (r, b')" using write_ok[OF Cons.prems, of w] by (metis surj_pair)
  show ?case
  proof (cases r)
    case (Inl e)
    then obtain k where "may_fail" "e = bad_alloc" "holds b' (xs @ take k (text_of_write w))" using 1 by (auto simp: wrote_all_def)
    moreover have "take k (text_of_write w) = take (min k (length (text_of_write w))) (written (w # ws))" by (simp add: written_def min_def)
    ultimately show ?thesis using 1(1) Inl unfolding wrote_all_def by auto
  next
    case (Inr u)
    then have "holds b' (xs @ text_of_write w)" using 1 by (simp add: wrote_all_def)
    from Cons.IH[OF this] obtain rb where rb: "fb_writes grow ws b' = Some rb" "wrote_all (xs @ text_of_write w) (written ws) rb" by blast
    have "wrote_all xs (written (w # ws)) rb"
    proof (cases rb)
      case (Pair q c)
      have app: "xs @ text_of_write w @ take k (written ws) = xs @ take (length (text_of_write w) + k) (written (w # ws))" for k by (simp add: written_def)
      show ?thesis
      proof (cases q)
        case (Inl e)
        then show ?thesis using rb(2) Pair unfolding wrote_all_def by (simp add: app) blast
      next
        case (Inr u)
        then show ?thesis using rb(2) Pair by (simp add: wrote_all_def written_def)
      qed
    qed
    then show ?thesis using 1 Inr rb(1) by simp
  qed
qed

end

subsection \<open>Memory\<close>

text \<open>
  \<open>basic_memory_buffer\<close>: which sizes the allocator can provide, its largest size, and the sizes of the blocks that are allocated; the
  first \<open>inline_buffer_size\<close> bytes are in the object.
\<close>

record memory_sub =
  mb_can_allocate :: "nat \<Rightarrow> bool"
  mb_max_size :: nat
  mb_heap_block :: "nat option"

definition inline_buffer_size :: nat where
  "inline_buffer_size = 500"

definition memory_new_capacity :: "nat \<Rightarrow> nat \<Rightarrow> nat \<Rightarrow> nat" where
  "memory_new_capacity max_size old_capacity sz =
     (let new_capacity = old_capacity + old_capacity div 2 in
      if sz > new_capacity then sz else if new_capacity > max_size then max sz max_size else new_capacity)"

definition memory_grow :: "memory_sub grow_fun" where
  "memory_grow sz b =
     (let n = memory_new_capacity (mb_max_size (fb_sub b)) (fb_capacity b) sz in
      if mb_can_allocate (fb_sub b) n then (Inr (), b\<lparr>fb_capacity := n, fb_sub := (fb_sub b)\<lparr>mb_heap_block := Some n\<rparr>\<rparr>)
      else (Inl bad_alloc, b))"

definition new_memory_buffer :: "(nat \<Rightarrow> bool) \<Rightarrow> nat \<Rightarrow> memory_sub fbuf" where
  "new_memory_buffer can max_size =
     \<lparr>fb_data = [], fb_capacity = inline_buffer_size, fb_sub = \<lparr>mb_can_allocate = can, mb_max_size = max_size, mb_heap_block = None\<rparr>\<rparr>"

text \<open>The block that the destructor gives back: none as long as the data are in the object.\<close>

definition memory_deallocate :: "memory_sub fbuf \<Rightarrow> nat option" where
  "memory_deallocate b = (if mb_heap_block (fb_sub b) \<noteq> None then Some (fb_capacity b) else None)"

text \<open>Moving: the new object and the old one. Data in the old object are copied and stay there, a block is handed over.\<close>

definition memory_move :: "memory_sub fbuf \<Rightarrow> memory_sub fbuf \<times> memory_sub fbuf" where
  "memory_move other =
     (if mb_heap_block (fb_sub other) = None then (other, other)
      else (other, other\<lparr>fb_data := [], fb_capacity := 0, fb_sub := (fb_sub other)\<lparr>mb_heap_block := None\<rparr>\<rparr>))"

definition memory_holds :: "memory_sub fbuf \<Rightarrow> bytes \<Rightarrow> bool" where
  "memory_holds b xs \<longleftrightarrow> fb_data b = xs \<and> fb_size b \<le> fb_capacity b \<and>
     (\<forall>n. mb_heap_block (fb_sub b) = Some n \<longrightarrow> n = fb_capacity b)"

lemma memory_new_capacity_enough: "sz \<le> memory_new_capacity max_size old sz"
  by (auto simp: memory_new_capacity_def Let_def)

interpretation mem: output_buffer memory_grow memory_holds True
proof (unfold_locales, goal_cases)
  case (2 b xs n u b')
  then show ?case
    using memory_new_capacity_enough[of n "mb_max_size (fb_sub b)" "fb_capacity b"]
    by (auto simp: memory_grow_def memory_holds_def fb_size_def Let_def split: if_splits)
qed (auto simp: memory_holds_def memory_grow_def fb_size_def Let_def split: if_splits)

subsection \<open>An output iterator\<close>

text \<open>
  \<open>iterator_buffer\<close>: 256 bytes that are written to the iterator when they are full, all of them or, with \<open>fixed_buffer_traits\<close>, up to a limit.
\<close>

definition buffer_size_256 :: nat where
  "buffer_size_256 = 256"

record iterator_sub =
  ib_out :: bytes
  ib_limit :: "nat option"
  ib_count :: nat

definition traits_limit :: "nat \<Rightarrow> iterator_sub \<Rightarrow> nat \<times> iterator_sub" where
  "traits_limit sz s =
     (case ib_limit s of
        None \<Rightarrow> (sz, s)
      | Some limit \<Rightarrow> (min sz (if limit > ib_count s then limit - ib_count s else 0), s\<lparr>ib_count := ib_count s + sz\<rparr>))"

definition iterator_flush :: "iterator_sub fbuf \<Rightarrow> iterator_sub fbuf" where
  "iterator_flush b =
     (case traits_limit (fb_size b) (fb_sub b) of
        (n, s) \<Rightarrow> (fb_clear b)\<lparr>fb_sub := s\<lparr>ib_out := ib_out s @ take n (fb_data b)\<rparr>\<rparr>)"

definition iterator_grow :: "iterator_sub grow_fun" where
  "iterator_grow n b = (Inr (), if fb_size b = buffer_size_256 then iterator_flush b else b)"

definition new_iterator_buffer :: "bytes \<Rightarrow> nat option \<Rightarrow> iterator_sub fbuf" where
  "new_iterator_buffer out limit = \<lparr>fb_data = [], fb_capacity = buffer_size_256, fb_sub = \<lparr>ib_out = out, ib_limit = limit, ib_count = 0\<rparr>\<rparr>"

definition iterator_out :: "iterator_sub fbuf \<Rightarrow> bytes" where
  "iterator_out b = ib_out (fb_sub (iterator_flush b))"

definition iterator_count :: "iterator_sub fbuf \<Rightarrow> nat" where
  "iterator_count b = (if ib_limit (fb_sub b) = None then 0 else ib_count (fb_sub b)) + fb_size b"

definition cut_to :: "nat option \<Rightarrow> bytes \<Rightarrow> bytes" where
  "cut_to limit xs = (case limit of None \<Rightarrow> xs | Some n \<Rightarrow> take n xs)"

definition iterator_holds :: "bytes \<Rightarrow> nat option \<Rightarrow> iterator_sub fbuf \<Rightarrow> bytes \<Rightarrow> bool" where
  "iterator_holds out limit b xs \<longleftrightarrow>
     fb_capacity b = buffer_size_256 \<and> fb_size b \<le> buffer_size_256 \<and> ib_limit (fb_sub b) = limit \<and>
     (\<exists>ys. xs = ys @ fb_data b \<and> ib_out (fb_sub b) = out @ cut_to limit ys \<and> (limit \<noteq> None \<longrightarrow> ib_count (fb_sub b) = length ys))"

lemma iterator_flush_holds:
  assumes "iterator_holds out limit b xs"
  shows "iterator_holds out limit (iterator_flush b) xs" "fb_size (iterator_flush b) = 0" "iterator_out b = out @ cut_to limit xs"
proof -
  obtain ys where ys: "xs = ys @ fb_data b" "ib_out (fb_sub b) = out @ cut_to limit ys" "limit \<noteq> None \<longrightarrow> ib_count (fb_sub b) = length ys"
    using assms by (auto simp: iterator_holds_def)
  have l: "ib_limit (fb_sub b) = limit" using assms by (simp add: iterator_holds_def)
  have c: "take n (ys @ ds) = take n ys @ take (min (length ds) (n - length ys)) ds" for n and ds :: bytes by (simp add: min_def)
  show "fb_size (iterator_flush b) = 0" by (simp add: iterator_flush_def fb_clear_def fb_size_def split: prod.split)
  show out: "iterator_out b = out @ cut_to limit xs"
    using ys l c[of _ "fb_data b"] by (cases limit) (auto simp: iterator_out_def iterator_flush_def traits_limit_def fb_clear_def cut_to_def fb_size_def)
  then show "iterator_holds out limit (iterator_flush b) xs"
    using assms ys l by (cases limit) (auto simp: iterator_holds_def iterator_out_def iterator_flush_def traits_limit_def fb_clear_def fb_size_def)
qed

interpretation itb: output_buffer iterator_grow "iterator_holds out limit" False for out limit
proof (unfold_locales, goal_cases)
  case (2 b xs n u b')
  show ?case
  proof (cases "fb_size b = buffer_size_256")
    case True
    note fl = iterator_flush_holds[OF 2(1)]
    have "fb_capacity (iterator_flush b) = buffer_size_256" using fl(1) by (simp add: iterator_holds_def)
    then show ?thesis using 2(3) fl(1,2) True by (auto simp: iterator_grow_def buffer_size_256_def)
  next
    case False
    then have "fb_size b < fb_capacity b" using 2(1) by (simp add: iterator_holds_def)
    then show ?thesis using 2(1,3) False by (auto simp: iterator_grow_def)
  qed
qed (auto simp: iterator_holds_def iterator_grow_def buffer_size_256_def fb_size_def)

subsection \<open>An array of a given sz\<close>

text \<open>
  \<open>iterator_buffer\<close> for a pointer with a limit: the bytes are written to the array itself until it is full, and to a buffer that is thrown
  away after that.
\<close>

record fixed_sub =
  fx_array :: bytes
  fx_in_array :: bool
  fx_limit :: nat
  fx_count :: nat

definition fixed_flush :: "fixed_sub fbuf \<Rightarrow> fixed_sub fbuf" where
  "fixed_flush b =
     (let s = fb_sub b;
          n = min (fb_size b) (if fx_limit s > fx_count s then fx_limit s - fx_count s else 0);
          s = s\<lparr>fx_count := fx_count s + fb_size b\<rparr>
      in if fx_in_array s
         then b\<lparr>fb_data := [], fb_capacity := buffer_size_256, fb_sub := s\<lparr>fx_array := take n (fb_data b), fx_in_array := False\<rparr>\<rparr>
         else b\<lparr>fb_data := [], fb_sub := s\<rparr>)"

definition fixed_grow :: "fixed_sub grow_fun" where
  "fixed_grow n b = (Inr (), if fb_size b = fb_capacity b then fixed_flush b else b)"

definition new_fixed_buffer :: "nat \<Rightarrow> fixed_sub fbuf" where
  "new_fixed_buffer n = \<lparr>fb_data = [], fb_capacity = n, fb_sub = \<lparr>fx_array = [], fx_in_array = True, fx_limit = n, fx_count = 0\<rparr>\<rparr>"

definition fixed_out :: "fixed_sub fbuf \<Rightarrow> bytes" where
  "fixed_out b = fx_array (fb_sub (fixed_flush b))"

definition fixed_count :: "fixed_sub fbuf \<Rightarrow> nat" where
  "fixed_count b = fx_count (fb_sub b) + fb_size b"

definition fixed_holds :: "nat \<Rightarrow> fixed_sub fbuf \<Rightarrow> bytes \<Rightarrow> bool" where
  "fixed_holds limit b xs \<longleftrightarrow>
     fb_size b \<le> fb_capacity b \<and> fx_limit (fb_sub b) = limit \<and>
     (if fx_in_array (fb_sub b) then xs = fb_data b \<and> fb_capacity b = limit \<and> fx_count (fb_sub b) = 0
      else fb_capacity b = buffer_size_256 \<and> fx_array (fb_sub b) = take limit xs \<and> limit \<le> fx_count (fb_sub b) \<and>
        fx_count (fb_sub b) + fb_size b = length xs)"

interpretation fixed: output_buffer fixed_grow "fixed_holds limit" False for limit
proof (unfold_locales, goal_cases)
  case (2 b xs n u b')
  then show ?case by (auto simp: fixed_holds_def fixed_grow_def fixed_flush_def buffer_size_256_def fb_size_def Let_def split: if_splits)
qed (auto simp: fixed_holds_def fixed_grow_def fb_size_def split: if_splits)

text \<open>The result of \<open>format_to_n\<close>: what is in the array, and the size of the whole text.\<close>

lemma fixed_result:
  assumes "fixed_holds limit b xs"
  shows "fixed_out b = take limit xs" "fixed_count (fixed_flush b) = length xs"
  using assms by (auto simp: fixed_holds_def fixed_out_def fixed_count_def fixed_flush_def fb_size_def Let_def split: if_splits)

subsection \<open>Counting only\<close>

definition counting_grow :: "nat grow_fun" where
  "counting_grow n b = (Inr (), if fb_size b \<noteq> buffer_size_256 then b else fb_clear (b\<lparr>fb_sub := fb_sub b + fb_size b\<rparr>))"

definition new_counting_buffer :: "nat fbuf" where
  "new_counting_buffer = \<lparr>fb_data = [], fb_capacity = buffer_size_256, fb_sub = 0\<rparr>"

definition counting_count :: "nat fbuf \<Rightarrow> nat" where
  "counting_count b = fb_sub b + fb_size b"

definition counting_holds :: "nat fbuf \<Rightarrow> bytes \<Rightarrow> bool" where
  "counting_holds b xs \<longleftrightarrow> fb_capacity b = buffer_size_256 \<and> fb_size b \<le> buffer_size_256 \<and> counting_count b = length xs"

interpretation cnt: output_buffer counting_grow counting_holds False
  by unfold_locales (auto simp: counting_holds_def counting_grow_def counting_count_def fb_clear_def fb_size_def buffer_size_256_def)

subsection \<open>A container\<close>

text \<open>
  \<open>container_buffer\<close>: the data are in the container, which has as many elements as the capacity; those that are not written yet are zero.
  The type parameter says which sizes the container can take.
\<close>

definition container_grow :: "(nat \<Rightarrow> bool) grow_fun" where
  "container_grow n b = (if fb_sub b n then (Inr (), b\<lparr>fb_capacity := n\<rparr>) else (Inl bad_alloc, b))"

definition new_container_buffer :: "(nat \<Rightarrow> bool) \<Rightarrow> bytes \<Rightarrow> (nat \<Rightarrow> bool) fbuf" where
  "new_container_buffer can c = \<lparr>fb_data = c, fb_capacity = length c, fb_sub = can\<rparr>"

definition container_contents :: "(nat \<Rightarrow> bool) fbuf \<Rightarrow> bytes" where
  "container_contents b = fb_data b @ replicate (fb_capacity b - fb_size b) 0"

definition container_holds :: "(nat \<Rightarrow> bool) fbuf \<Rightarrow> bytes \<Rightarrow> bool" where
  "container_holds b xs \<longleftrightarrow> fb_data b = xs \<and> fb_size b \<le> fb_capacity b"

interpretation ctn: output_buffer container_grow container_holds True
  by unfold_locales (auto simp: container_holds_def container_grow_def fb_size_def split: if_splits)

text \<open>As long as no more room is asked for than is then used, the container has exactly the text.\<close>

lemma container_exact_write:
  assumes "fb_size b = fb_capacity b" "fb_write container_grow w b = Some (Inr u, b')" "\<And>n. w \<noteq> Reserve n"
  shows "fb_size b' = fb_capacity b'"
proof (cases w)
  case (Push v)
  then show ?thesis using assms by (auto simp: fb_push_back_def try_reserve_def container_grow_def fb_size_def split: if_splits)
next
  case (Append bs)
  then show ?thesis
    using assms by (cases "bs = []") (auto simp: fb_append.simps[of _ bs] fb_append.simps[of _ "[]"] try_reserve_def container_grow_def fb_size_def split: if_splits)
next
  case (Direct junk bs)
  then show ?thesis
    using assms
    by (cases "bs = []") (auto simp: write_direct_def to_pointer_def try_resize_def try_reserve_def container_grow_def fb_size_def Let_def split: if_splits)
qed (use assms in auto)

lemma container_exact:
  assumes "\<And>n. Reserve n \<notin> set ws"
  shows "fb_size b = fb_capacity b \<Longrightarrow> fb_writes container_grow ws b = Some (Inr (), b') \<Longrightarrow> fb_size b' = fb_capacity b'"
  using assms
proof (induction ws arbitrary: b)
  case (Cons w ws)
  then obtain u c where c: "fb_write container_grow w b = Some (Inr u, c)" "fb_writes container_grow ws c = Some (Inr (), b')"
    by (auto split: option.splits prod.splits sum.splits)
  have w: "w \<noteq> Reserve n" for n using Cons.prems(3)[of n] by auto
  show ?case using Cons.IH[OF container_exact_write[OF Cons.prems(1) c(1) w] c(2)] Cons.prems(3) by simp
qed simp

lemma container_appends:
  assumes "\<And>n. Reserve n \<notin> set ws" "fb_writes container_grow ws (new_container_buffer can c) = Some (Inr (), b)"
  shows "container_contents b = c @ written ws"
proof -
  have "container_holds (new_container_buffer can c) c" by (simp add: container_holds_def new_container_buffer_def fb_size_def)
  from ctn.writes_ok[OF this, of ws] have "fb_data b = c @ written ws" using assms(2) by (auto simp: ctn.wrote_all_def container_holds_def)
  moreover have "fb_size b = fb_capacity b"
    by (rule container_exact[OF assms(1) _ assms(2)]) (simp add: new_container_buffer_def fb_size_def)
  ultimately show ?thesis by (simp add: container_contents_def)
qed

lemma container_result:
  "\<exists>r b. fb_writes container_grow ws (new_container_buffer can c) = Some (r, b) \<and>
    (r = Inr () \<and> (\<exists>k. container_contents b = c @ written ws @ replicate k 0 \<and> ((\<forall>m. Reserve m \<notin> set ws) \<longrightarrow> k = 0)) \<or>
     r = Inl bad_alloc \<and> (\<exists>k. fb_data b = c @ take k (written ws)))"
proof -
  have "container_holds (new_container_buffer can c) c" by (simp add: container_holds_def new_container_buffer_def fb_size_def)
  from ctn.writes_ok[OF this, of ws] obtain r b where
    rb: "fb_writes container_grow ws (new_container_buffer can c) = Some (r, b)" "ctn.wrote_all c (written ws) (r, b)" by (metis surj_pair)
  show ?thesis
  proof (cases r)
    case (Inl f)
    then show ?thesis using rb by (auto simp: ctn.wrote_all_def container_holds_def)
  next
    case (Inr u)
    then have "fb_data b = c @ written ws" using rb(2) by (auto simp: ctn.wrote_all_def container_holds_def)
    moreover have "container_contents b = c @ written ws" if "\<forall>m. Reserve m \<notin> set ws"
      using container_appends[of ws can c b] rb(1) Inr that by simp
    ultimately have "\<exists>k. container_contents b = c @ written ws @ replicate k 0 \<and> ((\<forall>m. Reserve m \<notin> set ws) \<longrightarrow> k = 0)"
      by (intro exI[of _ "fb_capacity b - fb_size b"]) (auto simp: container_contents_def)
    then show ?thesis using rb(1) Inr by (intro exI[of _ r] exI[of _ b]) simp
  qed
qed

subsection \<open>The buffers hold the text\<close>



end
