(* ===== verification/Fmt_Utf8.thy ===== *)
theory Fmt_Utf8
  imports Utf8_Utils "HOL-Library.Sublist"
begin

text \<open>
  The UTF-8 decoder of the formatting library (\<open>fmt/bundled/format.h\<close>, \<open>utf8_decode\<close>, after Wellons), the loop over the code points of a
  text, the display width of a text and the index of a code point in it. The decoder always reads blocks of four bytes; near the end of
  the text the loop decodes from a zero-filled copy.
\<close>

subsection \<open>The decoder\<close>

text \<open>The string literal that gives the length for the upper five bits of the first byte, with its terminating zero.\<close>

definition utf8_lengths :: "nat list" where
  "utf8_lengths = [1, 1, 1, 1, 1, 1, 1, 1, 1, 1, 1, 1, 1, 1, 1, 1, 0, 0, 0, 0, 0, 0, 0, 0, 2, 2, 2, 2, 3, 3, 4, 0]"

definition utf8_masks :: "u32 list" where
  "utf8_masks = [0x00, 0x7f, 0x1f, 0x0f, 0x07]"

definition utf8_mins :: "u32 list" where
  "utf8_mins = [4194304, 0, 128, 2048, 65536]"

definition utf8_shiftc :: "nat list" where
  "utf8_shiftc = [0, 18, 12, 6, 0]"

definition utf8_shifte :: "nat list" where
  "utf8_shifte = [0, 6, 4, 2, 0]"

definition flag_bit :: "bool \<Rightarrow> nat \<Rightarrow> u32" where
  "flag_bit b n = push_bit n (of_bool b)"

text \<open>How far to go, the code point and the error bits, for a block of four bytes.\<close>

definition utf8_decode :: "byte \<times> byte \<times> byte \<times> byte \<Rightarrow> nat \<times> u32 \<times> u32" where
  "utf8_decode = (\<lambda>(s0, s1, s2, s3).
     let len = utf8_lengths ! unat (drop_bit 3 s0);
         next' = len + (if len = 0 then 1 else 0);
         c0 = push_bit 18 (ucast s0 AND utf8_masks ! len) OR push_bit 12 (ucast s1 AND 0x3f) OR
              push_bit 6 (ucast s2 AND 0x3f) OR push_bit 0 (ucast s3 AND 0x3f);
         c = drop_bit (utf8_shiftc ! len) c0;
         e0 = flag_bit (c < utf8_mins ! len) 6 OR flag_bit (drop_bit 11 c = 0x1b) 7 OR flag_bit (c > 0x10FFFF) 8 OR
              drop_bit 2 (ucast s1 AND 0xc0) OR drop_bit 4 (ucast s2 AND 0xc0) OR drop_bit 6 (ucast s3);
         e = drop_bit (utf8_shifte ! len) (e0 XOR 0x2a)
     in (next', c, e))"

definition invalid_code_point :: u32 where
  "invalid_code_point = NOT 0"

subsection \<open>Loops over a text\<close>

text \<open>Reading outside the buffer is undefined.\<close>

definition block_at :: "bytes \<Rightarrow> nat \<Rightarrow> (byte \<times> byte \<times> byte \<times> byte) result" where
  "block_at buf i = (if i + 4 \<le> length buf then Inr (buf ! i, buf ! (i + 1), buf ! (i + 2), buf ! (i + 3)) else Inl Undefined)"

text \<open>What is called for a code point, the offset and the length of its bytes; whether to go on.\<close>

type_synonym 'a visitor = "u32 \<Rightarrow> nat \<Rightarrow> nat \<Rightarrow> 'a \<Rightarrow> bool \<times> 'a"

definition decode_at :: "bytes \<Rightarrow> nat \<Rightarrow> (nat \<times> u32) result" where
  "decode_at buf i = rbind (block_at buf i) (\<lambda>b.
     case utf8_decode b of (next', cp, error) \<Rightarrow> Inr (if error \<noteq> 0 then (1, invalid_code_point) else (next', cp)))"

lemma utf8_lengths_le: "n < 32 \<Longrightarrow> utf8_lengths ! n \<le> 4"
proof -
  have "\<forall>n\<in>{0..<32}. utf8_lengths ! n \<le> 4" by (simp add: utf8_lengths_def atLeastLessThan_nat_numeral)
  then show "n < 32 \<Longrightarrow> utf8_lengths ! n \<le> 4" by simp
qed

lemma decode_at_pos: "decode_at buf i = Inr (k, cp) \<Longrightarrow> 0 < k"
  by (auto simp: decode_at_def utf8_decode_def Let_def block_at_def outcome_simps split: if_splits)

function visit_blocks :: "bytes \<Rightarrow> 'a visitor \<Rightarrow> nat \<Rightarrow> 'a \<Rightarrow> (nat option \<times> 'a) result" where
  "visit_blocks s f p a =
     (if p + 4 \<le> length s then
        (case decode_at s p of
           Inl x \<Rightarrow> Inl x
         | Inr (k, cp) \<Rightarrow> (case f cp p k a of (go, a1) \<Rightarrow> if go then visit_blocks s f (p + k) a1 else Inr (None, a1)))
      else Inr (Some p, a))"
  by pat_completeness auto
termination
  by (relation "measure (\<lambda>(s, f, p, a). length s - p)") (auto dest: decode_at_pos)

function visit_rest :: "bytes \<Rightarrow> nat \<Rightarrow> 'a visitor \<Rightarrow> nat \<Rightarrow> nat \<Rightarrow> 'a \<Rightarrow> 'a result" where
  "visit_rest buf num_chars_left f p b a =
     (case decode_at buf b of
        Inl x \<Rightarrow> Inl x
      | Inr (k, cp) \<Rightarrow>
          (case f cp p k a of (go, a1) \<Rightarrow>
             if go \<and> b + k < num_chars_left then visit_rest buf num_chars_left f (p + k) (b + k) a1 else Inr a1))"
  by pat_completeness auto
termination
  by (relation "measure (\<lambda>(buf, n, f, p, b, a). n - b)") (auto dest: decode_at_pos)

declare visit_blocks.simps [simp del] visit_rest.simps [simp del]

definition for_each_codepoint :: "bytes \<Rightarrow> 'a visitor \<Rightarrow> 'a \<Rightarrow> 'a result" where
  "for_each_codepoint s f a =
     rbind (if length s \<ge> 4 then visit_blocks s f 0 a else Inr (Some 0, a)) (\<lambda>(p, a1).
       case p of
         None \<Rightarrow> Inr a1
       | Some p \<Rightarrow>
           let num_chars_left = length s - p in
           if num_chars_left = 0 then Inr a1
           else let n = num_chars_left mod 4; buf = take n (drop p s) @ replicate (7 - n) 0 in visit_rest buf n f p 0 a1)"

definition count_code_points :: "nat visitor" where
  "count_code_points cp off k count =
     (True, count + (1 + of_bool (cp \<ge> 0x1100 \<and>
       (cp \<le> 0x115f \<or> cp = 0x2329 \<or> cp = 0x232a \<or> cp \<ge> 0x2e80 \<and> cp \<le> 0xa4cf \<and> cp \<noteq> 0x303f \<or> cp \<ge> 0xac00 \<and> cp \<le> 0xd7a3 \<or>
        cp \<ge> 0xf900 \<and> cp \<le> 0xfaff \<or> cp \<ge> 0xfe10 \<and> cp \<le> 0xfe19 \<or> cp \<ge> 0xfe30 \<and> cp \<le> 0xfe6f \<or> cp \<ge> 0xff00 \<and> cp \<le> 0xff60 \<or>
        cp \<ge> 0xffe0 \<and> cp \<le> 0xffe6 \<or> cp \<ge> 0x20000 \<and> cp \<le> 0x2fffd \<or> cp \<ge> 0x30000 \<and> cp \<le> 0x3fffd \<or>
        cp \<ge> 0x1f300 \<and> cp \<le> 0x1f64f \<or> cp \<ge> 0x1f900 \<and> cp \<le> 0x1f9ff))))"

definition compute_width :: "bytes \<Rightarrow> nat result" where
  "compute_width s = for_each_codepoint s count_code_points 0"

definition find_code_point :: "(nat \<times> nat) visitor" where
  "find_code_point cp off k = (\<lambda>(n, index). if n \<noteq> 0 then (True, n - 1, index) else (False, n, off))"

definition code_point_index :: "bytes \<Rightarrow> nat \<Rightarrow> nat result" where
  "code_point_index s n = rbind (for_each_codepoint s find_code_point (n, length s)) (\<lambda>(_, index). Inr index)"

subsection \<open>The decoder in numbers\<close>

lemma or_add_nat: "b < 2 ^ n \<Longrightarrow> push_bit n a OR b = a * 2 ^ n + (b :: nat)"
proof -
  assume b: "b < 2 ^ n"
  then have t: "take_bit n b = b" by (simp add: take_bit_nat_eq_self)
  have "push_bit n a AND b = 0"
    by (subst t[symmetric]) (auto simp: bit_eq_iff bit_simps)
  then show ?thesis by (simp add: push_bit_eq_mult flip: disjunctive_add_eq_or)
qed

lemma unat_ucast_byte [simp]: "unat (ucast s :: u32) = unat s" for s :: byte
  by (simp add: unsigned_ucast_eq take_bit_nat_eq_self unat_byte_less[THEN less_trans])

lemma unat_low: "unat (ucast s AND mask n :: u32) = unat s mod 2 ^ n" for s :: byte
proof -
  have "unat (ucast s AND mask n :: u32) = take_bit n (unat (ucast s :: u32))"
    unfolding take_bit_eq_mask[symmetric] by (rule unsigned_take_bit_eq)
  then show ?thesis by (simp add: take_bit_eq_mod)
qed

lemma unat_push: "unat w * 2 ^ n < 2 ^ 32 \<Longrightarrow> unat (push_bit n w) = unat w * 2 ^ n" for w :: u32
proof -
  assume "unat w * 2 ^ n < 2 ^ 32"
  then have "take_bit 32 (push_bit n (unat w)) = unat w * 2 ^ n" by (simp only: push_bit_eq_mult take_bit_nat_eq_self)
  then show ?thesis unfolding unsigned_push_bit_eq by simp
qed

lemma unat_drop: "unat (drop_bit n w) = unat w div 2 ^ n" for w :: "'a::len word"
  unfolding unat_drop_bit_eq by (simp add: drop_bit_eq_div)

lemma low_masks: "(0x7f :: u32) = mask 7" "(0x1f :: u32) = mask 5" "(0x0f :: u32) = mask 4" "(0x07 :: u32) = mask 3" "(0x3f :: u32) = mask 6"
  by (simp_all add: mask_eq_exp_minus_1)

lemma four_parts:
  assumes "a < 128" "b < 64" "c < 64" "d < (64 :: nat)"
  shows "push_bit 18 a OR (push_bit 12 b OR (push_bit 6 c OR d)) = a * 262144 + b * 4096 + c * 64 + d"
  using assms by (simp add: or_add_nat)

lemma code_bits:
  fixes s0 s1 s2 s3 :: byte
  assumes "m = mask k" "k \<le> 7"
  shows "unat (push_bit 18 (ucast s0 AND m) OR push_bit 12 (ucast s1 AND 0x3f) OR push_bit 6 (ucast s2 AND 0x3f) OR
      push_bit 0 (ucast s3 AND 0x3f) :: u32) =
    unat s0 mod 2 ^ k * 262144 + unat s1 mod 64 * 4096 + unat s2 mod 64 * 64 + unat s3 mod 64"
proof -
  have "(2 :: nat) ^ k \<le> 2 ^ 7" using assms(2) by (rule power_increasing) simp
  then have a: "unat s0 mod 2 ^ k < 128" using less_le_trans[of "unat s0 mod 2 ^ k" "2 ^ k" 128] by simp
  have b: "unat s1 mod 64 < 64" "unat s2 mod 64 < 64" "unat s3 mod 64 < 64" by simp_all
  have p: "unat (push_bit 18 (ucast s0 AND m) :: u32) = push_bit 18 (unat s0 mod 2 ^ k)"
    "unat (push_bit 12 (ucast s1 AND 0x3f) :: u32) = push_bit 12 (unat s1 mod 64)"
    "unat (push_bit 6 (ucast s2 AND 0x3f) :: u32) = push_bit 6 (unat s2 mod 64)"
    "unat (push_bit 0 (ucast s3 AND 0x3f) :: u32) = unat s3 mod 64"
    unfolding assms(1) low_masks(5) using a b by (subst unat_push; simp add: unat_low push_bit_eq_mult)+
  show ?thesis unfolding unsigned_or_eq or.assoc p by (rule four_parts[OF a b])
qed

definition error_bits :: "bool \<Rightarrow> bool \<Rightarrow> bool \<Rightarrow> byte \<Rightarrow> byte \<Rightarrow> byte \<Rightarrow> u32" where
  "error_bits p q r s1 s2 s3 = flag_bit p 6 OR flag_bit q 7 OR flag_bit r 8 OR
     drop_bit 2 (ucast s1 AND 0xc0) OR drop_bit 4 (ucast s2 AND 0xc0) OR drop_bit 6 (ucast s3)"

lemma unat_high: "unat (ucast s AND 0xc0 :: u32) = unat s div 64 * 64" for s :: byte
proof -
  have "ucast s AND 0xc0 = (ucast (s AND 0xC0) :: u32)" by (simp add: unsigned_and_eq)
  then show ?thesis using and_highs(4)[of s] by (simp add: mult.commute)
qed

lemma unat_error_bits:
  "unat (error_bits p q r s1 s2 s3) =
    (of_bool p + 2 * of_bool q + 4 * of_bool r) * 64 + unat s1 div 64 * 16 + unat s2 div 64 * 4 + unat s3 div 64"
proof -
  have b: "unat s1 div 64 < 4" "unat s2 div 64 < 4" "unat s3 div 64 < 4" using unat_byte_less[of s1] unat_byte_less[of s2] unat_byte_less[of s3] by (simp_all add: less_mult_imp_div_less)
  have t: "unat (drop_bit 2 (ucast s1 AND 0xc0) :: u32) = push_bit 4 (unat s1 div 64)"
    "unat (drop_bit 4 (ucast s2 AND 0xc0) :: u32) = push_bit 2 (unat s2 div 64)"
    "unat (drop_bit 6 (ucast s3) :: u32) = unat s3 div 64"
    by (simp_all only: unat_drop unat_high unat_ucast_byte) (simp_all add: push_bit_eq_mult)
  have f: "unat (flag_bit p 6 OR flag_bit q 7 OR flag_bit r 8) = push_bit 6 (of_bool p + 2 * of_bool q + 4 * of_bool r)"
    by (cases p; cases q; cases r) (simp_all add: flag_bit_def push_bit_eq_mult)
  have "unat (error_bits p q r s1 s2 s3) = unat (flag_bit p 6 OR flag_bit q 7 OR flag_bit r 8) OR
      (push_bit 4 (unat s1 div 64) OR (push_bit 2 (unat s2 div 64) OR unat s3 div 64))"
    unfolding error_bits_def unsigned_or_eq t by (simp only: or.assoc)
  then show ?thesis unfolding f using b by (simp add: or_add_nat)
qed

lemma no_error_iff: "drop_bit k (e XOR 0x2a) = 0 \<longleftrightarrow> unat e div 2 ^ k = 42 div 2 ^ k" for e :: u32
proof -
  have "drop_bit k (e XOR 0x2a) = 0 \<longleftrightarrow> drop_bit k e = drop_bit k 0x2a" by (auto simp: bit_eq_iff bit_simps)
  also have "\<dots> \<longleftrightarrow> unat (drop_bit k e) = unat (drop_bit k (0x2a :: u32))" by (simp add: word_unat_eq_iff)
  also have "\<dots> \<longleftrightarrow> unat e div 2 ^ k = 42 div 2 ^ k"
    by (simp only: unat_drop) simp
  finally show ?thesis .
qed

text \<open>The length a first byte stands for, and the values a code point of that length takes.\<close>

definition lead_len :: "nat \<Rightarrow> nat" where
  "lead_len b = (if b < 128 then 1 else if b < 192 then 0 else if b < 224 then 2 else if b < 240 then 3 else if b < 248 then 4 else 0)"

lemma lengths_lead: "utf8_lengths ! unat (drop_bit 3 s) = lead_len (unat s)" for s :: byte
proof -
  have "\<forall>n\<in>{0..<256}. utf8_lengths ! (n div 8) = lead_len n"
    by (simp add: utf8_lengths_def lead_len_def atLeastLessThan_nat_numeral)
  moreover have "unat (drop_bit 3 s) = unat s div 8" by (simp add: unat_drop)
  ultimately show ?thesis using unat_byte_less[of s] by simp
qed

definition code_of :: "nat \<Rightarrow> nat \<Rightarrow> nat \<Rightarrow> nat \<Rightarrow> nat \<Rightarrow> nat" where
  "code_of l b0 b1 b2 b3 =
     (if l = 1 then b0
      else if l = 2 then b0 mod 32 * 64 + b1 mod 64
      else if l = 3 then b0 mod 16 * 4096 + b1 mod 64 * 64 + b2 mod 64
      else b0 mod 8 * 262144 + b1 mod 64 * 4096 + b2 mod 64 * 64 + b3 mod 64)"

definition min_of :: "nat \<Rightarrow> nat" where
  "min_of l = (if l = 1 then 0 else if l = 2 then 128 else if l = 3 then 2048 else 65536)"

definition well_formed :: "nat \<Rightarrow> nat \<Rightarrow> nat \<Rightarrow> nat \<Rightarrow> nat \<Rightarrow> bool" where
  "well_formed l b0 b1 b2 b3 \<longleftrightarrow> l \<noteq> 0 \<and> min_of l \<le> code_of l b0 b1 b2 b3 \<and> code_of l b0 b1 b2 b3 div 2048 \<noteq> 27 \<and>
     code_of l b0 b1 b2 b3 \<le> 0x10FFFF \<and> (l \<ge> 2 \<longrightarrow> b1 div 64 = 2) \<and> (l \<ge> 3 \<longrightarrow> b2 div 64 = 2) \<and> (l \<ge> 4 \<longrightarrow> b3 div 64 = 2)"

lemma lead_len_cases:
  obtains "lead_len b = 0" | "lead_len b = Suc 0" "b < 128" | "lead_len b = 2" | "lead_len b = 3" | "lead_len b = 4"
proof -
  have "lead_len b = 0 \<or> lead_len b = Suc 0 \<and> b < 128 \<or> lead_len b = 2 \<or> lead_len b = 3 \<or> lead_len b = 4" by (simp add: lead_len_def)
  then show thesis using that by blast
qed

text \<open>The code word before the shift, and the decoder over it.\<close>

definition code_word :: "nat \<Rightarrow> byte \<Rightarrow> byte \<Rightarrow> byte \<Rightarrow> byte \<Rightarrow> u32" where
  "code_word l s0 s1 s2 s3 = push_bit 18 (ucast s0 AND utf8_masks ! l) OR push_bit 12 (ucast s1 AND 0x3f) OR
     push_bit 6 (ucast s2 AND 0x3f) OR push_bit 0 (ucast s3 AND 0x3f)"

lemma utf8_decode_eq:
  "utf8_decode (s0, s1, s2, s3) =
    (let l = lead_len (unat s0); c = drop_bit (utf8_shiftc ! l) (code_word l s0 s1 s2 s3) in
     (l + (if l = 0 then 1 else 0), c,
      drop_bit (utf8_shifte ! l) (error_bits (c < utf8_mins ! l) (drop_bit 11 c = 0x1b) (c > 0x10FFFF) s1 s2 s3 XOR 0x2a)))"
  unfolding utf8_decode_def lengths_lead error_bits_def code_word_def by (simp add: Let_def)

lemma tables [simp]:
  "utf8_masks ! 0 = 0" "utf8_masks ! Suc 0 = 0x7f" "utf8_masks ! 2 = 0x1f" "utf8_masks ! 3 = 0x0f" "utf8_masks ! 4 = 0x07"
  "utf8_mins ! 0 = 4194304" "utf8_mins ! Suc 0 = 0" "utf8_mins ! 2 = 128" "utf8_mins ! 3 = 2048" "utf8_mins ! 4 = 65536"
  "utf8_shiftc ! 0 = 0" "utf8_shiftc ! Suc 0 = 18" "utf8_shiftc ! 2 = 12" "utf8_shiftc ! 3 = 6" "utf8_shiftc ! 4 = 0"
  "utf8_shifte ! 0 = 0" "utf8_shifte ! Suc 0 = 6" "utf8_shifte ! 2 = 4" "utf8_shifte ! 3 = 2" "utf8_shifte ! 4 = 0"
  by (simp_all add: utf8_masks_def utf8_mins_def utf8_shiftc_def utf8_shifte_def)

lemma unat_code_word:
  assumes "utf8_masks ! l = mask k" "k \<le> 7"
  shows "unat (code_word l s0 s1 s2 s3) =
    unat s0 mod 2 ^ k * 262144 + unat s1 mod 64 * 4096 + unat s2 mod 64 * 64 + unat s3 mod 64"
  unfolding code_word_def by (rule code_bits[OF assms])

lemma unat_code_words:
  "unat (code_word 0 s0 s1 s2 s3) = unat s1 mod 64 * 4096 + unat s2 mod 64 * 64 + unat s3 mod 64"
  "unat (code_word (Suc 0) s0 s1 s2 s3) = unat s0 mod 128 * 262144 + unat s1 mod 64 * 4096 + unat s2 mod 64 * 64 + unat s3 mod 64"
  "unat (code_word 2 s0 s1 s2 s3) = unat s0 mod 32 * 262144 + unat s1 mod 64 * 4096 + unat s2 mod 64 * 64 + unat s3 mod 64"
  "unat (code_word 3 s0 s1 s2 s3) = unat s0 mod 16 * 262144 + unat s1 mod 64 * 4096 + unat s2 mod 64 * 64 + unat s3 mod 64"
  "unat (code_word 4 s0 s1 s2 s3) = unat s0 mod 8 * 262144 + unat s1 mod 64 * 4096 + unat s2 mod 64 * 64 + unat s3 mod 64"
  using unat_code_word[of 0 0 s0 s1 s2 s3] unat_code_word[of "Suc 0" 7 s0 s1 s2 s3] unat_code_word[of 2 5 s0 s1 s2 s3]
    unat_code_word[of 3 4 s0 s1 s2 s3] unat_code_word[of 4 3 s0 s1 s2 s3]
  by (simp_all add: low_masks del: mod_mult_self1 mod_mult_self2)

lemma div_lower: "r < k \<Longrightarrow> (a * k + r) div k = (a :: nat)"
  by simp

lemma div_parts:
  assumes "b < 64" "c < 64" "d < (64 :: nat)"
  shows "(a * 262144 + b * 4096 + c * 64 + d) div 262144 = a" "(a * 262144 + b * 4096 + c * 64 + d) div 4096 = a * 64 + b"
    "(a * 262144 + b * 4096 + c * 64 + d) div 64 = a * 4096 + b * 64 + c"
proof -
  have "b * 4096 + c * 64 + d < 262144" "c * 64 + d < 4096" using assms by linarith+
  then show "(a * 262144 + b * 4096 + c * 64 + d) div 262144 = a" "(a * 262144 + b * 4096 + c * 64 + d) div 4096 = a * 64 + b"
    "(a * 262144 + b * 4096 + c * 64 + d) div 64 = a * 4096 + b * 64 + c"
    using div_lower[of "b * 4096 + c * 64 + d" 262144 a] div_lower[of "c * 64 + d" 4096 "a * 64 + b"]
      div_lower[of d 64 "a * 4096 + b * 64 + c"] assms(3) by (simp_all add: algebra_simps)
qed

lemma decode_code:
  assumes "utf8_decode (s0, s1, s2, s3) = (n, c, e)" "l = lead_len (unat s0)" "l \<noteq> 0"
  shows "n = l \<and> unat c = code_of l (unat s0) (unat s1) (unat s2) (unat s3)"
proof -
  have c: "c = drop_bit (utf8_shiftc ! l) (code_word l s0 s1 s2 s3)" and n: "n = l"
    using assms by (auto simp: utf8_decode_eq Let_def)
  show ?thesis
    by (cases "unat s0" rule: lead_len_cases)
      (use assms(2,3) in \<open>simp_all add: n c unat_drop unat_code_words code_of_def div_parts del: drop_bit_drop_bit\<close>)
qed

lemma error_parts:
  assumes "x < 4" "y < 4" "z < (4 :: nat)"
  shows "(F * 64 + x * 16 + y * 4 + z) div 64 = 0 \<longleftrightarrow> F = 0"
    "(F * 64 + x * 16 + y * 4 + z) div 16 = 2 \<longleftrightarrow> F = 0 \<and> x = 2"
    "(F * 64 + x * 16 + y * 4 + z) div 4 = 10 \<longleftrightarrow> F = 0 \<and> x = 2 \<and> y = 2"
    "F * 64 + x * 16 + y * 4 + z = 42 \<longleftrightarrow> F = 0 \<and> x = 2 \<and> y = 2 \<and> z = 2"
proof -
  have "x * 16 + y * 4 + z < 64" "y * 4 + z < 16" using assms by linarith+
  then have d: "(F * 64 + x * 16 + y * 4 + z) div 64 = F" "(F * 64 + x * 16 + y * 4 + z) div 16 = F * 4 + x"
    "(F * 64 + x * 16 + y * 4 + z) div 4 = F * 16 + x * 4 + y"
    using div_lower[of "x * 16 + y * 4 + z" 64 F] div_lower[of "y * 4 + z" 16 "F * 4 + x"]
      div_lower[of z 4 "F * 16 + x * 4 + y"] assms(3) by (simp_all add: algebra_simps)
  show "(F * 64 + x * 16 + y * 4 + z) div 64 = 0 \<longleftrightarrow> F = 0" by (simp add: d)
  show "(F * 64 + x * 16 + y * 4 + z) div 16 = 2 \<longleftrightarrow> F = 0 \<and> x = 2" unfolding d using assms by presburger
  show 3: "(F * 64 + x * 16 + y * 4 + z) div 4 = 10 \<longleftrightarrow> F = 0 \<and> x = 2 \<and> y = 2" unfolding d using assms by presburger
  show "F * 64 + x * 16 + y * 4 + z = 42 \<longleftrightarrow> F = 0 \<and> x = 2 \<and> y = 2 \<and> z = 2"
  proof
    assume v: "F * 64 + x * 16 + y * 4 + z = 42"
    then have "(F * 64 + x * 16 + y * 4 + z) div 4 = 10" by simp
    then have "F = 0" "x = 2" "y = 2" unfolding 3 by auto
    with v show "F = 0 \<and> x = 2 \<and> y = 2 \<and> z = 2" by simp
  qed simp
qed

lemma decode_error:
  assumes "utf8_decode (s0, s1, s2, s3) = (n, c, e)" "l = lead_len (unat s0)"
  shows "e = 0 \<longleftrightarrow> well_formed l (unat s0) (unat s1) (unat s2) (unat s3)"
proof (cases "l = 0")
  case True
  have c: "unat c < 4194304" and l: "lead_len (unat s0) = 0"
    using assms True by (auto simp: utf8_decode_eq Let_def unat_code_words intro: le_less_trans[of _ "63 * 4096 + 63 * 64 + 63"] add_mono)
  have e: "e = drop_bit 0 (error_bits (c < 4194304) (drop_bit 11 c = 0x1b) (c > 0x10FFFF) s1 s2 s3 XOR 0x2a)"
    using assms(1) l by (auto simp: utf8_decode_eq Let_def)
  have "c < 4194304" using c by (simp add: word_less_nat_alt)
  then have "unat (error_bits (c < 4194304) (drop_bit 11 c = 0x1b) (c > 0x10FFFF) s1 s2 s3) \<ge> 64" by (simp add: unat_error_bits)
  then have "e \<noteq> 0" unfolding e no_error_iff by simp
  then show ?thesis using True by (simp add: well_formed_def)
next
  case False
  let ?p = "c < utf8_mins ! l" and ?q = "drop_bit 11 c = 0x1b" and ?r = "c > 0x10FFFF"
  define F :: nat where "F = of_bool ?p + 2 * of_bool ?q + 4 * of_bool ?r"
  have e: "e = 0 \<longleftrightarrow> (F * 64 + unat s1 div 64 * 16 + unat s2 div 64 * 4 + unat s3 div 64) div 2 ^ (utf8_shifte ! l) = 42 div 2 ^ (utf8_shifte ! l)"
    using assms no_error_iff[of "utf8_shifte ! l" "error_bits ?p ?q ?r s1 s2 s3"] unfolding utf8_decode_eq Let_def unat_error_bits F_def by auto
  have cv: "unat c = code_of l (unat s0) (unat s1) (unat s2) (unat s3)" using decode_code[OF assms False] by simp
  have F: "F = 0 \<longleftrightarrow> min_of l \<le> unat c \<and> unat c div 2048 \<noteq> 27 \<and> unat c \<le> 0x10FFFF"
  proof -
    have "?q \<longleftrightarrow> unat c div 2048 = 27" by (simp add: word_unat_eq_iff unat_drop)
    moreover have "?r \<longleftrightarrow> unat c > 0x10FFFF" by (simp add: word_less_nat_alt)
    moreover have "?p \<longleftrightarrow> unat c < min_of l"
      by (cases "unat s0" rule: lead_len_cases) (use assms(2) False in \<open>simp_all add: min_of_def word_less_nat_alt\<close>)
    ultimately show ?thesis by (simp add: F_def not_less)
  qed
  have b: "unat s1 div 64 < 4" "unat s2 div 64 < 4" "unat s3 div 64 < 4"
    using unat_byte_less[of s1] unat_byte_less[of s2] unat_byte_less[of s3] by (simp_all add: less_mult_imp_div_less)
  have "e = 0 \<longleftrightarrow> F = 0 \<and> (l \<ge> 2 \<longrightarrow> unat s1 div 64 = 2) \<and> (l \<ge> 3 \<longrightarrow> unat s2 div 64 = 2) \<and> (l \<ge> 4 \<longrightarrow> unat s3 div 64 = 2)"
    unfolding e by (cases "unat s0" rule: lead_len_cases) (use assms(2) False in \<open>simp_all add: error_parts[OF b]\<close>)
  then show ?thesis unfolding F cv using False by (auto simp: well_formed_def)
qed

subsection \<open>The decoder accepts UTF-8\<close>

lemma not_surrogate: "c div 2048 \<noteq> 27 \<longleftrightarrow> \<not> surrogate c"
  by (auto simp: surrogate_def div_eq_range)

lemma tail_byteE:
  assumes "unat s div 64 = 2"
  obtains y where "y < 64" "s = of_nat (128 + y)" "unat s mod 64 = y"
proof -
  have "128 \<le> unat s" "unat s < 192" using assms by (simp_all add: div_eq_range)
  then have "s = of_nat (128 + (unat s - 128))" "unat s - 128 < 64" "unat s mod 64 = unat s - 128"
    using le_mod_geq[of 64 "unat s"] le_mod_geq[of 64 "unat s - 64"] by simp_all
  then show thesis using that by blast
qed

lemma lead_byteE:
  assumes "lead_len (unat s) = l" "l \<ge> 2"
  obtains x where "s = of_nat (0xC0 + x)" "x < 32" "unat s mod 32 = x" "l = 2" | x where "s = of_nat (0xE0 + x)" "x < 16" "unat s mod 16 = x" "l = 3"
    | x where "s = of_nat (0xF0 + x)" "x < 8" "unat s mod 8 = x" "l = 4"
proof -
  have s: "s = of_nat (unat s)" by simp
  consider "192 \<le> unat s" "unat s < 224" "l = 2" | "224 \<le> unat s" "unat s < 240" "l = 3" | "240 \<le> unat s" "unat s < 248" "l = 4"
    using assms by (auto simp: lead_len_def split: if_splits)
  then show thesis
  proof cases
    case 1
    then have "unat s = 0xC0 + (unat s - 192)" by simp
    moreover have "unat s mod 32 = unat s - 192" using 1 mod_mult_self1[of "unat s - 192" 6 32] by simp
    ultimately show thesis using 1 s that(1)[of "unat s - 192"] by simp
  next
    case 2
    then have "unat s = 0xE0 + (unat s - 224)" by simp
    moreover have "unat s mod 16 = unat s - 224" using 2 mod_mult_self1[of "unat s - 224" 14 16] by simp
    ultimately show thesis using 2 s that(2)[of "unat s - 224"] by simp
  next
    case 3
    then have "unat s = 0xF0 + (unat s - 240)" by simp
    moreover have "unat s mod 8 = unat s - 240" using 3 mod_mult_self1[of "unat s - 240" 30 8] by simp
    ultimately show thesis using 3 s that(3)[of "unat s - 240"] by simp
  qed
qed

lemma digits_base64:
  assumes "y < 64" "z < 64" "w < (64 :: nat)"
  shows "(x * 64 + y) div 64 = x" "(x * 64 + y) mod 64 = y"
    "(x * 4096 + y * 64 + z) div 4096 = x" "(x * 4096 + y * 64 + z) div 64 mod 64 = y" "(x * 4096 + y * 64 + z) mod 64 = z"
    "(x * 262144 + y * 4096 + z * 64 + w) div 262144 = x" "(x * 262144 + y * 4096 + z * 64 + w) div 4096 mod 64 = y"
    "(x * 262144 + y * 4096 + z * 64 + w) div 64 mod 64 = z" "(x * 262144 + y * 4096 + z * 64 + w) mod 64 = w"
proof -
  have "(x * 4096 + y * 64 + z) div 64 = x * 64 + y" using div_lower[of z 64 "x * 64 + y"] assms by (simp add: algebra_simps)
  moreover have "(x * 4096 + y * 64 + z) div 4096 = x"
    using div_lower[of "y * 64 + z" 4096 x] assms by (simp add: algebra_simps)
  moreover have "(x * 4096 + y * 64 + z) mod 64 = z" using mod_mult_self1[of z "x * 64 + y" 64] assms by (simp add: algebra_simps)
  moreover have "(x * 262144 + y * 4096 + z * 64 + w) mod 64 = w"
    using mod_mult_self1[of w "x * 4096 + y * 64 + z" 64] assms by (simp add: algebra_simps)
  moreover have "(x * 4096 + y * 64 + z) mod 64 = z" using mod_mult_self1[of z "x * 64 + y" 64] assms by (simp add: algebra_simps)
  ultimately show "(x * 64 + y) div 64 = x" "(x * 64 + y) mod 64 = y"
    "(x * 4096 + y * 64 + z) div 4096 = x" "(x * 4096 + y * 64 + z) div 64 mod 64 = y" "(x * 4096 + y * 64 + z) mod 64 = z"
    "(x * 262144 + y * 4096 + z * 64 + w) div 262144 = x" "(x * 262144 + y * 4096 + z * 64 + w) div 4096 mod 64 = y"
    "(x * 262144 + y * 4096 + z * 64 + w) div 64 mod 64 = z" "(x * 262144 + y * 4096 + z * 64 + w) mod 64 = w"
    using assms by (simp_all add: div_parts)
qed

lemma decode_sound:
  assumes "utf8_decode (s0, s1, s2, s3) = (n, c, 0)"
  shows "scalar_value (unat c) \<and> utf8_encode (unat c) = take n [s0, s1, s2, s3]"
proof -
  let ?l = "lead_len (unat s0)"
  have w: "well_formed ?l (unat s0) (unat s1) (unat s2) (unat s3)" using decode_error[OF assms refl] by simp
  then have l: "?l \<noteq> 0" by (simp add: well_formed_def)
  have c: "n = ?l" "unat c = code_of ?l (unat s0) (unat s1) (unat s2) (unat s3)" using decode_code[OF assms refl l] by auto
  have s: "scalar_value (unat c)" using w unfolding c(2) well_formed_def not_surrogate scalar_value_def by simp
  have m: "min_of ?l \<le> unat c" using w c(2) by (simp add: well_formed_def)
  show ?thesis
  proof (cases "?l \<ge> 2")
    case False
    then have "?l = Suc 0" using l by simp
    moreover from this have "unat s0 < 128" by (simp add: lead_len_def split: if_splits)
    ultimately show ?thesis using s c by (simp add: code_of_def utf8_encode_def)
  next
    case True
    then have 1: "unat s1 div 64 = 2" using w by (simp add: well_formed_def)
    then obtain y where y: "y < 64" "s1 = of_nat (128 + y)" "unat s1 mod 64 = y" by (rule tail_byteE)
    show ?thesis
    proof (rule lead_byteE[OF refl True])
      fix x assume x: "s0 = of_nat (0xC0 + x)" "x < 32" "unat s0 mod 32 = x" "?l = 2"
      then have u: "unat c = x * 64 + y" using c(2) y(3) by (simp add: code_of_def)
      moreover from m x(4) u have "128 \<le> x * 64 + y" by (simp add: min_of_def)
      moreover have "x * 64 + y < 2048" using x(2) y(1) by linarith
      ultimately show ?thesis using s x(1,4) y(1,2) c(1) by (simp add: utf8_encode_def digits_base64)
    next
      fix x assume x: "s0 = of_nat (0xE0 + x)" "x < 16" "unat s0 mod 16 = x" "?l = 3"
      have "unat s2 div 64 = 2" using w x(4) by (simp add: well_formed_def)
      then obtain z where z: "z < 64" "s2 = of_nat (128 + z)" "unat s2 mod 64 = z" by (rule tail_byteE)
      have u: "unat c = x * 4096 + y * 64 + z" using c(2) x y(3) z(3) by (simp add: code_of_def)
      moreover from m x(4) u have "2048 \<le> x * 4096 + y * 64 + z" by (simp add: min_of_def)
      moreover have "x * 4096 + y * 64 + z < 65536" using x(2) y(1) z(1) by linarith
      ultimately show ?thesis using s x(1,4) y(1,2) z(1,2) c(1) by (simp add: utf8_encode_def digits_base64)
    next
      fix x assume x: "s0 = of_nat (0xF0 + x)" "x < 8" "unat s0 mod 8 = x" "?l = 4"
      have "unat s2 div 64 = 2" "unat s3 div 64 = 2" using w x(4) by (simp_all add: well_formed_def)
      then obtain z v where z: "z < 64" "s2 = of_nat (128 + z)" "unat s2 mod 64 = z" and v: "v < 64" "s3 = of_nat (128 + v)" "unat s3 mod 64 = v"
        by (metis tail_byteE)
      have u: "unat c = x * 262144 + y * 4096 + z * 64 + v" using c(2) x y(3) z(3) v(3) by (simp add: code_of_def)
      moreover from m x(4) u have "65536 \<le> x * 262144 + y * 4096 + z * 64 + v" by (simp add: min_of_def)
      ultimately show ?thesis using s x(1,4) y(1,2) z(1,2) v(1,2) c(1) by (simp add: utf8_encode_def digits_base64)
    qed
  qed
qed

lemma byte_of_nat: "n < 256 \<Longrightarrow> unat (of_nat n :: byte) = n"
  by (simp add: unsigned_of_nat take_bit_nat_eq_self)

lemma decode_of_well_formed:
  assumes "lead_len (unat s0) = l" "well_formed l (unat s0) (unat s1) (unat s2) (unat s3)" "code_of l (unat s0) (unat s1) (unat s2) (unat s3) = c"
  shows "utf8_decode (s0, s1, s2, s3) = (l, of_nat c, 0)"
proof -
  obtain n cp e where d: "utf8_decode (s0, s1, s2, s3) = (n, cp, e)" by (cases "utf8_decode (s0, s1, s2, s3)")
  have "l \<noteq> 0" using assms(2) by (simp add: well_formed_def)
  then have "n = l" "unat cp = c" using decode_code[OF d assms(1)[symmetric]] assms(3) by auto
  moreover have "e = 0" using decode_error[OF d assms(1)[symmetric]] assms(2) by simp
  moreover have "of_nat (unat cp) = cp" by simp
  ultimately show ?thesis using d by simp
qed

lemma base64_digits:
  "(c :: nat) div 64 * 64 + c mod 64 = c" "c div 4096 * 4096 + c div 64 mod 64 * 64 + c mod 64 = c"
  "c div 262144 * 262144 + c div 4096 mod 64 * 4096 + c div 64 mod 64 * 64 + c mod 64 = c"
proof -
  show 1: "c div 64 * 64 + c mod 64 = c" by simp
  have 2: "c div 64 div 64 * 64 + c div 64 mod 64 = c div 64" "c div 4096 div 64 * 64 + c div 4096 mod 64 = c div 4096" by (simp_all only: div_mult_mod_eq)
  have 3: "c div 64 div 64 = c div 4096" "c div 4096 div 64 = c div 262144" by (simp_all add: div_mult2_eq[symmetric])
  show "c div 4096 * 4096 + c div 64 mod 64 * 64 + c mod 64 = c" using 1 2(1) unfolding 3 by linarith
  then show "c div 262144 * 262144 + c div 4096 mod 64 * 4096 + c div 64 mod 64 * 64 + c mod 64 = c" using 2(2) unfolding 3 by linarith
qed

lemma decode_complete:
  assumes "scalar_value c" "prefix (utf8_encode c) [s0, s1, s2, s3]"
  shows "utf8_decode (s0, s1, s2, s3) = (length (utf8_encode c), of_nat c, 0)"
proof -
  have s: "c \<le> 0x10FFFF" "c div 2048 \<noteq> 27" using assms(1) by (simp_all add: scalar_value_def not_surrogate)
  consider "c < 0x80" | "0x80 \<le> c" "c < 0x800" | "0x800 \<le> c" "c < 0x10000" | "0x10000 \<le> c" by linarith
  then show ?thesis
  proof cases
    case 1
    then have "unat s0 = c" using assms(2) by (auto simp: utf8_encode_def byte_of_nat)
    then have "utf8_decode (s0, s1, s2, s3) = (1, of_nat c, 0)"
      using 1 s by (intro decode_of_well_formed) (simp_all add: lead_len_def well_formed_def min_of_def code_of_def)
    then show ?thesis using 1 by (simp add: utf8_encode_def)
  next
    case 2
    have d: "c div 64 < 32" using 2 by (simp add: less_mult_imp_div_less)
    have u: "unat s0 = 192 + c div 64" "unat s1 = 128 + c mod 64"
      using assms(2) 2 d by (auto simp: utf8_encode_def byte_of_nat simp del: of_nat_add)
    have m: "(192 + c div 64) mod 32 = c div 64" "(128 + c mod 64) mod 64 = c mod 64" "(128 + c mod 64) div 64 = 2"
      using d mod_mult_self1[of "c div 64" 6 32] mod_mult_self1[of "c mod 64" 2 64] div_mult_self1[of 64 "c mod 64" 2] by (simp_all add: add.commute)
    have co: "code_of 2 (unat s0) (unat s1) (unat s2) (unat s3) = c" using base64_digits(1)[of c] by (simp only: code_of_def u m) simp
    have "utf8_decode (s0, s1, s2, s3) = (2, of_nat c, 0)"
    proof (rule decode_of_well_formed[OF _ _ co])
      show "lead_len (unat s0) = 2" using d by (simp add: lead_len_def u)
      show "well_formed 2 (unat s0) (unat s1) (unat s2) (unat s3)" unfolding well_formed_def co using 2 s by (simp add: min_of_def u m)
    qed
    then show ?thesis using 2 by (simp add: utf8_encode_def)
  next
    case 3
    have d: "c div 4096 < 16" using 3 by (simp add: less_mult_imp_div_less)
    have u: "unat s0 = 224 + c div 4096" "unat s1 = 128 + c div 64 mod 64" "unat s2 = 128 + c mod 64"
      using assms(2) 3 d by (auto simp: utf8_encode_def byte_of_nat simp del: of_nat_add)
    have m: "(224 + c div 4096) mod 16 = c div 4096" "(128 + y mod 64) mod 64 = y mod 64" "(128 + y mod 64) div 64 = 2" for y :: nat
      using d mod_mult_self1[of "c div 4096" 14 16] mod_mult_self1[of "y mod 64" 2 64] div_mult_self1[of 64 "y mod 64" 2] by (simp_all add: add.commute)
    have co: "code_of 3 (unat s0) (unat s1) (unat s2) (unat s3) = c" using base64_digits(2)[of c] by (simp only: code_of_def u m) simp
    have "utf8_decode (s0, s1, s2, s3) = (3, of_nat c, 0)"
    proof (rule decode_of_well_formed[OF _ _ co])
      show "lead_len (unat s0) = 3" using d by (simp add: lead_len_def u)
      show "well_formed 3 (unat s0) (unat s1) (unat s2) (unat s3)" unfolding well_formed_def co using 3 s by (simp add: min_of_def u m)
    qed
    then show ?thesis using 3 by (simp add: utf8_encode_def)
  next
    case 4
    have d: "c div 262144 < 8" using s(1) by (simp add: less_mult_imp_div_less)
    have u: "unat s0 = 240 + c div 262144" "unat s1 = 128 + c div 4096 mod 64" "unat s2 = 128 + c div 64 mod 64" "unat s3 = 128 + c mod 64"
      using assms(2) 4 d by (auto simp: utf8_encode_def byte_of_nat simp del: of_nat_add)
    have m: "(240 + c div 262144) mod 8 = c div 262144" "(128 + y mod 64) mod 64 = y mod 64" "(128 + y mod 64) div 64 = 2" for y :: nat
      using d mod_mult_self1[of "c div 262144" 30 8] mod_mult_self1[of "y mod 64" 2 64] div_mult_self1[of 64 "y mod 64" 2] by (simp_all add: add.commute)
    have co: "code_of 4 (unat s0) (unat s1) (unat s2) (unat s3) = c" using base64_digits(3)[of c] by (simp only: code_of_def u m) simp
    have "utf8_decode (s0, s1, s2, s3) = (4, of_nat c, 0)"
    proof (rule decode_of_well_formed[OF _ _ co])
      show "lead_len (unat s0) = 4" using d by (simp add: lead_len_def u)
      show "well_formed 4 (unat s0) (unat s1) (unat s2) (unat s3)" unfolding well_formed_def co using 4 s by (simp add: min_of_def u m)
    qed
    then show ?thesis using 4 by (simp add: utf8_encode_def)
  qed
qed

subsection \<open>The code points of a text\<close>

lemma decode_next: "utf8_decode (s0, s1, s2, s3) = (n, cp, e) \<Longrightarrow> 0 < n \<and> n \<le> 4"
proof -
  have "lead_len (unat s0) \<le> 4" by (simp add: lead_len_def)
  then show "utf8_decode (s0, s1, s2, s3) = (n, cp, e) \<Longrightarrow> 0 < n \<and> n \<le> 4"
    unfolding utf8_decode_eq Let_def prod.inject by (cases "lead_len (unat s0) = 0") auto
qed

lemma first_four: "4 \<le> length t \<Longrightarrow> [t ! 0, t ! 1, t ! 2, t ! 3] = take 4 t"
proof -
  assume "4 \<le> length t"
  then obtain a b c d r where "t = a # b # c # d # r" by (auto simp: numeral_eq_Suc Suc_le_length_iff)
  then show ?thesis by simp
qed

text \<open>One decoding step at the start of a text that is followed by zeros.\<close>

definition decode_text :: "bytes \<Rightarrow> nat \<times> u32" where
  "decode_text s =
     (let t = s @ [0, 0, 0] in
      case utf8_decode (t ! 0, t ! 1, t ! 2, t ! 3) of (n, cp, e) \<Rightarrow> if e \<noteq> 0 then (1, invalid_code_point) else (n, cp))"

lemma decode_text_pos: "0 < fst (decode_text s)"
  using decode_next by (auto simp: decode_text_def Let_def split: prod.split)

function code_points :: "bytes \<Rightarrow> (u32 \<times> nat) list" where
  "code_points s = (if s = [] then [] else (snd (decode_text s), fst (decode_text s)) # code_points (drop (fst (decode_text s)) s))"
  by pat_completeness auto
termination
  by (relation "measure length") (use decode_text_pos in auto)

declare code_points.simps [simp del]

fun visit_list :: "'a visitor \<Rightarrow> nat \<Rightarrow> (u32 \<times> nat) list \<Rightarrow> 'a \<Rightarrow> 'a" where
  "visit_list f off [] a = a"
| "visit_list f off ((cp, k) # vs) a = (case f cp off k a of (go, a1) \<Rightarrow> if go then visit_list f (off + k) vs a1 else a1)"

text \<open>
  What the list has to be: pieces of the text, one after the other, each the encoding of its code point, or one byte at which no
  encoding of a code point starts.
\<close>

fun segments :: "bytes \<Rightarrow> (u32 \<times> nat) list \<Rightarrow> bool" where
  "segments s [] \<longleftrightarrow> s = []"
| "segments s ((cp, k) # vs) \<longleftrightarrow> 0 < k \<and> k \<le> length s \<and> segments (drop k s) vs \<and>
     (if cp = invalid_code_point then k = 1 \<and> (\<forall>c. scalar_value c \<longrightarrow> \<not> prefix (utf8_encode c) s)
      else scalar_value (unat cp) \<and> take k s = utf8_encode (unat cp))"

lemma encode_tail_high: "0 < i \<Longrightarrow> i < length (utf8_encode c) \<Longrightarrow> utf8_encode c ! i \<noteq> 0"
proof -
  have h: "of_nat (128 + y mod 64) \<noteq> (0 :: byte)" for y
  proof
    assume z: "of_nat (128 + y mod 64) = (0 :: byte)"
    have "y mod 64 < 64" by simp
    then have "128 + y mod 64 < 256" by linarith
    from byte_of_nat[OF this] z show False by simp
  qed
  assume "0 < i" "i < length (utf8_encode c)"
  then show ?thesis
    using h[of c] h[of "c div 64"] h[of "c div 4096"]
    by (auto simp: utf8_encode_def less_Suc_eq nth_Cons' simp del: of_nat_add split: if_splits)
qed

lemma decode_text_cases:
  assumes "s \<noteq> []"
  shows "fst (decode_text s) \<le> length s \<and>
    (if snd (decode_text s) = invalid_code_point then fst (decode_text s) = 1 \<and> (\<forall>c. scalar_value c \<longrightarrow> \<not> prefix (utf8_encode c) s)
     else scalar_value (unat (snd (decode_text s))) \<and> take (fst (decode_text s)) s = utf8_encode (unat (snd (decode_text s))))"
proof -
  let ?t = "s @ [0, 0, 0]"
  let ?b = "[?t ! 0, ?t ! 1, ?t ! 2, ?t ! 3]"
  obtain n cp e where d: "utf8_decode (?t ! 0, ?t ! 1, ?t ! 2, ?t ! 3) = (n, cp, e)" by (metis prod_cases3)
  have b: "?b = take 4 ?t"
    using assms by (intro first_four) (cases s, simp_all)
  have t: "decode_text s = (if e \<noteq> 0 then (1, invalid_code_point) else (n, cp))" using d by (simp add: decode_text_def)
  show ?thesis
  proof (cases "e = 0")
    case True
    then have s: "scalar_value (unat cp)" "utf8_encode (unat cp) = take n (take 4 ?t)"
      using decode_sound[of _ _ _ _ n cp] d unfolding b[symmetric] by blast+
    have n: "n \<le> 4" "0 < n" using decode_next[OF d] by auto
    then have len: "length (utf8_encode (unat cp)) = n" using s(2) assms by (cases s) simp_all
    have "n \<le> length s"
    proof (rule ccontr)
      assume "\<not> n \<le> length s"
      then have l: "length s < n" "0 < length s" using assms by auto
      then have "utf8_encode (unat cp) ! length s \<noteq> 0" using encode_tail_high[of "length s" "unat cp"] len by simp
      moreover have "utf8_encode (unat cp) ! length s = 0" unfolding s(2) using l n(1) by (simp add: nth_append)
      ultimately show False by simp
    qed
    moreover have "cp \<noteq> invalid_code_point"
    proof
      assume "cp = invalid_code_point"
      then have "unat cp = 4294967295" by (simp add: invalid_code_point_def unsigned_minus_1_eq_mask mask_eq_exp_minus_1)
      then show False using s(1) by (simp add: scalar_value_def)
    qed
    ultimately show ?thesis using s t True n by (simp add: min_def)
  next
    case False
    have "\<not> prefix (utf8_encode c) s" if "scalar_value c" for c
    proof
      assume p: "prefix (utf8_encode c) s"
      then obtain zs where zs: "?t = utf8_encode c @ zs" by (auto simp: prefix_def)
      have "length (utf8_encode c) \<le> 4" by (simp add: utf8_encode_def)
      then have "prefix (utf8_encode c) (take 4 ?t)" unfolding zs by (simp add: prefix_def)
      then have "prefix (utf8_encode c) ?b" by (simp only: b)
      then show False using decode_complete[OF that] d False by simp
    qed
    then show ?thesis using t False assms by (cases s) simp_all
  qed
qed

lemma code_points_segments: "segments s (code_points s)"
proof (induction s rule: code_points.induct)
  case (1 s)
  show ?case
  proof (cases "s = []")
    case False
    then show ?thesis
      using 1[OF False] decode_text_cases[OF False] decode_text_pos[of s] by (subst code_points.simps) auto
  qed (simp add: code_points.simps)
qed

subsection \<open>The loop visits the code points\<close>

lemma decode_at_text:
  assumes "i + 4 \<le> length buf" "take 4 (drop i buf) = take 4 (s @ [0, 0, 0])"
  shows "decode_at buf i = Inr (decode_text s)"
proof -
  have l: "4 \<le> length (s @ [0, 0, 0])" using arg_cong[OF assms(2), of length] assms(1) by simp
  have "[buf ! i, buf ! (i + 1), buf ! (i + 2), buf ! (i + 3)] = take 4 (drop i buf)"
    using first_four[of "drop i buf"] assms(1) by (simp add: add.commute)
  also have "\<dots> = [(s @ [0, 0, 0]) ! 0, (s @ [0, 0, 0]) ! 1, (s @ [0, 0, 0]) ! 2, (s @ [0, 0, 0]) ! 3]"
    unfolding assms(2) by (rule first_four[OF l, symmetric])
  finally show ?thesis using assms(1) by (simp add: decode_at_def block_at_def decode_text_def Let_def split: prod.split)
qed

lemma code_points_step:
  "s \<noteq> [] \<Longrightarrow> visit_list f off (code_points s) a =
    (case f (snd (decode_text s)) off (fst (decode_text s)) a of (go, a1) \<Rightarrow>
       if go then visit_list f (off + fst (decode_text s)) (code_points (drop (fst (decode_text s)) s)) a1 else a1)"
  by (subst code_points.simps) simp

lemma visit_blocks_list:
  assumes "p \<le> length s"
  shows "\<exists>q a1. visit_blocks s f p a = Inr (q, a1) \<and>
    (case q of None \<Rightarrow> a1 = visit_list f p (code_points (drop p s)) a
     | Some q \<Rightarrow> q \<le> length s \<and> length s < q + 4 \<and>
         visit_list f q (code_points (drop q s)) a1 = visit_list f p (code_points (drop p s)) a)"
  using assms
proof (induction s f p a rule: visit_blocks.induct)
  case (1 s f p a)
  show ?case
  proof (cases "p + 4 \<le> length s")
    case True
    have d: "decode_at s p = Inr (decode_text (drop p s))" using True by (intro decode_at_text) simp_all
    obtain k cp where t: "decode_text (drop p s) = (k, cp)" by (cases "decode_text (drop p s)")
    have ne: "drop p s \<noteq> []" using True by simp
    have k: "p + k \<le> length s" using conjunct1[OF decode_text_cases[OF ne]] t True by simp
    obtain go a1 where g: "f cp p k a = (go, a1)" by (cases "f cp p k a")
    note e = code_points_step[OF ne, of f p a]
    show ?thesis
    proof (cases go)
      case True
      have "visit_list f p (code_points (drop p s)) a = visit_list f (p + k) (code_points (drop (p + k) s)) a1"
        using e True by (simp add: t g add.commute)
      moreover have "visit_blocks s f p a = visit_blocks s f (p + k) a1"
        using \<open>p + 4 \<le> length s\<close> True by (subst visit_blocks.simps) (simp add: d t g)
      ultimately show ?thesis using "1.IH"[OF \<open>p + 4 \<le> length s\<close> d t[symmetric] g[symmetric] True k] by (simp only:)
    next
      case False
      then show ?thesis using \<open>p + 4 \<le> length s\<close> e by (subst visit_blocks.simps) (auto simp: d t g)
    qed
  next
    case False
    then show ?thesis using 1(2) by (subst visit_blocks.simps) auto
  qed
qed

lemma visit_rest_list:
  assumes "buf = r @ replicate (7 - length r) 0" "b < length r" "length r < 4"
  shows "visit_rest buf (length r) f p b a = Inr (visit_list f p (code_points (drop b r)) a)"
  using assms
proof (induction buf "length r" f p b a rule: visit_rest.induct)
  case (1 buf f p b a)
  have ne: "drop b r \<noteq> []" using 1(3) by simp
  have "take 4 (drop b buf) = take 4 (drop b r @ replicate (7 - length r) 0)" using 1(2,3) by simp
  also have "\<dots> = take 4 (drop b r @ [0, 0, 0])"
  proof -
    have "(4 :: nat) - (length r - b) \<le> 3" "4 - (length r - b) \<le> 7 - length r" using 1(3,4) by linarith+
    moreover have "take n (replicate m (0 :: byte)) = take n [0, 0, 0]" if "n \<le> 3" "n \<le> m" for n m
    proof -
      have "[0, 0, 0] = replicate 3 (0 :: byte)" by (simp add: numeral_eq_Suc)
      then show ?thesis using that by (simp add: min_def)
    qed
    ultimately show ?thesis by simp
  qed
  finally have d: "decode_at buf b = Inr (decode_text (drop b r))" using 1(2-4) by (intro decode_at_text) simp_all
  obtain k cp where t: "decode_text (drop b r) = (k, cp)" by (cases "decode_text (drop b r)")
  have k: "b + k \<le> length r" using conjunct1[OF decode_text_cases[OF ne]] t 1(3) by simp
  obtain go a1 where g: "f cp p k a = (go, a1)" by (cases "f cp p k a")
  note e = code_points_step[OF ne, of f p a]
  show ?case
  proof (cases "go \<and> b + k < length r")
    case True
    from "1.hyps"[OF d t[symmetric] g[symmetric] True 1(2) _ 1(4)] True show ?thesis
      using e by (subst visit_rest.simps) (simp add: d t g add.commute)
  next
    case False
    have "visit_list f (p + k) (code_points (drop (b + k) r)) a1 = a1" if go
      using False that k by (simp add: code_points.simps)
    then show ?thesis using False e by (subst visit_rest.simps) (auto simp: d t g add.commute)
  qed
qed

lemma for_each_codepoint_list: "for_each_codepoint s f a = Inr (visit_list f 0 (code_points s) a)"
proof -
  obtain q a1 where q: "(if length s \<ge> 4 then visit_blocks s f 0 a else Inr (Some 0, a)) = Inr (q, a1)"
      "case q of None \<Rightarrow> a1 = visit_list f 0 (code_points s) a
       | Some q \<Rightarrow> q \<le> length s \<and> length s < q + 4 \<and> visit_list f q (code_points (drop q s)) a1 = visit_list f 0 (code_points s) a"
    using visit_blocks_list[of 0 s f a, unfolded drop_0] by (cases "length s \<ge> 4") auto
  show ?thesis
  proof (cases q)
    case None
    then show ?thesis using q by (simp add: for_each_codepoint_def)
  next
    case (Some p)
    then have p: "p \<le> length s" "length s < p + 4" "visit_list f p (code_points (drop p s)) a1 = visit_list f 0 (code_points s) a" using q(2) by auto
    show ?thesis
    proof (cases "length s = p")
      case True
      then show ?thesis using q(1) Some p(3) by (simp add: for_each_codepoint_def code_points.simps)
    next
      case False
      then have "visit_rest (drop p s @ replicate (7 - length (drop p s)) 0) (length (drop p s)) f p 0 a1 =
          Inr (visit_list f p (code_points (drop 0 (drop p s))) a1)"
        using p by (intro visit_rest_list) auto
      then show ?thesis using q(1) Some p False by (simp add: for_each_codepoint_def Let_def)
    qed
  qed
qed

text \<open>
  C38. The loop over the code points of a text never reads outside the text or its zero-filled copy, whatever the bytes: it calls the
  function for the pieces of the text in order, as long as the function says so. Each piece is the UTF-8 encoding of the Unicode
  scalar value it is reported with, or a single byte, reported as invalid, at which no encoding starts.
\<close>

theorem text_is_segmented:
  "for_each_codepoint s f a = Inr (visit_list f 0 (code_points s) a) \<and> segments s (code_points s)"
  by (simp add: for_each_codepoint_list code_points_segments)

end
