(* ===== verification/Fmt_Specs.thy ===== *)
theory Fmt_Specs
  imports Fmt_Utf8
begin

text \<open>
  \<open>fmt/bundled/base.h\<close>, format specifications: the kinds of arguments and their bit sets, the packed word
  of \<open>basic_specs\<close> with its fields, and the parsing context that counts arguments. A field of the packed
  word is a lens: what is put into it is read back, and the other fields stay as they are.
\<close>

subsection \<open>Errors\<close>

text \<open>\<open>report_error\<close> throws \<open>format_error\<close>, a \<open>std::runtime_error\<close>. A failed \<open>FMT_ASSERT\<close> is undefined: release builds drop the check.\<close>

definition report_error :: "string \<Rightarrow> 'a result" where
  "report_error message = Inl (Thrown (runtime_error message))"

definition fmt_assert :: "bool \<Rightarrow> 'a result \<Rightarrow> 'a result" where
  "fmt_assert b r = (if b then r else Inl Undefined)"

subsection \<open>Argument types\<close>

datatype fmt_type =
    none_type
  | int_type
  | uint_type
  | long_long_type
  | ulong_long_type
  | int128_type
  | uint128_type
  | bool_type
  | char_type
  | float_type
  | double_type
  | long_double_type
  | cstring_type
  | string_type
  | pointer_type
  | custom_type

definition fmt_types :: "fmt_type list" where
  "fmt_types = [none_type, int_type, uint_type, long_long_type, ulong_long_type, int128_type, uint128_type, bool_type, char_type,
     float_type, double_type, long_double_type, cstring_type, string_type, pointer_type, custom_type]"

primrec type_num :: "fmt_type \<Rightarrow> nat" where
  "type_num none_type = 0"
| "type_num int_type = 1"
| "type_num uint_type = 2"
| "type_num long_long_type = 3"
| "type_num ulong_long_type = 4"
| "type_num int128_type = 5"
| "type_num uint128_type = 6"
| "type_num bool_type = 7"
| "type_num char_type = 8"
| "type_num float_type = 9"
| "type_num double_type = 10"
| "type_num long_double_type = 11"
| "type_num cstring_type = 12"
| "type_num string_type = 13"
| "type_num pointer_type = 14"
| "type_num custom_type = 15"

definition is_integral_type :: "fmt_type \<Rightarrow> bool" where
  "is_integral_type t \<longleftrightarrow> type_num t > type_num none_type \<and> type_num t \<le> type_num char_type"

definition is_arithmetic_type :: "fmt_type \<Rightarrow> bool" where
  "is_arithmetic_type t \<longleftrightarrow> type_num t > type_num none_type \<and> type_num t \<le> type_num long_double_type"

definition type_set :: "fmt_type \<Rightarrow> u32" where
  "type_set rhs = push_bit (type_num rhs) 1"

definition in_set :: "fmt_type \<Rightarrow> u32 \<Rightarrow> bool" where
  "in_set t s \<longleftrightarrow> drop_bit (type_num t) s AND 1 \<noteq> 0"

definition sint_set :: u32 where
  "sint_set = type_set int_type OR type_set long_long_type OR type_set int128_type"

definition uint_set :: u32 where
  "uint_set = type_set uint_type OR type_set ulong_long_type OR type_set uint128_type"

definition bool_set :: u32 where
  "bool_set = type_set bool_type"

definition char_set :: u32 where
  "char_set = type_set char_type"

definition float_set :: u32 where
  "float_set = type_set float_type OR type_set double_type OR type_set long_double_type"

definition string_set :: u32 where
  "string_set = type_set string_type"

definition cstring_set :: u32 where
  "cstring_set = type_set cstring_type"

definition pointer_set :: u32 where
  "pointer_set = type_set pointer_type"

definition integral_set :: u32 where
  "integral_set = sint_set OR uint_set OR bool_set OR char_set"

lemma type_num_inject [simp]: "type_num t = type_num u \<longleftrightarrow> t = u"
  by (cases t; cases u) simp_all

lemma type_num_less [simp]: "type_num t < 16"
  by (cases t) simp_all

lemma in_set_bit: "in_set t s \<longleftrightarrow> bit s (type_num t)"
  by (simp add: in_set_def bit_iff_odd_drop_bit and_one_eq odd_iff_mod_2_eq_one)

lemma in_set_or [simp]: "in_set t (s OR r) \<longleftrightarrow> in_set t s \<or> in_set t r"
  by (simp add: in_set_bit bit_simps)

lemma in_set_type [simp]: "in_set t (type_set u) \<longleftrightarrow> t = u"
  using less_trans[OF type_num_less[of u], of 32] by (auto simp: in_set_bit type_set_def bit_simps)

lemmas type_sets = sint_set_def uint_set_def bool_set_def char_set_def float_set_def string_set_def cstring_set_def
  pointer_set_def integral_set_def

subsection \<open>Presentation types, alignment, sign\<close>

text \<open>The enumerators share numbers: one presentation means different things for different argument types.\<close>

type_synonym presentation_type = u32

definition pres_none :: presentation_type where "pres_none = 0"
definition pres_debug :: presentation_type where "pres_debug = 1"
definition pres_string :: presentation_type where "pres_string = 2"
definition pres_dec :: presentation_type where "pres_dec = 3"
definition pres_hex :: presentation_type where "pres_hex = 4"
definition pres_oct :: presentation_type where "pres_oct = 5"
definition pres_bin :: presentation_type where "pres_bin = 6"
definition pres_chr :: presentation_type where "pres_chr = 7"
definition pres_pointer :: presentation_type where "pres_pointer = 3"
definition pres_exp :: presentation_type where "pres_exp = 1"
definition pres_fixed :: presentation_type where "pres_fixed = 2"
definition pres_general :: presentation_type where "pres_general = 3"
definition pres_hexfloat :: presentation_type where "pres_hexfloat = 4"

lemmas pres_defs = pres_none_def pres_debug_def pres_string_def pres_dec_def pres_hex_def pres_oct_def pres_bin_def pres_chr_def
  pres_pointer_def pres_exp_def pres_fixed_def pres_general_def pres_hexfloat_def

datatype fmt_align = align_none | align_left | align_right | align_center | align_numeric

datatype fmt_sign = sign_none | sign_minus | sign_plus | sign_space

datatype arg_id_kind = id_none | id_index | id_name

primrec align_num :: "fmt_align \<Rightarrow> u32" where
  "align_num align_none = 0"
| "align_num align_left = 1"
| "align_num align_right = 2"
| "align_num align_center = 3"
| "align_num align_numeric = 4"

primrec sign_num :: "fmt_sign \<Rightarrow> u32" where
  "sign_num sign_none = 0"
| "sign_num sign_minus = 1"
| "sign_num sign_plus = 2"
| "sign_num sign_space = 3"

primrec kind_num :: "arg_id_kind \<Rightarrow> u32" where
  "kind_num id_none = 0"
| "kind_num id_index = 1"
| "kind_num id_name = 2"

text \<open>\<open>static_cast\<close> back to the enumeration. Only the numbers above are ever stored (\<open>specs_ok\<close> below).\<close>

definition align_of :: "u32 \<Rightarrow> fmt_align" where
  "align_of n = (if n = 0 then align_none else if n = 1 then align_left else if n = 2 then align_right
     else if n = 3 then align_center else align_numeric)"

definition sign_of :: "u32 \<Rightarrow> fmt_sign" where
  "sign_of n = (if n = 0 then sign_none else if n = 1 then sign_minus else if n = 2 then sign_plus else sign_space)"

definition arg_kind_of :: "u32 \<Rightarrow> arg_id_kind" where
  "arg_kind_of n = (if n = 0 then id_none else if n = 1 then id_index else id_name)"

lemma enum_numbers [simp]:
  "align_of (align_num a) = a" "sign_of (sign_num s) = s" "arg_kind_of (kind_num k) = k"
  by (cases a; simp add: align_of_def) (cases s; simp add: sign_of_def | cases k; simp add: arg_kind_of_def)+

subsection \<open>Packed fields\<close>

definition type_mask :: u32 where "type_mask = 0x00007"
definition align_mask :: u32 where "align_mask = 0x00038"
definition width_mask :: u32 where "width_mask = 0x000C0"
definition precision_mask :: u32 where "precision_mask = 0x00300"
definition sign_mask :: u32 where "sign_mask = 0x00C00"
definition uppercase_mask :: u32 where "uppercase_mask = 0x01000"
definition alternate_mask :: u32 where "alternate_mask = 0x02000"
definition localized_mask :: u32 where "localized_mask = 0x04000"
definition fill_size_mask :: u32 where "fill_size_mask = 0x38000"
definition align_shift :: nat where "align_shift = 3"
definition width_shift :: nat where "width_shift = 6"
definition precision_shift :: nat where "precision_shift = 8"
definition sign_shift :: nat where "sign_shift = 10"
definition fill_size_shift :: nat where "fill_size_shift = 15"
definition max_fill_size :: nat where "max_fill_size = 4"

lemmas mask_defs = type_mask_def align_mask_def width_mask_def precision_mask_def sign_mask_def uppercase_mask_def alternate_mask_def
  localized_mask_def fill_size_mask_def align_shift_def width_shift_def precision_shift_def sign_shift_def fill_size_shift_def

definition get_bits :: "u32 \<Rightarrow> nat \<Rightarrow> u32 \<Rightarrow> u32" where
  "get_bits m s d = drop_bit s (d AND m)"

definition put_bits :: "u32 \<Rightarrow> nat \<Rightarrow> u32 \<Rightarrow> u32 \<Rightarrow> u32" where
  "put_bits m s v d = (d AND NOT m) OR push_bit s v"

record basic_specs =
  data_word :: u32
  fill_data :: bytes

definition new_basic_specs :: basic_specs where
  "new_basic_specs = \<lparr>data_word = push_bit fill_size_shift 1, fill_data = [32, 0, 0, 0]\<rparr>"

definition set_fill_size :: "nat \<Rightarrow> 'a basic_specs_scheme \<Rightarrow> 'a basic_specs_scheme" where
  "set_fill_size n s = s\<lparr>data_word := put_bits fill_size_mask fill_size_shift (of_nat n) (data_word s)\<rparr>"

definition spec_type :: "'a basic_specs_scheme \<Rightarrow> presentation_type" where
  "spec_type s = data_word s AND type_mask"

definition set_type :: "presentation_type \<Rightarrow> 'a basic_specs_scheme \<Rightarrow> 'a basic_specs_scheme" where
  "set_type t s = s\<lparr>data_word := (data_word s AND NOT type_mask) OR t\<rparr>"

definition spec_align :: "'a basic_specs_scheme \<Rightarrow> fmt_align" where
  "spec_align s = align_of (get_bits align_mask align_shift (data_word s))"

definition set_align :: "fmt_align \<Rightarrow> 'a basic_specs_scheme \<Rightarrow> 'a basic_specs_scheme" where
  "set_align a s = s\<lparr>data_word := put_bits align_mask align_shift (align_num a) (data_word s)\<rparr>"

definition dynamic_width :: "'a basic_specs_scheme \<Rightarrow> arg_id_kind" where
  "dynamic_width s = arg_kind_of (get_bits width_mask width_shift (data_word s))"

definition set_dynamic_width :: "arg_id_kind \<Rightarrow> 'a basic_specs_scheme \<Rightarrow> 'a basic_specs_scheme" where
  "set_dynamic_width w s = s\<lparr>data_word := put_bits width_mask width_shift (kind_num w) (data_word s)\<rparr>"

definition dynamic_precision :: "'a basic_specs_scheme \<Rightarrow> arg_id_kind" where
  "dynamic_precision s = arg_kind_of (get_bits precision_mask precision_shift (data_word s))"

definition set_dynamic_precision :: "arg_id_kind \<Rightarrow> 'a basic_specs_scheme \<Rightarrow> 'a basic_specs_scheme" where
  "set_dynamic_precision p s = s\<lparr>data_word := put_bits precision_mask precision_shift (kind_num p) (data_word s)\<rparr>"

definition spec_dynamic :: "'a basic_specs_scheme \<Rightarrow> bool" where
  "spec_dynamic s \<longleftrightarrow> data_word s AND (width_mask OR precision_mask) \<noteq> 0"

definition spec_sign :: "'a basic_specs_scheme \<Rightarrow> fmt_sign" where
  "spec_sign s = sign_of (get_bits sign_mask sign_shift (data_word s))"

definition set_sign :: "fmt_sign \<Rightarrow> 'a basic_specs_scheme \<Rightarrow> 'a basic_specs_scheme" where
  "set_sign g s = s\<lparr>data_word := put_bits sign_mask sign_shift (sign_num g) (data_word s)\<rparr>"

definition spec_upper :: "'a basic_specs_scheme \<Rightarrow> bool" where
  "spec_upper s \<longleftrightarrow> data_word s AND uppercase_mask \<noteq> 0"

definition set_upper :: "'a basic_specs_scheme \<Rightarrow> 'a basic_specs_scheme" where
  "set_upper s = s\<lparr>data_word := data_word s OR uppercase_mask\<rparr>"

definition spec_alt :: "'a basic_specs_scheme \<Rightarrow> bool" where
  "spec_alt s \<longleftrightarrow> data_word s AND alternate_mask \<noteq> 0"

definition set_alt :: "'a basic_specs_scheme \<Rightarrow> 'a basic_specs_scheme" where
  "set_alt s = s\<lparr>data_word := data_word s OR alternate_mask\<rparr>"

definition clear_alt :: "'a basic_specs_scheme \<Rightarrow> 'a basic_specs_scheme" where
  "clear_alt s = s\<lparr>data_word := data_word s AND NOT alternate_mask\<rparr>"

definition spec_localized :: "'a basic_specs_scheme \<Rightarrow> bool" where
  "spec_localized s \<longleftrightarrow> data_word s AND localized_mask \<noteq> 0"

definition set_localized :: "'a basic_specs_scheme \<Rightarrow> 'a basic_specs_scheme" where
  "set_localized s = s\<lparr>data_word := data_word s OR localized_mask\<rparr>"

definition fill_size :: "'a basic_specs_scheme \<Rightarrow> nat" where
  "fill_size s = unat (get_bits fill_size_mask fill_size_shift (data_word s))"

text \<open>\<open>fill_unit<char>\<close>: the low byte.\<close>

definition fill_unit :: "'a basic_specs_scheme \<Rightarrow> byte" where
  "fill_unit s = ucast (ucast (fill_data s ! 0) OR push_bit 8 (ucast (fill_data s ! 1)) OR push_bit 16 (ucast (fill_data s ! 2)) :: u32)"

definition set_fill_char :: "byte \<Rightarrow> 'a basic_specs_scheme \<Rightarrow> 'a basic_specs_scheme" where
  "set_fill_char c s = set_fill_size 1 (s\<lparr>fill_data := (fill_data s)[0 := c]\<rparr>)"

primrec copy_fill :: "bytes \<Rightarrow> nat \<Rightarrow> bytes \<Rightarrow> bytes" where
  "copy_fill [] i d = d"
| "copy_fill (c # cs) i d = copy_fill cs (Suc i) (d[i mod 4 := c])"

definition set_fill :: "bytes \<Rightarrow> 'a basic_specs_scheme \<Rightarrow> 'a basic_specs_scheme result" where
  "set_fill v s =
     (let s1 = set_fill_size (length v) s in
      if length v = 1 then Inr (s1\<lparr>fill_data := (fill_data s1)[0 := v ! 0, 1 := 0, 2 := 0]\<rparr>)
      else fmt_assert (length v \<le> max_fill_size) (Inr (s1\<lparr>fill_data := copy_fill v 0 (fill_data s1)\<rparr>)))"

definition copy_fill_from :: "'b basic_specs_scheme \<Rightarrow> 'a basic_specs_scheme \<Rightarrow> 'a basic_specs_scheme" where
  "copy_fill_from other s = set_fill_size (fill_size other) (s\<lparr>fill_data := fill_data other\<rparr>)"

record format_specs = basic_specs +
  spec_width :: int
  spec_precision :: int

definition new_format_specs :: format_specs where
  "new_format_specs = basic_specs.extend new_basic_specs \<lparr>spec_width = 0, spec_precision = -1\<rparr>"

subsection \<open>Fields are lenses\<close>

lemma fits_bit: "take_bit k v = v \<Longrightarrow> bit v n \<Longrightarrow> n < k"
  by (metis bit_take_bit_iff)

locale packed_field =
  fixes fm :: u32 and fs k :: nat
  assumes shape: "fm = push_bit fs (mask k)" and fits: "fs + k \<le> 32"
begin

lemma get_put: "take_bit k v = v \<Longrightarrow> get_bits fm fs (put_bits fm fs v d) = v"
  unfolding get_bits_def put_bits_def shape using fits
  by (auto simp: bit_eq_iff bit_simps)

lemma put_get: "put_bits fm fs (get_bits fm fs d) d = d"
  unfolding get_bits_def put_bits_def shape using fits
  by (auto simp: bit_eq_iff bit_simps)

lemma put_put: "take_bit k u = u \<Longrightarrow> put_bits fm fs v (put_bits fm fs u d) = put_bits fm fs v d"
  unfolding put_bits_def shape using fits
  by (auto simp: bit_eq_iff[where a = "put_bits _ _ _ _"] bit_eq_iff[where a = "_ OR _"] bit_simps dest: fits_bit)

lemma get_fits: "take_bit k (get_bits fm fs d) = get_bits fm fs d"
  unfolding get_bits_def shape by (auto simp: bit_eq_iff bit_simps)

lemma others_stay: "take_bit k v = v \<Longrightarrow> fm AND g = 0 \<Longrightarrow> put_bits fm fs v d AND g = d AND g"
proof -
  assume v: "take_bit k v = v" and g: "fm AND g = 0"
  have p: "push_bit fs v = push_bit fs v AND fm"
    unfolding shape using fits_bit[OF v] fits by (auto simp: bit_eq_iff bit_simps)
  have "put_bits fm fs v d AND g = (d AND (g AND NOT fm)) OR (push_bit fs v AND (fm AND g))"
    unfolding put_bits_def by (subst p) (auto simp: bit_eq_iff bit_simps)
  moreover have "g AND NOT fm = g" using g by (auto simp: bit_eq_iff bit_simps)
  ultimately show "put_bits fm fs v d AND g = d AND g" by (simp add: g)
qed

end

interpretation tf: packed_field type_mask 0 3
  by unfold_locales (simp_all add: mask_defs mask_eq_exp_minus_1)

interpretation af: packed_field align_mask align_shift 3
  by unfold_locales (simp_all add: mask_defs mask_eq_exp_minus_1)

interpretation wf: packed_field width_mask width_shift 2
  by unfold_locales (simp_all add: mask_defs mask_eq_exp_minus_1)

interpretation pcf: packed_field precision_mask precision_shift 2
  by unfold_locales (simp_all add: mask_defs mask_eq_exp_minus_1)

interpretation sf: packed_field sign_mask sign_shift 2
  by unfold_locales (simp_all add: mask_defs mask_eq_exp_minus_1)

interpretation ff: packed_field fill_size_mask fill_size_shift 3
  by unfold_locales (simp_all add: mask_defs mask_eq_exp_minus_1)

text \<open>No two fields share a bit, so every setter leaves the other getters alone.\<close>

lemma masks_disjoint:
  "type_mask AND align_mask = 0" "type_mask AND width_mask = 0" "type_mask AND precision_mask = 0" "type_mask AND sign_mask = 0"
  "type_mask AND uppercase_mask = 0" "type_mask AND alternate_mask = 0" "type_mask AND localized_mask = 0"
  "type_mask AND fill_size_mask = 0" "align_mask AND type_mask = 0" "align_mask AND width_mask = 0" "align_mask AND precision_mask = 0"
  "align_mask AND sign_mask = 0" "align_mask AND uppercase_mask = 0" "align_mask AND alternate_mask = 0"
  "align_mask AND localized_mask = 0" "align_mask AND fill_size_mask = 0" "width_mask AND type_mask = 0" "width_mask AND align_mask = 0"
  "width_mask AND precision_mask = 0" "width_mask AND sign_mask = 0" "width_mask AND uppercase_mask = 0"
  "width_mask AND alternate_mask = 0" "width_mask AND localized_mask = 0" "width_mask AND fill_size_mask = 0"
  "precision_mask AND type_mask = 0" "precision_mask AND align_mask = 0" "precision_mask AND width_mask = 0"
  "precision_mask AND sign_mask = 0" "precision_mask AND uppercase_mask = 0" "precision_mask AND alternate_mask = 0"
  "precision_mask AND localized_mask = 0" "precision_mask AND fill_size_mask = 0" "sign_mask AND type_mask = 0"
  "sign_mask AND align_mask = 0" "sign_mask AND width_mask = 0" "sign_mask AND precision_mask = 0" "sign_mask AND uppercase_mask = 0"
  "sign_mask AND alternate_mask = 0" "sign_mask AND localized_mask = 0" "sign_mask AND fill_size_mask = 0"
  "uppercase_mask AND type_mask = 0" "uppercase_mask AND align_mask = 0" "uppercase_mask AND width_mask = 0"
  "uppercase_mask AND precision_mask = 0" "uppercase_mask AND sign_mask = 0" "uppercase_mask AND alternate_mask = 0"
  "uppercase_mask AND localized_mask = 0" "uppercase_mask AND fill_size_mask = 0" "alternate_mask AND type_mask = 0"
  "alternate_mask AND align_mask = 0" "alternate_mask AND width_mask = 0" "alternate_mask AND precision_mask = 0"
  "alternate_mask AND sign_mask = 0" "alternate_mask AND uppercase_mask = 0" "alternate_mask AND localized_mask = 0"
  "alternate_mask AND fill_size_mask = 0" "localized_mask AND type_mask = 0" "localized_mask AND align_mask = 0"
  "localized_mask AND width_mask = 0" "localized_mask AND precision_mask = 0" "localized_mask AND sign_mask = 0"
  "localized_mask AND uppercase_mask = 0" "localized_mask AND alternate_mask = 0" "localized_mask AND fill_size_mask = 0"
  "fill_size_mask AND type_mask = 0" "fill_size_mask AND align_mask = 0" "fill_size_mask AND width_mask = 0"
  "fill_size_mask AND precision_mask = 0" "fill_size_mask AND sign_mask = 0" "fill_size_mask AND uppercase_mask = 0"
  "fill_size_mask AND alternate_mask = 0" "fill_size_mask AND localized_mask = 0"
  by (simp_all add: mask_defs)

lemma numbers_fit:
  "take_bit 3 (align_num a) = align_num a" "take_bit 2 (kind_num d) = kind_num d" "take_bit 2 (sign_num g) = sign_num g"
  by (cases a; simp) (cases d; simp | cases g; simp)+

lemma fill_size_fits: "n \<le> 7 \<Longrightarrow> take_bit 3 (of_nat n :: u32) = of_nat n"
  by (simp add: take_bit_of_nat take_bit_nat_eq_self)

lemma unat_small_u32: "n \<le> 7 \<Longrightarrow> unat (of_nat n :: u32) = n"
  by (simp add: unat_of_nat)

lemma flag_stays: "m AND g = 0 \<Longrightarrow> (d OR m) AND g = d AND (g :: u32)"
  by (simp add: bit.conj_disj_distrib2)

lemma flag_is_set: "(d OR m) AND m = (m :: u32)"
  by (simp add: bit.conj_disj_distrib2 bit_eq_iff bit_simps)

lemma set_type_bits: "set_type p s = s\<lparr>data_word := put_bits type_mask 0 p (data_word s)\<rparr>"
  by (simp add: set_type_def put_bits_def)

lemma spec_type_bits: "spec_type s = get_bits type_mask 0 (data_word s)"
  by (simp add: spec_type_def get_bits_def)

lemma masks_or: "m AND width_mask = 0 \<Longrightarrow> m AND precision_mask = 0 \<Longrightarrow> m AND (width_mask OR precision_mask) = 0"
  by (simp add: bit.conj_disj_distrib)

lemmas getter_defs = spec_type_bits spec_align_def dynamic_width_def dynamic_precision_def spec_sign_def spec_upper_def spec_alt_def
  spec_localized_def fill_size_def fill_unit_def spec_dynamic_def

lemmas fields_stay = tf.others_stay af.others_stay wf.others_stay pcf.others_stay sf.others_stay ff.others_stay

named_theorems spec_simps \<open>what the setters of format specifications leave to the getters\<close>

lemma set_type_getters [spec_simps]:
  "take_bit 3 p = p \<Longrightarrow> spec_type (set_type p s) = p"
  "take_bit 3 p = p \<Longrightarrow> spec_align (set_type p s) = spec_align s"
  "take_bit 3 p = p \<Longrightarrow> dynamic_width (set_type p s) = dynamic_width s"
  "take_bit 3 p = p \<Longrightarrow> dynamic_precision (set_type p s) = dynamic_precision s"
  "take_bit 3 p = p \<Longrightarrow> spec_sign (set_type p s) = spec_sign s"
  "take_bit 3 p = p \<Longrightarrow> spec_upper (set_type p s) = spec_upper s"
  "take_bit 3 p = p \<Longrightarrow> spec_alt (set_type p s) = spec_alt s"
  "take_bit 3 p = p \<Longrightarrow> spec_localized (set_type p s) = spec_localized s"
  "take_bit 3 p = p \<Longrightarrow> fill_size (set_type p s) = fill_size s"
  "take_bit 3 p = p \<Longrightarrow> spec_dynamic (set_type p s) = spec_dynamic s" "fill_data (set_type p s) = fill_data s"
  "spec_width (set_type p u) = spec_width u" "spec_precision (set_type p u) = spec_precision u"
  by (simp_all add: getter_defs set_type_bits tf.get_put) (simp_all add: get_bits_def fields_stay masks_disjoint masks_or)

lemma set_align_getters [spec_simps]:
  "spec_type (set_align a s) = spec_type s" "spec_align (set_align a s) = a" "dynamic_width (set_align a s) = dynamic_width s"
  "dynamic_precision (set_align a s) = dynamic_precision s" "spec_sign (set_align a s) = spec_sign s"
  "spec_upper (set_align a s) = spec_upper s" "spec_alt (set_align a s) = spec_alt s" "spec_localized (set_align a s) = spec_localized s"
  "fill_size (set_align a s) = fill_size s" "spec_dynamic (set_align a s) = spec_dynamic s" "fill_data (set_align a s) = fill_data s"
  "spec_width (set_align a u) = spec_width u" "spec_precision (set_align a u) = spec_precision u"
  by (simp_all add: getter_defs set_align_def numbers_fit af.get_put) (simp_all add: get_bits_def numbers_fit fields_stay masks_disjoint masks_or)

lemma set_dynamic_width_getters [spec_simps]:
  "spec_type (set_dynamic_width d s) = spec_type s" "spec_align (set_dynamic_width d s) = spec_align s"
  "dynamic_width (set_dynamic_width d s) = d" "dynamic_precision (set_dynamic_width d s) = dynamic_precision s"
  "spec_sign (set_dynamic_width d s) = spec_sign s" "spec_upper (set_dynamic_width d s) = spec_upper s"
  "spec_alt (set_dynamic_width d s) = spec_alt s" "spec_localized (set_dynamic_width d s) = spec_localized s"
  "fill_size (set_dynamic_width d s) = fill_size s" "fill_data (set_dynamic_width d s) = fill_data s"
  "spec_width (set_dynamic_width d u) = spec_width u" "spec_precision (set_dynamic_width d u) = spec_precision u"
  by (simp_all add: getter_defs set_dynamic_width_def numbers_fit wf.get_put) (simp_all add: get_bits_def numbers_fit fields_stay masks_disjoint masks_or)

lemma set_dynamic_precision_getters [spec_simps]:
  "spec_type (set_dynamic_precision d s) = spec_type s" "spec_align (set_dynamic_precision d s) = spec_align s"
  "dynamic_width (set_dynamic_precision d s) = dynamic_width s" "dynamic_precision (set_dynamic_precision d s) = d"
  "spec_sign (set_dynamic_precision d s) = spec_sign s" "spec_upper (set_dynamic_precision d s) = spec_upper s"
  "spec_alt (set_dynamic_precision d s) = spec_alt s" "spec_localized (set_dynamic_precision d s) = spec_localized s"
  "fill_size (set_dynamic_precision d s) = fill_size s" "fill_data (set_dynamic_precision d s) = fill_data s"
  "spec_width (set_dynamic_precision d u) = spec_width u" "spec_precision (set_dynamic_precision d u) = spec_precision u"
  by (simp_all add: getter_defs set_dynamic_precision_def numbers_fit pcf.get_put) (simp_all add: get_bits_def numbers_fit fields_stay masks_disjoint masks_or)

lemma set_sign_getters [spec_simps]:
  "spec_type (set_sign g s) = spec_type s" "spec_align (set_sign g s) = spec_align s" "dynamic_width (set_sign g s) = dynamic_width s"
  "dynamic_precision (set_sign g s) = dynamic_precision s" "spec_sign (set_sign g s) = g" "spec_upper (set_sign g s) = spec_upper s"
  "spec_alt (set_sign g s) = spec_alt s" "spec_localized (set_sign g s) = spec_localized s" "fill_size (set_sign g s) = fill_size s"
  "spec_dynamic (set_sign g s) = spec_dynamic s" "fill_data (set_sign g s) = fill_data s" "spec_width (set_sign g u) = spec_width u"
  "spec_precision (set_sign g u) = spec_precision u"
  by (simp_all add: getter_defs set_sign_def numbers_fit sf.get_put) (simp_all add: get_bits_def numbers_fit fields_stay masks_disjoint masks_or)

lemma set_upper_getters [spec_simps]:
  "spec_type (set_upper s) = spec_type s" "spec_align (set_upper s) = spec_align s" "dynamic_width (set_upper s) = dynamic_width s"
  "dynamic_precision (set_upper s) = dynamic_precision s" "spec_sign (set_upper s) = spec_sign s" "spec_upper (set_upper s) = True"
  "spec_alt (set_upper s) = spec_alt s" "spec_localized (set_upper s) = spec_localized s" "fill_size (set_upper s) = fill_size s"
  "spec_dynamic (set_upper s) = spec_dynamic s" "fill_data (set_upper s) = fill_data s" "spec_width (set_upper u) = spec_width u"
  "spec_precision (set_upper u) = spec_precision u"
  by (simp_all add: getter_defs set_upper_def) (simp_all add: get_bits_def flag_stays flag_is_set masks_disjoint masks_or, simp add: mask_defs)

lemma set_alt_getters [spec_simps]:
  "spec_type (set_alt s) = spec_type s" "spec_align (set_alt s) = spec_align s" "dynamic_width (set_alt s) = dynamic_width s"
  "dynamic_precision (set_alt s) = dynamic_precision s" "spec_sign (set_alt s) = spec_sign s" "spec_upper (set_alt s) = spec_upper s"
  "spec_alt (set_alt s) = True" "spec_localized (set_alt s) = spec_localized s" "fill_size (set_alt s) = fill_size s"
  "spec_dynamic (set_alt s) = spec_dynamic s" "fill_data (set_alt s) = fill_data s" "spec_width (set_alt u) = spec_width u"
  "spec_precision (set_alt u) = spec_precision u"
  by (simp_all add: getter_defs set_alt_def) (simp_all add: get_bits_def flag_stays flag_is_set masks_disjoint masks_or, simp add: mask_defs)

lemma set_localized_getters [spec_simps]:
  "spec_type (set_localized s) = spec_type s" "spec_align (set_localized s) = spec_align s"
  "dynamic_width (set_localized s) = dynamic_width s" "dynamic_precision (set_localized s) = dynamic_precision s"
  "spec_sign (set_localized s) = spec_sign s" "spec_upper (set_localized s) = spec_upper s" "spec_alt (set_localized s) = spec_alt s"
  "spec_localized (set_localized s) = True" "fill_size (set_localized s) = fill_size s" "spec_dynamic (set_localized s) = spec_dynamic s"
  "fill_data (set_localized s) = fill_data s" "spec_width (set_localized u) = spec_width u"
  "spec_precision (set_localized u) = spec_precision u"
  by (simp_all add: getter_defs set_localized_def) (simp_all add: get_bits_def flag_stays flag_is_set masks_disjoint masks_or, simp add: mask_defs)

lemma set_fill_size_getters [spec_simps]:
  "n \<le> 7 \<Longrightarrow> spec_type (set_fill_size n s) = spec_type s"
  "n \<le> 7 \<Longrightarrow> spec_align (set_fill_size n s) = spec_align s"
  "n \<le> 7 \<Longrightarrow> dynamic_width (set_fill_size n s) = dynamic_width s"
  "n \<le> 7 \<Longrightarrow> dynamic_precision (set_fill_size n s) = dynamic_precision s"
  "n \<le> 7 \<Longrightarrow> spec_sign (set_fill_size n s) = spec_sign s"
  "n \<le> 7 \<Longrightarrow> spec_upper (set_fill_size n s) = spec_upper s"
  "n \<le> 7 \<Longrightarrow> spec_alt (set_fill_size n s) = spec_alt s"
  "n \<le> 7 \<Longrightarrow> spec_localized (set_fill_size n s) = spec_localized s"
  "n \<le> 7 \<Longrightarrow> fill_size (set_fill_size n s) = n"
  "n \<le> 7 \<Longrightarrow> spec_dynamic (set_fill_size n s) = spec_dynamic s" "fill_data (set_fill_size n s) = fill_data s"
  "spec_width (set_fill_size n u) = spec_width u" "spec_precision (set_fill_size n u) = spec_precision u"
  by (simp_all add: getter_defs set_fill_size_def fill_size_fits ff.get_put unat_small_u32) (simp_all add: get_bits_def fill_size_fits fields_stay masks_disjoint masks_or)

end
