(* ===== verification/Fmt_Parse.thy ===== *)
theory Fmt_Parse
  imports Fmt_Specs
begin

text \<open>
  \<open>fmt/bundled/base.h\<close>, parsing of format strings: numbers, argument ids, the state machine for the
  specification after the colon, replacement fields and the loop over the whole string. A pointer into the
  string is the list of the bytes from there to its end; reading at the end is undefined. Handlers are records of
  operations, so that the same parser serves the checks at compile time and the formatting at run time.
\<close>

definition ascii :: "char \<Rightarrow> byte" where
  "ascii c = of_nat (of_char c)"

definition fmt_is_digit :: "byte \<Rightarrow> bool" where
  "fmt_is_digit c \<longleftrightarrow> ascii CHR ''0'' \<le> c \<and> c \<le> ascii CHR ''9''"

definition INT_MAX :: int where
  "INT_MAX = 2147483647"

subsection \<open>The parsing context\<close>

text \<open>
  \<open>parse_context\<close> and, under constant evaluation, \<open>compile_parse_context\<close>: \<open>pc_types\<close> holds the argument types that only the latter has.
  (\<open>use_constexpr_cast\<close> is true for every compiler but GCC before version 12.)
\<close>

record parse_context =
  pc_fmt :: bytes
  pc_next_arg_id :: int
  pc_types :: "fmt_type list option"

definition new_parse_context :: "bytes \<Rightarrow> parse_context" where
  "new_parse_context fmt = \<lparr>pc_fmt = fmt, pc_next_arg_id = 0, pc_types = None\<rparr>"

definition new_compile_context :: "bytes \<Rightarrow> fmt_type list \<Rightarrow> parse_context" where
  "new_compile_context fmt types = \<lparr>pc_fmt = fmt, pc_next_arg_id = 0, pc_types = Some types\<rparr>"

definition advance_to :: "bytes \<Rightarrow> (parse_context, unit) op" where
  "advance_to it = supdate (\<lambda>ctx. ctx\<lparr>pc_fmt := it\<rparr>)"

definition do_check_arg_id :: "int \<Rightarrow> (parse_context, unit) op" where
  "do_check_arg_id arg_id = sbind (sget pc_types) (\<lambda>ts.
     slift (case ts of
              None \<Rightarrow> Inr ()
            | Some types \<Rightarrow> if arg_id \<ge> int (length types) then report_error ''argument not found'' else Inr ()))"

definition next_arg_id :: "(parse_context, int) op" where
  "next_arg_id = sbind (sget pc_next_arg_id) (\<lambda>id.
     if id < 0 then slift (report_error ''cannot switch from manual to automatic argument indexing'')
     else sbind (supdate (\<lambda>ctx. ctx\<lparr>pc_next_arg_id := id + 1\<rparr>)) (\<lambda>_.
          sbind (do_check_arg_id id) (\<lambda>_. sreturn id)))"

definition check_arg_id :: "int \<Rightarrow> (parse_context, unit) op" where
  "check_arg_id arg_id = sbind (sget pc_next_arg_id) (\<lambda>n.
     if n > 0 then slift (report_error ''cannot switch from automatic to manual argument indexing'')
     else sbind (supdate (\<lambda>ctx. ctx\<lparr>pc_next_arg_id := -1\<rparr>)) (\<lambda>_. do_check_arg_id arg_id))"

definition check_arg_name :: "bytes \<Rightarrow> (parse_context, unit) op" where
  "check_arg_name name = supdate (\<lambda>ctx. ctx\<lparr>pc_next_arg_id := -1\<rparr>)"

definition check_dynamic_spec :: "int \<Rightarrow> (parse_context, unit) op" where
  "check_dynamic_spec arg_id = sbind (sget pc_types) (\<lambda>ts.
     slift (case ts of
              None \<Rightarrow> Inr ()
            | Some types \<Rightarrow>
                if 0 \<le> arg_id \<and> arg_id < int (length types) \<and> \<not> is_integral_type (types ! nat arg_id)
                then report_error ''width/precision is not integer'' else Inr ()))"

text \<open>The overriding operations of \<open>compile_parse_context\<close>.\<close>

definition compile_next_arg_id :: "(parse_context, int) op" where
  "compile_next_arg_id = sbind next_arg_id (\<lambda>id. sbind (do_check_arg_id id) (\<lambda>_. sreturn id))"

definition compile_check_arg_id :: "int \<Rightarrow> (parse_context, unit) op" where
  "compile_check_arg_id arg_id = sbind (check_arg_id arg_id) (\<lambda>_. do_check_arg_id arg_id)"

subsection \<open>Numbers, argument ids\<close>

definition code_point_length :: "byte \<Rightarrow> nat" where
  "code_point_length c = unat (drop_bit (2 * unat (drop_bit 3 c)) (0x3a55000000000000 :: u64) AND 3) + 1"

text \<open>The loop: the previous value, the value, the last digit, the number of digits and the rest.\<close>

fun parse_digits :: "u32 \<Rightarrow> u32 \<Rightarrow> byte \<Rightarrow> nat \<Rightarrow> bytes \<Rightarrow> u32 \<times> u32 \<times> byte \<times> nat \<times> bytes" where
  "parse_digits prev value d n [] = (prev, value, d, n, [])"
| "parse_digits prev value d n (c # p) =
     (if fmt_is_digit c then parse_digits value (value * 10 + of_nat (unat c - 48)) c (n + 1) p else (prev, value, d, n, c # p))"

definition digits10 :: nat where
  "digits10 = 4 * 8 * 3 div 10"

definition parse_nonnegative_int :: "bytes \<Rightarrow> int \<Rightarrow> (int \<times> bytes) result" where
  "parse_nonnegative_int begin error_value =
     fmt_assert (begin \<noteq> [] \<and> fmt_is_digit (hd begin))
       (case parse_digits 0 0 0 0 begin of (prev, value, d, num_digits, p) \<Rightarrow>
          if num_digits \<le> digits10 then Inr (sint value, p)
          else Inr (if num_digits = digits10 + 1 \<and> uint prev * 10 + int (unat d - 48) \<le> INT_MAX then sint value else error_value, p))"

definition parse_align :: "byte \<Rightarrow> fmt_align" where
  "parse_align c =
     (if c = ascii CHR ''<'' then align_left
      else if c = ascii CHR ''>'' then align_right
      else if c = ascii CHR ''^'' then align_center
      else align_none)"

definition is_name_start :: "byte \<Rightarrow> bool" where
  "is_name_start c \<longleftrightarrow>
     ascii CHR ''a'' \<le> c \<and> c \<le> ascii CHR ''z'' \<or> ascii CHR ''A'' \<le> c \<and> c \<le> ascii CHR ''Z'' \<or> c = ascii CHR ''_''"

definition is_name_char :: "byte \<Rightarrow> bool" where
  "is_name_char c \<longleftrightarrow> is_name_start c \<or> fmt_is_digit c"

definition parse_arg_id ::
  "(int \<Rightarrow> ('s, 'a) op) \<Rightarrow> (bytes \<Rightarrow> ('s, 'a) op) \<Rightarrow> bytes \<Rightarrow> ('s, 'a \<times> bytes) op" where
  "parse_arg_id on_index on_name begin =
     (case begin of
        [] \<Rightarrow> slift (Inl Undefined)
      | c # rest \<Rightarrow>
          if fmt_is_digit c then
            sbind (slift (if c \<noteq> ascii CHR ''0'' then parse_nonnegative_int begin INT_MAX else Inr (0, rest))) (\<lambda>(index, begin).
              if begin = [] \<or> hd begin \<noteq> ascii CHR ''}'' \<and> hd begin \<noteq> ascii CHR '':''
              then slift (report_error ''invalid format string'')
              else sbind (on_index index) (\<lambda>a. sreturn (a, begin)))
          else if \<not> is_name_start c then slift (report_error ''invalid format string'')
          else
            let it = dropWhile is_name_char rest in
            sbind (on_name (c # takeWhile is_name_char rest)) (\<lambda>a. sreturn (a, it)))"

subsection \<open>Width and precision\<close>

datatype arg_ref = ref_index int | ref_name bytes

record dynamic_format_specs = format_specs +
  width_ref :: arg_ref
  precision_ref :: arg_ref

definition new_dynamic_specs :: dynamic_format_specs where
  "new_dynamic_specs = format_specs.extend new_format_specs \<lparr>width_ref = ref_index 0, precision_ref = ref_index 0\<rparr>"

text \<open>\<open>dynamic_spec_handler\<close>: what it stores into the reference and the kind is returned.\<close>

definition dynamic_on_index :: "int \<Rightarrow> (parse_context, arg_id_kind \<times> arg_ref) op" where
  "dynamic_on_index arg_id =
     sbind (check_arg_id arg_id) (\<lambda>_. sbind (check_dynamic_spec arg_id) (\<lambda>_. sreturn (id_index, ref_index arg_id)))"

definition dynamic_on_name :: "bytes \<Rightarrow> (parse_context, arg_id_kind \<times> arg_ref) op" where
  "dynamic_on_name name = sbind (check_arg_name name) (\<lambda>_. sreturn (id_name, ref_name name))"

text \<open>The part between the braces.\<close>

definition parse_dynamic_ref :: "bytes \<Rightarrow> arg_ref \<Rightarrow> (parse_context, (arg_id_kind \<times> arg_ref) \<times> bytes) op" where
  "parse_dynamic_ref begin ref =
     (case begin of
        [] \<Rightarrow> sreturn ((id_none, ref), [])
      | c # _ \<Rightarrow>
          if c = ascii CHR ''}'' \<or> c = ascii CHR '':'' then
            sbind next_arg_id (\<lambda>id. sbind (check_dynamic_spec id) (\<lambda>_. sreturn ((id_index, ref_index id), begin)))
          else parse_arg_id dynamic_on_index dynamic_on_name begin)"

definition parse_dynamic_spec :: "bytes \<Rightarrow> int \<Rightarrow> arg_ref \<Rightarrow> (parse_context, bytes \<times> arg_id_kind \<times> int \<times> arg_ref) op" where
  "parse_dynamic_spec begin value ref =
     (case begin of
        [] \<Rightarrow> slift (Inl Undefined)
      | c # rest \<Rightarrow>
          if fmt_is_digit c then
            sbind (slift (parse_nonnegative_int begin (-1))) (\<lambda>(val, begin).
              if val = -1 then slift (report_error ''number is too big'') else sreturn (begin, id_none, val, ref))
          else if c = ascii CHR ''{'' then
            sbind (parse_dynamic_ref rest ref) (\<lambda>((kind, ref), begin).
              if begin \<noteq> [] \<and> hd begin = ascii CHR ''}'' then sreturn (tl begin, kind, value, ref)
              else slift (report_error ''invalid format string''))
          else slift (report_error ''invalid format string''))"

definition parse_width :: "bytes \<Rightarrow> dynamic_format_specs \<Rightarrow> (parse_context, bytes \<times> dynamic_format_specs) op" where
  "parse_width begin specs =
     sbind (parse_dynamic_spec begin (spec_width specs) (width_ref specs)) (\<lambda>(e, kind, value, ref).
       sreturn (e, set_dynamic_width kind (specs\<lparr>spec_width := value, width_ref := ref\<rparr>)))"

definition parse_precision :: "bytes \<Rightarrow> dynamic_format_specs \<Rightarrow> (parse_context, bytes \<times> dynamic_format_specs) op" where
  "parse_precision begin specs =
     (if begin = [] then slift (report_error ''invalid precision'')
      else sbind (parse_dynamic_spec begin (spec_precision specs) (precision_ref specs)) (\<lambda>(e, kind, value, ref).
             sreturn (e, set_dynamic_precision kind (specs\<lparr>spec_precision := value, precision_ref := ref\<rparr>))))"

subsection \<open>The specification\<close>

datatype spec_state = st_start | st_align | st_sign | st_hash | st_zero | st_width | st_precision | st_locale

primrec state_num :: "spec_state \<Rightarrow> nat" where
  "state_num st_start = 0"
| "state_num st_align = 1"
| "state_num st_sign = 2"
| "state_num st_hash = 3"
| "state_num st_zero = 4"
| "state_num st_width = 5"
| "state_num st_precision = 6"
| "state_num st_locale = 7"

definition enter_state :: "spec_state \<Rightarrow> spec_state \<Rightarrow> bool \<Rightarrow> spec_state result" where
  "enter_state current s valid =
     (if state_num current \<ge> state_num s \<or> \<not> valid then report_error ''invalid format specifier'' else Inr s)"

text \<open>One turn of the loop: return here, or go on from there.\<close>

datatype spec_turn = Stop bytes dynamic_format_specs | Go bytes spec_state dynamic_format_specs

definition parse_presentation_type :: "fmt_type \<Rightarrow> presentation_type \<Rightarrow> u32 \<Rightarrow> bytes \<Rightarrow> dynamic_format_specs \<Rightarrow> spec_turn result" where
  "parse_presentation_type arg_type pres types rest specs =
     (if \<not> in_set arg_type types then report_error ''invalid format specifier'' else Inr (Stop rest (set_type pres specs)))"

text \<open>The presentation characters; \<open>None\<close> for the others.\<close>

definition presentation_turn :: "fmt_type \<Rightarrow> byte \<Rightarrow> bytes \<Rightarrow> dynamic_format_specs \<Rightarrow> spec_turn result option" where
  "presentation_turn arg_type c rest specs =
     (let pres = (\<lambda>p types specs. Some (parse_presentation_type arg_type p types rest specs)) in
      if c = ascii CHR ''d'' then pres pres_dec integral_set specs
      else if c = ascii CHR ''X'' then pres pres_hex integral_set (set_upper specs)
      else if c = ascii CHR ''x'' then pres pres_hex integral_set specs
      else if c = ascii CHR ''o'' then pres pres_oct integral_set specs
      else if c = ascii CHR ''B'' then pres pres_bin integral_set (set_upper specs)
      else if c = ascii CHR ''b'' then pres pres_bin integral_set specs
      else if c = ascii CHR ''E'' then pres pres_exp float_set (set_upper specs)
      else if c = ascii CHR ''e'' then pres pres_exp float_set specs
      else if c = ascii CHR ''F'' then pres pres_fixed float_set (set_upper specs)
      else if c = ascii CHR ''f'' then pres pres_fixed float_set specs
      else if c = ascii CHR ''G'' then pres pres_general float_set (set_upper specs)
      else if c = ascii CHR ''g'' then pres pres_general float_set specs
      else if c = ascii CHR ''A'' then pres pres_hexfloat float_set (set_upper specs)
      else if c = ascii CHR ''a'' then pres pres_hexfloat float_set specs
      else if c = ascii CHR ''c'' then
        (if arg_type = bool_type then Some (report_error ''invalid format specifier'') else pres pres_chr integral_set specs)
      else if c = ascii CHR ''s'' then pres pres_string (bool_set OR string_set OR cstring_set) specs
      else if c = ascii CHR ''p'' then pres pres_pointer (pointer_set OR cstring_set) specs
      else if c = ascii CHR ''?'' then pres pres_debug (char_set OR string_set OR cstring_set) specs
      else None)"

text \<open>A byte that is read where the string may have ended.\<close>

definition first_byte :: "bytes \<Rightarrow> byte result" where
  "first_byte p = (case p of [] \<Rightarrow> Inl Undefined | c # _ \<Rightarrow> Inr c)"

lemma first_byte_iff [simp]: "first_byte p = Inr c \<longleftrightarrow> p \<noteq> [] \<and> c = hd p" "first_byte p = Inl e \<longleftrightarrow> p = [] \<and> e = Undefined"
  by (cases p; auto simp: first_byte_def)+

text \<open>The default branch: a fill of one code point and the alignment after it.\<close>

definition fill_turn :: "byte \<Rightarrow> bytes \<Rightarrow> spec_state \<Rightarrow> dynamic_format_specs \<Rightarrow> spec_turn result" where
  "fill_turn b rest cur specs =
     (if b = ascii CHR ''}'' then Inr (Stop (b # rest) specs)
      else
        let n = code_point_length b; fill_end = drop n (b # rest) in
        if fill_end = [] then report_error ''invalid format specifier''
        else if b = ascii CHR ''{'' then report_error (''invalid fill character '{'' @ [CHR 0x27])
        else
          rbind (first_byte fill_end) (\<lambda>c. let alignment = parse_align c in
          rbind (enter_state cur st_align (alignment \<noteq> align_none)) (\<lambda>cur.
          rbind (set_fill (take n (b # rest)) specs) (\<lambda>specs.
          Inr (Go (tl fill_end) cur (set_align alignment specs))))))"

text \<open>The switch: \<open>c\<close> is the character looked at, or 0, and \<open>b # rest\<close> the range from \<open>begin\<close>.\<close>

definition specs_step ::
  "fmt_type \<Rightarrow> byte \<Rightarrow> byte \<Rightarrow> bytes \<Rightarrow> spec_state \<Rightarrow> dynamic_format_specs \<Rightarrow> (parse_context, spec_turn) op" where
  "specs_step arg_type c b rest cur specs =
     (if c \<in> set (str ''<>^'') then
        slift (rbind (enter_state cur st_align True) (\<lambda>cur. Inr (Go rest cur (set_align (parse_align c) specs))))
      else if c \<in> set (str ''+ -'') then
        slift (rbind (enter_state cur st_sign (in_set arg_type (sint_set OR float_set))) (\<lambda>cur.
          Inr (Go rest cur (if c = ascii CHR '' '' then set_sign sign_space specs
                            else if c = ascii CHR ''+'' then set_sign sign_plus specs else specs))))
      else if c = ascii CHR ''#'' then
        slift (rbind (enter_state cur st_hash (is_arithmetic_type arg_type)) (\<lambda>cur. Inr (Go rest cur (set_alt specs))))
      else if c = ascii CHR ''0'' then
        slift (rbind (enter_state cur st_zero True) (\<lambda>cur.
          if \<not> is_arithmetic_type arg_type then report_error ''format specifier requires numeric argument''
          else Inr (Go rest cur (if spec_align specs = align_none
                                 then set_fill_char (ascii CHR ''0'') (set_align align_numeric specs) else specs))))
      else if c \<in> set (str ''123456789{'') then
        sbind (slift (enter_state cur st_width True)) (\<lambda>cur.
        sbind (parse_width (b # rest) specs) (\<lambda>(begin, specs). sreturn (Go begin cur specs)))
      else if c = ascii CHR ''.'' then
        sbind (slift (enter_state cur st_precision (in_set arg_type (float_set OR string_set OR cstring_set)))) (\<lambda>cur.
        sbind (parse_precision rest specs) (\<lambda>(begin, specs). sreturn (Go begin cur specs)))
      else if c = ascii CHR ''L'' then
        slift (rbind (enter_state cur st_locale (is_arithmetic_type arg_type)) (\<lambda>cur. Inr (Go rest cur (set_localized specs))))
      else
        (case presentation_turn arg_type c rest specs of
           Some r \<Rightarrow> slift r
         | None \<Rightarrow> if c = ascii CHR ''}'' then sreturn (Stop (b # rest) specs) else slift (fill_turn b rest cur specs)))"

text \<open>Every turn that goes on has consumed something.\<close>

lemma ascii_simps [simp]: "ascii c = of_nat (of_char c)"
  by (simp add: ascii_def)

lemma parse_digits_suffix: "parse_digits u v d n p = (u', v', d', n', r) \<Longrightarrow> suffix r p \<and> n + length p = n' + length r"
  by (induction u v d n p rule: parse_digits.induct) (auto split: if_splits intro: suffix_ConsI)

lemma parse_nonnegative_int_suffix:
  assumes "parse_nonnegative_int p e = Inr (v, r)"
  shows "\<exists>c p'. p = c # p' \<and> suffix r p'"
proof -
  obtain c p' where p: "p = c # p'" "fmt_is_digit c" 
    using assms by (cases p) (auto simp: parse_nonnegative_int_def fmt_assert_def split: if_splits)
  obtain a b d n q where q: "parse_digits 0 (0 * 10 + of_nat (unat c - 48)) c (0 + 1) p' = (a, b, d, n, q)" by (rule prod_cases5)
  have "parse_digits 0 0 0 0 p = (a, b, d, n, q)" by (simp only: p parse_digits.simps if_True q)
  then have "q = r" using assms by (simp add: parse_nonnegative_int_def fmt_assert_def split: if_splits)
  then show ?thesis using p parse_digits_suffix[OF q] by blast
qed

lemma suffix_dropWhile: "suffix (dropWhile P xs) xs"
  by (metis suffixI takeWhile_dropWhile_id)

lemma parse_arg_id_suffix:
  assumes "parse_arg_id f g p0 s = (Inr (a, r), t)"
  shows "\<exists>c p. p0 = c # p \<and> suffix r p"
proof (cases p0)
  case (Cons c p)
  have "suffix r p" if "fmt_is_digit c"
    using assms that Cons
    by (auto simp: parse_arg_id_def outcome_simps slift_def sreturn_def report_error_def split: if_splits dest: parse_nonnegative_int_suffix)
  moreover have "suffix r p" if "\<not> fmt_is_digit c"
    using assms that Cons suffix_dropWhile
    by (auto simp: parse_arg_id_def outcome_simps slift_def sreturn_def report_error_def Let_def split: if_splits)
  ultimately show ?thesis using Cons by blast
qed (use assms in \<open>simp add: parse_arg_id_def slift_def\<close>)

lemma parse_dynamic_ref_suffix:
  assumes "parse_dynamic_ref p0 ref s = (Inr (a, r), t)"
  shows "suffix r p0"
  using assms parse_arg_id_suffix[of dynamic_on_index dynamic_on_name p0 s a r t]
  by (cases p0) (auto simp: parse_dynamic_ref_def outcome_simps sreturn_def split: if_splits intro: suffix_ConsI)

lemma parse_dynamic_spec_suffix:
  assumes "parse_dynamic_spec p0 v ref s = (Inr (r, a), t)"
  shows "\<exists>c p. p0 = c # p \<and> suffix r p"
proof (cases p0)
  case (Cons c p)
  have "suffix r p" if "fmt_is_digit c"
    using assms that Cons
    by (auto simp: parse_dynamic_spec_def outcome_simps slift_def sreturn_def report_error_def split: if_splits dest: parse_nonnegative_int_suffix)
  moreover have "suffix r p" if nd: "\<not> fmt_is_digit c"
  proof -
    obtain k q r' u where "parse_dynamic_ref p ref s = (Inr ((k, q), r'), u)" "r' \<noteq> []" "r = tl r'"
      using assms nd Cons by (auto simp: parse_dynamic_spec_def outcome_simps slift_def sreturn_def report_error_def split: if_splits)
    then show ?thesis using parse_dynamic_ref_suffix by (metis suffix_order.trans suffix_tl)
  qed
  ultimately show ?thesis using Cons by blast
qed (use assms in \<open>simp add: parse_dynamic_spec_def slift_def\<close>)

lemma fill_turn_shorter:
  assumes "fill_turn b rest cur specs = Inr (Go r cur' specs')"
  shows "suffix r rest"
proof -
  have "r = tl (drop (code_point_length b) (b # rest))"
    using assms by (auto simp: fill_turn_def Let_def report_error_def rbind_Inr_iff simp del: drop_eq_Nil split: if_splits)
  then have "r = drop (code_point_length b) rest" by (simp add: tl_drop)
  then show ?thesis by (simp add: suffix_drop)
qed

lemma if_neqI: "x \<noteq> z \<Longrightarrow> y \<noteq> z \<Longrightarrow> (if b then x else y) \<noteq> z"
  by simp

lemma parse_presentation_type_stops: "Some (parse_presentation_type arg_type p ts rest specs) \<noteq> Some (Inr (Go r cur' specs'))"
  by (simp add: parse_presentation_type_def report_error_def)

lemma presentation_turn_stops: "presentation_turn arg_type c rest specs \<noteq> Some (Inr (Go r cur' specs'))"
  unfolding presentation_turn_def Let_def by (intro if_neqI parse_presentation_type_stops) (simp_all add: report_error_def)

lemma width_chars:
  "\<forall>c\<in>set (str ''123456789{''). c \<notin> set (str ''<>^'') \<and> c \<notin> set (str ''+ -'') \<and> c \<noteq> ascii CHR ''#'' \<and> c \<noteq> ascii CHR ''0''"
  by (simp add: str_def)

lemma spec_step_width:
  assumes "c \<in> set (str ''123456789{'')"
  shows "specs_step arg_type c b rest cur specs =
    sbind (slift (enter_state cur st_width True)) (\<lambda>cur.
    sbind (parse_width (b # rest) specs) (\<lambda>(p, specs). sreturn (Go p cur specs)))"
  using bspec[OF width_chars assms] assms unfolding specs_step_def by (simp only: if_True if_False simp_thms)

lemma spec_step_precision:
  "specs_step arg_type (ascii CHR ''.'') b rest cur specs =
    sbind (slift (enter_state cur st_precision (in_set arg_type (float_set OR string_set OR cstring_set)))) (\<lambda>cur.
    sbind (parse_precision rest specs) (\<lambda>(p, specs). sreturn (Go p cur specs)))"
proof -
  have "ascii CHR ''.'' \<notin> set (str ''<>^'') \<and> ascii CHR ''.'' \<notin> set (str ''+ -'') \<and> ascii CHR ''.'' \<noteq> ascii CHR ''#'' \<and>
    ascii CHR ''.'' \<noteq> ascii CHR ''0'' \<and> ascii CHR ''.'' \<notin> set (str ''123456789{'')"
    by (simp add: str_def)
  then show ?thesis unfolding specs_step_def by (simp only: if_True if_False simp_thms)
qed

lemma spec_step_other:
  assumes "c \<notin> set (str ''123456789{'')" "c \<noteq> ascii CHR ''.''" "specs_step arg_type c b rest cur specs s = (Inr (Go r cur' specs'), t)"
  shows "r = rest \<or> fill_turn b rest cur specs = Inr (Go r cur' specs')"
proof (cases "presentation_turn arg_type c rest specs")
  case None
  then show ?thesis using assms unfolding specs_step_def
    by (auto simp: slift_def sreturn_def rbind_Inr_iff report_error_def simp del: ascii_simps split: if_split_asm)
next
  case (Some x)
  then show ?thesis using assms presentation_turn_stops[of arg_type c rest specs r cur' specs'] unfolding specs_step_def
    by (auto simp: slift_def sreturn_def rbind_Inr_iff report_error_def simp del: ascii_simps split: if_split_asm)
qed

lemma spec_step_shorter:
  assumes "specs_step arg_type c b rest cur specs s = (Inr (Go r cur' specs'), t)"
  shows "suffix r rest"
proof -
  consider (width) "c \<in> set (str ''123456789{'')" | (dot) "c = ascii CHR ''.''" | (other) "c \<notin> set (str ''123456789{'')" "c \<noteq> ascii CHR ''.''" by blast
  then show ?thesis
  proof cases
    case width
    obtain k v q u where "parse_dynamic_spec (b # rest) (spec_width specs) (width_ref specs) u = (Inr (r, k, v, q), t)"
      using assms by (auto simp: spec_step_width[OF width] parse_width_def outcome_simps sreturn_def slift_def)
    then show ?thesis using parse_dynamic_spec_suffix by blast
  next
    case dot
    obtain k v q u where "parse_dynamic_spec rest (spec_precision specs) (precision_ref specs) u = (Inr (r, k, v, q), t)"
      using assms unfolding dot spec_step_precision
      by (auto simp: parse_precision_def outcome_simps sreturn_def slift_def report_error_def split: if_splits)
    then show ?thesis by (metis parse_dynamic_spec_suffix suffix_ConsI)
  next
    case other
    from spec_step_other[OF this assms] show ?thesis by (auto dest: fill_turn_shorter)
  qed
qed

function specs_loop ::
  "fmt_type \<Rightarrow> byte \<Rightarrow> bytes \<Rightarrow> spec_state \<Rightarrow> dynamic_format_specs \<Rightarrow> (parse_context, bytes \<times> dynamic_format_specs) op" where
  "specs_loop arg_type c [] cur specs ctx = (Inl Undefined, ctx)"
| "specs_loop arg_type c (b # rest) cur specs ctx =
     (case specs_step arg_type c b rest cur specs ctx of
        (Inl e, ctx) \<Rightarrow> (Inl e, ctx)
      | (Inr (Stop r specs), ctx) \<Rightarrow> (Inr (r, specs), ctx)
      | (Inr (Go r cur specs), ctx) \<Rightarrow> if r = [] then (Inr (r, specs), ctx) else specs_loop arg_type (hd r) r cur specs ctx)"
  by pat_completeness auto
termination
  by (relation "measure (\<lambda>(arg_type, c, p, cur, specs, ctx). length p)")
    (auto dest!: sym[THEN spec_step_shorter] suffix_length_le)

declare specs_loop.simps [simp del]

definition parse_format_specs :: "fmt_type \<Rightarrow> bytes \<Rightarrow> dynamic_format_specs \<Rightarrow> (parse_context, bytes \<times> dynamic_format_specs) op" where
  "parse_format_specs arg_type p specs =
     (case p of
        [] \<Rightarrow> sreturn ([], specs)
      | [c] \<Rightarrow> specs_loop arg_type c p st_start specs
      | c # next # _ \<Rightarrow> specs_loop arg_type (if parse_align next = align_none then c else 0) p st_start specs)"

subsection \<open>Format strings\<close>

text \<open>What a handler of the parser does; the overloads of \<open>on_arg_id\<close> for no id, an index and a name.\<close>

record 's format_handler_ops =
  on_text :: "bytes \<Rightarrow> ('s, unit) op"
  on_auto_id :: "('s, int) op"
  on_index_id :: "int \<Rightarrow> ('s, int) op"
  on_name_id :: "bytes \<Rightarrow> ('s, int) op"
  on_replacement_field :: "int \<Rightarrow> bytes \<Rightarrow> ('s, unit) op"
  on_format_specs :: "int \<Rightarrow> bytes \<Rightarrow> ('s, bytes) op"

text \<open>What follows the id: the specification up to the closing brace. A handler that returns a pointer outside the range is undefined.\<close>

definition parse_field_specs :: "'s format_handler_ops \<Rightarrow> int \<Rightarrow> bytes \<Rightarrow> ('s, bytes) op" where
  "parse_field_specs h arg_id p =
     sbind (on_format_specs h arg_id p) (\<lambda>r.
       if length r > length p then slift (Inl Undefined)
       else if r = [] \<or> hd r \<noteq> ascii CHR ''}'' then slift (report_error ''unknown format specifier'')
       else sreturn (tl r))"

text \<open>From the character after the opening brace.\<close>

definition parse_replacement_field :: "'s format_handler_ops \<Rightarrow> bytes \<Rightarrow> ('s, bytes) op" where
  "parse_replacement_field h p =
     (case p of
        [] \<Rightarrow> slift (report_error ''invalid format string'')
      | c # rest \<Rightarrow>
          if c = ascii CHR ''}'' then
            sbind (on_auto_id h) (\<lambda>id. sbind (on_replacement_field h id p) (\<lambda>_. sreturn rest))
          else if c = ascii CHR ''{'' then sbind (on_text h [c]) (\<lambda>_. sreturn rest)
          else if c = ascii CHR '':'' then sbind (on_auto_id h) (\<lambda>id. parse_field_specs h id rest)
          else
            sbind (parse_arg_id (on_index_id h) (on_name_id h) p) (\<lambda>(id, q).
              if q \<noteq> [] \<and> hd q = ascii CHR ''}'' then sbind (on_replacement_field h id q) (\<lambda>_. sreturn (tl q))
              else if q = [] \<or> hd q \<noteq> ascii CHR '':'' then slift (report_error ''missing '}' in format string'')
              else parse_field_specs h id (tl q)))"

lemma parse_field_specs_shorter: "parse_field_specs h i p s = (Inr r, t) \<Longrightarrow> length r < length p"
  by (auto simp: parse_field_specs_def outcome_simps slift_def sreturn_def report_error_def neq_Nil_conv split: if_splits)

lemma parse_replacement_field_shorter:
  assumes "parse_replacement_field h p s = (Inr r, t)"
  shows "length r < length p"
proof -
  obtain c rest where p: "p = c # rest" using assms by (cases p) (auto simp: parse_replacement_field_def slift_def report_error_def)
  consider (simple) "r = rest" | (specs) i u where "parse_field_specs h i rest u = (Inr r, t)"
    | (id) i q u where "parse_arg_id (on_index_id h) (on_name_id h) p s = (Inr (i, q), u)" "q \<noteq> []"
        "r = tl q \<or> (\<exists>v. parse_field_specs h i (tl q) v = (Inr r, t))"
    using assms by (auto simp: parse_replacement_field_def p outcome_simps slift_def sreturn_def report_error_def simp del: ascii_simps split: if_splits) blast+
  then show ?thesis
  proof cases
    case id
    then have "suffix q rest" using parse_arg_id_suffix[OF id(1)] p by simp
    then have "length q \<le> length rest" by (rule suffix_length_le)
    then show ?thesis using id(2,3) p parse_field_specs_shorter by (cases q) fastforce+
  qed (auto simp: p dest: parse_field_specs_shorter)
qed

text \<open>The loop: the text since the last field (\<open>begin\<close> to \<open>p\<close>) and what is left.\<close>

function format_loop :: "'s format_handler_ops \<Rightarrow> bytes \<Rightarrow> bytes \<Rightarrow> ('s, unit) op" where
  "format_loop h txt [] s = on_text h txt s"
| "format_loop h txt (c # p) s =
     (if c = ascii CHR ''{'' then
        (case on_text h txt s of
           (Inl e, s) \<Rightarrow> (Inl e, s)
         | (Inr _, s) \<Rightarrow>
             (case parse_replacement_field h p s of
                (Inl e, s) \<Rightarrow> (Inl e, s)
              | (Inr r, s) \<Rightarrow> format_loop h [] r s))
      else if c = ascii CHR ''}'' then
        (if p = [] \<or> hd p \<noteq> ascii CHR ''}'' then slift (report_error ''unmatched '}' in format string'') s
         else (case on_text h (txt @ [c]) s of
                 (Inl e, s) \<Rightarrow> (Inl e, s)
               | (Inr _, s) \<Rightarrow> format_loop h [] (tl p) s))
      else format_loop h (txt @ [c]) p s)"
  by pat_completeness auto
termination
  by (relation "measure (\<lambda>(h, txt, p, s). length p)") (auto dest!: sym[THEN parse_replacement_field_shorter] simp del: ascii_simps)

declare format_loop.simps [simp del]

definition parse_format_string :: "'s format_handler_ops \<Rightarrow> bytes \<Rightarrow> ('s, unit) op" where
  "parse_format_string h fmt = format_loop h [] fmt"

text \<open>Whether the presentation is that of a character.\<close>

definition check_char_specs :: "'a format_specs_scheme \<Rightarrow> bool result" where
  "check_char_specs specs =
     (if spec_type specs \<noteq> pres_none \<and> spec_type specs \<noteq> pres_chr \<and> spec_type specs \<noteq> pres_debug then Inr False
      else if spec_align specs = align_numeric \<or> spec_sign specs \<noteq> sign_none \<or> spec_alt specs
      then report_error ''invalid format specifier for char''
      else Inr True)"

end
