(* ===== verification/Fmt_Escape.thy ===== *)
theory Fmt_Escape
  imports Fmt_Parse Fmt_Int
begin

text \<open>
  Debug output of texts and characters (\<open>{:?}\<close>): which code points are printable (\<open>fmt/bundled/format-inl.h\<close>, tables included) and how
  the others are escaped (\<open>fmt/bundled/format.h\<close>).
\<close>

subsection \<open>Printable code points\<close>

definition singletons0 :: "(int \<times> int) list" where
  "singletons0 = [
     (0x00, 1), (0x03, 5), (0x05, 6), (0x06, 3), (0x07, 6), (0x08, 8), (0x09, 17), (0x0a, 28), (0x0b, 25), (0x0c, 20),
     (0x0d, 16), (0x0e, 13), (0x0f, 4), (0x10, 3), (0x12, 18), (0x13, 9), (0x16, 1), (0x17, 5), (0x18, 2), (0x19, 3),
     (0x1a, 7), (0x1c, 2), (0x1d, 1), (0x1f, 22), (0x20, 3), (0x2b, 3), (0x2c, 2), (0x2d, 11), (0x2e, 1), (0x30, 3),
     (0x31, 2), (0x32, 1), (0xa7, 2), (0xa9, 2), (0xaa, 4), (0xab, 8), (0xfa, 2), (0xfb, 5), (0xfd, 4), (0xfe, 3),
     (0xff, 9)]"

definition singletons0_lower :: "int list" where
  "singletons0_lower = [
     0xad, 0x78, 0x79, 0x8b, 0x8d, 0xa2, 0x30, 0x57, 0x58, 0x8b, 0x8c, 0x90, 0x1c, 0x1d, 0xdd, 0x0e, 0x0f, 0x4b, 0x4c, 0xfb,
     0xfc, 0x2e, 0x2f, 0x3f, 0x5c, 0x5d, 0x5f, 0xb5, 0xe2, 0x84, 0x8d, 0x8e, 0x91, 0x92, 0xa9, 0xb1, 0xba, 0xbb, 0xc5, 0xc6,
     0xc9, 0xca, 0xde, 0xe4, 0xe5, 0xff, 0x00, 0x04, 0x11, 0x12, 0x29, 0x31, 0x34, 0x37, 0x3a, 0x3b, 0x3d, 0x49, 0x4a, 0x5d,
     0x84, 0x8e, 0x92, 0xa9, 0xb1, 0xb4, 0xba, 0xbb, 0xc6, 0xca, 0xce, 0xcf, 0xe4, 0xe5, 0x00, 0x04, 0x0d, 0x0e, 0x11, 0x12,
     0x29, 0x31, 0x34, 0x3a, 0x3b, 0x45, 0x46, 0x49, 0x4a, 0x5e, 0x64, 0x65, 0x84, 0x91, 0x9b, 0x9d, 0xc9, 0xce, 0xcf, 0x0d,
     0x11, 0x29, 0x45, 0x49, 0x57, 0x64, 0x65, 0x8d, 0x91, 0xa9, 0xb4, 0xba, 0xbb, 0xc5, 0xc9, 0xdf, 0xe4, 0xe5, 0xf0, 0x0d,
     0x11, 0x45, 0x49, 0x64, 0x65, 0x80, 0x84, 0xb2, 0xbc, 0xbe, 0xbf, 0xd5, 0xd7, 0xf0, 0xf1, 0x83, 0x85, 0x8b, 0xa4, 0xa6,
     0xbe, 0xbf, 0xc5, 0xc7, 0xce, 0xcf, 0xda, 0xdb, 0x48, 0x98, 0xbd, 0xcd, 0xc6, 0xce, 0xcf, 0x49, 0x4e, 0x4f, 0x57, 0x59,
     0x5e, 0x5f, 0x89, 0x8e, 0x8f, 0xb1, 0xb6, 0xb7, 0xbf, 0xc1, 0xc6, 0xc7, 0xd7, 0x11, 0x16, 0x17, 0x5b, 0x5c, 0xf6, 0xf7,
     0xfe, 0xff, 0x80, 0x0d, 0x6d, 0x71, 0xde, 0xdf, 0x0e, 0x0f, 0x1f, 0x6e, 0x6f, 0x1c, 0x1d, 0x5f, 0x7d, 0x7e, 0xae, 0xaf,
     0xbb, 0xbc, 0xfa, 0x16, 0x17, 0x1e, 0x1f, 0x46, 0x47, 0x4e, 0x4f, 0x58, 0x5a, 0x5c, 0x5e, 0x7e, 0x7f, 0xb5, 0xc5, 0xd4,
     0xd5, 0xdc, 0xf0, 0xf1, 0xf5, 0x72, 0x73, 0x8f, 0x74, 0x75, 0x96, 0x2f, 0x5f, 0x26, 0x2e, 0x2f, 0xa7, 0xaf, 0xb7, 0xbf,
     0xc7, 0xcf, 0xd7, 0xdf, 0x9a, 0x40, 0x97, 0x98, 0x30, 0x8f, 0x1f, 0xc0, 0xc1, 0xce, 0xff, 0x4e, 0x4f, 0x5a, 0x5b, 0x07,
     0x08, 0x0f, 0x10, 0x27, 0x2f, 0xee, 0xef, 0x6e, 0x6f, 0x37, 0x3d, 0x3f, 0x42, 0x45, 0x90, 0x91, 0xfe, 0xff, 0x53, 0x67,
     0x75, 0xc8, 0xc9, 0xd0, 0xd1, 0xd8, 0xd9, 0xe7, 0xfe, 0xff]"

definition singletons1 :: "(int \<times> int) list" where
  "singletons1 = [
     (0x00, 6), (0x01, 1), (0x03, 1), (0x04, 2), (0x08, 8), (0x09, 2), (0x0a, 5), (0x0b, 2), (0x0e, 4), (0x10, 1),
     (0x11, 2), (0x12, 5), (0x13, 17), (0x14, 1), (0x15, 2), (0x17, 2), (0x19, 13), (0x1c, 5), (0x1d, 8), (0x24, 1),
     (0x6a, 3), (0x6b, 2), (0xbc, 2), (0xd1, 2), (0xd4, 12), (0xd5, 9), (0xd6, 2), (0xd7, 2), (0xda, 1), (0xe0, 5),
     (0xe1, 2), (0xe8, 2), (0xee, 32), (0xf0, 4), (0xf8, 2), (0xf9, 2), (0xfa, 2), (0xfb, 1)]"

definition singletons1_lower :: "int list" where
  "singletons1_lower = [
     0x0c, 0x27, 0x3b, 0x3e, 0x4e, 0x4f, 0x8f, 0x9e, 0x9e, 0x9f, 0x06, 0x07, 0x09, 0x36, 0x3d, 0x3e, 0x56, 0xf3, 0xd0, 0xd1,
     0x04, 0x14, 0x18, 0x36, 0x37, 0x56, 0x57, 0x7f, 0xaa, 0xae, 0xaf, 0xbd, 0x35, 0xe0, 0x12, 0x87, 0x89, 0x8e, 0x9e, 0x04,
     0x0d, 0x0e, 0x11, 0x12, 0x29, 0x31, 0x34, 0x3a, 0x45, 0x46, 0x49, 0x4a, 0x4e, 0x4f, 0x64, 0x65, 0x5c, 0xb6, 0xb7, 0x1b,
     0x1c, 0x07, 0x08, 0x0a, 0x0b, 0x14, 0x17, 0x36, 0x39, 0x3a, 0xa8, 0xa9, 0xd8, 0xd9, 0x09, 0x37, 0x90, 0x91, 0xa8, 0x07,
     0x0a, 0x3b, 0x3e, 0x66, 0x69, 0x8f, 0x92, 0x6f, 0x5f, 0xee, 0xef, 0x5a, 0x62, 0x9a, 0x9b, 0x27, 0x28, 0x55, 0x9d, 0xa0,
     0xa1, 0xa3, 0xa4, 0xa7, 0xa8, 0xad, 0xba, 0xbc, 0xc4, 0x06, 0x0b, 0x0c, 0x15, 0x1d, 0x3a, 0x3f, 0x45, 0x51, 0xa6, 0xa7,
     0xcc, 0xcd, 0xa0, 0x07, 0x19, 0x1a, 0x22, 0x25, 0x3e, 0x3f, 0xc5, 0xc6, 0x04, 0x20, 0x23, 0x25, 0x26, 0x28, 0x33, 0x38,
     0x3a, 0x48, 0x4a, 0x4c, 0x50, 0x53, 0x55, 0x56, 0x58, 0x5a, 0x5c, 0x5e, 0x60, 0x63, 0x65, 0x66, 0x6b, 0x73, 0x78, 0x7d,
     0x7f, 0x8a, 0xa4, 0xaa, 0xaf, 0xb0, 0xc0, 0xd0, 0xae, 0xaf, 0x79, 0xcc, 0x6e, 0x6f, 0x93]"

definition normal0 :: "int list" where
  "normal0 = [
     0x00, 0x20, 0x5f, 0x22, 0x82, 0xdf, 0x04, 0x82, 0x44, 0x08, 0x1b, 0x04, 0x06, 0x11, 0x81, 0xac, 0x0e, 0x80, 0xab, 0x35,
     0x28, 0x0b, 0x80, 0xe0, 0x03, 0x19, 0x08, 0x01, 0x04, 0x2f, 0x04, 0x34, 0x04, 0x07, 0x03, 0x01, 0x07, 0x06, 0x07, 0x11,
     0x0a, 0x50, 0x0f, 0x12, 0x07, 0x55, 0x07, 0x03, 0x04, 0x1c, 0x0a, 0x09, 0x03, 0x08, 0x03, 0x07, 0x03, 0x02, 0x03, 0x03,
     0x03, 0x0c, 0x04, 0x05, 0x03, 0x0b, 0x06, 0x01, 0x0e, 0x15, 0x05, 0x3a, 0x03, 0x11, 0x07, 0x06, 0x05, 0x10, 0x07, 0x57,
     0x07, 0x02, 0x07, 0x15, 0x0d, 0x50, 0x04, 0x43, 0x03, 0x2d, 0x03, 0x01, 0x04, 0x11, 0x06, 0x0f, 0x0c, 0x3a, 0x04, 0x1d,
     0x25, 0x5f, 0x20, 0x6d, 0x04, 0x6a, 0x25, 0x80, 0xc8, 0x05, 0x82, 0xb0, 0x03, 0x1a, 0x06, 0x82, 0xfd, 0x03, 0x59, 0x07,
     0x15, 0x0b, 0x17, 0x09, 0x14, 0x0c, 0x14, 0x0c, 0x6a, 0x06, 0x0a, 0x06, 0x1a, 0x06, 0x59, 0x07, 0x2b, 0x05, 0x46, 0x0a,
     0x2c, 0x04, 0x0c, 0x04, 0x01, 0x03, 0x31, 0x0b, 0x2c, 0x04, 0x1a, 0x06, 0x0b, 0x03, 0x80, 0xac, 0x06, 0x0a, 0x06, 0x21,
     0x3f, 0x4c, 0x04, 0x2d, 0x03, 0x74, 0x08, 0x3c, 0x03, 0x0f, 0x03, 0x3c, 0x07, 0x38, 0x08, 0x2b, 0x05, 0x82, 0xff, 0x11,
     0x18, 0x08, 0x2f, 0x11, 0x2d, 0x03, 0x20, 0x10, 0x21, 0x0f, 0x80, 0x8c, 0x04, 0x82, 0x97, 0x19, 0x0b, 0x15, 0x88, 0x94,
     0x05, 0x2f, 0x05, 0x3b, 0x07, 0x02, 0x0e, 0x18, 0x09, 0x80, 0xb3, 0x2d, 0x74, 0x0c, 0x80, 0xd6, 0x1a, 0x0c, 0x05, 0x80,
     0xff, 0x05, 0x80, 0xdf, 0x0c, 0xee, 0x0d, 0x03, 0x84, 0x8d, 0x03, 0x37, 0x09, 0x81, 0x5c, 0x14, 0x80, 0xb8, 0x08, 0x80,
     0xcb, 0x2a, 0x38, 0x03, 0x0a, 0x06, 0x38, 0x08, 0x46, 0x08, 0x0c, 0x06, 0x74, 0x0b, 0x1e, 0x03, 0x5a, 0x04, 0x59, 0x09,
     0x80, 0x83, 0x18, 0x1c, 0x0a, 0x16, 0x09, 0x4c, 0x04, 0x80, 0x8a, 0x06, 0xab, 0xa4, 0x0c, 0x17, 0x04, 0x31, 0xa1, 0x04,
     0x81, 0xda, 0x26, 0x07, 0x0c, 0x05, 0x05, 0x80, 0xa5, 0x11, 0x81, 0x6d, 0x10, 0x78, 0x28, 0x2a, 0x06, 0x4c, 0x04, 0x80,
     0x8d, 0x04, 0x80, 0xbe, 0x03, 0x1b, 0x03, 0x0f, 0x0d]"

definition normal1 :: "int list" where
  "normal1 = [
     0x5e, 0x22, 0x7b, 0x05, 0x03, 0x04, 0x2d, 0x03, 0x66, 0x03, 0x01, 0x2f, 0x2e, 0x80, 0x82, 0x1d, 0x03, 0x31, 0x0f, 0x1c,
     0x04, 0x24, 0x09, 0x1e, 0x05, 0x2b, 0x05, 0x44, 0x04, 0x0e, 0x2a, 0x80, 0xaa, 0x06, 0x24, 0x04, 0x24, 0x04, 0x28, 0x08,
     0x34, 0x0b, 0x01, 0x80, 0x90, 0x81, 0x37, 0x09, 0x16, 0x0a, 0x08, 0x80, 0x98, 0x39, 0x03, 0x63, 0x08, 0x09, 0x30, 0x16,
     0x05, 0x21, 0x03, 0x1b, 0x05, 0x01, 0x40, 0x38, 0x04, 0x4b, 0x05, 0x2f, 0x04, 0x0a, 0x07, 0x09, 0x07, 0x40, 0x20, 0x27,
     0x04, 0x0c, 0x09, 0x36, 0x03, 0x3a, 0x05, 0x1a, 0x07, 0x04, 0x0c, 0x07, 0x50, 0x49, 0x37, 0x33, 0x0d, 0x33, 0x07, 0x2e,
     0x08, 0x0a, 0x81, 0x26, 0x52, 0x4e, 0x28, 0x08, 0x2a, 0x56, 0x1c, 0x14, 0x17, 0x09, 0x4e, 0x04, 0x1e, 0x0f, 0x43, 0x0e,
     0x19, 0x07, 0x0a, 0x06, 0x48, 0x08, 0x27, 0x09, 0x75, 0x0b, 0x3f, 0x41, 0x2a, 0x06, 0x3b, 0x05, 0x0a, 0x06, 0x51, 0x06,
     0x01, 0x05, 0x10, 0x03, 0x05, 0x80, 0x8b, 0x62, 0x1e, 0x48, 0x08, 0x0a, 0x80, 0xa6, 0x5e, 0x22, 0x45, 0x0b, 0x0a, 0x06,
     0x0d, 0x13, 0x39, 0x07, 0x0a, 0x36, 0x2c, 0x04, 0x10, 0x80, 0xc0, 0x3c, 0x64, 0x53, 0x0c, 0x48, 0x09, 0x0a, 0x46, 0x45,
     0x1b, 0x48, 0x08, 0x53, 0x1d, 0x39, 0x81, 0x07, 0x46, 0x0a, 0x1d, 0x03, 0x47, 0x49, 0x37, 0x03, 0x0e, 0x08, 0x0a, 0x06,
     0x39, 0x07, 0x0a, 0x81, 0x36, 0x19, 0x80, 0xb7, 0x01, 0x0f, 0x32, 0x0d, 0x83, 0x9b, 0x66, 0x75, 0x0b, 0x80, 0xc4, 0x8a,
     0xbc, 0x84, 0x2f, 0x8f, 0xd1, 0x82, 0x47, 0xa1, 0xb9, 0x82, 0x39, 0x07, 0x2a, 0x04, 0x02, 0x60, 0x26, 0x0a, 0x46, 0x0a,
     0x28, 0x05, 0x13, 0x82, 0xb0, 0x5b, 0x65, 0x4b, 0x04, 0x39, 0x07, 0x11, 0x40, 0x05, 0x0b, 0x02, 0x0e, 0x97, 0xf8, 0x08,
     0x84, 0xd6, 0x2a, 0x09, 0xa2, 0xf7, 0x81, 0x1f, 0x31, 0x03, 0x11, 0x04, 0x08, 0x81, 0x8c, 0x89, 0x04, 0x6b, 0x05, 0x0d,
     0x03, 0x09, 0x07, 0x10, 0x93, 0x60, 0x80, 0xf6, 0x0a, 0x73, 0x08, 0x6e, 0x17, 0x46, 0x80, 0x9a, 0x14, 0x0c, 0x57, 0x09,
     0x19, 0x80, 0x87, 0x81, 0x47, 0x03, 0x85, 0x42, 0x0f, 0x15, 0x85, 0x50, 0x2b, 0x80, 0xd5, 0x2d, 0x03, 0x1a, 0x04, 0x02,
     0x81, 0x70, 0x3a, 0x05, 0x01, 0x85, 0x00, 0x80, 0xd7, 0x29, 0x4c, 0x04, 0x0a, 0x04, 0x02, 0x83, 0x11, 0x44, 0x4c, 0x3d,
     0x80, 0xc2, 0x3c, 0x06, 0x01, 0x04, 0x55, 0x05, 0x1b, 0x34, 0x02, 0x81, 0x0e, 0x2c, 0x04, 0x64, 0x0c, 0x56, 0x0a, 0x80,
     0xae, 0x38, 0x1d, 0x0d, 0x2c, 0x04, 0x09, 0x07, 0x02, 0x0e, 0x06, 0x80, 0x9a, 0x83, 0xd8, 0x08, 0x0d, 0x03, 0x0d, 0x03,
     0x74, 0x0c, 0x59, 0x07, 0x0c, 0x14, 0x0c, 0x04, 0x38, 0x08, 0x0a, 0x06, 0x28, 0x08, 0x22, 0x4e, 0x81, 0x54, 0x0c, 0x15,
     0x03, 0x03, 0x05, 0x07, 0x09, 0x19, 0x07, 0x07, 0x09, 0x03, 0x0d, 0x07, 0x29, 0x80, 0xcb, 0x25, 0x0a, 0x84, 0x06]"

text \<open>The first loop: whether the low byte is listed under the high byte.\<close>

fun singleton_listed :: "int \<Rightarrow> int \<Rightarrow> (int \<times> int) list \<Rightarrow> int list \<Rightarrow> bool" where
  "singleton_listed upper low [] lowers \<longleftrightarrow> False"
| "singleton_listed upper low ((u, n) # rest) lowers \<longleftrightarrow>
     (if upper < u then False
      else if upper = u \<and> low \<in> set (take (nat n) lowers) then True
      else singleton_listed upper low rest (drop (nat n) lowers))"

text \<open>The second loop: run lengths that alternate between printable and not; a length of two bytes has its top bit set.\<close>

fun printable_runs :: "int \<Rightarrow> bool \<Rightarrow> int list \<Rightarrow> bool" where
  "printable_runs x current [] = current"
| "printable_runs x current (v # vs) =
     (if v \<ge> 0x80 then
        (case vs of
           w # vs \<Rightarrow> let x = x - ((v - 0x80) * 256 + w) in if x < 0 then current else printable_runs x (\<not> current) vs
         | [] \<Rightarrow> current)
      else let x = x - v in if x < 0 then current else printable_runs x (\<not> current) vs)"

definition is_printable16 :: "int \<Rightarrow> (int \<times> int) list \<Rightarrow> int list \<Rightarrow> int list \<Rightarrow> bool" where
  "is_printable16 x singletons lowers normal \<longleftrightarrow>
     (if singleton_listed (x div 256) (x mod 256) singletons lowers then False else printable_runs x True normal)"

definition is_printable :: "u32 \<Rightarrow> bool" where
  "is_printable cp \<longleftrightarrow>
     (let lower = uint cp mod 65536 in
      if cp < 0x10000 then is_printable16 lower singletons0 singletons0_lower normal0
      else if cp < 0x20000 then is_printable16 lower singletons1 singletons1_lower normal1
      else if 0x2a6de \<le> cp \<and> cp < 0x2a700 then False
      else if 0x2b735 \<le> cp \<and> cp < 0x2b740 then False
      else if 0x2b81e \<le> cp \<and> cp < 0x2b820 then False
      else if 0x2cea2 \<le> cp \<and> cp < 0x2ceb0 then False
      else if 0x2ebe1 \<le> cp \<and> cp < 0x2f800 then False
      else if 0x2fa1e \<le> cp \<and> cp < 0x30000 then False
      else if 0x3134b \<le> cp \<and> cp < 0xe0100 then False
      else if 0xe01f0 \<le> cp \<and> cp < 0x110000 then False
      else cp < 0x110000)"

text \<open>The counts add up to the lists of low bytes, and no run ends in the middle of a length.\<close>

fun runs_complete :: "int list \<Rightarrow> bool" where
  "runs_complete [] = True"
| "runs_complete (v # vs) = (if v \<ge> 0x80 then (case vs of [] \<Rightarrow> False | w # vs \<Rightarrow> runs_complete vs) else runs_complete vs)"

lemma tables_complete:
  "int (length singletons0_lower) = sum_list (map snd singletons0)" "int (length singletons1_lower) = sum_list (map snd singletons1)"
  "runs_complete normal0" "runs_complete normal1"
  by (simp_all add: singletons0_def singletons0_lower_def singletons1_def singletons1_lower_def normal0_def normal1_def)

subsection \<open>Powers of two as bases\<close>

definition base_digit :: "bool \<Rightarrow> nat \<Rightarrow> nat \<Rightarrow> byte" where
  "base_digit upper base_bits d =
     (if base_bits < 4 then of_nat (48 + d) else str (if upper then ''0123456789ABCDEF'' else ''0123456789abcdef'') ! d)"

text \<open>The do-while loop of \<open>do_format_base2e\<close>, which writes downwards from position \<open>n\<close>; leaving the buffer is undefined.\<close>

function base2e_loop :: "bool \<Rightarrow> nat \<Rightarrow> bytes \<Rightarrow> nat \<Rightarrow> nat \<Rightarrow> (bytes \<times> nat) result" where
  "base2e_loop upper base_bits out n v =
     (if n = 0 then Inl Undefined
      else rbind (write_at out (n - 1) [base_digit upper base_bits (v mod 2 ^ base_bits)]) (\<lambda>out.
             if v div 2 ^ base_bits = 0 then Inr (out, n - 1) else base2e_loop upper base_bits out (n - 1) (v div 2 ^ base_bits)))"
  by pat_completeness auto
termination by (relation "measure (\<lambda>(_, _, _, n, _). n)") auto

declare base2e_loop.simps [simp del]

definition do_format_base2e :: "nat \<Rightarrow> bytes \<Rightarrow> nat \<Rightarrow> nat \<Rightarrow> bool \<Rightarrow> (bytes \<times> nat) result" where
  "do_format_base2e base_bits out v sz upper = base2e_loop upper base_bits out sz v"

definition format_base2e :: "nat \<Rightarrow> bytes \<Rightarrow> nat \<Rightarrow> nat \<Rightarrow> bool \<Rightarrow> bytes result" where
  "format_base2e base_bits out v num_digits upper = rbind (do_format_base2e base_bits out v num_digits upper) (\<lambda>(out, _). Inr out)"

text \<open>The plain expansion.\<close>

function base_digits :: "bool \<Rightarrow> nat \<Rightarrow> nat \<Rightarrow> bytes" where
  "base_digits upper k v =
     (if k = 0 \<or> v < 2 ^ k then [base_digit upper k v] else base_digits upper k (v div 2 ^ k) @ [base_digit upper k (v mod 2 ^ k)])"
  by pat_completeness auto
termination
proof (relation "measure (\<lambda>(_, _, v). v)", goal_cases)
  case (2 upper k v)
  then have "1 < (2::nat) ^ k" using one_less_power[of "2::nat" k] by simp
  moreover have "0 < v" using 2 by (auto intro: ccontr)
  ultimately show ?case by simp
qed simp

declare base_digits.simps [simp del]

lemma base2e_loop_eq:
  assumes "0 < k" "length (base_digits upper k v) \<le> n" "n \<le> length out"
  shows "base2e_loop upper k out n v =
    Inr (take (n - length (base_digits upper k v)) out @ base_digits upper k v @ drop n out, n - length (base_digits upper k v))"
  using assms
proof (induction upper k out n v rule: base2e_loop.induct)
  case (1 upper k out n v)
  have n: "0 < n" using "1.prems"(2) by (subst (asm) base_digits.simps) (simp split: if_splits)
  have w: "write_at out (n - 1) [d] = Inr (take (n - 1) out @ d # drop n out)" for d
    using n "1.prems"(3) by (cases n) (simp_all add: write_at_def)
  show ?case
  proof (cases "v < 2 ^ k")
    case True
    then have d: "base_digits upper k v = [base_digit upper k v]" by (simp add: base_digits.simps)
    show ?thesis using n True by (subst base2e_loop.simps) (simp add: d w[unfolded One_nat_def])
  next
    case False
    define ds where "ds = base_digits upper k (v div 2 ^ k)"
    define d where "d = base_digit upper k (v mod 2 ^ k)"
    have e: "base_digits upper k v = ds @ [d]" using False "1.prems"(1) by (subst base_digits.simps) (simp add: ds_def d_def)
    have len: "length ds \<le> n - 1" using "1.prems"(2) by (simp add: e)
    define out2 where "out2 = take (n - 1) out @ d # drop n out"
    have q: "v div 2 ^ k \<noteq> 0" using False by (simp add: div_eq_0_iff)
    then have "base2e_loop upper k out n v = base2e_loop upper k out2 (n - 1) (v div 2 ^ k)"
      using n by (subst base2e_loop.simps) (simp add: w[unfolded One_nat_def] d_def out2_def)
    also have "\<dots> = Inr (take (n - 1 - length ds) out2 @ ds @ drop (n - 1) out2, n - 1 - length ds)"
      unfolding ds_def using "1.prems" n q len w
      by (intro "1.IH") (auto simp: d_def ds_def out2_def)
    finally show ?thesis using n "1.prems"(3) len by (simp add: e out2_def min_def diff_diff_add add.commute)
  qed
qed

subsection \<open>Escaping\<close>

definition needs_escape :: "u32 \<Rightarrow> bool" where
  "needs_escape cp \<longleftrightarrow> cp < 0x20 \<or> cp = 0x7f \<or> cp = ucast (ascii (CHR 0x22)) \<or> cp = ucast (ascii (CHR 0x5C)) \<or> \<not> is_printable cp"

text \<open>Where the first code point to escape begins, where it ends (\<open>None\<close>: there is none) and which it is.\<close>

record find_escape_result =
  esc_begin :: nat
  esc_end :: "nat option"
  esc_cp :: u32

definition escape_visitor :: "find_escape_result visitor" where
  "escape_visitor cp off k r =
     (if needs_escape cp then (False, \<lparr>esc_begin = off, esc_end = Some (off + k), esc_cp = cp\<rparr>) else (True, r))"

definition find_escape :: "bytes \<Rightarrow> find_escape_result result" where
  "find_escape s = for_each_codepoint s escape_visitor \<lparr>esc_begin = length s, esc_end = None, esc_cp = 0\<rparr>"

definition write_codepoint :: "nat \<Rightarrow> byte \<Rightarrow> nat \<Rightarrow> bytes \<Rightarrow> bytes result" where
  "write_codepoint width pre cp out =
     rbind (format_base2e 4 (replicate width (ascii CHR ''0'')) cp width False) (\<lambda>buf. Inr (out @ [ascii (CHR 0x5C), pre] @ buf))"

fun write_hex_bytes :: "bytes \<Rightarrow> bytes \<Rightarrow> bytes result" where
  "write_hex_bytes [] out = Inr out"
| "write_hex_bytes (c # cs) out = rbind (write_codepoint 2 (ascii CHR ''x'') (unat c) out) (write_hex_bytes cs)"

text \<open>\<open>bs\<close> are the bytes from \<open>escape.begin\<close> to \<open>escape.end\<close>.\<close>

definition write_escaped_cp :: "u32 \<Rightarrow> bytes \<Rightarrow> bytes \<Rightarrow> bytes result" where
  "write_escaped_cp cp bs out =
     (if cp = 10 then Inr (out @ [ascii (CHR 0x5C), ascii CHR ''n''])
      else if cp = 13 then Inr (out @ [ascii (CHR 0x5C), ascii CHR ''r''])
      else if cp = 9 then Inr (out @ [ascii (CHR 0x5C), ascii CHR ''t''])
      else if cp = 0x22 \<or> cp = 0x27 \<or> cp = 0x5C then Inr (out @ [ascii (CHR 0x5C), ucast cp])
      else if cp < 0x100 then write_codepoint 2 (ascii CHR ''x'') (unat cp) out
      else if cp < 0x10000 then write_codepoint 4 (ascii CHR ''u'') (unat cp) out
      else if cp < 0x110000 then write_codepoint 8 (ascii CHR ''U'') (unat cp) out
      else write_hex_bytes bs out)"

text \<open>The do-while loop; it ends because every escape has a positive length, which the function checks so as to be total.\<close>

function escape_loop :: "bytes \<Rightarrow> bytes \<Rightarrow> bytes result" where
  "escape_loop s out =
     rbind (find_escape s) (\<lambda>e.
       let out = out @ take (esc_begin e) s in
       case esc_end e of
         None \<Rightarrow> Inr out
       | Some k \<Rightarrow>
           rbind (write_escaped_cp (esc_cp e) (take (k - esc_begin e) (drop (esc_begin e) s)) out) (\<lambda>out.
             if k \<ge> length s then Inr out else if k = 0 then Inl Undefined else escape_loop (drop k s) out))"
  by pat_completeness auto
termination by (relation "measure (\<lambda>(s, _). length s)") auto

declare escape_loop.simps [simp del]

definition write_escaped_string :: "bytes \<Rightarrow> bytes \<Rightarrow> bytes result" where
  "write_escaped_string s out =
     rbind (escape_loop s (out @ [ascii (CHR 0x22)])) (\<lambda>out. Inr (out @ [ascii (CHR 0x22)]))"

text \<open>A \<open>char\<close> is signed: converted to 32 bits it keeps its sign.\<close>

definition write_escaped_char :: "byte \<Rightarrow> bytes \<Rightarrow> bytes result" where
  "write_escaped_char v out =
     (let cp = scast v :: u32; out = out @ [ascii (CHR 0x27)] in
      rbind (if needs_escape cp \<and> v \<noteq> ascii (CHR 0x22) \<or> v = ascii (CHR 0x27) then write_escaped_cp cp [v] out else Inr (out @ [v]))
        (\<lambda>out. Inr (out @ [ascii (CHR 0x27)])))"

subsection \<open>What is written\<close>

definition plain_byte :: "byte \<Rightarrow> bool" where
  "plain_byte b \<longleftrightarrow> 0x20 \<le> b \<and> b \<noteq> 0x7f"

lemma base_digits_length: "0 < k \<Longrightarrow> 0 < w \<Longrightarrow> v < 2 ^ (k * w) \<Longrightarrow> length (base_digits upper k v) \<le> w"
proof (induction upper k v arbitrary: w rule: base_digits.induct)
  case (1 upper k v)
  show ?case
  proof (cases "v < 2 ^ k")
    case False
    have "w \<noteq> 1" using "1.prems"(3) False by auto
    then obtain w' where w: "w = Suc w'" "0 < w'" using "1.prems"(2) by (cases w) auto
    have "v div 2 ^ k < 2 ^ (k * w')" using "1.prems"(3) by (simp add: w div_less_iff_less_mult power_add mult.commute)
    then show ?thesis using "1.IH"[of w'] "1.prems" False w by (subst base_digits.simps) simp
  qed (use "1.prems" in \<open>simp add: base_digits.simps\<close>)
qed

lemma hex_digit_plain: "d < 16 \<Longrightarrow> plain_byte (base_digit u 4 d)"
proof -
  have "\<forall>d\<in>{0..<16}. plain_byte (base_digit u 4 d)" by (cases u) (simp_all add: base_digit_def str_def plain_byte_def atLeastLessThan_nat_numeral)
  then show "d < 16 \<Longrightarrow> plain_byte (base_digit u 4 d)" by simp
qed

lemma base_digits_plain: "\<forall>b\<in>set (base_digits u 4 v). plain_byte b"
proof (induction v rule: less_induct)
  case (less v)
  show ?case
  proof (cases "v < 16")
    case True
    then show ?thesis by (subst base_digits.simps) (simp add: hex_digit_plain)
  next
    case False
    then have "\<forall>b\<in>set (base_digits u 4 (v div 16)). plain_byte b" by (intro less.IH) simp
    then show ?thesis using False by (subst base_digits.simps) (auto simp: hex_digit_plain)
  qed
qed

lemma write_codepoint_plain:
  assumes "0 < w" "v < 2 ^ (4 * w)" "plain_byte p"
  shows "\<exists>x. (\<forall>out. write_codepoint w p v out = Inr (out @ x)) \<and> (\<forall>b\<in>set x. plain_byte b)"
proof -
  have len: "length (base_digits False 4 v) \<le> w" using base_digits_length[of 4 w v False] assms by simp
  have "format_base2e 4 (replicate w 48) v w False = Inr (replicate (w - length (base_digits False 4 v)) 48 @ base_digits False 4 v)"
    using base2e_loop_eq[of 4 False v w "replicate w 48"] len by (simp add: format_base2e_def do_format_base2e_def min_def)
  then show ?thesis using assms(3) base_digits_plain by (auto simp: write_codepoint_def plain_byte_def)
qed

lemma write_hex_bytes_plain: "\<exists>x. (\<forall>out. write_hex_bytes bs out = Inr (out @ x)) \<and> (\<forall>b\<in>set x. plain_byte b)"
proof (induction bs)
  case (Cons c cs)
  obtain x where "\<forall>out. write_codepoint 2 120 (unat c) out = Inr (out @ x)" "\<forall>b\<in>set x. plain_byte b"
    using write_codepoint_plain[of 2 "unat c" 120] by (auto simp: plain_byte_def)
  moreover obtain y where "\<forall>out. write_hex_bytes cs out = Inr (out @ y)" "\<forall>b\<in>set y. plain_byte b" using Cons.IH by blast
  ultimately show ?case by (intro exI[of _ "x @ y"]) auto
qed simp

lemma write_escaped_cp_plain: "\<exists>x. (\<forall>out. write_escaped_cp cp bs out = Inr (out @ x)) \<and> (\<forall>b\<in>set x. plain_byte b)"
proof -
  have n: "unat cp < 256 \<longleftrightarrow> cp < 0x100" "unat cp < 65536 \<longleftrightarrow> cp < 0x10000" "unat cp < 1114112 \<longleftrightarrow> cp < 0x110000" by (simp_all add: word_less_nat_alt)
  have p: "plain_byte 120" "plain_byte 117" "plain_byte 85" by (simp_all add: plain_byte_def)
  have h: "\<exists>x. (\<forall>out. write_codepoint 2 120 (unat cp) out = Inr (out @ x)) \<and> (\<forall>b\<in>set x. plain_byte b)" if "cp < 0x100"
    using write_codepoint_plain[of 2 "unat cp" 120] that p by (simp add: n)
  have u: "\<exists>x. (\<forall>out. write_codepoint 4 117 (unat cp) out = Inr (out @ x)) \<and> (\<forall>b\<in>set x. plain_byte b)" if "cp < 0x10000"
    using write_codepoint_plain[of 4 "unat cp" 117] that p by (simp add: n)
  have U: "\<exists>x. (\<forall>out. write_codepoint 8 85 (unat cp) out = Inr (out @ x)) \<and> (\<forall>b\<in>set x. plain_byte b)" if "cp < 0x110000"
  proof -
    have "unat cp < 2 ^ (4 * 8)" using that n(3) by simp
    then show ?thesis using write_codepoint_plain[of 8 "unat cp" 85] p by simp
  qed
  show ?thesis
  proof (cases "cp \<in> {10, 13, 9, 0x22, 0x27, 0x5C}")
    case True
    then show ?thesis by (auto simp: write_escaped_cp_def plain_byte_def)
  next
    case False
    then have e: "write_escaped_cp cp bs = (\<lambda>out. if cp < 0x100 then write_codepoint 2 120 (unat cp) out
      else if cp < 0x10000 then write_codepoint 4 117 (unat cp) out else if cp < 0x110000 then write_codepoint 8 85 (unat cp) out
      else write_hex_bytes bs out)"
      by (simp add: write_escaped_cp_def fun_eq_iff)
    show ?thesis unfolding e using h u U write_hex_bytes_plain[of bs]
      by (cases "cp < 0x100"; cases "cp < 0x10000"; cases "cp < 0x110000") (simp_all only: if_True if_False)
  qed
qed

lemma is_printable_bound: "0x110000 \<le> unat cp \<Longrightarrow> \<not> is_printable cp"
  by (simp add: is_printable_def word_less_nat_alt word_le_nat_alt Let_def)

lemma invalid_needs_escape: "needs_escape invalid_code_point"
proof -
  have "unat invalid_code_point = 4294967295" by (simp add: invalid_code_point_def unsigned_minus_1_eq_mask mask_eq_exp_minus_1)
  then show ?thesis using is_printable_bound[of invalid_code_point] by (simp add: needs_escape_def)
qed

lemma of_nat_plain: "n < 256 \<Longrightarrow> 32 \<le> n \<Longrightarrow> n \<noteq> 127 \<Longrightarrow> plain_byte (of_nat n)"
  by (auto simp: plain_byte_def word_le_nat_alt unat_of_nat word_unat_eq_iff)

lemma utf8_encode_plain:
  assumes "0x20 \<le> c" "c \<noteq> 0x7f" "scalar_value c"
  shows "\<forall>b\<in>set (utf8_encode c). plain_byte b"
proof -
  have c: "c < 1114112" using assms(3) by (simp add: scalar_value_def)
  have m: "plain_byte (of_nat (128 + y mod 64))" for y
  proof (rule of_nat_plain)
    have "y mod 64 < 64" by simp
    then show "128 + y mod 64 < 256" by linarith
  qed simp_all
  have a: "c < 128 \<Longrightarrow> plain_byte (of_nat c)" using assms(1,2) by (intro of_nat_plain) simp_all
  have two: "c < 2048 \<Longrightarrow> plain_byte (of_nat (192 + c div 64))" by (intro of_nat_plain) simp_all
  have three: "c < 65536 \<Longrightarrow> plain_byte (of_nat (224 + c div 4096))" by (intro of_nat_plain) simp_all
  have four: "plain_byte (of_nat (240 + c div 262144))" using c by (intro of_nat_plain) simp_all
  show ?thesis
    using a two three four m[of c] m[of "c div 64"] m[of "c div 4096"] by (simp add: utf8_encode_def del: of_nat_add)
qed

lemma plain_code_point:
  assumes "s \<noteq> []" "\<not> needs_escape (snd (decode_text s))"
  shows "\<forall>b\<in>set (take (fst (decode_text s)) s). plain_byte b"
proof -
  let ?cp = "snd (decode_text s)"
  have "?cp \<noteq> invalid_code_point" using assms(2) invalid_needs_escape by metis
  then have "scalar_value (unat ?cp)" "take (fst (decode_text s)) s = utf8_encode (unat ?cp)"
    using decode_text_cases[OF assms(1)] by (simp_all only: if_False)
  moreover have "0x20 \<le> unat ?cp" "unat ?cp \<noteq> 0x7f"
    using assms(2) by (auto simp: needs_escape_def word_less_nat_alt word_unat_eq_iff)
  ultimately show ?thesis using utf8_encode_plain by simp
qed

lemma escape_visit:
  "visit_list escape_visitor off (code_points s) r = r \<and> (\<forall>b\<in>set s. plain_byte b) \<or>
   (\<exists>b k cp. visit_list escape_visitor off (code_points s) r = \<lparr>esc_begin = off + b, esc_end = Some (off + k), esc_cp = cp\<rparr> \<and>
      b < k \<and> k \<le> length s \<and> (\<forall>x\<in>set (take b s). plain_byte x))"
proof (induction s arbitrary: off rule: code_points.induct)
  case (1 s)
  show ?case
  proof (cases "s = []")
    case False
    obtain n cp where d: "decode_text s = (n, cp)" by (cases "decode_text s")
    have n: "0 < n" "n \<le> length s" using decode_text_pos[of s] decode_text_cases[OF False] d by auto
    show ?thesis
    proof (cases "needs_escape cp")
      case True
      then show ?thesis using n d by (intro disjI2 exI[of _ 0] exI[of _ n] exI[of _ cp]) (simp add: code_points_step[OF False] escape_visitor_def)
    next
      case ne: False
      have plain: "\<forall>b\<in>set (take n s). plain_byte b" using plain_code_point[OF False] d ne by simp
      have step: "visit_list escape_visitor off (code_points s) r = visit_list escape_visitor (off + n) (code_points (drop n s)) r"
        using d ne by (simp add: code_points_step[OF False] escape_visitor_def)
      consider (none) "visit_list escape_visitor (off + n) (code_points (drop n s)) r = r" "\<forall>b\<in>set (drop n s). plain_byte b"
        | (esc) b k c where "visit_list escape_visitor (off + n) (code_points (drop n s)) r = \<lparr>esc_begin = off + n + b, esc_end = Some (off + n + k), esc_cp = c\<rparr>"
          "b < k" "k \<le> length (drop n s)" "\<forall>x\<in>set (take b (drop n s)). plain_byte x"
        using "1"[OF False, of "off + n"] d by auto
      then show ?thesis
      proof cases
        case none
        then show ?thesis using step plain by (metis Un_iff append_take_drop_id set_append)
      next
        case esc
        have "\<forall>x\<in>set (take (n + b) s). plain_byte x" using plain esc(4) by (auto simp: take_add)
        then show ?thesis using step esc n
          by (intro disjI2 exI[of _ "n + b"] exI[of _ "n + k"] exI[of _ c]) (simp add: add.assoc)
      qed
    qed
  qed (simp add: code_points.simps)
qed

lemma find_escape_cases:
  obtains (none) "find_escape s = Inr \<lparr>esc_begin = length s, esc_end = None, esc_cp = 0\<rparr>" "\<forall>b\<in>set s. plain_byte b"
  | (esc) b k cp where "find_escape s = Inr \<lparr>esc_begin = b, esc_end = Some k, esc_cp = cp\<rparr>" "b < k" "k \<le> length s"
      "\<forall>x\<in>set (take b s). plain_byte x"
  using escape_visit[of 0 s "\<lparr>esc_begin = length s, esc_end = None, esc_cp = 0\<rparr>"]
  by (auto simp: find_escape_def for_each_codepoint_list)

lemma escape_loop_plain: "\<exists>x. (\<forall>out. escape_loop s out = Inr (out @ x)) \<and> (\<forall>b\<in>set x. plain_byte b)"
proof (induction "length s" arbitrary: s rule: less_induct)
  case less
  show ?case
  proof (cases s rule: find_escape_cases)
    case none
    then show ?thesis by (intro exI[of _ s]) (simp add: escape_loop.simps)
  next
    case (esc b k cp)
    obtain y where y: "\<forall>out. write_escaped_cp cp (take (k - b) (drop b s)) out = Inr (out @ y)" "\<forall>b\<in>set y. plain_byte b"
      using write_escaped_cp_plain by blast
    show ?thesis
    proof (cases "k = length s")
      case True
      then show ?thesis using esc y by (intro exI[of _ "take b s @ y"]) (auto simp: Let_def escape_loop.simps)
    next
      case False
      have "length (drop k s) < length s" using esc(2,3) by simp
      then obtain z where z: "\<forall>out. escape_loop (drop k s) out = Inr (out @ z)" "\<forall>b\<in>set z. plain_byte b"
        using less by blast
      have "escape_loop s out = Inr (out @ take b s @ y @ z)" for out
        using esc y z False by (subst escape_loop.simps) (simp add: Let_def)
      then show ?thesis using esc(4) y(2) z(2) by (intro exI[of _ "take b s @ y @ z"]) auto
    qed
  qed
qed

lemma write_escaped_string_plain:
  "\<exists>x. (\<forall>out. write_escaped_string s out = Inr (out @ x)) \<and> (\<forall>b\<in>set x. plain_byte b)"
proof -
  obtain y where "\<forall>out. escape_loop s out = Inr (out @ y)" "\<forall>b\<in>set y. plain_byte b" using escape_loop_plain by blast
  then show ?thesis by (intro exI[of _ "[0x22] @ y @ [0x22]"]) (auto simp: write_escaped_string_def plain_byte_def)
qed

text \<open>A byte above 127 is negative as a \<open>char\<close>, and no code point once it is 32 bits wide.\<close>

lemma uint_scast_byte: "uint (scast v :: u32) = sint v mod 4294967296" for v :: byte
proof -
  have "uint (scast v :: u32) = take_bit 32 (sint v)" unfolding scast_eq uint_word_of_int_eq by simp
  then show ?thesis unfolding take_bit_eq_mod by simp
qed

lemma no_escape_range: "\<not> needs_escape cp \<Longrightarrow> 32 \<le> unat cp \<and> unat cp \<noteq> 127 \<and> unat cp < 0x110000"
  using is_printable_bound[of cp] by (cases "unat cp < 0x110000") (auto simp: needs_escape_def word_less_nat_alt word_unat_eq_iff)

lemma plain_byte_unat: "plain_byte v \<longleftrightarrow> 32 \<le> unat v \<and> unat v \<noteq> 127"
  by (auto simp: plain_byte_def word_le_nat_alt word_unat_eq_iff)

lemma plain_char: "\<not> needs_escape (scast v) \<Longrightarrow> plain_byte v" for v :: byte
proof -
  assume n: "\<not> needs_escape (scast v)"
  define i where "i = sint v"
  have r: "-128 \<le> i" "i < 128" using sint_greater_eq[of v] sint_less[of v] by (simp_all add: i_def)
  have u: "unat (scast v :: u32) = nat (i mod 4294967296)" by (simp only: unat_eq_nat_uint uint_scast_byte i_def)
  note range = no_escape_range[OF n, unfolded u]
  have nonneg: "0 \<le> i"
  proof (rule ccontr)
    assume neg: "\<not> 0 \<le> i"
    have "i mod 4294967296 = (i + 4294967296) mod 4294967296" by simp
    also have "\<dots> = i + 4294967296" using neg r by (intro mod_pos_pos_trivial) linarith+
    finally show False using range r by linarith
  qed
  then have "unat v = nat i" unfolding i_def by (rule unat_nonneg_word)
  moreover have "i mod 4294967296 = i" using nonneg r by simp
  ultimately show "plain_byte v" using range by (simp add: plain_byte_unat)
qed

lemma write_escaped_char_plain:
  "\<exists>x. (\<forall>out. write_escaped_char v out = Inr (out @ x)) \<and> (\<forall>b\<in>set x. plain_byte b)"
proof (cases "needs_escape (scast v :: u32) \<and> v \<noteq> 0x22 \<or> v = 0x27")
  case True
  obtain y where "\<forall>out. write_escaped_cp (scast v) [v] out = Inr (out @ y)" "\<forall>b\<in>set y. plain_byte b" using write_escaped_cp_plain by blast
  then show ?thesis using True by (intro exI[of _ "[0x27] @ y @ [0x27]"]) (auto simp: write_escaped_char_def plain_byte_def Let_def)
next
  case False
  then have "plain_byte v" using plain_char[of v] by (auto simp: plain_byte_def)
  then show ?thesis using False by (intro exI[of _ "[0x27, v, 0x27]"]) (auto simp: write_escaped_char_def plain_byte_def Let_def)
qed

text \<open>
  Debug output of a text or a character, whatever its bytes, is always produced, is appended to what was written before, and holds no
  control character: no line feed, escape or delete byte of an argument gets through.
\<close>

theorem debug_output_is_plain:
  "(\<exists>x. write_escaped_string s out = Inr (out @ x) \<and> (\<forall>b\<in>set x. 0x20 \<le> b \<and> b \<noteq> 0x7f)) \<and>
   (\<exists>x. write_escaped_char v out = Inr (out @ x) \<and> (\<forall>b\<in>set x. 0x20 \<le> b \<and> b \<noteq> 0x7f))"
  using write_escaped_string_plain[of s] write_escaped_char_plain[of v] by (auto simp: plain_byte_def)

text \<open>Different texts can have the same debug output: U+0085 is written like the invalid byte 0x85.\<close>

lemma debug_output_ambiguous: "write_escaped_string [0xC2, 0x85] [] = write_escaped_string [0x85] []"
  by code_simp

end
