(* ===== verification/Fmt_Check.thy ===== *)
theory Fmt_Check
  imports Fmt_Parse
begin

text \<open>
  What the parser of format strings guarantees: it never reads past the end and never fails an assertion, it consumes a part of the
  text, and the specification it returns is one the writers accept for the type of the argument.
\<close>

subsection \<open>Never undefined\<close>

lemma report_error_defined [simp]: "report_error m \<noteq> Inl Undefined" "report_error m \<noteq> Inr x"
  by (simp_all add: report_error_def)

lemma enter_state_defined [simp]: "enter_state cur st v \<noteq> Inl Undefined"
  by (simp add: enter_state_def)

lemma parse_presentation_type_defined [simp]: "parse_presentation_type ty p ts r sp \<noteq> Inl Undefined"
  by (simp add: parse_presentation_type_def)

lemma presentation_turn_defined: "presentation_turn ty c r sp \<noteq> Some (Inl Undefined)"
  unfolding presentation_turn_def Let_def by (intro if_neqI) simp_all

lemma code_point_length_le: "1 \<le> code_point_length c" "code_point_length c \<le> 4"
proof -
  have "unat (w AND 3) = unat w mod 4" for w :: u64
  proof -
    have "unat (take_bit 2 w) = unat w mod 4" unfolding unsigned_take_bit_eq by (simp add: take_bit_eq_mod)
    then show ?thesis unfolding take_bit_eq_mask by (simp add: mask_eq_exp_minus_1)
  qed
  then show "code_point_length c \<le> 4"
    unfolding code_point_length_def using mod_less_divisor[of 4] by (simp add: less_Suc_eq_le[symmetric])
qed (simp add: code_point_length_def)

lemma set_fill_defined: "length v \<le> 4 \<Longrightarrow> set_fill v sp \<noteq> Inl Undefined"
  by (simp add: set_fill_def fmt_assert_def max_fill_size_def Let_def)

lemma fill_turn_defined: "fill_turn b rest cur sp \<noteq> Inl Undefined"
  using code_point_length_le[of b] set_fill_defined[of "take (code_point_length b) (b # rest)" sp]
  by (auto simp: fill_turn_def Let_def rbind_Inl_iff)

lemma parse_nonnegative_int_defined: "fmt_is_digit c \<Longrightarrow> parse_nonnegative_int (c # p) e \<noteq> Inl Undefined"
  by (auto simp: parse_nonnegative_int_def fmt_assert_def split: prod.splits)

lemma context_ops_defined [defined_rules]:
  "defined (advance_to p)" "defined (do_check_arg_id i)" "defined (check_dynamic_spec i)" "defined (check_arg_name n)"
  by (auto simp: advance_to_def do_check_arg_id_def check_dynamic_spec_def check_arg_name_def intro!: defined_rules defined_slift split: option.splits if_splits)

lemma next_arg_id_defined [defined_rules]: "defined next_arg_id" "defined (check_arg_id i)"
  by (auto simp: next_arg_id_def check_arg_id_def intro!: defined_rules defined_slift)

lemma compile_ops_defined [defined_rules]: "defined compile_next_arg_id" "defined (compile_check_arg_id i)"
  by (auto simp: compile_next_arg_id_def compile_check_arg_id_def intro!: defined_rules)

subsection \<open>Numbers\<close>

definition dec_step :: "nat \<Rightarrow> byte \<Rightarrow> nat" where
  "dec_step acc d = 10 * acc + (unat d - 48)"

lemma dec_value_steps: "dec_value ds = foldl dec_step 0 ds"
  by (simp add: dec_value_def dec_step_def[abs_def])

lemma digit_value: "fmt_is_digit d \<Longrightarrow> unat d - 48 \<le> 9"
  by (auto simp: fmt_is_digit_def word_le_nat_alt)

lemma dec_steps_bound: "(\<forall>d\<in>set ds. fmt_is_digit d) \<Longrightarrow> foldl dec_step a ds < (a + 1) * 10 ^ length ds"
proof (induction ds arbitrary: a)
  case (Cons d ds)
  have "foldl dec_step (dec_step a d) ds < (dec_step a d + 1) * 10 ^ length ds" using Cons by simp
  also have "\<dots> \<le> (10 * (a + 1)) * 10 ^ length ds" using digit_value[of d] Cons.prems by (intro mult_right_mono) (simp_all add: dec_step_def)
  finally show ?case by (simp add: algebra_simps)
qed simp

lemma dec_value_bound: "(\<forall>d\<in>set ds. fmt_is_digit d) \<Longrightarrow> dec_value ds < 10 ^ length ds"
  using dec_steps_bound[of ds 0] by (simp add: dec_value_steps)

lemma parse_digits_run:
  assumes "\<forall>d\<in>set ds. fmt_is_digit d" "rest = [] \<or> \<not> fmt_is_digit (hd rest)"
  shows "parse_digits (of_nat u) (of_nat a) d n (ds @ rest) =
    (of_nat (if ds = [] then u else foldl dec_step a (butlast ds)), of_nat (foldl dec_step a ds), last (d # ds), n + length ds, rest)"
  using assms(1)
proof (induction ds arbitrary: u a d n)
  case Nil
  then show ?case using assms(2) by (cases rest) auto
next
  case (Cons c ds)
  have "parse_digits (of_nat u) (of_nat a) d n ((c # ds) @ rest) = parse_digits (of_nat a) (of_nat (dec_step a c)) c (n + 1) (ds @ rest)"
    using Cons.prems by (simp add: dec_step_def mult.commute)
  also have "\<dots> = (of_nat (if ds = [] then a else foldl dec_step (dec_step a c) (butlast ds)),
      of_nat (foldl dec_step (dec_step a c) ds), last (c # ds), n + 1 + length ds, rest)"
    using Cons by simp
  finally show ?case by simp
qed

lemma sint_small: "n < 2 ^ 31 \<Longrightarrow> sint (of_nat n :: u32) = int n"
proof -
  assume n: "n < 2 ^ 31"
  then have "uint (of_nat n :: u32) = int n" by (simp add: uint_nat unat_of_nat)
  then show ?thesis using n by (simp add: sint_uint signed_take_bit_int_eq_self)
qed

lemma nonnegative_int_exact:
  assumes "ds \<noteq> []" "\<forall>d\<in>set ds. fmt_is_digit d" "rest = [] \<or> \<not> fmt_is_digit (hd rest)"
  shows "parse_nonnegative_int (ds @ rest) e =
    Inr (if length ds \<le> 10 \<and> int (dec_value ds) \<le> INT_MAX then int (dec_value ds) else e, rest)"
proof -
  define v where "v = dec_value ds"
  define u where "u = dec_value (butlast ds)"
  have run: "parse_digits 0 0 0 0 (ds @ rest) = (of_nat u, of_nat v, last ds, length ds, rest)"
    using parse_digits_run[OF assms(2,3), of 0 0 0 0] assms(1) by (simp add: u_def v_def dec_value_steps)
  have hd: "fmt_is_digit (hd (ds @ rest))" using assms(1,2) by (cases ds) auto
  have v: "v < 10 ^ length ds" using dec_value_bound[OF assms(2)] by (simp add: v_def)
  have v_u: "v = 10 * u + (unat (last ds) - 48)"
    using assms(1) by (cases ds rule: rev_cases) (simp_all add: u_def v_def dec_value_steps dec_step_def)
  show ?thesis
  proof (cases "length ds \<le> 9")
    case True
    then have "v < 10 ^ 9" using v power_increasing[of "length ds" 9 "10::nat"] by linarith
    then have "sint (of_nat v :: u32) = int v" "int v \<le> INT_MAX" by (simp_all add: sint_small INT_MAX_def)
    then show ?thesis using True run hd assms(1) by (simp add: parse_nonnegative_int_def fmt_assert_def digits10_def v_def)
  next
    case False
    have "sint (of_nat v :: u32) = int v" if "int v \<le> INT_MAX" using that by (intro sint_small) (simp add: INT_MAX_def)
    moreover have "uint (of_nat u :: u32) * 10 + int (unat (last ds) - 48) = int v" if "length ds = 10"
    proof -
      have "\<forall>d\<in>set (butlast ds). fmt_is_digit d" using assms(2) by (meson in_set_butlastD)
      then have "u < 10 ^ 9" using dec_value_bound[of "butlast ds"] that by (simp add: u_def)
      then show ?thesis by (simp add: v_u uint_nat unat_of_nat)
    qed
    ultimately show ?thesis using False run hd assms(1) by (auto simp: parse_nonnegative_int_def fmt_assert_def digits10_def v_def)
  qed
qed

text \<open>A number in a format string is read exactly when it has at most ten digits and fits an \<open>int\<close>; any other number gives the error value, and in every
  case all the digits are consumed. No intermediate overflow shows.\<close>

theorem numbers_are_exact:
  assumes "ds \<noteq> []" "\<forall>d\<in>set ds. fmt_is_digit d" "rest = [] \<or> \<not> fmt_is_digit (hd rest)"
  shows "parse_nonnegative_int (ds @ rest) e =
    Inr (if length ds \<le> 10 \<and> int (dec_value ds) \<le> INT_MAX then int (dec_value ds) else e, rest)"
  using assms by (rule nonnegative_int_exact)

text \<open>The largest number that fits.\<close>

theorem numbers_are_exact_witness: "parse_nonnegative_int (str ''2147483647'' @ str ''}'') 0 = Inr (2147483647, str ''}'')"
proof -
  have d: "str ''2147483647'' \<noteq> []" "\<forall>d\<in>set (str ''2147483647''). fmt_is_digit d" "str ''}'' = [] \<or> \<not> fmt_is_digit (hd (str ''}''))"
    "length (str ''2147483647'') \<le> 10" "int (dec_value (str ''2147483647'')) = 2147483647"
    by (simp_all add: str_def fmt_is_digit_def dec_value_def)
  show ?thesis using numbers_are_exact[OF d(1-3), of 0] d(4,5) by (simp add: INT_MAX_def)
qed

subsection \<open>Specifications the writers accept\<close>

lemma update_getters [spec_simps]:
  "spec_type (s\<lparr>spec_width := x\<rparr>) = spec_type s" "spec_align (s\<lparr>spec_width := x\<rparr>) = spec_align s"
  "dynamic_width (s\<lparr>spec_width := x\<rparr>) = dynamic_width s"
  "dynamic_precision (s\<lparr>spec_width := x\<rparr>) = dynamic_precision s"
  "spec_sign (s\<lparr>spec_width := x\<rparr>) = spec_sign s" "spec_upper (s\<lparr>spec_width := x\<rparr>) = spec_upper s"
  "spec_alt (s\<lparr>spec_width := x\<rparr>) = spec_alt s" "spec_localized (s\<lparr>spec_width := x\<rparr>) = spec_localized s"
  "fill_size (s\<lparr>spec_width := x\<rparr>) = fill_size s" "spec_dynamic (s\<lparr>spec_width := x\<rparr>) = spec_dynamic s"
  "spec_type (s\<lparr>spec_precision := x\<rparr>) = spec_type s" "spec_align (s\<lparr>spec_precision := x\<rparr>) = spec_align s"
  "dynamic_width (s\<lparr>spec_precision := x\<rparr>) = dynamic_width s"
  "dynamic_precision (s\<lparr>spec_precision := x\<rparr>) = dynamic_precision s"
  "spec_sign (s\<lparr>spec_precision := x\<rparr>) = spec_sign s" "spec_upper (s\<lparr>spec_precision := x\<rparr>) = spec_upper s"
  "spec_alt (s\<lparr>spec_precision := x\<rparr>) = spec_alt s"
  "spec_localized (s\<lparr>spec_precision := x\<rparr>) = spec_localized s"
  "fill_size (s\<lparr>spec_precision := x\<rparr>) = fill_size s" "spec_dynamic (s\<lparr>spec_precision := x\<rparr>) = spec_dynamic s"
  "spec_type (t\<lparr>width_ref := y\<rparr>) = spec_type t" "spec_align (t\<lparr>width_ref := y\<rparr>) = spec_align t"
  "dynamic_width (t\<lparr>width_ref := y\<rparr>) = dynamic_width t"
  "dynamic_precision (t\<lparr>width_ref := y\<rparr>) = dynamic_precision t" "spec_sign (t\<lparr>width_ref := y\<rparr>) = spec_sign t"
  "spec_upper (t\<lparr>width_ref := y\<rparr>) = spec_upper t" "spec_alt (t\<lparr>width_ref := y\<rparr>) = spec_alt t"
  "spec_localized (t\<lparr>width_ref := y\<rparr>) = spec_localized t" "fill_size (t\<lparr>width_ref := y\<rparr>) = fill_size t"
  "spec_dynamic (t\<lparr>width_ref := y\<rparr>) = spec_dynamic t" "spec_type (t\<lparr>precision_ref := y\<rparr>) = spec_type t"
  "spec_align (t\<lparr>precision_ref := y\<rparr>) = spec_align t"
  "dynamic_width (t\<lparr>precision_ref := y\<rparr>) = dynamic_width t"
  "dynamic_precision (t\<lparr>precision_ref := y\<rparr>) = dynamic_precision t"
  "spec_sign (t\<lparr>precision_ref := y\<rparr>) = spec_sign t" "spec_upper (t\<lparr>precision_ref := y\<rparr>) = spec_upper t"
  "spec_alt (t\<lparr>precision_ref := y\<rparr>) = spec_alt t" "spec_localized (t\<lparr>precision_ref := y\<rparr>) = spec_localized t"
  "fill_size (t\<lparr>precision_ref := y\<rparr>) = fill_size t" "spec_dynamic (t\<lparr>precision_ref := y\<rparr>) = spec_dynamic t"
  "spec_type (u\<lparr>fill_data := z\<rparr>) = spec_type u" "spec_align (u\<lparr>fill_data := z\<rparr>) = spec_align u"
  "dynamic_width (u\<lparr>fill_data := z\<rparr>) = dynamic_width u"
  "dynamic_precision (u\<lparr>fill_data := z\<rparr>) = dynamic_precision u" "spec_sign (u\<lparr>fill_data := z\<rparr>) = spec_sign u"
  "spec_upper (u\<lparr>fill_data := z\<rparr>) = spec_upper u" "spec_alt (u\<lparr>fill_data := z\<rparr>) = spec_alt u"
  "spec_localized (u\<lparr>fill_data := z\<rparr>) = spec_localized u" "fill_size (u\<lparr>fill_data := z\<rparr>) = fill_size u"
  "spec_dynamic (u\<lparr>fill_data := z\<rparr>) = spec_dynamic u"
  by (simp_all add: getter_defs)

lemma setter_refs [spec_simps]:
  "width_ref (set_type p s) = width_ref s" "precision_ref (set_type p s) = precision_ref s" "width_ref (set_align a s) = width_ref s"
  "precision_ref (set_align a s) = precision_ref s" "width_ref (set_dynamic_width d s) = width_ref s"
  "precision_ref (set_dynamic_width d s) = precision_ref s" "width_ref (set_dynamic_precision d s) = width_ref s"
  "precision_ref (set_dynamic_precision d s) = precision_ref s" "width_ref (set_sign g s) = width_ref s"
  "precision_ref (set_sign g s) = precision_ref s" "width_ref (set_upper s) = width_ref s" "precision_ref (set_upper s) = precision_ref s"
  "width_ref (set_alt s) = width_ref s" "precision_ref (set_alt s) = precision_ref s" "width_ref (set_localized s) = width_ref s"
  "precision_ref (set_localized s) = precision_ref s" "width_ref (set_fill_size n s) = width_ref s"
  "precision_ref (set_fill_size n s) = precision_ref s"
  by (simp_all add: set_type_def set_align_def set_dynamic_width_def set_dynamic_precision_def set_sign_def set_upper_def set_alt_def
      set_localized_def set_fill_size_def)

definition pres_ok :: "fmt_type \<Rightarrow> presentation_type \<Rightarrow> bool" where
  "pres_ok ty p \<longleftrightarrow>
     p = 0 \<or> in_set ty integral_set \<and> p \<in> {pres_dec, pres_hex, pres_oct, pres_bin, pres_chr} \<or>
     in_set ty float_set \<and> p \<in> {pres_exp, pres_fixed, pres_general, pres_hexfloat} \<or>
     in_set ty (bool_set OR string_set OR cstring_set) \<and> p = pres_string \<or>
     in_set ty (pointer_set OR cstring_set) \<and> p = pres_pointer \<or>
     in_set ty (char_set OR string_set OR cstring_set) \<and> p = pres_debug"

definition ref_ok :: "arg_id_kind \<Rightarrow> arg_ref \<Rightarrow> bool" where
  "ref_ok kind r =
     (case kind of
        id_none \<Rightarrow> True
      | id_index \<Rightarrow> (case r of ref_index i \<Rightarrow> 0 \<le> i | ref_name _ \<Rightarrow> False)
      | id_name \<Rightarrow> (case r of ref_index _ \<Rightarrow> False | ref_name _ \<Rightarrow> True))"

definition specs_ok :: "fmt_type \<Rightarrow> dynamic_format_specs \<Rightarrow> bool" where
  "specs_ok ty sp \<longleftrightarrow>
     length (fill_data sp) = 4 \<and> 1 \<le> fill_size sp \<and> fill_size sp \<le> 4 \<and>
     0 \<le> spec_width sp \<and> spec_width sp \<le> INT_MAX \<and> -1 \<le> spec_precision sp \<and> spec_precision sp \<le> INT_MAX \<and>
     pres_ok ty (spec_type sp) \<and> ref_ok (dynamic_width sp) (width_ref sp) \<and> ref_ok (dynamic_precision sp) (precision_ref sp)"

lemma new_dynamic_specs_getters [simp]:
  "spec_type new_dynamic_specs = 0" "spec_align new_dynamic_specs = align_none" "dynamic_width new_dynamic_specs = id_none"
  "dynamic_precision new_dynamic_specs = id_none" "spec_sign new_dynamic_specs = sign_none" "\<not> spec_upper new_dynamic_specs"
  "\<not> spec_alt new_dynamic_specs" "\<not> spec_localized new_dynamic_specs" "fill_size new_dynamic_specs = 1" "\<not> spec_dynamic new_dynamic_specs"
  "fill_data new_dynamic_specs = [32, 0, 0, 0]" "spec_width new_dynamic_specs = 0" "spec_precision new_dynamic_specs = -1"
  by (simp_all add: new_dynamic_specs_def format_specs.defs new_format_specs_def basic_specs.defs new_basic_specs_def getter_defs get_bits_def
      mask_defs align_of_def arg_kind_of_def sign_of_def)

lemma new_dynamic_specs_ok: "specs_ok ty new_dynamic_specs"
  by (simp add: specs_ok_def pres_ok_def ref_ok_def INT_MAX_def)

lemma pres_fits: "pres_ok ty p \<Longrightarrow> take_bit 3 p = p"
  by (auto simp: pres_ok_def pres_defs)

lemma parse_nonnegative_int_range:
  assumes "parse_nonnegative_int p e = Inr (v, r)"
  shows "v = e \<or> 0 \<le> v \<and> v \<le> INT_MAX"
proof -
  define ds where "ds = takeWhile fmt_is_digit p"
  have "p = ds @ dropWhile fmt_is_digit p" "\<forall>d\<in>set ds. fmt_is_digit d" by (auto simp: ds_def dest: set_takeWhileD)
  moreover have "ds \<noteq> []" using assms by (cases p) (auto simp: ds_def parse_nonnegative_int_def fmt_assert_def split: if_splits)
  moreover have "dropWhile fmt_is_digit p = [] \<or> \<not> fmt_is_digit (hd (dropWhile fmt_is_digit p))" using hd_dropWhile by blast
  ultimately show ?thesis using assms nonnegative_int_exact[of ds "dropWhile fmt_is_digit p" e] by (auto split: if_splits)
qed

lemma setters_keep_ok:
  assumes "specs_ok ty sp"
  shows "specs_ok ty (set_align a sp)" "specs_ok ty (set_sign g sp)" "specs_ok ty (set_alt sp)" "specs_ok ty (set_localized sp)"
    "specs_ok ty (set_upper sp)" "specs_ok ty (set_fill_char c sp)"
  using assms by (simp_all add: specs_ok_def spec_simps set_fill_char_def)

lemma set_type_keeps_ok: "specs_ok ty sp \<Longrightarrow> pres_ok ty p \<Longrightarrow> specs_ok ty (set_type p sp)"
  using pres_fits[of ty p] by (simp add: specs_ok_def spec_simps)

lemma length_copy_fill [simp]: "length (copy_fill v i d) = length d"
  by (induction v arbitrary: i d) simp_all

lemma set_fill_keeps_ok: "specs_ok ty sp \<Longrightarrow> set_fill v sp = Inr sp' \<Longrightarrow> v \<noteq> [] \<Longrightarrow> specs_ok ty sp'"
  by (cases v) (auto simp: set_fill_def Let_def fmt_assert_def max_fill_size_def specs_ok_def spec_simps split: if_splits)

lemma set_dynamic_keeps_ok:
  assumes "specs_ok ty sp" "ref_ok k r" "v \<le> INT_MAX"
  shows "0 \<le> v \<Longrightarrow> specs_ok ty (set_dynamic_width k (sp\<lparr>spec_width := v, width_ref := r\<rparr>))"
    "-1 \<le> v \<Longrightarrow> specs_ok ty (set_dynamic_precision k (sp\<lparr>spec_precision := v, precision_ref := r\<rparr>))"
  using assms by (simp_all add: specs_ok_def spec_simps)

subsection \<open>The parser keeps them so\<close>

lemma next_arg_id_nonneg: "next_arg_id s = (Inr i, t) \<Longrightarrow> 0 \<le> i"
  by (auto simp: next_arg_id_def outcome_simps sget_def supdate_def sreturn_def slift_def report_error_def split: if_splits)

lemma parse_arg_id_defined:
  assumes "\<And>i. 0 \<le> i \<Longrightarrow> defined (f i)" "\<And>n. defined (g n)" "p \<noteq> []"
  shows "defined (parse_arg_id f g p)"
proof (cases p)
  case (Cons c rest)
  have num: "defined (sbind (slift (parse_nonnegative_int p INT_MAX)) (\<lambda>(i, q).
      if q = [] \<or> hd q \<noteq> ascii CHR ''}'' \<and> hd q \<noteq> ascii CHR '':'' then slift (report_error ''invalid format string'')
      else sbind (f i) (\<lambda>a. sreturn (a, q))))" if "fmt_is_digit c"
  proof (rule defined_slift_sbind)
    fix x assume "parse_nonnegative_int p INT_MAX = Inr x"
    moreover obtain i q where x: "x = (i, q)" by (cases x)
    ultimately have "0 \<le> i" using parse_nonnegative_int_range[of p INT_MAX i q] by (auto simp: INT_MAX_def)
    then show "defined (case x of (i, q) \<Rightarrow>
      if q = [] \<or> hd q \<noteq> ascii CHR ''}'' \<and> hd q \<noteq> ascii CHR '':'' then slift (report_error ''invalid format string'')
      else sbind (f i) (\<lambda>a. sreturn (a, q)))"
      using assms(1) by (auto simp: x intro!: defined_rules defined_slift)
  qed (use that Cons parse_nonnegative_int_defined in simp)
  then show ?thesis
    using assms(1)[of 0] assms(2) unfolding parse_arg_id_def Cons
    by (auto intro!: defined_rules defined_slift defined_slift_sbind simp: Let_def)
qed (use assms(3) in simp)

lemma parse_arg_id_result:
  assumes "parse_arg_id f g p s = (Inr (a, r), t)" "\<And>i u v. 0 \<le> i \<Longrightarrow> f i u = (Inr a, v) \<Longrightarrow> Q" "\<And>n u v. g n u = (Inr a, v) \<Longrightarrow> Q"
  shows Q
proof (cases p)
  case (Cons c rest)
  have pos: "parse_nonnegative_int p INT_MAX = Inr (i, q) \<Longrightarrow> 0 \<le> i" for i q
    using parse_nonnegative_int_range[of p INT_MAX i q] by (auto simp: INT_MAX_def)
  show ?thesis
    using assms(1) Cons pos
    by (auto simp: parse_arg_id_def outcome_simps slift_def sreturn_def report_error_def Let_def split: if_splits
        dest: assms(2)[OF order_refl] assms(2,3))
qed (use assms in \<open>simp add: parse_arg_id_def slift_def\<close>)

lemma dynamic_handlers_defined [defined_rules]: "defined (dynamic_on_index i)" "defined (dynamic_on_name n)"
  by (auto simp: dynamic_on_index_def dynamic_on_name_def intro!: defined_rules)

lemma dynamic_handlers_ref:
  "dynamic_on_index i s = (Inr (k, q), t) \<Longrightarrow> 0 \<le> i \<Longrightarrow> ref_ok k q" "dynamic_on_name n s = (Inr (k, q), t) \<Longrightarrow> ref_ok k q"
  by (auto simp: dynamic_on_index_def dynamic_on_name_def outcome_simps sreturn_def ref_ok_def)

lemma parse_dynamic_ref_defined [defined_rules]: "defined (parse_dynamic_ref p r)"
  by (cases p) (auto simp: parse_dynamic_ref_def intro!: defined_rules parse_arg_id_defined)

lemma parse_dynamic_ref_ref:
  assumes "parse_dynamic_ref p q0 s = (Inr ((k, q), r), t)"
  shows "ref_ok k q"
proof (cases p)
  case Nil
  then show ?thesis using assms by (simp add: parse_dynamic_ref_def sreturn_def ref_ok_def)
next
  case (Cons c rest)
  show ?thesis
  proof (cases "c = ascii CHR ''}'' \<or> c = ascii CHR '':''")
    case True
    then show ?thesis using assms Cons next_arg_id_nonneg
      by (auto simp: parse_dynamic_ref_def outcome_simps sreturn_def ref_ok_def)
  next
    case False
    then have "parse_arg_id dynamic_on_index dynamic_on_name p s = (Inr ((k, q), r), t)"
      using assms Cons by (simp add: parse_dynamic_ref_def)
    then show ?thesis by (rule parse_arg_id_result) (rule dynamic_handlers_ref; assumption)+
  qed
qed

lemma parse_dynamic_spec_defined: "p \<noteq> [] \<Longrightarrow> defined (parse_dynamic_spec p v q)"
proof -
  assume "p \<noteq> []"
  then obtain c rest where p: "p = c # rest" by (cases p) auto
  show ?thesis
  proof (cases "fmt_is_digit c")
    case True
    then show ?thesis using parse_nonnegative_int_defined[OF True]
      by (auto simp: parse_dynamic_spec_def p intro!: defined_slift_sbind defined_slift defined_rules)
  qed (auto simp: parse_dynamic_spec_def p intro!: defined_slift defined_rules)
qed

lemma parse_dynamic_spec_result:
  assumes "parse_dynamic_spec p v q s = (Inr (r, k, v', q'), t)"
  shows "ref_ok k q' \<and> (v' = v \<or> 0 \<le> v' \<and> v' \<le> INT_MAX)"
proof (cases p)
  case (Cons c rest)
  show ?thesis
  proof (cases "fmt_is_digit c")
    case True
    then have "parse_nonnegative_int p (-1) = Inr (v', r)" "v' \<noteq> -1" "k = id_none"
      using assms Cons by (auto simp: parse_dynamic_spec_def outcome_simps slift_def sreturn_def report_error_def split: if_splits)
    then show ?thesis using parse_nonnegative_int_range by (fastforce simp: ref_ok_def)
  next
    case False
    then obtain r' u where "parse_dynamic_ref rest q s = (Inr ((k, q'), r'), u)" "v' = v"
      using assms Cons by (auto simp: parse_dynamic_spec_def outcome_simps slift_def sreturn_def report_error_def split: if_splits)
    then show ?thesis using parse_dynamic_ref_ref by blast
  qed
qed (use assms in \<open>simp add: parse_dynamic_spec_def slift_def\<close>)

lemma parse_width_defined: "p \<noteq> [] \<Longrightarrow> defined (parse_width p sp)"
  by (auto simp: parse_width_def intro!: defined_rules parse_dynamic_spec_defined)

lemma parse_precision_defined [defined_rules]: "defined (parse_precision p sp)"
  by (auto simp: parse_precision_def intro!: defined_rules defined_slift parse_dynamic_spec_defined)

lemma parse_width_ok:
  assumes "specs_ok ty sp" "parse_width p sp s = (Inr (r, sp'), t)"
  shows "specs_ok ty sp'"
proof -
  obtain k v q where d: "parse_dynamic_spec p (spec_width sp) (width_ref sp) s = (Inr (r, k, v, q), t)"
    "sp' = set_dynamic_width k (sp\<lparr>spec_width := v, width_ref := q\<rparr>)"
    using assms(2) by (auto simp: parse_width_def outcome_simps sreturn_def)
  then show ?thesis
    using parse_dynamic_spec_result[OF d(1)] assms(1) set_dynamic_keeps_ok(1)[OF assms(1), of k q v] by (auto simp: specs_ok_def)
qed

lemma parse_precision_ok:
  assumes "specs_ok ty sp" "parse_precision p sp s = (Inr (r, sp'), t)"
  shows "specs_ok ty sp'"
proof -
  obtain k v q where d: "parse_dynamic_spec p (spec_precision sp) (precision_ref sp) s = (Inr (r, k, v, q), t)"
    "sp' = set_dynamic_precision k (sp\<lparr>spec_precision := v, precision_ref := q\<rparr>)"
    using assms(2) by (auto simp: parse_precision_def outcome_simps sreturn_def slift_def report_error_def split: if_splits)
  then show ?thesis
    using parse_dynamic_spec_result[OF d(1)] assms(1) set_dynamic_keeps_ok(2)[OF assms(1), of k q v] by (auto simp: specs_ok_def)
qed

lemma if_eqE: "(if b then x else y) = z \<Longrightarrow> (x = z \<Longrightarrow> Q) \<Longrightarrow> (y = z \<Longrightarrow> Q) \<Longrightarrow> Q"
  by (cases b) simp_all

lemma presentation_turn_ok:
  assumes "specs_ok ty sp" "presentation_turn ty c rest sp = Some (Inr turn)"
  shows "\<exists>sp'. turn = Stop rest sp' \<and> specs_ok ty sp'"
proof -
  have ok: "\<exists>sp'. turn = Stop rest sp' \<and> specs_ok ty sp'"
    if "Some (parse_presentation_type ty p ts rest sp2) = Some (Inr turn)" "in_set ty ts \<Longrightarrow> pres_ok ty p" "specs_ok ty sp2" for p ts sp2
    using that set_type_keeps_ok[of ty sp2 p] by (auto simp: parse_presentation_type_def split: if_splits)
  have sets: "in_set ty integral_set \<Longrightarrow> pres_ok ty pres_dec" "in_set ty integral_set \<Longrightarrow> pres_ok ty pres_hex"
    "in_set ty integral_set \<Longrightarrow> pres_ok ty pres_oct" "in_set ty integral_set \<Longrightarrow> pres_ok ty pres_bin" "in_set ty integral_set \<Longrightarrow> pres_ok ty pres_chr"
    "in_set ty float_set \<Longrightarrow> pres_ok ty pres_exp" "in_set ty float_set \<Longrightarrow> pres_ok ty pres_fixed" "in_set ty float_set \<Longrightarrow> pres_ok ty pres_general"
    "in_set ty float_set \<Longrightarrow> pres_ok ty pres_hexfloat" "in_set ty (bool_set OR string_set OR cstring_set) \<Longrightarrow> pres_ok ty pres_string"
    "in_set ty (pointer_set OR cstring_set) \<Longrightarrow> pres_ok ty pres_pointer" "in_set ty (char_set OR string_set OR cstring_set) \<Longrightarrow> pres_ok ty pres_debug"
    by (simp_all add: pres_ok_def)
  have up: "specs_ok ty (set_upper sp)" using assms(1) by (rule setters_keep_ok)
  show ?thesis
    using assms(2) unfolding presentation_turn_def Let_def
    by (elim if_eqE) (erule ok; fact sets assms(1) up | simp)+
qed

primrec turn_specs :: "spec_turn \<Rightarrow> dynamic_format_specs" where
  "turn_specs (Stop r sp) = sp"
| "turn_specs (Go r cur sp) = sp"

primrec turn_rest :: "spec_turn \<Rightarrow> bytes" where
  "turn_rest (Stop r sp) = r"
| "turn_rest (Go r cur sp) = r"

lemma fill_turn_ok:
  assumes "specs_ok ty sp" "fill_turn b rest cur sp = Inr turn"
  shows "specs_ok ty (turn_specs turn) \<and> suffix (turn_rest turn) (b # rest)"
proof (cases turn)
  case (Stop r sp')
  then show ?thesis using assms by (auto simp: fill_turn_def Let_def rbind_Inr_iff simp del: drop_eq_Nil split: if_splits)
next
  case (Go r cur' sp')
  have ne: "take (code_point_length b) (b # rest) \<noteq> []" using code_point_length_le[of b] by simp
  obtain sp2 where "set_fill (take (code_point_length b) (b # rest)) sp = Inr sp2" "sp' = set_align (parse_align (hd (drop (code_point_length b) (b # rest)))) sp2"
    using assms(2) Go by (auto simp: fill_turn_def Let_def rbind_Inr_iff simp del: drop_eq_Nil split: if_splits)
  then have "specs_ok ty sp'" using set_fill_keeps_ok[OF assms(1) _ ne] by (auto intro: setters_keep_ok)
  then show ?thesis using Go assms(2) fill_turn_shorter by (auto intro: suffix_ConsI)
qed

lemma defined_if: "defined x \<Longrightarrow> defined y \<Longrightarrow> defined (if b then x else y)"
  by simp

lemma enter_turn_defined [defined_rules]: "defined (slift (rbind (enter_state cur st v) (\<lambda>cur. Inr (f cur :: spec_turn))))"
  by (simp add: defined_slift rbind_Inl_iff)

lemma spec_step_defined [defined_rules]: "defined (specs_step ty c b rest cur sp)"
proof -
  have width: "defined (sbind (slift (enter_state cur st v)) (\<lambda>cur. sbind (parse_width (b # rest) sp) (\<lambda>(p, sp). sreturn (Go p cur sp))))"
    and precision: "defined (sbind (slift (enter_state cur st v)) (\<lambda>cur. sbind (parse_precision rest sp) (\<lambda>(p, sp). sreturn (Go p cur sp))))" for st v
    by (auto intro!: defined_rules defined_slift parse_width_defined)
  have zero: "defined (slift (rbind (enter_state cur st_zero True) (\<lambda>cur. if x then report_error m else Inr (f cur :: spec_turn))))" for x m f
    by (simp add: defined_slift rbind_Inl_iff)
  have last: "defined (case presentation_turn ty c rest sp of Some r \<Rightarrow> slift r
      | None \<Rightarrow> if c = ascii CHR ''}'' then sreturn (Stop (b # rest) sp) else slift (fill_turn b rest cur sp))"
  proof (cases "presentation_turn ty c rest sp")
    case (Some x)
    then show ?thesis using presentation_turn_defined[of ty c rest sp] by (auto intro!: defined_slift)
  qed (auto intro!: defined_rules defined_slift simp: fill_turn_defined)
  show ?thesis
    unfolding specs_step_def by (intro defined_if enter_turn_defined width precision zero last)
qed

lemma spec_step_ok:
  assumes "specs_ok ty sp" "specs_step ty c b rest cur sp s = (Inr turn, t)"
  shows "specs_ok ty (turn_specs turn) \<and> suffix (turn_rest turn) (b # rest)"
proof -
  consider (width) "c \<in> set (str ''123456789{'')" | (dot) "c = ascii CHR ''.''" | (other) "c \<notin> set (str ''123456789{'')" "c \<noteq> ascii CHR ''.''" by blast
  then have "specs_ok ty (turn_specs turn) \<and> (suffix (turn_rest turn) (b # rest) \<or> (\<exists>r cur sp. turn = Go r cur sp))"
  proof cases
    case width
    then show ?thesis using assms parse_width_ok[OF assms(1)] by (auto simp: spec_step_width outcome_simps sreturn_def slift_def)
  next
    case dot
    then show ?thesis using assms parse_precision_ok[OF assms(1)] unfolding dot spec_step_precision by (auto simp: outcome_simps sreturn_def slift_def)
  next
    case other
    show ?thesis
    proof (cases "presentation_turn ty c rest sp")
      case None
      then show ?thesis using assms other setters_keep_ok fill_turn_ok[OF assms(1), of b rest cur turn] unfolding specs_step_def
        by (auto simp: slift_def sreturn_def rbind_Inr_iff simp del: ascii_simps split: if_split_asm intro: suffix_ConsI)
    next
      case (Some x)
      then show ?thesis using assms other setters_keep_ok presentation_turn_ok[OF assms(1), of c rest turn] unfolding specs_step_def
        by (auto simp: slift_def sreturn_def rbind_Inr_iff simp del: ascii_simps split: if_split_asm intro: suffix_ConsI)
    qed
  qed
  then show ?thesis using assms(2) spec_step_shorter suffix_ConsI by (metis turn_rest.simps(2))
qed

lemma specs_loop_defined: "p \<noteq> [] \<Longrightarrow> fst (specs_loop ty c p cur sp s) \<noteq> Inl Undefined"
proof (induction ty c p cur sp s rule: specs_loop.induct)
  case (2 ty c b rest cur sp s)
  have d: "fst (specs_step ty c b rest cur sp s) \<noteq> Inl Undefined" using spec_step_defined by (simp add: defined_def)
  obtain q t where st: "specs_step ty c b rest cur sp s = (q, t)" by (rule prod.exhaust)
  show ?case
  proof (cases q)
    case (Inl e)
    then show ?thesis using d st by (simp add: specs_loop.simps)
  next
    case (Inr turn)
    then show ?thesis using 2 st by (cases turn) (auto simp: specs_loop.simps)
  qed
qed simp

lemma specs_loop_ok:
  "specs_loop ty c p cur sp s = (Inr (r, sp'), t) \<Longrightarrow> specs_ok ty sp \<Longrightarrow> specs_ok ty sp' \<and> suffix r p"
proof (induction ty c p cur sp s rule: specs_loop.induct)
  case (2 ty c b rest cur sp s)
  obtain turn u where st: "specs_step ty c b rest cur sp s = (Inr turn, u)"
    using "2.prems"(1) by (auto simp: specs_loop.simps split: prod.splits sum.splits)
  note ok = spec_step_ok[OF "2.prems"(2) st]
  show ?case
  proof (cases turn)
    case (Stop r2 sp2)
    then show ?thesis using "2.prems"(1) st ok by (simp add: specs_loop.simps)
  next
    case (Go r2 cur2 sp2)
    then show ?thesis using "2" st ok by (auto simp: specs_loop.simps split: if_splits intro: suffix_order.trans)
  qed
qed (simp add: specs_loop.simps)

lemma parse_format_specs_defined [defined_rules]: "defined (parse_format_specs ty p sp)"
  unfolding parse_format_specs_def
  by (auto intro!: defined_rules simp: specs_loop_defined split: list.split) (auto simp: defined_def specs_loop_defined)

lemma parse_format_specs_ok:
  assumes "parse_format_specs ty p sp s = (Inr (r, sp'), t)" "specs_ok ty sp"
  shows "specs_ok ty sp' \<and> suffix r p"
  using assms(1) specs_loop_ok[OF _ assms(2)] assms(2)
  by (auto simp: parse_format_specs_def sreturn_def split: list.split_asm)

end
