(* ===== verification/Fmt_Write.thy ===== *)
theory Fmt_Write
  imports Fmt_Escape Fmt_Check
begin

text \<open>
  \<open>fmt/bundled/format.h\<close>, writing of values: padding, integers in all bases with sign, prefix and grouping, texts, characters, booleans and
  pointers. A writer maps what is in the output buffer to what is in it afterwards. Unsigned 32-bit sizes are naturals: widths and
  precisions are at most \<open>INT_MAX\<close>, so the sums do not wrap around.
\<close>

subsection \<open>Padding\<close>

type_synonym writer = "bytes \<Rightarrow> bytes result"

definition to_unsigned :: "int \<Rightarrow> nat result" where
  "to_unsigned v = fmt_assert (v \<ge> 0) (Inr (nat v))"

definition fill :: "nat \<Rightarrow> 'a basic_specs_scheme \<Rightarrow> writer" where
  "fill n specs it =
     (if fill_size specs = 1 then Inr (it @ replicate n (fill_unit specs))
      else if fill_size specs > length (fill_data specs) then Inl Undefined
      else Inr (it @ concat (replicate n (take (fill_size specs) (fill_data specs)))))"

text \<open>The shifts are characters of a string literal, whose terminating zero serves \<open>align::numeric\<close>.\<close>

definition shifts :: "fmt_align \<Rightarrow> nat list" where
  "shifts default_align = (if default_align = align_left then [0x1f, 0x1f, 0x00, 0x01, 0] else [0x00, 0x1f, 0x00, 0x01, 0])"

definition write_padded :: "fmt_align \<Rightarrow> 'a format_specs_scheme \<Rightarrow> nat \<Rightarrow> writer \<Rightarrow> writer" where
  "write_padded default_align specs width f out =
     rbind (to_unsigned (spec_width specs)) (\<lambda>sw.
       let padding = (if sw > width then sw - width else 0);
           left_padding = drop_bit (shifts default_align ! unat (align_num (spec_align specs))) padding;
           right_padding = padding - left_padding
       in rbind (if left_padding \<noteq> 0 then fill left_padding specs out else Inr out) (\<lambda>it.
          rbind (f it) (\<lambda>it.
          if right_padding \<noteq> 0 then fill right_padding specs it else Inr it)))"

definition fmt_write_bytes :: "fmt_align \<Rightarrow> bytes \<Rightarrow> 'a format_specs_scheme \<Rightarrow> writer" where
  "fmt_write_bytes default_align bs specs out = write_padded default_align specs (length bs) (\<lambda>it. Inr (it @ bs)) out"

subsection \<open>Pointers and characters\<close>

function count_digits_base :: "nat \<Rightarrow> nat \<Rightarrow> nat" where
  "count_digits_base BITS m = (if BITS = 0 \<or> m div 2 ^ BITS = 0 then 1 else Suc (count_digits_base BITS (m div 2 ^ BITS)))"
  by pat_completeness auto
termination
proof (relation "measure snd", goal_cases)
  case (2 BITS m)
  then have "1 < (2::nat) ^ BITS" using one_less_power[of "2::nat" BITS] by simp
  moreover have "0 < m" using 2 by (auto intro: ccontr)
  ultimately show ?case by simp
qed simp

declare count_digits_base.simps [simp del]

definition fmt_write_ptr :: "u64 \<Rightarrow> 'a format_specs_scheme option \<Rightarrow> writer" where
  "fmt_write_ptr v specs out =
     (let num_digits = count_digits_base 4 (unat v);
          write = (\<lambda>it. rbind (format_base2e 4 (replicate num_digits 0) (unat v) num_digits False) (\<lambda>ds. Inr (it @ str ''0x'' @ ds)))
      in case specs of Some sp \<Rightarrow> write_padded align_right sp (num_digits + 2) write out | None \<Rightarrow> write out)"

definition write_char :: "byte \<Rightarrow> 'a format_specs_scheme \<Rightarrow> writer" where
  "write_char v specs out =
     write_padded align_left specs 1 (\<lambda>it. if spec_type specs = pres_debug then write_escaped_char v it else Inr (it @ [v])) out"

subsection \<open>Digit grouping\<close>

text \<open>What the locale says (\<open>std::numpunct\<close>): the group sizes, from the right, and the separator.\<close>

record numpunct =
  np_grouping :: bytes
  np_thousands_sep :: byte

record digit_grouping =
  dg_grouping :: bytes
  dg_sep :: bytes

text \<open>\<open>format_facet\<close>: a separator only when there are groups.\<close>

definition facet_grouping :: "numpunct \<Rightarrow> digit_grouping" where
  "facet_grouping np = \<lparr>dg_grouping = np_grouping np, dg_sep = (if np_grouping np \<noteq> [] then [np_thousands_sep np] else [])\<rparr>"

text \<open>
  The successive results of \<open>next\<close> as long as they are below the number of digits: a group size that is not positive, or \<open>CHAR_MAX\<close>, ends the
  grouping, and the last size repeats.
\<close>

function group_positions :: "digit_grouping \<Rightarrow> bytes \<Rightarrow> int \<Rightarrow> int \<Rightarrow> int list" where
  "group_positions g groups pos num_digits =
     (if dg_sep g = [] then []
      else case groups of
        [] \<Rightarrow>
          (let i = pos + sint (last (dg_grouping g)) in
           if i \<ge> num_digits \<or> i \<le> pos then [] else i # group_positions g [] i num_digits)
      | c # cs \<Rightarrow>
          (if sint c \<le> 0 \<or> sint c = 127 then []
           else let i = pos + sint c in if i \<ge> num_digits then [] else i # group_positions g cs i num_digits))"
  by pat_completeness auto
termination by (relation "measure (\<lambda>(g, groups, pos, n). nat (n - pos))") auto

declare group_positions.simps [simp del]

definition count_separators :: "digit_grouping \<Rightarrow> nat \<Rightarrow> nat" where
  "count_separators g num_digits = length (group_positions g (dg_grouping g) 0 (int num_digits))"

text \<open>The digits from the left, \<open>seps\<close> the separator positions, the next one last.\<close>

fun apply_separators :: "bytes \<Rightarrow> int list \<Rightarrow> bytes \<Rightarrow> writer" where
  "apply_separators sep seps [] out = Inr out"
| "apply_separators sep seps (d # ds) out =
     (if seps = [] then Inl Undefined
      else if int (length (d # ds)) = last seps then apply_separators sep (butlast seps) ds (out @ sep @ [d])
      else apply_separators sep seps ds (out @ [d]))"

definition apply_grouping :: "digit_grouping \<Rightarrow> bytes \<Rightarrow> writer" where
  "apply_grouping g digits out =
     apply_separators (dg_sep g) (0 # group_positions g (dg_grouping g) 0 (int (length digits))) digits out"

subsection \<open>Integers\<close>

definition prefix_append :: "u32 \<Rightarrow> u32 \<Rightarrow> u32" where
  "prefix_append pre v =
     (let pre = pre OR (if pre \<noteq> 0 then push_bit 8 v else v) in pre + push_bit 24 (1 + (if v > 0xff then 1 else 0)))"

text \<open>The characters in the three lower bytes, the first one lowest.\<close>

function prefix_chars :: "u32 \<Rightarrow> bytes" where
  "prefix_chars p = (if p = 0 then [] else ucast (p AND 0xff) # prefix_chars (drop_bit 8 p))"
  by pat_completeness auto
termination
proof (relation "measure unat", goal_cases)
  case (2 p)
  then have "0 < unat p" by (simp add: unat_gt_0)
  then show ?case unfolding unat_drop in_measure by simp
qed simp

declare prefix_chars.simps [simp del]

definition write_prefix :: "u32 \<Rightarrow> bytes \<Rightarrow> bytes" where
  "write_prefix pre it = it @ prefix_chars (pre AND 0xffffff)"

definition prefixes :: "u32 list" where
  "prefixes = [0, 0, 0x1000000 OR ucast (ascii CHR ''+''), 0x1000000 OR ucast (ascii CHR '' '')]"

text \<open>\<open>make_write_int_arg\<close>: the absolute value and the sign as a prefix; \<open>sg\<close> says whether the type is.\<close>

definition make_write_int_arg :: "bool \<Rightarrow> 'a::len word \<Rightarrow> fmt_sign \<Rightarrow> 'a word \<times> u32" where
  "make_write_int_arg sg v s =
     (if sg \<and> sint v < 0 then (0 - v, 0x01000000 OR ucast (ascii CHR ''-''))
      else (v, prefixes ! unat (sign_num s)))"

record size_padding =
  sp_size :: nat
  sp_padding :: nat

definition new_size_padding :: "nat \<Rightarrow> u32 \<Rightarrow> 'a format_specs_scheme \<Rightarrow> size_padding result" where
  "new_size_padding num_digits pre specs =
     (let sz = unat (drop_bit 24 pre) + num_digits in
      if spec_align specs = align_numeric then
        rbind (to_unsigned (spec_width specs)) (\<lambda>width.
          Inr (if width > sz then \<lparr>sp_size = width, sp_padding = width - sz\<rparr> else \<lparr>sp_size = sz, sp_padding = 0\<rparr>))
      else if spec_precision specs > int num_digits then
        Inr \<lparr>sp_size = unat (drop_bit 24 pre) + nat (spec_precision specs), sp_padding = nat (spec_precision specs) - num_digits\<rparr>
      else Inr \<lparr>sp_size = sz, sp_padding = 0\<rparr>)"

definition hex_prefix :: "'a basic_specs_scheme \<Rightarrow> u32" where
  "hex_prefix specs = push_bit 8 (ucast (if spec_upper specs then ascii CHR ''X'' else ascii CHR ''x'')) OR ucast (ascii CHR ''0'')"

definition bin_prefix :: "'a basic_specs_scheme \<Rightarrow> u32" where
  "bin_prefix specs = push_bit 8 (ucast (if spec_upper specs then ascii CHR ''B'' else ascii CHR ''b'')) OR ucast (ascii CHR ''0'')"

text \<open>
  The switch of \<open>write_int\<close>: the digits, from \<open>begin\<close> to the end of the buffer of \<open>bits\<close> characters, and the prefix; \<open>None\<close> for the
  presentation as a character. What the buffer holds at first is never read.
\<close>

definition int_digits :: "nat \<Rightarrow> nat \<Rightarrow> u32 \<Rightarrow> 'a format_specs_scheme \<Rightarrow> (bytes \<times> u32) option result" where
  "int_digits bits v pre specs =
     (let buffer = replicate bits 0; digits = (\<lambda>r f. rbind r (\<lambda>(out, pos). Inr (Some (drop pos out, f (length out - pos))))) in
      if spec_type specs = pres_none \<or> spec_type specs = pres_dec then digits (do_format_decimal buffer v bits) (\<lambda>_. pre)
      else if spec_type specs = pres_hex then
        digits (do_format_base2e 4 buffer v bits (spec_upper specs)) (\<lambda>_. if spec_alt specs then prefix_append pre (hex_prefix specs) else pre)
      else if spec_type specs = pres_oct then
        digits (do_format_base2e 3 buffer v bits False) (\<lambda>num_digits.
          if spec_alt specs \<and> spec_precision specs \<le> int num_digits \<and> v \<noteq> 0 then prefix_append pre (ucast (ascii CHR ''0'')) else pre)
      else if spec_type specs = pres_bin then
        digits (do_format_base2e 1 buffer v bits False) (\<lambda>_. if spec_alt specs then prefix_append pre (bin_prefix specs) else pre)
      else if spec_type specs = pres_chr then Inr None
      else Inl Undefined)"

definition write_int :: "'a::len word \<times> u32 \<Rightarrow> 'b format_specs_scheme \<Rightarrow> writer" where
  "write_int arg specs out =
     rbind (int_digits (LENGTH('a)) (unat (fst arg)) (snd arg) specs) (\<lambda>r.
       case r of
         None \<Rightarrow> write_char (ucast (fst arg)) specs out
       | Some (digits, pre) \<Rightarrow>
           if spec_width specs = 0 \<and> spec_precision specs = -1 then Inr (write_prefix pre out @ digits)
           else rbind (new_size_padding (length digits) pre specs) (\<lambda>sp.
                  write_padded align_right specs (sp_size sp)
                    (\<lambda>it. Inr (write_prefix pre it @ replicate (sp_padding sp) (ascii CHR ''0'') @ digits)) out))"

text \<open>The localized one, which \<open>loc_writer\<close> calls: no numeric padding, no precision, separators between the groups.\<close>

definition write_int_grouped :: "nat \<Rightarrow> u32 \<Rightarrow> 'b format_specs_scheme \<Rightarrow> digit_grouping \<Rightarrow> writer" where
  "write_int_grouped v pre specs g out =
     (let go = (\<lambda>buffer pre.
            write_padded align_right specs ((if pre \<noteq> 0 then unat (drop_bit 24 pre) else 0) + length buffer + count_separators g (length buffer))
              (\<lambda>it. apply_grouping g buffer (write_prefix pre it)) out) in
      if spec_type specs = pres_none \<or> spec_type specs = pres_dec then
        let n = count_digits_fallback v in
        rbind (do_format_decimal (replicate n 0) v n) (\<lambda>(buffer, _). go buffer pre)
      else if spec_type specs = pres_hex then
        let n = count_digits_base 4 v in
        rbind (format_base2e 4 (replicate n 0) v n (spec_upper specs)) (\<lambda>buffer.
          go buffer (if spec_alt specs then prefix_append pre (hex_prefix specs) else pre))
      else if spec_type specs = pres_oct then
        let n = count_digits_base 3 v in
        rbind (format_base2e 3 (replicate n 0) v n False) (\<lambda>buffer.
          go buffer (if spec_alt specs \<and> spec_precision specs \<le> int n \<and> v \<noteq> 0 then prefix_append pre (ucast (ascii CHR ''0'')) else pre))
      else if spec_type specs = pres_bin then
        let n = count_digits_base 1 v in
        rbind (format_base2e 1 (replicate n 0) v n False) (\<lambda>buffer.
          go buffer (if spec_alt specs then prefix_append pre (bin_prefix specs) else pre))
      else if spec_type specs = pres_chr then write_char (of_nat v) specs out
      else Inl Undefined)"

definition write_loc :: "numpunct \<Rightarrow> bool \<Rightarrow> 'a::len word \<Rightarrow> 'b format_specs_scheme \<Rightarrow> writer" where
  "write_loc np sg v specs out =
     (let arg = make_write_int_arg sg v (spec_sign specs) in
      write_int_grouped (unat (fst arg)) (snd arg) specs (facet_grouping np) out)"

definition write_integer :: "numpunct \<Rightarrow> bool \<Rightarrow> 'a::len word \<Rightarrow> 'b format_specs_scheme \<Rightarrow> writer" where
  "write_integer np sg v specs out =
     (if spec_localized specs then write_loc np sg v specs out
      else write_int (make_write_int_arg sg v (spec_sign specs)) specs out)"

subsection \<open>The other values\<close>

text \<open>A character: as itself, or as the number of its \<open>unsigned char\<close>.\<close>

definition write_character :: "numpunct \<Rightarrow> byte \<Rightarrow> 'b format_specs_scheme \<Rightarrow> writer" where
  "write_character np v specs out =
     rbind (check_char_specs specs) (\<lambda>ch. if ch then write_char v specs out else write_integer np False (ucast v :: u32) specs out)"

definition write_string :: "bytes \<Rightarrow> 'b format_specs_scheme \<Rightarrow> writer" where
  "write_string s specs out =
     rbind (if spec_precision specs \<ge> 0 \<and> nat (spec_precision specs) < length s then code_point_index s (nat (spec_precision specs))
            else Inr (length s)) (\<lambda>sz0.
     let is_debug = spec_type specs = pres_debug in
     rbind (if is_debug then rbind (write_escaped_string s []) (\<lambda>buf. Inr (length buf)) else Inr sz0) (\<lambda>sz.
     rbind (if spec_width specs \<noteq> 0 then (if is_debug then Inr sz else compute_width (take sz s)) else Inr 0) (\<lambda>width.
     write_padded align_left specs width (\<lambda>it. if is_debug then write_escaped_string s it else Inr (it @ take sz s)) out)))"

text \<open>A C string: its address and the bytes before the terminating zero.\<close>

definition write_cstring :: "u64 \<Rightarrow> bytes \<Rightarrow> 'b format_specs_scheme \<Rightarrow> writer" where
  "write_cstring addr s specs out =
     (if spec_type specs = pres_pointer then fmt_write_ptr addr (Some specs) out
      else if addr = 0 then report_error ''string pointer is null''
      else write_string s specs out)"

definition fmt_write_bool :: "numpunct \<Rightarrow> bool \<Rightarrow> 'b format_specs_scheme \<Rightarrow> writer" where
  "fmt_write_bool np v specs out =
     (if spec_type specs \<noteq> pres_none \<and> spec_type specs \<noteq> pres_string
      then write_integer np True (if v then 1 else 0 :: u32) specs out
      else fmt_write_bytes align_left (str (if v then ''true'' else ''false'')) specs out)"

text \<open>Without a specification.\<close>

definition count_digits :: "'a::len word \<Rightarrow> nat" where
  "count_digits v =
     (if LENGTH('a) = 32 then do_count_digits_32 (ucast v) else if LENGTH('a) = 64 then do_count_digits_64 (ucast v)
      else count_digits_fallback (unat v))"

definition write_plain_integer :: "bool \<Rightarrow> 'a::len word \<Rightarrow> writer" where
  "write_plain_integer sg v out =
     (let negative = sg \<and> sint v < 0;
          abs_value = if negative then NOT v + 1 else v;
          num_digits = count_digits abs_value
      in rbind (do_format_decimal (replicate num_digits 0) (unat abs_value) num_digits) (\<lambda>(ds, _).
         Inr (out @ (if negative then [ascii CHR ''-''] else []) @ ds)))"

subsection \<open>Writers append\<close>

text \<open>A writer that appends a text, whatever was there before.\<close>

definition appends_out :: "writer \<Rightarrow> bytes \<Rightarrow> bool" where
  "appends_out w x \<longleftrightarrow> (\<forall>out. w out = Inr (out @ x))"

definition width_ok :: "'a format_specs_scheme \<Rightarrow> bool" where
  "width_ok sp \<longleftrightarrow> 0 \<le> spec_width sp \<and> spec_width sp \<le> INT_MAX"

definition fill_ok :: "'a format_specs_scheme \<Rightarrow> bool" where
  "fill_ok sp \<longleftrightarrow> length (fill_data sp) = 4 \<and> 1 \<le> fill_size sp \<and> fill_size sp \<le> 4"

definition fill_bytes :: "'a basic_specs_scheme \<Rightarrow> bytes" where
  "fill_bytes sp = (if fill_size sp = 1 then [fill_unit sp] else take (fill_size sp) (fill_data sp))"

text \<open>How much of the padding goes to the left: all, none or half.\<close>

definition left_share :: "fmt_align \<Rightarrow> fmt_align \<Rightarrow> nat \<Rightarrow> nat" where
  "left_share default_align a padding =
     (case a of
        align_none \<Rightarrow> if default_align = align_left then 0 else padding
      | align_left \<Rightarrow> 0
      | align_right \<Rightarrow> padding
      | align_center \<Rightarrow> padding div 2
      | align_numeric \<Rightarrow> padding)"

definition padded_text :: "fmt_align \<Rightarrow> 'a format_specs_scheme \<Rightarrow> nat \<Rightarrow> bytes \<Rightarrow> bytes" where
  "padded_text default_align sp width x =
     (let padding = nat (spec_width sp) - width; l = left_share default_align (spec_align sp) padding in
      concat (replicate l (fill_bytes sp)) @ x @ concat (replicate (padding - l) (fill_bytes sp)))"

lemma appendsI: "(\<And>out. w out = Inr (out @ x)) \<Longrightarrow> appends_out w x"
  by (simp add: appends_out_def)

lemma appends_fill:
  assumes "fill_ok sp"
  shows "appends_out (fill n sp) (concat (replicate n (fill_bytes sp)))"
proof -
  have "concat (replicate n [b]) = replicate n b" for b :: byte by (induction n) simp_all
  then show ?thesis using assms by (auto simp: appends_out_def fill_def fill_bytes_def fill_ok_def)
qed

lemma shift_share:
  assumes "padding < 2 ^ 31" "d = align_left \<or> d = align_right"
  shows "drop_bit (shifts d ! unat (align_num a)) padding = left_share d a padding"
  using assms by (cases a) (auto simp: shifts_def left_share_def drop_bit_eq_div)

lemma appends_padded:
  assumes "width_ok sp" "fill_ok sp" "appends_out f x" "d = align_left \<or> d = align_right"
  shows "appends_out (write_padded d sp w f) (padded_text d sp w x)"
proof (rule appendsI)
  fix out
  let ?p = "nat (spec_width sp) - w"
  have sw: "to_unsigned (spec_width sp) = Inr (nat (spec_width sp))" using assms(1) by (simp add: to_unsigned_def fmt_assert_def width_ok_def)
  have "nat (spec_width sp) < 2 ^ 31" using assms(1) by (auto simp: width_ok_def INT_MAX_def nat_less_iff)
  then have "?p < 2 ^ 31" by linarith
  note share = shift_share[OF this assms(4), of "spec_align sp"]
  have p: "(if nat (spec_width sp) > w then nat (spec_width sp) - w else 0) = ?p" by simp
  show "write_padded d sp w f out = Inr (out @ padded_text d sp w x)"
    unfolding write_padded_def sw rbind_simps Let_def p share
    using assms(3) appends_fill[OF assms(2)] by (auto simp: padded_text_def Let_def appends_out_def)
qed

lemma appends_bytes: "width_ok sp \<Longrightarrow> fill_ok sp \<Longrightarrow> appends_out (fmt_write_bytes align_left bs sp) (padded_text align_left sp (length bs) bs)"
  using appends_padded[of sp "\<lambda>it. Inr (it @ bs)" bs align_left "length bs"] by (simp add: appends_out_def fmt_write_bytes_def)

subsection \<open>Digits and prefixes\<close>

lemma count_digits_base_eq: "0 < k \<Longrightarrow> count_digits_base k v = length (base_digits u k v)"
proof (induction k v rule: count_digits_base.induct)
  case (1 k v)
  show ?case
  proof (cases "v < 2 ^ k")
    case True
    then show ?thesis by (simp add: count_digits_base.simps base_digits.simps)
  next
    case False
    then have "v div 2 ^ k \<noteq> 0" by (simp add: div_eq_0_iff)
    then show ?thesis using 1 False by (subst count_digits_base.simps, subst base_digits.simps) simp
  qed
qed

lemma format_base2e_eq:
  "0 < k \<Longrightarrow> format_base2e k (replicate (length (base_digits u k v)) 0) v (length (base_digits u k v)) u = Inr (base_digits u k v)"
  using base2e_loop_eq[of k u v "length (base_digits u k v)" "replicate (length (base_digits u k v)) 0"]
  by (simp add: format_base2e_def do_format_base2e_def)

lemma appends_ptr:
  assumes "width_ok sp" "fill_ok sp"
  shows "appends_out (fmt_write_ptr v (Some sp)) (padded_text align_right sp (length (base_digits False 4 (unat v)) + 2) (str ''0x'' @ base_digits False 4 (unat v)))"
    and "appends_out (fmt_write_ptr v (None :: 'a format_specs_scheme option)) (str ''0x'' @ base_digits False 4 (unat v))"
proof -
  let ?d = "base_digits False 4 (unat v)"
  have w: "appends_out (\<lambda>it. rbind (format_base2e 4 (replicate (length ?d) 0) (unat v) (length ?d) False) (\<lambda>ds. Inr (it @ str ''0x'' @ ds))) (str ''0x'' @ ?d)"
    by (simp add: appends_out_def format_base2e_eq)
  show "appends_out (fmt_write_ptr v (Some sp)) (padded_text align_right sp (length ?d + 2) (str ''0x'' @ ?d))"
    using appends_padded[OF assms w, of align_right "length ?d + 2"]
    by (simp add: appends_out_def fmt_write_ptr_def Let_def count_digits_base_eq[of 4 "unat v" False])
  show "appends_out (fmt_write_ptr v (None :: 'a format_specs_scheme option)) (str ''0x'' @ ?d)"
    using w by (simp add: appends_out_def fmt_write_ptr_def Let_def count_digits_base_eq[of 4 "unat v" False])
qed

definition char_text :: "byte \<Rightarrow> bool \<Rightarrow> bytes \<Rightarrow> bool" where
  "char_text v debug x \<longleftrightarrow> (if debug then appends_out (write_escaped_char v) x else x = [v])"

lemma appends_char:
  assumes "width_ok sp" "fill_ok sp"
  shows "\<exists>x. char_text v (spec_type sp = pres_debug) x \<and> appends_out (write_char v sp) (padded_text align_left sp 1 x)"
proof -
  obtain x where "appends_out (write_escaped_char v) x" using write_escaped_char_plain[of v] by (auto simp: appends_out_def)
  then show ?thesis
    using appends_padded[OF assms, of "\<lambda>it. if spec_type sp = pres_debug then write_escaped_char v it else Inr (it @ [v])" _ align_left 1]
    by (cases "spec_type sp = pres_debug") (auto simp: appends_out_def char_text_def write_char_def)
qed

text \<open>A packed prefix stands for its characters and their number.\<close>

definition packs :: "u32 \<Rightarrow> bytes \<Rightarrow> bool" where
  "packs pre cs \<longleftrightarrow> prefix_chars (pre AND 0xffffff) = cs \<and> unat (drop_bit 24 pre) = length cs"

definition sign_prefixes :: "(u32 \<times> bytes) list" where
  "sign_prefixes = [(0, []), (0x100002D, str ''-''), (0x100002B, str ''+''), (0x1000020, str '' '')]"

definition base_prefixes :: "(u32 \<times> bytes) list" where
  "base_prefixes = [(0x30, str ''0''), (0x5830, str ''0X''), (0x7830, str ''0x''), (0x4230, str ''0B''), (0x6230, str ''0b'')]"

lemma all_prefixes_pack:
  "\<forall>(p, cs)\<in>set sign_prefixes. packs p cs" "\<forall>(p, cs)\<in>set sign_prefixes. \<forall>(q, ds)\<in>set base_prefixes. packs (prefix_append p q) (cs @ ds)"
  by code_simp+

definition sign_text :: "bool \<Rightarrow> fmt_sign \<Rightarrow> bytes" where
  "sign_text negative s =
     (if negative then str ''-'' else case s of sign_plus \<Rightarrow> str ''+'' | sign_space \<Rightarrow> str '' '' | _ \<Rightarrow> [])"

definition int_text :: "'a format_specs_scheme \<Rightarrow> nat \<Rightarrow> bytes" where
  "int_text sp v =
     (if spec_type sp = pres_hex then base_digits (spec_upper sp) 4 v
      else if spec_type sp = pres_oct then base_digits False 3 v
      else if spec_type sp = pres_bin then base_digits False 1 v
      else dec_digits v)"

definition base_prefix :: "'a format_specs_scheme \<Rightarrow> nat \<Rightarrow> bytes" where
  "base_prefix sp v =
     (if \<not> spec_alt sp then []
      else if spec_type sp = pres_hex then str (if spec_upper sp then ''0X'' else ''0x'')
      else if spec_type sp = pres_oct then (if spec_precision sp \<le> int (length (int_text sp v)) \<and> v \<noteq> 0 then str ''0'' else [])
      else if spec_type sp = pres_bin then str (if spec_upper sp then ''0B'' else ''0b'')
      else [])"

lemma prefixes_eq: "prefixes = [0, 0, 0x100002B, 0x1000020]" "(0x01000000 :: u32) OR ucast (ascii CHR ''-'') = 0x100002D"
  by code_simp+

lemma make_arg_prefix:
  "(snd (make_write_int_arg sg v s), sign_text (sg \<and> sint v < 0) s) \<in> set sign_prefixes"
proof (cases "sg \<and> sint v < 0")
  case True
  then show ?thesis unfolding make_write_int_arg_def prefixes_eq by (simp add: sign_text_def sign_prefixes_def)
next
  case False
  then have "snd (make_write_int_arg sg v s) = prefixes ! unat (sign_num s)" unfolding make_write_int_arg_def by (simp only: if_False snd_conv)
  then show ?thesis using False unfolding prefixes_eq by (cases s) (simp_all only: sign_text_def sign_prefixes_def if_False, simp_all)
qed

lemma base_prefix_values:
  "hex_prefix sp = (if spec_upper sp then 0x5830 else 0x7830)" "bin_prefix sp = (if spec_upper sp then 0x4230 else 0x6230)"
  by (simp_all add: hex_prefix_def bin_prefix_def push_bit_eq_mult)

lemma length_dec_digits_bits: "0 < b \<Longrightarrow> v < 2 ^ b \<Longrightarrow> length (dec_digits v) \<le> b"
proof (induction v arbitrary: b rule: dec_digits.induct)
  case (1 v)
  show ?case
  proof (cases "v < 10")
    case False
    have "b \<noteq> 1" using "1.prems"(2) False by auto
    then obtain c where b: "b = Suc c" "0 < c" using "1.prems"(1) by (cases b) auto
    have "v div 10 < 2 ^ c" using "1.prems"(2) by (simp add: b div_less_iff_less_mult)
    then show ?thesis using "1.IH"[OF False, of c] b False by (simp add: length_dec_digits_step[of v])
  qed (use "1.prems" in \<open>simp add: length_dec_digits_step[of v]\<close>)
qed

definition number_type :: "'a basic_specs_scheme \<Rightarrow> bool" where
  "number_type sp \<longleftrightarrow> spec_type sp \<in> {pres_none, pres_dec, pres_hex, pres_oct, pres_bin}"

lemma int_digits_eq:
  assumes "(pre, cs) \<in> set sign_prefixes" "number_type sp" "0 < bits" "v < 2 ^ bits"
  shows "\<exists>pre'. int_digits bits v pre sp = Inr (Some (int_text sp v, pre')) \<and> packs pre' (cs @ base_prefix sp v)"
proof -
  have p0: "packs pre cs" and p1: "(q, ds) \<in> set base_prefixes \<Longrightarrow> packs (prefix_append pre q) (cs @ ds)" for q ds
    using all_prefixes_pack assms(1) by blast+
  have p2: "packs (prefix_append pre 0x30) (cs @ str ''0'')" "packs (prefix_append pre 0x5830) (cs @ str ''0X'')"
    "packs (prefix_append pre 0x7830) (cs @ str ''0x'')" "packs (prefix_append pre 0x4230) (cs @ str ''0B'')" "packs (prefix_append pre 0x6230) (cs @ str ''0b'')"
    by (rule p1; simp add: base_prefixes_def)+
  have bd: "length (base_digits u k v) \<le> bits" if "0 < k" for u k
  proof -
    have "(2::nat) ^ bits \<le> 2 ^ (k * bits)" using that by (intro power_increasing) simp_all
    then show ?thesis using base_digits_length[OF that assms(3), of v u] assms(4) by linarith
  qed
  have b2e: "do_format_base2e k (replicate bits 0) v bits u =
      Inr (replicate (bits - length (base_digits u k v)) 0 @ base_digits u k v, bits - length (base_digits u k v))" if "0 < k" for u k
    using base2e_loop_eq[OF that bd[OF that], of "replicate bits 0"] by (simp add: do_format_base2e_def min_def)
  have dec: "do_format_decimal (replicate bits 0) v bits =
      Inr (replicate (bits - length (dec_digits v)) 0 @ dec_digits v, bits - length (dec_digits v))"
    using format_pairs_eq[of v bits "replicate bits 0"] length_dec_digits_bits[OF assms(3,4)] by (simp add: do_format_decimal_def min_def)
  show ?thesis
    using assms(2) p0 p2 b2e[of 4] b2e[of 3] b2e[of 1] dec bd[of 3 False] bd[of 4 "spec_upper sp"] bd[of 1 False]
    by (auto simp: int_digits_def number_type_def pres_defs int_text_def base_prefix_def base_prefix_values Let_def)
qed

subsection \<open>The layout of an integer\<close>

definition numeric_zeros :: "'a format_specs_scheme \<Rightarrow> nat \<Rightarrow> nat \<Rightarrow> nat" where
  "numeric_zeros sp p d = (if spec_align sp = align_numeric then nat (spec_width sp) - (p + d) else nat (spec_precision sp) - d)"

definition int_layout :: "bool \<Rightarrow> nat \<Rightarrow> 'a format_specs_scheme \<Rightarrow> bytes" where
  "int_layout negative v sp =
     (let pre = sign_text negative (spec_sign sp) @ base_prefix sp v; ds = int_text sp v; zeros = numeric_zeros sp (length pre) (length ds)
      in padded_text align_right sp (length pre + zeros + length ds) (pre @ replicate zeros 48 @ ds))"

definition abs_nat :: "bool \<Rightarrow> 'a::len word \<Rightarrow> nat" where
  "abs_nat sg v = (if sg \<and> sint v < 0 then nat (- sint v) else unat v)"

lemma make_arg_value: "unat (fst (make_write_int_arg sg v s)) = abs_nat sg v"
  using unat_abs_word[of v] by (simp add: make_write_int_arg_def abs_nat_def)

lemma size_padding_eq:
  assumes "packs pre cs" "width_ok sp"
  shows "new_size_padding d pre sp = Inr \<lparr>sp_size = length cs + numeric_zeros sp (length cs) d + d, sp_padding = numeric_zeros sp (length cs) d\<rparr>"
  using assms by (auto simp: new_size_padding_def numeric_zeros_def packs_def width_ok_def to_unsigned_def fmt_assert_def Let_def)

lemma appends_int:
  fixes v :: "'a::len word"
  assumes "width_ok sp" "fill_ok sp" "-1 \<le> spec_precision sp" "number_type sp"
  shows "appends_out (write_int (make_write_int_arg sg v (spec_sign sp)) sp) (int_layout (sg \<and> sint v < 0) (abs_nat sg v) sp)"
proof -
  let ?cs = "sign_text (sg \<and> sint v < 0) (spec_sign sp) @ base_prefix sp (abs_nat sg v)"
  let ?ds = "int_text sp (abs_nat sg v)"
  let ?z = "numeric_zeros sp (length ?cs) (length ?ds)"
  have lt: "abs_nat sg v < 2 ^ LENGTH('a)"
    unfolding make_arg_value[of sg v "spec_sign sp", symmetric] by (rule unsigned_less)
  obtain pre where d: "int_digits LENGTH('a) (abs_nat sg v) (snd (make_write_int_arg sg v (spec_sign sp))) sp = Inr (Some (?ds, pre))" "packs pre ?cs"
    using int_digits_eq[OF make_arg_prefix assms(4) _ lt] by blast
  have pre: "write_prefix pre it = it @ ?cs" for it using d(2) by (simp add: write_prefix_def packs_def)
  have pad: "appends_out (\<lambda>it. Inr (write_prefix pre it @ replicate ?z (ascii CHR ''0'') @ ?ds)) (?cs @ replicate ?z 48 @ ?ds)"
    by (simp add: appends_out_def pre)
  note padded = appends_padded[OF assms(1,2) pad, of align_right "length ?cs + ?z + length ?ds", simplified]
  show ?thesis
  proof (cases "spec_width sp = 0 \<and> spec_precision sp = -1")
    case True
    then have "?z = 0" by (simp add: numeric_zeros_def)
    moreover have "left_share align_right a 0 = 0" for a by (cases a) (simp_all add: left_share_def)
    ultimately have "int_layout (sg \<and> sint v < 0) (abs_nat sg v) sp = ?cs @ ?ds"
      using True by (simp add: int_layout_def padded_text_def Let_def)
    then show ?thesis using True d(1) by (simp add: appends_out_def write_int_def make_arg_value pre)
  next
    case False
    have "write_int (make_write_int_arg sg v (spec_sign sp)) sp out =
        write_padded align_right sp (length ?cs + ?z + length ?ds) (\<lambda>it. Inr (write_prefix pre it @ replicate ?z (ascii CHR ''0'') @ ?ds)) out" for out
      using False d(1) size_padding_eq[OF d(2) assms(1), of "length ?ds"] by (auto simp: write_int_def make_arg_value)
    then show ?thesis using padded by (simp add: appends_out_def int_layout_def Let_def)
  qed
qed

text \<open>
  C36. An integer of any width, signed or not, is written as its layout says: padding, sign, base prefix, zeros and the plain expansion of its
  absolute value in the base, padding. The buffer always suffices, also for the smallest negative number, and no assertion fails.
\<close>

theorem integers_are_laid_out:
  fixes v :: "'a::len word"
  assumes "0 \<le> spec_width sp" "spec_width sp \<le> INT_MAX" "-1 \<le> spec_precision sp" "length (fill_data sp) = 4" "1 \<le> fill_size sp" "fill_size sp \<le> 4"
    "spec_type sp \<in> {pres_none, pres_dec, pres_hex, pres_oct, pres_bin}"
  shows "write_int (make_write_int_arg sg v (spec_sign sp)) sp out =
    Inr (out @ int_layout (sg \<and> sint v < 0) (if sg \<and> sint v < 0 then nat (- sint v) else unat v) sp)"
  using appends_int[of sp sg v] assms by (simp add: appends_out_def width_ok_def fill_ok_def number_type_def abs_nat_def)

text \<open>\<open>{:#010x}\<close> of the smallest 32-bit number.\<close>

definition sample_specs :: dynamic_format_specs where
  "sample_specs = set_type pres_hex (set_fill_char (ascii CHR ''0'') (set_align align_numeric (set_alt (new_dynamic_specs\<lparr>spec_width := 12\<rparr>))))"

lemma sample_specs_getters:
  "spec_width sample_specs = 12" "spec_precision sample_specs = -1" "fill_data sample_specs = [48, 0, 0, 0]" "fill_size sample_specs = 1"
  "spec_type sample_specs = pres_hex" "spec_align sample_specs = align_numeric" "spec_sign sample_specs = sign_none" "spec_alt sample_specs"
  "\<not> spec_upper sample_specs"
  by (simp_all add: sample_specs_def spec_simps set_fill_char_def pres_defs)

theorem integers_are_laid_out_witness:
  "write_int (make_write_int_arg True (0x80000000 :: u32) (spec_sign sample_specs)) sample_specs [] = Inr (str ''-0x080000000'')"
proof -
  have "base_digits False 4 2147483648 = str ''80000000''" by (simp add: base_digits.simps base_digit_def str_def)
  then have "int_layout True 2147483648 sample_specs = str ''-0x080000000''"
    by (simp add: int_layout_def padded_text_def sample_specs_getters sign_text_def base_prefix_def int_text_def pres_defs numeric_zeros_def
        left_share_def str_def Let_def)
  moreover have "sint (0x80000000 :: u32) = -2147483648" by simp
  ultimately show ?thesis
    using integers_are_laid_out[of sample_specs True "0x80000000 :: u32" "[]"]
    by (simp add: sample_specs_getters INT_MAX_def pres_defs)
qed

subsection \<open>Grouped digits\<close>

text \<open>The positions grow from 1 to the number of digits, so the separators fit between the digits.\<close>

definition positions_between :: "int \<Rightarrow> int \<Rightarrow> int list \<Rightarrow> bool" where
  "positions_between lo hi ps \<longleftrightarrow> sorted_wrt (<) ps \<and> (\<forall>p\<in>set ps. lo < p \<and> p < hi)"

lemma positions_between_simps:
  "positions_between lo hi []" "lo < i \<Longrightarrow> i < hi \<Longrightarrow> positions_between i hi ps \<Longrightarrow> positions_between lo hi (i # ps)"
  by (auto simp: positions_between_def)

lemma group_positions_range: "positions_between pos n (group_positions g gs pos n)"
proof (induction g gs pos n rule: group_positions.induct)
  case (1 g gs pos n)
  show ?case
  proof (cases gs)
    case Nil
    then show ?thesis using 1(1) by (subst group_positions.simps) (simp add: Let_def positions_between_simps)
  next
    case (Cons c cs)
    then show ?thesis using 1(2) by (subst group_positions.simps) (simp add: Let_def positions_between_simps)
  qed
qed

lemma apply_separators_text:
  assumes "sorted_wrt (<) ps" "\<forall>p\<in>set ps. 0 < p \<and> p \<le> int (length ds)"
  shows "\<exists>x. (\<forall>out. apply_separators sep (0 # ps) ds out = Inr (out @ x)) \<and> length x = length ds + length sep * length ps"
  using assms
proof (induction ds arbitrary: ps)
  case Nil
  then have "ps = []" by (cases ps) auto
  then show ?case by simp
next
  case (Cons d ds)
  show ?case
  proof (cases "ps \<noteq> [] \<and> last ps = int (length (d # ds))")
    case True
    then obtain qs q where ps: "ps = qs @ [q]" "q = int (length (d # ds))" by (cases ps rule: rev_cases) auto
    have "sorted_wrt (<) qs" "\<forall>p\<in>set qs. 0 < p \<and> p \<le> int (length ds)"
      using Cons.prems ps by (fastforce simp: sorted_wrt_append)+
    then obtain x where x: "\<forall>out. apply_separators sep (0 # qs) ds out = Inr (out @ x)" "length x = length ds + length sep * length qs"
      using Cons.IH by blast
    then show ?thesis using ps by (intro exI[of _ "sep @ d # x"]) auto
  next
    case False
    have "p \<le> int (length ds)" if p: "p \<in> set ps" for p
    proof -
      obtain qs q where ps: "ps = qs @ [q]" using p by (cases ps rule: rev_cases) auto
      have "q \<noteq> int (length (d # ds))" "q \<le> int (length (d # ds))" using False Cons.prems(2) ps by auto
      then have "q \<le> int (length ds)" by simp
      moreover have "p \<le> q" using Cons.prems(1) p ps by (auto simp: sorted_wrt_append intro: order_less_imp_le)
      ultimately show ?thesis by simp
    qed
    then obtain x where x: "\<forall>out. apply_separators sep (0 # ps) ds out = Inr (out @ x)" "length x = length ds + length sep * length ps"
      using Cons.IH[of ps] Cons.prems by blast
    moreover have "last (0 # ps) \<noteq> int (length (d # ds))" using False by auto
    ultimately show ?thesis by (intro exI[of _ "d # x"]) simp
  qed
qed

lemma appends_grouping: "\<exists>x. appends_out (apply_grouping g ds) x \<and> length x = length ds + length (dg_sep g) * count_separators g (length ds)"
proof -
  let ?ps = "group_positions g (dg_grouping g) 0 (int (length ds))"
  have "sorted_wrt (<) ?ps" "\<forall>p\<in>set ?ps. 0 < p \<and> p \<le> int (length ds)"
    using group_positions_range[of 0 "int (length ds)" g "dg_grouping g"] by (auto simp: positions_between_def intro: less_imp_le)
  from apply_separators_text[OF this, of "dg_sep g"] show ?thesis
    by (simp add: appends_out_def apply_grouping_def count_separators_def)
qed

lemma pres_distinct:
  "pres_hex \<noteq> pres_none" "pres_hex \<noteq> pres_dec" "pres_oct \<noteq> pres_none" "pres_oct \<noteq> pres_dec" "pres_oct \<noteq> pres_hex"
  "pres_bin \<noteq> pres_none" "pres_bin \<noteq> pres_dec" "pres_bin \<noteq> pres_hex" "pres_bin \<noteq> pres_oct"
  by (simp_all add: pres_defs)

lemma appends_grouped:
  assumes "width_ok sp" "fill_ok sp" "number_type sp"
  shows "\<exists>x. appends_out (write_int_grouped v pre sp g) x"
proof -
  have go: "\<exists>x. appends_out (write_padded align_right sp w (\<lambda>it. apply_grouping g ds (write_prefix pre it))) x" for w ds pre
  proof -
    obtain x where "appends_out (apply_grouping g ds) x" using appends_grouping by blast
    then have "appends_out (\<lambda>it. apply_grouping g ds (write_prefix pre it)) (prefix_chars (pre AND 0xffffff) @ x)"
      by (simp add: appends_out_def write_prefix_def)
    from appends_padded[OF assms(1,2) this] show ?thesis by blast
  qed
  have dec: "do_format_decimal (replicate (length (dec_digits v)) 0) v (length (dec_digits v)) = Inr (dec_digits v, 0)"
    using format_pairs_eq[of v "length (dec_digits v)" "replicate (length (dec_digits v)) 0"] by (simp add: do_format_decimal_def)
  note digits = format_base2e_eq[of 4 "spec_upper sp" v] format_base2e_eq[of 3 False v] format_base2e_eq[of 1 False v]
    count_digits_base_eq[of 4 v "spec_upper sp"] count_digits_base_eq[of 3 v False] count_digits_base_eq[of 1 v False]
  consider "spec_type sp = pres_none \<or> spec_type sp = pres_dec" | "spec_type sp = pres_hex" | "spec_type sp = pres_oct" | "spec_type sp = pres_bin"
    using assms(3) by (auto simp: number_type_def)
  then show ?thesis
  proof cases
    case 1
    have "write_int_grouped v pre sp g =
        write_padded align_right sp ((if pre \<noteq> 0 then unat (drop_bit 24 pre) else 0) + length (dec_digits v) + count_separators g (length (dec_digits v)))
          (\<lambda>it. apply_grouping g (dec_digits v) (write_prefix pre it))"
      unfolding write_int_grouped_def fun_eq_iff using 1 by (simp only: if_True simp_thms Let_def count_digits_fallback_eq dec rbind_simps prod.case)
    then show ?thesis by (simp only: go)
  qed (simp_all only: write_int_grouped_def[abs_def] pres_distinct if_True if_False simp_thms Let_def digits zero_less_numeral zero_less_one rbind_simps go)
qed

subsection \<open>Every writer\<close>

lemma appends_integer:
  assumes "width_ok sp" "fill_ok sp" "-1 \<le> spec_precision sp" "number_type sp \<or> spec_type sp = pres_chr"
  shows "\<exists>x. appends_out (write_integer np sg v sp) x"
proof -
  have chr: "\<exists>x. appends_out (write_char c sp) x" for c using appends_char[OF assms(1,2)] by blast
  show ?thesis
  proof (cases "number_type sp")
    case True
    then show ?thesis
      using appends_int[OF assms(1-3) True, of sg v] appends_grouped[OF assms(1,2) True]
      by (cases "spec_localized sp") (auto simp: write_integer_def write_loc_def appends_out_def Let_def)
  next
    case False
    then have "spec_type sp = pres_chr" using assms(4) by blast
    then show ?thesis using chr
      by (cases "spec_localized sp")
        (auto simp: write_integer_def write_loc_def appends_out_def Let_def write_int_def int_digits_def write_int_grouped_def pres_defs)
  qed
qed

definition char_error :: string where
  "char_error = ''invalid format specifier for char''"

lemma check_char_specs_cases:
  "check_char_specs sp = Inr True \<or> check_char_specs sp = report_error char_error \<or>
   check_char_specs sp = Inr False \<and> spec_type sp \<notin> {pres_none, pres_chr, pres_debug}"
  by (auto simp: check_char_specs_def char_error_def)

lemma appends_character:
  assumes "width_ok sp" "fill_ok sp" "-1 \<le> spec_precision sp" "pres_ok char_type (spec_type sp)"
  shows "(\<exists>x. appends_out (write_character np v sp) x) \<or> check_char_specs sp = report_error char_error \<and> (\<forall>out. write_character np v sp out = report_error char_error)"
proof -
  have "number_type sp" if "spec_type sp \<notin> {pres_none, pres_chr, pres_debug}"
    using assms(4) that by (auto simp: pres_ok_def number_type_def type_sets pres_defs)
  then show ?thesis
    using check_char_specs_cases[of sp] appends_char[OF assms(1,2), of v] appends_integer[OF assms(1-3), of np False "ucast v :: u32"]
    by (auto simp: write_character_def appends_out_def report_error_def)
qed

lemma code_point_index_total: "\<exists>i. code_point_index s n = Inr i"
  by (cases "visit_list find_code_point 0 (code_points s) (n, length s)") (simp add: code_point_index_def for_each_codepoint_list)

lemma appends_string:
  assumes "width_ok sp" "fill_ok sp"
  shows "\<exists>x. appends_out (write_string s sp) x"
proof -
  obtain esc where esc: "appends_out (write_escaped_string s) esc" using write_escaped_string_plain[of s] by (auto simp: appends_out_def)
  obtain sz0 where sz0: "(if spec_precision sp \<ge> 0 \<and> nat (spec_precision sp) < length s then code_point_index s (nat (spec_precision sp)) else Inr (length s)) = Inr sz0"
    using code_point_index_total[of s "nat (spec_precision sp)"] by (cases "spec_precision sp \<ge> 0 \<and> nat (spec_precision sp) < length s") auto
  let ?debug = "spec_type sp = pres_debug"
  define sz where "sz = (if ?debug then length esc else sz0)"
  obtain w where w: "(if spec_width sp \<noteq> 0 then (if ?debug then Inr sz else compute_width (take sz s)) else Inr 0) = Inr w"
    by (cases "spec_width sp \<noteq> 0"; cases ?debug) (auto simp: compute_width_def for_each_codepoint_list)
  have "appends_out (\<lambda>it. if ?debug then write_escaped_string s it else Inr (it @ take sz s)) (if ?debug then esc else take sz s)"
    using esc by (simp add: appends_out_def)
  from appends_padded[OF assms this, of align_left w]
  have "appends_out (write_padded align_left sp w (\<lambda>it. if ?debug then write_escaped_string s it else Inr (it @ take sz s)))
    (padded_text align_left sp w (if ?debug then esc else take sz s))" by simp
  moreover have "write_string s sp = write_padded align_left sp w (\<lambda>it. if ?debug then write_escaped_string s it else Inr (it @ take sz s))"
  proof -
    have "(if ?debug then rbind (write_escaped_string s []) (\<lambda>buf. Inr (length buf)) else Inr sz0) = Inr sz"
      using esc by (simp add: sz_def appends_out_def)
    then show ?thesis unfolding write_string_def fun_eq_iff sz0 by (simp only: rbind_simps Let_def w) simp
  qed
  ultimately show ?thesis by auto
qed

lemma appends_bool:
  assumes "width_ok sp" "fill_ok sp" "-1 \<le> spec_precision sp" "pres_ok bool_type (spec_type sp)"
  shows "\<exists>x. appends_out (fmt_write_bool np v sp) x"
proof (cases "spec_type sp = pres_none \<or> spec_type sp = pres_string")
  case True
  then show ?thesis using appends_bytes[OF assms(1,2)] by (auto simp: fmt_write_bool_def appends_out_def)
next
  case False
  then have "number_type sp \<or> spec_type sp = pres_chr" using assms(4) by (auto simp: pres_ok_def number_type_def type_sets pres_defs)
  then obtain x where "appends_out (write_integer np True (if v then 1 else 0 :: u32) sp) x" using appends_integer[OF assms(1-3)] by blast
  then show ?thesis using False by (auto simp: fmt_write_bool_def appends_out_def)
qed

lemma appends_plain_integer: "appends_out (write_plain_integer sg v) ((if sg \<and> sint v < 0 then [45] else []) @ dec_digits (abs_nat sg v))"
proof -
  have n: "NOT w + 1 = 0 - w" for w :: "'a word" by (simp add: minus_eq_not_plus_1)
  have u: "unat (if sg \<and> sint v < 0 then NOT v + 1 else v) = abs_nat sg v"
    unfolding n using unat_abs_word[of v] by (simp add: abs_nat_def)
  have c: "count_digits w = length (dec_digits (unat w))" for w :: "'a word"
    by (auto simp: count_digits_def do_count_digits_32_eq do_count_digits_64_eq count_digits_fallback_eq unsigned_ucast_eq take_bit_nat_eq_self
        intro!: arg_cong[where f = "\<lambda>x. length (dec_digits x)"]) (metis take_bit_nat_eq_self unsigned_less)+
  have dec: "do_format_decimal (replicate (length (dec_digits k)) 0) k (length (dec_digits k)) = Inr (dec_digits k, 0)" for k
    using format_pairs_eq[of k "length (dec_digits k)" "replicate (length (dec_digits k)) 0"] by (simp add: do_format_decimal_def)
  show ?thesis unfolding appends_out_def write_plain_integer_def Let_def c u dec by simp
qed

end
