(* ===== verification/Fmt_Format.thy ===== *)
theory Fmt_Format
  imports Fmt_Write
begin

text \<open>
  Formatting as a whole: arguments behind a packed descriptor (\<open>fmt/bundled/base.h\<close>), the handler that formats them while the string is parsed
  (\<open>fmt/bundled/format.h\<close>, \<open>format_handler\<close> and \<open>vformat_to\<close>), and the handler that checks a string against argument types while the program is
  compiled (\<open>format_string_checker\<close>). Floating-point and user-defined arguments are left out.
\<close>

subsection \<open>Arguments\<close>

datatype fmt_arg =
    arg_none
  | arg_int u32
  | arg_uint u32
  | arg_long_long u64
  | arg_ulong_long u64
  | arg_int128 "128 word"
  | arg_uint128 "128 word"
  | arg_bool bool
  | arg_char byte
  | arg_cstring u64 bytes
  | arg_string bytes
  | arg_pointer u64

primrec arg_type :: "fmt_arg \<Rightarrow> fmt_type" where
  "arg_type arg_none = none_type"
| "arg_type (arg_int v) = int_type"
| "arg_type (arg_uint v) = uint_type"
| "arg_type (arg_long_long v) = long_long_type"
| "arg_type (arg_ulong_long v) = ulong_long_type"
| "arg_type (arg_int128 v) = int128_type"
| "arg_type (arg_uint128 v) = uint128_type"
| "arg_type (arg_bool b) = bool_type"
| "arg_type (arg_char c) = char_type"
| "arg_type (arg_cstring a s) = cstring_type"
| "arg_type (arg_string s) = string_type"
| "arg_type (arg_pointer p) = pointer_type"

definition packed_arg_bits :: nat where "packed_arg_bits = 4"
definition max_packed_args :: nat where "max_packed_args = 62 div packed_arg_bits"
definition is_unpacked_bit :: u64 where "is_unpacked_bit = push_bit 63 1"
definition has_named_args_bit :: u64 where "has_named_args_bit = push_bit 62 1"

text \<open>The descriptor, the values and what \<open>named_args\<close> holds.\<close>

record format_args =
  fa_desc :: u64
  fa_values :: "fmt_arg list"
  fa_named :: "(bytes \<times> int) list"

definition is_packed :: "format_args \<Rightarrow> bool" where
  "is_packed args \<longleftrightarrow> fa_desc args AND is_unpacked_bit = 0"

definition has_named_args :: "format_args \<Rightarrow> bool" where
  "has_named_args args \<longleftrightarrow> fa_desc args AND has_named_args_bit \<noteq> 0"

definition type_at :: "format_args \<Rightarrow> nat \<Rightarrow> fmt_type" where
  "type_at args index = fmt_types ! unat (drop_bit (index * packed_arg_bits) (fa_desc args) AND (push_bit packed_arg_bits 1 - 1))"

definition max_size :: "format_args \<Rightarrow> int" where
  "max_size args = (if is_packed args then int max_packed_args else sint (ucast (fa_desc args AND NOT is_unpacked_bit) :: u32))"

text \<open>Reading outside the values, or as another type than the stored one, is undefined.\<close>

definition value_at :: "format_args \<Rightarrow> int \<Rightarrow> fmt_arg result" where
  "value_at args i = (if 0 \<le> i \<and> nat i < length (fa_values args) then Inr (fa_values args ! nat i) else Inl Undefined)"

definition get_arg_at :: "format_args \<Rightarrow> int \<Rightarrow> fmt_arg result" where
  "get_arg_at args i =
     (if \<not> is_packed args then (if i < max_size args then value_at args i else Inr arg_none)
      else if i < 0 \<or> i \<ge> int max_packed_args then Inr arg_none
      else if type_at args (nat i) = none_type then Inr arg_none
      else rbind (value_at args i) (\<lambda>v. if arg_type v = type_at args (nat i) then Inr v else Inl Undefined))"

definition get_id :: "format_args \<Rightarrow> bytes \<Rightarrow> int" where
  "get_id args name =
     (if \<not> has_named_args args then -1 else case map_of (fa_named args) name of Some i \<Rightarrow> i | None \<Rightarrow> -1)"

definition get_arg_named :: "format_args \<Rightarrow> bytes \<Rightarrow> fmt_arg result" where
  "get_arg_named args name = (if get_id args name \<ge> 0 then get_arg_at args (get_id args name) else Inr arg_none)"

text \<open>\<open>make_format_args\<close>: four bits of type for each argument, the first one lowest, or the number of the arguments.\<close>

fun encode_types :: "fmt_arg list \<Rightarrow> u64" where
  "encode_types [] = 0"
| "encode_types (a # as) = of_nat (type_num (arg_type a)) OR push_bit packed_arg_bits (encode_types as)"

definition make_descriptor :: "fmt_arg list \<Rightarrow> u64" where
  "make_descriptor as = (if length as \<le> max_packed_args then encode_types as else is_unpacked_bit OR of_nat (length as))"

text \<open>\<open>init_named_arg\<close> over the arguments, some of them with names.\<close>

fun init_named_args :: "(bytes \<times> int) list \<Rightarrow> int \<Rightarrow> bytes option list \<Rightarrow> (bytes \<times> int) list result" where
  "init_named_args named arg_index [] = Inr named"
| "init_named_args named arg_index (None # ns) = init_named_args named (arg_index + 1) ns"
| "init_named_args named arg_index (Some n # ns) =
     (if n \<in> set (map fst named) then report_error ''duplicate named arg''
      else init_named_args (named @ [(n, arg_index)]) (arg_index + 1) ns)"

definition make_format_args :: "(bytes option \<times> fmt_arg) list \<Rightarrow> format_args result" where
  "make_format_args as =
     rbind (init_named_args [] 0 (map fst as)) (\<lambda>named.
       Inr \<lparr>fa_desc = make_descriptor (map snd as) OR (if named \<noteq> [] then has_named_args_bit else 0), fa_values = map snd as, fa_named = named\<rparr>)"

subsection \<open>Formatting one argument\<close>

definition new_specs :: format_specs where
  "new_specs = new_format_specs"

fun default_arg_formatter :: "numpunct \<Rightarrow> fmt_arg \<Rightarrow> writer" where
  "default_arg_formatter np arg_none = (\<lambda>out. report_error ''argument not found'')"
| "default_arg_formatter np (arg_int v) = write_plain_integer True v"
| "default_arg_formatter np (arg_uint v) = write_plain_integer False v"
| "default_arg_formatter np (arg_long_long v) = write_plain_integer True v"
| "default_arg_formatter np (arg_ulong_long v) = write_plain_integer False v"
| "default_arg_formatter np (arg_int128 v) = write_plain_integer True v"
| "default_arg_formatter np (arg_uint128 v) = write_plain_integer False v"
| "default_arg_formatter np (arg_bool b) = fmt_write_bool np b new_specs"
| "default_arg_formatter np (arg_char c) = (\<lambda>out. Inr (out @ [c]))"
| "default_arg_formatter np (arg_cstring addr s) = (\<lambda>out. if addr \<noteq> 0 then Inr (out @ s) else report_error ''string pointer is null'')"
| "default_arg_formatter np (arg_string s) = (\<lambda>out. Inr (out @ s))"
| "default_arg_formatter np (arg_pointer p) = fmt_write_ptr p (Some new_specs)"

fun arg_formatter :: "numpunct \<Rightarrow> fmt_arg \<Rightarrow> 'a format_specs_scheme \<Rightarrow> writer" where
  "arg_formatter np arg_none specs = (\<lambda>out. Inl Undefined)"
| "arg_formatter np (arg_int v) specs = write_integer np True v specs"
| "arg_formatter np (arg_uint v) specs = write_integer np False v specs"
| "arg_formatter np (arg_long_long v) specs = write_integer np True v specs"
| "arg_formatter np (arg_ulong_long v) specs = write_integer np False v specs"
| "arg_formatter np (arg_int128 v) specs = write_integer np True v specs"
| "arg_formatter np (arg_uint128 v) specs = write_integer np False v specs"
| "arg_formatter np (arg_bool b) specs = fmt_write_bool np b specs"
| "arg_formatter np (arg_char c) specs = write_character np c specs"
| "arg_formatter np (arg_cstring addr s) specs = write_cstring addr s specs"
| "arg_formatter np (arg_string s) specs = write_string s specs"
| "arg_formatter np (arg_pointer p) specs = fmt_write_ptr p (Some specs)"

text \<open>\<open>dynamic_spec_getter\<close>: a negative width is the largest \<open>unsigned long long\<close>; wider integers are cut to 64 bits.\<close>

fun dynamic_spec_getter :: "fmt_arg \<Rightarrow> u64 result" where
  "dynamic_spec_getter (arg_int v) = Inr (if sint v < 0 then NOT 0 else scast v)"
| "dynamic_spec_getter (arg_uint v) = Inr (ucast v)"
| "dynamic_spec_getter (arg_long_long v) = Inr (if sint v < 0 then NOT 0 else v)"
| "dynamic_spec_getter (arg_ulong_long v) = Inr v"
| "dynamic_spec_getter (arg_int128 v) = Inr (if sint v < 0 then NOT 0 else ucast v)"
| "dynamic_spec_getter (arg_uint128 v) = Inr (ucast v)"
| "dynamic_spec_getter a = report_error ''width/precision is not integer''"

definition get_dynamic_spec :: "format_args \<Rightarrow> arg_id_kind \<Rightarrow> arg_ref \<Rightarrow> int result" where
  "get_dynamic_spec args kind r =
     rbind (case (kind, r) of
              (id_index, ref_index i) \<Rightarrow> get_arg_at args i
            | (id_name, ref_name n) \<Rightarrow> get_arg_named args n
            | _ \<Rightarrow> Inl Undefined) (\<lambda>arg.
     if arg = arg_none then report_error ''argument not found''
     else rbind (dynamic_spec_getter arg) (\<lambda>v.
       if uint v > INT_MAX then report_error ''width/precision is out of range'' else Inr (uint v)))"

definition handle_dynamic_spec :: "format_args \<Rightarrow> arg_id_kind \<Rightarrow> int \<Rightarrow> arg_ref \<Rightarrow> int result" where
  "handle_dynamic_spec args kind v r = (if kind \<noteq> id_none then get_dynamic_spec args kind r else Inr v)"

definition get_arg :: "format_args \<Rightarrow> int \<Rightarrow> fmt_arg result" where
  "get_arg args i = rbind (get_arg_at args i) (\<lambda>arg. if arg = arg_none then report_error ''argument not found'' else Inr arg)"

subsection \<open>The handler\<close>

record format_handler =
  fh_parse_ctx :: parse_context
  fh_out :: bytes

definition in_parse_ctx :: "(parse_context, 'a) op \<Rightarrow> (format_handler, 'a) op" where
  "in_parse_ctx m s = (case m (fh_parse_ctx s) of (r, c) \<Rightarrow> (r, s\<lparr>fh_parse_ctx := c\<rparr>))"

text \<open>A writer that fails has written nothing (they all compute before they write).\<close>

definition in_out :: "writer \<Rightarrow> (format_handler, unit) op" where
  "in_out w s = (case w (fh_out s) of Inl e \<Rightarrow> (Inl e, s) | Inr out \<Rightarrow> (Inr (), s\<lparr>fh_out := out\<rparr>))"

definition resolve_dynamic :: "format_args \<Rightarrow> dynamic_format_specs \<Rightarrow> dynamic_format_specs result" where
  "resolve_dynamic args specs =
     (if spec_dynamic specs then
        rbind (handle_dynamic_spec args (dynamic_width specs) (spec_width specs) (width_ref specs)) (\<lambda>w.
        rbind (handle_dynamic_spec args (dynamic_precision specs) (spec_precision specs) (precision_ref specs)) (\<lambda>p.
        Inr (specs\<lparr>spec_width := w, spec_precision := p\<rparr>)))
      else Inr specs)"

definition format_with_specs :: "format_args \<Rightarrow> numpunct \<Rightarrow> int \<Rightarrow> bytes \<Rightarrow> (format_handler, bytes) op" where
  "format_with_specs args np i p =
     sbind (slift (get_arg args i)) (\<lambda>arg.
     sbind (in_parse_ctx (parse_format_specs (arg_type arg) p new_dynamic_specs)) (\<lambda>(r, specs).
     sbind (slift (resolve_dynamic args specs)) (\<lambda>specs.
     sbind (in_out (arg_formatter np arg specs)) (\<lambda>_. sreturn r))))"

definition format_handler_of :: "format_args \<Rightarrow> numpunct \<Rightarrow> format_handler format_handler_ops" where
  "format_handler_of args np =
     \<lparr>on_text = (\<lambda>t. in_out (\<lambda>out. Inr (out @ t))),
      on_auto_id = in_parse_ctx next_arg_id,
      on_index_id = (\<lambda>i. in_parse_ctx (sbind (check_arg_id i) (\<lambda>_. sreturn i))),
      on_name_id = (\<lambda>n. sbind (in_parse_ctx (check_arg_name n)) (\<lambda>_.
         slift (if get_id args n < 0 then report_error ''argument not found'' else Inr (get_id args n)))),
      on_replacement_field = (\<lambda>i _. sbind (slift (get_arg_at args i)) (\<lambda>arg. in_out (default_arg_formatter np arg))),
      on_format_specs = format_with_specs args np\<rparr>"

definition vformat_to :: "bytes \<Rightarrow> bytes \<Rightarrow> format_args \<Rightarrow> numpunct \<Rightarrow> unit result \<times> bytes" where
  "vformat_to buf fmt args np =
     (case parse_format_string (format_handler_of args np) fmt \<lparr>fh_parse_ctx = new_parse_context fmt, fh_out = buf\<rparr> of
        (r, s) \<Rightarrow> (r, fh_out s))"

subsection \<open>The check at compile time\<close>

text \<open>\<open>native_formatter::parse\<close>.\<close>

definition native_parse :: "fmt_type \<Rightarrow> bytes \<Rightarrow> (parse_context, bytes) op" where
  "native_parse ty p =
     (if p = [] \<or> hd p = ascii CHR ''}'' then sreturn p
      else sbind (parse_format_specs ty p new_dynamic_specs) (\<lambda>(e, specs).
           if ty = char_type then sbind (slift (check_char_specs specs)) (\<lambda>_. sreturn e) else sreturn e))"

fun skip_specs :: "int \<Rightarrow> bytes \<Rightarrow> bytes" where
  "skip_specs bracket_count [] = []"
| "skip_specs bracket_count (c # p) =
     (if bracket_count > 0 \<or> c \<noteq> ascii CHR ''}''
      then skip_specs (if c = ascii CHR ''{'' then bracket_count + 1 else if c = ascii CHR ''}'' then bracket_count - 1 else bracket_count) p
      else c # p)"

definition checker_specs :: "fmt_type list \<Rightarrow> int \<Rightarrow> bytes \<Rightarrow> (parse_context, bytes) op" where
  "checker_specs types i p =
     sbind (advance_to p) (\<lambda>_. if 0 \<le> i \<and> i < int (length types) then native_parse (types ! nat i) p else sreturn (skip_specs 0 p))"

definition checker_field :: "fmt_type list \<Rightarrow> int \<Rightarrow> bytes \<Rightarrow> (parse_context, unit) op" where
  "checker_field types i p =
     sbind (advance_to p) (\<lambda>_. if 0 \<le> i \<and> i < int (length types) then sbind (native_parse (types ! nat i) p) (\<lambda>_. sreturn ()) else sreturn ())"

definition format_string_checker :: "fmt_type list \<Rightarrow> (bytes \<times> int) list \<Rightarrow> bool \<Rightarrow> parse_context format_handler_ops" where
  "format_string_checker types named dynamic_names =
     \<lparr>on_text = (\<lambda>t. sreturn ()),
      on_auto_id = compile_next_arg_id,
      on_index_id = (\<lambda>i. sbind (compile_check_arg_id i) (\<lambda>_. sreturn i)),
      on_name_id = (\<lambda>n. slift (case map_of named n of
                               Some i \<Rightarrow> Inr i
                             | None \<Rightarrow> if dynamic_names then Inr (-1) else report_error ''argument not found'')),
      on_replacement_field = checker_field types,
      on_format_specs = checker_specs types\<rparr>"

definition check_format_string :: "bytes \<Rightarrow> fmt_type list \<Rightarrow> (bytes \<times> int) list \<Rightarrow> bool \<Rightarrow> unit result" where
  "check_format_string fmt types named dynamic_names =
     fst (parse_format_string (format_string_checker types named dynamic_names) fmt (new_compile_context fmt types))"

subsection \<open>Arguments are found\<close>

lemma bit_encode_types:
  "bit (encode_types as) n \<longleftrightarrow> n < 64 \<and> n div 4 < length as \<and> bit (type_num (arg_type (as ! (n div 4)))) (n mod 4)"
proof (induction as arbitrary: n)
  case (Cons a as)
  have t: "\<not> bit (type_num (arg_type a)) k" if "4 \<le> k" for k
  proof -
    have "type_num (arg_type a) < 2 ^ 4" by simp
    also have "(2::nat) ^ 4 \<le> 2 ^ k" using that by (intro power_increasing) simp_all
    finally show ?thesis by (simp add: bit_iff_odd)
  qed
  show ?case
  proof (cases "n < 4")
    case True
    then show ?thesis by (simp add: bit_simps packed_arg_bits_def)
  next
    case False
    then obtain m where n: "n = m + 4" by (metis le_add_diff_inverse2 not_less)
    show ?thesis using t[of n] False Cons.IH[of m] by (auto simp: bit_simps packed_arg_bits_def n)
  qed
qed simp

lemma flag_bits: "bit is_unpacked_bit n \<longleftrightarrow> n = 63" "bit has_named_args_bit n \<longleftrightarrow> n = 62"
  by (auto simp only: is_unpacked_bit_def has_named_args_bit_def bit_push_bit_iff bit_1_iff possible_bit_word) auto

lemma fmt_types_num: "fmt_types ! type_num t = t"
  by (cases t) (simp_all add: fmt_types_def)

definition args_desc :: "fmt_arg list \<Rightarrow> bool \<Rightarrow> u64" where
  "args_desc as named = make_descriptor as OR (if named then has_named_args_bit else 0)"

lemma packed_type:
  assumes "length as \<le> 15" "i < 15"
  shows "drop_bit (i * 4) (encode_types as OR (if named then has_named_args_bit else 0)) AND 15 =
    of_nat (if i < length as then type_num (arg_type (as ! i)) else 0)"
proof (rule bit_word_eqI)
  fix n assume "n < LENGTH(64)"
  then have n: "n < 64" by simp
  have m: "(15 :: u64) = mask 4" by (simp add: mask_eq_exp_minus_1)
  have small: "\<not> bit (of_nat (type_num t) :: u64) n" if "4 \<le> n" for t
  proof -
    have "type_num t < 2 ^ 4" by simp
    also have "(2::nat) ^ 4 \<le> 2 ^ n" using that by (intro power_increasing) simp_all
    finally show ?thesis by (simp add: bit_simps bit_iff_odd[of "type_num t"])
  qed
  have named: "\<not> bit (if named then has_named_args_bit else 0) (i * 4 + n)" if "n < 4"
    using that assms(2) by (auto simp: flag_bits)
  show "bit (drop_bit (i * 4) (encode_types as OR (if named then has_named_args_bit else 0)) AND 15) n =
      bit (of_nat (if i < length as then type_num (arg_type (as ! i)) else 0) :: u64) n"
  proof (cases "n < 4")
    case True
    then have "(i * 4 + n) div 4 = i" "(i * 4 + n) mod 4 = n" "i * 4 + n < 64" using assms(2) by simp_all
    then show ?thesis unfolding m using True n named by (auto simp: bit_simps bit_encode_types)
  next
    case False
    then show ?thesis unfolding m using small by (auto simp: bit_simps)
  qed
qed

lemma packed_iff:
  "desc = args_desc as named \<Longrightarrow> (desc AND is_unpacked_bit = 0) = (length as \<le> 15)"
proof -
  assume d: "desc = args_desc as named"
  have b: "desc AND is_unpacked_bit = 0 \<longleftrightarrow> \<not> bit desc 63"
  proof
    assume "desc AND is_unpacked_bit = 0"
    then have "\<not> bit (desc AND is_unpacked_bit) 63" by simp
    then show "\<not> bit desc 63" by (simp add: bit_and_iff flag_bits)
  next
    assume "\<not> bit desc 63"
    then show "desc AND is_unpacked_bit = 0" by (intro bit_word_eqI) (auto simp: bit_and_iff flag_bits)
  qed
  have nb: "\<not> bit (if named then has_named_args_bit else 0) 63" by (simp add: flag_bits)
  show ?thesis
    unfolding b unfolding d args_desc_def make_descriptor_def using nb
    by (auto simp: bit_or_iff bit_encode_types flag_bits max_packed_args_def packed_arg_bits_def)
qed

lemma unpacked_count:
  assumes "length as < 2 ^ 31" "\<not> length as \<le> 15"
  shows "sint (ucast (args_desc as named AND NOT is_unpacked_bit) :: u32) = int (length as)"
proof -
  have "ucast (args_desc as named AND NOT is_unpacked_bit) = (of_nat (length as) :: u32)"
    using assms(2)
    by (intro bit_word_eqI) (auto simp: args_desc_def make_descriptor_def bit_simps flag_bits max_packed_args_def packed_arg_bits_def)
  then show ?thesis using sint_small[OF assms(1)] by simp
qed

text \<open>Any list of named and unnamed arguments; the names do not matter for positions.\<close>

definition args_of :: "fmt_arg list \<Rightarrow> format_args \<Rightarrow> bool" where
  "args_of as args \<longleftrightarrow>
     (\<exists>named. fa_desc args = args_desc as named) \<and> fa_values args = as \<and> length as < 2 ^ 31 \<and> arg_none \<notin> set as \<and>
     (\<forall>(n, i)\<in>set (fa_named args). 0 \<le> i)"

lemma get_arg_at_eq:
  assumes "args_of as args" "0 \<le> i"
  shows "get_arg_at args i = Inr (if nat i < length as then as ! nat i else arg_none)"
proof -
  obtain named where d: "fa_desc args = args_desc as named" "fa_values args = as" "length as < 2 ^ 31" "arg_none \<notin> set as"
    using assms(1) by (auto simp: args_of_def)
  have packed: "is_packed args \<longleftrightarrow> length as \<le> 15" using packed_iff[OF d(1)] by (simp add: is_packed_def)
  have v: "value_at args i = Inr (as ! nat i)" if "nat i < length as" using that assms(2) by (simp add: value_at_def d(2))
  show ?thesis
  proof (cases "length as \<le> 15")
    case False
    then show ?thesis using v packed unpacked_count[OF d(3) False] assms(2) by (auto simp: get_arg_at_def max_size_def d(1))
  next
    case True
    have mp: "max_packed_args = 15" by (simp add: max_packed_args_def packed_arg_bits_def)
    have t: "type_at args (nat i) = (if nat i < length as then arg_type (as ! nat i) else none_type)" if "i < 15"
    proof -
      have "nat i < 15" using that assms(2) by linarith
      note p = packed_type[OF True this, of named]
      have "unat (of_nat (type_num t) :: u64) = type_num t" for t
        using less_trans[OF type_num_less[of t], of "2 ^ 64"] by (simp add: unat_of_nat)
      then show ?thesis using p fmt_types_num[of none_type] True
        by (simp add: type_at_def d(1) args_desc_def make_descriptor_def mp packed_arg_bits_def fmt_types_num push_bit_eq_mult)
    qed
    have nn: "arg_type a = none_type \<longleftrightarrow> a = arg_none" for a by (cases a) simp_all
    have "as ! nat i \<noteq> arg_none" if "nat i < length as" using that d(4) nth_mem by metis
    then show ?thesis
      using t v packed True assms(2) by (auto simp: get_arg_at_def mp nn)
  qed
qed

lemma init_named_args_distinct:
  "init_named_args acc j ns = Inr named \<Longrightarrow> distinct (map fst acc) \<Longrightarrow> distinct (map fst named) \<and> set acc \<subseteq> set named"
  by (induction acc j ns rule: init_named_args.induct) (auto simp: report_error_def split: if_splits)

lemma init_named_args_nonneg:
  "init_named_args acc j ns = Inr named \<Longrightarrow> 0 \<le> j \<Longrightarrow> \<forall>(n, i)\<in>set acc. 0 \<le> i \<Longrightarrow> \<forall>(n, i)\<in>set named. 0 \<le> i"
  by (induction acc j ns rule: init_named_args.induct) (auto simp: report_error_def split: if_splits)

lemma init_named_args_index:
  assumes "init_named_args acc j ns = Inr named" "distinct (map fst acc)" "k < length ns" "ns ! k = Some n"
  shows "(n, j + int k) \<in> set named"
  using assms
proof (induction acc j ns arbitrary: k rule: init_named_args.induct)
  case (2 acc j ns)
  then show ?case using "2.IH"[of "k - 1"] by (cases k) (simp_all add: algebra_simps)
next
  case (3 acc j m ns)
  then have r: "init_named_args (acc @ [(m, j)]) (j + 1) ns = Inr named" "m \<notin> set (map fst acc)" by (auto simp: report_error_def split: if_splits)
  then have d: "distinct (map fst (acc @ [(m, j)]))" using "3.prems"(2) by simp
  show ?case
  proof (cases k)
    case 0
    then show ?thesis using init_named_args_distinct[OF r(1) d] "3.prems"(4) by simp
  next
    case (Suc l)
    then show ?thesis using "3.IH"[OF r(2) r(1) d, of l] "3.prems"(3,4) by (simp add: algebra_simps)
  qed
qed simp

lemma make_format_args_of:
  assumes "make_format_args as = Inr args" "length as < 2 ^ 31" "\<forall>a\<in>set as. snd a \<noteq> arg_none"
  shows "args_of (map snd as) args"
proof -
  obtain named where n: "init_named_args [] 0 (map fst as) = Inr named" "fa_named args = named" "fa_values args = map snd as"
    "fa_desc args = args_desc (map snd as) (named \<noteq> [])"
    using assms(1) by (auto simp: make_format_args_def rbind_Inr_iff args_desc_def)
  have "\<forall>(n, i)\<in>set named. 0 \<le> i" using init_named_args_nonneg[OF n(1)] by simp
  then show ?thesis using n assms(2,3) unfolding args_of_def by fastforce
qed

lemma named_bit: "args_desc as named AND has_named_args_bit \<noteq> 0" if "named"
proof
  assume z: "args_desc as named AND has_named_args_bit = 0"
  have "bit (args_desc as named AND has_named_args_bit) 62" using that by (simp add: args_desc_def bit_and_iff bit_or_iff flag_bits)
  then show False by (simp add: z)
qed

text \<open>
  C37. The packed descriptor loses nothing: whatever the number of arguments, the argument with an index is found when there is one and
  reported missing otherwise, a named argument is found under its name, and no value is read outside the array or as another type.
\<close>

theorem arguments_are_found:
  assumes "make_format_args as = Inr args" "length as < 2 ^ 31" "\<forall>a\<in>set as. snd a \<noteq> arg_none"
  shows "(\<forall>i\<ge>0. get_arg_at args i = Inr (if nat i < length as then snd (as ! nat i) else arg_none)) \<and>
    (\<forall>k<length as. \<forall>n. fst (as ! k) = Some n \<longrightarrow> get_arg_named args n = Inr (snd (as ! k)))"
proof -
  have at: "get_arg_at args i = Inr (if nat i < length as then snd (as ! nat i) else arg_none)" if "0 \<le> i" for i
    using get_arg_at_eq[OF make_format_args_of[OF assms] that] by simp
  have "get_arg_named args n = Inr (snd (as ! k))" if "k < length as" "fst (as ! k) = Some n" for k n
  proof -
    obtain named where nd: "init_named_args [] 0 (map fst as) = Inr named" "fa_named args = named" "fa_desc args = args_desc (map snd as) (named \<noteq> [])"
      using assms(1) by (auto simp: make_format_args_def rbind_Inr_iff args_desc_def)
    have s: "distinct (map fst named)" "(n, int k) \<in> set named" using init_named_args_distinct[OF nd(1)] init_named_args_index[OF nd(1), of k n] that by simp_all
    then have "map_of named n = Some (int k)" "named \<noteq> []" by auto
    then have "get_id args n = int k" using nd named_bit[of "named \<noteq> []"] by (simp add: get_id_def has_named_args_def)
    then show ?thesis using at[of "int k"] that by (simp add: get_arg_named_def)
  qed
  then show ?thesis using at by blast
qed

text \<open>The second of two arguments, by its index and by its name.\<close>

definition sample_args :: "(bytes option \<times> fmt_arg) list" where
  "sample_args = [(None, arg_int 7), (Some (str ''w''), arg_uint 9)]"

theorem arguments_are_found_witness:
  "\<exists>args. make_format_args sample_args = Inr args \<and> get_arg_at args 1 = Inr (arg_uint 9) \<and> get_arg_named args (str ''w'') = Inr (arg_uint 9) \<and>
     get_arg_at args 2 = Inr arg_none"
proof -
  obtain args where a: "make_format_args sample_args = Inr args" by (simp add: make_format_args_def sample_args_def)
  have h: "length sample_args < 2 ^ 31" "\<forall>a\<in>set sample_args. snd a \<noteq> arg_none" by (simp_all add: sample_args_def)
  note f = arguments_are_found[OF a h]
  have "get_arg_at args 1 = Inr (arg_uint 9)" "get_arg_at args 2 = Inr arg_none" using f by (simp_all add: sample_args_def)
  moreover have "get_arg_named args (str ''w'') = Inr (arg_uint 9)" using f by (auto simp: sample_args_def less_Suc_eq_0_disj)
  ultimately show ?thesis using a by blast
qed

end
