(* ===== verification/Fmt_Safety.thy ===== *)
theory Fmt_Safety
  imports Fmt_Format
begin

text \<open>
  What the parser of format strings needs from its handlers, as locales, and what it gives: no undefined behaviour for a handler that keeps the
  contract, and, for two handlers of which one follows the other, the same course of the parse. Both handlers of the library, the check at compile
  time and the formatting at run time, keep the contracts.
\<close>

subsection \<open>Runs that keep an invariant\<close>

definition runs :: "('s \<Rightarrow> bool) \<Rightarrow> ('s, 'a) op \<Rightarrow> ('a \<Rightarrow> bool) \<Rightarrow> bool" where
  "runs I m Q \<longleftrightarrow> (\<forall>s. I s \<longrightarrow> I (snd (m s)) \<and> fst (m s) \<noteq> Inl Undefined \<and> (\<forall>x. fst (m s) = Inr x \<longrightarrow> Q x))"

named_theorems runs_rules \<open>how runs compose\<close>

lemma runsD: "runs I m Q \<Longrightarrow> I s \<Longrightarrow> m s = (r, t) \<Longrightarrow> I t \<and> r \<noteq> Inl Undefined \<and> (\<forall>x. r = Inr x \<longrightarrow> Q x)"
  by (force simp: runs_def)

lemma runs_weaken: "runs I m P \<Longrightarrow> (\<And>x. P x \<Longrightarrow> Q x) \<Longrightarrow> runs I m Q"
  by (auto simp: runs_def)

lemma runs_return [runs_rules]: "Q x \<Longrightarrow> runs I (sreturn x) Q"
  by (simp add: runs_def sreturn_def)

lemma runs_lift [runs_rules]: "r \<noteq> Inl Undefined \<Longrightarrow> (\<And>x. r = Inr x \<Longrightarrow> Q x) \<Longrightarrow> runs I (slift r) Q"
  by (auto simp: runs_def slift_def)

lemma runs_get [runs_rules]: "(\<And>x. Q x) \<Longrightarrow> runs I (sget f) Q"
  by (simp add: runs_def sget_def)

lemma runs_error [runs_rules]: "runs I (slift (report_error m)) Q"
  by (simp add: runs_def slift_def report_error_def)

lemma runs_bind: "runs I m P \<Longrightarrow> (\<And>x. P x \<Longrightarrow> runs I (f x) Q) \<Longrightarrow> runs I (sbind m f) Q"
proof -
  assume m: "runs I m P" and f: "\<And>x. P x \<Longrightarrow> runs I (f x) Q"
  show ?thesis
    unfolding runs_def
  proof (intro allI impI)
    fix s assume s: "I s"
    obtain r t where mt: "m s = (r, t)" by (cases "m s")
    note d = runsD[OF m s mt]
    show "I (snd (sbind m f s)) \<and> fst (sbind m f s) \<noteq> Inl Undefined \<and> (\<forall>x. fst (sbind m f s) = Inr x \<longrightarrow> Q x)"
    proof (cases r)
      case (Inl e)
      then show ?thesis using d mt by simp
    next
      case (Inr x)
      then have "runs I (f x) Q" using d f by blast
      then show ?thesis using d mt Inr unfolding runs_def by auto
    qed
  qed
qed

lemma runs_bind_lift: "r \<noteq> Inl Undefined \<Longrightarrow> (\<And>x. r = Inr x \<Longrightarrow> runs I (f x) Q) \<Longrightarrow> runs I (sbind (slift r) f) Q"
  by (rule runs_bind[of I "slift r" "\<lambda>x. r = Inr x"]) (auto intro: runs_rules)

lemma runs_if [runs_rules]: "(b \<Longrightarrow> runs I m Q) \<Longrightarrow> (\<not> b \<Longrightarrow> runs I m' Q) \<Longrightarrow> runs I (if b then m else m') Q"
  by simp

lemma runs_arg_id:
  assumes "\<And>i. 0 \<le> i \<Longrightarrow> runs I (f i) Q" "\<And>n. runs I (g n) Q" "p \<noteq> []"
  shows "runs I (parse_arg_id f g p) (\<lambda>(a, r). Q a \<and> length r < length p)"
  unfolding runs_def
proof (intro allI impI)
  fix s assume s: "I s"
  obtain r t where e: "parse_arg_id f g p s = (r, t)" by (cases "parse_arg_id f g p s")
  obtain c rest where p: "p = c # rest" using assms(3) by (cases p) auto
  have num: "parse_nonnegative_int p INT_MAX \<noteq> Inl Undefined" "parse_nonnegative_int p INT_MAX = Inr (i, q) \<Longrightarrow> 0 \<le> i" if "fmt_is_digit c" for i q
    using that parse_nonnegative_int_defined[OF that] parse_nonnegative_int_range[of p INT_MAX i q] by (auto simp: p INT_MAX_def)
  have f: "I t \<and> (r = Inr (a, q) \<longrightarrow> Q a) \<and> r \<noteq> Inl Undefined" if "sbind (f i) (\<lambda>a. sreturn (a, q')) s = (r, t)" "0 \<le> i" for i q' a q
    using runsD[OF assms(1)[OF that(2)] s] that(1) by (auto simp: outcome_simps sreturn_def)
  have g: "I t \<and> (r = Inr (a, q) \<longrightarrow> Q a) \<and> r \<noteq> Inl Undefined" if "sbind (g n) (\<lambda>a. sreturn (a, q')) s = (r, t)" for n q' a q
    using runsD[OF assms(2) s] that by (auto simp: outcome_simps sreturn_def)
  have "I t \<and> (\<forall>a q. r = Inr (a, q) \<longrightarrow> Q a) \<and> r \<noteq> Inl Undefined"
  proof (cases "fmt_is_digit c")
    case True
    define m where "m = (if c \<noteq> ascii CHR ''0'' then parse_nonnegative_int p INT_MAX else Inr (0, rest))"
    have m: "m \<noteq> Inl Undefined" "m = Inr (i, q) \<Longrightarrow> 0 \<le> i" for i q using num[OF True] by (auto simp: m_def split: if_splits)
    have e2: "sbind (slift m) (\<lambda>(i, q). if q = [] \<or> hd q \<noteq> ascii CHR ''}'' \<and> hd q \<noteq> ascii CHR '':'' then slift (report_error ''invalid format string'')
        else sbind (f i) (\<lambda>a. sreturn (a, q))) s = (r, t)"
      using e True unfolding parse_arg_id_def p m_def by (simp only: list.case if_True)
    show ?thesis
    proof (cases m)
      case (Inl x)
      then show ?thesis using e2 m s by (auto simp: slift_def)
    next
      case (Inr iq)
      obtain i q where iq: "iq = (i, q)" by (cases iq)
      then show ?thesis using e2 Inr m(2)[of i q] f[of i q] s by (auto simp: slift_def report_error_def split: if_splits)
    qed
  next
    case False
    then show ?thesis using e s g by (auto simp: parse_arg_id_def p slift_def report_error_def Let_def split: if_splits)
  qed
  moreover have "length q < length p" if "r = Inr (a, q)" for a q
  proof -
    have "suffix q rest" using parse_arg_id_suffix[of f g p s a q t] e that p by auto
    then show ?thesis using suffix_length_le[of q rest] p by simp
  qed
  ultimately show "I (snd (parse_arg_id f g p s)) \<and> fst (parse_arg_id f g p s) \<noteq> Inl Undefined \<and>
    (\<forall>x. fst (parse_arg_id f g p s) = Inr x \<longrightarrow> (case x of (a, r) \<Rightarrow> Q a \<and> length r < length p))"
    using e by auto
qed

subsection \<open>What a handler promises\<close>

text \<open>
  The ids a handler returns are valid for its other operations; a specification is parsed to a pointer that has not gone back. \<open>I\<close> is what the
  handler relies on and keeps.
\<close>

locale handler_contract =
  fixes h :: "'s format_handler_ops" and I :: "'s \<Rightarrow> bool" and valid :: "int \<Rightarrow> bool"
  assumes text_runs: "runs I (on_text h tx) (\<lambda>_. True)"
    and auto_runs: "runs I (on_auto_id h) valid"
    and index_runs: "0 \<le> i \<Longrightarrow> runs I (on_index_id h i) valid"
    and name_runs: "runs I (on_name_id h n) valid"
    and field_runs: "valid i \<Longrightarrow> runs I (on_replacement_field h i p) (\<lambda>_. True)"
    and specs_runs: "valid i \<Longrightarrow> runs I (on_format_specs h i p) (\<lambda>r. length r \<le> length p)"
begin

lemma field_specs_run: "valid i \<Longrightarrow> runs I (parse_field_specs h i p) (\<lambda>_. True)"
  unfolding parse_field_specs_def by (rule runs_bind[OF specs_runs]) (auto intro!: runs_rules)

lemma replacement_field_runs: "runs I (parse_replacement_field h p) (\<lambda>_. True)"
proof (cases p)
  case Nil
  then show ?thesis by (simp add: parse_replacement_field_def runs_error)
next
  case (Cons c rest)
  have fin: "runs I (sbind (on_replacement_field h i q) (\<lambda>_. sreturn r)) (\<lambda>_. True)" if "valid i" for i q r
    using that by (auto intro: runs_bind[OF field_runs] runs_rules)
  have "runs I (sbind (parse_arg_id (on_index_id h) (on_name_id h) p) (\<lambda>(i, q).
      if q \<noteq> [] \<and> hd q = ascii CHR ''}'' then sbind (on_replacement_field h i q) (\<lambda>_. sreturn (tl q))
      else if q = [] \<or> hd q \<noteq> ascii CHR '':'' then slift (report_error ''missing '}' in format string'')
      else parse_field_specs h i (tl q))) (\<lambda>_. True)"
    using Cons by (intro runs_bind[OF runs_arg_id[OF index_runs name_runs]]) (auto intro!: runs_rules fin field_specs_run)
  then show ?thesis
    unfolding parse_replacement_field_def Cons
    by (auto intro!: runs_rules runs_bind[OF auto_runs] runs_bind[OF text_runs] fin field_specs_run simp del: ascii_simps)
qed

lemma loop_runs: "I s \<Longrightarrow> I (snd (format_loop h tx p s)) \<and> fst (format_loop h tx p s) \<noteq> Inl Undefined"
proof (induction "length p" arbitrary: p tx s rule: less_induct)
  case less
  have tx: "I t \<and> r \<noteq> Inl Undefined" if "on_text h x u = (r, t)" "I u" for x u r t using runsD[OF text_runs that(2,1)] by blast
  show ?case
  proof (cases p)
    case Nil
    then show ?thesis using tx[of tx s] less.prems by (cases "on_text h tx s") (simp add: format_loop.simps)
  next
    case (Cons c q)
    obtain r t where ot: "on_text h tx s = (r, t)" by (cases "on_text h tx s")
    obtain r2 t2 where ot2: "on_text h (tx @ [c]) s = (r2, t2)" by (cases "on_text h (tx @ [c]) s")
    obtain r3 t3 where rf: "parse_replacement_field h q t = (r3, t3)" by (cases "parse_replacement_field h q t")
    have It: "I t" "r \<noteq> Inl Undefined" using tx[OF ot less.prems] by auto
    have I2: "I t2" "r2 \<noteq> Inl Undefined" using tx[OF ot2 less.prems] by auto
    have I3: "I t3" "r3 \<noteq> Inl Undefined" using runsD[OF replacement_field_runs It(1) rf] by auto
    have field: ?thesis if "c = ascii CHR ''{''"
    proof (cases r)
      case (Inr x)
      show ?thesis
      proof (cases r3)
        case (Inr rest)
        have "length rest < length p" using parse_replacement_field_shorter[of h q t rest t3] rf Inr Cons by simp
        from less.hyps[OF this I3(1), of "[]"] show ?thesis using that ot rf \<open>r = Inr x\<close> Inr Cons by (simp add: format_loop.simps)
      qed (use that ot rf I3 Inr Cons in \<open>auto simp: format_loop.simps\<close>)
    qed (use that ot It Cons in \<open>auto simp: format_loop.simps\<close>)
    have close: ?thesis if "c = ascii CHR ''}''"
    proof (cases "q = [] \<or> hd q \<noteq> ascii CHR ''}''")
      case True
      then show ?thesis using that less.prems Cons by (auto simp: format_loop.simps slift_def report_error_def)
    next
      case False
      have "length (tl q) < length p" using Cons by simp
      note ih = less.hyps[OF this I2(1), of "[]"]
      show ?thesis using that False ot2 I2 ih Cons by (cases r2) (auto simp: format_loop.simps)
    qed
    show ?thesis
      using field close less.hyps[of q s "tx @ [c]"] less.prems Cons by (cases "c = ascii CHR ''{'' \<or> c = ascii CHR ''}''") (auto simp: format_loop.simps)
  qed
qed

lemma format_string_runs: "runs I (parse_format_string h fmt) (\<lambda>_. True)"
  using loop_runs by (simp add: runs_def parse_format_string_def)

end

subsection \<open>The check at compile time keeps the contract\<close>

lemma runs_defined: "defined m \<Longrightarrow> runs (\<lambda>_. True) m (\<lambda>_. True)"
  by (simp add: runs_def defined_def)

lemma skip_specs_length: "length (skip_specs n p) \<le> length p"
  by (induction n p rule: skip_specs.induct) auto

lemma check_char_specs_defined: "check_char_specs sp \<noteq> Inl Undefined"
  by (simp add: check_char_specs_def)

lemma parse_new_specs_runs:
  "runs (\<lambda>_. True) (parse_format_specs ty p new_dynamic_specs) (\<lambda>(r, sp). specs_ok ty sp \<and> length r \<le> length p)"
proof -
  have "specs_ok ty sp \<and> length r \<le> length p" if "parse_format_specs ty p new_dynamic_specs s = (Inr (r, sp), t)" for s r sp t
    using parse_format_specs_ok[OF that new_dynamic_specs_ok] suffix_length_le by blast
  then show ?thesis
    using parse_format_specs_defined[of ty p new_dynamic_specs] unfolding runs_def defined_def by (metis (mono_tags, lifting) case_prodI2 prod.collapse)
qed

lemma native_parse_runs: "runs (\<lambda>_. True) (native_parse ty p) (\<lambda>r. length r \<le> length p)"
  unfolding native_parse_def
  by (auto intro!: runs_rules runs_bind[OF parse_new_specs_runs] runs_bind_lift simp: check_char_specs_defined simp del: ascii_simps)

interpretation checker: handler_contract "format_string_checker types named dynamic_names" "\<lambda>_. True" "\<lambda>_. True" for types named dynamic_names
proof (unfold_locales, goal_cases)
  case (1 tx)
  then show ?case by (simp add: format_string_checker_def runs_return)
next
  case 2
  then show ?case by (simp add: format_string_checker_def runs_defined compile_ops_defined)
next
  case (3 i)
  then show ?case by (auto simp: format_string_checker_def intro!: runs_defined defined_rules)
next
  case (4 n)
  then show ?case by (auto simp: format_string_checker_def intro!: runs_rules split: option.split if_splits)
next
  case (5 i p)
  then show ?case
    by (auto simp: format_string_checker_def checker_field_def intro!: runs_rules runs_bind[OF native_parse_runs] runs_bind[OF runs_defined[OF context_ops_defined(1)]])
next
  case (6 i p)
  then show ?case
    by (auto simp: format_string_checker_def checker_specs_def skip_specs_length intro!: runs_rules native_parse_runs runs_bind[OF runs_defined[OF context_ops_defined(1)]])
qed

subsection \<open>Formatting keeps the contract\<close>

definition writes_out :: "string set \<Rightarrow> writer \<Rightarrow> bool" where
  "writes_out E w \<longleftrightarrow> (\<exists>x. appends_out w x) \<or> (\<exists>m\<in>E. \<forall>out. w out = report_error m)"

definition null_error :: string where
  "null_error = ''string pointer is null''"

definition missing_error :: string where
  "missing_error = ''argument not found''"

text \<open>The errors a writer can report for an argument: a null string, and a numeric specification for a character.\<close>

definition format_errors :: "fmt_arg \<Rightarrow> 'a format_specs_scheme \<Rightarrow> string set" where
  "format_errors a sp =
     insert null_error (if arg_type a = char_type \<and> check_char_specs sp = report_error char_error then {char_error} else {})"

lemma writesI: "appends_out w x \<Longrightarrow> writes_out E w" "m \<in> E \<Longrightarrow> (\<And>out. w out = report_error m) \<Longrightarrow> writes_out E w"
  by (auto simp: writes_out_def)

lemma specs_ok_parts:
  assumes "specs_ok ty sp"
  shows "width_ok sp" "fill_ok sp" "-1 \<le> spec_precision sp" "pres_ok ty (spec_type sp)"
  using assms by (simp_all add: specs_ok_def width_ok_def fill_ok_def)

lemma integer_presentation:
  "ty \<in> {int_type, uint_type, long_long_type, ulong_long_type, int128_type, uint128_type} \<Longrightarrow> pres_ok ty (spec_type sp) \<Longrightarrow>
   number_type sp \<or> spec_type sp = pres_chr"
  by (auto simp: pres_ok_def number_type_def type_sets pres_defs)

lemma arg_formatter_writes:
  assumes "specs_ok (arg_type a) sp" "a \<noteq> arg_none"
  shows "writes_out (format_errors a sp) (arg_formatter np a sp)"
proof -
  note ok = specs_ok_parts[OF assms(1)]
  have int: "writes_out E (write_integer np sg v sp)"
    if "arg_type a \<in> {int_type, uint_type, long_long_type, ulong_long_type, int128_type, uint128_type}" for E sg and v :: "'b::len word"
    using appends_integer[OF ok(1-3) integer_presentation[OF that ok(4)], of np sg v] writesI(1) by blast
  show ?thesis
  proof (cases a)
    case (arg_bool b)
    then show ?thesis using appends_bool[OF ok(1-3), of np b] ok(4) writesI(1) by auto
  next
    case (arg_char c)
    then show ?thesis
      using appends_character[OF ok(1-3), of np c] ok(4) by (auto simp: writes_out_def format_errors_def)
  next
    case (arg_cstring addr s)
    show ?thesis
    proof (cases "spec_type sp = pres_pointer")
      case True
      then have "arg_formatter np a sp = fmt_write_ptr addr (Some sp)" by (simp add: arg_cstring write_cstring_def fun_eq_iff)
      then show ?thesis using appends_ptr(1)[OF ok(1,2)] writesI(1) by metis
    next
      case False
      then have "arg_formatter np a sp = (if addr = 0 then (\<lambda>out. report_error ''string pointer is null'') else write_string s sp)"
        by (simp add: arg_cstring write_cstring_def fun_eq_iff)
      then show ?thesis using appends_string[OF ok(1,2), of s] by (auto simp: writes_out_def format_errors_def null_error_def)
    qed
  next
    case (arg_string s)
    then show ?thesis using appends_string[OF ok(1,2), of s] writesI(1) by auto
  next
    case (arg_pointer p)
    then show ?thesis using appends_ptr(1)[OF ok(1,2), of p] writesI(1) by simp
  qed (use assms(2) int in simp_all)
qed

lemma new_specs_getters:
  "spec_type new_specs = 0" "spec_width new_specs = 0" "spec_precision new_specs = -1" "fill_size new_specs = 1" "fill_data new_specs = [32, 0, 0, 0]"
  by (simp_all add: new_specs_def new_format_specs_def basic_specs.defs new_basic_specs_def getter_defs get_bits_def mask_defs)

lemma default_formatter_writes: "writes_out {if a = arg_none then missing_error else null_error} (default_arg_formatter np a)"
proof -
  have ok: "width_ok new_specs" "fill_ok new_specs" "-1 \<le> spec_precision new_specs" "pres_ok bool_type (spec_type new_specs)"
    by (simp_all add: width_ok_def fill_ok_def new_specs_getters INT_MAX_def pres_ok_def)
  have i: "writes_out E (write_plain_integer sg v)" for E sg and v :: "'b::len word" using appends_plain_integer writesI(1) by blast
  have t: "writes_out E (\<lambda>out. Inr (out @ x))" for E x using writesI(1)[of _ x] by (simp add: appends_out_def)
  have e: "writes_out {missing_error} (\<lambda>out. report_error ''argument not found'')" "writes_out {null_error} (\<lambda>out. report_error ''string pointer is null'')"
    by (auto simp: writes_out_def missing_error_def null_error_def)
  show ?thesis
  proof (cases a)
    case (arg_bool b)
    then show ?thesis using appends_bool[OF ok, of np b] writesI(1) by auto
  next
    case (arg_cstring addr s)
    then show ?thesis using t[of _ s] e(2) by (cases "addr = 0") simp_all
  next
    case (arg_pointer p)
    then show ?thesis using appends_ptr(1)[OF ok(1,2), of p] writesI(1) by simp
  qed (use i t e in simp_all)
qed

lemma dynamic_spec_getter_defined: "dynamic_spec_getter a \<noteq> Inl Undefined"
  by (cases a) (simp_all add: report_error_def)

lemma get_dynamic_spec_result:
  assumes "args_of as args" "ref_ok kind r" "kind \<noteq> id_none"
  shows "get_dynamic_spec args kind r \<noteq> Inl Undefined \<and> (\<forall>v. get_dynamic_spec args kind r = Inr v \<longrightarrow> 0 \<le> v \<and> v \<le> INT_MAX)"
proof -
  have "\<exists>a. (case (kind, r) of (id_index, ref_index i) \<Rightarrow> get_arg_at args i | (id_name, ref_name n) \<Rightarrow> get_arg_named args n | _ \<Rightarrow> Inl Undefined) = Inr a"
    using assms get_arg_at_eq[OF assms(1)] by (auto simp: ref_ok_def get_arg_named_def split: arg_id_kind.splits arg_ref.splits)
  then obtain a where a: "(case (kind, r) of (id_index, ref_index i) \<Rightarrow> get_arg_at args i | (id_name, ref_name n) \<Rightarrow> get_arg_named args n | _ \<Rightarrow> Inl Undefined) = Inr a" ..
  show ?thesis
    unfolding get_dynamic_spec_def a using dynamic_spec_getter_defined[of a]
    by (auto simp: rbind_Inl_iff rbind_Inr_iff report_error_def split: if_splits)
qed

lemma resolve_dynamic_result:
  assumes "args_of as args" "specs_ok ty sp"
  shows "resolve_dynamic args sp \<noteq> Inl Undefined \<and> (\<forall>sp'. resolve_dynamic args sp = Inr sp' \<longrightarrow> specs_ok ty sp')"
proof -
  have refs: "ref_ok (dynamic_width sp) (width_ref sp)" "ref_ok (dynamic_precision sp) (precision_ref sp)" using assms(2) by (simp_all add: specs_ok_def)
  have w: "handle_dynamic_spec args (dynamic_width sp) (spec_width sp) (width_ref sp) = r \<Longrightarrow> r \<noteq> Inl Undefined \<and> (\<forall>v. r = Inr v \<longrightarrow> 0 \<le> v \<and> v \<le> INT_MAX)" for r
    using get_dynamic_spec_result[OF assms(1) refs(1)] assms(2) by (auto simp: handle_dynamic_spec_def specs_ok_def split: if_splits)
  have p: "handle_dynamic_spec args (dynamic_precision sp) (spec_precision sp) (precision_ref sp) = r \<Longrightarrow> r \<noteq> Inl Undefined \<and> (\<forall>v. r = Inr v \<longrightarrow> -1 \<le> v \<and> v \<le> INT_MAX)" for r
    using get_dynamic_spec_result[OF assms(1) refs(2)] assms(2) by (fastforce simp: handle_dynamic_spec_def specs_ok_def split: if_splits)
  have ok: "specs_ok ty (sp\<lparr>spec_width := v, spec_precision := q\<rparr>)" if "0 \<le> v" "v \<le> INT_MAX" "-1 \<le> q" "q \<le> INT_MAX" for v q
    using assms(2) that by (simp add: specs_ok_def spec_simps)
  show ?thesis
    using w p ok assms(2) by (auto simp: resolve_dynamic_def rbind_Inl_iff rbind_Inr_iff split: if_splits)
qed

lemma in_out_runs: "writes_out E w \<Longrightarrow> runs (\<lambda>_. C) (in_out w) (\<lambda>_. True)"
  by (auto simp: writes_out_def appends_out_def runs_def in_out_def report_error_def)

lemma in_parse_ctx_runs: "runs (\<lambda>_. True) m Q \<Longrightarrow> runs (\<lambda>_. C) (in_parse_ctx m) Q"
  by (auto simp: runs_def in_parse_ctx_def split: prod.split) (metis fst_conv)+

lemma format_with_specs_runs:
  assumes "0 \<le> i"
  shows "runs (\<lambda>_. \<exists>as. args_of as args) (format_with_specs args np i p) (\<lambda>r. length r \<le> length p)"
proof (cases "\<exists>as. args_of as args")
  case True
  then obtain as where as: "args_of as args" ..
  have arg: "get_arg args i \<noteq> Inl Undefined" "get_arg args i = Inr a \<Longrightarrow> a \<noteq> arg_none" for a
    using get_arg_at_eq[OF as assms] by (auto simp: get_arg_def report_error_def split: if_splits)
  show ?thesis
    unfolding format_with_specs_def
    using resolve_dynamic_result[OF as] arg(2)
    by (auto intro!: runs_bind_lift[OF arg(1)] runs_bind[OF in_parse_ctx_runs[OF parse_new_specs_runs]] runs_bind_lift
        runs_bind[OF in_out_runs[OF arg_formatter_writes]] runs_return)
qed (simp add: runs_def)

interpretation formatter: handler_contract "format_handler_of args np" "\<lambda>_. \<exists>as. args_of as args" "\<lambda>i. 0 \<le> i" for args np
proof (unfold_locales, goal_cases)
  case (1 tx)
  have "writes_out {} (\<lambda>out. Inr (out @ tx))" using writesI(1)[of _ tx] by (simp add: appends_out_def)
  then show ?case unfolding format_handler_of_def by (auto intro: in_out_runs)
next
  case 2
  have "runs (\<lambda>_. True) next_arg_id (\<lambda>i. 0 \<le> i)"
    using next_arg_id_defined(1) next_arg_id_nonneg unfolding runs_def defined_def by (metis prod.collapse)
  then show ?case by (simp add: format_handler_of_def in_parse_ctx_runs)
next
  case (3 i)
  have "runs (\<lambda>_. True) (sbind (check_arg_id i) (\<lambda>_. sreturn i)) (\<lambda>i. 0 \<le> i)"
    using 3 by (auto intro!: runs_bind[OF runs_defined] next_arg_id_defined runs_return)
  then show ?case by (simp add: format_handler_of_def in_parse_ctx_runs)
next
  case (4 n)
  then show ?case
    by (auto simp: format_handler_of_def intro!: runs_bind[OF in_parse_ctx_runs[OF runs_defined]] context_ops_defined runs_rules split: if_splits)
next
  case (5 i p)
  show ?case
  proof (cases "\<exists>as. args_of as args")
    case True
    then obtain as where as: "args_of as args" ..
    show ?thesis
      using get_arg_at_eq[OF as 5]
      by (auto simp: format_handler_of_def intro!: runs_bind_lift in_out_runs default_formatter_writes simp del: if_split)
  qed (simp add: runs_def)
next
  case (6 i p)
  then show ?case by (simp add: format_handler_of_def format_with_specs_runs)
qed

text \<open>
  C12. Formatting never has undefined behaviour: for every format string, however malformed, and any arguments, each read of the string, of an
  argument and of a table is in range and no assertion fails. The call returns or throws \<open>format_error\<close>; so does the check at compile time.
\<close>

theorem formatting_never_goes_wrong:
  assumes "make_format_args as = Inr args" "length as < 2 ^ 31" "\<forall>a\<in>set as. snd a \<noteq> arg_none"
  shows "fst (vformat_to buf fmt args np) \<noteq> Inl Undefined \<and> check_format_string fmt types named dynamic_names \<noteq> Inl Undefined"
proof -
  have "\<exists>as. args_of as args" using make_format_args_of[OF assms] by blast
  then have "fst (parse_format_string (format_handler_of args np) fmt s) \<noteq> Inl Undefined" for s
    using formatter.format_string_runs[of args np fmt] by (simp add: runs_def)
  moreover have "fst (parse_format_string (format_string_checker types named dynamic_names) fmt c) \<noteq> Inl Undefined" for c
    using checker.format_string_runs[of types named dynamic_names fmt] by (simp add: runs_def)
  ultimately show ?thesis by (simp add: vformat_to_def check_format_string_def case_prod_beta)
qed

theorem formatting_never_goes_wrong_witness:
  "\<exists>args. make_format_args sample_args = Inr args \<and>
     fst (vformat_to [] (str ''{:>{w}'') args \<lparr>np_grouping = [], np_thousands_sep = 0\<rparr>) \<noteq> Inl Undefined"
proof -
  obtain args where a: "make_format_args sample_args = Inr args" by (simp add: make_format_args_def sample_args_def)
  have h: "length sample_args < 2 ^ 31" "\<forall>a\<in>set sample_args. snd a \<noteq> arg_none" by (simp_all add: sample_args_def)
  show ?thesis using a formatting_never_goes_wrong[OF a h] by blast
qed

end
