(* ===== verification/Fmt_Checked.thy ===== *)
theory Fmt_Checked
  imports Fmt_Safety
begin

text \<open>
  The check of a format string at compile time against the formatting at run time. The two run the same parser with different handlers; that one
  follows the other is an interface of its own, and what a checked string can still do at run time is its consequence.
\<close>

subsection \<open>One run follows another\<close>

text \<open>When \<open>m\<close> returns, \<open>m'\<close> returns the same, or throws one of the errors \<open>E\<close>.\<close>

definition follows :: "('s \<Rightarrow> 't \<Rightarrow> bool) \<Rightarrow> string set \<Rightarrow> ('s, 'a) op \<Rightarrow> ('t, 'a) op \<Rightarrow> ('a \<Rightarrow> bool) \<Rightarrow> bool" where
  "follows R E m m' Q \<longleftrightarrow>
     (\<forall>s s' x t. R s s' \<longrightarrow> m s = (Inr x, t) \<longrightarrow>
        (\<exists>t'. m' s' = (Inr x, t') \<and> R t t' \<and> Q x) \<or> (\<exists>e\<in>E. \<exists>t'. m' s' = (report_error e, t')))"

lemma followsD:
  assumes "follows R E m m' Q" "R s s'" "m s = (Inr x, t)"
  obtains (same) t' where "m' s' = (Inr x, t')" "R t t'" "Q x" | (error) e t' where "e \<in> E" "m' s' = (report_error e, t')"
  using assms unfolding follows_def by blast

lemma follows_weaken: "follows R E m m' P \<Longrightarrow> (\<And>x. P x \<Longrightarrow> Q x) \<Longrightarrow> follows R E m m' Q"
  unfolding follows_def by blast

lemma follows_return: "Q x \<Longrightarrow> follows R E (sreturn x) (sreturn x) Q"
  by (simp add: follows_def sreturn_def)

lemma follows_lift: "(\<And>x. r = Inr x \<Longrightarrow> Q x) \<Longrightarrow> follows R E (slift r) (slift r) Q"
  by (auto simp: follows_def slift_def)

lemma follows_error: "follows R E (slift (report_error m)) m' Q"
  by (simp add: follows_def slift_def report_error_def)

lemma follows_bind:
  assumes "follows R E m m' P" "\<And>x. P x \<Longrightarrow> follows R E (f x) (f' x) Q"
  shows "follows R E (sbind m f) (sbind m' f') Q"
  unfolding follows_def
proof (intro allI impI)
  fix s s' y t assume R: "R s s'" and e: "sbind m f s = (Inr y, t)"
  then obtain x u where x: "m s = (Inr x, u)" "f x u = (Inr y, t)" by (auto simp: outcome_simps)
  show "(\<exists>t'. sbind m' f' s' = (Inr y, t') \<and> R t t' \<and> Q y) \<or> (\<exists>e\<in>E. \<exists>t'. sbind m' f' s' = (report_error e, t'))"
    using assms(1) R x(1)
  proof (cases rule: followsD)
    case (same u')
    then show ?thesis using assms(2)[of x] x(2) unfolding follows_def by simp
  next
    case (error e' t')
    then show ?thesis by (auto simp: report_error_def)
  qed
qed

lemma follows_if: "(b \<Longrightarrow> follows R E m m' Q) \<Longrightarrow> (\<not> b \<Longrightarrow> follows R E n n' Q) \<Longrightarrow> follows R E (if b then m else n) (if b then m' else n') Q"
  by simp

lemma follows_arg_id:
  assumes "\<And>i. 0 \<le> i \<Longrightarrow> follows R E (f i) (f' i) Q" "\<And>n. follows R E (g n) (g' n) Q"
  shows "follows R E (parse_arg_id f g p) (parse_arg_id f' g' p) (\<lambda>(a, _). Q a)"
proof (cases p)
  case Nil
  then show ?thesis by (simp add: parse_arg_id_def follows_def slift_def)
next
  case (Cons c rest)
  let ?m = "if c \<noteq> ascii CHR ''0'' then parse_nonnegative_int p INT_MAX else Inr (0, rest)"
  have nonneg: "0 \<le> i" if "?m = Inr (i, q)" for i q
    using that parse_nonnegative_int_range[of p INT_MAX i q] by (auto simp: INT_MAX_def split: if_splits)
  have "follows R E (sbind (slift ?m) (\<lambda>(i, q). if q = [] \<or> hd q \<noteq> ascii CHR ''}'' \<and> hd q \<noteq> ascii CHR '':''
      then slift (report_error ''invalid format string'') else sbind (f i) (\<lambda>a. sreturn (a, q))))
     (sbind (slift ?m) (\<lambda>(i, q). if q = [] \<or> hd q \<noteq> ascii CHR ''}'' \<and> hd q \<noteq> ascii CHR '':''
      then slift (report_error ''invalid format string'') else sbind (f' i) (\<lambda>a. sreturn (a, q)))) (\<lambda>(a, _). Q a)"
  proof (rule follows_bind[OF follows_lift[where Q = "\<lambda>(i, q). 0 \<le> i"]])
    show "?m = Inr x \<Longrightarrow> case x of (i, q) \<Rightarrow> 0 \<le> i" for x using nonneg by (cases x) blast
  qed (auto intro!: follows_error follows_bind[OF assms(1)] follows_return simp del: ascii_simps)
  then show ?thesis
    unfolding parse_arg_id_def Cons Let_def
    by (auto intro!: follows_error follows_bind[OF assms(2)] follows_return simp del: ascii_simps)
qed

subsection \<open>Handlers that follow each other\<close>

locale handler_sim =
  fixes h :: "'s format_handler_ops" and h' :: "'t format_handler_ops" and R :: "'s \<Rightarrow> 't \<Rightarrow> bool" and E :: "string set" and valid :: "int \<Rightarrow> bool"
  assumes text_follows: "follows R E (on_text h tx) (on_text h' tx) (\<lambda>_. True)"
    and auto_follows: "follows R E (on_auto_id h) (on_auto_id h') valid"
    and index_follows: "0 \<le> i \<Longrightarrow> follows R E (on_index_id h i) (on_index_id h' i) valid"
    and name_follows: "follows R E (on_name_id h n) (on_name_id h' n) valid"
    and field_follows: "valid i \<Longrightarrow> q \<noteq> [] \<Longrightarrow> hd q = ascii CHR ''}'' \<Longrightarrow> follows R E (on_replacement_field h i q) (on_replacement_field h' i q) (\<lambda>_. True)"
    and specs_follow: "valid i \<Longrightarrow> follows R E (on_format_specs h i p) (on_format_specs h' i p) (\<lambda>_. True)"
begin

lemma field_specs_follow: "valid i \<Longrightarrow> follows R E (parse_field_specs h i p) (parse_field_specs h' i p) (\<lambda>_. True)"
  unfolding parse_field_specs_def
  by (rule follows_bind[OF specs_follow]) (auto intro!: follows_error follows_lift follows_return simp del: ascii_simps)

lemma field_done:
  "valid i \<Longrightarrow> q \<noteq> [] \<Longrightarrow> hd q = ascii CHR ''}'' \<Longrightarrow>
   follows R E (sbind (on_replacement_field h i q) (\<lambda>_. sreturn r)) (sbind (on_replacement_field h' i q) (\<lambda>_. sreturn r)) (\<lambda>_. True)"
  by (rule follows_bind[OF field_follows]) (auto intro!: follows_return)

lemma replacement_field_follows: "follows R E (parse_replacement_field h p) (parse_replacement_field h' p) (\<lambda>_. True)"
proof (cases p)
  case Nil
  then show ?thesis by (simp add: parse_replacement_field_def follows_error)
next
  case (Cons c rest)
  have id: "follows R E (sbind (parse_arg_id (on_index_id h) (on_name_id h) p) (\<lambda>(i, q).
      if q \<noteq> [] \<and> hd q = ascii CHR ''}'' then sbind (on_replacement_field h i q) (\<lambda>_. sreturn (tl q))
      else if q = [] \<or> hd q \<noteq> ascii CHR '':'' then slift (report_error ''missing '}' in format string'') else parse_field_specs h i (tl q)))
    (sbind (parse_arg_id (on_index_id h') (on_name_id h') p) (\<lambda>(i, q).
      if q \<noteq> [] \<and> hd q = ascii CHR ''}'' then sbind (on_replacement_field h' i q) (\<lambda>_. sreturn (tl q))
      else if q = [] \<or> hd q \<noteq> ascii CHR '':'' then slift (report_error ''missing '}' in format string'') else parse_field_specs h' i (tl q))) (\<lambda>_. True)"
    by (rule follows_bind[OF follows_arg_id[OF index_follows name_follows]])
      (auto intro!: follows_error field_done field_specs_follow simp del: ascii_simps)
  have close: "follows R E (sbind (on_auto_id h) (\<lambda>i. sbind (on_replacement_field h i p) (\<lambda>_. sreturn rest)))
      (sbind (on_auto_id h') (\<lambda>i. sbind (on_replacement_field h' i p) (\<lambda>_. sreturn rest))) (\<lambda>_. True)" if "c = ascii CHR ''}''"
    using that Cons by (intro follows_bind[OF auto_follows] field_done) simp_all
  show ?thesis
    unfolding parse_replacement_field_def using id close Cons
    by (auto intro!: follows_bind[OF text_follows] follows_bind[OF auto_follows] follows_return field_specs_follow simp del: ascii_simps)
qed

lemma loop_follows:
  "R s s' \<Longrightarrow> format_loop h tx p s = (Inr x, t) \<Longrightarrow>
   (\<exists>t'. format_loop h' tx p s' = (Inr x, t') \<and> R t t') \<or> (\<exists>e\<in>E. \<exists>t'. format_loop h' tx p s' = (report_error e, t'))"
proof (induction "length p" arbitrary: p tx s s' rule: less_induct)
  case less
  show ?case
  proof (cases p)
    case Nil
    then show ?thesis using less.prems text_follows[of tx] by (simp add: follows_def format_loop.simps)
  next
    case (Cons c q)
    have open_case: ?thesis if c: "c = ascii CHR ''{''"
    proof -
      obtain y u z r where 1: "on_text h tx s = (Inr y, u)" "parse_replacement_field h q u = (Inr r, z)" "format_loop h [] r z = (Inr x, t)"
        using less.prems(2) c Cons by (auto simp: format_loop.simps split: prod.splits sum.splits)
      show ?thesis
        using text_follows less.prems(1) 1(1)
      proof (cases rule: followsD)
        case (same u')
        show ?thesis
          using replacement_field_follows same(2) 1(2)
        proof (cases rule: followsD)
          case (same z')
          have "length r < length p" using parse_replacement_field_shorter[OF 1(2)] Cons by simp
          from less.hyps[OF this same(2) 1(3)] show ?thesis using c Cons same(1) \<open>on_text h' tx s' = (Inr y, u')\<close> by (simp add: format_loop.simps)
        next
          case (error e t')
          then show ?thesis using c Cons same(1) by (auto simp: format_loop.simps report_error_def)
        qed
      next
        case (error e t')
        then show ?thesis using c Cons by (auto simp: format_loop.simps report_error_def)
      qed
    qed
    have close_case: ?thesis if c: "c = ascii CHR ''}''"
    proof -
      obtain y u where 1: "q \<noteq> []" "hd q = ascii CHR ''}''" "on_text h (tx @ [c]) s = (Inr y, u)" "format_loop h [] (tl q) u = (Inr x, t)"
        using less.prems(2) c Cons by (auto simp: format_loop.simps slift_def report_error_def split: prod.splits sum.splits if_splits)
      show ?thesis
        using text_follows less.prems(1) 1(3)
      proof (cases rule: followsD)
        case (same u')
        have "length (tl q) < length p" using Cons by simp
        from less.hyps[OF this same(2) 1(4)] show ?thesis using c Cons same(1) 1(1,2) by (auto simp: format_loop.simps)
      next
        case (error e t')
        then show ?thesis using c Cons 1(1,2) by (auto simp: format_loop.simps report_error_def)
      qed
    qed
    show ?thesis
      using open_case close_case less.hyps[of q s s' "tx @ [c]"] less.prems Cons
      by (cases "c = ascii CHR ''{'' \<or> c = ascii CHR ''}''") (auto simp: format_loop.simps)
  qed
qed

end

subsection \<open>The parser without the checks follows the parser with them\<close>

definition ctx_rel :: "fmt_type list \<Rightarrow> parse_context \<Rightarrow> parse_context \<Rightarrow> bool" where
  "ctx_rel types c d \<longleftrightarrow> pc_types c = Some types \<and> pc_types d = None \<and> pc_next_arg_id c = pc_next_arg_id d"

lemma ctx_ops_follow:
  "follows (ctx_rel types) {} (do_check_arg_id i) (sreturn ()) (\<lambda>_. i < int (length types))"
  "follows (ctx_rel types) {} (check_dynamic_spec i) (check_dynamic_spec i) (\<lambda>_. True)"
  "follows (ctx_rel types) {} (check_arg_name n) (check_arg_name n) (\<lambda>_. True)"
  "follows (ctx_rel types) {} (advance_to p) (sreturn ()) (\<lambda>_. True)"
  by (auto simp: follows_def ctx_rel_def do_check_arg_id_def check_dynamic_spec_def check_arg_name_def advance_to_def slift_def sreturn_def
      supdate_def report_error_def split: if_splits)

lemma next_arg_id_follows:
  "follows (ctx_rel types) {} next_arg_id next_arg_id (\<lambda>i. 0 \<le> i \<and> i < int (length types))"
  by (auto simp: follows_def ctx_rel_def next_arg_id_def do_check_arg_id_def slift_def sreturn_def outcome_simps sget_def supdate_def report_error_def
      split: if_splits)

lemma check_arg_id_follows:
  "follows (ctx_rel types) {} (check_arg_id i) (check_arg_id i) (\<lambda>_. i < int (length types))"
  by (auto simp: follows_def ctx_rel_def check_arg_id_def do_check_arg_id_def slift_def sreturn_def outcome_simps sget_def supdate_def report_error_def
      split: if_splits)

lemma dynamic_handlers_follow:
  "follows (ctx_rel types) {} (dynamic_on_index i) (dynamic_on_index i) (\<lambda>_. True)"
  "follows (ctx_rel types) {} (dynamic_on_name n) (dynamic_on_name n) (\<lambda>_. True)"
  unfolding dynamic_on_index_def dynamic_on_name_def
  by (rule follows_bind[OF check_arg_id_follows] follows_bind[OF ctx_ops_follow(2)] follows_bind[OF ctx_ops_follow(3)] follows_return TrueI)+

lemma parse_dynamic_ref_follows: "follows (ctx_rel types) {} (parse_dynamic_ref p q) (parse_dynamic_ref p q) (\<lambda>_. True)"
proof -
  have "follows (ctx_rel types) {} (parse_arg_id dynamic_on_index dynamic_on_name p) (parse_arg_id dynamic_on_index dynamic_on_name p) (\<lambda>_. True)" for p
    by (rule follows_weaken[OF follows_arg_id[where Q = "\<lambda>_. True"]]) (auto intro: dynamic_handlers_follow)
  then show ?thesis
    unfolding parse_dynamic_ref_def
    by (auto intro!: follows_return follows_bind[OF next_arg_id_follows] follows_bind[OF ctx_ops_follow(2)] simp del: ascii_simps split: list.split)
qed

lemma parse_dynamic_spec_follows: "follows (ctx_rel types) {} (parse_dynamic_spec p v q) (parse_dynamic_spec p v q) (\<lambda>_. True)"
  unfolding parse_dynamic_spec_def
  by (auto intro!: follows_return follows_error follows_lift follows_bind[OF parse_dynamic_ref_follows] follows_bind[OF follows_lift[where Q = "\<lambda>_. True"]]
      simp del: ascii_simps split: list.split)

lemma parse_width_follows: "follows (ctx_rel types) {} (parse_width p sp) (parse_width p sp) (\<lambda>_. True)"
  unfolding parse_width_def by (auto intro!: follows_return follows_bind[OF parse_dynamic_spec_follows])

lemma parse_precision_follows: "follows (ctx_rel types) {} (parse_precision p sp) (parse_precision p sp) (\<lambda>_. True)"
  unfolding parse_precision_def by (auto intro!: follows_return follows_error follows_bind[OF parse_dynamic_spec_follows])

lemma spec_step_follows: "follows (ctx_rel types) {} (specs_step ty c b rest cur sp) (specs_step ty c b rest cur sp) (\<lambda>_. True)"
proof -
  have l: "follows (ctx_rel types) {} (slift r) (slift r) (\<lambda>_. True)" for r :: "'a result" by (rule follows_lift) simp
  have w: "follows (ctx_rel types) {} (sbind (slift r) (\<lambda>cur. sbind (parse_width p sp) (\<lambda>(q, sp). sreturn (Go q cur sp))))
      (sbind (slift r) (\<lambda>cur. sbind (parse_width p sp) (\<lambda>(q, sp). sreturn (Go q cur sp)))) (\<lambda>_. True)"
    and v: "follows (ctx_rel types) {} (sbind (slift r) (\<lambda>cur. sbind (parse_precision p sp) (\<lambda>(q, sp). sreturn (Go q cur sp))))
      (sbind (slift r) (\<lambda>cur. sbind (parse_precision p sp) (\<lambda>(q, sp). sreturn (Go q cur sp)))) (\<lambda>_. True)" for p r
    by (rule follows_bind[OF follows_lift[where Q = "\<lambda>_. True"]]; auto intro!: follows_bind[OF parse_width_follows] follows_bind[OF parse_precision_follows] follows_return)+
  have t: "follows (ctx_rel types) {} (case presentation_turn ty c rest sp of Some r \<Rightarrow> slift r
      | None \<Rightarrow> if c = ascii CHR ''}'' then sreturn (Stop (b # rest) sp) else slift (fill_turn b rest cur sp))
     (case presentation_turn ty c rest sp of Some r \<Rightarrow> slift r
      | None \<Rightarrow> if c = ascii CHR ''}'' then sreturn (Stop (b # rest) sp) else slift (fill_turn b rest cur sp)) (\<lambda>_. True)"
    by (cases "presentation_turn ty c rest sp") (auto intro!: follows_return follows_lift simp del: ascii_simps)
  show ?thesis unfolding specs_step_def by (intro follows_if l w v t)
qed

lemma specs_loop_follows:
  "ctx_rel types c d \<Longrightarrow> specs_loop ty ch p cur sp c = (Inr x, c') \<Longrightarrow> \<exists>d'. specs_loop ty ch p cur sp d = (Inr x, d') \<and> ctx_rel types c' d'"
proof (induction ty ch p cur sp c arbitrary: d rule: specs_loop.induct)
  case (2 ty ch b rest cur sp c)
  obtain turn u where st: "specs_step ty ch b rest cur sp c = (Inr turn, u)"
    using "2.prems"(2) by (auto simp: specs_loop.simps split: prod.splits sum.splits)
  then obtain d' where d: "specs_step ty ch b rest cur sp d = (Inr turn, d')" "ctx_rel types u d'"
    using spec_step_follows[of types ty ch b rest cur sp] "2.prems"(1) unfolding follows_def by blast
  show ?case
  proof (cases turn)
    case (Stop r sp2)
    then show ?thesis using "2.prems" st d by (auto simp: specs_loop.simps)
  next
    case (Go r cur2 sp2)
    then show ?thesis using "2.prems" "2.IH"[OF st[symmetric] refl, of r cur2 sp2 d'] st d by (auto simp: specs_loop.simps split: if_splits)
  qed
qed (simp add: specs_loop.simps)

lemma parse_format_specs_follows: "follows (ctx_rel types) {} (parse_format_specs ty p sp) (parse_format_specs ty p sp) (\<lambda>_. True)"
  unfolding parse_format_specs_def using specs_loop_follows by (fastforce simp: follows_def sreturn_def split: list.split)

subsection \<open>Formatting follows the check\<close>

text \<open>What depends on the values of the arguments, or on names, is not checked at compile time.\<close>

definition unchecked_errors :: "string set" where
  "unchecked_errors =
     {''width/precision is out of range'', ''width/precision is not integer'', ''argument not found'', ''string pointer is null''}"

definition run_rel :: "fmt_arg list \<Rightarrow> format_args \<Rightarrow> parse_context \<Rightarrow> format_handler \<Rightarrow> bool" where
  "run_rel as args c s \<longleftrightarrow> args_of as args \<and> ctx_rel (map arg_type as) c (fh_parse_ctx s)"

lemma in_parse_ctx_follows:
  "follows (ctx_rel (map arg_type as)) {} m m' Q \<Longrightarrow> follows (run_rel as args) E m (in_parse_ctx m') Q"
  unfolding follows_def run_rel_def in_parse_ctx_def by (fastforce split: prod.split)

lemma in_out_follows:
  assumes "(\<exists>x. appends_out w x) \<or> (\<exists>e\<in>E. \<forall>out. w out = report_error e)"
  shows "follows (run_rel as args) E (sreturn ()) (in_out w) (\<lambda>_. True)"
  using assms by (auto simp: follows_def run_rel_def in_out_def appends_out_def sreturn_def report_error_def)

lemma sbind_sreturn: "sbind m sreturn = m"
  by (auto simp: sbind_def sreturn_def fun_eq_iff split: prod.split sum.split)

lemma sbind_known: "sbind (sreturn x) f = f x" "sbind (slift (Inr x)) f = f x"
  by (simp_all add: sbind_def sreturn_def slift_def fun_eq_iff)

lemma compile_next_follows:
  "follows (ctx_rel types) {} compile_next_arg_id next_arg_id (\<lambda>i. 0 \<le> i \<and> i < int (length types))"
proof -
  have "follows (ctx_rel types) {} (sbind (do_check_arg_id i) (\<lambda>_. sreturn i)) (sreturn i) (\<lambda>j. j = i)" for i
    by (auto simp: follows_def ctx_rel_def do_check_arg_id_def slift_def sreturn_def outcome_simps sget_def report_error_def split: if_splits)
  then have "follows (ctx_rel types) {} compile_next_arg_id (sbind next_arg_id sreturn) (\<lambda>i. 0 \<le> i \<and> i < int (length types))"
    unfolding compile_next_arg_id_def by (intro follows_bind[OF next_arg_id_follows]) (auto intro: follows_weaken)
  then show ?thesis by (simp only: sbind_sreturn)
qed

lemma compile_check_follows:
  "0 \<le> i \<Longrightarrow> follows (ctx_rel types) {} (sbind (compile_check_arg_id i) (\<lambda>_. sreturn i)) (sbind (check_arg_id i) (\<lambda>_. sreturn i)) (\<lambda>i. 0 \<le> i \<and> i < int (length types))"
  by (auto simp: follows_def ctx_rel_def compile_check_arg_id_def check_arg_id_def do_check_arg_id_def slift_def sreturn_def outcome_simps sget_def
      supdate_def report_error_def split: if_splits)

lemma writes_unchecked: "writes_out {null_error} w \<Longrightarrow> (\<exists>x. appends_out w x) \<or> (\<exists>e\<in>unchecked_errors. \<forall>out. w out = report_error e)"
  by (auto simp: writes_out_def unchecked_errors_def null_error_def)

lemma default_formatter_checked: "a \<noteq> arg_none \<Longrightarrow> writes_out {null_error} (default_arg_formatter np a)"
  using default_formatter_writes[of a np] by simp

lemma arg_formatter_checked:
  "specs_ok (arg_type a) sp \<Longrightarrow> a \<noteq> arg_none \<Longrightarrow> (arg_type a = char_type \<Longrightarrow> check_char_specs sp \<noteq> report_error char_error) \<Longrightarrow>
   writes_out {null_error} (arg_formatter np a sp)"
  using arg_formatter_writes[of a sp np] by (cases "arg_type a = char_type") (auto simp: format_errors_def)

lemma resolve_dynamic_errors:
  assumes "args_of as args" "specs_ok ty sp" "resolve_dynamic args sp = Inl x"
  shows "\<exists>e\<in>unchecked_errors. x = Thrown (runtime_error e)"
proof -
  have g: "\<exists>e\<in>unchecked_errors. y = Thrown (runtime_error e)" if y: "get_dynamic_spec args k r = Inl y" and r: "ref_ok k r" "k \<noteq> id_none" for k r y
  proof -
    have "\<exists>a. (case (k, r) of (id_index, ref_index i) \<Rightarrow> get_arg_at args i | (id_name, ref_name n) \<Rightarrow> get_arg_named args n | _ \<Rightarrow> Inl Undefined) = Inr a"
      using r get_arg_at_eq[OF assms(1)] by (auto simp: ref_ok_def get_arg_named_def split: arg_id_kind.splits arg_ref.splits)
    then obtain a where a: "(case (k, r) of (id_index, ref_index i) \<Rightarrow> get_arg_at args i | (id_name, ref_name n) \<Rightarrow> get_arg_named args n | _ \<Rightarrow> Inl Undefined) = Inr a" ..
    have "dynamic_spec_getter a = Inl z \<Longrightarrow> z = Thrown (runtime_error ''width/precision is not integer'')" for z by (cases a) (simp_all add: report_error_def)
    then show ?thesis using y unfolding get_dynamic_spec_def a by (auto simp: rbind_Inl_iff report_error_def unchecked_errors_def split: if_splits)
  qed
  have refs: "ref_ok (dynamic_width sp) (width_ref sp)" "ref_ok (dynamic_precision sp) (precision_ref sp)" using assms(2) by (simp_all add: specs_ok_def)
  show ?thesis
    using assms(3) g[OF _ refs(1)] g[OF _ refs(2)] by (auto simp: resolve_dynamic_def handle_dynamic_spec_def rbind_Inl_iff split: if_splits)
qed

text \<open>An empty specification.\<close>

lemma parse_empty_specs:
  assumes "p = [] \<or> hd p = ascii CHR ''}''"
  shows "parse_format_specs ty p sp c = (Inr (p, sp), c)"
proof (cases p)
  case Nil
  then show ?thesis by (simp add: parse_format_specs_def sreturn_def)
next
  case (Cons b rest)
  then have b: "b = 125" using assms by simp
  have none: "presentation_turn ty ch rest sp = None" "ch \<notin> set (str ''<>^'')" "ch \<notin> set (str ''+ -'')" "ch \<notin> set (str ''123456789{'')"
    "ch \<noteq> 35" "ch \<noteq> 48" "ch \<noteq> 46" "ch \<noteq> 76" if "ch = 125 \<or> ch = 0" for ch
    using that by (auto simp: presentation_turn_def str_def)
  have step: "specs_step ty ch b rest st_start sp c = (Inr (Stop (b # rest) sp), c)" if "ch = 125 \<or> ch = 0" for ch
    using none[OF that] by (simp add: specs_step_def slift_def sreturn_def fill_turn_def b)
  have "specs_loop ty ch (b # rest) st_start sp c = (Inr (b # rest, sp), c)" if "ch = 125 \<or> ch = 0" for ch
    using step[OF that] by (simp add: specs_loop.simps)
  then show ?thesis using Cons b by (auto simp: parse_format_specs_def split: list.split)
qed

lemma check_char_specs_resolved: "check_char_specs (sp\<lparr>spec_width := w, spec_precision := q\<rparr>) = check_char_specs sp"
  by (simp add: check_char_specs_def spec_simps)

lemma new_specs_char: "check_char_specs new_dynamic_specs = Inr True"
  by (simp add: check_char_specs_def pres_defs)

text \<open>The rest of \<open>on_format_specs\<close>, once the specification is parsed.\<close>

definition format_parsed :: "format_args \<Rightarrow> numpunct \<Rightarrow> fmt_arg \<Rightarrow> bytes \<times> dynamic_format_specs \<Rightarrow> (format_handler, bytes) op" where
  "format_parsed args np arg = (\<lambda>(r, sp).
     sbind (slift (resolve_dynamic args sp)) (\<lambda>sp. sbind (in_out (arg_formatter np arg sp)) (\<lambda>_. sreturn r)))"

lemma format_parsed_follows:
  assumes "specs_ok (arg_type a) sp" "a \<noteq> arg_none" "arg_type a = char_type \<Longrightarrow> check_char_specs sp \<noteq> report_error char_error"
  shows "follows (run_rel as args) unchecked_errors (sreturn r) (format_parsed args np a (r, sp)) (\<lambda>x. x = r)"
  unfolding follows_def
proof (intro allI impI)
  fix c s x c' assume R: "run_rel as args c s" and x: "sreturn r c = (Inr x, c')"
  then have x: "x = r" "c' = c" by (auto simp: sreturn_def)
  have as: "args_of as args" using R by (simp add: run_rel_def)
  show "(\<exists>t'. format_parsed args np a (r, sp) s = (Inr x, t') \<and> run_rel as args c' t' \<and> x = r) \<or>
      (\<exists>e\<in>unchecked_errors. \<exists>t'. format_parsed args np a (r, sp) s = (report_error e, t'))"
  proof (cases "resolve_dynamic args sp")
    case (Inl y)
    then obtain e where "e \<in> unchecked_errors" "y = Thrown (runtime_error e)" using resolve_dynamic_errors[OF as assms(1)] by blast
    then show ?thesis using Inl by (auto simp: format_parsed_def report_error_def)
  next
    case (Inr sp2)
    have ok: "specs_ok (arg_type a) sp2" using resolve_dynamic_result[OF as assms(1)] Inr by blast
    have "check_char_specs sp2 = check_char_specs sp"
      using Inr by (auto simp: resolve_dynamic_def rbind_Inr_iff check_char_specs_resolved split: if_splits)
    then have "writes_out {null_error} (arg_formatter np a sp2)" using arg_formatter_checked[OF ok assms(2)] assms(3) by simp
    then have "follows (run_rel as args) unchecked_errors (sreturn ()) (in_out (arg_formatter np a sp2)) (\<lambda>_. True)"
      by (rule in_out_follows[OF writes_unchecked])
    then have "follows (run_rel as args) unchecked_errors (sbind (sreturn ()) (\<lambda>_. sreturn r))
        (sbind (in_out (arg_formatter np a sp2)) (\<lambda>_. sreturn r)) (\<lambda>x. x = r)"
      by (rule follows_bind) (rule follows_return, rule refl)
    then show ?thesis
      using Inr R x unfolding follows_def by (simp add: format_parsed_def sbind_def sreturn_def slift_def)
  qed
qed

lemma parsed_specs_follow:
  "follows (ctx_rel types) {} (parse_format_specs ty p new_dynamic_specs) (parse_format_specs ty p new_dynamic_specs) (\<lambda>(r, sp). specs_ok ty sp)"
  using parse_format_specs_follows[of types ty p new_dynamic_specs] parse_format_specs_ok[OF _ new_dynamic_specs_ok, of ty p]
  unfolding follows_def by (fastforce split: prod.split)

lemma native_parse_follows:
  assumes "a \<noteq> arg_none"
  shows "follows (run_rel as args) unchecked_errors (native_parse (arg_type a) p)
    (sbind (in_parse_ctx (parse_format_specs (arg_type a) p new_dynamic_specs)) (format_parsed args np a)) (\<lambda>_. True)"
proof (cases "p = [] \<or> hd p = ascii CHR ''}''")
  case True
  have "sbind (in_parse_ctx (parse_format_specs (arg_type a) p new_dynamic_specs)) (format_parsed args np a) = format_parsed args np a (p, new_dynamic_specs)"
    using parse_empty_specs[OF True] by (simp add: fun_eq_iff sbind_def in_parse_ctx_def)
  moreover have "follows (run_rel as args) unchecked_errors (sreturn p) (format_parsed args np a (p, new_dynamic_specs)) (\<lambda>_. True)"
    by (rule follows_weaken[OF format_parsed_follows[OF new_dynamic_specs_ok assms]]) (simp_all add: new_specs_char report_error_def)
  ultimately show ?thesis using True by (auto simp: native_parse_def simp del: ascii_simps)
next
  case False
  have "follows (run_rel as args) unchecked_errors
      (if arg_type a = char_type then sbind (slift (check_char_specs sp)) (\<lambda>_. sreturn r) else sreturn r) (format_parsed args np a (r, sp)) (\<lambda>_. True)"
    if ok: "specs_ok (arg_type a) sp" for r sp
  proof (cases "arg_type a = char_type \<and> (\<forall>b. check_char_specs sp \<noteq> Inr b)")
    case True
    then obtain e where "check_char_specs sp = Inl e" by (cases "check_char_specs sp") auto
    then show ?thesis using True by (simp add: follows_def)
  next
    case False
    then have "(if arg_type a = char_type then sbind (slift (check_char_specs sp)) (\<lambda>_. sreturn r) else sreturn r) = (sreturn r :: (parse_context, bytes) op)"
      by (auto simp: sbind_def slift_def sreturn_def)
    moreover have "arg_type a = char_type \<Longrightarrow> check_char_specs sp \<noteq> report_error char_error" using False by (auto simp: report_error_def)
    ultimately show ?thesis using follows_weaken[OF format_parsed_follows[OF ok assms]] by simp
  qed
  then show ?thesis
    using False unfolding native_parse_def
    by (auto intro!: follows_bind[OF in_parse_ctx_follows[OF parsed_specs_follow]] simp del: ascii_simps)
qed

lemma follows_advance: "follows (run_rel as args) E (f ()) m Q \<Longrightarrow> follows (run_rel as args) E (sbind (advance_to p) f) m Q"
  unfolding follows_def by (simp add: sbind_def advance_to_def supdate_def) (smt (verit) ctx_rel_def run_rel_def parse_context.simps parse_context.surjective parse_context.update_convs)

text \<open>The argument that the run reads is the one that was checked.\<close>

lemma follows_argument:
  assumes "0 \<le> i" "i < int (length as)"
    "as ! nat i \<noteq> arg_none \<Longrightarrow> get_arg_at args i = Inr (as ! nat i) \<Longrightarrow> get_arg args i = Inr (as ! nat i) \<Longrightarrow> follows (run_rel as args) E m m' Q"
  shows "follows (run_rel as args) E m m' Q"
proof (cases "args_of as args")
  case True
  have n: "nat i < length as" using assms by linarith
  then have "as ! nat i \<noteq> arg_none" using True nth_mem[OF n] unfolding args_of_def by metis
  then show ?thesis using assms(3) get_arg_at_eq[OF True assms(1)] n by (simp add: get_arg_def)
qed (simp add: follows_def run_rel_def)

interpretation checked: handler_sim "format_string_checker (map arg_type as) [] False" "format_handler_of args np" "run_rel as args" unchecked_errors
    "\<lambda>i. 0 \<le> i \<and> i < int (length as)" for as args np
proof (unfold_locales, goal_cases)
  case (1 tx)
  have "(\<exists>x. appends_out (\<lambda>out. Inr (out @ tx)) x) \<or> (\<exists>e\<in>unchecked_errors. \<forall>out. (Inr (out @ tx) :: bytes result) = report_error e)"
    by (auto simp: appends_out_def)
  then show ?case by (auto simp: format_string_checker_def format_handler_of_def intro: in_out_follows)
next
  case 2
  then show ?case using in_parse_ctx_follows[OF compile_next_follows] by (simp add: format_string_checker_def format_handler_of_def)
next
  case (3 i)
  then show ?case using in_parse_ctx_follows[OF compile_check_follows[OF 3, of "map arg_type as"]] by (simp add: format_string_checker_def format_handler_of_def)
next
  case (4 n)
  then show ?case by (simp add: format_string_checker_def follows_error)
next
  case (5 i q)
  then have i: "0 \<le> i" "i < int (length as)" by simp_all
  show ?case
  proof (rule follows_argument[OF i])
    assume a: "as ! nat i \<noteq> arg_none" "get_arg_at args i = Inr (as ! nat i)"
    have "follows (run_rel as args) unchecked_errors (sreturn ()) (in_out (default_arg_formatter np (as ! nat i))) (\<lambda>_. True)"
      by (rule in_out_follows[OF writes_unchecked[OF default_formatter_checked[OF a(1)]]])
    then show "follows (run_rel as args) unchecked_errors (on_replacement_field (format_string_checker (map arg_type as) [] False) i q)
      (on_replacement_field (format_handler_of args np) i q) (\<lambda>_. True)"
      using a(2) i 5 by (auto simp: format_string_checker_def format_handler_of_def checker_field_def native_parse_def sbind_known intro!: follows_advance simp del: ascii_simps)
  qed
next
  case (6 i p)
  then have i: "0 \<le> i" "i < int (length as)" by simp_all
  show ?case
  proof (rule follows_argument[OF i])
    assume a: "as ! nat i \<noteq> arg_none" "get_arg args i = Inr (as ! nat i)"
    have "format_with_specs args np i p =
        sbind (in_parse_ctx (parse_format_specs (arg_type (as ! nat i)) p new_dynamic_specs)) (format_parsed args np (as ! nat i))"
      using a(2) by (simp add: format_with_specs_def format_parsed_def[abs_def] split_def sbind_known)
    moreover have "nat i < length as" using i by linarith
    ultimately show "follows (run_rel as args) unchecked_errors (on_format_specs (format_string_checker (map arg_type as) [] False) i p)
      (on_format_specs (format_handler_of args np) i p) (\<lambda>_. True)"
      using native_parse_follows[OF a(1)] i
      by (auto simp: format_string_checker_def format_handler_of_def checker_specs_def intro!: follows_advance)
  qed
qed

text \<open>
  C13. What the compiler accepted formats, for arguments none of which has a name: when the check of a format string against the types of
  the arguments succeeds, formatting these arguments at run time returns, or throws one of four errors that depend on the values or on
  names in the string: a width or precision argument out of range or not an integer, an argument that is not found by its name, or a
  null string pointer. Every other error is excluded. (With named arguments it is not: \<open>name_then_automatic\<close> below.)
\<close>

theorem checked_strings_format:
  assumes "make_format_args (map (Pair None) as) = Inr args" "length as < 2 ^ 31" "arg_none \<notin> set as"
    and "check_format_string fmt (map arg_type as) [] False = Inr ()"
  shows "fst (vformat_to buf fmt args np) = Inr () \<or> (\<exists>e\<in>unchecked_errors. fst (vformat_to buf fmt args np) = report_error e)"
proof -
  have "\<forall>a\<in>set (map (Pair (None :: bytes option)) as). snd a \<noteq> arg_none" using assms(3) by auto
  then have "args_of as args" using make_format_args_of[OF assms(1)] assms(2) by (simp add: comp_def)
  then have R: "run_rel as args (new_compile_context fmt (map arg_type as)) \<lparr>fh_parse_ctx = new_parse_context fmt, fh_out = buf\<rparr>"
    by (simp add: run_rel_def ctx_rel_def new_compile_context_def new_parse_context_def)
  obtain c where "format_loop (format_string_checker (map arg_type as) [] False) [] fmt (new_compile_context fmt (map arg_type as)) = (Inr (), c)"
    using assms(4) by (metis check_format_string_def parse_format_string_def prod.collapse)
  from checked.loop_follows[OF R this, of np] show ?thesis by (auto simp: vformat_to_def parse_format_string_def)
qed

theorem checked_strings_format_witness:
  "\<exists>args. make_format_args (map (Pair None) [arg_uint 7, arg_bool True]) = Inr args \<and>
     (fst (vformat_to [] (str ''{:>4}{}'') args \<lparr>np_grouping = [], np_thousands_sep = 0\<rparr>) = Inr () \<or>
      (\<exists>e\<in>unchecked_errors. fst (vformat_to [] (str ''{:>4}{}'') args \<lparr>np_grouping = [], np_thousands_sep = 0\<rparr>) = report_error e))"
proof -
  obtain args where a: "make_format_args (map (Pair None) [arg_uint 7, arg_bool True]) = Inr args" by (simp add: make_format_args_def)
  have c: "check_format_string (str ''{:>4}{}'') (map arg_type [arg_uint 7, arg_bool True]) [] False = Inr ()" by code_simp
  show ?thesis using a checked_strings_format[OF a _ _ c] by auto
qed

subsection \<open>Text and braces\<close>

text \<open>A text with every brace doubled, as the format strings require.\<close>

fun quote_braces :: "bytes \<Rightarrow> bytes" where
  "quote_braces [] = []"
| "quote_braces (c # s) = (if c = ascii CHR ''{'' \<or> c = ascii CHR ''}'' then [c, c] else [c]) @ quote_braces s"

lemma text_step: "on_text (format_handler_of args np) tx s = (Inr (), s\<lparr>fh_out := fh_out s @ tx\<rparr>)"
  by (simp add: format_handler_of_def in_out_def)

lemma quoted_loop:
  "format_loop (format_handler_of args np) tx (quote_braces p) s = (Inr (), s\<lparr>fh_out := fh_out s @ tx @ p\<rparr>)"
  by (induction p arbitrary: tx s)
    (simp_all add: format_loop.simps text_step parse_replacement_field_def sbind_def sreturn_def)

text \<open>
  A text whose braces are doubled is formatted as itself, byte for byte, whatever the arguments: nothing else in a format string is special.
\<close>

theorem quoted_text_is_itself: "vformat_to buf (quote_braces p) args np = (Inr (), buf @ p)"
  by (simp add: vformat_to_def parse_format_string_def quoted_loop)

subsection \<open>Accepted when compiled, refused when run\<close>

definition plain_punct :: numpunct where
  "plain_punct = \<lparr>np_grouping = [], np_thousands_sep = 0\<rparr>"

definition format_all :: "bytes \<Rightarrow> (bytes option \<times> fmt_arg) list \<Rightarrow> bytes result" where
  "format_all fmt as = rbind (make_format_args as) (\<lambda>args. case vformat_to [] fmt args plain_punct of (r, out) \<Rightarrow> rbind r (\<lambda>_. Inr out))"

text \<open>A name does not count as manual numbering for the check, and it does for the run.\<close>

lemma name_then_automatic:
  "check_format_string (str ''{a}{}'') [string_type, string_type] [(str ''a'', 0)] False = Inr ()"
  "format_all (str ''{a}{}'') [(Some (str ''a''), arg_string (str ''x'')), (None, arg_string [])] =
     report_error ''cannot switch from manual to automatic argument indexing''"
  by code_simp+

text \<open>A width given by a \<open>bool\<close>, and a width given by a name that no argument has.\<close>

lemma accepted_widths:
  "check_format_string (str ''{:{}}'') [int_type, bool_type] [] False = Inr ()"
  "format_all (str ''{:{}}'') [(None, arg_int 1), (None, arg_bool True)] = report_error ''width/precision is not integer''"
  "check_format_string (str ''{:{a}}'') [int_type] [] False = Inr ()"
  "format_all (str ''{:{a}}'') [(None, arg_int 1)] = report_error ''argument not found''"
  by code_simp+

end
