(* ===== verification/Formatted_Texts.thy ===== *)
theory Formatted_Texts
  imports Fmt_Checked Json_Logger Server Daily_Sink
begin

text \<open>
  Where the code calls the formatting library, the models of the program and of the logging library write the result out. Here these
  texts are what the model of the library gives for the format strings in the code.
\<close>

subsection \<open>A format string, piece by piece\<close>

definition fmt_run :: "bytes \<Rightarrow> format_args \<Rightarrow> numpunct \<Rightarrow> int \<Rightarrow> bytes \<Rightarrow> bytes \<Rightarrow> bytes \<Rightarrow> unit result \<times> bytes" where
  "fmt_run F args np k tx p out =
     (case format_loop (format_handler_of args np) tx p
             \<lparr>fh_parse_ctx = \<lparr>pc_fmt = F, pc_next_arg_id = k, pc_types = None\<rparr>, fh_out = out\<rparr> of
        (r, s) \<Rightarrow> (r, fh_out s))"

lemma vformat_run: "vformat_to buf fmt args np = fmt_run fmt args np 0 [] fmt buf"
  by (simp add: vformat_to_def fmt_run_def parse_format_string_def new_parse_context_def)

lemma run_end: "fmt_run F args np k tx [] out = (Inr (), out @ tx)"
  by (simp add: fmt_run_def format_loop.simps text_step)

lemma run_char: "c \<noteq> 123 \<Longrightarrow> c \<noteq> 125 \<Longrightarrow> fmt_run F args np k tx (c # p) out = fmt_run F args np k (tx @ [c]) p out"
  by (simp add: fmt_run_def format_loop.simps)

lemma run_brace: "c = 123 \<or> c = 125 \<Longrightarrow> fmt_run F args np k tx (c # c # p) out = fmt_run F args np k [] p (out @ tx @ [c])"
  by (auto simp: fmt_run_def format_loop.simps text_step parse_replacement_field_def sbind_def sreturn_def)

lemma run_literal:
  "\<exists>tx' out'. fmt_run F args np k tx (quote_braces t @ p) out = fmt_run F args np k tx' p out' \<and> out' @ tx' = out @ tx @ t"
proof (induction t arbitrary: tx out)
  case (Cons c t)
  show ?case
  proof (cases "c = 123 \<or> c = 125")
    case True
    then show ?thesis using Cons.IH[of "[]" "out @ tx @ [c]"] run_brace[OF True, of F args np k tx "quote_braces t @ p" out] by auto
  next
    case False
    then show ?thesis using Cons.IH[of "tx @ [c]" out] run_char[of c F args np k tx "quote_braces t @ p" out] by simp
  qed
qed auto

lemma next_id_step: "0 \<le> k \<Longrightarrow> next_arg_id \<lparr>pc_fmt = F, pc_next_arg_id = k, pc_types = None\<rparr> = (Inr k, \<lparr>pc_fmt = F, pc_next_arg_id = k + 1, pc_types = None\<rparr>)"
  by (simp add: next_arg_id_def do_check_arg_id_def sbind_def sget_def supdate_def slift_def sreturn_def)

lemma run_field:
  assumes "args_of as args" "k < length as" "appends_out (default_arg_formatter np (as ! k)) x"
  shows "fmt_run F args np (int k) tx (123 # 125 # p) out = fmt_run F args np (int (Suc k)) [] p (out @ tx @ x)"
  using get_arg_at_eq[OF assms(1), of "int k"] assms(2,3)
  by (simp add: fmt_run_def format_loop.simps text_step parse_replacement_field_def format_handler_of_def in_parse_ctx_def in_out_def next_id_step
      sbind_def sreturn_def slift_def appends_out_def add.commute)

text \<open>What follows the colon, read up to the closing brace.\<close>

definition specs_parse :: "fmt_type \<Rightarrow> bytes \<Rightarrow> dynamic_format_specs \<Rightarrow> bool" where
  "specs_parse ty sp specs \<longleftrightarrow> (\<forall>rest c. parse_format_specs ty (sp @ 125 # rest) new_dynamic_specs c = (Inr (125 # rest, specs), c))"

lemma run_specs:
  assumes "args_of as args" "k < length as" "specs_parse (arg_type (as ! k)) sp specs" "\<not> spec_dynamic specs"
    "appends_out (arg_formatter np (as ! k) specs) x"
  shows "fmt_run F args np (int k) tx (123 # 58 # sp @ 125 # p) out = fmt_run F args np (int (Suc k)) [] p (out @ tx @ x)"
proof -
  have "arg_none \<notin> set as" using assms(1) by (simp add: args_of_def)
  then have "as ! k \<noteq> arg_none" using nth_mem[OF assms(2)] by metis
  then have "get_arg args (int k) = Inr (as ! k)" using get_arg_at_eq[OF assms(1), of "int k"] assms(2) by (simp add: get_arg_def)
  moreover have "(58 :: byte) \<noteq> 125" "(58 :: byte) \<noteq> 123" by simp_all
  ultimately show ?thesis
    using assms(3-5)
    by (simp add: fmt_run_def format_loop.simps text_step parse_replacement_field_def parse_field_specs_def format_handler_of_def format_with_specs_def
        in_parse_ctx_def in_out_def next_id_step resolve_dynamic_def specs_parse_def sbind_def sreturn_def slift_def appends_out_def add.commute)
qed

subsection \<open>Templates\<close>

text \<open>A text, a field \<open>{}\<close>, or a field \<open>{:0w}\<close> with a width of one digit.\<close>

datatype piece = Literal bytes | Field | Zeros nat

fun piece_text :: "piece \<Rightarrow> bytes" where
  "piece_text (Literal t) = quote_braces t"
| "piece_text Field = [123, 125]"
| "piece_text (Zeros w) = [123, 58, 48, of_nat (48 + w), 125]"

definition template :: "piece list \<Rightarrow> bytes" where
  "template ps = concat (map piece_text ps)"

definition signed_text :: "bool \<Rightarrow> 'a::len word \<Rightarrow> bytes" where
  "signed_text sg v = (if sg \<and> sint v < 0 then [45] else []) @ dec_digits (abs_nat sg v)"

fun arg_text :: "fmt_arg \<Rightarrow> bytes option" where
  "arg_text arg_none = None"
| "arg_text (arg_int v) = Some (signed_text True v)"
| "arg_text (arg_uint v) = Some (signed_text False v)"
| "arg_text (arg_long_long v) = Some (signed_text True v)"
| "arg_text (arg_ulong_long v) = Some (signed_text False v)"
| "arg_text (arg_int128 v) = Some (signed_text True v)"
| "arg_text (arg_uint128 v) = Some (signed_text False v)"
| "arg_text (arg_bool b) = Some (if b then str ''true'' else str ''false'')"
| "arg_text (arg_char c) = Some [c]"
| "arg_text (arg_cstring addr s) = (if addr \<noteq> 0 then Some s else None)"
| "arg_text (arg_string s) = Some s"
| "arg_text (arg_pointer p) = Some (str ''0x'' @ base_digits False 4 (unat p))"

fun zeros_text :: "nat \<Rightarrow> fmt_arg \<Rightarrow> bytes option" where
  "zeros_text w (arg_int v) = (if 1 \<le> w \<and> w \<le> 9 then Some (fmt_zeros w (sint v)) else None)"
| "zeros_text w _ = None"

text \<open>What a template gives: texts as they are, fields by the arguments in turn; nothing when an argument is missing or has no text.\<close>

fun filled :: "piece list \<Rightarrow> fmt_arg list \<Rightarrow> bytes option" where
  "filled [] as = Some []"
| "filled (Literal t # ps) as = map_option ((@) t) (filled ps as)"
| "filled (Field # ps) (a # as) = (case arg_text a of None \<Rightarrow> None | Some x \<Rightarrow> map_option ((@) x) (filled ps as))"
| "filled (Zeros w # ps) (a # as) = (case zeros_text w a of None \<Rightarrow> None | Some x \<Rightarrow> map_option ((@) x) (filled ps as))"
| "filled _ [] = None"

lemma padded_nothing: "spec_width sp = 0 \<Longrightarrow> padded_text d sp w x = x"
  by (simp add: padded_text_def left_share_def split: fmt_align.split)

lemma plain_integer_text: "write_plain_integer sg v out = Inr (out @ signed_text sg v)"
  using appends_plain_integer[of sg v] by (simp add: signed_text_def appends_out_def)

lemma arg_text_written: "arg_text a = Some x \<Longrightarrow> appends_out (default_arg_formatter np a) x"
proof -
  have ok: "width_ok new_specs" "fill_ok new_specs" by (simp_all add: width_ok_def fill_ok_def new_specs_getters INT_MAX_def)
  have b: "appends_out (fmt_write_bool np v new_specs) (if v then str ''true'' else str ''false'')" for v
    using appends_bytes[OF ok, of "if v then str ''true'' else str ''false''"]
    by (cases v) (simp_all add: fmt_write_bool_def appends_out_def padded_nothing new_specs_getters pres_defs)
  have p: "appends_out (fmt_write_ptr v (Some new_specs)) (str ''0x'' @ base_digits False 4 (unat v))" for v
    using appends_ptr(1)[OF ok, of v] by (simp add: padded_nothing new_specs_getters)
  show "arg_text a = Some x \<Longrightarrow> ?thesis"
    using b p by (cases a) (auto simp: appends_out_def plain_integer_text split: if_splits)
qed

definition zeros_specs :: "nat \<Rightarrow> dynamic_format_specs" where
  "zeros_specs w = set_dynamic_width id_none ((set_fill_char 48 (set_align align_numeric new_dynamic_specs))\<lparr>spec_width := int w\<rparr>)"

lemma zero_step:
  "specs_step int_type 48 48 rest st_start new_dynamic_specs c =
     (Inr (Go rest st_zero (set_fill_char 48 (set_align align_numeric new_dynamic_specs))), c)"
  by (simp add: specs_step_def str_def slift_def enter_state_def is_arithmetic_type_def spec_simps)

lemma width_step:
  assumes "1 \<le> w" "w \<le> 9"
  shows "specs_step int_type (of_nat (48 + w)) (of_nat (48 + w)) (125 # rest) st_zero sp c =
     (Inr (Go (125 # rest) st_width (set_dynamic_width id_none (sp\<lparr>spec_width := int w\<rparr>))), c)"
proof -
  define d :: byte where "d = of_nat (48 + w)"
  have w: "w \<in> {1, 2, 3, 4, 5, 6, 7, 8, 9}" using assms by auto
  have d: "d \<in> set (str ''123456789{'')" "fmt_is_digit d" "unat d - 48 = w" using w by (auto simp: d_def str_def fmt_is_digit_def)
  have "parse_nonnegative_int ([d] @ 125 # rest) (-1) = Inr (int w, 125 # rest)"
    using nonnegative_int_exact[of "[d]" "125 # rest" "-1"] d(2,3) assms by (simp add: fmt_is_digit_def dec_value_def INT_MAX_def)
  then show ?thesis
    unfolding d_def[symmetric]
    using d(2) by (simp add: spec_step_width[OF d(1)] parse_width_def parse_dynamic_spec_def enter_state_def sbind_def slift_def sreturn_def)
qed

lemma close_step: "specs_step ty 125 125 rest cur sp c = (Inr (Stop (125 # rest) sp), c)"
  by (simp add: specs_step_def presentation_turn_def str_def sreturn_def)

lemma zeros_parse: 
  assumes "1 \<le> w" "w \<le> 9"
  shows "specs_parse int_type [48, of_nat (48 + w)] (zeros_specs w)"
proof -
  define d :: byte where "d = of_nat (48 + w)"
  have "w \<in> {1, 2, 3, 4, 5, 6, 7, 8, 9}" using assms by auto
  then have "parse_align d = align_none" by (auto simp: d_def parse_align_def)
  then show ?thesis
    using width_step[OF assms] unfolding d_def[symmetric]
    by (simp add: specs_parse_def parse_format_specs_def specs_loop.simps zero_step close_step zeros_specs_def)
qed

lemma zeros_specs_getters:
  "spec_width (zeros_specs w) = int w" "spec_precision (zeros_specs w) = -1" "spec_align (zeros_specs w) = align_numeric"
  "spec_sign (zeros_specs w) = sign_none" "\<not> spec_alt (zeros_specs w)" "spec_type (zeros_specs w) = pres_none" "\<not> spec_localized (zeros_specs w)"
  "fill_size (zeros_specs w) = 1" "fill_data (zeros_specs w) = [48, 0, 0, 0]" "dynamic_width (zeros_specs w) = id_none"
  "dynamic_precision (zeros_specs w) = id_none"
  by (simp_all add: zeros_specs_def spec_simps set_fill_char_def pres_defs)

lemma zeros_not_dynamic: "\<not> spec_dynamic (zeros_specs w)"
  by (simp add: zeros_specs_def spec_dynamic_def set_dynamic_width_def put_bits_def set_fill_char_def set_fill_size_def set_align_def new_dynamic_specs_def
      new_format_specs_def new_basic_specs_def mask_defs basic_specs.defs format_specs.defs)

lemma zeros_layout:
  assumes "1 \<le> w"
  shows "int_layout (i < 0) (nat \<bar>i\<bar>) (zeros_specs w) = fmt_zeros w i"
  using assms
  by (auto simp: int_layout_def Let_def numeric_zeros_def padded_text_def left_share_def sign_text_def base_prefix_def int_text_def zeros_specs_getters
      fmt_zeros_def pad_zeros_def pres_defs str_def)

lemma zeros_text_written:
  assumes "zeros_text w a = Some x"
  shows "specs_parse (arg_type a) [48, of_nat (48 + w)] (zeros_specs w) \<and> appends_out (arg_formatter np a (zeros_specs w)) x"
proof -
  obtain v where a: "a = arg_int v" "1 \<le> w" "w \<le> 9" "x = fmt_zeros w (sint v)" using assms by (cases a) (auto split: if_splits)
  have ok: "width_ok (zeros_specs w)" "fill_ok (zeros_specs w)" "-1 \<le> spec_precision (zeros_specs w)" "number_type (zeros_specs w)"
    using a(2,3) by (simp_all add: width_ok_def fill_ok_def zeros_specs_getters INT_MAX_def number_type_def)
  have n: "abs_nat True v = nat \<bar>sint v\<bar>"
    by (cases "sint v < 0") (simp_all add: abs_nat_def unat_nonneg_word)
  show ?thesis
    using appends_int[OF ok, of True v] zeros_parse[OF a(2,3)] zeros_layout[OF a(2), of "sint v"]
    by (simp add: a n write_integer_def zeros_specs_getters appends_out_def)
qed

lemma filled_run:
  assumes "args_of as args"
  shows "filled ps (drop k as) = Some x \<Longrightarrow> fmt_run F args np (int k) tx (template ps) out = (Inr (), out @ tx @ x)"
proof (induction ps arbitrary: k tx out x)
  case Nil
  then show ?case by (simp add: template_def run_end)
next
  case (Cons q ps)
  have t: "template (q # ps) = piece_text q @ template ps" by (simp add: template_def)
  have nxt: "k < length as \<and> drop k as = as ! k # drop (Suc k) as" if "drop k as \<noteq> []"
    using that by (simp add: Cons_nth_drop_Suc)
  show ?case
  proof (cases q)
    case (Literal s)
    then obtain y where y: "x = s @ y" "filled ps (drop k as) = Some y" using Cons.prems by auto
    obtain tx' out' where "fmt_run F args np (int k) tx (quote_braces s @ template ps) out = fmt_run F args np (int k) tx' (template ps) out'" "out' @ tx' = out @ tx @ s"
      using run_literal by blast
    then show ?thesis using Cons.IH[OF y(2), of tx' out'] y(1) t Literal by simp
  next
    case Field
    then have "drop k as \<noteq> []" using Cons.prems by auto
    note d = nxt[OF this]
    then obtain u y where y: "arg_text (as ! k) = Some u" "x = u @ y" "filled ps (drop (Suc k) as) = Some y"
      using Cons.prems Field by (auto split: option.splits)
    show ?thesis
      using run_field[OF assms _ arg_text_written[OF y(1)], of F np tx "template ps" out] d Cons.IH[OF y(3), of "[]" "out @ tx @ u"] y(2) t Field by simp
  next
    case (Zeros w)
    then have "drop k as \<noteq> []" using Cons.prems by auto
    note d = nxt[OF this]
    then obtain u y where y: "zeros_text w (as ! k) = Some u" "x = u @ y" "filled ps (drop (Suc k) as) = Some y"
      using Cons.prems Zeros by (auto split: option.splits)
    note z = zeros_text_written[OF y(1)]
    have dyn: "\<not> spec_dynamic (zeros_specs w)" by (rule zeros_not_dynamic)
    show ?thesis
      using run_specs[OF assms _ conjunct1[OF z] dyn conjunct2[OF z], of F np tx "template ps" out] d Cons.IH[OF y(3), of "[]" "out @ tx @ u"] y(2) t Zeros by simp
  qed
qed

text \<open>\<open>fmt::format_to\<close> behind what \<open>buf\<close> holds, with arguments that have no names; \<open>fmt::format\<close> starts with an empty buffer.\<close>

definition fmt_format_to :: "numpunct \<Rightarrow> bytes \<Rightarrow> bytes \<Rightarrow> fmt_arg list \<Rightarrow> unit result \<times> bytes" where
  "fmt_format_to np buf fmt as =
     (case make_format_args (map (Pair None) as) of Inl e \<Rightarrow> (Inl e, buf) | Inr args \<Rightarrow> vformat_to buf fmt args np)"

definition fmt_format :: "numpunct \<Rightarrow> bytes \<Rightarrow> fmt_arg list \<Rightarrow> bytes result" where
  "fmt_format np fmt as = (case fmt_format_to np [] fmt as of (r, out) \<Rightarrow> rbind r (\<lambda>_. Inr out))"

lemma unnamed_args: "init_named_args acc i (replicate n None) = Inr acc"
  by (induction n arbitrary: i) simp_all

lemma filled_format:
  assumes "filled ps as = Some x" "length as < 2 ^ 31" "arg_none \<notin> set as"
  shows "fmt_format_to np buf (template ps) as = (Inr (), buf @ x)"
proof -
  have "map fst (map (Pair (None :: bytes option)) as) = replicate (length as) None" by (induction as) simp_all
  then have "\<exists>args. make_format_args (map (Pair None) as) = Inr args" by (simp add: make_format_args_def unnamed_args)
  then obtain args where args: "make_format_args (map (Pair None) as) = Inr args" ..
  have "\<forall>a\<in>set (map (Pair (None :: bytes option)) as). snd a \<noteq> arg_none" using assms(3) by auto
  then have "args_of as args" using make_format_args_of[OF args] assms(2) by (simp add: comp_def)
  from filled_run[OF this, of ps 0 x "template ps" np "[]" buf] show ?thesis using assms(1) args by (simp add: fmt_format_to_def vformat_run)
qed

text \<open>
  C39. A format string made of text and fields formats to the text with the fields replaced by the arguments in turn: text as it is, numbers
  in decimal, with leading zeros where asked for, booleans, characters, strings and pointers as their texts, behind whatever the
  buffer holds.
\<close>

theorem templates_are_filled:
  assumes "filled ps as = Some x" "length as < 2 ^ 31" "arg_none \<notin> set as"
  shows "fmt_format_to np buf (template ps) as = (Inr (), buf @ x)"
  by (rule filled_format[OF assms])

theorem templates_are_filled_witness:
  "fmt_format_to plain_punct [] (str ''a {} b'') [arg_string (str ''x'')] = (Inr (), str ''a x b'')"
proof -
  have "template [Literal (str ''a ''), Field, Literal (str '' b'')] = str ''a {} b''" by (simp add: template_def str_def)
  moreover have "filled [Literal (str ''a ''), Field, Literal (str '' b'')] [arg_string (str ''x'')] = Some (str ''a x b'')" by (simp add: str_def)
  ultimately show ?thesis using templates_are_filled[of "[Literal (str ''a ''), Field, Literal (str '' b'')]" "[arg_string (str ''x'')]" _ plain_punct "[]"] by simp
qed

subsection \<open>The texts of the program\<close>

text \<open>\<open>main_server.cpp\<close>: the connection string. A variable that is not set is replaced by a literal; neither pointer is null.\<close>

lemma conninfo_formatted:
  assumes "0 \<notin> {a1, a2, a3, a4, a5}"
  shows "fmt_format np (str ''host={} port={} user={} password={} dbname={}'')
     [arg_cstring a1 (getenv_or getenv (str ''DB_URL'') (str ''127.0.0.1'')), arg_cstring a2 (getenv_or getenv (str ''DB_PORT'') (str ''5432'')),
      arg_cstring a3 (getenv_or getenv (str ''DB_USER'') (str ''postgres'')), arg_cstring a4 (getenv_or getenv (str ''DB_PASSWORD'') (str ''postgres'')),
      arg_cstring a5 (getenv_or getenv (str ''DB_NAME'') (str ''postgres''))] = Inr (main_conninfo getenv)"
proof -
  let ?ps = "[Literal (str ''host=''), Field, Literal (str '' port=''), Field, Literal (str '' user=''), Field, Literal (str '' password=''), Field,
    Literal (str '' dbname=''), Field]"
  have t: "template ?ps = str ''host={} port={} user={} password={} dbname={}''" by (simp add: template_def str_def)
  show ?thesis
    using assms unfolding fmt_format_def t[symmetric] by (subst filled_format) (simp_all add: main_conninfo_def)
qed

text \<open>\<open>Packet.hpp\<close>: the line of a dump.\<close>

lemma dump_formatted:
  assumes "length bs < 2 ^ 64"
  shows "fmt_format np (str ''{} opcode ID: {} ({} bytes) RAW: {}'')
     [arg_string pre, arg_string opcode, arg_ulong_long (of_nat (length bs)), arg_string (hex_dump bs)] =
   Inr (log_raw_payload opcode bs pre)"
proof -
  let ?ps = "[Field, Literal (str '' opcode ID: ''), Field, Literal (str '' (''), Field, Literal (str '' bytes) RAW: ''), Field]"
  have t: "template ?ps = str ''{} opcode ID: {} ({} bytes) RAW: {}''" by (simp add: template_def str_def)
  have "unat (of_nat (length bs) :: u64) = length bs" using assms by (simp add: unsigned_of_nat take_bit_nat_eq_self)
  then show ?thesis
    unfolding fmt_format_def t[symmetric] by (subst filled_format) (simp_all add: log_raw_payload_def signed_text_def abs_nat_def)
qed

text \<open>\<open>Logger.hpp\<close>: the line of the JSON formatter.\<close>

definition json_string :: bytes where
  "json_string = str ''{{'' @ [34] @ str ''timestamp'' @ [34, 58, 34] @ str ''{}.{:03}{:03}'' @ [34, 44, 34] @ str ''level'' @ [34, 58, 34] @ str ''{}'' @
     [34, 44, 34] @ str ''thread_id'' @ [34, 58] @ str ''{},{} }}'' @ [10]"

definition json_args :: "u64 \<Rightarrow> (int \<Rightarrow> bytes) \<Rightarrow> log_msg \<Rightarrow> fmt_arg list" where
  "json_args time_buf local_date msg =
     (let tp = lm_time msg; s = to_seconds tp; ms = to_millis tp - 1000 * s; ns = tp - 1000000 * to_millis tp in
      [arg_cstring time_buf (local_date s), arg_int (word_of_int ms), arg_int (word_of_int ns), arg_string (to_string_view (lm_level msg)),
       arg_ulong_long (of_nat (lm_thread_id msg)), arg_string (lm_payload msg)])"

definition json_pieces :: "piece list" where
  "json_pieces = [Literal ([123, 34] @ str ''timestamp'' @ [34, 58, 34]), Field, Literal (str ''.''), Zeros 3, Zeros 3,
     Literal ([34, 44, 34] @ str ''level'' @ [34, 58, 34]), Field, Literal ([34, 44, 34] @ str ''thread_id'' @ [34, 58]), Field, Literal (str '',''), Field,
     Literal [32, 125, 10]]"

lemma json_template: "template json_pieces = json_string"
  by (simp add: template_def json_pieces_def json_string_def str_def)

lemma small_fractions:
  "\<bar>to_millis tp - 1000 * to_seconds tp\<bar> < 1000" "\<bar>tp - 1000000 * to_millis tp\<bar> < 1000000"
proof -
  have d: "n div 1000000 - 1000 * (n div 1000000000) = n div 1000000 mod 1000" for n :: int
    using div_mult_mod_eq[of "n div 1000000" 1000] by (simp add: zdiv_zmult2_eq[symmetric] algebra_simps)
  have m: "n - 1000000 * (n div 1000000) = n mod 1000000" for n :: int by (simp add: minus_mult_div_eq_mod)
  show "\<bar>to_millis tp - 1000 * to_seconds tp\<bar> < 1000"
  proof (cases "tp \<ge> 0")
    case True
    then show ?thesis using d[of tp] by (simp add: to_millis_def to_seconds_def)
  next
    case False
    then have "to_millis tp - 1000 * to_seconds tp = - ((- tp) div 1000000 mod 1000)" using d[of "- tp"] by (simp add: to_millis_def to_seconds_def)
    then show ?thesis by simp
  qed
  show "\<bar>tp - 1000000 * to_millis tp\<bar> < 1000000"
  proof (cases "tp \<ge> 0")
    case True
    then show ?thesis using m[of tp] by (simp add: to_millis_def)
  next
    case False
    then have "tp - 1000000 * to_millis tp = - ((- tp) mod 1000000)" using m[of "- tp"] by (simp add: to_millis_def)
    then show ?thesis by simp
  qed
qed

lemma sint_of_small: "\<bar>i\<bar> < 1000000 \<Longrightarrow> sint (word_of_int i :: u32) = i"
  by (rule sint_word_of_int_range) simp_all

text \<open>
  C15. Every line of the log is what formatting gives: the string and the arguments in \<open>JsonFormatter::format\<close> give the line that the
  model of the logger writes, for every message, also before the epoch, appended to what the buffer holds.
\<close>

theorem json_lines_are_formatted:
  assumes "time_buf \<noteq> 0" "lm_thread_id msg < 2 ^ 64"
  shows "fmt_format_to np dest json_string (json_args time_buf local_date msg) = (Inr (), dest @ json_format local_date msg)"
proof -
  let ?tp = "lm_time msg"
  have s: "sint (word_of_int (to_millis ?tp - 1000 * to_seconds ?tp) :: u32) = to_millis ?tp - 1000 * to_seconds ?tp"
    "sint (word_of_int (?tp - 1000000 * to_millis ?tp) :: u32) = ?tp - 1000000 * to_millis ?tp"
    by (rule sint_of_small; use small_fractions[of ?tp] in linarith)+
  have u: "unat (of_nat (lm_thread_id msg) :: u64) = lm_thread_id msg" using assms(2) by (simp add: unsigned_of_nat take_bit_nat_eq_self)
  have z: "fmt_zeros 3 i = fmt_03 i" for i by (simp add: fmt_zeros_def fmt_03_def)
  have "filled json_pieces (json_args time_buf local_date msg) = Some (json_format local_date msg)"
    using assms(1) by (simp add: json_pieces_def json_args_def json_format_def Let_def s u z signed_text_def abs_nat_def str_def del: of_int_diff of_int_mult)
  then show ?thesis unfolding json_template[symmetric] by (rule filled_format) (simp_all add: json_args_def Let_def)
qed

theorem json_lines_are_formatted_witness:
  "fmt_format_to plain_punct (str ''x'') json_string (json_args 1 (\<lambda>_. str ''now'') sample_msg) = (Inr (), str ''x'' @ json_format (\<lambda>_. str ''now'') sample_msg)"
  by (rule json_lines_are_formatted) (simp_all add: sample_msg_def)

end
