(* ===== verification/Spec2Isabelle.thy ===== *)
theory Spec2Isabelle
  imports Login Server Json_Logger Daily_Sink Global_Log Generators Fmt_Buffer Formatted_Texts
begin

text \<open>
  Verification of Purity, a TCP server with an authentication stage (SRP6) and a work stage, its
  client, and the logging library it carries. Paths below are relative to the repository.

  \<^bold>\<open>The program.\<close> \<open>src/main_server.cpp\<close> starts the logger, opens a pool of database connections and runs
  \<open>Server\<close>, which accepts connections and makes a \<open>ClientSession\<close> of each. A session receives into a
  \<open>MessageBuffer\<close>; a reader (one per stage) cuts it into packets; a table of handlers answers them by
  packets that go through the session's write queue. Authentication uses \<open>SRP6\<close>, the \<open>AccountCache\<close> and
  the \<open>Database\<close>. \<open>src/main_client.cpp\<close> runs \<open>Client\<close>, which connects, logs in, pings and reconnects.
  Both log through \<open>src/common/Logger.hpp\<close>, that is, through the asynchronous logger of \<open>spdlog\<close>.

  \<^bold>\<open>The theories.\<close>
  \<^item> \<open>Purity_Prelude\<close>: machine types, outcomes (a value, an exception, undefined behaviour), operations
    with state, integers in memory, decimal text. \<open>rbind\<close> and \<open>sbind\<close> run one call after another,
    \<open>scatch\<close> is \<open>try ... catch (const std::exception&)\<close>.
  \<^item> \<open>Byte_Buffer\<close>, \<open>Message_Buffer\<close>, \<open>Packets\<close>: \<open>src/common/packet\<close> and the two packet classes and
    opcode tables under \<open>src/server/SessionMode\<close>. Fields and packets are read back as they were written,
    on hosts of any byte order; a read leaves the vector only where the sum in its bounds check wraps; the receive buffer is a byte stream.
  \<^item> \<open>Text_Utils\<close>, \<open>Utf8_Utils\<close>: \<open>src/common/utils\<close>: hex, addresses, UTF-8 checks and case mapping.
  \<^item> \<open>Srp6\<close>: \<open>src/common/srp6\<close>; the functions of OpenSSL are the record \<open>openssl\<close>, with their documented
    laws as the hypothesis \<open>openssl_ok\<close>.
  \<^item> \<open>Account_Cache\<close>: the cache refines a map whose entries expire.
  \<^item> \<open>Database_Pool\<close>, \<open>Query_Results\<close>: \<open>src/common/database\<close> and \<open>TimeUtils\<close>; libpqxx is the record \<open>pqxx\<close>.
    No connection is ever used twice at a time.
  \<^item> \<open>Session\<close>, \<open>Sending\<close>, \<open>Session_Properties\<close>: \<open>src/server/ClientSession\<close>, the readers and handlers under
    \<open>src/server/SessionMode\<close>. The completion handlers are the steps of \<open>session_reach\<close>. How every
    handler ends, an invariant of the state, order of sending, answers to the logon messages.
    \<open>Sending\<close> holds the contract of an ordered sender, which the session and the client fulfil.
  \<^item> \<open>Client\<close>, \<open>Client_Properties\<close>: \<open>src/Client\<close> and \<open>src/main_client.cpp\<close>: the handlers as steps; how every
    handler ends, delivery in order across reconnections, and the client never stops trying.
  \<^item> \<open>Login\<close>: client, two byte streams and session together: there is a run that logs in, and what a reconnection does to the mode.
  \<^item> \<open>Server\<close>: \<open>src/server/Server.cpp\<close> and \<open>src/main_server.cpp\<close>: the accept handler and \<open>stop\<close> in sections
    that interleave with everything else; the set of open sessions is exact until it is cleared, and what \<open>stop\<close> leaves open.
  \<^item> \<open>Circular_Queue\<close>, \<open>Blocking_Queue\<close>, \<open>Log_Core\<close>, \<open>Thread_Pool\<close>, \<open>File_Sink\<close>, \<open>Rotation\<close>, \<open>Registry\<close>:
    the part of \<open>deps/spdlog-1.15.3/include/spdlog\<close> that the program runs: the ring buffer, the blocking queue with its
    threads, levels, messages, loggers and backtrace, the thread pool and the asynchronous logger, the file helper and
    the console and file sinks, the table of loggers. What a sink must fulfil is the locale \<open>sink_contract\<close>; the console,
    file and rotating sinks and the program's pair of sinks are its instances.
  \<^item> \<open>Flag_Formatters\<close>, \<open>Pattern_Formatter\<close>: \<open>pattern_formatter-inl.h\<close>, \<open>fmt_helper.h\<close>, \<open>mdc.h\<close>: every flag, the padding, the
    compilation of a pattern. Every pattern compiles to well-formed flags that format without undefined behaviour; the caches of
    broken-down time and date cannot be seen in the output; the default formatter prints what its pattern prints.
  \<^item> \<open>Sinks\<close>, \<open>Daily_Sink\<close>: the other sinks under \<open>sinks/\<close>: base, null, callback, stream, colour, ring buffer, distributing,
    duplicate filter, daily and hourly. The duplicate filter accounts for every message; the daily sink keeps the newest files.
  \<^item> \<open>Periodic_Worker\<close>, \<open>Global_Log\<close>: \<open>details/periodic_worker\<close> as a step relation of the worker and its owner, the factories and
    the global functions of \<open>spdlog.h\<close>. Destroying a worker ends; a created logger has the configuration of the registry.
  \<^item> \<open>Fmt_Int\<close>, \<open>Fmt_Utf8\<close>, \<open>Fmt_Specs\<close>, \<open>Fmt_Parse\<close>, \<open>Fmt_Escape\<close>, \<open>Fmt_Write\<close>, \<open>Fmt_Format\<close>: the formatting library under
    \<open>fmt/bundled\<close> (\<open>base.h\<close>, \<open>format.h\<close>, \<open>format-inl.h\<close>), bottom up: digits, code points and display width, specifications packed
    in a word, the parser of format strings, quoting, the writers of integers, texts, characters and pointers, packed and named
    arguments, \<open>vformat_to\<close> and the check at compile time. The parser is the same for both, with a handler as its argument,
    as in the code. \<open>Fmt_Check\<close> holds the invariant of a parsed specification, \<open>Fmt_Safety\<close> that no format string leads to
    undefined behaviour, \<open>Fmt_Checked\<close> that formatting follows the check.
  \<^item> \<open>Fmt_Buffer\<close>: the output buffers behind it: whatever is written in whatever pieces, each has the concatenation, up to its limit. So the
    formatting functions can take their output to be a list.
  \<^item> \<open>Formatted_Texts\<close>: format strings made of text and fields are filled in; the texts that the program and the logger get from
    the library (the JSON line, the connection string, the packet dump), which the other theories write out, are what it gives.
  \<^item> \<open>Generators\<close>: \<open>src/common/utils/generators\<close>: each function returns the number drawn, uncut.
  \<^item> \<open>Json_Logger\<close>: \<open>src/common/Logger.hpp\<close>: the JSON text of a call, the formatter, the constructor; everything that is
    logged arrives once, in order.

  \<^bold>\<open>Locales.\<close> \<open>bounded_fifo\<close> (the ring buffer), \<open>ordered_sender\<close> (session and client), \<open>sink_contract\<close> (the sinks),
    \<open>packed_field\<close> (the fields of a specification), \<open>handler_contract\<close> and \<open>handler_sim\<close> (the handlers of a format string, one by one and
    against each other), \<open>output_buffer\<close> (the five kinds of buffer) and those of the packet, cache and pool theories state what a component promises to its clients.

  \<^bold>\<open>Bounds and loops.\<close> \<open>size_t\<close> values are natural numbers with the reduction modulo \<open>2 ^ 64\<close> written out where
  a sum can wrap; theorems that need it assume sizes below that. Loops over data are recursive functions with
  a termination proof. The worker loop of the pool and the loop over the backtrace, which need not end, are partial functions;
  that they end is proved. \<open>read_members\<close> has the length of its text as fuel, and each turn takes at least one byte.

  \<^bold>\<open>Assumptions about the surroundings.\<close> OpenSSL and libpqxx behave as documented (\<open>openssl_ok\<close>, \<open>pqxx_defined\<close>). Nothing is assumed about
  when \<open>co_spawn\<close> starts a coroutine: it is a field of the environment, and both cases are covered. The handlers of one session, and
  those of the client, run one after the other, as with one I/O thread or a strand, and posted handlers in the order of posting; the program
  has no strand, and on several threads they may race, which the theorems do not cover. A write that fails has
  put nothing on the wire, although \<open>async_write\<close> may have written a part of the buffer. \<open>cs_sent\<close> records the packets passed to \<open>send_packet\<close>
  and is read by no operation. In \<open>logger_calls\<close>, which the theorem about the backtrace uses, all calls see the same clock; in
  \<open>Json_Logger\<close> every call has its own.

  \<^bold>\<open>Where the model is wider than the code.\<close> The precision of an integer is an unbounded integer: \<open>write_int\<close> adds one to it, which overflows
  an \<open>int\<close> at its largest value; a parsed precision never has it. \<open>check_dynamic_spec\<close> also tests that the index is not negative,
  which it never is. \<open>cq_at\<close> adds the index to the head without a reduction modulo \<open>2 ^ 64\<close>, the same for queues of less than
  \<open>2 ^ 63\<close> elements, and a queue can have any size.

  \<^bold>\<open>Not modelled.\<close> Data races between I/O threads (handlers are atomic steps); the memory management
  of OpenSSL numbers; the engine of the random generators; sockets beyond the bytes and errors they deliver; the time zone; of \<open>fmt\<close>
  floating point (the shortest-digits algorithm and its tables), user-defined types and the headers built on them (\<open>chrono.h\<close>, \<open>ranges.h\<close>,
  \<open>std.h\<close>, \<open>color.h\<close>, \<open>printf.h\<close>, \<open>compile.h\<close>, \<open>xchar.h\<close>), whose results are arguments where the model needs them; the locale is the
  record \<open>numpunct\<close>. Buffering inside \<open>FILE\<close> streams; the sinks and clients for \<open>syslog\<close>, sockets and message queues and the
  Windows variants of \<open>spdlog\<close>; the test programs.
\<close>

end
